(* ===== verification/Prelude.thy ===== *)
theory Prelude
  imports Main "HOL-Library.Word" "HOL-Library.Monad_Syntax"
begin

text \<open>
  Shared vocabulary of the development: names for the machine integer types of the C++ sources,
  two's complement wrap-around of signed 64-bit results, the collections of rules the component
  theories fill, and generic facts on lists, maps and words.

  Unsigned fields are words of their width (arithmetic wraps as in C++).  Signed 64-bit fields
  (prices and balances) are integers; every arithmetic result that the code stores in an
  \<open>int64_t\<close> goes through \<open>wrap64\<close>, and \<open>in_i64\<close> says that a value is representable.
  Code that does not return normally (a dereference of a null pointer, \<open>std::terminate\<close>, or a
  loop that never ends) is the value \<open>None\<close> of an option.
\<close>

unbundle bit_operations_syntax

section \<open>Machine integers\<close>

type_synonym u8 = "8 word"
type_synonym u16 = "16 word"
type_synonym u32 = "32 word"
type_synonym u64 = "64 word"
type_synonym i64 = int
type_synonym i32 = int
type_synonym ptr = nat

definition wrap64 :: "int \<Rightarrow> i64" where
  "wrap64 x = signed_take_bit 63 x"

definition in_i64 :: "int \<Rightarrow> bool" where
  "in_i64 x \<longleftrightarrow> - (2 ^ 63) \<le> x \<and> x < 2 ^ 63"

definition INT64_MAX :: i64 where
  "INT64_MAX = 2 ^ 63 - 1"

definition INT64_MIN :: i64 where
  "INT64_MIN = - (2 ^ 63)"

definition u64_of_i64 :: "i64 \<Rightarrow> u64" where
  "u64_of_i64 x = word_of_int x"

named_theorems inv_simps \<open>unfolding rules of the component invariants\<close>
named_theorems step_simps \<open>unfolding rules of the operations of a component\<close>

section \<open>Signed wrap-around\<close>

lemma wrap64_in_i64 [simp]: "in_i64 (wrap64 x)"
  using signed_take_bit_int_greater_eq_minus_exp[of 63 x] signed_take_bit_int_less_exp[of 63 x]
  by (simp add: wrap64_def in_i64_def)

lemma wrap64_id [simp]: "in_i64 x \<Longrightarrow> wrap64 x = x"
  by (simp add: wrap64_def in_i64_def signed_take_bit_int_eq_self)

lemma wrap64_mod: "wrap64 x mod 2 ^ 64 = x mod 2 ^ 64"
proof -
  have "take_bit 64 (signed_take_bit 63 x) = take_bit 64 x"
    by (simp add: take_bit_signed_take_bit)
  then show ?thesis by (simp add: wrap64_def take_bit_eq_mod)
qed

lemma u64_of_i64_inject:
  assumes "in_i64 x" "in_i64 y"
  shows "u64_of_i64 x = u64_of_i64 y \<longleftrightarrow> x = y"
proof
  assume "u64_of_i64 x = u64_of_i64 y"
  then have "take_bit 64 x = take_bit 64 y"
    by (simp add: u64_of_i64_def word_of_int_eq_iff)
  then have "x mod 2 ^ 64 = y mod 2 ^ 64" by (simp add: take_bit_eq_mod)
  then have "(2::int) ^ 64 dvd x - y" by (simp add: mod_eq_dvd_iff)
  then obtain k where k: "x - y = 2 ^ 64 * k" by (auto simp: dvd_def)
  with assms have "k = 0" by (auto simp: in_i64_def)
  with k show "x = y" by simp
qed simp

section \<open>Truncation to 32 bits\<close>

lemma ucast32_word_of_int: "(ucast (word_of_int x :: u64) :: u32) = word_of_int x"
  by transfer (simp add: take_bit_take_bit)

lemma ucast32_uint: "(ucast (x :: u64) :: u32) = word_of_int (uint x)"
  using ucast32_word_of_int[of "uint x"] by (simp only: word_of_int_uint)

lemma ucast32_add: "(ucast (a + b :: u64) :: u32) = ucast a + ucast b"
proof -
  have "a + b = word_of_int (uint a + uint b)" by (simp only: of_int_add word_of_int_uint)
  then have "(ucast (a + b) :: u32) = ucast (word_of_int (uint a + uint b) :: u64)" by (rule arg_cong)
  also have "\<dots> = word_of_int (uint a + uint b)" by (rule ucast32_word_of_int)
  finally show ?thesis by (simp only: of_int_add ucast32_uint)
qed

lemma ucast32_diff: "(ucast (a - b :: u64) :: u32) = ucast a - ucast b"
proof -
  have "a - b = word_of_int (uint a - uint b)" by (simp only: of_int_diff word_of_int_uint)
  then have "(ucast (a - b) :: u32) = ucast (word_of_int (uint a - uint b) :: u64)" by (rule arg_cong)
  also have "\<dots> = word_of_int (uint a - uint b)" by (rule ucast32_word_of_int)
  finally show ?thesis by (simp only: of_int_diff ucast32_uint)
qed

lemma ucast32_of_32: "(ucast (ucast (x :: u32) :: u64) :: u32) = x"
  by transfer (simp add: take_bit_take_bit)

lemmas ucast32_simps = ucast32_add ucast32_diff ucast32_of_32

lemma ucast_u32_u64_inject: "(ucast a :: u64) = ucast b \<longleftrightarrow> a = (b :: u32)"
  by (metis ucast32_of_32)

lemma of_nat64_eq_0: "k < 2 ^ 64 \<Longrightarrow> (of_nat k :: u64) = 0 \<longleftrightarrow> k = 0"
  by (auto simp: word_of_nat_eq_0_iff dest: dvd_imp_le)

end
