(* ===== verification/Flat_Hash_Map.thy ===== *)
theory Flat_Hash_Map
  imports Prelude
begin

text \<open>
  The open-addressing hash map of \<open>market_server/common/include/flat_hash_map.hpp\<close>, down to the
  sixteen 8-bit lanes the SIMD instructions compare.  The four parallel arrays hold \<open>Size\<close> buckets of
  16 slots and a copy of bucket 0 behind the last one; a tag is the distance of an entry from the
  start of its home bucket, or \<open>EMPTY_MARKER\<close>.  Keys are the 64 bits of the key (both
  instantiations have 64-bit keys) and the values are pointers, null being \<open>None\<close>.

  A vector comparison is the list of the lanes where it holds, in increasing order, so
  \<open>__builtin_ctz\<close> of the mask is the head of that list; \<open>_mm_cmplt_epi8\<close> compares signed bytes.
  The loops of \<open>AddNode\<close> and \<open>DeleteNode\<close> have no bound of their own: each is a partial function,
  and \<open>None\<close> is a loop that does not end.

  The locale \<open>lookup_table\<close> states the map contract, with the room a key needs; the interpretation
  shows that the map meets it as long as no bucket receives a seventeenth key.  The last section
  shows what happens then: a seventeenth key is stored where no lookup finds it.
\<close>

section \<open>Layout\<close>

record FlatHashMap =
  fhm_Size :: nat
  fhm_FootPrints :: "u8 list"
  fhm_Tags :: "u8 list"
  fhm_Keys :: "u64 list"
  fhm_Data :: "ptr option list"

definition EMPTY_MARKER :: u8 where "EMPTY_MARKER = 0x80"

definition hash_64 :: "u64 \<Rightarrow> u64" where
  "hash_64 key = key * 0x9E3779B97F4A7C15"

definition footprint_of :: "u64 \<Rightarrow> u8" where
  "footprint_of key = ucast (drop_bit 56 (hash_64 key))"

definition fhm_total :: "FlatHashMap \<Rightarrow> nat" where
  "fhm_total m = push_bit 4 (fhm_Size m)"

definition fhm_wrap :: "FlatHashMap \<Rightarrow> nat \<Rightarrow> nat" where
  "fhm_wrap m i = i AND (fhm_total m - 1)"

definition home_bucket :: "FlatHashMap \<Rightarrow> u64 \<Rightarrow> nat" where
  "home_bucket m key = unat (hash_64 key AND (of_nat (fhm_Size m) - 1))"

definition FlatHashMap_init :: "nat \<Rightarrow> FlatHashMap" where
  "FlatHashMap_init Size =
     \<lparr> fhm_Size = Size, fhm_FootPrints = replicate ((Size + 1) * 16) 0,
       fhm_Tags = replicate ((Size + 1) * 16) EMPTY_MARKER,
       fhm_Keys = replicate ((Size + 1) * 16) 0, fhm_Data = replicate ((Size + 1) * 16) None \<rparr>"

definition PaddingSafeWrite ::
  "nat \<Rightarrow> nat \<Rightarrow> u64 \<Rightarrow> ptr option \<Rightarrow> FlatHashMap \<Rightarrow> FlatHashMap" where
  "PaddingSafeWrite idx dib key val m =
     (let h = footprint_of key;
          put = (\<lambda>i m. m \<lparr> fhm_Tags := (fhm_Tags m)[i := of_nat dib],
                           fhm_Data := (fhm_Data m)[i := val],
                           fhm_Keys := (fhm_Keys m)[i := key],
                           fhm_FootPrints := (fhm_FootPrints m)[i := h] \<rparr>);
          m = put idx m
      in if idx < 16 then put (fhm_Size m * 16 + idx) m else m)"

definition PaddingSafeSwap ::
  "nat \<Rightarrow> nat \<Rightarrow> u64 \<Rightarrow> ptr option \<Rightarrow> FlatHashMap \<Rightarrow> FlatHashMap \<times> nat \<times> u64 \<times> ptr option" where
  "PaddingSafeSwap idx dib key val m =
     (let temp_val = fhm_Data m ! idx; temp_dib = fhm_Tags m ! idx; temp_key = fhm_Keys m ! idx
      in (PaddingSafeWrite idx dib key val m, unat temp_dib, temp_key, temp_val))"

section \<open>Lookup\<close>

definition lanes :: "(nat \<Rightarrow> bool) \<Rightarrow> nat list" where
  "lanes f = filter f [0..<16]"

definition first_lane :: "nat list \<Rightarrow> nat" where
  "first_lane ls = (case ls of [] \<Rightarrow> 16 | i # _ \<Rightarrow> i)"

definition expected_dib :: "nat \<Rightarrow> nat \<Rightarrow> u8" where
  "expected_dib cur_dib i = of_nat i + of_nat cur_dib"

text \<open>The inner loop over the matching lanes: \<open>None\<close> means that it ran to its end, \<open>Some r\<close> that
  the function returned \<open>r\<close>.\<close>

fun GetVal_matches ::
  "FlatHashMap \<Rightarrow> u64 \<Rightarrow> u8 \<Rightarrow> nat \<Rightarrow> nat \<Rightarrow> nat list \<Rightarrow> ptr option option option" where
  "GetVal_matches m key footprint cur_idx first_stop [] = None"
| "GetVal_matches m key footprint cur_idx first_stop (first_match # matches) =
     (if first_stop > first_match
      then (let index_to_check = fhm_wrap m (cur_idx + first_match)
            in if fhm_FootPrints m ! index_to_check = footprint \<and> fhm_Keys m ! index_to_check = key
               then Some (Some (fhm_Data m ! index_to_check))
               else GetVal_matches m key footprint cur_idx first_stop matches)
      else Some None)"

function GetVal_loop :: "FlatHashMap \<Rightarrow> u64 \<Rightarrow> u8 \<Rightarrow> nat \<Rightarrow> nat \<Rightarrow> ptr option option" where
  "GetVal_loop m key footprint cur_idx cur_dib =
     (if cur_dib < fhm_total m
      then (let tag = (\<lambda>i. fhm_Tags m ! (cur_idx + i));
                matches = lanes (\<lambda>i. tag i = expected_dib cur_dib i \<and>
                                     fhm_FootPrints m ! (cur_idx + i) = footprint);
                stops = lanes (\<lambda>i. tag i = EMPTY_MARKER \<or> tag i <s expected_dib cur_dib i);
                first_stop = first_lane stops
            in (case GetVal_matches m key footprint cur_idx first_stop matches of
                  Some r \<Rightarrow> r
                | None \<Rightarrow>
                    if stops \<noteq> [] then None
                    else GetVal_loop m key footprint (fhm_wrap m (cur_idx + 16)) (cur_dib + 16)))
      else None)"
  by pat_completeness auto

termination
  by (relation "measure (\<lambda>(m, key, footprint, cur_idx, cur_dib). fhm_total m - cur_dib)") auto

declare GetVal_loop.simps [simp del]

definition FlatHashMap_GetVal :: "u64 \<Rightarrow> FlatHashMap \<Rightarrow> ptr option option" where
  "FlatHashMap_GetVal key m =
     GetVal_loop m key (footprint_of key) (push_bit 4 (home_bucket m key)) 0"

section \<open>Insertion\<close>

text \<open>The two scalar loops: \<open>None\<close> in the second component is a \<open>return\<close> from \<open>AddNode\<close>.\<close>

partial_function (option) AddNode_home ::
  "FlatHashMap \<Rightarrow> nat \<Rightarrow> nat \<Rightarrow> u64 \<Rightarrow> ptr option \<Rightarrow>
   (FlatHashMap \<times> (nat \<times> nat \<times> u64 \<times> ptr option) option) option" where
  "AddNode_home m cur_idx cur_dib key val =
     (if cur_dib < 16
      then (if fhm_Tags m ! cur_idx = EMPTY_MARKER
            then Some (PaddingSafeWrite cur_idx cur_dib key val m, None)
            else (let (m, cur_dib, key, val) =
                        (if unat (fhm_Tags m ! cur_idx) < cur_dib
                         then PaddingSafeSwap cur_idx cur_dib key val m else (m, cur_dib, key, val))
                  in AddNode_home m (cur_idx + 1) (cur_dib + 1) key val))
      else Some (m, Some (cur_idx, cur_dib, key, val)))"

partial_function (option) AddNode_align ::
  "FlatHashMap \<Rightarrow> nat \<Rightarrow> nat \<Rightarrow> u64 \<Rightarrow> ptr option \<Rightarrow>
   (FlatHashMap \<times> (nat \<times> nat \<times> u64 \<times> ptr option) option) option" where
  "AddNode_align m cur_idx cur_dib key val =
     (if cur_idx AND 15 \<noteq> 0
      then (if fhm_Tags m ! cur_idx = EMPTY_MARKER
            then Some (PaddingSafeWrite cur_idx cur_dib key val m, None)
            else (let (m, cur_dib, key, val) =
                        (if unat (fhm_Tags m ! cur_idx) < cur_dib
                         then PaddingSafeSwap cur_idx cur_dib key val m else (m, cur_dib, key, val))
                  in AddNode_align m (fhm_wrap m (cur_idx + 1)) (cur_dib + 1) key val))
      else Some (m, Some (cur_idx, cur_dib, key, val)))"

partial_function (option) AddNode_spill ::
  "FlatHashMap \<Rightarrow> nat \<Rightarrow> nat \<Rightarrow> u64 \<Rightarrow> ptr option \<Rightarrow> FlatHashMap option" where
  "AddNode_spill m cur_idx cur_dib key val =
     (if cur_dib < fhm_total m
      then do {
        (m, r) \<leftarrow> AddNode_align m cur_idx cur_dib key val;
        (case r of
           None \<Rightarrow> Some m
         | Some (cur_idx, cur_dib, key, val) \<Rightarrow>
             (let tag = (\<lambda>i. fhm_Tags m ! (cur_idx + i));
                  free = lanes (\<lambda>i. tag i = EMPTY_MARKER);
                  available = lanes (\<lambda>i. tag i = EMPTY_MARKER \<or> tag i <s expected_dib cur_dib i);
                  first_free = first_lane free;
                  first_available = first_lane available
              in if first_available = 16
                 then AddNode_spill m (fhm_wrap m (cur_idx + 16)) (cur_dib + 16) key val
                 else (let slot_idx = fhm_wrap m (cur_idx + first_available)
                       in if first_free = first_available
                          then Some (PaddingSafeWrite slot_idx (cur_dib + first_available) key val m)
                          else if first_available \<noteq> 0
                          then (let cur_idx = slot_idx;
                                    (m, cur_dib, key, val) =
                                      PaddingSafeSwap cur_idx (cur_dib + first_available) key val m
                                in AddNode_spill m (fhm_wrap m (cur_idx + 1)) (cur_dib + 1) key val)
                          else AddNode_spill m (fhm_wrap m (cur_idx + 16)) (cur_dib + 16) key val)))
      }
      else Some m)"

definition FlatHashMap_AddNode :: "u64 \<Rightarrow> ptr option \<Rightarrow> FlatHashMap \<Rightarrow> FlatHashMap option" where
  "FlatHashMap_AddNode key val m =
     (case FlatHashMap_GetVal key m of
        Some _ \<Rightarrow> Some m
      | None \<Rightarrow> do {
          (m, r) \<leftarrow> AddNode_home m (push_bit 4 (home_bucket m key)) 0 key val;
          (case r of
             None \<Rightarrow> Some m
           | Some (cur_idx, cur_dib, key, val) \<Rightarrow> AddNode_spill m cur_idx cur_dib key val)
        })"

section \<open>Deletion\<close>

text \<open>The search: \<open>None\<close> is a \<open>return\<close>, otherwise the index and the distance where the loop stopped.\<close>

function DeleteNode_find :: "FlatHashMap \<Rightarrow> u64 \<Rightarrow> u8 \<Rightarrow> nat \<Rightarrow> nat \<Rightarrow> (nat \<times> nat) option" where
  "DeleteNode_find m key footprint cur_idx cur_dib =
     (if cur_dib < fhm_total m
      then (let tag = fhm_Tags m ! cur_idx
            in if tag = EMPTY_MARKER \<or> unat tag < cur_dib then None
               else if fhm_FootPrints m ! cur_idx = footprint \<and> fhm_Keys m ! cur_idx = key
               then Some (cur_idx, cur_dib)
               else DeleteNode_find m key footprint (fhm_wrap m (cur_idx + 1)) (cur_dib + 1))
      else Some (cur_idx, cur_dib))"
  by pat_completeness auto

termination
  by (relation "measure (\<lambda>(m, key, footprint, cur_idx, cur_dib). fhm_total m - cur_dib)") auto

declare DeleteNode_find.simps [simp del]

partial_function (option) DeleteNode_shift :: "FlatHashMap \<Rightarrow> nat \<Rightarrow> (FlatHashMap \<times> nat) option" where
  "DeleteNode_shift m cur_idx =
     (let next_idx = fhm_wrap m (cur_idx + 1); next_tag = fhm_Tags m ! next_idx
      in if next_tag = EMPTY_MARKER \<or> next_tag = 0 then Some (m, cur_idx)
         else DeleteNode_shift
                (PaddingSafeWrite cur_idx (unat next_tag - 1) (fhm_Keys m ! next_idx) (fhm_Data m ! next_idx) m)
                next_idx)"

definition FlatHashMap_DeleteNode :: "u64 \<Rightarrow> FlatHashMap \<Rightarrow> FlatHashMap option" where
  "FlatHashMap_DeleteNode key m =
     (case DeleteNode_find m key (footprint_of key) (push_bit 4 (home_bucket m key)) 0 of
        None \<Rightarrow> Some m
      | Some (cur_idx, cur_dib) \<Rightarrow>
          if cur_dib = fhm_total m then Some m
          else do {
            (m, cur_idx) \<leftarrow> DeleteNode_shift m cur_idx;
            Some (PaddingSafeWrite cur_idx (unat EMPTY_MARKER) 0 None m)
          })"

declare AddNode_home.simps [code] AddNode_align.simps [code] AddNode_spill.simps [code]
  DeleteNode_shift.simps [code]

section \<open>Bucket contents\<close>

text \<open>While no bucket overflows, bucket \<open>b\<close> holds a list \<open>B b\<close> of at most 16 entries whose home it
  is, entry \<open>i\<close> in lane \<open>i\<close> with tag \<open>i\<close>, and empty lanes behind.\<close>

type_synonym slot_view = "u8 \<times> u8 \<times> u64 \<times> ptr option"

definition slot_view :: "FlatHashMap \<Rightarrow> nat \<Rightarrow> slot_view" where
  "slot_view m p = (fhm_Tags m ! p, fhm_FootPrints m ! p, fhm_Keys m ! p, fhm_Data m ! p)"

definition slot_ok :: "(u64 \<times> ptr option) list \<Rightarrow> nat \<Rightarrow> slot_view \<Rightarrow> bool" where
  "slot_ok es i s \<longleftrightarrow>
     (if i < length es then s = (of_nat i, footprint_of (fst (es ! i)), fst (es ! i), snd (es ! i))
      else fst s = EMPTY_MARKER)"

definition fhm_shape :: "FlatHashMap \<Rightarrow> bool" where
  "fhm_shape m \<longleftrightarrow> (\<exists>k < 60. fhm_Size m = 2 ^ k) \<and>
     length (fhm_Tags m) = (fhm_Size m + 1) * 16 \<and> length (fhm_FootPrints m) = (fhm_Size m + 1) * 16 \<and>
     length (fhm_Keys m) = (fhm_Size m + 1) * 16 \<and> length (fhm_Data m) = (fhm_Size m + 1) * 16"

definition fhm_layout :: "FlatHashMap \<Rightarrow> (nat \<Rightarrow> (u64 \<times> ptr option) list) \<Rightarrow> bool" where
  "fhm_layout m B \<longleftrightarrow> fhm_shape m \<and>
     (\<forall>b < fhm_Size m. length (B b) \<le> 16) \<and>
     (\<forall>b < fhm_Size m. \<forall>i < 16. slot_ok (B b) i (slot_view m (16 * b + i))) \<and>
     (\<forall>i < 16. slot_ok (B 0) i (slot_view m (16 * fhm_Size m + i)))"

definition fhm_repr :: "FlatHashMap \<Rightarrow> (nat \<Rightarrow> (u64 \<times> ptr option) list) \<Rightarrow> bool" where
  "fhm_repr m B \<longleftrightarrow> fhm_layout m B \<and>
     (\<forall>b < fhm_Size m. distinct (map fst (B b)) \<and> (\<forall>e \<in> set (B b). home_bucket m (fst e) = b))"

definition bucket :: "FlatHashMap \<Rightarrow> nat \<Rightarrow> (u64 \<times> ptr option) list" where
  "bucket m b =
     map (\<lambda>i. (fhm_Keys m ! (16 * b + i), fhm_Data m ! (16 * b + i)))
         (takeWhile (\<lambda>i. fhm_Tags m ! (16 * b + i) \<noteq> EMPTY_MARKER) [0..<16])"

definition fhm_inv :: "FlatHashMap \<Rightarrow> bool" where
  "fhm_inv m \<longleftrightarrow> fhm_repr m (bucket m)"

definition fhm_lookup :: "FlatHashMap \<Rightarrow> u64 \<rightharpoonup> ptr option" where
  "fhm_lookup m key = map_of (bucket m (home_bucket m key)) key"

definition fhm_room :: "FlatHashMap \<Rightarrow> u64 \<Rightarrow> bool" where
  "fhm_room m key \<longleftrightarrow> length (bucket m (home_bucket m key)) < 16"

lemma and_mask_mod: "n AND (2 ^ k - 1) = n mod (2 ^ k :: nat)"
  by (metis mask_eq_exp_minus_1 take_bit_eq_mask take_bit_eq_mod)

lemma fhm_shapeD:
  assumes "fhm_shape m"
  shows "0 < fhm_Size m" "fhm_Size m < 2 ^ 60" "fhm_total m = 16 * fhm_Size m"
    "fhm_wrap m n = n mod (16 * fhm_Size m)" "home_bucket m key < fhm_Size m"
proof -
  from assms obtain k where k: "k < 60" "fhm_Size m = 2 ^ k" by (auto simp: fhm_shape_def)
  then show pos: "0 < fhm_Size m" by simp
  have "(2 :: nat) ^ k < 2 ^ 60" using k(1) by (intro power_strict_increasing) auto
  then show small: "fhm_Size m < 2 ^ 60" using k(2) by simp
  show tot: "fhm_total m = 16 * fhm_Size m" by (simp add: fhm_total_def push_bit_eq_mult)
  have "16 * fhm_Size m = 2 ^ (k + 4)" by (simp add: k(2) power_add)
  then show "fhm_wrap m n = n mod (16 * fhm_Size m)"
    using and_mask_mod[of n "k + 4"] by (simp add: tot fhm_wrap_def)
  have u: "unat (of_nat (fhm_Size m) :: u64) = fhm_Size m"
    using small by (simp add: unat_of_nat)
  have "unat (hash_64 key AND (of_nat (fhm_Size m) - 1)) \<le> unat (of_nat (fhm_Size m) - 1 :: u64)"
    by (simp add: word_and_le1 word_le_nat_alt[symmetric])
  also have "\<dots> = fhm_Size m - 1"
    using pos u by (subst unat_minus_one) (auto simp: unat_eq_0[symmetric] simp del: unat_eq_0)
  finally show "home_bucket m key < fhm_Size m" using pos by (simp add: home_bucket_def)
qed

lemma of_nat_lane:
  assumes "i < 16"
  shows "(of_nat i :: u8) \<noteq> EMPTY_MARKER" "unat (of_nat i :: u8) = i" "sint (of_nat i :: u8) = int i"
proof -
  show u: "unat (of_nat i :: u8) = i" using assms by (simp add: unat_of_nat)
  show "(of_nat i :: u8) \<noteq> EMPTY_MARKER"
    using assms u by (auto simp: EMPTY_MARKER_def dest!: arg_cong[where f = unat])
  show "sint (of_nat i :: u8) = int i"
    using assms by (simp add: signed_of_nat signed_take_bit_int_eq_self)
qed

lemma layout_slot:
  assumes "fhm_layout m B" "b < fhm_Size m" "i < 16"
  shows "i < length (B b) \<Longrightarrow> fhm_Tags m ! (16 * b + i) = of_nat i"
    "i < length (B b) \<Longrightarrow> fhm_FootPrints m ! (16 * b + i) = footprint_of (fst (B b ! i))"
    "i < length (B b) \<Longrightarrow> fhm_Keys m ! (16 * b + i) = fst (B b ! i)"
    "i < length (B b) \<Longrightarrow> fhm_Data m ! (16 * b + i) = snd (B b ! i)"
    "\<not> i < length (B b) \<Longrightarrow> fhm_Tags m ! (16 * b + i) = EMPTY_MARKER"
proof -
  have "slot_ok (B b) i (slot_view m (16 * b + i))" using assms by (simp add: fhm_layout_def)
  then show "i < length (B b) \<Longrightarrow> fhm_Tags m ! (16 * b + i) = of_nat i"
    "i < length (B b) \<Longrightarrow> fhm_FootPrints m ! (16 * b + i) = footprint_of (fst (B b ! i))"
    "i < length (B b) \<Longrightarrow> fhm_Keys m ! (16 * b + i) = fst (B b ! i)"
    "i < length (B b) \<Longrightarrow> fhm_Data m ! (16 * b + i) = snd (B b ! i)"
    "\<not> i < length (B b) \<Longrightarrow> fhm_Tags m ! (16 * b + i) = EMPTY_MARKER"
    by (cases "B b ! i", simp add: slot_ok_def slot_view_def)+
qed

lemma bucket_of_layout:
  assumes "fhm_layout m B" "b < fhm_Size m"
  shows "bucket m b = B b"
proof -
  let ?n = "length (B b)"
  have n: "?n \<le> 16" using assms by (simp add: fhm_layout_def)
  have tag: "fhm_Tags m ! (16 * b + i) \<noteq> EMPTY_MARKER \<longleftrightarrow> i < ?n" if "i < 16" for i
    using layout_slot(1,5)[OF assms that] of_nat_lane(1)[OF that] by auto
  have "[0..<16] = [0..<?n] @ [?n..<16]" using n by (metis le_add_diff_inverse upt_add_eq_append zero_le)
  moreover have "takeWhile (\<lambda>i. fhm_Tags m ! (16 * b + i) \<noteq> EMPTY_MARKER) ([0..<?n] @ [?n..<16]) = [0..<?n]"
    using tag n tag[of ?n]
    by (subst takeWhile_append2; cases "?n < 16") (auto simp: takeWhile_eq_Nil_iff hd_upt)
  ultimately have "bucket m b =
      map (\<lambda>i. (fhm_Keys m ! (16 * b + i), fhm_Data m ! (16 * b + i))) [0..<?n]"
    by (simp only: bucket_def)
  also have "\<dots> = map ((!) (B b)) [0..<?n]"
    using layout_slot(3,4)[OF assms] n by (intro map_cong refl) simp
  finally show ?thesis by (simp add: map_nth)
qed

lemma fhm_inv_of_repr:
  assumes "fhm_repr m B"
  shows "fhm_inv m" "fhm_lookup m key = map_of (B (home_bucket m key)) key"
    "fhm_room m key \<longleftrightarrow> length (B (home_bucket m key)) < 16"
proof -
  have lay: "fhm_layout m B" and shape: "fhm_shape m"
    using assms by (simp_all add: fhm_repr_def fhm_layout_def)
  note eq = bucket_of_layout[OF lay]
  show "fhm_inv m"
    using assms fhm_shapeD(1)[OF shape] eq by (simp add: fhm_inv_def fhm_repr_def fhm_layout_def)
  show "fhm_lookup m key = map_of (B (home_bucket m key)) key"
    "fhm_room m key \<longleftrightarrow> length (B (home_bucket m key)) < 16"
    using eq fhm_shapeD(5)[OF shape] by (simp_all add: fhm_lookup_def fhm_room_def)
qed

section \<open>Writing one slot\<close>

lemma Write_simps [simp]:
  "fhm_Size (PaddingSafeWrite idx dib key val m) = fhm_Size m"
  "fhm_total (PaddingSafeWrite idx dib key val m) = fhm_total m"
  "fhm_wrap (PaddingSafeWrite idx dib key val m) = fhm_wrap m"
  "home_bucket (PaddingSafeWrite idx dib key val m) = home_bucket m"
  "fhm_shape (PaddingSafeWrite idx dib key val m) = fhm_shape m"
  by (auto simp: PaddingSafeWrite_def fhm_total_def fhm_wrap_def home_bucket_def fhm_shape_def Let_def fun_eq_iff)

lemma slot_view_Write:
  assumes "fhm_shape m" "idx < 16 * fhm_Size m" "p < 16 * fhm_Size m + 16"
  shows "slot_view (PaddingSafeWrite idx dib key val m) p =
    (if p = idx \<or> (idx < 16 \<and> p = 16 * fhm_Size m + idx) then (of_nat dib, footprint_of key, key, val)
     else slot_view m p)"
  using assms by (auto simp: slot_view_def PaddingSafeWrite_def Let_def fhm_shape_def nth_list_update)

lemma layout_Write:
  assumes lay: "fhm_layout m B" and b: "b < fhm_Size m" and i: "i < 16" and len: "length es \<le> 16"
    and new: "slot_ok es i (of_nat dib, footprint_of key, key, val)"
    and old: "\<And>j s. j < 16 \<Longrightarrow> j \<noteq> i \<Longrightarrow> slot_ok (B b) j s \<Longrightarrow> slot_ok es j s"
  shows "fhm_layout (PaddingSafeWrite (16 * b + i) dib key val m) (B(b := es))"
proof -
  have shape: "fhm_shape m" and ok: "\<And>c j. c < fhm_Size m \<Longrightarrow> j < 16 \<Longrightarrow>
      slot_ok (B c) j (slot_view m (16 * c + j))"
    and pad: "\<And>j. j < 16 \<Longrightarrow> slot_ok (B 0) j (slot_view m (16 * fhm_Size m + j))"
    using lay by (auto simp: fhm_layout_def)
  have idx: "16 * b + i < 16 * fhm_Size m" using b i by linarith
  have view: "slot_view (PaddingSafeWrite (16 * b + i) dib key val m) (16 * c + j) =
      (if j = i \<and> (c = b \<or> b = 0 \<and> c = fhm_Size m) then (of_nat dib, footprint_of key, key, val)
       else slot_view m (16 * c + j))" if "c \<le> fhm_Size m" "j < 16" for c j
  proof -
    have "(16 * c + j = 16 * b + i) = (c = b \<and> j = i)"
      using that i by (cases c b rule: linorder_cases) auto
    moreover have "(16 * b + i < 16 \<and> 16 * c + j = 16 * fhm_Size m + (16 * b + i)) =
        (b = 0 \<and> c = fhm_Size m \<and> j = i)"
      using that i by (cases "c = fhm_Size m"; cases "b = 0") auto
    moreover have "16 * c + j < 16 * fhm_Size m + 16" using that by linarith
    ultimately show ?thesis using slot_view_Write[OF shape idx, of "16 * c + j"] by auto
  qed
  have here: "slot_ok es j (if j = i then (of_nat dib, footprint_of key, key, val) else s)"
    if "j < 16" "slot_ok (B b) j s" for j s
    using new old[OF that(1) _ that(2)] by (cases "j = i") simp_all
  have main: "slot_ok ((B(b := es)) c) j (slot_view (PaddingSafeWrite (16 * b + i) dib key val m) (16 * c + j))"
    if "c < fhm_Size m" "j < 16" for c j
    using here[OF that(2), of "slot_view m (16 * c + j)"] ok[OF that] view[of c j] that
    by (cases "c = b") simp_all
  have padding: "slot_ok ((B(b := es)) 0) j
      (slot_view (PaddingSafeWrite (16 * b + i) dib key val m) (16 * fhm_Size m + j))"
    if "j < 16" for j
    using here[OF that, of "slot_view m (16 * fhm_Size m + j)"] pad[OF that] view[of "fhm_Size m" j] that b
    by (cases "b = 0") simp_all
  show ?thesis
    using shape main padding len lay by (simp add: fhm_layout_def)
qed

section \<open>The lookup is correct\<close>

lemma GetVal_matches_scan:
  assumes lay: "fhm_layout m B" and b: "b < fhm_Size m" and ls: "set ls \<subseteq> {..<length (B b)}"
    and d: "distinct (map fst (B b))"
  shows "GetVal_matches m key (footprint_of key) (16 * b) (length (B b)) ls =
     (if \<exists>i \<in> set ls. fst (B b ! i) = key then Some (map_of (B b) key) else None)"
  using ls
proof (induction ls)
  case Nil
  then show ?case by simp
next
  case (Cons i ls)
  have shape: "fhm_shape m" and n: "length (B b) \<le> 16" using lay b by (auto simp: fhm_layout_def)
  have i: "i < length (B b)" "i < 16" using Cons.prems n by auto
  have "(16 * b + i) mod (16 * fhm_Size m) = 16 * b + i" using i b by (intro mod_less) linarith
  then have idx: "fhm_wrap m (16 * b + i) = 16 * b + i"
    by (simp add: fhm_shapeD(4)[OF shape])
  show ?case
  proof (cases "fst (B b ! i) = key")
    case True
    have "map_of (B b) key = Some (snd (B b ! i))"
      using d i True by (metis map_of_eq_Some_iff nth_mem prod.collapse)
    with True show ?thesis using i idx layout_slot[OF lay b i(2)] by (auto simp: Let_def)
  next
    case False
    with Cons show ?thesis using i idx layout_slot[OF lay b i(2)] by (auto simp: Let_def)
  qed
qed

lemma lanes_cong: "(\<And>i. i < 16 \<Longrightarrow> f i = g i) \<Longrightarrow> lanes f = lanes g"
  by (auto simp: lanes_def intro!: filter_cong)

lemma first_lane_from: "n \<le> 16 \<Longrightarrow> first_lane (lanes (\<lambda>i. \<not> i < n)) = n"
proof -
  assume "n \<le> 16"
  then have "lanes (\<lambda>i. \<not> i < n) = filter (\<lambda>i. \<not> i < n) ([0..<n] @ [n..<16])"
    unfolding lanes_def by (metis le_add_diff_inverse upt_add_eq_append zero_le)
  then have "lanes (\<lambda>i. \<not> i < n) = [n..<16]" by (simp add: filter_id_conv)
  with \<open>n \<le> 16\<close> show ?thesis by (cases "n < 16") (auto simp: first_lane_def upt_conv_Cons)
qed

lemma lanes_from_Nil: "n \<le> 16 \<Longrightarrow> lanes (\<lambda>i. \<not> i < n) = [] \<longleftrightarrow> n = 16"
  by (auto simp: lanes_def filter_empty_conv intro: le_antisym)

lemma home_stop:
  assumes "fhm_layout m B" "b < fhm_Size m" "i < 16"
  shows "fhm_Tags m ! (16 * b + i) = EMPTY_MARKER \<or> fhm_Tags m ! (16 * b + i) <s expected_dib 0 i
     \<longleftrightarrow> \<not> i < length (B b)"
  using layout_slot(1,5)[OF assms] of_nat_lane(1)[OF assms(3)]
  by (cases "i < length (B b)") (auto simp: expected_dib_def)

lemma home_match:
  assumes "fhm_layout m B" "b < fhm_Size m" "i < 16"
  shows "fhm_Tags m ! (16 * b + i) = expected_dib 0 i \<and> fhm_FootPrints m ! (16 * b + i) = f
     \<longleftrightarrow> i < length (B b) \<and> footprint_of (fst (B b ! i)) = f"
  using layout_slot(1,2,5)[OF assms] of_nat_lane(1)[OF assms(3)]
  by (cases "i < length (B b)") (auto simp: expected_dib_def)

lemma expected_far:
  assumes "i < 16"
  shows "expected_dib 16 i \<noteq> EMPTY_MARKER" "expected_dib 16 i \<noteq> of_nat i" "of_nat i <s expected_dib 16 i"
proof -
  have e: "expected_dib 16 i = of_nat (i + 16)" by (simp add: expected_dib_def)
  have u: "unat (expected_dib 16 i) = i + 16" unfolding e using assms by (subst unat_of_nat) simp
  have s: "sint (expected_dib 16 i) = int (i + 16)"
    unfolding e using assms by (subst signed_of_nat) (simp add: signed_take_bit_int_eq_self)
  show "expected_dib 16 i \<noteq> EMPTY_MARKER"
    using u assms by (auto simp: EMPTY_MARKER_def dest!: arg_cong[where f = unat])
  show "expected_dib 16 i \<noteq> of_nat i" using u of_nat_lane(2)[OF assms] by auto
  show "of_nat i <s expected_dib 16 i"
    using s of_nat_lane(3)[OF assms] by (simp add: word_sless_alt)
qed

lemma GetVal_loop_next:
  assumes lay: "fhm_layout m B" and b: "b < fhm_Size m"
  shows "GetVal_loop m key f (16 * b) 16 = None"
proof (cases "16 < fhm_total m")
  case False
  then show ?thesis by (subst GetVal_loop.simps) simp
next
  case True
  have stop: "fhm_Tags m ! (16 * b + i) = EMPTY_MARKER \<or> fhm_Tags m ! (16 * b + i) <s expected_dib 16 i"
    and nomatch: "\<not> (fhm_Tags m ! (16 * b + i) = expected_dib 16 i \<and> fhm_FootPrints m ! (16 * b + i) = f)"
    if "i < 16" for i
    using layout_slot(1,5)[OF lay b that] expected_far[OF that] by metis+
  have "lanes (\<lambda>i. fhm_Tags m ! (16 * b + i) = EMPTY_MARKER \<or>
      fhm_Tags m ! (16 * b + i) <s expected_dib 16 i) = lanes (\<lambda>_. True)"
    using stop by (intro lanes_cong) simp
  moreover have "lanes (\<lambda>i. fhm_Tags m ! (16 * b + i) = expected_dib 16 i \<and>
      fhm_FootPrints m ! (16 * b + i) = f) = lanes (\<lambda>_. False)"
    using nomatch by (intro lanes_cong) simp
  ultimately show ?thesis
    using True by (subst GetVal_loop.simps) (simp add: lanes_def Let_def)
qed

lemma wrap_next_bucket:
  assumes "fhm_shape m" "b < fhm_Size m"
  shows "fhm_wrap m (16 * b + 16) = 16 * (Suc b mod fhm_Size m)" "Suc b mod fhm_Size m < fhm_Size m"
proof -
  have "16 * b + 16 = 16 * Suc b" by simp
  then show "fhm_wrap m (16 * b + 16) = 16 * (Suc b mod fhm_Size m)"
    by (simp only: fhm_shapeD(4)[OF assms(1)] mult_mod_right)
  show "Suc b mod fhm_Size m < fhm_Size m" using assms(2) by simp
qed

lemma key_in_alist: "k \<in> fst ` set es \<longleftrightarrow> (\<exists>i < length es. fst (es ! i) = k)"
  by (metis imageE imageI in_set_conv_nth)

lemma GetVal_lookup:
  assumes "fhm_inv m"
  shows "FlatHashMap_GetVal key m = fhm_lookup m key"
proof -
  let ?b = "home_bucket m key" and ?f = "footprint_of key" and ?n = "length (bucket m (home_bucket m key))"
  have lay: "fhm_layout m (bucket m)" and shape: "fhm_shape m"
    using assms by (simp_all add: fhm_inv_def fhm_repr_def fhm_layout_def)
  have b: "?b < fhm_Size m" by (rule fhm_shapeD(5)[OF shape])
  have d: "distinct (map fst (bucket m ?b))" and n: "?n \<le> 16"
    using assms b by (auto simp: fhm_inv_def fhm_repr_def fhm_layout_def)
  let ?matches = "lanes (\<lambda>i. i < ?n \<and> footprint_of (fst (bucket m ?b ! i)) = ?f)"
  have ms: "lanes (\<lambda>i. fhm_Tags m ! (16 * ?b + i) = expected_dib 0 i \<and>
      fhm_FootPrints m ! (16 * ?b + i) = ?f) = ?matches"
    by (rule lanes_cong) (rule home_match[OF lay b])
  have st: "lanes (\<lambda>i. fhm_Tags m ! (16 * ?b + i) = EMPTY_MARKER \<or>
      fhm_Tags m ! (16 * ?b + i) <s expected_dib 0 i) = lanes (\<lambda>i. \<not> i < ?n)"
    by (rule lanes_cong) (rule home_stop[OF lay b])
  have scan: "GetVal_matches m key ?f (16 * ?b) ?n ?matches =
      (if \<exists>i \<in> set ?matches. fst (bucket m ?b ! i) = key then Some (map_of (bucket m ?b) key) else None)"
    by (rule GetVal_matches_scan[OF lay b _ d]) (auto simp: lanes_def)
  have ex: "(\<exists>i \<in> set ?matches. fst (bucket m ?b ! i) = key) \<longleftrightarrow> key \<in> fst ` set (bucket m ?b)"
    using n by (auto simp: lanes_def key_in_alist intro: less_le_trans)
  have none: "map_of (bucket m ?b) key = None" if "key \<notin> fst ` set (bucket m ?b)"
    using that by (simp add: map_of_eq_None_iff)
  have nxt: "GetVal_loop m key ?f (fhm_wrap m (16 * ?b + 16)) (0 + 16) = None"
    unfolding wrap_next_bucket(1)[OF shape b] add_0
    by (rule GetVal_loop_next[OF lay wrap_next_bucket(2)[OF shape b]])
  have start: "push_bit 4 ?b = 16 * ?b" by (simp add: push_bit_eq_mult)
  have tot: "0 < fhm_total m" using fhm_shapeD(1,3)[OF shape] by simp
  have "GetVal_loop m key ?f (16 * ?b) 0 = map_of (bucket m ?b) key"
    using tot none
    by (subst GetVal_loop.simps)
      (simp add: Let_def ms st first_lane_from[OF n] scan ex nxt[simplified] split: if_splits)
  then show ?thesis by (simp add: FlatHashMap_GetVal_def fhm_lookup_def start)
qed

section \<open>Insertion with room\<close>

lemma AddNode_home_append:
  assumes lay: "fhm_layout m B" and b: "b < fhm_Size m" and n: "length (B b) < 16"
  shows "i \<le> length (B b) \<Longrightarrow> AddNode_home m (16 * b + i) i key val =
     Some (PaddingSafeWrite (16 * b + length (B b)) (length (B b)) key val m, None)"
proof (induction "length (B b) - i" arbitrary: i)
  case 0
  with n have i: "i = length (B b)" "i < 16" by auto
  with layout_slot(5)[OF lay b i(2)] show ?case by (subst AddNode_home.simps) simp
next
  case (Suc d)
  then have i: "i < length (B b)" "i < 16" using n by auto
  have "fhm_Tags m ! (16 * b + i) = of_nat i" using layout_slot(1)[OF lay b i(2)] i by simp
  with Suc.hyps(1)[of "Suc i"] Suc.hyps(2) i of_nat_lane[OF i(2)] show ?case
    by (subst AddNode_home.simps) (simp add: Let_def)
qed

lemma layout_append:
  assumes "fhm_layout m B" "b < fhm_Size m" "length (B b) < 16"
  shows "fhm_layout (PaddingSafeWrite (16 * b + length (B b)) (length (B b)) key val m)
     (B(b := B b @ [(key, val)]))"
  using assms
  by (intro layout_Write) (auto simp: slot_ok_def nth_append split: if_splits)

lemma AddNode_new:
  assumes inv: "fhm_inv m" and fresh: "fhm_lookup m key = None" and room: "fhm_room m key"
  shows "\<exists>m'. FlatHashMap_AddNode key val m = Some m' \<and> fhm_inv m' \<and>
     fhm_lookup m' = (fhm_lookup m)(key \<mapsto> val)"
proof -
  let ?b = "home_bucket m key"
  let ?m = "PaddingSafeWrite (16 * ?b + length (bucket m ?b)) (length (bucket m ?b)) key val m"
  let ?B = "(bucket m)(?b := bucket m ?b @ [(key, val)])"
  have lay: "fhm_layout m (bucket m)" and shape: "fhm_shape m"
    and repr: "fhm_repr m (bucket m)"
    using inv by (simp_all add: fhm_inv_def fhm_repr_def fhm_layout_def)
  have b: "?b < fhm_Size m" by (rule fhm_shapeD(5)[OF shape])
  have n: "length (bucket m ?b) < 16" using room by (simp add: fhm_room_def)
  have key: "key \<notin> fst ` set (bucket m ?b)"
    using fresh by (simp add: fhm_lookup_def map_of_eq_None_iff)
  have "FlatHashMap_AddNode key val m = Some ?m"
    using AddNode_home_append[OF lay b n, of 0 key val] GetVal_lookup[OF inv, of key] fresh
    by (simp add: FlatHashMap_AddNode_def push_bit_eq_mult mult.commute)
  moreover have r: "fhm_repr ?m ?B"
    using repr layout_append[where key = key and val = val, OF lay b n] key
    by (auto simp: fhm_repr_def)
  moreover have "fhm_lookup ?m k = ((fhm_lookup m)(key \<mapsto> val)) k" for k
    using fresh unfolding fhm_inv_of_repr(2)[OF r]
    by (auto simp: fhm_lookup_def map_add_def split: option.splits)
  ultimately show ?thesis using fhm_inv_of_repr(1)[OF r] by blast
qed

section \<open>Deletion\<close>

lemma layout_replace:
  assumes "fhm_layout m B" "b < fhm_Size m" "i < length (B b)"
  shows "fhm_layout (PaddingSafeWrite (16 * b + i) i key val m) (B(b := (B b)[i := (key, val)]))"
proof -
  have "length (B b) \<le> 16" using assms by (simp add: fhm_layout_def)
  with assms show ?thesis
    by (intro layout_Write) (auto simp: slot_ok_def nth_list_update)
qed

lemma layout_drop_last:
  assumes "fhm_layout m B" "b < fhm_Size m" "B b = es @ [e]"
  shows "fhm_layout (PaddingSafeWrite (16 * b + length es) (unat EMPTY_MARKER) key val m) (B(b := es))"
proof -
  have "length (B b) \<le> 16" using assms(1,2) by (simp add: fhm_layout_def)
  then have "length es < 16" using assms(3) by simp
  with assms show ?thesis
    by (intro layout_Write) (auto simp: slot_ok_def nth_append split: if_splits)
qed

lemma take_Suc_update_nth: "j < length xs \<Longrightarrow> take (Suc j) (xs[j := x]) = take j xs @ [x]"
  by (simp add: take_Suc_conv_app_nth)

lemma wrap_lane:
  assumes "fhm_shape m" "b < fhm_Size m" "i < 16"
  shows "fhm_wrap m (16 * b + i) = 16 * b + i"
proof -
  have "16 * b + i < 16 * fhm_Size m" using assms(2,3) by linarith
  then show ?thesis by (simp add: fhm_shapeD(4)[OF assms(1)])
qed

lemma tag_behind_last:
  assumes lay: "fhm_layout m B" and b: "b < fhm_Size m" and n: "length (B b) = Suc j"
  shows "fhm_Tags m ! fhm_wrap m (16 * b + j + 1) \<in> {EMPTY_MARKER, 0}"
proof (cases "Suc j < 16")
  case True
  have shape: "fhm_shape m" using lay by (simp add: fhm_layout_def)
  show ?thesis
    using wrap_lane[OF shape b True] layout_slot(5)[OF lay b True] n by simp
next
  case False
  have shape: "fhm_shape m" using lay by (simp add: fhm_layout_def)
  have "length (B b) \<le> 16" using lay b by (simp add: fhm_layout_def)
  with False n have j: "16 * b + j + 1 = 16 * b + 16" by simp
  show ?thesis
    unfolding j wrap_next_bucket(1)[OF shape b]
    using layout_slot(1,5)[OF lay wrap_next_bucket(2)[OF shape b], of 0]
    by (cases "B (Suc b mod fhm_Size m)") simp_all
qed

lemma DeleteNode_shift_layout:
  "fhm_layout m B \<Longrightarrow> b < fhm_Size m \<Longrightarrow> j < length (B b) \<Longrightarrow>
   \<exists>m' es. DeleteNode_shift m (16 * b + j) = Some (m', 16 * b + (length (B b) - 1)) \<and>
     fhm_layout m' (B(b := es)) \<and> length es = length (B b) \<and>
     butlast es = take j (B b) @ drop (Suc j) (B b) \<and>
     fhm_Size m' = fhm_Size m \<and> home_bucket m' = home_bucket m"
proof (induction "length (B b) - j" arbitrary: m B j)
  case 0
  then show ?case by simp
next
  case (Suc d)
  note lay = Suc.prems(1) and b = Suc.prems(2)
  have shape: "fhm_shape m" and n: "length (B b) \<le> 16" using lay b by (auto simp: fhm_layout_def)
  show ?case
  proof (cases "Suc j < length (B b)")
    case False
    then have j: "length (B b) = Suc j" using Suc.prems(3) by simp
    have "DeleteNode_shift m (16 * b + j) = Some (m, 16 * b + j)"
      using tag_behind_last[OF lay b j] by (subst DeleteNode_shift.simps) (auto simp: Let_def)
    with j lay show ?thesis
      by (intro exI[of _ m] exI[of _ "B b"]) (simp add: butlast_conv_take)
  next
    case True
    have j16: "Suc j < 16" using True n by simp
    have w: "fhm_wrap m (Suc (16 * b + j)) = 16 * b + Suc j" using wrap_lane[OF shape b j16] by simp
    have slot: "fhm_Tags m ! (16 * b + Suc j) = of_nat (Suc j)"
      "fhm_Keys m ! (16 * b + Suc j) = fst (B b ! Suc j)" "fhm_Data m ! (16 * b + Suc j) = snd (B b ! Suc j)"
      using layout_slot[OF lay b j16] True by simp_all
    let ?m = "PaddingSafeWrite (16 * b + j) j (fst (B b ! Suc j)) (snd (B b ! Suc j)) m"
    let ?B = "B(b := (B b)[j := B b ! Suc j])"
    have lay': "fhm_layout ?m ?B"
      using layout_replace[OF lay b Suc.prems(3), of "fst (B b ! Suc j)" "snd (B b ! Suc j)"] by simp
    have t: "of_nat (Suc j) \<noteq> (0 :: u8)" "of_nat (Suc j) \<noteq> EMPTY_MARKER" "unat (of_nat (Suc j) :: u8) - 1 = j"
      using of_nat_lane[OF j16] by (auto simp: unat_eq_0[symmetric] simp del: of_nat_Suc unat_eq_0)
    have step: "DeleteNode_shift m (16 * b + j) = DeleteNode_shift ?m (16 * b + Suc j)"
      using t slot by (subst DeleteNode_shift.simps) (simp add: Let_def w del: of_nat_Suc)
    have d: "d = length (B b) - Suc j" using Suc.hyps(2) by simp
    from Suc.hyps(1)[of ?B "Suc j" ?m] lay' b True d
    obtain m' es where
      r: "DeleteNode_shift ?m (16 * b + Suc j) = Some (m', 16 * b + (length (B b) - 1))"
         "fhm_layout m' (?B(b := es))" "length es = length (B b)"
         "butlast es = take (Suc j) ((B b)[j := B b ! Suc j]) @ drop (Suc (Suc j)) ((B b)[j := B b ! Suc j])"
         "fhm_Size m' = fhm_Size m" "home_bucket m' = home_bucket m"
      by auto
    have "butlast es = take j (B b) @ drop (Suc j) (B b)"
      using r(4) True by (simp add: take_Suc_update_nth Cons_nth_drop_Suc)
    with r step show ?thesis by auto
  qed
qed

lemma total_ge_16: "fhm_shape m \<Longrightarrow> 16 \<le> fhm_total m"
  using fhm_shapeD(1,3)[of m] by simp

lemma DeleteNode_find_present:
  assumes lay: "fhm_layout m B" and b: "b < fhm_Size m" and d: "distinct (map fst (B b))"
    and j: "j < length (B b)" "fst (B b ! j) = key"
  shows "i \<le> j \<Longrightarrow> DeleteNode_find m key (footprint_of key) (16 * b + i) i = Some (16 * b + j, j)"
proof (induction "j - i" arbitrary: i)
  case 0
  have shape: "fhm_shape m" and n: "length (B b) \<le> 16" using lay b by (auto simp: fhm_layout_def)
  from 0 j n have i: "i = j" "i < 16" by auto
  with j show ?case
    using layout_slot[OF lay b i(2)] of_nat_lane[OF i(2)] total_ge_16[OF shape]
    by (subst DeleteNode_find.simps) (simp add: Let_def)
next
  case (Suc k)
  have shape: "fhm_shape m" and n: "length (B b) \<le> 16" using lay b by (auto simp: fhm_layout_def)
  have i: "i < j" "Suc i < 16" "i < 16" "i < length (B b)" using Suc j n by auto
  have "fst (B b ! i) \<noteq> key" using d j i by (auto simp: distinct_conv_nth)
  then have "DeleteNode_find m key (footprint_of key) (16 * b + i) i =
      DeleteNode_find m key (footprint_of key) (fhm_wrap m (16 * b + Suc i)) (Suc i)"
    using i layout_slot[OF lay b i(3)] of_nat_lane[OF i(3)] total_ge_16[OF shape]
    by (subst DeleteNode_find.simps) (simp add: Let_def)
  with Suc.hyps(1)[of "Suc i"] Suc.hyps(2) i wrap_lane[OF shape b i(2)] show ?case by simp
qed

lemma DeleteNode_find_absent:
  assumes lay: "fhm_layout m B" and b: "b < fhm_Size m" and key: "key \<notin> fst ` set (B b)"
  shows "i \<le> length (B b) \<Longrightarrow> i < 16 \<Longrightarrow>
    (case DeleteNode_find m key (footprint_of key) (16 * b + i) i of
       None \<Rightarrow> True | Some (_, dib) \<Rightarrow> dib = fhm_total m)"
proof (induction "length (B b) - i" arbitrary: i)
  case 0
  have shape: "fhm_shape m" using lay by (simp add: fhm_layout_def)
  from 0 layout_slot(5)[OF lay b 0(3)] total_ge_16[OF shape] show ?case
    by (subst DeleteNode_find.simps) (simp add: Let_def)
next
  case (Suc k)
  have shape: "fhm_shape m" and n: "length (B b) \<le> 16" using lay b by (auto simp: fhm_layout_def)
  have i: "i < length (B b)" "i < 16" using Suc by auto
  have "fst (B b ! i) \<noteq> key" using key i by (auto simp: key_in_alist)
  then have step: "DeleteNode_find m key (footprint_of key) (16 * b + i) i =
      DeleteNode_find m key (footprint_of key) (fhm_wrap m (16 * b + Suc i)) (Suc i)"
    using i layout_slot[OF lay b i(2)] of_nat_lane[OF i(2)] total_ge_16[OF shape]
    by (subst DeleteNode_find.simps) (simp add: Let_def)
  show ?case
  proof (cases "Suc i < 16")
    case True
    with Suc.hyps(1)[of "Suc i"] Suc.hyps(2) i step wrap_lane[OF shape b True] show ?thesis by simp
  next
    case False
    then have i15: "Suc i = 16" using i by simp
    let ?b = "Suc b mod fhm_Size m"
    have "DeleteNode_find m key (footprint_of key) (16 * ?b) 16 =
        (if 16 < fhm_total m then None else Some (16 * ?b, 16))"
      using layout_slot(1,5)[OF lay wrap_next_bucket(2)[OF shape b], of 0]
      by (subst DeleteNode_find.simps, cases "B ?b") (simp_all add: Let_def)
    then show ?thesis
      unfolding step i15 wrap_next_bucket(1)[OF shape b] using total_ge_16[OF shape] by simp
  qed
qed

lemma map_of_remove:
  "distinct (map fst (xs @ y # ys)) \<Longrightarrow> map_of (xs @ ys) = (map_of (xs @ y # ys))(fst y := None)"
proof (induction xs)
  case Nil
  then have "map_of ys (fst y) = None" by (simp add: map_of_eq_None_iff)
  then show ?case by (auto simp: fun_eq_iff)
next
  case (Cons x xs)
  then have "fst x \<noteq> fst y" by auto
  with Cons show ?case by (auto simp: fun_eq_iff)
qed

lemma map_of_remove_nth:
  assumes "distinct (map fst es)" "j < length es"
  shows "map_of (take j es @ drop (Suc j) es) = (map_of es)(fst (es ! j) := None)"
proof -
  note es = id_take_nth_drop[OF assms(2)]
  from assms(1) have "distinct (map fst (take j es @ es ! j # drop (Suc j) es))"
    by (simp only: es[symmetric])
  from map_of_remove[OF this] show ?thesis by (simp only: es[symmetric])
qed

lemma DeleteNode_lookup:
  assumes inv: "fhm_inv m"
  shows "\<exists>m'. FlatHashMap_DeleteNode key m = Some m' \<and> fhm_inv m' \<and>
     fhm_lookup m' = (fhm_lookup m)(key := None) \<and> (\<forall>k. fhm_room m k \<longrightarrow> fhm_room m' k)"
proof -
  let ?b = "home_bucket m key"
  have lay: "fhm_layout m (bucket m)" and shape: "fhm_shape m" and repr: "fhm_repr m (bucket m)"
    using inv by (simp_all add: fhm_inv_def fhm_repr_def fhm_layout_def)
  have b: "?b < fhm_Size m" by (rule fhm_shapeD(5)[OF shape])
  have d: "distinct (map fst (bucket m ?b))" using repr b by (simp add: fhm_repr_def)
  have start: "push_bit 4 ?b = 16 * ?b + 0" by (simp add: push_bit_eq_mult)
  show ?thesis
  proof (cases "key \<in> fst ` set (bucket m ?b)")
    case False
    have "FlatHashMap_DeleteNode key m = Some m"
      using DeleteNode_find_absent[OF lay b False, of 0]
      by (simp add: FlatHashMap_DeleteNode_def start split: option.splits prod.splits)
    moreover have "fhm_lookup m key = None" using False by (simp add: fhm_lookup_def map_of_eq_None_iff)
    ultimately show ?thesis using inv by (auto simp: fun_eq_iff)
  next
    case True
    then obtain j where j: "j < length (bucket m ?b)" "fst (bucket m ?b ! j) = key"
      by (auto simp: key_in_alist)
    from DeleteNode_shift_layout[OF lay b j(1)] obtain m1 es where
      s: "DeleteNode_shift m (16 * ?b + j) = Some (m1, 16 * ?b + (length (bucket m ?b) - 1))"
      "fhm_layout m1 ((bucket m)(?b := es))" "length es = length (bucket m ?b)"
      "butlast es = take j (bucket m ?b) @ drop (Suc j) (bucket m ?b)"
      "fhm_Size m1 = fhm_Size m" "home_bucket m1 = home_bucket m" by blast
    let ?m = "PaddingSafeWrite (16 * ?b + length (butlast es)) (unat EMPTY_MARKER) 0 None m1"
    let ?B = "(bucket m)(?b := butlast es)"
    have es: "es = butlast es @ [last es]" using s(3) j by (cases es rule: rev_cases) auto
    have n: "length (bucket m ?b) \<le> 16" using lay b by (simp add: fhm_layout_def)
    have "FlatHashMap_DeleteNode key m = Some ?m"
      using DeleteNode_find_present[OF lay b d j, of 0] s(1,3) j(1) n total_ge_16[OF shape]
      by (simp add: FlatHashMap_DeleteNode_def start)
    moreover have r: "fhm_repr ?m ?B"
    proof -
      have "fhm_layout ?m ?B"
        using layout_drop_last[OF s(2), of ?b "butlast es" "last es" 0 None] b s(5) es by simp
      moreover have "set (butlast es) \<subseteq> set (bucket m ?b)"
        by (auto simp: s(4) dest: in_set_takeD in_set_dropD)
      moreover have "distinct (map fst (butlast es))"
        using d by (auto simp: s(4) take_map[symmetric] drop_map[symmetric] set_take_disj_set_drop_if_distinct)
      ultimately show ?thesis using repr s(5,6) by (auto simp: fhm_repr_def)
    qed
    moreover have "fhm_lookup ?m k = ((fhm_lookup m)(key := None)) k" for k
      unfolding fhm_inv_of_repr(2)[OF r] using map_of_remove_nth[OF d j(1)] j(2)
      by (simp add: s(4,6) fhm_lookup_def)
    moreover have "fhm_room ?m k" if "fhm_room m k" for k
      unfolding fhm_inv_of_repr(3)[OF r] using that s(3,6) by (auto simp: fhm_room_def)
    ultimately show ?thesis using fhm_inv_of_repr(1)[OF r] by blast
  qed
qed

section \<open>The map contract\<close>

locale lookup_table =
  fixes inv :: "'m \<Rightarrow> bool" and lookup :: "'m \<Rightarrow> 'k \<rightharpoonup> 'v" and room :: "'m \<Rightarrow> 'k \<Rightarrow> bool"
    and get :: "'k \<Rightarrow> 'm \<Rightarrow> 'v option" and add :: "'k \<Rightarrow> 'v \<Rightarrow> 'm \<Rightarrow> 'm option"
    and del :: "'k \<Rightarrow> 'm \<Rightarrow> 'm option"
  assumes get_lookup: "inv m \<Longrightarrow> get k m = lookup m k"
    and add_present: "inv m \<Longrightarrow> lookup m k = Some w \<Longrightarrow> add k v m = Some m"
    and add_fresh: "inv m \<Longrightarrow> lookup m k = None \<Longrightarrow> room m k \<Longrightarrow>
          \<exists>m'. add k v m = Some m' \<and> inv m' \<and> lookup m' = (lookup m)(k \<mapsto> v)"
    and del_lookup: "inv m \<Longrightarrow>
          \<exists>m'. del k m = Some m' \<and> inv m' \<and> lookup m' = (lookup m)(k := None) \<and>
               (\<forall>j. room m j \<longrightarrow> room m' j)"
begin

lemma get_after_add:
  assumes "inv m" "lookup m k = None" "room m k"
  shows "\<exists>m'. add k v m = Some m' \<and> get k m' = Some v \<and> (\<forall>j. j \<noteq> k \<longrightarrow> get j m' = get j m)"
  using add_fresh[OF assms, of v] get_lookup assms(1) by fastforce

lemma get_after_del:
  assumes "inv m"
  shows "\<exists>m'. del k m = Some m' \<and> get k m' = None \<and> (\<forall>j. j \<noteq> k \<longrightarrow> get j m' = get j m)"
  using del_lookup[OF assms, of k] get_lookup assms by fastforce

lemma add_then_del:
  assumes "inv m" "lookup m k = None" "room m k"
  shows "\<exists>m1 m2. add k v m = Some m1 \<and> del k m1 = Some m2 \<and> inv m2 \<and> lookup m2 = lookup m"
proof -
  from add_fresh[OF assms, of v] obtain m1 where
    1: "add k v m = Some m1" "inv m1" "lookup m1 = (lookup m)(k \<mapsto> v)" by blast
  from del_lookup[OF 1(2), of k] obtain m2 where
    2: "del k m1 = Some m2" "inv m2" "lookup m2 = (lookup m1)(k := None)" by blast
  have "lookup m2 = lookup m" using 1(3) 2(3) assms(2) by (auto simp: fun_eq_iff)
  with 1(1) 2(1,2) show ?thesis by blast
qed

end

interpretation fhm: lookup_table fhm_inv fhm_lookup fhm_room
    FlatHashMap_GetVal FlatHashMap_AddNode FlatHashMap_DeleteNode
proof
  fix m k v w
  assume inv: "fhm_inv m"
  show get: "FlatHashMap_GetVal k m = fhm_lookup m k" by (rule GetVal_lookup[OF inv])
  show "FlatHashMap_AddNode k v m = Some m" if "fhm_lookup m k = Some w"
    using that get by (simp add: FlatHashMap_AddNode_def)
  show "\<exists>m'. FlatHashMap_AddNode k v m = Some m' \<and> fhm_inv m' \<and> fhm_lookup m' = (fhm_lookup m)(k \<mapsto> v)"
    if "fhm_lookup m k = None" "fhm_room m k"
    using AddNode_new[OF inv that] .
  show "\<exists>m'. FlatHashMap_DeleteNode k m = Some m' \<and> fhm_inv m' \<and> fhm_lookup m' = (fhm_lookup m)(k := None) \<and>
      (\<forall>j. fhm_room m j \<longrightarrow> fhm_room m' j)"
    by (rule DeleteNode_lookup[OF inv])
qed

lemma FlatHashMap_init_empty:
  assumes "k < 60"
  shows "fhm_inv (FlatHashMap_init (2 ^ k))" "fhm_lookup (FlatHashMap_init (2 ^ k)) = Map.empty"
    "fhm_room (FlatHashMap_init (2 ^ k)) key"
proof -
  have r: "fhm_repr (FlatHashMap_init (2 ^ k)) (\<lambda>_. [])"
    using assms by (auto simp: fhm_repr_def fhm_layout_def fhm_shape_def FlatHashMap_init_def
        slot_ok_def slot_view_def EMPTY_MARKER_def)
  show "fhm_inv (FlatHashMap_init (2 ^ k))" "fhm_room (FlatHashMap_init (2 ^ k)) key"
    using fhm_inv_of_repr[OF r] by simp_all
  show "fhm_lookup (FlatHashMap_init (2 ^ k)) = Map.empty"
    using fhm_inv_of_repr(2)[OF r] by (simp add: fun_eq_iff)
qed

section \<open>The seventeenth key of a bucket\<close>

fun add_keys :: "u64 list \<Rightarrow> FlatHashMap \<Rightarrow> FlatHashMap option" where
  "add_keys [] m = Some m"
| "add_keys (k # ks) m = Option.bind (FlatHashMap_AddNode k (Some (unat k)) m) (add_keys ks)"

text \<open>A bucket that overflows loses keys: in a map of four buckets whose bucket 0 is full and whose
  bucket 1 holds a key in its first lane, the key 64 (home bucket 0) is written to a lane but \<open>GetVal\<close> does not find it.\<close>

theorem overflow_loses_key:
  "Option.bind (add_keys (map (\<lambda>i. 4 * of_nat i) [0..<16] @ [1, 64]) (FlatHashMap_init 4))
     (\<lambda>m. Some (64 \<in> set (fhm_Keys m), FlatHashMap_GetVal 64 m)) = Some (True, None)"
  by code_simp

section \<open>Properties\<close>

text \<open>C27. While the home bucket of a new key has a free lane, the map behaves as a finite map: the key is
  found after its insertion, every other key is found as before, and deleting it restores the map.\<close>

theorem FlatHashMap_insert_lookup_delete:
  assumes "fhm_inv m" "FlatHashMap_GetVal key m = None" "fhm_room m key"
  shows "\<exists>m1 m2. FlatHashMap_AddNode key v m = Some m1 \<and> FlatHashMap_GetVal key m1 = Some v \<and>
    (\<forall>k. k \<noteq> key \<longrightarrow> FlatHashMap_GetVal k m1 = FlatHashMap_GetVal k m) \<and>
    FlatHashMap_DeleteNode key m1 = Some m2 \<and> fhm_inv m2 \<and> (\<forall>k. FlatHashMap_GetVal k m2 = FlatHashMap_GetVal k m)"
proof -
  have "fhm_lookup m key = None" using assms(1,2) fhm.get_lookup by simp
  from fhm.get_after_add[OF assms(1) this assms(3), of v] fhm.add_then_del[OF assms(1) this assms(3), of v]
  show ?thesis using fhm.get_lookup assms(1) by fastforce
qed

theorem FlatHashMap_insert_lookup_delete_witness:
  "\<exists>m1. FlatHashMap_AddNode 42 (Some 7) (FlatHashMap_init (2 ^ 2)) = Some m1 \<and> FlatHashMap_GetVal 42 m1 = Some (Some 7)"
proof -
  have i: "fhm_inv (FlatHashMap_init (2 ^ 2))" "fhm_room (FlatHashMap_init (2 ^ 2)) 42"
    by (rule FlatHashMap_init_empty; simp)+
  have "FlatHashMap_GetVal 42 (FlatHashMap_init (2 ^ 2)) = None"
    using fhm.get_lookup[OF i(1)] FlatHashMap_init_empty(2)[of 2] by simp
  from FlatHashMap_insert_lookup_delete[OF i(1) this i(2), of "Some 7"] show ?thesis by blast
qed

end
