(* ===== verification/Spsc_Queue.thy ===== *)
theory Spsc_Queue
  imports Prelude
begin

text \<open>
  The single-producer single-consumer ring of \<open>market_server/common/include/spsc_queue.hpp\<close>.
  \<open>Head\<close> and \<open>Tail\<close> are free-running 64-bit counters; a slot is a counter masked with
  \<open>Size - 1\<close>, and each side keeps a cached copy of the other side's counter that it refreshes
  only when the queue looks full (producer) or empty (consumer).  Each operation is one definition
  that takes the queue and the caller's two local counters and returns them updated.  The blocking
  operations re-read a counter that only the other side changes: run alone they either succeed
  after one refresh or spin, and spinning for ever is \<open>None\<close>.

  Two results: a channel (queue plus both handles) is a bounded FIFO (the locale \<open>bounded_fifo\<close>
  and its interpretation), and under every interleaving of the individual memory accesses of one
  producer and one consumer the values popped are a prefix of the values pushed.
\<close>

section \<open>The queue and its operations\<close>

record 'a SpscQueue =
  q_Head :: u64
  q_Tail :: u64
  q_Buffer :: "'a list"

abbreviation queue_size :: "'a SpscQueue \<Rightarrow> u64" where
  "queue_size q \<equiv> of_nat (length (q_Buffer q))"

definition slot_idx :: "'a SpscQueue \<Rightarrow> u64 \<Rightarrow> nat" where
  "slot_idx q i = unat (i AND (queue_size q - 1))"

definition SpscQueue_init :: "nat \<Rightarrow> 'a \<Rightarrow> 'a SpscQueue" where
  "SpscQueue_init n d = \<lparr> q_Head = 0, q_Tail = 0, q_Buffer = replicate n d \<rparr>"

definition GetSize :: "'a SpscQueue \<Rightarrow> u64" where
  "GetSize q = (let head = q_Head q; tail = q_Tail q in tail - head)"

definition TryPush :: "'a \<Rightarrow> 'a SpscQueue \<Rightarrow> u64 \<Rightarrow> u64 \<Rightarrow> bool \<times> 'a SpscQueue \<times> u64 \<times> u64" where
  "TryPush item q localHead localTail =
     (let localHead = (if localTail - localHead \<ge> queue_size q then q_Head q else localHead)
      in if localTail - localHead \<ge> queue_size q then (False, q, localHead, localTail)
         else (let idx = slot_idx q localTail;
                   q = q \<lparr> q_Buffer := (q_Buffer q)[idx := item] \<rparr>;
                   localTail = localTail + 1;
                   q = q \<lparr> q_Tail := localTail \<rparr>
               in (True, q, localHead, localTail)))"

partial_function (option) Push ::
  "'a \<Rightarrow> 'a SpscQueue \<Rightarrow> u64 \<Rightarrow> u64 \<Rightarrow> ('a SpscQueue \<times> u64 \<times> u64) option" where
  "Push item q localHead localTail =
     (if localTail - localHead \<ge> queue_size q then Push item q (q_Head q) localTail
      else (let idx = slot_idx q localTail;
                q = q \<lparr> q_Buffer := (q_Buffer q)[idx := item] \<rparr>;
                localTail = localTail + 1;
                q = q \<lparr> q_Tail := localTail \<rparr>
            in Some (q, localHead, localTail)))"

text \<open>The clock is the sequence of values \<open>now\<close> reads; \<open>k\<close> counts the reads so far.\<close>

partial_function (option) TimedPush_loop ::
  "(nat \<Rightarrow> nat) \<Rightarrow> nat \<Rightarrow> nat \<Rightarrow> 'a \<Rightarrow> 'a SpscQueue \<Rightarrow> u64 \<Rightarrow> u64 \<Rightarrow>
   (bool \<times> 'a SpscQueue \<times> u64 \<times> u64) option" where
  "TimedPush_loop now deadline k item q localHead localTail =
     (if localTail - localHead \<ge> queue_size q then
        (if now k \<ge> deadline then Some (False, q, localHead, localTail)
         else TimedPush_loop now deadline (Suc k) item q (q_Head q) localTail)
      else (let idx = slot_idx q localTail;
                q = q \<lparr> q_Buffer := (q_Buffer q)[idx := item] \<rparr>;
                localTail = localTail + 1;
                q = q \<lparr> q_Tail := localTail \<rparr>
            in Some (True, q, localHead, localTail)))"

definition TimedPush ::
  "(nat \<Rightarrow> nat) \<Rightarrow> nat \<Rightarrow> 'a \<Rightarrow> 'a SpscQueue \<Rightarrow> u64 \<Rightarrow> u64 \<Rightarrow>
   (bool \<times> 'a SpscQueue \<times> u64 \<times> u64) option" where
  "TimedPush now timeout_us item q localHead localTail =
     TimedPush_loop now (now 0 + timeout_us) 1 item q localHead localTail"

definition TryPop :: "'a SpscQueue \<Rightarrow> u64 \<Rightarrow> u64 \<Rightarrow> 'a option \<times> 'a SpscQueue \<times> u64 \<times> u64" where
  "TryPop q localHead localTail =
     (let localTail = (if localTail = localHead then q_Tail q else localTail)
      in if localTail = localHead then (None, q, localHead, localTail)
         else (let item = q_Buffer q ! slot_idx q localHead;
                   localHead = localHead + 1;
                   q = q \<lparr> q_Head := localHead \<rparr>
               in (Some item, q, localHead, localTail)))"

partial_function (option) Pop ::
  "'a SpscQueue \<Rightarrow> u64 \<Rightarrow> u64 \<Rightarrow> ('a \<times> 'a SpscQueue \<times> u64 \<times> u64) option" where
  "Pop q localHead localTail =
     (if localTail = localHead then Pop q localHead (q_Tail q)
      else (let item = q_Buffer q ! slot_idx q localHead;
                localHead = localHead + 1;
                q = q \<lparr> q_Head := localHead \<rparr>
            in Some (item, q, localHead, localTail)))"

partial_function (option) TimedPop_loop ::
  "(nat \<Rightarrow> nat) \<Rightarrow> nat \<Rightarrow> nat \<Rightarrow> 'a SpscQueue \<Rightarrow> u64 \<Rightarrow> u64 \<Rightarrow>
   ('a option \<times> 'a SpscQueue \<times> u64 \<times> u64) option" where
  "TimedPop_loop now deadline k q localHead localTail =
     (if localTail = localHead then
        (if now k \<ge> deadline then Some (None, q, localHead, localTail)
         else TimedPop_loop now deadline (Suc k) q localHead (q_Tail q))
      else (let item = q_Buffer q ! slot_idx q localHead;
                localHead = localHead + 1;
                q = q \<lparr> q_Head := localHead \<rparr>
            in Some (Some item, q, localHead, localTail)))"

definition TimedPop ::
  "(nat \<Rightarrow> nat) \<Rightarrow> nat \<Rightarrow> 'a SpscQueue \<Rightarrow> u64 \<Rightarrow> u64 \<Rightarrow>
   ('a option \<times> 'a SpscQueue \<times> u64 \<times> u64) option" where
  "TimedPop now timeout_us q localHead localTail =
     TimedPop_loop now (now 0 + timeout_us) 1 q localHead localTail"

declare Push.simps [code] Pop.simps [code] TimedPush_loop.simps [code] TimedPop_loop.simps [code]

section \<open>Handles: a channel is a queue with one producer and one consumer\<close>

record SpscQueueProducer =
  prod_LocalHead :: u64
  prod_LocalTail :: u64

record SpscQueueConsumer =
  cons_LocalHead :: u64
  cons_LocalTail :: u64

record 'a channel =
  ch_Queue :: "'a SpscQueue"
  ch_Producer :: SpscQueueProducer
  ch_Consumer :: SpscQueueConsumer

definition SpscQueueProducer_init :: "'a SpscQueue \<Rightarrow> SpscQueueProducer" where
  "SpscQueueProducer_init q = \<lparr> prod_LocalHead = q_Head q, prod_LocalTail = q_Tail q \<rparr>"

definition SpscQueueConsumer_init :: "'a SpscQueue \<Rightarrow> SpscQueueConsumer" where
  "SpscQueueConsumer_init q = \<lparr> cons_LocalHead = q_Head q, cons_LocalTail = q_Tail q \<rparr>"

definition channel_of :: "'a SpscQueue \<Rightarrow> 'a channel" where
  "channel_of q = \<lparr> ch_Queue = q, ch_Producer = SpscQueueProducer_init q,
                    ch_Consumer = SpscQueueConsumer_init q \<rparr>"

definition Producer_TryPush :: "'a \<Rightarrow> 'a channel \<Rightarrow> bool \<times> 'a channel" where
  "Producer_TryPush item c =
     (case TryPush item (ch_Queue c) (prod_LocalHead (ch_Producer c)) (prod_LocalTail (ch_Producer c)) of
        (ok, q, lh, lt) \<Rightarrow>
          (ok, c \<lparr> ch_Queue := q, ch_Producer := \<lparr> prod_LocalHead = lh, prod_LocalTail = lt \<rparr> \<rparr>))"

definition Producer_Push :: "'a \<Rightarrow> 'a channel \<Rightarrow> 'a channel option" where
  "Producer_Push item c =
     (case Push item (ch_Queue c) (prod_LocalHead (ch_Producer c)) (prod_LocalTail (ch_Producer c)) of
        None \<Rightarrow> None
      | Some (q, lh, lt) \<Rightarrow>
          Some (c \<lparr> ch_Queue := q, ch_Producer := \<lparr> prod_LocalHead = lh, prod_LocalTail = lt \<rparr> \<rparr>))"

definition Producer_TimedPush :: "(nat \<Rightarrow> nat) \<Rightarrow> nat \<Rightarrow> 'a \<Rightarrow> 'a channel \<Rightarrow> (bool \<times> 'a channel) option" where
  "Producer_TimedPush now timeout_us item c =
     (case TimedPush now timeout_us item (ch_Queue c)
             (prod_LocalHead (ch_Producer c)) (prod_LocalTail (ch_Producer c)) of
        None \<Rightarrow> None
      | Some (ok, q, lh, lt) \<Rightarrow>
          Some (ok, c \<lparr> ch_Queue := q, ch_Producer := \<lparr> prod_LocalHead = lh, prod_LocalTail = lt \<rparr> \<rparr>))"

definition Consumer_TryPop :: "'a channel \<Rightarrow> 'a option \<times> 'a channel" where
  "Consumer_TryPop c =
     (case TryPop (ch_Queue c) (cons_LocalHead (ch_Consumer c)) (cons_LocalTail (ch_Consumer c)) of
        (r, q, lh, lt) \<Rightarrow>
          (r, c \<lparr> ch_Queue := q, ch_Consumer := \<lparr> cons_LocalHead = lh, cons_LocalTail = lt \<rparr> \<rparr>))"

definition Consumer_Pop :: "'a channel \<Rightarrow> ('a \<times> 'a channel) option" where
  "Consumer_Pop c =
     (case Pop (ch_Queue c) (cons_LocalHead (ch_Consumer c)) (cons_LocalTail (ch_Consumer c)) of
        None \<Rightarrow> None
      | Some (r, q, lh, lt) \<Rightarrow>
          Some (r, c \<lparr> ch_Queue := q, ch_Consumer := \<lparr> cons_LocalHead = lh, cons_LocalTail = lt \<rparr> \<rparr>))"

definition Consumer_TimedPop :: "(nat \<Rightarrow> nat) \<Rightarrow> nat \<Rightarrow> 'a channel \<Rightarrow> ('a option \<times> 'a channel) option" where
  "Consumer_TimedPop now timeout_us c =
     (case TimedPop now timeout_us (ch_Queue c)
             (cons_LocalHead (ch_Consumer c)) (cons_LocalTail (ch_Consumer c)) of
        None \<Rightarrow> None
      | Some (r, q, lh, lt) \<Rightarrow>
          Some (r, c \<lparr> ch_Queue := q, ch_Consumer := \<lparr> cons_LocalHead = lh, cons_LocalTail = lt \<rparr> \<rparr>))"

section \<open>Abstraction and invariant\<close>

text \<open>With \<open>h\<close> items popped and \<open>t\<close> items pushed since the start, the live items are those numbered
  \<open>h\<close> to \<open>t - 1\<close>; item \<open>i\<close> sits in slot \<open>i mod Size\<close>.\<close>

definition live_items :: "'a list \<Rightarrow> nat \<Rightarrow> nat \<Rightarrow> 'a list" where
  "live_items buf h t = map (\<lambda>i. buf ! (i mod length buf)) [h..<t]"

definition pow2_size :: "'a list \<Rightarrow> bool" where
  "pow2_size buf \<longleftrightarrow> (\<exists>k < 64. length buf = 2 ^ k)"

definition counts_ok :: "'a channel \<Rightarrow> nat \<Rightarrow> nat \<Rightarrow> bool" where
  "counts_ok c h t \<longleftrightarrow> pow2_size (q_Buffer (ch_Queue c)) \<and>
     q_Head (ch_Queue c) = of_nat h \<and> q_Tail (ch_Queue c) = of_nat t \<and>
     h \<le> t \<and> t - h \<le> length (q_Buffer (ch_Queue c)) \<and>
     prod_LocalTail (ch_Producer c) = of_nat t \<and>
     (\<exists>ph \<le> h. prod_LocalHead (ch_Producer c) = of_nat ph \<and> t - ph \<le> length (q_Buffer (ch_Queue c))) \<and>
     cons_LocalHead (ch_Consumer c) = of_nat h \<and>
     (\<exists>ct \<ge> h. ct \<le> t \<and> cons_LocalTail (ch_Consumer c) = of_nat ct)"

definition channel_inv :: "'a channel \<Rightarrow> bool" where
  "channel_inv c \<longleftrightarrow> (\<exists>h t. counts_ok c h t)"

definition channel_items :: "'a channel \<Rightarrow> 'a list" where
  "channel_items c =
     (let buf = q_Buffer (ch_Queue c); h = q_Head (ch_Queue c); n = unat (q_Tail (ch_Queue c) - h)
      in map (\<lambda>i. buf ! (unat (h + of_nat i) mod length buf)) [0..<n])"

definition channel_cap :: "'a channel \<Rightarrow> nat" where
  "channel_cap c = length (q_Buffer (ch_Queue c))"

section \<open>Counter arithmetic\<close>

lemma pow2_size_bounds:
  assumes "pow2_size buf"
  shows "0 < length buf" "length buf \<le> 2 ^ 63"
proof -
  from assms obtain k where k: "k < 64" "length buf = 2 ^ k" by (auto simp: pow2_size_def)
  then show "0 < length buf" by simp
  from k have "(2::nat) ^ k \<le> 2 ^ 63" by (intro power_increasing) auto
  with k show "length buf \<le> 2 ^ 63" by simp
qed

lemma mod_pow2_absorb:
  assumes "k < 64"
  shows "n mod 18446744073709551616 mod 2 ^ k = (n :: nat) mod 2 ^ k"
proof (rule mod_mod_cancel)
  have "(2 :: nat) ^ k dvd 2 ^ 64" using assms by (intro le_imp_power_dvd) simp
  then show "(2 :: nat) ^ k dvd 18446744073709551616" by simp
qed

lemma mask_of_nat_mod:
  assumes "k < 64"
  shows "unat ((of_nat i :: u64) AND (of_nat (2 ^ k) - 1)) = i mod 2 ^ k"
proof -
  have "(of_nat i :: u64) AND (of_nat (2 ^ k) - 1) = take_bit k (of_nat i)"
    by (simp add: take_bit_eq_mask mask_eq_exp_minus_1)
  moreover have "unat (take_bit k (of_nat i :: u64)) = take_bit k (take_bit 64 i)"
    by (simp add: unsigned_take_bit_eq unsigned_of_nat)
  ultimately show ?thesis using assms by (simp add: mod_pow2_absorb take_bit_eq_mod)
qed

lemma slot_idx_of_nat:
  assumes "pow2_size (q_Buffer q)"
  shows "slot_idx q (of_nat i) = i mod length (q_Buffer q)"
  using assms by (auto simp: pow2_size_def slot_idx_def mask_of_nat_mod simp del: of_nat_power)

lemma counter_diff: "h \<le> t \<Longrightarrow> (of_nat t - of_nat h :: u64) = of_nat (t - h)"
  by simp

lemma counter_full_iff:
  assumes "pow2_size buf" "h \<le> t" "t - h \<le> length buf"
  shows "(of_nat t - of_nat h :: u64) \<ge> of_nat (length buf) \<longleftrightarrow> t - h = length buf"
proof -
  have len: "length buf < 2 ^ 64" using pow2_size_bounds[OF assms(1)] by simp
  with assms(3) have "t - h < 2 ^ 64" by simp
  with len have "(of_nat (t - h) :: u64) \<ge> of_nat (length buf) \<longleftrightarrow> t - h \<ge> length buf"
    by (simp add: word_le_nat_alt unat_of_nat)
  with assms show ?thesis by (simp only: counter_diff) auto
qed

lemma counter_eq_iff:
  assumes "pow2_size buf" "h \<le> t" "t - h \<le> length buf"
  shows "(of_nat t :: u64) = of_nat h \<longleftrightarrow> t = h"
proof
  assume "(of_nat t :: u64) = of_nat h"
  then have "(of_nat (t - h) :: u64) = 0" using assms(2) by (simp add: of_nat_diff)
  then have "(t - h) mod 2 ^ 64 = 0"
    by (simp add: word_of_nat_eq_0_iff dvd_eq_mod_eq_0 del: of_nat_diff)
  moreover have "t - h < 2 ^ 64" using pow2_size_bounds[OF assms(1)] assms(3) by simp
  ultimately show "t = h" using assms(2) by simp
qed simp

lemma length_live_items [simp]: "length (live_items buf h t) = t - h"
  by (simp add: live_items_def)

lemma slot_neq:
  assumes "h \<le> i" "i < t" "t - h < n"
  shows "i mod n \<noteq> t mod (n :: nat)"
proof
  assume "i mod n = t mod n"
  then have "n dvd t - i" using assms by (intro mod_eq_dvd_iff_nat [THEN iffD1]) auto
  moreover have "0 < t - i" "t - i < n" using assms by auto
  ultimately show False by (auto dest: dvd_imp_le)
qed

lemma live_items_write:
  "t - h < length buf \<Longrightarrow> live_items (buf[t mod length buf := x]) h t = live_items buf h t"
  unfolding live_items_def length_list_update
  by (intro map_cong refl nth_list_update_neq) (auto dest: slot_neq)

lemma live_items_publish:
  "h \<le> t \<Longrightarrow> live_items buf h (Suc t) = live_items buf h t @ [buf ! (t mod length buf)]"
  by (simp add: live_items_def)

lemma live_items_push:
  assumes "h \<le> t" "t - h < length buf"
  shows "live_items (buf[t mod length buf := x]) h (Suc t) = live_items buf h t @ [x]"
proof -
  have "t mod length buf < length buf" using assms(2) by (cases buf) auto
  with assms show ?thesis by (simp add: live_items_publish live_items_write)
qed

lemma live_items_pop:
  "h < t \<Longrightarrow> live_items buf h t = buf ! (h mod length buf) # live_items buf (Suc h) t"
  by (simp add: live_items_def upt_conv_Cons)

lemma channel_items_counts:
  assumes "counts_ok c h t"
  shows "channel_items c = live_items (q_Buffer (ch_Queue c)) h t"
proof -
  let ?buf = "q_Buffer (ch_Queue c)"
  from assms have p: "pow2_size ?buf" and le: "h \<le> t" and n: "t - h \<le> length ?buf"
    and ht: "q_Head (ch_Queue c) = of_nat h" "q_Tail (ch_Queue c) = of_nat t"
    by (auto simp: counts_ok_def)
  from p obtain k where k: "k < 64" "length ?buf = 2 ^ k" by (auto simp: pow2_size_def)
  have lt: "t - h < 2 ^ 64" using n pow2_size_bounds[OF p] by simp
  have cnt: "unat (of_nat t - of_nat h :: u64) = t - h"
    using le lt by (simp only: counter_diff) (simp add: unat_of_nat del: of_nat_diff)
  have idx: "unat (of_nat h + of_nat i :: u64) mod length ?buf = (h + i) mod length ?buf" for i
  proof -
    have "unat (of_nat (h + i) :: u64) mod 2 ^ k = (h + i) mod 2 ^ k"
      using mod_pow2_absorb[OF k(1)] by (simp add: unat_of_nat del: of_nat_add)
    then show ?thesis by (simp add: k(2))
  qed
  have "[h..<t] = map (\<lambda>i. h + i) [0..<t - h]"
    using le map_add_upt[of h "t - h"] by (simp add: add.commute)
  then show ?thesis
    by (simp add: channel_items_def live_items_def ht cnt idx Let_def)
qed

lemma counts_okI:
  assumes "pow2_size (q_Buffer (ch_Queue c))"
    "q_Head (ch_Queue c) = of_nat h" "q_Tail (ch_Queue c) = of_nat t"
    "h \<le> t" "t - h \<le> length (q_Buffer (ch_Queue c))"
    "prod_LocalTail (ch_Producer c) = of_nat t"
    "ph \<le> h" "prod_LocalHead (ch_Producer c) = of_nat ph" "t - ph \<le> length (q_Buffer (ch_Queue c))"
    "cons_LocalHead (ch_Consumer c) = of_nat h"
    "h \<le> ct" "ct \<le> t" "cons_LocalTail (ch_Consumer c) = of_nat ct"
  shows "counts_ok c h t"
  using assms by (auto simp: counts_ok_def)

lemma counts_okE:
  assumes "counts_ok c h t"
  obtains ph ct where "pow2_size (q_Buffer (ch_Queue c))"
    "q_Head (ch_Queue c) = of_nat h" "q_Tail (ch_Queue c) = of_nat t"
    "h \<le> t" "t - h \<le> length (q_Buffer (ch_Queue c))"
    "prod_LocalTail (ch_Producer c) = of_nat t"
    "ph \<le> h" "prod_LocalHead (ch_Producer c) = of_nat ph" "t - ph \<le> length (q_Buffer (ch_Queue c))"
    "cons_LocalHead (ch_Consumer c) = of_nat h"
    "h \<le> ct" "ct \<le> t" "cons_LocalTail (ch_Consumer c) = of_nat ct"
  using assms by (auto simp: counts_ok_def)

lemma pow2_size_update [simp]: "pow2_size (buf[i := x]) = pow2_size buf"
  by (simp add: pow2_size_def)

section \<open>The bounded FIFO interface\<close>

text \<open>The loop every batching consumer runs: pop until \<open>n\<close> items are taken or the queue is empty.\<close>

fun pop_upto :: "('c \<Rightarrow> 'a option \<times> 'c) \<Rightarrow> nat \<Rightarrow> 'c \<Rightarrow> 'a list \<times> 'c" where
  "pop_upto pop 0 c = ([], c)"
| "pop_upto pop (Suc n) c =
     (case pop c of
        (None, c) \<Rightarrow> ([], c)
      | (Some x, c) \<Rightarrow> (case pop_upto pop n c of (xs, c) \<Rightarrow> (x # xs, c)))"

fun push_all :: "('a \<Rightarrow> 'c \<Rightarrow> bool \<times> 'c) \<Rightarrow> 'a list \<Rightarrow> 'c \<Rightarrow> bool \<times> 'c" where
  "push_all push [] c = (True, c)"
| "push_all push (x # xs) c =
     (case push x c of (ok, c) \<Rightarrow> (case push_all push xs c of (oks, c) \<Rightarrow> (ok \<and> oks, c)))"

locale bounded_fifo =
  fixes inv :: "'c \<Rightarrow> bool" and items :: "'c \<Rightarrow> 'a list" and cap :: "'c \<Rightarrow> nat"
    and push :: "'a \<Rightarrow> 'c \<Rightarrow> bool \<times> 'c" and pop :: "'c \<Rightarrow> 'a option \<times> 'c"
  assumes bound: "inv c \<Longrightarrow> length (items c) \<le> cap c"
    and push_room: "inv c \<Longrightarrow> length (items c) < cap c \<Longrightarrow>
          \<exists>c'. push x c = (True, c') \<and> inv c' \<and> items c' = items c @ [x] \<and> cap c' = cap c"
    and push_full: "inv c \<Longrightarrow> length (items c) = cap c \<Longrightarrow>
          \<exists>c'. push x c = (False, c') \<and> inv c' \<and> items c' = items c \<and> cap c' = cap c"
    and pop_some: "inv c \<Longrightarrow> items c = x # xs \<Longrightarrow>
          \<exists>c'. pop c = (Some x, c') \<and> inv c' \<and> items c' = xs \<and> cap c' = cap c"
    and pop_none: "inv c \<Longrightarrow> items c = [] \<Longrightarrow>
          \<exists>c'. pop c = (None, c') \<and> inv c' \<and> items c' = [] \<and> cap c' = cap c"
begin

lemma push_iff: "inv c \<Longrightarrow> fst (push x c) \<longleftrightarrow> length (items c) < cap c"
  using bound[of c] push_room[of c x] push_full[of c x]
  by (cases "length (items c) < cap c") auto

lemma pop_upto_take:
  "inv c \<Longrightarrow> \<exists>c'. pop_upto pop n c = (take n (items c), c') \<and> inv c' \<and>
     items c' = drop n (items c) \<and> cap c' = cap c"
proof (induction n arbitrary: c)
  case 0
  then show ?case by simp
next
  case (Suc n)
  show ?case
  proof (cases "items c")
    case Nil
    with pop_none[OF Suc.prems] show ?thesis by auto
  next
    case (Cons x xs)
    from pop_some[OF Suc.prems this] obtain c1 where
      c1: "pop c = (Some x, c1)" "inv c1" "items c1 = xs" "cap c1 = cap c" by blast
    from Suc.IH[OF c1(2)] obtain c' where
      "pop_upto pop n c1 = (take n xs, c')" "inv c'" "items c' = drop n xs" "cap c' = cap c"
      by (auto simp: c1)
    with c1 Cons show ?thesis by auto
  qed
qed

lemma push_all_append:
  "inv c \<Longrightarrow> length (items c) + length xs \<le> cap c \<Longrightarrow>
   \<exists>c'. push_all push xs c = (True, c') \<and> inv c' \<and> items c' = items c @ xs \<and> cap c' = cap c"
proof (induction xs arbitrary: c)
  case Nil
  then show ?case by simp
next
  case (Cons x xs)
  from push_room[OF Cons.prems(1), of x] Cons.prems(2) obtain c1 where
    c1: "push x c = (True, c1)" "inv c1" "items c1 = items c @ [x]" "cap c1 = cap c" by auto
  with Cons.IH[of c1] Cons.prems(2) show ?case by auto
qed

lemma fifo_roundtrip:
  assumes "inv c" "items c = []" "length xs \<le> cap c"
  shows "\<exists>c1 c2. push_all push xs c = (True, c1) \<and> pop_upto pop (length xs) c1 = (xs, c2) \<and>
     items c2 = []"
proof -
  from push_all_append[of c xs] assms obtain c1 where
    c1: "push_all push xs c = (True, c1)" "inv c1" "items c1 = xs" by auto
  from pop_upto_take[OF c1(2), of "length xs"] c1 show ?thesis by auto
qed

end

section \<open>The channel is a bounded FIFO\<close>

lemma channel_inv_init:
  assumes "pow2_size (q_Buffer q)" "q_Head q = 0" "q_Tail q = 0"
  shows "channel_inv (channel_of q)" "channel_items (channel_of q) = []"
proof -
  have c: "counts_ok (channel_of q) 0 0"
    using assms
    by (auto simp: counts_ok_def channel_of_def SpscQueueProducer_init_def
        SpscQueueConsumer_init_def intro!: exI[of _ 0])
  then show "channel_inv (channel_of q)" by (auto simp: channel_inv_def)
  from channel_items_counts[OF c] show "channel_items (channel_of q) = []"
    by (simp add: live_items_def)
qed

lemma Producer_TryPush_room:
  assumes c: "counts_ok c h t" and room: "t - h < length (q_Buffer (ch_Queue c))"
  shows "\<exists>c'. Producer_TryPush x c = (True, c') \<and> counts_ok c' h (Suc t) \<and>
     channel_items c' = channel_items c @ [x] \<and> channel_cap c' = channel_cap c"
proof -
  let ?q = "ch_Queue c" and ?n = "length (q_Buffer (ch_Queue c))"
  let ?lh = "prod_LocalHead (ch_Producer c)" and ?lt = "prod_LocalTail (ch_Producer c)"
  define lh where "lh = (if ?lt - ?lh \<ge> queue_size ?q then q_Head ?q else ?lh)"
  from c have p: "pow2_size (q_Buffer ?q)" and le: "h \<le> t" and lt: "?lt = of_nat t"
    and hd: "q_Head ?q = of_nat h" by (auto simp: counts_ok_def)
  from c obtain ph where ph: "ph \<le> h" "?lh = of_nat ph" "t - ph \<le> ?n" by (auto simp: counts_ok_def)
  have full_ph: "?lt - ?lh \<ge> queue_size ?q \<longleftrightarrow> t - ph = ?n"
    using counter_full_iff[OF p, of ph t] ph le lt by simp
  obtain ph' where ph': "lh = of_nat ph'" "ph' \<le> h" "t - ph' < ?n"
    using ph full_ph hd le room by (cases "t - ph = ?n") (auto simp: lh_def)
  have "\<not> ?lt - lh \<ge> queue_size ?q"
    using counter_full_iff[OF p, of ph' t] ph' le by (simp add: lt)
  then have eq: "Producer_TryPush x c = (True, c \<lparr> ch_Queue := ?q \<lparr> q_Buffer :=
      (q_Buffer ?q)[t mod ?n := x], q_Tail := of_nat t + 1 \<rparr>,
      ch_Producer := \<lparr> prod_LocalHead = lh, prod_LocalTail = of_nat t + 1 \<rparr> \<rparr>)" (is "_ = (True, ?c')")
    by (simp add: Producer_TryPush_def TryPush_def lh_def Let_def lt slot_idx_of_nat[OF p]
        split: if_splits)
  have ok: "counts_ok ?c' h (Suc t)"
    using c by (rule counts_okE) (rule counts_okI[where ph = ph'], use ph' le room in auto)
  moreover have "channel_items ?c' = channel_items c @ [x]"
    using channel_items_counts[OF ok] channel_items_counts[OF c] live_items_push[OF le room, of x]
    by simp
  ultimately show ?thesis by (simp only: eq) (simp add: channel_cap_def)
qed

lemma Producer_TryPush_full:
  assumes c: "counts_ok c h t" and full: "t - h = length (q_Buffer (ch_Queue c))"
  shows "\<exists>c'. Producer_TryPush x c = (False, c') \<and> counts_ok c' h t \<and>
     channel_items c' = channel_items c \<and> channel_cap c' = channel_cap c"
proof -
  let ?q = "ch_Queue c" and ?n = "length (q_Buffer (ch_Queue c))"
  from c have p: "pow2_size (q_Buffer ?q)" and le: "h \<le> t"
    and lt: "prod_LocalTail (ch_Producer c) = of_nat t"
    and hd: "q_Head ?q = of_nat h" by (auto simp: counts_ok_def)
  from c obtain ph where ph: "ph \<le> h" "prod_LocalHead (ch_Producer c) = of_nat ph" "t - ph \<le> ?n"
    by (auto simp: counts_ok_def)
  have "t - ph = ?n" using ph full le by simp
  then have "Producer_TryPush x c = (False, c \<lparr> ch_Queue := ?q,
      ch_Producer := \<lparr> prod_LocalHead = of_nat h, prod_LocalTail = of_nat t \<rparr> \<rparr>)" (is "_ = (False, ?c')")
    using counter_full_iff[OF p, of ph t] counter_full_iff[OF p, of h t] ph full le
    by (simp add: Producer_TryPush_def TryPush_def lt hd Let_def)
  moreover have "counts_ok ?c' h t" using c full le by (auto simp: counts_ok_def)
  ultimately show ?thesis by (simp add: channel_cap_def channel_items_def)
qed

lemma Consumer_TryPop_some:
  assumes c: "counts_ok c h t" and ne: "h < t"
  shows "\<exists>c'. Consumer_TryPop c = (Some (hd (channel_items c)), c') \<and> counts_ok c' (Suc h) t \<and>
     channel_items c' = tl (channel_items c) \<and> channel_cap c' = channel_cap c"
proof -
  let ?q = "ch_Queue c" and ?n = "length (q_Buffer (ch_Queue c))"
  from c have p: "pow2_size (q_Buffer ?q)" and n: "t - h \<le> ?n"
    and lh: "cons_LocalHead (ch_Consumer c) = of_nat h" and tl: "q_Tail ?q = of_nat t"
    by (auto simp: counts_ok_def)
  from c obtain ct where ct: "h \<le> ct" "ct \<le> t" "cons_LocalTail (ch_Consumer c) = of_nat ct"
    by (auto simp: counts_ok_def)
  define ct' where "ct' = (if ct = h then t else ct)"
  have ct': "Suc h \<le> ct'" "ct' \<le> t" using ct ne by (auto simp: ct'_def)
  then have nz: "(of_nat ct' :: u64) \<noteq> of_nat h"
    using n counter_eq_iff[OF p, of h ct'] by auto
  have eqz: "(of_nat ct :: u64) = of_nat h \<longleftrightarrow> ct = h"
    using counter_eq_iff[OF p, of h ct] ct n by simp
  have eq: "Consumer_TryPop c = (Some (q_Buffer ?q ! (h mod ?n)), c \<lparr> ch_Queue := ?q \<lparr> q_Head :=
      of_nat h + 1 \<rparr>, ch_Consumer := \<lparr> cons_LocalHead = of_nat h + 1,
      cons_LocalTail = of_nat ct' \<rparr> \<rparr>)" (is "_ = (Some _, ?c')")
    using nz eqz by (auto simp: Consumer_TryPop_def TryPop_def lh ct(3) tl Let_def ct'_def
        slot_idx_of_nat[OF p])
  have ok: "counts_ok ?c' (Suc h) t"
  proof -
    from c obtain ph where "ph \<le> h" "prod_LocalHead (ch_Producer c) = of_nat ph" "t - ph \<le> ?n"
      by (auto simp: counts_ok_def)
    with c ne ct' show ?thesis
      by (intro counts_okI[where ph = ph and ct = ct']) (auto simp: counts_ok_def)
  qed
  have "channel_items ?c' = tl (channel_items c)" "hd (channel_items c) = q_Buffer ?q ! (h mod ?n)"
    using channel_items_counts[OF ok] channel_items_counts[OF c]
    by (simp_all add: live_items_pop[OF ne, of "q_Buffer ?q"])
  with eq ok show ?thesis by (simp add: channel_cap_def)
qed

lemma Consumer_TryPop_none:
  assumes c: "counts_ok c h h"
  shows "\<exists>c'. Consumer_TryPop c = (None, c') \<and> counts_ok c' h h \<and> channel_items c' = [] \<and>
     channel_cap c' = channel_cap c"
proof -
  from c have eq: "Consumer_TryPop c = (None, c \<lparr> ch_Queue := ch_Queue c,
      ch_Consumer := \<lparr> cons_LocalHead = of_nat h, cons_LocalTail = of_nat h \<rparr> \<rparr>)" (is "_ = (None, ?c')")
    by (auto simp: counts_ok_def Consumer_TryPop_def TryPop_def Let_def)
  have ok: "counts_ok ?c' h h" using c by (auto simp: counts_ok_def)
  with eq channel_items_counts[OF ok] show ?thesis by (simp add: channel_cap_def live_items_def)
qed

interpretation spsc: bounded_fifo channel_inv channel_items channel_cap Producer_TryPush Consumer_TryPop
proof
  fix c :: "'a channel"
  assume "channel_inv c"
  then obtain h t where ok: "counts_ok c h t" by (auto simp: channel_inv_def)
  have len: "length (channel_items c) = t - h" by (simp add: channel_items_counts[OF ok])
  show "length (channel_items c) \<le> channel_cap c"
    using ok by (simp add: len channel_cap_def counts_ok_def)
  show "\<exists>c'. Producer_TryPush x c = (True, c') \<and> channel_inv c' \<and>
      channel_items c' = channel_items c @ [x] \<and> channel_cap c' = channel_cap c"
    if "length (channel_items c) < channel_cap c" for x
    using Producer_TryPush_room[OF ok, of x] that unfolding channel_inv_def len channel_cap_def by blast
  show "\<exists>c'. Producer_TryPush x c = (False, c') \<and> channel_inv c' \<and>
      channel_items c' = channel_items c \<and> channel_cap c' = channel_cap c"
    if "length (channel_items c) = channel_cap c" for x
    using Producer_TryPush_full[OF ok, of x] that unfolding channel_inv_def len channel_cap_def by blast
  show "\<exists>c'. Consumer_TryPop c = (Some x, c') \<and> channel_inv c' \<and>
      channel_items c' = xs \<and> channel_cap c' = channel_cap c" if "channel_items c = x # xs" for x xs
  proof -
    have "h < t" using len that by simp
    from Consumer_TryPop_some[OF ok this] that show ?thesis unfolding channel_inv_def by auto
  qed
  show "\<exists>c'. Consumer_TryPop c = (None, c') \<and> channel_inv c' \<and>
      channel_items c' = [] \<and> channel_cap c' = channel_cap c" if "channel_items c = []"
  proof -
    have "h = t" using len that ok by (simp add: counts_ok_def)
    with Consumer_TryPop_none[of c h] ok show ?thesis unfolding channel_inv_def by blast
  qed
qed

text \<open>The blocking push does what the non-blocking one does whenever that one succeeds.\<close>

lemma Producer_Push_of_TryPush:
  assumes "Producer_TryPush x c = (True, c')"
  shows "Producer_Push x c = Some c'"
proof -
  let ?q = "ch_Queue c" and ?lh = "prod_LocalHead (ch_Producer c)" and ?lt = "prod_LocalTail (ch_Producer c)"
  obtain q lh lt where t: "TryPush x ?q ?lh ?lt = (True, q, lh, lt)"
    and c': "c' = c \<lparr> ch_Queue := q, ch_Producer := \<lparr> prod_LocalHead = lh, prod_LocalTail = lt \<rparr> \<rparr>"
    using assms by (auto simp: Producer_TryPush_def split: prod.splits)
  have "Push x ?q ?lh ?lt = Some (q, lh, lt)"
    using t by (subst Push.simps, subst Push.simps) (auto simp: TryPush_def Let_def split: if_splits)
  then show ?thesis by (simp add: Producer_Push_def c')
qed

section \<open>Interleaved memory accesses\<close>

text \<open>
  The two threads run concurrently.  A step is one access to shared memory: the producer refreshes
  its copy of \<open>Head\<close>, stores an item into a slot, or publishes \<open>Tail\<close>; the consumer refreshes its
  copy of \<open>Tail\<close>, loads an item, or publishes \<open>Head\<close>.  \<open>run_Written\<close> and \<open>run_Read\<close> are the item
  in flight between a thread's two accesses; \<open>run_Pushed\<close> and \<open>run_Popped\<close> log the completed
  operations.  The acquire and release orders of the source make each of these accesses appear in
  this order to the other thread.
\<close>

record 'a spsc_run =
  run_Channel :: "'a channel"
  run_Written :: "'a option"
  run_Read :: "'a option"
  run_Pushed :: "'a list"
  run_Popped :: "'a list"

definition set_Producer :: "'a channel \<Rightarrow> u64 \<Rightarrow> u64 \<Rightarrow> 'a channel" where
  "set_Producer c lh lt = c \<lparr> ch_Producer := \<lparr> prod_LocalHead = lh, prod_LocalTail = lt \<rparr> \<rparr>"

definition set_Consumer :: "'a channel \<Rightarrow> u64 \<Rightarrow> u64 \<Rightarrow> 'a channel" where
  "set_Consumer c lh lt = c \<lparr> ch_Consumer := \<lparr> cons_LocalHead = lh, cons_LocalTail = lt \<rparr> \<rparr>"

inductive spsc_step :: "'a spsc_run \<Rightarrow> 'a spsc_run \<Rightarrow> bool" where
  P_refresh: "run_Written r = None \<Longrightarrow> c = run_Channel r \<Longrightarrow>
     spsc_step r (r \<lparr> run_Channel :=
        set_Producer c (q_Head (ch_Queue c)) (prod_LocalTail (ch_Producer c)) \<rparr>)"
| P_write: "run_Written r = None \<Longrightarrow> c = run_Channel r \<Longrightarrow>
     prod_LocalTail (ch_Producer c) - prod_LocalHead (ch_Producer c) < queue_size (ch_Queue c) \<Longrightarrow>
     spsc_step r (r \<lparr> run_Written := Some x, run_Channel := c \<lparr> ch_Queue := ch_Queue c \<lparr> q_Buffer :=
        (q_Buffer (ch_Queue c))[slot_idx (ch_Queue c) (prod_LocalTail (ch_Producer c)) := x] \<rparr> \<rparr> \<rparr>)"
| P_publish: "run_Written r = Some x \<Longrightarrow> c = run_Channel r \<Longrightarrow>
     lt = prod_LocalTail (ch_Producer c) + 1 \<Longrightarrow>
     spsc_step r (r \<lparr> run_Written := None, run_Pushed := run_Pushed r @ [x], run_Channel :=
        set_Producer (c \<lparr> ch_Queue := ch_Queue c \<lparr> q_Tail := lt \<rparr> \<rparr>)
          (prod_LocalHead (ch_Producer c)) lt \<rparr>)"
| C_refresh: "run_Read r = None \<Longrightarrow> c = run_Channel r \<Longrightarrow>
     spsc_step r (r \<lparr> run_Channel :=
        set_Consumer c (cons_LocalHead (ch_Consumer c)) (q_Tail (ch_Queue c)) \<rparr>)"
| C_read: "run_Read r = None \<Longrightarrow> c = run_Channel r \<Longrightarrow>
     cons_LocalTail (ch_Consumer c) \<noteq> cons_LocalHead (ch_Consumer c) \<Longrightarrow>
     spsc_step r (r \<lparr> run_Read := Some (q_Buffer (ch_Queue c) !
        slot_idx (ch_Queue c) (cons_LocalHead (ch_Consumer c))) \<rparr>)"
| C_publish: "run_Read r = Some x \<Longrightarrow> c = run_Channel r \<Longrightarrow>
     lh = cons_LocalHead (ch_Consumer c) + 1 \<Longrightarrow>
     spsc_step r (r \<lparr> run_Read := None, run_Popped := run_Popped r @ [x], run_Channel :=
        set_Consumer (c \<lparr> ch_Queue := ch_Queue c \<lparr> q_Head := lh \<rparr> \<rparr>)
          lh (cons_LocalTail (ch_Consumer c)) \<rparr>)"

definition spsc_start :: "'a SpscQueue \<Rightarrow> 'a spsc_run" where
  "spsc_start q = \<lparr> run_Channel = channel_of q, run_Written = None, run_Read = None,
     run_Pushed = [], run_Popped = [] \<rparr>"

definition run_inv :: "'a spsc_run \<Rightarrow> bool" where
  "run_inv r \<longleftrightarrow>
     (let c = run_Channel r; buf = q_Buffer (ch_Queue c);
          h = length (run_Popped r); t = length (run_Pushed r)
      in counts_ok c h t \<and> run_Popped r @ live_items buf h t = run_Pushed r \<and>
         (\<forall>x. run_Written r = Some x \<longrightarrow> buf ! (t mod length buf) = x \<and>
            prod_LocalTail (ch_Producer c) - prod_LocalHead (ch_Producer c) < queue_size (ch_Queue c)) \<and>
         (\<forall>y. run_Read r = Some y \<longrightarrow> y = buf ! (h mod length buf) \<and>
            cons_LocalTail (ch_Consumer c) \<noteq> cons_LocalHead (ch_Consumer c)))"

lemma run_inv_start:
  "pow2_size (q_Buffer q) \<Longrightarrow> q_Head q = 0 \<Longrightarrow> q_Tail q = 0 \<Longrightarrow> run_inv (spsc_start q)"
  by (auto simp: run_inv_def spsc_start_def live_items_def channel_of_def counts_ok_def
      SpscQueueProducer_init_def SpscQueueConsumer_init_def Let_def)

lemma producer_room:
  assumes "counts_ok c h t"
    "prod_LocalTail (ch_Producer c) - prod_LocalHead (ch_Producer c) < queue_size (ch_Queue c)"
  obtains ph where "ph \<le> h" "prod_LocalHead (ch_Producer c) = of_nat ph"
    "t - ph < length (q_Buffer (ch_Queue c))" "t - h < length (q_Buffer (ch_Queue c))"
proof -
  from assms(1) obtain ph where p: "pow2_size (q_Buffer (ch_Queue c))"
    and lt: "prod_LocalTail (ch_Producer c) = of_nat t" and ht: "h \<le> t"
    and ph: "ph \<le> h" "prod_LocalHead (ch_Producer c) = of_nat ph"
      "t - ph \<le> length (q_Buffer (ch_Queue c))"
    by (auto simp: counts_ok_def)
  with assms(2) counter_full_iff[OF p, of ph t] have "t - ph < length (q_Buffer (ch_Queue c))"
    by (auto simp: lt not_le[symmetric])
  with ph ht that show ?thesis by auto
qed

lemma consumer_nonempty:
  assumes "counts_ok c h t" "cons_LocalTail (ch_Consumer c) \<noteq> cons_LocalHead (ch_Consumer c)"
  obtains ct where "h < ct" "ct \<le> t" "cons_LocalTail (ch_Consumer c) = of_nat ct"
proof -
  from assms obtain ct where ct: "h \<le> ct" "ct \<le> t" "cons_LocalTail (ch_Consumer c) = of_nat ct"
    "cons_LocalHead (ch_Consumer c) = of_nat h" by (auto simp: counts_ok_def)
  with assms(2) have "h \<noteq> ct" by auto
  with ct that[of ct] show ?thesis by simp
qed

lemmas run_proj_simps = set_Producer_def set_Consumer_def Let_def

lemma run_inv_write:
  assumes P_write: "run_Written r = None" "c = run_Channel r" "prod_LocalTail (ch_Producer c) - prod_LocalHead (ch_Producer c) < queue_size (ch_Queue c)" "run_inv r"
  shows "run_inv (r \<lparr> run_Written := Some x, run_Channel := c \<lparr> ch_Queue := ch_Queue c \<lparr> q_Buffer :=
        (q_Buffer (ch_Queue c))[slot_idx (ch_Queue c) (prod_LocalTail (ch_Producer c)) := x] \<rparr> \<rparr> \<rparr>)"
proof -
  let ?h = "length (run_Popped r)" and ?t = "length (run_Pushed r)" and ?buf = "q_Buffer (ch_Queue c)"
  have ok: "counts_ok c ?h ?t" using P_write by (simp add: run_inv_def Let_def)
  then have p: "pow2_size ?buf" and lt: "prod_LocalTail (ch_Producer c) = of_nat ?t"
    by (auto simp: counts_ok_def)
  have room: "?t - ?h < length ?buf" by (rule producer_room[OF ok P_write(3)])
  have slot: "slot_idx (ch_Queue c) (prod_LocalTail (ch_Producer c)) = ?t mod length ?buf"
    by (simp add: lt slot_idx_of_nat[OF p])
  have lt_len: "?t mod length ?buf < length ?buf" using room by (cases ?buf) auto
  have rd: "?buf[?t mod length ?buf := x] ! (?h mod length ?buf) = ?buf ! (?h mod length ?buf)"
    if "run_Read r = Some y" for y
  proof -
    from that P_write have "cons_LocalTail (ch_Consumer c) \<noteq> cons_LocalHead (ch_Consumer c)"
      by (auto simp: run_inv_def Let_def)
    then have "?h < ?t" by (rule consumer_nonempty[OF ok]) simp
    with slot_neq[of ?h ?h ?t "length ?buf"] room have "?t mod length ?buf \<noteq> ?h mod length ?buf"
      by simp
    then show ?thesis by (rule nth_list_update_neq)
  qed
  have "counts_ok (c \<lparr> ch_Queue := ch_Queue c \<lparr> q_Buffer := ?buf[?t mod length ?buf := x] \<rparr> \<rparr>) ?h ?t"
    using ok by (auto simp: counts_ok_def)
  moreover have "run_Popped r @ live_items (?buf[?t mod length ?buf := x]) ?h ?t = run_Pushed r"
    unfolding live_items_write[OF room] using P_write by (simp add: run_inv_def Let_def)
  moreover have "y = ?buf[?t mod length ?buf := x] ! (?h mod length ?buf) \<and>
      cons_LocalTail (ch_Consumer c) \<noteq> cons_LocalHead (ch_Consumer c)" if "run_Read r = Some y" for y
    using P_write that rd[OF that] by (simp add: run_inv_def Let_def)
  ultimately show ?thesis
    using P_write(2,3) lt_len unfolding slot by (simp add: run_inv_def Let_def)
qed

lemma run_inv_publish:
  assumes P_publish: "run_Written r = Some x" "c = run_Channel r" "lt = prod_LocalTail (ch_Producer c) + 1" "run_inv r"
  shows "run_inv (r \<lparr> run_Written := None, run_Pushed := run_Pushed r @ [x], run_Channel :=
        set_Producer (c \<lparr> ch_Queue := ch_Queue c \<lparr> q_Tail := lt \<rparr> \<rparr>)
          (prod_LocalHead (ch_Producer c)) lt \<rparr>)"
proof -
  let ?h = "length (run_Popped r)" and ?t = "length (run_Pushed r)" and ?buf = "q_Buffer (ch_Queue c)"
  from P_publish have ok: "counts_ok c ?h ?t" and bx: "?buf ! (?t mod length ?buf) = x"
    and rm: "prod_LocalTail (ch_Producer c) - prod_LocalHead (ch_Producer c) < queue_size (ch_Queue c)"
    and log: "run_Popped r @ live_items ?buf ?h ?t = run_Pushed r"
    by (auto simp: run_inv_def Let_def)
  from producer_room[OF ok rm] obtain ph where ph: "ph \<le> ?h"
    "prod_LocalHead (ch_Producer c) = of_nat ph" "?t - ph < length ?buf" "?t - ?h < length ?buf" .
  from ok obtain ct where ct: "?h \<le> ct" "ct \<le> ?t" "cons_LocalTail (ch_Consumer c) = of_nat ct"
    by (auto simp: counts_ok_def)
  have le: "?h \<le> ?t" and lt: "lt = of_nat (Suc ?t)" using ok P_publish(3) by (auto simp: counts_ok_def)
  have "counts_ok (set_Producer (c \<lparr> ch_Queue := ch_Queue c \<lparr> q_Tail := lt \<rparr> \<rparr>)
          (prod_LocalHead (ch_Producer c)) lt) ?h (Suc ?t)"
    using ok ph ct le lt
    by (intro counts_okI[where ph = ph and ct = ct]) (auto simp: counts_ok_def run_proj_simps)
  with P_publish live_items_publish[OF le, of ?buf] bx log show ?thesis
    by (auto simp: run_inv_def run_proj_simps)
qed

lemma run_inv_pop:
  assumes C_publish: "run_Read r = Some x" "c = run_Channel r" "lh = cons_LocalHead (ch_Consumer c) + 1" "run_inv r"
  shows "run_inv (r \<lparr> run_Read := None, run_Popped := run_Popped r @ [x], run_Channel :=
        set_Consumer (c \<lparr> ch_Queue := ch_Queue c \<lparr> q_Head := lh \<rparr> \<rparr>)
          lh (cons_LocalTail (ch_Consumer c)) \<rparr>)"
proof -
  let ?h = "length (run_Popped r)" and ?t = "length (run_Pushed r)" and ?buf = "q_Buffer (ch_Queue c)"
  from C_publish have ok: "counts_ok c ?h ?t" and x: "x = ?buf ! (?h mod length ?buf)"
    and ne: "cons_LocalTail (ch_Consumer c) \<noteq> cons_LocalHead (ch_Consumer c)"
    and log: "run_Popped r @ live_items ?buf ?h ?t = run_Pushed r"
    by (auto simp: run_inv_def Let_def)
  from consumer_nonempty[OF ok ne] obtain ct where ct: "?h < ct" "ct \<le> ?t"
    "cons_LocalTail (ch_Consumer c) = of_nat ct" .
  from ok obtain ph where ph: "ph \<le> ?h" "prod_LocalHead (ch_Producer c) = of_nat ph"
    "?t - ph \<le> length ?buf" by (auto simp: counts_ok_def)
  have lh: "lh = of_nat (Suc ?h)" using ok C_publish(3) by (auto simp: counts_ok_def)
  have "counts_ok (set_Consumer (c \<lparr> ch_Queue := ch_Queue c \<lparr> q_Head := lh \<rparr> \<rparr>)
          lh (cons_LocalTail (ch_Consumer c))) (Suc ?h) ?t"
    using ok ph ct lh
    by (intro counts_okI[where ph = ph and ct = ct]) (auto simp: counts_ok_def run_proj_simps)
  moreover have "live_items ?buf ?h ?t = x # live_items ?buf (Suc ?h) ?t"
    using ct x by (simp add: live_items_pop)
  ultimately show ?thesis using C_publish log by (auto simp: run_inv_def run_proj_simps)
qed

lemma run_inv_step: "spsc_step r r' \<Longrightarrow> run_inv r \<Longrightarrow> run_inv r'"
proof (induction rule: spsc_step.induct)
  case (P_refresh r c)
  let ?h = "length (run_Popped r)" and ?t = "length (run_Pushed r)"
  have "counts_ok c ?h ?t" using P_refresh by (simp add: run_inv_def Let_def)
  then have "counts_ok (set_Producer c (q_Head (ch_Queue c)) (prod_LocalTail (ch_Producer c))) ?h ?t"
    by (auto simp: counts_ok_def run_proj_simps)
  with P_refresh show ?case by (simp add: run_inv_def run_proj_simps)
next
  case (P_write r c x)
  then show ?case by (rule run_inv_write)
next
  case (P_publish r x c lt)
  then show ?case by (rule run_inv_publish)
next
  case (C_refresh r c)
  let ?h = "length (run_Popped r)" and ?t = "length (run_Pushed r)"
  have "counts_ok c ?h ?t" using C_refresh by (simp add: run_inv_def Let_def)
  then have "counts_ok (set_Consumer c (cons_LocalHead (ch_Consumer c)) (q_Tail (ch_Queue c))) ?h ?t"
    by (auto simp: counts_ok_def run_proj_simps)
  with C_refresh show ?case by (simp add: run_inv_def run_proj_simps)
next
  case (C_read r c)
  let ?h = "length (run_Popped r)" and ?t = "length (run_Pushed r)" and ?buf = "q_Buffer (ch_Queue c)"
  have ok: "counts_ok c ?h ?t" using C_read by (simp add: run_inv_def Let_def)
  then have "slot_idx (ch_Queue c) (cons_LocalHead (ch_Consumer c)) = ?h mod length ?buf"
    by (auto simp: counts_ok_def slot_idx_of_nat)
  with C_read show ?case by (simp add: run_inv_def Let_def)
next
  case (C_publish r x c lh)
  then show ?case by (rule run_inv_pop)
qed

lemma run_inv_steps: "spsc_step\<^sup>*\<^sup>* r r' \<Longrightarrow> run_inv r \<Longrightarrow> run_inv r'"
  by (induction rule: rtranclp_induct) (auto intro: run_inv_step)

text \<open>
  C25. The ring loses, duplicates and reorders nothing: whatever the interleaving of the memory
  accesses of one producer and one consumer, the items popped so far are exactly the first items
  pushed, and at most \<open>Size\<close> items are pushed but not yet popped.  The 64-bit counters may wrap.
\<close>

theorem spsc_fifo_any_interleaving:
  assumes "pow2_size (q_Buffer q)" "q_Head q = 0" "q_Tail q = 0"
    and "spsc_step\<^sup>*\<^sup>* (spsc_start q) r"
  shows "run_Popped r = take (length (run_Popped r)) (run_Pushed r) \<and>
         length (run_Popped r) \<le> length (run_Pushed r) \<and>
         length (run_Pushed r) - length (run_Popped r) \<le> length (q_Buffer (ch_Queue (run_Channel r)))"
proof -
  have "run_inv r" using run_inv_steps[OF assms(4)] run_inv_start assms(1-3) by blast
  then have "run_Popped r @ live_items (q_Buffer (ch_Queue (run_Channel r)))
      (length (run_Popped r)) (length (run_Pushed r)) = run_Pushed r"
    and "counts_ok (run_Channel r) (length (run_Popped r)) (length (run_Pushed r))"
    by (simp_all add: run_inv_def Let_def)
  then show ?thesis by (metis append_eq_conv_conj counts_ok_def)
qed

theorem spsc_fifo_any_interleaving_witness:
  "\<exists>r. spsc_step\<^sup>*\<^sup>* (spsc_start (SpscQueue_init 2 (0 :: nat))) r \<and> run_Pushed r = [7] \<and>
       run_Popped r = take (length (run_Popped r)) (run_Pushed r)"
proof -
  let ?q = "SpscQueue_init 2 (0 :: nat)"
  let ?r0 = "spsc_start ?q"
  obtain r1 where r1: "spsc_step ?r0 r1" "run_Written r1 = Some 7" "run_Pushed r1 = []"
    using P_write[of ?r0 "run_Channel ?r0" 7]
    by (auto simp: spsc_start_def channel_of_def SpscQueueProducer_init_def SpscQueue_init_def)
  obtain r2 where r2: "spsc_step r1 r2" "run_Pushed r2 = [7]"
    using that[OF P_publish[OF r1(2) refl refl]] r1(3) by simp
  have q: "pow2_size (q_Buffer ?q)" "q_Head ?q = 0" "q_Tail ?q = 0"
    by (auto simp: SpscQueue_init_def pow2_size_def intro!: exI[of _ 1])
  have "spsc_step\<^sup>*\<^sup>* ?r0 r2" using r1(1) r2(1) by (meson r_into_rtranclp rtranclp.rtrancl_into_rtrancl)
  with r2 spsc_fifo_any_interleaving[OF q this] show ?thesis by blast
qed

text \<open>
  A channel is a bounded FIFO: pushing a list that fits into an empty channel and popping as
  many items returns the same list in the same order and leaves the channel empty.
\<close>

theorem channel_roundtrip:
  assumes "channel_inv c" "channel_items c = []" "length xs \<le> channel_cap c"
  shows "\<exists>c1 c2. push_all Producer_TryPush xs c = (True, c1) \<and>
     pop_upto Consumer_TryPop (length xs) c1 = (xs, c2) \<and> channel_items c2 = []"
  using assms by (rule spsc.fifo_roundtrip)

theorem channel_roundtrip_witness:
  "\<exists>c1 c2. push_all Producer_TryPush [5, 6] (channel_of (SpscQueue_init 4 (0 :: nat))) = (True, c1) \<and>
     pop_upto Consumer_TryPop 2 c1 = ([5, 6], c2) \<and> channel_items c2 = []"
proof -
  have "pow2_size (q_Buffer (SpscQueue_init 4 (0 :: nat)))"
    by (auto simp: SpscQueue_init_def pow2_size_def intro!: exI[of _ 2])
  note init = channel_inv_init[OF this]
  have "channel_inv (channel_of (SpscQueue_init 4 (0 :: nat)))"
    "channel_items (channel_of (SpscQueue_init 4 (0 :: nat))) = []"
    "length [5, 6 :: nat] \<le> channel_cap (channel_of (SpscQueue_init 4 (0 :: nat)))"
    using init by (simp_all add: SpscQueue_init_def channel_cap_def channel_of_def)
  note rt = channel_roundtrip[OF this]
  have two: "length [5, 6 :: nat] = 2" by simp
  show ?thesis using rt unfolding two .
qed

end
