(* ===== verification/Storage_Pools.thy ===== *)
theory Storage_Pools
  imports Spsc_Queue
begin

text \<open>
  The two fixed-size object pools: \<open>SingleThreadedStoragePool\<close>
  (\<open>market_server/common/include/single_threaded_storage_pool.hpp\<close>), a stack of free pointers, and
  \<open>StoragePool\<close> (\<open>storage_pool.hpp\<close>), whose free list is an SPSC queue so that the thread that
  releases an object need not be the one that acquires it.  A pointer into \<open>Storage\<close> is an index
  (\<open>ptr\<close>), a null pointer is \<open>None\<close>, and \<open>Storage\<close> is the memory the pointers refer to.

  Both pools meet one contract, the locale \<open>object_pool\<close>: an object is either free or handed out,
  \<open>Acquire\<close> moves one from free to handed out, and \<open>Release\<close> moves it back.
\<close>

section \<open>The single-threaded pool\<close>

record 'a SingleThreadedStoragePool =
  stp_Storage :: "ptr \<Rightarrow> 'a"
  stp_FreeQueue :: "ptr list"
  stp_FreeSize :: nat

definition SingleThreadedStoragePool_init :: "nat \<Rightarrow> 'a \<Rightarrow> 'a SingleThreadedStoragePool" where
  "SingleThreadedStoragePool_init Size d =
     \<lparr> stp_Storage = (\<lambda>_. d), stp_FreeQueue = [0..<Size], stp_FreeSize = Size \<rparr>"

definition STPool_Acquire ::
  "'a SingleThreadedStoragePool \<Rightarrow> ptr option \<times> 'a SingleThreadedStoragePool" where
  "STPool_Acquire p =
     (if stp_FreeSize p > 0
      then (Some (stp_FreeQueue p ! (stp_FreeSize p - 1)), p \<lparr> stp_FreeSize := stp_FreeSize p - 1 \<rparr>)
      else (None, p))"

definition STPool_Release ::
  "ptr option \<Rightarrow> 'a SingleThreadedStoragePool \<Rightarrow> bool \<times> 'a SingleThreadedStoragePool" where
  "STPool_Release toRelease p =
     (case toRelease of
        None \<Rightarrow> (False, p)
      | Some e \<Rightarrow>
          (if stp_FreeSize p < length (stp_FreeQueue p)
           then (True, p \<lparr> stp_FreeQueue := (stp_FreeQueue p)[stp_FreeSize p := e],
                           stp_FreeSize := stp_FreeSize p + 1 \<rparr>)
           else (False, p)))"

definition stp_free :: "'a SingleThreadedStoragePool \<Rightarrow> ptr list" where
  "stp_free p = take (stp_FreeSize p) (stp_FreeQueue p)"

definition stp_all :: "'a SingleThreadedStoragePool \<Rightarrow> ptr set" where
  "stp_all p = {..<length (stp_FreeQueue p)}"

definition stp_inv :: "'a SingleThreadedStoragePool \<Rightarrow> bool" where
  "stp_inv p \<longleftrightarrow> stp_FreeSize p \<le> length (stp_FreeQueue p) \<and> distinct (stp_free p) \<and>
     set (stp_free p) \<subseteq> stp_all p"

section \<open>The pool shared by two threads\<close>

record 'a StoragePool =
  sp_Storage :: "ptr \<Rightarrow> 'a"
  sp_Free :: "ptr channel"
  sp_LocalReuseBuffer :: "ptr option list"
  sp_LocalReuseSize :: nat

text \<open>The constructor throws when \<open>Size\<close> is zero or when the free list cannot be populated.\<close>

definition StoragePool_init :: "nat \<Rightarrow> 'a \<Rightarrow> 'a StoragePool option" where
  "StoragePool_init Size d =
     (if Size = 0 then None
      else (case push_all Producer_TryPush [0..<Size] (channel_of (SpscQueue_init Size 0)) of
              (ok, c) \<Rightarrow>
                if ok then Some \<lparr> sp_Storage = (\<lambda>_. d), sp_Free = c,
                                  sp_LocalReuseBuffer = replicate Size None, sp_LocalReuseSize = 0 \<rparr>
                else None))"

definition StoragePool_GetSize :: "'a StoragePool \<Rightarrow> nat" where
  "StoragePool_GetSize p = length (sp_LocalReuseBuffer p)"

definition StoragePool_Acquire :: "'a StoragePool \<Rightarrow> ptr option \<times> 'a StoragePool" where
  "StoragePool_Acquire p =
     (if sp_LocalReuseSize p > 0
      then (sp_LocalReuseBuffer p ! (sp_LocalReuseSize p - 1),
            p \<lparr> sp_LocalReuseSize := sp_LocalReuseSize p - 1 \<rparr>)
      else (case Consumer_TryPop (sp_Free p) of (res, c) \<Rightarrow> (res, p \<lparr> sp_Free := c \<rparr>)))"

definition StoragePool_LocalRelease :: "ptr option \<Rightarrow> 'a StoragePool \<Rightarrow> bool \<times> 'a StoragePool" where
  "StoragePool_LocalRelease element p =
     (let released = sp_LocalReuseSize p < StoragePool_GetSize p
      in (released,
          if released
          then p \<lparr> sp_LocalReuseBuffer := (sp_LocalReuseBuffer p)[sp_LocalReuseSize p := element],
                   sp_LocalReuseSize := sp_LocalReuseSize p + 1 \<rparr>
          else p))"

definition StoragePool_GetAvailable :: "'a StoragePool \<Rightarrow> bool" where
  "StoragePool_GetAvailable p \<longleftrightarrow> sp_LocalReuseSize p > 0 \<or> GetSize (ch_Queue (sp_Free p)) \<noteq> 0"

definition StoragePool_Release :: "ptr option \<Rightarrow> 'a StoragePool \<Rightarrow> bool \<times> 'a StoragePool" where
  "StoragePool_Release element p =
     (case element of
        None \<Rightarrow> (False, p)
      | Some e \<Rightarrow> (case Producer_TryPush e (sp_Free p) of (ok, c) \<Rightarrow> (ok, p \<lparr> sp_Free := c \<rparr>)))"

text \<open>\<open>std::terminate\<close> is \<open>None\<close>.\<close>

definition StoragePool_ReleaseCritical :: "ptr option \<Rightarrow> 'a StoragePool \<Rightarrow> 'a StoragePool option" where
  "StoragePool_ReleaseCritical element p =
     (case StoragePool_Release element p of (ok, p) \<Rightarrow> if ok then Some p else None)"

definition sp_local :: "'a StoragePool \<Rightarrow> ptr option list" where
  "sp_local p = take (sp_LocalReuseSize p) (sp_LocalReuseBuffer p)"

definition sp_free :: "'a StoragePool \<Rightarrow> ptr list" where
  "sp_free p = channel_items (sp_Free p) @ map the (sp_local p)"

definition sp_all :: "'a StoragePool \<Rightarrow> ptr set" where
  "sp_all p = {..<StoragePool_GetSize p}"

definition sp_inv :: "'a StoragePool \<Rightarrow> bool" where
  "sp_inv p \<longleftrightarrow> channel_inv (sp_Free p) \<and> channel_cap (sp_Free p) = StoragePool_GetSize p \<and>
     sp_LocalReuseSize p \<le> StoragePool_GetSize p \<and> None \<notin> set (sp_local p) \<and>
     distinct (sp_free p) \<and> set (sp_free p) \<subseteq> sp_all p"

section \<open>The contract of a pool\<close>

fun acquire_many :: "('p \<Rightarrow> ptr option \<times> 'p) \<Rightarrow> nat \<Rightarrow> 'p \<Rightarrow> ptr list \<times> 'p" where
  "acquire_many acq 0 p = ([], p)"
| "acquire_many acq (Suc n) p =
     (case acq p of
        (None, p) \<Rightarrow> ([], p)
      | (Some x, p) \<Rightarrow> (case acquire_many acq n p of (xs, p) \<Rightarrow> (x # xs, p)))"

locale object_pool =
  fixes inv :: "'p \<Rightarrow> bool" and free :: "'p \<Rightarrow> ptr list" and all :: "'p \<Rightarrow> ptr set"
    and acquire :: "'p \<Rightarrow> ptr option \<times> 'p" and release :: "ptr option \<Rightarrow> 'p \<Rightarrow> bool \<times> 'p"
  assumes finite_all: "finite (all p)"
    and free_in_all: "inv p \<Longrightarrow> set (free p) \<subseteq> all p"
    and free_distinct: "inv p \<Longrightarrow> distinct (free p)"
    and acquire_none: "inv p \<Longrightarrow> free p = [] \<Longrightarrow>
          \<exists>p'. acquire p = (None, p') \<and> inv p' \<and> free p' = [] \<and> all p' = all p"
    and acquire_some: "inv p \<Longrightarrow> free p \<noteq> [] \<Longrightarrow>
          \<exists>x p'. acquire p = (Some x, p') \<and> inv p' \<and> x \<in> set (free p) \<and>
                 set (free p') = set (free p) - {x} \<and> all p' = all p"
    and release_out: "inv p \<Longrightarrow> x \<in> all p \<Longrightarrow> x \<notin> set (free p) \<Longrightarrow>
          \<exists>p'. release (Some x) p = (True, p') \<and> inv p' \<and>
               set (free p') = insert x (set (free p)) \<and> all p' = all p"
begin

lemma acquire_iff: "inv p \<Longrightarrow> fst (acquire p) \<noteq> None \<longleftrightarrow> free p \<noteq> []"
  using acquire_none[of p] acquire_some[of p] by (cases "free p = []") auto

lemma acquire_fresh:
  assumes "inv p" "acquire p = (Some x, p')"
  shows "x \<in> all p \<and> x \<in> set (free p) \<and> x \<notin> set (free p') \<and> inv p' \<and> all p' = all p"
  using assms acquire_none[of p] acquire_some[of p] free_in_all[of p] by (cases "free p = []") auto

lemma acquire_release:
  assumes "inv p" "free p \<noteq> []"
  shows "\<exists>x p1 p2. acquire p = (Some x, p1) \<and> release (Some x) p1 = (True, p2) \<and> inv p2 \<and>
     set (free p2) = set (free p) \<and> all p2 = all p"
proof -
  from acquire_some[OF assms] obtain x p1 where
    1: "acquire p = (Some x, p1)" "inv p1" "x \<in> set (free p)"
       "set (free p1) = set (free p) - {x}" "all p1 = all p" by blast
  then have "x \<in> all p1" "x \<notin> set (free p1)" using free_in_all[OF assms(1)] by auto
  from release_out[OF 1(2) this] 1 show ?thesis by auto
qed

lemma acquire_many_distinct:
  assumes "inv p"
  shows "\<exists>p'. snd (acquire_many acquire n p) = p' \<and> inv p' \<and>
     distinct (fst (acquire_many acquire n p)) \<and>
     length (fst (acquire_many acquire n p)) = min n (length (free p)) \<and>
     set (fst (acquire_many acquire n p)) \<union> set (free p') = set (free p) \<and>
     set (fst (acquire_many acquire n p)) \<inter> set (free p') = {}"
  using assms
proof (induction n arbitrary: p)
  case 0
  then show ?case by simp
next
  case (Suc n)
  show ?case
  proof (cases "free p = []")
    case True
    with acquire_none[OF Suc.prems] Suc.prems show ?thesis by auto
  next
    case False
    from acquire_some[OF Suc.prems False] obtain x p1 where
      1: "acquire p = (Some x, p1)" "inv p1" "x \<in> set (free p)"
         "set (free p1) = set (free p) - {x}" by blast
    have "length (free p) = Suc (length (free p1))"
      using 1 free_distinct[OF Suc.prems] free_distinct[OF 1(2)]
      by (metis List.finite_set card_Suc_Diff1 distinct_card)
    with Suc.IH[OF 1(2)] 1 show ?thesis by (auto simp: split_beta)
  qed
qed

end

section \<open>Both pools meet the contract\<close>

lemma card_lt_of_missing:
  assumes "distinct xs" "set xs \<subseteq> {..<n}" "x < n" "x \<notin> set xs"
  shows "length xs < (n :: nat)"
proof -
  have "set xs \<subset> {..<n}" using assms by auto
  then have "card (set xs) < card {..<n}" by (intro psubset_card_mono) simp_all
  with assms(1) show ?thesis by (simp add: distinct_card)
qed

lemma take_Suc_update: "n < length xs \<Longrightarrow> take (Suc n) (xs[n := x]) = take n xs @ [x]"
  by (simp add: take_Suc_conv_app_nth)

lemma last_take_nth: "0 < n \<Longrightarrow> n \<le> length xs \<Longrightarrow> last (take n xs) = xs ! (n - Suc 0)"
  by (subst last_conv_nth) auto

lemma set_butlast_distinct: "distinct xs \<Longrightarrow> xs \<noteq> [] \<Longrightarrow> set (butlast xs) = set xs - {last xs}"
  by (cases xs rule: rev_cases) auto

lemma STPool_Storage [simp]:
  "stp_Storage (snd (STPool_Acquire p)) = stp_Storage p"
  "stp_Storage (snd (STPool_Release r p)) = stp_Storage p"
  by (simp_all add: STPool_Acquire_def STPool_Release_def split: option.splits)

lemma STPool_Acquire_free:
  assumes "stp_inv p" "stp_free p \<noteq> []"
  shows "STPool_Acquire p = (Some (last (stp_free p)), p \<lparr> stp_FreeSize := stp_FreeSize p - 1 \<rparr>)"
    "stp_free (p \<lparr> stp_FreeSize := stp_FreeSize p - 1 \<rparr>) = butlast (stp_free p)"
proof -
  have "0 < stp_FreeSize p" "stp_FreeSize p \<le> length (stp_FreeQueue p)"
    using assms by (auto simp: stp_inv_def stp_free_def)
  then show "STPool_Acquire p = (Some (last (stp_free p)), p \<lparr> stp_FreeSize := stp_FreeSize p - 1 \<rparr>)"
    "stp_free (p \<lparr> stp_FreeSize := stp_FreeSize p - 1 \<rparr>) = butlast (stp_free p)"
    by (auto simp: STPool_Acquire_def stp_free_def butlast_take last_take_nth)
qed

lemma STPool_Release_free:
  assumes "stp_inv p" "x \<in> stp_all p" "x \<notin> set (stp_free p)"
  shows "STPool_Release (Some x) p = (True, p \<lparr> stp_FreeQueue := (stp_FreeQueue p)[stp_FreeSize p := x],
           stp_FreeSize := stp_FreeSize p + 1 \<rparr>)"
    and "stp_free (p \<lparr> stp_FreeQueue := (stp_FreeQueue p)[stp_FreeSize p := x],
           stp_FreeSize := stp_FreeSize p + 1 \<rparr>) = stp_free p @ [x]"
proof -
  let ?p = "p \<lparr> stp_FreeQueue := (stp_FreeQueue p)[stp_FreeSize p := x],
           stp_FreeSize := stp_FreeSize p + 1 \<rparr>"
  have "length (stp_free p) < length (stp_FreeQueue p)"
    using assms by (intro card_lt_of_missing) (auto simp: stp_inv_def stp_all_def)
  then have "stp_FreeSize p < length (stp_FreeQueue p)"
    using assms by (auto simp: stp_free_def stp_inv_def)
  then show "STPool_Release (Some x) p = (True, ?p)" "stp_free ?p = stp_free p @ [x]"
    by (simp_all add: STPool_Release_def stp_free_def take_Suc_update)
qed

interpretation stp: object_pool stp_inv stp_free stp_all STPool_Acquire STPool_Release
proof
  fix p :: "'a SingleThreadedStoragePool" and x
  show "finite (stp_all p)" by (simp add: stp_all_def)
  assume inv: "stp_inv p"
  show "set (stp_free p) \<subseteq> stp_all p" "distinct (stp_free p)" using inv by (auto simp: stp_inv_def)
  show "\<exists>p'. STPool_Acquire p = (None, p') \<and> stp_inv p' \<and> stp_free p' = [] \<and> stp_all p' = stp_all p"
    if "stp_free p = []"
    using that inv by (auto simp: STPool_Acquire_def stp_free_def stp_inv_def)
  show "\<exists>x p'. STPool_Acquire p = (Some x, p') \<and> stp_inv p' \<and> x \<in> set (stp_free p) \<and>
      set (stp_free p') = set (stp_free p) - {x} \<and> stp_all p' = stp_all p" if ne: "stp_free p \<noteq> []"
  proof -
    let ?p = "p \<lparr> stp_FreeSize := stp_FreeSize p - 1 \<rparr>"
    note acq = STPool_Acquire_free[OF inv ne]
    have d: "distinct (stp_free p)" using inv by (simp add: stp_inv_def)
    have "set (stp_free p) \<subseteq> stp_all ?p" "stp_all ?p = stp_all p"
      using inv by (auto simp: stp_inv_def stp_all_def)
    moreover have "stp_inv ?p"
      unfolding stp_inv_def acq(2) using inv d
      by (auto simp: stp_inv_def stp_all_def distinct_butlast dest: in_set_butlastD)
    moreover note set_butlast_distinct[OF d ne]
    ultimately show ?thesis using acq ne by auto
  qed
  show "\<exists>p'. STPool_Release (Some x) p = (True, p') \<and> stp_inv p' \<and>
      set (stp_free p') = insert x (set (stp_free p)) \<and> stp_all p' = stp_all p"
    if x: "x \<in> stp_all p" "x \<notin> set (stp_free p)"
  proof -
    note rel = STPool_Release_free[OF inv x]
    have "length (stp_free p) < length (stp_FreeQueue p)"
      using x inv by (intro card_lt_of_missing) (auto simp: stp_inv_def stp_all_def)
    then have "stp_FreeSize p < length (stp_FreeQueue p)"
      using inv by (auto simp: stp_free_def stp_inv_def)
    then have "stp_inv (p \<lparr> stp_FreeQueue := (stp_FreeQueue p)[stp_FreeSize p := x],
           stp_FreeSize := stp_FreeSize p + 1 \<rparr>)"
      unfolding stp_inv_def rel(2) using inv x by (auto simp: stp_inv_def stp_all_def)
    with rel show ?thesis by (simp add: stp_all_def)
  qed
qed

lemma StoragePool_Storage [simp]:
  "sp_Storage (snd (StoragePool_Acquire p)) = sp_Storage p"
  "sp_Storage (snd (StoragePool_Release r p)) = sp_Storage p"
  "sp_Storage (snd (StoragePool_LocalRelease r p)) = sp_Storage p"
  by (simp_all add: StoragePool_Acquire_def StoragePool_Release_def StoragePool_LocalRelease_def Let_def
      split: option.splits prod.splits)

lemma sp_invD:
  assumes "sp_inv p"
  shows "channel_inv (sp_Free p)" "channel_cap (sp_Free p) = StoragePool_GetSize p"
    "distinct (sp_free p)" "set (sp_free p) \<subseteq> sp_all p" "sp_LocalReuseSize p \<le> StoragePool_GetSize p"
    "None \<notin> set (sp_local p)"
  using assms by (simp_all add: sp_inv_def)

lemma sp_room:
  assumes "sp_inv p" "x \<in> sp_all p" "x \<notin> set (sp_free p)"
  shows "length (channel_items (sp_Free p)) < channel_cap (sp_Free p)"
    "sp_LocalReuseSize p < StoragePool_GetSize p"
proof -
  note inv = sp_invD[OF assms(1)]
  have "length (sp_free p) < StoragePool_GetSize p"
    using assms inv by (intro card_lt_of_missing) (auto simp: sp_all_def)
  with inv show "length (channel_items (sp_Free p)) < channel_cap (sp_Free p)"
    "sp_LocalReuseSize p < StoragePool_GetSize p"
    by (auto simp: sp_free_def sp_local_def StoragePool_GetSize_def)
qed

lemma sp_Acquire_local:
  assumes "sp_inv p" "sp_local p \<noteq> []"
  shows "\<exists>p'. StoragePool_Acquire p = (Some (last (sp_free p)), p') \<and> sp_inv p' \<and>
     sp_free p' = butlast (sp_free p) \<and> sp_all p' = sp_all p"
proof -
  let ?p = "p \<lparr> sp_LocalReuseSize := sp_LocalReuseSize p - 1 \<rparr>"
  note inv = sp_invD[OF assms(1)]
  have n: "0 < sp_LocalReuseSize p" "sp_LocalReuseSize p \<le> length (sp_LocalReuseBuffer p)"
    using assms inv by (auto simp: sp_local_def StoragePool_GetSize_def)
  have l: "sp_local ?p = butlast (sp_local p)"
    using n by (simp add: sp_local_def butlast_take)
  have f: "sp_free ?p = butlast (sp_free p)"
    unfolding sp_free_def l using assms(2) by (simp add: butlast_append map_butlast)
  have "last (sp_local p) = Some (last (sp_free p))"
  proof -
    have "last (sp_local p) \<noteq> None" using assms(2) inv(6) by (metis last_in_set)
    then show ?thesis using assms(2) by (auto simp: sp_free_def last_map)
  qed
  moreover have "last (sp_local p) = sp_LocalReuseBuffer p ! (sp_LocalReuseSize p - 1)"
    using n by (simp add: sp_local_def last_take_nth)
  ultimately have "StoragePool_Acquire p = (Some (last (sp_free p)), ?p)"
    using n by (simp add: StoragePool_Acquire_def)
  moreover have "sp_inv ?p"
    using assms(1) unfolding sp_inv_def f l
    by (auto simp: StoragePool_GetSize_def sp_all_def distinct_butlast dest: in_set_butlastD)
  ultimately show ?thesis using f by (simp add: sp_all_def StoragePool_GetSize_def)
qed

lemma sp_Acquire_queue:
  assumes "sp_inv p" "sp_local p = []"
  shows "channel_items (sp_Free p) = [] \<Longrightarrow> \<exists>p'. StoragePool_Acquire p = (None, p') \<and> sp_inv p' \<and>
      sp_free p' = [] \<and> sp_all p' = sp_all p"
    and "channel_items (sp_Free p) = x # xs \<Longrightarrow> \<exists>p'. StoragePool_Acquire p = (Some x, p') \<and> sp_inv p' \<and>
      sp_free p' = xs \<and> sp_all p' = sp_all p"
proof -
  note inv = sp_invD[OF assms(1)]
  have n: "sp_LocalReuseSize p = 0"
    using assms inv by (auto simp: sp_local_def StoragePool_GetSize_def)
  have step: "\<exists>p'. StoragePool_Acquire p = (r, p') \<and> sp_inv p' \<and> sp_free p' = items \<and>
      sp_all p' = sp_all p"
    if c: "Consumer_TryPop (sp_Free p) = (r, c)" "channel_inv c" "channel_items c = items"
      "channel_cap c = channel_cap (sp_Free p)" and it: "distinct items" "set items \<subseteq> sp_all p"
    for r c items
    using that n assms(1)
    by (simp add: StoragePool_Acquire_def sp_inv_def sp_free_def sp_local_def StoragePool_GetSize_def
        sp_all_def)
  show "\<exists>p'. StoragePool_Acquire p = (None, p') \<and> sp_inv p' \<and> sp_free p' = [] \<and> sp_all p' = sp_all p"
    if "channel_items (sp_Free p) = []"
    using spsc.pop_none[OF inv(1) that] step[of None _ "[]"] by auto
  show "\<exists>p'. StoragePool_Acquire p = (Some x, p') \<and> sp_inv p' \<and> sp_free p' = xs \<and> sp_all p' = sp_all p"
    if i: "channel_items (sp_Free p) = x # xs"
    using spsc.pop_some[OF inv(1) i] step[of "Some x" _ xs] inv(3,4) i by (auto simp: sp_free_def)
qed

lemma sp_Acquire_none:
  assumes "sp_inv p" "sp_free p = []"
  shows "\<exists>p'. StoragePool_Acquire p = (None, p') \<and> sp_inv p' \<and> sp_free p' = [] \<and> sp_all p' = sp_all p"
  using assms sp_Acquire_queue(1)[of p] by (simp add: sp_free_def)

lemma sp_Acquire_some:
  assumes "sp_inv p" "sp_free p \<noteq> []"
  shows "\<exists>x p'. StoragePool_Acquire p = (Some x, p') \<and> sp_inv p' \<and> x \<in> set (sp_free p) \<and>
     set (sp_free p') = set (sp_free p) - {x} \<and> sp_all p' = sp_all p"
proof (cases "sp_local p = []")
  case False
  from sp_Acquire_local[OF assms(1) this] set_butlast_distinct[OF sp_invD(3)[OF assms(1)] assms(2)] assms(2)
  show ?thesis by force
next
  case True
  with assms(2) obtain x xs where i: "channel_items (sp_Free p) = x # xs"
    by (cases "channel_items (sp_Free p)") (auto simp: sp_free_def)
  from sp_Acquire_queue(2)[OF assms(1) True i] sp_invD(3)[OF assms(1)] i True show ?thesis
    by (fastforce simp: sp_free_def)
qed

lemma sp_Release_out:
  assumes "sp_inv p" "x \<in> sp_all p" "x \<notin> set (sp_free p)"
  shows "\<exists>p'. StoragePool_Release (Some x) p = (True, p') \<and> sp_inv p' \<and>
     set (sp_free p') = insert x (set (sp_free p)) \<and> sp_all p' = sp_all p"
proof -
  note inv = sp_invD[OF assms(1)]
  from spsc.push_room[OF inv(1) sp_room(1)[OF assms], of x] obtain c where
    c: "Producer_TryPush x (sp_Free p) = (True, c)" "channel_inv c"
      "channel_items c = channel_items (sp_Free p) @ [x]" "channel_cap c = channel_cap (sp_Free p)"
    by blast
  have "sp_inv (p \<lparr> sp_Free := c \<rparr>)"
    using assms c(2-4) inv
    by (auto simp: sp_inv_def sp_free_def sp_local_def StoragePool_GetSize_def sp_all_def)
  with c show ?thesis
    by (auto simp: StoragePool_Release_def sp_free_def sp_local_def StoragePool_GetSize_def sp_all_def)
qed

lemma sp_LocalRelease_out:
  assumes "sp_inv p" "x \<in> sp_all p" "x \<notin> set (sp_free p)"
  shows "\<exists>p'. StoragePool_LocalRelease (Some x) p = (True, p') \<and> sp_inv p' \<and>
     set (sp_free p') = insert x (set (sp_free p)) \<and> sp_all p' = sp_all p"
proof -
  let ?p = "p \<lparr> sp_LocalReuseBuffer := (sp_LocalReuseBuffer p)[sp_LocalReuseSize p := Some x],
              sp_LocalReuseSize := sp_LocalReuseSize p + 1 \<rparr>"
  note inv = sp_invD[OF assms(1)] and room = sp_room(2)[OF assms]
  have l: "sp_local ?p = sp_local p @ [Some x]"
    using room by (simp add: sp_local_def StoragePool_GetSize_def take_Suc_update)
  have f: "sp_free ?p = sp_free p @ [x]" unfolding sp_free_def l by simp
  have "sp_inv ?p"
    using assms inv room unfolding sp_inv_def f l
    by (auto simp: StoragePool_GetSize_def sp_all_def)
  with room f show ?thesis
    by (simp add: StoragePool_LocalRelease_def StoragePool_GetSize_def sp_all_def Let_def)
qed

lemma finite_sp_all: "finite (sp_all p)"
  by (simp add: sp_all_def)

interpretation sp: object_pool sp_inv sp_free sp_all StoragePool_Acquire StoragePool_Release
  by (unfold_locales; rule finite_sp_all sp_invD(3,4) sp_Acquire_none sp_Acquire_some sp_Release_out; assumption)

interpretation sp_owner: object_pool sp_inv sp_free sp_all StoragePool_Acquire StoragePool_LocalRelease
  by (unfold_locales; rule finite_sp_all sp_invD(3,4) sp_Acquire_none sp_Acquire_some sp_LocalRelease_out; assumption)

section \<open>Properties\<close>

text \<open>Objects acquired from the shared pool and not yet released never alias: any number of
  acquisitions returns distinct objects, as many as asked for or as many as were free, none of which
  stays on a free list.\<close>

theorem StoragePool_acquired_objects_distinct:
  assumes "sp_inv p" "acquire_many StoragePool_Acquire n p = (xs, p')"
  shows "distinct xs \<and> length xs = min n (length (sp_free p)) \<and> set xs \<subseteq> set (sp_free p) \<and>
    set xs \<inter> set (sp_free p') = {} \<and> sp_inv p'"
  using sp.acquire_many_distinct[OF assms(1), of n] assms(2) by auto

definition three_objects :: "nat StoragePool" where
  "three_objects = \<lparr> sp_Storage = (\<lambda>_. 0), sp_Free = channel_of (SpscQueue_init 4 0),
     sp_LocalReuseBuffer = [Some 2, Some 0, Some 3, None], sp_LocalReuseSize = 3 \<rparr>"

theorem StoragePool_acquired_objects_distinct_witness:
  "distinct (fst (acquire_many StoragePool_Acquire 2 three_objects)) \<and> length (fst (acquire_many StoragePool_Acquire 2 three_objects)) = 2"
proof -
  have "pow2_size (q_Buffer (SpscQueue_init 4 (0 :: ptr)))"
    by (auto simp: SpscQueue_init_def pow2_size_def intro!: exI[of _ 2])
  from channel_inv_init[OF this] have
    c: "channel_inv (channel_of (SpscQueue_init 4 (0 :: ptr)))" "channel_items (channel_of (SpscQueue_init 4 (0 :: ptr))) = []"
    by (simp_all add: SpscQueue_init_def)
  have fr: "sp_free three_objects = [2, 0, 3]" using c(2) by (simp add: three_objects_def sp_free_def sp_local_def)
  have "sp_inv three_objects" unfolding sp_inv_def fr
    using c(1) by (auto simp: three_objects_def sp_local_def StoragePool_GetSize_def channel_cap_def channel_of_def SpscQueue_init_def sp_all_def)
  then show ?thesis
    using StoragePool_acquired_objects_distinct[of three_objects 2] fr
    by (cases "acquire_many StoragePool_Acquire 2 three_objects") simp
qed

end
