(* ===== verification/Skip_List.thy ===== *)
theory Skip_List
  imports Storage_Pools
begin

text \<open>
  The ordered map of \<open>market_server/common/include/skip_list.hpp\<close>, as the price levels of one side
  of a book use it: signed 64-bit keys, pointer values, and \<open>Compare\<close> either \<open>std::less\<close> or
  \<open>std::greater\<close>.  Nodes live in the list's own pool, so the heap is the pool's storage; a
  dereference of a null pointer, an exhausted pool and a refused release are \<open>None\<close>.

  The representation predicate \<open>skip_repr\<close> names the nodes in key order; level \<open>l\<close> links exactly
  those of height at least \<open>l\<close>, from \<open>Head\<close> to \<open>Tail\<close>.  Under it the search of every level
  ends at the expected predecessor, and the list is a sorted association list: the locale
  \<open>ordered_map\<close> and its interpretation.
\<close>

section \<open>Nodes and the list\<close>

datatype Compare = Less | Greater

fun comp :: "Compare \<Rightarrow> i64 \<Rightarrow> i64 \<Rightarrow> bool" where
  "comp Less a b \<longleftrightarrow> a < b"
| "comp Greater a b \<longleftrightarrow> a > b"

record SkipNode =
  sn_Key :: i64
  sn_Value :: "ptr option"
  sn_Height :: nat
  sn_Forward :: "ptr option list"

record SkipList =
  sl_comp :: Compare
  sl_MaxLevel :: nat
  sl_Head :: ptr
  sl_Tail :: ptr
  sl_NodesPool :: "SkipNode SingleThreadedStoragePool"
  sl_State :: u64
  sl_CurMax :: nat

type_synonym skip_heap = "ptr \<Rightarrow> SkipNode"

abbreviation sl_heap :: "SkipList \<Rightarrow> skip_heap" where
  "sl_heap sl \<equiv> stp_Storage (sl_NodesPool sl)"

definition fwd :: "skip_heap \<Rightarrow> ptr \<Rightarrow> nat \<Rightarrow> ptr option" where
  "fwd h p l = sn_Forward (h p) ! l"

definition set_fwd :: "ptr \<Rightarrow> nat \<Rightarrow> ptr option \<Rightarrow> skip_heap \<Rightarrow> skip_heap" where
  "set_fwd p l q h = h(p := (h p) \<lparr> sn_Forward := (sn_Forward (h p))[l := q] \<rparr>)"

section \<open>The random level\<close>

definition next_u64 :: "u64 \<Rightarrow> u64" where
  "next_u64 state =
     (let newState = state + 0xa0761d6478bd642f;
          t = (ucast newState :: 128 word) * ucast (newState XOR 0xe7037ed1a0b428db)
      in (ucast (drop_bit 64 t) :: u64) XOR ucast t)"

definition ctz64 :: "u64 \<Rightarrow> nat" where
  "ctz64 x = length (takeWhile (\<lambda>i. \<not> bit x i) [0..<64])"

definition nextLevel :: "SkipList \<Rightarrow> nat \<times> SkipList" where
  "nextLevel sl =
     (let state = next_u64 (sl_State sl); level = ctz64 state
      in (if level \<le> sl_MaxLevel sl then level else sl_MaxLevel sl, sl \<lparr> sl_State := state \<rparr>))"

section \<open>Construction\<close>

definition sentinel_key :: "bool \<Rightarrow> Compare \<Rightarrow> i64" where
  "sentinel_key tail c = (if tail = (c = Less) then INT64_MAX else INT64_MIN)"

definition SkipNode_raw :: "nat \<Rightarrow> SkipNode" where
  "SkipNode_raw maxLevel =
     \<lparr> sn_Key = 0, sn_Value = None, sn_Height = 0, sn_Forward = replicate (maxLevel + 1) None \<rparr>"

text \<open>\<open>seed\<close> is the value of the time stamp counter the constructor reads.\<close>

definition SkipList_init :: "Compare \<Rightarrow> nat \<Rightarrow> nat \<Rightarrow> u64 \<Rightarrow> SkipList option" where
  "SkipList_init c maxLevel poolSize seed = do {
     let pool = SingleThreadedStoragePool_init poolSize (SkipNode_raw maxLevel);
     let (tl, pool) = STPool_Acquire pool;
     t \<leftarrow> tl;
     let pool = pool \<lparr> stp_Storage := (stp_Storage pool)(t :=
       \<lparr> sn_Key = sentinel_key True c, sn_Value = None, sn_Height = maxLevel,
         sn_Forward = replicate (maxLevel + 1) None \<rparr>) \<rparr>;
     let (hd, pool) = STPool_Acquire pool;
     h \<leftarrow> hd;
     let pool = pool \<lparr> stp_Storage := (stp_Storage pool)(h :=
       \<lparr> sn_Key = sentinel_key False c, sn_Value = None, sn_Height = maxLevel,
         sn_Forward = replicate (maxLevel + 1) (Some t) \<rparr>) \<rparr>;
     Some \<lparr> sl_comp = c, sl_MaxLevel = maxLevel, sl_Head = h, sl_Tail = t, sl_NodesPool = pool,
            sl_State = seed, sl_CurMax = 0 \<rparr>
   }"

section \<open>Search\<close>

text \<open>The inner \<open>while\<close> loop at one level: advance as long as the next node's key satisfies \<open>adv\<close>.\<close>

partial_function (option) walk :: "(i64 \<Rightarrow> bool) \<Rightarrow> skip_heap \<Rightarrow> nat \<Rightarrow> ptr \<Rightarrow> ptr option" where
  "walk adv h l curNode =
     (case fwd h curNode l of
        None \<Rightarrow> None
      | Some nxt \<Rightarrow> if adv (sn_Key (h nxt)) then walk adv h l nxt else Some curNode)"

declare walk.simps [code]

text \<open>The outer \<open>for\<close> loop from a level down to 0; the result is the array \<open>prev\<close> up to that level.\<close>

fun search :: "(i64 \<Rightarrow> bool) \<Rightarrow> skip_heap \<Rightarrow> nat \<Rightarrow> ptr \<Rightarrow> ptr list option" where
  "search adv h 0 curNode = do { p \<leftarrow> walk adv h 0 curNode; Some [p] }"
| "search adv h (Suc l) curNode =
     do { p \<leftarrow> walk adv h (Suc l) curNode; prev \<leftarrow> search adv h l p; Some (prev @ [p]) }"

definition SkipList_GetVal :: "i64 \<Rightarrow> SkipList \<Rightarrow> (bool \<times> ptr option) option" where
  "SkipList_GetVal key sl = do {
     prev \<leftarrow> search (\<lambda>k. comp (sl_comp sl) k key) (sl_heap sl) (sl_MaxLevel sl) (sl_Head sl);
     curNode \<leftarrow> fwd (sl_heap sl) (prev ! 0) 0;
     Some (if sn_Key (sl_heap sl curNode) \<noteq> key then (False, sn_Value (sl_heap sl (sl_Head sl)))
           else (True, sn_Value (sl_heap sl curNode)))
   }"

section \<open>Insertion and deletion\<close>

definition link_level :: "ptr list \<Rightarrow> ptr \<Rightarrow> nat \<Rightarrow> skip_heap \<Rightarrow> skip_heap" where
  "link_level prev newNode i h =
     (let h = set_fwd newNode i (fwd h (prev ! i) i) h in set_fwd (prev ! i) i (Some newNode) h)"

definition SkipList_AddNode :: "i64 \<Rightarrow> ptr option \<Rightarrow> SkipList \<Rightarrow> SkipList option" where
  "SkipList_AddNode key val sl = do {
     prev \<leftarrow> search (\<lambda>k. \<not> comp (sl_comp sl) key k) (sl_heap sl) (sl_MaxLevel sl) (sl_Head sl);
     if sn_Key (sl_heap sl (prev ! 0)) = key then Some sl
     else do {
       let (level, sl) = nextLevel sl;
       let (acquired, pool) = STPool_Acquire (sl_NodesPool sl);
       newNode \<leftarrow> acquired;
       let h = stp_Storage pool;
       let h = h(newNode := (h newNode) \<lparr> sn_Key := key, sn_Value := val, sn_Height := level \<rparr>);
       let h = fold (link_level prev newNode) [0..<level + 1] h;
       let h = fold (\<lambda>i. set_fwd newNode i (Some (sl_Tail sl))) [level + 1..<sl_MaxLevel sl + 1] h;
       Some (sl \<lparr> sl_NodesPool := pool \<lparr> stp_Storage := h \<rparr>, sl_CurMax := max (sl_CurMax sl) level \<rparr>)
     }
   }"

definition unlink_level :: "ptr list \<Rightarrow> ptr \<Rightarrow> nat \<Rightarrow> skip_heap \<Rightarrow> skip_heap" where
  "unlink_level prev curNode i h = set_fwd (prev ! i) i (fwd h curNode i) h"

definition SkipList_DeleteNode :: "i64 \<Rightarrow> SkipList \<Rightarrow> SkipList option" where
  "SkipList_DeleteNode key sl = do {
     prev \<leftarrow> search (\<lambda>k. comp (sl_comp sl) k key) (sl_heap sl) (sl_MaxLevel sl) (sl_Head sl);
     curNode \<leftarrow> fwd (sl_heap sl) (prev ! 0) 0;
     if sn_Key (sl_heap sl curNode) = key
     then do {
       let h = fold (unlink_level prev curNode) [0..<sn_Height (sl_heap sl curNode) + 1] (sl_heap sl);
       let (released, pool) = STPool_Release (Some curNode) (sl_NodesPool sl \<lparr> stp_Storage := h \<rparr>);
       if released then Some (sl \<lparr> sl_NodesPool := pool \<rparr>) else None
     }
     else Some sl
   }"

definition SkipList_GetHead :: "SkipList \<Rightarrow> ptr option option" where
  "SkipList_GetHead sl = do {
     first \<leftarrow> fwd (sl_heap sl) (sl_Head sl) 0;
     Some (sn_Value (sl_heap sl first))
   }"

section \<open>Representation\<close>

abbreviation level_nodes :: "skip_heap \<Rightarrow> nat \<Rightarrow> ptr list \<Rightarrow> ptr list" where
  "level_nodes h l ns \<equiv> filter (\<lambda>n. l \<le> sn_Height (h n)) ns"

abbreviation chain :: "skip_heap \<Rightarrow> nat \<Rightarrow> ptr list \<Rightarrow> bool" where
  "chain h l \<equiv> successively (\<lambda>a b. fwd h a l = Some b)"

definition price_ok :: "i64 \<Rightarrow> bool" where
  "price_ok k \<longleftrightarrow> INT64_MIN < k \<and> k < INT64_MAX"

definition skip_repr :: "SkipList \<Rightarrow> ptr list \<Rightarrow> bool" where
  "skip_repr sl ns \<longleftrightarrow>
     stp_inv (sl_NodesPool sl) \<and> distinct (sl_Head sl # sl_Tail sl # ns) \<and>
     set (sl_Head sl # sl_Tail sl # ns) \<subseteq> stp_all (sl_NodesPool sl) - set (stp_free (sl_NodesPool sl)) \<and>
     (\<forall>p \<in> stp_all (sl_NodesPool sl). length (sn_Forward (sl_heap sl p)) = Suc (sl_MaxLevel sl)) \<and>
     (\<forall>n \<in> set ns. sn_Height (sl_heap sl n) \<le> sl_MaxLevel sl \<and> price_ok (sn_Key (sl_heap sl n))) \<and>
     sn_Key (sl_heap sl (sl_Head sl)) = sentinel_key False (sl_comp sl) \<and>
     sn_Key (sl_heap sl (sl_Tail sl)) = sentinel_key True (sl_comp sl) \<and>
     sn_Value (sl_heap sl (sl_Head sl)) = None \<and> sn_Value (sl_heap sl (sl_Tail sl)) = None \<and>
     sorted_wrt (comp (sl_comp sl)) (map (\<lambda>n. sn_Key (sl_heap sl n)) ns) \<and>
     (\<forall>l \<le> sl_MaxLevel sl. fwd (sl_heap sl) (sl_Tail sl) l = None) \<and>
     (\<forall>l \<le> sl_MaxLevel sl. chain (sl_heap sl) l (sl_Head sl # level_nodes (sl_heap sl) l ns @ [sl_Tail sl]))"

definition skip_entries :: "SkipList \<Rightarrow> ptr list \<Rightarrow> (i64 \<times> ptr option) list" where
  "skip_entries sl ns = map (\<lambda>n. (sn_Key (sl_heap sl n), sn_Value (sl_heap sl n))) ns"

definition skip_rel :: "Compare \<Rightarrow> SkipList \<Rightarrow> (i64 \<times> ptr option) list \<Rightarrow> bool" where
  "skip_rel c sl es \<longleftrightarrow> sl_comp sl = c \<and> (\<exists>ns. skip_repr sl ns \<and> es = skip_entries sl ns)"

definition skip_avail :: "SkipList \<Rightarrow> nat" where
  "skip_avail sl = length (stp_free (sl_NodesPool sl))"

definition insert_by :: "('k \<Rightarrow> 'k \<Rightarrow> bool) \<Rightarrow> 'k \<Rightarrow> 'v \<Rightarrow> ('k \<times> 'v) list \<Rightarrow> ('k \<times> 'v) list" where
  "insert_by lt k v es = takeWhile (\<lambda>e. lt (fst e) k) es @ (k, v) # dropWhile (\<lambda>e. lt (fst e) k) es"

lemma comp_order:
  "\<not> comp c a a" "comp c a b \<Longrightarrow> comp c b d \<Longrightarrow> comp c a d" "comp c a b \<or> a = b \<or> comp c b a"
  by (cases c; auto)+

lemma sorted_comp_distinct: "sorted_wrt (comp c) xs \<Longrightarrow> distinct xs"
  by (induction xs) (use comp_order(1) in auto)

section \<open>Searching\<close>

lemma walk_chain:
  assumes "chain h l (p # xs @ t # ys)" "\<forall>x \<in> set xs. adv (sn_Key (h x))" "\<not> adv (sn_Key (h t))"
  shows "walk adv h l p = Some (last (p # xs))"
  using assms
proof (induction xs arbitrary: p)
  case Nil
  then show ?case by (subst walk.simps) simp
next
  case (Cons x xs)
  then have "fwd h p l = Some x" "chain h l (x # xs @ t # ys)" by simp_all
  with Cons show ?case by (subst walk.simps) simp
qed

lemma walk_level:
  assumes ch: "chain h l (hd' # level_nodes h l (A @ C) @ [tl'])" and p: "p \<in> set (hd' # level_nodes h l A)"
    and A: "\<forall>x \<in> set A. adv (sn_Key (h x))" and C: "\<forall>x \<in> set (C @ [tl']). \<not> adv (sn_Key (h x))"
  shows "walk adv h l p = Some (last (hd' # level_nodes h l A))"
proof -
  from split_list[OF p] obtain u v where uv: "hd' # level_nodes h l A = u @ p # v" by blast
  obtain t ys where t: "level_nodes h l C @ [tl'] = t # ys" by (cases "level_nodes h l C @ [tl']") auto
  have "t \<in> set (level_nodes h l C @ [tl'])" unfolding t by simp
  then have "t \<in> set (C @ [tl'])" by auto
  then have tadv: "\<not> adv (sn_Key (h t))" using C by blast
  have "hd' # level_nodes h l (A @ C) @ [tl'] = (hd' # level_nodes h l A) @ (level_nodes h l C @ [tl'])" by simp
  also have "\<dots> = u @ p # v @ t # ys" by (simp only: uv t) simp
  finally have "chain h l (p # v @ t # ys)" using ch by (simp only: successively_append_iff)
  moreover have "\<forall>x \<in> set v. adv (sn_Key (h x))"
  proof
    fix x assume "x \<in> set v"
    then have "x \<in> set (tl (u @ p # v))" by (cases u) auto
    then have "x \<in> set (level_nodes h l A)" by (simp only: uv[symmetric]) simp
    with A show "adv (sn_Key (h x))" by simp
  qed
  ultimately have "walk adv h l p = Some (last (p # v))" using tadv by (intro walk_chain)
  then show ?thesis unfolding uv by simp
qed

lemma search_prev:
  assumes ch: "\<And>i. i \<le> l \<Longrightarrow> chain h i (hd' # level_nodes h i (A @ C) @ [tl'])"
    and A: "\<forall>x \<in> set A. adv (sn_Key (h x))" and C: "\<forall>x \<in> set (C @ [tl']). \<not> adv (sn_Key (h x))"
    and p: "p \<in> set (hd' # level_nodes h l A)"
  shows "search adv h l p = Some (map (\<lambda>i. last (hd' # level_nodes h i A)) [0..<Suc l])"
  using ch p
proof (induction l arbitrary: p)
  case 0
  then show ?case using walk_level[OF 0(1)[of 0] 0(2) A C] by simp
next
  case (Suc l)
  let ?p = "last (hd' # level_nodes h (Suc l) A)"
  have "?p \<in> set (hd' # level_nodes h l A)"
  proof -
    have "?p \<in> set (hd' # level_nodes h (Suc l) A)" by (rule last_in_set) simp
    then show ?thesis by auto
  qed
  with Suc.IH[of ?p] Suc.prems(1) have "search adv h l ?p = Some (map (\<lambda>i. last (hd' # level_nodes h i A)) [0..<Suc l])"
    by (simp del: upt_Suc last.simps)
  with walk_level[OF Suc.prems(1)[of "Suc l"] Suc.prems(2) A C] show ?case
    by (simp del: last.simps)
qed

text \<open>Splitting the nodes at a key: the search stops between the two parts.\<close>

lemma sorted_split:
  assumes s: "sorted_wrt lt (map f ns)" and down: "\<And>x y. lt x y \<Longrightarrow> P y \<Longrightarrow> P x"
  shows "\<forall>n \<in> set (dropWhile (\<lambda>n. P (f n)) ns). \<not> P (f n)"
  using s
proof (induction ns)
  case Nil
  then show ?case by simp
next
  case (Cons n ns)
  show ?case
  proof (cases "P (f n)")
    case True
    then have eq: "dropWhile (\<lambda>n. P (f n)) (n # ns) = dropWhile (\<lambda>n. P (f n)) ns" by simp
    have "sorted_wrt lt (map f ns)" using Cons.prems by simp
    from Cons.IH[OF this] show ?thesis unfolding eq .
  next
    case False
    then have "\<not> P (f m)" if "m \<in> set ns" for m
    proof -
      have "lt (f n) (f m)" using Cons.prems that by simp
      from down[OF this] False show ?thesis by blast
    qed
    then show ?thesis using False by simp
  qed
qed

lemma price_ok_sentinels:
  assumes "price_ok k"
  shows "comp c (sentinel_key False c) k" "comp c k (sentinel_key True c)"
    "\<not> comp c (sentinel_key True c) k" "\<not> comp c k (sentinel_key False c)"
    "k \<noteq> sentinel_key True c" "k \<noteq> sentinel_key False c"
  using assms by (cases c, simp_all add: price_ok_def sentinel_key_def)+

lemma skip_search:
  assumes r: "skip_repr sl ns" and down: "\<And>x y. comp (sl_comp sl) x y \<Longrightarrow> adv y \<Longrightarrow> adv x"
    and tl: "\<not> adv (sentinel_key True (sl_comp sl))"
    and A: "A = takeWhile (\<lambda>n. adv (sn_Key (sl_heap sl n))) ns"
  shows "search adv (sl_heap sl) (sl_MaxLevel sl) (sl_Head sl) =
     Some (map (\<lambda>i. last (sl_Head sl # level_nodes (sl_heap sl) i A)) [0..<Suc (sl_MaxLevel sl)])"
proof -
  let ?C = "dropWhile (\<lambda>n. adv (sn_Key (sl_heap sl n))) ns"
  have ns: "ns = A @ ?C" by (simp add: A)
  have "sorted_wrt (comp (sl_comp sl)) (map (\<lambda>n. sn_Key (sl_heap sl n)) ns)"
    and tail: "sn_Key (sl_heap sl (sl_Tail sl)) = sentinel_key True (sl_comp sl)"
    using r by (simp_all add: skip_repr_def)
  from sorted_split[OF this(1) down] tl
  have C: "\<forall>x \<in> set (?C @ [sl_Tail sl]). \<not> adv (sn_Key (sl_heap sl x))" by (simp add: tail)
  have A': "\<forall>x \<in> set A. adv (sn_Key (sl_heap sl x))" unfolding A by (blast dest: set_takeWhileD)
  have ch: "chain (sl_heap sl) i (sl_Head sl # level_nodes (sl_heap sl) i (A @ ?C) @ [sl_Tail sl])"
    if "i \<le> sl_MaxLevel sl" for i
    unfolding ns[symmetric] using r that by (simp add: skip_repr_def)
  show ?thesis by (rule search_prev[OF ch A' C]) simp_all
qed

section \<open>Heap updates\<close>

lemma set_fwd_frame [simp]:
  "sn_Key (set_fwd p l q h n) = sn_Key (h n)" "sn_Value (set_fwd p l q h n) = sn_Value (h n)"
  "sn_Height (set_fwd p l q h n) = sn_Height (h n)"
  "length (sn_Forward (set_fwd p l q h n)) = length (sn_Forward (h n))"
  by (simp_all add: set_fwd_def)

lemma fwd_set_fwd:
  "l < length (sn_Forward (h p)) \<Longrightarrow> fwd (set_fwd p l q h) n i = (if n = p \<and> i = l then q else fwd h n i)"
  by (simp add: fwd_def set_fwd_def)

lemma successively_change:
  assumes "\<And>a b. a \<in> set (butlast xs) \<Longrightarrow> P a b = Q a b"
  shows "successively P xs = successively Q xs"
  using assms by (induction xs rule: induct_list012) auto

lemma link_level_frame [simp]:
  "sn_Key (link_level prev n i h q) = sn_Key (h q)" "sn_Value (link_level prev n i h q) = sn_Value (h q)"
  "sn_Height (link_level prev n i h q) = sn_Height (h q)"
  "length (sn_Forward (link_level prev n i h q)) = length (sn_Forward (h q))"
  by (simp_all add: link_level_def Let_def)

lemma fold_link_frame [simp]:
  "sn_Key (fold (link_level prev n) ls h q) = sn_Key (h q)"
  "sn_Value (fold (link_level prev n) ls h q) = sn_Value (h q)"
  "sn_Height (fold (link_level prev n) ls h q) = sn_Height (h q)"
  "length (sn_Forward (fold (link_level prev n) ls h q)) = length (sn_Forward (h q))"
  by (induction ls arbitrary: h) simp_all

lemma fwd_fold_link:
  assumes "\<forall>q \<in> insert n (set prev). length (sn_Forward (h q)) = Suc M" "k \<le> Suc M" "length prev = Suc M"
    and "n \<notin> set prev"
  shows "fwd (fold (link_level prev n) [0..<k] h) q i =
    (if i < k then (if q = n then fwd h (prev ! i) i else if q = prev ! i then Some n else fwd h q i)
     else fwd h q i)"
  using assms
proof (induction k arbitrary: q i)
  case 0
  then show ?case by simp
next
  case (Suc k)
  let ?h = "fold (link_level prev n) [0..<k] h"
  have k: "k < Suc M" "prev ! k \<in> set prev" "prev ! k \<noteq> n" using Suc.prems by auto
  have len: "length (sn_Forward (?h n)) = Suc M" "length (sn_Forward (?h (prev ! k))) = Suc M"
    using Suc.prems k by auto
  have IH: "fwd ?h q i = (if i < k then (if q = n then fwd h (prev ! i) i else if q = prev ! i then Some n
      else fwd h q i) else fwd h q i)" for q i
    using Suc.IH Suc.prems by simp
  have "fwd (link_level prev n k ?h) q i =
      (if q = prev ! k \<and> i = k then Some n else if q = n \<and> i = k then fwd ?h (prev ! k) k else fwd ?h q i)"
    using len k by (simp add: link_level_def Let_def fwd_set_fwd)
  then show ?case using k IH by (auto simp: less_Suc_eq)
qed

lemma fold_set_fwd_frame [simp]:
  "sn_Key (fold (\<lambda>i. set_fwd p i x) ls h q) = sn_Key (h q)"
  "sn_Value (fold (\<lambda>i. set_fwd p i x) ls h q) = sn_Value (h q)"
  "sn_Height (fold (\<lambda>i. set_fwd p i x) ls h q) = sn_Height (h q)"
  "length (sn_Forward (fold (\<lambda>i. set_fwd p i x) ls h q)) = length (sn_Forward (h q))"
  by (induction ls arbitrary: h) simp_all

lemma fwd_fold_set:
  assumes "\<forall>i \<in> set ls. i < length (sn_Forward (h p))"
  shows "fwd (fold (\<lambda>i. set_fwd p i x) ls h) q i = (if q = p \<and> i \<in> set ls then x else fwd h q i)"
  using assms by (induction ls arbitrary: h) (auto simp: fwd_set_fwd)

lemma unlink_level_frame [simp]:
  "sn_Key (unlink_level prev n i h q) = sn_Key (h q)" "sn_Value (unlink_level prev n i h q) = sn_Value (h q)"
  "sn_Height (unlink_level prev n i h q) = sn_Height (h q)"
  "length (sn_Forward (unlink_level prev n i h q)) = length (sn_Forward (h q))"
  by (simp_all add: unlink_level_def)

lemma fold_unlink_frame [simp]:
  "sn_Key (fold (unlink_level prev n) ls h q) = sn_Key (h q)"
  "sn_Value (fold (unlink_level prev n) ls h q) = sn_Value (h q)"
  "sn_Height (fold (unlink_level prev n) ls h q) = sn_Height (h q)"
  "length (sn_Forward (fold (unlink_level prev n) ls h q)) = length (sn_Forward (h q))"
  by (induction ls arbitrary: h) simp_all

lemma fwd_fold_unlink:
  assumes "\<forall>q \<in> set prev. length (sn_Forward (h q)) = Suc M" "k \<le> Suc M" "length prev = Suc M"
    and "n \<notin> set prev"
  shows "fwd (fold (unlink_level prev n) [0..<k] h) q i =
    (if i < k \<and> q = prev ! i then fwd h n i else fwd h q i)"
  using assms
proof (induction k arbitrary: q i)
  case 0
  then show ?case by simp
next
  case (Suc k)
  let ?h = "fold (unlink_level prev n) [0..<k] h"
  have k: "k < Suc M" "prev ! k \<in> set prev" "prev ! k \<noteq> n" using Suc.prems by auto
  have len: "length (sn_Forward (?h (prev ! k))) = Suc M" using Suc.prems k by simp
  have IH: "fwd ?h q i = (if i < k \<and> q = prev ! i then fwd h n i else fwd h q i)" for q i
    using Suc.IH Suc.prems by simp
  have "fwd (unlink_level prev n k ?h) q i = (if q = prev ! k \<and> i = k then fwd ?h n k else fwd ?h q i)"
    using len k by (simp add: unlink_level_def fwd_set_fwd)
  moreover have "fwd ?h n k = fwd h n k" using IH by simp
  ultimately show ?case using IH by (auto simp: less_Suc_eq)
qed

lemma chain_frame: "(\<And>q. q \<in> set xs \<Longrightarrow> fwd h' q i = fwd h q i) \<Longrightarrow> chain h' i xs = chain h i xs"
  by (rule successively_change) (auto dest: in_set_butlastD)

lemma in_butlast_not_last: "distinct xs \<Longrightarrow> a \<in> set (butlast xs) \<Longrightarrow> a \<noteq> last xs"
  by (cases xs rule: rev_cases) auto

lemma chain_insert:
  assumes ch: "chain h i (X @ Y)" and ne: "X \<noteq> []" "Y \<noteq> []" and d: "distinct (X @ Y)" "n \<notin> set (X @ Y)"
    and h': "\<And>q. fwd h' q i = (if q = n then fwd h (last X) i else if q = last X then Some n else fwd h q i)"
  shows "chain h' i (X @ n # Y)"
proof -
  have "chain h' i X = chain h i X"
    using d in_butlast_not_last[of X] by (intro successively_change) (auto simp: h' dest: in_set_butlastD)
  moreover have "last X \<in> set X" using ne by simp
  then have "chain h' i Y = chain h i Y"
    using d by (intro chain_frame) (auto simp: h')
  moreover have "last X \<noteq> n" using ne d by auto
  ultimately show ?thesis
    using ch ne by (simp add: successively_append_iff successively_Cons h')
qed

lemma chain_delete:
  assumes ch: "chain h i (X @ n # Y)" and ne: "X \<noteq> []" "Y \<noteq> []" and d: "distinct (X @ n # Y)"
    and h': "\<And>q. fwd h' q i = (if q = last X then fwd h n i else fwd h q i)"
  shows "chain h' i (X @ Y)"
proof -
  have "chain h' i X = chain h i X"
    using d in_butlast_not_last[of X] by (intro successively_change) (auto simp: h' dest: in_set_butlastD)
  moreover have "last X \<in> set X" using ne by simp
  then have "chain h' i Y = chain h i Y"
    using d by (intro chain_frame) (auto simp: h')
  ultimately show ?thesis
    using ch ne by (simp add: successively_append_iff successively_Cons h')
qed

section \<open>Insertion\<close>

text \<open>The heap after a new node is linked in, field by field.\<close>

definition inserted_heap :: "ptr list \<Rightarrow> ptr \<Rightarrow> i64 \<Rightarrow> ptr option \<Rightarrow> nat \<Rightarrow> nat \<Rightarrow> ptr \<Rightarrow> skip_heap \<Rightarrow> skip_heap" where
  "inserted_heap prev n key val level M tl' h =
     fold (\<lambda>i. set_fwd n i (Some tl')) [level + 1..<M + 1]
       (fold (link_level prev n) [0..<level + 1]
         (h(n := (h n) \<lparr> sn_Key := key, sn_Value := val, sn_Height := level \<rparr>)))"

lemma inserted_heap_frame [simp]:
  "sn_Key (inserted_heap prev n key val level M tl' h q) = (if q = n then key else sn_Key (h q))"
  "sn_Value (inserted_heap prev n key val level M tl' h q) = (if q = n then val else sn_Value (h q))"
  "sn_Height (inserted_heap prev n key val level M tl' h q) = (if q = n then level else sn_Height (h q))"
  "length (sn_Forward (inserted_heap prev n key val level M tl' h q)) = length (sn_Forward (h q))"
  by (simp_all add: inserted_heap_def)

lemma fwd_inserted_heap:
  assumes "\<forall>q \<in> insert n (set prev). length (sn_Forward (h q)) = Suc M" "level \<le> M" "length prev = Suc M"
    and "n \<notin> set prev" "i \<le> M"
  shows "fwd (inserted_heap prev n key val level M tl' h) q i =
    (if i \<le> level then (if q = n then fwd h (prev ! i) i else if q = prev ! i then Some n else fwd h q i)
     else if q = n then Some tl' else fwd h q i)"
proof -
  let ?h1 = "h(n := (h n) \<lparr> sn_Key := key, sn_Value := val, sn_Height := level \<rparr>)"
  let ?h2 = "fold (link_level prev n) [0..<level + 1] ?h1"
  have f1: "fwd ?h1 q i = fwd h q i" for q i by (simp add: fwd_def)
  have len: "\<forall>q \<in> insert n (set prev). length (sn_Forward (?h1 q)) = Suc M" using assms(1) by simp
  have f2: "fwd ?h2 q i = (if i < level + 1 then (if q = n then fwd ?h1 (prev ! i) i else if q = prev ! i
      then Some n else fwd ?h1 q i) else fwd ?h1 q i)" for q i
    using assms by (intro fwd_fold_link[OF len]) simp_all
  have "\<forall>j \<in> set [level + 1..<M + 1]. j < length (sn_Forward (?h2 n))" using assms(1) by auto
  note fs = fwd_fold_set[where p = n and h = ?h2 and x = "Some tl'", OF this]
  show ?thesis
    unfolding inserted_heap_def fs f2 f1 using assms(5) by auto
qed

lemma nextLevel_le: "nextLevel sl = (level, sl') \<Longrightarrow> level \<le> sl_MaxLevel sl"
  by (auto simp: nextLevel_def Let_def split: if_splits)

lemma nextLevel_frame [simp]:
  "sl_NodesPool (snd (nextLevel sl)) = sl_NodesPool sl" "sl_Head (snd (nextLevel sl)) = sl_Head sl"
  "sl_Tail (snd (nextLevel sl)) = sl_Tail sl" "sl_comp (snd (nextLevel sl)) = sl_comp sl"
  "sl_MaxLevel (snd (nextLevel sl)) = sl_MaxLevel sl"
  by (simp_all add: nextLevel_def Let_def)

lemma skip_reprD:
  assumes "skip_repr sl ns"
  shows "stp_inv (sl_NodesPool sl)" "distinct (sl_Head sl # sl_Tail sl # ns)"
    "set (sl_Head sl # sl_Tail sl # ns) \<subseteq> stp_all (sl_NodesPool sl) - set (stp_free (sl_NodesPool sl))"
    "p \<in> stp_all (sl_NodesPool sl) \<Longrightarrow> length (sn_Forward (sl_heap sl p)) = Suc (sl_MaxLevel sl)"
    "n \<in> set ns \<Longrightarrow> sn_Height (sl_heap sl n) \<le> sl_MaxLevel sl" "n \<in> set ns \<Longrightarrow> price_ok (sn_Key (sl_heap sl n))"
    "sn_Key (sl_heap sl (sl_Head sl)) = sentinel_key False (sl_comp sl)"
    "sn_Key (sl_heap sl (sl_Tail sl)) = sentinel_key True (sl_comp sl)"
    "sn_Value (sl_heap sl (sl_Head sl)) = None" "sn_Value (sl_heap sl (sl_Tail sl)) = None"
    "sorted_wrt (comp (sl_comp sl)) (map (\<lambda>n. sn_Key (sl_heap sl n)) ns)"
    "l \<le> sl_MaxLevel sl \<Longrightarrow> chain (sl_heap sl) l (sl_Head sl # level_nodes (sl_heap sl) l ns @ [sl_Tail sl])"
    "l \<le> sl_MaxLevel sl \<Longrightarrow> fwd (sl_heap sl) (sl_Tail sl) l = None"
  using assms by (simp_all add: skip_repr_def)

definition prev_array :: "SkipList \<Rightarrow> ptr list \<Rightarrow> ptr list" where
  "prev_array sl A = map (\<lambda>i. last (sl_Head sl # level_nodes (sl_heap sl) i A)) [0..<Suc (sl_MaxLevel sl)]"

lemma prev_array_simps:
  "length (prev_array sl A) = Suc (sl_MaxLevel sl)"
  "i \<le> sl_MaxLevel sl \<Longrightarrow> prev_array sl A ! i = last (sl_Head sl # level_nodes (sl_heap sl) i A)"
  "set (prev_array sl A) \<subseteq> set (sl_Head sl # A)"
proof -
  show "length (prev_array sl A) = Suc (sl_MaxLevel sl)" by (simp add: prev_array_def)
  show "prev_array sl A ! i = last (sl_Head sl # level_nodes (sl_heap sl) i A)" if "i \<le> sl_MaxLevel sl"
    using that unfolding prev_array_def by (subst nth_map) (simp_all del: last.simps upt_Suc)
  have "last (sl_Head sl # level_nodes (sl_heap sl) i A) \<in> set (sl_Head sl # A)" for i
    using last_in_set[of "sl_Head sl # level_nodes (sl_heap sl) i A"] by auto
  then show "set (prev_array sl A) \<subseteq> set (sl_Head sl # A)" unfolding prev_array_def by (auto simp del: last.simps)
qed

lemma prev_array_mem: "i \<le> sl_MaxLevel sl \<Longrightarrow> prev_array sl A ! i \<in> set (sl_Head sl # A)"
  using prev_array_simps(1,3)[of sl A] nth_mem[of i "prev_array sl A"] by (metis le_imp_less_Suc subsetD)

lemma sorted_insert:
  assumes s: "sorted_wrt (comp c) (map f (A @ C))"
    and A: "\<And>a. a \<in> set A \<Longrightarrow> comp c (f a) k" and C: "\<And>a. a \<in> set C \<Longrightarrow> comp c k (f a)"
  shows "sorted_wrt (comp c) (map f A @ k # map f C)"
  using assms by (auto simp: sorted_wrt_append)

lemma inserted_chain:
  assumes r: "skip_repr sl (A @ C)" and i: "i \<le> sl_MaxLevel sl" and n: "n \<notin> set (sl_Head sl # sl_Tail sl # A @ C)"
    and fw: "\<And>q. fwd h' q i = (if i \<le> level then (if q = n then fwd (sl_heap sl) (prev_array sl A ! i) i else
      if q = prev_array sl A ! i then Some n else fwd (sl_heap sl) q i) else if q = n then Some (sl_Tail sl) else fwd (sl_heap sl) q i)"
    and lev: "level_nodes h' i A = level_nodes (sl_heap sl) i A" "level_nodes h' i C = level_nodes (sl_heap sl) i C" "sn_Height (h' n) = level"
  shows "chain h' i (sl_Head sl # level_nodes h' i (A @ n # C) @ [sl_Tail sl])"
proof -
  note R = skip_reprD[OF r]
  let ?h = "sl_heap sl" and ?X = "sl_Head sl # level_nodes (sl_heap sl) i A" and ?Y = "level_nodes (sl_heap sl) i C @ [sl_Tail sl]"
  have old: "chain ?h i (?X @ ?Y)" using R(12)[OF i] by simp
  have d: "distinct (?X @ ?Y)" "n \<notin> set (?X @ ?Y)" using R(2) n by auto
  show ?thesis
  proof (cases "i \<le> level")
    case True
    have "chain h' i (?X @ n # ?Y)"
      using True by (intro chain_insert[OF old _ _ d]) (simp_all add: fw prev_array_simps(2)[OF i] del: last.simps)
    then show ?thesis using True by (simp add: lev)
  next
    case False
    have "chain h' i (?X @ ?Y) = chain ?h i (?X @ ?Y)"
      using False d(2) by (intro chain_frame) (auto simp: fw)
    then show ?thesis using False old by (simp add: lev)
  qed
qed

lemma AddNode_heap_repr:
  assumes r: "skip_repr sl (A @ C)" and key: "price_ok key" and n: "n \<in> set (stp_free (sl_NodesPool sl))"
    and A: "\<And>a. a \<in> set A \<Longrightarrow> comp (sl_comp sl) (sn_Key (sl_heap sl a)) key"
    and C: "\<And>a. a \<in> set C \<Longrightarrow> comp (sl_comp sl) key (sn_Key (sl_heap sl a))" and level: "level \<le> sl_MaxLevel sl"
    and h': "h' = inserted_heap (prev_array sl A) n key val level (sl_MaxLevel sl) (sl_Tail sl) (sl_heap sl)"
    and pool: "stp_inv pool" "set (stp_free pool) = set (stp_free (sl_NodesPool sl)) - {n}"
      "stp_all pool = stp_all (sl_NodesPool sl)" "stp_Storage pool = h'"
    and sl': "sl_NodesPool sl' = pool" "sl_Head sl' = sl_Head sl" "sl_Tail sl' = sl_Tail sl"
      "sl_comp sl' = sl_comp sl" "sl_MaxLevel sl' = sl_MaxLevel sl"
  shows "skip_repr sl' (A @ n # C)"
proof -
  let ?h = "sl_heap sl" and ?M = "sl_MaxLevel sl"
  note R = skip_reprD[OF r]
  have nall: "n \<in> stp_all (sl_NodesPool sl)" using n stp.free_in_all[OF R(1)] by blast
  have nn: "n \<noteq> sl_Head sl" "n \<noteq> sl_Tail sl" "n \<notin> set A" "n \<notin> set C" using R(3) n by auto
  have prev: "n \<notin> set (prev_array sl A)" "set (prev_array sl A) \<subseteq> stp_all (sl_NodesPool sl)"
    using prev_array_simps(3)[of sl A] nn R(3) by auto
  have fw: "fwd h' q i = (if i \<le> level then (if q = n then fwd ?h (prev_array sl A ! i) i else
      if q = prev_array sl A ! i then Some n else fwd ?h q i) else if q = n then Some (sl_Tail sl) else fwd ?h q i)"
    if "i \<le> ?M" for q i
    unfolding h' using R(4) nall prev prev_array_simps(1) level that
    by (intro fwd_inserted_heap) auto
  have lev: "level_nodes h' i A = level_nodes ?h i A" "level_nodes h' i C = level_nodes ?h i C" for i
    using nn by (auto simp: h' intro!: filter_cong)
  have hgt: "sn_Height (h' n) = level" by (simp add: h')
  have ch: "chain h' i (sl_Head sl # level_nodes h' i (A @ n # C) @ [sl_Tail sl])" if i: "i \<le> ?M" for i
    by (rule inserted_chain[OF r i _ fw[OF i] lev hgt]) (use nn in simp)
  have tail: "fwd h' (sl_Tail sl) i = None" if "i \<le> ?M" for i
    using R(2,13) that nn prev_array_mem[OF that, of A] by (auto simp: fw)
  have srt: "sorted_wrt (comp (sl_comp sl)) (map (\<lambda>x. sn_Key (h' x)) (A @ n # C))"
  proof -
    have eq: "map (\<lambda>x. sn_Key (h' x)) (A @ n # C) = map (\<lambda>x. sn_Key (?h x)) A @ key # map (\<lambda>x. sn_Key (?h x)) C"
      using nn by (auto simp: h')
    show ?thesis unfolding eq by (rule sorted_insert[OF R(11) A C])
  qed
  have keys: "sn_Key (h' q) = (if q = n then key else sn_Key (?h q))"
    "sn_Value (h' q) = (if q = n then val else sn_Value (?h q))"
    "sn_Height (h' q) = (if q = n then level else sn_Height (?h q))"
    "length (sn_Forward (h' q)) = length (sn_Forward (?h q))" for q
    by (simp_all add: h')
  show ?thesis
    unfolding skip_repr_def sl' pool
  proof (intro conjI)
    show "distinct (sl_Head sl # sl_Tail sl # A @ n # C)" using R(2) nn by auto
    show "set (sl_Head sl # sl_Tail sl # A @ n # C) \<subseteq> stp_all (sl_NodesPool sl) -
        (set (stp_free (sl_NodesPool sl)) - {n})" using R(3) nall by auto
  qed (use R(4-10) pool(1) nn key level ch srt keys tail in auto)
qed

lemma skip_split:
  assumes r: "skip_repr sl ns"
  shows "a \<in> set (takeWhile (\<lambda>n. \<not> comp (sl_comp sl) key (sn_Key (sl_heap sl n))) ns) \<Longrightarrow>
      sn_Key (sl_heap sl a) = key \<or> comp (sl_comp sl) (sn_Key (sl_heap sl a)) key"
    and "a \<in> set (dropWhile (\<lambda>n. \<not> comp (sl_comp sl) key (sn_Key (sl_heap sl n))) ns) \<Longrightarrow>
      comp (sl_comp sl) key (sn_Key (sl_heap sl a))"
    and "a \<in> set (dropWhile (\<lambda>n. comp (sl_comp sl) (sn_Key (sl_heap sl n)) key) ns) \<Longrightarrow>
      \<not> comp (sl_comp sl) (sn_Key (sl_heap sl a)) key"
proof -
  note s = skip_reprD(11)[OF r]
  show "sn_Key (sl_heap sl a) = key \<or> comp (sl_comp sl) (sn_Key (sl_heap sl a)) key"
    if "a \<in> set (takeWhile (\<lambda>n. \<not> comp (sl_comp sl) key (sn_Key (sl_heap sl n))) ns)"
    using set_takeWhileD[OF that] comp_order(3) by blast
  show "comp (sl_comp sl) key (sn_Key (sl_heap sl a))"
    if "a \<in> set (dropWhile (\<lambda>n. \<not> comp (sl_comp sl) key (sn_Key (sl_heap sl n))) ns)"
    using sorted_split[OF s, of "\<lambda>k. \<not> comp (sl_comp sl) key k"] that comp_order(2) by blast
  show "\<not> comp (sl_comp sl) (sn_Key (sl_heap sl a)) key"
    if "a \<in> set (dropWhile (\<lambda>n. comp (sl_comp sl) (sn_Key (sl_heap sl n)) key) ns)"
    using sorted_split[OF s, of "\<lambda>k. comp (sl_comp sl) k key"] that comp_order(2) by blast
qed

lemma AddNode_search:
  assumes r: "skip_repr sl ns" and key: "price_ok key"
    and A: "A = takeWhile (\<lambda>n. \<not> comp (sl_comp sl) key (sn_Key (sl_heap sl n))) ns"
  shows "search (\<lambda>k. \<not> comp (sl_comp sl) key k) (sl_heap sl) (sl_MaxLevel sl) (sl_Head sl) =
      Some (prev_array sl A)"
    and "sn_Key (sl_heap sl (prev_array sl A ! 0)) = key \<longleftrightarrow> key \<in> (\<lambda>n. sn_Key (sl_heap sl n)) ` set ns"
proof -
  show "search (\<lambda>k. \<not> comp (sl_comp sl) key k) (sl_heap sl) (sl_MaxLevel sl) (sl_Head sl) =
      Some (prev_array sl A)"
    unfolding prev_array_def
    using comp_order(2) price_ok_sentinels(2)[OF key] by (intro skip_search[OF r _ _ A]) blast+
  have prev: "prev_array sl A ! 0 = last (sl_Head sl # A)" by (simp add: prev_array_simps(2) del: last.simps)
  show "sn_Key (sl_heap sl (prev_array sl A ! 0)) = key \<longleftrightarrow> key \<in> (\<lambda>n. sn_Key (sl_heap sl n)) ` set ns"
  proof
    assume eq: "sn_Key (sl_heap sl (prev_array sl A ! 0)) = key"
    then have "A \<noteq> []" using price_ok_sentinels(6)[OF key, of "sl_comp sl"] skip_reprD(7)[OF r] by (auto simp: prev)
    then have "last (sl_Head sl # A) \<in> set ns" using last_in_set[of A] set_takeWhileD unfolding A by fastforce
    with eq show "key \<in> (\<lambda>n. sn_Key (sl_heap sl n)) ` set ns" unfolding prev by blast
  next
    assume "key \<in> (\<lambda>n. sn_Key (sl_heap sl n)) ` set ns"
    then obtain n where n: "n \<in> set ns" "sn_Key (sl_heap sl n) = key" by auto
    let ?C = "dropWhile (\<lambda>n. \<not> comp (sl_comp sl) key (sn_Key (sl_heap sl n))) ns"
    have "n \<notin> set ?C" using skip_split(2)[OF r, of n key] n(2) comp_order(1) by auto
    moreover have "set ns = set A \<union> set ?C" unfolding A by (metis set_append takeWhile_dropWhile_id)
    ultimately have nA: "n \<in> set A" using n by blast
    then obtain u v where uv: "A = u @ n # v" by (auto dest: split_list)
    have "sorted_wrt (comp (sl_comp sl)) (map (\<lambda>n. sn_Key (sl_heap sl n)) A)"
      using skip_reprD(11)[OF r] unfolding A by (metis sorted_wrt_append map_append takeWhile_dropWhile_id)
    then have "comp (sl_comp sl) key (sn_Key (sl_heap sl x))" if "x \<in> set v" for x
      using that n(2) by (auto simp: uv sorted_wrt_append)
    moreover have "sn_Key (sl_heap sl x) = key \<or> comp (sl_comp sl) (sn_Key (sl_heap sl x)) key" if "x \<in> set v" for x
      using skip_split(1)[OF r, of x key] that uv A by auto
    ultimately have "v = []" using comp_order(1,2) by (metis list.set_intros(1) neq_Nil_conv)
    then show "sn_Key (sl_heap sl (prev_array sl A ! 0)) = key" unfolding prev using n(2) by (simp add: uv)
  qed
qed

lemma AddNode_repr:
  assumes r: "skip_repr sl ns" and key: "price_ok key" and fresh: "key \<notin> (\<lambda>n. sn_Key (sl_heap sl n)) ` set ns"
    and free: "stp_free (sl_NodesPool sl) \<noteq> []"
    and A: "A = takeWhile (\<lambda>n. \<not> comp (sl_comp sl) key (sn_Key (sl_heap sl n))) ns"
    and C: "C = dropWhile (\<lambda>n. \<not> comp (sl_comp sl) key (sn_Key (sl_heap sl n))) ns"
  shows "\<exists>sl' n. SkipList_AddNode key val sl = Some sl' \<and> skip_repr sl' (A @ n # C) \<and>
    skip_entries sl' (A @ n # C) = skip_entries sl A @ (key, val) # skip_entries sl C \<and>
    sl_comp sl' = sl_comp sl \<and> skip_avail sl = Suc (skip_avail sl')"
proof -
  note R = skip_reprD[OF r] and S = AddNode_search[OF r key A]
  obtain level sl1 where lv: "nextLevel sl = (level, sl1)" by fastforce
  have sl1: "sl_NodesPool sl1 = sl_NodesPool sl" "sl_Head sl1 = sl_Head sl" "sl_Tail sl1 = sl_Tail sl"
    "sl_comp sl1 = sl_comp sl" "sl_MaxLevel sl1 = sl_MaxLevel sl"
    using nextLevel_frame[of sl] lv by simp_all
  from stp.acquire_some[OF R(1) free] obtain n pool where
    acq: "STPool_Acquire (sl_NodesPool sl) = (Some n, pool)" "stp_inv pool" "n \<in> set (stp_free (sl_NodesPool sl))"
      "set (stp_free pool) = set (stp_free (sl_NodesPool sl)) - {n}" "stp_all pool = stp_all (sl_NodesPool sl)"
    by blast
  have st: "stp_Storage pool = sl_heap sl" using STPool_Storage(1)[of "sl_NodesPool sl"] by (simp add: acq)
  define h' where "h' = inserted_heap (prev_array sl A) n key val level (sl_MaxLevel sl) (sl_Tail sl) (sl_heap sl)"
  define sl' where "sl' = sl1 \<lparr> sl_NodesPool := pool \<lparr> stp_Storage := h' \<rparr>, sl_CurMax := max (sl_CurMax sl1) level \<rparr>"
  have "SkipList_AddNode key val sl = Some sl'"
    using S fresh lv acq(1)
    by (simp add: SkipList_AddNode_def sl'_def h'_def inserted_heap_def sl1 st Let_def del: upt_Suc fun_upd_apply)
  moreover have ns: "ns = A @ C" by (simp add: A C)
  have pl: "stp_inv (pool \<lparr> stp_Storage := h' \<rparr>)" "stp_free (pool \<lparr> stp_Storage := h' \<rparr>) = stp_free pool"
    "stp_all (pool \<lparr> stp_Storage := h' \<rparr>) = stp_all pool"
    using acq(2) by (simp_all add: stp_inv_def stp_free_def stp_all_def)
  have cA: "comp (sl_comp sl) (sn_Key (sl_heap sl a)) key" if "a \<in> set A" for a
    using skip_split(1)[OF r, of a key] that fresh ns unfolding A[symmetric] by auto
  have cC: "comp (sl_comp sl) key (sn_Key (sl_heap sl a))" if "a \<in> set C" for a
    using skip_split(2)[OF r, of a key] that unfolding C[symmetric] .
  have "skip_repr sl' (A @ n # C)"
    by (rule AddNode_heap_repr[OF r[unfolded ns] key acq(3) cA cC nextLevel_le[OF lv] h'_def pl(1)])
      (simp_all add: sl'_def pl acq sl1)
  moreover have "n \<notin> set A" "n \<notin> set C" using acq(3) R(3) by (auto simp: ns)
  then have "skip_entries sl' (A @ n # C) = skip_entries sl A @ (key, val) # skip_entries sl C"
    by (auto simp: skip_entries_def sl'_def h'_def)
  moreover have "skip_avail sl = Suc (skip_avail sl')"
    using acq stp.free_distinct[OF R(1)] stp.free_distinct[OF acq(2)]
    unfolding skip_avail_def sl'_def by (simp add: pl) (metis List.finite_set card_Suc_Diff1 distinct_card)
  ultimately show ?thesis by (auto simp: sl'_def sl1)
qed

section \<open>Deletion and lookup\<close>

lemma DeleteNode_search:
  assumes r: "skip_repr sl ns" and key: "price_ok key"
    and A: "A = takeWhile (\<lambda>n. comp (sl_comp sl) (sn_Key (sl_heap sl n)) key) ns"
    and C: "C = dropWhile (\<lambda>n. comp (sl_comp sl) (sn_Key (sl_heap sl n)) key) ns"
  shows "search (\<lambda>k. comp (sl_comp sl) k key) (sl_heap sl) (sl_MaxLevel sl) (sl_Head sl) =
      Some (prev_array sl A)"
    and "fwd (sl_heap sl) (prev_array sl A ! 0) 0 = Some (hd (C @ [sl_Tail sl]))"
    and "sn_Key (sl_heap sl (hd (C @ [sl_Tail sl]))) = key \<longleftrightarrow> key \<in> (\<lambda>n. sn_Key (sl_heap sl n)) ` set ns"
proof -
  note R = skip_reprD[OF r]
  have ns: "ns = A @ C" by (simp add: A C)
  show "search (\<lambda>k. comp (sl_comp sl) k key) (sl_heap sl) (sl_MaxLevel sl) (sl_Head sl) =
      Some (prev_array sl A)"
    unfolding prev_array_def
    using comp_order(2) price_ok_sentinels(3)[OF key] by (intro skip_search[OF r _ _ A]) blast+
  have "chain (sl_heap sl) 0 ((sl_Head sl # A) @ (C @ [sl_Tail sl]))" using R(12)[of 0] by (simp add: ns)
  then have "fwd (sl_heap sl) (last (sl_Head sl # A)) 0 = Some (hd (C @ [sl_Tail sl]))"
    by (simp only: successively_append_iff) simp
  then show "fwd (sl_heap sl) (prev_array sl A ! 0) 0 = Some (hd (C @ [sl_Tail sl]))"
    by (simp add: prev_array_simps(2) del: last.simps)
  show "sn_Key (sl_heap sl (hd (C @ [sl_Tail sl]))) = key \<longleftrightarrow> key \<in> (\<lambda>n. sn_Key (sl_heap sl n)) ` set ns"
  proof
    assume eq: "sn_Key (sl_heap sl (hd (C @ [sl_Tail sl]))) = key"
    then have "C \<noteq> []" using price_ok_sentinels(5)[OF key, of "sl_comp sl"] R(8) by auto
    with eq show "key \<in> (\<lambda>n. sn_Key (sl_heap sl n)) ` set ns" by (cases C) (auto simp: ns)
  next
    assume "key \<in> (\<lambda>n. sn_Key (sl_heap sl n)) ` set ns"
    then obtain n where n: "n \<in> set ns" "sn_Key (sl_heap sl n) = key" by auto
    have "n \<notin> set A" using n(2) comp_order(1) unfolding A by (auto dest: set_takeWhileD)
    then have "n \<in> set C" using n(1) by (simp add: ns)
    then obtain x xs where x: "C = x # xs" by (cases C) auto
    have "\<not> comp (sl_comp sl) (sn_Key (sl_heap sl x)) key"
      using skip_split(3)[OF r, of x key] unfolding C[symmetric] by (simp add: x)
    moreover have "n = x \<or> comp (sl_comp sl) (sn_Key (sl_heap sl x)) key"
      using R(11) \<open>n \<in> set C\<close> n(2) by (auto simp: ns x sorted_wrt_append)
    ultimately show "sn_Key (sl_heap sl (hd (C @ [sl_Tail sl]))) = key" using n(2) by (auto simp: x)
  qed
qed

lemma DeleteNode_heap_repr:
  assumes r: "skip_repr sl (A @ n # C)"
    and h': "h' = fold (unlink_level (prev_array sl A) n) [0..<sn_Height (sl_heap sl n) + 1] (sl_heap sl)"
    and pool: "stp_inv pool" "set (stp_free pool) = insert n (set (stp_free (sl_NodesPool sl)))"
      "stp_all pool = stp_all (sl_NodesPool sl)" "stp_Storage pool = h'"
    and sl': "sl' = sl \<lparr> sl_NodesPool := pool \<rparr>"
  shows "skip_repr sl' (A @ C)"
proof -
  let ?h = "sl_heap sl" and ?M = "sl_MaxLevel sl"
  note R = skip_reprD[OF r]
  have nn: "n \<noteq> sl_Head sl" "n \<noteq> sl_Tail sl" "n \<notin> set A" "n \<notin> set C" using R(2) by auto
  have prev: "n \<notin> set (prev_array sl A)" "set (prev_array sl A) \<subseteq> stp_all (sl_NodesPool sl)"
    using prev_array_simps(3)[of sl A] nn R(3) by auto
  have hn: "sn_Height (?h n) \<le> ?M" using R(5)[of n] by simp
  have frame: "sn_Key (h' q) = sn_Key (?h q)" "sn_Value (h' q) = sn_Value (?h q)"
    "sn_Height (h' q) = sn_Height (?h q)" "length (sn_Forward (h' q)) = length (sn_Forward (?h q))" for q
    by (simp_all add: h')
  have fw: "fwd h' q i = (if i < sn_Height (?h n) + 1 \<and> q = prev_array sl A ! i then fwd ?h n i else fwd ?h q i)" for q i
    unfolding h' using R(4) prev prev_array_simps(1) hn by (intro fwd_fold_unlink) auto
  have tail: "fwd h' (sl_Tail sl) i = None" if "i \<le> ?M" for i
    using R(2,13) that prev_array_mem[OF that, of A] by (auto simp: fw)
  have ch: "chain h' i (sl_Head sl # level_nodes h' i (A @ C) @ [sl_Tail sl])" if i: "i \<le> ?M" for i
  proof -
    let ?X = "sl_Head sl # level_nodes ?h i A" and ?Y = "level_nodes ?h i C @ [sl_Tail sl]"
    have d: "distinct (?X @ n # ?Y)" using R(2) by auto
    show ?thesis
    proof (cases "i \<le> sn_Height (?h n)")
      case True
      have old: "chain ?h i (?X @ n # ?Y)" using R(12)[OF i] True by simp
      have "chain h' i (?X @ ?Y)"
        using True by (intro chain_delete[OF old _ _ d]) (simp_all add: fw prev_array_simps(2)[OF i] del: last.simps)
      then show ?thesis by (simp add: frame)
    next
      case False
      have "chain h' i (?X @ ?Y) = chain ?h i (?X @ ?Y)"
        using False by (intro chain_frame) (auto simp: fw)
      then show ?thesis using R(12)[OF i] False by (simp add: frame)
    qed
  qed
  show ?thesis
    unfolding skip_repr_def sl'
  proof (intro conjI)
    show "set (sl_Head (sl\<lparr>sl_NodesPool := pool\<rparr>) # sl_Tail (sl\<lparr>sl_NodesPool := pool\<rparr>) # A @ C) \<subseteq>
        stp_all (sl_NodesPool (sl\<lparr>sl_NodesPool := pool\<rparr>)) - set (stp_free (sl_NodesPool (sl\<lparr>sl_NodesPool := pool\<rparr>)))"
      using R(3) nn pool(2,3) by auto
  qed (use R pool(1,3,4) ch frame tail in \<open>auto simp: sorted_wrt_append\<close>)
qed

lemma DeleteNode_present:
  assumes r: "skip_repr sl ns" and key: "price_ok key" and n: "n \<in> set ns" "sn_Key (sl_heap sl n) = key"
  shows "\<exists>sl' A C. SkipList_DeleteNode key sl = Some sl' \<and> ns = A @ n # C \<and> skip_repr sl' (A @ C) \<and>
    skip_entries sl' (A @ C) = skip_entries sl (A @ C) \<and> sl_comp sl' = sl_comp sl \<and>
    skip_avail sl' = Suc (skip_avail sl)"
proof -
  define A where "A = takeWhile (\<lambda>n. comp (sl_comp sl) (sn_Key (sl_heap sl n)) key) ns"
  define C0 where "C0 = dropWhile (\<lambda>n. comp (sl_comp sl) (sn_Key (sl_heap sl n)) key) ns"
  note R = skip_reprD[OF r] and S = DeleteNode_search[OF r key A_def C0_def]
  have ns0: "ns = A @ C0" by (simp add: A_def C0_def)
  have "sn_Key (sl_heap sl (hd (C0 @ [sl_Tail sl]))) = key" using S(3) n by blast
  then obtain c C where C0: "C0 = c # C" "sn_Key (sl_heap sl c) = key"
    using price_ok_sentinels(5)[OF key, of "sl_comp sl"] R(8) by (cases C0) auto
  have "inj_on (\<lambda>n. sn_Key (sl_heap sl n)) (set ns)"
    using sorted_comp_distinct[OF R(11)] by (simp add: distinct_map)
  then have cn: "c = n" using n C0 by (auto simp: ns0 inj_on_def)
  have ns: "ns = A @ n # C" by (simp add: ns0 C0 cn)
  define h' where "h' = fold (unlink_level (prev_array sl A) n) [0..<sn_Height (sl_heap sl n) + 1] (sl_heap sl)"
  let ?p = "sl_NodesPool sl \<lparr> stp_Storage := h' \<rparr>"
  have pl: "stp_inv ?p" "stp_free ?p = stp_free (sl_NodesPool sl)" "stp_all ?p = stp_all (sl_NodesPool sl)"
    using R(1) by (simp_all add: stp_inv_def stp_free_def stp_all_def)
  have "n \<in> stp_all ?p" "n \<notin> set (stp_free ?p)" using R(3) n(1) pl by auto
  from stp.release_out[OF pl(1) this] obtain pool where
    rel: "STPool_Release (Some n) ?p = (True, pool)" "stp_inv pool"
      "set (stp_free pool) = insert n (set (stp_free ?p))" "stp_all pool = stp_all ?p" by blast
  have st: "stp_Storage pool = h'" using STPool_Storage(2)[of "Some n" ?p] by (simp add: rel(1))
  define sl' where "sl' = sl \<lparr> sl_NodesPool := pool \<rparr>"
  have "SkipList_DeleteNode key sl = Some sl'"
    using S(1,2) n(2) rel(1) by (simp add: SkipList_DeleteNode_def C0 cn h'_def sl'_def del: upt_Suc)
  moreover have "skip_repr sl' (A @ C)"
    using DeleteNode_heap_repr[OF r[unfolded ns] h'_def rel(2) _ _ st sl'_def] rel pl by simp
  moreover have "skip_entries sl' (A @ C) = skip_entries sl (A @ C)"
    by (simp add: skip_entries_def sl'_def st h'_def del: upt_Suc)
  moreover have "skip_avail sl' = Suc (skip_avail sl)"
  proof -
    have "n \<notin> set (stp_free (sl_NodesPool sl))" using R(3) n(1) by auto
    then have "card (set (stp_free pool)) = Suc (card (set (stp_free (sl_NodesPool sl))))"
      using rel(3) pl(2) by simp
    then show ?thesis
      using stp.free_distinct[OF R(1)] stp.free_distinct[OF rel(2)]
      by (simp add: skip_avail_def sl'_def distinct_card)
  qed
  ultimately show ?thesis using ns by (auto simp: sl'_def)
qed

lemma DeleteNode_absent:
  assumes "skip_repr sl ns" "price_ok key" "key \<notin> (\<lambda>n. sn_Key (sl_heap sl n)) ` set ns"
  shows "SkipList_DeleteNode key sl = Some sl"
  using DeleteNode_search[OF assms(1,2) refl refl] assms(3) by (simp add: SkipList_DeleteNode_def)

section \<open>The ordered map contract\<close>

locale ordered_map =
  fixes lt :: "'k \<Rightarrow> 'k \<Rightarrow> bool" and ok :: "'k \<Rightarrow> bool" and rel :: "'m \<Rightarrow> ('k \<times> 'v option) list \<Rightarrow> bool"
    and avail :: "'m \<Rightarrow> nat" and get :: "'k \<Rightarrow> 'm \<Rightarrow> (bool \<times> 'v option) option"
    and add :: "'k \<Rightarrow> 'v option \<Rightarrow> 'm \<Rightarrow> 'm option" and del :: "'k \<Rightarrow> 'm \<Rightarrow> 'm option"
    and first :: "'m \<Rightarrow> 'v option option"
  assumes irrefl: "\<not> lt a a"
    and sorted: "rel m es \<Longrightarrow> sorted_wrt lt (map fst es)"
    and first_rel: "rel m es \<Longrightarrow> first m = Some (case es of [] \<Rightarrow> None | e # _ \<Rightarrow> snd e)"
    and get_rel: "rel m es \<Longrightarrow> ok k \<Longrightarrow>
          get k m = Some (case map_of es k of None \<Rightarrow> (False, None) | Some v \<Rightarrow> (True, v))"
    and add_present: "rel m es \<Longrightarrow> ok k \<Longrightarrow> k \<in> fst ` set es \<Longrightarrow> add k v m = Some m"
    and add_fresh: "rel m es \<Longrightarrow> ok k \<Longrightarrow> k \<notin> fst ` set es \<Longrightarrow> 0 < avail m \<Longrightarrow>
          \<exists>m'. add k v m = Some m' \<and> rel m' (insert_by lt k v es) \<and> avail m = Suc (avail m')"
    and del_rel: "rel m es \<Longrightarrow> ok k \<Longrightarrow>
          \<exists>m'. del k m = Some m' \<and> rel m' (filter (\<lambda>e. fst e \<noteq> k) es) \<and>
               avail m' = avail m + (if k \<in> fst ` set es then 1 else 0)"
begin

lemma first_is_best:
  assumes "rel m es" "(k, v) \<in> set es"
  shows "\<exists>b w. first m = Some w \<and> (b, w) \<in> set es \<and> (b = k \<or> lt b k)"
  using assms first_rel[OF assms(1)] sorted[OF assms(1)] by (cases es) force+

lemma add_del_inverse:
  assumes "rel m es" "ok k" "k \<notin> fst ` set es" "0 < avail m"
  shows "\<exists>m1 m2. add k v m = Some m1 \<and> del k m1 = Some m2 \<and> rel m2 es \<and> avail m2 = avail m"
proof -
  from add_fresh[OF assms, of v] obtain m1 where
    1: "add k v m = Some m1" "rel m1 (insert_by lt k v es)" "avail m = Suc (avail m1)" by blast
  from del_rel[OF 1(2) assms(2)] obtain m2 where
    2: "del k m1 = Some m2" "rel m2 (filter (\<lambda>e. fst e \<noteq> k) (insert_by lt k v es))"
      "avail m2 = Suc (avail m1)" by (auto simp: insert_by_def)
  have "filter (\<lambda>e. fst e \<noteq> k) (insert_by lt k v es) =
      filter (\<lambda>e. fst e \<noteq> k) (takeWhile (\<lambda>e. lt (fst e) k) es @ dropWhile (\<lambda>e. lt (fst e) k) es)"
    unfolding insert_by_def by (simp del: takeWhile_dropWhile_id)
  also have "\<dots> = filter (\<lambda>e. fst e \<noteq> k) es" by simp
  also have "\<dots> = es" using assms(3) by (auto simp: filter_id_conv image_iff)
  finally show ?thesis using 1 2 by auto
qed

end

lemma skip_first:
  assumes "skip_repr sl ns"
  shows "SkipList_GetHead sl = Some (case skip_entries sl ns of [] \<Rightarrow> None | e # _ \<Rightarrow> snd e)"
proof -
  have "chain (sl_heap sl) 0 (sl_Head sl # ns @ [sl_Tail sl])" using skip_reprD(12)[OF assms, of 0] by simp
  then show ?thesis
    using skip_reprD(10)[OF assms] by (cases ns) (simp_all add: SkipList_GetHead_def skip_entries_def)
qed

lemma fst_skip_entries: "fst ` set (skip_entries sl ns) = (\<lambda>n. sn_Key (sl_heap sl n)) ` set ns"
  by (auto simp: skip_entries_def image_iff)

lemma skip_get:
  assumes r: "skip_repr sl ns" and key: "price_ok key"
  shows "SkipList_GetVal key sl =
    Some (case map_of (skip_entries sl ns) key of None \<Rightarrow> (False, None) | Some v \<Rightarrow> (True, v))"
proof -
  define C where "C = dropWhile (\<lambda>n. comp (sl_comp sl) (sn_Key (sl_heap sl n)) key) ns"
  note R = skip_reprD[OF r] and S = DeleteNode_search[OF r key refl C_def]
  let ?c = "hd (C @ [sl_Tail sl])"
  show ?thesis
  proof (cases "key \<in> (\<lambda>n. sn_Key (sl_heap sl n)) ` set ns")
    case False
    then have "map_of (skip_entries sl ns) key = None" by (simp add: map_of_eq_None_iff fst_skip_entries)
    with False S R(9) show ?thesis by (simp add: SkipList_GetVal_def)
  next
    case True
    with S(3) have k: "sn_Key (sl_heap sl ?c) = key" by simp
    then have "C \<noteq> []" using price_ok_sentinels(5)[OF key, of "sl_comp sl"] R(8) by auto
    then have "?c \<in> set ns" unfolding C_def by (metis hd_append2 list.set_sel(1) set_dropWhileD)
    then have "(key, sn_Value (sl_heap sl ?c)) \<in> set (skip_entries sl ns)"
      using k by (auto simp: skip_entries_def image_iff)
    moreover have "distinct (map fst (skip_entries sl ns))"
      using sorted_comp_distinct[OF R(11)] by (simp add: skip_entries_def comp_def)
    ultimately have "map_of (skip_entries sl ns) key = Some (sn_Value (sl_heap sl ?c))" by simp
    with k S show ?thesis by (simp add: SkipList_GetVal_def)
  qed
qed

lemma skip_add_entries:
  assumes r: "skip_repr sl ns" and fresh: "key \<notin> (\<lambda>n. sn_Key (sl_heap sl n)) ` set ns"
    and A: "A = takeWhile (\<lambda>n. \<not> comp (sl_comp sl) key (sn_Key (sl_heap sl n))) ns"
    and C: "C = dropWhile (\<lambda>n. \<not> comp (sl_comp sl) key (sn_Key (sl_heap sl n))) ns"
  shows "skip_entries sl A @ (key, val) # skip_entries sl C =
    insert_by (comp (sl_comp sl)) key val (skip_entries sl ns)"
proof -
  have eq: "(\<not> comp (sl_comp sl) key (sn_Key (sl_heap sl n))) = comp (sl_comp sl) (sn_Key (sl_heap sl n)) key"
    if "n \<in> set ns" for n
    using that fresh comp_order[of "sl_comp sl"] by blast
  have "A = takeWhile (\<lambda>n. comp (sl_comp sl) (sn_Key (sl_heap sl n)) key) ns"
    "C = dropWhile (\<lambda>n. comp (sl_comp sl) (sn_Key (sl_heap sl n)) key) ns"
    unfolding A C using eq by (auto intro: takeWhile_cong dropWhile_cong)
  then show ?thesis by (simp add: insert_by_def skip_entries_def takeWhile_map dropWhile_map o_def)
qed

interpretation skip: ordered_map "comp c" price_ok "skip_rel c" skip_avail SkipList_GetVal SkipList_AddNode
    SkipList_DeleteNode SkipList_GetHead for c
proof
  fix a k v sl es
  show "\<not> comp c a a" by (rule comp_order(1))
  assume "skip_rel c sl es"
  then obtain ns where c: "sl_comp sl = c" and r: "skip_repr sl ns" and es: "es = skip_entries sl ns"
    by (auto simp: skip_rel_def)
  show "sorted_wrt (comp c) (map fst es)" using skip_reprD(11)[OF r] by (simp add: es skip_entries_def c o_def)
  show "SkipList_GetHead sl = Some (case es of [] \<Rightarrow> None | e # _ \<Rightarrow> snd e)" unfolding es by (rule skip_first[OF r])
  assume key: "price_ok k"
  show "SkipList_GetVal k sl = Some (case map_of es k of None \<Rightarrow> (False, None) | Some v \<Rightarrow> (True, v))"
    unfolding es by (rule skip_get[OF r key])
  show "SkipList_AddNode k v sl = Some sl" if "k \<in> fst ` set es"
    using AddNode_search[OF r key refl] that by (simp add: SkipList_AddNode_def es fst_skip_entries)
  show "\<exists>sl'. SkipList_AddNode k v sl = Some sl' \<and> skip_rel c sl' (insert_by (comp c) k v es) \<and>
      skip_avail sl = Suc (skip_avail sl')" if "k \<notin> fst ` set es" "0 < skip_avail sl"
  proof -
    have fr: "k \<notin> (\<lambda>n. sn_Key (sl_heap sl n)) ` set ns" using that(1) by (simp add: es fst_skip_entries)
    have "stp_free (sl_NodesPool sl) \<noteq> []" using that(2) by (auto simp: skip_avail_def)
    from AddNode_repr[OF r key fr this refl refl, of v] skip_add_entries[OF r fr refl refl, of v] show ?thesis
      unfolding skip_rel_def es by (metis c)
  qed
  show "\<exists>sl'. SkipList_DeleteNode k sl = Some sl' \<and> skip_rel c sl' (filter (\<lambda>e. fst e \<noteq> k) es) \<and>
      skip_avail sl' = skip_avail sl + (if k \<in> fst ` set es then 1 else 0)"
  proof (cases "k \<in> fst ` set es")
    case True
    then obtain n where n: "n \<in> set ns" "sn_Key (sl_heap sl n) = k" by (auto simp: es fst_skip_entries)
    from DeleteNode_present[OF r key n] obtain sl' A C where
      d: "SkipList_DeleteNode k sl = Some sl'" "ns = A @ n # C" "skip_repr sl' (A @ C)"
        "skip_entries sl' (A @ C) = skip_entries sl (A @ C)" "sl_comp sl' = sl_comp sl"
        "skip_avail sl' = Suc (skip_avail sl)" by blast
    have "distinct (map (\<lambda>n. sn_Key (sl_heap sl n)) ns)" by (rule sorted_comp_distinct[OF skip_reprD(11)[OF r]])
    then have "k \<notin> fst ` set (skip_entries sl A)" "k \<notin> fst ` set (skip_entries sl C)"
      using n(2) unfolding fst_skip_entries by (auto simp: d(2))
    then have "filter (\<lambda>e. fst e \<noteq> k) (skip_entries sl A) = skip_entries sl A"
      "filter (\<lambda>e. fst e \<noteq> k) (skip_entries sl C) = skip_entries sl C"
      unfolding filter_id_conv by force+
    then have "filter (\<lambda>e. fst e \<noteq> k) es = skip_entries sl (A @ C)"
      using n(2) by (simp add: es d(2) skip_entries_def)
    then show ?thesis using d True c unfolding skip_rel_def by auto
  next
    case False
    then have "k \<notin> (\<lambda>n. sn_Key (sl_heap sl n)) ` set ns" by (simp add: es fst_skip_entries)
    moreover have "filter (\<lambda>e. fst e \<noteq> k) es = es" using False unfolding filter_id_conv by force
    ultimately show ?thesis using DeleteNode_absent[OF r key] False r c es by (auto simp: skip_rel_def)
  qed
qed

lemma SkipList_init_empty:
  assumes "2 \<le> poolSize"
  shows "\<exists>sl. SkipList_init c maxLevel poolSize seed = Some sl \<and> skip_rel c sl [] \<and> skip_avail sl = poolSize - 2"
proof -
  obtain n where n: "poolSize = Suc (Suc n)" using assms by (metis Suc_le_D numeral_2_eq_2 Suc_le_mono)
  let ?tl = "\<lparr> sn_Key = sentinel_key True c, sn_Value = None, sn_Height = maxLevel,
    sn_Forward = replicate (maxLevel + 1) None \<rparr>"
  let ?hd = "\<lparr> sn_Key = sentinel_key False c, sn_Value = None, sn_Height = maxLevel,
    sn_Forward = replicate (maxLevel + 1) (Some (Suc n)) \<rparr>"
  let ?sl = "\<lparr> sl_comp = c, sl_MaxLevel = maxLevel, sl_Head = n, sl_Tail = Suc n,
    sl_NodesPool = \<lparr> stp_Storage = (\<lambda>_. SkipNode_raw maxLevel)(Suc n := ?tl, n := ?hd),
      stp_FreeQueue = [0..<Suc (Suc n)], stp_FreeSize = n \<rparr>, sl_State = seed, sl_CurMax = 0 \<rparr>"
  have "SkipList_init c maxLevel poolSize seed = Some ?sl"
    by (simp add: SkipList_init_def n STPool_Acquire_def SingleThreadedStoragePool_init_def nth_append Let_def
        del: fun_upd_apply)
  moreover have "skip_repr ?sl []"
    by (auto simp: skip_repr_def stp_inv_def stp_free_def stp_all_def fwd_def SkipNode_raw_def nth_append
        simp del: replicate_Suc)
  ultimately show ?thesis
    by (auto simp: skip_rel_def skip_entries_def skip_avail_def stp_free_def n)
qed

text \<open>The sentinels are not ordinary keys: inserting the key of \<open>Tail\<close> walks past it.\<close>

lemma walk_to_tail:
  assumes ch: "chain h l (p # xs @ [t])" and adv: "\<forall>x \<in> set (xs @ [t]). adv (sn_Key (h x))" and t: "fwd h t l = None"
  shows "walk adv h l p = None"
  using ch adv
proof (induction xs arbitrary: p)
  case Nil
  then show ?case by (subst walk.simps, simp) (subst walk.simps, simp add: t)
next
  case (Cons x xs)
  then have "fwd h p l = Some x" "walk adv h l x = None" by simp_all
  with Cons.prems show ?case by (subst walk.simps) simp
qed

text \<open>The price \<open>INT64_MAX\<close> on an ascending side, or \<open>INT64_MIN\<close> on a descending one, is the key of the tail
  sentinel: inserting it follows the null pointer behind the tail.\<close>

theorem sentinel_key_crashes:
  assumes "skip_rel c sl es"
  shows "SkipList_AddNode (sentinel_key True c) v sl = None"
proof -
  from assms obtain ns where c: "sl_comp sl = c" and r: "skip_repr sl ns" by (auto simp: skip_rel_def)
  note R = skip_reprD[OF r]
  let ?adv = "\<lambda>k. \<not> comp c (sentinel_key True c) k" and ?M = "sl_MaxLevel sl"
  have "\<forall>x \<in> set (level_nodes (sl_heap sl) ?M ns @ [sl_Tail sl]). ?adv (sn_Key (sl_heap sl x))"
    using R(6) R(8) price_ok_sentinels(3) comp_order(1) by (auto simp: c)
  from walk_to_tail[OF R(12)[of ?M] this R(13)] have "walk ?adv (sl_heap sl) ?M (sl_Head sl) = None" by simp
  then have "search ?adv (sl_heap sl) ?M (sl_Head sl) = None" by (cases ?M) simp_all
  then show ?thesis by (simp add: SkipList_AddNode_def c)
qed

theorem sentinel_key_crashes_witness: "\<exists>sl. SkipList_init Less 3 8 1 = Some sl \<and> SkipList_AddNode INT64_MAX (Some 5) sl = None"
proof -
  from SkipList_init_empty[of 8 Less 3 1] obtain sl where sl: "SkipList_init Less 3 8 1 = Some sl" "skip_rel Less sl []" by auto
  have "sentinel_key True Less = INT64_MAX" by (simp add: sentinel_key_def)
  with sentinel_key_crashes[OF sl(2), of "Some 5"] sl(1) show ?thesis by simp
qed

section \<open>Properties\<close>

text \<open>C26. The skip list implements a sorted map, whatever heights its generator draws: inserting a new
  price returns, keeps the entries sorted by the comparator with the new one in its place, makes it
  findable, and \<open>GetHead\<close> returns the value of the best price.\<close>

theorem SkipList_insert_sorted:
  assumes "skip_rel c sl es" "price_ok k" "k \<notin> fst ` set es" "0 < skip_avail sl"
  shows "\<exists>sl'. SkipList_AddNode k v sl = Some sl' \<and> skip_rel c sl' (insert_by (comp c) k v es) \<and>
    sorted_wrt (comp c) (map fst (insert_by (comp c) k v es)) \<and> SkipList_GetVal k sl' = Some (True, v) \<and>
    SkipList_GetHead sl' = Some (snd (hd (insert_by (comp c) k v es)))"
proof -
  from skip.add_fresh[OF assms, of v] obtain sl' where
    s: "SkipList_AddNode k v sl = Some sl'" "skip_rel c sl' (insert_by (comp c) k v es)" by blast
  let ?es = "insert_by (comp c) k v es"
  have "map_of ?es k = Some v"
  proof (rule map_of_is_SomeI)
    show "distinct (map fst ?es)" using sorted_comp_distinct skip.sorted[OF s(2)] by blast
    show "(k, v) \<in> set ?es" by (simp add: insert_by_def)
  qed
  moreover have "?es \<noteq> []" by (simp add: insert_by_def)
  then have "SkipList_GetHead sl' = Some (snd (hd ?es))"
    using skip.first_rel[OF s(2)] by (cases ?es) simp_all
  ultimately show ?thesis using s skip.sorted[OF s(2)] skip.get_rel[OF s(2) assms(2)] by simp
qed

theorem SkipList_insert_sorted_witness:
  "\<exists>sl sl'. SkipList_init Less 3 8 1 = Some sl \<and> SkipList_AddNode 100 (Some 5) sl = Some sl' \<and> SkipList_GetHead sl' = Some (Some 5)"
proof -
  from SkipList_init_empty[of 8 Less 3 1] obtain sl where
    sl: "SkipList_init Less 3 8 1 = Some sl" "skip_rel Less sl []" "skip_avail sl = 6" by auto
  have "price_ok 100" "(100 :: int) \<notin> fst ` set []" "0 < skip_avail sl" by (simp_all add: price_ok_def INT64_MIN_def INT64_MAX_def sl(3))
  from SkipList_insert_sorted[OF sl(2) this, of "Some 5"] sl(1) show ?thesis by (auto simp: insert_by_def)
qed

text \<open>Removing a price undoes its insertion: the entries and the number of free nodes are as before.\<close>

theorem SkipList_insert_delete:
  assumes "skip_rel c sl es" "price_ok k" "k \<notin> fst ` set es" "0 < skip_avail sl"
  shows "\<exists>sl1 sl2. SkipList_AddNode k v sl = Some sl1 \<and> SkipList_DeleteNode k sl1 = Some sl2 \<and> skip_rel c sl2 es \<and>
    skip_avail sl2 = skip_avail sl"
  by (rule skip.add_del_inverse[OF assms])

theorem SkipList_insert_delete_witness:
  "\<exists>sl sl1 sl2. SkipList_init Greater 3 8 1 = Some sl \<and> SkipList_AddNode 100 (Some 5) sl = Some sl1 \<and>
     SkipList_DeleteNode 100 sl1 = Some sl2 \<and> skip_rel Greater sl2 []"
proof -
  from SkipList_init_empty[of 8 Greater 3 1] obtain sl where
    sl: "SkipList_init Greater 3 8 1 = Some sl" "skip_rel Greater sl []" "skip_avail sl = 6" by auto
  have "price_ok 100" "(100 :: int) \<notin> fst ` set []" "0 < skip_avail sl" by (simp_all add: price_ok_def INT64_MIN_def INT64_MAX_def sl(3))
  from SkipList_insert_delete[OF sl(2) this, of "Some 5"] sl(1) show ?thesis by blast
qed

end
