(* ===== verification/Wire_Types.thy ===== *)
theory Wire_Types
  imports Prelude
begin

text \<open>
  The messages the processes exchange (\<open>market_server/common/include\<close>: \<open>order.hpp\<close>,
  \<open>order_state_report.hpp\<close>, \<open>order_book_update.hpp\<close>, \<open>client_account_snapshot.hpp\<close>,
  \<open>client_auth_request.hpp\<close>, \<open>routed_auth_request.hpp\<close>, \<open>gateway_handshake.hpp\<close>;
  \<open>order_gateway/include\<close>: \<open>order_confirmation.hpp\<close>, \<open>client_message.hpp\<close>) and the sizes of
  \<open>system_conf.hpp\<close>, in the default build (no \<open>NAOTO_PERF\<close> timestamps).  A field of a record has
  the source's name after a tag of its struct.  The enumerations arrive as raw bytes, so each has
  a constructor for the values the source gives no name to.  The structs are packed and copied
  byte for byte; the second half gives that little-endian layout for the client-facing messages and
  shows that decoding inverts encoding.
\<close>

section \<open>Sizes\<close>

definition MaxGateways :: nat where "MaxGateways = 16"
definition MaxClients :: nat where "MaxClients = 1024"
definition MaxPositions :: nat where "MaxPositions = 16"
definition MaxAssets :: nat where "MaxAssets = 128"
definition MTU :: nat where "MTU = 1500"
definition TradeReportReceiveBatchSize :: nat where "TradeReportReceiveBatchSize = 16"
definition GatewayMaxClients :: nat where "GatewayMaxClients = 128"
definition GatewayEpollReceiveBatchSize :: nat where "GatewayEpollReceiveBatchSize = 16"
definition GatewayUpdateBufferSize :: nat where "GatewayUpdateBufferSize = 8192"
definition AccountResponseBatchSize :: nat where "AccountResponseBatchSize = 16"
definition MeOrderStateQueueSize :: nat where "MeOrderStateQueueSize = 32768"
definition MeOrderBookUpdateQueueSize :: nat where "MeOrderBookUpdateQueueSize = 32768"
definition MeOrderStatePoolSize :: nat where "MeOrderStatePoolSize = 32768"
definition MeOrderBookUpdatePoolSize :: nat where "MeOrderBookUpdatePoolSize = 32768"
definition MeOrderNodePoolSize :: nat where "MeOrderNodePoolSize = 32768"
definition MePriceLevelPoolSize :: nat where "MePriceLevelPoolSize = 8192"
definition MeSkipListNodePoolSize :: nat where "MeSkipListNodePoolSize = 8192"
definition MeOrderMapSize :: nat where "MeOrderMapSize = 4096"
definition MeFastMapSize :: nat where "MeFastMapSize = 1024"
definition MeSkipListMaxLevel :: nat where "MeSkipListMaxLevel = 14"

section \<open>Orders\<close>

datatype OrderType = LIMIT | MARKET | OtherType u8

datatype OrderSide = BUY | SELL | OtherSide u8

datatype OrderAction = EXECUTE | CANCEL | OtherAction u8

record Order =
  ord_Price :: i64
  ord_OrderId :: u64
  ord_ClientOrderId :: u32
  ord_ClientId :: u32
  ord_Amount :: u32
  ord_AssetId :: u16
  ord_Type :: OrderType
  ord_Side :: OrderSide
  ord_Action :: OrderAction
  ord_Padding :: "u8 list"

section \<open>Order state reports and book updates\<close>

datatype OrderState = FILL | PARTIAL_FILL | CANCEL_STATE | REJECT | ADD | OtherState u32

record OrderStateReport =
  rep_BoughtDelta :: i64
  rep_SoldDelta :: i64
  rep_SoldAttemptDelta :: i64
  rep_SequenceId :: u32
  rep_ClientId :: u32
  rep_OrderId :: u32
  rep_TradeId :: u32
  rep_BoughtAssetId :: u16
  rep_SoldAssetId :: u16
  rep_State :: OrderState

definition FillReport ::
  "i64 \<Rightarrow> i64 \<Rightarrow> i64 \<Rightarrow> u32 \<Rightarrow> u32 \<Rightarrow> u32 \<Rightarrow> u32 \<Rightarrow> u16 \<Rightarrow> u16 \<Rightarrow> OrderState \<Rightarrow> OrderStateReport"
where
  "FillReport boughtDelta soldDelta soldAttemptDelta sequenceId clientId orderId tradeId
     boughtAssetId soldAssetId state =
   \<lparr> rep_BoughtDelta = boughtDelta, rep_SoldDelta = soldDelta,
     rep_SoldAttemptDelta = soldAttemptDelta, rep_SequenceId = sequenceId,
     rep_ClientId = clientId, rep_OrderId = orderId, rep_TradeId = tradeId,
     rep_BoughtAssetId = boughtAssetId, rep_SoldAssetId = soldAssetId, rep_State = state \<rparr>"

definition ORDER_BOOK_UPDATE_BUY :: u8 where "ORDER_BOOK_UPDATE_BUY = 0"
definition ORDER_BOOK_UPDATE_SELL :: u8 where "ORDER_BOOK_UPDATE_SELL = 1"

record OrderBookUpdate =
  upd_Price :: i64
  upd_SequenceId :: u32
  upd_Depth :: u32
  upd_AssetId :: u16
  upd_Side :: u8

definition FillUpdate :: "u32 \<Rightarrow> u32 \<Rightarrow> i64 \<Rightarrow> u16 \<Rightarrow> u8 \<Rightarrow> OrderBookUpdate" where
  "FillUpdate sequenceId depth price assetId side =
   \<lparr> upd_Price = price, upd_SequenceId = sequenceId, upd_Depth = depth,
     upd_AssetId = assetId, upd_Side = side \<rparr>"

section \<open>Confirmations\<close>

datatype OrderConfirmationStatus =
    Accepted | InsufficientFunds | MaxPositionsReached | InvalidPrice | InvalidQuantity
  | UnknownSymbol | TechnicalFailure | UserNotConnected | BadClientId

record OrderConfirmation =
  conf_OrderId :: u32
  conf_ClientOrderId :: u32
  conf_Status :: OrderConfirmationStatus

record ClientMessage =
  msg_Fd :: u32
  msg_Confirmation :: OrderConfirmation

section \<open>Login messages\<close>

record ClientAuthRequest =
  car_RequestType :: u8
  car_ClientId :: u32
  car_Key :: "u8 list"

record RoutedAuthRequest =
  rar_RequestType :: u8
  rar_ClientId :: u32
  rar_Key :: "u8 list"
  rar_ClientFd :: u32
  rar_GatewayId :: u16

record GatewayHandshake =
  ghs_GatewayId :: u16

record ClientAccountSnapshot =
  snap_Status :: u8
  snap_SequenceId :: u64
  snap_ClientId :: u32
  snap_ClientFd :: u32
  snap_AssetId :: "u16 list"
  snap_Confirmed :: "i64 list"
  snap_Attempt :: "i64 list"

definition Snapshot_Clear :: "ClientAccountSnapshot \<Rightarrow> ClientAccountSnapshot" where
  "Snapshot_Clear s = s \<lparr> snap_Status := 82, snap_SequenceId := 0, snap_ClientId := 0,
     snap_ClientFd := 0, snap_AssetId := replicate MaxPositions 0,
     snap_Confirmed := replicate MaxPositions 0, snap_Attempt := replicate MaxPositions 0 \<rparr>"

section \<open>Packed little-endian layout\<close>

fun le_bytes :: "nat \<Rightarrow> int \<Rightarrow> u8 list" where
  "le_bytes 0 x = []"
| "le_bytes (Suc n) x = word_of_int x # le_bytes n (x div 256)"

fun le_value :: "u8 list \<Rightarrow> int" where
  "le_value [] = 0"
| "le_value (b # bs) = uint b + 256 * le_value bs"

fun OrderType_code :: "OrderType \<Rightarrow> u8" where
  "OrderType_code LIMIT = 0"
| "OrderType_code MARKET = 1"
| "OrderType_code (OtherType b) = b"

definition OrderType_of :: "u8 \<Rightarrow> OrderType" where
  "OrderType_of b = (if b = 0 then LIMIT else if b = 1 then MARKET else OtherType b)"

fun OrderSide_code :: "OrderSide \<Rightarrow> u8" where
  "OrderSide_code BUY = 0"
| "OrderSide_code SELL = 1"
| "OrderSide_code (OtherSide b) = b"

definition OrderSide_of :: "u8 \<Rightarrow> OrderSide" where
  "OrderSide_of b = (if b = 0 then BUY else if b = 1 then SELL else OtherSide b)"

fun OrderAction_code :: "OrderAction \<Rightarrow> u8" where
  "OrderAction_code EXECUTE = 0"
| "OrderAction_code CANCEL = 1"
| "OrderAction_code (OtherAction b) = b"

definition OrderAction_of :: "u8 \<Rightarrow> OrderAction" where
  "OrderAction_of b = (if b = 0 then EXECUTE else if b = 1 then CANCEL else OtherAction b)"

definition sizeof_Order :: nat where "sizeof_Order = 40"

definition encode_Order :: "Order \<Rightarrow> u8 list" where
  "encode_Order o' =
     le_bytes 8 (ord_Price o') @ le_bytes 8 (uint (ord_OrderId o')) @
     le_bytes 4 (uint (ord_ClientOrderId o')) @ le_bytes 4 (uint (ord_ClientId o')) @
     le_bytes 4 (uint (ord_Amount o')) @ le_bytes 2 (uint (ord_AssetId o')) @
     [OrderType_code (ord_Type o'), OrderSide_code (ord_Side o'), OrderAction_code (ord_Action o')] @
     ord_Padding o'"

definition decode_Order :: "u8 list \<Rightarrow> Order" where
  "decode_Order bs =
   \<lparr> ord_Price = wrap64 (le_value (take 8 bs)),
     ord_OrderId = word_of_int (le_value (take 8 (drop 8 bs))),
     ord_ClientOrderId = word_of_int (le_value (take 4 (drop 16 bs))),
     ord_ClientId = word_of_int (le_value (take 4 (drop 20 bs))),
     ord_Amount = word_of_int (le_value (take 4 (drop 24 bs))),
     ord_AssetId = word_of_int (le_value (take 2 (drop 28 bs))),
     ord_Type = OrderType_of (bs ! 30), ord_Side = OrderSide_of (bs ! 31),
     ord_Action = OrderAction_of (bs ! 32), ord_Padding = take 7 (drop 33 bs) \<rparr>"

definition sizeof_OrderConfirmation :: nat where "sizeof_OrderConfirmation = 9"

fun OrderConfirmationStatus_code :: "OrderConfirmationStatus \<Rightarrow> u8" where
  "OrderConfirmationStatus_code Accepted = 0"
| "OrderConfirmationStatus_code InsufficientFunds = 1"
| "OrderConfirmationStatus_code MaxPositionsReached = 2"
| "OrderConfirmationStatus_code InvalidPrice = 3"
| "OrderConfirmationStatus_code InvalidQuantity = 4"
| "OrderConfirmationStatus_code UnknownSymbol = 5"
| "OrderConfirmationStatus_code TechnicalFailure = 6"
| "OrderConfirmationStatus_code UserNotConnected = 7"
| "OrderConfirmationStatus_code BadClientId = 8"

definition encode_OrderConfirmation :: "OrderConfirmation \<Rightarrow> u8 list" where
  "encode_OrderConfirmation c =
     le_bytes 4 (uint (conf_OrderId c)) @ le_bytes 4 (uint (conf_ClientOrderId c)) @
     [OrderConfirmationStatus_code (conf_Status c)]"

section \<open>Round trips\<close>

text \<open>An order as it can arrive on the wire: a representable price, seven padding bytes, and each
  enumeration byte under its canonical constructor.\<close>

definition wire_order :: "Order \<Rightarrow> bool" where
  "wire_order o' \<longleftrightarrow> in_i64 (ord_Price o') \<and> length (ord_Padding o') = 7 \<and>
     OrderType_of (OrderType_code (ord_Type o')) = ord_Type o' \<and>
     OrderSide_of (OrderSide_code (ord_Side o')) = ord_Side o' \<and>
     OrderAction_of (OrderAction_code (ord_Action o')) = ord_Action o'"

lemma length_le_bytes [simp]: "length (le_bytes n x) = n"
  by (induction n arbitrary: x) auto

lemma le_value_le_bytes: "le_value (le_bytes n x) = x mod 256 ^ n"
proof (induction n arbitrary: x)
  case 0
  then show ?case by simp
next
  case (Suc n)
  have "uint (word_of_int x :: u8) = x mod 256"
    by (simp add: uint_word_of_int)
  moreover have "x mod 256 + 256 * (x div 256 mod 256 ^ n) = x mod (256 * 256 ^ n)"
    by (rule zmod_zmult2_eq [symmetric, simplified add.commute]) simp
  ultimately show ?case by (simp add: Suc.IH)
qed

lemma length_encode_Order:
  "length (ord_Padding o') = 7 \<Longrightarrow> length (encode_Order o') = sizeof_Order"
  by (simp add: encode_Order_def sizeof_Order_def)

lemma length_encode_OrderConfirmation [simp]:
  "length (encode_OrderConfirmation c) = sizeof_OrderConfirmation"
  by (simp add: encode_OrderConfirmation_def sizeof_OrderConfirmation_def)

lemma word_of_int_mod_len [simp]:
  "(word_of_int (uint (x :: 'a :: len word) mod 2 ^ LENGTH('a)) :: 'a word) = x"
  by simp

lemma le_value_range:
  "(word_of_int (le_value (le_bytes 8 (uint (x :: u64)))) :: u64) = x" "(word_of_int (le_value (le_bytes 4 (uint (y :: u32)))) :: u32) = y"
  "(word_of_int (le_value (le_bytes 2 (uint (z :: u16)))) :: u16) = z"
  using word_of_int_mod_len[of x] word_of_int_mod_len[of y] word_of_int_mod_len[of z] by (simp_all add: le_value_le_bytes)

lemma wrap64_le_value: "in_i64 p \<Longrightarrow> wrap64 (le_value (le_bytes 8 p)) = p"
  using signed_take_bit_take_bit[of 63 64 p] wrap64_id[of p] by (simp add: le_value_le_bytes wrap64_def take_bit_eq_mod)

lemma decode_encode_Order:
  assumes "wire_order o'"
  shows "length (encode_Order o') = sizeof_Order" "decode_Order (encode_Order o') = o'"
proof -
  have w: "in_i64 (ord_Price o')" "length (ord_Padding o') = 7" using assms by (simp_all add: wire_order_def)
  have e: "OrderType_of (OrderType_code (ord_Type o')) = ord_Type o'" "OrderSide_of (OrderSide_code (ord_Side o')) = ord_Side o'"
    "OrderAction_of (OrderAction_code (ord_Action o')) = ord_Action o'" using assms by (simp_all add: wire_order_def)
  show "decode_Order (encode_Order o') = o'"
    using w e wrap64_le_value[OF w(1)] by (simp add: decode_Order_def encode_Order_def le_value_range nth_append)
  show "length (encode_Order o') = sizeof_Order" using length_encode_Order[OF w(2)] .
qed

text \<open>An order survives the wire: the 40 bytes of its packed layout determine every field, for
  every order whose enumeration bytes are in canonical form.\<close>

theorem order_wire_roundtrip:
  assumes "wire_order o'"
  shows "length (encode_Order o') = sizeof_Order \<and> decode_Order (encode_Order o') = o'"
  using decode_encode_Order[OF assms] by simp

definition sample_order :: Order where
  "sample_order = \<lparr> ord_Price = - 5, ord_OrderId = 77, ord_ClientOrderId = 3, ord_ClientId = 9, ord_Amount = 1000, ord_AssetId = 2,
     ord_Type = MARKET, ord_Side = OtherSide 9, ord_Action = CANCEL, ord_Padding = replicate 7 0 \<rparr>"

theorem order_wire_roundtrip_witness: "wire_order sample_order \<and> decode_Order (encode_Order sample_order) = sample_order"
proof -
  have "wire_order sample_order"
    by (simp add: wire_order_def sample_order_def in_i64_def OrderType_of_def OrderSide_of_def OrderAction_of_def)
  with order_wire_roundtrip[OF this] show ?thesis by simp
qed

end
