(* ===== verification/Price_Level.thy ===== *)
theory Price_Level
  imports Storage_Pools Wire_Types
begin

text \<open>
  One price of one side of the book: \<open>matching_engine/include/order_node.hpp\<close> and
  \<open>price_level.hpp\<close>.  The resting orders of a level are a doubly linked list through nodes of the
  engine's node pool, oldest first; the level also keeps the number of orders and their total
  amount.  The operations take the level and the node heap (the pool's storage) and return both.

  The invariant \<open>level_ok\<close> says which nodes the level holds, in time order, that the links in both
  directions and the two counters agree with them, and that they all have the level's price.  The
  total is kept modulo \<open>2 ^ 32\<close> only: the engine passes a negated \<open>uint32_t\<close> to
  \<open>IncTotalAmount\<close>, which adds \<open>2 ^ 32 - t\<close> instead of subtracting \<open>t\<close>.
\<close>

section \<open>Nodes\<close>

record OrderNode =
  on_Prev :: "ptr option"
  on_Next :: "ptr option"
  on_NodeOrder :: Order

type_synonym node_heap = "ptr \<Rightarrow> OrderNode"

definition OrderNode_of :: "Order \<Rightarrow> OrderNode" where
  "OrderNode_of order = \<lparr> on_Prev = None, on_Next = None, on_NodeOrder = order \<rparr>"

definition OrderNode_SetOrder :: "Order \<Rightarrow> OrderNode \<Rightarrow> OrderNode" where
  "OrderNode_SetOrder order n = n \<lparr> on_NodeOrder := order \<rparr>"

definition OrderNode_SetAmount :: "u32 \<Rightarrow> OrderNode \<Rightarrow> OrderNode" where
  "OrderNode_SetAmount amount n = n \<lparr> on_NodeOrder := (on_NodeOrder n) \<lparr> ord_Amount := amount \<rparr> \<rparr>"

definition SetPrev :: "ptr \<Rightarrow> ptr option \<Rightarrow> node_heap \<Rightarrow> node_heap" where
  "SetPrev n p h = h(n := (h n) \<lparr> on_Prev := p \<rparr>)"

definition SetNext :: "ptr \<Rightarrow> ptr option \<Rightarrow> node_heap \<Rightarrow> node_heap" where
  "SetNext n p h = h(n := (h n) \<lparr> on_Next := p \<rparr>)"

definition OrderNode_GetPrev :: "OrderNode \<Rightarrow> ptr option" where
  "OrderNode_GetPrev n = on_Prev n"

definition OrderNode_GetNext :: "OrderNode \<Rightarrow> ptr option" where
  "OrderNode_GetNext n = on_Next n"

definition OrderNode_GetAmount :: "OrderNode \<Rightarrow> u32" where
  "OrderNode_GetAmount n = ord_Amount (on_NodeOrder n)"

definition OrderNode_GetId :: "OrderNode \<Rightarrow> u32" where
  "OrderNode_GetId n = ucast (ord_OrderId (on_NodeOrder n))"

definition OrderNode_GetClientId :: "OrderNode \<Rightarrow> u32" where
  "OrderNode_GetClientId n = ord_ClientId (on_NodeOrder n)"

definition OrderNode_GetPrice :: "OrderNode \<Rightarrow> i64" where
  "OrderNode_GetPrice n = ord_Price (on_NodeOrder n)"

section \<open>Levels\<close>

record PriceLevel =
  pl_Price :: i64
  pl_Size :: u64
  pl_TotalAmount :: u64
  pl_Head :: "ptr option"
  pl_Tail :: "ptr option"

definition PriceLevel_init :: "i64 \<Rightarrow> PriceLevel" where
  "PriceLevel_init price =
     \<lparr> pl_Price = price, pl_Size = 0, pl_TotalAmount = 0, pl_Head = None, pl_Tail = None \<rparr>"

text \<open>A null \<open>Tail\<close> is dereferenced when \<open>Head\<close> is not null: \<open>None\<close>.\<close>

definition PriceLevel_AddOrder :: "ptr \<Rightarrow> PriceLevel \<Rightarrow> node_heap \<Rightarrow> (PriceLevel \<times> node_heap) option" where
  "PriceLevel_AddOrder order lv h = do {
     (lv, h) \<leftarrow>
       (if pl_Head lv = None
        then Some (lv \<lparr> pl_Head := Some order, pl_Tail := Some order \<rparr>, SetNext order None (SetPrev order None h))
        else do {
          tl \<leftarrow> pl_Tail lv;
          let h = SetNext tl (Some order) h;
          let h = SetPrev order (Some tl) h;
          let h = SetNext order None h;
          Some (lv \<lparr> pl_Tail := Some order \<rparr>, h)
        });
     let lv = lv \<lparr> pl_Size := pl_Size lv + 1 \<rparr>;
     Some (lv \<lparr> pl_TotalAmount := pl_TotalAmount lv + ucast (OrderNode_GetAmount (h order)) \<rparr>, h)
   }"

definition PriceLevel_DeleteOrder :: "ptr \<Rightarrow> PriceLevel \<Rightarrow> node_heap \<Rightarrow> bool \<times> PriceLevel \<times> node_heap" where
  "PriceLevel_DeleteOrder order lv h =
     (let lv = lv \<lparr> pl_Size := pl_Size lv - 1 \<rparr>;
          lv = lv \<lparr> pl_TotalAmount := pl_TotalAmount lv - ucast (OrderNode_GetAmount (h order)) \<rparr>;
          (lv, h) = (case on_Prev (h order) of
                       Some p \<Rightarrow> (lv, SetNext p (on_Next (h order)) h)
                     | None \<Rightarrow> (lv \<lparr> pl_Head := on_Next (h order) \<rparr>, h));
          (lv, h) = (case on_Next (h order) of
                       Some q \<Rightarrow> (lv, SetPrev q (on_Prev (h order)) h)
                     | None \<Rightarrow> (lv \<lparr> pl_Tail := on_Prev (h order) \<rparr>, h))
      in (pl_Size lv = 0, lv, h))"

definition PriceLevel_PeekOrder :: "PriceLevel \<Rightarrow> ptr option" where
  "PriceLevel_PeekOrder lv = pl_Head lv"

definition PriceLevel_PopOrder :: "PriceLevel \<Rightarrow> node_heap \<Rightarrow> ptr option \<times> PriceLevel \<times> node_heap" where
  "PriceLevel_PopOrder lv h =
     (case pl_Head lv of
        None \<Rightarrow> (None, lv, h)
      | Some res \<Rightarrow>
          (let lv = lv \<lparr> pl_Head := on_Next (h res) \<rparr>;
               (lv, h) = (case pl_Head lv of
                            Some q \<Rightarrow> (lv, SetPrev q None h)
                          | None \<Rightarrow> (lv \<lparr> pl_Tail := None \<rparr>, h));
               lv = lv \<lparr> pl_Size := pl_Size lv - 1 \<rparr>;
               lv = lv \<lparr> pl_TotalAmount := pl_TotalAmount lv - ucast (OrderNode_GetAmount (h res)) \<rparr>
           in (Some res, lv, h)))"

text \<open>Releasing the nodes of a level; a refused release terminates the process.\<close>

partial_function (option) release_nodes ::
  "ptr option \<Rightarrow> OrderNode SingleThreadedStoragePool \<Rightarrow> OrderNode SingleThreadedStoragePool option" where
  "release_nodes curNode pool =
     (case curNode of
        None \<Rightarrow> Some pool
      | Some n \<Rightarrow>
          (let nxt = on_Next (stp_Storage pool n);
               (released, pool) = STPool_Release (Some n) pool
           in if released then release_nodes nxt pool else None))"

declare release_nodes.simps [code]

definition PriceLevel_ClearPriceLevel ::
  "PriceLevel \<Rightarrow> OrderNode SingleThreadedStoragePool \<Rightarrow> (PriceLevel \<times> OrderNode SingleThreadedStoragePool) option" where
  "PriceLevel_ClearPriceLevel lv pool = do {
     let lv = lv \<lparr> pl_Size := 0, pl_TotalAmount := 0 \<rparr>;
     pool \<leftarrow> release_nodes (pl_Head lv) pool;
     Some (lv \<lparr> pl_Head := None, pl_Tail := None \<rparr>, pool)
   }"

definition PriceLevel_SetPrice :: "i64 \<Rightarrow> PriceLevel \<Rightarrow> PriceLevel" where
  "PriceLevel_SetPrice price lv = lv \<lparr> pl_Price := price \<rparr>"

definition PriceLevel_SetHead :: "ptr option \<Rightarrow> PriceLevel \<Rightarrow> PriceLevel" where
  "PriceLevel_SetHead order l = l \<lparr> pl_Head := order \<rparr>"

definition PriceLevel_SetTail :: "ptr option \<Rightarrow> PriceLevel \<Rightarrow> PriceLevel" where
  "PriceLevel_SetTail order l = l \<lparr> pl_Tail := order \<rparr>"

definition PriceLevel_GetKey :: "PriceLevel \<Rightarrow> i64" where
  "PriceLevel_GetKey l = pl_Price l"

definition PriceLevel_GetTotalAmount :: "PriceLevel \<Rightarrow> u64" where
  "PriceLevel_GetTotalAmount l = pl_TotalAmount l"

definition PriceLevel_IncTotalAmount :: "i64 \<Rightarrow> PriceLevel \<Rightarrow> PriceLevel" where
  "PriceLevel_IncTotalAmount amountDelta lv =
     lv \<lparr> pl_TotalAmount := pl_TotalAmount lv + u64_of_i64 amountDelta \<rparr>"

section \<open>The nodes of a level\<close>

fun dseg :: "node_heap \<Rightarrow> ptr option \<Rightarrow> ptr list \<Rightarrow> ptr option \<Rightarrow> bool" where
  "dseg h p [] nx \<longleftrightarrow> True"
| "dseg h p (n # ns) nx \<longleftrightarrow>
     on_Prev (h n) = p \<and> on_Next (h n) = (if ns = [] then nx else Some (hd ns)) \<and> dseg h (Some n) ns nx"

definition hd_opt :: "'a list \<Rightarrow> 'a option" where
  "hd_opt xs = (if xs = [] then None else Some (hd xs))"

definition last_opt :: "'a list \<Rightarrow> 'a option" where
  "last_opt xs = (if xs = [] then None else Some (last xs))"

definition depth_of :: "node_heap \<Rightarrow> ptr list \<Rightarrow> u32" where
  "depth_of h ns = (\<Sum>n\<leftarrow>ns. OrderNode_GetAmount (h n))"

definition level_ok :: "PriceLevel \<Rightarrow> node_heap \<Rightarrow> ptr list \<Rightarrow> bool" where
  "level_ok lv h ns \<longleftrightarrow> distinct ns \<and> pl_Head lv = hd_opt ns \<and> pl_Tail lv = last_opt ns \<and>
     dseg h None ns None \<and> pl_Size lv = of_nat (length ns) \<and> length ns < 2 ^ 64 \<and>
     ucast (pl_TotalAmount lv) = depth_of h ns \<and> (\<forall>n \<in> set ns. OrderNode_GetPrice (h n) = pl_Price lv)"

lemmas node_defs = SetPrev_def SetNext_def OrderNode_GetAmount_def OrderNode_GetPrice_def
  OrderNode_GetId_def OrderNode_GetClientId_def OrderNode_SetAmount_def OrderNode_SetOrder_def

lemma dseg_append:
  "dseg h p (xs @ ys) nx \<longleftrightarrow>
     dseg h p xs (if ys = [] then nx else Some (hd ys)) \<and> dseg h (if xs = [] then p else Some (last xs)) ys nx"
  by (induction xs arbitrary: p) auto

lemma dseg_frame: "(\<And>n. n \<in> set ns \<Longrightarrow> on_Prev (h' n) = on_Prev (h n) \<and> on_Next (h' n) = on_Next (h n)) \<Longrightarrow>
   dseg h' p ns nx = dseg h p ns nx"
  by (induction ns arbitrary: p) auto

lemma dseg_other:
  assumes "n \<notin> set ns"
  shows "dseg (SetNext n x h) p ns nx = dseg h p ns nx" "dseg (SetPrev n x h) p ns nx = dseg h p ns nx"
  by (rule dseg_frame; use assms in \<open>auto simp: SetNext_def SetPrev_def\<close>)+

text \<open>Only the two ends of a segment mention what lies outside.\<close>

lemma dseg_set_next:
  assumes "dseg h p ns nx" "ns \<noteq> []" "distinct ns"
  shows "dseg (SetNext (last ns) nx' h) p ns nx'"
  using assms
proof (induction ns arbitrary: p)
  case Nil
  then show ?case by simp
next
  case (Cons n ns)
  show ?case
  proof (cases "ns = []")
    case True
    with Cons.prems show ?thesis by (simp add: SetNext_def)
  next
    case False
    then have "n \<noteq> last ns" using Cons.prems by auto
    then have "SetNext (last ns) nx' h n = h n" by (simp add: SetNext_def)
    with False Cons.IH[of "Some n"] Cons.prems show ?thesis by simp
  qed
qed

lemma dseg_set_prev:
  assumes "dseg h p ns nx" "ns \<noteq> []" "distinct ns"
  shows "dseg (SetPrev (hd ns) p' h) p' ns nx"
proof -
  obtain n ms where ns: "ns = n # ms" using assms(2) by (cases ns) auto
  have "SetPrev n p' h n = (h n) \<lparr> on_Prev := p' \<rparr>" by (simp add: SetPrev_def)
  with assms dseg_other(2)[of n ms p' h] show ?thesis by (simp add: ns)
qed

lemma set_links_order [simp]:
  "on_NodeOrder (SetNext n x h q) = on_NodeOrder (h q)" "on_NodeOrder (SetPrev n x h q) = on_NodeOrder (h q)"
  by (simp_all add: SetNext_def SetPrev_def)

section \<open>The operations keep the level well formed\<close>

lemma depth_of_append: "depth_of h (xs @ ys) = depth_of h xs + depth_of h ys"
  by (simp add: depth_of_def)

lemma depth_of_cong: "(\<And>n. n \<in> set ns \<Longrightarrow> on_NodeOrder (h' n) = on_NodeOrder (h n)) \<Longrightarrow> depth_of h' ns = depth_of h ns"
  unfolding depth_of_def OrderNode_GetAmount_def by (intro arg_cong[where f = sum_list] map_cong) auto

text \<open>An operation on the links of a level changes nothing else in the heap.\<close>

definition links_only :: "node_heap \<Rightarrow> node_heap \<Rightarrow> ptr set \<Rightarrow> bool" where
  "links_only h h' S \<longleftrightarrow> (\<forall>n. on_NodeOrder (h' n) = on_NodeOrder (h n)) \<and> (\<forall>n. n \<notin> S \<longrightarrow> h' n = h n)"

lemma AddOrder_level:
  assumes ok: "level_ok lv h ns" and n: "n \<notin> set ns" "OrderNode_GetPrice (h n) = pl_Price lv"
    and len: "Suc (length ns) < 2 ^ 64"
  shows "\<exists>lv' h'. PriceLevel_AddOrder n lv h = Some (lv', h') \<and> level_ok lv' h' (ns @ [n]) \<and>
     links_only h h' (insert n (set ns)) \<and> pl_Price lv' = pl_Price lv"
proof -
  let ?t = "pl_TotalAmount lv + ucast (OrderNode_GetAmount (h n))"
  have L: "distinct ns" "pl_Head lv = hd_opt ns" "pl_Tail lv = last_opt ns" "dseg h None ns None"
    "pl_Size lv = of_nat (length ns)" "ucast (pl_TotalAmount lv) = depth_of h ns"
    "\<forall>n \<in> set ns. OrderNode_GetPrice (h n) = pl_Price lv" using ok by (auto simp: level_ok_def)
  have tot: "(ucast ?t :: u32) = depth_of h (ns @ [n])"
    by (simp add: depth_of_append L(6) depth_of_def ucast32_simps)
  show ?thesis
  proof (cases "ns = []")
    case True
    let ?h = "SetNext n None (SetPrev n None h)"
    let ?lv = "lv \<lparr> pl_Head := Some n, pl_Tail := Some n, pl_Size := pl_Size lv + 1, pl_TotalAmount := ?t \<rparr>"
    have "PriceLevel_AddOrder n lv h = Some (?lv, ?h)"
      using True L(2) by (simp add: PriceLevel_AddOrder_def hd_opt_def OrderNode_GetAmount_def)
    moreover have "level_ok ?lv ?h (ns @ [n])"
      using True L(5) tot n(2) by (simp add: level_ok_def hd_opt_def last_opt_def node_defs depth_of_def)
    ultimately show ?thesis by (auto simp: links_only_def node_defs)
  next
    case False
    let ?h = "SetNext n None (SetPrev n (Some (last ns)) (SetNext (last ns) (Some n) h))"
    let ?lv = "lv \<lparr> pl_Tail := Some n, pl_Size := pl_Size lv + 1, pl_TotalAmount := ?t \<rparr>"
    have "PriceLevel_AddOrder n lv h = Some (?lv, ?h)"
      using False L(2,3) by (simp add: PriceLevel_AddOrder_def hd_opt_def last_opt_def OrderNode_GetAmount_def)
    moreover have "dseg ?h None (ns @ [n]) None"
    proof -
      have "dseg ?h None ns (Some n)"
        using dseg_set_next[OF L(4) False L(1), of "Some n"] n(1) by (simp add: dseg_other)
      then show ?thesis using False by (simp add: dseg_append) (simp add: SetNext_def SetPrev_def)
    qed
    then have "level_ok ?lv ?h (ns @ [n])"
      using False L tot n len depth_of_cong[of "ns @ [n]" ?h h]
      by (simp add: level_ok_def hd_opt_def last_opt_def OrderNode_GetPrice_def add.commute)
    moreover have "last ns \<in> set ns" using False by simp
    ultimately show ?thesis by (auto simp: links_only_def node_defs)
  qed
qed

lemma DeleteOrder_level:
  assumes ok: "level_ok lv h (A @ n # C)"
  shows "\<exists>lv' h'. PriceLevel_DeleteOrder n lv h = (A @ C = [], lv', h') \<and> level_ok lv' h' (A @ C) \<and>
     links_only h h' (set (A @ C)) \<and> pl_Price lv' = pl_Price lv"
proof -
  let ?t = "pl_TotalAmount lv - ucast (OrderNode_GetAmount (h n))"
  have L: "distinct (A @ n # C)" "pl_Head lv = hd_opt (A @ n # C)" "pl_Tail lv = last_opt (A @ n # C)"
    "dseg h None (A @ n # C) None" "pl_Size lv = of_nat (length (A @ n # C))"
    "ucast (pl_TotalAmount lv) = depth_of h (A @ n # C)" "length (A @ n # C) < 2 ^ 64"
    "\<forall>n \<in> set (A @ n # C). OrderNode_GetPrice (h n) = pl_Price lv" using ok by (auto simp: level_ok_def)
  have tot: "(ucast ?t :: u32) = depth_of h (A @ C)"
    by (simp add: L(6) depth_of_append ucast32_simps) (simp add: depth_of_def)
  have sz: "pl_Size lv - 1 = of_nat (length (A @ C))" using L(5) by simp
  have zero: "(of_nat (length (A @ C)) :: u64) = 0 \<longleftrightarrow> A @ C = []"
    using L(7) by (subst of_nat64_eq_0) auto
  have seg: "dseg h None A (Some n)" "on_Prev (h n) = last_opt A" "on_Next (h n) = hd_opt C"
    "dseg h (Some n) C None" "distinct A" "distinct C" "n \<notin> set A" "n \<notin> set C" "set A \<inter> set C = {}"
    using L(1,4) by (auto simp: dseg_append last_opt_def hd_opt_def)
  define h1 where "h1 = (if A = [] then h else SetNext (last A) (hd_opt C) h)"
  define h2 where "h2 = (if C = [] then h1 else SetPrev (hd C) (last_opt A) h1)"
  let ?lv = "lv \<lparr> pl_Size := pl_Size lv - 1, pl_TotalAmount := ?t,
    pl_Head := if A = [] then hd_opt C else pl_Head lv, pl_Tail := if C = [] then last_opt A else pl_Tail lv \<rparr>"
  have h1n: "h1 n = h n" using seg(7) by (auto simp: h1_def SetNext_def)
  have step: "PriceLevel_DeleteOrder n lv h = (pl_Size lv - 1 = 0, ?lv, h2)"
    using seg(2,3) h1n
    by (cases "A = []"; cases "C = []")
      (simp_all add: PriceLevel_DeleteOrder_def Let_def h1_def h2_def last_opt_def hd_opt_def)
  have segA: "dseg h1 None A (hd_opt C)"
    using dseg_set_next[OF seg(1) _ seg(5), of "hd_opt C"] by (cases "A = []") (simp_all add: h1_def)
  have segC: "dseg h1 (Some n) C None"
  proof (cases "A = []")
    case False
    then have "last A \<notin> set C" using seg(9) by (meson disjoint_iff last_in_set)
    with seg(4) False show ?thesis by (simp add: h1_def dseg_other)
  qed (use seg(4) in \<open>simp add: h1_def\<close>)
  have "dseg h2 None (A @ C) None"
  proof (cases "C = []")
    case True
    with segA show ?thesis by (simp add: h2_def hd_opt_def)
  next
    case False
    then have "hd C \<notin> set A" using seg(9) by (meson disjoint_iff list.set_sel(1))
    with segA False dseg_set_prev[OF segC False seg(6), of "last_opt A"] show ?thesis
      by (simp add: h2_def dseg_append dseg_other hd_opt_def last_opt_def split: if_splits)
  qed
  moreover have ord: "on_NodeOrder (h2 q) = on_NodeOrder (h q)" for q by (simp add: h2_def h1_def)
  ultimately have "level_ok ?lv h2 (A @ C)"
    using L(1-3,7,8) tot sz depth_of_cong[of "A @ C" h2 h]
    by (auto simp: level_ok_def hd_opt_def last_opt_def OrderNode_GetPrice_def)
  moreover have "links_only h h2 (set (A @ C))"
    using ord by (auto simp: links_only_def h2_def h1_def SetNext_def SetPrev_def)
  ultimately show ?thesis using step sz zero by auto
qed

section \<open>Properties\<close>

lemma PopOrder_DeleteOrder:
  assumes ok: "level_ok lv h (n # ns)"
  shows "PriceLevel_PopOrder lv h = (Some n, snd (PriceLevel_DeleteOrder n lv h))"
proof -
  have "pl_Head lv = Some n" "on_Prev (h n) = None" "on_Next (h n) = hd_opt ns"
    using ok by (simp_all add: level_ok_def hd_opt_def)
  moreover have "OrderNode_GetAmount ((SetPrev q None h) n) = OrderNode_GetAmount (h n)" for q
    by (simp add: SetPrev_def OrderNode_GetAmount_def)
  ultimately show ?thesis
    by (cases ns) (simp_all add: PriceLevel_PopOrder_def PriceLevel_DeleteOrder_def hd_opt_def Let_def)
qed

text \<open>A price level is a queue of orders: \<open>AddOrder\<close> appends, \<open>PopOrder\<close> removes the oldest, the links
  stay consistent in both directions, and size and total amount follow (the total in its low 32 bits).\<close>

theorem PriceLevel_add_then_pop:
  assumes "level_ok lv h (m # ns)" "n \<notin> set (m # ns)" "OrderNode_GetPrice (h n) = pl_Price lv" "Suc (length (m # ns)) < 2 ^ 64"
  shows "\<exists>lv1 h1 lv2 h2. PriceLevel_AddOrder n lv h = Some (lv1, h1) \<and> level_ok lv1 h1 (m # ns @ [n]) \<and>
    PriceLevel_PopOrder lv1 h1 = (Some m, lv2, h2) \<and> level_ok lv2 h2 (ns @ [n])"
proof -
  from AddOrder_level[OF assms] obtain lv1 h1 where
    1: "PriceLevel_AddOrder n lv h = Some (lv1, h1)" "level_ok lv1 h1 (m # ns @ [n])" by auto
  from DeleteOrder_level[of lv1 h1 "[]" m "ns @ [n]"] 1(2) obtain lv2 h2 where
    2: "PriceLevel_DeleteOrder m lv1 h1 = (False, lv2, h2)" "level_ok lv2 h2 (ns @ [n])" by auto
  show ?thesis using 1 2 PopOrder_DeleteOrder[OF 1(2)] by simp
qed

definition level_heap :: node_heap where
  "level_heap = (\<lambda>_. \<lparr> on_Prev = None, on_Next = None, on_NodeOrder = sample_order \<rparr>)"

theorem PriceLevel_add_then_pop_witness:
  "\<exists>lv h lv1 h1 lv2 h2. level_ok lv h [1] \<and> PriceLevel_AddOrder 2 lv h = Some (lv1, h1) \<and> PriceLevel_PopOrder lv1 h1 = (Some 1, lv2, h2) \<and>
     level_ok lv2 h2 [2]"
proof -
  have "level_ok (PriceLevel_init (- 5)) level_heap []"
    by (simp add: level_ok_def PriceLevel_init_def hd_opt_def last_opt_def depth_of_def)
  from AddOrder_level[OF this, of 1] obtain lv h where
    l: "level_ok lv h [1]" "links_only level_heap h {1}" "pl_Price lv = - 5"
    by (auto simp: level_heap_def OrderNode_GetPrice_def sample_order_def PriceLevel_init_def)
  have "(2 :: nat) \<notin> set [1]" "OrderNode_GetPrice (h 2) = pl_Price lv" "Suc (length [1 :: nat]) < 2 ^ 64"
    using l(2,3) by (simp_all add: links_only_def OrderNode_GetPrice_def level_heap_def sample_order_def)
  from PriceLevel_add_then_pop[OF l(1) this] l(1) show ?thesis unfolding append_Nil by blast
qed

end
