(* ===== verification/Order_Book.thy ===== *)
theory Order_Book
  imports Flat_Hash_Map Skip_List Price_Level
begin

text \<open>
  One side of the book, \<open>matching_engine/include/order_book.hpp\<close>: a hash map from price to level for
  direct access and a skip list of the levels in priority order, over the node pool, level pool and
  order-id map that both sides share.  The shared parts are the record \<open>BookStore\<close>.

  The levels of a side are described by a list of triples (price, level, nodes), best price first
  (\<open>side_ok\<close>); the shared store by the set of live nodes and the set of live levels
  (\<open>store_ok\<close>).  \<open>AddLimitOrder\<close> and \<open>DeleteOrder\<close> are shown to implement \<open>book_insert\<close> and
  \<open>book_remove\<close> on such lists, using only the contracts of the hash map, the skip list, the pools
  and the level.
\<close>

section \<open>State and operations\<close>

record BookStore =
  bs_OrderNodePool :: "OrderNode SingleThreadedStoragePool"
  bs_PriceLevelPool :: "PriceLevel SingleThreadedStoragePool"
  bs_OrderMap :: FlatHashMap

record OrderBook =
  bk_FastMap :: FlatHashMap
  bk_BestPricesMap :: SkipList

abbreviation nodes :: "BookStore \<Rightarrow> node_heap" where
  "nodes st \<equiv> stp_Storage (bs_OrderNodePool st)"

abbreviation levels :: "BookStore \<Rightarrow> ptr \<Rightarrow> PriceLevel" where
  "levels st \<equiv> stp_Storage (bs_PriceLevelPool st)"

definition set_nodes :: "node_heap \<Rightarrow> BookStore \<Rightarrow> BookStore" where
  "set_nodes h st = st \<lparr> bs_OrderNodePool := bs_OrderNodePool st \<lparr> stp_Storage := h \<rparr> \<rparr>"

definition set_level :: "ptr \<Rightarrow> PriceLevel \<Rightarrow> BookStore \<Rightarrow> BookStore" where
  "set_level l lv st = st \<lparr> bs_PriceLevelPool := bs_PriceLevelPool st \<lparr> stp_Storage := (levels st)(l := lv) \<rparr> \<rparr>"

definition OrderBook_GetBestLevel :: "OrderBook \<Rightarrow> ptr option option" where
  "OrderBook_GetBestLevel bk = SkipList_GetHead (bk_BestPricesMap bk)"

definition OrderBook_GetBestOffer :: "OrderBook \<Rightarrow> BookStore \<Rightarrow> ptr option option" where
  "OrderBook_GetBestOffer bk st = do {
     bestPrice \<leftarrow> SkipList_GetHead (bk_BestPricesMap bk);
     Some (case bestPrice of None \<Rightarrow> None | Some l \<Rightarrow> PriceLevel_PeekOrder (levels st l))
   }"

text \<open>A new level: acquire, clear, set the price, register it in both maps.\<close>

definition new_level :: "i64 \<Rightarrow> OrderBook \<Rightarrow> BookStore \<Rightarrow> (ptr option \<times> OrderBook \<times> BookStore) option" where
  "new_level key bk st = do {
     let (acquired, lp) = STPool_Acquire (bs_PriceLevelPool st);
     curPrice \<leftarrow> acquired;
     let st = st \<lparr> bs_PriceLevelPool := lp \<rparr>;
     (lv, np) \<leftarrow> PriceLevel_ClearPriceLevel (levels st curPrice) (bs_OrderNodePool st);
     let st = set_level curPrice (PriceLevel_SetPrice key lv) (st \<lparr> bs_OrderNodePool := np \<rparr>);
     fm \<leftarrow> FlatHashMap_AddNode (u64_of_i64 key) (Some curPrice) (bk_FastMap bk);
     sl \<leftarrow> SkipList_AddNode key (Some curPrice) (bk_BestPricesMap bk);
     Some (Some curPrice, bk \<lparr> bk_FastMap := fm, bk_BestPricesMap := sl \<rparr>, st)
   }"

definition OrderBook_AddLimitOrder :: "ptr \<Rightarrow> OrderBook \<Rightarrow> BookStore \<Rightarrow> (ptr \<times> OrderBook \<times> BookStore) option" where
  "OrderBook_AddLimitOrder order bk st = do {
     let key = OrderNode_GetPrice (nodes st order);
     (cur, bk, st) \<leftarrow> (case FlatHashMap_GetVal (u64_of_i64 key) (bk_FastMap bk) of
                          Some cur \<Rightarrow> Some (cur, bk, st)
                        | None \<Rightarrow> new_level key bk st);
     curPrice \<leftarrow> cur;
     (lv, h) \<leftarrow> PriceLevel_AddOrder order (levels st curPrice) (nodes st);
     Some (curPrice, bk, set_level curPrice lv (set_nodes h st))
   }"

text \<open>A refused release is only logged.\<close>

definition release_node :: "ptr \<Rightarrow> BookStore \<Rightarrow> BookStore" where
  "release_node order st =
     st \<lparr> bs_OrderNodePool := snd (STPool_Release (Some order) (bs_OrderNodePool st)) \<rparr>"

definition release_level :: "ptr \<Rightarrow> BookStore \<Rightarrow> BookStore" where
  "release_level l st =
     st \<lparr> bs_PriceLevelPool := snd (STPool_Release (Some l) (bs_PriceLevelPool st)) \<rparr>"

definition OrderBook_DeleteOrder ::
  "ptr \<Rightarrow> OrderBook \<Rightarrow> BookStore \<Rightarrow> (ptr option \<times> OrderBook \<times> BookStore) option" where
  "OrderBook_DeleteOrder order bk st = do {
     let key = OrderNode_GetPrice (nodes st order);
     om \<leftarrow> FlatHashMap_DeleteNode (ucast (OrderNode_GetId (nodes st order))) (bs_OrderMap st);
     let st = st \<lparr> bs_OrderMap := om \<rparr>;
     (case FlatHashMap_GetVal (u64_of_i64 key) (bk_FastMap bk) of
        None \<Rightarrow> Some (None, bk, release_node order st)
      | Some cur \<Rightarrow> do {
          curPrice \<leftarrow> cur;
          let (empty, lv, h) = PriceLevel_DeleteOrder order (levels st curPrice) (nodes st);
          let st = set_level curPrice lv (set_nodes h st);
          if empty
          then do {
            fm \<leftarrow> FlatHashMap_DeleteNode (u64_of_i64 key) (bk_FastMap bk);
            sl \<leftarrow> SkipList_DeleteNode key (bk_BestPricesMap bk);
            Some (None, bk \<lparr> bk_FastMap := fm, bk_BestPricesMap := sl \<rparr>, release_node order (release_level curPrice st))
          }
          else Some (Some curPrice, bk, release_node order st)
        })
   }"

section \<open>The levels of a side\<close>

type_synonym side = "(i64 \<times> ptr \<times> ptr list) list"

definition level_ptrs :: "side \<Rightarrow> ptr list" where
  "level_ptrs L = map (\<lambda>(p, l, ns). l) L"

definition node_ptrs :: "side \<Rightarrow> ptr list" where
  "node_ptrs L = concat (map (\<lambda>(p, l, ns). ns) L)"

definition side_ok :: "Compare \<Rightarrow> OrderBook \<Rightarrow> (ptr \<Rightarrow> PriceLevel) \<Rightarrow> node_heap \<Rightarrow> side \<Rightarrow> bool" where
  "side_ok c bk lh nh L \<longleftrightarrow>
     skip_rel c (bk_BestPricesMap bk) (map (\<lambda>(p, l, ns). (p, Some l)) L) \<and>
     fhm_inv (bk_FastMap bk) \<and>
     fhm_lookup (bk_FastMap bk) = map_of (map (\<lambda>(p, l, ns). (u64_of_i64 p, Some l)) L) \<and>
     distinct (level_ptrs L) \<and> distinct (node_ptrs L) \<and>
     (\<forall>(p, l, ns) \<in> set L. price_ok p \<and> ns \<noteq> [] \<and> pl_Price (lh l) = p \<and> level_ok (lh l) nh ns)"

definition node_id :: "node_heap \<Rightarrow> ptr \<Rightarrow> u64" where
  "node_id h n = ucast (OrderNode_GetId (h n))"

definition store_ok :: "BookStore \<Rightarrow> ptr set \<Rightarrow> ptr set \<Rightarrow> bool" where
  "store_ok st N V \<longleftrightarrow>
     stp_inv (bs_OrderNodePool st) \<and> stp_inv (bs_PriceLevelPool st) \<and>
     N \<subseteq> stp_all (bs_OrderNodePool st) - set (stp_free (bs_OrderNodePool st)) \<and>
     V \<subseteq> stp_all (bs_PriceLevelPool st) - set (stp_free (bs_PriceLevelPool st)) \<and>
     card (stp_all (bs_OrderNodePool st)) < 2 ^ 63 \<and>
     (\<forall>l \<in> set (stp_free (bs_PriceLevelPool st)). pl_Head (levels st l) = None) \<and>
     fhm_inv (bs_OrderMap st) \<and> inj_on (node_id (nodes st)) N \<and>
     (\<forall>k v. fhm_lookup (bs_OrderMap st) k = Some v \<longleftrightarrow> (\<exists>n \<in> N. v = Some n \<and> k = node_id (nodes st) n))"

definition book_insert :: "Compare \<Rightarrow> i64 \<Rightarrow> ptr \<Rightarrow> ptr \<Rightarrow> side \<Rightarrow> side" where
  "book_insert c p l n L =
     (if p \<in> fst ` set L then map (\<lambda>(q, k, ns). if q = p then (q, k, ns @ [n]) else (q, k, ns)) L
      else insert_by (comp c) p (l, [n]) L)"

definition book_remove :: "i64 \<Rightarrow> ptr \<Rightarrow> side \<Rightarrow> side" where
  "book_remove p n L =
     filter (\<lambda>(q, k, ns). ns \<noteq> [])
       (map (\<lambda>(q, k, ns). if q = p then (q, k, remove1 n ns) else (q, k, ns)) L)"

lemma side_okD:
  assumes "side_ok c bk lh nh L"
  shows "skip_rel c (bk_BestPricesMap bk) (map (\<lambda>(p, l, ns). (p, Some l)) L)"
    "fhm_inv (bk_FastMap bk)" "fhm_lookup (bk_FastMap bk) = map_of (map (\<lambda>(p, l, ns). (u64_of_i64 p, Some l)) L)"
    "distinct (level_ptrs L)" "distinct (node_ptrs L)"
    "(p, l, ns) \<in> set L \<Longrightarrow> price_ok p" "(p, l, ns) \<in> set L \<Longrightarrow> ns \<noteq> []"
    "(p, l, ns) \<in> set L \<Longrightarrow> pl_Price (lh l) = p" "(p, l, ns) \<in> set L \<Longrightarrow> level_ok (lh l) nh ns"
    "sorted_wrt (comp c) (map fst L)"
proof -
  show s: "skip_rel c (bk_BestPricesMap bk) (map (\<lambda>(p, l, ns). (p, Some l)) L)"
    "fhm_inv (bk_FastMap bk)" "fhm_lookup (bk_FastMap bk) = map_of (map (\<lambda>(p, l, ns). (u64_of_i64 p, Some l)) L)"
    "distinct (level_ptrs L)" "distinct (node_ptrs L)"
    using assms by (simp_all add: side_ok_def)
  have e: "\<forall>(p, l, ns) \<in> set L. price_ok p \<and> ns \<noteq> [] \<and> pl_Price (lh l) = p \<and> level_ok (lh l) nh ns"
    using assms by (simp add: side_ok_def)
  then show "(p, l, ns) \<in> set L \<Longrightarrow> price_ok p" "(p, l, ns) \<in> set L \<Longrightarrow> ns \<noteq> []"
    "(p, l, ns) \<in> set L \<Longrightarrow> pl_Price (lh l) = p" "(p, l, ns) \<in> set L \<Longrightarrow> level_ok (lh l) nh ns"
    by auto
  show "sorted_wrt (comp c) (map fst L)"
    using skip.sorted[OF s(1)] by (simp add: o_def split_beta)
qed

section \<open>Facts on sides\<close>

lemma price_ok_i64: "price_ok p \<Longrightarrow> in_i64 p"
  by (simp add: price_ok_def in_i64_def INT64_MIN_def INT64_MAX_def)

lemma u64_price_inject: "price_ok p \<Longrightarrow> price_ok q \<Longrightarrow> u64_of_i64 p = u64_of_i64 q \<longleftrightarrow> p = q"
  using u64_of_i64_inject price_ok_i64 by blast

lemma map_of_insert: "fst x \<notin> fst ` set A \<Longrightarrow> map_of (A @ x # C) = (map_of (A @ C))(fst x \<mapsto> snd x)"
  by (induction A) (auto simp: fun_upd_twist)

lemma insert_by_map:
  "map (\<lambda>(k, v). (k, f v)) (insert_by lt k v es) = insert_by lt k (f v) (map (\<lambda>(k, v). (k, f v)) es)"
  by (simp add: insert_by_def takeWhile_map dropWhile_map o_def split_beta)

lemma set_insert_by [simp]: "set (insert_by lt k v es) = insert (k, v) (set es)"
proof -
  have "set es = set (takeWhile (\<lambda>e. lt (fst e) k) es @ dropWhile (\<lambda>e. lt (fst e) k) es)" by simp
  then show ?thesis unfolding insert_by_def set_append by auto
qed

lemma side_distinct: "side_ok c bk lh nh L \<Longrightarrow> distinct (map fst L)"
  using side_okD(10) sorted_comp_distinct by blast

lemma side_lookup:
  assumes ok: "side_ok c bk lh nh L" and p: "price_ok p"
  shows "(p, l, ns) \<in> set L \<Longrightarrow> fhm_lookup (bk_FastMap bk) (u64_of_i64 p) = Some (Some l)"
    "p \<notin> fst ` set L \<Longrightarrow> fhm_lookup (bk_FastMap bk) (u64_of_i64 p) = None"
proof -
  let ?es = "map (\<lambda>(p, l, ns). (u64_of_i64 p, Some l)) L"
  note S = side_okD[OF ok]
  have inj: "u64_of_i64 q = u64_of_i64 p \<longleftrightarrow> q = p" if "(q, k, ms) \<in> set L" for q k ms
    using u64_price_inject[OF S(6)[OF that] p] .
  have "distinct (map fst ?es)"
  proof -
    have "inj_on u64_of_i64 (fst ` set L)"
      using S(6) u64_price_inject by (auto simp: inj_on_def)
    then show ?thesis using side_distinct[OF ok] by (simp add: o_def split_beta distinct_map comp_inj_on flip: image_comp)
        (simp add: inj_on_def)
  qed
  then show "fhm_lookup (bk_FastMap bk) (u64_of_i64 p) = Some (Some l)" if "(p, l, ns) \<in> set L"
    unfolding S(3) using that by (intro map_of_is_SomeI) (auto simp: image_iff intro!: bexI[of _ "(p, l, ns)"])
  show "fhm_lookup (bk_FastMap bk) (u64_of_i64 p) = None" if "p \<notin> fst ` set L"
  proof -
    have "fst ` set ?es = u64_of_i64 ` fst ` set L" by (simp add: image_image split_beta)
    moreover have "u64_of_i64 p \<notin> u64_of_i64 ` fst ` set L" using that inj by force
    ultimately show ?thesis unfolding S(3) map_of_eq_None_iff by simp
  qed
qed

lemma level_ok_frame:
  assumes "level_ok lv h ns" "\<And>n. n \<in> set ns \<Longrightarrow> h' n = h n"
  shows "level_ok lv h' ns"
  using assms dseg_frame[of ns h' h] depth_of_cong[of ns h' h] by (simp add: level_ok_def)

lemma node_ptrs_simps [simp]:
  "node_ptrs [] = []" "node_ptrs ((p, l, ns) # L) = ns @ node_ptrs L"
  "node_ptrs (L @ M) = node_ptrs L @ node_ptrs M"
  by (simp_all add: node_ptrs_def)

lemma level_ptrs_simps [simp]:
  "level_ptrs [] = []" "level_ptrs ((p, l, ns) # L) = l # level_ptrs L"
  "level_ptrs (L @ M) = level_ptrs L @ level_ptrs M"
  by (simp_all add: level_ptrs_def)

lemma in_side:
  assumes "(p, l, ns) \<in> set L"
  shows "l \<in> set (level_ptrs L)" "n \<in> set ns \<Longrightarrow> n \<in> set (node_ptrs L)"
  using assms by (auto simp: level_ptrs_def node_ptrs_def image_iff split_beta intro!: bexI[of _ "(p, l, ns)"])

lemma side_frame:
  assumes "side_ok c bk lh nh L" "\<And>n. n \<in> set (node_ptrs L) \<Longrightarrow> nh' n = nh n"
    "\<And>l. l \<in> set (level_ptrs L) \<Longrightarrow> lh' l = lh l"
  shows "side_ok c bk lh' nh' L"
proof -
  have "price_ok p \<and> ns \<noteq> [] \<and> pl_Price (lh' l) = p \<and> level_ok (lh' l) nh' ns" if e: "(p, l, ns) \<in> set L" for p l ns
    using side_okD[OF assms(1)] e assms(2,3) in_side[OF e] level_ok_frame[of "lh l" nh ns nh'] by auto
  with assms(1) show ?thesis by (auto simp: side_ok_def)
qed

text \<open>Replacing the nodes of one level.\<close>

lemma side_update:
  assumes ok: "side_ok c bk lh nh (X @ (p, l, ns) # Y)" and lv: "level_ok lv nh' ns'" "pl_Price lv = p" "ns' \<noteq> []"
    and d: "set ns' \<inter> set (node_ptrs (X @ Y)) = {}"
    and frame: "\<And>n. n \<in> set (node_ptrs (X @ Y)) \<Longrightarrow> nh' n = nh n"
  shows "side_ok c bk (lh(l := lv)) nh' (X @ (p, l, ns') # Y)"
proof -
  note S = side_okD[OF ok]
  have e: "price_ok q \<and> ms \<noteq> [] \<and> pl_Price ((lh(l := lv)) k) = q \<and> level_ok ((lh(l := lv)) k) nh' ms"
    if m: "(q, k, ms) \<in> set (X @ Y)" for q k ms
  proof -
    have kl: "k \<noteq> l" using S(4) in_side(1)[OF m] by auto
    have m': "(q, k, ms) \<in> set (X @ (p, l, ns) # Y)" using m by auto
    have "level_ok (lh k) nh' ms"
      by (rule level_ok_frame[OF S(9)[OF m']]) (rule frame, rule in_side(2)[OF m])
    then show ?thesis using S(6-8)[OF m'] kl by simp
  qed
  have "distinct ns'" using lv(1) by (simp add: level_ok_def)
  then have dn: "distinct (node_ptrs (X @ (p, l, ns') # Y))" using S(5) d by auto
  have "price_ok p" by (rule S(6)[of p l ns]) simp
  have all: "\<forall>(q, k, ms) \<in> set (X @ (p, l, ns') # Y).
      price_ok q \<and> ms \<noteq> [] \<and> pl_Price ((lh(l := lv)) k) = q \<and> level_ok ((lh(l := lv)) k) nh' ms"
  proof clarify
    fix q k ms assume "(q, k, ms) \<in> set (X @ (p, l, ns') # Y)"
    then consider "(q, k, ms) \<in> set (X @ Y)" | "q = p" "k = l" "ms = ns'" by auto
    then show "price_ok q \<and> ms \<noteq> [] \<and> pl_Price ((lh(l := lv)) k) = q \<and> level_ok ((lh(l := lv)) k) nh' ms"
    proof cases
      case 1
      then show ?thesis by (rule e)
    next
      case 2
      then show ?thesis using lv \<open>price_ok p\<close> by simp
    qed
  qed
  have "map (\<lambda>(p, l, ns). (p, Some l)) (X @ (p, l, ns') # Y) = map (\<lambda>(p, l, ns). (p, Some l)) (X @ (p, l, ns) # Y)"
    "map (\<lambda>(p, l, ns). (u64_of_i64 p, Some l)) (X @ (p, l, ns') # Y) =
     map (\<lambda>(p, l, ns). (u64_of_i64 p, Some l)) (X @ (p, l, ns) # Y)"
    "level_ptrs (X @ (p, l, ns') # Y) = level_ptrs (X @ (p, l, ns) # Y)" by simp_all
  with S(1-4) dn all show ?thesis unfolding side_ok_def by (simp only: simp_thms)
qed

lemma book_insert_split:
  assumes "distinct (map fst (X @ (p, l, ns) # Y))"
  shows "book_insert c p k n (X @ (p, l, ns) # Y) = X @ (p, l, ns @ [n]) # Y"
proof -
  have "map (\<lambda>(q, k, ns). if q = p then (q, k, ns @ [n]) else (q, k, ns)) Z = Z" if "p \<notin> fst ` set Z" for Z :: side
    using that by (intro map_idI) (auto simp: image_iff)
  with assms show ?thesis by (simp add: book_insert_def)
qed

lemma book_remove_split:
  assumes "distinct (map fst (X @ (p, l, ns) # Y))" "\<And>q k ms. (q, k, ms) \<in> set (X @ Y) \<Longrightarrow> ms \<noteq> []"
  shows "book_remove p n (X @ (p, l, ns) # Y) =
    (if remove1 n ns = [] then X @ Y else X @ (p, l, remove1 n ns) # Y)"
proof -
  have "map (\<lambda>(q, k, ns). if q = p then (q, k, remove1 n ns) else (q, k, ns)) Z = Z" if "p \<notin> fst ` set Z" for Z :: side
    using that by (intro map_idI) (auto simp: image_iff)
  moreover have "filter (\<lambda>(q, k, ns). ns \<noteq> []) X = X" "filter (\<lambda>(q, k, ns). ns \<noteq> []) Y = Y"
    using assms(2) by (auto simp: filter_id_conv)
  ultimately show ?thesis using assms(1) by (simp add: book_remove_def)
qed

section \<open>Facts on the store\<close>

lemma store_okD:
  assumes "store_ok st N V"
  shows "stp_inv (bs_OrderNodePool st)" "stp_inv (bs_PriceLevelPool st)"
    "N \<subseteq> stp_all (bs_OrderNodePool st) - set (stp_free (bs_OrderNodePool st))"
    "V \<subseteq> stp_all (bs_PriceLevelPool st) - set (stp_free (bs_PriceLevelPool st))"
    "card (stp_all (bs_OrderNodePool st)) < 2 ^ 63"
    "l \<in> set (stp_free (bs_PriceLevelPool st)) \<Longrightarrow> pl_Head (levels st l) = None"
    "fhm_inv (bs_OrderMap st)" "inj_on (node_id (nodes st)) N"
    "fhm_lookup (bs_OrderMap st) k = Some v \<longleftrightarrow> (\<exists>n \<in> N. v = Some n \<and> k = node_id (nodes st) n)"
  using assms by (simp_all add: store_ok_def)

lemma store_length:
  assumes "store_ok st N V" "distinct ns" "set ns \<subseteq> N"
  shows "length ns < 2 ^ 63"
proof -
  have "set ns \<subseteq> stp_all (bs_OrderNodePool st)" using assms store_okD(3) by blast
  then have "card (set ns) \<le> card (stp_all (bs_OrderNodePool st))"
    by (intro card_mono) (auto simp: stp_all_def)
  with assms(2) store_okD(5)[OF assms(1)] show ?thesis by (simp add: distinct_card)
qed

lemma set_pool_simps [simp]:
  "nodes (set_nodes h st) = h" "levels (set_nodes h st) = levels st"
  "levels (set_level l lv st) = (levels st)(l := lv)" "nodes (set_level l lv st) = nodes st"
  "bs_OrderMap (set_nodes h st) = bs_OrderMap st" "bs_OrderMap (set_level l lv st) = bs_OrderMap st"
  "stp_free (bs_OrderNodePool (set_nodes h st)) = stp_free (bs_OrderNodePool st)"
  "stp_free (bs_PriceLevelPool (set_level l lv st)) = stp_free (bs_PriceLevelPool st)"
  "stp_all (bs_OrderNodePool (set_nodes h st)) = stp_all (bs_OrderNodePool st)"
  "stp_all (bs_PriceLevelPool (set_level l lv st)) = stp_all (bs_PriceLevelPool st)"
  "stp_inv (bs_OrderNodePool (set_nodes h st)) = stp_inv (bs_OrderNodePool st)"
  "stp_inv (bs_PriceLevelPool (set_level l lv st)) = stp_inv (bs_PriceLevelPool st)"
  "bs_PriceLevelPool (set_nodes h st) = bs_PriceLevelPool st"
  "bs_OrderNodePool (set_level l lv st) = bs_OrderNodePool st"
  by (simp_all add: set_nodes_def set_level_def stp_free_def stp_all_def stp_inv_def)

lemma node_id_cong: "on_NodeOrder (h' n) = on_NodeOrder (h n) \<Longrightarrow> node_id h' n = node_id h n"
  by (simp add: node_id_def OrderNode_GetId_def)

lemma store_update:
  assumes st: "store_ok st N V" and l: "l \<in> V" and h: "\<And>n. node_id h n = node_id (nodes st) n"
  shows "store_ok (set_level l lv (set_nodes h st)) N V"
proof -
  note S = store_okD[OF st]
  from h have "node_id h = node_id (nodes st)" by (rule ext)
  moreover have "l \<notin> set (stp_free (bs_PriceLevelPool st))" using S(4) l by blast
  ultimately show ?thesis using S by (simp add: store_ok_def)
qed

text \<open>What an operation on one side leaves alone: nodes outside \<open>S\<close>, levels other than \<open>l\<close>, the
  contents of all orders and the set of free nodes.\<close>

definition store_frame :: "BookStore \<Rightarrow> BookStore \<Rightarrow> ptr set \<Rightarrow> ptr \<Rightarrow> bool" where
  "store_frame st st' S l \<longleftrightarrow> links_only (nodes st) (nodes st') S \<and> (\<forall>k. k \<noteq> l \<longrightarrow> levels st' k = levels st k)"

definition store_grows :: "BookStore \<Rightarrow> BookStore \<Rightarrow> bool" where
  "store_grows st st' \<longleftrightarrow> set (stp_free (bs_OrderNodePool st)) \<subseteq> set (stp_free (bs_OrderNodePool st')) \<and>
     set (stp_free (bs_PriceLevelPool st)) \<subseteq> set (stp_free (bs_PriceLevelPool st')) \<and>
     (\<forall>k. fhm_room (bs_OrderMap st) k \<longrightarrow> fhm_room (bs_OrderMap st') k) \<and>
     (\<forall>k. fhm_lookup (bs_OrderMap st) k = None \<longrightarrow> fhm_lookup (bs_OrderMap st') k = None)"

section \<open>Adding an order to a side\<close>

lemma AddLimitOrder_old:
  assumes side: "side_ok c bk (levels st) (nodes st) (X @ (p, l, ns) # Y)" and store: "store_ok st N V"
    and sub: "set (node_ptrs (X @ (p, l, ns) # Y)) \<subseteq> N" "l \<in> V"
    and n: "n \<notin> set (node_ptrs (X @ (p, l, ns) # Y))" "OrderNode_GetPrice (nodes st n) = p"
  shows "\<exists>st'. OrderBook_AddLimitOrder n bk st = Some (l, bk, st') \<and>
    side_ok c bk (levels st') (nodes st') (X @ (p, l, ns @ [n]) # Y) \<and> store_ok st' N V \<and>
    store_frame st st' (insert n (set ns)) l \<and> bs_OrderMap st' = bs_OrderMap st"
proof -
  note S = side_okD[OF side]
  have m: "(p, l, ns) \<in> set (X @ (p, l, ns) # Y)" by simp
  have get: "FlatHashMap_GetVal (u64_of_i64 p) (bk_FastMap bk) = Some (Some l)"
    using fhm.get_lookup[OF S(2)] side_lookup(1)[OF side S(6)[OF m] m] by simp
  have "distinct ns" using S(5) by simp
  then have len: "Suc (length ns) < 2 ^ 64" using store_length[OF store, of ns] sub by simp
  have n': "n \<notin> set ns" "OrderNode_GetPrice (nodes st n) = pl_Price (levels st l)"
    using n S(8)[OF m] by auto
  from AddOrder_level[OF S(9)[OF m] n' len] obtain lv h where
    a: "PriceLevel_AddOrder n (levels st l) (nodes st) = Some (lv, h)" "level_ok lv h (ns @ [n])"
      "links_only (nodes st) h (insert n (set ns))" "pl_Price lv = pl_Price (levels st l)" by blast
  let ?st = "set_level l lv (set_nodes h st)"
  have dj: "set ns \<inter> set (node_ptrs (X @ Y)) = {}" using S(5) by auto
  have "side_ok c bk ((levels st)(l := lv)) h (X @ (p, l, ns @ [n]) # Y)"
    using a(2-4) S(8)[OF m] n(1) dj by (intro side_update[OF side]) (auto simp: links_only_def)
  moreover have "store_ok ?st N V" using a(3) sub by (intro store_update[OF store] node_id_cong) (simp_all add: links_only_def)
  moreover have "OrderBook_AddLimitOrder n bk st = Some (l, bk, ?st)"
    using n(2) get a(1) by (simp add: OrderBook_AddLimitOrder_def)
  ultimately show ?thesis using a(3) by (intro exI[of _ ?st]) (simp add: store_frame_def)
qed

lemma ClearPriceLevel_empty:
  "pl_Head lv = None \<Longrightarrow> PriceLevel_ClearPriceLevel lv pool =
     Some (lv \<lparr> pl_Size := 0, pl_TotalAmount := 0, pl_Head := None, pl_Tail := None \<rparr>, pool)"
  by (simp add: PriceLevel_ClearPriceLevel_def release_nodes.simps)

lemma new_level_ok:
  assumes side: "side_ok c bk (levels st) nh L" and store: "store_ok st N V" and p: "price_ok p" "p \<notin> fst ` set L"
    and room: "fhm_room (bk_FastMap bk) (u64_of_i64 p)" "0 < skip_avail (bk_BestPricesMap bk)"
      "stp_free (bs_PriceLevelPool st) \<noteq> []"
  shows "\<exists>l bk' st'. new_level p bk st = Some (Some l, bk', st') \<and> l \<notin> V \<and> store_ok st' N (insert l V) \<and>
    skip_rel c (bk_BestPricesMap bk') (insert_by (comp c) p (Some l) (map (\<lambda>(p, l, ns). (p, Some l)) L)) \<and>
    fhm_inv (bk_FastMap bk') \<and> fhm_lookup (bk_FastMap bk') = (fhm_lookup (bk_FastMap bk))(u64_of_i64 p \<mapsto> Some l) \<and>
    level_ok (levels st' l) h [] \<and> pl_Price (levels st' l) = p \<and> (\<forall>k. k \<noteq> l \<longrightarrow> levels st' k = levels st k) \<and>
    nodes st' = nodes st \<and> bs_OrderMap st' = bs_OrderMap st"
proof -
  note S = side_okD[OF side] and T = store_okD[OF store]
  from stp.acquire_some[OF T(2) room(3)] obtain l lp where
    q: "STPool_Acquire (bs_PriceLevelPool st) = (Some l, lp)" "stp_inv lp" "l \<in> set (stp_free (bs_PriceLevelPool st))"
      "set (stp_free lp) = set (stp_free (bs_PriceLevelPool st)) - {l}" "stp_all lp = stp_all (bs_PriceLevelPool st)"
    by blast
  have ls: "stp_Storage lp = levels st" using STPool_Storage(1)[of "bs_PriceLevelPool st"] by (simp add: q)
  define lv where "lv = PriceLevel_SetPrice p ((levels st l) \<lparr> pl_Size := 0, pl_TotalAmount := 0, pl_Head := None, pl_Tail := None \<rparr>)"
  define st' where "st' = set_level l lv (st \<lparr> bs_PriceLevelPool := lp, bs_OrderNodePool := bs_OrderNodePool st \<rparr>)"
  from fhm.add_fresh[OF S(2) side_lookup(2)[OF side p] room(1), of "Some l"] obtain fm where
    fm: "FlatHashMap_AddNode (u64_of_i64 p) (Some l) (bk_FastMap bk) = Some fm" "fhm_inv fm"
      "fhm_lookup fm = (fhm_lookup (bk_FastMap bk))(u64_of_i64 p \<mapsto> Some l)" by blast
  have "p \<notin> fst ` set (map (\<lambda>(p, l, ns). (p, Some l)) L)" using p(2) by (auto simp: image_iff split_beta)
  from skip.add_fresh[OF S(1) p(1) this room(2), of "Some l"] obtain sl where
    sl: "SkipList_AddNode p (Some l) (bk_BestPricesMap bk) = Some sl"
      "skip_rel c sl (insert_by (comp c) p (Some l) (map (\<lambda>(p, l, ns). (p, Some l)) L))" by blast
  have "new_level p bk st = Some (Some l, bk \<lparr> bk_FastMap := fm, bk_BestPricesMap := sl \<rparr>, st')"
    using q(1) fm(1) sl(1) T(6)[OF q(3)]
    by (simp add: new_level_def ClearPriceLevel_empty ls lv_def st'_def)
  moreover have lall: "l \<in> stp_all (bs_PriceLevelPool st)" using q(3) stp.free_in_all[OF T(2)] by blast
  have lV: "l \<notin> V" using T(4) q(3) by blast
  have "store_ok st' N (insert l V)"
    using T q(2,4,5) lall ls lV unfolding store_ok_def by (auto simp: st'_def set_level_def stp_inv_def stp_free_def stp_all_def)
  moreover have "level_ok (levels st' l) h []" "pl_Price (levels st' l) = p"
    by (simp_all add: st'_def lv_def level_ok_def PriceLevel_SetPrice_def hd_opt_def last_opt_def depth_of_def)
  moreover have "levels st' k = levels st k" if "k \<noteq> l" for k using that by (simp add: st'_def ls)
  moreover have "nodes st' = nodes st" "bs_OrderMap st' = bs_OrderMap st" by (simp_all add: st'_def set_level_def)
  ultimately show ?thesis using fm sl lV
    by (intro exI[of _ l] exI[of _ "bk \<lparr> bk_FastMap := fm, bk_BestPricesMap := sl \<rparr>"] exI[of _ st']) simp
qed

lemma level_ptrs_insert_by: "set (level_ptrs (insert_by lt p (l, ns) L)) = insert l (set (level_ptrs L))"
  by (simp add: level_ptrs_def)

lemma insert_by_split: "\<exists>X Y. L = X @ Y \<and> insert_by lt p v L = X @ (p, v) # Y"
  unfolding insert_by_def by (metis takeWhile_dropWhile_id)

lemma side_insert_level:
  assumes side: "side_ok c bk lvs h L" and p: "price_ok p" "p \<notin> fst ` set L" and fresh: "l \<notin> set (level_ptrs L)" "n \<notin> set (node_ptrs L)"
    and skip: "skip_rel c (bk_BestPricesMap bk1) (insert_by (comp c) p (Some l) (map (\<lambda>(p, l, ns). (p, Some l)) L))"
    and fast: "fhm_inv (bk_FastMap bk1)" "fhm_lookup (bk_FastMap bk1) = (fhm_lookup (bk_FastMap bk))(u64_of_i64 p \<mapsto> Some l)"
    and level: "level_ok (lvs l) h [n]" "pl_Price (lvs l) = p"
  shows "side_ok c bk1 lvs h (insert_by (comp c) p (l, [n]) L)"
proof -
  note S = side_okD[OF side]
  let ?L = "insert_by (comp c) p (l, [n]) L" and ?fast = "map (\<lambda>(p, l, ns). (u64_of_i64 p, Some l))"
  obtain X Y where XY: "L = X @ Y" "?L = X @ (p, l, [n]) # Y" using insert_by_split[of L "comp c" p "(l, [n])"] by blast
  have k1: "skip_rel c (bk_BestPricesMap bk1) (map (\<lambda>(p, l, ns). (p, Some l)) ?L)"
    using skip insert_by_map[of "\<lambda>(l, ns). Some l" "comp c" p "(l, [n])" L] by (simp add: case_prod_unfold)
  have "u64_of_i64 p \<notin> fst ` set (?fast X)"
    using side_lookup(2)[OF side p] S(3) by (simp add: XY(1) map_of_eq_None_iff)
  then have "map_of (?fast (X @ (p, l, [n]) # Y)) = (map_of (?fast (X @ Y)))(u64_of_i64 p \<mapsto> Some l)"
    using map_of_insert[of "(u64_of_i64 p, Some l)" "?fast X"] by simp
  then have k2: "fhm_lookup (bk_FastMap bk1) = map_of (?fast ?L)" unfolding XY(2) fast(2) S(3) by (simp only: XY(1))
  have k3: "distinct (level_ptrs ?L)" "distinct (node_ptrs ?L)"
    using S(4,5) fresh unfolding XY(2) by (auto simp: XY(1))
  have k4: "\<forall>(q, k, ms) \<in> set ?L. price_ok q \<and> ms \<noteq> [] \<and> pl_Price (lvs k) = q \<and> level_ok (lvs k) h ms"
    using side level p(1) unfolding side_ok_def set_insert_by by simp
  show ?thesis unfolding side_ok_def using k1 k2 k3 k4 fast(1) by blast
qed

lemma AddLimitOrder_new:
  assumes side: "side_ok c bk (levels st) (nodes st) L" and store: "store_ok st N V"
    and sub: "set (node_ptrs L) \<subseteq> N" "set (level_ptrs L) \<subseteq> V"
    and n: "n \<notin> set (node_ptrs L)" "OrderNode_GetPrice (nodes st n) = p" and p: "price_ok p" "p \<notin> fst ` set L"
    and room: "fhm_room (bk_FastMap bk) (u64_of_i64 p)" "0 < skip_avail (bk_BestPricesMap bk)"
      "stp_free (bs_PriceLevelPool st) \<noteq> []"
  shows "\<exists>l bk' st'. OrderBook_AddLimitOrder n bk st = Some (l, bk', st') \<and> l \<notin> V \<and>
    side_ok c bk' (levels st') (nodes st') (insert_by (comp c) p (l, [n]) L) \<and> store_ok st' N (insert l V) \<and>
    store_frame st st' {n} l \<and> bs_OrderMap st' = bs_OrderMap st"
proof -
  note S = side_okD[OF side] and T = store_okD[OF store]
  from new_level_ok[OF side store p room, of "nodes st"] obtain l bk1 st1 where
    nl: "new_level p bk st = Some (Some l, bk1, st1)" "l \<notin> V" "store_ok st1 N (insert l V)"
      "skip_rel c (bk_BestPricesMap bk1) (insert_by (comp c) p (Some l) (map (\<lambda>(p, l, ns). (p, Some l)) L))"
      "fhm_inv (bk_FastMap bk1)" "fhm_lookup (bk_FastMap bk1) = (fhm_lookup (bk_FastMap bk))(u64_of_i64 p \<mapsto> Some l)"
      "level_ok (levels st1 l) (nodes st) []" "pl_Price (levels st1 l) = p"
      "\<And>k. k \<noteq> l \<Longrightarrow> levels st1 k = levels st k" "nodes st1 = nodes st" "bs_OrderMap st1 = bs_OrderMap st" by blast
  from AddOrder_level[OF nl(7), of n] n(2) nl(8) obtain lv h where
    a: "PriceLevel_AddOrder n (levels st1 l) (nodes st) = Some (lv, h)" "level_ok lv h [n]"
      "links_only (nodes st) h {n}" "pl_Price lv = p" by auto
  let ?st = "set_level l lv (set_nodes h st1)"
  let ?L = "insert_by (comp c) p (l, [n]) L"
  have get: "FlatHashMap_GetVal (u64_of_i64 p) (bk_FastMap bk) = None"
    using fhm.get_lookup[OF S(2)] side_lookup(2)[OF side p] by simp
  have "OrderBook_AddLimitOrder n bk st = Some (l, bk1, ?st)"
    using n(2) get nl(1,10) a(1) by (simp add: OrderBook_AddLimitOrder_def)
  moreover have "store_ok ?st N (insert l V)"
    using a(3) nl(10) by (intro store_update[OF nl(3)] node_id_cong) (simp_all add: links_only_def)
  moreover have lh: "levels ?st k = levels st k" if "k \<noteq> l" for k using that nl(9) by simp
  moreover have "side_ok c bk1 (levels ?st) (nodes ?st) ?L"
  proof (rule side_insert_level[OF _ p _ n(1) nl(4-6)])
    have lfresh: "l \<notin> set (level_ptrs L)" using nl(2) sub(2) by blast
    then show "l \<notin> set (level_ptrs L)" .
    show "side_ok c bk (levels ?st) (nodes ?st) L"
    proof (rule side_frame[OF side])
      fix m assume "m \<in> set (node_ptrs L)"
      with n(1) have "m \<noteq> n" by blast
      with a(3) show "nodes ?st m = nodes st m" by (simp add: links_only_def)
    next
      fix k assume "k \<in> set (level_ptrs L)"
      with lfresh have "k \<noteq> l" by blast
      then show "levels ?st k = levels st k" by (rule lh)
    qed
  qed (use a(2,4) in simp_all)
  ultimately show ?thesis
    using nl(2,10,11) a(3) by (intro exI[of _ l] exI[of _ bk1] exI[of _ ?st]) (simp add: store_frame_def)
qed

section \<open>Removing an order from a side\<close>

lemma release_node_ok:
  assumes st: "store_ok st N V" and n: "n \<in> N"
    and om: "fhm_inv om" "fhm_lookup om = (fhm_lookup (bs_OrderMap st))(node_id (nodes st) n := None)"
  shows "store_ok (release_node n (st \<lparr> bs_OrderMap := om \<rparr>)) (N - {n}) V"
    "nodes (release_node n (st \<lparr> bs_OrderMap := om \<rparr>)) = nodes st"
    "levels (release_node n (st \<lparr> bs_OrderMap := om \<rparr>)) = levels st"
    "set (stp_free (bs_OrderNodePool (release_node n (st \<lparr> bs_OrderMap := om \<rparr>)))) =
       insert n (set (stp_free (bs_OrderNodePool st)))"
    "bs_PriceLevelPool (release_node n (st \<lparr> bs_OrderMap := om \<rparr>)) = bs_PriceLevelPool st"
    "bs_OrderMap (release_node n (st \<lparr> bs_OrderMap := om \<rparr>)) = om"
proof -
  note T = store_okD[OF st]
  have "n \<in> stp_all (bs_OrderNodePool st)" "n \<notin> set (stp_free (bs_OrderNodePool st))" using T(3) n by auto
  from stp.release_out[OF T(1) this] obtain np where
    np: "STPool_Release (Some n) (bs_OrderNodePool st) = (True, np)" "stp_inv np"
      "set (stp_free np) = insert n (set (stp_free (bs_OrderNodePool st)))" "stp_all np = stp_all (bs_OrderNodePool st)"
    by blast
  have s: "stp_Storage np = nodes st" using STPool_Storage(2)[of "Some n" "bs_OrderNodePool st"] by (simp add: np(1))
  have uniq: "m = n" if "m \<in> N" "node_id (nodes st) m = node_id (nodes st) n" for m
    using T(8) n that by (simp add: inj_on_def)
  have look: "fhm_lookup om k = Some v \<longleftrightarrow> (\<exists>m \<in> N - {n}. v = Some m \<and> k = node_id (nodes st) m)" for k v
  proof (cases "k = node_id (nodes st) n")
    case True
    then show ?thesis using uniq by (auto simp: om(2))
  next
    case False
    then have "fhm_lookup om k = fhm_lookup (bs_OrderMap st) k" by (simp add: om(2))
    then show ?thesis using T(9)[of k v] False by auto
  qed
  have "inj_on (node_id (nodes st)) (N - {n})" using T(8) by (rule inj_on_subset) blast
  moreover have "N - {n} \<subseteq> stp_all np - set (stp_free np)" using T(3) np(3,4) by auto
  moreover have "release_node n (st \<lparr> bs_OrderMap := om \<rparr>) = st \<lparr> bs_OrderMap := om, bs_OrderNodePool := np \<rparr>"
    by (simp add: release_node_def np(1))
  ultimately show "store_ok (release_node n (st \<lparr> bs_OrderMap := om \<rparr>)) (N - {n}) V"
    using T(2,4-6) np(2,4) om(1) look unfolding store_ok_def by (simp add: s)
  show "nodes (release_node n (st \<lparr> bs_OrderMap := om \<rparr>)) = nodes st"
    "levels (release_node n (st \<lparr> bs_OrderMap := om \<rparr>)) = levels st"
    "set (stp_free (bs_OrderNodePool (release_node n (st \<lparr> bs_OrderMap := om \<rparr>)))) =
       insert n (set (stp_free (bs_OrderNodePool st)))"
    "bs_PriceLevelPool (release_node n (st \<lparr> bs_OrderMap := om \<rparr>)) = bs_PriceLevelPool st"
    "bs_OrderMap (release_node n (st \<lparr> bs_OrderMap := om \<rparr>)) = om"
    by (simp_all add: release_node_def np(1,3) s)
qed

lemma release_level_ok:
  assumes st: "store_ok st N V" and l: "l \<in> V" "pl_Head (levels st l) = None"
  shows "store_ok (release_level l st) N (V - {l})" "nodes (release_level l st) = nodes st"
    "levels (release_level l st) = levels st" "bs_OrderMap (release_level l st) = bs_OrderMap st"
    "set (stp_free (bs_PriceLevelPool (release_level l st))) = insert l (set (stp_free (bs_PriceLevelPool st)))"
    "bs_OrderNodePool (release_level l st) = bs_OrderNodePool st"
proof -
  note T = store_okD[OF st]
  have "l \<in> stp_all (bs_PriceLevelPool st)" "l \<notin> set (stp_free (bs_PriceLevelPool st))" using T(4) l by auto
  from stp.release_out[OF T(2) this] obtain lp where
    lp: "STPool_Release (Some l) (bs_PriceLevelPool st) = (True, lp)" "stp_inv lp"
      "set (stp_free lp) = insert l (set (stp_free (bs_PriceLevelPool st)))" "stp_all lp = stp_all (bs_PriceLevelPool st)"
    by blast
  have s: "stp_Storage lp = levels st" using STPool_Storage(2)[of "Some l" "bs_PriceLevelPool st"] by (simp add: lp(1))
  show "store_ok (release_level l st) N (V - {l})"
    using T lp l unfolding store_ok_def by (auto simp: release_level_def s)
  show "nodes (release_level l st) = nodes st" "levels (release_level l st) = levels st"
    "bs_OrderMap (release_level l st) = bs_OrderMap st"
    "set (stp_free (bs_PriceLevelPool (release_level l st))) = insert l (set (stp_free (bs_PriceLevelPool st)))"
    "bs_OrderNodePool (release_level l st) = bs_OrderNodePool st"
    by (simp_all add: release_level_def lp(1,3) s)
qed

lemma store_commute [simp]:
  "set_level l lv (set_nodes h (st \<lparr> bs_OrderMap := om \<rparr>)) = (set_level l lv (set_nodes h st)) \<lparr> bs_OrderMap := om \<rparr>"
  "release_level l (st \<lparr> bs_OrderMap := om \<rparr>) = (release_level l st) \<lparr> bs_OrderMap := om \<rparr>"
  by (simp_all add: set_level_def set_nodes_def release_level_def)

lemma side_drop_level:
  assumes side: "side_ok c bk lh nh (X @ (p, l, ns) # Y)"
  shows "\<exists>fm sl. FlatHashMap_DeleteNode (u64_of_i64 p) (bk_FastMap bk) = Some fm \<and>
    SkipList_DeleteNode p (bk_BestPricesMap bk) = Some sl \<and>
    side_ok c (bk \<lparr> bk_FastMap := fm, bk_BestPricesMap := sl \<rparr>) lh nh (X @ Y)"
proof -
  note S = side_okD[OF side]
  let ?es = "\<lambda>L. map (\<lambda>(p, l, ns). (p, Some l)) (L :: side)"
  let ?us = "\<lambda>L. map (\<lambda>(p, l, ns). (u64_of_i64 p, Some l)) (L :: side)"
  have m: "(p, l, ns) \<in> set (X @ (p, l, ns) # Y)" by simp
  have d: "distinct (map fst (X @ (p, l, ns) # Y))" by (rule side_distinct[OF side])
  from fhm.del_lookup[OF S(2), of "u64_of_i64 p"] obtain fm where
    fm: "FlatHashMap_DeleteNode (u64_of_i64 p) (bk_FastMap bk) = Some fm" "fhm_inv fm"
      "fhm_lookup fm = (fhm_lookup (bk_FastMap bk))(u64_of_i64 p := None)" by blast
  from skip.del_rel[OF S(1) S(6)[OF m]] obtain sl where
    sl: "SkipList_DeleteNode p (bk_BestPricesMap bk) = Some sl"
      "skip_rel c sl (filter (\<lambda>e. fst e \<noteq> p) (?es (X @ (p, l, ns) # Y)))" by blast
  have "filter (\<lambda>e. fst e \<noteq> p) (?es Z) = ?es Z" if "p \<notin> fst ` set Z" for Z
    using that by (auto simp: filter_id_conv image_iff split_beta)
  with d have f: "filter (\<lambda>e. fst e \<noteq> p) (?es (X @ (p, l, ns) # Y)) = ?es (X @ Y)" by simp
  have "distinct (map fst (?us (X @ (p, l, ns) # Y)))"
  proof -
    have "inj_on u64_of_i64 (set (map fst (X @ (p, l, ns) # Y)))"
      using S(6) u64_price_inject by (fastforce simp: inj_on_def)
    with d have "distinct (map u64_of_i64 (map fst (X @ (p, l, ns) # Y)))" by (simp only: distinct_map)
    then show ?thesis by (simp add: o_def split_beta)
  qed
  then have "map_of (?us (X @ Y)) = (map_of (?us (X @ (p, l, ns) # Y)))(u64_of_i64 p := None)"
    using map_of_remove[of "?us X" "(u64_of_i64 p, Some l)" "?us Y"] by simp
  then have "fhm_lookup fm = map_of (?us (X @ Y))" using fm(3) S(3) by simp
  moreover have "distinct (level_ptrs (X @ Y))" "distinct (node_ptrs (X @ Y))" using S(4,5) by auto
  moreover have "\<forall>(q, k, ms) \<in> set (X @ Y). price_ok q \<and> ms \<noteq> [] \<and> pl_Price (lh k) = q \<and> level_ok (lh k) nh ms"
    using side by (simp add: side_ok_def)
  ultimately show ?thesis
    using fm(1,2) sl unfolding f side_ok_def by (intro exI[of _ fm] exI[of _ sl]) simp
qed

text \<open>What a deletion does before it looks whether the level has become empty.\<close>

lemma DeleteOrder_start:
  assumes side: "side_ok c bk (levels st) (nodes st) (X @ (p, l, A @ n # C) # Y)" and store: "store_ok st N V"
    and sub: "set (node_ptrs (X @ (p, l, A @ n # C) # Y)) \<subseteq> N" "l \<in> V"
  obtains om lv h st0 where "st0 = set_level l lv (set_nodes h st)" "store_ok st0 N V" "fhm_inv om"
    "fhm_lookup om = (fhm_lookup (bs_OrderMap st0))(node_id (nodes st0) n := None)"
    "\<forall>k. fhm_room (bs_OrderMap st) k \<longrightarrow> fhm_room om k"
    "level_ok lv h (A @ C)" "links_only (nodes st) h (set (A @ C))" "pl_Price lv = p"
    "OrderBook_DeleteOrder n bk st =
      (if A @ C = []
       then do { fm \<leftarrow> FlatHashMap_DeleteNode (u64_of_i64 p) (bk_FastMap bk);
                 sl \<leftarrow> SkipList_DeleteNode p (bk_BestPricesMap bk);
                 Some (None, bk \<lparr> bk_FastMap := fm, bk_BestPricesMap := sl \<rparr>,
                       release_node n ((release_level l st0) \<lparr> bs_OrderMap := om \<rparr>)) }
       else Some (Some l, bk, release_node n (st0 \<lparr> bs_OrderMap := om \<rparr>)))"
proof -
  note S = side_okD[OF side] and T = store_okD[OF store]
  have m: "(p, l, A @ n # C) \<in> set (X @ (p, l, A @ n # C) # Y)" by simp
  note ok = S(9)[OF m]
  have price: "OrderNode_GetPrice (nodes st n) = p" using ok S(8)[OF m] by (simp add: level_ok_def)
  have get: "FlatHashMap_GetVal (u64_of_i64 p) (bk_FastMap bk) = Some (Some l)"
    using fhm.get_lookup[OF S(2)] side_lookup(1)[OF side S(6)[OF m] m] by simp
  from fhm.del_lookup[OF T(7), of "node_id (nodes st) n"] obtain om where
    om: "FlatHashMap_DeleteNode (node_id (nodes st) n) (bs_OrderMap st) = Some om" "fhm_inv om"
      "fhm_lookup om = (fhm_lookup (bs_OrderMap st))(node_id (nodes st) n := None)"
      "\<forall>k. fhm_room (bs_OrderMap st) k \<longrightarrow> fhm_room om k" by blast
  from DeleteOrder_level[OF ok] obtain lv h where
    d: "PriceLevel_DeleteOrder n (levels st l) (nodes st) = (A @ C = [], lv, h)" "level_ok lv h (A @ C)"
      "links_only (nodes st) h (set (A @ C))" "pl_Price lv = p" using S(8)[OF m] by auto
  define st0 where "st0 = set_level l lv (set_nodes h st)"
  have hN: "on_NodeOrder (h q) = on_NodeOrder (nodes st q)" for q using d(3) by (simp add: links_only_def)
  have s0: "store_ok st0 N V" unfolding st0_def by (rule store_update[OF store sub(2)]) (rule node_id_cong[OF hN])
  have "node_id (nodes st0) n = node_id (nodes st) n" by (rule node_id_cong) (simp add: st0_def hN)
  then have om0: "fhm_lookup om = (fhm_lookup (bs_OrderMap st0))(node_id (nodes st0) n := None)" using om(3) by (simp add: st0_def)
  show ?thesis
  proof (rule that[OF st0_def s0 om(2) om0 om(4) d(2-4)])
  qed (use om(1) get d(1) price in \<open>simp add: OrderBook_DeleteOrder_def node_id_def st0_def del: append_is_Nil_conv\<close>)
qed

lemma DeleteOrder_side:
  assumes side: "side_ok c bk (levels st) (nodes st) (X @ (p, l, A @ n # C) # Y)" and store: "store_ok st N V"
    and sub: "set (node_ptrs (X @ (p, l, A @ n # C) # Y)) \<subseteq> N" "l \<in> V"
  shows "\<exists>bk' st'. OrderBook_DeleteOrder n bk st = Some (if A @ C = [] then None else Some l, bk', st') \<and>
    side_ok c bk' (levels st') (nodes st') (if A @ C = [] then X @ Y else X @ (p, l, A @ C) # Y) \<and>
    store_ok st' (N - {n}) (if A @ C = [] then V - {l} else V) \<and> store_frame st st' (set (A @ C)) l \<and>
    (A @ C \<noteq> [] \<longrightarrow> level_ok (levels st' l) (nodes st') (A @ C)) \<and> store_grows st st'"
proof -
  note S = side_okD[OF side]
  have nN: "n \<in> N" using sub(1) by auto
  obtain om lv h st0 where
    st0: "st0 = set_level l lv (set_nodes h st)" and s0: "store_ok st0 N V" and om: "fhm_inv om"
      "fhm_lookup om = (fhm_lookup (bs_OrderMap st0))(node_id (nodes st0) n := None)"
      "\<forall>k. fhm_room (bs_OrderMap st) k \<longrightarrow> fhm_room om k"
    and d: "level_ok lv h (A @ C)" "links_only (nodes st) h (set (A @ C))" "pl_Price lv = p"
    and start: "OrderBook_DeleteOrder n bk st =
      (if A @ C = []
       then do { fm \<leftarrow> FlatHashMap_DeleteNode (u64_of_i64 p) (bk_FastMap bk);
                 sl \<leftarrow> SkipList_DeleteNode p (bk_BestPricesMap bk);
                 Some (None, bk \<lparr> bk_FastMap := fm, bk_BestPricesMap := sl \<rparr>,
                       release_node n ((release_level l st0) \<lparr> bs_OrderMap := om \<rparr>)) }
       else Some (Some l, bk, release_node n (st0 \<lparr> bs_OrderMap := om \<rparr>)))" by (rule DeleteOrder_start[OF side store sub])
  have n0: "nodes st0 = h" "levels st0 = (levels st)(l := lv)" "bs_OrderMap st0 = bs_OrderMap st"
    "stp_free (bs_OrderNodePool st0) = stp_free (bs_OrderNodePool st)"
    "stp_free (bs_PriceLevelPool st0) = stp_free (bs_PriceLevelPool st)" by (simp_all add: st0)
  have fr: "store_frame st st0 (set (A @ C)) l" using d(2) by (simp add: store_frame_def n0)
  have dj: "set (A @ C) \<inter> set (node_ptrs (X @ Y)) = {}" using S(5) by auto
  have rest: "h q = nodes st q" if "q \<in> set (node_ptrs (X @ Y))" for q
    using d(2) dj that by (auto simp: links_only_def)
  show ?thesis
  proof (cases "A @ C = []")
    case False
    note rn = release_node_ok[OF s0 nN om(1,2)]
    have "side_ok c bk ((levels st)(l := lv)) h (X @ (p, l, A @ C) # Y)"
      by (rule side_update[OF side d(1,3) False dj rest])
    then show ?thesis
      using False start rn fr d(1)
      by (intro exI[of _ bk] exI[of _ "release_node n (st0 \<lparr> bs_OrderMap := om \<rparr>)"])
        (auto simp: n0 om(2,3) store_frame_def store_grows_def simp del: append_is_Nil_conv)
  next
    case True
    have hd: "pl_Head (levels st0 l) = None" using d(1) True by (simp add: n0 level_ok_def hd_opt_def)
    note rl = release_level_ok[OF s0 sub(2) hd]
    have "fhm_lookup om = (fhm_lookup (bs_OrderMap (release_level l st0)))(node_id (nodes (release_level l st0)) n := None)"
      using om(2) by (simp add: rl)
    note rn = release_node_ok[OF rl(1) nN om(1) this]
    from side_drop_level[OF side] obtain fm sl where
      k: "FlatHashMap_DeleteNode (u64_of_i64 p) (bk_FastMap bk) = Some fm"
        "SkipList_DeleteNode p (bk_BestPricesMap bk) = Some sl"
        "side_ok c (bk \<lparr> bk_FastMap := fm, bk_BestPricesMap := sl \<rparr>) (levels st) (nodes st) (X @ Y)" by blast
    have lv': "((levels st)(l := lv)) k = levels st k" if "k \<in> set (level_ptrs (X @ Y))" for k
      using that S(4) by auto
    have "side_ok c (bk \<lparr> bk_FastMap := fm, bk_BestPricesMap := sl \<rparr>) ((levels st)(l := lv)) h (X @ Y)"
      by (rule side_frame[OF k(3) rest lv'])
    then show ?thesis
      using True start rn fr k(1,2)
      by (intro exI[of _ "bk \<lparr> bk_FastMap := fm, bk_BestPricesMap := sl \<rparr>"]
          exI[of _ "release_node n ((release_level l st0) \<lparr> bs_OrderMap := om \<rparr>)"])
        (auto simp: rl n0 om(2,3) store_frame_def store_grows_def)
  qed
qed

end
