(* ===== verification/Outbox.thy ===== *)
theory Outbox
  imports Storage_Pools
begin

text \<open>
  A pool of message objects together with the queue that carries pointers to them: the pair a
  thread uses to publish messages (\<open>OrderReportsPool\<close> with \<open>OutgoingOrders\<close> and
  \<open>OrderBookUpdatesPool\<close> with \<open>OutgoingBook\<close> in \<open>matching_engine/include/bid_ask.hpp\<close>).  The
  source repeats the sequence acquire, fill, push at every publication in three forms: without a
  test of the acquired pointer and with \<open>TryPush\<close> or \<open>Push\<close>, and with the test and \<open>TryPush\<close>.

  The locale \<open>pooled_queue\<close> is the client of both contracts, pool and queue: as long as every
  queued pointer is handed out and the queue has at least as many slots as the pool has objects, a
  push of a freshly acquired object succeeds and aliases nothing in the queue.
\<close>

section \<open>Publishing a message\<close>

record 'a outbox =
  ob_Pool :: "'a StoragePool"
  ob_Queue :: "ptr channel"

definition store_msg :: "ptr \<Rightarrow> 'a \<Rightarrow> 'a StoragePool \<Rightarrow> 'a StoragePool" where
  "store_msg x v p = p \<lparr> sp_Storage := (sp_Storage p)(x := v) \<rparr>"

text \<open>A null pointer returned by \<open>Acquire\<close> is dereferenced: \<open>None\<close>.\<close>

definition publish_try :: "'a \<Rightarrow> 'a outbox \<Rightarrow> 'a outbox option" where
  "publish_try v ob =
     (case StoragePool_Acquire (ob_Pool ob) of
        (None, _) \<Rightarrow> None
      | (Some x, p) \<Rightarrow>
          Some \<lparr> ob_Pool = store_msg x v p, ob_Queue = snd (Producer_TryPush x (ob_Queue ob)) \<rparr>)"

definition publish_block :: "'a \<Rightarrow> 'a outbox \<Rightarrow> 'a outbox option" where
  "publish_block v ob =
     (case StoragePool_Acquire (ob_Pool ob) of
        (None, _) \<Rightarrow> None
      | (Some x, p) \<Rightarrow>
          (case Producer_Push x (ob_Queue ob) of
             None \<Rightarrow> None
           | Some c \<Rightarrow> Some \<lparr> ob_Pool = store_msg x v p, ob_Queue = c \<rparr>))"

text \<open>The result of the guarded form says whether an object was available.\<close>

definition publish_guarded :: "'a \<Rightarrow> 'a outbox \<Rightarrow> bool \<times> 'a outbox" where
  "publish_guarded v ob =
     (case StoragePool_Acquire (ob_Pool ob) of
        (None, p) \<Rightarrow> (False, ob \<lparr> ob_Pool := p \<rparr>)
      | (Some x, p) \<Rightarrow>
          (True, \<lparr> ob_Pool = store_msg x v p, ob_Queue = snd (Producer_TryPush x (ob_Queue ob)) \<rparr>))"

section \<open>Pool and queue together\<close>

locale pooled_queue =
  pool: object_pool inv free all acquire release + fifo: bounded_fifo qinv items cap push pop
  for inv :: "'p \<Rightarrow> bool" and free all acquire release
    and qinv :: "'c \<Rightarrow> bool" and items :: "'c \<Rightarrow> ptr list" and cap push pop
begin

definition linked :: "'p \<Rightarrow> 'c \<Rightarrow> bool" where
  "linked p c \<longleftrightarrow> inv p \<and> qinv c \<and> distinct (items c) \<and> set (items c) \<subseteq> all p \<and>
     set (items c) \<inter> set (free p) = {} \<and> card (all p) \<le> cap c"

lemma acquire_push:
  assumes "linked p c" "free p \<noteq> []"
  shows "\<exists>x p' c'. acquire p = (Some x, p') \<and> push x c = (True, c') \<and> x \<notin> set (items c) \<and>
     items c' = items c @ [x] \<and> linked p' c' \<and> length (free p) = Suc (length (free p'))"
proof -
  from assms pool.acquire_some[of p] obtain x p' where
    a: "acquire p = (Some x, p')" "inv p'" "x \<in> set (free p)"
       "set (free p') = set (free p) - {x}" "all p' = all p" by (auto simp: linked_def)
  have x: "x \<notin> set (items c)" "x \<in> all p"
    using assms a(3) pool.free_in_all[of p] by (auto simp: linked_def)
  have "set (items c) \<subset> all p" using assms x by (auto simp: linked_def)
  then have "card (set (items c)) < card (all p)" by (intro psubset_card_mono pool.finite_all)
  then have room: "length (items c) < cap c"
    using assms by (simp add: linked_def distinct_card)
  from assms fifo.push_room[of c x] room obtain c' where
    c': "push x c = (True, c')" "qinv c'" "items c' = items c @ [x]" "cap c' = cap c"
    by (auto simp: linked_def)
  have "linked p' c'" using assms a c' x by (auto simp: linked_def)
  moreover have "length (free p) = Suc (length (free p'))"
    using a assms pool.free_distinct[of p] pool.free_distinct[of p']
    by (metis linked_def List.finite_set card_Suc_Diff1 distinct_card)
  ultimately show ?thesis using a c' x by blast
qed

lemma pop_release:
  assumes "linked p c" "items c = x # xs"
  shows "\<exists>c' p'. pop c = (Some x, c') \<and> release (Some x) p = (True, p') \<and> items c' = xs \<and> linked p' c' \<and>
     set (free p') = insert x (set (free p))"
proof -
  have l: "inv p" "qinv c" "distinct (x # xs)" "set (x # xs) \<subseteq> all p"
    "set (x # xs) \<inter> set (free p) = {}" "card (all p) \<le> cap c"
    using assms by (simp_all add: linked_def)
  from fifo.pop_some[OF l(2) assms(2)] obtain c' where
    c': "pop c = (Some x, c')" "qinv c'" "items c' = xs" "cap c' = cap c" by blast
  from pool.release_out[OF l(1), of x] l(4,5) obtain p' where
    p': "release (Some x) p = (True, p')" "inv p'" "set (free p') = insert x (set (free p))"
        "all p' = all p" by auto
  have "linked p' c'" using l c' p' by (auto simp: linked_def)
  with c' p' show ?thesis by blast
qed

end

interpretation mailbox: pooled_queue sp_inv sp_free sp_all StoragePool_Acquire StoragePool_Release
    channel_inv channel_items channel_cap Producer_TryPush Consumer_TryPop
  by unfold_locales

section \<open>Invariant and contents of an outbox\<close>

definition outbox_inv :: "'a outbox \<Rightarrow> bool" where
  "outbox_inv ob \<longleftrightarrow> sp_inv (ob_Pool ob) \<and> channel_inv (ob_Queue ob) \<and>
     distinct (channel_items (ob_Queue ob)) \<and> set (channel_items (ob_Queue ob)) \<subseteq> sp_all (ob_Pool ob) \<and>
     set (channel_items (ob_Queue ob)) \<inter> set (sp_free (ob_Pool ob)) = {} \<and>
     StoragePool_GetSize (ob_Pool ob) \<le> channel_cap (ob_Queue ob)"

definition outbox_msgs :: "'a outbox \<Rightarrow> 'a list" where
  "outbox_msgs ob = map (sp_Storage (ob_Pool ob)) (channel_items (ob_Queue ob))"

definition outbox_room :: "'a outbox \<Rightarrow> nat" where
  "outbox_room ob = length (sp_free (ob_Pool ob))"

lemma outbox_inv_linked: "outbox_inv ob \<longleftrightarrow> mailbox.linked (ob_Pool ob) (ob_Queue ob)"
  by (auto simp: outbox_inv_def mailbox.linked_def sp_all_def)

lemma store_msg_simps [simp]:
  "sp_free (store_msg x v p) = sp_free p" "sp_all (store_msg x v p) = sp_all p"
  "sp_inv (store_msg x v p) = sp_inv p" "sp_Storage (store_msg x v p) = (sp_Storage p)(x := v)"
  by (simp_all add: store_msg_def sp_inv_def sp_free_def sp_local_def sp_all_def StoragePool_GetSize_def)

lemma publish:
  assumes "outbox_inv ob" "0 < outbox_room ob"
  shows "\<exists>ob'. publish_try v ob = Some ob' \<and> publish_block v ob = Some ob' \<and>
     publish_guarded v ob = (True, ob') \<and> outbox_inv ob' \<and> outbox_msgs ob' = outbox_msgs ob @ [v] \<and>
     outbox_room ob = Suc (outbox_room ob')"
proof -
  from assms have "mailbox.linked (ob_Pool ob) (ob_Queue ob)" "sp_free (ob_Pool ob) \<noteq> []"
    by (auto simp: outbox_inv_linked outbox_room_def)
  from mailbox.acquire_push[OF this] obtain x p c where
    a: "StoragePool_Acquire (ob_Pool ob) = (Some x, p)"
    and pu: "Producer_TryPush x (ob_Queue ob) = (True, c)" and fr: "x \<notin> set (channel_items (ob_Queue ob))"
    and it: "channel_items c = channel_items (ob_Queue ob) @ [x]" and l: "mailbox.linked p c"
    and len: "length (sp_free (ob_Pool ob)) = Suc (length (sp_free p))" by blast
  let ?ob = "\<lparr> ob_Pool = store_msg x v p, ob_Queue = c \<rparr>"
  have st: "sp_Storage p = sp_Storage (ob_Pool ob)"
    using StoragePool_Storage(1)[of "ob_Pool ob"] by (simp add: a)
  have "outbox_inv ?ob" using l by (simp add: outbox_inv_linked mailbox.linked_def)
  moreover have "outbox_msgs ?ob = outbox_msgs ob @ [v]"
    using fr by (auto simp: outbox_msgs_def it st)
  moreover have "publish_try v ob = Some ?ob" "publish_block v ob = Some ?ob"
    "publish_guarded v ob = (True, ?ob)"
    by (simp_all add: publish_try_def publish_block_def publish_guarded_def a pu
        Producer_Push_of_TryPush[OF pu])
  ultimately show ?thesis using len by (simp add: outbox_room_def)
qed

end
