(* ===== verification/Bid_Ask.thy ===== *)
theory Bid_Ask
  imports Order_Book Outbox
begin

text \<open>
  The matching engine of one market, \<open>matching_engine/include/bid_ask.hpp\<close>: cancellation, the two
  sweeps of a marketable order against the opposite side, resting the remainder, and the dispatch of
  \<open>MarketExecutionLoop\<close> over a batch of orders.  The order state reports and the book updates go to
  two outboxes (a message pool with its queue); the node pool, level pool and order-id map are the
  shared store of the two sides.

  The \<open>while\<close> loops of the sweeps are partial functions (\<open>None\<close>: no end, or the process crashed).
  Amounts are 32-bit and wrap; products of an amount and a price are wrapped to 64 bits.
\<close>

section \<open>State\<close>

record BidAsk =
  ba_MarketAssetId :: u32
  ba_MarketPrice :: i64
  ba_BestAskPrice :: i64
  ba_BestBidPrice :: i64
  ba_ReportSequenceId :: u32
  ba_OrderBookSequenceId :: u32
  ba_Reports :: "OrderStateReport outbox"
  ba_Updates :: "OrderBookUpdate outbox"
  ba_Store :: BookStore
  ba_Bid :: OrderBook
  ba_Ask :: OrderBook

abbreviation asset16 :: "BidAsk \<Rightarrow> u16" where
  "asset16 b \<equiv> ucast (ba_MarketAssetId b)"

definition BidAsk_init ::
  "u32 \<Rightarrow> i64 \<Rightarrow> u32 \<Rightarrow> u32 \<Rightarrow> OrderStateReport outbox \<Rightarrow> OrderBookUpdate outbox \<Rightarrow> BookStore \<Rightarrow>
   OrderBook \<Rightarrow> OrderBook \<Rightarrow> BidAsk" where
  "BidAsk_init assetId initialPrice reportSeq bookSeq reports updates store bid ask =
     \<lparr> ba_MarketAssetId = assetId, ba_MarketPrice = initialPrice, ba_BestAskPrice = INT64_MAX,
       ba_BestBidPrice = INT64_MIN, ba_ReportSequenceId = reportSeq, ba_OrderBookSequenceId = bookSeq,
       ba_Reports = reports, ba_Updates = updates, ba_Store = store, ba_Bid = bid, ba_Ask = ask \<rparr>"

section \<open>Publishing\<close>

text \<open>The message is filled in with the current value of the sequence number, which is then
  incremented; when the guarded form finds no free object neither happens.\<close>

definition report_try :: "(u32 \<Rightarrow> OrderStateReport) \<Rightarrow> BidAsk \<Rightarrow> BidAsk option" where
  "report_try rep b = do {
     ob \<leftarrow> publish_try (rep (ba_ReportSequenceId b)) (ba_Reports b);
     Some (b \<lparr> ba_Reports := ob, ba_ReportSequenceId := ba_ReportSequenceId b + 1 \<rparr>)
   }"

definition report_block :: "(u32 \<Rightarrow> OrderStateReport) \<Rightarrow> BidAsk \<Rightarrow> BidAsk option" where
  "report_block rep b = do {
     ob \<leftarrow> publish_block (rep (ba_ReportSequenceId b)) (ba_Reports b);
     Some (b \<lparr> ba_Reports := ob, ba_ReportSequenceId := ba_ReportSequenceId b + 1 \<rparr>)
   }"

definition report_guarded :: "(u32 \<Rightarrow> OrderStateReport) \<Rightarrow> BidAsk \<Rightarrow> BidAsk" where
  "report_guarded rep b =
     (case publish_guarded (rep (ba_ReportSequenceId b)) (ba_Reports b) of
        (sent, ob) \<Rightarrow> b \<lparr> ba_Reports := ob,
          ba_ReportSequenceId := ba_ReportSequenceId b + (if sent then 1 else 0) \<rparr>)"

definition update_try :: "(u32 \<Rightarrow> OrderBookUpdate) \<Rightarrow> BidAsk \<Rightarrow> BidAsk option" where
  "update_try upd b = do {
     ob \<leftarrow> publish_try (upd (ba_OrderBookSequenceId b)) (ba_Updates b);
     Some (b \<lparr> ba_Updates := ob, ba_OrderBookSequenceId := ba_OrderBookSequenceId b + 1 \<rparr>)
   }"

definition update_block :: "(u32 \<Rightarrow> OrderBookUpdate) \<Rightarrow> BidAsk \<Rightarrow> BidAsk option" where
  "update_block upd b = do {
     ob \<leftarrow> publish_block (upd (ba_OrderBookSequenceId b)) (ba_Updates b);
     Some (b \<lparr> ba_Updates := ob, ba_OrderBookSequenceId := ba_OrderBookSequenceId b + 1 \<rparr>)
   }"

definition update_guarded :: "(u32 \<Rightarrow> OrderBookUpdate) \<Rightarrow> BidAsk \<Rightarrow> BidAsk" where
  "update_guarded upd b =
     (case publish_guarded (upd (ba_OrderBookSequenceId b)) (ba_Updates b) of
        (sent, ob) \<Rightarrow> b \<lparr> ba_Updates := ob,
          ba_OrderBookSequenceId := ba_OrderBookSequenceId b + (if sent then 1 else 0) \<rparr>)"

section \<open>Marketability and cancellation\<close>

definition IsMarketable :: "Order \<Rightarrow> BidAsk \<Rightarrow> bool" where
  "IsMarketable order b =
     (let is_market = (ord_Type order = MARKET); is_buy = (ord_Side order = BUY); price = ord_Price order;
          limit_marketable = (if is_buy then price \<ge> ba_BestAskPrice b else price \<le> ba_BestBidPrice b)
      in is_market \<or> limit_marketable)"

definition level_depth :: "BidAsk \<Rightarrow> ptr option \<Rightarrow> u32" where
  "level_depth b l = (case l of Some l \<Rightarrow> ucast (pl_TotalAmount (levels (ba_Store b) l)) | None \<Rightarrow> 0)"

text \<open>The cancellation of a resting order, the part behind the check of its owner.  The request
  reuses \<open>Amount\<close> for the identifier of the order to cancel.\<close>

definition CancelOrder_found :: "OrderSide \<Rightarrow> ptr \<Rightarrow> BidAsk \<Rightarrow> BidAsk option" where
  "CancelOrder_found side toCancel b = do {
     let node = nodes (ba_Store b) toCancel;
     let curPrice = OrderNode_GetPrice node;
     if side = BUY
     then do {
       b \<leftarrow> report_block (\<lambda>s. FillReport 0 0 (wrap64 (uint (OrderNode_GetAmount node) * OrderNode_GetPrice node)) s
              (OrderNode_GetClientId node) (OrderNode_GetId node) 0 (asset16 b) 0 CANCEL_STATE) b;
       (curLevel, bk, st) \<leftarrow> OrderBook_DeleteOrder toCancel (ba_Bid b) (ba_Store b);
       let b = b \<lparr> ba_Bid := bk, ba_Store := st \<rparr>;
       update_block (\<lambda>s. FillUpdate s (level_depth b curLevel) curPrice (asset16 b) ORDER_BOOK_UPDATE_BUY) b
     }
     else do {
       b \<leftarrow> report_block (\<lambda>s. FillReport 0 0 (uint (OrderNode_GetAmount node)) s
              (OrderNode_GetClientId node) (OrderNode_GetId node) 0 0 (asset16 b) CANCEL_STATE) b;
       (curLevel, bk, st) \<leftarrow> OrderBook_DeleteOrder toCancel (ba_Ask b) (ba_Store b);
       let b = b \<lparr> ba_Ask := bk, ba_Store := st \<rparr>;
       update_block (\<lambda>s. FillUpdate s (level_depth b curLevel) curPrice (asset16 b) ORDER_BOOK_UPDATE_SELL) b
     }
   }"

definition CancelOrder :: "OrderSide \<Rightarrow> Order \<Rightarrow> BidAsk \<Rightarrow> BidAsk option" where
  "CancelOrder side order b = do {
     target \<leftarrow> (case FlatHashMap_GetVal (ucast (ord_Amount order)) (bs_OrderMap (ba_Store b)) of
                  None \<Rightarrow> Some None
                | Some v \<Rightarrow> do {
                    n \<leftarrow> v;
                    Some (if OrderNode_GetClientId (nodes (ba_Store b) n) \<noteq> ord_ClientId order then None else Some n)
                  });
     (case target of
        None \<Rightarrow> report_try (\<lambda>s. FillReport 0 0 0 s (ord_ClientId order) (ucast (ord_OrderId order)) 0 0 0 REJECT) b
      | Some toCancel \<Rightarrow> CancelOrder_found side toCancel b)
   }"

section \<open>Resting an order\<close>

text \<open>When no node is free the order is dropped.\<close>

definition AddSellLimitOrder :: "Order \<Rightarrow> BidAsk \<Rightarrow> BidAsk option" where
  "AddSellLimitOrder order b =
     (let (acquired, np) = STPool_Acquire (bs_OrderNodePool (ba_Store b));
          st = (ba_Store b) \<lparr> bs_OrderNodePool := np \<rparr>
      in (case acquired of
            None \<Rightarrow> Some (b \<lparr> ba_Store := st \<rparr>)
          | Some toAdd \<Rightarrow> do {
              let st = set_nodes ((nodes st)(toAdd := OrderNode_SetOrder order (nodes st toAdd))) st;
              let b = b \<lparr> ba_BestAskPrice := min (ba_BestAskPrice b) (ord_Price order) \<rparr>;
              om \<leftarrow> FlatHashMap_AddNode (ucast (OrderNode_GetId (nodes st toAdd))) (Some toAdd) (bs_OrderMap st);
              (curLevel, bk, st) \<leftarrow> OrderBook_AddLimitOrder toAdd (ba_Ask b) (st \<lparr> bs_OrderMap := om \<rparr>);
              let b = b \<lparr> ba_Ask := bk, ba_Store := st \<rparr>;
              let b = report_guarded (\<lambda>s. FillReport 0 0 (uint (ord_Amount order)) s
                        (ord_ClientId order) (ucast (ord_OrderId order)) 0 0 (asset16 b) ADD) b;
              Some (update_guarded (\<lambda>s. FillUpdate s (level_depth b (Some curLevel))
                        (pl_Price (levels (ba_Store b) curLevel)) (asset16 b) ORDER_BOOK_UPDATE_SELL) b)
            }))"

definition AddBuyLimitOrder :: "Order \<Rightarrow> BidAsk \<Rightarrow> BidAsk option" where
  "AddBuyLimitOrder order b =
     (let (acquired, np) = STPool_Acquire (bs_OrderNodePool (ba_Store b));
          st = (ba_Store b) \<lparr> bs_OrderNodePool := np \<rparr>
      in (case acquired of
            None \<Rightarrow> Some (b \<lparr> ba_Store := st \<rparr>)
          | Some toAdd \<Rightarrow> do {
              let st = set_nodes ((nodes st)(toAdd := OrderNode_SetOrder order (nodes st toAdd))) st;
              let b = b \<lparr> ba_BestBidPrice := max (ba_BestBidPrice b) (ord_Price order) \<rparr>;
              om \<leftarrow> FlatHashMap_AddNode (ucast (OrderNode_GetId (nodes st toAdd))) (Some toAdd) (bs_OrderMap st);
              (curLevel, bk, st) \<leftarrow> OrderBook_AddLimitOrder toAdd (ba_Bid b) (st \<lparr> bs_OrderMap := om \<rparr>);
              let b = b \<lparr> ba_Bid := bk, ba_Store := st \<rparr>;
              let b = report_guarded (\<lambda>s. FillReport 0 0 (wrap64 (uint (ord_Amount order) * ord_Price order)) s
                        (ord_ClientId order) (ucast (ord_OrderId order)) 0 (asset16 b) 0 ADD) b;
              Some (update_guarded (\<lambda>s. FillUpdate s (level_depth b (Some curLevel))
                        (pl_Price (levels (ba_Store b) curLevel)) (asset16 b) ORDER_BOOK_UPDATE_BUY) b)
            }))"

definition AddLimitOrder :: "Order \<Rightarrow> BidAsk \<Rightarrow> BidAsk option" where
  "AddLimitOrder order b = (if ord_Side order = BUY then AddBuyLimitOrder order b else AddSellLimitOrder order b)"

section \<open>Sweeping the opposite side\<close>

text \<open>One iteration of the inner loop of \<open>FillBuyOrder\<close>: a trade of \<open>order\<close> with \<open>bestOffer\<close> at the
  level \<open>bestLevel\<close>.  The result is the next offer, the order, \<open>totalLocked\<close> and the engine.\<close>

definition FillBuy_trade ::
  "ptr \<Rightarrow> ptr \<Rightarrow> Order \<Rightarrow> i64 \<Rightarrow> BidAsk \<Rightarrow> (ptr option \<times> Order \<times> i64 \<times> BidAsk) option" where
  "FillBuy_trade bestLevel bestOffer order totalLocked b = do {
     let curOrderAmount = ord_Amount order;
     let curOfferAmount = OrderNode_GetAmount (nodes (ba_Store b) bestOffer);
     let tradedAmount = (if curOrderAmount < curOfferAmount then curOrderAmount else curOfferAmount);
     let orderAmount = curOrderAmount - tradedAmount;
     let offerAmount = curOfferAmount - tradedAmount;
     let b = b \<lparr> ba_MarketPrice := (if tradedAmount > 0 then OrderNode_GetPrice (nodes (ba_Store b) bestOffer)
                                     else ba_MarketPrice b) \<rparr>;
     let order = order \<lparr> ord_Amount := orderAmount \<rparr>;
     let h = nodes (ba_Store b);
     let st = set_nodes (h(bestOffer := OrderNode_SetAmount offerAmount (h bestOffer))) (ba_Store b);
     let soldDelta = - uint tradedAmount;
     let st = set_level bestLevel (PriceLevel_IncTotalAmount (uint (- tradedAmount)) (levels st bestLevel)) st;
     let b = b \<lparr> ba_Store := st \<rparr>;
     let totalLocked = wrap64 (totalLocked + wrap64 (soldDelta * ba_BestAskPrice b));
     b \<leftarrow> report_try (\<lambda>s. FillReport (uint tradedAmount) (wrap64 (soldDelta * ba_BestAskPrice b))
            (wrap64 (soldDelta * ba_BestAskPrice b)) s (ord_ClientId order) (ucast (ord_OrderId order)) 0
            (asset16 b) 0 (if ord_Amount order > 0 then PARTIAL_FILL else FILL)) b;
     let offer = nodes (ba_Store b) bestOffer;
     b \<leftarrow> report_try (\<lambda>s. FillReport (wrap64 (uint tradedAmount * ba_BestAskPrice b)) soldDelta soldDelta s
            (OrderNode_GetClientId offer) (OrderNode_GetId offer) 0 0 (asset16 b)
            (if OrderNode_GetAmount offer > 0 then PARTIAL_FILL else FILL)) b;
     b \<leftarrow> update_try (\<lambda>s. FillUpdate s (level_depth b (Some bestLevel)) (ba_BestAskPrice b) (asset16 b)
            ORDER_BOOK_UPDATE_SELL) b;
     if OrderNode_GetAmount offer = 0
     then do {
       let nxt = on_Next (nodes (ba_Store b) bestOffer);
       (_, bk, st) \<leftarrow> OrderBook_DeleteOrder bestOffer (ba_Ask b) (ba_Store b);
       Some (nxt, order, totalLocked, b \<lparr> ba_Ask := bk, ba_Store := st \<rparr>)
     }
     else Some (Some bestOffer, order, totalLocked, b)
   }"

partial_function (option) FillBuy_level ::
  "ptr \<Rightarrow> ptr option \<Rightarrow> Order \<Rightarrow> i64 \<Rightarrow> BidAsk \<Rightarrow> (Order \<times> i64 \<times> BidAsk) option" where
  "FillBuy_level bestLevel bestOffer order totalLocked b =
     (if ord_Amount order > 0 \<and> IsMarketable order b
      then (case bestOffer of
              None \<Rightarrow> Some (order, totalLocked, b)
            | Some offer \<Rightarrow> do {
                (nxt, order, totalLocked, b) \<leftarrow> FillBuy_trade bestLevel offer order totalLocked b;
                FillBuy_level bestLevel nxt order totalLocked b
              })
      else Some (order, totalLocked, b))"

partial_function (option) FillBuy_sweep :: "Order \<Rightarrow> i64 \<Rightarrow> BidAsk \<Rightarrow> (Order \<times> i64 \<times> BidAsk) option" where
  "FillBuy_sweep order totalLocked b =
     (if ord_Amount order > 0 \<and> IsMarketable order b
      then do {
        best \<leftarrow> OrderBook_GetBestLevel (ba_Ask b);
        (case best of
           None \<Rightarrow> Some (order, totalLocked, b)
         | Some bestLevel \<Rightarrow>
             (case PriceLevel_PeekOrder (levels (ba_Store b) bestLevel) of
                None \<Rightarrow> Some (order, totalLocked, b)
              | Some bestOffer \<Rightarrow>
                  (let b = b \<lparr> ba_BestAskPrice := pl_Price (levels (ba_Store b) bestLevel) \<rparr>
                   in if ba_BestAskPrice b > ord_Price order then Some (order, totalLocked, b)
                      else do {
                        (order, totalLocked, b) \<leftarrow> FillBuy_level bestLevel (Some bestOffer) order totalLocked b;
                        FillBuy_sweep order totalLocked b
                      })))
      }
      else Some (order, totalLocked, b))"

definition FillBuyOrder :: "Order \<Rightarrow> BidAsk \<Rightarrow> BidAsk option" where
  "FillBuyOrder order b = do {
     (order, totalLocked, b) \<leftarrow> FillBuy_sweep order (wrap64 (uint (ord_Amount order) * ord_Price order)) b;
     if ord_Amount order > 0
     then (if ord_Type order = LIMIT then AddBuyLimitOrder order b
           else report_block (\<lambda>s. FillReport 0 0 (wrap64 (- totalLocked)) s (ord_ClientId order)
                  (ucast (ord_OrderId order)) 0 (asset16 b) 0 CANCEL_STATE) b)
     else Some b
   }"

text \<open>The same for a sell order against the bids.\<close>

definition FillSell_trade ::
  "ptr \<Rightarrow> ptr \<Rightarrow> Order \<Rightarrow> i64 \<Rightarrow> BidAsk \<Rightarrow> (ptr option \<times> Order \<times> i64 \<times> BidAsk) option" where
  "FillSell_trade bestLevel bestOffer order totalLocked b = do {
     let curOrderAmount = ord_Amount order;
     let curOfferAmount = OrderNode_GetAmount (nodes (ba_Store b) bestOffer);
     let tradedAmount = (if curOrderAmount < curOfferAmount then curOrderAmount else curOfferAmount);
     let orderAmount = curOrderAmount - tradedAmount;
     let offerAmount = curOfferAmount - tradedAmount;
     let b = b \<lparr> ba_MarketPrice := (if tradedAmount > 0 then OrderNode_GetPrice (nodes (ba_Store b) bestOffer)
                                     else ba_MarketPrice b) \<rparr>;
     let order = order \<lparr> ord_Amount := orderAmount \<rparr>;
     let h = nodes (ba_Store b);
     let st = set_nodes (h(bestOffer := OrderNode_SetAmount offerAmount (h bestOffer))) (ba_Store b);
     let soldDelta = - uint tradedAmount;
     let st = set_level bestLevel (PriceLevel_IncTotalAmount (uint (- tradedAmount)) (levels st bestLevel)) st;
     let b = b \<lparr> ba_Store := st \<rparr>;
     let totalLocked = wrap64 (totalLocked + soldDelta);
     b \<leftarrow> report_try (\<lambda>s. FillReport (wrap64 (uint tradedAmount * ba_BestBidPrice b)) soldDelta soldDelta s
            (ord_ClientId order) (ucast (ord_OrderId order)) 0 0 (asset16 b)
            (if ord_Amount order > 0 then PARTIAL_FILL else FILL)) b;
     let offer = nodes (ba_Store b) bestOffer;
     b \<leftarrow> report_try (\<lambda>s. FillReport (uint tradedAmount) (wrap64 (soldDelta * ba_BestBidPrice b))
            (wrap64 (soldDelta * ba_BestBidPrice b)) s (OrderNode_GetClientId offer) (OrderNode_GetId offer) 0
            (asset16 b) 0 (if OrderNode_GetAmount offer > 0 then PARTIAL_FILL else FILL)) b;
     b \<leftarrow> update_try (\<lambda>s. FillUpdate s (level_depth b (Some bestLevel)) (ba_BestBidPrice b) (asset16 b)
            ORDER_BOOK_UPDATE_BUY) b;
     if OrderNode_GetAmount offer = 0
     then do {
       let nxt = on_Next (nodes (ba_Store b) bestOffer);
       (_, bk, st) \<leftarrow> OrderBook_DeleteOrder bestOffer (ba_Bid b) (ba_Store b);
       Some (nxt, order, totalLocked, b \<lparr> ba_Bid := bk, ba_Store := st \<rparr>)
     }
     else Some (Some bestOffer, order, totalLocked, b)
   }"

partial_function (option) FillSell_level ::
  "ptr \<Rightarrow> ptr option \<Rightarrow> Order \<Rightarrow> i64 \<Rightarrow> BidAsk \<Rightarrow> (Order \<times> i64 \<times> BidAsk) option" where
  "FillSell_level bestLevel bestOffer order totalLocked b =
     (if ord_Amount order > 0 \<and> IsMarketable order b
      then (case bestOffer of
              None \<Rightarrow> Some (order, totalLocked, b)
            | Some offer \<Rightarrow> do {
                (nxt, order, totalLocked, b) \<leftarrow> FillSell_trade bestLevel offer order totalLocked b;
                FillSell_level bestLevel nxt order totalLocked b
              })
      else Some (order, totalLocked, b))"

partial_function (option) FillSell_sweep :: "Order \<Rightarrow> i64 \<Rightarrow> BidAsk \<Rightarrow> (Order \<times> i64 \<times> BidAsk) option" where
  "FillSell_sweep order totalLocked b =
     (if ord_Amount order > 0 \<and> IsMarketable order b
      then do {
        best \<leftarrow> OrderBook_GetBestLevel (ba_Bid b);
        (case best of
           None \<Rightarrow> Some (order, totalLocked, b)
         | Some bestLevel \<Rightarrow>
             (case PriceLevel_PeekOrder (levels (ba_Store b) bestLevel) of
                None \<Rightarrow> Some (order, totalLocked, b)
              | Some bestOffer \<Rightarrow>
                  (let b = b \<lparr> ba_BestBidPrice := pl_Price (levels (ba_Store b) bestLevel) \<rparr>
                   in if ba_BestBidPrice b < ord_Price order then Some (order, totalLocked, b)
                      else do {
                        (order, totalLocked, b) \<leftarrow> FillSell_level bestLevel (Some bestOffer) order totalLocked b;
                        FillSell_sweep order totalLocked b
                      })))
      }
      else Some (order, totalLocked, b))"

definition FillSellOrder :: "Order \<Rightarrow> BidAsk \<Rightarrow> BidAsk option" where
  "FillSellOrder order b = do {
     (order, totalLocked, b) \<leftarrow> FillSell_sweep order (uint (ord_Amount order)) b;
     if ord_Amount order > 0
     then (if ord_Type order = LIMIT then AddSellLimitOrder order b
           else report_block (\<lambda>s. FillReport 0 0 (wrap64 (- totalLocked)) s (ord_ClientId order)
                  (ucast (ord_OrderId order)) 0 0 (asset16 b) CANCEL_STATE) b)
     else Some b
   }"

declare FillBuy_level.simps [code] FillBuy_sweep.simps [code] FillSell_level.simps [code] FillSell_sweep.simps [code]

section \<open>Dispatch\<close>

definition ExecuteMarketableOrder :: "Order \<Rightarrow> BidAsk \<Rightarrow> BidAsk option" where
  "ExecuteMarketableOrder order b =
     (if ord_Side order = BUY then FillBuyOrder order b else FillSellOrder order b)"

definition executeOrder :: "Order \<Rightarrow> BidAsk \<Rightarrow> BidAsk option" where
  "executeOrder order b = (if IsMarketable order b then ExecuteMarketableOrder order b else AddLimitOrder order b)"

definition handle_order :: "Order \<Rightarrow> BidAsk \<Rightarrow> BidAsk option" where
  "handle_order order b =
     (if ord_Action order = EXECUTE then executeOrder order b
      else if ord_Action order = CANCEL
      then (if ord_Side order = BUY then CancelOrder BUY order b else CancelOrder SELL order b)
      else Some b)"

fun handle_batch :: "Order list \<Rightarrow> BidAsk \<Rightarrow> BidAsk option" where
  "handle_batch [] b = Some b"
| "handle_batch (order # orders) b = do { b \<leftarrow> handle_order order b; handle_batch orders b }"

end
