(* ===== verification/Book_Spec.thy ===== *)
theory Book_Spec
  imports Wire_Types Skip_List
begin

text \<open>
  What a market promises, without pools, lists of pointers or hash maps: the resting orders of each
  side as one list in priority order (best price first, oldest first at a price), the two best-price
  bounds, and the messages published so far.  A marketable order trades with the head of the
  opposite list as long as it has amount left and the head's price is acceptable; the remainder of a
  limit order is inserted behind the orders of its own side that have the same or a better price.

  The theory proves the properties of this specification that the refinement in \<open>Matching\<close> transfers
  to the engine of \<open>bid_ask.hpp\<close>.
\<close>

section \<open>The specification\<close>

record abook =
  ab_Bids :: "Order list"
  ab_Asks :: "Order list"
  ab_BestAsk :: i64
  ab_BestBid :: i64
  ab_MarketPrice :: i64
  ab_ReportSeq :: u32
  ab_UpdateSeq :: u32
  ab_Reports :: "OrderStateReport list"
  ab_Updates :: "OrderBookUpdate list"

definition order_id32 :: "Order \<Rightarrow> u32" where
  "order_id32 o' = ucast (ord_OrderId o')"

definition depth_at :: "i64 \<Rightarrow> Order list \<Rightarrow> u32" where
  "depth_at p os = (\<Sum>o'\<leftarrow>os. if ord_Price o' = p then ord_Amount o' else 0)"

definition rest_order :: "Compare \<Rightarrow> Order \<Rightarrow> Order list \<Rightarrow> Order list" where
  "rest_order c o' os =
     takeWhile (\<lambda>x. \<not> comp c (ord_Price o') (ord_Price x)) os @ o' #
     dropWhile (\<lambda>x. \<not> comp c (ord_Price o') (ord_Price x)) os"

definition emit_report :: "(u32 \<Rightarrow> OrderStateReport) \<Rightarrow> abook \<Rightarrow> abook" where
  "emit_report r s = s \<lparr> ab_Reports := ab_Reports s @ [r (ab_ReportSeq s)], ab_ReportSeq := ab_ReportSeq s + 1 \<rparr>"

definition emit_update :: "(u32 \<Rightarrow> OrderBookUpdate) \<Rightarrow> abook \<Rightarrow> abook" where
  "emit_update u s = s \<lparr> ab_Updates := ab_Updates s @ [u (ab_UpdateSeq s)], ab_UpdateSeq := ab_UpdateSeq s + 1 \<rparr>"

definition fill_state :: "u32 \<Rightarrow> OrderState" where
  "fill_state left = (if left > 0 then PARTIAL_FILL else FILL)"

definition traded :: "Order \<Rightarrow> Order \<Rightarrow> u32" where
  "traded order offer = min (ord_Amount order) (ord_Amount offer)"

definition less_amount :: "u32 \<Rightarrow> Order \<Rightarrow> Order" where
  "less_amount t o' = o' \<lparr> ord_Amount := ord_Amount o' - t \<rparr>"

definition after_trade :: "u32 \<Rightarrow> Order \<Rightarrow> Order list \<Rightarrow> Order list" where
  "after_trade t offer rest =
     (if ord_Amount (less_amount t offer) = 0 then rest else less_amount t offer # rest)"

text \<open>The two reports of a trade: the buyer receives \<open>t\<close> units and pays \<open>t * p\<close>, the seller the converse.\<close>

definition buyer_report :: "u16 \<Rightarrow> u32 \<Rightarrow> i64 \<Rightarrow> Order \<Rightarrow> u32 \<Rightarrow> OrderStateReport" where
  "buyer_report asset t p o' s =
     FillReport (uint t) (wrap64 (- uint t * p)) (wrap64 (- uint t * p)) s (ord_ClientId o') (order_id32 o') 0
       asset 0 (fill_state (ord_Amount o'))"

definition seller_report :: "u16 \<Rightarrow> u32 \<Rightarrow> i64 \<Rightarrow> Order \<Rightarrow> u32 \<Rightarrow> OrderStateReport" where
  "seller_report asset t p o' s =
     FillReport (wrap64 (uint t * p)) (- uint t) (- uint t) s (ord_ClientId o') (order_id32 o') 0
       0 asset (fill_state (ord_Amount o'))"

definition trade_buy :: "u16 \<Rightarrow> Order \<Rightarrow> i64 \<Rightarrow> Order \<Rightarrow> Order list \<Rightarrow> abook \<Rightarrow> Order \<times> i64 \<times> abook" where
  "trade_buy asset order locked offer rest s =
     (let t = traded order offer; p = ord_Price offer; order = less_amount t order; offer' = less_amount t offer;
          s = s \<lparr> ab_MarketPrice := (if t > 0 then p else ab_MarketPrice s), ab_Asks := after_trade t offer rest \<rparr>;
          s = emit_report (buyer_report asset t p order) s;
          s = emit_report (seller_report asset t p offer') s;
          s = emit_update (\<lambda>q. FillUpdate q (depth_at p (after_trade t offer rest)) p asset ORDER_BOOK_UPDATE_SELL) s
      in (order, wrap64 (locked + wrap64 (- uint t * p)), s))"

definition trade_sell :: "u16 \<Rightarrow> Order \<Rightarrow> i64 \<Rightarrow> Order \<Rightarrow> Order list \<Rightarrow> abook \<Rightarrow> Order \<times> i64 \<times> abook" where
  "trade_sell asset order locked offer rest s =
     (let t = traded order offer; p = ord_Price offer; order = less_amount t order; offer' = less_amount t offer;
          s = s \<lparr> ab_MarketPrice := (if t > 0 then p else ab_MarketPrice s), ab_Bids := after_trade t offer rest \<rparr>;
          s = emit_report (seller_report asset t p order) s;
          s = emit_report (buyer_report asset t p offer') s;
          s = emit_update (\<lambda>q. FillUpdate q (depth_at p (after_trade t offer rest)) p asset ORDER_BOOK_UPDATE_BUY) s
      in (order, wrap64 (locked - uint t), s))"

text \<open>The sweeps recurse on the number of resting orders: a trade that leaves the incoming order with
  an amount has consumed the offer.\<close>

fun sweep_buy :: "nat \<Rightarrow> u16 \<Rightarrow> Order \<Rightarrow> i64 \<Rightarrow> abook \<Rightarrow> Order \<times> i64 \<times> abook" where
  "sweep_buy 0 asset order locked s = (order, locked, s)"
| "sweep_buy (Suc n) asset order locked s =
     (case ab_Asks s of
        [] \<Rightarrow> (order, locked, s)
      | offer # rest \<Rightarrow>
          if ord_Amount order = 0 then (order, locked, s)
          else (let s = s \<lparr> ab_BestAsk := ord_Price offer \<rparr>
                in if ord_Price offer > ord_Price order then (order, locked, s)
                   else (case trade_buy asset order locked offer rest s of
                           (order, locked, s) \<Rightarrow> sweep_buy n asset order locked s)))"

fun sweep_sell :: "nat \<Rightarrow> u16 \<Rightarrow> Order \<Rightarrow> i64 \<Rightarrow> abook \<Rightarrow> Order \<times> i64 \<times> abook" where
  "sweep_sell 0 asset order locked s = (order, locked, s)"
| "sweep_sell (Suc n) asset order locked s =
     (case ab_Bids s of
        [] \<Rightarrow> (order, locked, s)
      | offer # rest \<Rightarrow>
          if ord_Amount order = 0 then (order, locked, s)
          else (let s = s \<lparr> ab_BestBid := ord_Price offer \<rparr>
                in if ord_Price offer < ord_Price order then (order, locked, s)
                   else (case trade_sell asset order locked offer rest s of
                           (order, locked, s) \<Rightarrow> sweep_sell n asset order locked s)))"

definition spec_add_buy :: "u16 \<Rightarrow> Order \<Rightarrow> abook \<Rightarrow> abook" where
  "spec_add_buy asset order s =
     (let s = s \<lparr> ab_BestBid := max (ab_BestBid s) (ord_Price order), ab_Bids := rest_order Greater order (ab_Bids s) \<rparr>;
          s = emit_report (\<lambda>q. FillReport 0 0 (wrap64 (uint (ord_Amount order) * ord_Price order)) q
                (ord_ClientId order) (order_id32 order) 0 asset 0 ADD) s
      in emit_update (\<lambda>q. FillUpdate q (depth_at (ord_Price order) (ab_Bids s)) (ord_Price order) asset
           ORDER_BOOK_UPDATE_BUY) s)"

definition spec_add_sell :: "u16 \<Rightarrow> Order \<Rightarrow> abook \<Rightarrow> abook" where
  "spec_add_sell asset order s =
     (let s = s \<lparr> ab_BestAsk := min (ab_BestAsk s) (ord_Price order), ab_Asks := rest_order Less order (ab_Asks s) \<rparr>;
          s = emit_report (\<lambda>q. FillReport 0 0 (uint (ord_Amount order)) q
                (ord_ClientId order) (order_id32 order) 0 0 asset ADD) s
      in emit_update (\<lambda>q. FillUpdate q (depth_at (ord_Price order) (ab_Asks s)) (ord_Price order) asset
           ORDER_BOOK_UPDATE_SELL) s)"

definition spec_fill_buy :: "u16 \<Rightarrow> Order \<Rightarrow> abook \<Rightarrow> abook" where
  "spec_fill_buy asset order s =
     (case sweep_buy (Suc (length (ab_Asks s))) asset order (wrap64 (uint (ord_Amount order) * ord_Price order)) s of
        (order, locked, s) \<Rightarrow>
          if ord_Amount order = 0 then s
          else if ord_Type order = LIMIT then spec_add_buy asset order s
          else emit_report (\<lambda>q. FillReport 0 0 (wrap64 (- locked)) q (ord_ClientId order) (order_id32 order) 0
                 asset 0 CANCEL_STATE) s)"

definition spec_fill_sell :: "u16 \<Rightarrow> Order \<Rightarrow> abook \<Rightarrow> abook" where
  "spec_fill_sell asset order s =
     (case sweep_sell (Suc (length (ab_Bids s))) asset order (uint (ord_Amount order)) s of
        (order, locked, s) \<Rightarrow>
          if ord_Amount order = 0 then s
          else if ord_Type order = LIMIT then spec_add_sell asset order s
          else emit_report (\<lambda>q. FillReport 0 0 (wrap64 (- locked)) q (ord_ClientId order) (order_id32 order) 0
                 0 asset CANCEL_STATE) s)"

definition spec_marketable :: "Order \<Rightarrow> abook \<Rightarrow> bool" where
  "spec_marketable order s \<longleftrightarrow> ord_Type order = MARKET \<or>
     (if ord_Side order = BUY then ord_Price order \<ge> ab_BestAsk s else ord_Price order \<le> ab_BestBid s)"

definition spec_execute :: "u16 \<Rightarrow> Order \<Rightarrow> abook \<Rightarrow> abook" where
  "spec_execute asset order s =
     (if spec_marketable order s
      then (if ord_Side order = BUY then spec_fill_buy asset order s else spec_fill_sell asset order s)
      else (if ord_Side order = BUY then spec_add_buy asset order s else spec_add_sell asset order s))"

definition spec_reject :: "Order \<Rightarrow> abook \<Rightarrow> abook" where
  "spec_reject req s =
     emit_report (\<lambda>q. FillReport 0 0 0 q (ord_ClientId req) (order_id32 req) 0 0 0 REJECT) s"

definition remove_id :: "u32 \<Rightarrow> Order list \<Rightarrow> Order list" where
  "remove_id i os = filter (\<lambda>o'. order_id32 o' \<noteq> i) os"

definition spec_cancel_buy :: "u16 \<Rightarrow> Order \<Rightarrow> abook \<Rightarrow> abook" where
  "spec_cancel_buy asset target s =
     (let s = emit_report (\<lambda>q. FillReport 0 0 (wrap64 (uint (ord_Amount target) * ord_Price target)) q
                (ord_ClientId target) (order_id32 target) 0 asset 0 CANCEL_STATE) s;
          s = s \<lparr> ab_Bids := remove_id (order_id32 target) (ab_Bids s) \<rparr>
      in emit_update (\<lambda>q. FillUpdate q (depth_at (ord_Price target) (ab_Bids s)) (ord_Price target) asset
           ORDER_BOOK_UPDATE_BUY) s)"

definition spec_cancel_sell :: "u16 \<Rightarrow> Order \<Rightarrow> abook \<Rightarrow> abook" where
  "spec_cancel_sell asset target s =
     (let s = emit_report (\<lambda>q. FillReport 0 0 (uint (ord_Amount target)) q
                (ord_ClientId target) (order_id32 target) 0 0 asset CANCEL_STATE) s;
          s = s \<lparr> ab_Asks := remove_id (order_id32 target) (ab_Asks s) \<rparr>
      in emit_update (\<lambda>q. FillUpdate q (depth_at (ord_Price target) (ab_Asks s)) (ord_Price target) asset
           ORDER_BOOK_UPDATE_SELL) s)"

lemma depth_at_simps [simp]:
  "depth_at p [] = 0" "depth_at p (o' # os) = (if ord_Price o' = p then ord_Amount o' else 0) + depth_at p os"
  "depth_at p (os @ os') = depth_at p os + depth_at p os'"
  by (simp_all add: depth_at_def)

end
