(* ===== verification/Matching.thy ===== *)
theory Matching
  imports Bid_Ask Book_Spec
begin

text \<open>
  The engine of \<open>Bid_Ask\<close> refines the specification of \<open>Book_Spec\<close>.  \<open>ba_inv b LB LA\<close> says that the
  lists of levels \<open>LB\<close> and \<open>LA\<close> describe the two sides of \<open>b\<close>, that they share the store without
  overlap, and that the two best-price fields bound the resting prices; \<open>book_abs\<close> reads off the
  abstract book.  Every operation of the engine is shown to return (no crash and no endless loop), to
  re-establish the invariant and to have the effect of its specification, under hypotheses on the
  resources it needs: free message objects and, to rest an order, a free node, a free level and room
  in the two hash maps.
\<close>

section \<open>Invariant and abstraction\<close>

definition orders_of :: "node_heap \<Rightarrow> side \<Rightarrow> Order list" where
  "orders_of h L = map (\<lambda>n. on_NodeOrder (h n)) (node_ptrs L)"

abbreviation asks :: "BidAsk \<Rightarrow> side \<Rightarrow> Order list" where
  "asks b LA \<equiv> orders_of (nodes (ba_Store b)) LA"

definition two_sides :: "Compare \<Rightarrow> OrderBook \<Rightarrow> side \<Rightarrow> Compare \<Rightarrow> OrderBook \<Rightarrow> side \<Rightarrow> BookStore \<Rightarrow> bool" where
  "two_sides c bk L c' bk' L' st \<longleftrightarrow>
     side_ok c bk (levels st) (nodes st) L \<and> side_ok c' bk' (levels st) (nodes st) L' \<and>
     store_ok st (set (node_ptrs L) \<union> set (node_ptrs L')) (set (level_ptrs L) \<union> set (level_ptrs L')) \<and>
     set (node_ptrs L) \<inter> set (node_ptrs L') = {} \<and> set (level_ptrs L) \<inter> set (level_ptrs L') = {}"

abbreviation book_store_ok :: "BidAsk \<Rightarrow> side \<Rightarrow> side \<Rightarrow> bool" where
  "book_store_ok b LB LA \<equiv> two_sides Greater (ba_Bid b) LB Less (ba_Ask b) LA (ba_Store b)"

definition ba_inv :: "BidAsk \<Rightarrow> side \<Rightarrow> side \<Rightarrow> bool" where
  "ba_inv b LB LA \<longleftrightarrow> book_store_ok b LB LA \<and> outbox_inv (ba_Reports b) \<and> outbox_inv (ba_Updates b) \<and>
     (\<forall>e \<in> set LA. ba_BestAskPrice b \<le> fst e) \<and> (\<forall>e \<in> set LB. fst e \<le> ba_BestBidPrice b)"

definition book_abs :: "BidAsk \<Rightarrow> side \<Rightarrow> side \<Rightarrow> abook" where
  "book_abs b LB LA =
     \<lparr> ab_Bids = orders_of (nodes (ba_Store b)) LB, ab_Asks = orders_of (nodes (ba_Store b)) LA,
       ab_BestAsk = ba_BestAskPrice b, ab_BestBid = ba_BestBidPrice b, ab_MarketPrice = ba_MarketPrice b,
       ab_ReportSeq = ba_ReportSequenceId b, ab_UpdateSeq = ba_OrderBookSequenceId b,
       ab_Reports = outbox_msgs (ba_Reports b), ab_Updates = outbox_msgs (ba_Updates b) \<rparr>"

abbreviation report_room :: "BidAsk \<Rightarrow> nat" where
  "report_room b \<equiv> outbox_room (ba_Reports b)"

abbreviation update_room :: "BidAsk \<Rightarrow> nat" where
  "update_room b \<equiv> outbox_room (ba_Updates b)"

section \<open>Publishing\<close>

lemma report_ok:
  assumes "ba_inv b LB LA" "0 < report_room b"
  shows "\<exists>ob. report_try r b = Some (b \<lparr> ba_Reports := ob, ba_ReportSequenceId := ba_ReportSequenceId b + 1 \<rparr>) \<and>
    report_block r b = Some (b \<lparr> ba_Reports := ob, ba_ReportSequenceId := ba_ReportSequenceId b + 1 \<rparr>) \<and>
    report_guarded r b = b \<lparr> ba_Reports := ob, ba_ReportSequenceId := ba_ReportSequenceId b + 1 \<rparr> \<and>
    outbox_inv ob \<and> outbox_msgs ob = outbox_msgs (ba_Reports b) @ [r (ba_ReportSequenceId b)] \<and>
    report_room b = Suc (outbox_room ob)"
proof -
  have "outbox_inv (ba_Reports b)" using assms(1) by (simp add: ba_inv_def)
  from publish[OF this assms(2), of "r (ba_ReportSequenceId b)"] show ?thesis
    by (auto simp: report_try_def report_block_def report_guarded_def)
qed

lemma update_ok:
  assumes "ba_inv b LB LA" "0 < update_room b"
  shows "\<exists>ob. update_try u b = Some (b \<lparr> ba_Updates := ob, ba_OrderBookSequenceId := ba_OrderBookSequenceId b + 1 \<rparr>) \<and>
    update_block u b = Some (b \<lparr> ba_Updates := ob, ba_OrderBookSequenceId := ba_OrderBookSequenceId b + 1 \<rparr>) \<and>
    update_guarded u b = b \<lparr> ba_Updates := ob, ba_OrderBookSequenceId := ba_OrderBookSequenceId b + 1 \<rparr> \<and>
    outbox_inv ob \<and> outbox_msgs ob = outbox_msgs (ba_Updates b) @ [u (ba_OrderBookSequenceId b)] \<and>
    update_room b = Suc (outbox_room ob)"
proof -
  have "outbox_inv (ba_Updates b)" using assms(1) by (simp add: ba_inv_def)
  from publish[OF this assms(2), of "u (ba_OrderBookSequenceId b)"] show ?thesis
    by (auto simp: update_try_def update_block_def update_guarded_def)
qed

lemma book_abs_report:
  assumes "ba_inv b LB LA" "outbox_inv ob" "outbox_msgs ob = outbox_msgs (ba_Reports b) @ [r (ba_ReportSequenceId b)]"
  shows "ba_inv (b \<lparr> ba_Reports := ob, ba_ReportSequenceId := ba_ReportSequenceId b + 1 \<rparr>) LB LA"
    "book_abs (b \<lparr> ba_Reports := ob, ba_ReportSequenceId := ba_ReportSequenceId b + 1 \<rparr>) LB LA =
     emit_report r (book_abs b LB LA)"
  using assms by (simp_all add: ba_inv_def book_abs_def emit_report_def)

lemma book_abs_update:
  assumes "ba_inv b LB LA" "outbox_inv ob" "outbox_msgs ob = outbox_msgs (ba_Updates b) @ [u (ba_OrderBookSequenceId b)]"
  shows "ba_inv (b \<lparr> ba_Updates := ob, ba_OrderBookSequenceId := ba_OrderBookSequenceId b + 1 \<rparr>) LB LA"
    "book_abs (b \<lparr> ba_Updates := ob, ba_OrderBookSequenceId := ba_OrderBookSequenceId b + 1 \<rparr>) LB LA =
     emit_update u (book_abs b LB LA)"
  using assms by (simp_all add: ba_inv_def book_abs_def emit_update_def)

text \<open>The parts of the engine that publishing leaves alone.\<close>

definition same_book :: "BidAsk \<Rightarrow> BidAsk \<Rightarrow> bool" where
  "same_book b b' \<longleftrightarrow> ba_Store b' = ba_Store b \<and> ba_Bid b' = ba_Bid b \<and> ba_Ask b' = ba_Ask b \<and>
     ba_MarketAssetId b' = ba_MarketAssetId b \<and> ba_BestAskPrice b' = ba_BestAskPrice b \<and>
     ba_BestBidPrice b' = ba_BestBidPrice b \<and> ba_MarketPrice b' = ba_MarketPrice b"

lemma report_step:
  assumes "ba_inv b LB LA" "0 < report_room b"
  obtains b' where "report_try r b = Some b'" "report_block r b = Some b'" "report_guarded r b = b'"
    "ba_inv b' LB LA" "book_abs b' LB LA = emit_report r (book_abs b LB LA)" "same_book b b'"
    "report_room b = Suc (report_room b')" "update_room b' = update_room b"
proof -
  from report_ok[OF assms, of r] obtain ob where
    o: "report_try r b = Some (b \<lparr> ba_Reports := ob, ba_ReportSequenceId := ba_ReportSequenceId b + 1 \<rparr>)"
      "report_block r b = Some (b \<lparr> ba_Reports := ob, ba_ReportSequenceId := ba_ReportSequenceId b + 1 \<rparr>)"
      "report_guarded r b = b \<lparr> ba_Reports := ob, ba_ReportSequenceId := ba_ReportSequenceId b + 1 \<rparr>"
      "outbox_inv ob" "outbox_msgs ob = outbox_msgs (ba_Reports b) @ [r (ba_ReportSequenceId b)]"
      "report_room b = Suc (outbox_room ob)" by blast
  show thesis
    by (rule that[OF o(1-3) book_abs_report[where r = r, OF assms(1) o(4,5)]]) (simp_all add: same_book_def o(6))
qed

lemma update_step:
  assumes "ba_inv b LB LA" "0 < update_room b"
  obtains b' where "update_try u b = Some b'" "update_block u b = Some b'" "update_guarded u b = b'"
    "ba_inv b' LB LA" "book_abs b' LB LA = emit_update u (book_abs b LB LA)" "same_book b b'"
    "update_room b = Suc (update_room b')" "report_room b' = report_room b"
proof -
  from update_ok[OF assms, of u] obtain ob where
    o: "update_try u b = Some (b \<lparr> ba_Updates := ob, ba_OrderBookSequenceId := ba_OrderBookSequenceId b + 1 \<rparr>)"
      "update_block u b = Some (b \<lparr> ba_Updates := ob, ba_OrderBookSequenceId := ba_OrderBookSequenceId b + 1 \<rparr>)"
      "update_guarded u b = b \<lparr> ba_Updates := ob, ba_OrderBookSequenceId := ba_OrderBookSequenceId b + 1 \<rparr>"
      "outbox_inv ob" "outbox_msgs ob = outbox_msgs (ba_Updates b) @ [u (ba_OrderBookSequenceId b)]"
      "update_room b = Suc (outbox_room ob)" by blast
  show thesis
    by (rule that[OF o(1-3) book_abs_update[where u = u, OF assms(1) o(4,5)]]) (simp_all add: same_book_def o(6))
qed

text \<open>A trade publishes the report of the order, the report of the offer and the update of the level.\<close>

lemma fill_published:
  assumes "ba_inv b LB LA" "2 \<le> report_room b" "1 \<le> update_room b"
  obtains b2 b3 b4 where "report_try f b = Some b2" "report_try g b2 = Some b3" "update_try u b3 = Some b4"
    "ba_inv b4 LB LA" "book_abs b4 LB LA = emit_update u (emit_report g (emit_report f (book_abs b LB LA)))"
    "same_book b b2" "same_book b b3" "same_book b b4"
    "report_room b = report_room b4 + 2" "update_room b = Suc (update_room b4)"
proof -
  have "0 < report_room b" using assms(2) by simp
  from report_step[OF assms(1) this, of f] obtain b2 where
    2: "report_try f b = Some b2" "ba_inv b2 LB LA" "book_abs b2 LB LA = emit_report f (book_abs b LB LA)" "same_book b b2"
      "report_room b = Suc (report_room b2)" "update_room b2 = update_room b" by metis
  have "0 < report_room b2" using 2(5) assms(2) by simp
  from report_step[OF 2(2) this, of g] obtain b3 where
    3: "report_try g b2 = Some b3" "ba_inv b3 LB LA" "book_abs b3 LB LA = emit_report g (book_abs b2 LB LA)" "same_book b2 b3"
      "report_room b2 = Suc (report_room b3)" "update_room b3 = update_room b2" by metis
  have "0 < update_room b3" using 2(6) 3(6) assms(3) by simp
  from update_step[OF 3(2) this, of u] obtain b4 where
    4: "update_try u b3 = Some b4" "ba_inv b4 LB LA" "book_abs b4 LB LA = emit_update u (book_abs b3 LB LA)" "same_book b3 b4"
      "update_room b3 = Suc (update_room b4)" "report_room b4 = report_room b3" by metis
  show thesis
    by (rule that[OF 2(1) 3(1) 4(1,2)]) (use 2 3 4 in \<open>simp_all add: same_book_def\<close>)
qed

section \<open>Orders and depths of a side\<close>

lemma orders_of_simps [simp]:
  "orders_of h [] = []" "orders_of h ((p, l, ns) # L) = map (\<lambda>n. on_NodeOrder (h n)) ns @ orders_of h L"
  "orders_of h (L @ M) = orders_of h L @ orders_of h M"
  by (simp_all add: orders_of_def)

lemma orders_of_cong:
  "(\<And>n. n \<in> set (node_ptrs L) \<Longrightarrow> on_NodeOrder (h' n) = on_NodeOrder (h n)) \<Longrightarrow> orders_of h' L = orders_of h L"
  by (simp add: orders_of_def)

lemma side_prices:
  assumes "side_ok c bk lh nh L" "(p, l, ns) \<in> set L" "n \<in> set ns"
  shows "ord_Price (on_NodeOrder (nh n)) = p"
  using side_okD(8,9)[OF assms(1,2)] assms(3) by (simp add: level_ok_def OrderNode_GetPrice_def)

lemma depth_at_level:
  "(\<And>n. n \<in> set ns \<Longrightarrow> ord_Price (on_NodeOrder (h n)) = p) \<Longrightarrow>
   depth_at p (map (\<lambda>n. on_NodeOrder (h n)) ns) = depth_of h ns"
  by (induction ns) (auto simp: depth_of_def OrderNode_GetAmount_def)

lemma depth_at_other:
  "(\<And>o'. o' \<in> set os \<Longrightarrow> ord_Price o' \<noteq> p) \<Longrightarrow> depth_at p os = 0"
  by (induction os) auto

lemma in_orders_of: "o' \<in> set (orders_of h L) \<longleftrightarrow> (\<exists>p l ns n. (p, l, ns) \<in> set L \<and> n \<in> set ns \<and> o' = on_NodeOrder (h n))"
  by (auto simp: orders_of_def node_ptrs_def) blast

lemma depth_at_absent:
  assumes "side_ok c bk lh nh L" "p \<notin> fst ` set L"
  shows "depth_at p (orders_of nh L) = 0"
proof (rule depth_at_other)
  fix o' assume "o' \<in> set (orders_of nh L)"
  then obtain q l ns n where "(q, l, ns) \<in> set L" "n \<in> set ns" "o' = on_NodeOrder (nh n)"
    by (auto simp: in_orders_of)
  with side_prices[OF assms(1)] assms(2) show "ord_Price o' \<noteq> p" by force
qed

lemma depth_at_side:
  assumes side: "side_ok c bk lh nh (X @ (p, l, ns) # Y)"
  shows "depth_at p (orders_of nh (X @ (p, l, ns) # Y)) = depth_of nh ns"
proof -
  have d: "p \<notin> fst ` set X" "p \<notin> fst ` set Y" using side_distinct[OF side] by auto
  have "depth_at p (orders_of nh Z) = 0" if "set Z \<subseteq> set (X @ Y)" for Z
  proof (rule depth_at_other)
    fix o' assume "o' \<in> set (orders_of nh Z)"
    then obtain q k ms n where z: "(q, k, ms) \<in> set Z" "n \<in> set ms" "o' = on_NodeOrder (nh n)"
      by (auto simp: in_orders_of)
    then have "(q, k, ms) \<in> set (X @ (p, l, ns) # Y)" "q \<noteq> p" using that d by force+
    with side_prices[OF side this(1) z(2)] z(3) show "ord_Price o' \<noteq> p" by simp
  qed
  then have "depth_at p (orders_of nh X) = 0" "depth_at p (orders_of nh Y) = 0" by auto
  moreover have "depth_at p (map (\<lambda>n. on_NodeOrder (nh n)) ns) = depth_of nh ns"
    by (rule depth_at_level) (rule side_prices[OF side, of p l ns], simp)
  ultimately show ?thesis by simp
qed

section \<open>The amounts of a trade\<close>

text \<open>Reducing the amount of the head of a level by \<open>t\<close>.\<close>

definition reduce_head :: "ptr \<Rightarrow> ptr \<Rightarrow> u32 \<Rightarrow> BookStore \<Rightarrow> BookStore" where
  "reduce_head l n t st =
     (let st = set_nodes ((nodes st)(n := OrderNode_SetAmount (OrderNode_GetAmount (nodes st n) - t) (nodes st n))) st
      in set_level l (PriceLevel_IncTotalAmount (uint (- t)) (levels st l)) st)"

lemma level_trade:
  assumes ok: "level_ok lv h (n # ns)"
    and h': "h' = h(n := OrderNode_SetAmount (OrderNode_GetAmount (h n) - t) (h n))"
  shows "level_ok (PriceLevel_IncTotalAmount (uint (- t)) lv) h' (n # ns)"
proof -
  have L: "distinct (n # ns)" "ucast (pl_TotalAmount lv) = depth_of h (n # ns)" using ok by (auto simp: level_ok_def)
  have links: "on_Prev (h' q) = on_Prev (h q)" "on_Next (h' q) = on_Next (h q)"
    "OrderNode_GetPrice (h' q) = OrderNode_GetPrice (h q)" for q
    by (simp_all add: h' node_defs)
  have rest: "depth_of h' ns = depth_of h ns"
    using L(1) unfolding depth_of_def h' by (intro arg_cong[where f = sum_list] map_cong) auto
  have "depth_of h' (n # ns) = depth_of h (n # ns) - t"
    using rest by (simp add: depth_of_def h' node_defs)
  moreover have "(ucast (u64_of_i64 (uint (- t))) :: u32) = - t"
    unfolding u64_of_i64_def ucast32_word_of_int by (rule word_of_int_uint)
  ultimately have "(ucast (pl_TotalAmount lv + u64_of_i64 (uint (- t))) :: u32) = depth_of h' (n # ns)"
    by (simp add: ucast32_add L(2))
  moreover have "dseg h' None (n # ns) None = dseg h None (n # ns) None"
    using links by (intro dseg_frame) auto
  ultimately show ?thesis
    using ok links(3) unfolding level_ok_def PriceLevel_IncTotalAmount_def by simp
qed

lemma reduce_head_side:
  assumes side: "side_ok c bk (levels st) (nodes st) ((p, l, n # ns) # Y)" and store: "store_ok st N V" and l: "l \<in> V"
  shows "side_ok c bk (levels (reduce_head l n t st)) (nodes (reduce_head l n t st)) ((p, l, n # ns) # Y)"
    "store_ok (reduce_head l n t st) N V"
    "\<And>q. q \<noteq> n \<Longrightarrow> nodes (reduce_head l n t st) q = nodes st q"
    "\<And>k. k \<noteq> l \<Longrightarrow> levels (reduce_head l n t st) k = levels st k"
    "on_NodeOrder (nodes (reduce_head l n t st) n) = less_amount t (on_NodeOrder (nodes st n))"
    "on_Next (nodes (reduce_head l n t st) n) = on_Next (nodes st n)"
    "store_grows st (reduce_head l n t st)"
proof -
  let ?h = "(nodes st)(n := OrderNode_SetAmount (OrderNode_GetAmount (nodes st n) - t) (nodes st n))"
  let ?lv = "PriceLevel_IncTotalAmount (uint (- t)) (levels st l)"
  have eq: "reduce_head l n t st = set_level l ?lv (set_nodes ?h st)" by (simp add: reduce_head_def Let_def)
  note S = side_okD[OF side]
  have m: "(p, l, n # ns) \<in> set ([] @ (p, l, n # ns) # Y)" by simp
  have pr: "pl_Price ?lv = p" using S(8)[of p l "n # ns"] by (simp add: PriceLevel_IncTotalAmount_def)
  have dj: "set (n # ns) \<inter> set (node_ptrs ([] @ Y)) = {}" using S(5) by auto
  have fr: "?h q = nodes st q" if "q \<in> set (node_ptrs ([] @ Y))" for q using that dj by auto
  have lv: "level_ok ?lv ?h (n # ns)" using S(9)[of p l "n # ns"] by (intro level_trade) simp_all
  have "side_ok c bk ((levels st)(l := ?lv)) ?h ([] @ (p, l, n # ns) # Y)"
    by (rule side_update[where ns = "n # ns"]) (use side lv pr dj fr in auto)
  then show "side_ok c bk (levels (reduce_head l n t st)) (nodes (reduce_head l n t st)) ((p, l, n # ns) # Y)"
    by (simp add: eq)
  show "store_ok (reduce_head l n t st) N V"
    unfolding eq by (rule store_update[OF store l]) (simp add: node_id_def node_defs)
  show "nodes (reduce_head l n t st) q = nodes st q" if "q \<noteq> n" for q using that by (simp add: eq)
  show "levels (reduce_head l n t st) k = levels st k" if "k \<noteq> l" for k using that by (simp add: eq)
  show "on_NodeOrder (nodes (reduce_head l n t st) n) = less_amount t (on_NodeOrder (nodes st n))"
    "on_Next (nodes (reduce_head l n t st) n) = on_Next (nodes st n)"
    by (simp_all add: eq node_defs less_amount_def)
  show "store_grows st (reduce_head l n t st)" by (simp add: eq store_grows_def)
qed

section \<open>One side changes, the other does not\<close>

lemma two_sides_sym: "two_sides c bk L c' bk' L' st \<longleftrightarrow> two_sides c' bk' L' c bk L st"
  by (auto simp: two_sides_def Un_commute)

lemma two_sidesD:
  assumes "two_sides c bk L c' bk' L' st"
  shows "side_ok c bk (levels st) (nodes st) L" "side_ok c' bk' (levels st) (nodes st) L'"
    "store_ok st (set (node_ptrs L) \<union> set (node_ptrs L')) (set (level_ptrs L) \<union> set (level_ptrs L'))"
    "set (node_ptrs L) \<inter> set (node_ptrs L') = {}" "set (level_ptrs L) \<inter> set (level_ptrs L') = {}"
  using assms by (simp_all add: two_sides_def)

lemma two_sides_reduce:
  assumes inv: "two_sides c bk ((p, l, n # ns) # Y) c' bk' L' st"
  shows "two_sides c bk ((p, l, n # ns) # Y) c' bk' L' (reduce_head l n t st)"
    "orders_of (nodes (reduce_head l n t st)) ((p, l, n # ns) # Y) =
       less_amount t (on_NodeOrder (nodes st n)) # map (\<lambda>n. on_NodeOrder (nodes st n)) ns @ orders_of (nodes st) Y"
    "orders_of (nodes (reduce_head l n t st)) L' = orders_of (nodes st) L'"
    "ucast (pl_TotalAmount (levels (reduce_head l n t st) l)) =
       depth_at p (orders_of (nodes (reduce_head l n t st)) ((p, l, n # ns) # Y))"
proof -
  note T = two_sidesD[OF inv]
  have lV: "l \<in> set (level_ptrs ((p, l, n # ns) # Y)) \<union> set (level_ptrs L')" by simp
  note R = reduce_head_side[where t = t, OF T(1,3) lV]
  have nL: "n \<notin> set (node_ptrs L')" and lL: "l \<notin> set (level_ptrs L')" using T(4,5) by auto
  have other: "side_ok c' bk' (levels (reduce_head l n t st)) (nodes (reduce_head l n t st)) L'"
    by (rule side_frame[OF T(2)]; (rule R(3) R(4)); use nL lL in blast)
  with R(1,2) T(4,5) show "two_sides c bk ((p, l, n # ns) # Y) c' bk' L' (reduce_head l n t st)"
    by (simp only: two_sides_def simp_thms)
  have d: "distinct (n # ns @ node_ptrs Y)" using side_okD(5)[OF T(1)] by simp
  have same: "map (\<lambda>q. on_NodeOrder (nodes (reduce_head l n t st) q)) qs = map (\<lambda>q. on_NodeOrder (nodes st q)) qs"
    if "n \<notin> set qs" for qs
    using that R(3) by (intro map_cong refl) metis
  show "orders_of (nodes (reduce_head l n t st)) ((p, l, n # ns) # Y) =
      less_amount t (on_NodeOrder (nodes st n)) # map (\<lambda>n. on_NodeOrder (nodes st n)) ns @ orders_of (nodes st) Y"
    using same[of ns] same[of "node_ptrs Y"] d R(5) by (simp add: orders_of_def)
  show "orders_of (nodes (reduce_head l n t st)) L' = orders_of (nodes st) L'"
    using same[OF nL] by (simp add: orders_of_def)
  show "ucast (pl_TotalAmount (levels (reduce_head l n t st) l)) =
      depth_at p (orders_of (nodes (reduce_head l n t st)) ((p, l, n # ns) # Y))"
    using side_okD(9)[OF R(1), of p l "n # ns"] depth_at_side[of c bk _ _ "[]" p l "n # ns" Y] R(1)
    by (simp add: level_ok_def)
qed

lemma reduced_head:
  assumes inv: "two_sides c bk ((p, l, n # ns) # Y) c' bk' L' st"
  shows "ord_Price (on_NodeOrder (nodes st n)) = p"
    "on_NodeOrder (nodes (reduce_head l n t st) n) = less_amount t (on_NodeOrder (nodes st n))"
    "on_Next (nodes (reduce_head l n t st) n) = hd_opt ns" "store_grows st (reduce_head l n t st)"
proof -
  note T = two_sidesD[OF inv]
  have lV: "l \<in> set (level_ptrs ((p, l, n # ns) # Y)) \<union> set (level_ptrs L')" by simp
  note R = reduce_head_side(5-7)[where t = t, OF T(1,3) lV]
  show "ord_Price (on_NodeOrder (nodes st n)) = p" using side_prices[OF T(1), of p l "n # ns" n] by simp
  show "on_NodeOrder (nodes (reduce_head l n t st) n) = less_amount t (on_NodeOrder (nodes st n))" by (rule R(1))
  have "level_ok (levels st l) (nodes st) (n # ns)" using side_okD(9)[OF T(1), of p l "n # ns"] by simp
  then show "on_Next (nodes (reduce_head l n t st) n) = hd_opt ns" using R(2) by (simp add: level_ok_def hd_opt_def)
  show "store_grows st (reduce_head l n t st)" by (rule R(3))
qed

definition side_minus :: "side \<Rightarrow> i64 \<Rightarrow> ptr \<Rightarrow> ptr list \<Rightarrow> side \<Rightarrow> side" where
  "side_minus X p l ns Y = (if ns = [] then X @ Y else X @ (p, l, ns) # Y)"

lemma side_minus_ptrs:
  "node_ptrs (side_minus X p l ns Y) = node_ptrs X @ ns @ node_ptrs Y"
  "level_ptrs (side_minus X p l ns Y) = level_ptrs X @ (if ns = [] then [] else [l]) @ level_ptrs Y"
  "set (side_minus X p l ns Y) \<subseteq> insert (p, l, ns) (set (X @ Y))"
  by (auto simp: side_minus_def)

lemma two_sides_delete:
  assumes inv: "two_sides c bk (X @ (p, l, A @ n # C) # Y) c' bk' L' st"
  shows "\<exists>cur bk1 st1. OrderBook_DeleteOrder n bk st = Some (cur, bk1, st1) \<and>
    two_sides c bk1 (side_minus X p l (A @ C) Y) c' bk' L' st1 \<and>
    (\<forall>q. on_NodeOrder (nodes st1 q) = on_NodeOrder (nodes st q)) \<and>
    (case cur of Some k \<Rightarrow> ucast (pl_TotalAmount (levels st1 k)) | None \<Rightarrow> 0) =
      depth_at p (orders_of (nodes st1) (side_minus X p l (A @ C) Y)) \<and> store_grows st st1"
proof -
  let ?L = "X @ (p, l, A @ n # C) # Y" and ?M = "side_minus X p l (A @ C) Y"
  note T = two_sidesD[OF inv]
  have sub: "set (node_ptrs ?L) \<subseteq> set (node_ptrs ?L) \<union> set (node_ptrs L')"
    "l \<in> set (level_ptrs ?L) \<union> set (level_ptrs L')" by auto
  from DeleteOrder_side[OF T(1,3) sub] obtain bk1 st1 where
    d: "OrderBook_DeleteOrder n bk st = Some (if A @ C = [] then None else Some l, bk1, st1)"
      "side_ok c bk1 (levels st1) (nodes st1) (if A @ C = [] then X @ Y else X @ (p, l, A @ C) # Y)"
      "store_ok st1 (set (node_ptrs ?L) \<union> set (node_ptrs L') - {n})
        (if A @ C = [] then set (level_ptrs ?L) \<union> set (level_ptrs L') - {l}
         else set (level_ptrs ?L) \<union> set (level_ptrs L'))"
      "store_frame st st1 (set (A @ C)) l" "A @ C \<noteq> [] \<longrightarrow> level_ok (levels st1 l) (nodes st1) (A @ C)"
      "store_grows st st1" by blast
  have dist: "distinct (node_ptrs ?L)" "distinct (level_ptrs ?L)" using side_okD(4,5)[OF T(1)] by auto
  have N: "set (node_ptrs ?L) \<union> set (node_ptrs L') - {n} = set (node_ptrs ?M) \<union> set (node_ptrs L')"
    using dist(1) T(4) unfolding side_minus_ptrs by auto
  have V: "(if A @ C = [] then set (level_ptrs ?L) \<union> set (level_ptrs L') - {l}
      else set (level_ptrs ?L) \<union> set (level_ptrs L')) = set (level_ptrs ?M) \<union> set (level_ptrs L')"
    using dist(2) T(5) unfolding side_minus_ptrs by auto
  have M: "side_ok c bk1 (levels st1) (nodes st1) ?M" using d(2) by (simp add: side_minus_def)
  have fr: "on_NodeOrder (nodes st1 q) = on_NodeOrder (nodes st q)"
    "q \<notin> set (A @ C) \<Longrightarrow> nodes st1 q = nodes st q" "k \<noteq> l \<Longrightarrow> levels st1 k = levels st k" for q k
    using d(4) by (simp_all add: store_frame_def links_only_def)
  have "side_ok c' bk' (levels st1) (nodes st1) L'"
    by (rule side_frame[OF T(2)]; rule fr(2) fr(3); use T(4,5) in auto)
  moreover have "set (node_ptrs ?M) \<inter> set (node_ptrs L') = {}" "set (level_ptrs ?M) \<inter> set (level_ptrs L') = {}"
    using T(4,5) unfolding side_minus_ptrs by auto
  ultimately have "two_sides c bk1 ?M c' bk' L' st1"
    using M d(3) unfolding two_sides_def N V by blast
  moreover have "(case if A @ C = [] then None else Some l of Some k \<Rightarrow> ucast (pl_TotalAmount (levels st1 k)) | None \<Rightarrow> 0) =
      depth_at p (orders_of (nodes st1) ?M)"
  proof (cases "A @ C = []")
    case True
    have "p \<notin> fst ` set (X @ Y)" using side_distinct[OF T(1)] by auto
    with M True depth_at_absent[of c bk1 _ _ "X @ Y" p] show ?thesis by (simp add: side_minus_def)
  next
    case False
    then have m: "?M = X @ (p, l, A @ C) # Y" by (auto simp: side_minus_def)
    from depth_at_side[OF M[unfolded m]] d(5) False show ?thesis unfolding m by (auto simp: level_ok_def)
  qed
  ultimately show ?thesis using d(1,6) fr(1) by blast
qed

lemma store_grows_trans: "store_grows a b \<Longrightarrow> store_grows b c \<Longrightarrow> store_grows a c"
  unfolding store_grows_def by blast

lemma store_grows_refl [simp]: "store_grows a a"
  by (simp add: store_grows_def)

definition keeps :: "BidAsk \<Rightarrow> BidAsk \<Rightarrow> bool" where
  "keeps b b' \<longleftrightarrow> ba_MarketAssetId b' = ba_MarketAssetId b \<and> store_grows (ba_Store b) (ba_Store b')"

lemma traded_if: "traded order offer = (if ord_Amount order < ord_Amount offer then ord_Amount order else ord_Amount offer)"
  by (cases "ord_Amount order" "ord_Amount offer" rule: linorder_cases) (auto simp: traded_def min_def)

section \<open>The best level\<close>

lemma best_level:
  assumes "side_ok c bk lh nh L"
  shows "OrderBook_GetBestLevel bk = Some (hd_opt (level_ptrs L))"
    "L = (p, l, ns) # Y \<Longrightarrow> PriceLevel_PeekOrder (lh l) = hd_opt ns" "L = (p, l, ns) # Y \<Longrightarrow> pl_Price (lh l) = p"
    "L = (p, l, ns) # Y \<Longrightarrow> e \<in> set L \<Longrightarrow> fst e = p \<or> comp c p (fst e)"
proof -
  note S = side_okD[OF assms]
  show "OrderBook_GetBestLevel bk = Some (hd_opt (level_ptrs L))"
    using skip.first_rel[OF S(1)] by (cases L) (auto simp: OrderBook_GetBestLevel_def hd_opt_def)
  assume L: "L = (p, l, ns) # Y"
  show "PriceLevel_PeekOrder (lh l) = hd_opt ns" "pl_Price (lh l) = p"
    using S(8,9)[of p l ns] L by (simp_all add: level_ok_def PriceLevel_PeekOrder_def)
  show "e \<in> set L \<Longrightarrow> fst e = p \<or> comp c p (fst e)" using S(10) L by auto
qed

lemma side_cases:
  assumes "side_ok c bk lh nh L"
  obtains "L = []" | p l n ns Y where "L = (p, l, n # ns) # Y"
proof (cases L)
  case (Cons e Y)
  moreover obtain p l ms where "e = (p, l, ms)" by (cases e)
  moreover have "ms \<noteq> []" using side_okD(7)[OF assms, of p l ms] calculation by auto
  ultimately show ?thesis using that(2) by (cases ms) auto
qed (use that in auto)

end
