(* ===== verification/Matching_Rest.thy ===== *)
theory Matching_Rest
  imports Matching
begin

text \<open>
  Resting an order on one of the two sides: acquiring and filling a node, entering it into the order
  map, and \<open>OrderBook::AddLimitOrder\<close> together insert the order behind the orders of its side that
  have the same or a better price.
\<close>

section \<open>The place of a new order\<close>

lemma rest_order_split:
  assumes "\<And>x. x \<in> set A \<Longrightarrow> \<not> comp c (ord_Price o') (ord_Price x)" "\<And>x. x \<in> set B \<Longrightarrow> comp c (ord_Price o') (ord_Price x)"
  shows "rest_order c o' (A @ B) = A @ o' # B"
proof -
  have "takeWhile (\<lambda>x. \<not> comp c (ord_Price o') (ord_Price x)) B = []"
    "dropWhile (\<lambda>x. \<not> comp c (ord_Price o') (ord_Price x)) B = B"
    using assms(2) by (cases B; simp)+
  then show ?thesis using assms(1) by (simp add: rest_order_def)
qed

lemma side_sorted_split:
  assumes "sorted_wrt (comp c) (map fst L)" "p \<notin> fst ` set L"
  shows "\<exists>X Y. L = X @ Y \<and> insert_by (comp c) p v L = X @ (p, v) # Y \<and>
    (\<forall>e \<in> set X. comp c (fst e) p) \<and> (\<forall>e \<in> set Y. comp c p (fst e))"
proof -
  let ?X = "takeWhile (\<lambda>e. comp c (fst e) p) L" and ?Y = "dropWhile (\<lambda>e. comp c (fst e) p) L"
  have L: "L = ?X @ ?Y" by simp
  have Y: "comp c p (fst e)" if e: "e \<in> set ?Y" for e
  proof -
    obtain d Z where dz: "?Y = d # Z" using e by (cases ?Y) auto
    then have "\<not> comp c (fst d) p" using hd_dropWhile[of "\<lambda>e. comp c (fst e) p" L] by simp
    moreover have "d \<in> set L" using dz by (metis list.set_intros(1) set_dropWhileD)
    ultimately have dp: "comp c p (fst d)" using assms(2) comp_order(3)[of c p "fst d"] by blast
    have "sorted_wrt (comp c) (map fst ?Y)" using assms(1) L by (metis map_append sorted_wrt_append)
    with dz e dp comp_order(2)[of c p "fst d" "fst e"] show ?thesis by auto
  qed
  have X: "comp c (fst e) p" if "e \<in> set ?X" for e using set_takeWhileD[OF that] by blast
  show ?thesis
    using L X Y by (intro exI[of _ ?X] exI[of _ ?Y]) (simp add: insert_by_def)
qed

lemma orders_of_rest:
  assumes pr: "\<And>q l ns n. (q, l, ns) \<in> set (X @ Y) \<Longrightarrow> n \<in> set ns \<Longrightarrow> ord_Price (on_NodeOrder (h n)) = q"
    and pn: "\<And>n. n \<in> set ns \<Longrightarrow> ord_Price (on_NodeOrder (h n)) = p"
    and X: "\<And>e. e \<in> set X \<Longrightarrow> comp c (fst e) p" and Y: "\<And>e. e \<in> set Y \<Longrightarrow> comp c p (fst e)" and o: "ord_Price o' = p"
  shows "rest_order c o' (orders_of h X @ map (\<lambda>n. on_NodeOrder (h n)) ns @ orders_of h Y) =
    orders_of h X @ map (\<lambda>n. on_NodeOrder (h n)) ns @ o' # orders_of h Y"
proof -
  have "\<not> comp c p (ord_Price x)" if "x \<in> set (orders_of h X @ map (\<lambda>n. on_NodeOrder (h n)) ns)" for x
  proof (cases "x \<in> set (orders_of h X)")
    case True
    then obtain q l ms n where "(q, l, ms) \<in> set X" "n \<in> set ms" "x = on_NodeOrder (h n)" by (auto simp: in_orders_of)
    then have "ord_Price x = q" "comp c q p" using pr[of q l ms n] X[of "(q, l, ms)"] by auto
    then show ?thesis using comp_order(1,2) by metis
  next
    case False
    then show ?thesis using that pn comp_order(1) by auto
  qed
  moreover have "comp c p (ord_Price x)" if "x \<in> set (orders_of h Y)" for x
  proof -
    from that obtain q l ms n where "(q, l, ms) \<in> set Y" "n \<in> set ms" "x = on_NodeOrder (h n)" by (auto simp: in_orders_of)
    then show ?thesis using pr[of q l ms n] Y[of "(q, l, ms)"] by auto
  qed
  ultimately show ?thesis
    using rest_order_split[of "orders_of h X @ map (\<lambda>n. on_NodeOrder (h n)) ns" c o' "orders_of h Y"] o by simp
qed

section \<open>Entering an order into the store\<close>

definition id64 :: "Order \<Rightarrow> u64" where
  "id64 o' = ucast (order_id32 o')"

definition enter_order :: "Order \<Rightarrow> ptr \<Rightarrow> OrderNode SingleThreadedStoragePool \<Rightarrow> FlatHashMap \<Rightarrow> BookStore \<Rightarrow> BookStore" where
  "enter_order o' n np om st =
     (let st = st \<lparr> bs_OrderNodePool := np \<rparr>
      in set_nodes ((nodes st)(n := OrderNode_SetOrder o' (nodes st n))) st \<lparr> bs_OrderMap := om \<rparr>)"

lemma store_enter:
  assumes st: "store_ok st N V" and free: "stp_free (bs_OrderNodePool st) \<noteq> []"
    and id: "fhm_lookup (bs_OrderMap st) (id64 o') = None" "fhm_room (bs_OrderMap st) (id64 o')"
  shows "\<exists>n np om. STPool_Acquire (bs_OrderNodePool st) = (Some n, np) \<and> stp_Storage np = nodes st \<and> n \<notin> N \<and>
    FlatHashMap_AddNode (id64 o') (Some n) (bs_OrderMap st) = Some om \<and> store_ok (enter_order o' n np om st) (insert n N) V"
proof -
  note S = store_okD[OF st]
  from stp.acquire_some[OF S(1) free] obtain n np where
    a: "STPool_Acquire (bs_OrderNodePool st) = (Some n, np)" "stp_inv np" "n \<in> set (stp_free (bs_OrderNodePool st))"
      "set (stp_free np) = set (stp_free (bs_OrderNodePool st)) - {n}" "stp_all np = stp_all (bs_OrderNodePool st)" by blast
  have sto: "stp_Storage np = nodes st" using STPool_Storage(1)[of "bs_OrderNodePool st"] a(1) by simp
  have n: "n \<notin> N" "n \<in> stp_all np" using S(3) a(3,5) stp.free_in_all[OF S(1)] by auto
  from fhm.add_fresh[OF S(7) id, of "Some n"] obtain om where
    om: "FlatHashMap_AddNode (id64 o') (Some n) (bs_OrderMap st) = Some om" "fhm_inv om"
      "fhm_lookup om = (fhm_lookup (bs_OrderMap st))(id64 o' \<mapsto> Some n)" by blast
  let ?st = "enter_order o' n np om st"
  have ids: "node_id (nodes ?st) n = id64 o'" "m \<noteq> n \<Longrightarrow> node_id (nodes ?st) m = node_id (nodes st) m" for m
    by (simp_all add: enter_order_def Let_def node_id_def node_defs id64_def order_id32_def sto)
  have fresh: "node_id (nodes st) m \<noteq> id64 o'" if "m \<in> N" for m
    using S(9)[of "id64 o'" "Some m"] id(1) that by auto
  have inj: "inj_on (node_id (nodes ?st)) (insert n N)"
    unfolding inj_on_insert
  proof
    show "inj_on (node_id (nodes ?st)) N"
      using S(8) n(1) ids(2) by (simp add: inj_on_def) metis
    show "node_id (nodes ?st) n \<notin> node_id (nodes ?st) ` (N - {n})"
      using fresh ids by force
  qed
  have look: "fhm_lookup om k = Some v \<longleftrightarrow> (\<exists>m \<in> insert n N. v = Some m \<and> k = node_id (nodes ?st) m)" for k v
  proof (cases "k = id64 o'")
    case True
    have "node_id (nodes ?st) m \<noteq> id64 o'" if "m \<in> N" for m using that fresh ids(2) n(1) by metis
    then have "(\<exists>m \<in> insert n N. v = Some m \<and> id64 o' = node_id (nodes ?st) m) \<longleftrightarrow> v = Some n"
      using ids(1) by (metis insert_iff)
    then show ?thesis using True om(3) by auto
  next
    case False
    have "(\<exists>m \<in> insert n N. v = Some m \<and> k = node_id (nodes ?st) m) \<longleftrightarrow> (\<exists>m \<in> N. v = Some m \<and> k = node_id (nodes st) m)"
      using False ids n(1) by (metis insert_iff)
    then show ?thesis using False om(3) S(9)[of k v] by simp
  qed
  have "store_ok ?st (insert n N) V"
    using S(2-6) a om(2) n inj look by (auto simp: store_ok_def enter_order_def Let_def)
  then show ?thesis using a(1) sto n(1) om(1) by blast
qed

section \<open>Resting an order on one of two sides\<close>

definition can_rest :: "OrderBook \<Rightarrow> side \<Rightarrow> BookStore \<Rightarrow> Order \<Rightarrow> bool" where
  "can_rest bk L st o' \<longleftrightarrow>
     price_ok (ord_Price o') \<and> stp_free (bs_OrderNodePool st) \<noteq> [] \<and>
     fhm_lookup (bs_OrderMap st) (id64 o') = None \<and> fhm_room (bs_OrderMap st) (id64 o') \<and>
     (ord_Price o' \<in> fst ` set L \<or>
      fhm_room (bk_FastMap bk) (u64_of_i64 (ord_Price o')) \<and> 0 < skip_avail (bk_BestPricesMap bk) \<and>
      stp_free (bs_PriceLevelPool st) \<noteq> [])"

text \<open>What resting the order \<open>o'\<close> in the node \<open>n\<close> establishes.\<close>

definition rested ::
  "Compare \<Rightarrow> OrderBook \<Rightarrow> side \<Rightarrow> Compare \<Rightarrow> OrderBook \<Rightarrow> side \<Rightarrow> BookStore \<Rightarrow> Order \<Rightarrow> ptr \<Rightarrow> OrderBook \<Rightarrow> side \<Rightarrow>
   BookStore \<Rightarrow> bool" where
  "rested c bk L c' bk' L' st o' l bk1 L1 st1 \<longleftrightarrow>
     two_sides c bk1 L1 c' bk' L' st1 \<and>
     orders_of (nodes st1) L1 = rest_order c o' (orders_of (nodes st) L) \<and>
     orders_of (nodes st1) L' = orders_of (nodes st) L' \<and>
     pl_Price (levels st1 l) = ord_Price o' \<and>
     ucast (pl_TotalAmount (levels st1 l)) = depth_at (ord_Price o') (orders_of (nodes st1) L1) \<and>
     fst ` set L1 = insert (ord_Price o') (fst ` set L)"

lemma rested_finish:
  assumes side1: "side_ok c bk1 (levels st1) (nodes st1) (X @ (p, l, ns @ [n]) # Y)"
    and store1: "store_ok st1 N1 V1"
    and N1: "N1 = set (node_ptrs (X @ (p, l, ns @ [n]) # Y)) \<union> set (node_ptrs L')"
    and V1: "V1 = set (level_ptrs (X @ (p, l, ns @ [n]) # Y)) \<union> set (level_ptrs L')"
    and disj: "set (node_ptrs (X @ (p, l, ns @ [n]) # Y)) \<inter> set (node_ptrs L') = {}"
      "set (level_ptrs (X @ (p, l, ns @ [n]) # Y)) \<inter> set (level_ptrs L') = {}"
    and other: "side_ok c' bk' (levels st1) (nodes st1) L'"
    and same: "\<And>q. q \<noteq> n \<Longrightarrow> on_NodeOrder (nodes st1 q) = on_NodeOrder (nodes st q)"
    and n: "on_NodeOrder (nodes st1 n) = o'" and p: "ord_Price o' = p"
    and L: "orders_of (nodes st) L = orders_of (nodes st) X @ map (\<lambda>n. on_NodeOrder (nodes st n)) ns @ orders_of (nodes st) Y"
      "insert p (fst ` set (X @ Y)) = insert p (fst ` set L)"
  shows "rested c bk L c' bk' L' st o' l bk1 (X @ (p, l, ns @ [n]) # Y) st1"
proof -
  let ?L = "X @ (p, l, ns @ [n]) # Y"
  note S = side_okD[OF side1]
  have d: "distinct (node_ptrs X @ (ns @ [n]) @ node_ptrs Y)" using S(5) by simp
  have nn: "n \<notin> set (node_ptrs X)" "n \<notin> set ns" "n \<notin> set (node_ptrs Y)" "n \<notin> set (node_ptrs L')" using d disj(1) by auto
  have eq: "orders_of (nodes st1) Z = orders_of (nodes st) Z" if "n \<notin> set (node_ptrs Z)" for Z
    by (rule orders_of_cong, rule same) (use that in auto)
  have eqn: "map (\<lambda>n. on_NodeOrder (nodes st1 n)) ns = map (\<lambda>n. on_NodeOrder (nodes st n)) ns"
    using nn(2) same by (intro map_cong refl) metis
  have cmp: "comp c (fst e) p" if "e \<in> set X" for e using S(10) that by (auto simp: sorted_wrt_append)
  have cmp': "comp c p (fst e)" if "e \<in> set Y" for e using S(10) that by (auto simp: sorted_wrt_append)
  have "rest_order c o' (orders_of (nodes st1) X @ map (\<lambda>n. on_NodeOrder (nodes st1 n)) ns @ orders_of (nodes st1) Y) =
      orders_of (nodes st1) X @ map (\<lambda>n. on_NodeOrder (nodes st1 n)) ns @ o' # orders_of (nodes st1) Y"
    by (rule orders_of_rest[where p = p])
      (use side_prices[OF side1] side_prices[OF side1, of p l "ns @ [n]"] cmp cmp' p in auto)
  then have "orders_of (nodes st1) ?L = rest_order c o' (orders_of (nodes st) L)"
    unfolding L(1) using eq nn eqn n by simp
  moreover have "ucast (pl_TotalAmount (levels st1 l)) = depth_at p (orders_of (nodes st1) ?L)"
    using depth_at_side[OF side1] S(9)[of p l "ns @ [n]"] by (simp add: level_ok_def)
  moreover have "pl_Price (levels st1 l) = p" using S(8)[of p l "ns @ [n]"] by simp
  moreover have "two_sides c bk1 ?L c' bk' L' st1"
    using side1 other store1 disj unfolding two_sides_def N1 V1 by blast
  ultimately show ?thesis using eq[OF nn(4)] L(2) p by (simp add: rested_def)
qed

text \<open>An order that has been given a node rests at a price with a level, or at a new price.\<close>

lemma rest_on_level:
  assumes inv: "two_sides c bk L c' bk' L' st" and price: "ord_Price o' \<in> fst ` set L"
    and st0: "levels st0 = levels st" "\<And>q. q \<noteq> n \<Longrightarrow> nodes st0 q = nodes st q" "on_NodeOrder (nodes st0 n) = o'"
    and side0: "side_ok c bk (levels st0) (nodes st0) L" "side_ok c' bk' (levels st0) (nodes st0) L'"
    and fresh: "n \<notin> set (node_ptrs L) \<union> set (node_ptrs L')"
    and store: "store_ok st0 (insert n (set (node_ptrs L) \<union> set (node_ptrs L'))) (set (level_ptrs L) \<union> set (level_ptrs L'))"
  shows "\<exists>l bk1 L1 st1. OrderBook_AddLimitOrder n bk st0 = Some (l, bk1, st1) \<and> rested c bk L c' bk' L' st o' l bk1 L1 st1"
proof -
  let ?p = "ord_Price o'" and ?N = "set (node_ptrs L) \<union> set (node_ptrs L')" and ?V = "set (level_ptrs L) \<union> set (level_ptrs L')"
  note T = two_sidesD[OF inv]
  have np: "OrderNode_GetPrice (nodes st0 n) = ?p" by (simp add: node_defs st0(3))
  obtain X Y l ns where L: "L = X @ (?p, l, ns) # Y" using price by (force dest: split_list)
  have l: "l \<in> ?V" by (simp add: L)
  have n0: "n \<notin> set (node_ptrs (X @ (?p, l, ns) # Y))" using fresh by (simp add: L)
  have sub: "set (node_ptrs (X @ (?p, l, ns) # Y)) \<subseteq> insert n ?N" by (auto simp: L)
  from AddLimitOrder_old[OF side0(1)[unfolded L] store sub l n0 np] obtain st1 where
    a: "OrderBook_AddLimitOrder n bk st0 = Some (l, bk, st1)"
      "side_ok c bk (levels st1) (nodes st1) (X @ (?p, l, ns @ [n]) # Y)" "store_ok st1 (insert n ?N) ?V"
      "store_frame st0 st1 (insert n (set ns)) l" by blast
  have fr: "on_NodeOrder (nodes st1 q) = on_NodeOrder (nodes st0 q)" "q \<notin> insert n (set ns) \<Longrightarrow> nodes st1 q = nodes st0 q"
    "k \<noteq> l \<Longrightarrow> levels st1 k = levels st0 k" for q k
    using a(4) by (simp_all add: store_frame_def links_only_def)
  have "side_ok c' bk' (levels st1) (nodes st1) L'"
    by (rule side_frame[OF side0(2)]; rule fr; use T(4,5) fresh in \<open>auto simp: L\<close>)
  then have "rested c bk L c' bk' L' st o' l bk (X @ (?p, l, ns @ [n]) # Y) st1"
    by (intro rested_finish[OF a(2,3)]) (use T(4,5) fresh fr(1) st0 in \<open>auto simp: L\<close>)
  with a(1) show ?thesis by blast
qed

lemma rest_on_new_level:
  assumes inv: "two_sides c bk L c' bk' L' st" and price: "ord_Price o' \<notin> fst ` set L" "price_ok (ord_Price o')"
    and room: "fhm_room (bk_FastMap bk) (u64_of_i64 (ord_Price o'))" "0 < skip_avail (bk_BestPricesMap bk)"
      "stp_free (bs_PriceLevelPool st0) \<noteq> []"
    and st0: "levels st0 = levels st" "\<And>q. q \<noteq> n \<Longrightarrow> nodes st0 q = nodes st q" "on_NodeOrder (nodes st0 n) = o'"
    and side0: "side_ok c bk (levels st0) (nodes st0) L" "side_ok c' bk' (levels st0) (nodes st0) L'"
    and fresh: "n \<notin> set (node_ptrs L) \<union> set (node_ptrs L')"
    and store: "store_ok st0 (insert n (set (node_ptrs L) \<union> set (node_ptrs L'))) (set (level_ptrs L) \<union> set (level_ptrs L'))"
  shows "\<exists>l bk1 L1 st1. OrderBook_AddLimitOrder n bk st0 = Some (l, bk1, st1) \<and> rested c bk L c' bk' L' st o' l bk1 L1 st1"
proof -
  let ?p = "ord_Price o'" and ?N = "set (node_ptrs L) \<union> set (node_ptrs L')" and ?V = "set (level_ptrs L) \<union> set (level_ptrs L')"
  note T = two_sidesD[OF inv]
  have np: "OrderNode_GetPrice (nodes st0 n) = ?p" by (simp add: node_defs st0(3))
  from AddLimitOrder_new[OF side0(1) store _ _ _ np price(2,1) room] fresh obtain l bk1 st1 where
    a: "OrderBook_AddLimitOrder n bk st0 = Some (l, bk1, st1)" "l \<notin> ?V"
      "side_ok c bk1 (levels st1) (nodes st1) (insert_by (comp c) ?p (l, [n]) L)" "store_ok st1 (insert n ?N) (insert l ?V)"
      "store_frame st0 st1 {n} l" by auto
  have fr: "on_NodeOrder (nodes st1 q) = on_NodeOrder (nodes st0 q)" "q \<notin> {n} \<Longrightarrow> nodes st1 q = nodes st0 q"
    "k \<noteq> l \<Longrightarrow> levels st1 k = levels st0 k" for q k
    using a(5) by (simp_all add: store_frame_def links_only_def)
  have other: "side_ok c' bk' (levels st1) (nodes st1) L'"
    by (rule side_frame[OF side0(2)]; rule fr; use a(2) fresh in auto)
  from side_sorted_split[OF side_okD(10)[OF T(1)] price(1), of "(l, [n])"] obtain X Y where
    L: "L = X @ Y" "insert_by (comp c) ?p (l, [n]) L = X @ (?p, l, [] @ [n]) # Y" by auto
  have "rested c bk L c' bk' L' st o' l bk1 (X @ (?p, l, [] @ [n]) # Y) st1"
    by (rule rested_finish[OF a(3)[unfolded L(2)] a(4)]) (use T(4,5) fresh a(2) fr(1) st0 other in \<open>auto simp: L(1)\<close>)
  with a(1) show ?thesis by blast
qed

lemma two_sides_rest:
  assumes inv: "two_sides c bk L c' bk' L' st" and can: "can_rest bk L st o'"
  shows "\<exists>n np om l bk1 L1 st1. STPool_Acquire (bs_OrderNodePool st) = (Some n, np) \<and> stp_Storage np = nodes st \<and>
    FlatHashMap_AddNode (id64 o') (Some n) (bs_OrderMap st) = Some om \<and>
    OrderBook_AddLimitOrder n bk (enter_order o' n np om st) = Some (l, bk1, st1) \<and>
    rested c bk L c' bk' L' st o' l bk1 L1 st1"
proof -
  let ?p = "ord_Price o'" and ?N = "set (node_ptrs L) \<union> set (node_ptrs L')" and ?V = "set (level_ptrs L) \<union> set (level_ptrs L')"
  note T = two_sidesD[OF inv]
  from store_enter[OF T(3), of o'] can obtain n np om where
    e: "STPool_Acquire (bs_OrderNodePool st) = (Some n, np)" "stp_Storage np = nodes st" "n \<notin> ?N"
      "FlatHashMap_AddNode (id64 o') (Some n) (bs_OrderMap st) = Some om" "store_ok (enter_order o' n np om st) (insert n ?N) ?V"
    by (auto simp: can_rest_def)
  define st0 where "st0 = enter_order o' n np om st"
  have st0: "levels st0 = levels st" "q \<noteq> n \<Longrightarrow> nodes st0 q = nodes st q" "on_NodeOrder (nodes st0 n) = o'"
    "bs_PriceLevelPool st0 = bs_PriceLevelPool st" for q
    by (simp_all add: st0_def enter_order_def Let_def e(2) node_defs)
  have side0: "side_ok c bk (levels st0) (nodes st0) L" "side_ok c' bk' (levels st0) (nodes st0) L'"
    by (rule side_frame[OF T(1)] side_frame[OF T(2)]; (rule st0(2))?; use e(3) st0(1) in \<open>auto\<close>)+
  have "\<exists>l bk1 L1 st1. OrderBook_AddLimitOrder n bk st0 = Some (l, bk1, st1) \<and> rested c bk L c' bk' L' st o' l bk1 L1 st1"
  proof (cases "?p \<in> fst ` set L")
    case True
    then show ?thesis by (rule rest_on_level[OF inv _ st0(1-3) side0 e(3) e(5)[folded st0_def]])
  next
    case False
    have room: "fhm_room (bk_FastMap bk) (u64_of_i64 ?p)" "0 < skip_avail (bk_BestPricesMap bk)"
      "stp_free (bs_PriceLevelPool st0) \<noteq> []" "price_ok ?p"
      using False can st0(4) by (auto simp: can_rest_def)
    show ?thesis by (rule rest_on_new_level[OF inv False room(4,1-3) st0(1-3) side0 e(3) e(5)[folded st0_def]])
  qed
  then show ?thesis using e(1,2,4) unfolding st0_def by blast
qed

section \<open>Finding an order by its identifier\<close>

lemma node_id_order: "node_id h n = id64 (on_NodeOrder (h n))"
  by (simp add: node_id_def id64_def order_id32_def OrderNode_GetId_def)

lemma id64_inject: "id64 a = id64 b \<longleftrightarrow> order_id32 a = order_id32 b"
  by (simp add: id64_def ucast_u32_u64_inject)

lemma remove_id_side:
  assumes d: "distinct (node_ptrs (X @ (p, l, A @ n # C) # Y))"
    and inj: "inj_on (node_id h) N" "set (node_ptrs (X @ (p, l, A @ n # C) # Y)) \<subseteq> N"
  shows "remove_id (order_id32 (on_NodeOrder (h n))) (orders_of h (X @ (p, l, A @ n # C) # Y)) =
    orders_of h (side_minus X p l (A @ C) Y)"
proof -
  let ?L = "node_ptrs (X @ (p, l, A @ n # C) # Y)"
  have id: "order_id32 (on_NodeOrder (h m)) \<noteq> order_id32 (on_NodeOrder (h n))" if "m \<in> set ?L" "m \<noteq> n" for m
  proof -
    have "m \<in> N" "n \<in> N" using inj(2) that(1) by auto
    with inj(1) that(2) have "node_id h m \<noteq> node_id h n" by (auto simp: inj_on_def)
    then show ?thesis by (simp add: node_id_order id64_inject)
  qed
  have "remove_id (order_id32 (on_NodeOrder (h n))) (map (\<lambda>m. on_NodeOrder (h m)) ns) = map (\<lambda>m. on_NodeOrder (h m)) ns"
    if "set ns \<subseteq> set ?L - {n}" for ns
    using that id unfolding remove_id_def by (intro filter_True) auto
  moreover have "set (node_ptrs X @ A) \<subseteq> set ?L - {n}" "set (C @ node_ptrs Y) \<subseteq> set ?L - {n}" using d by auto
  ultimately have "remove_id (order_id32 (on_NodeOrder (h n))) (map (\<lambda>m. on_NodeOrder (h m)) (node_ptrs X @ A)) =
      map (\<lambda>m. on_NodeOrder (h m)) (node_ptrs X @ A)"
    "remove_id (order_id32 (on_NodeOrder (h n))) (map (\<lambda>m. on_NodeOrder (h m)) (C @ node_ptrs Y)) =
      map (\<lambda>m. on_NodeOrder (h m)) (C @ node_ptrs Y)" by blast+
  then show ?thesis by (simp add: orders_of_def side_minus_ptrs remove_id_def)
qed

text \<open>What the order map returns for the identifier carried by a cancellation request.\<close>

lemma find_order:
  assumes inv: "two_sides c bk L c' bk' L' st"
  shows "n \<in> set (node_ptrs L) \<Longrightarrow>
      FlatHashMap_GetVal (ucast (order_id32 (on_NodeOrder (nodes st n)))) (bs_OrderMap st) = Some (Some n)"
    "(\<And>o'. o' \<in> set (orders_of (nodes st) L) \<union> set (orders_of (nodes st) L') \<Longrightarrow> order_id32 o' \<noteq> i) \<Longrightarrow>
      FlatHashMap_GetVal (ucast i) (bs_OrderMap st) = None"
    "FlatHashMap_GetVal k (bs_OrderMap st) = Some v \<Longrightarrow> \<exists>n. v = Some n \<and> n \<in> set (node_ptrs L) \<union> set (node_ptrs L') \<and>
      k = id64 (on_NodeOrder (nodes st n))"
proof -
  note S = store_okD[OF two_sidesD(3)[OF inv]]
  have get: "FlatHashMap_GetVal k (bs_OrderMap st) = fhm_lookup (bs_OrderMap st) k" for k by (rule fhm.get_lookup[OF S(7)])
  show "FlatHashMap_GetVal (ucast (order_id32 (on_NodeOrder (nodes st n)))) (bs_OrderMap st) = Some (Some n)"
    if "n \<in> set (node_ptrs L)"
    unfolding get S(9) using that by (auto simp: node_id_order id64_def)
  show r: "\<exists>n. v = Some n \<and> n \<in> set (node_ptrs L) \<union> set (node_ptrs L') \<and> k = id64 (on_NodeOrder (nodes st n))"
    if "FlatHashMap_GetVal k (bs_OrderMap st) = Some v" for k v
    using that unfolding get S(9) by (auto simp: node_id_order)
  show "FlatHashMap_GetVal (ucast i) (bs_OrderMap st) = None"
    if no: "\<And>o'. o' \<in> set (orders_of (nodes st) L) \<union> set (orders_of (nodes st) L') \<Longrightarrow> order_id32 o' \<noteq> i"
  proof (rule ccontr)
    assume "FlatHashMap_GetVal (ucast i) (bs_OrderMap st) \<noteq> None"
    then obtain n where n: "n \<in> set (node_ptrs L) \<union> set (node_ptrs L')" "(ucast i :: u64) = id64 (on_NodeOrder (nodes st n))"
      using r by blast
    then have "on_NodeOrder (nodes st n) \<in> set (orders_of (nodes st) L) \<union> set (orders_of (nodes st) L')"
      by (auto simp: orders_of_def)
    from no[OF this] n(2) show False by (simp add: id64_def ucast_u32_u64_inject)
  qed
qed

lemma node_split:
  assumes "n \<in> set (node_ptrs L)"
  obtains X p l A C Y where "L = X @ (p, l, A @ n # C) # Y"
proof -
  from assms obtain e where "e \<in> set L" "n \<in> set (snd (snd e))" by (auto simp: node_ptrs_def split_beta)
  moreover obtain p l ns where "e = (p, l, ns)" by (cases e)
  ultimately show thesis using that by (auto dest!: split_list)
qed

lemma CancelOrder_reports_only:
  assumes inv: "ba_inv b LB LA"
    and no: "\<And>o'. o' \<in> set (ab_Bids (book_abs b LB LA)) \<union> set (ab_Asks (book_abs b LB LA)) \<Longrightarrow>
      order_id32 o' = ord_Amount req \<Longrightarrow> ord_ClientId o' \<noteq> ord_ClientId req"
  shows "CancelOrder side req b = report_try (\<lambda>q. FillReport 0 0 0 q (ord_ClientId req) (ucast (ord_OrderId req)) 0 0 0 REJECT) b"
proof (cases "FlatHashMap_GetVal (ucast (ord_Amount req)) (bs_OrderMap (ba_Store b))")
  case None
  then show ?thesis by (simp add: CancelOrder_def)
next
  case (Some v)
  have T: "two_sides Greater (ba_Bid b) LB Less (ba_Ask b) LA (ba_Store b)" using inv by (simp add: ba_inv_def)
  from find_order(3)[OF T Some] obtain n where n: "v = Some n" "n \<in> set (node_ptrs LB) \<union> set (node_ptrs LA)"
    "(ucast (ord_Amount req) :: u64) = id64 (on_NodeOrder (nodes (ba_Store b) n))" by blast
  then have "order_id32 (on_NodeOrder (nodes (ba_Store b) n)) = ord_Amount req" by (simp add: id64_def ucast_u32_u64_inject)
  moreover have "on_NodeOrder (nodes (ba_Store b) n) \<in> set (ab_Bids (book_abs b LB LA)) \<union> set (ab_Asks (book_abs b LB LA))"
    using n(2) by (auto simp: book_abs_def orders_of_def)
  ultimately have "OrderNode_GetClientId (nodes (ba_Store b) n) \<noteq> ord_ClientId req" using no by (simp add: OrderNode_GetClientId_def)
  then show ?thesis using Some n(1) by (simp add: CancelOrder_def)
qed

lemma CancelOrder_reject:
  assumes inv: "ba_inv b LB LA" and room: "1 \<le> report_room b"
    and no: "\<And>o'. o' \<in> set (ab_Bids (book_abs b LB LA)) \<union> set (ab_Asks (book_abs b LB LA)) \<Longrightarrow>
      order_id32 o' = ord_Amount req \<Longrightarrow> ord_ClientId o' \<noteq> ord_ClientId req"
  shows "\<exists>b'. CancelOrder side req b = Some b' \<and> ba_inv b' LB LA \<and>
    book_abs b' LB LA = spec_reject req (book_abs b LB LA) \<and> same_book b b'"
proof -
  have "0 < report_room b" using room by simp
  from report_step[OF inv this, of "\<lambda>s. FillReport 0 0 0 s (ord_ClientId req) (order_id32 req) 0 0 0 REJECT"] obtain b' where
    "report_try (\<lambda>s. FillReport 0 0 0 s (ord_ClientId req) (order_id32 req) 0 0 0 REJECT) b = Some b'" "ba_inv b' LB LA"
      "book_abs b' LB LA = spec_reject req (book_abs b LB LA)" "same_book b b'" unfolding spec_reject_def by metis
  then show ?thesis using CancelOrder_reports_only[OF inv no, where side = side] by (auto simp: order_id32_def)
qed

end
