(* ===== verification/Matching_Buy.thy ===== *)
theory Matching_Buy
  imports Matching_Rest
begin

text \<open>
  A buy order against the asks: the trade with the best offer, the sweep of \<open>FillBuyOrder\<close>, resting the
  remainder on the bid side; and the cancellation of a resting ask.  Each is shown to return and to
  refine its specification.
\<close>

section \<open>A trade\<close>

lemma ba_inv_reduce_ask:
  assumes inv: "ba_inv b LB ((p, l, n # ns) # Y)"
    and b1: "b1 = b \<lparr> ba_MarketPrice := mp, ba_Store := reduce_head l n t (ba_Store b) \<rparr>"
  shows "ba_inv b1 LB ((p, l, n # ns) # Y)"
    "book_abs b1 LB ((p, l, n # ns) # Y) = (book_abs b LB ((p, l, n # ns) # Y)) \<lparr> ab_MarketPrice := mp,
       ab_Asks := less_amount t (on_NodeOrder (nodes (ba_Store b) n)) # tl (ab_Asks (book_abs b LB ((p, l, n # ns) # Y))) \<rparr>"
    "ucast (pl_TotalAmount (levels (ba_Store b1) l)) = depth_at p (ab_Asks (book_abs b1 LB ((p, l, n # ns) # Y)))"
proof -
  have "two_sides Less (ba_Ask b) ((p, l, n # ns) # Y) Greater (ba_Bid b) LB (ba_Store b)"
    using inv by (simp add: ba_inv_def two_sides_sym)
  note R = two_sides_reduce[where t = t, OF this]
  show "ba_inv b1 LB ((p, l, n # ns) # Y)"
    using inv R(1) by (simp add: ba_inv_def b1 two_sides_sym)
  show "book_abs b1 LB ((p, l, n # ns) # Y) = (book_abs b LB ((p, l, n # ns) # Y)) \<lparr> ab_MarketPrice := mp,
      ab_Asks := less_amount t (on_NodeOrder (nodes (ba_Store b) n)) # tl (ab_Asks (book_abs b LB ((p, l, n # ns) # Y))) \<rparr>"
    using R(2,3) by (simp add: book_abs_def b1)
  show "ucast (pl_TotalAmount (levels (ba_Store b1) l)) = depth_at p (ab_Asks (book_abs b1 LB ((p, l, n # ns) # Y)))"
    using R(4) by (simp add: book_abs_def b1)
qed

lemma ba_inv_delete_ask:
  assumes inv: "ba_inv b LB (X @ (p, l, A @ n # C) # Y)"
  shows "\<exists>cur bk st. OrderBook_DeleteOrder n (ba_Ask b) (ba_Store b) = Some (cur, bk, st) \<and>
    ba_inv (b \<lparr> ba_Ask := bk, ba_Store := st \<rparr>) LB (side_minus X p l (A @ C) Y) \<and>
    book_abs (b \<lparr> ba_Ask := bk, ba_Store := st \<rparr>) LB (side_minus X p l (A @ C) Y) =
      (book_abs b LB (X @ (p, l, A @ n # C) # Y)) \<lparr> ab_Asks := orders_of (nodes (ba_Store b)) (side_minus X p l (A @ C) Y) \<rparr> \<and>
    level_depth (b \<lparr> ba_Ask := bk, ba_Store := st \<rparr>) cur =
      depth_at p (orders_of (nodes (ba_Store b)) (side_minus X p l (A @ C) Y)) \<and> store_grows (ba_Store b) st"
proof -
  let ?M = "side_minus X p l (A @ C) Y"
  have "two_sides Less (ba_Ask b) (X @ (p, l, A @ n # C) # Y) Greater (ba_Bid b) LB (ba_Store b)"
    using inv by (simp add: ba_inv_def two_sides_sym)
  from two_sides_delete[OF this] obtain cur bk st where
    d: "OrderBook_DeleteOrder n (ba_Ask b) (ba_Store b) = Some (cur, bk, st)"
      "two_sides Less bk ?M Greater (ba_Bid b) LB st"
      "\<And>q. on_NodeOrder (nodes st q) = on_NodeOrder (nodes (ba_Store b) q)"
      "(case cur of Some k \<Rightarrow> ucast (pl_TotalAmount (levels st k)) | None \<Rightarrow> 0) = depth_at p (orders_of (nodes st) ?M)"
      "store_grows (ba_Store b) st" by blast
  have o: "orders_of (nodes st) L = orders_of (nodes (ba_Store b)) L" for L
    using d(3) by (intro orders_of_cong) simp
  have "ba_inv (b \<lparr> ba_Ask := bk, ba_Store := st \<rparr>) LB ?M"
    using inv d(2) side_minus_ptrs(3)[of X p l "A @ C" Y] by (fastforce simp: ba_inv_def two_sides_sym)
  moreover have "book_abs (b \<lparr> ba_Ask := bk, ba_Store := st \<rparr>) LB ?M =
      (book_abs b LB (X @ (p, l, A @ n # C) # Y)) \<lparr> ab_Asks := orders_of (nodes (ba_Store b)) ?M \<rparr>"
    by (simp add: book_abs_def o)
  moreover have "level_depth (b \<lparr> ba_Ask := bk, ba_Store := st \<rparr>) cur = depth_at p (orders_of (nodes (ba_Store b)) ?M)"
    using d(4) by (simp add: level_depth_def o split: option.splits)
  ultimately show ?thesis using d(1,5) by blast
qed

text \<open>The code of one trade, once the three messages are published.\<close>

lemma FillBuy_trade_eq:
  assumes offer: "offer = on_NodeOrder (nodes (ba_Store b) n)" "ord_Price offer = p" and best: "ba_BestAskPrice b = p"
    and t: "t = traded order offer"
    and b1: "b1 = b \<lparr> ba_MarketPrice := (if t > 0 then p else ba_MarketPrice b), ba_Store := reduce_head l n t (ba_Store b) \<rparr>"
    and on: "on_NodeOrder (nodes (ba_Store b1) n) = less_amount t offer" "on_Next (nodes (ba_Store b1) n) = nxt"
    and pub: "report_try (buyer_report (asset16 b) t p (less_amount t order)) b1 = Some b2"
      "report_try (seller_report (asset16 b) t p (less_amount t offer)) b2 = Some b3"
      "update_try (\<lambda>q. FillUpdate q (level_depth b1 (Some l)) p (asset16 b) ORDER_BOOK_UPDATE_SELL) b3 = Some b4"
    and same: "same_book b1 b2" "same_book b1 b3" "same_book b1 b4"
  shows "FillBuy_trade l n order locked b =
     (if ord_Amount (less_amount t offer) = 0
      then do { (_, bk, st) \<leftarrow> OrderBook_DeleteOrder n (ba_Ask b4) (ba_Store b4);
                Some (nxt, less_amount t order, wrap64 (locked + wrap64 (- uint t * p)), b4 \<lparr> ba_Ask := bk, ba_Store := st \<rparr>) }
      else Some (Some n, less_amount t order, wrap64 (locked + wrap64 (- uint t * p)), b4))"
proof -
  have fields: "OrderNode_GetAmount (nodes (ba_Store b) n) = ord_Amount offer" "OrderNode_GetPrice (nodes (ba_Store b) n) = p"
    "ba_BestAskPrice b1 = p" "ba_MarketAssetId b1 = ba_MarketAssetId b"
    using offer best by (simp_all add: node_defs b1)
  have amt: "OrderNode_GetAmount (nodes (ba_Store b1) n) = ord_Amount (less_amount t offer)"
    by (simp add: node_defs on(1))
  have st: "ba_Store b2 = ba_Store b1" "ba_Store b3 = ba_Store b1" "ba_Store b4 = ba_Store b1" "ba_BestAskPrice b2 = p"
    "ba_BestAskPrice b3 = p" "ba_MarketAssetId b2 = ba_MarketAssetId b" "ba_MarketAssetId b3 = ba_MarketAssetId b"
    using same fields(3,4) by (simp_all add: same_book_def)
  have e1: "report_try (\<lambda>s. FillReport (uint t) (wrap64 (- uint t * p)) (wrap64 (- uint t * p)) s (ord_ClientId order)
      (ucast (ord_OrderId order)) 0 (asset16 b) 0 (if ord_Amount (less_amount t order) > 0 then PARTIAL_FILL else FILL)) b1 = Some b2"
    using pub(1) by (simp add: buyer_report_def[abs_def] fill_state_def order_id32_def less_amount_def)
  have e2: "report_try (\<lambda>s. FillReport (wrap64 (uint t * p)) (- uint t) (- uint t) s
      (OrderNode_GetClientId (nodes (ba_Store b1) n)) (OrderNode_GetId (nodes (ba_Store b1) n)) 0 0 (asset16 b)
      (if OrderNode_GetAmount (nodes (ba_Store b1) n) > 0 then PARTIAL_FILL else FILL)) b2 = Some b3"
    using pub(2) by (simp add: seller_report_def[abs_def] fill_state_def order_id32_def node_defs on(1))
  have e3: "update_try (\<lambda>s. FillUpdate s (level_depth b3 (Some l)) p (asset16 b) ORDER_BOOK_UPDATE_SELL) b3 = Some b4"
    using pub(3) by (simp add: level_depth_def st(2))
  have tt: "(if ord_Amount order < ord_Amount offer then ord_Amount order else ord_Amount offer) = t"
    by (simp only: t traded_if)
  have b1': "b \<lparr> ba_MarketPrice := if 0 < t then p else ba_MarketPrice b,
      ba_Store := set_level l (PriceLevel_IncTotalAmount (uint (- t)) (levels (ba_Store b) l))
        (set_nodes ((nodes (ba_Store b))(n := OrderNode_SetAmount (ord_Amount offer - t) (nodes (ba_Store b) n))) (ba_Store b)) \<rparr> = b1"
    by (simp add: b1 reduce_head_def Let_def fields(1))
  have ord': "order \<lparr> ord_Amount := ord_Amount order - t \<rparr> = less_amount t order"
    "ord_ClientId (less_amount t order) = ord_ClientId order" "ord_OrderId (less_amount t order) = ord_OrderId order"
    by (simp_all add: less_amount_def)
  show ?thesis
    unfolding FillBuy_trade_def Let_def fields(1,2) tt ord'(1)
    using e1 e2 e3 best
    by (cases "ord_Amount (less_amount t offer) = 0")
      (simp_all add: fields amt b1' ord'(2,3) st on split del: if_split)
qed

text \<open>A completely filled offer leaves the book.\<close>

lemma drop_filled_ask:
  assumes inv: "ba_inv b LB ((p, l, n # ns) # Y)" and LA': "LA' = (if z then side_minus [] p l ns Y else (p, l, n # ns) # Y)"
    and asks: "ab_Asks (book_abs b LB ((p, l, n # ns) # Y)) = offer # rest"
  obtains b' where
    "(if z then do { (_, bk, st) \<leftarrow> OrderBook_DeleteOrder n (ba_Ask b) (ba_Store b); Some (f (b \<lparr> ba_Ask := bk, ba_Store := st \<rparr>)) }
      else Some (g b)) = Some (if z then f b' else g b')"
    "ba_inv b' LB LA'"
    "book_abs b' LB LA' = (book_abs b LB ((p, l, n # ns) # Y)) \<lparr> ab_Asks := (if z then rest else offer # rest) \<rparr>"
    "ba_BestAskPrice b' = ba_BestAskPrice b" "report_room b' = report_room b" "update_room b' = update_room b"
    "ba_Bid b' = ba_Bid b" "keeps b b'"
proof (cases z)
  case True
  from ba_inv_delete_ask[where X = "[]" and A = "[]"] inv obtain cur bk st where
    d: "OrderBook_DeleteOrder n (ba_Ask b) (ba_Store b) = Some (cur, bk, st)"
      "ba_inv (b \<lparr> ba_Ask := bk, ba_Store := st \<rparr>) LB (side_minus [] p l ns Y)"
      "book_abs (b \<lparr> ba_Ask := bk, ba_Store := st \<rparr>) LB (side_minus [] p l ns Y) =
        (book_abs b LB ((p, l, n # ns) # Y)) \<lparr> ab_Asks := orders_of (nodes (ba_Store b)) (side_minus [] p l ns Y) \<rparr>"
      "store_grows (ba_Store b) st" by fastforce
  have "orders_of (nodes (ba_Store b)) (side_minus [] p l ns Y) = rest"
    using arg_cong[OF asks, of tl] by (simp add: book_abs_def orders_of_def side_minus_ptrs)
  with d True show thesis by (intro that[of "b \<lparr> ba_Ask := bk, ba_Store := st \<rparr>"]) (simp_all add: LA' keeps_def)
next
  case False
  have "(book_abs b LB ((p, l, n # ns) # Y)) \<lparr> ab_Asks := offer # rest \<rparr> = book_abs b LB ((p, l, n # ns) # Y)"
    unfolding asks[symmetric] by simp
  with False inv show thesis by (intro that[of b]) (simp_all add: LA' keeps_def)
qed

lemma FillBuy_trade_ok:
  assumes inv: "ba_inv b LB ((p, l, n # ns) # Y)" and best: "ba_BestAskPrice b = p"
    and room: "2 \<le> report_room b" "1 \<le> update_room b"
    and offer: "offer = on_NodeOrder (nodes (ba_Store b) n)" and t: "t = traded order offer"
    and rest: "rest = map (\<lambda>n. on_NodeOrder (nodes (ba_Store b) n)) ns @ asks b Y"
    and LA': "LA' = (if ord_Amount (less_amount t offer) = 0 then side_minus [] p l ns Y else (p, l, n # ns) # Y)"
  shows "\<exists>b' locked'. FillBuy_trade l n order locked b =
      Some (if ord_Amount (less_amount t offer) = 0 then hd_opt ns else Some n, less_amount t order, locked', b') \<and>
    ba_inv b' LB LA' \<and>
    trade_buy (asset16 b) order locked offer rest (book_abs b LB ((p, l, n # ns) # Y)) =
      (less_amount t order, locked', book_abs b' LB LA') \<and>
    ba_BestAskPrice b' = p \<and> report_room b = report_room b' + 2 \<and> update_room b = Suc (update_room b') \<and>
    ba_Bid b' = ba_Bid b \<and> keeps b b'"
proof -
  let ?LA = "(p, l, n # ns) # Y" and ?z = "ord_Amount (less_amount t offer) = 0"
  define b1 where "b1 = b \<lparr> ba_MarketPrice := (if t > 0 then p else ba_MarketPrice b), ba_Store := reduce_head l n t (ba_Store b) \<rparr>"
  define locked' where "locked' = wrap64 (locked + wrap64 (- uint t * p))"
  have T: "two_sides Less (ba_Ask b) ?LA Greater (ba_Bid b) LB (ba_Store b)"
    using inv by (simp add: ba_inv_def two_sides_sym)
  note H = reduced_head(1)[OF T] reduced_head(2-4)[where t = t, OF T] and R = ba_inv_reduce_ask[OF inv b1_def]
  have price: "ord_Price offer = p" using H(1) by (simp add: offer)
  have on: "on_NodeOrder (nodes (ba_Store b1) n) = less_amount t offer" "on_Next (nodes (ba_Store b1) n) = hd_opt ns"
    using H(2,3) by (simp_all add: b1_def offer)
  have abs1: "book_abs b1 LB ?LA = (book_abs b LB ?LA) \<lparr> ab_MarketPrice := (if t > 0 then p else ab_MarketPrice (book_abs b LB ?LA)),
      ab_Asks := less_amount t offer # rest \<rparr>"
    unfolding R(2) by (simp add: book_abs_def offer rest)
  have dep: "level_depth b1 (Some l) = depth_at p (less_amount t offer # rest)"
    using R(3) by (simp add: level_depth_def abs1)
  have "2 \<le> report_room b1" "1 \<le> update_room b1" using room by (simp_all add: b1_def)
  from fill_published[where f = "buyer_report (asset16 b) t p (less_amount t order)"
      and g = "seller_report (asset16 b) t p (less_amount t offer)"
      and u = "\<lambda>q. FillUpdate q (level_depth b1 (Some l)) p (asset16 b) ORDER_BOOK_UPDATE_SELL", OF R(1) this]
  obtain b2 b3 b4 where
    pub: "report_try (buyer_report (asset16 b) t p (less_amount t order)) b1 = Some b2"
      "report_try (seller_report (asset16 b) t p (less_amount t offer)) b2 = Some b3"
      "update_try (\<lambda>q. FillUpdate q (level_depth b1 (Some l)) p (asset16 b) ORDER_BOOK_UPDATE_SELL) b3 = Some b4"
    and 4: "ba_inv b4 LB ?LA" "book_abs b4 LB ?LA =
        emit_update (\<lambda>q. FillUpdate q (level_depth b1 (Some l)) p (asset16 b) ORDER_BOOK_UPDATE_SELL)
          (emit_report (seller_report (asset16 b) t p (less_amount t offer))
            (emit_report (buyer_report (asset16 b) t p (less_amount t order)) (book_abs b1 LB ?LA)))"
    and same: "same_book b1 b2" "same_book b1 b3" "same_book b1 b4"
    and rooms: "report_room b1 = report_room b4 + 2" "update_room b1 = Suc (update_room b4)" by metis
  have k4: "keeps b b4" "ba_Bid b4 = ba_Bid b" "ba_BestAskPrice b4 = p"
    using same(3) H(4) best by (simp_all add: keeps_def same_book_def b1_def)
  have asks4: "ab_Asks (book_abs b4 LB ?LA) = less_amount t offer # rest"
    unfolding 4(2) abs1 by (simp add: emit_report_def emit_update_def)
  from drop_filled_ask[where f = "Pair (hd_opt ns) \<circ> Pair (less_amount t order) \<circ> Pair locked'"
      and g = "Pair (Some n) \<circ> Pair (less_amount t order) \<circ> Pair locked'", OF 4(1) LA' asks4]
  obtain b' where
    d: "FillBuy_trade l n order locked b = Some (if ?z then (hd_opt ns, less_amount t order, locked', b')
        else (Some n, less_amount t order, locked', b'))" "ba_inv b' LB LA'"
      "book_abs b' LB LA' = (book_abs b4 LB ?LA) \<lparr> ab_Asks := (if ?z then rest else less_amount t offer # rest) \<rparr>"
      "ba_BestAskPrice b' = ba_BestAskPrice b4" "report_room b' = report_room b4" "update_room b' = update_room b4"
      "ba_Bid b' = ba_Bid b4" "keeps b4 b'"
    unfolding FillBuy_trade_eq[OF offer price best t b1_def on pub same] locked'_def[symmetric] o_def by blast
  have dz: "depth_at p (after_trade t offer rest) = depth_at p (less_amount t offer # rest)"
    by (simp add: after_trade_def)
  have "trade_buy (asset16 b) order locked offer rest (book_abs b LB ?LA) = (less_amount t order, locked', book_abs b' LB LA')"
    unfolding d(3) 4(2) abs1 trade_buy_def Let_def t[symmetric] price locked'_def[symmetric] dep dz
    by (simp add: emit_report_def emit_update_def after_trade_def)
  moreover have "keeps b b'" using k4(1) d(8) store_grows_trans by (auto simp: keeps_def)
  moreover have "report_room b = report_room b' + 2" "update_room b = Suc (update_room b')"
    using rooms d(5,6) by (simp_all add: b1_def)
  ultimately show ?thesis using d(1,2,4,7) k4(2,3) by auto
qed

section \<open>The sweep\<close>

text \<open>Leaving the inner loop and entering the outer one again, or going round the inner loop, are the
  same: the outer loop finds the level and the offer where the inner loop left them.\<close>

lemma FillBuy_level_none: "FillBuy_level l None order locked b = Some (order, locked, b)"
  by (subst FillBuy_level.simps) simp

lemma FillBuy_resume:
  assumes inv: "ba_inv b LB ((p, l, n # ns) # Y)" and best: "ba_BestAskPrice b = p" "p \<le> ord_Price order"
  shows "do { (order, locked, b) \<leftarrow> FillBuy_level l (Some n) order locked b; FillBuy_sweep order locked b } =
    FillBuy_sweep order locked b"
proof -
  have side: "side_ok Less (ba_Ask b) (levels (ba_Store b)) (nodes (ba_Store b)) ((p, l, n # ns) # Y)"
    using inv by (simp add: ba_inv_def two_sides_def)
  have b: "FillBuy_level l (Some n) order locked (b \<lparr> ba_BestAskPrice := p \<rparr>) = FillBuy_level l (Some n) order locked b"
    using best(1) by (intro arg_cong[where f = "FillBuy_level l (Some n) order locked"]) simp
  show ?thesis
  proof (cases "ord_Amount order > 0 \<and> IsMarketable order b")
    case True
    show ?thesis
      unfolding FillBuy_sweep.simps[of order locked b]
      using True best_level(1)[OF side] best_level(2,3)[OF side refl] best b by (simp add: hd_opt_def)
  next
    case False
    show ?thesis
      unfolding FillBuy_level.simps[of l "Some n" order locked b] using False by auto
  qed
qed

lemma FillBuy_sweep_step:
  assumes inv: "ba_inv b LB ((p, l, n # ns) # Y)" and amt: "ord_Amount order > 0" and m: "IsMarketable order b"
  shows "FillBuy_sweep order locked b =
    (if p > ord_Price order then Some (order, locked, b \<lparr> ba_BestAskPrice := p \<rparr>)
     else do { (nxt, order, locked, b) \<leftarrow> FillBuy_trade l n order locked (b \<lparr> ba_BestAskPrice := p \<rparr>);
               (order, locked, b) \<leftarrow> FillBuy_level l nxt order locked b;
               FillBuy_sweep order locked b })"
proof -
  have side: "side_ok Less (ba_Ask b) (levels (ba_Store b)) (nodes (ba_Store b)) ((p, l, n # ns) # Y)"
    using inv by (simp add: ba_inv_def two_sides_def)
  have m': "IsMarketable order (b \<lparr> ba_BestAskPrice := p \<rparr>)" if "p \<le> ord_Price order"
    using m that by (auto simp: IsMarketable_def Let_def)
  show ?thesis
    unfolding FillBuy_sweep.simps[of order locked b]
    using best_level(1)[OF side] best_level(2,3)[OF side refl] amt m m'
    by (auto simp: hd_opt_def FillBuy_level.simps[of l "Some n"] split: bind_splits)
qed

lemma FillBuy_sweep_done:
  "ord_Amount order = 0 \<Longrightarrow> FillBuy_sweep order locked b = Some (order, locked, b)"
  "ba_inv b LB [] \<Longrightarrow> FillBuy_sweep order locked b = Some (order, locked, b)"
proof -
  show "ord_Amount order = 0 \<Longrightarrow> FillBuy_sweep order locked b = Some (order, locked, b)"
    by (subst FillBuy_sweep.simps) simp
  assume "ba_inv b LB []"
  then have "side_ok Less (ba_Ask b) (levels (ba_Store b)) (nodes (ba_Store b)) []"
    by (simp add: ba_inv_def two_sides_def)
  from best_level(1)[OF this] show "FillBuy_sweep order locked b = Some (order, locked, b)"
    by (subst FillBuy_sweep.simps) (simp add: hd_opt_def)
qed

lemma sweep_buy_done:
  "ord_Amount order = 0 \<Longrightarrow> sweep_buy k asset order locked s = (order, locked, s)"
  "ab_Asks s = [] \<Longrightarrow> sweep_buy k asset order locked s = (order, locked, s)"
  by (cases k; auto split: list.splits)+

text \<open>What a finished sweep establishes.\<close>

definition swept_buy :: "nat \<Rightarrow> Order \<Rightarrow> i64 \<Rightarrow> BidAsk \<Rightarrow> side \<Rightarrow> side \<Rightarrow> Order \<Rightarrow> i64 \<Rightarrow> BidAsk \<Rightarrow> side \<Rightarrow> bool" where
  "swept_buy k order locked b LB LA order' locked' b' LA' \<longleftrightarrow>
     FillBuy_sweep order locked b = Some (order', locked', b') \<and> ba_inv b' LB LA' \<and>
     sweep_buy k (asset16 b) order locked (book_abs b LB LA) = (order', locked', book_abs b' LB LA') \<and>
     report_room b \<le> report_room b' + 2 * length (node_ptrs LA) \<and>
     update_room b \<le> update_room b' + length (node_ptrs LA) \<and> ba_Bid b' = ba_Bid b \<and> keeps b b' \<and>
     (\<exists>a. order' = order \<lparr> ord_Amount := a \<rparr>)"

lemma best_ask_bound:
  assumes "ba_inv b LB ((p, l, ns) # Y)"
  shows "ba_inv (b \<lparr> ba_BestAskPrice := p \<rparr>) LB ((p, l, ns) # Y)"
    "book_abs (b \<lparr> ba_BestAskPrice := p \<rparr>) LB ((p, l, ns) # Y) = (book_abs b LB ((p, l, ns) # Y)) \<lparr> ab_BestAsk := p \<rparr>"
proof -
  have side: "side_ok Less (ba_Ask b) (levels (ba_Store b)) (nodes (ba_Store b)) ((p, l, ns) # Y)"
    using assms by (simp add: ba_inv_def two_sides_def)
  have "p \<le> fst e" if "e \<in> set ((p, l, ns) # Y)" for e using best_level(4)[OF side refl that] by auto
  then show "ba_inv (b \<lparr> ba_BestAskPrice := p \<rparr>) LB ((p, l, ns) # Y)" using assms by (simp add: ba_inv_def)
  show "book_abs (b \<lparr> ba_BestAskPrice := p \<rparr>) LB ((p, l, ns) # Y) = (book_abs b LB ((p, l, ns) # Y)) \<lparr> ab_BestAsk := p \<rparr>"
    by (simp add: book_abs_def)
qed

lemma FillBuy_next:
  assumes inv: "ba_inv b LB LA" and best: "ba_BestAskPrice b = p" "p \<le> ord_Price order"
    and LA: "LA = (if zero then side_minus [] p l ns Y else (p, l, n # ns) # Y)"
  shows "do { (order, locked, b) \<leftarrow> FillBuy_level l (if zero then hd_opt ns else Some n) order locked b;
              FillBuy_sweep order locked b } = FillBuy_sweep order locked b"
proof (cases "zero \<and> ns = []")
  case True
  then show ?thesis by (simp add: hd_opt_def FillBuy_level_none)
next
  case False
  then obtain m ms where "LA = (p, l, m # ms) # Y" "(if zero then hd_opt ns else Some n) = Some m"
    using LA by (cases zero; cases ns) (auto simp: side_minus_def hd_opt_def)
  with FillBuy_resume[where b = b and p = p and l = l and n = m and ns = ms and Y = Y and order = order and locked = locked and LB = LB] inv best show ?thesis by simp
qed

text \<open>One trade and the rest of the sweep.\<close>

lemma FillBuy_sweep_trade:
  assumes inv: "ba_inv b LB ((p, l, n # ns) # Y)" and amt: "ord_Amount order > 0" and m: "IsMarketable order b"
    and p: "p \<le> ord_Price order" and room: "2 \<le> report_room b" "1 \<le> update_room b"
    and offer: "offer = on_NodeOrder (nodes (ba_Store b) n)"
    and rest: "rest = map (\<lambda>n. on_NodeOrder (nodes (ba_Store b) n)) ns @ asks b Y"
  shows "\<exists>b1 locked1 LA1. FillBuy_sweep order locked b = FillBuy_sweep (less_amount (traded order offer) order) locked1 b1 \<and>
    ba_inv b1 LB LA1 \<and> trade_buy (asset16 b) order locked offer rest (book_abs (b \<lparr> ba_BestAskPrice := p \<rparr>) LB ((p, l, n # ns) # Y)) =
      (less_amount (traded order offer) order, locked1, book_abs b1 LB LA1) \<and>
    ba_BestAskPrice b1 = p \<and> report_room b = report_room b1 + 2 \<and> update_room b = Suc (update_room b1) \<and>
    ba_Bid b1 = ba_Bid b \<and> keeps b b1 \<and>
    (ord_Amount (less_amount (traded order offer) order) > 0 \<longrightarrow>
       length (node_ptrs ((p, l, n # ns) # Y)) = Suc (length (node_ptrs LA1)))"
proof -
  let ?b = "b \<lparr> ba_BestAskPrice := p \<rparr>" and ?t = "traded order offer"
  let ?z = "ord_Amount (less_amount ?t offer) = 0"
  define LA1 where "LA1 = (if ?z then side_minus [] p l ns Y else (p, l, n # ns) # Y)"
  note B = best_ask_bound[OF inv]
  have "ba_BestAskPrice ?b = p" "2 \<le> report_room ?b" "1 \<le> update_room ?b" using room by simp_all
  moreover have "offer = on_NodeOrder (nodes (ba_Store ?b) n)"
    "rest = map (\<lambda>n. on_NodeOrder (nodes (ba_Store ?b) n)) ns @ asks ?b Y" using offer rest by simp_all
  ultimately obtain b1 locked1 where
    t: "FillBuy_trade l n order locked ?b = Some (if ?z then hd_opt ns else Some n, less_amount ?t order, locked1, b1)"
      "ba_inv b1 LB LA1" "trade_buy (asset16 ?b) order locked offer rest (book_abs ?b LB ((p, l, n # ns) # Y)) =
         (less_amount ?t order, locked1, book_abs b1 LB LA1)" "ba_BestAskPrice b1 = p"
      "report_room ?b = report_room b1 + 2" "update_room ?b = Suc (update_room b1)" "ba_Bid b1 = ba_Bid ?b" "keeps ?b b1"
    using FillBuy_trade_ok[where order = order and locked = locked and t = ?t, OF B(1) _ _ _ _ refl _ LA1_def] by blast
  have p1: "p \<le> ord_Price (less_amount ?t order)" using p by (simp add: less_amount_def)
  have "FillBuy_sweep order locked b = FillBuy_sweep (less_amount ?t order) locked1 b1"
    unfolding FillBuy_sweep_step[OF inv amt m]
    using p t(1) FillBuy_next[where zero = ?z, OF t(2,4) p1 LA1_def] by (simp split del: if_split)
  moreover have "?z" if "ord_Amount (less_amount ?t order) > 0"
    using that by (auto simp: less_amount_def traded_def min_def split: if_splits)
  then have "length (node_ptrs ((p, l, n # ns) # Y)) = Suc (length (node_ptrs LA1))"
    if "ord_Amount (less_amount ?t order) > 0"
    using that by (simp add: LA1_def side_minus_ptrs)
  moreover have "keeps b b1" using t(8) by (simp add: keeps_def)
  ultimately show ?thesis using t(2-7) by auto
qed

lemma swept_buy_refl:
  assumes "ba_inv b' LB LA" "FillBuy_sweep order locked b = Some (order, locked, b')"
    "sweep_buy k (asset16 b) order locked (book_abs b LB LA) = (order, locked, book_abs b' LB LA)"
    "report_room b' = report_room b" "update_room b' = update_room b" "ba_Bid b' = ba_Bid b" "keeps b b'"
  shows "swept_buy k order locked b LB LA order locked b' LA"
  using assms by (auto simp: swept_buy_def intro: exI[of _ "ord_Amount order"])

lemma swept_buy_trans:
  assumes s: "swept_buy k (less_amount t order) locked1 b1 LB LA1 order' locked' b' LA'"
    and "FillBuy_sweep order locked b = FillBuy_sweep (less_amount t order) locked1 b1"
    "sweep_buy j (asset16 b) order locked (book_abs b LB LA) =
       sweep_buy k (asset16 b1) (less_amount t order) locked1 (book_abs b1 LB LA1)"
    "report_room b \<le> report_room b' + 2 * length (node_ptrs LA)" "update_room b \<le> update_room b' + length (node_ptrs LA)"
    "ba_Bid b1 = ba_Bid b" "keeps b b1"
  shows "swept_buy j order locked b LB LA order' locked' b' LA'"
proof -
  have "keeps b b'" "\<exists>a. order' = order \<lparr> ord_Amount := a \<rparr>"
    using s assms(7) store_grows_trans by (auto simp: swept_buy_def keeps_def less_amount_def)
  then show ?thesis using s assms(2-6) by (simp add: swept_buy_def)
qed

lemma swept_buy_stop:
  assumes inv: "ba_inv b LB LA" and stop: "LA = [] \<or> ord_Amount order = 0"
  shows "swept_buy k order locked b LB LA order locked b LA"
proof (rule swept_buy_refl[OF inv])
  show "FillBuy_sweep order locked b = Some (order, locked, b)" using stop inv FillBuy_sweep_done by blast
  show "sweep_buy k (asset16 b) order locked (book_abs b LB LA) = (order, locked, book_abs b LB LA)"
    using stop by (auto simp: book_abs_def orders_of_def sweep_buy_done)
qed (simp_all add: keeps_def)

lemma sweep_buy_head:
  assumes inv: "ba_inv b LB ((p, l, n # ns) # Y)" and amt: "ord_Amount order > 0"
    and offer: "offer = on_NodeOrder (nodes (ba_Store b) n)"
    and rest: "rest = map (\<lambda>n. on_NodeOrder (nodes (ba_Store b) n)) ns @ asks b Y"
  shows "sweep_buy (Suc k) (asset16 b) order locked (book_abs b LB ((p, l, n # ns) # Y)) =
    (if p > ord_Price order then (order, locked, book_abs (b \<lparr> ba_BestAskPrice := p \<rparr>) LB ((p, l, n # ns) # Y))
     else (case trade_buy (asset16 b) order locked offer rest (book_abs (b \<lparr> ba_BestAskPrice := p \<rparr>) LB ((p, l, n # ns) # Y)) of
             (order, locked, s) \<Rightarrow> sweep_buy k (asset16 b) order locked s))"
proof -
  have "two_sides Less (ba_Ask b) ((p, l, n # ns) # Y) Greater (ba_Bid b) LB (ba_Store b)"
    using inv by (simp add: ba_inv_def two_sides_sym)
  from reduced_head(1)[OF this] amt show ?thesis by (simp add: book_abs_def offer rest word_greater_zero_iff)
qed

text \<open>The sweep can be finished within \<open>k\<close> trades.\<close>

definition sweep_fits :: "nat \<Rightarrow> side \<Rightarrow> BidAsk \<Rightarrow> bool" where
  "sweep_fits k L b \<longleftrightarrow> length (node_ptrs L) \<le> k \<and> 2 * length (node_ptrs L) \<le> report_room b \<and> length (node_ptrs L) \<le> update_room b"

lemma swept_buy_more:
  assumes inv: "ba_inv b LB LA" and LA: "LA = (p, l, n # ns) # Y"
    and amt: "ord_Amount order > 0" and m: "IsMarketable order b" and side: "ord_Side order = BUY"
    and fits: "sweep_fits (Suc k) LA b" and p: "p \<le> ord_Price order"
    and IH: "\<And>order locked b LA. ba_inv b LB LA \<Longrightarrow> IsMarketable order b \<Longrightarrow> ord_Side order = BUY \<Longrightarrow> sweep_fits k LA b \<Longrightarrow>
      \<exists>order' locked' b' LA'. swept_buy k order locked b LB LA order' locked' b' LA'"
  shows "\<exists>order' locked' b' LA'. swept_buy (Suc k) order locked b LB LA order' locked' b' LA'"
proof -
  define offer where "offer = on_NodeOrder (nodes (ba_Store b) n)"
  define rest where "rest = map (\<lambda>n. on_NodeOrder (nodes (ba_Store b) n)) ns @ asks b Y"
  let ?o = "less_amount (traded order offer) order" and ?b = "b \<lparr> ba_BestAskPrice := p \<rparr>"
  have room: "2 \<le> report_room b" "1 \<le> update_room b" using fits by (simp_all add: sweep_fits_def LA)
  from FillBuy_sweep_trade[OF inv[unfolded LA] amt m p room offer_def rest_def, of locked]
  obtain b1 locked1 LA1 where t: "FillBuy_sweep order locked b = FillBuy_sweep ?o locked1 b1" "ba_inv b1 LB LA1"
      "trade_buy (asset16 b) order locked offer rest (book_abs ?b LB LA) = (?o, locked1, book_abs b1 LB LA1)"
      "ba_BestAskPrice b1 = p" "report_room b = report_room b1 + 2" "update_room b = Suc (update_room b1)"
      "ba_Bid b1 = ba_Bid b" "keeps b b1"
      "ord_Amount ?o > 0 \<Longrightarrow> length (node_ptrs LA) = Suc (length (node_ptrs LA1))"
    unfolding LA by blast
  have o: "ord_Side ?o = BUY" "IsMarketable ?o b1" "ba_MarketAssetId b1 = ba_MarketAssetId b"
    using side p t(4,8) by (simp_all add: less_amount_def IsMarketable_def keeps_def Let_def)
  obtain order' locked' b' LA' where s: "swept_buy k ?o locked1 b1 LB LA1 order' locked' b' LA'"
    "report_room b1 + 2 \<le> report_room b' + 2 * length (node_ptrs LA)"
    "update_room b1 + 1 \<le> update_room b' + length (node_ptrs LA)"
  proof (cases "ord_Amount ?o = 0")
    case True
    from that[OF swept_buy_stop[OF t(2) disjI2[OF True]]] show thesis by (simp add: LA)
  next
    case False
    then have l: "length (node_ptrs LA) = Suc (length (node_ptrs LA1))"
      using t(9) by (simp add: word_greater_zero_iff)
    have "sweep_fits k LA1 b1" using fits t(5,6) l by (simp add: sweep_fits_def)
    from IH[OF t(2) o(2,1) this, of locked1] obtain order' locked' b' LA' where
      s: "swept_buy k ?o locked1 b1 LB LA1 order' locked' b' LA'" by blast
    from that[OF s] s show thesis by (simp add: swept_buy_def l)
  qed
  have "swept_buy (Suc k) order locked b LB LA order' locked' b' LA'"
    by (rule swept_buy_trans[OF s(1) t(1) _ _ _ t(7,8)])
      (use s(2,3) t(3,5,6) o(3) p sweep_buy_head[OF inv[unfolded LA] amt offer_def rest_def, of k locked] in
        \<open>simp_all add: LA split del: if_split\<close>)
  then show ?thesis by blast
qed

lemma FillBuy_sweep_ok:
  assumes "ba_inv b LB LA" "IsMarketable order b" "ord_Side order = BUY" "sweep_fits k LA b"
  shows "\<exists>order' locked' b' LA'. swept_buy k order locked b LB LA order' locked' b' LA'"
  using assms
proof (induction k arbitrary: order locked b LA)
  case 0
  have "side_ok Less (ba_Ask b) (levels (ba_Store b)) (nodes (ba_Store b)) LA"
    using 0(1) by (simp add: ba_inv_def two_sides_def)
  then have "LA = []" by (rule side_cases) (use 0(4) in \<open>auto simp: sweep_fits_def\<close>)
  then show ?case using swept_buy_stop[OF 0(1)] by blast
next
  case (Suc k)
  have side: "side_ok Less (ba_Ask b) (levels (ba_Store b)) (nodes (ba_Store b)) LA"
    using Suc.prems(1) by (simp add: ba_inv_def two_sides_def)
  show ?case
  proof (cases "LA = [] \<or> ord_Amount order = 0")
    case True
    then show ?thesis using swept_buy_stop[OF Suc.prems(1)] by blast
  next
    case False
    then obtain p l n ns Y where LA: "LA = (p, l, n # ns) # Y" using side_cases[OF side] by blast
    have amt: "ord_Amount order > 0" using False by (simp add: word_greater_zero_iff)
    note inv = Suc.prems(1)[unfolded LA]
    show ?thesis
    proof (cases "p > ord_Price order")
      case True
      have "swept_buy (Suc k) order locked b LB LA order locked (b \<lparr> ba_BestAskPrice := p \<rparr>) LA"
        using best_ask_bound(1)[OF inv] True FillBuy_sweep_step[OF inv amt Suc.prems(2)]
          sweep_buy_head[OF inv amt refl refl]
        by (intro swept_buy_refl) (simp_all add: LA keeps_def)
      then show ?thesis by blast
    next
      case False
      then show ?thesis using swept_buy_more[OF Suc.prems(1) LA amt Suc.prems(2-4)] Suc.IH by simp
    qed
  qed
qed

section \<open>Resting on the bid side\<close>

lemma AddBuyLimitOrder_ok:
  assumes inv: "ba_inv b LB LA" and can: "can_rest (ba_Bid b) LB (ba_Store b) order"
    and room: "1 \<le> report_room b" "1 \<le> update_room b"
  shows "\<exists>b' LB'. AddBuyLimitOrder order b = Some b' \<and> ba_inv b' LB' LA \<and>
    book_abs b' LB' LA = spec_add_buy (asset16 b) order (book_abs b LB LA) \<and> ba_MarketAssetId b' = ba_MarketAssetId b"
proof -
  let ?p = "ord_Price order"
  have "two_sides Greater (ba_Bid b) LB Less (ba_Ask b) LA (ba_Store b)" using inv by (simp add: ba_inv_def)
  from two_sides_rest[OF this can] obtain n np om l bk1 L1 st1 where
    e: "STPool_Acquire (bs_OrderNodePool (ba_Store b)) = (Some n, np)" "stp_Storage np = nodes (ba_Store b)"
      "FlatHashMap_AddNode (id64 order) (Some n) (bs_OrderMap (ba_Store b)) = Some om"
      "OrderBook_AddLimitOrder n (ba_Bid b) (enter_order order n np om (ba_Store b)) = Some (l, bk1, st1)"
      "rested Greater (ba_Bid b) LB Less (ba_Ask b) LA (ba_Store b) order l bk1 L1 st1" by blast
  note R = e(5)[unfolded rested_def]
  define b1 where "b1 = b \<lparr> ba_BestBidPrice := max (ba_BestBidPrice b) ?p, ba_Bid := bk1, ba_Store := st1 \<rparr>"
  have inv1: "ba_inv b1 L1 LA"
  proof -
    have "fst e \<le> max (ba_BestBidPrice b) ?p" if "e \<in> set L1" for e
    proof -
      have "fst e \<in> insert ?p (fst ` set LB)" using R that by (metis image_eqI)
      then show ?thesis using inv by (auto simp: ba_inv_def)
    qed
    then show ?thesis using inv R by (simp add: ba_inv_def b1_def two_sides_sym)
  qed
  have abs1: "book_abs b1 L1 LA = (book_abs b LB LA) \<lparr> ab_BestBid := max (ba_BestBidPrice b) ?p,
      ab_Bids := rest_order Greater order (ab_Bids (book_abs b LB LA)) \<rparr>"
    using R by (simp add: book_abs_def b1_def)
  let ?r = "\<lambda>q. FillReport 0 0 (wrap64 (uint (ord_Amount order) * ?p)) q (ord_ClientId order) (order_id32 order) 0 (asset16 b) 0 ADD"
  have r1: "0 < report_room b1" using room by (simp add: b1_def)
  from report_step[OF inv1 r1, of ?r] obtain b2 where
    2: "report_guarded ?r b1 = b2" "ba_inv b2 L1 LA" "book_abs b2 L1 LA = emit_report ?r (book_abs b1 L1 LA)" "same_book b1 b2"
      "update_room b2 = update_room b1" by metis
  let ?u = "\<lambda>q. FillUpdate q (depth_at ?p (ab_Bids (book_abs b1 L1 LA))) ?p (asset16 b) ORDER_BOOK_UPDATE_BUY"
  have r2: "0 < update_room b2" using room 2(5) by (simp add: b1_def)
  from update_step[OF 2(2) r2, of ?u] obtain b3 where
    3: "update_guarded ?u b2 = b3" "ba_inv b3 L1 LA" "book_abs b3 L1 LA = emit_update ?u (book_abs b2 L1 LA)" "same_book b2 b3" by metis
  have st2: "ba_Store b2 = st1" "ba_MarketAssetId b2 = ba_MarketAssetId b" using 2(4) by (simp_all add: same_book_def b1_def)
  have dep: "level_depth b2 (Some l) = depth_at ?p (ab_Bids (book_abs b1 L1 LA))" "pl_Price (levels st1 l) = ?p"
    using R by (simp_all add: level_depth_def st2 book_abs_def b1_def)
  have "AddBuyLimitOrder order b = Some b3"
    unfolding AddBuyLimitOrder_def e(1) Let_def
    using e(2-4) 2(1) 3(1) st2 dep
    by (simp add: enter_order_def Let_def node_defs id64_def order_id32_def b1_def)
  moreover have "book_abs b3 L1 LA = spec_add_buy (asset16 b) order (book_abs b LB LA)"
    unfolding 3(3) 2(3) abs1 spec_add_buy_def Let_def by (simp add: book_abs_def emit_report_def emit_update_def)
  moreover have "ba_MarketAssetId b3 = ba_MarketAssetId b" using 3(4) st2(2) by (simp add: same_book_def)
  ultimately show ?thesis using 3(2) by blast
qed

section \<open>A marketable buy order\<close>

lemma can_rest_mono:
  assumes "can_rest bk L st o'" "store_grows st st'"
  shows "can_rest bk L st' (o' \<lparr> ord_Amount := a \<rparr>)"
  using assms by (auto simp: can_rest_def store_grows_def id64_def order_id32_def)

lemma FillBuyOrder_ok:
  assumes inv: "ba_inv b LB LA" and m: "IsMarketable order b" "ord_Side order = BUY"
    and can: "ord_Type order = LIMIT \<Longrightarrow> can_rest (ba_Bid b) LB (ba_Store b) order"
    and room: "2 * length (node_ptrs LA) + 1 \<le> report_room b" "length (node_ptrs LA) + 1 \<le> update_room b"
  shows "\<exists>b' LB' LA'. FillBuyOrder order b = Some b' \<and> ba_inv b' LB' LA' \<and>
    book_abs b' LB' LA' = spec_fill_buy (asset16 b) order (book_abs b LB LA) \<and> ba_MarketAssetId b' = ba_MarketAssetId b"
proof -
  let ?l = "wrap64 (uint (ord_Amount order) * ord_Price order)" and ?k = "Suc (length (ab_Asks (book_abs b LB LA)))"
  have "sweep_fits ?k LA b" using room by (simp add: sweep_fits_def book_abs_def orders_of_def)
  from FillBuy_sweep_ok[OF inv m this, of ?l] obtain order' locked b1 LA1 where
    s: "swept_buy ?k order ?l b LB LA order' locked b1 LA1" by auto
  then obtain a where S: "FillBuy_sweep order ?l b = Some (order', locked, b1)" "ba_inv b1 LB LA1"
    "sweep_buy ?k (asset16 b) order ?l (book_abs b LB LA) = (order', locked, book_abs b1 LB LA1)" "1 \<le> report_room b1"
    "1 \<le> update_room b1" "ba_Bid b1 = ba_Bid b" "keeps b b1" "order' = order \<lparr> ord_Amount := a \<rparr>"
    using room by (auto simp: swept_buy_def)
  have as: "ba_MarketAssetId b1 = ba_MarketAssetId b" using S(7) by (simp add: keeps_def)
  consider "ord_Amount order' = 0" | "ord_Amount order' > 0" "ord_Type order = LIMIT" | "ord_Amount order' > 0" "ord_Type order \<noteq> LIMIT"
    by (auto simp: word_greater_zero_iff)
  then show ?thesis
  proof cases
    case 1
    with S as show ?thesis by (auto simp: FillBuyOrder_def spec_fill_buy_def)
  next
    case 2
    have "can_rest (ba_Bid b1) LB (ba_Store b1) order'"
      using can_rest_mono[OF can[OF 2(2)]] S(6-8) by (simp add: keeps_def)
    from AddBuyLimitOrder_ok[OF S(2) this S(4,5)] obtain b2 LB2 where
      "AddBuyLimitOrder order' b1 = Some b2" "ba_inv b2 LB2 LA1"
      "book_abs b2 LB2 LA1 = spec_add_buy (asset16 b1) order' (book_abs b1 LB LA1)" "ba_MarketAssetId b2 = ba_MarketAssetId b1"
      by blast
    moreover have "ord_Type order' = LIMIT" using 2 S(8) by simp
    ultimately show ?thesis using 2 S(1,3) as by (auto simp: FillBuyOrder_def spec_fill_buy_def)
  next
    case 3
    let ?r = "\<lambda>q. FillReport 0 0 (wrap64 (- locked)) q (ord_ClientId order') (order_id32 order') 0 (asset16 b) 0 CANCEL_STATE"
    have "0 < report_room b1" using S(4) by simp
    from report_step[OF S(2) this, of ?r] obtain b2 where
      "report_block ?r b1 = Some b2" "ba_inv b2 LB LA1" "book_abs b2 LB LA1 = emit_report ?r (book_abs b1 LB LA1)"
      "same_book b1 b2" by metis
    moreover have "ord_Type order' \<noteq> LIMIT" using 3 S(8) by simp
    ultimately show ?thesis using 3 S(1,3) as by (auto simp: FillBuyOrder_def spec_fill_buy_def order_id32_def same_book_def)
  qed
qed

section \<open>Cancelling a resting ask\<close>

lemma CancelOrder_ask:
  assumes inv: "ba_inv b LB LA" and room: "1 \<le> report_room b" "1 \<le> update_room b"
    and target: "target \<in> set (ab_Asks (book_abs b LB LA))" "ord_Amount req = order_id32 target"
      "ord_ClientId req = ord_ClientId target"
  shows "\<exists>b' LA'. CancelOrder SELL req b = Some b' \<and> ba_inv b' LB LA' \<and>
    book_abs b' LB LA' = spec_cancel_sell (asset16 b) target (book_abs b LB LA) \<and> ba_MarketAssetId b' = ba_MarketAssetId b"
proof -
  let ?p = "ord_Price target"
  from target(1) obtain n where n: "n \<in> set (node_ptrs LA)" "on_NodeOrder (nodes (ba_Store b) n) = target"
    by (auto simp: book_abs_def orders_of_def)
  have T: "two_sides Less (ba_Ask b) LA Greater (ba_Bid b) LB (ba_Store b)" using inv by (simp add: ba_inv_def two_sides_sym)
  from n(1) obtain X p l A C Y where LA: "LA = X @ (p, l, A @ n # C) # Y" by (rule node_split)
  have p: "p = ?p" using side_prices[OF two_sidesD(1)[OF T], of p l "A @ n # C" n] by (simp add: LA n(2))
  let ?r = "\<lambda>q. FillReport 0 0 (uint (ord_Amount target)) q (ord_ClientId target) (order_id32 target) 0 0 (asset16 b) CANCEL_STATE"
  have "0 < report_room b" using room(1) by simp
  from report_step[OF inv this, of ?r] obtain b1 where
    1: "report_block ?r b = Some b1" "ba_inv b1 LB LA" "book_abs b1 LB LA = emit_report ?r (book_abs b LB LA)" "same_book b b1"
      "update_room b1 = update_room b" by metis
  have st1: "ba_Store b1 = ba_Store b" "ba_Ask b1 = ba_Ask b" "ba_MarketAssetId b1 = ba_MarketAssetId b"
    using 1(4) by (simp_all add: same_book_def)
  let ?M = "side_minus X p l (A @ C) Y"
  from ba_inv_delete_ask[OF 1(2)[unfolded LA]] obtain cur bk st where
    d: "OrderBook_DeleteOrder n (ba_Ask b1) (ba_Store b1) = Some (cur, bk, st)"
      "ba_inv (b1 \<lparr> ba_Ask := bk, ba_Store := st \<rparr>) LB ?M"
      "book_abs (b1 \<lparr> ba_Ask := bk, ba_Store := st \<rparr>) LB ?M =
        (book_abs b1 LB LA) \<lparr> ab_Asks := orders_of (nodes (ba_Store b1)) ?M \<rparr>"
      "level_depth (b1 \<lparr> ba_Ask := bk, ba_Store := st \<rparr>) cur = depth_at p (orders_of (nodes (ba_Store b1)) ?M)"
    unfolding LA by blast
  have rem: "orders_of (nodes (ba_Store b1)) ?M = remove_id (order_id32 target) (ab_Asks (book_abs b LB LA))"
    unfolding st1(1) n(2)[symmetric] book_abs_def LA abook.simps
    by (rule remove_id_side[symmetric, OF side_okD(5)[OF two_sidesD(1)[OF T], unfolded LA]
          store_okD(8)[OF two_sidesD(3)[OF T], unfolded LA] Un_upper1])
  define b2 where "b2 = b1 \<lparr> ba_Ask := bk, ba_Store := st \<rparr>"
  let ?u = "\<lambda>q. FillUpdate q (depth_at ?p (remove_id (order_id32 target) (ab_Asks (book_abs b LB LA)))) ?p (asset16 b) ORDER_BOOK_UPDATE_SELL"
  have "0 < update_room b2" using room(2) 1(5) by (simp add: b2_def)
  from update_step[OF d(2)[folded b2_def] this, of ?u] obtain b3 where
    3: "update_block ?u b2 = Some b3" "ba_inv b3 LB ?M" "book_abs b3 LB ?M = emit_update ?u (book_abs b2 LB ?M)"
      "same_book b2 b3" by metis
  have fields: "OrderNode_GetAmount (nodes (ba_Store b) n) = ord_Amount target" "OrderNode_GetPrice (nodes (ba_Store b) n) = ?p"
    "OrderNode_GetClientId (nodes (ba_Store b) n) = ord_ClientId target" "OrderNode_GetId (nodes (ba_Store b) n) = order_id32 target"
    by (simp_all add: node_defs n(2) order_id32_def)
  have u: "(\<lambda>s. FillUpdate s (level_depth b2 cur) ?p (asset16 b2) ORDER_BOOK_UPDATE_SELL) = ?u"
    using d(4) rem p st1(3) by (simp add: b2_def)
  have "CancelOrder SELL req b = CancelOrder_found SELL n b"
    using find_order(1)[OF T n(1)] target(2,3) fields(3) n(2) by (simp add: CancelOrder_def)
  also have "\<dots> = Some b3"
    unfolding CancelOrder_found_def Let_def fields using 1(1) d(1) 3(1) u by (simp add: b2_def)
  finally have "CancelOrder SELL req b = Some b3" .
  moreover have "book_abs b3 LB ?M = spec_cancel_sell (asset16 b) target (book_abs b LB LA)"
    unfolding 3(3) b2_def d(3) 1(3) rem spec_cancel_sell_def Let_def by (simp add: emit_report_def)
  moreover have "ba_MarketAssetId b3 = ba_MarketAssetId b" using 3(4) st1(3) by (simp add: same_book_def b2_def)
  ultimately show ?thesis using 3(2) by blast
qed

end
