(* ===== verification/Matching_Sell.thy ===== *)
theory Matching_Sell
  imports Matching_Buy
begin

text \<open>
  A sell order against the bids: the trade with the best offer, the sweep of \<open>FillSellOrder\<close>, resting the
  remainder on the ask side; and the cancellation of a resting bid.  Each is shown to return and to
  refine its specification.
\<close>

section \<open>A trade\<close>

lemma ba_inv_reduce_bid:
  assumes inv: "ba_inv b ((p, l, n # ns) # Y) LA"
    and b1: "b1 = b \<lparr> ba_MarketPrice := mp, ba_Store := reduce_head l n t (ba_Store b) \<rparr>"
  shows "ba_inv b1 ((p, l, n # ns) # Y) LA"
    "book_abs b1 ((p, l, n # ns) # Y) LA = (book_abs b ((p, l, n # ns) # Y) LA) \<lparr> ab_MarketPrice := mp,
       ab_Bids := less_amount t (on_NodeOrder (nodes (ba_Store b) n)) # tl (ab_Bids (book_abs b ((p, l, n # ns) # Y) LA)) \<rparr>"
    "ucast (pl_TotalAmount (levels (ba_Store b1) l)) = depth_at p (ab_Bids (book_abs b1 ((p, l, n # ns) # Y) LA))"
proof -
  have "two_sides Greater (ba_Bid b) ((p, l, n # ns) # Y) Less (ba_Ask b) LA (ba_Store b)"
    using inv by (simp add: ba_inv_def two_sides_sym)
  note R = two_sides_reduce[where t = t, OF this]
  show "ba_inv b1 ((p, l, n # ns) # Y) LA"
    using inv R(1) by (simp add: ba_inv_def b1 two_sides_sym)
  show "book_abs b1 ((p, l, n # ns) # Y) LA = (book_abs b ((p, l, n # ns) # Y) LA) \<lparr> ab_MarketPrice := mp,
      ab_Bids := less_amount t (on_NodeOrder (nodes (ba_Store b) n)) # tl (ab_Bids (book_abs b ((p, l, n # ns) # Y) LA)) \<rparr>"
    using R(2,3) by (simp add: book_abs_def b1)
  show "ucast (pl_TotalAmount (levels (ba_Store b1) l)) = depth_at p (ab_Bids (book_abs b1 ((p, l, n # ns) # Y) LA))"
    using R(4) by (simp add: book_abs_def b1)
qed

lemma ba_inv_delete_bid:
  assumes inv: "ba_inv b (X @ (p, l, A @ n # C) # Y) LA"
  shows "\<exists>cur bk st. OrderBook_DeleteOrder n (ba_Bid b) (ba_Store b) = Some (cur, bk, st) \<and>
    ba_inv (b \<lparr> ba_Bid := bk, ba_Store := st \<rparr>) (side_minus X p l (A @ C) Y) LA \<and>
    book_abs (b \<lparr> ba_Bid := bk, ba_Store := st \<rparr>) (side_minus X p l (A @ C) Y) LA =
      (book_abs b (X @ (p, l, A @ n # C) # Y) LA) \<lparr> ab_Bids := orders_of (nodes (ba_Store b)) (side_minus X p l (A @ C) Y) \<rparr> \<and>
    level_depth (b \<lparr> ba_Bid := bk, ba_Store := st \<rparr>) cur =
      depth_at p (orders_of (nodes (ba_Store b)) (side_minus X p l (A @ C) Y)) \<and> store_grows (ba_Store b) st"
proof -
  let ?M = "side_minus X p l (A @ C) Y"
  have "two_sides Greater (ba_Bid b) (X @ (p, l, A @ n # C) # Y) Less (ba_Ask b) LA (ba_Store b)"
    using inv by (simp add: ba_inv_def two_sides_sym)
  from two_sides_delete[OF this] obtain cur bk st where
    d: "OrderBook_DeleteOrder n (ba_Bid b) (ba_Store b) = Some (cur, bk, st)"
      "two_sides Greater bk ?M Less (ba_Ask b) LA st"
      "\<And>q. on_NodeOrder (nodes st q) = on_NodeOrder (nodes (ba_Store b) q)"
      "(case cur of Some k \<Rightarrow> ucast (pl_TotalAmount (levels st k)) | None \<Rightarrow> 0) = depth_at p (orders_of (nodes st) ?M)"
      "store_grows (ba_Store b) st" by blast
  have o: "orders_of (nodes st) L = orders_of (nodes (ba_Store b)) L" for L
    using d(3) by (intro orders_of_cong) simp
  have "ba_inv (b \<lparr> ba_Bid := bk, ba_Store := st \<rparr>) ?M LA"
    using inv d(2) side_minus_ptrs(3)[of X p l "A @ C" Y] by (fastforce simp: ba_inv_def two_sides_sym)
  moreover have "book_abs (b \<lparr> ba_Bid := bk, ba_Store := st \<rparr>) ?M LA =
      (book_abs b (X @ (p, l, A @ n # C) # Y) LA) \<lparr> ab_Bids := orders_of (nodes (ba_Store b)) ?M \<rparr>"
    by (simp add: book_abs_def o)
  moreover have "level_depth (b \<lparr> ba_Bid := bk, ba_Store := st \<rparr>) cur = depth_at p (orders_of (nodes (ba_Store b)) ?M)"
    using d(4) by (simp add: level_depth_def o split: option.splits)
  ultimately show ?thesis using d(1,5) by blast
qed

text \<open>The code of one trade, once the three messages are published.\<close>

lemma FillSell_trade_eq:
  assumes offer: "offer = on_NodeOrder (nodes (ba_Store b) n)" "ord_Price offer = p" and best: "ba_BestBidPrice b = p"
    and t: "t = traded order offer"
    and b1: "b1 = b \<lparr> ba_MarketPrice := (if t > 0 then p else ba_MarketPrice b), ba_Store := reduce_head l n t (ba_Store b) \<rparr>"
    and on: "on_NodeOrder (nodes (ba_Store b1) n) = less_amount t offer" "on_Next (nodes (ba_Store b1) n) = nxt"
    and pub: "report_try (seller_report (asset16 b) t p (less_amount t order)) b1 = Some b2"
      "report_try (buyer_report (asset16 b) t p (less_amount t offer)) b2 = Some b3"
      "update_try (\<lambda>q. FillUpdate q (level_depth b1 (Some l)) p (asset16 b) ORDER_BOOK_UPDATE_BUY) b3 = Some b4"
    and same: "same_book b1 b2" "same_book b1 b3" "same_book b1 b4"
  shows "FillSell_trade l n order locked b =
     (if ord_Amount (less_amount t offer) = 0
      then do { (_, bk, st) \<leftarrow> OrderBook_DeleteOrder n (ba_Bid b4) (ba_Store b4);
                Some (nxt, less_amount t order, wrap64 (locked - uint t), b4 \<lparr> ba_Bid := bk, ba_Store := st \<rparr>) }
      else Some (Some n, less_amount t order, wrap64 (locked - uint t), b4))"
proof -
  have fields: "OrderNode_GetAmount (nodes (ba_Store b) n) = ord_Amount offer" "OrderNode_GetPrice (nodes (ba_Store b) n) = p"
    "ba_BestBidPrice b1 = p" "ba_MarketAssetId b1 = ba_MarketAssetId b"
    using offer best by (simp_all add: node_defs b1)
  have amt: "OrderNode_GetAmount (nodes (ba_Store b1) n) = ord_Amount (less_amount t offer)"
    by (simp add: node_defs on(1))
  have st: "ba_Store b2 = ba_Store b1" "ba_Store b3 = ba_Store b1" "ba_Store b4 = ba_Store b1" "ba_BestBidPrice b2 = p"
    "ba_BestBidPrice b3 = p" "ba_MarketAssetId b2 = ba_MarketAssetId b" "ba_MarketAssetId b3 = ba_MarketAssetId b"
    using same fields(3,4) by (simp_all add: same_book_def)
  have e1: "report_try (\<lambda>s. FillReport (wrap64 (uint t * p)) (- uint t) (- uint t) s (ord_ClientId order)
      (ucast (ord_OrderId order)) 0 0 (asset16 b) (if ord_Amount (less_amount t order) > 0 then PARTIAL_FILL else FILL)) b1 = Some b2"
    using pub(1) by (simp add: seller_report_def[abs_def] fill_state_def order_id32_def less_amount_def)
  have e2: "report_try (\<lambda>s. FillReport (uint t) (wrap64 (- uint t * p)) (wrap64 (- uint t * p)) s
      (OrderNode_GetClientId (nodes (ba_Store b1) n)) (OrderNode_GetId (nodes (ba_Store b1) n)) 0 (asset16 b) 0
      (if OrderNode_GetAmount (nodes (ba_Store b1) n) > 0 then PARTIAL_FILL else FILL)) b2 = Some b3"
    using pub(2) by (simp add: buyer_report_def[abs_def] fill_state_def order_id32_def node_defs on(1))
  have e3: "update_try (\<lambda>s. FillUpdate s (level_depth b3 (Some l)) p (asset16 b) ORDER_BOOK_UPDATE_BUY) b3 = Some b4"
    using pub(3) by (simp add: level_depth_def st(2))
  have tt: "(if ord_Amount order < ord_Amount offer then ord_Amount order else ord_Amount offer) = t"
    by (simp only: t traded_if)
  have b1': "b \<lparr> ba_MarketPrice := if 0 < t then p else ba_MarketPrice b,
      ba_Store := set_level l (PriceLevel_IncTotalAmount (uint (- t)) (levels (ba_Store b) l))
        (set_nodes ((nodes (ba_Store b))(n := OrderNode_SetAmount (ord_Amount offer - t) (nodes (ba_Store b) n))) (ba_Store b)) \<rparr> = b1"
    by (simp add: b1 reduce_head_def Let_def fields(1))
  have ord': "order \<lparr> ord_Amount := ord_Amount order - t \<rparr> = less_amount t order"
    "ord_ClientId (less_amount t order) = ord_ClientId order" "ord_OrderId (less_amount t order) = ord_OrderId order"
    by (simp_all add: less_amount_def)
  show ?thesis
    unfolding FillSell_trade_def Let_def fields(1,2) tt ord'(1)
    using e1 e2 e3 best
    by (cases "ord_Amount (less_amount t offer) = 0")
      (simp_all add: fields amt b1' ord'(2,3) st on split del: if_split)
qed

text \<open>A completely filled offer leaves the book.\<close>

lemma drop_filled_bid:
  assumes inv: "ba_inv b ((p, l, n # ns) # Y) LA" and LB': "LB' = (if z then side_minus [] p l ns Y else (p, l, n # ns) # Y)"
    and bids: "ab_Bids (book_abs b ((p, l, n # ns) # Y) LA) = offer # rest"
  obtains b' where
    "(if z then do { (_, bk, st) \<leftarrow> OrderBook_DeleteOrder n (ba_Bid b) (ba_Store b); Some (f (b \<lparr> ba_Bid := bk, ba_Store := st \<rparr>)) }
      else Some (g b)) = Some (if z then f b' else g b')"
    "ba_inv b' LB' LA"
    "book_abs b' LB' LA = (book_abs b ((p, l, n # ns) # Y) LA) \<lparr> ab_Bids := (if z then rest else offer # rest) \<rparr>"
    "ba_BestBidPrice b' = ba_BestBidPrice b" "report_room b' = report_room b" "update_room b' = update_room b"
    "ba_Ask b' = ba_Ask b" "keeps b b'"
proof (cases z)
  case True
  from ba_inv_delete_bid[where X = "[]" and A = "[]"] inv obtain cur bk st where
    d: "OrderBook_DeleteOrder n (ba_Bid b) (ba_Store b) = Some (cur, bk, st)"
      "ba_inv (b \<lparr> ba_Bid := bk, ba_Store := st \<rparr>) (side_minus [] p l ns Y) LA"
      "book_abs (b \<lparr> ba_Bid := bk, ba_Store := st \<rparr>) (side_minus [] p l ns Y) LA =
        (book_abs b ((p, l, n # ns) # Y) LA) \<lparr> ab_Bids := orders_of (nodes (ba_Store b)) (side_minus [] p l ns Y) \<rparr>"
      "store_grows (ba_Store b) st" by fastforce
  have "orders_of (nodes (ba_Store b)) (side_minus [] p l ns Y) = rest"
    using arg_cong[OF bids, of tl] by (simp add: book_abs_def orders_of_def side_minus_ptrs)
  with d True show thesis by (intro that[of "b \<lparr> ba_Bid := bk, ba_Store := st \<rparr>"]) (simp_all add: LB' keeps_def)
next
  case False
  have "(book_abs b ((p, l, n # ns) # Y) LA) \<lparr> ab_Bids := offer # rest \<rparr> = book_abs b ((p, l, n # ns) # Y) LA"
    unfolding bids[symmetric] by simp
  with False inv show thesis by (intro that[of b]) (simp_all add: LB' keeps_def)
qed

lemma FillSell_trade_ok:
  assumes inv: "ba_inv b ((p, l, n # ns) # Y) LA" and best: "ba_BestBidPrice b = p"
    and room: "2 \<le> report_room b" "1 \<le> update_room b"
    and offer: "offer = on_NodeOrder (nodes (ba_Store b) n)" and t: "t = traded order offer"
    and rest: "rest = map (\<lambda>n. on_NodeOrder (nodes (ba_Store b) n)) ns @ asks b Y"
    and LB': "LB' = (if ord_Amount (less_amount t offer) = 0 then side_minus [] p l ns Y else (p, l, n # ns) # Y)"
  shows "\<exists>b' locked'. FillSell_trade l n order locked b =
      Some (if ord_Amount (less_amount t offer) = 0 then hd_opt ns else Some n, less_amount t order, locked', b') \<and>
    ba_inv b' LB' LA \<and>
    trade_sell (asset16 b) order locked offer rest (book_abs b ((p, l, n # ns) # Y) LA) =
      (less_amount t order, locked', book_abs b' LB' LA) \<and>
    ba_BestBidPrice b' = p \<and> report_room b = report_room b' + 2 \<and> update_room b = Suc (update_room b') \<and>
    ba_Ask b' = ba_Ask b \<and> keeps b b'"
proof -
  let ?LB = "(p, l, n # ns) # Y" and ?z = "ord_Amount (less_amount t offer) = 0"
  define b1 where "b1 = b \<lparr> ba_MarketPrice := (if t > 0 then p else ba_MarketPrice b), ba_Store := reduce_head l n t (ba_Store b) \<rparr>"
  define locked' where "locked' = wrap64 (locked - uint t)"
  have T: "two_sides Greater (ba_Bid b) ?LB Less (ba_Ask b) LA (ba_Store b)"
    using inv by (simp add: ba_inv_def two_sides_sym)
  note H = reduced_head(1)[OF T] reduced_head(2-4)[where t = t, OF T] and R = ba_inv_reduce_bid[OF inv b1_def]
  have price: "ord_Price offer = p" using H(1) by (simp add: offer)
  have on: "on_NodeOrder (nodes (ba_Store b1) n) = less_amount t offer" "on_Next (nodes (ba_Store b1) n) = hd_opt ns"
    using H(2,3) by (simp_all add: b1_def offer)
  have abs1: "book_abs b1 ?LB LA = (book_abs b ?LB LA) \<lparr> ab_MarketPrice := (if t > 0 then p else ab_MarketPrice (book_abs b ?LB LA)),
      ab_Bids := less_amount t offer # rest \<rparr>"
    unfolding R(2) by (simp add: book_abs_def offer rest)
  have dep: "level_depth b1 (Some l) = depth_at p (less_amount t offer # rest)"
    using R(3) by (simp add: level_depth_def abs1)
  have "2 \<le> report_room b1" "1 \<le> update_room b1" using room by (simp_all add: b1_def)
  from fill_published[where f = "seller_report (asset16 b) t p (less_amount t order)"
      and g = "buyer_report (asset16 b) t p (less_amount t offer)"
      and u = "\<lambda>q. FillUpdate q (level_depth b1 (Some l)) p (asset16 b) ORDER_BOOK_UPDATE_BUY", OF R(1) this]
  obtain b2 b3 b4 where
    pub: "report_try (seller_report (asset16 b) t p (less_amount t order)) b1 = Some b2"
      "report_try (buyer_report (asset16 b) t p (less_amount t offer)) b2 = Some b3"
      "update_try (\<lambda>q. FillUpdate q (level_depth b1 (Some l)) p (asset16 b) ORDER_BOOK_UPDATE_BUY) b3 = Some b4"
    and 4: "ba_inv b4 ?LB LA" "book_abs b4 ?LB LA =
        emit_update (\<lambda>q. FillUpdate q (level_depth b1 (Some l)) p (asset16 b) ORDER_BOOK_UPDATE_BUY)
          (emit_report (buyer_report (asset16 b) t p (less_amount t offer))
            (emit_report (seller_report (asset16 b) t p (less_amount t order)) (book_abs b1 ?LB LA)))"
    and same: "same_book b1 b2" "same_book b1 b3" "same_book b1 b4"
    and rooms: "report_room b1 = report_room b4 + 2" "update_room b1 = Suc (update_room b4)" by metis
  have k4: "keeps b b4" "ba_Ask b4 = ba_Ask b" "ba_BestBidPrice b4 = p"
    using same(3) H(4) best by (simp_all add: keeps_def same_book_def b1_def)
  have bids4: "ab_Bids (book_abs b4 ?LB LA) = less_amount t offer # rest"
    unfolding 4(2) abs1 by (simp add: emit_report_def emit_update_def)
  from drop_filled_bid[where f = "Pair (hd_opt ns) \<circ> Pair (less_amount t order) \<circ> Pair locked'"
      and g = "Pair (Some n) \<circ> Pair (less_amount t order) \<circ> Pair locked'", OF 4(1) LB' bids4]
  obtain b' where
    d: "FillSell_trade l n order locked b = Some (if ?z then (hd_opt ns, less_amount t order, locked', b')
        else (Some n, less_amount t order, locked', b'))" "ba_inv b' LB' LA"
      "book_abs b' LB' LA = (book_abs b4 ?LB LA) \<lparr> ab_Bids := (if ?z then rest else less_amount t offer # rest) \<rparr>"
      "ba_BestBidPrice b' = ba_BestBidPrice b4" "report_room b' = report_room b4" "update_room b' = update_room b4"
      "ba_Ask b' = ba_Ask b4" "keeps b4 b'"
    unfolding FillSell_trade_eq[OF offer price best t b1_def on pub same] locked'_def[symmetric] o_def by blast
  have dz: "depth_at p (after_trade t offer rest) = depth_at p (less_amount t offer # rest)"
    by (simp add: after_trade_def)
  have "trade_sell (asset16 b) order locked offer rest (book_abs b ?LB LA) = (less_amount t order, locked', book_abs b' LB' LA)"
    unfolding d(3) 4(2) abs1 trade_sell_def Let_def t[symmetric] price locked'_def[symmetric] dep dz
    by (simp add: emit_report_def emit_update_def after_trade_def)
  moreover have "keeps b b'" using k4(1) d(8) store_grows_trans by (auto simp: keeps_def)
  moreover have "report_room b = report_room b' + 2" "update_room b = Suc (update_room b')"
    using rooms d(5,6) by (simp_all add: b1_def)
  ultimately show ?thesis using d(1,2,4,7) k4(2,3) by auto
qed

section \<open>The sweep\<close>

text \<open>Leaving the inner loop and entering the outer one again, or going round the inner loop, are the
  same: the outer loop finds the level and the offer where the inner loop left them.\<close>

lemma FillSell_level_none: "FillSell_level l None order locked b = Some (order, locked, b)"
  by (subst FillSell_level.simps) simp

lemma FillSell_resume:
  assumes inv: "ba_inv b ((p, l, n # ns) # Y) LA" and best: "ba_BestBidPrice b = p" "ord_Price order \<le> p"
  shows "do { (order, locked, b) \<leftarrow> FillSell_level l (Some n) order locked b; FillSell_sweep order locked b } =
    FillSell_sweep order locked b"
proof -
  have side: "side_ok Greater (ba_Bid b) (levels (ba_Store b)) (nodes (ba_Store b)) ((p, l, n # ns) # Y)"
    using inv by (simp add: ba_inv_def two_sides_def)
  have b: "FillSell_level l (Some n) order locked (b \<lparr> ba_BestBidPrice := p \<rparr>) = FillSell_level l (Some n) order locked b"
    using best(1) by (intro arg_cong[where f = "FillSell_level l (Some n) order locked"]) simp
  show ?thesis
  proof (cases "ord_Amount order > 0 \<and> IsMarketable order b")
    case True
    show ?thesis
      unfolding FillSell_sweep.simps[of order locked b]
      using True best_level(1)[OF side] best_level(2,3)[OF side refl] best b by (simp add: hd_opt_def)
  next
    case False
    show ?thesis
      unfolding FillSell_level.simps[of l "Some n" order locked b] using False by auto
  qed
qed

lemma FillSell_sweep_step:
  assumes inv: "ba_inv b ((p, l, n # ns) # Y) LA" and amt: "ord_Amount order > 0" and m: "IsMarketable order b"
  shows "FillSell_sweep order locked b =
    (if p < ord_Price order then Some (order, locked, b \<lparr> ba_BestBidPrice := p \<rparr>)
     else do { (nxt, order, locked, b) \<leftarrow> FillSell_trade l n order locked (b \<lparr> ba_BestBidPrice := p \<rparr>);
               (order, locked, b) \<leftarrow> FillSell_level l nxt order locked b;
               FillSell_sweep order locked b })"
proof -
  have side: "side_ok Greater (ba_Bid b) (levels (ba_Store b)) (nodes (ba_Store b)) ((p, l, n # ns) # Y)"
    using inv by (simp add: ba_inv_def two_sides_def)
  have m': "IsMarketable order (b \<lparr> ba_BestBidPrice := p \<rparr>)" if "ord_Price order \<le> p"
    using m that by (auto simp: IsMarketable_def Let_def)
  show ?thesis
    unfolding FillSell_sweep.simps[of order locked b]
    using best_level(1)[OF side] best_level(2,3)[OF side refl] amt m m'
    by (auto simp: hd_opt_def FillSell_level.simps[of l "Some n"] split: bind_splits)
qed

lemma FillSell_sweep_done:
  "ord_Amount order = 0 \<Longrightarrow> FillSell_sweep order locked b = Some (order, locked, b)"
  "ba_inv b [] LA \<Longrightarrow> FillSell_sweep order locked b = Some (order, locked, b)"
proof -
  show "ord_Amount order = 0 \<Longrightarrow> FillSell_sweep order locked b = Some (order, locked, b)"
    by (subst FillSell_sweep.simps) simp
  assume "ba_inv b [] LA"
  then have "side_ok Greater (ba_Bid b) (levels (ba_Store b)) (nodes (ba_Store b)) []"
    by (simp add: ba_inv_def two_sides_def)
  from best_level(1)[OF this] show "FillSell_sweep order locked b = Some (order, locked, b)"
    by (subst FillSell_sweep.simps) (simp add: hd_opt_def)
qed

lemma sweep_sell_done:
  "ord_Amount order = 0 \<Longrightarrow> sweep_sell k asset order locked s = (order, locked, s)"
  "ab_Bids s = [] \<Longrightarrow> sweep_sell k asset order locked s = (order, locked, s)"
  by (cases k; auto split: list.splits)+

text \<open>What a finished sweep establishes.\<close>

definition swept_sell :: "nat \<Rightarrow> Order \<Rightarrow> i64 \<Rightarrow> BidAsk \<Rightarrow> side \<Rightarrow> side \<Rightarrow> Order \<Rightarrow> i64 \<Rightarrow> BidAsk \<Rightarrow> side \<Rightarrow> bool" where
  "swept_sell k order locked b LA LB order' locked' b' LB' \<longleftrightarrow>
     FillSell_sweep order locked b = Some (order', locked', b') \<and> ba_inv b' LB' LA \<and>
     sweep_sell k (asset16 b) order locked (book_abs b LB LA) = (order', locked', book_abs b' LB' LA) \<and>
     report_room b \<le> report_room b' + 2 * length (node_ptrs LB) \<and>
     update_room b \<le> update_room b' + length (node_ptrs LB) \<and> ba_Ask b' = ba_Ask b \<and> keeps b b' \<and>
     (\<exists>a. order' = order \<lparr> ord_Amount := a \<rparr>)"

lemma best_bid_bound:
  assumes "ba_inv b ((p, l, ns) # Y) LA"
  shows "ba_inv (b \<lparr> ba_BestBidPrice := p \<rparr>) ((p, l, ns) # Y) LA"
    "book_abs (b \<lparr> ba_BestBidPrice := p \<rparr>) ((p, l, ns) # Y) LA = (book_abs b ((p, l, ns) # Y) LA) \<lparr> ab_BestBid := p \<rparr>"
proof -
  have side: "side_ok Greater (ba_Bid b) (levels (ba_Store b)) (nodes (ba_Store b)) ((p, l, ns) # Y)"
    using assms by (simp add: ba_inv_def two_sides_def)
  have "fst e \<le> p" if "e \<in> set ((p, l, ns) # Y)" for e using best_level(4)[OF side refl that] by auto
  then show "ba_inv (b \<lparr> ba_BestBidPrice := p \<rparr>) ((p, l, ns) # Y) LA" using assms by (simp add: ba_inv_def)
  show "book_abs (b \<lparr> ba_BestBidPrice := p \<rparr>) ((p, l, ns) # Y) LA = (book_abs b ((p, l, ns) # Y) LA) \<lparr> ab_BestBid := p \<rparr>"
    by (simp add: book_abs_def)
qed

lemma FillSell_next:
  assumes inv: "ba_inv b LB LA" and best: "ba_BestBidPrice b = p" "ord_Price order \<le> p"
    and LB: "LB = (if zero then side_minus [] p l ns Y else (p, l, n # ns) # Y)"
  shows "do { (order, locked, b) \<leftarrow> FillSell_level l (if zero then hd_opt ns else Some n) order locked b;
              FillSell_sweep order locked b } = FillSell_sweep order locked b"
proof (cases "zero \<and> ns = []")
  case True
  then show ?thesis by (simp add: hd_opt_def FillSell_level_none)
next
  case False
  then obtain m ms where "LB = (p, l, m # ms) # Y" "(if zero then hd_opt ns else Some n) = Some m"
    using LB by (cases zero; cases ns) (auto simp: side_minus_def hd_opt_def)
  with FillSell_resume[where b = b and p = p and l = l and n = m and ns = ms and Y = Y and order = order and locked = locked and LA = LA] inv best show ?thesis by simp
qed

text \<open>One trade and the rest of the sweep.\<close>

lemma FillSell_sweep_trade:
  assumes inv: "ba_inv b ((p, l, n # ns) # Y) LA" and amt: "ord_Amount order > 0" and m: "IsMarketable order b"
    and p: "ord_Price order \<le> p" and room: "2 \<le> report_room b" "1 \<le> update_room b"
    and offer: "offer = on_NodeOrder (nodes (ba_Store b) n)"
    and rest: "rest = map (\<lambda>n. on_NodeOrder (nodes (ba_Store b) n)) ns @ asks b Y"
  shows "\<exists>b1 locked1 LB1. FillSell_sweep order locked b = FillSell_sweep (less_amount (traded order offer) order) locked1 b1 \<and>
    ba_inv b1 LB1 LA \<and> trade_sell (asset16 b) order locked offer rest (book_abs (b \<lparr> ba_BestBidPrice := p \<rparr>) ((p, l, n # ns) # Y) LA) =
      (less_amount (traded order offer) order, locked1, book_abs b1 LB1 LA) \<and>
    ba_BestBidPrice b1 = p \<and> report_room b = report_room b1 + 2 \<and> update_room b = Suc (update_room b1) \<and>
    ba_Ask b1 = ba_Ask b \<and> keeps b b1 \<and>
    (ord_Amount (less_amount (traded order offer) order) > 0 \<longrightarrow>
       length (node_ptrs ((p, l, n # ns) # Y)) = Suc (length (node_ptrs LB1)))"
proof -
  let ?b = "b \<lparr> ba_BestBidPrice := p \<rparr>" and ?t = "traded order offer"
  let ?z = "ord_Amount (less_amount ?t offer) = 0"
  define LB1 where "LB1 = (if ?z then side_minus [] p l ns Y else (p, l, n # ns) # Y)"
  note B = best_bid_bound[OF inv]
  have "ba_BestBidPrice ?b = p" "2 \<le> report_room ?b" "1 \<le> update_room ?b" using room by simp_all
  moreover have "offer = on_NodeOrder (nodes (ba_Store ?b) n)"
    "rest = map (\<lambda>n. on_NodeOrder (nodes (ba_Store ?b) n)) ns @ asks ?b Y" using offer rest by simp_all
  ultimately obtain b1 locked1 where
    t: "FillSell_trade l n order locked ?b = Some (if ?z then hd_opt ns else Some n, less_amount ?t order, locked1, b1)"
      "ba_inv b1 LB1 LA" "trade_sell (asset16 ?b) order locked offer rest (book_abs ?b ((p, l, n # ns) # Y) LA) =
         (less_amount ?t order, locked1, book_abs b1 LB1 LA)" "ba_BestBidPrice b1 = p"
      "report_room ?b = report_room b1 + 2" "update_room ?b = Suc (update_room b1)" "ba_Ask b1 = ba_Ask ?b" "keeps ?b b1"
    using FillSell_trade_ok[where order = order and locked = locked and t = ?t, OF B(1) _ _ _ _ refl _ LB1_def] by blast
  have p1: "ord_Price (less_amount ?t order) \<le> p" using p by (simp add: less_amount_def)
  have "FillSell_sweep order locked b = FillSell_sweep (less_amount ?t order) locked1 b1"
    unfolding FillSell_sweep_step[OF inv amt m]
    using p t(1) FillSell_next[where zero = ?z, OF t(2,4) p1 LB1_def] by (simp split del: if_split)
  moreover have "?z" if "ord_Amount (less_amount ?t order) > 0"
    using that by (auto simp: less_amount_def traded_def min_def split: if_splits)
  then have "length (node_ptrs ((p, l, n # ns) # Y)) = Suc (length (node_ptrs LB1))"
    if "ord_Amount (less_amount ?t order) > 0"
    using that by (simp add: LB1_def side_minus_ptrs)
  moreover have "keeps b b1" using t(8) by (simp add: keeps_def)
  ultimately show ?thesis using t(2-7) by auto
qed

lemma swept_sell_refl:
  assumes "ba_inv b' LB LA" "FillSell_sweep order locked b = Some (order, locked, b')"
    "sweep_sell k (asset16 b) order locked (book_abs b LB LA) = (order, locked, book_abs b' LB LA)"
    "report_room b' = report_room b" "update_room b' = update_room b" "ba_Ask b' = ba_Ask b" "keeps b b'"
  shows "swept_sell k order locked b LA LB order locked b' LB"
  using assms by (auto simp: swept_sell_def intro: exI[of _ "ord_Amount order"])

lemma swept_sell_trans:
  assumes s: "swept_sell k (less_amount t order) locked1 b1 LA LB1 order' locked' b' LB'"
    and "FillSell_sweep order locked b = FillSell_sweep (less_amount t order) locked1 b1"
    "sweep_sell j (asset16 b) order locked (book_abs b LB LA) =
       sweep_sell k (asset16 b1) (less_amount t order) locked1 (book_abs b1 LB1 LA)"
    "report_room b \<le> report_room b' + 2 * length (node_ptrs LB)" "update_room b \<le> update_room b' + length (node_ptrs LB)"
    "ba_Ask b1 = ba_Ask b" "keeps b b1"
  shows "swept_sell j order locked b LA LB order' locked' b' LB'"
proof -
  have "keeps b b'" "\<exists>a. order' = order \<lparr> ord_Amount := a \<rparr>"
    using s assms(7) store_grows_trans by (auto simp: swept_sell_def keeps_def less_amount_def)
  then show ?thesis using s assms(2-6) by (simp add: swept_sell_def)
qed

lemma swept_sell_stop:
  assumes inv: "ba_inv b LB LA" and stop: "LB = [] \<or> ord_Amount order = 0"
  shows "swept_sell k order locked b LA LB order locked b LB"
proof (rule swept_sell_refl[OF inv])
  show "FillSell_sweep order locked b = Some (order, locked, b)" using stop inv FillSell_sweep_done by blast
  show "sweep_sell k (asset16 b) order locked (book_abs b LB LA) = (order, locked, book_abs b LB LA)"
    using stop by (auto simp: book_abs_def orders_of_def sweep_sell_done)
qed (simp_all add: keeps_def)

lemma sweep_sell_head:
  assumes inv: "ba_inv b ((p, l, n # ns) # Y) LA" and amt: "ord_Amount order > 0"
    and offer: "offer = on_NodeOrder (nodes (ba_Store b) n)"
    and rest: "rest = map (\<lambda>n. on_NodeOrder (nodes (ba_Store b) n)) ns @ asks b Y"
  shows "sweep_sell (Suc k) (asset16 b) order locked (book_abs b ((p, l, n # ns) # Y) LA) =
    (if p < ord_Price order then (order, locked, book_abs (b \<lparr> ba_BestBidPrice := p \<rparr>) ((p, l, n # ns) # Y) LA)
     else (case trade_sell (asset16 b) order locked offer rest (book_abs (b \<lparr> ba_BestBidPrice := p \<rparr>) ((p, l, n # ns) # Y) LA) of
             (order, locked, s) \<Rightarrow> sweep_sell k (asset16 b) order locked s))"
proof -
  have "two_sides Greater (ba_Bid b) ((p, l, n # ns) # Y) Less (ba_Ask b) LA (ba_Store b)"
    using inv by (simp add: ba_inv_def two_sides_sym)
  from reduced_head(1)[OF this] amt show ?thesis by (simp add: book_abs_def offer rest word_greater_zero_iff)
qed

lemma swept_sell_more:
  assumes inv: "ba_inv b LB LA" and LB: "LB = (p, l, n # ns) # Y"
    and amt: "ord_Amount order > 0" and m: "IsMarketable order b" and side: "ord_Side order \<noteq> BUY"
    and fits: "sweep_fits (Suc k) LB b" and p: "ord_Price order \<le> p"
    and IH: "\<And>order locked b LB. ba_inv b LB LA \<Longrightarrow> IsMarketable order b \<Longrightarrow> ord_Side order \<noteq> BUY \<Longrightarrow> sweep_fits k LB b \<Longrightarrow>
      \<exists>order' locked' b' LB'. swept_sell k order locked b LA LB order' locked' b' LB'"
  shows "\<exists>order' locked' b' LB'. swept_sell (Suc k) order locked b LA LB order' locked' b' LB'"
proof -
  define offer where "offer = on_NodeOrder (nodes (ba_Store b) n)"
  define rest where "rest = map (\<lambda>n. on_NodeOrder (nodes (ba_Store b) n)) ns @ asks b Y"
  let ?o = "less_amount (traded order offer) order" and ?b = "b \<lparr> ba_BestBidPrice := p \<rparr>"
  have room: "2 \<le> report_room b" "1 \<le> update_room b" using fits by (simp_all add: sweep_fits_def LB)
  from FillSell_sweep_trade[OF inv[unfolded LB] amt m p room offer_def rest_def, of locked]
  obtain b1 locked1 LB1 where t: "FillSell_sweep order locked b = FillSell_sweep ?o locked1 b1" "ba_inv b1 LB1 LA"
      "trade_sell (asset16 b) order locked offer rest (book_abs ?b LB LA) = (?o, locked1, book_abs b1 LB1 LA)"
      "ba_BestBidPrice b1 = p" "report_room b = report_room b1 + 2" "update_room b = Suc (update_room b1)"
      "ba_Ask b1 = ba_Ask b" "keeps b b1"
      "ord_Amount ?o > 0 \<Longrightarrow> length (node_ptrs LB) = Suc (length (node_ptrs LB1))"
    unfolding LB by blast
  have o: "ord_Side ?o \<noteq> BUY" "IsMarketable ?o b1" "ba_MarketAssetId b1 = ba_MarketAssetId b"
    using side p t(4,8) by (simp_all add: less_amount_def IsMarketable_def keeps_def Let_def)
  obtain order' locked' b' LB' where s: "swept_sell k ?o locked1 b1 LA LB1 order' locked' b' LB'"
    "report_room b1 + 2 \<le> report_room b' + 2 * length (node_ptrs LB)"
    "update_room b1 + 1 \<le> update_room b' + length (node_ptrs LB)"
  proof (cases "ord_Amount ?o = 0")
    case True
    from that[OF swept_sell_stop[OF t(2) disjI2[OF True]]] show thesis by (simp add: LB)
  next
    case False
    then have l: "length (node_ptrs LB) = Suc (length (node_ptrs LB1))"
      using t(9) by (simp add: word_greater_zero_iff)
    have "sweep_fits k LB1 b1" using fits t(5,6) l by (simp add: sweep_fits_def)
    from IH[OF t(2) o(2,1) this, of locked1] obtain order' locked' b' LB' where
      s: "swept_sell k ?o locked1 b1 LA LB1 order' locked' b' LB'" by blast
    from that[OF s] s show thesis by (simp add: swept_sell_def l)
  qed
  have "swept_sell (Suc k) order locked b LA LB order' locked' b' LB'"
    by (rule swept_sell_trans[OF s(1) t(1) _ _ _ t(7,8)])
      (use s(2,3) t(3,5,6) o(3) p sweep_sell_head[OF inv[unfolded LB] amt offer_def rest_def, of k locked] in
        \<open>simp_all add: LB split del: if_split\<close>)
  then show ?thesis by blast
qed

lemma FillSell_sweep_ok:
  assumes "ba_inv b LB LA" "IsMarketable order b" "ord_Side order \<noteq> BUY" "sweep_fits k LB b"
  shows "\<exists>order' locked' b' LB'. swept_sell k order locked b LA LB order' locked' b' LB'"
  using assms
proof (induction k arbitrary: order locked b LB)
  case 0
  have "side_ok Greater (ba_Bid b) (levels (ba_Store b)) (nodes (ba_Store b)) LB"
    using 0(1) by (simp add: ba_inv_def two_sides_def)
  then have "LB = []" by (rule side_cases) (use 0(4) in \<open>auto simp: sweep_fits_def\<close>)
  then show ?case using swept_sell_stop[OF 0(1)] by blast
next
  case (Suc k)
  have side: "side_ok Greater (ba_Bid b) (levels (ba_Store b)) (nodes (ba_Store b)) LB"
    using Suc.prems(1) by (simp add: ba_inv_def two_sides_def)
  show ?case
  proof (cases "LB = [] \<or> ord_Amount order = 0")
    case True
    then show ?thesis using swept_sell_stop[OF Suc.prems(1)] by blast
  next
    case False
    then obtain p l n ns Y where LB: "LB = (p, l, n # ns) # Y" using side_cases[OF side] by blast
    have amt: "ord_Amount order > 0" using False by (simp add: word_greater_zero_iff)
    note inv = Suc.prems(1)[unfolded LB]
    show ?thesis
    proof (cases "p < ord_Price order")
      case True
      have "swept_sell (Suc k) order locked b LA LB order locked (b \<lparr> ba_BestBidPrice := p \<rparr>) LB"
        using best_bid_bound(1)[OF inv] True FillSell_sweep_step[OF inv amt Suc.prems(2)]
          sweep_sell_head[OF inv amt refl refl]
        by (intro swept_sell_refl) (simp_all add: LB keeps_def)
      then show ?thesis by blast
    next
      case False
      then show ?thesis using swept_sell_more[OF Suc.prems(1) LB amt Suc.prems(2-4)] Suc.IH by simp
    qed
  qed
qed

section \<open>Resting on the ask side\<close>

lemma AddSellLimitOrder_ok:
  assumes inv: "ba_inv b LB LA" and can: "can_rest (ba_Ask b) LA (ba_Store b) order"
    and room: "1 \<le> report_room b" "1 \<le> update_room b"
  shows "\<exists>b' LA'. AddSellLimitOrder order b = Some b' \<and> ba_inv b' LB LA' \<and>
    book_abs b' LB LA' = spec_add_sell (asset16 b) order (book_abs b LB LA) \<and> ba_MarketAssetId b' = ba_MarketAssetId b"
proof -
  let ?p = "ord_Price order"
  have "two_sides Less (ba_Ask b) LA Greater (ba_Bid b) LB (ba_Store b)" using inv by (simp add: ba_inv_def two_sides_sym)
  from two_sides_rest[OF this can] obtain n np om l bk1 L1 st1 where
    e: "STPool_Acquire (bs_OrderNodePool (ba_Store b)) = (Some n, np)" "stp_Storage np = nodes (ba_Store b)"
      "FlatHashMap_AddNode (id64 order) (Some n) (bs_OrderMap (ba_Store b)) = Some om"
      "OrderBook_AddLimitOrder n (ba_Ask b) (enter_order order n np om (ba_Store b)) = Some (l, bk1, st1)"
      "rested Less (ba_Ask b) LA Greater (ba_Bid b) LB (ba_Store b) order l bk1 L1 st1" by blast
  note R = e(5)[unfolded rested_def]
  define b1 where "b1 = b \<lparr> ba_BestAskPrice := min (ba_BestAskPrice b) ?p, ba_Ask := bk1, ba_Store := st1 \<rparr>"
  have inv1: "ba_inv b1 LB L1"
  proof -
    have "min (ba_BestAskPrice b) ?p \<le> fst e" if "e \<in> set L1" for e
    proof -
      have "fst e \<in> insert ?p (fst ` set LA)" using R that by (metis image_eqI)
      then show ?thesis using inv by (auto simp: ba_inv_def)
    qed
    then show ?thesis using inv R by (simp add: ba_inv_def b1_def two_sides_sym)
  qed
  have abs1: "book_abs b1 LB L1 = (book_abs b LB LA) \<lparr> ab_BestAsk := min (ba_BestAskPrice b) ?p,
      ab_Asks := rest_order Less order (ab_Asks (book_abs b LB LA)) \<rparr>"
    using R by (simp add: book_abs_def b1_def)
  let ?r = "\<lambda>q. FillReport 0 0 (uint (ord_Amount order)) q (ord_ClientId order) (order_id32 order) 0 0 (asset16 b) ADD"
  have r1: "0 < report_room b1" using room by (simp add: b1_def)
  from report_step[OF inv1 r1, of ?r] obtain b2 where
    2: "report_guarded ?r b1 = b2" "ba_inv b2 LB L1" "book_abs b2 LB L1 = emit_report ?r (book_abs b1 LB L1)" "same_book b1 b2"
      "update_room b2 = update_room b1" by metis
  let ?u = "\<lambda>q. FillUpdate q (depth_at ?p (ab_Asks (book_abs b1 LB L1))) ?p (asset16 b) ORDER_BOOK_UPDATE_SELL"
  have r2: "0 < update_room b2" using room 2(5) by (simp add: b1_def)
  from update_step[OF 2(2) r2, of ?u] obtain b3 where
    3: "update_guarded ?u b2 = b3" "ba_inv b3 LB L1" "book_abs b3 LB L1 = emit_update ?u (book_abs b2 LB L1)" "same_book b2 b3" by metis
  have st2: "ba_Store b2 = st1" "ba_MarketAssetId b2 = ba_MarketAssetId b" using 2(4) by (simp_all add: same_book_def b1_def)
  have dep: "level_depth b2 (Some l) = depth_at ?p (ab_Asks (book_abs b1 LB L1))" "pl_Price (levels st1 l) = ?p"
    using R by (simp_all add: level_depth_def st2 book_abs_def b1_def)
  have "AddSellLimitOrder order b = Some b3"
    unfolding AddSellLimitOrder_def e(1) Let_def
    using e(2-4) 2(1) 3(1) st2 dep
    by (simp add: enter_order_def Let_def node_defs id64_def order_id32_def b1_def)
  moreover have "book_abs b3 LB L1 = spec_add_sell (asset16 b) order (book_abs b LB LA)"
    unfolding 3(3) 2(3) abs1 spec_add_sell_def Let_def by (simp add: book_abs_def emit_report_def emit_update_def)
  moreover have "ba_MarketAssetId b3 = ba_MarketAssetId b" using 3(4) st2(2) by (simp add: same_book_def)
  ultimately show ?thesis using 3(2) by blast
qed

section \<open>A marketable sell order\<close>

lemma FillSellOrder_ok:
  assumes inv: "ba_inv b LB LA" and m: "IsMarketable order b" "ord_Side order \<noteq> BUY"
    and can: "ord_Type order = LIMIT \<Longrightarrow> can_rest (ba_Ask b) LA (ba_Store b) order"
    and room: "2 * length (node_ptrs LB) + 1 \<le> report_room b" "length (node_ptrs LB) + 1 \<le> update_room b"
  shows "\<exists>b' LB' LA'. FillSellOrder order b = Some b' \<and> ba_inv b' LB' LA' \<and>
    book_abs b' LB' LA' = spec_fill_sell (asset16 b) order (book_abs b LB LA) \<and> ba_MarketAssetId b' = ba_MarketAssetId b"
proof -
  let ?l = "uint (ord_Amount order)" and ?k = "Suc (length (ab_Bids (book_abs b LB LA)))"
  have "sweep_fits ?k LB b" using room by (simp add: sweep_fits_def book_abs_def orders_of_def)
  from FillSell_sweep_ok[OF inv m this, of ?l] obtain order' locked b1 LB1 where
    s: "swept_sell ?k order ?l b LA LB order' locked b1 LB1" by auto
  then obtain a where S: "FillSell_sweep order ?l b = Some (order', locked, b1)" "ba_inv b1 LB1 LA"
    "sweep_sell ?k (asset16 b) order ?l (book_abs b LB LA) = (order', locked, book_abs b1 LB1 LA)" "1 \<le> report_room b1"
    "1 \<le> update_room b1" "ba_Ask b1 = ba_Ask b" "keeps b b1" "order' = order \<lparr> ord_Amount := a \<rparr>"
    using room by (auto simp: swept_sell_def)
  have as: "ba_MarketAssetId b1 = ba_MarketAssetId b" using S(7) by (simp add: keeps_def)
  consider "ord_Amount order' = 0" | "ord_Amount order' > 0" "ord_Type order = LIMIT" | "ord_Amount order' > 0" "ord_Type order \<noteq> LIMIT"
    by (auto simp: word_greater_zero_iff)
  then show ?thesis
  proof cases
    case 1
    with S as show ?thesis by (auto simp: FillSellOrder_def spec_fill_sell_def)
  next
    case 2
    have "can_rest (ba_Ask b1) LA (ba_Store b1) order'"
      using can_rest_mono[OF can[OF 2(2)]] S(6-8) by (simp add: keeps_def)
    from AddSellLimitOrder_ok[OF S(2) this S(4,5)] obtain b2 LA2 where
      "AddSellLimitOrder order' b1 = Some b2" "ba_inv b2 LB1 LA2"
      "book_abs b2 LB1 LA2 = spec_add_sell (asset16 b1) order' (book_abs b1 LB1 LA)" "ba_MarketAssetId b2 = ba_MarketAssetId b1"
      by blast
    moreover have "ord_Type order' = LIMIT" using 2 S(8) by simp
    ultimately show ?thesis using 2 S(1,3) as by (auto simp: FillSellOrder_def spec_fill_sell_def)
  next
    case 3
    let ?r = "\<lambda>q. FillReport 0 0 (wrap64 (- locked)) q (ord_ClientId order') (order_id32 order') 0 0 (asset16 b) CANCEL_STATE"
    have "0 < report_room b1" using S(4) by simp
    from report_step[OF S(2) this, of ?r] obtain b2 where
      "report_block ?r b1 = Some b2" "ba_inv b2 LB1 LA" "book_abs b2 LB1 LA = emit_report ?r (book_abs b1 LB1 LA)"
      "same_book b1 b2" by metis
    moreover have "ord_Type order' \<noteq> LIMIT" using 3 S(8) by simp
    ultimately show ?thesis using 3 S(1,3) as by (auto simp: FillSellOrder_def spec_fill_sell_def order_id32_def same_book_def)
  qed
qed

section \<open>Cancelling a resting bid\<close>

lemma CancelOrder_bid:
  assumes inv: "ba_inv b LB LA" and room: "1 \<le> report_room b" "1 \<le> update_room b"
    and target: "target \<in> set (ab_Bids (book_abs b LB LA))" "ord_Amount req = order_id32 target"
      "ord_ClientId req = ord_ClientId target"
  shows "\<exists>b' LB'. CancelOrder BUY req b = Some b' \<and> ba_inv b' LB' LA \<and>
    book_abs b' LB' LA = spec_cancel_buy (asset16 b) target (book_abs b LB LA) \<and> ba_MarketAssetId b' = ba_MarketAssetId b"
proof -
  let ?p = "ord_Price target"
  from target(1) obtain n where n: "n \<in> set (node_ptrs LB)" "on_NodeOrder (nodes (ba_Store b) n) = target"
    by (auto simp: book_abs_def orders_of_def)
  have T: "two_sides Greater (ba_Bid b) LB Less (ba_Ask b) LA (ba_Store b)" using inv by (simp add: ba_inv_def two_sides_sym)
  from n(1) obtain X p l A C Y where LB: "LB = X @ (p, l, A @ n # C) # Y" by (rule node_split)
  have p: "p = ?p" using side_prices[OF two_sidesD(1)[OF T], of p l "A @ n # C" n] by (simp add: LB n(2))
  let ?r = "\<lambda>q. FillReport 0 0 (wrap64 (uint (ord_Amount target) * ?p)) q (ord_ClientId target) (order_id32 target) 0 (asset16 b) 0 CANCEL_STATE"
  have "0 < report_room b" using room(1) by simp
  from report_step[OF inv this, of ?r] obtain b1 where
    1: "report_block ?r b = Some b1" "ba_inv b1 LB LA" "book_abs b1 LB LA = emit_report ?r (book_abs b LB LA)" "same_book b b1"
      "update_room b1 = update_room b" by metis
  have st1: "ba_Store b1 = ba_Store b" "ba_Bid b1 = ba_Bid b" "ba_MarketAssetId b1 = ba_MarketAssetId b"
    using 1(4) by (simp_all add: same_book_def)
  let ?M = "side_minus X p l (A @ C) Y"
  from ba_inv_delete_bid[OF 1(2)[unfolded LB]] obtain cur bk st where
    d: "OrderBook_DeleteOrder n (ba_Bid b1) (ba_Store b1) = Some (cur, bk, st)"
      "ba_inv (b1 \<lparr> ba_Bid := bk, ba_Store := st \<rparr>) ?M LA"
      "book_abs (b1 \<lparr> ba_Bid := bk, ba_Store := st \<rparr>) ?M LA =
        (book_abs b1 LB LA) \<lparr> ab_Bids := orders_of (nodes (ba_Store b1)) ?M \<rparr>"
      "level_depth (b1 \<lparr> ba_Bid := bk, ba_Store := st \<rparr>) cur = depth_at p (orders_of (nodes (ba_Store b1)) ?M)"
    unfolding LB by blast
  have rem: "orders_of (nodes (ba_Store b1)) ?M = remove_id (order_id32 target) (ab_Bids (book_abs b LB LA))"
    unfolding st1(1) n(2)[symmetric] book_abs_def LB abook.simps
    by (rule remove_id_side[symmetric, OF side_okD(5)[OF two_sidesD(1)[OF T], unfolded LB]
          store_okD(8)[OF two_sidesD(3)[OF T], unfolded LB] Un_upper1])
  define b2 where "b2 = b1 \<lparr> ba_Bid := bk, ba_Store := st \<rparr>"
  let ?u = "\<lambda>q. FillUpdate q (depth_at ?p (remove_id (order_id32 target) (ab_Bids (book_abs b LB LA)))) ?p (asset16 b) ORDER_BOOK_UPDATE_BUY"
  have "0 < update_room b2" using room(2) 1(5) by (simp add: b2_def)
  from update_step[OF d(2)[folded b2_def] this, of ?u] obtain b3 where
    3: "update_block ?u b2 = Some b3" "ba_inv b3 ?M LA" "book_abs b3 ?M LA = emit_update ?u (book_abs b2 ?M LA)"
      "same_book b2 b3" by metis
  have fields: "OrderNode_GetAmount (nodes (ba_Store b) n) = ord_Amount target" "OrderNode_GetPrice (nodes (ba_Store b) n) = ?p"
    "OrderNode_GetClientId (nodes (ba_Store b) n) = ord_ClientId target" "OrderNode_GetId (nodes (ba_Store b) n) = order_id32 target"
    by (simp_all add: node_defs n(2) order_id32_def)
  have u: "(\<lambda>s. FillUpdate s (level_depth b2 cur) ?p (asset16 b2) ORDER_BOOK_UPDATE_BUY) = ?u"
    using d(4) rem p st1(3) by (simp add: b2_def)
  have "CancelOrder BUY req b = CancelOrder_found BUY n b"
    using find_order(1)[OF T n(1)] target(2,3) fields(3) n(2) by (simp add: CancelOrder_def)
  also have "\<dots> = Some b3"
    unfolding CancelOrder_found_def Let_def fields using 1(1) d(1) 3(1) u by (simp add: b2_def)
  finally have "CancelOrder BUY req b = Some b3" .
  moreover have "book_abs b3 ?M LA = spec_cancel_buy (asset16 b) target (book_abs b LB LA)"
    unfolding 3(3) b2_def d(3) 1(3) rem spec_cancel_buy_def Let_def by (simp add: emit_report_def)
  moreover have "ba_MarketAssetId b3 = ba_MarketAssetId b" using 3(4) st1(3) by (simp add: same_book_def b2_def)
  ultimately show ?thesis using 3(2) by blast
qed

end
