(* ===== verification/Book_Props.thy ===== *)
theory Book_Props
  imports Book_Spec
begin

text \<open>
  What the specification of a market guarantees: the resting orders of each side stay in price-time
  order and the two sides do not cross; a marketable order consumes a prefix of the opposite side and
  trades the smaller of its amount and the acceptable liquidity; every trade moves assets and cash
  between the two parties without creating any; the book updates replay to the depths of the book.
\<close>

section \<open>Induction over a sweep\<close>

lemma trade_buy_simps:
  assumes "trade_buy asset order locked offer rest s = (order', locked', s')"
  shows "order' = less_amount (traded order offer) order" "ab_Asks s' = after_trade (traded order offer) offer rest"
    "ab_Bids s' = ab_Bids s" "ab_BestAsk s' = ab_BestAsk s" "ab_BestBid s' = ab_BestBid s"
    "ab_ReportSeq s' = ab_ReportSeq s + 2" "ab_UpdateSeq s' = ab_UpdateSeq s + 1"
    "ab_Reports s' = ab_Reports s @
       [buyer_report asset (traded order offer) (ord_Price offer) order' (ab_ReportSeq s),
        seller_report asset (traded order offer) (ord_Price offer) (less_amount (traded order offer) offer) (ab_ReportSeq s + 1)]"
    "ab_Updates s' = ab_Updates s @
       [FillUpdate (ab_UpdateSeq s) (depth_at (ord_Price offer) (ab_Asks s')) (ord_Price offer) asset ORDER_BOOK_UPDATE_SELL]"
  using assms by (auto simp: trade_buy_def Let_def emit_report_def emit_update_def)

lemma trade_sell_simps:
  assumes "trade_sell asset order locked offer rest s = (order', locked', s')"
  shows "order' = less_amount (traded order offer) order" "ab_Bids s' = after_trade (traded order offer) offer rest"
    "ab_Asks s' = ab_Asks s" "ab_BestAsk s' = ab_BestAsk s" "ab_BestBid s' = ab_BestBid s"
    "ab_ReportSeq s' = ab_ReportSeq s + 2" "ab_UpdateSeq s' = ab_UpdateSeq s + 1"
    "ab_Reports s' = ab_Reports s @
       [seller_report asset (traded order offer) (ord_Price offer) order' (ab_ReportSeq s),
        buyer_report asset (traded order offer) (ord_Price offer) (less_amount (traded order offer) offer) (ab_ReportSeq s + 1)]"
    "ab_Updates s' = ab_Updates s @
       [FillUpdate (ab_UpdateSeq s) (depth_at (ord_Price offer) (ab_Bids s')) (ord_Price offer) asset ORDER_BOOK_UPDATE_BUY]"
  using assms by (auto simp: trade_sell_def Let_def emit_report_def emit_update_def)

text \<open>A property that a change of the best price and every trade preserve holds after the sweep.\<close>

lemma sweep_buy_inv:
  assumes "P order s"
    and best: "\<And>order s p. P order s \<Longrightarrow> (\<exists>offer rest. ab_Asks s = offer # rest \<and> p = ord_Price offer) \<Longrightarrow> P order (s \<lparr> ab_BestAsk := p \<rparr>)"
    and trade: "\<And>order s offer rest locked order' locked' s'. P order s \<Longrightarrow> ab_Asks s = offer # rest \<Longrightarrow>
      ord_Price offer \<le> ord_Price order \<Longrightarrow> ord_Amount order \<noteq> 0 \<Longrightarrow>
      trade_buy asset order locked offer rest s = (order', locked', s') \<Longrightarrow> P order' s'"
    and "sweep_buy n asset order locked s = (order', locked', s')"
  shows "P order' s'"
  using assms(1,4)
proof (induction n arbitrary: order locked s)
  case (Suc n)
  show ?case
  proof (cases "ab_Asks s = [] \<or> ord_Amount order = 0")
    case True
    then show ?thesis using Suc.prems by (auto split: list.splits)
  next
    case False
    then obtain offer rest where a: "ab_Asks s = offer # rest" by (cases "ab_Asks s") auto
    let ?s = "s \<lparr> ab_BestAsk := ord_Price offer \<rparr>"
    have b: "P order ?s" using best Suc.prems(1) a by blast
    show ?thesis
    proof (cases "ord_Price offer > ord_Price order")
      case True
      then show ?thesis using Suc.prems(2) a False b by simp
    next
      case le: False
      obtain o1 l1 s1 where t: "trade_buy asset order locked offer rest ?s = (o1, l1, s1)" by (metis prod_cases3)
      have "P o1 s1" using trade[OF b _ _ _ t] a le False by simp
      moreover have "sweep_buy n asset o1 l1 s1 = (order', locked', s')" using Suc.prems(2) a False le t by simp
      ultimately show ?thesis by (rule Suc.IH)
    qed
  qed
qed simp

lemma sweep_sell_inv:
  assumes "P order s"
    and best: "\<And>order s p. P order s \<Longrightarrow> (\<exists>offer rest. ab_Bids s = offer # rest \<and> p = ord_Price offer) \<Longrightarrow> P order (s \<lparr> ab_BestBid := p \<rparr>)"
    and trade: "\<And>order s offer rest locked order' locked' s'. P order s \<Longrightarrow> ab_Bids s = offer # rest \<Longrightarrow>
      ord_Price order \<le> ord_Price offer \<Longrightarrow> ord_Amount order \<noteq> 0 \<Longrightarrow>
      trade_sell asset order locked offer rest s = (order', locked', s') \<Longrightarrow> P order' s'"
    and "sweep_sell n asset order locked s = (order', locked', s')"
  shows "P order' s'"
  using assms(1,4)
proof (induction n arbitrary: order locked s)
  case (Suc n)
  show ?case
  proof (cases "ab_Bids s = [] \<or> ord_Amount order = 0")
    case True
    then show ?thesis using Suc.prems by (auto split: list.splits)
  next
    case False
    then obtain offer rest where a: "ab_Bids s = offer # rest" by (cases "ab_Bids s") auto
    let ?s = "s \<lparr> ab_BestBid := ord_Price offer \<rparr>"
    have b: "P order ?s" using best Suc.prems(1) a by blast
    show ?thesis
    proof (cases "ord_Price offer < ord_Price order")
      case True
      then show ?thesis using Suc.prems(2) a False b by simp
    next
      case le: False
      obtain o1 l1 s1 where t: "trade_sell asset order locked offer rest ?s = (o1, l1, s1)" by (metis prod_cases3)
      have "P o1 s1" using trade[OF b _ _ _ t] a le False by simp
      moreover have "sweep_sell n asset o1 l1 s1 = (order', locked', s')" using Suc.prems(2) a False le t by simp
      ultimately show ?thesis by (rule Suc.IH)
    qed
  qed
qed simp

text \<open>When the fuel covers the opposite side, a sweep ends because the order is filled or because no
  acceptable offer is left.\<close>

lemma sweep_buy_end:
  assumes "sweep_buy n asset order locked s = (order', locked', s')" "length (ab_Asks s) \<le> n"
  shows "ord_Amount order' = 0 \<or> (case ab_Asks s' of [] \<Rightarrow> True | offer # _ \<Rightarrow> ord_Price order' < ord_Price offer)"
  using assms
proof (induction n arbitrary: order locked s)
  case (Suc n)
  show ?case
  proof (cases "ab_Asks s = [] \<or> ord_Amount order = 0")
    case True
    then show ?thesis using Suc.prems by (auto split: list.splits)
  next
    case False
    then obtain offer rest where a: "ab_Asks s = offer # rest" by (cases "ab_Asks s") auto
    let ?s = "s \<lparr> ab_BestAsk := ord_Price offer \<rparr>"
    show ?thesis
    proof (cases "ord_Price offer > ord_Price order")
      case True
      then show ?thesis using Suc.prems a False by auto
    next
      case le: False
      obtain o1 l1 s1 where t: "trade_buy asset order locked offer rest ?s = (o1, l1, s1)" by (metis prod_cases3)
      then have sw: "sweep_buy n asset o1 l1 s1 = (order', locked', s')" using Suc.prems(1) a False le by simp
      note T = trade_buy_simps[OF t]
      show ?thesis
      proof (cases "ord_Amount (less_amount (traded order offer) offer) = 0")
        case True
        then have "length (ab_Asks s1) \<le> n" using T(2) Suc.prems(2) a by (simp add: after_trade_def)
        with Suc.IH[OF sw] show ?thesis .
      next
        case nz: False
        then have "ord_Amount o1 = 0" unfolding T(1) by (auto simp: less_amount_def traded_def min_def split: if_splits)
        then show ?thesis using sw by (cases n) (auto split: list.splits)
      qed
    qed
  qed
qed simp

lemma sweep_sell_end:
  assumes "sweep_sell n asset order locked s = (order', locked', s')" "length (ab_Bids s) \<le> n"
  shows "ord_Amount order' = 0 \<or> (case ab_Bids s' of [] \<Rightarrow> True | offer # _ \<Rightarrow> ord_Price offer < ord_Price order')"
  using assms
proof (induction n arbitrary: order locked s)
  case (Suc n)
  show ?case
  proof (cases "ab_Bids s = [] \<or> ord_Amount order = 0")
    case True
    then show ?thesis using Suc.prems by (auto split: list.splits)
  next
    case False
    then obtain offer rest where a: "ab_Bids s = offer # rest" by (cases "ab_Bids s") auto
    let ?s = "s \<lparr> ab_BestBid := ord_Price offer \<rparr>"
    show ?thesis
    proof (cases "ord_Price offer < ord_Price order")
      case True
      then show ?thesis using Suc.prems a False by auto
    next
      case le: False
      obtain o1 l1 s1 where t: "trade_sell asset order locked offer rest ?s = (o1, l1, s1)" by (metis prod_cases3)
      then have sw: "sweep_sell n asset o1 l1 s1 = (order', locked', s')" using Suc.prems(1) a False le by simp
      note T = trade_sell_simps[OF t]
      show ?thesis
      proof (cases "ord_Amount (less_amount (traded order offer) offer) = 0")
        case True
        then have "length (ab_Bids s1) \<le> n" using T(2) Suc.prems(2) a by (simp add: after_trade_def)
        with Suc.IH[OF sw] show ?thesis .
      next
        case nz: False
        then have "ord_Amount o1 = 0" unfolding T(1) by (auto simp: less_amount_def traded_def min_def split: if_splits)
        then show ?thesis using sw by (cases n) (auto split: list.splits)
      qed
    qed
  qed
qed simp

section \<open>Price-time order\<close>

definition sorted_side :: "Compare \<Rightarrow> Order list \<Rightarrow> bool" where
  "sorted_side c os \<longleftrightarrow> sorted_wrt (\<lambda>a b. \<not> comp c (ord_Price b) (ord_Price a)) os"

lemma set_rest_order [simp]: "set (rest_order c o' os) = insert o' (set os)"
proof -
  have "set os = set (takeWhile (\<lambda>x. \<not> comp c (ord_Price o') (ord_Price x)) os) \<union>
      set (dropWhile (\<lambda>x. \<not> comp c (ord_Price o') (ord_Price x)) os)"
    by (metis set_append takeWhile_dropWhile_id)
  then show ?thesis by (auto simp: rest_order_def)
qed

lemma sorted_dropWhile:
  assumes "sorted_side c os" "x \<in> set (dropWhile (\<lambda>x. \<not> comp c p (ord_Price x)) os)"
  shows "comp c p (ord_Price x)"
proof -
  let ?D = "dropWhile (\<lambda>x. \<not> comp c p (ord_Price x)) os"
  obtain y D where d: "?D = y # D" using assms(2) by (cases ?D) auto
  then have y: "comp c p (ord_Price y)" using hd_dropWhile[of "\<lambda>x. \<not> comp c p (ord_Price x)" os] by simp
  have "sorted_side c ?D" using assms(1) unfolding sorted_side_def
    by (metis sorted_wrt_append takeWhile_dropWhile_id)
  then have "x = y \<or> \<not> comp c (ord_Price x) (ord_Price y)" using d assms(2) by (auto simp: sorted_side_def)
  with y show ?thesis using comp_order(2)[of c p "ord_Price y" "ord_Price x"] comp_order(3)[of c "ord_Price y" "ord_Price x"] by auto
qed

lemma rest_order_parts:
  assumes "sorted_side c os"
  obtains T D where "os = T @ D" "rest_order c o' os = T @ o' # D"
    "\<And>x. x \<in> set T \<Longrightarrow> \<not> comp c (ord_Price o') (ord_Price x)" "\<And>x. x \<in> set D \<Longrightarrow> comp c (ord_Price o') (ord_Price x)"
proof -
  let ?P = "\<lambda>x. \<not> comp c (ord_Price o') (ord_Price x)"
  show thesis
  proof (rule that[of "takeWhile ?P os" "dropWhile ?P os"])
    show "\<not> comp c (ord_Price o') (ord_Price x)" if "x \<in> set (takeWhile ?P os)" for x using set_takeWhileD[OF that] by simp
    show "comp c (ord_Price o') (ord_Price x)" if "x \<in> set (dropWhile ?P os)" for x by (rule sorted_dropWhile[OF assms that])
  qed (simp_all add: rest_order_def)
qed

lemma sorted_rest_order:
  assumes "sorted_side c os"
  shows "sorted_side c (rest_order c o' os)"
proof -
  from rest_order_parts[OF assms, of o'] obtain T D where
    p: "os = T @ D" "rest_order c o' os = T @ o' # D" "\<And>x. x \<in> set T \<Longrightarrow> \<not> comp c (ord_Price o') (ord_Price x)"
      "\<And>x. x \<in> set D \<Longrightarrow> comp c (ord_Price o') (ord_Price x)" by blast
  have "\<not> comp c (ord_Price x) (ord_Price o')" if "x \<in> set D" for x
    using p(4)[OF that] comp_order(1,2) by metis
  then show ?thesis using assms p(3) unfolding p(2) unfolding p(1) sorted_side_def by (auto simp: sorted_wrt_append)
qed

text \<open>A new order goes behind the orders at its price and leaves the other prices alone.\<close>

lemma rest_order_fifo:
  assumes "sorted_side c os"
  shows "filter (\<lambda>x. ord_Price x = p) (rest_order c o' os) =
    filter (\<lambda>x. ord_Price x = p) os @ (if ord_Price o' = p then [o'] else [])"
proof -
  from rest_order_parts[OF assms, of o'] obtain T D where
    r: "os = T @ D" "rest_order c o' os = T @ o' # D" "\<And>x. x \<in> set D \<Longrightarrow> comp c (ord_Price o') (ord_Price x)" by blast
  have "filter (\<lambda>x. ord_Price x = p) D = []" if "ord_Price o' = p"
    unfolding filter_empty_conv using r(3) comp_order(1) that by metis
  then show ?thesis unfolding r(2) unfolding r(1) by simp
qed

lemma after_trade_simps:
  "set (after_trade t offer rest) \<subseteq> insert (less_amount t offer) (set rest)"
  "ord_Price (less_amount t o') = ord_Price o'" "ord_Side (less_amount t o') = ord_Side o'"
  "order_id32 (less_amount t o') = order_id32 o'" "ord_ClientId (less_amount t o') = ord_ClientId o'"
  by (auto simp: after_trade_def less_amount_def order_id32_def)

lemma sorted_after_trade: "sorted_side c (offer # rest) \<Longrightarrow> sorted_side c (after_trade t offer rest)"
  by (auto simp: sorted_side_def after_trade_def after_trade_simps)

section \<open>Well-formed books\<close>

text \<open>Both sides in price-time order, on the right side, within the best-price bounds, and not crossed.\<close>

definition book_wf :: "abook \<Rightarrow> bool" where
  "book_wf s \<longleftrightarrow> sorted_side Less (ab_Asks s) \<and> sorted_side Greater (ab_Bids s) \<and>
     (\<forall>o' \<in> set (ab_Asks s). ord_Side o' \<noteq> BUY \<and> ab_BestAsk s \<le> ord_Price o') \<and>
     (\<forall>o' \<in> set (ab_Bids s). ord_Side o' = BUY \<and> ord_Price o' \<le> ab_BestBid s) \<and>
     (\<forall>b \<in> set (ab_Bids s). \<forall>a \<in> set (ab_Asks s). ord_Price b < ord_Price a)"

lemma book_wf_cong:
  "ab_Asks s' = ab_Asks s \<Longrightarrow> ab_Bids s' = ab_Bids s \<Longrightarrow> ab_BestAsk s' = ab_BestAsk s \<Longrightarrow> ab_BestBid s' = ab_BestBid s \<Longrightarrow>
   book_wf s' = book_wf s"
  by (simp add: book_wf_def)

lemma emit_simps [simp]:
  "ab_Asks (emit_report r s) = ab_Asks s" "ab_Bids (emit_report r s) = ab_Bids s"
  "ab_BestAsk (emit_report r s) = ab_BestAsk s" "ab_BestBid (emit_report r s) = ab_BestBid s"
  "ab_Asks (emit_update u s) = ab_Asks s" "ab_Bids (emit_update u s) = ab_Bids s"
  "ab_BestAsk (emit_update u s) = ab_BestAsk s" "ab_BestBid (emit_update u s) = ab_BestBid s"
  "ab_Updates (emit_report r s) = ab_Updates s" "ab_Reports (emit_update u s) = ab_Reports s"
  "ab_UpdateSeq (emit_report r s) = ab_UpdateSeq s" "ab_ReportSeq (emit_update u s) = ab_ReportSeq s"
  "ab_Reports (emit_report r s) = ab_Reports s @ [r (ab_ReportSeq s)]" "ab_ReportSeq (emit_report r s) = ab_ReportSeq s + 1"
  "ab_Updates (emit_update u s) = ab_Updates s @ [u (ab_UpdateSeq s)]" "ab_UpdateSeq (emit_update u s) = ab_UpdateSeq s + 1"
  by (simp_all add: emit_report_def emit_update_def)

lemma trade_buy_wf:
  assumes wf: "book_wf s" and a: "ab_Asks s = offer # rest" and t: "trade_buy asset order locked offer rest s = (order', locked', s')"
  shows "book_wf s'"
proof -
  note T = trade_buy_simps[OF t]
  have sub: "\<exists>y \<in> set (ab_Asks s). ord_Price x = ord_Price y \<and> ord_Side x = ord_Side y" if "x \<in> set (ab_Asks s')" for x
    using that after_trade_simps unfolding T(2) a by fastforce
  have "sorted_side Less (ab_Asks s')" unfolding T(2) using wf a by (intro sorted_after_trade) (simp add: book_wf_def)
  then show ?thesis using wf sub T(3-5) unfolding book_wf_def by metis
qed

lemma trade_sell_wf:
  assumes wf: "book_wf s" and a: "ab_Bids s = offer # rest" and t: "trade_sell asset order locked offer rest s = (order', locked', s')"
  shows "book_wf s'"
proof -
  note T = trade_sell_simps[OF t]
  have sub: "\<exists>y \<in> set (ab_Bids s). ord_Price x = ord_Price y \<and> ord_Side x = ord_Side y" if "x \<in> set (ab_Bids s')" for x
    using that after_trade_simps unfolding T(2) a by fastforce
  have "sorted_side Greater (ab_Bids s')" unfolding T(2) using wf a by (intro sorted_after_trade) (simp add: book_wf_def)
  then show ?thesis using wf sub T(3-5) unfolding book_wf_def by metis
qed

lemma spec_add_buy_wf:
  assumes wf: "book_wf s" and "ord_Side order = BUY" "\<And>a. a \<in> set (ab_Asks s) \<Longrightarrow> ord_Price order < ord_Price a"
  shows "book_wf (spec_add_buy asset order s)"
proof -
  have "sorted_side Greater (rest_order Greater order (ab_Bids s))" using wf by (intro sorted_rest_order) (simp add: book_wf_def)
  then show ?thesis
    using assms by (auto simp: book_wf_def spec_add_buy_def Let_def max_def)
qed

lemma spec_add_sell_wf:
  assumes wf: "book_wf s" and "ord_Side order \<noteq> BUY" "\<And>b. b \<in> set (ab_Bids s) \<Longrightarrow> ord_Price b < ord_Price order"
  shows "book_wf (spec_add_sell asset order s)"
proof -
  have "sorted_side Less (rest_order Less order (ab_Asks s))" using wf by (intro sorted_rest_order) (simp add: book_wf_def)
  then show ?thesis
    using assms by (auto simp: book_wf_def spec_add_sell_def Let_def min_def)
qed

lemma spec_fill_buy_wf:
  assumes wf: "book_wf s" and side: "ord_Side order = BUY"
  shows "book_wf (spec_fill_buy asset order s)"
proof -
  let ?n = "Suc (length (ab_Asks s))" and ?l = "wrap64 (uint (ord_Amount order) * ord_Price order)"
  obtain order' locked' s' where sw: "sweep_buy ?n asset order ?l s = (order', locked', s')" by (metis prod_cases3)
  have "book_wf s' \<and> ord_Side order' = BUY \<and> ord_Price order' = ord_Price order"
  proof (rule sweep_buy_inv[where P = "\<lambda>o' s. book_wf s \<and> ord_Side o' = BUY \<and> ord_Price o' = ord_Price order", OF _ _ _ sw])
    fix o' :: Order and s :: abook and p
    assume w: "book_wf s \<and> ord_Side o' = BUY \<and> ord_Price o' = ord_Price order"
      "\<exists>offer rest. ab_Asks s = offer # rest \<and> p = ord_Price offer"
    then have "p \<le> ord_Price a" if "a \<in> set (ab_Asks s)" for a using that by (auto simp: book_wf_def sorted_side_def not_less)
    with w show "book_wf (s \<lparr> ab_BestAsk := p \<rparr>) \<and> ord_Side o' = BUY \<and> ord_Price o' = ord_Price order"
      by (simp add: book_wf_def)
  next
    fix o' :: Order and s offer rest locked o1 locked1 s1
    assume w: "book_wf s \<and> ord_Side o' = BUY \<and> ord_Price o' = ord_Price order" "ab_Asks s = offer # rest"
      and t: "trade_buy asset o' locked offer rest s = (o1, locked1, s1)"
    with trade_buy_wf[OF _ w(2) t] trade_buy_simps(1)[OF t] after_trade_simps
    show "book_wf s1 \<and> ord_Side o1 = BUY \<and> ord_Price o1 = ord_Price order" by simp
  qed (use wf side in simp)
  note W = this
  have "ord_Price order' < ord_Price a" if "ord_Amount order' \<noteq> 0" "a \<in> set (ab_Asks s')" for a
    using sweep_buy_end[OF sw] that W by (cases "ab_Asks s'") (auto simp: book_wf_def sorted_side_def)
  then show ?thesis
    using sw W spec_add_buy_wf[of s' order' asset] book_wf_cong[of "emit_report _ s'" s'] by (simp add: spec_fill_buy_def)
qed

lemma spec_fill_sell_wf:
  assumes wf: "book_wf s" and side: "ord_Side order \<noteq> BUY"
  shows "book_wf (spec_fill_sell asset order s)"
proof -
  let ?n = "Suc (length (ab_Bids s))" and ?l = "uint (ord_Amount order)"
  obtain order' locked' s' where sw: "sweep_sell ?n asset order ?l s = (order', locked', s')" by (metis prod_cases3)
  have "book_wf s' \<and> ord_Side order' \<noteq> BUY \<and> ord_Price order' = ord_Price order"
  proof (rule sweep_sell_inv[where P = "\<lambda>o' s. book_wf s \<and> ord_Side o' \<noteq> BUY \<and> ord_Price o' = ord_Price order", OF _ _ _ sw])
    fix o' :: Order and s :: abook and p
    assume w: "book_wf s \<and> ord_Side o' \<noteq> BUY \<and> ord_Price o' = ord_Price order"
      "\<exists>offer rest. ab_Bids s = offer # rest \<and> p = ord_Price offer"
    then have "ord_Price a \<le> p" if "a \<in> set (ab_Bids s)" for a using that by (auto simp: book_wf_def sorted_side_def not_less)
    with w show "book_wf (s \<lparr> ab_BestBid := p \<rparr>) \<and> ord_Side o' \<noteq> BUY \<and> ord_Price o' = ord_Price order"
      by (simp add: book_wf_def)
  next
    fix o' :: Order and s offer rest locked o1 locked1 s1
    assume w: "book_wf s \<and> ord_Side o' \<noteq> BUY \<and> ord_Price o' = ord_Price order" "ab_Bids s = offer # rest"
      and t: "trade_sell asset o' locked offer rest s = (o1, locked1, s1)"
    with trade_sell_wf[OF _ w(2) t] trade_sell_simps(1)[OF t] after_trade_simps
    show "book_wf s1 \<and> ord_Side o1 \<noteq> BUY \<and> ord_Price o1 = ord_Price order" by simp
  qed (use wf side in simp)
  note W = this
  have "ord_Price a < ord_Price order'" if "ord_Amount order' \<noteq> 0" "a \<in> set (ab_Bids s')" for a
    using sweep_sell_end[OF sw] that W by (cases "ab_Bids s'") (auto simp: book_wf_def sorted_side_def)
  then show ?thesis
    using sw W spec_add_sell_wf[of s' order' asset] book_wf_cong[of "emit_report _ s'" s'] by (simp add: spec_fill_sell_def)
qed

lemma spec_execute_wf:
  assumes "book_wf s"
  shows "book_wf (spec_execute asset order s)"
proof -
  have "ord_Price order < ord_Price a" if "a \<in> set (ab_Asks s)" "ord_Side order = BUY" "\<not> spec_marketable order s" for a
    using assms that by (auto simp: book_wf_def spec_marketable_def; force)
  moreover have "ord_Price b < ord_Price order" if "b \<in> set (ab_Bids s)" "ord_Side order \<noteq> BUY" "\<not> spec_marketable order s" for b
    using assms that by (auto simp: book_wf_def spec_marketable_def; force)
  ultimately show ?thesis
    using assms spec_fill_buy_wf spec_fill_sell_wf spec_add_buy_wf spec_add_sell_wf by (simp add: spec_execute_def)
qed

lemma sorted_remove_id: "sorted_side c os \<Longrightarrow> sorted_side c (remove_id i os)"
  by (simp add: sorted_side_def remove_id_def sorted_wrt_filter)

lemma spec_cancel_wf:
  assumes "book_wf s"
  shows "book_wf (spec_cancel_buy asset target s)" "book_wf (spec_cancel_sell asset target s)" "book_wf (spec_reject req s)"
  using assms sorted_remove_id
  by (auto simp: book_wf_def spec_cancel_buy_def spec_cancel_sell_def spec_reject_def Let_def remove_id_def)

section \<open>Traded volume and priority\<close>

text \<open>The amount resting on the opposite side at prices a buyer, or a seller, accepts.\<close>

definition ask_liquidity :: "i64 \<Rightarrow> Order list \<Rightarrow> nat" where
  "ask_liquidity p os = (\<Sum>o'\<leftarrow>takeWhile (\<lambda>o'. ord_Price o' \<le> p) os. unat (ord_Amount o'))"

definition bid_liquidity :: "i64 \<Rightarrow> Order list \<Rightarrow> nat" where
  "bid_liquidity p os = (\<Sum>o'\<leftarrow>takeWhile (\<lambda>o'. p \<le> ord_Price o') os. unat (ord_Amount o'))"

lemma trade_amounts:
  assumes "t = traded order offer"
  shows "unat (ord_Amount (less_amount t order)) = unat (ord_Amount order) - unat (ord_Amount offer)"
    "ord_Amount (less_amount t offer) = 0 \<longleftrightarrow> unat (ord_Amount offer) \<le> unat (ord_Amount order)"
proof -
  let ?a = "ord_Amount order" and ?b = "ord_Amount offer"
  have t: "t = (if ?a \<le> ?b then ?a else ?b)" using assms by (simp add: traded_def min_def)
  show "unat (ord_Amount (less_amount t order)) = unat ?a - unat ?b"
    using t by (auto simp: less_amount_def unat_sub word_le_nat_alt)
  show "ord_Amount (less_amount t offer) = 0 \<longleftrightarrow> unat ?b \<le> unat ?a"
    using t by (auto simp: less_amount_def word_le_nat_alt dest: word_unat_eq_iff[THEN iffD2])
qed

lemma sweep_buy_volume:
  assumes "sweep_buy n asset order locked s = (order', locked', s')" "length (ab_Asks s) \<le> n"
  shows "unat (ord_Amount order') = unat (ord_Amount order) - ask_liquidity (ord_Price order) (ab_Asks s)"
  using assms
proof (induction n arbitrary: order locked s)
  case 0
  then show ?case by (simp add: ask_liquidity_def)
next
  case (Suc n)
  show ?case
  proof (cases "ab_Asks s = [] \<or> ord_Amount order = 0")
    case True
    then show ?thesis using Suc.prems(1) by (auto simp: ask_liquidity_def split: list.splits)
  next
    case False
    then obtain offer rest where a: "ab_Asks s = offer # rest" by (cases "ab_Asks s") auto
    let ?s = "s \<lparr> ab_BestAsk := ord_Price offer \<rparr>" and ?t = "traded order offer"
    show ?thesis
    proof (cases "ord_Price offer > ord_Price order")
      case True
      then show ?thesis using Suc.prems(1) a False by (auto simp: ask_liquidity_def)
    next
      case le: False
      obtain o1 l1 s1 where t: "trade_buy asset order locked offer rest ?s = (o1, l1, s1)" by (metis prod_cases3)
      then have sw: "sweep_buy n asset o1 l1 s1 = (order', locked', s')" using Suc.prems(1) a False le by simp
      note T = trade_buy_simps(1,2)[OF t] and A = trade_amounts[OF refl, of order offer]
      have liq: "ask_liquidity (ord_Price order) (ab_Asks s) = unat (ord_Amount offer) + ask_liquidity (ord_Price order) rest"
        using le by (simp add: a ask_liquidity_def)
      show ?thesis
      proof (cases "ord_Amount (less_amount ?t offer) = 0")
        case True
        then have "ab_Asks s1 = rest" using T(2) by (simp add: after_trade_def)
        with Suc.IH[OF sw] Suc.prems(2) show ?thesis using liq A(1) a unfolding T(1) by (simp add: after_trade_simps)
      next
        case nz: False
        then have z: "ord_Amount o1 = 0" using A unfolding T(1) by (simp add: unat_eq_zero)
        then have "order' = o1" using sw by (cases n) (auto split: list.splits)
        then show ?thesis using z liq nz A(2) by simp
      qed
    qed
  qed
qed

lemma sweep_sell_volume:
  assumes "sweep_sell n asset order locked s = (order', locked', s')" "length (ab_Bids s) \<le> n"
  shows "unat (ord_Amount order') = unat (ord_Amount order) - bid_liquidity (ord_Price order) (ab_Bids s)"
  using assms
proof (induction n arbitrary: order locked s)
  case 0
  then show ?case by (simp add: bid_liquidity_def)
next
  case (Suc n)
  show ?case
  proof (cases "ab_Bids s = [] \<or> ord_Amount order = 0")
    case True
    then show ?thesis using Suc.prems(1) by (auto simp: bid_liquidity_def split: list.splits)
  next
    case False
    then obtain offer rest where a: "ab_Bids s = offer # rest" by (cases "ab_Bids s") auto
    let ?s = "s \<lparr> ab_BestBid := ord_Price offer \<rparr>" and ?t = "traded order offer"
    show ?thesis
    proof (cases "ord_Price offer < ord_Price order")
      case True
      then show ?thesis using Suc.prems(1) a False by (auto simp: bid_liquidity_def)
    next
      case le: False
      obtain o1 l1 s1 where t: "trade_sell asset order locked offer rest ?s = (o1, l1, s1)" by (metis prod_cases3)
      then have sw: "sweep_sell n asset o1 l1 s1 = (order', locked', s')" using Suc.prems(1) a False le by simp
      note T = trade_sell_simps(1,2)[OF t] and A = trade_amounts[OF refl, of order offer]
      have liq: "bid_liquidity (ord_Price order) (ab_Bids s) = unat (ord_Amount offer) + bid_liquidity (ord_Price order) rest"
        using le by (simp add: a bid_liquidity_def)
      show ?thesis
      proof (cases "ord_Amount (less_amount ?t offer) = 0")
        case True
        then have "ab_Bids s1 = rest" using T(2) by (simp add: after_trade_def)
        with Suc.IH[OF sw] Suc.prems(2) show ?thesis using liq A(1) a unfolding T(1) by (simp add: after_trade_simps)
      next
        case nz: False
        then have z: "ord_Amount o1 = 0" using A unfolding T(1) by (simp add: unat_eq_zero)
        then have "order' = o1" using sw by (cases n) (auto split: list.splits)
        then show ?thesis using z liq nz A(2) by simp
      qed
    qed
  qed
qed

text \<open>What is left of a side after a sweep: the orders behind the first \<open>j\<close>, the first of them perhaps
  reduced; everything taken was acceptable.\<close>

definition consumed :: "(i64 \<Rightarrow> bool) \<Rightarrow> Order list \<Rightarrow> Order list \<Rightarrow> bool" where
  "consumed ok A B \<longleftrightarrow> (\<exists>j \<le> length A. (\<forall>i < j. ok (ord_Price (A ! i))) \<and>
     (B = drop j A \<or> (\<exists>t. j < length A \<and> ok (ord_Price (A ! j)) \<and> B = less_amount t (A ! j) # drop (Suc j) A)))"

lemma consumed_refl: "consumed ok A A"
  by (auto simp: consumed_def intro: exI[of _ 0])

lemma less_amount_add: "less_amount t (less_amount u o') = less_amount (u + t) o'"
  by (simp add: less_amount_def diff_diff_eq)

lemma consumed_trade:
  assumes c: "consumed ok A (offer # rest)" and ok: "ok (ord_Price offer)"
  shows "consumed ok A (after_trade t offer rest)"
proof -
  from c obtain j where j: "\<forall>i < j. ok (ord_Price (A ! i))" "j \<le> length A"
    "offer # rest = drop j A \<or> (\<exists>u. j < length A \<and> ok (ord_Price (A ! j)) \<and> offer # rest = less_amount u (A ! j) # drop (Suc j) A)"
    by (auto simp: consumed_def)
  have jl: "j < length A" using j(2,3) by (auto simp: not_less dest!: sym[of "_ # _"] intro: ccontr)
  have d: "drop j A = A ! j # drop (Suc j) A" using jl by (simp add: Cons_nth_drop_Suc)
  from j(3) d obtain u where u: "offer = less_amount u (A ! j)" "rest = drop (Suc j) A"
    by (auto simp: less_amount_def intro: that[of 0])
  have okj: "ok (ord_Price (A ! j))" using ok u(1) by (simp add: after_trade_simps)
  show ?thesis
  proof (cases "ord_Amount (less_amount t offer) = 0")
    case True
    then have "after_trade t offer rest = drop (Suc j) A" by (simp add: after_trade_def u(2))
    then show ?thesis unfolding consumed_def using j(1) jl okj less_Suc_eq by (intro exI[of _ "Suc j"]) auto
  next
    case False
    then have "after_trade t offer rest = less_amount (u + t) (A ! j) # drop (Suc j) A"
      by (simp add: after_trade_def u less_amount_add)
    then show ?thesis unfolding consumed_def using j(1) jl okj by (intro exI[of _ j]) auto
  qed
qed

lemma sweep_buy_priority:
  assumes "sweep_buy n asset order locked s = (order', locked', s')"
  shows "consumed (\<lambda>p. p \<le> ord_Price order) (ab_Asks s) (ab_Asks s')"
proof -
  have "ord_Price order' = ord_Price order \<and> consumed (\<lambda>p. p \<le> ord_Price order) (ab_Asks s) (ab_Asks s')"
  proof (rule sweep_buy_inv[where P = "\<lambda>o' s'. ord_Price o' = ord_Price order \<and>
        consumed (\<lambda>p. p \<le> ord_Price order) (ab_Asks s) (ab_Asks s')", OF _ _ _ assms])
    fix o' :: Order and s1 offer rest locked o1 locked1 s2
    assume w: "ord_Price o' = ord_Price order \<and> consumed (\<lambda>p. p \<le> ord_Price order) (ab_Asks s) (ab_Asks s1)"
      "ab_Asks s1 = offer # rest" "ord_Price offer \<le> ord_Price o'"
      and t: "trade_buy asset o' locked offer rest s1 = (o1, locked1, s2)"
    then show "ord_Price o1 = ord_Price order \<and> consumed (\<lambda>p. p \<le> ord_Price order) (ab_Asks s) (ab_Asks s2)"
      using trade_buy_simps(1,2)[OF t] consumed_trade[of "\<lambda>p. p \<le> ord_Price order" "ab_Asks s" offer rest]
      by (simp add: after_trade_simps)
  qed (simp_all add: consumed_refl)
  then show ?thesis ..
qed

lemma sweep_sell_priority:
  assumes "sweep_sell n asset order locked s = (order', locked', s')"
  shows "consumed (\<lambda>p. ord_Price order \<le> p) (ab_Bids s) (ab_Bids s')"
proof -
  have "ord_Price order' = ord_Price order \<and> consumed (\<lambda>p. ord_Price order \<le> p) (ab_Bids s) (ab_Bids s')"
  proof (rule sweep_sell_inv[where P = "\<lambda>o' s'. ord_Price o' = ord_Price order \<and>
        consumed (\<lambda>p. ord_Price order \<le> p) (ab_Bids s) (ab_Bids s')", OF _ _ _ assms])
    fix o' :: Order and s1 offer rest locked o1 locked1 s2
    assume w: "ord_Price o' = ord_Price order \<and> consumed (\<lambda>p. ord_Price order \<le> p) (ab_Bids s) (ab_Bids s1)"
      "ab_Bids s1 = offer # rest" "ord_Price o' \<le> ord_Price offer"
      and t: "trade_sell asset o' locked offer rest s1 = (o1, locked1, s2)"
    then show "ord_Price o1 = ord_Price order \<and> consumed (\<lambda>p. ord_Price order \<le> p) (ab_Bids s) (ab_Bids s2)"
      using trade_sell_simps(1,2)[OF t] consumed_trade[of "\<lambda>p. ord_Price order \<le> p" "ab_Bids s" offer rest]
      by (simp add: after_trade_simps)
  qed (simp_all add: consumed_refl)
  then show ?thesis ..
qed

section \<open>Published messages\<close>

text \<open>The movement of asset \<open>a\<close> that a report announces, and the depths of one side after replaying
  updates on the depths before.\<close>

definition report_flow :: "u16 \<Rightarrow> OrderStateReport \<Rightarrow> int" where
  "report_flow a r = (if rep_BoughtAssetId r = a then rep_BoughtDelta r else 0) + (if rep_SoldAssetId r = a then rep_SoldDelta r else 0)"

definition flow :: "u16 \<Rightarrow> OrderStateReport list \<Rightarrow> int" where
  "flow a rs = (\<Sum>r\<leftarrow>rs. report_flow a r)"

definition replay :: "u8 \<Rightarrow> OrderBookUpdate list \<Rightarrow> (i64 \<Rightarrow> u32) \<Rightarrow> i64 \<Rightarrow> u32" where
  "replay side us d = fold (\<lambda>u d. if upd_Side u = side then d(upd_Price u := upd_Depth u) else d) us d"

definition numbered :: "u32 \<Rightarrow> u32 list \<Rightarrow> bool" where
  "numbered k ks \<longleftrightarrow> ks = map (\<lambda>i. k + of_nat i) [0..<length ks]"

text \<open>What the messages between two states of the book say of the change.\<close>

definition published :: "abook \<Rightarrow> abook \<Rightarrow> OrderStateReport list \<Rightarrow> OrderBookUpdate list \<Rightarrow> bool" where
  "published s s' rs us \<longleftrightarrow> ab_Reports s' = ab_Reports s @ rs \<and> ab_Updates s' = ab_Updates s @ us \<and>
     numbered (ab_ReportSeq s) (map rep_SequenceId rs) \<and> ab_ReportSeq s' = ab_ReportSeq s + of_nat (length rs) \<and>
     numbered (ab_UpdateSeq s) (map upd_SequenceId us) \<and> ab_UpdateSeq s' = ab_UpdateSeq s + of_nat (length us) \<and>
     (\<forall>a. flow a rs mod 2 ^ 64 = 0) \<and>
     (\<lambda>p. depth_at p (ab_Asks s')) = replay ORDER_BOOK_UPDATE_SELL us (\<lambda>p. depth_at p (ab_Asks s)) \<and>
     (\<lambda>p. depth_at p (ab_Bids s')) = replay ORDER_BOOK_UPDATE_BUY us (\<lambda>p. depth_at p (ab_Bids s))"

lemma numbered_append:
  assumes "numbered k ks" "numbered (k + of_nat (length ks)) ls"
  shows "numbered k (ks @ ls)"
proof -
  have "ls = map (\<lambda>i. k + of_nat (length ks) + of_nat i) [0..<length ls]" using assms(2) unfolding numbered_def .
  also have "\<dots> = map (\<lambda>i. k + of_nat i) [length ks..<length ks + length ls]"
    by (rule nth_equalityI) (simp_all add: add.assoc)
  finally have "ks @ ls = map (\<lambda>i. k + of_nat i) ([0..<length ks] @ [length ks..<length ks + length ls])"
    using assms(1) unfolding numbered_def map_append by metis
  then show ?thesis unfolding numbered_def length_append
    using upt_add_eq_append[of 0 "length ks" "length ls"] by simp
qed

lemma flow_append [simp]: "flow a (rs @ rs') = flow a rs + flow a rs'"
  by (simp add: flow_def)

lemma replay_append [simp]: "replay side (us @ us') d = replay side us' (replay side us d)"
  by (simp add: replay_def)

lemma published_trans:
  assumes a: "published s s' rs us" and b: "published s' s'' rs' us'"
  shows "published s s'' (rs @ rs') (us @ us')"
proof -
  have "flow x (rs @ rs') mod 2 ^ 64 = 0" for x
    using a b by (simp add: published_def mod_add_eq[symmetric])
  moreover have "numbered (ab_ReportSeq s) (map rep_SequenceId (rs @ rs'))" "numbered (ab_UpdateSeq s) (map upd_SequenceId (us @ us'))"
    using a b by (auto simp: published_def intro!: numbered_append)
  ultimately show ?thesis using a b by (simp add: published_def)
qed

lemma published_same:
  "ab_Asks s' = ab_Asks s \<Longrightarrow> ab_Bids s' = ab_Bids s \<Longrightarrow> ab_Reports s' = ab_Reports s \<Longrightarrow> ab_Updates s' = ab_Updates s \<Longrightarrow>
   ab_ReportSeq s' = ab_ReportSeq s \<Longrightarrow> ab_UpdateSeq s' = ab_UpdateSeq s \<Longrightarrow> published s s' [] []"
  by (simp add: published_def numbered_def flow_def replay_def)

lemma depth_after_trade:
  "q \<noteq> ord_Price offer \<Longrightarrow> depth_at q (after_trade t offer rest) = depth_at q (offer # rest)"
  by (auto simp: after_trade_def after_trade_simps)

lemma numbered_pair: "numbered k [k, k + 1]" "numbered k [k]" "numbered k []"
  by (simp_all add: numbered_def upt_rec)

lemma trade_flow:
  "flow a [buyer_report asset t p o' i, seller_report asset t p o'' j] mod 2 ^ 64 = 0"
  "flow a [seller_report asset t p o' i, buyer_report asset t p o'' j] mod 2 ^ 64 = 0"
proof -
  have "(wrap64 (- uint t * p) + wrap64 (uint t * p)) mod 2 ^ 64 = 0"
  proof -
    have "(wrap64 (- uint t * p) + wrap64 (uint t * p)) mod 2 ^ 64 = (wrap64 (- uint t * p) mod 2 ^ 64 + wrap64 (uint t * p) mod 2 ^ 64) mod 2 ^ 64"
      by (rule mod_add_eq[symmetric])
    also have "\<dots> = (- uint t * p + uint t * p) mod 2 ^ 64" unfolding wrap64_mod by (rule mod_add_eq)
    finally show ?thesis by simp
  qed
  then show "flow a [buyer_report asset t p o' i, seller_report asset t p o'' j] mod 2 ^ 64 = 0"
    "flow a [seller_report asset t p o' i, buyer_report asset t p o'' j] mod 2 ^ 64 = 0"
    by (auto simp: flow_def report_flow_def buyer_report_def seller_report_def FillReport_def algebra_simps)
qed

lemma trade_buy_published:
  assumes t: "trade_buy asset order locked offer rest s = (order', locked', s')" and a: "ab_Asks s = offer # rest"
  shows "\<exists>rs us. published s s' rs us"
proof -
  note T = trade_buy_simps[OF t]
  let ?t = "traded order offer" and ?p = "ord_Price offer"
  have d: "(\<lambda>p. depth_at p (ab_Asks s')) = (\<lambda>p. depth_at p (ab_Asks s))(?p := depth_at ?p (ab_Asks s'))"
    unfolding T(2) a using depth_after_trade by (intro ext) (simp del: depth_at_simps)
  have "published s s'
    [buyer_report asset ?t ?p order' (ab_ReportSeq s), seller_report asset ?t ?p (less_amount ?t offer) (ab_ReportSeq s + 1)]
    [FillUpdate (ab_UpdateSeq s) (depth_at ?p (ab_Asks s')) ?p asset ORDER_BOOK_UPDATE_SELL]"
    unfolding published_def using T(3,6-9) trade_flow(1) numbered_pair d
    by (simp add: buyer_report_def seller_report_def FillReport_def FillUpdate_def replay_def
        ORDER_BOOK_UPDATE_SELL_def ORDER_BOOK_UPDATE_BUY_def)
  then show ?thesis by blast
qed

lemma trade_sell_published:
  assumes t: "trade_sell asset order locked offer rest s = (order', locked', s')" and a: "ab_Bids s = offer # rest"
  shows "\<exists>rs us. published s s' rs us"
proof -
  note T = trade_sell_simps[OF t]
  let ?t = "traded order offer" and ?p = "ord_Price offer"
  have d: "(\<lambda>p. depth_at p (ab_Bids s')) = (\<lambda>p. depth_at p (ab_Bids s))(?p := depth_at ?p (ab_Bids s'))"
    unfolding T(2) a using depth_after_trade by (intro ext) (simp del: depth_at_simps)
  have "published s s'
    [seller_report asset ?t ?p order' (ab_ReportSeq s), buyer_report asset ?t ?p (less_amount ?t offer) (ab_ReportSeq s + 1)]
    [FillUpdate (ab_UpdateSeq s) (depth_at ?p (ab_Bids s')) ?p asset ORDER_BOOK_UPDATE_BUY]"
    unfolding published_def using T(3,6-9) trade_flow(2) numbered_pair d
    by (simp add: buyer_report_def seller_report_def FillReport_def FillUpdate_def replay_def
        ORDER_BOOK_UPDATE_SELL_def ORDER_BOOK_UPDATE_BUY_def)
  then show ?thesis by blast
qed

lemma sweep_buy_published:
  assumes "sweep_buy n asset order locked s = (order', locked', s')"
  shows "\<exists>rs us. published s s' rs us"
proof (rule sweep_buy_inv[where P = "\<lambda>o' s'. \<exists>rs us. published s s' rs us", OF _ _ _ assms])
  fix s1 :: abook and p
  assume "\<exists>rs us. published s s1 rs us"
  moreover have "published s1 (s1 \<lparr> ab_BestAsk := p \<rparr>) [] []" by (rule published_same) simp_all
  ultimately show "\<exists>rs us. published s (s1 \<lparr> ab_BestAsk := p \<rparr>) rs us" using published_trans by blast
next
  fix o' :: Order and s1 offer rest locked o1 locked1 s2
  assume "\<exists>rs us. published s s1 rs us" "ab_Asks s1 = offer # rest"
    and t: "trade_buy asset o' locked offer rest s1 = (o1, locked1, s2)"
  then show "\<exists>rs us. published s s2 rs us" using published_trans trade_buy_published[OF t] by blast
qed (use published_same[of s s] in blast)

lemma sweep_sell_published:
  assumes "sweep_sell n asset order locked s = (order', locked', s')"
  shows "\<exists>rs us. published s s' rs us"
proof (rule sweep_sell_inv[where P = "\<lambda>o' s'. \<exists>rs us. published s s' rs us", OF _ _ _ assms])
  fix s1 :: abook and p
  assume "\<exists>rs us. published s s1 rs us"
  moreover have "published s1 (s1 \<lparr> ab_BestBid := p \<rparr>) [] []" by (rule published_same) simp_all
  ultimately show "\<exists>rs us. published s (s1 \<lparr> ab_BestBid := p \<rparr>) rs us" using published_trans by blast
next
  fix o' :: Order and s1 offer rest locked o1 locked1 s2
  assume "\<exists>rs us. published s s1 rs us" "ab_Bids s1 = offer # rest"
    and t: "trade_sell asset o' locked offer rest s1 = (o1, locked1, s2)"
  then show "\<exists>rs us. published s s2 rs us" using published_trans trade_sell_published[OF t] by blast
qed (use published_same[of s s] in blast)

text \<open>A report that moves nothing, alone or followed by one update of the side that changed.\<close>

definition quiet :: "(u32 \<Rightarrow> OrderStateReport) \<Rightarrow> bool" where
  "quiet r \<longleftrightarrow> (\<forall>k. rep_SequenceId (r k) = k \<and> rep_BoughtDelta (r k) = 0 \<and> rep_SoldDelta (r k) = 0)"

lemma quiet_FillReport: "quiet (\<lambda>q. FillReport 0 0 x q c i t a b st)"
  by (simp add: quiet_def FillReport_def)

lemma published_report:
  assumes "quiet r"
  shows "published s (emit_report r s) [r (ab_ReportSeq s)] []"
  using assms numbered_pair by (simp add: published_def quiet_def flow_def report_flow_def replay_def)

lemma published_change:
  assumes r: "quiet r" and seq: "ab_Reports s1 = ab_Reports s" "ab_Updates s1 = ab_Updates s" "ab_ReportSeq s1 = ab_ReportSeq s"
      "ab_UpdateSeq s1 = ab_UpdateSeq s"
    and chg: "side = ORDER_BOOK_UPDATE_SELL \<and> ab_Bids s1 = ab_Bids s \<and> d = depth_at p (ab_Asks s1) \<and>
        (\<forall>q. q \<noteq> p \<longrightarrow> depth_at q (ab_Asks s1) = depth_at q (ab_Asks s)) \<or>
      side = ORDER_BOOK_UPDATE_BUY \<and> ab_Asks s1 = ab_Asks s \<and> d = depth_at p (ab_Bids s1) \<and>
        (\<forall>q. q \<noteq> p \<longrightarrow> depth_at q (ab_Bids s1) = depth_at q (ab_Bids s))"
  shows "published s (emit_update (\<lambda>q. FillUpdate q d p asset side) (emit_report r s1))
    [r (ab_ReportSeq s)] [FillUpdate (ab_UpdateSeq s) d p asset side]"
proof -
  have f: "flow a [r (ab_ReportSeq s)] = 0" for a using r by (simp add: quiet_def flow_def report_flow_def)
  have k: "rep_SequenceId (r (ab_ReportSeq s)) = ab_ReportSeq s" using r by (simp add: quiet_def)
  have sides: "ORDER_BOOK_UPDATE_BUY \<noteq> ORDER_BOOK_UPDATE_SELL" by (simp add: ORDER_BOOK_UPDATE_SELL_def ORDER_BOOK_UPDATE_BUY_def)
  have "(\<lambda>p. depth_at p (ab_Asks s1)) = replay ORDER_BOOK_UPDATE_SELL [FillUpdate (ab_UpdateSeq s) d p asset side] (\<lambda>p. depth_at p (ab_Asks s))"
    "(\<lambda>p. depth_at p (ab_Bids s1)) = replay ORDER_BOOK_UPDATE_BUY [FillUpdate (ab_UpdateSeq s) d p asset side] (\<lambda>p. depth_at p (ab_Bids s))"
    using chg sides by (auto simp: replay_def FillUpdate_def fun_eq_iff)
  then show ?thesis using seq numbered_pair f k by (simp add: published_def FillUpdate_def)
qed

lemma depth_rest_order: "q \<noteq> ord_Price o' \<Longrightarrow> depth_at q (rest_order c o' os) = depth_at q os"
proof -
  assume q: "q \<noteq> ord_Price o'"
  have "depth_at q os = depth_at q (takeWhile (\<lambda>x. \<not> comp c (ord_Price o') (ord_Price x)) os @ dropWhile (\<lambda>x. \<not> comp c (ord_Price o') (ord_Price x)) os)"
    by simp
  then show ?thesis using q unfolding rest_order_def depth_at_simps by auto
qed

lemma spec_add_published: "\<exists>rs us. published s (spec_add_buy asset order s) rs us" "\<exists>rs us. published s (spec_add_sell asset order s) rs us"
  unfolding spec_add_buy_def spec_add_sell_def Let_def
  by (rule exI, rule exI, rule published_change[OF quiet_FillReport]; simp add: depth_rest_order)+

lemma spec_execute_published: "\<exists>rs us. published s (spec_execute asset order s) rs us"
proof -
  have "\<exists>rs us. published s (spec_fill_buy asset order s) rs us"
  proof -
    obtain order' locked' s' where sw: "sweep_buy (Suc (length (ab_Asks s))) asset order
        (wrap64 (uint (ord_Amount order) * ord_Price order)) s = (order', locked', s')" by (metis prod_cases3)
    from sweep_buy_published[OF sw] spec_add_published(1)[of s' asset order'] published_report[OF quiet_FillReport]
    show ?thesis using published_trans sw by (auto simp: spec_fill_buy_def) blast+
  qed
  moreover have "\<exists>rs us. published s (spec_fill_sell asset order s) rs us"
  proof -
    obtain order' locked' s' where sw: "sweep_sell (Suc (length (ab_Bids s))) asset order (uint (ord_Amount order)) s = (order', locked', s')"
      by (metis prod_cases3)
    from sweep_sell_published[OF sw] spec_add_published(2)[of s' asset order'] published_report[OF quiet_FillReport]
    show ?thesis using published_trans sw by (auto simp: spec_fill_sell_def) blast+
  qed
  ultimately show ?thesis using spec_add_published by (simp add: spec_execute_def)
qed

lemma depth_remove_id:
  assumes "\<And>o'. o' \<in> set os \<Longrightarrow> order_id32 o' = i \<Longrightarrow> ord_Price o' = p" "q \<noteq> p"
  shows "depth_at q (remove_id i os) = depth_at q os"
  using assms by (induction os) (auto simp: remove_id_def)

lemma emit_report_swap:
  "(emit_report r s) \<lparr> ab_Bids := x \<rparr> = emit_report r (s \<lparr> ab_Bids := x \<rparr>)"
  "(emit_report r s) \<lparr> ab_Asks := x \<rparr> = emit_report r (s \<lparr> ab_Asks := x \<rparr>)"
  by (simp_all add: emit_report_def)

lemma spec_cancel_published:
  "(\<And>o'. o' \<in> set (ab_Bids s) \<Longrightarrow> order_id32 o' = order_id32 target \<Longrightarrow> o' = target) \<Longrightarrow>
   \<exists>rs us. published s (spec_cancel_buy asset target s) rs us"
  "(\<And>o'. o' \<in> set (ab_Asks s) \<Longrightarrow> order_id32 o' = order_id32 target \<Longrightarrow> o' = target) \<Longrightarrow>
   \<exists>rs us. published s (spec_cancel_sell asset target s) rs us"
  "\<exists>rs us. published s (spec_reject req s) rs us"
proof -
  show "\<exists>rs us. published s (spec_reject req s) rs us"
    unfolding spec_reject_def using published_report[OF quiet_FillReport] by blast
  show "\<exists>rs us. published s (spec_cancel_buy asset target s) rs us"
    if u: "\<And>o'. o' \<in> set (ab_Bids s) \<Longrightarrow> order_id32 o' = order_id32 target \<Longrightarrow> o' = target"
  proof -
    have d: "depth_at q (remove_id (order_id32 target) (ab_Bids s)) = depth_at q (ab_Bids s)" if "q \<noteq> ord_Price target" for q
      using depth_remove_id[OF _ that] u by metis
    show ?thesis unfolding spec_cancel_buy_def Let_def emit_report_swap
      by (intro exI, rule published_change[OF quiet_FillReport]) (simp_all add: d)
  qed
  show "\<exists>rs us. published s (spec_cancel_sell asset target s) rs us"
    if u: "\<And>o'. o' \<in> set (ab_Asks s) \<Longrightarrow> order_id32 o' = order_id32 target \<Longrightarrow> o' = target"
  proof -
    have d: "depth_at q (remove_id (order_id32 target) (ab_Asks s)) = depth_at q (ab_Asks s)" if "q \<noteq> ord_Price target" for q
      using depth_remove_id[OF _ that] u by metis
    show ?thesis unfolding spec_cancel_sell_def Let_def emit_report_swap
      by (intro exI, rule published_change[OF quiet_FillReport]) (simp_all add: d)
  qed
qed

end
