(* ===== verification/Consumer.thy ===== *)
theory Consumer
  imports Outbox
begin

text \<open>
  The consuming end of a pooled queue, \<open>common/include/consumer.hpp\<close>: pop one message or a batch,
  hand it to the derived class's \<open>Handle\<close>, release the objects.  \<open>Handle\<close> is a parameter that maps
  the messages and the derived state to the new derived state.  A refused release calls
  \<open>std::terminate\<close> (\<open>None\<close>); so does an endless wait of \<open>Consume\<close>, seen from a state in which the
  producer does nothing.
\<close>

section \<open>Operations\<close>

fun release_all :: "ptr list \<Rightarrow> 'a StoragePool \<Rightarrow> 'a StoragePool option" where
  "release_all [] p = Some p"
| "release_all (x # xs) p =
     (case StoragePool_Release (Some x) p of (released, p) \<Rightarrow> if released then release_all xs p else None)"

definition finish_batch :: "('a list \<Rightarrow> 's \<Rightarrow> 's) \<Rightarrow> ptr list \<Rightarrow> ptr channel \<Rightarrow> 'a outbox \<Rightarrow> 's \<Rightarrow> ('s \<times> 'a outbox) option" where
  "finish_batch Handle Buffer q ob s =
     (let s = Handle (map (sp_Storage (ob_Pool ob)) Buffer) s
      in (case release_all Buffer (ob_Pool ob) of
            None \<Rightarrow> None
          | Some p \<Rightarrow> Some (s, \<lparr> ob_Pool = p, ob_Queue = q \<rparr>)))"

definition TryConsume :: "nat \<Rightarrow> ('a list \<Rightarrow> 's \<Rightarrow> 's) \<Rightarrow> 'a outbox \<Rightarrow> 's \<Rightarrow> ('s \<times> 'a outbox) option" where
  "TryConsume BatchSize Handle ob s =
     (if BatchSize > 0
      then (case pop_upto Consumer_TryPop BatchSize (ob_Queue ob) of
              (Buffer, q) \<Rightarrow>
                if Buffer = [] then Some (s, ob \<lparr> ob_Queue := q \<rparr>) else finish_batch Handle Buffer q ob s)
      else (case Consumer_TryPop (ob_Queue ob) of
              (None, q) \<Rightarrow> Some (s, ob \<lparr> ob_Queue := q \<rparr>)
            | (Some x, q) \<Rightarrow> finish_batch Handle [x] q ob s))"

fun pop_exact :: "nat \<Rightarrow> ptr channel \<Rightarrow> (ptr list \<times> ptr channel) option" where
  "pop_exact 0 c = Some ([], c)"
| "pop_exact (Suc n) c = do { (x, c) \<leftarrow> Consumer_Pop c; (xs, c) \<leftarrow> pop_exact n c; Some (x # xs, c) }"

definition Consume :: "nat \<Rightarrow> ('a list \<Rightarrow> 's \<Rightarrow> 's) \<Rightarrow> 'a outbox \<Rightarrow> 's \<Rightarrow> ('s \<times> 'a outbox) option" where
  "Consume BatchSize Handle ob s = do {
     (Buffer, q) \<leftarrow> pop_exact (if BatchSize > 0 then BatchSize else 1) (ob_Queue ob);
     finish_batch Handle Buffer q ob s
   }"

text \<open>\<open>now k\<close> is the clock at the \<open>k\<close>-th reading of one \<open>TimedPop\<close>; \<open>clock i\<close> is the clock of the
  \<open>i\<close>-th call.\<close>

fun pop_timed :: "nat \<Rightarrow> (nat \<Rightarrow> nat \<Rightarrow> nat) \<Rightarrow> nat \<Rightarrow> ptr channel \<Rightarrow> (ptr list \<times> ptr channel) option" where
  "pop_timed 0 clock delay_us c = Some ([], c)"
| "pop_timed (Suc n) clock delay_us c = do {
     (r, c) \<leftarrow> Consumer_TimedPop (clock n) delay_us c;
     (case r of
        None \<Rightarrow> Some ([], c)
      | Some x \<Rightarrow> do { (xs, c) \<leftarrow> pop_timed n clock delay_us c; Some (x # xs, c) })
   }"

definition ConsumeTimed ::
  "nat \<Rightarrow> (nat \<Rightarrow> nat \<Rightarrow> nat) \<Rightarrow> nat \<Rightarrow> ('a list \<Rightarrow> 's \<Rightarrow> 's) \<Rightarrow> 'a outbox \<Rightarrow> 's \<Rightarrow> ('s \<times> 'a outbox) option" where
  "ConsumeTimed BatchSize clock delay_us Handle ob s =
     (if BatchSize > 0
      then do { (Buffer, q) \<leftarrow> pop_timed BatchSize clock delay_us (ob_Queue ob); finish_batch Handle Buffer q ob s }
      else do {
        (r, q) \<leftarrow> Consumer_TimedPop (clock 0) delay_us (ob_Queue ob);
        (case r of None \<Rightarrow> Some (s, ob \<lparr> ob_Queue := q \<rparr>) | Some x \<Rightarrow> finish_batch Handle [x] q ob s)
      })"

section \<open>Releasing what was popped\<close>

lemma release_all_ok:
  assumes "sp_inv p" "distinct xs" "set xs \<subseteq> sp_all p" "set xs \<inter> set (sp_free p) = {}"
  shows "\<exists>p'. release_all xs p = Some p' \<and> sp_inv p' \<and> set (sp_free p') = set xs \<union> set (sp_free p) \<and>
    sp_all p' = sp_all p \<and> sp_Storage p' = sp_Storage p"
  using assms
proof (induction xs arbitrary: p)
  case (Cons x xs)
  from sp.release_out[of p x] Cons.prems obtain p1 where
    1: "StoragePool_Release (Some x) p = (True, p1)" "sp_inv p1" "set (sp_free p1) = insert x (set (sp_free p))" "sp_all p1 = sp_all p"
    by auto
  have "sp_Storage p1 = sp_Storage p" using StoragePool_Storage(2)[of "Some x" p] 1(1) by simp
  with Cons.IH[of p1] 1 Cons.prems show ?case by auto
qed simp

lemma outbox_room_card: "outbox_inv ob \<Longrightarrow> outbox_room ob = card (set (sp_free (ob_Pool ob)))"
  using sp.free_distinct[of "ob_Pool ob"] by (simp add: outbox_inv_def outbox_room_def distinct_card)

lemma finish_batch_ok:
  assumes inv: "outbox_inv ob" and xs: "channel_items (ob_Queue ob) = xs @ ys"
    and q: "channel_inv q" "channel_items q = ys" "channel_cap q = channel_cap (ob_Queue ob)"
  shows "\<exists>ob'. finish_batch Handle xs q ob s = Some (Handle (take (length xs) (outbox_msgs ob)) s, ob') \<and> outbox_inv ob' \<and>
    outbox_msgs ob' = drop (length xs) (outbox_msgs ob) \<and> outbox_room ob' = outbox_room ob + length xs"
proof -
  have d: "sp_inv (ob_Pool ob)" "distinct (xs @ ys)" "set (xs @ ys) \<subseteq> sp_all (ob_Pool ob)"
    "set (xs @ ys) \<inter> set (sp_free (ob_Pool ob)) = {}" "StoragePool_GetSize (ob_Pool ob) \<le> channel_cap (ob_Queue ob)"
    using inv by (simp_all add: outbox_inv_def xs)
  have "distinct xs" "set xs \<subseteq> sp_all (ob_Pool ob)" "set xs \<inter> set (sp_free (ob_Pool ob)) = {}" using d(2-4) by auto
  from release_all_ok[OF d(1) this] obtain p where
    p: "release_all xs (ob_Pool ob) = Some p" "sp_inv p" "set (sp_free p) = set xs \<union> set (sp_free (ob_Pool ob))"
      "sp_all p = sp_all (ob_Pool ob)" "sp_Storage p = sp_Storage (ob_Pool ob)" by blast
  let ?ob = "\<lparr> ob_Pool = p, ob_Queue = q \<rparr>"
  have "StoragePool_GetSize p = StoragePool_GetSize (ob_Pool ob)" using p(4) by (simp add: sp_all_def lessThan_eq_iff)
  then have inv': "outbox_inv ?ob" using d p q by (auto simp: outbox_inv_def)
  moreover have "outbox_msgs ?ob = drop (length xs) (outbox_msgs ob)" by (simp add: outbox_msgs_def q(2) xs p(5))
  moreover have "outbox_room ?ob = outbox_room ob + length xs"
    using outbox_room_card[OF inv'] outbox_room_card[OF inv] p(3) d(2,4)
    by (simp add: card_Un_disjoint distinct_card Int_Un_distrib2)
  ultimately show ?thesis by (simp add: finish_batch_def p(1) outbox_msgs_def xs)
qed

text \<open>\<open>TryConsume\<close> pops the oldest messages, at most a batch, hands them over and gives their objects back.\<close>

lemma TryConsume_run:
  assumes inv: "outbox_inv ob" and n: "n = (if BatchSize > 0 then BatchSize else 1)"
  shows "\<exists>c. channel_inv c \<and> channel_items c = drop n (channel_items (ob_Queue ob)) \<and> channel_cap c = channel_cap (ob_Queue ob) \<and>
    TryConsume BatchSize Handle ob s =
      (if channel_items (ob_Queue ob) = [] then Some (s, ob \<lparr> ob_Queue := c \<rparr>)
       else finish_batch Handle (take n (channel_items (ob_Queue ob))) c ob s)"
proof -
  have q: "channel_inv (ob_Queue ob)" using inv by (simp add: outbox_inv_def)
  obtain xs c where pop: "pop_upto Consumer_TryPop n (ob_Queue ob) = (xs, c)" by force
  from spsc.pop_upto_take[OF q, of n] pop have
    c: "xs = take n (channel_items (ob_Queue ob))" "channel_inv c" "channel_items c = drop n (channel_items (ob_Queue ob))"
      "channel_cap c = channel_cap (ob_Queue ob)" by auto
  have n0: "0 < n" using n by simp
  have one: "Consumer_TryPop (ob_Queue ob) = (case xs of [] \<Rightarrow> (None, c) | x # _ \<Rightarrow> (Some x, c))" if "BatchSize = 0"
    using pop that n by (auto split: prod.splits option.splits)
  have "TryConsume BatchSize Handle ob s = (if xs = [] then Some (s, ob \<lparr> ob_Queue := c \<rparr>) else finish_batch Handle xs c ob s)"
  proof (cases "BatchSize = 0")
    case True
    have "xs = [] \<or> xs = [hd xs]" using c(1) True n by (cases "channel_items (ob_Queue ob)") auto
    then show ?thesis using one[OF True] True by (auto simp: TryConsume_def split: list.splits)
  qed (use pop n in \<open>simp add: TryConsume_def\<close>)
  then show ?thesis using c n0 by (auto simp: take_eq_Nil)
qed

lemma TryConsume_ok:
  assumes inv: "outbox_inv ob" and n: "n = (if BatchSize > 0 then BatchSize else 1)"
  shows "\<exists>ob'. TryConsume BatchSize Handle ob s =
      Some (if outbox_msgs ob = [] then s else Handle (take n (outbox_msgs ob)) s, ob') \<and> outbox_inv ob' \<and>
    outbox_msgs ob' = drop n (outbox_msgs ob) \<and> outbox_room ob' = outbox_room ob + min n (length (outbox_msgs ob))"
proof -
  from TryConsume_run[OF assms, of Handle s] obtain c where
    c: "channel_inv c" "channel_items c = drop n (channel_items (ob_Queue ob))" "channel_cap c = channel_cap (ob_Queue ob)"
    and run: "TryConsume BatchSize Handle ob s = (if channel_items (ob_Queue ob) = [] then Some (s, ob \<lparr> ob_Queue := c \<rparr>)
       else finish_batch Handle (take n (channel_items (ob_Queue ob))) c ob s)" by blast
  show ?thesis
  proof (cases "channel_items (ob_Queue ob) = []")
    case True
    then show ?thesis using run inv c by (auto simp: outbox_msgs_def outbox_inv_def outbox_room_def)
  next
    case False
    have "channel_items (ob_Queue ob) = take n (channel_items (ob_Queue ob)) @ channel_items c" using c(2) by simp
    from finish_batch_ok[OF inv this c(1) refl c(3), of Handle s] False run show ?thesis
      by (auto simp: outbox_msgs_def min_def not_le)
  qed
qed

text \<open>It changes no message, and the objects it frees were queued.\<close>

lemma TryConsume_frame:
  assumes inv: "outbox_inv ob" and run: "TryConsume BatchSize Handle ob s = Some (s', ob')"
  shows "sp_Storage (ob_Pool ob') = sp_Storage (ob_Pool ob)" "sp_all (ob_Pool ob') = sp_all (ob_Pool ob)"
    "set (channel_items (ob_Queue ob')) \<subseteq> set (channel_items (ob_Queue ob))"
    "set (sp_free (ob_Pool ob')) \<subseteq> set (sp_free (ob_Pool ob)) \<union> set (channel_items (ob_Queue ob))"
proof -
  let ?n = "if BatchSize > 0 then BatchSize else 1" and ?is = "channel_items (ob_Queue ob)"
  from TryConsume_run[OF inv refl, of BatchSize Handle s] obtain c where
    c: "channel_items c = drop ?n ?is"
    "TryConsume BatchSize Handle ob s = (if ?is = [] then Some (s, ob \<lparr> ob_Queue := c \<rparr>) else finish_batch Handle (take ?n ?is) c ob s)" by blast
  have sub: "set (take ?n ?is) \<subseteq> set ?is" "set (drop ?n ?is) \<subseteq> set ?is" by (simp_all add: set_take_subset set_drop_subset)
  have "sp_Storage (ob_Pool ob') = sp_Storage (ob_Pool ob) \<and> sp_all (ob_Pool ob') = sp_all (ob_Pool ob) \<and>
    set (channel_items (ob_Queue ob')) \<subseteq> set ?is \<and> set (sp_free (ob_Pool ob')) \<subseteq> set (sp_free (ob_Pool ob)) \<union> set ?is"
  proof (cases "?is = []")
    case True
    then show ?thesis using run c by auto
  next
    case False
    have "sp_inv (ob_Pool ob)" "distinct (take ?n ?is)" "set (take ?n ?is) \<subseteq> sp_all (ob_Pool ob)" "set (take ?n ?is) \<inter> set (sp_free (ob_Pool ob)) = {}"
      using inv sub(1) by (auto simp: outbox_inv_def)
    from release_all_ok[OF this] obtain p where
      p: "release_all (take ?n ?is) (ob_Pool ob) = Some p" "set (sp_free p) = set (take ?n ?is) \<union> set (sp_free (ob_Pool ob))"
        "sp_all p = sp_all (ob_Pool ob)" "sp_Storage p = sp_Storage (ob_Pool ob)" by blast
    then have "ob' = \<lparr> ob_Pool = p, ob_Queue = c \<rparr>" using run c(2) False by (simp add: finish_batch_def)
    then show ?thesis using p(2-4) c(1) sub by (simp only: outbox.simps) blast
  qed
  then show "sp_Storage (ob_Pool ob') = sp_Storage (ob_Pool ob)" "sp_all (ob_Pool ob') = sp_all (ob_Pool ob)"
    "set (channel_items (ob_Queue ob')) \<subseteq> set ?is" "set (sp_free (ob_Pool ob')) \<subseteq> set (sp_free (ob_Pool ob)) \<union> set ?is" by simp_all
qed

section \<open>A fresh outbox\<close>

lemma StoragePool_init_ok:
  assumes "k < 64"
  shows "\<exists>p. StoragePool_init (2 ^ k) d = Some p \<and> sp_inv p \<and> sp_free p = [0..<2 ^ k] \<and> StoragePool_GetSize p = 2 ^ k"
proof -
  let ?c = "channel_of (SpscQueue_init (2 ^ k) (0 :: ptr))"
  have "pow2_size (q_Buffer (SpscQueue_init (2 ^ k) (0 :: ptr)))" using assms by (auto simp: pow2_size_def SpscQueue_init_def)
  then have c: "channel_inv ?c" "channel_items ?c = []" by (auto intro!: channel_inv_init simp: SpscQueue_init_def)
  have cap: "channel_cap ?c = 2 ^ k" by (simp add: channel_cap_def channel_of_def SpscQueue_init_def)
  from spsc.push_all_append[OF c(1), of "[0..<2 ^ k]"] c(2) cap obtain c' where
    c': "push_all Producer_TryPush [0..<2 ^ k] ?c = (True, c')" "channel_inv c'" "channel_items c' = [0..<2 ^ k]" "channel_cap c' = 2 ^ k"
    by auto
  let ?p = "\<lparr> sp_Storage = (\<lambda>_. d), sp_Free = c', sp_LocalReuseBuffer = replicate (2 ^ k) None, sp_LocalReuseSize = 0 \<rparr>"
  have "StoragePool_init (2 ^ k) d = Some ?p" using c'(1) by (simp add: StoragePool_init_def)
  moreover have "sp_inv ?p" "sp_free ?p = [0..<2 ^ k]" "StoragePool_GetSize ?p = 2 ^ k"
    using c' by (auto simp: sp_inv_def sp_local_def sp_free_def StoragePool_GetSize_def sp_all_def)
  ultimately show ?thesis by blast
qed

definition fresh_outbox :: "nat \<Rightarrow> 'a \<Rightarrow> 'a outbox option" where
  "fresh_outbox Size d =
     (case StoragePool_init Size d of
        None \<Rightarrow> None | Some p \<Rightarrow> Some \<lparr> ob_Pool = p, ob_Queue = channel_of (SpscQueue_init Size 0) \<rparr>)"

lemma fresh_outbox_ok:
  assumes "k < 64"
  shows "\<exists>ob. fresh_outbox (2 ^ k) d = Some ob \<and> outbox_inv ob \<and> outbox_msgs ob = [] \<and> outbox_room ob = 2 ^ k"
proof -
  let ?c = "channel_of (SpscQueue_init (2 ^ k) (0 :: ptr))"
  have "pow2_size (q_Buffer (SpscQueue_init (2 ^ k) (0 :: ptr)))" using assms by (auto simp: pow2_size_def SpscQueue_init_def)
  then have c: "channel_inv ?c" "channel_items ?c = []" by (auto intro!: channel_inv_init simp: SpscQueue_init_def)
  have cap: "channel_cap ?c = 2 ^ k" by (simp add: channel_cap_def channel_of_def SpscQueue_init_def)
  from StoragePool_init_ok[OF assms, of d] c cap show ?thesis
    by (auto simp: fresh_outbox_def outbox_inv_def outbox_msgs_def outbox_room_def)
qed

section \<open>Properties\<close>

text \<open>Publishing and consuming is lossless and in order: after a message is published to an outbox with
  room, a consumer with a batch size that covers the queue hands over exactly the queued messages, the
  new one last, and every object is free again.\<close>

theorem publish_then_consume:
  assumes "outbox_inv ob" "0 < outbox_room ob" "length (outbox_msgs ob) < BatchSize"
  shows "\<exists>ob1 ob2. publish_try v ob = Some ob1 \<and> TryConsume BatchSize (\<lambda>ms sent. sent @ ms) ob1 [] = Some (outbox_msgs ob @ [v], ob2) \<and>
    outbox_msgs ob2 = [] \<and> outbox_inv ob2 \<and> outbox_room ob2 = outbox_room ob + length (outbox_msgs ob)"
proof -
  from publish[OF assms(1,2), of v] obtain ob1 where
    1: "publish_try v ob = Some ob1" "outbox_inv ob1" "outbox_msgs ob1 = outbox_msgs ob @ [v]" "outbox_room ob = Suc (outbox_room ob1)"
    by blast
  from TryConsume_ok[OF 1(2) refl, of BatchSize "\<lambda>ms sent. sent @ ms" "[]"] 1(3) assms(3) obtain ob2 where
    "TryConsume BatchSize (\<lambda>ms sent. sent @ ms) ob1 [] = Some (outbox_msgs ob @ [v], ob2)" "outbox_inv ob2" "outbox_msgs ob2 = []"
    "outbox_room ob2 = outbox_room ob1 + Suc (length (outbox_msgs ob))" by (auto simp: min_def)
  with 1 show ?thesis by simp
qed

theorem publish_then_consume_witness:
  "\<exists>ob ob1 ob2. fresh_outbox (2 ^ 2) (0 :: nat) = Some ob \<and> publish_try 5 ob = Some ob1 \<and>
     TryConsume 4 (\<lambda>ms sent. sent @ ms) ob1 [] = Some ([5], ob2) \<and> outbox_msgs ob2 = []"
proof -
  obtain ob where ob: "fresh_outbox (2 ^ 2) (0 :: nat) = Some ob" "outbox_inv ob" "outbox_msgs ob = []" "outbox_room ob = 2 ^ 2"
    using fresh_outbox_ok[of 2 "0 :: nat"] by auto
  have "0 < outbox_room ob" "length (outbox_msgs ob) < 4" using ob(3,4) by simp_all
  from publish_then_consume[OF ob(2) this, of 5] ob(1,3) show ?thesis by auto
qed

end
