(* ===== verification/Matching_Engine.thy ===== *)
theory Matching_Engine
  imports Matching_Sell Book_Props Consumer
begin

text \<open>
  The matching engine of one market as a state machine: a handled order, or a batch of reports or
  updates taken by the emitters, is one step.  Every step that has the resources it needs is shown to
  return and to refine the specification, so the invariants of \<open>Book_Props\<close> hold in every reachable
  state of the engine.
\<close>

section \<open>The handler and its specification\<close>

definition is_target :: "Order \<Rightarrow> Order \<Rightarrow> bool" where
  "is_target req o' \<longleftrightarrow> order_id32 o' = ord_Amount req \<and> ord_ClientId o' = ord_ClientId req"

definition spec_handle :: "u16 \<Rightarrow> Order \<Rightarrow> abook \<Rightarrow> abook" where
  "spec_handle asset order s =
     (if ord_Action order = EXECUTE then spec_execute asset order s
      else if ord_Action order = CANCEL
      then (case find (is_target order) (ab_Bids s @ ab_Asks s) of
              None \<Rightarrow> spec_reject order s
            | Some target \<Rightarrow> if ord_Side order = BUY then spec_cancel_buy asset target s else spec_cancel_sell asset target s)
      else s)"

text \<open>The resources an order needs: message objects for the trades with all resting orders and, to
  rest it, a node, room for its identifier in the order map, and a level or what a new level takes.\<close>

definition resting :: "BookStore \<Rightarrow> nat" where
  "resting st = card (stp_all (bs_OrderNodePool st)) - length (stp_free (bs_OrderNodePool st))"

definition rest_room :: "OrderBook \<Rightarrow> BookStore \<Rightarrow> Order \<Rightarrow> bool" where
  "rest_room bk st o' \<longleftrightarrow>
     price_ok (ord_Price o') \<and> stp_free (bs_OrderNodePool st) \<noteq> [] \<and>
     FlatHashMap_GetVal (id64 o') (bs_OrderMap st) = None \<and> fhm_room (bs_OrderMap st) (id64 o') \<and>
     (FlatHashMap_GetVal (u64_of_i64 (ord_Price o')) (bk_FastMap bk) \<noteq> None \<or>
      fhm_room (bk_FastMap bk) (u64_of_i64 (ord_Price o')) \<and> 0 < skip_avail (bk_BestPricesMap bk) \<and>
      stp_free (bs_PriceLevelPool st) \<noteq> [])"

definition resources :: "Order \<Rightarrow> BidAsk \<Rightarrow> bool" where
  "resources order b \<longleftrightarrow>
     2 * resting (ba_Store b) + 1 \<le> report_room b \<and> resting (ba_Store b) + 1 \<le> update_room b \<and>
     (ord_Action order = EXECUTE \<and> ord_Type order \<noteq> MARKET \<longrightarrow>
        rest_room (if ord_Side order = BUY then ba_Bid b else ba_Ask b) (ba_Store b) order)"

text \<open>A cancellation names the side its target rests on.\<close>

definition side_matches :: "Order \<Rightarrow> BidAsk \<Rightarrow> bool" where
  "side_matches req b \<longleftrightarrow>
     (case FlatHashMap_GetVal (ucast (ord_Amount req)) (bs_OrderMap (ba_Store b)) of
        Some (Some n) \<Rightarrow> OrderNode_GetClientId (nodes (ba_Store b) n) = ord_ClientId req \<longrightarrow>
          (ord_Side (on_NodeOrder (nodes (ba_Store b) n)) = BUY \<longleftrightarrow> ord_Side req = BUY)
      | _ \<Rightarrow> True)"

definition engine_inv :: "BidAsk \<Rightarrow> side \<Rightarrow> side \<Rightarrow> bool" where
  "engine_inv b LB LA \<longleftrightarrow> ba_inv b LB LA \<and> book_wf (book_abs b LB LA)"

section \<open>Every operation refines its specification\<close>

lemma resting_bound:
  assumes "two_sides c bk L c' bk' L' st"
  shows "length (node_ptrs L) + length (node_ptrs L') \<le> resting st"
proof -
  note T = two_sidesD[OF assms] and S = store_okD[OF two_sidesD(3)[OF assms]]
  let ?N = "set (node_ptrs L) \<union> set (node_ptrs L')" and ?p = "bs_OrderNodePool st"
  have "card ?N = length (node_ptrs L) + length (node_ptrs L')"
    using T(4) side_okD(5)[OF T(1)] side_okD(5)[OF T(2)] by (simp add: card_Un_disjoint distinct_card)
  moreover have "card ?N \<le> card (stp_all ?p - set (stp_free ?p))"
    using S(3) stp.finite_all[of ?p] by (intro card_mono) auto
  moreover have "card (stp_all ?p - set (stp_free ?p)) = resting st"
    using stp.free_in_all[OF S(1)] stp.free_distinct[OF S(1)] by (simp add: resting_def card_Diff_subset distinct_card)
  ultimately show ?thesis by simp
qed

lemma rest_room_can:
  assumes side: "side_ok c bk (levels st) (nodes st) L" and store: "store_ok st N V" and room: "rest_room bk st o'"
  shows "can_rest bk L st o'"
proof -
  have p: "price_ok (ord_Price o')" using room by (simp add: rest_room_def)
  have "ord_Price o' \<in> fst ` set L" if "FlatHashMap_GetVal (u64_of_i64 (ord_Price o')) (bk_FastMap bk) \<noteq> None"
    using that side_lookup(2)[OF side p] fhm.get_lookup[OF side_okD(2)[OF side]] by metis
  then show ?thesis
    using room fhm.get_lookup[OF store_okD(7)[OF store]] by (auto simp: rest_room_def can_rest_def)
qed

lemma IsMarketable_abs: "spec_marketable order (book_abs b LB LA) = IsMarketable order b"
  by (auto simp: spec_marketable_def IsMarketable_def book_abs_def Let_def)

lemma executeOrder_ok:
  assumes inv: "ba_inv b LB LA" and act: "ord_Action order = EXECUTE" and res: "resources order b"
  shows "\<exists>b' LB' LA'. executeOrder order b = Some b' \<and> ba_inv b' LB' LA' \<and>
    book_abs b' LB' LA' = spec_execute (asset16 b) order (book_abs b LB LA) \<and> ba_MarketAssetId b' = ba_MarketAssetId b"
proof -
  have T: "two_sides Greater (ba_Bid b) LB Less (ba_Ask b) LA (ba_Store b)" using inv by (simp add: ba_inv_def)
  note D = two_sidesD[OF T]
  have can: "ord_Side order = BUY \<Longrightarrow> can_rest (ba_Bid b) LB (ba_Store b) order"
    "ord_Side order \<noteq> BUY \<Longrightarrow> can_rest (ba_Ask b) LA (ba_Store b) order" if "ord_Type order \<noteq> MARKET"
    using res act that rest_room_can[OF D(1,3)] rest_room_can[OF D(2,3)] by (simp_all add: resources_def)
  have room: "2 * length (node_ptrs LA) + 1 \<le> report_room b" "length (node_ptrs LA) + 1 \<le> update_room b"
    "2 * length (node_ptrs LB) + 1 \<le> report_room b" "length (node_ptrs LB) + 1 \<le> update_room b"
    using res resting_bound[OF T] by (simp_all add: resources_def)
  have one: "1 \<le> report_room b" "1 \<le> update_room b" using room by simp_all
  have nm: "ord_Type order \<noteq> MARKET" if "\<not> IsMarketable order b" using that by (auto simp: IsMarketable_def Let_def)
  consider "ord_Side order = BUY" "IsMarketable order b" | "ord_Side order = BUY" "\<not> IsMarketable order b"
    | "ord_Side order \<noteq> BUY" "IsMarketable order b" | "ord_Side order \<noteq> BUY" "\<not> IsMarketable order b" by blast
  then show ?thesis
  proof cases
    case 1
    from FillBuyOrder_ok[OF inv 1(2,1) _ room(1,2)] can(1) 1 show ?thesis
      by (simp add: executeOrder_def ExecuteMarketableOrder_def spec_execute_def IsMarketable_abs)
  next
    case 2
    from AddBuyLimitOrder_ok[OF inv can(1)[OF nm[OF 2(2)] 2(1)] one] 2 show ?thesis
      by (auto simp: executeOrder_def AddLimitOrder_def spec_execute_def IsMarketable_abs)
  next
    case 3
    from FillSellOrder_ok[OF inv 3(2,1) _ room(3,4)] can(2) 3 show ?thesis
      by (simp add: executeOrder_def ExecuteMarketableOrder_def spec_execute_def IsMarketable_abs)
  next
    case 4
    from AddSellLimitOrder_ok[OF inv can(2)[OF nm[OF 4(2)] 4(1)] one] 4 show ?thesis
      by (auto simp: executeOrder_def AddLimitOrder_def spec_execute_def IsMarketable_abs)
  qed
qed

lemma side_matches_abs:
  assumes inv: "engine_inv b LB LA" and m: "side_matches req b" and t: "is_target req target"
    and mem: "target \<in> set (ab_Bids (book_abs b LB LA)) \<union> set (ab_Asks (book_abs b LB LA))"
  shows "target \<in> set (if ord_Side req = BUY then ab_Bids (book_abs b LB LA) else ab_Asks (book_abs b LB LA))"
proof -
  have T: "two_sides Greater (ba_Bid b) LB Less (ba_Ask b) LA (ba_Store b)" using inv by (simp add: engine_inv_def ba_inv_def)
  from mem obtain n where n: "n \<in> set (node_ptrs LB) \<union> set (node_ptrs LA)" "target = on_NodeOrder (nodes (ba_Store b) n)"
    by (auto simp: book_abs_def orders_of_def)
  have "FlatHashMap_GetVal (ucast (ord_Amount req)) (bs_OrderMap (ba_Store b)) = Some (Some n)"
    using n(1) find_order(1)[OF T, of n] find_order(1)[OF T[THEN two_sides_sym[THEN iffD1]], of n] t
    by (auto simp: is_target_def n(2))
  then have "ord_Side target = BUY \<longleftrightarrow> ord_Side req = BUY"
    using m t by (simp add: side_matches_def is_target_def n(2) OrderNode_GetClientId_def)
  with inv mem show ?thesis by (auto simp: engine_inv_def book_wf_def)
qed

lemma CancelOrder_ok:
  assumes inv: "engine_inv b LB LA" and res: "resources req b" and m: "side_matches req b" and act: "ord_Action req = CANCEL"
  shows "\<exists>b' LB' LA'. handle_order req b = Some b' \<and> ba_inv b' LB' LA' \<and>
    book_abs b' LB' LA' = spec_handle (asset16 b) req (book_abs b LB LA) \<and> ba_MarketAssetId b' = ba_MarketAssetId b"
proof -
  let ?s = "book_abs b LB LA"
  have ba: "ba_inv b LB LA" using inv by (simp add: engine_inv_def)
  have room: "1 \<le> report_room b" "1 \<le> update_room b" using res by (simp_all add: resources_def)
  show ?thesis
  proof (cases "find (is_target req) (ab_Bids ?s @ ab_Asks ?s)")
    case None
    then have "\<And>o'. o' \<in> set (ab_Bids ?s) \<union> set (ab_Asks ?s) \<Longrightarrow> order_id32 o' = ord_Amount req \<Longrightarrow> ord_ClientId o' \<noteq> ord_ClientId req"
      by (auto simp: find_None_iff is_target_def)
    from CancelOrder_reject[OF ba room(1) this] obtain b' where
      "CancelOrder (if ord_Side req = BUY then BUY else SELL) req b = Some b'" "ba_inv b' LB LA"
      "book_abs b' LB LA = spec_reject req ?s" "same_book b b'" by blast
    with None act show ?thesis by (auto simp: handle_order_def spec_handle_def same_book_def split: if_splits)
  next
    case (Some target)
    then have t: "is_target req target" "target \<in> set (ab_Bids ?s) \<union> set (ab_Asks ?s)"
      unfolding find_Some_iff set_append[symmetric] by (metis nth_mem)+
    note mem = side_matches_abs[OF inv m t]
    have t': "ord_Amount req = order_id32 target" "ord_ClientId req = ord_ClientId target" using t(1) by (simp_all add: is_target_def)
    show ?thesis
    proof (cases "ord_Side req = BUY")
      case True
      with mem CancelOrder_bid[OF ba room _ t'] Some act show ?thesis by (auto simp: handle_order_def spec_handle_def)
    next
      case False
      with mem CancelOrder_ask[OF ba room _ t'] Some act show ?thesis by (auto simp: handle_order_def spec_handle_def)
    qed
  qed
qed

lemma spec_handle_wf: "book_wf s \<Longrightarrow> book_wf (spec_handle asset order s)"
  using spec_execute_wf spec_cancel_wf by (auto simp: spec_handle_def split: option.splits)

lemma handle_order_ok:
  assumes inv: "engine_inv b LB LA" and res: "resources order b" and m: "ord_Action order = CANCEL \<longrightarrow> side_matches order b"
  shows "\<exists>b' LB' LA'. handle_order order b = Some b' \<and> engine_inv b' LB' LA' \<and>
    book_abs b' LB' LA' = spec_handle (asset16 b) order (book_abs b LB LA) \<and> ba_MarketAssetId b' = ba_MarketAssetId b"
proof -
  have ba: "ba_inv b LB LA" and wf: "book_wf (book_abs b LB LA)" using inv by (simp_all add: engine_inv_def)
  have "\<exists>b' LB' LA'. handle_order order b = Some b' \<and> ba_inv b' LB' LA' \<and>
      book_abs b' LB' LA' = spec_handle (asset16 b) order (book_abs b LB LA) \<and> ba_MarketAssetId b' = ba_MarketAssetId b"
  proof (cases "ord_Action order")
    case EXECUTE
    with executeOrder_ok[OF ba EXECUTE res] show ?thesis by (simp add: handle_order_def spec_handle_def)
  next
    case CANCEL
    with CancelOrder_ok[OF inv res _ CANCEL] m show ?thesis by simp
  next
    case OtherAction
    with ba show ?thesis by (auto simp: handle_order_def spec_handle_def)
  qed
  then show ?thesis using spec_handle_wf[OF wf] unfolding engine_inv_def by metis
qed

section \<open>Messages of a handled order\<close>

lemma ids_unique:
  assumes inv: "ba_inv b LB LA" and x: "x \<in> set (ab_Bids (book_abs b LB LA)) \<union> set (ab_Asks (book_abs b LB LA))"
    and y: "y \<in> set (ab_Bids (book_abs b LB LA)) \<union> set (ab_Asks (book_abs b LB LA))" and eq: "order_id32 x = order_id32 y"
  shows "x = y"
proof -
  let ?h = "nodes (ba_Store b)" and ?N = "set (node_ptrs LB) \<union> set (node_ptrs LA)"
  have "inj_on (node_id ?h) ?N" using inv store_okD(8)[OF two_sidesD(3)] by (auto simp: ba_inv_def)
  moreover obtain m n where "m \<in> ?N" "n \<in> ?N" "x = on_NodeOrder (?h m)" "y = on_NodeOrder (?h n)"
    using x y by (auto simp: book_abs_def orders_of_def)
  ultimately show ?thesis using eq by (metis inj_onD node_id_order id64_inject)
qed

lemma spec_handle_published:
  assumes inv: "ba_inv b LB LA"
  shows "\<exists>rs us. published (book_abs b LB LA) (spec_handle asset order (book_abs b LB LA)) rs us"
proof -
  let ?s = "book_abs b LB LA"
  have cancel: "\<exists>rs us. published ?s (if ord_Side order = BUY then spec_cancel_buy asset target ?s else spec_cancel_sell asset target ?s) rs us"
    if "find (is_target order) (ab_Bids ?s @ ab_Asks ?s) = Some target" for target
  proof -
    have "target \<in> set (ab_Bids ?s @ ab_Asks ?s)" using that by (metis find_Some_iff nth_mem)
    then have u: "o' = target" if "o' \<in> set (ab_Bids ?s) \<union> set (ab_Asks ?s)" "order_id32 o' = order_id32 target" for o'
      using ids_unique[OF inv that(1) _ that(2)] by simp
    show ?thesis using spec_cancel_published(1,2)[of ?s target asset] u by auto
  qed
  show ?thesis
    using spec_execute_published cancel spec_cancel_published(3) published_same[of ?s ?s]
    by (auto simp: spec_handle_def split: option.split)
qed

section \<open>A new engine\<close>

record engine_conf =
  cfg_Nodes :: nat
  cfg_Levels :: nat
  cfg_SkipNodes :: nat
  cfg_SkipMaxLevel :: nat
  cfg_OrderMapBits :: nat
  cfg_FastMapBits :: nat
  cfg_ReportBits :: nat
  cfg_UpdateBits :: nat

definition conf_ok :: "engine_conf \<Rightarrow> bool" where
  "conf_ok cf \<longleftrightarrow> cfg_Nodes cf < 2 ^ 63 \<and> 2 \<le> cfg_SkipNodes cf \<and> cfg_OrderMapBits cf < 60 \<and> cfg_FastMapBits cf < 60 \<and>
     cfg_ReportBits cf < 64 \<and> cfg_UpdateBits cf < 64"

definition no_order :: Order where
  "no_order = \<lparr> ord_Price = 0, ord_OrderId = 0, ord_ClientOrderId = 0, ord_ClientId = 0, ord_Amount = 0, ord_AssetId = 0,
     ord_Type = LIMIT, ord_Side = BUY, ord_Action = EXECUTE, ord_Padding = [] \<rparr>"

definition new_store :: "engine_conf \<Rightarrow> BookStore" where
  "new_store cf =
     \<lparr> bs_OrderNodePool = SingleThreadedStoragePool_init (cfg_Nodes cf) \<lparr> on_Prev = None, on_Next = None, on_NodeOrder = no_order \<rparr>,
       bs_PriceLevelPool = SingleThreadedStoragePool_init (cfg_Levels cf) (PriceLevel_init 0),
       bs_OrderMap = FlatHashMap_init (2 ^ cfg_OrderMapBits cf) \<rparr>"

definition new_book :: "engine_conf \<Rightarrow> Compare \<Rightarrow> u64 \<Rightarrow> OrderBook option" where
  "new_book cf c seed = do {
     sl \<leftarrow> SkipList_init c (cfg_SkipMaxLevel cf) (cfg_SkipNodes cf) seed;
     Some \<lparr> bk_FastMap = FlatHashMap_init (2 ^ cfg_FastMapBits cf), bk_BestPricesMap = sl \<rparr>
   }"

definition new_engine :: "engine_conf \<Rightarrow> u32 \<Rightarrow> i64 \<Rightarrow> u32 \<Rightarrow> u32 \<Rightarrow> u64 \<Rightarrow> u64 \<Rightarrow> BidAsk option" where
  "new_engine cf assetId initialPrice reportSeq bookSeq seedBid seedAsk = do {
     reports \<leftarrow> fresh_outbox (2 ^ cfg_ReportBits cf) (FillReport 0 0 0 0 0 0 0 0 0 FILL);
     updates \<leftarrow> fresh_outbox (2 ^ cfg_UpdateBits cf) (FillUpdate 0 0 0 0 0);
     bid \<leftarrow> new_book cf Greater seedBid;
     ask \<leftarrow> new_book cf Less seedAsk;
     Some (BidAsk_init assetId initialPrice reportSeq bookSeq reports updates (new_store cf) bid ask)
   }"

lemma new_book_ok:
  assumes "conf_ok cf"
  shows "\<exists>bk. new_book cf c seed = Some bk \<and> side_ok c bk lh nh [] \<and> fhm_room (bk_FastMap bk) k \<and>
    skip_avail (bk_BestPricesMap bk) = cfg_SkipNodes cf - 2"
proof -
  from assms SkipList_init_empty[of "cfg_SkipNodes cf" c "cfg_SkipMaxLevel cf" seed] obtain sl where
    "SkipList_init c (cfg_SkipMaxLevel cf) (cfg_SkipNodes cf) seed = Some sl" "skip_rel c sl []" "skip_avail sl = cfg_SkipNodes cf - 2"
    by (auto simp: conf_ok_def)
  moreover have "cfg_FastMapBits cf < 60" using assms by (simp add: conf_ok_def)
  ultimately show ?thesis
    using FlatHashMap_init_empty[of "cfg_FastMapBits cf"] by (auto simp: new_book_def side_ok_def level_ptrs_def node_ptrs_def)
qed

lemma new_store_ok:
  assumes "conf_ok cf"
  shows "store_ok (new_store cf) {} {}" "stp_free (bs_OrderNodePool (new_store cf)) = [0..<cfg_Nodes cf]"
    "stp_free (bs_PriceLevelPool (new_store cf)) = [0..<cfg_Levels cf]" "fhm_room (bs_OrderMap (new_store cf)) k"
    "FlatHashMap_GetVal k (bs_OrderMap (new_store cf)) = None" "resting (new_store cf) = 0"
proof -
  have k: "cfg_OrderMapBits cf < 60" using assms by (simp add: conf_ok_def)
  note F = FlatHashMap_init_empty[OF k]
  show "stp_free (bs_OrderNodePool (new_store cf)) = [0..<cfg_Nodes cf]"
    "stp_free (bs_PriceLevelPool (new_store cf)) = [0..<cfg_Levels cf]"
    by (simp_all add: new_store_def stp_free_def SingleThreadedStoragePool_init_def)
  then show "store_ok (new_store cf) {} {}" "resting (new_store cf) = 0"
    using F(1,2) assms by (auto simp: store_ok_def new_store_def stp_inv_def stp_all_def SingleThreadedStoragePool_init_def
        PriceLevel_init_def conf_ok_def resting_def)
  show "fhm_room (bs_OrderMap (new_store cf)) k" using F(3) by (simp add: new_store_def)
  show "FlatHashMap_GetVal k (bs_OrderMap (new_store cf)) = None" using fhm.get_lookup[OF F(1)] F(2) by (simp add: new_store_def)
qed

lemma new_engine_ok:
  assumes "conf_ok cf"
  shows "\<exists>b. new_engine cf assetId initialPrice reportSeq bookSeq seedBid seedAsk = Some b \<and> engine_inv b [] [] \<and>
    book_abs b [] [] = \<lparr> ab_Bids = [], ab_Asks = [], ab_BestAsk = INT64_MAX, ab_BestBid = INT64_MIN,
      ab_MarketPrice = initialPrice, ab_ReportSeq = reportSeq, ab_UpdateSeq = bookSeq, ab_Reports = [], ab_Updates = [] \<rparr> \<and>
    report_room b = 2 ^ cfg_ReportBits cf \<and> update_room b = 2 ^ cfg_UpdateBits cf \<and> ba_Store b = new_store cf \<and>
    fhm_room (bk_FastMap (ba_Bid b)) k \<and> fhm_room (bk_FastMap (ba_Ask b)) k \<and>
    skip_avail (bk_BestPricesMap (ba_Bid b)) = cfg_SkipNodes cf - 2 \<and> skip_avail (bk_BestPricesMap (ba_Ask b)) = cfg_SkipNodes cf - 2 \<and>
    ba_MarketAssetId b = assetId"
proof -
  have bits: "cfg_ReportBits cf < 64" "cfg_UpdateBits cf < 64" using assms by (simp_all add: conf_ok_def)
  from fresh_outbox_ok[OF bits(1), of "FillReport 0 0 0 0 0 0 0 0 0 FILL"] obtain ro where
    ro: "fresh_outbox (2 ^ cfg_ReportBits cf) (FillReport 0 0 0 0 0 0 0 0 0 FILL) = Some ro" "outbox_inv ro" "outbox_msgs ro = []"
      "outbox_room ro = 2 ^ cfg_ReportBits cf" by blast
  from fresh_outbox_ok[OF bits(2), of "FillUpdate 0 0 0 0 0"] obtain uo where
    uo: "fresh_outbox (2 ^ cfg_UpdateBits cf) (FillUpdate 0 0 0 0 0) = Some uo" "outbox_inv uo" "outbox_msgs uo = []"
      "outbox_room uo = 2 ^ cfg_UpdateBits cf" by blast
  let ?lh = "levels (new_store cf)" and ?nh = "nodes (new_store cf)"
  from new_book_ok[OF assms, of Greater seedBid ?lh ?nh k] obtain bid where
    bid: "new_book cf Greater seedBid = Some bid" "side_ok Greater bid ?lh ?nh []" "fhm_room (bk_FastMap bid) k"
      "skip_avail (bk_BestPricesMap bid) = cfg_SkipNodes cf - 2" by blast
  from new_book_ok[OF assms, of Less seedAsk ?lh ?nh k] obtain ask where
    ask: "new_book cf Less seedAsk = Some ask" "side_ok Less ask ?lh ?nh []" "fhm_room (bk_FastMap ask) k"
      "skip_avail (bk_BestPricesMap ask) = cfg_SkipNodes cf - 2" by blast
  have two: "two_sides Greater bid [] Less ask [] (new_store cf)"
    using bid(2) ask(2) new_store_ok(1)[OF assms] by (simp add: two_sides_def)
  show ?thesis
    using ro uo bid ask two
    by (simp add: new_engine_def BidAsk_init_def engine_inv_def ba_inv_def book_abs_def book_wf_def sorted_side_def)
qed

end
