(* ===== verification/Matching_Props.thy ===== *)
theory Matching_Props
  imports Matching_Engine
begin

text \<open>
  The properties of the matching engine, each a statement on the operations of \<open>Bid_Ask\<close>, with
  witnesses on a small engine: four nodes, four levels, one bucket per hash map, sixteen messages of
  each kind.
\<close>

section \<open>A small engine\<close>

definition demo_conf :: engine_conf where
  "demo_conf = \<lparr> cfg_Nodes = 4, cfg_Levels = 4, cfg_SkipNodes = 4, cfg_SkipMaxLevel = 2, cfg_OrderMapBits = 0,
     cfg_FastMapBits = 0, cfg_ReportBits = 4, cfg_UpdateBits = 4 \<rparr>"

definition demo_order :: "OrderAction \<Rightarrow> OrderType \<Rightarrow> OrderSide \<Rightarrow> i64 \<Rightarrow> u32 \<Rightarrow> u64 \<Rightarrow> u32 \<Rightarrow> Order" where
  "demo_order act ty side price amount orderId client =
     no_order \<lparr> ord_Price := price, ord_OrderId := orderId, ord_ClientId := client, ord_Amount := amount, ord_AssetId := 1,
       ord_Type := ty, ord_Side := side, ord_Action := act \<rparr>"

definition demo_empty :: BidAsk where
  "demo_empty = the (new_engine demo_conf 1 100 0 0 1 1)"

definition demo_sell :: Order where
  "demo_sell = demo_order EXECUTE LIMIT SELL 101 5 7 1"

definition demo_buy :: Order where
  "demo_buy = demo_order EXECUTE LIMIT BUY 103 8 9 2"

definition demo_cancel :: "OrderSide \<Rightarrow> u32 \<Rightarrow> Order" where
  "demo_cancel side client = demo_order CANCEL LIMIT side 0 7 10 client"

definition demo_book :: BidAsk where
  "demo_book = the (executeOrder demo_sell demo_empty)"

definition demo_bids :: BidAsk where
  "demo_bids = the (executeOrder demo_buy demo_empty)"

definition demo_hit :: Order where
  "demo_hit = demo_order EXECUTE MARKET SELL 100 3 11 1"

section \<open>Steps of the engine\<close>

inductive engine_step :: "BidAsk \<Rightarrow> BidAsk \<Rightarrow> bool" where
  step_order: "resources order b \<Longrightarrow> (ord_Action order = CANCEL \<longrightarrow> side_matches order b) \<Longrightarrow>
    handle_order order b = Some b' \<Longrightarrow> engine_step b b'"
| step_reports: "TryConsume n (\<lambda>ms sent. sent @ ms) (ba_Reports b) [] = Some (sent, ob) \<Longrightarrow>
    engine_step b (b \<lparr> ba_Reports := ob \<rparr>)"
| step_updates: "TryConsume n (\<lambda>ms sent. sent @ ms) (ba_Updates b) [] = Some (sent, ob) \<Longrightarrow>
    engine_step b (b \<lparr> ba_Updates := ob \<rparr>)"

lemma engine_inv_outbox:
  assumes "engine_inv b LB LA"
  shows "outbox_inv ob \<Longrightarrow> engine_inv (b \<lparr> ba_Reports := ob \<rparr>) LB LA" "outbox_inv ob' \<Longrightarrow> engine_inv (b \<lparr> ba_Updates := ob' \<rparr>) LB LA"
  using assms by (auto simp: engine_inv_def ba_inv_def book_abs_def book_wf_def)

lemma engine_step_inv:
  assumes "engine_step b b'" "engine_inv b LB LA"
  shows "\<exists>LB' LA'. engine_inv b' LB' LA'"
  using assms
proof (induction rule: engine_step.induct)
  case (step_order order b b')
  from handle_order_ok[OF step_order(4,1,2)] step_order(3) show ?case by auto
next
  case (step_reports n b sent ob)
  then have "outbox_inv (ba_Reports b)" by (simp add: engine_inv_def ba_inv_def)
  from TryConsume_ok[OF this refl, of n "\<lambda>ms sent. sent @ ms" "[]"] step_reports(1) have "outbox_inv ob" by auto
  then show ?case using engine_inv_outbox(1)[OF step_reports(2)] by blast
next
  case (step_updates n b sent ob)
  then have "outbox_inv (ba_Updates b)" by (simp add: engine_inv_def ba_inv_def)
  from TryConsume_ok[OF this refl, of n "\<lambda>ms sent. sent @ ms" "[]"] step_updates(1) have "outbox_inv ob" by auto
  then show ?case using engine_inv_outbox(2)[OF step_updates(2)] by blast
qed

lemma engine_steps_inv: "engine_step\<^sup>*\<^sup>* b b' \<Longrightarrow> engine_inv b LB LA \<Longrightarrow> \<exists>LB' LA'. engine_inv b' LB' LA'"
proof (induction rule: rtranclp_induct)
  case (step b1 b2)
  then show ?case using engine_step_inv by blast
qed blast

lemma demo_conf_ok: "conf_ok demo_conf"
  by (simp add: conf_ok_def demo_conf_def)

lemma demo_empty_ok:
  "new_engine demo_conf 1 100 0 0 1 1 = Some demo_empty" "engine_inv demo_empty [] []"
  "book_abs demo_empty [] [] = \<lparr> ab_Bids = [], ab_Asks = [], ab_BestAsk = INT64_MAX, ab_BestBid = INT64_MIN,
     ab_MarketPrice = 100, ab_ReportSeq = 0, ab_UpdateSeq = 0, ab_Reports = [], ab_Updates = [] \<rparr>"
  "ba_MarketAssetId demo_empty = 1"
proof -
  from new_engine_ok[OF demo_conf_ok, of 1 100 0 0 1 1] obtain b where
    b: "new_engine demo_conf 1 100 0 0 1 1 = Some b" "engine_inv b [] []" "ba_MarketAssetId b = 1"
      "book_abs b [] [] = \<lparr> ab_Bids = [], ab_Asks = [], ab_BestAsk = INT64_MAX, ab_BestBid = INT64_MIN,
         ab_MarketPrice = 100, ab_ReportSeq = 0, ab_UpdateSeq = 0, ab_Reports = [], ab_Updates = [] \<rparr>" by blast
  have "demo_empty = b" using b(1) by (simp add: demo_empty_def)
  with b show "new_engine demo_conf 1 100 0 0 1 1 = Some demo_empty" "engine_inv demo_empty [] []"
    "book_abs demo_empty [] [] = \<lparr> ab_Bids = [], ab_Asks = [], ab_BestAsk = INT64_MAX, ab_BestBid = INT64_MIN,
       ab_MarketPrice = 100, ab_ReportSeq = 0, ab_UpdateSeq = 0, ab_Reports = [], ab_Updates = [] \<rparr>"
    "ba_MarketAssetId demo_empty = 1" by simp_all
qed

lemma demo_resources:
  "resources demo_sell demo_empty" "resources demo_buy demo_book" "resources (demo_cancel SELL 1) demo_book"
  "side_matches (demo_cancel SELL 1) demo_book" "resources (demo_cancel SELL 2) demo_book"
  "side_matches (demo_cancel SELL 2) demo_book"
  by code_simp+

lemma demo_book_ok:
  "handle_order demo_sell demo_empty = Some demo_book"
  "\<exists>LB LA. engine_inv demo_book LB LA \<and> ab_Bids (book_abs demo_book LB LA) = [] \<and> ab_Asks (book_abs demo_book LB LA) = [demo_sell] \<and>
     ab_BestAsk (book_abs demo_book LB LA) = 101 \<and> ab_BestBid (book_abs demo_book LB LA) = INT64_MIN \<and> ba_MarketAssetId demo_book = 1"
proof -
  have act: "ord_Action demo_sell = EXECUTE" by (simp add: demo_sell_def demo_order_def)
  from handle_order_ok[OF demo_empty_ok(2) demo_resources(1)] act obtain b LB LA where
    b: "handle_order demo_sell demo_empty = Some b" "engine_inv b LB LA"
      "book_abs b LB LA = spec_handle (asset16 demo_empty) demo_sell (book_abs demo_empty [] [])" "ba_MarketAssetId b = 1"
    using demo_empty_ok(4) by auto
  have eq: "demo_book = b" using b(1) act by (simp add: demo_book_def handle_order_def)
  show "handle_order demo_sell demo_empty = Some demo_book" using b(1) eq by simp
  have "ab_Bids (book_abs b LB LA) = []" "ab_Asks (book_abs b LB LA) = [demo_sell]" "ab_BestAsk (book_abs b LB LA) = 101"
    "ab_BestBid (book_abs b LB LA) = INT64_MIN"
    unfolding b(3) demo_empty_ok(3) by (simp_all add: spec_handle_def spec_execute_def spec_marketable_def spec_add_sell_def
        demo_sell_def demo_order_def no_order_def rest_order_def Let_def INT64_MAX_def INT64_MIN_def)
  with b(2,4) eq show "\<exists>LB LA. engine_inv demo_book LB LA \<and> ab_Bids (book_abs demo_book LB LA) = [] \<and>
     ab_Asks (book_abs demo_book LB LA) = [demo_sell] \<and> ab_BestAsk (book_abs demo_book LB LA) = 101 \<and>
     ab_BestBid (book_abs demo_book LB LA) = INT64_MIN \<and> ba_MarketAssetId demo_book = 1" by blast
qed

lemma demo_bids_ok:
  "\<exists>LB LA. engine_inv demo_bids LB LA \<and> ab_Bids (book_abs demo_bids LB LA) = [demo_buy] \<and> ab_Asks (book_abs demo_bids LB LA) = []"
proof -
  have act: "ord_Action demo_buy = EXECUTE" by (simp add: demo_buy_def demo_order_def)
  have r: "resources demo_buy demo_empty" by code_simp
  from handle_order_ok[OF demo_empty_ok(2) r] act obtain b LB LA where
    b: "handle_order demo_buy demo_empty = Some b" "engine_inv b LB LA"
      "book_abs b LB LA = spec_handle (asset16 demo_empty) demo_buy (book_abs demo_empty [] [])" by auto
  have eq: "demo_bids = b" using b(1) act by (simp add: demo_bids_def handle_order_def)
  have "ab_Bids (book_abs b LB LA) = [demo_buy]" "ab_Asks (book_abs b LB LA) = []"
    unfolding b(3) demo_empty_ok(3) by (simp_all add: spec_handle_def spec_execute_def spec_marketable_def spec_add_buy_def
        demo_buy_def demo_order_def no_order_def rest_order_def Let_def INT64_MAX_def INT64_MIN_def)
  with b(2) eq show ?thesis by blast
qed

lemma handle_order_published:
  assumes "engine_inv b LB LA" "resources order b" "ord_Action order = CANCEL \<longrightarrow> side_matches order b"
  shows "\<exists>b' LB' LA' rs us. handle_order order b = Some b' \<and> engine_inv b' LB' LA' \<and>
    published (book_abs b LB LA) (book_abs b' LB' LA') rs us"
proof -
  from handle_order_ok[OF assms] obtain b' LB' LA' where
    b': "handle_order order b = Some b'" "engine_inv b' LB' LA'" "book_abs b' LB' LA' = spec_handle (asset16 b) order (book_abs b LB LA)" by blast
  moreover obtain rs us where "published (book_abs b LB LA) (book_abs b' LB' LA') rs us"
    using spec_handle_published assms(1) b'(3) unfolding engine_inv_def by metis
  ultimately show ?thesis by blast
qed



section \<open>Properties\<close>

text \<open>C1. Executing an order refines the price-time specification: from a state that satisfies the
  invariant, with the message objects and, for an order that may rest, the book resources it needs,
  \<open>executeOrder\<close> returns (no crash, no endless loop), re-establishes the invariant, and its effect on the
  resting orders, best prices, last price, reports and book updates is that of \<open>spec_execute\<close>.  In the specification, as
  in the code, the sweep of a market order stops at its \<open>Price\<close> like that of a limit order, on the sell side too, where
  \<open>docs/PROTOCOL.md\<close> 3.2 says that the price is ignored (see \<open>market_sell_stops_at_price\<close>).\<close>

theorem executeOrder_refines:
  assumes "ba_inv b LB LA" "ord_Action order = EXECUTE" "resources order b"
  shows "\<exists>b' LB' LA'. executeOrder order b = Some b' \<and> ba_inv b' LB' LA' \<and>
    book_abs b' LB' LA' = spec_execute (asset16 b) order (book_abs b LB LA)"
  using executeOrder_ok[OF assms] by blast

theorem executeOrder_refines_witness:
  "\<exists>b' LB' LA'. executeOrder demo_buy demo_book = Some b' \<and> ba_inv b' LB' LA' \<and> ab_Asks (book_abs b' LB' LA') = [] \<and>
     ab_Bids (book_abs b' LB' LA') = [demo_buy \<lparr> ord_Amount := 3 \<rparr>] \<and> ab_MarketPrice (book_abs b' LB' LA') = 101"
proof -
  obtain LB LA where i: "engine_inv demo_book LB LA" and s: "ab_Bids (book_abs demo_book LB LA) = []"
    "ab_Asks (book_abs demo_book LB LA) = [demo_sell]" "ab_BestAsk (book_abs demo_book LB LA) = 101"
    using demo_book_ok(2) by blast
  have ba: "ba_inv demo_book LB LA" using i by (simp add: engine_inv_def)
  have act: "ord_Action demo_buy = EXECUTE" by (simp add: demo_buy_def demo_order_def)
  from executeOrder_refines[OF ba act demo_resources(2)] obtain b' LB' LA' where
    b': "executeOrder demo_buy demo_book = Some b'" "ba_inv b' LB' LA'"
      "book_abs b' LB' LA' = spec_execute (asset16 demo_book) demo_buy (book_abs demo_book LB LA)" by blast
  have "ab_Asks (book_abs b' LB' LA') = []" "ab_Bids (book_abs b' LB' LA') = [demo_buy \<lparr> ord_Amount := 3 \<rparr>]"
    "ab_MarketPrice (book_abs b' LB' LA') = 101"
    unfolding b'(3) by (simp_all add: spec_execute_def spec_marketable_def spec_fill_buy_def s trade_buy_def traded_def after_trade_def
        less_amount_def demo_buy_def demo_sell_def demo_order_def no_order_def Let_def spec_add_buy_def rest_order_def emit_report_def
        emit_update_def)
  with b' show ?thesis by blast
qed

text \<open>C2. In every state a new engine reaches by handling orders (with the resources they need and
  cancellations that name the right side) and by the emitters draining its outboxes, some description of
  the two sides satisfies the invariant, both sides are in price-time order, and every resting bid is
  strictly below every resting ask.\<close>

theorem reachable_book_never_crossed:
  assumes "conf_ok cf" "new_engine cf assetId initialPrice reportSeq bookSeq seedBid seedAsk = Some b0" "engine_step\<^sup>*\<^sup>* b0 b"
  shows "\<exists>LB LA. ba_inv b LB LA \<and> sorted_side Greater (ab_Bids (book_abs b LB LA)) \<and> sorted_side Less (ab_Asks (book_abs b LB LA)) \<and>
    (\<forall>x \<in> set (ab_Bids (book_abs b LB LA)). \<forall>y \<in> set (ab_Asks (book_abs b LB LA)). ord_Price x < ord_Price y)"
proof -
  have "engine_inv b0 [] []" using new_engine_ok[OF assms(1), of assetId initialPrice reportSeq bookSeq seedBid seedAsk] assms(2) by auto
  from engine_steps_inv[OF assms(3) this] show ?thesis by (auto simp: engine_inv_def book_wf_def)
qed

theorem reachable_book_never_crossed_witness:
  "\<exists>LB LA. ba_inv demo_book LB LA \<and> sorted_side Greater (ab_Bids (book_abs demo_book LB LA)) \<and>
     sorted_side Less (ab_Asks (book_abs demo_book LB LA)) \<and>
     (\<forall>x \<in> set (ab_Bids (book_abs demo_book LB LA)). \<forall>y \<in> set (ab_Asks (book_abs demo_book LB LA)). ord_Price x < ord_Price y)"
proof -
  have "ord_Action demo_sell = CANCEL \<longrightarrow> side_matches demo_sell demo_empty" by (simp add: demo_sell_def demo_order_def)
  then have "engine_step demo_empty demo_book" by (rule engine_step.step_order[OF demo_resources(1) _ demo_book_ok(1)])
  then show ?thesis by (intro reachable_book_never_crossed[OF demo_conf_ok demo_empty_ok(1)]) auto
qed

text \<open>C4. The sweep of a marketable buy order returns and honours price-time priority: what is left of
  the asks is the old list without a prefix, the first remaining order perhaps reduced, everything
  taken was priced at or below the limit, and the amount left over is the order's amount minus the
  acceptable liquidity (never a wrapped value).\<close>

theorem buy_sweep_priority_and_volume:
  assumes "ba_inv b LB LA" "IsMarketable order b" "ord_Side order = BUY"
    "2 * length (ab_Asks (book_abs b LB LA)) \<le> report_room b" "length (ab_Asks (book_abs b LB LA)) \<le> update_room b"
  shows "\<exists>order' locked' b' LA'. FillBuy_sweep order locked b = Some (order', locked', b') \<and> ba_inv b' LB LA' \<and>
    consumed (\<lambda>p. p \<le> ord_Price order) (ab_Asks (book_abs b LB LA)) (ab_Asks (book_abs b' LB LA')) \<and>
    unat (ord_Amount order') = unat (ord_Amount order) - ask_liquidity (ord_Price order) (ab_Asks (book_abs b LB LA)) \<and>
    order' = order \<lparr> ord_Amount := ord_Amount order' \<rparr>"
proof -
  let ?n = "length (ab_Asks (book_abs b LB LA))"
  have n: "length (node_ptrs LA) = ?n" by (simp add: book_abs_def orders_of_def)
  from FillBuy_sweep_ok[OF assms(1-3), of ?n locked] assms(4,5) obtain order' locked' b' LA' where
    s: "swept_buy ?n order locked b LB LA order' locked' b' LA'" unfolding sweep_fits_def n by auto
  then have sw: "sweep_buy ?n (asset16 b) order locked (book_abs b LB LA) = (order', locked', book_abs b' LB LA')"
    by (simp add: swept_buy_def)
  show ?thesis
    using s sweep_buy_priority[OF sw] sweep_buy_volume[OF sw] by (auto simp: swept_buy_def)
qed

theorem buy_sweep_priority_and_volume_witness:
  "\<exists>LB LA order' locked' b' LA'. FillBuy_sweep demo_buy 0 demo_book = Some (order', locked', b') \<and>
     consumed (\<lambda>p. p \<le> 103) (ab_Asks (book_abs demo_book LB LA)) (ab_Asks (book_abs b' LB LA')) \<and> unat (ord_Amount order') = 3"
proof -
  obtain LB LA where i: "engine_inv demo_book LB LA" and s: "ab_Asks (book_abs demo_book LB LA) = [demo_sell]"
    using demo_book_ok(2) by blast
  have d: "IsMarketable demo_buy demo_book" "2 \<le> report_room demo_book" "1 \<le> update_room demo_book" by code_simp+
  have p: "ord_Side demo_buy = BUY" "ord_Price demo_buy = 103" "ord_Amount demo_buy = 8" "ask_liquidity 103 [demo_sell] = 5"
    by (simp_all add: demo_buy_def demo_sell_def demo_order_def no_order_def ask_liquidity_def)
  have ba: "ba_inv demo_book LB LA" using i by (simp add: engine_inv_def)
  have r: "2 * length (ab_Asks (book_abs demo_book LB LA)) \<le> report_room demo_book"
    "length (ab_Asks (book_abs demo_book LB LA)) \<le> update_room demo_book" using d(2,3) by (simp_all add: s)
  from buy_sweep_priority_and_volume[OF ba d(1) p(1) r, of 0] obtain order' locked' b' LA' where
    "FillBuy_sweep demo_buy 0 demo_book = Some (order', locked', b')"
    "consumed (\<lambda>p. p \<le> 103) (ab_Asks (book_abs demo_book LB LA)) (ab_Asks (book_abs b' LB LA'))"
    "unat (ord_Amount order') = 8 - ask_liquidity 103 [demo_sell]" by (auto simp: p(2,3) s)
  then show ?thesis unfolding p(4) by (intro exI conjI) auto
qed

text \<open>C8. A cancellation that finds its target (an order with the requested identifier and owner, on the
  side the request names) removes exactly that order from the book, and announces it with one report
  to its owner and one update with the new depth of its level.\<close>

theorem cancel_removes_exactly_the_target:
  assumes "engine_inv b LB LA" "resources req b" "side_matches req b" "ord_Action req = CANCEL"
    "target \<in> set (ab_Bids (book_abs b LB LA)) \<union> set (ab_Asks (book_abs b LB LA))" "is_target req target"
  shows "\<exists>b' LB' LA' r u. handle_order req b = Some b' \<and> engine_inv b' LB' LA' \<and>
    ab_Bids (book_abs b' LB' LA') = filter (\<lambda>x. x \<noteq> target) (ab_Bids (book_abs b LB LA)) \<and>
    ab_Asks (book_abs b' LB' LA') = filter (\<lambda>x. x \<noteq> target) (ab_Asks (book_abs b LB LA)) \<and>
    ab_Reports (book_abs b' LB' LA') = ab_Reports (book_abs b LB LA) @ [r] \<and> rep_State r = CANCEL_STATE \<and>
    rep_ClientId r = ord_ClientId target \<and> rep_OrderId r = order_id32 target \<and>
    ab_Updates (book_abs b' LB' LA') = ab_Updates (book_abs b LB LA) @ [u] \<and> upd_Price u = ord_Price target"
proof -
  let ?s = "book_abs b LB LA"
  have ba: "ba_inv b LB LA" using assms(1) by (simp add: engine_inv_def)
  have uniq: "x = target" if "x \<in> set (ab_Bids ?s) \<union> set (ab_Asks ?s)" "order_id32 x = order_id32 target" for x
    by (rule ids_unique[OF ba that(1) assms(5) that(2)])
  have rem: "remove_id (order_id32 target) os = filter (\<lambda>x. x \<noteq> target) os"
    if "set os \<subseteq> set (ab_Bids ?s) \<union> set (ab_Asks ?s)" for os
    using that uniq unfolding remove_id_def by (intro filter_cong) auto
  obtain t where f: "find (is_target req) (ab_Bids ?s @ ab_Asks ?s) = Some t"
    using assms(5,6) by (cases "find (is_target req) (ab_Bids ?s @ ab_Asks ?s)") (auto simp: find_None_iff)
  then have "t \<in> set (ab_Bids ?s @ ab_Asks ?s)" "is_target req t" by (metis find_Some_iff nth_mem)+
  then have t: "t = target" using uniq[of t] assms(6) by (auto simp: is_target_def)
  note mem = side_matches_abs[OF assms(1,3,6,5)]
  have other: "filter (\<lambda>x. x \<noteq> target) os = os" if "target \<notin> set os" for os :: "Order list"
    using that by (intro filter_True) auto
  have wf: "book_wf ?s" using assms(1) by (simp add: engine_inv_def)
  have disj: "target \<notin> set (ab_Asks ?s)" if "ord_Side req = BUY" using that mem wf by (auto simp: book_wf_def)
  have disj': "target \<notin> set (ab_Bids ?s)" if "ord_Side req \<noteq> BUY" using that mem wf by (auto simp: book_wf_def)
  from handle_order_ok[OF assms(1,2)] assms(3) obtain b' LB' LA' where
    b': "handle_order req b = Some b'" "engine_inv b' LB' LA'" "book_abs b' LB' LA' = spec_handle (asset16 b) req ?s" by blast
  show ?thesis
  proof (cases "ord_Side req = BUY")
    case True
    then have "book_abs b' LB' LA' = spec_cancel_buy (asset16 b) target ?s" using b'(3) f t assms(4) by (simp add: spec_handle_def)
    then show ?thesis using b'(1,2) rem[of "ab_Bids ?s"] other[OF disj[OF True]]
      by (intro exI[of _ b'] exI[of _ LB'] exI[of _ LA'])
        (simp add: spec_cancel_buy_def Let_def emit_report_def emit_update_def FillReport_def FillUpdate_def)
  next
    case False
    then have "book_abs b' LB' LA' = spec_cancel_sell (asset16 b) target ?s" using b'(3) f t assms(4) by (simp add: spec_handle_def)
    then show ?thesis using b'(1,2) rem[of "ab_Asks ?s"] other[OF disj'[OF False]]
      by (intro exI[of _ b'] exI[of _ LB'] exI[of _ LA'])
        (simp add: spec_cancel_sell_def Let_def emit_report_def emit_update_def FillReport_def FillUpdate_def)
  qed
qed

theorem cancel_removes_exactly_the_target_witness:
  "\<exists>b' LB' LA'. handle_order (demo_cancel SELL 1) demo_book = Some b' \<and> engine_inv b' LB' LA' \<and> ab_Asks (book_abs b' LB' LA') = []"
proof -
  obtain LB LA where i: "engine_inv demo_book LB LA" and s: "ab_Asks (book_abs demo_book LB LA) = [demo_sell]"
    using demo_book_ok(2) by blast
  have c: "ord_Action (demo_cancel SELL 1) = CANCEL" "is_target (demo_cancel SELL 1) demo_sell"
    by (simp_all add: demo_cancel_def demo_order_def is_target_def demo_sell_def order_id32_def)
  have m: "demo_sell \<in> set (ab_Bids (book_abs demo_book LB LA)) \<union> set (ab_Asks (book_abs demo_book LB LA))" by (simp add: s)
  from cancel_removes_exactly_the_target[OF i demo_resources(3,4) c(1) m c(2)] obtain b' LB' LA' where
    "handle_order (demo_cancel SELL 1) demo_book = Some b'" "engine_inv b' LB' LA'"
    "ab_Asks (book_abs b' LB' LA') = filter (\<lambda>x. x \<noteq> demo_sell) (ab_Asks (book_abs demo_book LB LA))" by blast
  then show ?thesis by (auto simp: s)
qed

text \<open>C9. A cancellation of an order that does not rest, or that belongs to another client, only publishes a rejection: the
  engine is the old one except for the outbox of reports, which receives one \<open>REJECT\<close> with the next number, for the requester
  and the identifier of the request and without any movement, and the counter of the reports, which advances by one.  Book,
  book updates and their counter are untouched.\<close>

theorem cancel_of_foreign_order_rejected:
  assumes "ba_inv b LB LA" "1 \<le> report_room b"
    "\<And>x. x \<in> set (ab_Bids (book_abs b LB LA)) \<union> set (ab_Asks (book_abs b LB LA)) \<Longrightarrow> \<not> is_target req x"
  shows "\<exists>ob. CancelOrder side req b = Some (b \<lparr> ba_Reports := ob, ba_ReportSequenceId := ba_ReportSequenceId b + 1 \<rparr>) \<and>
    outbox_msgs ob = outbox_msgs (ba_Reports b) @
      [FillReport 0 0 0 (ba_ReportSequenceId b) (ord_ClientId req) (ucast (ord_OrderId req)) 0 0 0 REJECT] \<and>
    ba_inv (b \<lparr> ba_Reports := ob, ba_ReportSequenceId := ba_ReportSequenceId b + 1 \<rparr>) LB LA"
proof -
  have "\<And>x. x \<in> set (ab_Bids (book_abs b LB LA)) \<union> set (ab_Asks (book_abs b LB LA)) \<Longrightarrow>
      order_id32 x = ord_Amount req \<Longrightarrow> ord_ClientId x \<noteq> ord_ClientId req" using assms(3) by (auto simp: is_target_def)
  from CancelOrder_reports_only[OF assms(1) this, where side = side] have
    c: "CancelOrder side req b = report_try (\<lambda>q. FillReport 0 0 0 q (ord_ClientId req) (ucast (ord_OrderId req)) 0 0 0 REJECT) b" .
  have "0 < report_room b" using assms(2) by simp
  from report_ok[OF assms(1) this, of "\<lambda>q. FillReport 0 0 0 q (ord_ClientId req) (ucast (ord_OrderId req)) 0 0 0 REJECT"] obtain ob where
    ob: "report_try (\<lambda>q. FillReport 0 0 0 q (ord_ClientId req) (ucast (ord_OrderId req)) 0 0 0 REJECT) b =
        Some (b \<lparr> ba_Reports := ob, ba_ReportSequenceId := ba_ReportSequenceId b + 1 \<rparr>)" "outbox_inv ob"
      "outbox_msgs ob = outbox_msgs (ba_Reports b) @
        [FillReport 0 0 0 (ba_ReportSequenceId b) (ord_ClientId req) (ucast (ord_OrderId req)) 0 0 0 REJECT]" by blast
  show ?thesis unfolding c using ob
    book_abs_report(1)[OF assms(1) ob(2), where r = "\<lambda>q. FillReport 0 0 0 q (ord_ClientId req) (ucast (ord_OrderId req)) 0 0 0 REJECT"]
    by blast
qed

theorem cancel_of_foreign_order_rejected_witness:
  "\<exists>ob. CancelOrder SELL (demo_cancel SELL 2) demo_book =
      Some (demo_book \<lparr> ba_Reports := ob, ba_ReportSequenceId := ba_ReportSequenceId demo_book + 1 \<rparr>) \<and>
    outbox_msgs ob = outbox_msgs (ba_Reports demo_book) @ [FillReport 0 0 0 (ba_ReportSequenceId demo_book) 2 10 0 0 0 REJECT]"
proof -
  obtain LB LA where i: "engine_inv demo_book LB LA" and s: "ab_Bids (book_abs demo_book LB LA) = []"
    "ab_Asks (book_abs demo_book LB LA) = [demo_sell]" using demo_book_ok(2) by blast
  have ba: "ba_inv demo_book LB LA" using i by (simp add: engine_inv_def)
  have r: "1 \<le> report_room demo_book" by code_simp
  have "\<And>x. x \<in> set (ab_Bids (book_abs demo_book LB LA)) \<union> set (ab_Asks (book_abs demo_book LB LA)) \<Longrightarrow> \<not> is_target (demo_cancel SELL 2) x"
    by (auto simp: s demo_cancel_def demo_order_def is_target_def demo_sell_def order_id32_def)
  moreover have "ord_ClientId (demo_cancel SELL 2) = 2" "(ucast (ord_OrderId (demo_cancel SELL 2)) :: u32) = 10"
    by (simp_all add: demo_cancel_def demo_order_def)
  ultimately show ?thesis using cancel_of_foreign_order_rejected[OF ba r, of "demo_cancel SELL 2" SELL] by auto
qed

text \<open>C5. Handling an order creates and destroys nothing: over the reports it publishes, the announced
  movements of every asset, cash (asset 0) included, add up to zero modulo \<open>2 ^ 64\<close>, the arithmetic of
  the \<open>int64_t\<close> balances they are applied to.\<close>

theorem reports_conserve_assets:
  assumes "engine_inv b LB LA" "resources order b" "ord_Action order = CANCEL \<longrightarrow> side_matches order b"
  shows "\<exists>b' LB' LA' rs. handle_order order b = Some b' \<and> engine_inv b' LB' LA' \<and>
    ab_Reports (book_abs b' LB' LA') = ab_Reports (book_abs b LB LA) @ rs \<and> (\<forall>asset. flow asset rs mod 2 ^ 64 = 0)"
  using handle_order_published[OF assms] unfolding published_def by blast

theorem reports_conserve_assets_witness:
  "\<exists>b' LB LA LB' LA' rs. handle_order demo_buy demo_book = Some b' \<and>
     ab_Reports (book_abs b' LB' LA') = ab_Reports (book_abs demo_book LB LA) @ rs \<and> (\<forall>asset. flow asset rs mod 2 ^ 64 = 0)"
proof -
  obtain LB LA where i: "engine_inv demo_book LB LA" using demo_book_ok(2) by blast
  have "ord_Action demo_buy = CANCEL \<longrightarrow> side_matches demo_buy demo_book" by (simp add: demo_buy_def demo_order_def)
  from reports_conserve_assets[OF i demo_resources(2) this] show ?thesis by blast
qed

text \<open>C6. The book updates a handled order publishes are complete: replaying them, in order, on the depths
  of the two sides before gives the depths after, at every price.\<close>

theorem updates_replay_to_depth:
  assumes "engine_inv b LB LA" "resources order b" "ord_Action order = CANCEL \<longrightarrow> side_matches order b"
  shows "\<exists>b' LB' LA' us. handle_order order b = Some b' \<and> engine_inv b' LB' LA' \<and>
    ab_Updates (book_abs b' LB' LA') = ab_Updates (book_abs b LB LA) @ us \<and>
    (\<lambda>p. depth_at p (ab_Asks (book_abs b' LB' LA'))) = replay ORDER_BOOK_UPDATE_SELL us (\<lambda>p. depth_at p (ab_Asks (book_abs b LB LA))) \<and>
    (\<lambda>p. depth_at p (ab_Bids (book_abs b' LB' LA'))) = replay ORDER_BOOK_UPDATE_BUY us (\<lambda>p. depth_at p (ab_Bids (book_abs b LB LA)))"
  using handle_order_published[OF assms] unfolding published_def by blast

theorem updates_replay_to_depth_witness:
  "\<exists>b' LB LA LB' LA' us. handle_order demo_buy demo_book = Some b' \<and>
     ab_Updates (book_abs b' LB' LA') = ab_Updates (book_abs demo_book LB LA) @ us \<and>
     (\<lambda>p. depth_at p (ab_Asks (book_abs b' LB' LA'))) = replay ORDER_BOOK_UPDATE_SELL us (\<lambda>p. depth_at p (ab_Asks (book_abs demo_book LB LA)))"
proof -
  obtain LB LA where i: "engine_inv demo_book LB LA" using demo_book_ok(2) by blast
  have "ord_Action demo_buy = CANCEL \<longrightarrow> side_matches demo_buy demo_book" by (simp add: demo_buy_def demo_order_def)
  from updates_replay_to_depth[OF i demo_resources(2) this] show ?thesis by blast
qed

text \<open>C10. Reports and book updates carry consecutive sequence numbers (modulo \<open>2 ^ 32\<close>), so a receiver can
  detect a gap: the new messages are numbered from the current counters, which advance by their number.\<close>

theorem sequence_numbers_gap_free:
  assumes "engine_inv b LB LA" "resources order b" "ord_Action order = CANCEL \<longrightarrow> side_matches order b"
  shows "\<exists>b' LB' LA' rs us. handle_order order b = Some b' \<and> engine_inv b' LB' LA' \<and>
    ab_Reports (book_abs b' LB' LA') = ab_Reports (book_abs b LB LA) @ rs \<and>
    ab_Updates (book_abs b' LB' LA') = ab_Updates (book_abs b LB LA) @ us \<and>
    map rep_SequenceId rs = map (\<lambda>i. ba_ReportSequenceId b + of_nat i) [0..<length rs] \<and>
    ba_ReportSequenceId b' = ba_ReportSequenceId b + of_nat (length rs) \<and>
    map upd_SequenceId us = map (\<lambda>i. ba_OrderBookSequenceId b + of_nat i) [0..<length us] \<and>
    ba_OrderBookSequenceId b' = ba_OrderBookSequenceId b + of_nat (length us)"
proof -
  have seq: "ab_ReportSeq (book_abs b LB LA) = ba_ReportSequenceId b" "ab_UpdateSeq (book_abs b LB LA) = ba_OrderBookSequenceId b"
    for b LB LA by (simp_all add: book_abs_def)
  from handle_order_published[OF assms] show ?thesis unfolding published_def numbered_def seq length_map by blast
qed

theorem sequence_numbers_gap_free_witness:
  "\<exists>b' LB LA LB' LA' rs. handle_order demo_buy demo_book = Some b' \<and>
     ab_Reports (book_abs b' LB' LA') = ab_Reports (book_abs demo_book LB LA) @ rs \<and>
     ba_ReportSequenceId b' = ba_ReportSequenceId demo_book + of_nat (length rs)"
proof -
  obtain LB LA where i: "engine_inv demo_book LB LA" using demo_book_ok(2) by blast
  have "ord_Action demo_buy = CANCEL \<longrightarrow> side_matches demo_buy demo_book" by (simp add: demo_buy_def demo_order_def)
  from sequence_numbers_gap_free[OF i demo_resources(2) this] show ?thesis by blast
qed

text \<open>When the node pool is exhausted, an order that should rest is dropped: the engine is unchanged
  and neither a report nor an update tells the client or the market.\<close>

theorem exhausted_node_pool_drops_order:
  assumes "stp_FreeSize (bs_OrderNodePool (ba_Store b)) = 0"
  shows "AddLimitOrder order b = Some b"
  using assms by (simp add: AddLimitOrder_def AddBuyLimitOrder_def AddSellLimitOrder_def STPool_Acquire_def)

theorem exhausted_node_pool_drops_order_witness:
  "AddLimitOrder demo_buy (demo_empty \<lparr> ba_Store := new_store (demo_conf \<lparr> cfg_Nodes := 0 \<rparr>) \<rparr>) =
   Some (demo_empty \<lparr> ba_Store := new_store (demo_conf \<lparr> cfg_Nodes := 0 \<rparr>) \<rparr>)"
  by (rule exhausted_node_pool_drops_order) (simp add: new_store_def SingleThreadedStoragePool_init_def)

text \<open>The sweep of a marketable sell order against the bids, with the same guarantees: a prefix of the
  bids, every one priced at or above the order's price, and the exact amount left over.\<close>

theorem sell_sweep_priority_and_volume:
  assumes "ba_inv b LB LA" "IsMarketable order b" "ord_Side order \<noteq> BUY"
    "2 * length (ab_Bids (book_abs b LB LA)) \<le> report_room b" "length (ab_Bids (book_abs b LB LA)) \<le> update_room b"
  shows "\<exists>order' locked' b' LB'. FillSell_sweep order locked b = Some (order', locked', b') \<and> ba_inv b' LB' LA \<and>
    consumed (\<lambda>p. ord_Price order \<le> p) (ab_Bids (book_abs b LB LA)) (ab_Bids (book_abs b' LB' LA)) \<and>
    unat (ord_Amount order') = unat (ord_Amount order) - bid_liquidity (ord_Price order) (ab_Bids (book_abs b LB LA)) \<and>
    order' = order \<lparr> ord_Amount := ord_Amount order' \<rparr>"
proof -
  let ?n = "length (ab_Bids (book_abs b LB LA))"
  have n: "length (node_ptrs LB) = ?n" by (simp add: book_abs_def orders_of_def)
  from FillSell_sweep_ok[OF assms(1-3), of ?n locked] assms(4,5) obtain order' locked' b' LB' where
    s: "swept_sell ?n order locked b LA LB order' locked' b' LB'" unfolding sweep_fits_def n by auto
  then have sw: "sweep_sell ?n (asset16 b) order locked (book_abs b LB LA) = (order', locked', book_abs b' LB' LA)"
    by (simp add: swept_sell_def)
  show ?thesis
    using s sweep_sell_priority[OF sw] sweep_sell_volume[OF sw] by (auto simp: swept_sell_def)
qed

theorem sell_sweep_priority_and_volume_witness:
  "\<exists>LB LA order' locked' b' LB'. FillSell_sweep demo_hit 3 demo_bids = Some (order', locked', b') \<and>
     consumed (\<lambda>p. 100 \<le> p) (ab_Bids (book_abs demo_bids LB LA)) (ab_Bids (book_abs b' LB' LA)) \<and> unat (ord_Amount order') = 0"
proof -
  obtain LB LA where i: "engine_inv demo_bids LB LA" and s: "ab_Bids (book_abs demo_bids LB LA) = [demo_buy]"
    using demo_bids_ok by blast
  have d: "IsMarketable demo_hit demo_bids" "2 \<le> report_room demo_bids" "1 \<le> update_room demo_bids" by code_simp+
  have p: "ord_Side demo_hit \<noteq> BUY" "ord_Price demo_hit = 100" "ord_Amount demo_hit = 3" "bid_liquidity 100 [demo_buy] = 8"
    by (simp_all add: demo_buy_def demo_hit_def demo_order_def no_order_def bid_liquidity_def)
  have ba: "ba_inv demo_bids LB LA" using i by (simp add: engine_inv_def)
  have r: "2 * length (ab_Bids (book_abs demo_bids LB LA)) \<le> report_room demo_bids"
    "length (ab_Bids (book_abs demo_bids LB LA)) \<le> update_room demo_bids" using d(2,3) by (simp_all add: s)
  from sell_sweep_priority_and_volume[OF ba d(1) p(1) r, of 3] obtain order' locked' b' LB' where
    "FillSell_sweep demo_hit 3 demo_bids = Some (order', locked', b')"
    "consumed (\<lambda>p. 100 \<le> p) (ab_Bids (book_abs demo_bids LB LA)) (ab_Bids (book_abs b' LB' LA))"
    "unat (ord_Amount order') = 3 - bid_liquidity 100 [demo_buy]" by (auto simp: p(2,3) s)
  then show ?thesis unfolding p(4) by (intro exI conjI) auto
qed



text \<open>C11. A market sell is not executed at any price: the sweep stops below the order's \<open>Price\<close>.  When every bid is lower the
  order trades nothing, the book stays as it is, and the order is answered by one cancellation that releases its whole amount.  The
  protocol document (\<open>docs/PROTOCOL.md\<close> 3.2) says that the price of a market sell is ignored.\<close>

theorem market_sell_stops_at_price:
  assumes "ba_inv b LB LA" "resources order b"
    and "ord_Action order = EXECUTE" "ord_Type order = MARKET" "ord_Side order = SELL" "ord_Amount order \<noteq> 0"
    and "\<And>x. x \<in> set (ab_Bids (book_abs b LB LA)) \<Longrightarrow> ord_Price x < ord_Price order"
  shows "\<exists>b' LB' LA'. executeOrder order b = Some b' \<and> ba_inv b' LB' LA' \<and>
    ab_Bids (book_abs b' LB' LA') = ab_Bids (book_abs b LB LA) \<and> ab_Asks (book_abs b' LB' LA') = ab_Asks (book_abs b LB LA) \<and>
    ba_MarketPrice b' = ba_MarketPrice b \<and> outbox_msgs (ba_Updates b') = outbox_msgs (ba_Updates b) \<and>
    outbox_msgs (ba_Reports b') = outbox_msgs (ba_Reports b) @
      [FillReport 0 0 (wrap64 (- uint (ord_Amount order))) (ba_ReportSequenceId b) (ord_ClientId order) (order_id32 order) 0 0
         (asset16 b) CANCEL_STATE]"
proof -
  let ?s = "book_abs b LB LA"
  from executeOrder_ok[OF assms(1,3,2)] obtain b' LB' LA' where
    b': "executeOrder order b = Some b'" "ba_inv b' LB' LA'" "book_abs b' LB' LA' = spec_execute (asset16 b) order ?s" by blast
  have sweep: "\<exists>p. sweep_sell (Suc (length (ab_Bids ?s))) (asset16 b) order (uint (ord_Amount order)) ?s =
    (order, uint (ord_Amount order), ?s \<lparr> ab_BestBid := p \<rparr>)"
  proof (cases "ab_Bids ?s")
    case Nil
    then show ?thesis by (intro exI[of _ "ab_BestBid ?s"]) simp
  next
    case (Cons x xs)
    then show ?thesis using assms(6,7) by (intro exI[of _ "ord_Price x"]) simp
  qed
  then obtain p where "spec_execute (asset16 b) order ?s = emit_report (\<lambda>q. FillReport 0 0 (wrap64 (- uint (ord_Amount order))) q
      (ord_ClientId order) (order_id32 order) 0 0 (asset16 b) CANCEL_STATE) (?s \<lparr> ab_BestBid := p \<rparr>)"
    using assms(4-6) by (auto simp: spec_execute_def spec_marketable_def spec_fill_sell_def simp del: sweep_sell.simps)
  then show ?thesis using b' by (intro exI[of _ b'] exI[of _ LB'] exI[of _ LA']) (simp add: book_abs_def emit_report_def)
qed

theorem market_sell_stops_at_price_witness:
  "\<exists>LB LA b' LB' LA'. executeOrder (demo_hit \<lparr> ord_Price := 104 \<rparr>) demo_bids = Some b' \<and>
     ab_Bids (book_abs demo_bids LB LA) = [demo_buy] \<and> ab_Bids (book_abs b' LB' LA') = [demo_buy] \<and>
     (\<exists>r. outbox_msgs (ba_Reports b') = outbox_msgs (ba_Reports demo_bids) @ [r] \<and> rep_State r = CANCEL_STATE \<and> rep_SoldAttemptDelta r = - 3)"
proof -
  let ?o = "demo_hit \<lparr> ord_Price := 104 \<rparr>"
  obtain LB LA where i: "engine_inv demo_bids LB LA" and s: "ab_Bids (book_abs demo_bids LB LA) = [demo_buy]"
    using demo_bids_ok by blast
  have ba: "ba_inv demo_bids LB LA" using i by (simp add: engine_inv_def)
  have r: "resources ?o demo_bids" by code_simp
  have f: "ord_Action ?o = EXECUTE" "ord_Type ?o = MARKET" "ord_Side ?o = SELL" "ord_Amount ?o \<noteq> 0" "ord_Amount ?o = 3"
    by (simp_all add: demo_hit_def demo_order_def)
  have low: "\<And>x. x \<in> set (ab_Bids (book_abs demo_bids LB LA)) \<Longrightarrow> ord_Price x < ord_Price ?o"
    by (simp add: s demo_buy_def demo_order_def)
  from market_sell_stops_at_price[OF ba r f(1-4) low] s show ?thesis
    by (fastforce simp: f(5) FillReport_def wrap64_def)
qed

end
