(* ===== verification/Published_Accounts.thy ===== *)
theory Published_Accounts
  imports Wire_Types
begin

text \<open>
  What the gateway and the account service rely on when they keep balances in a triple buffer: the
  arrays of positions (\<open>std::array<int64_t, MaxPositions>\<close>) with their wrapping element-wise sums, the
  change a report makes to an account, and the locale \<open>published_accounts\<close>, the contract between a
  table of accounts and the writer that feeds it.  Each account has a state the readers see and a
  staged one; an update touches the staged state only, and a flush publishes it.  Both \<open>ClientStates\<close>
  classes interpret the locale, and both writers use its lemmas on batches.
\<close>

section \<open>Arrays of positions\<close>

definition pos_array :: "(nat \<Rightarrow> 'a) \<Rightarrow> 'a list" where
  "pos_array f = map f [0..<MaxPositions]"

definition pos_add :: "i64 list \<Rightarrow> i64 list \<Rightarrow> i64 list" where
  "pos_add xs ys = pos_array (\<lambda>i. wrap64 (xs ! i + ys ! i))"

definition pos_diff :: "i64 list \<Rightarrow> i64 list \<Rightarrow> i64 list" where
  "pos_diff xs ys = pos_array (\<lambda>i. wrap64 (xs ! i - ys ! i))"

definition pos_add_at :: "u16 \<Rightarrow> i64 \<Rightarrow> u16 list \<Rightarrow> i64 list \<Rightarrow> i64 list" where
  "pos_add_at assetId d ids xs = pos_array (\<lambda>i. if ids ! i = assetId then wrap64 (xs ! i + d) else xs ! i)"

definition pos_ok :: "i64 list \<Rightarrow> bool" where
  "pos_ok xs \<longleftrightarrow> length xs = MaxPositions \<and> (\<forall>x \<in> set xs. in_i64 x)"

lemma length_pos_array [simp]: "length (pos_array f) = MaxPositions"
  by (simp add: pos_array_def)

lemma nth_pos_array [simp]: "i < MaxPositions \<Longrightarrow> pos_array f ! i = f i"
  by (simp add: pos_array_def)

lemma pos_array_eqI: "length xs = MaxPositions \<Longrightarrow> (\<And>i. i < MaxPositions \<Longrightarrow> f i = xs ! i) \<Longrightarrow> pos_array f = xs"
  by (rule nth_equalityI) simp_all

lemma pos_array_cong: "(\<And>i. i < MaxPositions \<Longrightarrow> f i = g i) \<Longrightarrow> pos_array f = pos_array g"
  by (simp add: pos_array_def)

lemma pos_ok_array: "(\<And>i. i < MaxPositions \<Longrightarrow> in_i64 (f i)) \<Longrightarrow> pos_ok (pos_array f)"
  by (auto simp: pos_ok_def pos_array_def)

lemma pos_ok_nth [simp]: "pos_ok xs \<Longrightarrow> i < MaxPositions \<Longrightarrow> in_i64 (xs ! i)"
  by (auto simp: pos_ok_def)

lemma pos_ok_ops [simp]:
  "pos_ok (pos_add xs ys)" "pos_ok (pos_diff xs ys)" "pos_ok xs \<Longrightarrow> pos_ok (pos_add_at a d ids xs)" "pos_ok (replicate MaxPositions 0)"
  by (simp_all add: pos_add_def pos_diff_def pos_add_at_def pos_ok_array) (simp add: pos_ok_def in_i64_def)

lemma length_pos_ok: "pos_ok xs \<Longrightarrow> length xs = MaxPositions"
  by (simp add: pos_ok_def)

lemma wrap64_eqI: "x mod 2 ^ 64 = y mod 2 ^ 64 \<Longrightarrow> wrap64 x = wrap64 y"
  using signed_take_bit_take_bit[of 63 64 x] signed_take_bit_take_bit[of 63 64 y] by (simp add: wrap64_def take_bit_eq_mod)

lemma wrap64_wrap [simp]:
  "wrap64 (wrap64 a + b) = wrap64 (a + b)" "wrap64 (a + wrap64 b) = wrap64 (a + b)"
  "wrap64 (wrap64 a - b) = wrap64 (a - b)" "wrap64 (a - wrap64 b) = wrap64 (a - b)" "wrap64 (wrap64 a) = wrap64 a"
proof -
  note c = mod_add_cong[OF wrap64_mod refl] mod_add_cong[OF refl wrap64_mod] mod_diff_cong[OF wrap64_mod refl] mod_diff_cong[OF refl wrap64_mod]
  show "wrap64 (wrap64 a + b) = wrap64 (a + b)" by (rule wrap64_eqI) (rule c)
  show "wrap64 (a + wrap64 b) = wrap64 (a + b)" by (rule wrap64_eqI) (rule c)
  show "wrap64 (wrap64 a - b) = wrap64 (a - b)" by (rule wrap64_eqI) (rule c)
  show "wrap64 (a - wrap64 b) = wrap64 (a - b)" by (rule wrap64_eqI) (rule c)
qed simp

lemma pos_add_nth [simp]: "i < MaxPositions \<Longrightarrow> pos_add xs ys ! i = wrap64 (xs ! i + ys ! i)"
  by (simp add: pos_add_def)

lemma pos_add_assoc: "pos_add (pos_add xs ys) zs = pos_add xs (pos_add ys zs)"
  unfolding pos_add_def by (rule pos_array_cong) (simp add: add.assoc)

lemma pos_add_commute: "pos_add xs ys = pos_add ys xs"
  unfolding pos_add_def by (rule pos_array_cong) (simp add: add.commute)

lemma pos_add_left_commute: "pos_add xs (pos_add ys zs) = pos_add ys (pos_add xs zs)"
  by (metis pos_add_assoc pos_add_commute)

lemma pos_add_0 [simp]: "pos_ok xs \<Longrightarrow> pos_add xs (replicate MaxPositions 0) = xs"
  unfolding pos_add_def by (rule pos_array_eqI) (simp_all add: pos_ok_def)

lemma pos_add_diff [simp]: "pos_ok ys \<Longrightarrow> pos_add xs (pos_diff ys xs) = ys"
  unfolding pos_add_def pos_diff_def by (rule pos_array_eqI) (simp_all add: length_pos_ok)

lemma pos_add_add_at:
  assumes "pos_ok xs"
  shows "pos_add xs (pos_add_at a d ids ys) = pos_add_at a d ids (pos_add xs ys)"
  unfolding pos_add_def pos_add_at_def by (rule pos_array_cong) (simp add: add.assoc)

lemmas pos_add_ac = pos_add_assoc pos_add_commute pos_add_left_commute

section \<open>Three buffers in rotation\<close>

text \<open>\<open>Complete\<close> counts modulo three: buffer \<open>c\<close> is published, \<open>next3 c\<close> is written next.\<close>

definition next3 :: "u8 \<Rightarrow> u8" where
  "next3 c = (if c = 2 then 0 else c + 1)"

definition rot_ok :: "u8 \<Rightarrow> bool" where
  "rot_ok c \<longleftrightarrow> c = 0 \<or> c = 1 \<or> c = 2"

lemma rot_ok_next [simp]: "rot_ok c \<Longrightarrow> rot_ok (next3 c)"
  by (auto simp: rot_ok_def next3_def)

lemma next3_neq [simp]:
  assumes "rot_ok c"
  shows "next3 c \<noteq> c" "c \<noteq> next3 c" "next3 (next3 c) \<noteq> c" "next3 (next3 c) \<noteq> next3 c" "next3 (next3 (next3 c)) = c"
  using assms by (auto simp: rot_ok_def next3_def)

lemma rot_sum:
  assumes "rot_ok c"
  shows "pos_add (pos_add (pos_add x (g 0)) (g 1)) (g 2) = pos_add (pos_add (pos_add x (g (next3 (next3 c)))) (g c)) (g (next3 c))"
  using assms by (auto simp: rot_ok_def next3_def pos_add_ac)

text \<open>The three parallel vectors \<open>States1\<close>, \<open>States2\<close>, \<open>States3\<close> of both \<open>ClientStates\<close> classes;
  \<open>ts_at\<close> is the conditional with which readers select one, \<open>ts_back\<close> the one of the writer.\<close>

record 's triple_states =
  States1 :: "'s list"
  States2 :: "'s list"
  States3 :: "'s list"

definition ts_at :: "u8 \<Rightarrow> 's triple_states \<Rightarrow> nat \<Rightarrow> 's" where
  "ts_at complete ts i = (if complete = 0 then States1 ts ! i else if complete = 1 then States2 ts ! i else States3 ts ! i)"

definition ts_back :: "u8 \<Rightarrow> 's triple_states \<Rightarrow> nat \<Rightarrow> 's" where
  "ts_back complete ts i = (if complete = 0 then States2 ts ! i else if complete = 1 then States3 ts ! i else States1 ts ! i)"

definition ts_put_back :: "u8 \<Rightarrow> nat \<Rightarrow> 's \<Rightarrow> 's triple_states \<Rightarrow> 's triple_states" where
  "ts_put_back complete i s ts =
     (if complete = 0 then ts \<lparr> States2 := (States2 ts)[i := s] \<rparr>
      else if complete = 1 then ts \<lparr> States3 := (States3 ts)[i := s] \<rparr>
      else ts \<lparr> States1 := (States1 ts)[i := s] \<rparr>)"

definition ts_ok :: "nat \<Rightarrow> 's triple_states \<Rightarrow> bool" where
  "ts_ok n ts \<longleftrightarrow> length (States1 ts) = n \<and> length (States2 ts) = n \<and> length (States3 ts) = n"

lemma ts_ok_put [simp]: "ts_ok n (ts_put_back c i s ts) \<longleftrightarrow> ts_ok n ts"
  by (simp add: ts_ok_def ts_put_back_def)

lemma ts_back_at: "rot_ok c \<Longrightarrow> ts_back c ts i = ts_at (next3 c) ts i"
  by (auto simp: rot_ok_def ts_back_def ts_at_def next3_def)

lemma ts_at_put:
  assumes "ts_ok n ts" "i < n" "rot_ok c" "rot_ok d"
  shows "ts_at d (ts_put_back c i s ts) j = (if d = next3 c \<and> j = i then s else ts_at d ts j)"
  using assms by (auto simp: ts_ok_def rot_ok_def ts_at_def ts_put_back_def next3_def nth_list_update)

section \<open>The contract of an account table\<close>

fun run_updates :: "(nat \<Rightarrow> 'd \<Rightarrow> 's \<Rightarrow> 's option) \<Rightarrow> (nat \<times> 'd) list \<Rightarrow> 's \<Rightarrow> 's option" where
  "run_updates upd [] s = Some s"
| "run_updates upd ((i, d) # us) s = (case upd i d s of None \<Rightarrow> None | Some s \<Rightarrow> run_updates upd us s)"

fun flush_each :: "(nat \<Rightarrow> 's \<Rightarrow> 's option) \<Rightarrow> nat list \<Rightarrow> nat list \<Rightarrow> 's \<Rightarrow> 's option" where
  "flush_each flush [] touched s = Some s"
| "flush_each flush (i # is) touched s =
     (if i \<in> set touched then flush_each flush is touched s
      else (case flush i s of None \<Rightarrow> None | Some s \<Rightarrow> flush_each flush is (i # touched) s))"

definition updates_of :: "nat \<Rightarrow> (nat \<times> 'd) list \<Rightarrow> 'd list" where
  "updates_of i us = map snd (filter (\<lambda>u. fst u = i) us)"

lemma updates_of_simps [simp]:
  "updates_of i [] = []" "updates_of i (u # us) = (if fst u = i then snd u # updates_of i us else updates_of i us)"
  "updates_of i (us @ vs) = updates_of i us @ updates_of i vs"
  by (simp_all add: updates_of_def)

locale published_accounts =
  fixes inv :: "'s \<Rightarrow> nat \<Rightarrow> bool" and view :: "'s \<Rightarrow> nat \<Rightarrow> 'a" and staged :: "'s \<Rightarrow> nat \<Rightarrow> 'a"
    and upd :: "nat \<Rightarrow> 'd \<Rightarrow> 's \<Rightarrow> 's option" and flush :: "nat \<Rightarrow> 's \<Rightarrow> 's option" and add :: "'d \<Rightarrow> 'a \<Rightarrow> 'a"
  assumes upd_ok: "inv s i \<Longrightarrow> \<exists>s'. upd i d s = Some s' \<and>
        (\<forall>j. inv s j \<longrightarrow> inv s' j \<and> view s' j = view s j \<and> staged s' j = (if j = i then add d (staged s j) else staged s j))"
    and flush_ok: "inv s i \<Longrightarrow> \<exists>s'. flush i s = Some s' \<and>
        (\<forall>j. inv s j \<longrightarrow> inv s' j \<and> staged s' j = staged s j \<and> view s' j = (if j = i then staged s j else view s j))"
begin

lemma run_updates_ok:
  assumes "\<forall>u \<in> set us. inv s (fst u)"
  shows "\<exists>s'. run_updates upd us s = Some s' \<and>
     (\<forall>j. inv s j \<longrightarrow> inv s' j \<and> view s' j = view s j \<and> staged s' j = fold add (updates_of j us) (staged s j))"
  using assms
proof (induction us arbitrary: s)
  case (Cons u us)
  obtain i d where u: "u = (i, d)" by force
  with Cons.prems upd_ok[of s i d] obtain s1 where 1: "upd i d s = Some s1" and
    2: "\<And>j. inv s j \<Longrightarrow> inv s1 j \<and> view s1 j = view s j \<and> staged s1 j = (if j = i then add d (staged s j) else staged s j)" by auto
  with Cons.prems have "\<forall>u \<in> set us. inv s1 (fst u)" by auto
  from Cons.IH[OF this] obtain s' where s': "run_updates upd us s1 = Some s'"
    "\<forall>j. inv s1 j \<longrightarrow> inv s' j \<and> view s' j = view s1 j \<and> staged s' j = fold add (updates_of j us) (staged s1 j)" by blast
  then show ?case using 1 2 u by (intro exI[of _ s']) (auto dest: 2)
qed simp

lemma flush_each_ok:
  assumes "\<forall>i \<in> set is. inv s i"
  shows "\<exists>s'. flush_each flush is T s = Some s' \<and>
     (\<forall>j. inv s j \<longrightarrow> inv s' j \<and> staged s' j = staged s j \<and>
        view s' j = (if j \<in> set is \<and> j \<notin> set T then staged s j else view s j))"
  using assms
proof (induction "is" arbitrary: s T)
  case (Cons i "is")
  show ?case
  proof (cases "i \<in> set T")
    case True
    with Cons.IH[of s T] Cons.prems show ?thesis by auto
  next
    case False
    from Cons.prems flush_ok[of s i] obtain s1 where 1: "flush i s = Some s1" and
      2: "\<And>j. inv s j \<Longrightarrow> inv s1 j \<and> staged s1 j = staged s j \<and> view s1 j = (if j = i then staged s j else view s j)" by auto
    with Cons.prems have "\<forall>i \<in> set is. inv s1 i" by auto
    from Cons.IH[OF this, of "i # T"] obtain s' where s': "flush_each flush is (i # T) s1 = Some s'"
      "\<forall>j. inv s1 j \<longrightarrow> inv s' j \<and> staged s' j = staged s1 j \<and>
        view s' j = (if j \<in> set is \<and> j \<notin> set (i # T) then staged s1 j else view s1 j)" by blast
    then show ?thesis using 1 2 False by (intro exI[of _ s']) (auto dest: 2)
  qed
qed simp

text \<open>A batch of updates followed by one flush per touched account publishes every update of the batch,
  and leaves the accounts the batch does not name as they were.\<close>

lemma batch_ok:
  assumes "\<forall>u \<in> set us. inv s (fst u)" "set is = fst ` set us"
  shows "\<exists>s1 s2. run_updates upd us s = Some s1 \<and> flush_each flush is [] s1 = Some s2 \<and>
     (\<forall>j. inv s j \<longrightarrow> inv s2 j \<and> staged s2 j = fold add (updates_of j us) (staged s j) \<and>
        view s2 j = (if j \<in> fst ` set us then fold add (updates_of j us) (staged s j) else view s j))"
proof -
  from run_updates_ok[OF assms(1)] obtain s1 where 1: "run_updates upd us s = Some s1" and
    2: "\<And>j. inv s j \<Longrightarrow> inv s1 j \<and> view s1 j = view s j \<and> staged s1 j = fold add (updates_of j us) (staged s j)" by blast
  have "\<forall>i \<in> set is. inv s1 i" using assms 2 by auto
  from flush_each_ok[OF this, of "[]"] obtain s2 where "flush_each flush is [] s1 = Some s2"
    "\<forall>j. inv s1 j \<longrightarrow> inv s2 j \<and> staged s2 j = staged s1 j \<and> view s2 j = (if j \<in> set is \<and> j \<notin> set [] then staged s1 j else view s1 j)"
    by blast
  then show ?thesis using 1 2 assms(2) by (intro exI[of _ s1] exI[of _ s2]) (auto dest: 2)
qed

end

end
