(* ===== verification/Triple_Buffer.thy ===== *)
theory Triple_Buffer
  imports Published_Accounts
begin

text \<open>
  The rotation that the \<open>ClientStates\<close> classes of the gateway and of the account service share.  A table
  holds three copies of every account, the deltas of the last three rounds and, per client, the index
  \<open>Complete\<close> of the published copy.  The two services have different account records; \<open>account_ops\<close>
  names what the rotation needs of one, the locale \<open>account_buffers\<close> states the laws, and its lemmas say
  that one flush publishes the pending deltas and leaves the next copy up to date.
\<close>

section \<open>Tables\<close>

record ClientDelta =
  cd_Confirmed :: "i64 list"
  cd_Attempt :: "i64 list"

definition ClientDelta_zero :: ClientDelta where
  "ClientDelta_zero = \<lparr> cd_Confirmed = replicate MaxPositions 0, cd_Attempt = replicate MaxPositions 0 \<rparr>"

record 's account_table =
  tab_States :: "'s triple_states"
  tab_Deltas :: "ClientDelta list list"
  tab_Complete :: "u8 list"

definition tab_in :: "('s, 'm) account_table_scheme \<Rightarrow> nat \<Rightarrow> bool" where
  "tab_in st i \<longleftrightarrow> i < length (tab_Complete st)"

definition tab_put_back :: "nat \<Rightarrow> 's \<Rightarrow> ('s, 'm) account_table_scheme \<Rightarrow> ('s, 'm) account_table_scheme" where
  "tab_put_back i s st = st \<lparr> tab_States := ts_put_back (tab_Complete st ! i) i s (tab_States st) \<rparr>"

definition tab_delta :: "('s, 'm) account_table_scheme \<Rightarrow> nat \<Rightarrow> u8 \<Rightarrow> ClientDelta" where
  "tab_delta st i c = tab_Deltas st ! i ! unat c"

definition tab_put_delta :: "nat \<Rightarrow> u8 \<Rightarrow> ClientDelta \<Rightarrow> ('s, 'm) account_table_scheme \<Rightarrow> ('s, 'm) account_table_scheme" where
  "tab_put_delta i c d st = st \<lparr> tab_Deltas := (tab_Deltas st)[i := (tab_Deltas st ! i)[unat c := d]] \<rparr>"

definition tab_publish :: "nat \<Rightarrow> ('s, 'm) account_table_scheme \<Rightarrow> ('s, 'm) account_table_scheme" where
  "tab_publish i st = st \<lparr> tab_Complete := (tab_Complete st)[i := next3 (tab_Complete st ! i)] \<rparr>"

section \<open>Accounts\<close>

text \<open>\<open>ao_setb\<close> replaces the balances of an account; \<open>ao_copy cur new\<close> gives \<open>new\<close> everything of \<open>cur\<close> but
  the balances.\<close>

record 's account_ops =
  ao_conf :: "'s \<Rightarrow> i64 list"
  ao_att :: "'s \<Rightarrow> i64 list"
  ao_ids :: "'s \<Rightarrow> u16 list"
  ao_setb :: "i64 list \<Rightarrow> i64 list \<Rightarrow> 's \<Rightarrow> 's"
  ao_copy :: "'s \<Rightarrow> 's \<Rightarrow> 's"

definition acc_ok :: "'s account_ops \<Rightarrow> 's \<Rightarrow> bool" where
  "acc_ok A s \<longleftrightarrow> length (ao_ids A s) = MaxPositions \<and> pos_ok (ao_conf A s) \<and> pos_ok (ao_att A s)"

definition delta_ok :: "ClientDelta \<Rightarrow> bool" where
  "delta_ok d \<longleftrightarrow> pos_ok (cd_Confirmed d) \<and> pos_ok (cd_Attempt d)"

definition acc_add :: "'s account_ops \<Rightarrow> ClientDelta \<Rightarrow> 's \<Rightarrow> 's" where
  "acc_add A d s = ao_setb A (pos_add (ao_conf A s) (cd_Confirmed d)) (pos_add (ao_att A s) (cd_Attempt d)) s"

text \<open>The phases of a flush.\<close>

definition tab_apply :: "'s account_ops \<Rightarrow> nat \<Rightarrow> ('s, 'm) account_table_scheme \<Rightarrow> ('s, 'm) account_table_scheme" where
  "tab_apply A i st =
     (let c = tab_Complete st ! i in tab_put_back i (acc_add A (tab_delta st i c) (ts_back c (tab_States st) i)) st)"

definition tab_prepare :: "'s account_ops \<Rightarrow> nat \<Rightarrow> ('s, 'm) account_table_scheme \<Rightarrow> ('s, 'm) account_table_scheme" where
  "tab_prepare A i st =
     (let c = tab_Complete st ! i;
          st = tab_put_delta i c ClientDelta_zero st;
          new = ts_back c (tab_States st) i
      in tab_put_back i
           (ao_copy A (ts_at c (tab_States st) i)
              (acc_add A (tab_delta st i 2) (acc_add A (tab_delta st i 1) (acc_add A (tab_delta st i 0) new)))) st)"

definition tab_flush :: "'s account_ops \<Rightarrow> nat \<Rightarrow> ('s, 'm) account_table_scheme \<Rightarrow> ('s, 'm) account_table_scheme" where
  "tab_flush A i st = tab_prepare A i (tab_publish i (tab_apply A i st))"

section \<open>Invariant and abstraction\<close>

definition tab_shape :: "('s, 'm) account_table_scheme \<Rightarrow> nat \<Rightarrow> bool" where
  "tab_shape st i \<longleftrightarrow> tab_in st i \<and> ts_ok (length (tab_Complete st)) (tab_States st) \<and>
     length (tab_Deltas st) = length (tab_Complete st) \<and> length (tab_Deltas st ! i) = 3 \<and> rot_ok (tab_Complete st ! i)"

text \<open>Of the three copies of a client: the one behind has the balances of the published one, which are
  those of the oldest one plus the deltas of the last flush.\<close>

definition tab_inv :: "'s account_ops \<Rightarrow> ('s, 'm) account_table_scheme \<Rightarrow> nat \<Rightarrow> bool" where
  "tab_inv A st i \<longleftrightarrow> tab_shape st i \<and>
     (\<forall>c. rot_ok c \<longrightarrow> acc_ok A (ts_at c (tab_States st) i) \<and> delta_ok (tab_delta st i c)) \<and>
     (let c = tab_Complete st ! i; p = next3 (next3 c);
          new = ts_at (next3 c) (tab_States st) i; cur = ts_at c (tab_States st) i; old = ts_at p (tab_States st) i; d = tab_delta st i p
      in ao_conf A new = ao_conf A cur \<and> ao_att A new = ao_att A cur \<and>
         ao_conf A cur = pos_add (ao_conf A old) (cd_Confirmed d) \<and> ao_att A cur = pos_add (ao_att A old) (cd_Attempt d))"

definition tab_view :: "('s, 'm) account_table_scheme \<Rightarrow> nat \<Rightarrow> 's" where
  "tab_view st i = ts_at (tab_Complete st ! i) (tab_States st) i"

definition tab_staged :: "'s account_ops \<Rightarrow> ('s, 'm) account_table_scheme \<Rightarrow> nat \<Rightarrow> 's" where
  "tab_staged A st i = (let c = tab_Complete st ! i in acc_add A (tab_delta st i c) (ts_at (next3 c) (tab_States st) i))"

section \<open>Frame lemmas\<close>

lemma tab_put_fields [simp]:
  "tab_Complete (tab_put_back i s st) = tab_Complete st" "tab_Deltas (tab_put_back i s st) = tab_Deltas st"
  "tab_Complete (tab_put_delta i c d st) = tab_Complete st" "tab_States (tab_put_delta i c d st) = tab_States st"
  "tab_States (tab_publish i st) = tab_States st" "tab_Deltas (tab_publish i st) = tab_Deltas st"
  by (simp_all add: tab_put_back_def tab_put_delta_def tab_publish_def)

lemma tab_in_ops [simp]:
  "tab_in (tab_put_back i s st) j = tab_in st j" "tab_in (tab_put_delta i c d st) j = tab_in st j" "tab_in (tab_publish i st) j = tab_in st j"
  by (simp_all add: tab_in_def tab_publish_def)

lemma tab_delta_put_back [simp]: "tab_delta (tab_put_back i s st) j e = tab_delta st j e" "tab_delta (tab_publish i st) j e = tab_delta st j e"
  by (simp_all add: tab_delta_def)

lemma tab_shapeD:
  assumes "tab_shape st i"
  shows "tab_in st i" "rot_ok (tab_Complete st ! i)" "i < length (tab_Complete st)"
  using assms by (simp_all add: tab_shape_def tab_in_def)

lemma tab_shape_ops [simp]:
  "tab_shape (tab_put_back i s st) j = tab_shape st j"
  "tab_shape st i \<Longrightarrow> tab_shape st j \<Longrightarrow> tab_shape (tab_put_delta i c d st) j"
  "tab_shape st i \<Longrightarrow> tab_shape st j \<Longrightarrow> tab_shape (tab_publish i st) j"
  by (auto simp: tab_shape_def tab_put_back_def tab_in_def tab_put_delta_def tab_publish_def nth_list_update)

lemma tab_delta_put:
  assumes "tab_shape st i" "rot_ok c" "rot_ok e"
  shows "tab_delta (tab_put_delta i c d st) j e = (if j = i \<and> e = c then d else tab_delta st j e)"
  using assms by (auto simp: tab_shape_def tab_in_def tab_delta_def tab_put_delta_def rot_ok_def nth_list_update)

lemma tab_state_put:
  assumes "tab_shape st i" "rot_ok c"
  shows "ts_at c (tab_States (tab_put_back i s st)) j = (if j = i \<and> c = next3 (tab_Complete st ! i) then s else ts_at c (tab_States st) j)"
  using assms ts_at_put[of _ "tab_States st" i "tab_Complete st ! i" c s j] by (auto simp: tab_shape_def tab_in_def tab_put_back_def)

lemma tab_complete_publish:
  "tab_shape st i \<Longrightarrow> tab_Complete (tab_publish i st) ! j = (if j = i then next3 (tab_Complete st ! i) else tab_Complete st ! j)"
  by (auto simp: tab_shape_def tab_in_def tab_publish_def nth_list_update)

lemmas tab_slot = tab_delta_put tab_state_put tab_complete_publish ts_back_at

text \<open>An operation on one client changes nothing of another.\<close>

definition tab_same :: "('s, 'm) account_table_scheme \<Rightarrow> ('s, 'm) account_table_scheme \<Rightarrow> nat \<Rightarrow> bool" where
  "tab_same st st' j \<longleftrightarrow> tab_Complete st' ! j = tab_Complete st ! j \<and>
     (\<forall>c. rot_ok c \<longrightarrow> ts_at c (tab_States st') j = ts_at c (tab_States st) j \<and> tab_delta st' j c = tab_delta st j c)"

lemma tab_same_trans: "tab_same st st1 j \<Longrightarrow> tab_same st1 st2 j \<Longrightarrow> tab_same st st2 j"
  by (simp add: tab_same_def)

lemma tab_same_ops:
  assumes "tab_shape st i" "j \<noteq> i"
  shows "tab_same st (tab_put_back i s st) j" "rot_ok c \<Longrightarrow> tab_same st (tab_put_delta i c d st) j" "tab_same st (tab_publish i st) j"
  using assms tab_shapeD(2)[OF assms(1)] by (auto simp: tab_same_def tab_slot)

text \<open>\<open>st'\<close> results from an operation on client \<open>i\<close>.\<close>

definition tab_frame :: "nat \<Rightarrow> ('s, 'm) account_table_scheme \<Rightarrow> ('s, 'm) account_table_scheme \<Rightarrow> bool" where
  "tab_frame i st st' \<longleftrightarrow> (\<forall>j. tab_shape st j \<longrightarrow> tab_shape st' j) \<and> (\<forall>j. j \<noteq> i \<longrightarrow> tab_same st st' j)"

lemma tab_frame_trans: "tab_frame i st st1 \<Longrightarrow> tab_frame i st1 st2 \<Longrightarrow> tab_frame i st st2"
  by (auto simp: tab_frame_def intro: tab_same_trans)

lemma tab_frame_ops:
  assumes "tab_shape st i"
  shows "tab_frame i st (tab_put_back i s st)" "rot_ok c \<Longrightarrow> tab_frame i st (tab_put_delta i c d st)" "tab_frame i st (tab_publish i st)"
  using assms tab_same_ops[OF assms] by (simp_all add: tab_frame_def)

lemma tab_invD:
  assumes "tab_inv A st i"
  defines "c \<equiv> tab_Complete st ! i"
  defines "p \<equiv> next3 (next3 c)"
  shows "tab_shape st i" "rot_ok c" "\<And>c. rot_ok c \<Longrightarrow> acc_ok A (ts_at c (tab_States st) i)"
    "\<And>c. rot_ok c \<Longrightarrow> delta_ok (tab_delta st i c)"
    "ao_conf A (ts_at (next3 c) (tab_States st) i) = ao_conf A (ts_at c (tab_States st) i)"
    "ao_att A (ts_at (next3 c) (tab_States st) i) = ao_att A (ts_at c (tab_States st) i)"
    "ao_conf A (ts_at c (tab_States st) i) = pos_add (ao_conf A (ts_at p (tab_States st) i)) (cd_Confirmed (tab_delta st i p))"
    "ao_att A (ts_at c (tab_States st) i) = pos_add (ao_att A (ts_at p (tab_States st) i)) (cd_Attempt (tab_delta st i p))"
  using assms(1) by (simp_all add: tab_inv_def tab_shape_def Let_def c_def p_def)

lemma tab_frameD:
  assumes "tab_frame i st st'" "tab_inv A st j" "j \<noteq> i"
  shows "tab_inv A st' j" "tab_view st' j = tab_view st j" "tab_staged A st' j = tab_staged A st j"
proof -
  have s: "tab_same st st' j" "tab_shape st j" "tab_shape st' j" using assms tab_invD(1)[OF assms(2)] by (auto simp: tab_frame_def)
  then show "tab_inv A st' j" "tab_view st' j = tab_view st j" "tab_staged A st' j = tab_staged A st j"
    using assms(2) tab_shapeD(2)[OF s(2)] by (auto simp: tab_same_def tab_inv_def tab_view_def tab_staged_def Let_def)
qed

section \<open>Writing behind the published copy\<close>

text \<open>Storing an account with the same balances behind the published one, and new deltas of the round.\<close>

lemma tab_put_ok:
  assumes inv: "tab_inv A st i" and s: "acc_ok A s" and d: "delta_ok d"
    and b: "ao_conf A s = ao_conf A (ts_at (next3 (tab_Complete st ! i)) (tab_States st) i)"
      "ao_att A s = ao_att A (ts_at (next3 (tab_Complete st ! i)) (tab_States st) i)"
  defines "st' \<equiv> tab_put_delta i (tab_Complete st ! i) d (tab_put_back i s st)"
  shows "tab_inv A st' i" "tab_view st' i = tab_view st i" "tab_staged A st' i = acc_add A d s" "tab_frame i st st'"
proof -
  note I = tab_invD[OF inv]
  show "tab_inv A st' i" using I s d b by (simp add: st'_def tab_inv_def tab_slot Let_def)
  show "tab_view st' i = tab_view st i" using I(1,2) by (simp add: st'_def tab_view_def tab_slot)
  show "tab_staged A st' i = acc_add A d s" using I(1,2) by (simp add: st'_def tab_staged_def Let_def tab_slot)
  show "tab_frame i st st'" unfolding st'_def
    by (rule tab_frame_trans[OF tab_frame_ops(1)[OF I(1)] tab_frame_ops(2)]) (simp_all add: I(1,2))
qed

lemma tab_put_delta_id: "tab_shape st i \<Longrightarrow> rot_ok c \<Longrightarrow> tab_put_delta i c (tab_delta st i c) st = st"
  by (simp add: tab_put_delta_def tab_delta_def)

lemma tab_put_back_id: "tab_shape st i \<Longrightarrow> tab_put_back i (ts_at (next3 (tab_Complete st ! i)) (tab_States st) i) st = st"
  by (auto simp: tab_shape_def tab_put_back_def ts_put_back_def ts_at_def rot_ok_def next3_def)

section \<open>The rotation\<close>

locale account_buffers =
  fixes A :: "'s account_ops"
  assumes conf_setb: "ao_conf A (ao_setb A c a s) = c" and att_setb: "ao_att A (ao_setb A c a s) = a"
    and ids_setb: "ao_ids A (ao_setb A c a s) = ao_ids A s"
    and setb_setb: "ao_setb A c a (ao_setb A c' a' s) = ao_setb A c a s"
    and setb_id: "ao_setb A (ao_conf A s) (ao_att A s) s = s"
    and copy: "length (ao_ids A cur) = MaxPositions \<Longrightarrow> ao_copy A cur new = ao_setb A (ao_conf A new) (ao_att A new) cur"
begin

lemma acc_add_simps [simp]:
  "ao_conf A (acc_add A d s) = pos_add (ao_conf A s) (cd_Confirmed d)" "ao_att A (acc_add A d s) = pos_add (ao_att A s) (cd_Attempt d)"
  "ao_ids A (acc_add A d s) = ao_ids A s" "acc_ok A s \<Longrightarrow> acc_ok A (acc_add A d s)"
  by (simp_all add: acc_add_def conf_setb att_setb ids_setb acc_ok_def)

lemma acc_add_zero: "acc_ok A s \<Longrightarrow> acc_add A ClientDelta_zero s = s"
  by (simp add: acc_add_def acc_ok_def ClientDelta_zero_def setb_id)

lemma flush_ok:
  assumes inv: "tab_inv A st i"
  shows "tab_inv A (tab_flush A i st) i" "tab_view (tab_flush A i st) i = tab_staged A st i"
    "tab_staged A (tab_flush A i st) i = tab_staged A st i" "tab_frame i st (tab_flush A i st)"
proof -
  note I = tab_invD[OF inv]
  let ?c = "tab_Complete st ! i"
  let ?n = "next3 ?c" and ?p = "next3 (next3 ?c)"
  define cur where "cur = acc_add A (tab_delta st i ?c) (ts_at ?n (tab_States st) i)"
  define st1 where "st1 = tab_publish i (tab_put_back i cur st)"
  define st2 where "st2 = tab_put_delta i ?n ClientDelta_zero st1"
  have rot: "rot_ok ?c" "rot_ok ?n" "rot_ok ?p" using I(2) by simp_all
  have sh: "tab_shape st1 i" "tab_shape st2 i" using I(1) by (simp_all add: st1_def st2_def)
  have at: "ts_at e (tab_States st2) i = (if e = ?n then cur else ts_at e (tab_States st) i)" if "rot_ok e" for e
    using I(1) that by (simp add: st1_def st2_def tab_slot)
  have C: "tab_Complete st1 ! i = ?n" "tab_Complete st2 ! i = ?n" using I(1) by (simp_all add: st1_def st2_def tab_slot)
  have D: "tab_delta st2 i e = (if e = ?n then ClientDelta_zero else tab_delta st i e)" if "rot_ok e" for e
    using tab_delta_put[OF sh(1) rot(2) that, of ClientDelta_zero i] that by (simp add: st1_def st2_def)
  have zero: "delta_ok ClientDelta_zero"
    "pos_ok xs \<Longrightarrow> pos_add xs (cd_Confirmed ClientDelta_zero) = xs" "pos_ok xs \<Longrightarrow> pos_add xs (cd_Attempt ClientDelta_zero) = xs" for xs
    by (simp_all add: ClientDelta_zero_def delta_ok_def)
  have sum: "pos_add (pos_add (pos_add x (f (tab_delta st2 i 0))) (f (tab_delta st2 i 1))) (f (tab_delta st2 i 2)) =
      pos_add (pos_add x (f (tab_delta st i ?p))) (f (tab_delta st i ?c))"
    if "f = cd_Confirmed \<or> f = cd_Attempt" for x f
    using rot_sum[OF rot(1), of x "\<lambda>e. f (tab_delta st2 i e)"] D[OF rot(1)] D[OF rot(2)] D[OF rot(3)] rot that zero by auto
  have cur: "acc_ok A cur" "ao_conf A cur = pos_add (ao_conf A (ts_at ?n (tab_States st) i)) (cd_Confirmed (tab_delta st i ?c))"
    "ao_att A cur = pos_add (ao_att A (ts_at ?n (tab_States st) i)) (cd_Attempt (tab_delta st i ?c))"
    using I(3) rot by (simp_all add: cur_def)
  let ?new = "acc_add A (tab_delta st2 i 2) (acc_add A (tab_delta st2 i 1) (acc_add A (tab_delta st2 i 0) (ts_at ?p (tab_States st) i)))"
  have new: "ao_copy A cur ?new = cur"
    using cur I(5-8) sum[of cd_Confirmed] sum[of cd_Attempt] copy[of cur] setb_id[of cur] by (simp add: acc_ok_def)
  have prep: "tab_prepare A i st1 = tab_put_back i cur st2"
    unfolding tab_prepare_def Let_def C st2_def[symmetric] ts_back_at[OF rot(2)] at[OF rot(2)] at[OF rot(3)]
    using new rot by simp
  let ?st = "tab_put_back i cur st2"
  have run: "tab_flush A i st = ?st"
    using prep rot by (simp add: tab_flush_def tab_apply_def Let_def ts_back_at st1_def cur_def)
  have at': "ts_at e (tab_States ?st) i = (if e = ?c then ts_at ?c (tab_States st) i else cur)" if "rot_ok e" for e
    using tab_state_put[OF sh(2) that, of cur i] at[OF that] C(2) that rot(1) by (auto simp: rot_ok_def next3_def split: if_splits)
  show "tab_inv A (tab_flush A i st) i"
    unfolding run using sh(2) cur D rot at' C(2) I(3)[OF rot(1)] I(4) zero(1) I(5,6) by (auto simp: tab_inv_def Let_def)
  show "tab_view (tab_flush A i st) i = tab_staged A st i"
    unfolding run using at'[OF rot(2)] C(2) rot by (simp add: tab_view_def tab_staged_def Let_def cur_def)
  show "tab_staged A (tab_flush A i st) i = tab_staged A st i"
    unfolding run using at'[OF rot(3)] C(2) rot D[OF rot(2)] acc_add_zero[OF cur(1)] by (simp add: tab_staged_def Let_def cur_def)
  have "tab_frame i st st1" unfolding st1_def
    by (rule tab_frame_trans[OF tab_frame_ops(1)[OF I(1)] tab_frame_ops(3)]) (simp add: I(1))
  then have "tab_frame i st st2" unfolding st2_def by (rule tab_frame_trans[OF _ tab_frame_ops(2)[OF sh(1) rot(2)]])
  then show "tab_frame i st (tab_flush A i st)" unfolding run by (rule tab_frame_trans[OF _ tab_frame_ops(1)[OF sh(2)]])
qed

end

section \<open>Balance updates\<close>

text \<open>\<open>SetClientAssets\<close> of both classes adds to the deltas of the round at the positions that hold the
  asset; \<open>acc_assets\<close> is what that means for the account.\<close>

definition tab_assets :: "'s account_ops \<Rightarrow> nat \<Rightarrow> i64 \<Rightarrow> i64 \<Rightarrow> u16 \<Rightarrow> ('s, 'm) account_table_scheme \<Rightarrow> ('s, 'm) account_table_scheme" where
  "tab_assets A i confirmed attempt assetId st =
     (let c = tab_Complete st ! i; ids = ao_ids A (ts_back c (tab_States st) i); d = tab_delta st i c
      in tab_put_delta i c \<lparr> cd_Confirmed = pos_add_at assetId confirmed ids (cd_Confirmed d),
                             cd_Attempt = pos_add_at assetId attempt ids (cd_Attempt d) \<rparr> st)"

fun acc_assets :: "'s account_ops \<Rightarrow> i64 \<times> i64 \<times> u16 \<Rightarrow> 's \<Rightarrow> 's" where
  "acc_assets A (confirmed, attempt, assetId) s =
     ao_setb A (pos_add_at assetId confirmed (ao_ids A s) (ao_conf A s)) (pos_add_at assetId attempt (ao_ids A s) (ao_att A s)) s"

context account_buffers
begin

lemma assets_ok:
  fixes confirmed attempt :: i64 and assetId :: u16
  assumes inv: "tab_inv A st i"
  defines "st' \<equiv> tab_assets A i confirmed attempt assetId st"
  shows "tab_inv A st' i" "tab_view st' i = tab_view st i" "tab_staged A st' i = acc_assets A (confirmed, attempt, assetId) (tab_staged A st i)"
    "tab_frame i st st'"
proof -
  note I = tab_invD[OF inv]
  let ?c = "tab_Complete st ! i"
  let ?s = "ts_at (next3 ?c) (tab_States st) i" and ?d = "tab_delta st i ?c"
  define d where "d = \<lparr> cd_Confirmed = pos_add_at assetId confirmed (ao_ids A ?s) (cd_Confirmed ?d),
     cd_Attempt = pos_add_at assetId attempt (ao_ids A ?s) (cd_Attempt ?d) \<rparr>"
  have s: "acc_ok A ?s" using I(2,3) by simp
  have d: "delta_ok d" using I(4)[OF I(2)] by (simp add: d_def delta_ok_def)
  have st': "st' = tab_put_delta i ?c d (tab_put_back i ?s st)"
    using I(1,2) by (simp add: st'_def tab_assets_def Let_def ts_back_at tab_put_back_id d_def)
  note put = tab_put_ok[OF inv s d refl refl, folded st']
  have "acc_add A d ?s = acc_assets A (confirmed, attempt, assetId) (acc_add A ?d ?s)"
    using s by (simp add: acc_add_def d_def conf_setb att_setb ids_setb setb_setb pos_add_add_at acc_ok_def)
  with put show "tab_inv A st' i" "tab_view st' i = tab_view st i"
    "tab_staged A st' i = acc_assets A (confirmed, attempt, assetId) (tab_staged A st i)" "tab_frame i st st'"
    by (simp_all add: tab_staged_def Let_def)
qed

end

section \<open>A fresh table\<close>

lemma tab_init_ok:
  assumes "i < n" "acc_ok A a" "acc_add A ClientDelta_zero a = a" "\<And>xs. xs \<in> {States1 ts, States2 ts, States3 ts} \<Longrightarrow> length xs = n \<and> xs ! i = a"
  assumes "tab_States st = ts" "tab_Deltas st = replicate n (replicate 3 ClientDelta_zero)" "tab_Complete st = replicate n 0"
  shows "tab_inv A st i" "tab_view st i = a" "tab_staged A st i = a"
proof -
  have at: "ts_at c (tab_States st) i = a" for c using assms(4,5) by (simp add: ts_at_def)
  have d: "rot_ok c \<Longrightarrow> tab_delta st i c = ClientDelta_zero" for c using assms(1,6) by (auto simp: tab_delta_def rot_ok_def)
  have c: "tab_Complete st ! i = 0" using assms(1,7) by simp
  have sh: "tab_shape st i" using assms by (simp add: tab_shape_def tab_in_def ts_ok_def rot_ok_def)
  have rot: "rot_ok 0" "rot_ok (next3 0)" "rot_ok (next3 (next3 0))" by (simp_all add: rot_ok_def next3_def)
  have z: "delta_ok ClientDelta_zero" "pos_ok xs \<Longrightarrow> pos_add xs (cd_Confirmed ClientDelta_zero) = xs"
    "pos_ok xs \<Longrightarrow> pos_add xs (cd_Attempt ClientDelta_zero) = xs" for xs by (simp_all add: ClientDelta_zero_def delta_ok_def)
  show "tab_view st i = a" "tab_staged A st i = a" using at d c rot assms(3) by (simp_all add: tab_view_def tab_staged_def Let_def)
  show "tab_inv A st i" using sh at d c rot z assms(2) by (simp add: tab_inv_def Let_def acc_ok_def)
qed

end
