(* ===== verification/Account_States.thy ===== *)
theory Account_States
  imports Triple_Buffer Book_Props Consumer
begin

text \<open>
  The accounts of the account service (\<open>account_service/include\<close>: \<open>client_state.hpp\<close>,
  \<open>client_delta.hpp\<close>, \<open>client_states.hpp\<close>, \<open>client_states_writer.hpp\<close>).  The table is indexed by client
  id and keeps, beside the three copies, the sequence number of the last report of each copy.  The hash
  of OpenSSL is the parameter \<open>sha256\<close>.
\<close>

section \<open>Accounts\<close>

record as_ClientState =
  asl_ClientId :: u32
  asl_Key :: "u8 list"
  asl_AssetId :: "u16 list"
  asl_Confirmed :: "i64 list"
  asl_Attempt :: "i64 list"
  asl_Authorized :: int
  asl_Connected :: int

definition as_ClientState_init :: as_ClientState where
  "as_ClientState_init = \<lparr> asl_ClientId = 0, asl_Key = replicate 32 0, asl_AssetId = replicate MaxPositions 0,
     asl_Confirmed = replicate MaxPositions 0, asl_Attempt = replicate MaxPositions 0, asl_Authorized = 0, asl_Connected = 0 \<rparr>"

definition as_ClientState_of :: "u32 \<Rightarrow> i64 \<Rightarrow> as_ClientState" where
  "as_ClientState_of clientId confirmed =
     as_ClientState_init \<lparr> asl_ClientId := clientId, asl_Confirmed := replicate MaxPositions confirmed \<rparr>"

definition as_ClientState_of2 :: "u32 \<Rightarrow> i64 \<Rightarrow> i64 \<Rightarrow> as_ClientState" where
  "as_ClientState_of2 clientId confirmed attempt =
     as_ClientState_init \<lparr> asl_ClientId := clientId, asl_Confirmed := replicate MaxPositions confirmed,
       asl_Attempt := replicate MaxPositions attempt \<rparr>"

fun keys_equal :: "nat \<Rightarrow> u8 list \<Rightarrow> u8 list \<Rightarrow> bool" where
  "keys_equal 0 a b \<longleftrightarrow> True"
| "keys_equal (Suc n) a b \<longleftrightarrow> (if a ! (32 - Suc n) \<noteq> b ! (32 - Suc n) then False else keys_equal n a b)"

definition CheckKey :: "(u8 list \<Rightarrow> u8 list) \<Rightarrow> u8 list \<Rightarrow> as_ClientState \<Rightarrow> bool" where
  "CheckKey sha256 key s = (let keyHash = sha256 key in keys_equal 32 keyHash (asl_Key s))"

definition SetClientId :: "u32 \<Rightarrow> as_ClientState \<Rightarrow> as_ClientState" where
  "SetClientId clientId s = s \<lparr> asl_ClientId := clientId \<rparr>"

definition SetConfirmed :: "i64 \<Rightarrow> as_ClientState \<Rightarrow> as_ClientState" where
  "SetConfirmed confirmed s = s \<lparr> asl_Confirmed := replicate MaxPositions confirmed \<rparr>"

definition SetAttempt :: "i64 \<Rightarrow> as_ClientState \<Rightarrow> as_ClientState" where
  "SetAttempt attempt s = s \<lparr> asl_Attempt := replicate MaxPositions attempt \<rparr>"

definition SetAuthorized :: "int \<Rightarrow> as_ClientState \<Rightarrow> as_ClientState" where
  "SetAuthorized authorized s = s \<lparr> asl_Authorized := authorized \<rparr>"

definition SetConnected :: "int \<Rightarrow> as_ClientState \<Rightarrow> as_ClientState" where
  "SetConnected connected s = s \<lparr> asl_Connected := connected \<rparr>"

fun first_position :: "u16 \<Rightarrow> u16 list \<Rightarrow> i64 list \<Rightarrow> nat \<Rightarrow> nat \<Rightarrow> i64" where
  "first_position assetId ids xs i 0 = - 1"
| "first_position assetId ids xs i (Suc n) = (if ids ! i = assetId then xs ! i else first_position assetId ids xs (Suc i) n)"

definition as_GetAssetConfirmed :: "u16 \<Rightarrow> as_ClientState \<Rightarrow> i64" where
  "as_GetAssetConfirmed assetId s = first_position assetId (asl_AssetId s) (asl_Confirmed s) 0 MaxPositions"

definition as_GetAssetAttempt :: "u16 \<Rightarrow> as_ClientState \<Rightarrow> i64" where
  "as_GetAssetAttempt assetId s = first_position assetId (asl_AssetId s) (asl_Attempt s) 0 MaxPositions"

section \<open>The table\<close>

record as_ClientStates = "as_ClientState account_table" +
  tab_SequenceIds :: "u64 list list"

definition as_ClientStates_of :: "nat \<Rightarrow> as_ClientState list \<Rightarrow> as_ClientStates option" where
  "as_ClientStates_of maxClients states =
     (let vec = states @ drop (length states) (replicate maxClients as_ClientState_init)
      in if length states \<le> maxClients
         then Some \<lparr> tab_States = \<lparr> States1 = vec, States2 = vec, States3 = vec \<rparr>,
                tab_Deltas = replicate maxClients (replicate 3 ClientDelta_zero), tab_Complete = replicate maxClients 0,
                tab_SequenceIds = replicate maxClients (replicate 3 0) \<rparr>
         else None)"

definition as_ClientStates_init :: "nat \<Rightarrow> as_ClientStates" where
  "as_ClientStates_init maxClients =
     (let vec = replicate maxClients as_ClientState_init
      in \<lparr> tab_States = \<lparr> States1 = vec, States2 = vec, States3 = vec \<rparr>,
           tab_Deltas = replicate maxClients (replicate 3 ClientDelta_zero), tab_Complete = replicate maxClients 0,
           tab_SequenceIds = replicate maxClients (replicate 3 0) \<rparr>)"

definition as_GetComplete :: "nat \<Rightarrow> as_ClientStates \<Rightarrow> u8 option" where
  "as_GetComplete clientId st = (if tab_in st clientId then Some (tab_Complete st ! clientId) else None)"

definition as_GetClientState :: "nat \<Rightarrow> as_ClientStates \<Rightarrow> as_ClientState option" where
  "as_GetClientState clientId st =
     (if tab_in st clientId then Some (ts_at (tab_Complete st ! clientId) (tab_States st) clientId) else None)"

text \<open>The sequence number slot behind the published copy.\<close>

definition back_seq :: "u8 \<Rightarrow> nat" where
  "back_seq complete = (if complete = 0 then 1 else if complete = 1 then 2 else 0)"

definition set_seq :: "nat \<Rightarrow> u64 \<Rightarrow> as_ClientStates \<Rightarrow> as_ClientStates" where
  "set_seq i seq st = st \<lparr> tab_SequenceIds := (tab_SequenceIds st)[i := (tab_SequenceIds st ! i)[back_seq (tab_Complete st ! i) := seq]] \<rparr>"

definition as_SetClientState :: "as_ClientState \<Rightarrow> u64 \<Rightarrow> as_ClientStates \<Rightarrow> as_ClientStates option" where
  "as_SetClientState clientState sequenceId st =
     (let clientId = unat (asl_ClientId clientState)
      in if tab_in st clientId
         then Some (let complete = tab_Complete st ! clientId;
                        toChange = ts_back complete (tab_States st) clientId;
                        ref = ts_at complete (tab_States st) clientId;
                        d = tab_delta st clientId complete;
                        d = \<lparr> cd_Confirmed = pos_add (cd_Confirmed d) (pos_diff (asl_Confirmed clientState) (asl_Confirmed ref)),
                              cd_Attempt = pos_add (cd_Attempt d) (pos_diff (asl_Attempt clientState) (asl_Attempt ref)) \<rparr>;
                        toChange = toChange \<lparr> asl_ClientId := asl_ClientId clientState, asl_Key := asl_Key clientState,
                          asl_AssetId := asl_AssetId clientState, asl_Authorized := asl_Authorized clientState,
                          asl_Connected := asl_Connected clientState \<rparr>
                    in set_seq clientId sequenceId (tab_put_delta clientId complete d (tab_put_back clientId toChange st)))
         else None)"

definition as_SetClientAssets :: "nat \<Rightarrow> i64 \<Rightarrow> i64 \<Rightarrow> u16 \<Rightarrow> u64 \<Rightarrow> as_ClientStates \<Rightarrow> as_ClientStates option" where
  "as_SetClientAssets clientId confirmed attempt assetId sequenceId st =
     (if tab_in st clientId
      then Some (let complete = tab_Complete st ! clientId;
                     toChange = ts_back complete (tab_States st) clientId;
                     d = tab_delta st clientId complete
                 in set_seq clientId sequenceId
                      (tab_put_delta clientId complete
                        \<lparr> cd_Confirmed = pos_add_at assetId confirmed (asl_AssetId toChange) (cd_Confirmed d),
                          cd_Attempt = pos_add_at assetId attempt (asl_AssetId toChange) (cd_Attempt d) \<rparr> st))
      else None)"

definition as_FlushTripleBuffer :: "nat \<Rightarrow> as_ClientStates \<Rightarrow> as_ClientStates option" where
  "as_FlushTripleBuffer clientId st =
     (if tab_in st clientId
      then Some (
        let complete = tab_Complete st ! clientId;
            curDelta = tab_delta st clientId complete;
            curState = ts_back complete (tab_States st) clientId;
            curState = curState \<lparr> asl_Confirmed := pos_add (asl_Confirmed curState) (cd_Confirmed curDelta),
                                  asl_Attempt := pos_add (asl_Attempt curState) (cd_Attempt curDelta) \<rparr>;
            st = tab_put_back clientId curState st;
            curSeqId = tab_SequenceIds st ! clientId ! back_seq complete;
            complete = next3 complete;
            st = st \<lparr> tab_Complete := (tab_Complete st)[clientId := complete] \<rparr>;
            st = tab_put_delta clientId complete ClientDelta_zero st;
            curState = ts_at complete (tab_States st) clientId;
            newState = ts_back complete (tab_States st) clientId;
            d0 = tab_delta st clientId 0; d1 = tab_delta st clientId 1; d2 = tab_delta st clientId 2;
            newState = newState \<lparr>
              asl_Confirmed := pos_add (pos_add (pos_add (asl_Confirmed newState) (cd_Confirmed d0)) (cd_Confirmed d1)) (cd_Confirmed d2),
              asl_Attempt := pos_add (pos_add (pos_add (asl_Attempt newState) (cd_Attempt d0)) (cd_Attempt d1)) (cd_Attempt d2),
              asl_AssetId := pos_array (\<lambda>i. asl_AssetId curState ! i),
              asl_ClientId := asl_ClientId curState, asl_Key := asl_Key curState,
              asl_Authorized := asl_Authorized curState, asl_Connected := asl_Connected curState \<rparr>
        in set_seq clientId curSeqId (tab_put_back clientId newState st))
      else None)"

section \<open>The writer\<close>

definition as_apply_report :: "OrderStateReport \<Rightarrow> as_ClientStates \<Rightarrow> as_ClientStates option" where
  "as_apply_report report st = do {
     st \<leftarrow> as_SetClientAssets (unat (rep_ClientId report)) (rep_BoughtDelta report) 0 (rep_BoughtAssetId report)
             (ucast (rep_SequenceId report)) st;
     as_SetClientAssets (unat (rep_ClientId report)) (rep_SoldDelta report) (rep_SoldAttemptDelta report) (rep_SoldAssetId report)
       (ucast (rep_SequenceId report)) st
   }"

definition as_Handle_report :: "OrderStateReport \<Rightarrow> as_ClientStates \<Rightarrow> as_ClientStates option" where
  "as_Handle_report report st = do { st \<leftarrow> as_apply_report report st; as_FlushTripleBuffer (unat (rep_ClientId report)) st }"

fun as_apply_batch :: "OrderStateReport list \<Rightarrow> as_ClientStates \<Rightarrow> as_ClientStates option" where
  "as_apply_batch [] st = Some st"
| "as_apply_batch (report # reports) st = do { st \<leftarrow> as_apply_report report st; as_apply_batch reports st }"

fun as_flush_batch :: "OrderStateReport list \<Rightarrow> nat list \<Rightarrow> as_ClientStates \<Rightarrow> as_ClientStates option" where
  "as_flush_batch [] Touched st = Some st"
| "as_flush_batch (report # reports) Touched st =
     (let clientId = unat (rep_ClientId report)
      in if clientId \<in> set Touched then as_flush_batch reports Touched st
         else do { st \<leftarrow> as_FlushTripleBuffer clientId st; as_flush_batch reports (clientId # Touched) st })"

definition as_Handle_reports :: "OrderStateReport list \<Rightarrow> as_ClientStates \<Rightarrow> as_ClientStates option" where
  "as_Handle_reports reportBatch st = do { st \<leftarrow> as_apply_batch reportBatch st; as_flush_batch reportBatch [] st }"

text \<open>One round of \<open>StartLoop\<close>.\<close>

definition as_Writer_round :: "OrderStateReport outbox \<Rightarrow> as_ClientStates \<Rightarrow> (OrderStateReport outbox \<times> as_ClientStates) option" where
  "as_Writer_round reports st = do {
     (st, reports) \<leftarrow> TryConsume TradeReportReceiveBatchSize (\<lambda>rs st. Option.bind st (as_Handle_reports rs)) reports (Some st);
     st \<leftarrow> st;
     Some (reports, st)
   }"

section \<open>The rotation of the account service\<close>

definition as_ops :: "as_ClientState account_ops" where
  "as_ops = \<lparr> ao_conf = asl_Confirmed, ao_att = asl_Attempt, ao_ids = asl_AssetId,
     ao_setb = (\<lambda>c a s. s \<lparr> asl_Confirmed := c, asl_Attempt := a \<rparr>),
     ao_copy = (\<lambda>cur new. new \<lparr> asl_AssetId := pos_array (\<lambda>i. asl_AssetId cur ! i), asl_ClientId := asl_ClientId cur,
        asl_Key := asl_Key cur, asl_Authorized := asl_Authorized cur, asl_Connected := asl_Connected cur \<rparr>) \<rparr>"

abbreviation as_inv :: "as_ClientStates \<Rightarrow> nat \<Rightarrow> bool" where
  "as_inv \<equiv> tab_inv as_ops"

abbreviation as_view :: "as_ClientStates \<Rightarrow> nat \<Rightarrow> as_ClientState" where
  "as_view \<equiv> tab_view"

abbreviation as_staged :: "as_ClientStates \<Rightarrow> nat \<Rightarrow> as_ClientState" where
  "as_staged \<equiv> tab_staged as_ops"

lemma as_ops_simps [simp]:
  "ao_conf as_ops = asl_Confirmed" "ao_att as_ops = asl_Attempt" "ao_ids as_ops = asl_AssetId"
  "ao_setb as_ops c a s = s \<lparr> asl_Confirmed := c, asl_Attempt := a \<rparr>"
  "ao_copy as_ops cur new = new \<lparr> asl_AssetId := pos_array (\<lambda>i. asl_AssetId cur ! i), asl_ClientId := asl_ClientId cur,
        asl_Key := asl_Key cur, asl_Authorized := asl_Authorized cur, asl_Connected := asl_Connected cur \<rparr>"
  by (simp_all add: as_ops_def)

interpretation asb: account_buffers as_ops
proof
  show "ao_copy as_ops cur new = ao_setb as_ops (ao_conf as_ops new) (ao_att as_ops new) cur"
    if "length (ao_ids as_ops cur) = MaxPositions" for cur new
    using that pos_array_eqI[of "asl_AssetId cur" "\<lambda>i. asl_AssetId cur ! i"] by (intro as_ClientState.equality) simp_all
qed simp_all

fun spec_as_assets :: "(i64 \<times> i64 \<times> u16) \<times> u64 \<Rightarrow> as_ClientState \<Rightarrow> as_ClientState" where
  "spec_as_assets ((confirmed, attempt, assetId), seq) s =
     s \<lparr> asl_Confirmed := pos_add_at assetId confirmed (asl_AssetId s) (asl_Confirmed s),
         asl_Attempt := pos_add_at assetId attempt (asl_AssetId s) (asl_Attempt s) \<rparr>"

fun as_upd :: "nat \<Rightarrow> (i64 \<times> i64 \<times> u16) \<times> u64 \<Rightarrow> as_ClientStates \<Rightarrow> as_ClientStates option" where
  "as_upd i ((confirmed, attempt, assetId), seq) st = as_SetClientAssets i confirmed attempt assetId seq st"

text \<open>Sequence numbers are beside the point of the rotation.\<close>

lemma set_seq_fields [simp]:
  "tab_States (set_seq i q st) = tab_States st" "tab_Deltas (set_seq i q st) = tab_Deltas st" "tab_Complete (set_seq i q st) = tab_Complete st"
  by (simp_all add: set_seq_def)

lemma set_seq_facts [simp]:
  "tab_in (set_seq i q st) j = tab_in st j" "tab_shape (set_seq i q st) j = tab_shape st j" "tab_inv A (set_seq i q st) j = tab_inv A st j"
  "tab_view (set_seq i q st) j = tab_view st j" "tab_staged A (set_seq i q st) j = tab_staged A st j"
  "tab_frame k st0 (set_seq i q st) = tab_frame k st0 st"
  by (simp_all add: tab_in_def tab_shape_def tab_inv_def tab_view_def tab_staged_def tab_delta_def tab_frame_def tab_same_def Let_def)

lemma as_SetClientAssets_table:
  "tab_in st i \<Longrightarrow> as_SetClientAssets i confirmed attempt assetId seq st = Some (set_seq i seq (tab_assets as_ops i confirmed attempt assetId st))"
  by (simp add: as_SetClientAssets_def tab_assets_def Let_def)

lemma as_Flush_table:
  "tab_in st i \<Longrightarrow> as_FlushTripleBuffer i st = Some (set_seq i (tab_SequenceIds st ! i ! back_seq (tab_Complete st ! i)) (tab_flush as_ops i st))"
  by (simp add: as_FlushTripleBuffer_def tab_flush_def tab_apply_def tab_prepare_def tab_publish_def acc_add_def Let_def tab_put_back_def tab_in_def)

lemma as_SetClientAssets_ok:
  assumes "as_inv st i"
  shows "\<exists>st'. as_SetClientAssets i confirmed attempt assetId seq st = Some st' \<and> as_inv st' i \<and>
     as_view st' i = as_view st i \<and> as_staged st' i = spec_as_assets ((confirmed, attempt, assetId), seq) (as_staged st i) \<and> tab_frame i st st'"
  using asb.assets_ok[OF assms, of confirmed attempt assetId] tab_shapeD(1)[OF tab_invD(1)[OF assms]]
  by (simp add: as_SetClientAssets_table)

lemma as_flush_ok:
  assumes "as_inv st i"
  shows "\<exists>st'. as_FlushTripleBuffer i st = Some st' \<and> as_inv st' i \<and>
     as_view st' i = as_staged st i \<and> as_staged st' i = as_staged st i \<and> tab_frame i st st'"
  using asb.flush_ok[OF assms] tab_shapeD(1)[OF tab_invD(1)[OF assms]] by (simp add: as_Flush_table)

text \<open>A registered state replaces the account; changes pending from the same round are added on top.\<close>

lemma as_SetClientState_ok:
  assumes "as_inv st i" "i = unat (asl_ClientId s)" "acc_ok as_ops s"
  shows "\<exists>st'. as_SetClientState s seq st = Some st' \<and> as_inv st' i \<and> as_view st' i = as_view st i \<and> tab_frame i st st' \<and>
     as_staged st' i = s \<lparr> asl_Confirmed := pos_add (asl_Confirmed s) (cd_Confirmed (tab_delta st i (tab_Complete st ! i))),
       asl_Attempt := pos_add (asl_Attempt s) (cd_Attempt (tab_delta st i (tab_Complete st ! i))) \<rparr>"
proof -
  note I = tab_invD[OF assms(1)]
  let ?c = "tab_Complete st ! i"
  let ?ref = "ts_at ?c (tab_States st) i" and ?bk = "ts_at (next3 ?c) (tab_States st) i" and ?d = "tab_delta st i ?c"
  let ?s = "?bk \<lparr> asl_ClientId := asl_ClientId s, asl_Key := asl_Key s, asl_AssetId := asl_AssetId s,
     asl_Authorized := asl_Authorized s, asl_Connected := asl_Connected s \<rparr>"
  let ?d' = "\<lparr> cd_Confirmed = pos_add (cd_Confirmed ?d) (pos_diff (asl_Confirmed s) (asl_Confirmed ?ref)),
     cd_Attempt = pos_add (cd_Attempt ?d) (pos_diff (asl_Attempt s) (asl_Attempt ?ref)) \<rparr>"
  have run: "as_SetClientState s seq st = Some (set_seq i seq (tab_put_delta i ?c ?d' (tab_put_back i ?s st)))"
    using I(1,2) tab_shapeD[OF I(1)] assms(2) by (simp add: as_SetClientState_def Let_def tab_slot)
  have s: "acc_ok as_ops ?s" using I(3)[of "next3 ?c"] I(2) assms(3) by (simp add: acc_ok_def)
  have d: "delta_ok ?d'" by (simp add: delta_ok_def)
  have "pos_add xs (pos_add ds (pos_diff ys xs)) = pos_add ys ds" if "pos_ok ys" for xs ys ds
    using that by (metis pos_add_assoc pos_add_commute pos_add_diff)
  then have "acc_add as_ops ?d' ?s = s \<lparr> asl_Confirmed := pos_add (asl_Confirmed s) (cd_Confirmed ?d), asl_Attempt := pos_add (asl_Attempt s) (cd_Attempt ?d) \<rparr>"
    using I(5,6) assms(3) by (intro as_ClientState.equality) (simp_all add: acc_add_def acc_ok_def)
  with tab_put_ok[OF assms(1) s d] show ?thesis using run by simp
qed

interpretation acs: published_accounts as_inv as_view as_staged as_upd as_FlushTripleBuffer spec_as_assets
proof
  fix st i and d :: "(i64 \<times> i64 \<times> u16) \<times> u64"
  assume inv: "as_inv st i"
  obtain confirmed attempt assetId seq where d: "d = ((confirmed, attempt, assetId), seq)" by (metis prod_cases3 surj_pair)
  from as_SetClientAssets_ok[OF inv, of confirmed attempt assetId seq] obtain st' where
    s: "as_upd i d st = Some st'" "as_inv st' i" "as_view st' i = as_view st i" "as_staged st' i = spec_as_assets d (as_staged st i)"
    and f: "tab_frame i st st'" unfolding d as_upd.simps by blast
  show "\<exists>st'. as_upd i d st = Some st' \<and> (\<forall>j. as_inv st j \<longrightarrow> as_inv st' j \<and> as_view st' j = as_view st j \<and>
      as_staged st' j = (if j = i then spec_as_assets d (as_staged st j) else as_staged st j))"
    using s tab_frameD[OF f] by (metis (full_types))
next
  fix st i assume inv: "as_inv st i"
  from as_flush_ok[OF inv] obtain st' where
    s: "as_FlushTripleBuffer i st = Some st'" "as_inv st' i" "as_view st' i = as_staged st i" "as_staged st' i = as_staged st i"
    and f: "tab_frame i st st'" by blast
  show "\<exists>st'. as_FlushTripleBuffer i st = Some st' \<and> (\<forall>j. as_inv st j \<longrightarrow> as_inv st' j \<and> as_staged st' j = as_staged st j \<and>
      as_view st' j = (if j = i then as_staged st j else as_view st j))"
    using s tab_frameD[OF f] by (metis (full_types))
qed

lemma as_GetClientState_view: "as_inv st i \<Longrightarrow> as_GetClientState i st = Some (as_view st i)"
  using tab_shapeD(1)[OF tab_invD(1)] by (auto simp: as_GetClientState_def tab_view_def)

lemma as_table_of_ok:
  assumes "i < n" "length ss \<le> n" "\<forall>s \<in> set ss. acc_ok as_ops s"
  shows "\<exists>st. as_ClientStates_of n ss = Some st \<and> as_inv st i \<and> as_view st i = (if i < length ss then ss ! i else as_ClientState_init) \<and>
     as_staged st i = as_view st i"
proof -
  let ?vec = "ss @ drop (length ss) (replicate n as_ClientState_init)" and ?a = "if i < length ss then ss ! i else as_ClientState_init"
  let ?ts = "\<lparr> States1 = ?vec, States2 = ?vec, States3 = ?vec \<rparr>"
  let ?st = "\<lparr> tab_States = ?ts, tab_Deltas = replicate n (replicate 3 ClientDelta_zero), tab_Complete = replicate n 0,
                tab_SequenceIds = replicate n (replicate 3 0) \<rparr>"
  have run: "as_ClientStates_of n ss = Some ?st" using assms(2) by (simp add: as_ClientStates_of_def Let_def)
  have init: "acc_ok as_ops as_ClientState_init" by (simp add: acc_ok_def as_ClientState_init_def)
  have ok: "acc_ok as_ops ?a" using assms(3) init by simp
  have z: "acc_add as_ops ClientDelta_zero ?a = ?a" using ok by (rule asb.acc_add_zero)
  have v: "xs \<in> {States1 ?ts, States2 ?ts, States3 ?ts} \<Longrightarrow> length xs = n \<and> xs ! i = ?a" for xs
    using assms(1,2) by (auto simp: nth_append)
  note t = tab_init_ok[OF assms(1) ok z, where ts = ?ts and st = ?st, OF v]
  have "as_inv ?st i" "as_view ?st i = ?a" "as_staged ?st i = ?a" by (rule t; simp)+
  with run show ?thesis by simp
qed

section \<open>Batches of reports\<close>

definition as_report_updates :: "OrderStateReport \<Rightarrow> ((i64 \<times> i64 \<times> u16) \<times> u64) list" where
  "as_report_updates r = [((rep_BoughtDelta r, 0, rep_BoughtAssetId r), ucast (rep_SequenceId r)),
     ((rep_SoldDelta r, rep_SoldAttemptDelta r, rep_SoldAssetId r), ucast (rep_SequenceId r))]"

definition as_routed :: "OrderStateReport list \<Rightarrow> (nat \<times> (i64 \<times> i64 \<times> u16) \<times> u64) list" where
  "as_routed rs = concat (map (\<lambda>r. map (Pair (unat (rep_ClientId r))) (as_report_updates r)) rs)"

lemma as_routed_Cons [simp]: "as_routed [] = []" "as_routed (r # rs) = map (Pair (unat (rep_ClientId r))) (as_report_updates r) @ as_routed rs"
  by (simp_all add: as_routed_def)

lemma as_apply_batch_updates: "as_apply_batch rs st = run_updates as_upd (as_routed rs) st"
  by (induction rs arbitrary: st)
    (auto simp: as_apply_report_def as_report_updates_def split: option.splits Option.bind_splits)

lemma as_flush_batch_each: "as_flush_batch rs T st = flush_each as_FlushTripleBuffer (map (\<lambda>r. unat (rep_ClientId r)) rs) T st"
  by (induction rs arbitrary: T st) (auto simp: Let_def split: option.splits Option.bind_splits)

lemma as_routed_clients: "set (map (\<lambda>r. unat (rep_ClientId r)) rs) = fst ` set (as_routed rs)"
  by (induction rs) (auto simp: as_report_updates_def image_Un)

lemma as_Handle_reports_ok:
  assumes "\<forall>r \<in> set rs. as_inv st (unat (rep_ClientId r))"
  shows "\<exists>st'. as_Handle_reports rs st = Some st' \<and> (\<forall>j. as_inv st j \<longrightarrow> as_inv st' j \<and>
     as_staged st' j = fold spec_as_assets (updates_of j (as_routed rs)) (as_staged st j) \<and>
     as_GetClientState j st' = Some (if j \<in> fst ` set (as_routed rs)
       then fold spec_as_assets (updates_of j (as_routed rs)) (as_staged st j) else as_view st j))"
proof -
  have "\<forall>u \<in> set (as_routed rs). as_inv st (fst u)" using assms by (auto simp: as_routed_def)
  from acs.batch_ok[OF this as_routed_clients] obtain s1 s2 where
    s: "run_updates as_upd (as_routed rs) st = Some s1"
      "flush_each as_FlushTripleBuffer (map (\<lambda>r. unat (rep_ClientId r)) rs) [] s1 = Some s2"
    and v: "\<And>j. as_inv st j \<Longrightarrow> as_inv s2 j \<and> as_staged s2 j = fold spec_as_assets (updates_of j (as_routed rs)) (as_staged st j) \<and>
      as_view s2 j = (if j \<in> fst ` set (as_routed rs) then fold spec_as_assets (updates_of j (as_routed rs)) (as_staged st j) else as_view st j)"
    by blast
  then show ?thesis using as_GetClientState_view
    by (intro exI[of _ s2]) (simp add: as_Handle_reports_def as_apply_batch_updates as_flush_batch_each)
qed

section \<open>Settlement\<close>

text \<open>The holding of an asset in an account: the positions that carry its id.\<close>

definition holding :: "u16 \<Rightarrow> as_ClientState \<Rightarrow> int" where
  "holding a s = (\<Sum>i \<in> {i. i < MaxPositions \<and> asl_AssetId s ! i = a}. asl_Confirmed s ! i)"

definition holds_once :: "u16 \<Rightarrow> as_ClientState \<Rightarrow> bool" where
  "holds_once a s \<longleftrightarrow> (\<exists>k < MaxPositions. \<forall>i < MaxPositions. asl_AssetId s ! i = a \<longleftrightarrow> i = k)"

lemma holding_at:
  assumes "k < MaxPositions" "\<forall>i < MaxPositions. asl_AssetId s ! i = a \<longleftrightarrow> i = k"
  shows "holding a s = asl_Confirmed s ! k"
proof -
  have "{i. i < MaxPositions \<and> asl_AssetId s ! i = a} = {k}" using assms by auto
  then show ?thesis by (simp add: holding_def)
qed

lemma holding_update:
  assumes "holds_once a s"
  shows "holding a (spec_as_assets ((d, t, b), q) s) mod 2 ^ 64 = (holding a s + (if b = a then d else 0)) mod 2 ^ 64"
    "holds_once a (spec_as_assets ((d, t, b), q) s)"
proof -
  from assms obtain k where k: "k < MaxPositions" "\<forall>i < MaxPositions. asl_AssetId s ! i = a \<longleftrightarrow> i = k" by (auto simp: holds_once_def)
  let ?s = "spec_as_assets ((d, t, b), q) s"
  have k': "\<forall>i < MaxPositions. asl_AssetId ?s ! i = a \<longleftrightarrow> i = k" using k(2) by simp
  have "asl_AssetId s ! k = a" using k by simp
  then have "asl_Confirmed ?s ! k = (if b = a then wrap64 (asl_Confirmed s ! k + d) else asl_Confirmed s ! k)"
    using k(1) by (auto simp: pos_add_at_def)
  then show "holding a ?s mod 2 ^ 64 = (holding a s + (if b = a then d else 0)) mod 2 ^ 64"
    unfolding holding_at[OF k] holding_at[OF k(1) k'] using wrap64_mod by simp
  show "holds_once a ?s" using k(1) k' unfolding holds_once_def by blast
qed

definition update_flow :: "u16 \<Rightarrow> ((i64 \<times> i64 \<times> u16) \<times> u64) list \<Rightarrow> int" where
  "update_flow a us = (\<Sum>((d, t, b), q)\<leftarrow>us. if b = a then d else 0)"

lemma holding_updates:
  assumes "holds_once a s"
  shows "holding a (fold spec_as_assets us s) mod 2 ^ 64 = (holding a s + update_flow a us) mod 2 ^ 64 \<and> holds_once a (fold spec_as_assets us s)"
  using assms
proof (induction us arbitrary: s)
  case Nil
  then show ?case by (simp add: update_flow_def)
next
  case (Cons u us)
  obtain d t b q where u: "u = ((d, t, b), q)" by (metis prod_cases3 surj_pair)
  note H = holding_update[OF Cons.prems, of d t b q]
  let ?e = "if b = a then d else 0"
  have "holding a (fold spec_as_assets us (spec_as_assets u s)) mod 2 ^ 64 = (holding a (spec_as_assets u s) + update_flow a us) mod 2 ^ 64"
    using Cons.IH[of "spec_as_assets u s"] H(2) unfolding u by blast
  also have "\<dots> = (holding a s + ?e + update_flow a us) mod 2 ^ 64"
    using mod_add_cong[OF H(1) refl, of "update_flow a us"] unfolding u by simp
  finally show ?case using Cons.IH[of "spec_as_assets u s"] H(2) unfolding u by (simp add: update_flow_def add.assoc)
qed

lemma update_flow_routed:
  assumes "finite C" "\<forall>r \<in> set rs. unat (rep_ClientId r) \<in> C"
  shows "(\<Sum>j \<in> C. update_flow a (updates_of j (as_routed rs))) = flow a rs"
  using assms(2)
proof (induction rs)
  case Nil
  then show ?case by (simp add: update_flow_def flow_def)
next
  case (Cons r rs)
  let ?c = "unat (rep_ClientId r)"
  have one: "updates_of j (as_routed (r # rs)) = (if j = ?c then as_report_updates r else []) @ updates_of j (as_routed rs)" for j
    by (simp add: as_report_updates_def)
  have fl: "update_flow a (us @ vs) = update_flow a us + update_flow a vs" for us vs by (simp add: update_flow_def)
  have r: "update_flow a (as_report_updates r) = report_flow a r" by (simp add: update_flow_def as_report_updates_def report_flow_def)
  have nil: "update_flow a [] = 0" by (simp add: update_flow_def)
  have "(\<Sum>j \<in> C. update_flow a (if j = ?c then as_report_updates r else [])) = (\<Sum>j \<in> C. if j = ?c then report_flow a r else 0)"
    by (rule sum.cong) (simp_all add: r nil)
  also have "\<dots> = report_flow a r" using assms(1) Cons.prems by simp
  finally show ?case using Cons by (simp only: one fl sum.distrib) (simp add: flow_def)
qed

lemma mod_sum_cong:
  assumes "finite C" "\<forall>j \<in> C. (f j :: int) mod m = g j mod m"
  shows "(\<Sum>j \<in> C. f j) mod m = (\<Sum>j \<in> C. g j) mod m"
  using assms by (induction C) (auto intro: mod_add_cong)

definition settled :: "u16 \<Rightarrow> nat set \<Rightarrow> as_ClientStates \<Rightarrow> bool" where
  "settled a C st \<longleftrightarrow> (\<forall>j \<in> C. as_inv st j \<and> as_staged st j = as_view st j \<and> holds_once a (as_view st j))"

definition total_holding :: "u16 \<Rightarrow> nat set \<Rightarrow> as_ClientStates \<Rightarrow> int" where
  "total_holding a C st = (\<Sum>j \<in> C. holding a (the (as_GetClientState j st)))"

lemma settle_batch:
  assumes C: "finite C" "settled a C st" and rs: "\<forall>r \<in> set rs. unat (rep_ClientId r) \<in> C"
  shows "\<exists>st'. as_Handle_reports rs st = Some st' \<and> settled a C st' \<and>
    total_holding a C st' mod 2 ^ 64 = (total_holding a C st + flow a rs) mod 2 ^ 64"
proof -
  let ?u = "\<lambda>j. updates_of j (as_routed rs)"
  have J: "as_inv st j" "as_staged st j = as_view st j" "holds_once a (as_view st j)" if "j \<in> C" for j
    using C(2) that by (auto simp: settled_def)
  from as_Handle_reports_ok[of rs st] J(1) rs obtain st' where run: "as_Handle_reports rs st = Some st'" and
    v: "\<And>j. as_inv st j \<Longrightarrow> as_inv st' j \<and> as_staged st' j = fold spec_as_assets (?u j) (as_staged st j) \<and>
       as_GetClientState j st' = Some (if j \<in> fst ` set (as_routed rs)
       then fold spec_as_assets (?u j) (as_staged st j) else as_view st j)" by blast
  have none: "?u j = []" if "j \<notin> fst ` set (as_routed rs)" for j
    using that by (auto simp: updates_of_def filter_empty_conv)
  have view: "as_GetClientState j st' = Some (fold spec_as_assets (?u j) (as_view st j))" if "j \<in> C" for j
    using v[OF J(1)[OF that]] J(2)[OF that] none[of j] by auto
  have each: "holding a (the (as_GetClientState j st')) mod 2 ^ 64 =
      (holding a (the (as_GetClientState j st)) + update_flow a (?u j)) mod 2 ^ 64" if "j \<in> C" for j
    using holding_updates[OF J(3)[OF that]] as_GetClientState_view[OF J(1)[OF that]] view[OF that] by simp
  have "settled a C st'" unfolding settled_def
  proof
    fix j assume j: "j \<in> C"
    have inv: "as_inv st' j" and stg: "as_staged st' j = fold spec_as_assets (?u j) (as_view st j)"
      using v[OF J(1)[OF j]] J(2)[OF j] by auto
    moreover have "as_view st' j = fold spec_as_assets (?u j) (as_view st j)"
      using as_GetClientState_view[OF inv] view[OF j] by simp
    ultimately show "as_inv st' j \<and> as_staged st' j = as_view st' j \<and> holds_once a (as_view st' j)"
      using holding_updates[OF J(3)[OF j]] by simp
  qed
  moreover have "total_holding a C st' mod 2 ^ 64 =
      (\<Sum>j \<in> C. holding a (the (as_GetClientState j st)) + update_flow a (?u j)) mod 2 ^ 64"
    unfolding total_holding_def using each C(1) by (intro mod_sum_cong) auto
  moreover have "(\<Sum>j \<in> C. holding a (the (as_GetClientState j st)) + update_flow a (?u j)) = total_holding a C st + flow a rs"
    by (simp only: sum.distrib update_flow_routed[OF C(1) rs] total_holding_def)
  ultimately show ?thesis using run by auto
qed

text \<open>The batches the consumer hands over, one call of \<open>Handle\<close> each.\<close>

fun as_Handle_batches :: "OrderStateReport list list \<Rightarrow> as_ClientStates \<Rightarrow> as_ClientStates option" where
  "as_Handle_batches [] st = Some st"
| "as_Handle_batches (rs # bs) st = do { st' \<leftarrow> as_Handle_reports rs st; as_Handle_batches bs st' }"

lemma settle_batches:
  assumes "finite C" "settled a C st" "\<forall>r \<in> set (concat bs). unat (rep_ClientId r) \<in> C"
  shows "\<exists>st'. as_Handle_batches bs st = Some st' \<and> settled a C st' \<and>
    total_holding a C st' mod 2 ^ 64 = (total_holding a C st + flow a (concat bs)) mod 2 ^ 64"
  using assms(2,3)
proof (induction bs arbitrary: st)
  case Nil
  then show ?case by (simp add: flow_def)
next
  case (Cons rs bs)
  from settle_batch[OF assms(1) Cons.prems(1), of rs] Cons.prems(2) obtain s1 where
    s1: "as_Handle_reports rs st = Some s1" "settled a C s1"
      "total_holding a C s1 mod 2 ^ 64 = (total_holding a C st + flow a rs) mod 2 ^ 64" by auto
  from Cons.IH[OF s1(2)] Cons.prems(2) obtain st' where
    st': "as_Handle_batches bs s1 = Some st'" "settled a C st'"
      "total_holding a C st' mod 2 ^ 64 = (total_holding a C s1 + flow a (concat bs)) mod 2 ^ 64" by auto
  have "total_holding a C st' mod 2 ^ 64 = (total_holding a C st + flow a rs + flow a (concat bs)) mod 2 ^ 64"
    unfolding st'(3) by (rule mod_add_cong[OF s1(3) refl])
  with s1(1) st'(1,2) show ?case by (simp add: add.assoc)
qed

end
