(* ===== verification/Settlement.thy ===== *)
theory Settlement
  imports Matching_Props Account_States
begin

text \<open>
  The path of a trade from the matching engine to the account service: the reports an order publishes name
  only clients of the order itself and of orders resting in the book, and move every asset by zero in total,
  so the accounts of these clients, settled batch by batch, keep their total.
\<close>

section \<open>The clients that reports name\<close>

text \<open>\<open>named_by K n s\<close>: the resting orders of \<open>s\<close>, and its reports from number \<open>n\<close> on, belong to clients in \<open>K\<close>.\<close>

definition named_by :: "u32 set \<Rightarrow> nat \<Rightarrow> abook \<Rightarrow> bool" where
  "named_by K n s \<longleftrightarrow> (\<forall>o' \<in> set (ab_Bids s) \<union> set (ab_Asks s). ord_ClientId o' \<in> K) \<and>
     n \<le> length (ab_Reports s) \<and> (\<forall>r \<in> set (drop n (ab_Reports s)). rep_ClientId r \<in> K)"

lemma named_by_change:
  assumes "named_by K n s" "set (ab_Bids s') \<union> set (ab_Asks s') \<subseteq> X" "\<forall>o' \<in> X. ord_ClientId o' \<in> K"
    "ab_Reports s' = ab_Reports s @ rs" "\<forall>r \<in> set rs. rep_ClientId r \<in> K"
  shows "named_by K n s'"
  using assms by (auto simp: named_by_def)

lemma client_reports [simp]:
  "rep_ClientId (buyer_report asset t p o' q) = ord_ClientId o'" "rep_ClientId (seller_report asset t p o' q) = ord_ClientId o'"
  "rep_ClientId (FillReport bd sd sa q c i k ba sa' st) = c" "ord_ClientId (less_amount t o') = ord_ClientId o'"
  by (simp_all add: buyer_report_def seller_report_def FillReport_def less_amount_def)

lemma client_after_trade: "o' \<in> set (after_trade t offer rest) \<Longrightarrow> ord_ClientId o' \<in> ord_ClientId ` set (offer # rest)"
  by (auto simp: after_trade_def split: if_splits)

lemma sweep_buy_named:
  assumes "sweep_buy n asset order locked s = (order', locked', s')" "named_by K k s" "ord_ClientId order \<in> K"
  shows "named_by K k s' \<and> ord_ClientId order' \<in> K \<and> ord_Type order' = ord_Type order"
proof (rule sweep_buy_inv[where P = "\<lambda>o' s'. named_by K k s' \<and> ord_ClientId o' \<in> K \<and> ord_Type o' = ord_Type order", OF _ _ _ assms(1)])
  fix o1 :: Order and s1 offer rest locked o2 locked1 s2
  assume P: "named_by K k s1 \<and> ord_ClientId o1 \<in> K \<and> ord_Type o1 = ord_Type order" and a: "ab_Asks s1 = offer # rest"
    and t: "trade_buy asset o1 locked offer rest s1 = (o2, locked1, s2)"
  note T = trade_buy_simps[OF t]
  have "\<forall>o' \<in> set (ab_Bids s2) \<union> set (ab_Asks s2). ord_ClientId o' \<in> K"
    using P a client_after_trade unfolding T(2,3) by (fastforce simp: named_by_def)
  moreover have "ord_ClientId offer \<in> K" using P a by (simp add: named_by_def)
  ultimately show "named_by K k s2 \<and> ord_ClientId o2 \<in> K \<and> ord_Type o2 = ord_Type order"
    using P named_by_change[OF _ subset_refl _ T(8)] by (simp add: T(1) less_amount_def)
qed (use assms(2,3) in \<open>auto simp: named_by_def\<close>)

lemma sweep_sell_named:
  assumes "sweep_sell n asset order locked s = (order', locked', s')" "named_by K k s" "ord_ClientId order \<in> K"
  shows "named_by K k s' \<and> ord_ClientId order' \<in> K \<and> ord_Type order' = ord_Type order"
proof (rule sweep_sell_inv[where P = "\<lambda>o' s'. named_by K k s' \<and> ord_ClientId o' \<in> K \<and> ord_Type o' = ord_Type order", OF _ _ _ assms(1)])
  fix o1 :: Order and s1 offer rest locked o2 locked1 s2
  assume P: "named_by K k s1 \<and> ord_ClientId o1 \<in> K \<and> ord_Type o1 = ord_Type order" and a: "ab_Bids s1 = offer # rest"
    and t: "trade_sell asset o1 locked offer rest s1 = (o2, locked1, s2)"
  note T = trade_sell_simps[OF t]
  have "\<forall>o' \<in> set (ab_Bids s2) \<union> set (ab_Asks s2). ord_ClientId o' \<in> K"
    using P a client_after_trade unfolding T(2,3) by (fastforce simp: named_by_def)
  moreover have "ord_ClientId offer \<in> K" using P a by (simp add: named_by_def)
  ultimately show "named_by K k s2 \<and> ord_ClientId o2 \<in> K \<and> ord_Type o2 = ord_Type order"
    using P named_by_change[OF _ subset_refl _ T(8)] by (simp add: T(1) less_amount_def)
qed (use assms(2,3) in \<open>auto simp: named_by_def\<close>)

lemma spec_add_named:
  assumes "named_by K n s" "ord_ClientId order \<in> K"
  shows "named_by K n (spec_add_buy asset order s)" "named_by K n (spec_add_sell asset order s)"
  using assms by (auto simp: named_by_def spec_add_buy_def spec_add_sell_def Let_def)

lemma emit_named: "named_by K n s \<Longrightarrow> rep_ClientId (r (ab_ReportSeq s)) \<in> K \<Longrightarrow> named_by K n (emit_report r s)"
  by (auto simp: named_by_def)

lemma spec_fill_named:
  assumes "named_by K n s" "ord_ClientId order \<in> K"
  shows "named_by K n (spec_fill_buy asset order s)" "named_by K n (spec_fill_sell asset order s)"
proof -
  obtain o1 l1 s1 where b: "sweep_buy (Suc (length (ab_Asks s))) asset order (wrap64 (uint (ord_Amount order) * ord_Price order)) s = (o1, l1, s1)"
    by (metis prod_cases3)
  show "named_by K n (spec_fill_buy asset order s)"
    using sweep_buy_named[OF b assms] spec_add_named emit_named unfolding spec_fill_buy_def b by simp
  obtain o2 l2 s2 where a: "sweep_sell (Suc (length (ab_Bids s))) asset order (uint (ord_Amount order)) s = (o2, l2, s2)"
    by (metis prod_cases3)
  show "named_by K n (spec_fill_sell asset order s)"
    using sweep_sell_named[OF a assms] spec_add_named emit_named unfolding spec_fill_sell_def a by simp
qed

lemma spec_cancel_named:
  assumes "named_by K n s" "ord_ClientId target \<in> K"
  shows "named_by K n (spec_cancel_buy asset target s)" "named_by K n (spec_cancel_sell asset target s)" "named_by K n (spec_reject target s)"
  using assms by (auto simp: named_by_def spec_cancel_buy_def spec_cancel_sell_def spec_reject_def Let_def remove_id_def)

lemma spec_handle_named:
  assumes "named_by K n s" "ord_ClientId order \<in> K"
  shows "named_by K n (spec_handle asset order s)"
proof (cases "find (is_target order) (ab_Bids s @ ab_Asks s)")
  case None
  then show ?thesis using spec_fill_named[OF assms] spec_add_named[OF assms] spec_cancel_named[OF assms] assms(1)
    by (simp add: spec_handle_def spec_execute_def)
next
  case (Some target)
  then have "ord_ClientId target = ord_ClientId order" by (auto simp: find_Some_iff is_target_def)
  then show ?thesis using Some assms spec_fill_named[OF assms] spec_add_named[OF assms] spec_cancel_named[OF assms(1)]
    by (simp add: spec_handle_def spec_execute_def)
qed

section \<open>Handling an order and settling it\<close>

definition book_clients :: "Order list \<Rightarrow> nat set" where
  "book_clients os = (\<lambda>o'. unat (ord_ClientId o')) ` set os"

lemma handle_order_named:
  assumes "engine_inv b LB LA" "resources order b" "ord_Action order = CANCEL \<longrightarrow> side_matches order b"
  shows "\<exists>b' LB' LA' rs us. handle_order order b = Some b' \<and> engine_inv b' LB' LA' \<and>
    published (book_abs b LB LA) (book_abs b' LB' LA') rs us \<and>
    (\<forall>r \<in> set rs. unat (rep_ClientId r) \<in> book_clients (order # ab_Bids (book_abs b LB LA) @ ab_Asks (book_abs b LB LA)))"
proof -
  let ?s = "book_abs b LB LA"
  let ?os = "order # ab_Bids ?s @ ab_Asks ?s"
  let ?K = "ord_ClientId ` set ?os"
  from handle_order_ok[OF assms] obtain b' LB' LA' where
    b': "handle_order order b = Some b'" "engine_inv b' LB' LA'" "book_abs b' LB' LA' = spec_handle (asset16 b) order ?s" by blast
  obtain rs us where p: "published ?s (book_abs b' LB' LA') rs us"
    using spec_handle_published assms(1) b'(3) unfolding engine_inv_def by metis
  have "named_by ?K (length (ab_Reports ?s)) ?s" by (simp add: named_by_def)
  from spec_handle_named[OF this, of order "asset16 b"] have "\<forall>r \<in> set rs. rep_ClientId r \<in> ?K"
    using p unfolding b'(3)[symmetric] by (simp add: named_by_def published_def)
  then have "\<forall>r \<in> set rs. unat (rep_ClientId r) \<in> book_clients ?os" unfolding book_clients_def by (fastforce simp: image_iff)
  with b' p show ?thesis by blast
qed

lemma settle_published:
  assumes C: "finite C" "settled a C st" and p: "published s s' rs us" and rs: "\<forall>r \<in> set rs. unat (rep_ClientId r) \<in> C"
    and bs: "concat bs = rs"
  shows "\<exists>st'. as_Handle_batches bs st = Some st' \<and> settled a C st' \<and>
    total_holding a C st' mod 2 ^ 64 = total_holding a C st mod 2 ^ 64"
proof -
  have "flow a rs mod 2 ^ 64 = 0" using p by (simp add: published_def)
  then have "(total_holding a C st + flow a rs) mod 2 ^ 64 = total_holding a C st mod 2 ^ 64"
    unfolding mod_add_eq[symmetric, of _ "flow a rs"] by simp
  then show ?thesis using settle_batches[OF C, of bs] rs bs by metis
qed

section \<open>Accounts that hold every asset once\<close>

definition holder :: "u32 \<Rightarrow> as_ClientState" where
  "holder client = (as_ClientState_of client 500) \<lparr> asl_AssetId := map of_nat [0..<MaxPositions] \<rparr>"

lemma holder_ok: "acc_ok as_ops (holder c)" "k < MaxPositions \<Longrightarrow> holds_once (of_nat k) (holder c)"
proof -
  show "acc_ok as_ops (holder c)"
    by (simp add: acc_ok_def holder_def as_ClientState_of_def as_ClientState_init_def pos_ok_def in_i64_def)
  assume k: "k < MaxPositions"
  have "(of_nat i :: u16) = of_nat k \<longleftrightarrow> i = k" if "i < MaxPositions" for i
    using that k by (simp add: MaxPositions_def word_of_nat_eq_iff take_bit_nat_eq_self)
  then show "holds_once (of_nat k) (holder c)" using k unfolding holds_once_def
    by (intro exI[of _ k]) (simp add: holder_def)
qed

lemma holders_settled:
  assumes "k < MaxPositions"
  shows "\<exists>st. as_ClientStates_of 3 (map holder [0, 1, 2]) = Some st \<and> settled (of_nat k) {..<3} st"
proof -
  let ?ss = "map holder [0, 1, 2]"
  have "\<exists>st. as_ClientStates_of 3 ?ss = Some st \<and> as_inv st i \<and> as_view st i = ?ss ! i \<and> as_staged st i = as_view st i" if "i < 3" for i
    using as_table_of_ok[OF that, of ?ss] holder_ok(1) that by auto
  moreover have "holds_once (of_nat k) (?ss ! i)" if "i < 3" for i
    using holder_ok(2)[OF assms] that nth_mem[of i ?ss] by auto
  ultimately show ?thesis unfolding settled_def by (metis lessThan_iff option.inject zero_less_numeral)
qed

end
