(* ===== verification/Sockets.thy ===== *)
theory Sockets
  imports Prelude
begin

text \<open>
  What the components see of the operating system's stream sockets.  A socket to read from is the list of
  what its peer and the kernel will do, in order: data arrives, a call is interrupted or fails, the peer
  closes.  \<open>recv\<close> takes at most the requested number of bytes from the first arrival and leaves the rest; a
  socket with nothing left answers \<open>EAGAIN\<close> (all sockets are non-blocking), and a closed one stays closed.
  As in POSIX, a call that does not fail leaves \<open>errno\<close> as it was.
\<close>

datatype errno = EINTR | EAGAIN | EWOULDBLOCK | EPIPE | ECONNRESET | OtherErrno

datatype arrival = Bytes "u8 list" | Closed | Failed errno

definition retriable :: "errno \<Rightarrow> bool" where
  "retriable e \<longleftrightarrow> e = EAGAIN \<or> e = EWOULDBLOCK \<or> e = EINTR"

text \<open>The result of \<open>recv\<close>: the return value, the bytes copied and \<open>errno\<close> afterwards.\<close>

fun recv :: "nat \<Rightarrow> arrival list \<Rightarrow> errno \<Rightarrow> int \<times> u8 list \<times> errno \<times> arrival list" where
  "recv n [] e = (- 1, [], EAGAIN, [])"
| "recv n (Bytes bs # as) e = (int (length (take n bs)), take n bs, e, if length bs \<le> n then as else Bytes (drop n bs) # as)"
| "recv n (Closed # as) e = (0, [], e, Closed # as)"
| "recv n (Failed e' # as) e = (- 1, [], e', as)"

end
