(* ===== verification/Small_Buffers.thy ===== *)
theory Small_Buffers
  imports Spsc_Queue
begin

text \<open>
  The small fixed-size containers of \<open>market_server/common/include\<close> that carry data between sockets
  and queues: \<open>object_batch.hpp\<close>, \<open>object_buffer.hpp\<close>, \<open>bytes_buffer.hpp\<close>,
  \<open>sequence_ring_buffer.hpp\<close> and \<open>versioned_fd.hpp\<close>.  Memory of the containers is a list of bytes (or
  of pointers) of the template's size; a copy that would leave that memory is \<open>None\<close>.
\<close>

section \<open>Byte copies\<close>

text \<open>\<open>memcpy (dst + off) bs\<close>.\<close>

definition overlay :: "nat \<Rightarrow> 'a list \<Rightarrow> 'a list \<Rightarrow> 'a list" where
  "overlay off bs dst = take off dst @ bs @ drop (off + length bs) dst"

lemma length_overlay [simp]: "off + length bs \<le> length dst \<Longrightarrow> length (overlay off bs dst) = length dst"
  by (simp add: overlay_def)

lemma take_overlay [simp]: "off + length bs \<le> length dst \<Longrightarrow> take (off + length bs) (overlay off bs dst) = take off dst @ bs"
  by (simp add: overlay_def)

lemma overlay_0: "overlay 0 bs dst = bs @ drop (length bs) dst"
  by (simp add: overlay_def)

section \<open>Batches\<close>

record 'a ObjectBatch =
  bat_Data :: "'a list"
  bat_Size :: nat
  bat_Fd :: u32
  bat_Auth :: u8

definition ObjectBatch_init :: "nat \<Rightarrow> 'a \<Rightarrow> 'a ObjectBatch" where
  "ObjectBatch_init BatchSize d = \<lparr> bat_Data = replicate BatchSize d, bat_Size = 0, bat_Fd = 0, bat_Auth = 0 \<rparr>"

definition setSize :: "nat \<Rightarrow> 'a ObjectBatch \<Rightarrow> 'a ObjectBatch" where
  "setSize size_t b = b \<lparr> bat_Size := size_t \<rparr>"

definition setFd :: "u32 \<Rightarrow> 'a ObjectBatch \<Rightarrow> 'a ObjectBatch" where
  "setFd fd b = b \<lparr> bat_Fd := fd \<rparr>"

definition getSize :: "'a ObjectBatch \<Rightarrow> nat" where
  "getSize b = bat_Size b"

definition getFd :: "'a ObjectBatch \<Rightarrow> u32" where
  "getFd b = bat_Fd b"

definition batch_at :: "'a ObjectBatch \<Rightarrow> nat \<Rightarrow> 'a option" where
  "batch_at b idx = (if idx < length (bat_Data b) then Some (bat_Data b ! idx) else None)"

section \<open>The buffer of one partial object\<close>

record ObjectBuffer =
  obf_Buffer :: "u8 list"
  obf_BufferSize :: nat

definition ObjectBuffer_init :: "nat \<Rightarrow> ObjectBuffer" where
  "ObjectBuffer_init sizeofT = \<lparr> obf_Buffer = replicate sizeofT 0, obf_BufferSize = 0 \<rparr>"

definition clearBuffer :: "ObjectBuffer \<Rightarrow> ObjectBuffer" where
  "clearBuffer b = b \<lparr> obf_BufferSize := 0 \<rparr>"

definition addBytes :: "u8 list \<Rightarrow> ObjectBuffer \<Rightarrow> bool \<times> ObjectBuffer" where
  "addBytes bs b =
     (if obf_BufferSize b + length bs > length (obf_Buffer b) then (False, b)
      else (True, b \<lparr> obf_Buffer := overlay (obf_BufferSize b) bs (obf_Buffer b),
                      obf_BufferSize := obf_BufferSize b + length bs \<rparr>))"

definition readBytes :: "nat \<Rightarrow> ObjectBuffer \<Rightarrow> (u8 list \<times> ObjectBuffer) option" where
  "readBytes size_t b =
     (if size_t \<le> obf_BufferSize b \<and> obf_BufferSize b \<le> length (obf_Buffer b)
      then Some (take size_t (obf_Buffer b),
        b \<lparr> obf_BufferSize := obf_BufferSize b - size_t,
            obf_Buffer := overlay 0 (take (obf_BufferSize b - size_t) (drop size_t (obf_Buffer b))) (obf_Buffer b) \<rparr>)
      else None)"

definition obf_inv :: "nat \<Rightarrow> ObjectBuffer \<Rightarrow> bool" where
  "obf_inv sizeofT b \<longleftrightarrow> length (obf_Buffer b) = sizeofT \<and> obf_BufferSize b \<le> sizeofT"

definition obf_bytes :: "ObjectBuffer \<Rightarrow> u8 list" where
  "obf_bytes b = take (obf_BufferSize b) (obf_Buffer b)"

section \<open>The resend buffer\<close>

record BytesBuffer =
  byb_Buffer :: "u8 list"
  byb_Size :: u64

definition BytesBuffer_init :: "nat \<Rightarrow> BytesBuffer" where
  "BytesBuffer_init BufferSize = \<lparr> byb_Buffer = replicate BufferSize 0, byb_Size = 0 \<rparr>"

text \<open>\<open>Add\<close> counts the bytes and leaves the memory as it is.\<close>

definition BytesBuffer_Add :: "u8 list \<Rightarrow> BytesBuffer \<Rightarrow> BytesBuffer" where
  "BytesBuffer_Add data b = b \<lparr> byb_Size := byb_Size b + of_nat (length data) \<rparr>"

definition BytesBuffer_Shift :: "u64 \<Rightarrow> BytesBuffer \<Rightarrow> BytesBuffer option" where
  "BytesBuffer_Shift size_t b =
     (let Size = byb_Size b - size_t
      in if unat size_t + unat Size \<le> length (byb_Buffer b)
         then Some (b \<lparr> byb_Size := Size,
                        byb_Buffer := overlay 0 (take (unat Size) (drop (unat size_t) (byb_Buffer b))) (byb_Buffer b) \<rparr>)
         else None)"

definition BytesBuffer_Read :: "u64 \<Rightarrow> BytesBuffer \<Rightarrow> (u8 list \<times> BytesBuffer) option" where
  "BytesBuffer_Read size_t b =
     (if unat size_t \<le> length (byb_Buffer b)
      then (case BytesBuffer_Shift size_t b of None \<Rightarrow> None | Some b' \<Rightarrow> Some (take (unat size_t) (byb_Buffer b), b'))
      else None)"

definition BytesBuffer_Clear :: "BytesBuffer \<Rightarrow> BytesBuffer" where
  "BytesBuffer_Clear b = b \<lparr> byb_Size := 0 \<rparr>"

definition BytesBuffer_CanAdd :: "u64 \<Rightarrow> BytesBuffer \<Rightarrow> bool" where
  "BytesBuffer_CanAdd size_t b \<longleftrightarrow> of_nat (length (byb_Buffer b)) - byb_Size b \<ge> size_t"

definition BytesBuffer_GetData :: "BytesBuffer \<Rightarrow> u8 list" where
  "BytesBuffer_GetData b = byb_Buffer b"

definition BytesBuffer_GetSize :: "BytesBuffer \<Rightarrow> u64" where
  "BytesBuffer_GetSize b = byb_Size b"

section \<open>The ring indexed by sequence numbers\<close>

text \<open>The slots hold pointers; \<open>SequenceId\<close> reads the field of the object a pointer refers to.\<close>

record SequenceRingBuffer =
  srb_Buffer :: "ptr option list"
  srb_Tail :: u32

definition SequenceRingBuffer_init :: "nat \<Rightarrow> SequenceRingBuffer" where
  "SequenceRingBuffer_init Size = \<lparr> srb_Buffer = replicate Size None, srb_Tail = 0 \<rparr>"

definition GetSlot :: "(ptr \<Rightarrow> u32) \<Rightarrow> u64 \<Rightarrow> SequenceRingBuffer \<Rightarrow> ptr option" where
  "GetSlot SequenceId sequenceId r =
     (let idx = unat (sequenceId AND (of_nat (length (srb_Buffer r)) - 1))
      in (case srb_Buffer r ! idx of
            None \<Rightarrow> None
          | Some p \<Rightarrow> if sequenceId = ucast (SequenceId p) then Some p else None))"

definition AddSlot :: "(ptr \<Rightarrow> u32) \<Rightarrow> ptr \<Rightarrow> SequenceRingBuffer \<Rightarrow> bool \<times> SequenceRingBuffer" where
  "AddSlot SequenceId toAdd r =
     (let sequenceId = SequenceId toAdd;
          Size = of_nat (length (srb_Buffer r)) :: u64;
          idx = unat ((ucast sequenceId :: u64) AND (Size - 1));
          Tail = (ucast (srb_Tail r) :: u64)
      in if Tail > Size \<and> ucast sequenceId < Tail - Size then (False, r)
         else (True, r \<lparr> srb_Buffer := (srb_Buffer r)[idx := Some toAdd],
                srb_Tail := (if sequenceId \<ge> srb_Tail r then sequenceId + 1 else srb_Tail r) \<rparr>))"

section \<open>Versioned file descriptors\<close>

record VersionedFd =
  vfd_Packed :: u64

definition vfd_pack :: "i32 \<Rightarrow> u32 \<Rightarrow> u64" where
  "vfd_pack fd gen = push_bit 32 (ucast gen) OR ucast (word_of_int fd :: u32)"

definition VersionedFd_init :: VersionedFd where
  "VersionedFd_init = \<lparr> vfd_Packed = vfd_pack (- 1) 0 \<rparr>"

definition VersionedFd_of :: "i32 \<Rightarrow> VersionedFd" where
  "VersionedFd_of fd = \<lparr> vfd_Packed = vfd_pack fd 0 \<rparr>"

definition SwitchFd :: "i32 \<Rightarrow> VersionedFd \<Rightarrow> VersionedFd" where
  "SwitchFd fd v =
     (let old = vfd_Packed v;
          newGen = ucast (drop_bit 32 old + 1)
      in v \<lparr> vfd_Packed := vfd_pack fd newGen \<rparr>)"

definition vfd_load :: "VersionedFd \<Rightarrow> u64" where
  "vfd_load v = vfd_Packed v"

definition vfd_Fd :: "u64 \<Rightarrow> i32" where
  "vfd_Fd val = sint (ucast val :: u32)"

definition vfd_Gen :: "u64 \<Rightarrow> u32" where
  "vfd_Gen val = ucast (drop_bit 32 val)"

definition in_i32 :: "int \<Rightarrow> bool" where
  "in_i32 x \<longleftrightarrow> - (2 ^ 31) \<le> x \<and> x < 2 ^ 31"

section \<open>Partial objects\<close>

lemma obf_inv_ops [simp]:
  "obf_inv n (ObjectBuffer_init n)" "obf_inv n b \<Longrightarrow> obf_inv n (clearBuffer b)" "obf_inv n b \<Longrightarrow> obf_inv n (snd (addBytes bs b))"
  by (auto simp: obf_inv_def ObjectBuffer_init_def clearBuffer_def addBytes_def)

lemma obf_bytes_simps [simp]: "obf_bytes (clearBuffer b) = []" "obf_bytes (ObjectBuffer_init n) = []"
  by (simp_all add: obf_bytes_def clearBuffer_def ObjectBuffer_init_def)

lemma length_obf_bytes: "obf_inv n b \<Longrightarrow> length (obf_bytes b) = obf_BufferSize b"
  by (simp add: obf_inv_def obf_bytes_def)

lemma addBytes_fits:
  assumes "obf_inv n b" "obf_BufferSize b + length bs \<le> n"
  shows "\<exists>b'. addBytes bs b = (True, b') \<and> obf_inv n b' \<and> obf_bytes b' = obf_bytes b @ bs \<and>
     obf_BufferSize b' = obf_BufferSize b + length bs"
  using assms by (simp add: addBytes_def obf_inv_def obf_bytes_def)

lemma addBytes_full: "obf_inv n b \<Longrightarrow> n < obf_BufferSize b + length bs \<Longrightarrow> addBytes bs b = (False, b)"
  by (simp add: addBytes_def obf_inv_def)

lemma readBytes_prefix:
  assumes "obf_inv n b" "size_t \<le> obf_BufferSize b"
  shows "\<exists>b'. readBytes size_t b = Some (take size_t (obf_bytes b), b') \<and> obf_inv n b' \<and> obf_bytes b' = drop size_t (obf_bytes b) \<and>
     obf_BufferSize b' = obf_BufferSize b - size_t"
  using assms by (auto simp: readBytes_def obf_inv_def obf_bytes_def overlay_0 min_def drop_take)

section \<open>Versions of a descriptor\<close>

lemma vfd_pack_bits:
  "bit (vfd_pack fd gen) n \<longleftrightarrow> (if n < 32 then bit (word_of_int fd :: u32) n else bit gen (n - 32) \<and> n < 64)"
  by (auto simp: vfd_pack_def bit_simps dest: bit_imp_le_length)

lemma Gen_pack [simp]: "vfd_Gen (vfd_pack fd gen) = gen"
  by (rule bit_eqI) (auto simp: vfd_Gen_def bit_simps vfd_pack_bits)

lemma low_pack: "(ucast (vfd_pack fd gen) :: u32) = word_of_int fd"
  by (rule bit_eqI) (auto simp: bit_simps vfd_pack_bits)

lemma Fd_pack [simp]: "in_i32 fd \<Longrightarrow> vfd_Fd (vfd_pack fd gen) = fd"
  unfolding vfd_Fd_def low_pack by (simp add: in_i32_def sint_sbintrunc' signed_take_bit_int_eq_self)

lemma SwitchFd_Gen: "vfd_Gen (vfd_load (SwitchFd fd v)) = vfd_Gen (vfd_load v) + 1"
  using ucast32_add[of "drop_bit 32 (vfd_Packed v)" 1] by (simp add: SwitchFd_def vfd_load_def vfd_Gen_def[of "vfd_Packed v"])

lemma SwitchFd_Fd: "in_i32 fd \<Longrightarrow> vfd_Fd (vfd_load (SwitchFd fd v)) = fd"
  by (simp add: SwitchFd_def vfd_load_def)

lemma fold_SwitchFd_Gen: "vfd_Gen (vfd_load (fold SwitchFd fds v)) = vfd_Gen (vfd_load v) + of_nat (length fds)"
  by (induction fds arbitrary: v) (simp_all add: SwitchFd_Gen add_ac)

text \<open>A stale descriptor is always recognised: after any number of reconnections from 1 to \<open>2^32 - 1\<close>, the
  packed value differs from the one a sender loaded before, even when the operating system hands out the
  same descriptor again; and the last descriptor stored is the one that is read.\<close>

theorem stale_fd_detected:
  assumes "fds \<noteq> []" "length fds < 2 ^ 32" "in_i32 (last fds)"
  shows "vfd_load (fold SwitchFd fds v) \<noteq> vfd_load v \<and> vfd_Fd (vfd_load (fold SwitchFd fds v)) = last fds"
proof -
  have "(of_nat (length fds) :: u32) \<noteq> 0" using assms(1,2) by (auto simp: word_of_nat_eq_0_iff dest: dvd_imp_le)
  then have "vfd_Gen (vfd_load (fold SwitchFd fds v)) \<noteq> vfd_Gen (vfd_load v)" by (simp add: fold_SwitchFd_Gen)
  moreover have "fold SwitchFd fds v = SwitchFd (last fds) (fold SwitchFd (butlast fds) v)"
    using assms(1) by (cases fds rule: rev_cases) simp_all
  ultimately show ?thesis using SwitchFd_Fd[OF assms(3)] by auto
qed

theorem stale_fd_detected_witness:
  "vfd_load (fold SwitchFd [7, - 1, 7] (VersionedFd_of 7)) \<noteq> vfd_load (VersionedFd_of 7) \<and>
   vfd_Fd (vfd_load (fold SwitchFd [7, - 1, 7] (VersionedFd_of 7))) = 7"
  using stale_fd_detected[of "[7, - 1, 7]" "VersionedFd_of 7"] by (simp add: in_i32_def)

section \<open>The window of a sequence ring\<close>

definition srb_window :: "nat \<Rightarrow> ptr list \<Rightarrow> SequenceRingBuffer \<Rightarrow> bool" where
  "srb_window Size ps r \<longleftrightarrow> length (srb_Buffer r) = Size \<and> srb_Tail r = of_nat (length ps) \<and>
     (\<forall>k < length ps. length ps \<le> k + Size \<longrightarrow> srb_Buffer r ! (k mod Size) = Some (ps ! k)) \<and>
     (\<forall>i < Size. srb_Buffer r ! i = None \<or>
        (\<exists>k < length ps. length ps \<le> k + Size \<and> k mod Size = i \<and> srb_Buffer r ! i = Some (ps ! k)))"

lemma ucast_small: "i < 2 ^ 32 \<Longrightarrow> (ucast (of_nat i :: u32) :: u64) = of_nat i"
  by (simp add: unsigned_of_nat take_bit_nat_eq_self)

lemma AddSlot_consecutive:
  assumes "k < 64" "length (srb_Buffer r) = 2 ^ k" "srb_Tail r = of_nat n" "SequenceId p = of_nat n" "Suc n < 2 ^ 32"
  shows "AddSlot SequenceId p r =
    (True, r \<lparr> srb_Buffer := (srb_Buffer r)[n mod 2 ^ k := Some p], srb_Tail := of_nat (Suc n) \<rparr>)"
proof -
  have "(ucast (of_nat n :: u32) :: u64) = of_nat n"
    using assms(5) by (simp add: ucast_small)
  moreover have "\<not> (S < (of_nat n :: u64) \<and> of_nat n < of_nat n - S)" for S
    using word_sub_le[of S "of_nat n"] by (metis less_imp_le leD)
  ultimately show ?thesis using mask_of_nat_mod[OF assms(1), of n] assms(2-4)
    by (simp add: AddSlot_def Let_def add.commute del: of_nat_power)
qed

lemma mod_window_inj:
  fixes a b :: nat
  assumes "a mod S = b mod S" "a < b" "b < a + S"
  shows False
proof -
  have "(b - a) mod S = 0" using assms(1,2) by (metis mod_eq_dvd_iff_nat less_imp_le dvd_imp_mod_0)
  moreover have "(b - a) mod S = b - a" using assms(2,3) by (intro mod_less) auto
  ultimately show False using assms(2) by simp
qed

lemma srb_window_step:
  assumes w: "srb_window (2 ^ j) ps r" and j: "j < 64" and p: "SequenceId p = of_nat (length ps)" and n: "Suc (length ps) < 2 ^ 32"
  shows "srb_window (2 ^ j) (ps @ [p]) (snd (AddSlot SequenceId p r))"
proof -
  let ?S = "2 ^ j :: nat" and ?n = "length ps"
  have r: "length (srb_Buffer r) = ?S" "srb_Tail r = of_nat ?n"
    and new: "\<And>k. k < ?n \<Longrightarrow> ?n \<le> k + ?S \<Longrightarrow> srb_Buffer r ! (k mod ?S) = Some (ps ! k)"
    and old: "\<And>i. i < ?S \<Longrightarrow> srb_Buffer r ! i = None \<or>
        (\<exists>k < ?n. ?n \<le> k + ?S \<and> k mod ?S = i \<and> srb_Buffer r ! i = Some (ps ! k))"
    using w by (auto simp: srb_window_def)
  let ?b = "(srb_Buffer r)[?n mod ?S := Some p]"
  have add: "snd (AddSlot SequenceId p r) = r \<lparr> srb_Buffer := ?b, srb_Tail := of_nat (Suc ?n) \<rparr>"
    using AddSlot_consecutive[of j r ?n SequenceId p] j r p n by simp
  have win: "?b ! (k mod ?S) = Some ((ps @ [p]) ! k)" if "k < Suc ?n" "Suc ?n \<le> k + ?S" for k
    using that new[of k] mod_window_inj[of k ?S ?n] r(1) by (cases "k = ?n") (auto simp: nth_append nth_list_update)
  have "?b ! i = None \<or> (\<exists>k < Suc ?n. Suc ?n \<le> k + ?S \<and> k mod ?S = i \<and> ?b ! i = Some ((ps @ [p]) ! k))" if i: "i < ?S" for i
  proof (cases "i = ?n mod ?S")
    case True
    then show ?thesis using r(1) by (intro disjI2 exI[of _ ?n]) (simp add: Suc_le_eq)
  next
    case False
    then have b: "?b ! i = srb_Buffer r ! i" by simp
    show ?thesis
    proof (cases "srb_Buffer r ! i")
      case (Some q)
      with old[OF i] obtain k where k: "k < ?n" "?n \<le> k + ?S" "k mod ?S = i" "srb_Buffer r ! i = Some (ps ! k)" by auto
      have "?n \<noteq> k + ?S" using k(3) False by auto
      with k b show ?thesis by (intro disjI2 exI[of _ k]) (simp add: nth_append)
    qed (simp add: b)
  qed
  with win show ?thesis by (simp add: srb_window_def add r(1))
qed

lemma srb_window_fold:
  assumes "j < 64" "length ps < 2 ^ 32" "\<forall>k < length ps. SequenceId (ps ! k) = of_nat k"
  shows "srb_window (2 ^ j) ps (fold (\<lambda>p r. snd (AddSlot SequenceId p r)) ps (SequenceRingBuffer_init (2 ^ j)))"
  using assms(2,3)
proof (induction ps rule: rev_induct)
  case Nil
  then show ?case by (simp add: srb_window_def SequenceRingBuffer_init_def)
next
  case (snoc p ps)
  have "\<forall>k < length ps. SequenceId (ps ! k) = of_nat k" using snoc.prems(2) by (auto simp: nth_append split: if_splits)
  moreover have "SequenceId p = of_nat (length ps)" using snoc.prems(2) by (auto simp: nth_append)
  ultimately show ?case using snoc srb_window_step[of j ps _ SequenceId p, OF _ assms(1)] by simp
qed

text \<open>A ring of \<open>2^j\<close> slots keeps exactly the last \<open>2^j\<close> reports of a gap-free stream: a sequence number
  inside that window is found with its own object, and any other number, older or not yet seen, is
  answered with a null pointer.\<close>

theorem SequenceRing_keeps_last_window:
  assumes "j < 64" "length ps < 2 ^ 32" "\<forall>k < length ps. SequenceId (ps ! k) = of_nat k" "k < 2 ^ 64"
  shows "GetSlot SequenceId (of_nat k) (fold (\<lambda>p r. snd (AddSlot SequenceId p r)) ps (SequenceRingBuffer_init (2 ^ j))) =
    (if k < length ps \<and> length ps \<le> k + 2 ^ j then Some (ps ! k) else None)"
proof -
  let ?r = "fold (\<lambda>p r. snd (AddSlot SequenceId p r)) ps (SequenceRingBuffer_init (2 ^ j))"
  have w: "srb_window (2 ^ j) ps ?r" using srb_window_fold[OF assms(1-3)] .
  have id: "(of_nat k :: u64) = ucast (SequenceId (ps ! i)) \<longleftrightarrow> k = i" if "i < length ps" for i
  proof -
    have "(ucast (of_nat i :: u32) :: u64) = of_nat i"
      using that assms(2) by (simp add: ucast_small)
    then show ?thesis using that assms
      by (auto simp: word_of_nat_eq_iff take_bit_nat_eq_self)
  qed
  have at: "GetSlot SequenceId (of_nat k) ?r = (case srb_Buffer ?r ! (k mod 2 ^ j) of None \<Rightarrow> None
      | Some p \<Rightarrow> if of_nat k = (ucast (SequenceId p) :: u64) then Some p else None)"
    using mask_of_nat_mod[OF assms(1), of k] w by (simp add: GetSlot_def srb_window_def del: of_nat_power)
  show ?thesis
  proof (cases "k < length ps \<and> length ps \<le> k + 2 ^ j")
    case True
    then have "srb_Buffer ?r ! (k mod 2 ^ j) = Some (ps ! k)" using w by (simp add: srb_window_def)
    then show ?thesis unfolding at using True id[of k] by simp
  next
    case False
    have "srb_Buffer ?r ! (k mod 2 ^ j) = None \<or>
      (\<exists>i < length ps. length ps \<le> i + 2 ^ j \<and> srb_Buffer ?r ! (k mod 2 ^ j) = Some (ps ! i))"
      using w mod_less_divisor[of "2 ^ j" k] unfolding srb_window_def by (metis zero_less_numeral zero_less_power)
    then show ?thesis unfolding at using False id by auto
  qed
qed

theorem SequenceRing_keeps_last_window_witness:
  "GetSlot of_nat (of_nat 1) (fold (\<lambda>p r. snd (AddSlot of_nat p r)) [0..<6] (SequenceRingBuffer_init (2 ^ 2))) = None \<and>
   GetSlot of_nat (of_nat 3) (fold (\<lambda>p r. snd (AddSlot of_nat p r)) [0..<6] (SequenceRingBuffer_init (2 ^ 2))) = Some 3"
proof -
  have h: "(2 :: nat) < 64" "length [0..<6] < 2 ^ 32" "\<forall>k < length [0..<6]. (of_nat ([0..<6] ! k) :: u32) = of_nat k" by simp_all
  show ?thesis
    using SequenceRing_keeps_last_window[OF h(1,2), of of_nat 1] SequenceRing_keeps_last_window[OF h(1,2), of of_nat 3]
    by (simp del: fold_simps)
qed

end
