(* ===== verification/Sending.thy ===== *)
theory Sending
  imports Sockets Small_Buffers Wire_Types
begin

text \<open>
  Sending over non-blocking sockets: the loop that writes a whole message
  (\<open>SendOrder\<close> and \<open>SendOrderConfirmation\<close> of \<open>order_gateway/include/order_router.hpp\<close> and
  \<open>client_message_sender.hpp\<close>) and the loop that drains a resend buffer (\<open>DrainBuffer\<close> of the same files).
  The network records what has been written to every descriptor and holds the answers of the operating system
  to the sends to come: a number of bytes it takes or an error; once the answers are used up it takes everything.
\<close>

datatype send_answer = Takes nat | Refuses errno

record network =
  net_Sent :: "int \<Rightarrow> u8 list"
  net_Answers :: "send_answer list"
  net_errno :: errno

definition written :: "int \<Rightarrow> u8 list \<Rightarrow> network \<Rightarrow> network" where
  "written fd bs net = net \<lparr> net_Sent := (net_Sent net)(fd := net_Sent net fd @ bs) \<rparr>"

definition send :: "int \<Rightarrow> u8 list \<Rightarrow> network \<Rightarrow> int \<times> network" where
  "send fd bs net =
     (case net_Answers net of
        [] \<Rightarrow> (int (length bs), written fd bs net)
      | Takes n # as \<Rightarrow> (int (length (take n bs)), written fd (take n bs) (net \<lparr> net_Answers := as \<rparr>))
      | Refuses e # as \<Rightarrow> (- 1, net \<lparr> net_Answers := as, net_errno := e \<rparr>))"

lemma send_effect:
  assumes "send fd bs net = (sent, net')"
  shows "sent \<le> int (length bs)" "net_Sent net' = (net_Sent net)(fd := net_Sent net fd @ take (nat sent) bs)"
    "net_Answers net' = tl (net_Answers net)" "net_Answers net = [] \<Longrightarrow> sent = int (length bs)"
proof -
  have "take (min (length bs) n) bs = take n bs" for n by (simp add: min_def)
  then show "sent \<le> int (length bs)" "net_Sent net' = (net_Sent net)(fd := net_Sent net fd @ take (nat sent) bs)"
    "net_Answers net' = tl (net_Answers net)" "net_Answers net = [] \<Longrightarrow> sent = int (length bs)"
    using assms by (auto simp: send_def written_def split: list.splits send_answer.splits)
qed

section \<open>Sending a message\<close>

text \<open>Whether the message went out, the bytes that did, and the network.\<close>

function send_all :: "int \<Rightarrow> u8 list \<Rightarrow> nat \<Rightarrow> network \<Rightarrow> bool \<times> nat \<times> network" where
  "send_all fd bs totalSent net =
     (if totalSent < length bs
      then (case send fd (drop totalSent bs) net of (sent, net) \<Rightarrow>
              if sent \<le> 0
              then if net_errno net = EINTR then send_all fd bs totalSent net else (False, totalSent, net)
              else send_all fd bs (totalSent + nat sent) net)
      else (True, totalSent, net))"
  by pat_completeness auto
termination
  by (relation "measure (\<lambda>(fd, bs, totalSent, net). length (net_Answers net) + (length bs - totalSent))")
    (auto simp: send_def written_def split: list.splits send_answer.splits)

declare send_all.simps [simp del]

section \<open>Draining a resend buffer\<close>

text \<open>A send uses up an answer, or, when none is left, takes all that remains.\<close>

lemma drain_decreases:
  assumes "totalSent < BytesBuffer_GetSize b" "\<not> length (BytesBuffer_GetData b) < unat (BytesBuffer_GetSize b)"
    "(sent, net') = send fd (take (unat (BytesBuffer_GetSize b) - unat totalSent) (drop (unat totalSent) (BytesBuffer_GetData b))) net"
    "t = totalSent + word_of_int sent"
  shows "((fd, b, t, net'), fd, b, totalSent, net) \<in>
    measures [\<lambda>(fd, b, t, net). length (net_Answers net), \<lambda>(fd, b, t, net). unat (BytesBuffer_GetSize b) - unat t]"
proof -
  have n: "unat totalSent < unat (BytesBuffer_GetSize b)" using assms(1) by (simp add: word_less_nat_alt)
  note e = send_effect[OF assms(3)[symmetric]]
  show ?thesis
  proof (cases "net_Answers net")
    case Nil
    then have "sent = int (unat (BytesBuffer_GetSize b) - unat totalSent)" using e(4) assms(2) n by simp
    then have "t = BytesBuffer_GetSize b" unfolding assms(4) using n by (simp add: of_nat_diff)
    then show ?thesis using Nil e(3) n by simp
  qed (use e(3) in simp)
qed

text \<open>\<open>totalSent\<close> is an unsigned 64-bit counter to which the result of \<open>send\<close> is added before it is tested, so a
  refused send takes one away.  A buffer whose \<open>Size\<close> exceeds its memory is read out of bounds: \<open>None\<close>.\<close>

function drain_loop :: "int \<Rightarrow> BytesBuffer \<Rightarrow> u64 \<Rightarrow> network \<Rightarrow> (bool \<times> u64 \<times> network) option" where
  "drain_loop fd b totalSent net =
     (if totalSent < BytesBuffer_GetSize b
      then if unat (BytesBuffer_GetSize b) > length (BytesBuffer_GetData b) then None
           else (case send fd (take (unat (BytesBuffer_GetSize b) - unat totalSent) (drop (unat totalSent) (BytesBuffer_GetData b))) net of
                   (sent, net) \<Rightarrow>
                     (let totalSent = totalSent + word_of_int sent
                      in if sent \<le> 0
                         then if net_errno net = EINTR then drain_loop fd b totalSent net else Some (False, totalSent, net)
                         else drain_loop fd b totalSent net))
      else Some (True, totalSent, net))"
  by pat_completeness auto
termination
  by (relation "measures [\<lambda>(fd, b, t, net). length (net_Answers net), \<lambda>(fd, b, t, net). unat (BytesBuffer_GetSize b) - unat t]")
    (simp, (rule drain_decreases; assumption?; simp?)+)

declare drain_loop.simps [simp del]

text \<open>\<open>std::div\<close> on \<open>int\<close> truncates towards zero.\<close>

definition div_trunc :: "int \<Rightarrow> int \<Rightarrow> int \<times> int" where
  "div_trunc a b = (let q = (if a \<ge> 0 then a div b else - ((- a) div b)) in (q, a - q * b))"

definition DrainBuffer_Order :: "BytesBuffer \<Rightarrow> int \<Rightarrow> u64 \<Rightarrow> network \<Rightarrow> (bool \<times> BytesBuffer \<times> u64 \<times> network) option" where
  "DrainBuffer_Order buffer fd OrderOffset net = do {
     (drained, totalSent, net) \<leftarrow> drain_loop fd buffer OrderOffset net;
     if drained then Some (True, BytesBuffer_Clear buffer, 0, net)
     else (case div_trunc (sint (ucast totalSent :: u32)) (int sizeof_Order) of (sentOrders, sentBytes) \<Rightarrow> do {
             buffer \<leftarrow> BytesBuffer_Shift (word_of_int (sentOrders * int sizeof_Order)) buffer;
             Some (False, buffer, word_of_int sentBytes, net) }) }"

definition DrainBuffer_Confirmation :: "BytesBuffer \<Rightarrow> int \<Rightarrow> network \<Rightarrow> (bool \<times> BytesBuffer \<times> network) option" where
  "DrainBuffer_Confirmation buffer fd net = do {
     (drained, totalSent, net) \<leftarrow> drain_loop fd buffer 0 net;
     if drained then Some (True, BytesBuffer_Clear buffer, net)
     else do { buffer \<leftarrow> BytesBuffer_Shift totalSent buffer; Some (False, buffer, net) } }"

section \<open>What the loops write\<close>

lemma send_all_done: "length bs \<le> t \<Longrightarrow> send_all fd bs t net = (True, t, net)"
  by (simp add: send_all.simps)

lemma written_simps [simp]:
  "net_Answers (written fd bs net) = net_Answers net" "net_errno (written fd bs net) = net_errno net"
  "net_Sent (written fd bs net) = (net_Sent net)(fd := net_Sent net fd @ bs)"
  "written fd as (written fd bs net) = written fd (bs @ as) net" "written fd [] net = net"
  by (simp_all add: written_def)

lemma send_all_whole:
  assumes "net_Answers net = []"
  shows "send_all fd bs 0 net = (True, length bs, written fd bs net)"
  using assms by (cases bs) (simp_all add: send_all.simps[of _ _ 0] send_def send_all_done)

text \<open>However the sends are cut, interrupted or refused, the loop writes a prefix of the message, once.\<close>

lemma send_all_prefix:
  assumes "send_all fd bs t net = (ok, t', net')" "t \<le> length bs"
  shows "t \<le> t' \<and> t' \<le> length bs \<and> net_Sent net' = (net_Sent net)(fd := net_Sent net fd @ drop t (take t' bs)) \<and> (ok \<longleftrightarrow> t' = length bs)"
  using assms
proof (induction fd bs t net rule: send_all.induct)
  case (1 fd bs t net)
  show ?case
  proof (cases "t < length bs")
    case False
    then show ?thesis using "1.prems" by (simp add: send_all_done)
  next
    case True
    obtain sent net1 where s: "send fd (drop t bs) net = (sent, net1)" by force
    have w: "sent \<le> 0 \<Longrightarrow> net_Sent net1 = net_Sent net"
      "0 < sent \<Longrightarrow> nat sent \<le> length bs - t \<and> net_Sent net1 = (net_Sent net)(fd := net_Sent net fd @ take (nat sent) (drop t bs))"
      using send_effect(1,2)[OF s] by auto
    show ?thesis
    proof (cases "sent \<le> 0")
      case neg: True
      then show ?thesis using "1.prems" "1.IH"(1)[OF True s[symmetric] neg] True s w(1)
        by (subst (asm) send_all.simps) (auto split: if_splits)
    next
      case pos: False
      have rec: "send_all fd bs (t + nat sent) net1 = (ok, t', net')" using "1.prems"(1) True s pos by (subst (asm) send_all.simps) simp
      have b: "t + nat sent \<le> length bs" using w(2) pos True by linarith
      from "1.IH"(2)[OF True s[symmetric] pos rec b] have
        r: "t + nat sent \<le> t'" "t' \<le> length bs" "net_Sent net' = (net_Sent net1)(fd := net_Sent net1 fd @ drop (t + nat sent) (take t' bs))" "ok \<longleftrightarrow> t' = length bs"
        by blast+
      have "take (nat sent) (drop t bs) @ drop (t + nat sent) (take t' bs) = drop t (take t' bs)"
      proof -
        have "take (nat sent) (drop t (take t' bs)) = take (nat sent) (drop t bs)" using r(1) by (simp add: drop_take min_def)
        then show ?thesis by (metis append_take_drop_id drop_drop add.commute)
      qed
      then show ?thesis using r w(2) pos by simp
    qed
  qed
qed

lemma drain_empty: "BytesBuffer_GetSize b = 0 \<Longrightarrow> DrainBuffer_Order b fd off net = Some (True, BytesBuffer_Clear b, 0, net)"
  by (simp add: DrainBuffer_Order_def drain_loop.simps)

end
