(* ===== verification/Gateway_Accounts.thy ===== *)
theory Gateway_Accounts
  imports Triple_Buffer
begin

text \<open>
  The account table of the order gateway (\<open>order_gateway/include\<close>: \<open>client_state.hpp\<close>,
  \<open>client_delta.hpp\<close>, \<open>client_states.hpp\<close>).  The table keeps three copies of every account; one
  writer changes the copy behind the published one and \<open>FlushTripleBuffer\<close> rotates.  The flush is
  given as its three phases (add the deltas, store \<open>Complete\<close>, bring the next copy up to date), so
  that what a concurrent reader sees between them can be stated.  An access outside the vectors is
  \<open>None\<close>.
\<close>

section \<open>Accounts\<close>

record gw_ClientState =
  gcl_ClientId :: u32
  gcl_AssetId :: "u16 list"
  gcl_Confirmed :: "i64 list"
  gcl_Attempt :: "i64 list"
  gcl_Auth :: u8
  gcl_SessionId :: u32

definition gw_ClientState_init :: gw_ClientState where
  "gw_ClientState_init = \<lparr> gcl_ClientId = 0, gcl_AssetId = replicate MaxPositions 0, gcl_Confirmed = replicate MaxPositions 0,
     gcl_Attempt = replicate MaxPositions 0, gcl_Auth = 0, gcl_SessionId = 0 \<rparr>"

fun find_asset :: "u16 \<Rightarrow> u16 list \<Rightarrow> nat \<Rightarrow> nat \<Rightarrow> nat option" where
  "find_asset assetId ids i 0 = None"
| "find_asset assetId ids i (Suc n) = (if ids ! i = assetId then Some i else find_asset assetId ids (Suc i) n)"

definition GetAssetIdx :: "u16 \<Rightarrow> gw_ClientState \<Rightarrow> nat option" where
  "GetAssetIdx assetId s = find_asset assetId (gcl_AssetId s) 0 MaxPositions"

definition GetAssetConfirmed :: "u16 \<Rightarrow> gw_ClientState \<Rightarrow> i64" where
  "GetAssetConfirmed assetId s =
     (case find_asset assetId (gcl_AssetId s) 0 MaxPositions of None \<Rightarrow> - 1 | Some i \<Rightarrow> gcl_Confirmed s ! i)"

definition GetAssetAttempt :: "u16 \<Rightarrow> gw_ClientState \<Rightarrow> i64" where
  "GetAssetAttempt assetId s =
     (case find_asset assetId (gcl_AssetId s) 0 MaxPositions of None \<Rightarrow> - 1 | Some i \<Rightarrow> gcl_Attempt s ! i)"

definition GetAssetIdAt :: "nat \<Rightarrow> gw_ClientState \<Rightarrow> u16" where
  "GetAssetIdAt idx s = gcl_AssetId s ! idx"

definition GetConfirmedAt :: "nat \<Rightarrow> gw_ClientState \<Rightarrow> i64" where
  "GetConfirmedAt idx s = gcl_Confirmed s ! idx"

definition GetAttemptAt :: "nat \<Rightarrow> gw_ClientState \<Rightarrow> i64" where
  "GetAttemptAt idx s = gcl_Attempt s ! idx"

section \<open>The table\<close>

type_synonym gw_ClientStates = "gw_ClientState account_table"

definition gw_ClientStates_init :: "nat \<Rightarrow> gw_ClientStates" where
  "gw_ClientStates_init maxClients =
   \<lparr> tab_States = \<lparr> States1 = replicate maxClients gw_ClientState_init, States2 = replicate maxClients gw_ClientState_init,
                    States3 = replicate maxClients gw_ClientState_init \<rparr>,
     tab_Deltas = replicate maxClients (replicate 3 ClientDelta_zero), tab_Complete = replicate maxClients 0 \<rparr>"

definition gw_ClientStates_of :: "nat \<Rightarrow> gw_ClientState list \<Rightarrow> gw_ClientStates option" where
  "gw_ClientStates_of maxClients states =
     (let vec = states @ drop (length states) (replicate maxClients gw_ClientState_init)
      in if length states \<le> maxClients
         then Some \<lparr> tab_States = \<lparr> States1 = vec, States2 = vec, States3 = vec \<rparr>,
                tab_Deltas = replicate maxClients (replicate 3 ClientDelta_zero), tab_Complete = replicate maxClients 0 \<rparr>
         else None)"

definition gw_GetComplete :: "nat \<Rightarrow> gw_ClientStates \<Rightarrow> u8 option" where
  "gw_GetComplete clientId st = (if tab_in st clientId then Some (tab_Complete st ! clientId) else None)"

definition gw_GetClientState :: "nat \<Rightarrow> gw_ClientStates \<Rightarrow> gw_ClientState option" where
  "gw_GetClientState clientFd st =
     (if tab_in st clientFd then Some (ts_at (tab_Complete st ! clientFd) (tab_States st) clientFd) else None)"

definition gw_GetClientId :: "nat \<Rightarrow> gw_ClientStates \<Rightarrow> u32 option" where
  "gw_GetClientId clientFd st =
     (if tab_in st clientFd then Some (gcl_ClientId (ts_at (tab_Complete st ! clientFd) (tab_States st) clientFd)) else None)"

definition gw_GetClientAuth :: "nat \<Rightarrow> gw_ClientStates \<Rightarrow> u8 option" where
  "gw_GetClientAuth clientFd st =
     (if tab_in st clientFd then Some (gcl_Auth (ts_at (tab_Complete st ! clientFd) (tab_States st) clientFd)) else None)"

definition gw_GetClientFunds :: "nat \<Rightarrow> u16 \<Rightarrow> gw_ClientStates \<Rightarrow> (i64 \<times> i64) option option" where
  "gw_GetClientFunds clientFd assetId st =
     (case gw_GetClientState clientFd st of
        None \<Rightarrow> None
      | Some s \<Rightarrow> Some (map_option (\<lambda>i. (gcl_Confirmed s ! i, gcl_Attempt s ! i)) (find_asset assetId (gcl_AssetId s) 0 MaxPositions)))"

definition gw_SetAuthStatus :: "nat \<Rightarrow> u8 \<Rightarrow> gw_ClientStates \<Rightarrow> gw_ClientStates option" where
  "gw_SetAuthStatus clientFd auth st =
     (if tab_in st clientFd
      then Some (let state = ts_back (tab_Complete st ! clientFd) (tab_States st) clientFd
                 in tab_put_back clientFd (state \<lparr> gcl_Auth := (if auth = 0 then 0 else 1) \<rparr>) st)
      else None)"

definition gw_SetClientState :: "ClientAccountSnapshot \<Rightarrow> gw_ClientStates \<Rightarrow> gw_ClientStates option" where
  "gw_SetClientState response st =
     (let clientFd = unat (snap_ClientFd response)
      in if tab_in st clientFd
         then Some (let complete = tab_Complete st ! clientFd;
                        ref = ts_at complete (tab_States st) clientFd;
                        state = ts_back complete (tab_States st) clientFd;
                        state = state \<lparr> gcl_ClientId := snap_ClientId response, gcl_Auth := 1,
                                        gcl_SessionId := gcl_SessionId state + 1,
                                        gcl_AssetId := pos_array (\<lambda>i. snap_AssetId response ! i) \<rparr>
                    in tab_put_delta clientFd complete
                         \<lparr> cd_Confirmed = pos_diff (snap_Confirmed response) (gcl_Confirmed ref),
                           cd_Attempt = pos_diff (snap_Attempt response) (gcl_Attempt ref) \<rparr>
                         (tab_put_back clientFd state st))
         else None)"

definition gw_SetClientAssets :: "nat \<Rightarrow> i64 \<Rightarrow> i64 \<Rightarrow> u16 \<Rightarrow> gw_ClientStates \<Rightarrow> gw_ClientStates option" where
  "gw_SetClientAssets clientId confirmed attempt assetId st =
     (if tab_in st clientId
      then Some (let complete = tab_Complete st ! clientId;
                     toChange = ts_back complete (tab_States st) clientId;
                     d = tab_delta st clientId complete
                 in tab_put_delta clientId complete
                      \<lparr> cd_Confirmed = pos_add_at assetId confirmed (gcl_AssetId toChange) (cd_Confirmed d),
                        cd_Attempt = pos_add_at assetId attempt (gcl_AssetId toChange) (cd_Attempt d) \<rparr> st)
      else None)"

text \<open>The three phases of \<open>FlushTripleBuffer\<close>.\<close>

definition gw_flush_apply :: "nat \<Rightarrow> gw_ClientStates \<Rightarrow> gw_ClientStates" where
  "gw_flush_apply clientFd st =
     (let complete = tab_Complete st ! clientFd;
          curDelta = tab_delta st clientFd complete;
          curState = ts_back complete (tab_States st) clientFd
      in tab_put_back clientFd
           (curState \<lparr> gcl_Confirmed := pos_add (gcl_Confirmed curState) (cd_Confirmed curDelta),
                       gcl_Attempt := pos_add (gcl_Attempt curState) (cd_Attempt curDelta) \<rparr>) st)"

definition gw_flush_publish :: "nat \<Rightarrow> gw_ClientStates \<Rightarrow> gw_ClientStates" where
  "gw_flush_publish clientFd st = st \<lparr> tab_Complete := (tab_Complete st)[clientFd := next3 (tab_Complete st ! clientFd)] \<rparr>"

definition gw_flush_prepare :: "nat \<Rightarrow> gw_ClientStates \<Rightarrow> gw_ClientStates" where
  "gw_flush_prepare clientFd st =
     (let complete = tab_Complete st ! clientFd;
          st = tab_put_delta clientFd complete ClientDelta_zero st;
          curState = ts_at complete (tab_States st) clientFd;
          newState = ts_back complete (tab_States st) clientFd;
          d0 = tab_delta st clientFd 0; d1 = tab_delta st clientFd 1; d2 = tab_delta st clientFd 2
      in tab_put_back clientFd
           (newState \<lparr>
              gcl_Confirmed := pos_add (pos_add (pos_add (gcl_Confirmed newState) (cd_Confirmed d0)) (cd_Confirmed d1)) (cd_Confirmed d2),
              gcl_Attempt := pos_add (pos_add (pos_add (gcl_Attempt newState) (cd_Attempt d0)) (cd_Attempt d1)) (cd_Attempt d2),
              gcl_AssetId := pos_array (\<lambda>i. gcl_AssetId curState ! i),
              gcl_ClientId := gcl_ClientId curState, gcl_Auth := gcl_Auth curState, gcl_SessionId := gcl_SessionId curState \<rparr>) st)"

definition gw_FlushTripleBuffer :: "nat \<Rightarrow> gw_ClientStates \<Rightarrow> gw_ClientStates option" where
  "gw_FlushTripleBuffer clientFd st =
     (if tab_in st clientFd
      then Some (gw_flush_prepare clientFd (gw_flush_publish clientFd (gw_flush_apply clientFd st)))
      else None)"

section \<open>Invariant and abstraction\<close>

definition gw_ops :: "gw_ClientState account_ops" where
  "gw_ops = \<lparr> ao_conf = gcl_Confirmed, ao_att = gcl_Attempt, ao_ids = gcl_AssetId,
     ao_setb = (\<lambda>c a s. s \<lparr> gcl_Confirmed := c, gcl_Attempt := a \<rparr>),
     ao_copy = (\<lambda>cur new. new \<lparr> gcl_AssetId := pos_array (\<lambda>i. gcl_AssetId cur ! i), gcl_ClientId := gcl_ClientId cur,
        gcl_Auth := gcl_Auth cur, gcl_SessionId := gcl_SessionId cur \<rparr>) \<rparr>"

abbreviation gw_inv :: "gw_ClientStates \<Rightarrow> nat \<Rightarrow> bool" where
  "gw_inv \<equiv> tab_inv gw_ops"

abbreviation gw_view :: "gw_ClientStates \<Rightarrow> nat \<Rightarrow> gw_ClientState" where
  "gw_view \<equiv> tab_view"

abbreviation gw_staged :: "gw_ClientStates \<Rightarrow> nat \<Rightarrow> gw_ClientState" where
  "gw_staged \<equiv> tab_staged gw_ops"

abbreviation gw_state_ok :: "gw_ClientState \<Rightarrow> bool" where
  "gw_state_ok \<equiv> acc_ok gw_ops"

text \<open>What an update promises to do to an account.\<close>

fun spec_assets :: "i64 \<times> i64 \<times> u16 \<Rightarrow> gw_ClientState \<Rightarrow> gw_ClientState" where
  "spec_assets (confirmed, attempt, assetId) s =
     s \<lparr> gcl_Confirmed := pos_add_at assetId confirmed (gcl_AssetId s) (gcl_Confirmed s),
         gcl_Attempt := pos_add_at assetId attempt (gcl_AssetId s) (gcl_Attempt s) \<rparr>"

fun gw_upd :: "nat \<Rightarrow> i64 \<times> i64 \<times> u16 \<Rightarrow> gw_ClientStates \<Rightarrow> gw_ClientStates option" where
  "gw_upd i (confirmed, attempt, assetId) st = gw_SetClientAssets i confirmed attempt assetId st"

definition spec_snapshot :: "ClientAccountSnapshot \<Rightarrow> gw_ClientState \<Rightarrow> gw_ClientState" where
  "spec_snapshot r s = s \<lparr> gcl_ClientId := snap_ClientId r, gcl_AssetId := snap_AssetId r, gcl_Confirmed := snap_Confirmed r,
     gcl_Attempt := snap_Attempt r, gcl_Auth := 1, gcl_SessionId := gcl_SessionId s + 1 \<rparr>"

definition snapshot_ok :: "ClientAccountSnapshot \<Rightarrow> bool" where
  "snapshot_ok r \<longleftrightarrow> length (snap_AssetId r) = MaxPositions \<and> pos_ok (snap_Confirmed r) \<and> pos_ok (snap_Attempt r)"

section \<open>The operations refine their specifications\<close>

lemma gw_ops_simps [simp]:
  "ao_conf gw_ops = gcl_Confirmed" "ao_att gw_ops = gcl_Attempt" "ao_ids gw_ops = gcl_AssetId"
  "ao_setb gw_ops c a s = s \<lparr> gcl_Confirmed := c, gcl_Attempt := a \<rparr>"
  "ao_copy gw_ops cur new = new \<lparr> gcl_AssetId := pos_array (\<lambda>i. gcl_AssetId cur ! i), gcl_ClientId := gcl_ClientId cur,
        gcl_Auth := gcl_Auth cur, gcl_SessionId := gcl_SessionId cur \<rparr>"
  by (simp_all add: gw_ops_def)

interpretation gwb: account_buffers gw_ops
proof
  show "ao_copy gw_ops cur new = ao_setb gw_ops (ao_conf gw_ops new) (ao_att gw_ops new) cur"
    if "length (ao_ids gw_ops cur) = MaxPositions" for cur new
    using that pos_array_eqI[of "gcl_AssetId cur" "\<lambda>i. gcl_AssetId cur ! i"] by (intro gw_ClientState.equality) simp_all
qed simp_all

lemma gw_state_okD: "gw_state_ok s \<longleftrightarrow> length (gcl_AssetId s) = MaxPositions \<and> pos_ok (gcl_Confirmed s) \<and> pos_ok (gcl_Attempt s)"
  by (simp add: acc_ok_def)

lemma spec_assets_acc: "acc_assets gw_ops d s = spec_assets d s"
  by (cases d rule: prod_cases3) simp

lemma gw_SetClientAssets_table:
  "tab_in st i \<Longrightarrow> gw_SetClientAssets i confirmed attempt assetId st = Some (tab_assets gw_ops i confirmed attempt assetId st)"
  by (simp add: gw_SetClientAssets_def tab_assets_def Let_def)

lemma gw_flush_phases: "gw_flush_apply i st = tab_apply gw_ops i st" "gw_flush_publish i st = tab_publish i st" "gw_flush_prepare i st = tab_prepare gw_ops i st"
  by (simp_all add: gw_flush_apply_def tab_apply_def gw_flush_publish_def tab_publish_def gw_flush_prepare_def tab_prepare_def acc_add_def Let_def)

lemma gw_Flush_table: "tab_in st i \<Longrightarrow> gw_FlushTripleBuffer i st = Some (tab_flush gw_ops i st)"
  by (simp add: gw_FlushTripleBuffer_def tab_flush_def gw_flush_phases)

lemma gw_SetClientAssets_ok:
  assumes "gw_inv st i"
  shows "\<exists>st'. gw_SetClientAssets i confirmed attempt assetId st = Some st' \<and> gw_inv st' i \<and>
     gw_view st' i = gw_view st i \<and> gw_staged st' i = spec_assets (confirmed, attempt, assetId) (gw_staged st i) \<and> tab_frame i st st'"
  using gwb.assets_ok[OF assms] gw_SetClientAssets_table[of st i] tab_shapeD(1)[OF tab_invD(1)[OF assms]] spec_assets_acc by metis

lemma gw_flush_ok:
  assumes "gw_inv st i"
  shows "\<exists>st'. gw_FlushTripleBuffer i st = Some st' \<and> gw_inv st' i \<and>
     gw_view st' i = gw_staged st i \<and> gw_staged st' i = gw_staged st i \<and> tab_frame i st st'"
  using gwb.flush_ok[OF assms] gw_Flush_table[of st i] tab_shapeD(1)[OF tab_invD(1)[OF assms]] by metis

lemma gw_SetClientState_ok:
  assumes "gw_inv st i" "i = unat (snap_ClientFd r)" "snapshot_ok r"
  shows "\<exists>st'. gw_SetClientState r st = Some st' \<and> gw_inv st' i \<and>
     gw_view st' i = gw_view st i \<and> gw_staged st' i = spec_snapshot r (gw_staged st i) \<and> tab_frame i st st'"
proof -
  note I = tab_invD[OF assms(1)]
  let ?c = "tab_Complete st ! i"
  let ?ref = "ts_at ?c (tab_States st) i" and ?bk = "ts_at (next3 ?c) (tab_States st) i"
  let ?s = "?bk \<lparr> gcl_ClientId := snap_ClientId r, gcl_Auth := 1, gcl_SessionId := gcl_SessionId ?bk + 1,
                    gcl_AssetId := pos_array (\<lambda>i. snap_AssetId r ! i) \<rparr>"
  let ?d = "\<lparr> cd_Confirmed = pos_diff (snap_Confirmed r) (gcl_Confirmed ?ref), cd_Attempt = pos_diff (snap_Attempt r) (gcl_Attempt ?ref) \<rparr>"
  have run: "gw_SetClientState r st = Some (tab_put_delta i ?c ?d (tab_put_back i ?s st))"
    using I(1,2) tab_shapeD[OF I(1)] assms(2) by (simp add: gw_SetClientState_def Let_def tab_slot)
  have s: "acc_ok gw_ops ?s" using I(3)[of "next3 ?c"] I(2) by (simp add: acc_ok_def)
  have d: "delta_ok ?d" by (simp add: delta_ok_def)
  have "acc_add gw_ops ?d ?s = spec_snapshot r (gw_staged st i)"
    using I(5,6) assms(3) pos_array_eqI[of "snap_AssetId r" "\<lambda>i. snap_AssetId r ! i"]
    by (simp add: acc_add_def spec_snapshot_def snapshot_ok_def tab_staged_def Let_def)
  with tab_put_ok[OF assms(1) s d] show ?thesis using run by simp
qed

lemma gw_SetAuthStatus_ok:
  assumes "gw_inv st i"
  shows "\<exists>st'. gw_SetAuthStatus i auth st = Some st' \<and> gw_inv st' i \<and>
     gw_view st' i = gw_view st i \<and> gw_staged st' i = (gw_staged st i) \<lparr> gcl_Auth := (if auth = 0 then 0 else 1) \<rparr> \<and> tab_frame i st st'"
proof -
  note I = tab_invD[OF assms]
  let ?c = "tab_Complete st ! i"
  define a where "a = (if auth = 0 then 0 else 1 :: u8)"
  let ?s = "(ts_at (next3 ?c) (tab_States st) i) \<lparr> gcl_Auth := a \<rparr>"
  have run: "gw_SetAuthStatus i auth st = Some (tab_put_delta i ?c (tab_delta st i ?c) (tab_put_back i ?s st))"
    using I(1,2) tab_shapeD[OF I(1)] tab_put_delta_id[of "tab_put_back i ?s st" i ?c]
    by (simp add: gw_SetAuthStatus_def Let_def tab_slot a_def)
  have s: "acc_ok gw_ops ?s" using I(3)[of "next3 ?c"] I(2) by (simp add: acc_ok_def)
  have "acc_add gw_ops (tab_delta st i ?c) ?s = (gw_staged st i) \<lparr> gcl_Auth := a \<rparr>" by (simp add: tab_staged_def Let_def acc_add_def)
  with tab_put_ok[OF assms s I(4)[OF I(2)]] show ?thesis unfolding a_def[symmetric] using run by simp
qed

text \<open>The table meets the contract of its writer.\<close>

interpretation gw: published_accounts gw_inv gw_view gw_staged gw_upd gw_FlushTripleBuffer spec_assets
proof
  fix st i and d :: "i64 \<times> i64 \<times> u16"
  assume inv: "gw_inv st i"
  obtain confirmed attempt assetId where d: "d = (confirmed, attempt, assetId)" using prod_cases3 by blast
  from gw_SetClientAssets_ok[OF inv, of confirmed attempt assetId] obtain st' where
    s: "gw_upd i d st = Some st'" "gw_inv st' i" "gw_view st' i = gw_view st i" "gw_staged st' i = spec_assets d (gw_staged st i)"
    and f: "tab_frame i st st'" unfolding d gw_upd.simps by blast
  show "\<exists>st'. gw_upd i d st = Some st' \<and> (\<forall>j. gw_inv st j \<longrightarrow> gw_inv st' j \<and> gw_view st' j = gw_view st j \<and>
      gw_staged st' j = (if j = i then spec_assets d (gw_staged st j) else gw_staged st j))"
    using s tab_frameD[OF f] by (metis (full_types))
next
  fix st i assume inv: "gw_inv st i"
  from gw_flush_ok[OF inv] obtain st' where
    s: "gw_FlushTripleBuffer i st = Some st'" "gw_inv st' i" "gw_view st' i = gw_staged st i" "gw_staged st' i = gw_staged st i"
    and f: "tab_frame i st st'" by blast
  show "\<exists>st'. gw_FlushTripleBuffer i st = Some st' \<and> (\<forall>j. gw_inv st j \<longrightarrow> gw_inv st' j \<and> gw_staged st' j = gw_staged st j \<and>
      gw_view st' j = (if j = i then gw_staged st j else gw_view st j))"
    using s tab_frameD[OF f] by (metis (full_types))
qed

lemma gw_GetClientState_view: "gw_inv st i \<Longrightarrow> gw_GetClientState i st = Some (gw_view st i)"
  using tab_shapeD(1)[OF tab_invD(1)] by (auto simp: gw_GetClientState_def tab_view_def)

lemma gw_init_ok:
  assumes "i < n"
  shows "gw_inv (gw_ClientStates_init n) i \<and> gw_view (gw_ClientStates_init n) i = gw_ClientState_init \<and>
    gw_staged (gw_ClientStates_init n) i = gw_ClientState_init"
  using assms by (intro conjI tab_init_ok[OF assms, where A = gw_ops])
    (auto simp: gw_ClientStates_init_def acc_ok_def acc_add_def gw_ClientState_init_def ClientDelta_zero_def)

section \<open>Sequences of operations\<close>

datatype gw_op = OpAssets nat i64 i64 u16 | OpSnapshot ClientAccountSnapshot | OpAuth nat u8 | OpFlush nat

fun gw_op_client :: "gw_op \<Rightarrow> nat" where
  "gw_op_client (OpAssets i _ _ _) = i"
| "gw_op_client (OpSnapshot r) = unat (snap_ClientFd r)"
| "gw_op_client (OpAuth i _) = i"
| "gw_op_client (OpFlush i) = i"

fun gw_op_ok :: "gw_op \<Rightarrow> bool" where
  "gw_op_ok (OpSnapshot r) \<longleftrightarrow> snapshot_ok r"
| "gw_op_ok _ \<longleftrightarrow> True"

fun gw_exec :: "gw_op \<Rightarrow> gw_ClientStates \<Rightarrow> gw_ClientStates option" where
  "gw_exec (OpAssets i confirmed attempt assetId) st = gw_SetClientAssets i confirmed attempt assetId st"
| "gw_exec (OpSnapshot r) st = gw_SetClientState r st"
| "gw_exec (OpAuth i auth) st = gw_SetAuthStatus i auth st"
| "gw_exec (OpFlush i) st = gw_FlushTripleBuffer i st"

fun gw_run :: "gw_op list \<Rightarrow> gw_ClientStates \<Rightarrow> gw_ClientStates option" where
  "gw_run [] st = Some st"
| "gw_run (op # ops) st = (case gw_exec op st of None \<Rightarrow> None | Some st \<Rightarrow> gw_run ops st)"

text \<open>The specification keeps two plain accounts per client.\<close>

fun spec_op :: "gw_op \<Rightarrow> gw_ClientState \<times> gw_ClientState \<Rightarrow> gw_ClientState \<times> gw_ClientState" where
  "spec_op (OpAssets _ confirmed attempt assetId) (shown, pending) = (shown, spec_assets (confirmed, attempt, assetId) pending)"
| "spec_op (OpSnapshot r) (shown, pending) = (shown, spec_snapshot r pending)"
| "spec_op (OpAuth _ auth) (shown, pending) = (shown, pending \<lparr> gcl_Auth := (if auth = 0 then 0 else 1) \<rparr>)"
| "spec_op (OpFlush _) (shown, pending) = (pending, pending)"

definition spec_run :: "gw_op list \<Rightarrow> nat \<Rightarrow> gw_ClientState \<times> gw_ClientState \<Rightarrow> gw_ClientState \<times> gw_ClientState" where
  "spec_run ops i a = fold spec_op (filter (\<lambda>op. gw_op_client op = i) ops) a"

lemma gw_exec_ok:
  assumes "gw_inv st (gw_op_client op)" "gw_op_ok op"
  shows "\<exists>st'. gw_exec op st = Some st' \<and> (\<forall>j. gw_inv st j \<longrightarrow> gw_inv st' j \<and>
     (gw_view st' j, gw_staged st' j) = spec_run [op] j (gw_view st j, gw_staged st j))"
proof -
  let ?i = "gw_op_client op"
  have "\<exists>st'. gw_exec op st = Some st' \<and> gw_inv st' ?i \<and>
     (gw_view st' ?i, gw_staged st' ?i) = spec_op op (gw_view st ?i, gw_staged st ?i) \<and>
     tab_frame ?i st st'"
  proof (cases op)
    case (OpAssets i confirmed attempt assetId)
    with assms gw_SetClientAssets_ok[of st i confirmed attempt assetId] show ?thesis by auto
  next
    case (OpSnapshot r)
    with assms gw_SetClientState_ok[of st ?i r] show ?thesis by auto
  next
    case (OpAuth i auth)
    with assms gw_SetAuthStatus_ok[of st i auth] show ?thesis by auto
  next
    case (OpFlush i)
    with assms gw_flush_ok[of st i] show ?thesis by auto
  qed
  then obtain st' where s: "gw_exec op st = Some st'" "gw_inv st' ?i"
     "(gw_view st' ?i, gw_staged st' ?i) = spec_op op (gw_view st ?i, gw_staged st ?i)"
     and f: "tab_frame ?i st st'" by blast
  have "gw_inv st' j \<and> (gw_view st' j, gw_staged st' j) = spec_run [op] j (gw_view st j, gw_staged st j)" if "gw_inv st j" for j
    using s tab_frameD[OF f that] by (cases "j = ?i") (auto simp: spec_run_def)
  with s(1) show ?thesis by blast
qed

text \<open>C29. The triple-buffered table refines a table with one shown and one pending account per client: any
  sequence of balance updates, snapshots, disconnects and flushes of known clients succeeds, and what
  readers see of every client is the shown account of the specification.\<close>

theorem gw_table_refines:
  assumes "\<forall>op \<in> set ops. gw_inv st (gw_op_client op) \<and> gw_op_ok op"
  shows "\<exists>st'. gw_run ops st = Some st' \<and> (\<forall>j. gw_inv st j \<longrightarrow> gw_inv st' j \<and>
     gw_GetClientState j st' = Some (fst (spec_run ops j (gw_view st j, gw_staged st j))) \<and>
     gw_staged st' j = snd (spec_run ops j (gw_view st j, gw_staged st j)))"
proof -
  have "\<exists>st'. gw_run ops st = Some st' \<and> (\<forall>j. gw_inv st j \<longrightarrow> gw_inv st' j \<and>
     (gw_view st' j, gw_staged st' j) = spec_run ops j (gw_view st j, gw_staged st j))"
    using assms
  proof (induction ops arbitrary: st)
    case Nil
    then show ?case by (simp add: spec_run_def)
  next
    case (Cons op ops)
    from Cons.prems gw_exec_ok[of st op] obtain s1 where 1: "gw_exec op st = Some s1" and
      2: "\<And>j. gw_inv st j \<Longrightarrow> gw_inv s1 j \<and> (gw_view s1 j, gw_staged s1 j) = spec_run [op] j (gw_view st j, gw_staged st j)" by auto
    have "\<forall>op \<in> set ops. gw_inv s1 (gw_op_client op) \<and> gw_op_ok op" using Cons.prems 2 by simp
    from Cons.IH[OF this] obtain s2 where 3: "gw_run ops s1 = Some s2" and
      4: "\<And>j. gw_inv s1 j \<Longrightarrow> gw_inv s2 j \<and> (gw_view s2 j, gw_staged s2 j) = spec_run ops j (gw_view s1 j, gw_staged s1 j)" by blast
    have "spec_run (op # ops) j a = spec_run ops j (spec_run [op] j a)" for j a by (simp add: spec_run_def)
    then show ?case using 1 2 3 4 by simp
  qed
  then obtain st' where 1: "gw_run ops st = Some st'" and
    2: "\<And>j. gw_inv st j \<Longrightarrow> gw_inv st' j \<and> (gw_view st' j, gw_staged st' j) = spec_run ops j (gw_view st j, gw_staged st j)" by blast
  then show ?thesis using gw_GetClientState_view by (metis fst_conv snd_conv)
qed

definition sample_snapshot :: ClientAccountSnapshot where
  "sample_snapshot = \<lparr> snap_Status = 65, snap_SequenceId = 0, snap_ClientId = 42, snap_ClientFd = 1,
     snap_AssetId = map of_nat [0..<16], snap_Confirmed = replicate 16 1000, snap_Attempt = replicate 16 10 \<rparr>"

lemma sample_snapshot_ok: "snapshot_ok sample_snapshot"
  by (simp add: snapshot_ok_def sample_snapshot_def MaxPositions_def pos_ok_def in_i64_def)

definition sample_ops :: "gw_op list" where
  "sample_ops = [OpSnapshot sample_snapshot, OpFlush 1, OpAssets 1 (- 300) 0 0, OpAssets 1 5 (- 2) 3, OpFlush 1, OpAuth 1 0]"

theorem gw_table_refines_witness:
  "\<exists>st' s. gw_run sample_ops (gw_ClientStates_init 2) = Some st' \<and> gw_GetClientState 1 st' = Some s \<and>
     gcl_ClientId s = 42 \<and> gcl_Auth s = 1 \<and> gcl_Confirmed s ! 0 = 700 \<and> gcl_Confirmed s ! 3 = 1005 \<and> gcl_Attempt s ! 3 = 8 \<and>
     gcl_Auth (gw_staged st' 1) = 0"
proof -
  have "\<forall>op \<in> set sample_ops. gw_inv (gw_ClientStates_init 2) (gw_op_client op) \<and> gw_op_ok op"
    using gw_init_ok[of 1 2] sample_snapshot_ok by (simp add: sample_ops_def) (simp add: sample_snapshot_def)
  from gw_table_refines[OF this] gw_init_ok[of 1 2] obtain st' where
    r: "gw_run sample_ops (gw_ClientStates_init 2) = Some st'"
      "gw_GetClientState 1 st' = Some (fst (spec_run sample_ops 1 (gw_ClientState_init, gw_ClientState_init)))"
      "gw_staged st' 1 = snd (spec_run sample_ops 1 (gw_ClientState_init, gw_ClientState_init))" by auto
  have "spec_run sample_ops 1 (gw_ClientState_init, gw_ClientState_init) =
     (let s = \<lparr> gcl_ClientId = 42, gcl_AssetId = map of_nat [0..<16], gcl_Confirmed = (replicate 16 1000)[0 := 700, 3 := 1005],
        gcl_Attempt = (replicate 16 10)[3 := 8], gcl_Auth = 1, gcl_SessionId = 1 \<rparr> in (s, s \<lparr> gcl_Auth := 0 \<rparr>))"
    by code_simp
  then show ?thesis using r by (simp add: Let_def)
qed

section \<open>What a concurrent reader sees\<close>

text \<open>The writes of the writer thread one phase at a time; a reader that loaded \<open>Complete\<close> keeps reading
  that copy.\<close>

datatype gw_write = WOp gw_op | WApply nat | WPublish nat | WPrepare nat

fun gw_write_step :: "gw_write \<Rightarrow> gw_ClientStates \<Rightarrow> gw_ClientStates option" where
  "gw_write_step (WOp op) st = (case op of OpFlush _ \<Rightarrow> None | _ \<Rightarrow> gw_exec op st)"
| "gw_write_step (WApply i) st = (if tab_in st i then Some (gw_flush_apply i st) else None)"
| "gw_write_step (WPublish i) st = (if tab_in st i then Some (gw_flush_publish i st) else None)"
| "gw_write_step (WPrepare i) st = (if tab_in st i then Some (gw_flush_prepare i st) else None)"

fun gw_writes :: "gw_write list \<Rightarrow> gw_ClientStates \<Rightarrow> gw_ClientStates option" where
  "gw_writes [] st = Some st"
| "gw_writes (w # ws) st = (case gw_write_step w st of None \<Rightarrow> None | Some st \<Rightarrow> gw_writes ws st)"

definition gw_table :: "gw_ClientStates \<Rightarrow> bool" where
  "gw_table st \<longleftrightarrow> (\<forall>i. tab_in st i \<longrightarrow> tab_shape st i)"

text \<open>A write touches only the copy behind the published one, and only a store of \<open>Complete\<close> rotates.\<close>

definition gw_confined :: "gw_ClientStates \<Rightarrow> gw_ClientStates \<Rightarrow> nat \<Rightarrow> u8 \<Rightarrow> bool" where
  "gw_confined st st' j c' \<longleftrightarrow> tab_shape st' j \<and> tab_Complete st' ! j = c' \<and>
     (\<forall>c. rot_ok c \<longrightarrow> c \<noteq> next3 (tab_Complete st ! j) \<longrightarrow> ts_at c (tab_States st') j = ts_at c (tab_States st) j)"

lemma gw_confined_put:
  assumes "tab_shape st i" "tab_shape st j"
  shows "gw_confined st (tab_put_back i s st) j (tab_Complete st ! j)" "rot_ok c \<Longrightarrow> gw_confined st (tab_put_delta i c d st) j (tab_Complete st ! j)"
    "rot_ok c \<Longrightarrow> gw_confined st (tab_put_delta i c d (tab_put_back i s st)) j (tab_Complete st ! j)"
    "rot_ok c \<Longrightarrow> gw_confined st (tab_put_back i s (tab_put_delta i c d st)) j (tab_Complete st ! j)"
  using assms by (auto simp: gw_confined_def tab_slot)

lemma gw_write_confined:
  assumes "gw_table st" "gw_write_step w st = Some st'" "tab_in st j"
  shows "gw_confined st st' j (if w = WPublish j then next3 (tab_Complete st ! j) else tab_Complete st ! j)"
proof -
  have sh: "tab_shape st i" if "tab_in st i" for i using assms(1) that by (simp add: gw_table_def)
  note rot = tab_shapeD(2)[OF sh]
  note j = sh[OF assms(3)]
  show ?thesis
  proof (cases w)
    case (WOp op)
    with assms(2) show ?thesis
      by (cases op) (auto simp: gw_SetClientAssets_def gw_SetClientState_def gw_SetAuthStatus_def Let_def split: if_splits
          intro!: gw_confined_put[OF sh j] rot)
  next
    case (WPublish i)
    with assms(2) sh j show ?thesis by (auto simp: gw_confined_def gw_flush_phases tab_slot split: if_splits)
  qed (use assms(2) in \<open>auto simp: gw_flush_phases tab_apply_def tab_prepare_def Let_def split: if_splits
          intro!: gw_confined_put[OF sh j] rot\<close>)
qed

lemma gw_write_table:
  assumes "gw_table st" "gw_write_step w st = Some st'"
  shows "gw_table st'" "tab_in st' j = tab_in st j"
proof -
  show in': "tab_in st' j = tab_in st j" for j
    using assms(2) by (cases w) (auto simp: gw_SetClientAssets_def gw_SetClientState_def gw_SetAuthStatus_def
        gw_flush_phases tab_apply_def tab_prepare_def Let_def split: if_splits gw_op.splits)
  show "gw_table st'" using gw_write_confined[OF assms] in' by (auto simp: gw_table_def gw_confined_def)
qed

text \<open>C30. A reader never sees a torn account: after a reader loaded \<open>Complete\<close> for a client, the copy it
  reads keeps its content while the writer performs any sequence of writes, phases of flushes included
  and in any order, as long as at most one flush of that client stores \<open>Complete\<close> in between.\<close>

theorem reader_copy_stable:
  assumes "gw_table st" "tab_in st fd" "c = tab_Complete st ! fd" "gw_writes ws st = Some st'"
    "length (filter (\<lambda>w. w = WPublish fd) ws) \<le> 1"
  shows "ts_at c (tab_States st') fd = ts_at c (tab_States st) fd"
proof -
  have rot: "rot_ok c" using assms(1-3) by (simp add: gw_table_def tab_shapeD(2))
  have "ts_at c (tab_States st') fd = ts_at c (tab_States st) fd"
    if "gw_table st" "tab_in st fd" "gw_writes ws st = Some st'"
      "tab_Complete st ! fd = c \<and> length (filter (\<lambda>w. w = WPublish fd) ws) \<le> 1 \<or>
       tab_Complete st ! fd = next3 c \<and> filter (\<lambda>w. w = WPublish fd) ws = []" for st
    using that
  proof (induction ws arbitrary: st)
    case (Cons w ws)
    from Cons.prems(3) obtain s1 where 1: "gw_write_step w st = Some s1" "gw_writes ws s1 = Some st'" by (auto split: option.splits)
    note conf = gw_write_confined[OF Cons.prems(1) 1(1) Cons.prems(2)]
    have "c \<noteq> next3 (tab_Complete st ! fd)" using Cons.prems(4) next3_neq[OF rot] by metis
    then have "ts_at c (tab_States s1) fd = ts_at c (tab_States st) fd" using conf rot by (simp add: gw_confined_def)
    moreover have "ts_at c (tab_States st') fd = ts_at c (tab_States s1) fd"
      using Cons.prems(2,4) conf by (intro Cons.IH gw_write_table[OF Cons.prems(1) 1(1)] 1(2))
        (auto simp: gw_write_table(2)[OF Cons.prems(1) 1(1)] gw_confined_def split: if_splits)
    ultimately show ?case by simp
  qed simp
  from this[of st] assms show ?thesis by simp
qed

lemma gw_table_init: "gw_table (gw_ClientStates_init n)"
  using gw_init_ok tab_invD(1) by (fastforce simp: gw_table_def tab_in_def gw_ClientStates_init_def)

theorem reader_copy_stable_witness:
  "\<exists>st'. gw_writes [WOp (OpSnapshot sample_snapshot), WApply 1, WPublish 1, WPrepare 1, WOp (OpAssets 1 5 0 3), WApply 1]
      (gw_ClientStates_init 2) = Some st' \<and> ts_at 0 (tab_States st') 1 = gw_ClientState_init \<and>
      gcl_ClientId (ts_at 1 (tab_States st') 1) = 42"
proof -
  let ?ws = "[WOp (OpSnapshot sample_snapshot), WApply 1, WPublish 1, WPrepare 1, WOp (OpAssets 1 5 0 3), WApply 1]"
  have run: "map_option (\<lambda>st. gcl_ClientId (ts_at 1 (tab_States st) 1)) (gw_writes ?ws (gw_ClientStates_init 2)) = Some 42" by code_simp
  then obtain st' where st': "gw_writes ?ws (gw_ClientStates_init 2) = Some st'" "gcl_ClientId (ts_at 1 (tab_States st') 1) = 42"
    by (auto simp del: gw_writes.simps)
  have "tab_in (gw_ClientStates_init 2) 1" "0 = tab_Complete (gw_ClientStates_init 2) ! 1" by (simp_all add: tab_in_def gw_ClientStates_init_def)
  from reader_copy_stable[OF gw_table_init this st'(1)] st' show ?thesis
    by (simp del: gw_writes.simps) (simp add: gw_ClientStates_init_def ts_at_def)
qed

end
