(* ===== verification/Risk_Check.thy ===== *)
theory Risk_Check
  imports Gateway_Accounts
begin

text \<open>
  The pre-trade risk check of the gateway (\<open>order_gateway/include/order_risk_check.hpp\<close>) and the local
  counters it reserves funds in (\<open>local_attempts.hpp\<close>).  Products and differences of balances are 64-bit
  and go through \<open>wrap64\<close>.
\<close>

section \<open>Reservations\<close>

record LocalAttempts =
  la_Attempt :: "i64 list"

definition LocalAttempts_Clear :: "LocalAttempts \<Rightarrow> LocalAttempts" where
  "LocalAttempts_Clear la = la \<lparr> la_Attempt := replicate MaxPositions 0 \<rparr>"

definition LocalAttempts_init :: LocalAttempts where
  "LocalAttempts_init = LocalAttempts_Clear \<lparr> la_Attempt = [] \<rparr>"

definition LocalAttempts_at :: "nat \<Rightarrow> LocalAttempts \<Rightarrow> i64" where
  "LocalAttempts_at idx la = la_Attempt la ! idx"

definition LocalAttempts_set :: "nat \<Rightarrow> i64 \<Rightarrow> LocalAttempts \<Rightarrow> LocalAttempts" where
  "LocalAttempts_set idx v la = la \<lparr> la_Attempt := (la_Attempt la)[idx := v] \<rparr>"

section \<open>The check\<close>

definition risk_asset :: "Order \<Rightarrow> u16" where
  "risk_asset order = (if ord_Side order = BUY then 0 else ord_AssetId order)"

definition risk_amount :: "Order \<Rightarrow> i64" where
  "risk_amount order =
     (if ord_Side order = SELL then uint (ord_Amount order) else wrap64 (uint (ord_Amount order) * ord_Price order))"

definition CheckOrderRisk ::
  "gw_ClientState \<Rightarrow> LocalAttempts \<Rightarrow> u32 \<Rightarrow> Order \<Rightarrow> u8 \<Rightarrow> OrderConfirmationStatus \<times> LocalAttempts \<times> u32" where
  "CheckOrderRisk curState localAttempt localSessionId order auth =
     (if auth = 0 then (UserNotConnected, localAttempt, localSessionId)
      else
        let fresh = gcl_SessionId curState \<noteq> localSessionId;
            localAttempt = (if fresh then LocalAttempts_Clear localAttempt else localAttempt);
            localSessionId = (if fresh then gcl_SessionId curState else localSessionId)
        in if gcl_ClientId curState \<noteq> ord_ClientId order then (BadClientId, localAttempt, localSessionId)
           else
             let assetId = risk_asset order
             in (case GetAssetIdx assetId curState of
                   None \<Rightarrow> (if unat assetId \<ge> MaxAssets then UnknownSymbol else MaxPositionsReached, localAttempt, localSessionId)
                 | Some assetIdx \<Rightarrow>
                     let confirmed = GetConfirmedAt assetIdx curState;
                         attempt = wrap64 (GetAttemptAt assetIdx curState + LocalAttempts_at assetIdx localAttempt);
                         amount = risk_amount order
                     in if amount > wrap64 (confirmed - attempt) then (InsufficientFunds, localAttempt, localSessionId)
                        else (Accepted,
                              LocalAttempts_set assetIdx (wrap64 (LocalAttempts_at assetIdx localAttempt + amount)) localAttempt,
                              localSessionId)))"

text \<open>The orders of one client checked one after the other, as the router does between two changes of the
  published account.\<close>

fun check_all :: "gw_ClientState \<Rightarrow> LocalAttempts \<Rightarrow> u32 \<Rightarrow> Order list \<Rightarrow> u8 \<Rightarrow>
    OrderConfirmationStatus list \<times> LocalAttempts \<times> u32" where
  "check_all s la sid [] auth = ([], la, sid)"
| "check_all s la sid (od # ods) auth =
     (case CheckOrderRisk s la sid od auth of (status, la, sid) \<Rightarrow>
        (case check_all s la sid ods auth of (statuses, r) \<Rightarrow> (status # statuses, r)))"

section \<open>Finding the asset\<close>

lemma le_first: "(i :: nat) \<le> j \<longleftrightarrow> j = i \<or> Suc i \<le> j"
  by auto

lemma find_asset_Some:
  "find_asset a ids i n = Some k \<Longrightarrow> i \<le> k \<and> k < i + n \<and> ids ! k = a \<and> (\<forall>j. i \<le> j \<and> j < k \<longrightarrow> ids ! j \<noteq> a)"
proof (induction n arbitrary: i)
  case (Suc n)
  show ?case
  proof (cases "ids ! i = a")
    case False
    with Suc.prems Suc.IH[of "Suc i"] have
      "Suc i \<le> k" "k < i + Suc n" "ids ! k = a" "\<forall>j. Suc i \<le> j \<and> j < k \<longrightarrow> ids ! j \<noteq> a" by simp_all
    with False show ?thesis unfolding le_first[of i] by blast
  qed (use Suc.prems in auto)
qed simp

lemma find_asset_None: "find_asset a ids i n = None \<longleftrightarrow> (\<forall>j. i \<le> j \<and> j < i + n \<longrightarrow> ids ! j \<noteq> a)"
proof (induction n arbitrary: i)
  case (Suc n)
  have "(\<forall>j. i \<le> j \<and> j < i + Suc n \<longrightarrow> ids ! j \<noteq> a) \<longleftrightarrow> ids ! i \<noteq> a \<and> (\<forall>j. Suc i \<le> j \<and> j < Suc i + n \<longrightarrow> ids ! j \<noteq> a)"
    unfolding le_first[of i] by auto
  then show ?case using Suc.IH[of "Suc i"] by simp
qed auto

lemma GetAssetIdx_Some: "GetAssetIdx a s = Some k \<Longrightarrow> k < MaxPositions \<and> gcl_AssetId s ! k = a"
  using find_asset_Some[of a "gcl_AssetId s" 0 MaxPositions k] by (simp add: GetAssetIdx_def)

section \<open>Funds are never committed twice\<close>

text \<open>An account and reservations whose sums and differences do not wrap (attempts may be negative, as the account service lets them become),
  and an order whose value is representable.\<close>

definition funds_ok :: "gw_ClientState \<Rightarrow> LocalAttempts \<Rightarrow> bool" where
  "funds_ok s la \<longleftrightarrow> gw_state_ok s \<and> length (la_Attempt la) = MaxPositions \<and>
     (\<forall>i < MaxPositions. 0 \<le> la_Attempt la ! i \<and> in_i64 (la_Attempt la ! i) \<and> in_i64 (gcl_Attempt s ! i + la_Attempt la ! i) \<and>
        in_i64 (gcl_Confirmed s ! i - gcl_Attempt s ! i) \<and> in_i64 (gcl_Confirmed s ! i - (gcl_Attempt s ! i + la_Attempt la ! i)))"

lemma funds_okD:
  assumes "funds_ok s la" "i < MaxPositions"
  shows "0 \<le> la_Attempt la ! i" "in_i64 (la_Attempt la ! i)" "in_i64 (gcl_Attempt s ! i + la_Attempt la ! i)"
    "in_i64 (gcl_Confirmed s ! i - gcl_Attempt s ! i)" "in_i64 (gcl_Confirmed s ! i - (gcl_Attempt s ! i + la_Attempt la ! i))"
    "in_i64 (gcl_Confirmed s ! i)" "i < length (la_Attempt la)"
  using assms pos_ok_nth[of "gcl_Confirmed s" i] by (auto simp: funds_ok_def acc_ok_def)

definition order_value_ok :: "Order \<Rightarrow> bool" where
  "order_value_ok od \<longleftrightarrow> 0 \<le> ord_Price od \<and> uint (ord_Amount od) * ord_Price od < 2 ^ 63"

definition order_value :: "Order \<Rightarrow> int" where
  "order_value od = (if ord_Side od = SELL then uint (ord_Amount od) else uint (ord_Amount od) * ord_Price od)"

lemma risk_amount_value: "order_value_ok od \<Longrightarrow> risk_amount od = order_value od \<and> 0 \<le> order_value od"
proof -
  assume ok: "order_value_ok od"
  then have nn: "0 \<le> uint (ord_Amount od) * ord_Price od" by (simp add: order_value_ok_def)
  moreover have "in_i64 (uint (ord_Amount od) * ord_Price od)"
    unfolding in_i64_def using ok order_trans[OF _ nn, of "- (2 ^ 63)"] by (simp add: order_value_ok_def)
  ultimately show ?thesis by (simp add: risk_amount_def order_value_def)
qed

text \<open>The funds of slot \<open>i\<close> that a list of accepted orders ties up.\<close>

definition reserved :: "gw_ClientState \<Rightarrow> nat \<Rightarrow> (Order \<times> OrderConfirmationStatus) list \<Rightarrow> int" where
  "reserved s i rs = sum_list (map (\<lambda>(od, st). if st = Accepted \<and> GetAssetIdx (risk_asset od) s = Some i then order_value od else 0) rs)"

lemma CheckOrderRisk_funds:
  assumes "funds_ok s la" "gcl_SessionId s = sid" "order_value_ok od" "CheckOrderRisk s la sid od auth = (st, la', sid')"
  shows "funds_ok s la' \<and> sid' = sid \<and>
    (\<forall>i < MaxPositions. la_Attempt la' ! i = la_Attempt la ! i + reserved s i [(od, st)] \<and>
       (reserved s i [(od, st)] \<noteq> 0 \<longrightarrow> gcl_Attempt s ! i + la_Attempt la' ! i \<le> gcl_Confirmed s ! i))"
proof (cases "st = Accepted")
  case False
  then have "la' = la \<and> sid' = sid"
    using assms(2,4) by (auto simp: CheckOrderRisk_def Let_def split: if_splits option.splits)
  with False assms(1) show ?thesis by (simp add: reserved_def)
next
  case True
  let ?v = "order_value od"
  note v = risk_amount_value[OF assms(3)]
  from True assms(2,4) obtain k where k: "GetAssetIdx (risk_asset od) s = Some k" and sid: "sid' = sid"
    and fits: "\<not> wrap64 (gcl_Confirmed s ! k - wrap64 (gcl_Attempt s ! k + la_Attempt la ! k)) < ?v"
    and la': "la' = la \<lparr> la_Attempt := (la_Attempt la)[k := wrap64 (la_Attempt la ! k + ?v)] \<rparr>"
    using v by (auto simp: CheckOrderRisk_def Let_def GetConfirmedAt_def GetAttemptAt_def LocalAttempts_at_def LocalAttempts_set_def
        split: if_splits option.splits)
  have kM: "k < MaxPositions" using GetAssetIdx_Some[OF k] by simp
  note F = funds_okD[OF assms(1) kM]
  have len: "length (la_Attempt la) = MaxPositions" using assms(1) by (simp add: funds_ok_def)
  have le: "?v \<le> gcl_Confirmed s ! k - (gcl_Attempt s ! k + la_Attempt la ! k)" using fits F(3,5) by (simp only: wrap64_id not_less)
  have "in_i64 (la_Attempt la ! k + ?v)" using F(1,4) v le by (simp add: in_i64_def)
  then have w: "wrap64 (la_Attempt la ! k + ?v) = la_Attempt la ! k + ?v" by simp
  have r: "reserved s i [(od, st)] = (if i = k then ?v else 0)" for i using True k by (simp add: reserved_def)
  have la_i: "la_Attempt la' ! i = la_Attempt la ! i + reserved s i [(od, st)]" if "i < MaxPositions" for i
    using that len kM by (simp add: r la' w nth_list_update)
  have "in_i64 (la_Attempt la ! k + ?v)" "in_i64 (gcl_Attempt s ! k + (la_Attempt la ! k + ?v))"
    "in_i64 (gcl_Confirmed s ! k - (gcl_Attempt s ! k + (la_Attempt la ! k + ?v)))"
    using F v le by (simp_all add: in_i64_def)
  then have "funds_ok s la'" unfolding funds_ok_def using assms(1) F v la_i
    by (auto simp: funds_ok_def r la')
  then show ?thesis using la_i r le sid kM F by auto
qed

lemma reserved_Cons: "reserved s i (r # rs) = reserved s i [r] + reserved s i rs"
  by (simp add: reserved_def)

text \<open>C31. The risk check never commits the same funds twice, for orders whose value is representable: while a session
  checks any number of orders with a price that is not negative and a value \<open>Amount * Price\<close> below \<open>2 ^ 63\<close>
  (\<open>order_value_ok\<close>) against one published account whose sums do not wrap (\<open>funds_ok\<close>), the reservations of every position grow by exactly the values of the
  accepted orders, and as soon as one order was accepted, settled attempts plus reservations stay within the confirmed balance.
  The code tests neither condition, and both are needed: \<open>negative_price_buy_accepted\<close> and \<open>overflowing_buy_accepted\<close>.\<close>

theorem risk_check_never_overcommits:
  assumes "funds_ok s la" "gcl_SessionId s = sid" "\<forall>od \<in> set ods. order_value_ok od"
    "check_all s la sid ods auth = (sts, la', sid')" "i < MaxPositions"
  shows "length sts = length ods \<and> la_Attempt la' ! i = la_Attempt la ! i + reserved s i (zip ods sts) \<and>
    (reserved s i (zip ods sts) \<noteq> 0 \<longrightarrow> gcl_Attempt s ! i + la_Attempt la' ! i \<le> gcl_Confirmed s ! i)"
  using assms
proof (induction ods arbitrary: la sid sts)
  case Nil
  then show ?case by (simp add: reserved_def)
next
  case (Cons od ods)
  obtain st la1 sid1 where 1: "CheckOrderRisk s la sid od auth = (st, la1, sid1)" by (metis prod_cases3)
  obtain sts1 where 2: "check_all s la1 sid1 ods auth = (sts1, la', sid')" "sts = st # sts1"
    using Cons.prems(4) 1 by (auto split: prod.splits)
  from CheckOrderRisk_funds[OF Cons.prems(1,2) _ 1] Cons.prems(3,5) have
    3: "funds_ok s la1" "sid1 = sid" "la_Attempt la1 ! i = la_Attempt la ! i + reserved s i [(od, st)]"
      "reserved s i [(od, st)] \<noteq> 0 \<longrightarrow> gcl_Attempt s ! i + la_Attempt la1 ! i \<le> gcl_Confirmed s ! i" by auto
  have rest: "length sts1 = length ods \<and> la_Attempt la' ! i = la_Attempt la1 ! i + reserved s i (zip ods sts1) \<and>
      (reserved s i (zip ods sts1) \<noteq> 0 \<longrightarrow> gcl_Attempt s ! i + la_Attempt la' ! i \<le> gcl_Confirmed s ! i)"
    by (rule Cons.IH[OF 3(1) Cons.prems(2) _ 2(1)[unfolded 3(2)] Cons.prems(5)]) (use Cons.prems(3) in simp)
  have tot: "reserved s i (zip (od # ods) sts) = reserved s i [(od, st)] + reserved s i (zip ods sts1)"
    unfolding 2(2) zip_Cons_Cons by (rule reserved_Cons)
  have "length sts = length (od # ods)" using 2(2) rest by simp
  moreover have "la_Attempt la' ! i = la_Attempt la ! i + reserved s i (zip (od # ods) sts)" using rest 3(3) tot by linarith
  moreover have "gcl_Attempt s ! i + la_Attempt la' ! i \<le> gcl_Confirmed s ! i" if "reserved s i (zip (od # ods) sts) \<noteq> 0"
    using that tot rest 3(4) by (cases "reserved s i (zip ods sts1) = 0") linarith+
  ultimately show ?case by blast
qed

definition sample_account :: gw_ClientState where
  "sample_account = \<lparr> gcl_ClientId = 9, gcl_AssetId = map of_nat [0..<16], gcl_Confirmed = replicate 16 1000,
     gcl_Attempt = replicate 16 0, gcl_Auth = 1, gcl_SessionId = 3 \<rparr>"

definition buy_order :: "int \<Rightarrow> u32 \<Rightarrow> Order" where
  "buy_order price amount = \<lparr> ord_Price = price, ord_OrderId = 0, ord_ClientOrderId = 1, ord_ClientId = 9, ord_Amount = amount,
     ord_AssetId = 2, ord_Type = LIMIT, ord_Side = BUY, ord_Action = EXECUTE, ord_Padding = replicate 7 0 \<rparr>"

lemma sample_account_funds: "funds_ok sample_account LocalAttempts_init"
  by (simp add: funds_ok_def acc_ok_def pos_ok_def sample_account_def LocalAttempts_init_def LocalAttempts_Clear_def MaxPositions_def
      in_i64_def nth_replicate)

theorem risk_check_never_overcommits_witness:
  "\<exists>la' sid'. check_all sample_account LocalAttempts_init 3 [buy_order 70 10, buy_order 70 10, buy_order 30 10] 1 =
     ([Accepted, InsufficientFunds, Accepted], la', sid') \<and> la_Attempt la' ! 0 = 1000"
proof -
  let ?ods = "[buy_order 70 10, buy_order 70 10, buy_order 30 10]"
  have st: "fst (check_all sample_account LocalAttempts_init 3 ?ods 1) = [Accepted, InsufficientFunds, Accepted]" by code_simp
  then obtain la' sid' where c: "check_all sample_account LocalAttempts_init 3 ?ods 1 = ([Accepted, InsufficientFunds, Accepted], la', sid')"
    by (cases "check_all sample_account LocalAttempts_init 3 ?ods 1") auto
  have "gcl_SessionId sample_account = 3" "\<forall>od \<in> set ?ods. order_value_ok od" "0 < MaxPositions"
    by (simp_all add: sample_account_def order_value_ok_def buy_order_def MaxPositions_def)
  from risk_check_never_overcommits[OF sample_account_funds this(1,2) c this(3)]
  have "la_Attempt la' ! 0 = la_Attempt LocalAttempts_init ! 0 + reserved sample_account 0 (zip ?ods [Accepted, InsufficientFunds, Accepted])" by simp
  moreover have "la_Attempt LocalAttempts_init ! 0 + reserved sample_account 0 (zip ?ods [Accepted, InsufficientFunds, Accepted]) = 1000" by code_simp
  ultimately show ?thesis using c by simp
qed

section \<open>Orders the check should refuse\<close>

text \<open>The check has no test of the price: a buy order with a negative price is accepted on any live
  account that holds the cash position, whatever its balance, and it raises the client's buying power by the
  order's value instead of reserving funds.\<close>

theorem negative_price_buy_accepted:
  assumes "funds_ok s la" "gcl_SessionId s = sid" "auth \<noteq> 0" "gcl_ClientId s = ord_ClientId od" "ord_Side od = BUY"
    "GetAssetIdx 0 s = Some k" "ord_Price od < 0" "0 < ord_Amount od" "- (2 ^ 62) \<le> uint (ord_Amount od) * ord_Price od"
    "gcl_Attempt s ! k + la_Attempt la ! k \<le> gcl_Confirmed s ! k"
  shows "CheckOrderRisk s la sid od auth =
    (Accepted, la \<lparr> la_Attempt := (la_Attempt la)[k := la_Attempt la ! k + uint (ord_Amount od) * ord_Price od] \<rparr>, sid) \<and>
    la_Attempt la ! k + uint (ord_Amount od) * ord_Price od < la_Attempt la ! k"
proof -
  let ?v = "uint (ord_Amount od) * ord_Price od"
  have kM: "k < MaxPositions" using GetAssetIdx_Some[OF assms(6)] by simp
  have "0 < uint (ord_Amount od)" using assms(8) by (simp add: word_less_def)
  then have neg: "?v < 0" using assms(7) by (simp add: mult_pos_neg)
  note F = funds_okD[OF assms(1) kM]
  have i: "in_i64 ?v" "in_i64 (la_Attempt la ! k + ?v)" using F(1,2) assms(9) neg by (simp_all add: in_i64_def)
  have "risk_amount od = ?v" "risk_asset od = 0" using assms(5) i(1) by (simp_all add: risk_amount_def risk_asset_def)
  moreover have "\<not> ?v > gcl_Confirmed s ! k - (gcl_Attempt s ! k + la_Attempt la ! k)" using neg assms(10) by simp
  ultimately show ?thesis using assms(2-4,6) i neg F(3,5)
    by (simp add: CheckOrderRisk_def GetConfirmedAt_def GetAttemptAt_def LocalAttempts_at_def LocalAttempts_set_def Let_def del: wrap64_wrap)
qed

theorem negative_price_buy_accepted_witness:
  "fst (CheckOrderRisk sample_account LocalAttempts_init 3 (buy_order (- 5) 100) 1) = Accepted \<and>
   la_Attempt (fst (snd (CheckOrderRisk sample_account LocalAttempts_init 3 (buy_order (- 5) 100) 1))) ! 0 = - 500"
proof -
  have h: "gcl_SessionId sample_account = 3" "(1 :: u8) \<noteq> 0" "gcl_ClientId sample_account = ord_ClientId (buy_order (- 5) 100)"
    "ord_Side (buy_order (- 5) 100) = BUY" "ord_Price (buy_order (- 5) 100) < 0" "0 < ord_Amount (buy_order (- 5) 100)"
    "- (2 ^ 62) \<le> uint (ord_Amount (buy_order (- 5) 100)) * ord_Price (buy_order (- 5) 100)"
    "gcl_Attempt sample_account ! 0 + la_Attempt LocalAttempts_init ! 0 \<le> gcl_Confirmed sample_account ! 0"
    by (simp_all add: sample_account_def buy_order_def LocalAttempts_init_def LocalAttempts_Clear_def MaxPositions_def)
  have k: "GetAssetIdx 0 sample_account = Some 0" by code_simp
  from negative_price_buy_accepted[OF sample_account_funds h(1-4) k h(5-8)] show ?thesis
    by (simp add: LocalAttempts_init_def LocalAttempts_Clear_def MaxPositions_def buy_order_def)
qed

text \<open>Nor has it a test of the product: a buy order whose value does not fit in 64 bits is accepted on any live account that holds
  the cash position when the product wraps to a number that is not positive, as it does for two units at the largest price.  The
  order is worth more than any balance, and what is reserved for it is the wrapped product: nothing, or less than nothing.
  (In C++ the product is undefined; this is the two's complement result of the machine.)\<close>

theorem overflowing_buy_accepted:
  assumes "funds_ok s la" "gcl_SessionId s = sid" "auth \<noteq> 0" "gcl_ClientId s = ord_ClientId od" "ord_Side od = BUY"
    "GetAssetIdx 0 s = Some k" "2 ^ 63 \<le> uint (ord_Amount od) * ord_Price od" "wrap64 (uint (ord_Amount od) * ord_Price od) \<le> 0"
    "gcl_Attempt s ! k + la_Attempt la ! k \<le> gcl_Confirmed s ! k"
  shows "\<exists>la'. CheckOrderRisk s la sid od auth = (Accepted, la', sid) \<and> gcl_Confirmed s ! k < order_value od \<and>
    la_Attempt la' ! k = la_Attempt la ! k + wrap64 (uint (ord_Amount od) * ord_Price od) \<and> la_Attempt la' ! k \<le> la_Attempt la ! k"
proof -
  let ?v = "wrap64 (uint (ord_Amount od) * ord_Price od)"
  have kM: "k < MaxPositions" using GetAssetIdx_Some[OF assms(6)] by simp
  note F = funds_okD[OF assms(1) kM]
  have "- (2 ^ 63) \<le> ?v" using wrap64_in_i64 by (simp add: in_i64_def)
  then have i: "in_i64 (la_Attempt la ! k + ?v)" "gcl_Confirmed s ! k < 2 ^ 63" using F(1,2,6) assms(8) by (simp_all add: in_i64_def)
  have "risk_amount od = ?v" "risk_asset od = 0" "order_value od = uint (ord_Amount od) * ord_Price od"
    using assms(5) by (simp_all add: risk_amount_def risk_asset_def order_value_def)
  moreover have "\<not> ?v > gcl_Confirmed s ! k - (gcl_Attempt s ! k + la_Attempt la ! k)" using assms(8,9) by simp
  ultimately show ?thesis using assms(2-4,6-8) i F(3,5,7)
    by (simp add: CheckOrderRisk_def GetConfirmedAt_def GetAttemptAt_def LocalAttempts_at_def LocalAttempts_set_def Let_def del: wrap64_wrap)
qed

theorem overflowing_buy_accepted_witness:
  "\<exists>la'. CheckOrderRisk sample_account LocalAttempts_init 3 (buy_order (2 ^ 63 - 1) 2) 1 = (Accepted, la', 3) \<and> la_Attempt la' ! 0 = - 2"
proof -
  let ?o = "buy_order (2 ^ 63 - 1) 2"
  have w: "wrap64 (uint (ord_Amount ?o) * ord_Price ?o) = - 2" by code_simp
  have h: "gcl_SessionId sample_account = 3" "(1 :: u8) \<noteq> 0" "gcl_ClientId sample_account = ord_ClientId ?o"
    "ord_Side ?o = BUY" "2 ^ 63 \<le> uint (ord_Amount ?o) * ord_Price ?o"
    "gcl_Attempt sample_account ! 0 + la_Attempt LocalAttempts_init ! 0 \<le> gcl_Confirmed sample_account ! 0"
    by (simp_all add: sample_account_def buy_order_def LocalAttempts_init_def LocalAttempts_Clear_def MaxPositions_def)
  have k: "GetAssetIdx 0 sample_account = Some 0" by code_simp
  have le: "wrap64 (uint (ord_Amount ?o) * ord_Price ?o) \<le> 0" by (simp only: w)
  have "la_Attempt LocalAttempts_init ! 0 = 0" by (simp add: LocalAttempts_init_def LocalAttempts_Clear_def MaxPositions_def)
  with overflowing_buy_accepted[OF sample_account_funds h(1-4) k h(5) le h(6), unfolded w] show ?thesis by fastforce
qed

end
