(* ===== verification/Epoll_Server.thy ===== *)
theory Epoll_Server
  imports Sockets Small_Buffers Consumer
begin

text \<open>
  The TCP server every service derives its listener from (\<open>market_server/common/include/epoll_server.hpp\<close>):
  connections are accepted and registered, the bytes of a connection are cut into objects of \<open>sizeof(T)\<close>
  bytes, batches of whole objects go to the next thread, and the tail of an incomplete object waits in the
  connection's \<open>ObjectBuffer\<close>.  The handlers a derived class may define (\<open>AcceptHandle\<close>, \<open>CloseHandle\<close>,
  \<open>FirstMessageHandle\<close>, \<open>BatchHandle\<close>) and the template arguments are a \<open>server_class\<close>; a handler that is
  not defined is the identity.  Batches hold the bytes of their objects.
\<close>

section \<open>State\<close>

record 'd server_class =
  sv_sizeofT :: nat
  sv_BatchSize :: nat
  sv_sizeofInit :: "nat option"
  sv_FirstMessageHandle :: "u8 list \<Rightarrow> nat \<Rightarrow> 'd \<Rightarrow> 'd option"
  sv_AcceptHandle :: "nat \<Rightarrow> 'd \<Rightarrow> 'd option"
  sv_CloseHandle :: "nat \<Rightarrow> 'd \<Rightarrow> 'd option"
  sv_BatchHandle :: "u8 ObjectBatch \<Rightarrow> nat \<Rightarrow> 'd \<Rightarrow> (u8 ObjectBatch \<times> 'd) option"

record 'd EpollServer =
  es_Buffers :: "ObjectBuffer list"
  es_FirstMessage :: "bool list"
  es_Batches :: "u8 ObjectBatch outbox"
  es_Registered :: "nat list"
  es_errno :: errno
  es_Derived :: 'd

definition EpollServer_init :: "'d server_class \<Rightarrow> nat \<Rightarrow> u8 ObjectBatch outbox \<Rightarrow> 'd \<Rightarrow> 'd EpollServer" where
  "EpollServer_init sv nb_fds ob d =
     \<lparr> es_Buffers = replicate nb_fds (ObjectBuffer_init (sv_sizeofT sv)),
       es_FirstMessage = (if sv_sizeofInit sv = None then [] else replicate nb_fds False),
       es_Batches = ob, es_Registered = [], es_errno = OtherErrno, es_Derived = d \<rparr>"

definition put_buffer :: "nat \<Rightarrow> ObjectBuffer \<Rightarrow> 'd EpollServer \<Rightarrow> 'd EpollServer" where
  "put_buffer fd b es = es \<lparr> es_Buffers := (es_Buffers es)[fd := b] \<rparr>"

definition put_pool :: "u8 ObjectBatch StoragePool \<Rightarrow> 'd EpollServer \<Rightarrow> 'd EpollServer" where
  "put_pool p es = es \<lparr> es_Batches := (es_Batches es) \<lparr> ob_Pool := p \<rparr> \<rparr>"

definition local_release :: "ptr \<Rightarrow> 'd EpollServer \<Rightarrow> 'd EpollServer" where
  "local_release x es = put_pool (snd (StoragePool_LocalRelease (Some x) (ob_Pool (es_Batches es)))) es"

section \<open>Connections\<close>

text \<open>What \<open>accept\<close>, \<open>fcntl\<close> and \<open>epoll_ctl\<close> answer for a new connection.\<close>

record accepted =
  acc_fd :: nat
  acc_nonblocking :: bool
  acc_registered :: bool

definition addClient :: "'d server_class \<Rightarrow> accepted \<Rightarrow> 'd EpollServer \<Rightarrow> 'd EpollServer option" where
  "addClient sv a es =
     (let fd = acc_fd a
      in if \<not> acc_nonblocking a \<or> \<not> fd < length (es_Buffers es) then None
         else do {
           es \<leftarrow> Some (if acc_registered a then es \<lparr> es_Registered := fd # es_Registered es \<rparr> else es);
           es \<leftarrow> Some (if sv_sizeofInit sv = None then es else es \<lparr> es_FirstMessage := (es_FirstMessage es)[fd := True] \<rparr>);
           d \<leftarrow> sv_AcceptHandle sv fd (es_Derived es);
           Some (put_buffer fd (ObjectBuffer_init (sv_sizeofT sv)) (es \<lparr> es_Derived := d \<rparr>)) })"

definition removeClient :: "'d server_class \<Rightarrow> nat \<Rightarrow> 'd EpollServer \<Rightarrow> 'd EpollServer option" where
  "removeClient sv fd es = do {
     d \<leftarrow> sv_CloseHandle sv fd (es_Derived es);
     Some (put_buffer fd (clearBuffer (es_Buffers es ! fd))
       (es \<lparr> es_Derived := d, es_Registered := removeAll fd (es_Registered es) \<rparr>)) }"

section \<open>Reading\<close>

text \<open>The loop that collects the first message: whether the connection is to be removed, \<open>nread\<close>, the buffer,
  \<open>errno\<close> and what is left on the socket.\<close>

partial_function (option) read_first ::
  "nat \<Rightarrow> int \<Rightarrow> ObjectBuffer \<Rightarrow> errno \<Rightarrow> arrival list \<Rightarrow> (bool \<times> int \<times> ObjectBuffer \<times> errno \<times> arrival list) option" where
  "read_first n nread buffer e as =
     (if obf_BufferSize buffer < n
      then (case recv (n - obf_BufferSize buffer) as e of (nread, bs, e, as) \<Rightarrow>
              if nread > 0
              then (case addBytes bs buffer of (ok, buffer) \<Rightarrow>
                      if ok then read_first n nread buffer e as else Some (True, nread, buffer, e, as))
              else if nread = 0 then Some (True, nread, buffer, e, as)
              else Some (\<not> retriable e, nread, buffer, e, as))
      else Some (False, nread, buffer, e, as))"

text \<open>The bytes that stay behind when a read ends inside an object.  The source adds \<open>sizeof(T) * batchSize\<close>
  to a pointer to \<open>T\<close>, so the copy starts \<open>sizeof(T) * sizeof(T) * batchSize\<close> bytes into the batch; a
  copy that leaves the batch is \<open>None\<close>, one of no bytes has no effect.\<close>

definition leftover :: "nat \<Rightarrow> nat \<Rightarrow> nat \<Rightarrow> u8 list \<Rightarrow> u8 list option" where
  "leftover sizeofT batchSize bufferSize data =
     (let off = sizeofT * (sizeofT * batchSize)
      in if bufferSize = 0 then Some []
         else if off + bufferSize \<le> length data then Some (take bufferSize (drop off data))
         else None)"

text \<open>A batch that received data: it is cut, its tail is kept, and it is handed over when it holds an object.\<close>

definition deliver :: "'d server_class \<Rightarrow> nat \<Rightarrow> ptr \<Rightarrow> u8 list \<Rightarrow> nat \<Rightarrow> 'd EpollServer \<Rightarrow> 'd EpollServer option" where
  "deliver sv fd x data got es =
     (let batchSize = got div sv_sizeofT sv; bufferSize = got mod sv_sizeofT sv;
          b = (sp_Storage (ob_Pool (es_Batches es)) x) \<lparr> bat_Data := data, bat_Fd := of_nat fd, bat_Size := batchSize \<rparr>
      in do {
        tail \<leftarrow> leftover (sv_sizeofT sv) batchSize bufferSize data;
        es \<leftarrow> Some (put_buffer fd (snd (addBytes tail (clearBuffer (es_Buffers es ! fd)))) es);
        if batchSize > 0
        then do {
          (b, d) \<leftarrow> sv_BatchHandle sv b fd (es_Derived es);
          es \<leftarrow> Some (put_pool (store_msg x b (ob_Pool (es_Batches es))) (es \<lparr> es_Derived := d \<rparr>));
          case Producer_TryPush x (ob_Queue (es_Batches es)) of (ok, c) \<Rightarrow>
            (let es = es \<lparr> es_Batches := (es_Batches es) \<lparr> ob_Queue := c \<rparr> \<rparr>
             in Some (if ok then es else local_release x es)) }
        else Some (local_release x (put_pool (store_msg x b (ob_Pool (es_Batches es))) es)) })"

partial_function (option) read_batches ::
  "'d server_class \<Rightarrow> nat \<Rightarrow> int \<Rightarrow> arrival list \<Rightarrow> 'd EpollServer \<Rightarrow> (int \<times> arrival list \<times> 'd EpollServer) option" where
  "read_batches sv fd nread as es =
     (case StoragePool_Acquire (ob_Pool (es_Batches es)) of
        (None, p) \<Rightarrow> Some (nread, as, put_pool p es)
      | (Some x, p) \<Rightarrow>
          (let buffer = es_Buffers es ! fd; old = sp_Storage p x;
               data = overlay 0 (obf_bytes buffer) (bat_Data old);
               es = put_pool p es
           in (case recv (sv_sizeofT sv * sv_BatchSize sv - obf_BufferSize buffer) as (es_errno es) of (nread, bs, e, as) \<Rightarrow>
                 (let es = es \<lparr> es_errno := e \<rparr>
                  in if nread \<le> 0
                     then (let es = local_release x (put_pool (store_msg x (old \<lparr> bat_Data := data \<rparr>) (ob_Pool (es_Batches es))) es)
                           in if e = EINTR then read_batches sv fd nread as es else Some (nread, as, es))
                     else do {
                       es \<leftarrow> deliver sv fd x (overlay (obf_BufferSize buffer) bs data) (nat nread + obf_BufferSize buffer) es;
                       read_batches sv fd nread as es }))))"

definition readMessage :: "'d server_class \<Rightarrow> nat \<Rightarrow> arrival list \<Rightarrow> 'd EpollServer \<Rightarrow> (arrival list \<times> 'd EpollServer) option" where
  "readMessage sv fd as es =
     (if \<not> fd < length (es_Buffers es) then None
      else
        let rest = (\<lambda>nread as es. do {
              (nread, as, es) \<leftarrow> read_batches sv fd nread as es;
              if nread = 0 then do { es \<leftarrow> removeClient sv fd es; Some (as, es) }
              else if nread < 0 \<and> \<not> retriable (es_errno es) then do { es \<leftarrow> removeClient sv fd es; Some (as, es) }
              else Some (as, es) })
        in (case sv_sizeofInit sv of
              None \<Rightarrow> rest (- 1) as es
            | Some n \<Rightarrow>
                (if \<not> es_FirstMessage es ! fd then rest (- 1) as es
                 else do {
                   (gone, nread, buffer, e, as) \<leftarrow> read_first n (- 1) (es_Buffers es ! fd) (es_errno es) as;
                   es \<leftarrow> Some (put_buffer fd buffer (es \<lparr> es_errno := e \<rparr>));
                   if gone then do { es \<leftarrow> removeClient sv fd es; Some (as, es) }
                   else if obf_BufferSize buffer \<ge> n
                   then do {
                     (msg, buffer) \<leftarrow> readBytes n buffer;
                     d \<leftarrow> sv_FirstMessageHandle sv msg fd (es_Derived es);
                     rest nread as (put_buffer fd buffer (es \<lparr> es_Derived := d, es_FirstMessage := (es_FirstMessage es)[fd := False] \<rparr>)) }
                   else Some (as, es) })))"

section \<open>Events\<close>

datatype event = Incoming "accepted list" | Ready nat bool bool "arrival list"

text \<open>\<open>Ready fd epollin hangup as\<close>: the flags of an event on a connection and what its socket has to offer.\<close>

definition readEvent :: "'d server_class \<Rightarrow> nat \<Rightarrow> bool \<Rightarrow> bool \<Rightarrow> arrival list \<Rightarrow> 'd EpollServer \<Rightarrow> 'd EpollServer option" where
  "readEvent sv fd epollin hangup as es =
     (if epollin then map_option snd (readMessage sv fd as es)
      else if hangup then removeClient sv fd es
      else Some es)"

fun clientAcceptLoop :: "'d server_class \<Rightarrow> accepted list \<Rightarrow> 'd EpollServer \<Rightarrow> 'd EpollServer option" where
  "clientAcceptLoop sv [] es = Some es"
| "clientAcceptLoop sv (a # as) es = do { es \<leftarrow> addClient sv a es; clientAcceptLoop sv as es }"

fun handle_event :: "'d server_class \<Rightarrow> event \<Rightarrow> 'd EpollServer \<Rightarrow> 'd EpollServer option" where
  "handle_event sv (Incoming as) es = clientAcceptLoop sv as es"
| "handle_event sv (Ready fd epollin hangup as) es = readEvent sv fd epollin hangup as es"

fun server_round :: "'d server_class \<Rightarrow> event list \<Rightarrow> 'd EpollServer \<Rightarrow> 'd EpollServer option" where
  "server_round sv [] es = Some es"
| "server_round sv (ev # evs) es = do { es \<leftarrow> handle_event sv ev es; server_round sv evs es }"

section \<open>A batch on loan\<close>

text \<open>Between \<open>Acquire\<close> and the push or the release the batch belongs to the reader alone.\<close>

definition with_sent :: "'a outbox \<Rightarrow> 'a \<Rightarrow> 'a outbox \<Rightarrow> bool" where
  "with_sent ob v ob' \<longleftrightarrow> outbox_inv ob' \<and> outbox_msgs ob' = outbox_msgs ob @ [v] \<and> outbox_room ob = Suc (outbox_room ob')"

definition with_kept :: "'a outbox \<Rightarrow> 'a outbox \<Rightarrow> bool" where
  "with_kept ob ob' \<longleftrightarrow> outbox_inv ob' \<and> outbox_msgs ob' = outbox_msgs ob \<and> outbox_room ob' = outbox_room ob"

lemma outbox_loan:
  assumes "outbox_inv ob" "0 < outbox_room ob"
  shows "\<exists>x p c. StoragePool_Acquire (ob_Pool ob) = (Some x, p) \<and> sp_Storage p = sp_Storage (ob_Pool ob) \<and>
    Producer_TryPush x (ob_Queue ob) = (True, c) \<and>
    (\<forall>v. with_sent ob v \<lparr> ob_Pool = store_msg x v p, ob_Queue = c \<rparr>) \<and>
    (\<forall>v. with_kept ob \<lparr> ob_Pool = snd (StoragePool_LocalRelease (Some x) (store_msg x v p)), ob_Queue = ob_Queue ob \<rparr>)"
proof -
  have l: "mailbox.linked (ob_Pool ob) (ob_Queue ob)" "sp_free (ob_Pool ob) \<noteq> []"
    using assms by (auto simp: outbox_inv_linked outbox_room_def)
  from mailbox.acquire_push[OF this] obtain x p c where
    a: "StoragePool_Acquire (ob_Pool ob) = (Some x, p)"
    and pu: "Producer_TryPush x (ob_Queue ob) = (True, c)" and fr: "x \<notin> set (channel_items (ob_Queue ob))"
    and it: "channel_items c = channel_items (ob_Queue ob) @ [x]" and lc: "mailbox.linked p c"
    and len: "length (sp_free (ob_Pool ob)) = Suc (length (sp_free p))" by blast
  have st: "sp_Storage p = sp_Storage (ob_Pool ob)" using StoragePool_Storage(1)[of "ob_Pool ob"] by (simp add: a)
  have inv: "sp_inv (ob_Pool ob)" using assms(1) by (simp add: outbox_inv_def)
  from sp.acquire_fresh[OF inv a] have x: "x \<in> sp_all p" "x \<notin> set (sp_free p)" "sp_inv p" "sp_all p = sp_all (ob_Pool ob)" by auto
  from sp.acquire_some[OF inv l(2)] a have free: "set (sp_free p) = set (sp_free (ob_Pool ob)) - {x}" "x \<in> set (sp_free (ob_Pool ob))" by auto
  have sent: "with_sent ob v \<lparr> ob_Pool = store_msg x v p, ob_Queue = c \<rparr>" for v
    using lc fr len unfolding with_sent_def outbox_inv_linked
    by (auto simp: mailbox.linked_def outbox_msgs_def outbox_room_def it st)
  have kept: "with_kept ob \<lparr> ob_Pool = snd (StoragePool_LocalRelease (Some x) (store_msg x v p)), ob_Queue = ob_Queue ob \<rparr>" for v
  proof -
    have q: "sp_inv (store_msg x v p)" "x \<in> sp_all (store_msg x v p)" "x \<notin> set (sp_free (store_msg x v p))" using x by simp_all
    from sp_LocalRelease_out[OF q] obtain p' where
      p': "StoragePool_LocalRelease (Some x) (store_msg x v p) = (True, p')" "sp_inv p'"
        "set (sp_free p') = insert x (set (sp_free (store_msg x v p)))" "sp_all p' = sp_all (store_msg x v p)" by blast
    have s': "sp_Storage p' = (sp_Storage p)(x := v)"
      using StoragePool_Storage(3)[of "Some x" "store_msg x v p"] by (simp add: p'(1))
    have f: "set (sp_free p') = set (sp_free (ob_Pool ob))" using p'(3) free by auto
    have "length (sp_free p') = length (sp_free (ob_Pool ob))"
      using f sp.free_distinct[OF p'(2)] sp.free_distinct[OF inv] by (metis distinct_card)
    moreover have "mailbox.linked p' (ob_Queue ob)" using l(1) f p'(2,4) x(4) by (simp add: mailbox.linked_def)
    ultimately show ?thesis using fr
      by (simp add: with_kept_def outbox_inv_linked outbox_msgs_def outbox_room_def p'(1) s' st)
  qed
  from a st pu sent kept show ?thesis by blast
qed

section \<open>Well-cut arrivals\<close>

text \<open>A read either stays inside one object or ends at the end of one: with \<open>r\<close> bytes already waiting, no chunk
  completes an object and starts the next.\<close>

fun well_cut :: "nat \<Rightarrow> nat \<Rightarrow> nat \<Rightarrow> u8 list list \<Rightarrow> bool" where
  "well_cut sz cap r [] = True"
| "well_cut sz cap r (bs # cs) \<longleftrightarrow> bs \<noteq> [] \<and> r + length bs \<le> cap \<and> (r + length bs < sz \<or> sz dvd r + length bs) \<and>
     well_cut sz cap ((r + length bs) mod sz) cs"

text \<open>The chunks that remain when the first \<open>n\<close> bytes have been read.\<close>

fun skip_bytes :: "nat \<Rightarrow> u8 list list \<Rightarrow> u8 list list" where
  "skip_bytes n [] = []"
| "skip_bytes n (bs # cs) = (if n = 0 then bs # cs else if length bs \<le> n then skip_bytes (n - length bs) cs else drop n bs # cs)"

lemma concat_skip_bytes: "concat (skip_bytes n cs) = drop n (concat cs)"
  by (induction n cs rule: skip_bytes.induct) auto

lemma read_first_bytes:
  assumes "obf_inv N b" "n \<le> N" "obf_BufferSize b \<le> n" "n \<le> obf_BufferSize b + length (concat cs)" "\<forall>bs \<in> set cs. bs \<noteq> []"
  shows "\<exists>nread b'. read_first n nread0 b e (map Bytes cs) = Some (False, nread, b', e, map Bytes (skip_bytes (n - obf_BufferSize b) cs)) \<and>
    obf_inv N b' \<and> obf_BufferSize b' = n \<and> obf_bytes b' = obf_bytes b @ take (n - obf_BufferSize b) (concat cs)"
  using assms
proof (induction cs arbitrary: b nread0)
  case Nil
  then show ?case by (simp add: read_first.simps)
next
  case (Cons bs cs)
  let ?k = "n - obf_BufferSize b"
  show ?case
  proof (cases "?k = 0")
    case True
    with Cons.prems show ?thesis by (simp add: read_first.simps)
  next
    case False
    have "obf_BufferSize b + length (take ?k bs) \<le> N" using Cons.prems(2,3) by auto
    from addBytes_fits[OF Cons.prems(1) this] obtain b1 where
      b1: "addBytes (take ?k bs) b = (True, b1)" "obf_inv N b1" "obf_bytes b1 = obf_bytes b @ take ?k bs"
        "obf_BufferSize b1 = obf_BufferSize b + length (take ?k bs)" by blast
    have step: "read_first n nread0 b e (map Bytes (bs # cs)) =
        read_first n (int (length (take ?k bs))) b1 e (if length bs \<le> ?k then map Bytes cs else Bytes (drop ?k bs) # map Bytes cs)"
      using False Cons.prems(5) b1(1) by (subst read_first.simps) simp
    show ?thesis
    proof (cases "length bs \<le> ?k")
      case True
      have "\<exists>nread b'. read_first n (int (length (take ?k bs))) b1 e (map Bytes cs) =
            Some (False, nread, b', e, map Bytes (skip_bytes (n - obf_BufferSize b1) cs)) \<and> obf_inv N b' \<and> obf_BufferSize b' = n \<and>
          obf_bytes b' = obf_bytes b1 @ take (n - obf_BufferSize b1) (concat cs)"
        using Cons.prems True b1 by (intro Cons.IH) auto
      then show ?thesis using True False b1 Cons.prems(3) unfolding step by (auto simp: diff_diff_add add.commute)
    next
      case long: False
      then have "obf_BufferSize b1 = n" using b1(4) Cons.prems(3) by simp
      then show ?thesis using long False b1 unfolding step by (simp add: read_first.simps)
    qed
  qed
qed

section \<open>Framing\<close>

definition es_inv :: "'d server_class \<Rightarrow> 'd EpollServer \<Rightarrow> bool" where
  "es_inv sv es \<longleftrightarrow> outbox_inv (es_Batches es) \<and>
     (\<forall>x. length (bat_Data (sp_Storage (ob_Pool (es_Batches es)) x)) = sv_sizeofT sv * sv_BatchSize sv) \<and>
     (\<forall>b \<in> set (outbox_msgs (es_Batches es)). bat_Size b \<le> sv_BatchSize sv) \<and>
     (\<forall>b \<in> set (es_Buffers es). obf_inv (sv_sizeofT sv) b \<and> obf_BufferSize b < sv_sizeofT sv)"

text \<open>The bytes of the objects handed over so far, and of the object a connection has begun.\<close>

definition delivered :: "'d server_class \<Rightarrow> 'd EpollServer \<Rightarrow> u8 list" where
  "delivered sv es = concat (map (\<lambda>b. take (sv_sizeofT sv * bat_Size b) (bat_Data b)) (outbox_msgs (es_Batches es)))"

definition pending :: "'d EpollServer \<Rightarrow> nat \<Rightarrow> u8 list" where
  "pending es fd = obf_bytes (es_Buffers es ! fd)"

text \<open>The batches of connection \<open>fd\<close>, as the handler of the derived class left them; and what reading a connection may change.\<close>

definition handled :: "'d server_class \<Rightarrow> nat \<Rightarrow> 'd \<Rightarrow> u8 ObjectBatch list \<Rightarrow> bool" where
  "handled sv fd d bs \<longleftrightarrow> (\<forall>b \<in> set bs. \<exists>b0. bat_Fd b0 = of_nat fd \<and> sv_BatchHandle sv b0 fd d = Some (b, d))"

definition same_elsewhere :: "'d server_class \<Rightarrow> nat \<Rightarrow> 'd EpollServer \<Rightarrow> 'd EpollServer \<Rightarrow> bool" where
  "same_elsewhere sv fd es es' \<longleftrightarrow> es_FirstMessage es' = es_FirstMessage es \<and> es_Registered es' = es_Registered es \<and>
     es_Derived es' = es_Derived es \<and> (\<exists>b. es_Buffers es' = (es_Buffers es)[fd := b]) \<and>
     (\<exists>bs. outbox_msgs (es_Batches es') = outbox_msgs (es_Batches es) @ bs \<and> handled sv fd (es_Derived es) bs)"

lemma same_elsewhere_trans: "same_elsewhere sv fd es es' \<Longrightarrow> same_elsewhere sv fd es' es'' \<Longrightarrow> same_elsewhere sv fd es es''"
  by (auto simp: same_elsewhere_def handled_def)

lemma same_elsewhere_refl: "same_elsewhere sv fd es es"
  unfolding same_elsewhere_def handled_def by (auto intro: exI[of _ "es_Buffers es ! fd"])

lemma es_put_simps [simp]:
  "es_Batches (put_buffer fd b es) = es_Batches es" "es_Buffers (put_buffer fd b es) = (es_Buffers es)[fd := b]"
  "es_Derived (put_buffer fd b es) = es_Derived es" "es_errno (put_buffer fd b es) = es_errno es"
  "es_FirstMessage (put_buffer fd b es) = es_FirstMessage es" "es_Registered (put_buffer fd b es) = es_Registered es"
  "es_Batches (put_pool p es) = (es_Batches es) \<lparr> ob_Pool := p \<rparr>" "es_Buffers (put_pool p es) = es_Buffers es"
  "es_Derived (put_pool p es) = es_Derived es" "es_errno (put_pool p es) = es_errno es"
  "es_FirstMessage (put_pool p es) = es_FirstMessage es" "es_Registered (put_pool p es) = es_Registered es"
  by (simp_all add: put_buffer_def put_pool_def)

lemma release_unused:
  assumes "es_inv sv es" "0 < outbox_room (es_Batches es)" "0 < sv_BatchSize sv" "fd < length (es_Buffers es)"
  shows "\<exists>x p. StoragePool_Acquire (ob_Pool (es_Batches es)) = (Some x, p) \<and>
    (let old = sp_Storage p x; es' = local_release x (put_pool (store_msg x (old \<lparr> bat_Data := overlay 0 (obf_bytes (es_Buffers es ! fd)) (bat_Data old) \<rparr>) p)
         ((put_pool p es) \<lparr> es_errno := e \<rparr>))
     in es_inv sv es' \<and> outbox_room (es_Batches es') = outbox_room (es_Batches es) \<and> outbox_msgs (es_Batches es') = outbox_msgs (es_Batches es) \<and>
       es_Buffers es' = es_Buffers es \<and> es_errno es' = e)"
proof -
  from outbox_loan[OF _ assms(2)] assms(1) obtain x p where
    l: "StoragePool_Acquire (ob_Pool (es_Batches es)) = (Some x, p)" "sp_Storage p = sp_Storage (ob_Pool (es_Batches es))"
    and k: "\<And>v. with_kept (es_Batches es) \<lparr> ob_Pool = snd (StoragePool_LocalRelease (Some x) (store_msg x v p)), ob_Queue = ob_Queue (es_Batches es) \<rparr>"
    by (auto simp: es_inv_def)
  let ?buf = "es_Buffers es ! fd"
  let ?v = "(sp_Storage p x) \<lparr> bat_Data := overlay 0 (obf_bytes ?buf) (bat_Data (sp_Storage p x)) \<rparr>"
  have "?buf \<in> set (es_Buffers es)" using assms(4) by simp
  then have b: "obf_inv (sv_sizeofT sv) ?buf" "obf_BufferSize ?buf < sv_sizeofT sv" using assms(1) by (auto simp: es_inv_def)
  have "sv_sizeofT sv \<le> sv_sizeofT sv * sv_BatchSize sv" using assms(3) by simp
  then have "length (obf_bytes ?buf) \<le> sv_sizeofT sv * sv_BatchSize sv" using b length_obf_bytes[OF b(1)] by linarith
  moreover have "length (bat_Data (sp_Storage p x)) = sv_sizeofT sv * sv_BatchSize sv" using assms(1) l(2) by (simp add: es_inv_def)
  ultimately have "length (bat_Data ?v) = sv_sizeofT sv * sv_BatchSize sv" by simp
  note len = this
  have upd: "(es_Batches es) \<lparr> ob_Pool := q \<rparr> = \<lparr> ob_Pool = q, ob_Queue = ob_Queue (es_Batches es) \<rparr>" for q
    by (cases "es_Batches es") simp
  show ?thesis using l k[of ?v] assms(1) len
    by (intro exI[of _ x] exI[of _ p]) (simp add: Let_def es_inv_def local_release_def put_pool_def with_kept_def upd)
qed

section \<open>Reads the loop does not survive\<close>

text \<open>The tail of a read that completes an object and starts the next is copied from outside the batch, unless
  the batch has more objects than an object has bytes.\<close>

lemma read_batches_misaligned:
  assumes loan: "StoragePool_Acquire (ob_Pool (es_Batches es)) = (Some x, p)"
    and bs: "obf_BufferSize (es_Buffers es ! fd) + length bs \<le> sv_sizeofT sv * sv_BatchSize sv" "bs \<noteq> []"
    and old: "length (bat_Data (sp_Storage p x)) = sv_sizeofT sv * sv_BatchSize sv"
      "length (obf_bytes (es_Buffers es ! fd)) = obf_BufferSize (es_Buffers es ! fd)"
    and mis: "(length bs + obf_BufferSize (es_Buffers es ! fd)) mod sv_sizeofT sv \<noteq> 0"
      "sv_BatchSize sv \<le> sv_sizeofT sv * ((length bs + obf_BufferSize (es_Buffers es ! fd)) div sv_sizeofT sv)"
  shows "read_batches sv fd nread (Bytes bs # as) es = None"
proof -
  let ?r = "obf_BufferSize (es_Buffers es ! fd)" and ?sz = "sv_sizeofT sv"
  define data where "data = overlay ?r bs (overlay 0 (obf_bytes (es_Buffers es ! fd)) (bat_Data (sp_Storage p x)))"
  have ld: "length data = ?sz * sv_BatchSize sv" using old bs(1) by (simp add: data_def)
  have "?sz * sv_BatchSize sv \<le> ?sz * (?sz * ((length bs + ?r) div ?sz))" by (rule mult_le_mono2[OF mis(2)])
  then have "\<not> ?sz * (?sz * ((length bs + ?r) div ?sz)) + (length bs + ?r) mod ?sz \<le> length data" using mis(1) ld by linarith
  then have "leftover (sv_sizeofT sv) ((length bs + ?r) div ?sz) ((length bs + ?r) mod ?sz) data = None"
    unfolding leftover_def Let_def using mis(1) by simp
  then have "deliver sv fd x data (length bs + ?r) es' = None" for es' by (simp add: deliver_def Let_def)
  moreover have "length bs \<le> ?sz * sv_BatchSize sv - ?r" using bs(1) by simp
  ultimately show ?thesis using loan bs(2) by (subst read_batches.simps) (simp add: Let_def data_def)
qed

text \<open>An interrupted read followed by the end of the stream: \<open>recv\<close> returns 0 and leaves \<open>errno\<close> at \<open>EINTR\<close>, which
  the loop takes for another interruption, for ever.\<close>

definition interrupted :: "'d server_class \<Rightarrow> nat \<Rightarrow> 'd EpollServer \<Rightarrow> bool" where
  "interrupted sv fd es \<longleftrightarrow> es_inv sv es \<and> 0 < outbox_room (es_Batches es) \<and> 0 < sv_BatchSize sv \<and> fd < length (es_Buffers es) \<and> es_errno es = EINTR"

lemma read_batches_closed:
  assumes "interrupted sv fd es"
  shows "read_batches sv fd nread (Closed # as) es = None"
proof (rule ccontr)
  assume "read_batches sv fd nread (Closed # as) es \<noteq> None"
  then obtain res where r: "read_batches sv fd nread (Closed # as) es = Some res" by blast
  have "Closed # as = Closed # as \<longrightarrow> interrupted sv fd es \<longrightarrow> False"
  proof (rule read_batches.raw_induct[where P = "\<lambda>sv fd nread bs es res. bs = Closed # as \<longrightarrow> interrupted sv fd es \<longrightarrow> False", OF _ r], intro impI)
    fix loop and sv :: "'a server_class" and fd nread bs es res
    assume IH: "\<And>sv fd nread bs es res. loop sv fd nread bs es = Some res \<Longrightarrow> bs = Closed # as \<longrightarrow> interrupted sv fd es \<longrightarrow> False"
      and body: "(case StoragePool_Acquire (ob_Pool (es_Batches es)) of
        (None, p) \<Rightarrow> Some (nread, bs, put_pool p es)
      | (Some x, p) \<Rightarrow>
          let buffer = es_Buffers es ! fd; old = sp_Storage p x; data = overlay 0 (obf_bytes buffer) (bat_Data old); es = put_pool p es
          in case recv (sv_sizeofT sv * sv_BatchSize sv - obf_BufferSize buffer) bs (es_errno es) of (nread, cs, e, bs) \<Rightarrow>
               let es = es \<lparr> es_errno := e \<rparr>
               in if nread \<le> 0
                  then let es = local_release x (put_pool (store_msg x (old \<lparr> bat_Data := data \<rparr>) (ob_Pool (es_Batches es))) es)
                       in if e = EINTR then loop sv fd nread bs es else Some (nread, bs, es)
                  else deliver sv fd x (overlay (obf_BufferSize buffer) cs data) (nat nread + obf_BufferSize buffer) es \<bind> loop sv fd nread bs) = Some res"
      and bs: "bs = Closed # as" and i: "interrupted sv fd es"
    from release_unused[of sv es fd EINTR] i obtain x p where
      a: "StoragePool_Acquire (ob_Pool (es_Batches es)) = (Some x, p)"
      and n: "interrupted sv fd (local_release x (put_pool (store_msg x (sp_Storage p x \<lparr> bat_Data := overlay 0 (obf_bytes (es_Buffers es ! fd)) (bat_Data (sp_Storage p x)) \<rparr>) p)
         ((put_pool p es) \<lparr> es_errno := EINTR \<rparr>)))" by (auto simp: interrupted_def Let_def)
    have "es_errno es = EINTR" using i by (simp add: interrupted_def)
    then show False using body a IH[OF _ ] n bs by (auto simp: Let_def)
  qed
  with assms show False by simp
qed

section \<open>The contract of a derived class\<close>

text \<open>The contract between the server and a derived class: with connections below \<open>nfds\<close> and its own state
  valid, the handlers return and keep the state valid; the batch handler leaves the state and the objects of
  the batch alone.\<close>

locale epoll_handlers =
  fixes sv :: "'d server_class" and dinv :: "'d \<Rightarrow> bool" and nfds :: nat
  assumes sizes: "0 < sv_sizeofT sv" "0 < sv_BatchSize sv"
    and batch_handle: "dinv d \<Longrightarrow> fd < nfds \<Longrightarrow> \<exists>b'. sv_BatchHandle sv b fd d = Some (b', d) \<and>
          bat_Data b' = bat_Data b \<and> bat_Size b' = bat_Size b"
    and close_handle: "dinv d \<Longrightarrow> fd < nfds \<Longrightarrow> \<exists>d'. sv_CloseHandle sv fd d = Some d' \<and> dinv d'"
begin

definition ok :: "'d EpollServer \<Rightarrow> bool" where
  "ok es \<longleftrightarrow> es_inv sv es \<and> dinv (es_Derived es) \<and> length (es_Buffers es) = nfds"

text \<open>The bytes of an incomplete message go to the buffer of the connection.\<close>

lemma tail_buffered:
  assumes buf: "obf_inv (sv_sizeofT sv) buf" "obf_BufferSize buf = 0"
    and data: "got \<le> length data" "got < sv_sizeofT sv \<or> sv_sizeofT sv dvd got"
  defines "tail \<equiv> if got mod sv_sizeofT sv = 0 then [] else take got data"
  obtains b' where "leftover (sv_sizeofT sv) (got div sv_sizeofT sv) (got mod sv_sizeofT sv) data = Some tail"
    "addBytes tail buf = (True, b')" "obf_inv (sv_sizeofT sv) b'" "obf_bytes b' = tail" "obf_BufferSize b' = got mod sv_sizeofT sv"
proof -
  let ?sz = "sv_sizeofT sv" and ?m = "got mod sv_sizeofT sv"
  have small: "?m \<noteq> 0 \<Longrightarrow> got < ?sz" using data(2) by auto
  have lt: "leftover ?sz (got div ?sz) ?m data = Some tail"
    using small data(1) by (auto simp: leftover_def tail_def Let_def)
  have ltail: "length tail = ?m" using small data(1) by (auto simp: tail_def)
  then have fits: "obf_BufferSize buf + length tail \<le> ?sz" using buf(2) sizes(1) mod_less_divisor[of ?sz got] by simp
  have "obf_bytes buf = []" using buf(2) by (simp add: obf_bytes_def)
  then show ?thesis using addBytes_fits[OF buf(1) fits] that[OF lt] buf(2) ltail by auto
qed

lemma deliver_aligned:
  assumes ok: "ok es" and fd: "fd < nfds"
    and loan: "sp_Storage p = sp_Storage (ob_Pool (es_Batches es))" "Producer_TryPush x (ob_Queue (es_Batches es)) = (True, c)"
      "\<forall>v. with_sent (es_Batches es) v \<lparr> ob_Pool = store_msg x v p, ob_Queue = c \<rparr>"
      "\<forall>v. with_kept (es_Batches es) \<lparr> ob_Pool = snd (StoragePool_LocalRelease (Some x) (store_msg x v p)), ob_Queue = ob_Queue (es_Batches es) \<rparr>"
    and data: "length data = sv_sizeofT sv * sv_BatchSize sv" "got \<le> length data" "0 < got"
    and cut: "got < sv_sizeofT sv \<or> sv_sizeofT sv dvd got"
  shows "\<exists>es'. deliver sv fd x data got ((put_pool p es) \<lparr> es_errno := e \<rparr>) = Some es' \<and> ok es' \<and>
    delivered sv es' @ pending es' fd = delivered sv es @ take got data \<and> es_errno es' = e \<and> same_elsewhere sv fd es es' \<and>
    obf_BufferSize (es_Buffers es' ! fd) = got mod sv_sizeofT sv \<and> outbox_room (es_Batches es) \<le> Suc (outbox_room (es_Batches es'))"
proof -
  let ?sz = "sv_sizeofT sv" and ?k = "got div sv_sizeofT sv" and ?m = "got mod sv_sizeofT sv"
  let ?es = "(put_pool p es) \<lparr> es_errno := e \<rparr>" and ?buf = "clearBuffer (es_Buffers es ! fd)"
  let ?b = "(sp_Storage p x) \<lparr> bat_Data := data, bat_Fd := of_nat fd, bat_Size := ?k \<rparr>"
  have inv: "es_inv sv es" "dinv (es_Derived es)" and len: "length (es_Buffers es) = nfds" using ok by (auto simp: ok_def)
  have bufs: "\<forall>b \<in> set (es_Buffers es). obf_inv ?sz b \<and> obf_BufferSize b < ?sz" using inv(1) by (simp add: es_inv_def)
  then have buf: "obf_inv ?sz ?buf" "obf_BufferSize ?buf = 0" using fd len by (simp_all add: clearBuffer_def obf_inv_def)
  have stored: "\<forall>y. length (bat_Data (((sp_Storage p)(x := v)) y)) = ?sz * sv_BatchSize sv" if "bat_Data v = data" for v
    using inv(1) data(1) loan(1) that by (simp add: es_inv_def)
  define tail where "tail = (if ?m = 0 then [] else take got data)"
  have small: "?m \<noteq> 0 \<Longrightarrow> got < ?sz" using cut by auto
  obtain b' where lt: "leftover ?sz ?k ?m data = Some tail"
    and b': "addBytes tail ?buf = (True, b')" "obf_inv ?sz b'" "obf_bytes b' = tail" "obf_BufferSize b' = ?m"
    by (rule tail_buffered[OF buf data(2) cut, folded tail_def])
  have bufs': "\<forall>b \<in> set ((es_Buffers es)[fd := b']). obf_inv ?sz b \<and> obf_BufferSize b < ?sz"
    using bufs b' sizes(1) set_update_subset_insert[of "es_Buffers es" fd b'] by auto
  show ?thesis
  proof (cases "?k > 0")
    case True
    then have m0: "?m = 0" using small by (metis div_less less_not_refl)
    from batch_handle[OF inv(2) fd, of ?b] obtain v where
      v: "sv_BatchHandle sv ?b fd (es_Derived es) = Some (v, es_Derived es)" "bat_Data v = data" "bat_Size v = ?k" by auto
    let ?ob = "\<lparr> ob_Pool = store_msg x v p, ob_Queue = c \<rparr>"
    let ?es' = "(put_buffer fd b' ?es) \<lparr> es_Batches := ?ob \<rparr>"
    have run: "deliver sv fd x data got ?es = Some ?es'"
      using True lt b'(1) v(1) loan(2) by (simp add: deliver_def Let_def loan(1) put_pool_def put_buffer_def)
    have s: "with_sent (es_Batches es) v ?ob" using loan(3) by blast
    have "delivered sv ?es' = delivered sv es @ take (?sz * ?k) data"
      using s by (simp add: delivered_def with_sent_def v(2,3))
    moreover have "?sz * ?k = got" using m0 by (metis add.right_neutral mult_div_mod_eq)
    ultimately have "delivered sv ?es' @ pending ?es' fd = delivered sv es @ take got data"
      using b'(3) m0 fd len by (simp add: pending_def tail_def)
    moreover have "?k \<le> sv_BatchSize sv" using data(1,2) sizes(1) by (metis div_le_mono nonzero_mult_div_cancel_left not_gr_zero)
    then have "ok ?es'" using s stored[OF v(2)] bufs' v(3) inv len by (auto simp: ok_def es_inv_def with_sent_def)
    ultimately show ?thesis using run s b'(4) fd len v(1) by (auto simp: same_elsewhere_def with_sent_def handled_def intro!: exI[of _ ?b])
  next
    case False
    then have k0: "?k = 0" and m: "?m = got" using sizes(1) data(3) by (auto simp: div_eq_0_iff)
    let ?ob = "\<lparr> ob_Pool = snd (StoragePool_LocalRelease (Some x) (store_msg x ?b p)), ob_Queue = ob_Queue (es_Batches es) \<rparr>"
    let ?es' = "(put_buffer fd b' ?es) \<lparr> es_Batches := ?ob \<rparr>"
    have run: "deliver sv fd x data got ?es = Some ?es'"
      using False lt b'(1) by (simp add: deliver_def Let_def loan(1) put_pool_def put_buffer_def local_release_def)
    have s: "with_kept (es_Batches es) ?ob" using loan(4) by blast
    have "delivered sv ?es' @ pending ?es' fd = delivered sv es @ take got data"
      using s b'(3) m data(3) fd len by (simp add: pending_def tail_def delivered_def with_kept_def)
    moreover have "ok ?es'" using s stored[of ?b] bufs' inv len by (simp add: ok_def es_inv_def with_kept_def)
    ultimately show ?thesis using run s b'(4) fd len by (auto simp: same_elsewhere_def with_kept_def handled_def)
  qed
qed

text \<open>Reading well-cut chunks until the socket is drained.\<close>

lemma read_batches_idle:
  assumes ok: "ok es" and fd: "fd < nfds" and room: "0 < outbox_room (es_Batches es)"
  shows "\<exists>es'. read_batches sv fd nread [] es = Some (- 1, [], es') \<and> ok es' \<and> es_errno es' = EAGAIN \<and>
    delivered sv es' = delivered sv es \<and> es_Buffers es' = es_Buffers es \<and> same_elsewhere sv fd es es' \<and>
    outbox_room (es_Batches es') = outbox_room (es_Batches es)"
proof -
  have inv: "es_inv sv es" and d: "dinv (es_Derived es)" "fd < length (es_Buffers es)" "length (es_Buffers es) = nfds"
    using ok fd by (auto simp: ok_def)
  from release_unused[OF inv room sizes(2) d(2), of EAGAIN] obtain x p es' where
    a: "StoragePool_Acquire (ob_Pool (es_Batches es)) = (Some x, p)"
    and es': "es' = local_release x (put_pool (store_msg x (sp_Storage p x \<lparr> bat_Data := overlay 0 (obf_bytes (es_Buffers es ! fd)) (bat_Data (sp_Storage p x)) \<rparr>) p)
         ((put_pool p es) \<lparr> es_errno := EAGAIN \<rparr>))"
    and n: "es_inv sv es'" "outbox_room (es_Batches es') = outbox_room (es_Batches es)" "outbox_msgs (es_Batches es') = outbox_msgs (es_Batches es)"
      "es_Buffers es' = es_Buffers es" "es_errno es' = EAGAIN" by (auto simp: Let_def)
  have run: "read_batches sv fd nread [] es = Some (- 1, [], es')"
    unfolding es' using a by (subst read_batches.simps) (simp add: Let_def)
  have same: "es_Derived es' = es_Derived es" "es_FirstMessage es' = es_FirstMessage es" "es_Registered es' = es_Registered es"
    unfolding es' by (simp_all add: local_release_def)
  have "ok es'" using n d same by (simp add: ok_def)
  moreover have "same_elsewhere sv fd es es'" using same n(3,4) by (simp add: same_elsewhere_def handled_def) (metis list_update_id)
  ultimately show ?thesis using run n by (simp add: delivered_def)
qed

lemma read_batches_chunk:
  assumes ok: "ok es" and fd: "fd < nfds" and room: "0 < outbox_room (es_Batches es)"
    and cut: "well_cut (sv_sizeofT sv) (sv_sizeofT sv * sv_BatchSize sv) (obf_BufferSize (es_Buffers es ! fd)) (bs # cs)"
  shows "\<exists>es'. read_batches sv fd nread (Bytes bs # as) es = read_batches sv fd (int (length bs)) as es' \<and> ok es' \<and>
    es_errno es' = es_errno es \<and> delivered sv es' @ pending es' fd = delivered sv es @ pending es fd @ bs \<and> same_elsewhere sv fd es es' \<and>
    well_cut (sv_sizeofT sv) (sv_sizeofT sv * sv_BatchSize sv) (obf_BufferSize (es_Buffers es' ! fd)) cs \<and>
    outbox_room (es_Batches es) \<le> Suc (outbox_room (es_Batches es'))"
proof -
  let ?sz = "sv_sizeofT sv" and ?cap = "sv_sizeofT sv * sv_BatchSize sv" and ?buf = "es_Buffers es ! fd"
  let ?r = "obf_BufferSize ?buf"
  have inv: "es_inv sv es" and len: "length (es_Buffers es) = nfds" using ok by (auto simp: ok_def)
  have c: "bs \<noteq> []" "?r + length bs \<le> ?cap" "?r + length bs < ?sz \<or> ?sz dvd ?r + length bs" "well_cut ?sz ?cap ((?r + length bs) mod ?sz) cs"
    using cut by simp_all
  from outbox_loan[OF _ room] inv obtain x p ch where
    a: "StoragePool_Acquire (ob_Pool (es_Batches es)) = (Some x, p)"
    and l: "sp_Storage p = sp_Storage (ob_Pool (es_Batches es))" "Producer_TryPush x (ob_Queue (es_Batches es)) = (True, ch)"
      "\<forall>v. with_sent (es_Batches es) v \<lparr> ob_Pool = store_msg x v p, ob_Queue = ch \<rparr>"
      "\<forall>v. with_kept (es_Batches es) \<lparr> ob_Pool = snd (StoragePool_LocalRelease (Some x) (store_msg x v p)), ob_Queue = ob_Queue (es_Batches es) \<rparr>"
    by (auto simp: es_inv_def)
  have "?buf \<in> set (es_Buffers es)" using fd len by simp
  then have b: "obf_inv ?sz ?buf" "length (obf_bytes ?buf) = ?r" using inv length_obf_bytes by (auto simp: es_inv_def)
  let ?old = "bat_Data (sp_Storage p x)"
  define data where "data = overlay ?r bs (overlay 0 (obf_bytes ?buf) ?old)"
  have old: "length ?old = ?cap" using inv l(1) by (simp add: es_inv_def)
  have ld: "length data = ?cap" using old c(2) b(2) by (simp add: data_def)
  have tk: "take (length bs + ?r) data = pending es fd @ bs"
    using old c(2) b(2) by (simp add: data_def pending_def overlay_def)
  from deliver_aligned[OF ok fd l ld _ _, of "length bs + ?r" "es_errno es"] c ld obtain es' where
    es': "deliver sv fd x data (length bs + ?r) ((put_pool p es) \<lparr> es_errno := es_errno es \<rparr>) = Some es'" "ok es'"
      "delivered sv es' @ pending es' fd = delivered sv es @ take (length bs + ?r) data" "es_errno es' = es_errno es" "same_elsewhere sv fd es es'"
      "obf_BufferSize (es_Buffers es' ! fd) = (length bs + ?r) mod ?sz" "outbox_room (es_Batches es) \<le> Suc (outbox_room (es_Batches es'))"
    by (auto simp: add.commute)
  have req: "length bs \<le> ?cap - ?r" using c(2) by simp
  have "read_batches sv fd nread (Bytes bs # as) es = read_batches sv fd (int (length bs)) as es'"
    using a c(1) req es'(1) by (subst read_batches.simps) (simp add: Let_def data_def)
  then show ?thesis using es' c(4) unfolding tk by (auto simp: add.commute)
qed

lemma read_batches_chunks:
  assumes "ok es" "fd < nfds" "length cs < outbox_room (es_Batches es)"
    "well_cut (sv_sizeofT sv) (sv_sizeofT sv * sv_BatchSize sv) (obf_BufferSize (es_Buffers es ! fd)) cs"
  shows "\<exists>nread' es'. read_batches sv fd nread (map Bytes cs @ as) es = read_batches sv fd nread' as es' \<and> ok es' \<and>
    es_errno es' = es_errno es \<and> delivered sv es' @ pending es' fd = delivered sv es @ pending es fd @ concat cs \<and>
    same_elsewhere sv fd es es' \<and> 0 < outbox_room (es_Batches es')"
  using assms
proof (induction cs arbitrary: es nread)
  case Nil
  then show ?case using same_elsewhere_refl[of sv fd es] by auto
next
  case (Cons bs cs)
  have "0 < outbox_room (es_Batches es)" using Cons.prems(3) by simp
  from read_batches_chunk[OF Cons.prems(1,2) this Cons.prems(4), of nread "map Bytes cs @ as"] obtain es1 where
    s1: "read_batches sv fd nread (Bytes bs # map Bytes cs @ as) es = read_batches sv fd (int (length bs)) (map Bytes cs @ as) es1" "ok es1"
      "es_errno es1 = es_errno es" "delivered sv es1 @ pending es1 fd = delivered sv es @ pending es fd @ bs" "same_elsewhere sv fd es es1"
      "well_cut (sv_sizeofT sv) (sv_sizeofT sv * sv_BatchSize sv) (obf_BufferSize (es_Buffers es1 ! fd)) cs"
      "outbox_room (es_Batches es) \<le> Suc (outbox_room (es_Batches es1))" by blast
  have "length cs < outbox_room (es_Batches es1)" using Cons.prems(3) s1(7) by simp
  from Cons.IH[OF s1(2) Cons.prems(2) this s1(6), of "int (length bs)"] obtain nread' es' where
    s2: "read_batches sv fd (int (length bs)) (map Bytes cs @ as) es1 = read_batches sv fd nread' as es'" "ok es'" "es_errno es' = es_errno es1"
      "delivered sv es' @ pending es' fd = delivered sv es1 @ pending es1 fd @ concat cs" "same_elsewhere sv fd es1 es'"
      "0 < outbox_room (es_Batches es')" by blast
  have "delivered sv es' @ pending es' fd = delivered sv es @ pending es fd @ concat (bs # cs)"
    using s2(4) s1(4) by (metis append.assoc concat.simps(2))
  with s1(1,3) s2 show ?case using same_elsewhere_trans[OF s1(5) s2(5)] by auto
qed

lemma readMessage_framed:
  assumes es: "ok es" "fd < nfds" "length cs < outbox_room (es_Batches es)"
    "well_cut (sv_sizeofT sv) (sv_sizeofT sv * sv_BatchSize sv) (obf_BufferSize (es_Buffers es ! fd)) cs"
    and started: "sv_sizeofInit sv = None \<or> \<not> es_FirstMessage es ! fd"
  shows "\<exists>es'. readMessage sv fd (map Bytes cs) es = Some ([], es') \<and> ok es' \<and>
    delivered sv es' @ pending es' fd = delivered sv es @ pending es fd @ concat cs \<and> same_elsewhere sv fd es es'"
proof -
  from read_batches_chunks[OF es, of "- 1" "[]"] obtain nread es1 where
    s1: "read_batches sv fd (- 1) (map Bytes cs) es = read_batches sv fd nread [] es1" "ok es1"
      "delivered sv es1 @ pending es1 fd = delivered sv es @ pending es fd @ concat cs" "same_elsewhere sv fd es es1" "0 < outbox_room (es_Batches es1)"
    by auto
  from read_batches_idle[OF s1(2) es(2) s1(5), of nread] obtain es' where
    s2: "read_batches sv fd nread [] es1 = Some (- 1, [], es')" "ok es'" "es_errno es' = EAGAIN" "delivered sv es' = delivered sv es1"
      "es_Buffers es' = es_Buffers es1" "same_elsewhere sv fd es1 es'" by blast
  have "readMessage sv fd (map Bytes cs) es = Some ([], es')"
    using started s1(1) s2(1,3) es(1,2) by (auto simp: readMessage_def Let_def retriable_def ok_def split: option.splits)
  with s1 s2 same_elsewhere_trans[OF s1(4) s2(6)] show ?thesis by (auto simp: pending_def)
qed

text \<open>The first message may be cut in any way: \<open>recv\<close> is asked for exactly what is missing.\<close>

lemma readMessage_first:
  assumes ok: "ok es" "fd < nfds" and first: "sv_sizeofInit sv = Some n" "es_FirstMessage es ! fd" "fd < length (es_FirstMessage es)"
    and n: "n \<le> sv_sizeofT sv" "pending es fd = []"
    and cs: "\<forall>bs \<in> set cs. bs \<noteq> []" "n \<le> length (concat cs)"
    and h: "sv_FirstMessageHandle sv (take n (concat cs)) fd (es_Derived es) = Some d" "dinv d"
    and rest: "well_cut (sv_sizeofT sv) (sv_sizeofT sv * sv_BatchSize sv) 0 (skip_bytes n cs)" "length (skip_bytes n cs) < outbox_room (es_Batches es)"
  shows "\<exists>es'. readMessage sv fd (map Bytes cs) es = Some ([], es') \<and> ok es' \<and>
    delivered sv es' @ pending es' fd = delivered sv es @ drop n (concat cs) \<and> \<not> es_FirstMessage es' ! fd \<and> es_Derived es' = d \<and>
    (\<exists>bs. outbox_msgs (es_Batches es') = outbox_msgs (es_Batches es) @ bs \<and> handled sv fd d bs)"
proof -
  let ?buf = "es_Buffers es ! fd"
  have inv: "es_inv sv es" and len: "length (es_Buffers es) = nfds" using ok by (auto simp: ok_def)
  have mem: "?buf \<in> set (es_Buffers es)" using ok(2) len by simp
  then have b: "obf_inv (sv_sizeofT sv) ?buf" "obf_BufferSize ?buf = 0"
    using inv length_obf_bytes n(2) by (fastforce simp: es_inv_def pending_def)+
  from read_first_bytes[OF b(1) n(1), of cs "- 1" "es_errno es"] cs b(2) n(2) obtain nread b1 where
    r: "read_first n (- 1) ?buf (es_errno es) (map Bytes cs) = Some (False, nread, b1, es_errno es, map Bytes (skip_bytes n cs))"
      "obf_inv (sv_sizeofT sv) b1" "obf_BufferSize b1 = n" "obf_bytes b1 = take n (concat cs)" by (auto simp: pending_def)
  from readBytes_prefix[OF r(2), of n] r(3,4) obtain b2 where
    b2: "readBytes n b1 = Some (take n (concat cs), b2)" "obf_inv (sv_sizeofT sv) b2" "obf_bytes b2 = []" "obf_BufferSize b2 = 0"
    using cs(2) by auto
  let ?es = "put_buffer fd b2 ((put_buffer fd b1 (es \<lparr> es_errno := es_errno es \<rparr>)) \<lparr> es_Derived := d, es_FirstMessage := (es_FirstMessage es)[fd := False] \<rparr>)"
  have bufs: "\<forall>b \<in> set ((es_Buffers es)[fd := b2]). obf_inv (sv_sizeofT sv) b \<and> obf_BufferSize b < sv_sizeofT sv"
    using inv b2 sizes(1) set_update_subset_insert[of "es_Buffers es" fd b2] by (auto simp: es_inv_def)
  then have ok': "ok ?es" using inv len h(2) by (simp add: ok_def es_inv_def)
  have at: "es_Buffers ?es ! fd = b2" "pending ?es fd = []" "delivered sv ?es = delivered sv es"
    using ok(2) len b2(3) by (simp_all add: pending_def delivered_def)
  from read_batches_chunks[OF ok' ok(2), of "skip_bytes n cs" nread "[]"] rest at b2(4) obtain nread' es1 where
    s1: "read_batches sv fd nread (map Bytes (skip_bytes n cs)) ?es = read_batches sv fd nread' [] es1" "ok es1"
      "delivered sv es1 @ pending es1 fd = delivered sv es @ concat (skip_bytes n cs)" "same_elsewhere sv fd ?es es1" "0 < outbox_room (es_Batches es1)"
    by auto
  from read_batches_idle[OF s1(2) ok(2) s1(5), of nread'] obtain es' where
    s2: "read_batches sv fd nread' [] es1 = Some (- 1, [], es')" "ok es'" "es_errno es' = EAGAIN" "delivered sv es' = delivered sv es1"
      "es_Buffers es' = es_Buffers es1" "same_elsewhere sv fd es1 es'" by blast
  have run: "readMessage sv fd (map Bytes cs) es = Some ([], es')"
    using ok(2) len first(1,2) r(1,3) b2(1) h(1) s1(1) s2(1,3) by (simp add: readMessage_def Let_def retriable_def)
  have "\<not> es_FirstMessage es' ! fd" "es_Derived es' = d"
    "\<exists>bs. outbox_msgs (es_Batches es') = outbox_msgs (es_Batches es) @ bs \<and> handled sv fd d bs"
    using same_elsewhere_trans[OF s1(4) s2(6)] first(3) by (simp_all add: same_elsewhere_def)
  then show ?thesis using run s1(3) s2(2,4,5) by (auto simp: pending_def concat_skip_bytes)
qed

end

end
