(* ===== verification/Account_Requests.thy ===== *)
theory Account_Requests
  imports Account_States Small_Buffers Sockets
begin

text \<open>
  The login path of the account service: the requests of the gateways
  (\<open>account_service/src/client_request_processor.cpp\<close>), the dispatch of the answers
  (\<open>gateway_response_dispatcher.hpp\<close>, \<open>routed_message.hpp\<close>) and the table of gateway connections
  (\<open>gateway_epoll_server.hpp\<close>).  What the operating system answers to a \<open>send\<close> (the returned size, \<open>errno\<close>)
  and what the connection slot holds afterwards are arguments.  A dereference of a null pointer, an access
  outside an array and \<open>std::terminate\<close> are \<open>None\<close>.
\<close>

section \<open>Answers\<close>

record RoutedMessage =
  rm_GatewayId :: u16
  rm_Message :: "ptr option"

definition RoutedMessage_init :: RoutedMessage where
  "RoutedMessage_init = \<lparr> rm_GatewayId = 0, rm_Message = None \<rparr>"

record replies =
  rp_Pool :: "ClientAccountSnapshot StoragePool"
  rp_Queue :: "RoutedMessage channel"

text \<open>Acquire an answer, fill it, address it and push it; the acquired pointer is not tested.\<close>

definition push_reply :: "(ClientAccountSnapshot \<Rightarrow> ClientAccountSnapshot) \<Rightarrow> u16 \<Rightarrow> replies \<Rightarrow> replies option" where
  "push_reply fill gatewayId rp =
     (case StoragePool_Acquire (rp_Pool rp) of
        (None, _) \<Rightarrow> None
      | (Some x, p) \<Rightarrow>
          (case Producer_Push \<lparr> rm_GatewayId = gatewayId, rm_Message = Some x \<rparr> (rp_Queue rp) of
             None \<Rightarrow> None
           | Some c \<Rightarrow> Some \<lparr> rp_Pool = store_msg x (fill (sp_Storage p x)) p, rp_Queue = c \<rparr>))"

section \<open>Requests\<close>

definition refuse :: "u8 \<Rightarrow> u32 \<Rightarrow> u32 \<Rightarrow> ClientAccountSnapshot \<Rightarrow> ClientAccountSnapshot" where
  "refuse status clientId clientFd s =
     (Snapshot_Clear s) \<lparr> snap_Status := status, snap_ClientId := clientId, snap_ClientFd := clientFd \<rparr>"

definition accept :: "as_ClientState \<Rightarrow> u32 \<Rightarrow> u32 \<Rightarrow> ClientAccountSnapshot \<Rightarrow> ClientAccountSnapshot" where
  "accept curClient clientId clientFd s =
     s \<lparr> snap_Status := 65, snap_SequenceId := 0, snap_ClientId := clientId, snap_ClientFd := clientFd,
         snap_AssetId := asl_AssetId curClient, snap_Confirmed := asl_Confirmed curClient, snap_Attempt := asl_Attempt curClient \<rparr>"

definition process_request ::
  "(u8 list \<Rightarrow> u8 list) \<Rightarrow> as_ClientStates \<Rightarrow> RoutedAuthRequest \<Rightarrow> replies \<Rightarrow> replies option" where
  "process_request sha256 st curMessage rp =
     (let gatewayId = rar_GatewayId curMessage; clientId = rar_ClientId curMessage; clientFd = rar_ClientFd curMessage
      in (case as_GetClientState (unat clientId) st of
            None \<Rightarrow> None
          | Some curClient \<Rightarrow>
              if rar_RequestType curMessage = 65 then
                if asl_Authorized curClient \<noteq> uint gatewayId \<and> gatewayId \<noteq> 10
                then push_reply (refuse 82 clientId clientFd) gatewayId rp
                else if \<not> CheckKey sha256 (rar_Key curMessage) curClient
                then push_reply (refuse 67 clientId clientFd) gatewayId rp
                else push_reply (accept curClient clientId clientFd) gatewayId rp
              else if rar_RequestType curMessage = 68 then Some rp
              else Some rp))"

fun process_requests ::
  "(u8 list \<Rightarrow> u8 list) \<Rightarrow> as_ClientStates \<Rightarrow> RoutedAuthRequest list \<Rightarrow> replies \<Rightarrow> replies option" where
  "process_requests sha256 st [] rp = Some rp"
| "process_requests sha256 st (m # ms) rp = do { rp \<leftarrow> process_request sha256 st m rp; process_requests sha256 st ms rp }"

text \<open>\<open>ProcessMessage\<close> on the queue of batches; the pool of batches gets its object back or the process
  terminates.\<close>

definition ProcessMessage ::
  "(u8 list \<Rightarrow> u8 list) \<Rightarrow> as_ClientStates \<Rightarrow> RoutedAuthRequest ObjectBatch outbox \<Rightarrow> replies \<Rightarrow>
   (RoutedAuthRequest ObjectBatch outbox \<times> replies) option" where
  "ProcessMessage sha256 st requests rp =
     (case Consumer_TryPop (ob_Queue requests) of
        (None, q) \<Rightarrow> Some (requests \<lparr> ob_Queue := q \<rparr>, rp)
      | (Some x, q) \<Rightarrow>
          let curBatch = sp_Storage (ob_Pool requests) x
          in do {
            rp \<leftarrow> process_requests sha256 st (take (getSize curBatch) (bat_Data curBatch)) rp;
            (case StoragePool_Release (Some x) (ob_Pool requests) of
               (released, p) \<Rightarrow> if released then Some (\<lparr> ob_Pool = p, ob_Queue = q \<rparr>, rp) else None)
          })"

section \<open>Gateway connections\<close>

record GatewayEpollServer =
  ges_Gateways :: "VersionedFd list"
  ges_FdToGateways :: "u16 list"

definition GatewayEpollServer_init :: "nat \<Rightarrow> GatewayEpollServer" where
  "GatewayEpollServer_init maxFd = \<lparr> ges_Gateways = replicate MaxGateways VersionedFd_init, ges_FdToGateways = replicate maxFd 0 \<rparr>"

definition ges_FirstMessageHandle :: "GatewayHandshake \<Rightarrow> nat \<Rightarrow> GatewayEpollServer \<Rightarrow> GatewayEpollServer option" where
  "ges_FirstMessageHandle message fd s =
     (let i = unat (ghs_GatewayId message)
      in if i > MaxGateways then Some s
         else if i < length (ges_Gateways s) \<and> fd < length (ges_FdToGateways s)
         then Some (s \<lparr> ges_Gateways := (ges_Gateways s)[i := SwitchFd (int fd) (ges_Gateways s ! i)],
                        ges_FdToGateways := (ges_FdToGateways s)[fd := ghs_GatewayId message] \<rparr>)
         else None)"

definition ges_CloseHandle :: "nat \<Rightarrow> GatewayEpollServer \<Rightarrow> GatewayEpollServer option" where
  "ges_CloseHandle fd s =
     (if fd < length (ges_FdToGateways s)
      then let i = unat (ges_FdToGateways s ! fd)
           in if i < length (ges_Gateways s)
              then Some (s \<lparr> ges_Gateways := (ges_Gateways s)[i := SwitchFd (- 1) (ges_Gateways s ! i)] \<rparr>)
              else None
      else None)"

section \<open>Dispatch\<close>

text \<open>What one \<open>send\<close> meets: the value it returns, \<open>errno\<close>, and the slot's value when it is loaded again.\<close>

record send_result =
  sr_sent :: int
  sr_errno :: errno
  sr_newVal :: u64

record GatewayResponseDispatcher =
  grd_ResponsesResend :: "RoutedMessage list"
  grd_ResponsesResendSize :: nat
  grd_Sent :: "(i32 \<times> ClientAccountSnapshot) list"

definition GatewayResponseDispatcher_init :: GatewayResponseDispatcher where
  "GatewayResponseDispatcher_init = \<lparr> grd_ResponsesResend = replicate 128 RoutedMessage_init, grd_ResponsesResendSize = 0, grd_Sent = [] \<rparr>"

definition keep_for_resend :: "RoutedMessage \<Rightarrow> GatewayResponseDispatcher \<Rightarrow> GatewayResponseDispatcher option" where
  "keep_for_resend m d =
     (if grd_ResponsesResendSize d < length (grd_ResponsesResend d)
      then Some (d \<lparr> grd_ResponsesResend := (grd_ResponsesResend d)[grd_ResponsesResendSize d := m],
                     grd_ResponsesResendSize := grd_ResponsesResendSize d + 1 \<rparr>)
      else None)"

definition SendMessage ::
  "RoutedMessage \<Rightarrow> VersionedFd list \<Rightarrow> send_result \<Rightarrow> replies \<Rightarrow> GatewayResponseDispatcher \<Rightarrow>
   (replies \<times> GatewayResponseDispatcher) option" where
  "SendMessage m GatewayFd r rp d =
     (let idx = unat (rm_GatewayId m)
      in if idx < length GatewayFd
         then
           let curVal = vfd_load (GatewayFd ! idx); curFd = vfd_Fd curVal
           in if curFd = - 1 then Some (rp, d)
              else (case rm_Message m of
                 None \<Rightarrow> None
               | Some x \<Rightarrow>
                   let d = (if sr_sent r < 0 then d else d \<lparr> grd_Sent := grd_Sent d @ [(curFd, sp_Storage (rp_Pool rp) x)] \<rparr>)
                   in if sr_sent r < 0 then
                        (if sr_errno r = EINTR \<or> sr_errno r = EAGAIN \<or> sr_errno r = EWOULDBLOCK
                         then map_option (Pair rp) (keep_for_resend m d)
                         else Some (rp, d))
                      else if sr_newVal r \<noteq> curVal then map_option (Pair rp) (keep_for_resend m d)
                      else (case StoragePool_Release (Some x) (rp_Pool rp) of
                              (released, p) \<Rightarrow> if released then Some (rp \<lparr> rp_Pool := p \<rparr>, d) else None))
         else None)"

fun ConsumeMessages_loop ::
  "nat \<Rightarrow> VersionedFd list \<Rightarrow> (nat \<Rightarrow> send_result) \<Rightarrow> replies \<Rightarrow> GatewayResponseDispatcher \<Rightarrow> (replies \<times> GatewayResponseDispatcher) option" where
  "ConsumeMessages_loop 0 GatewayFd net rp d = Some (rp, d)"
| "ConsumeMessages_loop (Suc n) GatewayFd net rp d =
     (case Consumer_TryPop (rp_Queue rp) of
        (None, q) \<Rightarrow> Some (rp \<lparr> rp_Queue := q \<rparr>, d)
      | (Some m, q) \<Rightarrow> do {
          (rp, d) \<leftarrow> SendMessage m GatewayFd (net n) (rp \<lparr> rp_Queue := q \<rparr>) d;
          ConsumeMessages_loop n GatewayFd net rp d
        })"

definition ConsumeMessages ::
  "VersionedFd list \<Rightarrow> (nat \<Rightarrow> send_result) \<Rightarrow> replies \<Rightarrow> GatewayResponseDispatcher \<Rightarrow> (replies \<times> GatewayResponseDispatcher) option" where
  "ConsumeMessages GatewayFd net rp d = ConsumeMessages_loop AccountResponseBatchSize GatewayFd net rp d"

text \<open>\<open>DrainResendBuffers\<close> loops while anything is kept; the list gives one result per \<open>send\<close>, and a list
  that ends first is \<open>None\<close>.\<close>

fun DrainResendBuffers ::
  "VersionedFd list \<Rightarrow> send_result list \<Rightarrow> replies \<Rightarrow> GatewayResponseDispatcher \<Rightarrow> (replies \<times> GatewayResponseDispatcher) option" where
  "DrainResendBuffers GatewayFd net rp d =
     (if grd_ResponsesResendSize d = 0 then Some (rp, d)
      else (case net of
              [] \<Rightarrow> None
            | r # net \<Rightarrow> do {
                (rp, d) \<leftarrow> SendMessage (grd_ResponsesResend d ! (grd_ResponsesResendSize d - 1)) GatewayFd r rp
                            (d \<lparr> grd_ResponsesResendSize := grd_ResponsesResendSize d - 1 \<rparr>);
                DrainResendBuffers GatewayFd net rp d
              }))"

declare DrainResendBuffers.simps [simp del]

section \<open>The queue of answers\<close>

definition reply_ptrs :: "replies \<Rightarrow> ptr list" where
  "reply_ptrs rp = map (\<lambda>m. the (rm_Message m)) (channel_items (rp_Queue rp))"

definition replies_inv :: "replies \<Rightarrow> bool" where
  "replies_inv rp \<longleftrightarrow> sp_inv (rp_Pool rp) \<and> channel_inv (rp_Queue rp) \<and>
     (\<forall>m \<in> set (channel_items (rp_Queue rp)). rm_Message m \<noteq> None) \<and> distinct (reply_ptrs rp) \<and>
     set (reply_ptrs rp) \<subseteq> sp_all (rp_Pool rp) \<and> set (reply_ptrs rp) \<inter> set (sp_free (rp_Pool rp)) = {} \<and>
     StoragePool_GetSize (rp_Pool rp) \<le> channel_cap (rp_Queue rp)"

definition reply_msgs :: "replies \<Rightarrow> (u16 \<times> ClientAccountSnapshot) list" where
  "reply_msgs rp = map (\<lambda>m. (rm_GatewayId m, sp_Storage (rp_Pool rp) (the (rm_Message m)))) (channel_items (rp_Queue rp))"

definition reply_room :: "replies \<Rightarrow> nat" where
  "reply_room rp = length (sp_free (rp_Pool rp))"

lemma push_reply_ok:
  assumes inv: "replies_inv rp" and room: "0 < reply_room rp"
  shows "\<exists>rp' old. push_reply fill gw rp = Some rp' \<and> replies_inv rp' \<and> reply_msgs rp' = reply_msgs rp @ [(gw, fill old)] \<and>
     reply_room rp = Suc (reply_room rp')"
proof -
  have I: "sp_inv (rp_Pool rp)" "channel_inv (rp_Queue rp)" "distinct (reply_ptrs rp)" "set (reply_ptrs rp) \<subseteq> sp_all (rp_Pool rp)"
    "set (reply_ptrs rp) \<inter> set (sp_free (rp_Pool rp)) = {}" "StoragePool_GetSize (rp_Pool rp) \<le> channel_cap (rp_Queue rp)"
    using inv by (simp_all add: replies_inv_def)
  have "sp_free (rp_Pool rp) \<noteq> []" using room by (auto simp: reply_room_def)
  from sp.acquire_some[OF I(1) this] obtain x p where
    a: "StoragePool_Acquire (rp_Pool rp) = (Some x, p)" "sp_inv p" "x \<in> set (sp_free (rp_Pool rp))"
      "set (sp_free p) = set (sp_free (rp_Pool rp)) - {x}" "sp_all p = sp_all (rp_Pool rp)" by blast
  have st: "sp_Storage p = sp_Storage (rp_Pool rp)" using StoragePool_Storage(1)[of "rp_Pool rp"] by (simp add: a)
  have x: "x \<notin> set (reply_ptrs rp)" "x \<in> sp_all (rp_Pool rp)" using I(5) a(3) sp.free_in_all[OF I(1)] by auto
  have "length (reply_ptrs rp) < StoragePool_GetSize (rp_Pool rp)"
    using I(3,4) x by (intro card_lt_of_missing[of _ _ x]) (auto simp: sp_all_def)
  then have "length (channel_items (rp_Queue rp)) < channel_cap (rp_Queue rp)" using I(6) by (simp add: reply_ptrs_def)
  from spsc.push_room[OF I(2) this] obtain c where
    c: "Producer_TryPush \<lparr> rm_GatewayId = gw, rm_Message = Some x \<rparr> (rp_Queue rp) = (True, c)" "channel_inv c"
      "channel_items c = channel_items (rp_Queue rp) @ [\<lparr> rm_GatewayId = gw, rm_Message = Some x \<rparr>]" "channel_cap c = channel_cap (rp_Queue rp)" by blast
  let ?rp = "\<lparr> rp_Pool = store_msg x (fill (sp_Storage p x)) p, rp_Queue = c \<rparr>"
  have run: "push_reply fill gw rp = Some ?rp" using a(1) Producer_Push_of_TryPush[OF c(1)] by (simp add: push_reply_def)
  have ptrs: "reply_ptrs ?rp = reply_ptrs rp @ [x]" by (simp add: reply_ptrs_def c(3))
  have "StoragePool_GetSize p = StoragePool_GetSize (rp_Pool rp)" using a(5) by (simp add: sp_all_def lessThan_eq_iff)
  moreover have "StoragePool_GetSize (store_msg x v p) = StoragePool_GetSize p" for v by (simp add: store_msg_def StoragePool_GetSize_def)
  ultimately have "replies_inv ?rp"
    unfolding replies_inv_def ptrs using inv I a(2,4,5) x c by (auto simp: replies_inv_def)
  moreover have "reply_msgs ?rp = reply_msgs rp @ [(gw, fill (sp_Storage p x))]"
    using x(1) by (auto simp: reply_msgs_def c(3) st reply_ptrs_def)
  moreover have "reply_room rp = Suc (reply_room ?rp)"
    using a(3,4) sp.free_distinct[OF I(1)] sp.free_distinct[OF a(2)]
    by (simp add: reply_room_def) (metis List.finite_set card_Suc_Diff1 distinct_card)
  ultimately show ?thesis using run by blast
qed

section \<open>Logins\<close>

lemma keys_equal_iff: "length a = 32 \<Longrightarrow> length b = 32 \<Longrightarrow> n \<le> 32 \<Longrightarrow> keys_equal n a b \<longleftrightarrow> drop (32 - n) a = drop (32 - n) b"
proof (induction n)
  case (Suc n)
  have "drop (32 - Suc n) xs = xs ! (32 - Suc n) # drop (32 - n) xs" if "length xs = 32" for xs :: "u8 list"
    using Suc.prems(3) that Cons_nth_drop_Suc[of "32 - Suc n" xs] Suc_diff_le[of n 31] by simp
  then show ?case using Suc by auto
qed simp

text \<open>What the protocol promises for a request: nothing for other types, a refusal that discloses no balance,
  or the published account.\<close>

definition no_balances :: ClientAccountSnapshot where
  "no_balances = \<lparr> snap_Status = 82, snap_SequenceId = 0, snap_ClientId = 0, snap_ClientFd = 0, snap_AssetId = replicate MaxPositions 0,
     snap_Confirmed = replicate MaxPositions 0, snap_Attempt = replicate MaxPositions 0 \<rparr>"

definition login_answer :: "(u8 list \<Rightarrow> u8 list) \<Rightarrow> as_ClientState \<Rightarrow> RoutedAuthRequest \<Rightarrow> (u16 \<times> ClientAccountSnapshot) list" where
  "login_answer sha256 client m =
     (if rar_RequestType m \<noteq> 65 then []
      else [(rar_GatewayId m,
        if asl_Authorized client \<noteq> uint (rar_GatewayId m) \<and> rar_GatewayId m \<noteq> 10
        then no_balances \<lparr> snap_ClientId := rar_ClientId m, snap_ClientFd := rar_ClientFd m \<rparr>
        else if sha256 (rar_Key m) \<noteq> asl_Key client
        then no_balances \<lparr> snap_Status := 67, snap_ClientId := rar_ClientId m, snap_ClientFd := rar_ClientFd m \<rparr>
        else \<lparr> snap_Status = 65, snap_SequenceId = 0, snap_ClientId = rar_ClientId m, snap_ClientFd = rar_ClientFd m,
               snap_AssetId = asl_AssetId client, snap_Confirmed = asl_Confirmed client, snap_Attempt = asl_Attempt client \<rparr>)])"

lemma process_request_ok:
  assumes sha: "length (sha256 (rar_Key m)) = 32" and st: "as_inv st (unat (rar_ClientId m))"
    and key: "length (asl_Key (as_view st (unat (rar_ClientId m)))) = 32" and rp: "replies_inv rp" "0 < reply_room rp"
  shows "\<exists>rp'. process_request sha256 st m rp = Some rp' \<and> replies_inv rp' \<and>
     reply_msgs rp' = reply_msgs rp @ login_answer sha256 (as_view st (unat (rar_ClientId m))) m \<and> reply_room rp \<le> Suc (reply_room rp')"
proof -
  let ?c = "as_view st (unat (rar_ClientId m))"
  have ck: "CheckKey sha256 (rar_Key m) ?c \<longleftrightarrow> sha256 (rar_Key m) = asl_Key ?c"
    using keys_equal_iff[OF sha key, of 32] by (simp add: CheckKey_def)
  have fill: "refuse s i f = (\<lambda>old. no_balances \<lparr> snap_Status := s, snap_ClientId := i, snap_ClientFd := f \<rparr>)"
    "accept ?c i f = (\<lambda>old. \<lparr> snap_Status = 65, snap_SequenceId = 0, snap_ClientId = i, snap_ClientFd = f, snap_AssetId = asl_AssetId ?c,
       snap_Confirmed = asl_Confirmed ?c, snap_Attempt = asl_Attempt ?c \<rparr>)" for s i f
    by (simp_all add: fun_eq_iff refuse_def no_balances_def Snapshot_Clear_def accept_def)
  have nb: "no_balances \<lparr> snap_Status := 82 \<rparr> = no_balances" by (simp add: no_balances_def)
  show ?thesis
    using push_reply_ok[OF rp, of "refuse 82 (rar_ClientId m) (rar_ClientFd m)" "rar_GatewayId m"]
      push_reply_ok[OF rp, of "refuse 67 (rar_ClientId m) (rar_ClientFd m)" "rar_GatewayId m"]
      push_reply_ok[OF rp, of "accept ?c (rar_ClientId m) (rar_ClientFd m)" "rar_GatewayId m"] rp(1)
    by (auto simp: fill nb process_request_def login_answer_def as_GetClientState_view[OF st] ck Let_def)
qed

definition request_ok :: "(u8 list \<Rightarrow> u8 list) \<Rightarrow> as_ClientStates \<Rightarrow> RoutedAuthRequest \<Rightarrow> bool" where
  "request_ok sha256 st m \<longleftrightarrow> length (sha256 (rar_Key m)) = 32 \<and> as_inv st (unat (rar_ClientId m)) \<and>
     length (asl_Key (as_view st (unat (rar_ClientId m)))) = 32"

text \<open>C34. Every login request gets exactly one answer, in order and addressed to its gateway: an unauthorised
  gateway and a wrong key are refused with all balances zero, and the published account is sent only for
  a key whose hash matches, from the authorised gateway or gateway 10.  Requests of other types get none.\<close>

theorem login_requests_answered:
  assumes "\<forall>m \<in> set ms. request_ok sha256 st m" "replies_inv rp" "length ms \<le> reply_room rp"
  shows "\<exists>rp'. process_requests sha256 st ms rp = Some rp' \<and> replies_inv rp' \<and>
    reply_msgs rp' = reply_msgs rp @ concat (map (\<lambda>m. login_answer sha256 (the (as_GetClientState (unat (rar_ClientId m)) st)) m) ms)"
  using assms
proof (induction ms arbitrary: rp)
  case (Cons m ms)
  have m: "length (sha256 (rar_Key m)) = 32" "as_inv st (unat (rar_ClientId m))" "length (asl_Key (as_view st (unat (rar_ClientId m)))) = 32"
    using Cons.prems(1) by (simp_all add: request_ok_def)
  from process_request_ok[of sha256 m st rp] m Cons.prems(2,3) obtain rp1 where
    1: "process_request sha256 st m rp = Some rp1" "replies_inv rp1"
      "reply_msgs rp1 = reply_msgs rp @ login_answer sha256 (as_view st (unat (rar_ClientId m))) m" "reply_room rp \<le> Suc (reply_room rp1)" by auto
  with Cons.IH[of rp1] Cons.prems(1,3) as_GetClientState_view[OF m(2)] show ?case by auto
qed simp

definition fresh_replies :: "nat \<Rightarrow> replies option" where
  "fresh_replies Size = map_option (\<lambda>p. \<lparr> rp_Pool = p, rp_Queue = channel_of (SpscQueue_init Size RoutedMessage_init) \<rparr>)
     (StoragePool_init Size no_balances)"

lemma fresh_replies_ok:
  assumes "k < 64"
  shows "\<exists>rp. fresh_replies (2 ^ k) = Some rp \<and> replies_inv rp \<and> reply_msgs rp = [] \<and> channel_items (rp_Queue rp) = [] \<and> reply_room rp = 2 ^ k"
proof -
  let ?c = "channel_of (SpscQueue_init (2 ^ k) RoutedMessage_init)"
  have "pow2_size (q_Buffer (SpscQueue_init (2 ^ k) RoutedMessage_init))" using assms by (auto simp: pow2_size_def SpscQueue_init_def)
  then have c: "channel_inv ?c" "channel_items ?c = []" by (auto intro!: channel_inv_init simp: SpscQueue_init_def)
  have cap: "channel_cap ?c = 2 ^ k" by (simp add: channel_cap_def channel_of_def SpscQueue_init_def)
  from StoragePool_init_ok[OF assms, of no_balances] c cap show ?thesis
    by (auto simp: fresh_replies_def replies_inv_def reply_ptrs_def reply_msgs_def reply_room_def)
qed

definition sample_client :: as_ClientState where
  "sample_client = (as_ClientState_of 0 500) \<lparr> asl_Key := replicate 32 7, asl_Authorized := 3 \<rparr>"

definition sample_request :: "u16 \<Rightarrow> u8 \<Rightarrow> RoutedAuthRequest" where
  "sample_request gw k = \<lparr> rar_RequestType = 65, rar_ClientId = 0, rar_Key = replicate 32 k, rar_ClientFd = 5, rar_GatewayId = gw \<rparr>"

lemma sample_service:
  "\<exists>st. as_ClientStates_of 2 [sample_client] = Some st \<and> as_GetClientState 0 st = Some sample_client \<and> request_ok (\<lambda>x. x) st (sample_request gw k)"
proof -
  have "acc_ok as_ops sample_client"
    by (simp add: acc_ok_def sample_client_def as_ClientState_of_def as_ClientState_init_def pos_ok_def in_i64_def)
  with as_table_of_ok[of 0 2 "[sample_client]"] obtain st where
    s: "as_ClientStates_of 2 [sample_client] = Some st" "as_inv st 0" "as_view st 0 = sample_client" by auto
  then show ?thesis using as_GetClientState_view[OF s(2)]
    by (auto simp: request_ok_def sample_request_def sample_client_def as_ClientState_of_def)
qed

theorem login_requests_answered_witness:
  "\<exists>st rp rp'. as_ClientStates_of 2 [sample_client] = Some st \<and> fresh_replies (2 ^ 2) = Some rp \<and>
     process_requests (\<lambda>x. x) st [sample_request 3 7, sample_request 3 8, sample_request 4 7] rp = Some rp' \<and>
     map (snap_Status \<circ> snd) (reply_msgs rp') = [65, 67, 82] \<and> snap_Confirmed (snd (reply_msgs rp' ! 0)) = replicate MaxPositions 500"
proof -
  let ?ms = "[sample_request 3 7, sample_request 3 8, sample_request 4 7]"
  obtain st where st: "as_ClientStates_of 2 [sample_client] = Some st" "as_GetClientState 0 st = Some sample_client"
    using sample_service by blast
  have ok: "\<forall>m \<in> set ?ms. request_ok (\<lambda>x. x) st m" using sample_service st(1) by fastforce
  obtain rp where rp: "fresh_replies (2 ^ 2) = Some rp" "replies_inv rp" "reply_msgs rp = []" "reply_room rp = 2 ^ 2"
    using fresh_replies_ok[of 2] by auto
  have "length ?ms \<le> reply_room rp" using rp(4) by simp
  from login_requests_answered[OF ok rp(2) this] obtain rp' where
    r: "process_requests (\<lambda>x. x) st ?ms rp = Some rp'"
      "reply_msgs rp' = reply_msgs rp @ concat (map (\<lambda>m. login_answer (\<lambda>x. x) (the (as_GetClientState (unat (rar_ClientId m)) st)) m) ?ms)" by blast
  have "rar_ClientId (sample_request gw k) = 0" for gw k by (simp add: sample_request_def)
  then have "reply_msgs rp' = concat (map (login_answer (\<lambda>x. x) sample_client) ?ms)" using r(2) rp(3) st(2) by simp
  moreover have "map (snap_Status \<circ> snd) (concat (map (login_answer (\<lambda>x. x) sample_client) ?ms)) = [65, 67, 82]"
    "snap_Confirmed (snd (concat (map (login_answer (\<lambda>x. x) sample_client) ?ms) ! 0)) = replicate MaxPositions 500" by code_simp+
  ultimately show ?thesis using st(1) rp(1) r(1) by auto
qed

section \<open>Connections\<close>

definition gateway_fd :: "nat \<Rightarrow> GatewayEpollServer \<Rightarrow> i32" where
  "gateway_fd i s = vfd_Fd (vfd_load (ges_Gateways s ! i))"

text \<open>The connection table follows the handshakes: after gateway \<open>i\<close> identified itself on a descriptor,
  answers to \<open>i\<close> go to that descriptor, and once the connection closes, to none; no other gateway's
  connection changes.\<close>

theorem gateway_connect_disconnect:
  assumes "unat i < MaxGateways" "length (ges_Gateways s) = MaxGateways" "fd < length (ges_FdToGateways s)" "fd < 2 ^ 31"
  shows "\<exists>s1 s2. ges_FirstMessageHandle \<lparr> ghs_GatewayId = i \<rparr> fd s = Some s1 \<and> gateway_fd (unat i) s1 = int fd \<and>
    ges_CloseHandle fd s1 = Some s2 \<and> gateway_fd (unat i) s2 = - 1 \<and>
    (\<forall>j < MaxGateways. j \<noteq> unat i \<longrightarrow> gateway_fd j s1 = gateway_fd j s \<and> gateway_fd j s2 = gateway_fd j s)"
proof -
  have "in_i32 (int fd)" "in_i32 (- 1)" using assms(4) by (simp_all add: in_i32_def)
  then show ?thesis using assms SwitchFd_Fd
    by (simp add: ges_FirstMessageHandle_def ges_CloseHandle_def gateway_fd_def Let_def)
qed

theorem gateway_connect_disconnect_witness:
  "\<exists>s1 s2. ges_FirstMessageHandle \<lparr> ghs_GatewayId = 3 \<rparr> 7 (GatewayEpollServer_init 10) = Some s1 \<and> gateway_fd 3 s1 = 7 \<and>
     ges_CloseHandle 7 s1 = Some s2 \<and> gateway_fd 3 s2 = - 1"
proof -
  have h: "unat (3 :: u16) < MaxGateways" "length (ges_Gateways (GatewayEpollServer_init 10)) = MaxGateways"
    "7 < length (ges_FdToGateways (GatewayEpollServer_init 10))" "(7 :: nat) < 2 ^ 31"
    by (simp_all add: GatewayEpollServer_init_def MaxGateways_def)
  from gateway_connect_disconnect[OF h] show ?thesis by auto
qed

text \<open>A connection that closes before it identified itself disconnects gateway 0: the descriptor table
  starts at 0, so the close is booked on gateway 0 although that gateway is connected elsewhere.\<close>

theorem unidentified_close_drops_gateway_zero:
  assumes "g < n" "f < n" "f \<noteq> g" "g < 2 ^ 31"
  shows "\<exists>s1 s2. ges_FirstMessageHandle \<lparr> ghs_GatewayId = 0 \<rparr> g (GatewayEpollServer_init n) = Some s1 \<and> gateway_fd 0 s1 = int g \<and>
    ges_CloseHandle f s1 = Some s2 \<and> gateway_fd 0 s2 = - 1"
proof -
  have "in_i32 (int g)" "in_i32 (- 1)" using assms(4) by (simp_all add: in_i32_def)
  then show ?thesis using assms SwitchFd_Fd
    by (simp add: ges_FirstMessageHandle_def ges_CloseHandle_def gateway_fd_def Let_def GatewayEpollServer_init_def MaxGateways_def)
qed

theorem unidentified_close_drops_gateway_zero_witness:
  "\<exists>s1 s2. ges_FirstMessageHandle \<lparr> ghs_GatewayId = 0 \<rparr> 4 (GatewayEpollServer_init 9) = Some s1 \<and> gateway_fd 0 s1 = 4 \<and>
     ges_CloseHandle 5 s1 = Some s2 \<and> gateway_fd 0 s2 = - 1"
  using unidentified_close_drops_gateway_zero[of 4 9 5] by simp

section \<open>Answers nobody takes\<close>

definition login_round ::
  "(u8 list \<Rightarrow> u8 list) \<Rightarrow> as_ClientStates \<Rightarrow> VersionedFd list \<Rightarrow> RoutedAuthRequest \<Rightarrow> (nat \<Rightarrow> send_result) \<Rightarrow>
   replies \<times> GatewayResponseDispatcher \<Rightarrow> (replies \<times> GatewayResponseDispatcher) option" where
  "login_round sha256 st GatewayFd m net = (\<lambda>(rp, d). do { rp \<leftarrow> process_request sha256 st m rp; ConsumeMessages GatewayFd net rp d })"

fun login_rounds ::
  "(u8 list \<Rightarrow> u8 list) \<Rightarrow> as_ClientStates \<Rightarrow> VersionedFd list \<Rightarrow> RoutedAuthRequest \<Rightarrow> (nat \<Rightarrow> send_result) \<Rightarrow> nat \<Rightarrow>
   replies \<times> GatewayResponseDispatcher \<Rightarrow> (replies \<times> GatewayResponseDispatcher) option" where
  "login_rounds sha256 st GatewayFd m net 0 s = Some s"
| "login_rounds sha256 st GatewayFd m net (Suc n) s = do { s \<leftarrow> login_round sha256 st GatewayFd m net s; login_rounds sha256 st GatewayFd m net n s }"

lemma SendMessage_unreachable:
  assumes "unat (rm_GatewayId m) < length G" "vfd_Fd (vfd_load (G ! unat (rm_GatewayId m))) = - 1"
  shows "SendMessage m G r rp d = Some (rp, d)"
  using assms by (simp add: SendMessage_def)

lemma push_reply_none: "sp_inv (rp_Pool rp) \<Longrightarrow> reply_room rp = 0 \<Longrightarrow> push_reply fill gw rp = None"
  using sp.acquire_none[of "rp_Pool rp"] by (auto simp: push_reply_def reply_room_def)

lemma process_request_none:
  assumes "as_inv st (unat (rar_ClientId m))" "rar_RequestType m = 65" "sp_inv (rp_Pool rp)" "reply_room rp = 0"
  shows "process_request sha256 st m rp = None"
  using push_reply_none[OF assms(3,4)] by (simp add: process_request_def as_GetClientState_view[OF assms(1)] assms(2) Let_def)

lemma login_round_leaks:
  assumes m: "request_ok sha256 st m" "rar_RequestType m = 65" "unat (rar_GatewayId m) < length G" "vfd_Fd (vfd_load (G ! unat (rar_GatewayId m))) = - 1"
    and rp: "replies_inv rp" "channel_items (rp_Queue rp) = []" "reply_room rp = Suc n"
  shows "\<exists>rp'. login_round sha256 st G m net (rp, d) = Some (rp', d) \<and> replies_inv rp' \<and> channel_items (rp_Queue rp') = [] \<and> reply_room rp' = n"
proof -
  let ?c = "as_view st (unat (rar_ClientId m))"
  have M: "as_inv st (unat (rar_ClientId m))" using m(1) by (simp add: request_ok_def)
  have pos: "0 < reply_room rp" using rp(3) by simp
  have "\<exists>fill. process_request sha256 st m rp = push_reply fill (rar_GatewayId m) rp"
    by (auto simp: process_request_def as_GetClientState_view[OF M] m(2) Let_def)
  then obtain fill where fill: "process_request sha256 st m rp = push_reply fill (rar_GatewayId m) rp" by blast
  from push_reply_ok[OF rp(1) pos, of fill "rar_GatewayId m"] obtain rp1 old where
    1: "push_reply fill (rar_GatewayId m) rp = Some rp1" "replies_inv rp1" "reply_msgs rp1 = reply_msgs rp @ [(rar_GatewayId m, fill old)]"
      "reply_room rp = Suc (reply_room rp1)" by blast
  have "reply_msgs rp = []" using rp(2) by (simp add: reply_msgs_def)
  with 1(3) obtain mm where mm: "channel_items (rp_Queue rp1) = [mm]" "rm_GatewayId mm = rar_GatewayId m"
    by (auto simp: reply_msgs_def map_eq_Cons_conv)
  have q1: "channel_inv (rp_Queue rp1)" using 1(2) by (simp add: replies_inv_def)
  from spsc.pop_some[OF q1 mm(1)] obtain q where
    q: "Consumer_TryPop (rp_Queue rp1) = (Some mm, q)" "channel_inv q" "channel_items q = []" "channel_cap q = channel_cap (rp_Queue rp1)" by blast
  from spsc.pop_none[OF q(2,3)] obtain q' where
    q': "Consumer_TryPop q = (None, q')" "channel_inv q'" "channel_items q' = []" "channel_cap q' = channel_cap q" by blast
  let ?rp = "rp1 \<lparr> rp_Queue := q' \<rparr>"
  have "ConsumeMessages_loop (Suc (Suc k)) G net rp1 d = Some (?rp, d)" for k
    using q(1) q'(1) SendMessage_unreachable[of mm G] mm(2) m(3,4) by simp
  from this[of 14] have "ConsumeMessages G net rp1 d = Some (?rp, d)"
    by (simp add: ConsumeMessages_def AccountResponseBatchSize_def)
  moreover have "replies_inv ?rp" using 1(2) q q' by (simp add: replies_inv_def reply_ptrs_def)
  moreover have "reply_room ?rp = n" using 1(4) rp(3) by (simp add: reply_room_def)
  ultimately show ?thesis using fill 1(1) q'(3) by (simp add: login_round_def)
qed

text \<open>Answers for a gateway that is not connected are never given back: with \<open>n\<close> free answer objects, \<open>n\<close>
  login requests for an unreachable gateway are processed, and the next one makes the processor
  dereference the null pointer of the exhausted pool.\<close>

theorem unreachable_gateway_exhausts_replies:
  assumes "request_ok sha256 st m" "rar_RequestType m = 65" "unat (rar_GatewayId m) < length G"
    "vfd_Fd (vfd_load (G ! unat (rar_GatewayId m))) = - 1" "replies_inv rp" "channel_items (rp_Queue rp) = []"
  shows "(\<exists>s. login_rounds sha256 st G m net (reply_room rp) (rp, d) = Some s) \<and>
    login_rounds sha256 st G m net (Suc (reply_room rp)) (rp, d) = None"
  using assms(5,6)
proof (induction "reply_room rp" arbitrary: rp)
  case 0
  have "process_request sha256 st m rp = None"
    using assms(1,2) 0 by (intro process_request_none) (simp_all add: request_ok_def replies_inv_def)
  then show ?case using 0(1) by (simp flip: 0(1) add: login_round_def)
next
  case (Suc n)
  from login_round_leaks[OF assms(1-4) Suc.prems Suc(2)[symmetric], of net d] obtain rp' where
    r: "login_round sha256 st G m net (rp, d) = Some (rp', d)" "replies_inv rp'" "channel_items (rp_Queue rp') = []" "reply_room rp' = n" by blast
  from Suc.hyps(1)[OF r(4)[symmetric] r(2,3)] show ?case using r(1,4) Suc(2)[symmetric] by simp
qed

theorem unreachable_gateway_exhausts_replies_witness:
  "\<exists>st rp. as_ClientStates_of 2 [sample_client] = Some st \<and> fresh_replies (2 ^ 1) = Some rp \<and>
     login_rounds (\<lambda>x. x) st (replicate MaxGateways VersionedFd_init) (sample_request 3 7) (\<lambda>_. \<lparr> sr_sent = 0, sr_errno = EPIPE, sr_newVal = 0 \<rparr>) 3
       (rp, GatewayResponseDispatcher_init) = None"
proof -
  let ?G = "replicate MaxGateways VersionedFd_init" and ?m = "sample_request 3 7"
  obtain st where st: "as_ClientStates_of 2 [sample_client] = Some st" "request_ok (\<lambda>x. x) st ?m" using sample_service by blast
  obtain rp where rp: "fresh_replies (2 ^ 1) = Some rp" "replies_inv rp" "channel_items (rp_Queue rp) = []" "reply_room rp = 2 ^ 1"
    using fresh_replies_ok[of 1] by auto
  have m: "rar_RequestType ?m = 65" "unat (rar_GatewayId ?m) < length ?G" by (simp_all add: sample_request_def MaxGateways_def)
  have "in_i32 (- 1)" by (simp add: in_i32_def)
  then have "vfd_Fd (vfd_load (?G ! unat (rar_GatewayId ?m))) = - 1"
    using m(2) by (simp add: VersionedFd_init_def vfd_load_def)
  from unreachable_gateway_exhausts_replies[OF st(2) m this rp(2,3)] st(1) rp(1,4) show ?thesis
    by (auto simp: numeral_eq_Suc simp del: login_rounds.simps)
qed

end
