(* ===== verification/Wire_Login.thy ===== *)
theory Wire_Login
  imports Wire_Types
begin

text \<open>
  The packed layout of the login messages: \<open>ClientAuthRequest\<close> (a client to its gateway),
  \<open>RoutedAuthRequest\<close> (the gateway to the account service) and \<open>GatewayHandshake\<close>, all of
  \<open>market_server/common/include\<close>.
\<close>

definition sizeof_ClientAuthRequest :: nat where "sizeof_ClientAuthRequest = 37"
definition sizeof_RoutedAuthRequest :: nat where "sizeof_RoutedAuthRequest = 43"
definition sizeof_GatewayHandshake :: nat where "sizeof_GatewayHandshake = 2"

definition encode_ClientAuthRequest :: "ClientAuthRequest \<Rightarrow> u8 list" where
  "encode_ClientAuthRequest r = car_RequestType r # le_bytes 4 (uint (car_ClientId r)) @ car_Key r"

definition decode_ClientAuthRequest :: "u8 list \<Rightarrow> ClientAuthRequest" where
  "decode_ClientAuthRequest bs =
   \<lparr> car_RequestType = bs ! 0, car_ClientId = word_of_int (le_value (take 4 (drop 1 bs))), car_Key = take 32 (drop 5 bs) \<rparr>"

definition encode_RoutedAuthRequest :: "RoutedAuthRequest \<Rightarrow> u8 list" where
  "encode_RoutedAuthRequest r = rar_RequestType r # le_bytes 4 (uint (rar_ClientId r)) @ rar_Key r @
     le_bytes 4 (uint (rar_ClientFd r)) @ le_bytes 2 (uint (rar_GatewayId r))"

definition decode_RoutedAuthRequest :: "u8 list \<Rightarrow> RoutedAuthRequest" where
  "decode_RoutedAuthRequest bs =
   \<lparr> rar_RequestType = bs ! 0, rar_ClientId = word_of_int (le_value (take 4 (drop 1 bs))), rar_Key = take 32 (drop 5 bs),
     rar_ClientFd = word_of_int (le_value (take 4 (drop 37 bs))), rar_GatewayId = word_of_int (le_value (take 2 (drop 41 bs))) \<rparr>"

definition decode_GatewayHandshake :: "u8 list \<Rightarrow> GatewayHandshake" where
  "decode_GatewayHandshake bs = \<lparr> ghs_GatewayId = word_of_int (le_value (take 2 bs)) \<rparr>"

definition encode_GatewayHandshake :: "GatewayHandshake \<Rightarrow> u8 list" where
  "encode_GatewayHandshake h = le_bytes 2 (uint (ghs_GatewayId h))"

lemma decode_encode_ClientAuthRequest:
  assumes "length (car_Key r) = 32"
  shows "length (encode_ClientAuthRequest r) = sizeof_ClientAuthRequest" "decode_ClientAuthRequest (encode_ClientAuthRequest r) = r"
  using assms by (simp_all add: encode_ClientAuthRequest_def decode_ClientAuthRequest_def sizeof_ClientAuthRequest_def le_value_range)

lemma decode_encode_RoutedAuthRequest:
  assumes "length (rar_Key r) = 32"
  shows "length (encode_RoutedAuthRequest r) = sizeof_RoutedAuthRequest" "decode_RoutedAuthRequest (encode_RoutedAuthRequest r) = r"
  using assms by (simp_all add: encode_RoutedAuthRequest_def decode_RoutedAuthRequest_def sizeof_RoutedAuthRequest_def le_value_range)

lemma decode_encode_GatewayHandshake:
  "length (encode_GatewayHandshake h) = sizeof_GatewayHandshake" "decode_GatewayHandshake (encode_GatewayHandshake h) = h"
  by (simp_all add: encode_GatewayHandshake_def decode_GatewayHandshake_def sizeof_GatewayHandshake_def le_value_range)

end
