(* ===== verification/Servers.thy ===== *)
theory Servers
  imports Epoll_Server Gateway_Accounts Account_Requests Wire_Login
begin

text \<open>
  The three listeners derived from \<open>EpollServer\<close>: the gateway's client listener
  (\<open>order_gateway/include/gateway_server.hpp\<close>), the matching engine's order listener
  (\<open>matching_engine/include/order_ingress_server.hpp\<close>) and the account service's gateway listener
  (\<open>account_service/include/gateway_epoll_server.hpp\<close>).  Each is an instance of \<open>epoll_handlers\<close>.
\<close>

section \<open>The gateway's client listener\<close>

record GatewayServer =
  gsv_GatewayId :: u16
  gsv_States :: gw_ClientStates
  gsv_Disconnects :: "u32 channel"
  gsv_Requests :: "RoutedAuthRequest outbox"

definition gsv_FirstMessageHandle :: "ClientAuthRequest \<Rightarrow> nat \<Rightarrow> GatewayServer \<Rightarrow> GatewayServer option" where
  "gsv_FirstMessageHandle message fd s =
     (let ob = gsv_Requests s
      in case StoragePool_Acquire (ob_Pool ob) of
           (None, p) \<Rightarrow> None
         | (Some finalRequest, p) \<Rightarrow>
             (let r = \<lparr> rar_RequestType = car_RequestType message, rar_ClientId = car_ClientId message, rar_Key = car_Key message,
                        rar_ClientFd = of_nat fd, rar_GatewayId = gsv_GatewayId s \<rparr>;
                  p = store_msg finalRequest r p
              in case Producer_TryPush finalRequest (ob_Queue ob) of (enqueued, q) \<Rightarrow>
                   Some (s \<lparr> gsv_Requests :=
                     \<lparr> ob_Pool = (if enqueued then p else snd (StoragePool_LocalRelease (Some finalRequest) p)), ob_Queue = q \<rparr> \<rparr>)))"

definition gsv_BatchHandle :: "u8 ObjectBatch \<Rightarrow> nat \<Rightarrow> GatewayServer \<Rightarrow> (u8 ObjectBatch \<times> GatewayServer) option" where
  "gsv_BatchHandle batch fd s = do {
     auth \<leftarrow> gw_GetClientAuth fd (gsv_States s);
     Some (batch \<lparr> bat_Fd := of_nat fd, bat_Auth := auth \<rparr>, s) }"

definition gsv_CloseHandle :: "nat \<Rightarrow> GatewayServer \<Rightarrow> GatewayServer option" where
  "gsv_CloseHandle fd s = Some (s \<lparr> gsv_Disconnects := snd (Producer_TryPush (of_nat fd) (gsv_Disconnects s)) \<rparr>)"

definition gateway_class :: "GatewayServer server_class" where
  "gateway_class =
   \<lparr> sv_sizeofT = sizeof_Order, sv_BatchSize = GatewayEpollReceiveBatchSize, sv_sizeofInit = Some sizeof_ClientAuthRequest,
     sv_FirstMessageHandle = (\<lambda>bs. gsv_FirstMessageHandle (decode_ClientAuthRequest bs)),
     sv_AcceptHandle = (\<lambda>fd. Some), sv_CloseHandle = gsv_CloseHandle, sv_BatchHandle = gsv_BatchHandle \<rparr>"

section \<open>The matching engine's order listener\<close>

definition MeEpollReceiveBatchSize :: nat where "MeEpollReceiveBatchSize = 16"

definition order_ingress_class :: "unit server_class" where
  "order_ingress_class =
   \<lparr> sv_sizeofT = sizeof_Order, sv_BatchSize = MeEpollReceiveBatchSize, sv_sizeofInit = None,
     sv_FirstMessageHandle = (\<lambda>bs fd. Some), sv_AcceptHandle = (\<lambda>fd. Some), sv_CloseHandle = (\<lambda>fd. Some),
     sv_BatchHandle = (\<lambda>b fd d. Some (b, d)) \<rparr>"

section \<open>The account service's gateway listener\<close>

definition AccountEpollReceiveBatchSize :: nat where "AccountEpollReceiveBatchSize = 16"

definition gateway_epoll_class :: "GatewayEpollServer server_class" where
  "gateway_epoll_class =
   \<lparr> sv_sizeofT = sizeof_RoutedAuthRequest, sv_BatchSize = AccountEpollReceiveBatchSize, sv_sizeofInit = Some sizeof_GatewayHandshake,
     sv_FirstMessageHandle = (\<lambda>bs. ges_FirstMessageHandle (decode_GatewayHandshake bs)),
     sv_AcceptHandle = (\<lambda>fd. Some), sv_CloseHandle = ges_CloseHandle, sv_BatchHandle = (\<lambda>b fd d. Some (b, d)) \<rparr>"

section \<open>The handlers meet the contract\<close>

definition gsv_ok :: "nat \<Rightarrow> GatewayServer \<Rightarrow> bool" where
  "gsv_ok nfds s \<longleftrightarrow> (\<forall>fd < nfds. tab_in (gsv_States s) fd)"

definition ges_ok :: "nat \<Rightarrow> GatewayEpollServer \<Rightarrow> bool" where
  "ges_ok nfds s \<longleftrightarrow> length (ges_FdToGateways s) = nfds \<and> (\<forall>i \<in> set (ges_FdToGateways s). unat i < length (ges_Gateways s))"

lemmas class_simps = gateway_class_def order_ingress_class_def gateway_epoll_class_def sizeof_Order_def sizeof_RoutedAuthRequest_def
  sizeof_ClientAuthRequest_def sizeof_GatewayHandshake_def
  GatewayEpollReceiveBatchSize_def MeEpollReceiveBatchSize_def AccountEpollReceiveBatchSize_def

interpretation gws: epoll_handlers gateway_class "gsv_ok nfds" nfds
  by unfold_locales (auto simp: class_simps gsv_ok_def gsv_BatchHandle_def gsv_CloseHandle_def gw_GetClientAuth_def)

interpretation ois: epoll_handlers order_ingress_class "\<lambda>_. True" nfds
  by unfold_locales (auto simp: class_simps)

interpretation ges: epoll_handlers gateway_epoll_class "ges_ok nfds" nfds
  by unfold_locales (auto simp: class_simps ges_ok_def ges_CloseHandle_def Let_def)

section \<open>Objects in a batch\<close>

text \<open>The objects a consumer of the batches reads: \<open>batch[i]\<close> for \<open>i < batch.Size\<close>.\<close>

definition frames :: "nat \<Rightarrow> u8 list \<Rightarrow> u8 list list" where
  "frames sz bs = map (\<lambda>i. take sz (drop (sz * i) bs)) [0..<length bs div sz]"

definition batch_objects :: "nat \<Rightarrow> u8 ObjectBatch \<Rightarrow> u8 list list" where
  "batch_objects sz b = map (\<lambda>i. take sz (drop (sz * i) (bat_Data b))) [0..<bat_Size b]"

lemma frames_Nil [simp]: "frames sz [] = []"
  by (simp add: frames_def)

lemma frames_Cons:
  assumes "0 < sz" "length a = sz"
  shows "frames sz (a @ bs) = a # frames sz bs"
proof -
  have "length (a @ bs) div sz = Suc (length bs div sz)" using assms by (simp add: div_add_self1)
  then show ?thesis using assms unfolding frames_def by (subst upt_conv_Cons) (simp_all add: map_Suc_upt[symmetric] comp_def del: upt_Suc)
qed

lemma frames_concat:
  assumes "0 < sz" "\<forall>x \<in> set xs. length (f x) = sz"
  shows "frames sz (concat (map f xs) @ bs) = map f xs @ frames sz bs"
  using assms(2) by (induction xs) (simp_all add: frames_Cons[OF assms(1)])

lemma frames_append:
  assumes "0 < sz" "sz dvd length a"
  shows "frames sz (a @ b) = frames sz a @ frames sz b"
  using assms(2)
proof (induction "length a div sz" arbitrary: a)
  case 0
  then have "a = []" using assms(1) by (auto simp: div_eq_0_iff dvd_imp_le)
  then show ?case by simp
next
  case (Suc k)
  then have l: "sz \<le> length a" by (metis Suc_neq_Zero div_less not_le)
  let ?h = "take sz a" and ?t = "drop sz a"
  have "k = length ?t div sz" "sz dvd length ?t" using Suc(2,3) l assms(1) by (auto simp: le_div_geq)
  from Suc(1)[OF this] have "frames sz (?t @ b) = frames sz ?t @ frames sz b" .
  then show ?case using frames_Cons[OF assms(1), of ?h ?t] frames_Cons[OF assms(1), of ?h "?t @ b"] l
    by (metis append.assoc append_Cons append_take_drop_id length_take min.absorb2)
qed

lemma batch_objects_frames:
  assumes "0 < sz" "sz * bat_Size b \<le> length (bat_Data b)"
  shows "batch_objects sz b = frames sz (take (sz * bat_Size b) (bat_Data b))"
proof -
  have "take sz (drop (sz * i) (take (sz * k) d)) = take sz (drop (sz * i) d)" if "i < k" for i k and d :: "u8 list"
  proof -
    have "sz * Suc i \<le> sz * k" using that by (intro mult_le_mono2) simp
    then show ?thesis by (simp add: drop_take min_def)
  qed
  then show ?thesis using assms by (simp add: batch_objects_def frames_def min_absorb2)
qed

lemma delivered_objects:
  assumes "es_inv sv es" "0 < sv_sizeofT sv"
  shows "frames (sv_sizeofT sv) (delivered sv es) = concat (map (batch_objects (sv_sizeofT sv)) (outbox_msgs (es_Batches es)))"
    "sv_sizeofT sv dvd length (delivered sv es)"
proof -
  let ?sz = "sv_sizeofT sv"
  define bs where "bs = outbox_msgs (es_Batches es)"
  have "\<forall>b \<in> set bs. ?sz * bat_Size b \<le> length (bat_Data b)" using assms(1) by (auto simp: es_inv_def outbox_msgs_def bs_def)
  then have "frames ?sz (concat (map (\<lambda>b. take (?sz * bat_Size b) (bat_Data b)) bs)) = concat (map (batch_objects ?sz) bs) \<and>
      ?sz dvd length (concat (map (\<lambda>b. take (?sz * bat_Size b) (bat_Data b)) bs))"
  proof (induction bs)
    case (Cons b bs)
    have "length (take (?sz * bat_Size b) (bat_Data b)) = ?sz * bat_Size b" using Cons.prems by (simp add: min_absorb2)
    then show ?case using Cons frames_append[OF assms(2)] batch_objects_frames[OF assms(2)] by simp
  qed simp
  then show "frames ?sz (delivered sv es) = concat (map (batch_objects ?sz) (outbox_msgs (es_Batches es)))"
    "?sz dvd length (delivered sv es)" by (simp_all add: delivered_def bs_def)
qed

text \<open>A stream of whole objects leaves nothing pending, and the batches hold exactly these objects.\<close>

lemma whole_objects:
  assumes inv: "es_inv sv es" "es_inv sv es'" and sz: "0 < sv_sizeofT sv" and fd: "fd < length (es_Buffers es')"
    and eq: "delivered sv es' @ pending es' fd = delivered sv es @ concat (map f xs)" and len: "\<forall>x \<in> set xs. length (f x) = sv_sizeofT sv"
  shows "pending es' fd = [] \<and> concat (map (batch_objects (sv_sizeofT sv)) (outbox_msgs (es_Batches es'))) =
    concat (map (batch_objects (sv_sizeofT sv)) (outbox_msgs (es_Batches es))) @ map f xs"
proof -
  let ?sz = "sv_sizeofT sv"
  have "length (concat (map f xs)) = ?sz * length xs" using len by (induction xs) simp_all
  then have "?sz dvd length (delivered sv es @ concat (map f xs))" using delivered_objects(2)[OF inv(1) sz] by simp
  then have "?sz dvd length (delivered sv es') + length (pending es' fd)" unfolding eq[symmetric] by simp
  then have "?sz dvd length (pending es' fd)" using delivered_objects(2)[OF inv(2) sz] by (simp add: dvd_add_right_iff)
  moreover have "es_Buffers es' ! fd \<in> set (es_Buffers es')" using fd by simp
  then have "length (pending es' fd) < ?sz" using inv(2) length_obf_bytes by (force simp: es_inv_def pending_def)
  ultimately have p: "pending es' fd = []" using dvd_imp_le by fastforce
  then have "frames ?sz (delivered sv es') = frames ?sz (delivered sv es) @ map f xs"
    using eq frames_append[OF sz delivered_objects(2)[OF inv(1) sz], of "concat (map f xs)"] frames_concat[OF sz len, of "[]"] by simp
  with p show ?thesis using delivered_objects(1)[OF inv(1) sz] delivered_objects(1)[OF inv(2) sz] by simp
qed

section \<open>A client session\<close>

definition routed_request :: "ClientAuthRequest \<Rightarrow> nat \<Rightarrow> u16 \<Rightarrow> RoutedAuthRequest" where
  "routed_request r fd gw = \<lparr> rar_RequestType = car_RequestType r, rar_ClientId = car_ClientId r, rar_Key = car_Key r,
     rar_ClientFd = of_nat fd, rar_GatewayId = gw \<rparr>"

text \<open>The orders waiting in the queue to the order router.\<close>

definition received_orders :: "GatewayServer EpollServer \<Rightarrow> Order list" where
  "received_orders es = map decode_Order (concat (map (batch_objects sizeof_Order) (outbox_msgs (es_Batches es))))"

lemma length_skip_bytes: "length (skip_bytes n cs) \<le> length cs"
  by (induction n cs rule: skip_bytes.induct) auto

lemma gsv_FirstMessageHandle_ok:
  assumes "outbox_inv (gsv_Requests s)" "0 < outbox_room (gsv_Requests s)"
  shows "\<exists>ob. gsv_FirstMessageHandle m fd s = Some (s \<lparr> gsv_Requests := ob \<rparr>) \<and> outbox_inv ob \<and>
    outbox_msgs ob = outbox_msgs (gsv_Requests s) @ [routed_request m fd (gsv_GatewayId s)]"
proof -
  from outbox_loan[OF assms] obtain x p c where
    l: "StoragePool_Acquire (ob_Pool (gsv_Requests s)) = (Some x, p)" "Producer_TryPush x (ob_Queue (gsv_Requests s)) = (True, c)"
      "\<And>v. with_sent (gsv_Requests s) v \<lparr> ob_Pool = store_msg x v p, ob_Queue = c \<rparr>" by blast
  then show ?thesis using l(3)[of "routed_request m fd (gsv_GatewayId s)"]
    by (auto simp: gsv_FirstMessageHandle_def Let_def with_sent_def routed_request_def)
qed

lemma addClient_ok:
  assumes "es_inv sv es" "acc_fd a < length (es_Buffers es)" "acc_nonblocking a" "acc_registered a" "sv_AcceptHandle sv = (\<lambda>fd. Some)"
    "sv_sizeofInit sv = Some n" "0 < sv_sizeofT sv"
  shows "\<exists>es1. addClient sv a es = Some es1 \<and> es_inv sv es1 \<and> es_Derived es1 = es_Derived es \<and> es_Batches es1 = es_Batches es \<and>
    length (es_Buffers es1) = length (es_Buffers es) \<and> es_FirstMessage es1 = (es_FirstMessage es)[acc_fd a := True] \<and>
    pending es1 (acc_fd a) = [] \<and> es_Registered es1 = acc_fd a # es_Registered es"
proof -
  have "\<forall>b \<in> set ((es_Buffers es)[acc_fd a := ObjectBuffer_init (sv_sizeofT sv)]). obf_inv (sv_sizeofT sv) b \<and> obf_BufferSize b < sv_sizeofT sv"
    using assms(1,7) set_update_subset_insert[of "es_Buffers es" "acc_fd a" "ObjectBuffer_init (sv_sizeofT sv)"]
    by (auto simp: es_inv_def ObjectBuffer_init_def obf_inv_def)
  then show ?thesis using assms by (simp add: addClient_def Let_def es_inv_def pending_def)
qed

text \<open>The gateway's handler marks a batch with its connection and the authentication of that connection.\<close>

lemma handled_gateway:
  assumes "handled gateway_class fd d bs" "b \<in> set bs"
  shows "bat_Fd b = of_nat fd \<and> gw_GetClientAuth fd (gsv_States d) = Some (bat_Auth b)"
proof -
  from assms obtain b0 where "gsv_BatchHandle b0 fd d = Some (b, d)" by (auto simp: handled_def gateway_class_def)
  then show ?thesis by (cases "gw_GetClientAuth fd (gsv_States d)") (auto simp: gsv_BatchHandle_def)
qed

text \<open>C15. What a client sends is what the gateway hands on, byte for byte: a new connection that sends its login
  request and then any orders, cut by the network into chunks of which none after the login completes an
  order and starts the next, results in exactly that login request, labelled with the connection and the
  gateway, in the queue to the account service, and exactly those orders, in order, in batches appended to the
  queue of the order router, with nothing left over.  Every one of these batches carries the connection it came
  from and the authentication that the table of client states holds for it.\<close>

theorem client_session_received:
  assumes es: "es_inv gateway_class es" "gsv_ok nfds (es_Derived es)" "length (es_Buffers es) = nfds" "length (es_FirstMessage es) = nfds"
    and req: "outbox_inv (gsv_Requests (es_Derived es))" "0 < outbox_room (gsv_Requests (es_Derived es))"
    and conn: "acc_fd a < nfds" "acc_nonblocking a" "acc_registered a"
    and sent: "concat cs = encode_ClientAuthRequest r @ concat (map encode_Order os)" "length (car_Key r) = 32" "\<forall>o' \<in> set os. wire_order o'"
    and cut: "\<forall>bs \<in> set cs. bs \<noteq> []" "well_cut sizeof_Order (sizeof_Order * GatewayEpollReceiveBatchSize) 0 (skip_bytes sizeof_ClientAuthRequest cs)"
    and room: "length cs < outbox_room (es_Batches es)"
  shows "\<exists>es1 es2. addClient gateway_class a es = Some es1 \<and> readMessage gateway_class (acc_fd a) (map Bytes cs) es1 = Some ([], es2) \<and>
    received_orders es2 = received_orders es @ os \<and>
    (\<exists>bs. outbox_msgs (es_Batches es2) = outbox_msgs (es_Batches es) @ bs \<and>
      (\<forall>b \<in> set bs. bat_Fd b = of_nat (acc_fd a) \<and> gw_GetClientAuth (acc_fd a) (gsv_States (es_Derived es)) = Some (bat_Auth b))) \<and>
    outbox_msgs (gsv_Requests (es_Derived es2)) = outbox_msgs (gsv_Requests (es_Derived es)) @ [routed_request r (acc_fd a) (gsv_GatewayId (es_Derived es))] \<and>
    pending es2 (acc_fd a) = [] \<and> acc_fd a \<in> set (es_Registered es1)"
proof -
  have c: "sv_sizeofT gateway_class = sizeof_Order" "sv_BatchSize gateway_class = GatewayEpollReceiveBatchSize"
    "sv_sizeofInit gateway_class = Some sizeof_ClientAuthRequest" "sv_AcceptHandle gateway_class = (\<lambda>fd. Some)"
    "sv_FirstMessageHandle gateway_class = (\<lambda>bs. gsv_FirstMessageHandle (decode_ClientAuthRequest bs))" "0 < sizeof_Order"
    "sizeof_ClientAuthRequest \<le> sizeof_Order" by (simp_all add: class_simps)
  from addClient_ok[OF es(1), of a sizeof_ClientAuthRequest] conn es(3) c obtain es1 where
    s1: "addClient gateway_class a es = Some es1" "es_inv gateway_class es1" "es_Derived es1 = es_Derived es" "es_Batches es1 = es_Batches es"
      "length (es_Buffers es1) = nfds" "es_FirstMessage es1 = (es_FirstMessage es)[acc_fd a := True]" "pending es1 (acc_fd a) = []"
      "es_Registered es1 = acc_fd a # es_Registered es" by auto
  note e = decode_encode_ClientAuthRequest[OF sent(2)]
  from gsv_FirstMessageHandle_ok[OF req, of r "acc_fd a"] obtain ob where
    h: "gsv_FirstMessageHandle r (acc_fd a) (es_Derived es) = Some (es_Derived es \<lparr> gsv_Requests := ob \<rparr>)"
      "outbox_msgs ob = outbox_msgs (gsv_Requests (es_Derived es)) @ [routed_request r (acc_fd a) (gsv_GatewayId (es_Derived es))]" by blast
  have "gws.ok nfds es1" using s1 es(2) by (simp add: gws.ok_def)
  from gws.readMessage_first[OF this conn(1) c(3), of cs "es_Derived es \<lparr> gsv_Requests := ob \<rparr>"] obtain es2 where
    s2: "readMessage gateway_class (acc_fd a) (map Bytes cs) es1 = Some ([], es2)" "gws.ok nfds es2"
      "delivered gateway_class es2 @ pending es2 (acc_fd a) = delivered gateway_class es1 @ concat (map encode_Order os)"
      "es_Derived es2 = es_Derived es \<lparr> gsv_Requests := ob \<rparr>"
      "\<exists>bs. outbox_msgs (es_Batches es2) = outbox_msgs (es_Batches es1) @ bs \<and> handled gateway_class (acc_fd a) (es_Derived es \<lparr> gsv_Requests := ob \<rparr>) bs"
    using s1 c conn(1) es(2,4) cut sent(1) e h(1) room le_less_trans[OF length_skip_bytes room, of sizeof_ClientAuthRequest]
    by (auto simp: gsv_ok_def)
  have inv2: "es_inv gateway_class es2" "acc_fd a < length (es_Buffers es2)" using s2(2) conn(1) by (simp_all add: gws.ok_def)
  have "\<forall>o' \<in> set os. length (encode_Order o') = sv_sizeofT gateway_class" using sent(3) decode_encode_Order(1) c(1) by simp
  from whole_objects[OF s1(2) inv2(1) _ inv2(2) s2(3) this] c have w: "pending es2 (acc_fd a) = []"
    "concat (map (batch_objects sizeof_Order) (outbox_msgs (es_Batches es2))) = concat (map (batch_objects sizeof_Order) (outbox_msgs (es_Batches es))) @ map encode_Order os"
    by (simp_all add: s1(4))
  have "map decode_Order (map encode_Order os) = os" using sent(3) decode_encode_Order(2) by (simp add: map_idI)
  then have "received_orders es2 = received_orders es @ os" using w(2) by (simp add: received_orders_def)
  moreover have "\<exists>bs. outbox_msgs (es_Batches es2) = outbox_msgs (es_Batches es) @ bs \<and>
      (\<forall>b \<in> set bs. bat_Fd b = of_nat (acc_fd a) \<and> gw_GetClientAuth (acc_fd a) (gsv_States (es_Derived es)) = Some (bat_Auth b))"
    using s2(5) handled_gateway unfolding s1(4) by fastforce
  ultimately show ?thesis using s1(1,8) s2(1,4) h(2) w(1) by auto
qed

definition sample_login :: ClientAuthRequest where
  "sample_login = \<lparr> car_RequestType = 65, car_ClientId = 7, car_Key = replicate 32 3 \<rparr>"

definition sample_listener :: "u8 ObjectBatch outbox \<Rightarrow> RoutedAuthRequest outbox \<Rightarrow> GatewayServer EpollServer" where
  "sample_listener ob rq = EpollServer_init gateway_class 8 ob
     \<lparr> gsv_GatewayId = 3, gsv_States = gw_ClientStates_init 8, gsv_Disconnects = channel_of (SpscQueue_init 8 0), gsv_Requests = rq \<rparr>"

definition sample_connection :: accepted where
  "sample_connection = \<lparr> acc_fd = 5, acc_nonblocking = True, acc_registered = True \<rparr>"

lemma fresh_outbox_storage:
  assumes "fresh_outbox n d = Some ob"
  shows "sp_Storage (ob_Pool ob) = (\<lambda>_. d)"
  using assms by (auto simp: fresh_outbox_def StoragePool_init_def split: option.splits prod.splits if_splits)

lemma sample_listener_ok:
  "\<exists>ob rq. fresh_outbox (2 ^ 3) (ObjectBatch_init (sizeof_Order * GatewayEpollReceiveBatchSize) 0) = Some ob \<and>
     fresh_outbox (2 ^ 1) (routed_request sample_login 0 0) = Some rq \<and> es_inv gateway_class (sample_listener ob rq) \<and>
     gsv_ok 8 (es_Derived (sample_listener ob rq)) \<and> length (es_Buffers (sample_listener ob rq)) = 8 \<and>
     length (es_FirstMessage (sample_listener ob rq)) = 8 \<and> gsv_Requests (es_Derived (sample_listener ob rq)) = rq \<and>
     gsv_GatewayId (es_Derived (sample_listener ob rq)) = 3 \<and> es_Batches (sample_listener ob rq) = ob \<and>
     outbox_inv rq \<and> outbox_msgs rq = [] \<and> outbox_room rq = 2 \<and> outbox_msgs ob = [] \<and> outbox_room ob = 8"
proof -
  obtain ob where ob: "fresh_outbox (2 ^ 3) (ObjectBatch_init (sizeof_Order * GatewayEpollReceiveBatchSize) 0) = Some ob"
    "outbox_inv (ob :: u8 ObjectBatch outbox)" "outbox_msgs ob = []" "outbox_room ob = 2 ^ 3"
    using fresh_outbox_ok[of 3 "ObjectBatch_init (sizeof_Order * GatewayEpollReceiveBatchSize) (0 :: u8)"] by auto
  obtain rq where rq: "fresh_outbox (2 ^ 1) (routed_request sample_login 0 0) = Some rq" "outbox_inv rq" "outbox_msgs rq = []" "outbox_room rq = 2 ^ 1"
    using fresh_outbox_ok[of 1 "routed_request sample_login 0 0"] by auto
  have "\<forall>b \<in> set (replicate 8 (ObjectBuffer_init sizeof_Order)). obf_inv sizeof_Order b \<and> obf_BufferSize b < sizeof_Order"
    by (simp add: obf_inv_def ObjectBuffer_init_def sizeof_Order_def)
  then have "es_inv gateway_class (sample_listener ob rq)" using ob(2,3) fresh_outbox_storage[OF ob(1)]
    by (simp add: es_inv_def sample_listener_def EpollServer_init_def gateway_class_def ObjectBatch_init_def)
  moreover have "gsv_ok 8 (es_Derived (sample_listener ob rq))"
    by (simp add: gsv_ok_def sample_listener_def EpollServer_init_def gw_ClientStates_init_def tab_in_def)
  ultimately show ?thesis using ob rq by (simp add: sample_listener_def EpollServer_init_def gateway_class_def)
qed

lemma wire_sample_order: "wire_order sample_order"
  by (simp add: wire_order_def sample_order_def in_i64_def OrderType_of_def OrderSide_of_def OrderAction_of_def)

theorem client_session_received_witness:
  "\<exists>ob rq es1 es2. addClient gateway_class sample_connection (sample_listener ob rq) = Some es1 \<and>
     readMessage gateway_class 5 (map Bytes [encode_ClientAuthRequest sample_login @ encode_Order sample_order,
       take 10 (encode_Order sample_order), drop 10 (encode_Order sample_order)]) es1 = Some ([], es2) \<and>
     received_orders es2 = [sample_order, sample_order] \<and> (\<forall>b \<in> set (outbox_msgs (es_Batches es2)). bat_Fd b = 5 \<and> bat_Auth b = 0) \<and>
     outbox_msgs (gsv_Requests (es_Derived es2)) = [routed_request sample_login 5 3] \<and> pending es2 5 = []"
proof -
  obtain ob rq where s: "es_inv gateway_class (sample_listener ob rq)"
     "gsv_ok 8 (es_Derived (sample_listener ob rq))" "length (es_Buffers (sample_listener ob rq)) = 8"
     "length (es_FirstMessage (sample_listener ob rq)) = 8" and d: "gsv_Requests (es_Derived (sample_listener ob rq)) = rq"
     "gsv_GatewayId (es_Derived (sample_listener ob rq)) = 3" "es_Batches (sample_listener ob rq) = ob"
     "outbox_inv rq" "outbox_msgs rq = []" "outbox_room rq = 2" "outbox_msgs ob = []" "outbox_room ob = 8" using sample_listener_ok by blast
  let ?e = "encode_Order sample_order" and ?l = "encode_ClientAuthRequest sample_login"
  let ?cs = "[?l @ ?e, take 10 ?e, drop 10 ?e]"
  have le: "length ?e = 40" using decode_encode_Order(1)[OF wire_sample_order] by (simp add: sizeof_Order_def)
  have k: "length (car_Key sample_login) = 32" by (simp add: sample_login_def)
  have ll: "length ?l = 37" using decode_encode_ClientAuthRequest(1)[OF k] by (simp add: sizeof_ClientAuthRequest_def)
  have sk: "skip_bytes sizeof_ClientAuthRequest ?cs = [?e, take 10 ?e, drop 10 ?e]" using le ll by (auto simp: sizeof_ClientAuthRequest_def)
  have cut: "well_cut sizeof_Order (sizeof_Order * GatewayEpollReceiveBatchSize) 0 (skip_bytes sizeof_ClientAuthRequest ?cs)"
    unfolding sk using le by (auto simp: sizeof_Order_def GatewayEpollReceiveBatchSize_def)
  have ne: "\<forall>bs \<in> set ?cs. bs \<noteq> []" using le ll by auto
  have con: "concat ?cs = ?l @ concat (map encode_Order [sample_order, sample_order])" by simp
  have r0: "received_orders (sample_listener ob rq) = []" using d by (simp add: received_orders_def)
  have au: "gw_GetClientAuth 5 (gsv_States (es_Derived (sample_listener ob rq))) = Some 0"
    by (simp add: sample_listener_def EpollServer_init_def gw_ClientStates_init_def gw_GetClientAuth_def tab_in_def ts_at_def gw_ClientState_init_def)
  show ?thesis
    using client_session_received[OF s _ _ _ _ _ con k _ ne cut, of sample_connection] d r0 au wire_sample_order
    by (auto simp: sample_connection_def)
qed

section \<open>Arrivals the server does not survive\<close>

text \<open>C37. A read that completes an order and starts the next makes the gateway copy the start from outside the
  batch: the offset is scaled by the size of an order twice, so with 40-byte orders and 16 of them to a
  batch every such read leaves the batch's memory.\<close>

theorem split_order_reads_outside_batch:
  assumes es: "es_inv gateway_class es" "fd < length (es_Buffers es)" "\<not> es_FirstMessage es ! fd" "pending es fd = []"
    and room: "0 < outbox_room (es_Batches es)"
    and bs: "sizeof_Order < length bs" "length bs \<le> sizeof_Order * GatewayEpollReceiveBatchSize" "\<not> sizeof_Order dvd length bs"
  shows "readMessage gateway_class fd (Bytes bs # as) es = None"
proof -
  have c: "sv_sizeofT gateway_class = 40" "sv_BatchSize gateway_class = 16" "sv_sizeofInit gateway_class = Some 37" by (simp_all add: class_simps)
  from outbox_loan[OF _ room] es(1) obtain x p where
    l: "StoragePool_Acquire (ob_Pool (es_Batches es)) = (Some x, p)" "sp_Storage p = sp_Storage (ob_Pool (es_Batches es))" by (auto simp: es_inv_def)
  have "es_Buffers es ! fd \<in> set (es_Buffers es)" using es(2) by simp
  then have "obf_inv 40 (es_Buffers es ! fd)" using es(1) c by (auto simp: es_inv_def)
  from length_obf_bytes[OF this] have r: "obf_BufferSize (es_Buffers es ! fd) = 0" "length (obf_bytes (es_Buffers es ! fd)) = 0"
    using es(4) by (simp_all add: pending_def)
  have b: "40 < length bs" "length bs \<le> 640" "length bs mod 40 \<noteq> 0" using bs by (simp_all add: sizeof_Order_def GatewayEpollReceiveBatchSize_def dvd_eq_mod_eq_0)
  have "1 \<le> length bs div 40" using b(1) by (simp add: div_greater_zero_iff Suc_le_eq)
  then have "read_batches gateway_class fd (- 1) (Bytes bs # as) es = None"
    using b es(1) r l by (intro read_batches_misaligned[OF l(1)]) (auto simp: c es_inv_def)
  then show ?thesis using es(2,3) c(3) by (simp add: readMessage_def Let_def)
qed

theorem split_order_reads_outside_batch_witness:
  "\<exists>ob rq. readMessage gateway_class 5 [Bytes (replicate 50 0)] (sample_listener ob rq) = None"
proof -
  obtain ob rq where s: "es_inv gateway_class (sample_listener ob rq)" "length (es_Buffers (sample_listener ob rq)) = 8"
     "es_Batches (sample_listener ob rq) = ob" "outbox_room ob = 8" using sample_listener_ok by blast
  have f: "\<not> es_FirstMessage (sample_listener ob rq) ! 5" "pending (sample_listener ob rq) 5 = []"
    by (simp_all add: sample_listener_def EpollServer_init_def gateway_class_def pending_def)
  from split_order_reads_outside_batch[OF s(1) _ f, of "replicate 50 0" "[]"] s show ?thesis
    by (auto simp: sizeof_Order_def GatewayEpollReceiveBatchSize_def)
qed

text \<open>An interrupted read and then the end of the stream keep the listener's only thread in the read loop.\<close>

lemma interrupted_close_never_returns:
  assumes "es_inv gateway_class es" "0 < outbox_room (es_Batches es)" "fd < length (es_Buffers es)" "\<not> es_FirstMessage es ! fd"
  shows "readMessage gateway_class fd [Failed EINTR, Closed] es = None"
proof -
  have c: "0 < sv_BatchSize gateway_class" "sv_sizeofInit gateway_class = Some 37" by (simp_all add: class_simps)
  from release_unused[OF assms(1,2) c(1) assms(3), of EINTR] assms(3) c(1) obtain x p where
    a: "StoragePool_Acquire (ob_Pool (es_Batches es)) = (Some x, p)" and
    n: "interrupted gateway_class fd (local_release x (put_pool (store_msg x (sp_Storage p x \<lparr> bat_Data := overlay 0 (obf_bytes (es_Buffers es ! fd)) (bat_Data (sp_Storage p x)) \<rparr>) p)
         ((put_pool p es) \<lparr> es_errno := EINTR \<rparr>)))" using assms(2) by (auto simp: interrupted_def Let_def)
  have "read_batches gateway_class fd (- 1) [Failed EINTR, Closed] es = None"
    using a read_batches_closed[OF n, of "- 1" "[]"] by (subst read_batches.simps) (simp add: Let_def)
  then show ?thesis using assms(3,4) c(2) by (simp add: readMessage_def Let_def)
qed

end
