(* ===== verification/Order_Router.thy ===== *)
theory Order_Router
  imports Sending Risk_Check Servers
begin

text \<open>
  The order router of the gateway (\<open>order_gateway/include/order_router.hpp\<close>, TCP build): it takes batches of
  orders from the client listener, checks each order, numbers it, sends accepted orders to the matching engine
  of their asset and queues a confirmation for the client.  The connections to matching engines and to the
  account service are switched by a watcher thread; what the watcher stores between the two loads of a slot is
  an argument.  The discovery service (etcd) and the connecting of sockets are outside: an event carries the
  asset and the descriptor that \<open>connectToService\<close> returned.
\<close>

section \<open>State\<close>

record OrderRouter =
  ort_LocalAttempt :: "LocalAttempts list"
  ort_LocalSessionId :: "u32 list"
  ort_MatchingEngines :: "VersionedFd list"
  ort_OrderBuffer :: "BytesBuffer list"
  ort_OrderOffset :: u64
  ort_ConfirmationBuffer :: "BytesBuffer list"
  ort_AccountFd :: VersionedFd
  ort_GatewayId :: u16
  ort_OrdersCount :: u64
  ort_Confirmations :: "ClientMessage channel"
  ort_Net :: network
  ort_Closed :: "i32 list"

definition OrderRouter_init :: "u16 \<Rightarrow> u64 \<Rightarrow> VersionedFd \<Rightarrow> ClientMessage channel \<Rightarrow> network \<Rightarrow> OrderRouter" where
  "OrderRouter_init gatewayId ordersCount accountFd outgoingConfirmation net =
   \<lparr> ort_LocalAttempt = replicate GatewayMaxClients LocalAttempts_init, ort_LocalSessionId = replicate GatewayMaxClients 0,
     ort_MatchingEngines = replicate MaxAssets VersionedFd_init,
     ort_OrderBuffer = replicate MaxAssets (BytesBuffer_init (GatewayEpollReceiveBatchSize * sizeof_Order)), ort_OrderOffset = 0,
     ort_ConfirmationBuffer = replicate GatewayMaxClients (BytesBuffer_init (GatewayEpollReceiveBatchSize * sizeof_OrderConfirmation)),
     ort_AccountFd = accountFd, ort_GatewayId = gatewayId, ort_OrdersCount = ordersCount, ort_Confirmations = outgoingConfirmation,
     ort_Net = net, ort_Closed = [] \<rparr>"

section \<open>Discovery\<close>

datatype engine_event = EnginePut nat i32 | EngineDelete nat

definition switch_engine :: "nat \<Rightarrow> i32 \<Rightarrow> OrderRouter \<Rightarrow> OrderRouter option" where
  "switch_engine symbol_id newFd r =
     (if symbol_id < length (ort_MatchingEngines r)
      then let curSlot = ort_MatchingEngines r ! symbol_id; oldFd = vfd_Fd (vfd_load curSlot)
           in Some (r \<lparr> ort_MatchingEngines := (ort_MatchingEngines r)[symbol_id := SwitchFd newFd curSlot],
                        ort_Closed := (if oldFd \<noteq> - 1 then ort_Closed r @ [oldFd] else ort_Closed r) \<rparr>)
      else None)"

fun etcdOnMEResponse :: "engine_event list \<Rightarrow> OrderRouter \<Rightarrow> OrderRouter option" where
  "etcdOnMEResponse [] r = Some r"
| "etcdOnMEResponse (EnginePut symbol_id newFd # evs) r = do { r \<leftarrow> switch_engine symbol_id newFd r; etcdOnMEResponse evs r }"
| "etcdOnMEResponse (EngineDelete symbol_id # evs) r = do { r \<leftarrow> switch_engine symbol_id (- 1) r; etcdOnMEResponse evs r }"

datatype account_event = AccountPut i32 | AccountDelete

definition switch_account :: "i32 \<Rightarrow> OrderRouter \<Rightarrow> OrderRouter" where
  "switch_account newFd r =
     (let oldFd = vfd_Fd (vfd_load (ort_AccountFd r))
      in r \<lparr> ort_AccountFd := SwitchFd newFd (ort_AccountFd r),
             ort_Closed := (if oldFd \<noteq> - 1 then ort_Closed r @ [oldFd] else ort_Closed r) \<rparr>)"

text \<open>A handshake that cannot be sent ends the handling of all events.\<close>

fun etcdOnAccountServiceResponse :: "u16 \<Rightarrow> account_event list \<Rightarrow> OrderRouter \<Rightarrow> OrderRouter" where
  "etcdOnAccountServiceResponse machine_id [] r = r"
| "etcdOnAccountServiceResponse machine_id (AccountPut newFd # evs) r =
     (case send_all newFd (encode_GatewayHandshake \<lparr> ghs_GatewayId = machine_id \<rparr>) 0 (ort_Net r) of (ok, totalSent, net) \<Rightarrow>
        if ok then etcdOnAccountServiceResponse machine_id evs (switch_account newFd (r \<lparr> ort_Net := net \<rparr>))
        else r \<lparr> ort_Net := net \<rparr>)"
| "etcdOnAccountServiceResponse machine_id (AccountDelete # evs) r = etcdOnAccountServiceResponse machine_id evs (switch_account (- 1) r)"

text \<open>The services found when the gateway starts.\<close>

fun connect_engines :: "(nat \<times> i32) list \<Rightarrow> OrderRouter \<Rightarrow> OrderRouter option" where
  "connect_engines [] r = Some r"
| "connect_engines ((symbol_id, fd) # es) r =
     (if fd = - 1 then connect_engines es r
      else if symbol_id < length (ort_MatchingEngines r)
      then connect_engines es (r \<lparr> ort_MatchingEngines := (ort_MatchingEngines r)[symbol_id := SwitchFd fd (ort_MatchingEngines r ! symbol_id)] \<rparr>)
      else None)"

fun connect_accounts :: "u16 \<Rightarrow> i32 list \<Rightarrow> OrderRouter \<Rightarrow> OrderRouter" where
  "connect_accounts machine_id [] r = r"
| "connect_accounts machine_id (fd # fds) r =
     (case send_all fd (encode_GatewayHandshake \<lparr> ghs_GatewayId = machine_id \<rparr>) 0 (ort_Net r) of (ok, totalSent, net) \<Rightarrow>
        if ok
        then connect_accounts machine_id fds
          (r \<lparr> ort_Net := net, ort_AccountFd := (if fd \<noteq> - 1 then SwitchFd fd (ort_AccountFd r) else ort_AccountFd r) \<rparr>)
        else r \<lparr> ort_Net := net \<rparr>)"

section \<open>Routing\<close>

definition ort_CheckOrderRisk :: "gw_ClientStates \<Rightarrow> nat \<Rightarrow> Order \<Rightarrow> u8 \<Rightarrow> OrderRouter \<Rightarrow> (OrderConfirmationStatus \<times> OrderRouter) option" where
  "ort_CheckOrderRisk states fd order auth r =
     (if auth = 0 then Some (UserNotConnected, r)
      else do {
        curState \<leftarrow> gw_GetClientState fd states;
        if fd < length (ort_LocalAttempt r) \<and> fd < length (ort_LocalSessionId r) \<and> fd < length (ort_ConfirmationBuffer r)
        then (case CheckOrderRisk curState (ort_LocalAttempt r ! fd) (ort_LocalSessionId r ! fd) order auth of (status, la, sid) \<Rightarrow>
                Some (status, r \<lparr> ort_LocalAttempt := (ort_LocalAttempt r)[fd := la], ort_LocalSessionId := (ort_LocalSessionId r)[fd := sid],
                  ort_ConfirmationBuffer := (if status = BadClientId
                    then (ort_ConfirmationBuffer r)[fd := BytesBuffer_Clear (ort_ConfirmationBuffer r ! fd)]
                    else ort_ConfirmationBuffer r) \<rparr>))
        else None })"

definition SendOrder :: "Order \<Rightarrow> u64 \<Rightarrow> u64 option \<Rightarrow> OrderRouter \<Rightarrow> bool \<times> OrderRouter" where
  "SendOrder curOrder curVal reload r =
     (let a = unat (ord_AssetId curOrder)
      in case send_all (vfd_Fd curVal) (encode_Order curOrder) 0 (ort_Net r) of (ok, totalSent, net) \<Rightarrow>
           if \<not> ok
           then (False, r \<lparr> ort_Net := net, ort_OrderOffset := of_nat totalSent,
                   ort_OrderBuffer := (ort_OrderBuffer r)[a := BytesBuffer_Add (encode_Order curOrder) (ort_OrderBuffer r ! a)] \<rparr>)
           else (let slot = (case reload of None \<Rightarrow> ort_MatchingEngines r ! a | Some v \<Rightarrow> \<lparr> vfd_Packed = v \<rparr>)
                 in (vfd_load slot = curVal, r \<lparr> ort_Net := net, ort_MatchingEngines := (ort_MatchingEngines r)[a := slot] \<rparr>)))"

text \<open>The writing of a confirmation, which only the sender of client messages calls.\<close>

definition SendOrderConfirmation :: "OrderConfirmation \<Rightarrow> nat \<Rightarrow> BytesBuffer list \<Rightarrow> network \<Rightarrow> (BytesBuffer list \<times> network) option" where
  "SendOrderConfirmation confirmation fd buffers net =
     (case send_all (int fd) (encode_OrderConfirmation confirmation) 0 net of (ok, totalSent, net) \<Rightarrow>
        if ok then Some (buffers, net)
        else if fd < length buffers
        then Some (buffers[fd := BytesBuffer_Add (drop totalSent (encode_OrderConfirmation confirmation)) (buffers ! fd)], net)
        else None)"

text \<open>The identifier of an order: the gateway in the upper 16 of 64 bits and a counter below, stored in the
  32-bit \<open>OrderId\<close> of a confirmation and read back from there.\<close>

definition next_order_id :: "u16 \<Rightarrow> u64 \<Rightarrow> u32" where
  "next_order_id gatewayId ordersCount = ucast (push_bit 48 (ucast gatewayId :: u64) OR (ordersCount AND (push_bit 48 1 - 1)))"

definition confirm :: "nat \<Rightarrow> OrderConfirmation \<Rightarrow> OrderRouter \<Rightarrow> OrderRouter option" where
  "confirm fd c r = do {
     q \<leftarrow> Producer_Push \<lparr> msg_Fd = of_nat fd, msg_Confirmation = c \<rparr> (ort_Confirmations r);
     Some (r \<lparr> ort_Confirmations := q \<rparr>) }"

definition route_order :: "gw_ClientStates \<Rightarrow> nat \<Rightarrow> u8 \<Rightarrow> u64 option \<Rightarrow> Order \<Rightarrow> OrderRouter \<Rightarrow> OrderRouter option" where
  "route_order states curFd auth reload curOrder r =
     (let a = unat (ord_AssetId curOrder)
      in if \<not> a < length (ort_MatchingEngines r) \<or> \<not> a < length (ort_OrderBuffer r) then None
         else
           let curVal = vfd_load (ort_MatchingEngines r ! a)
           in do {
             (status, r) \<leftarrow> (if vfd_Fd curVal = - 1 then Some (TechnicalFailure, r) else ort_CheckOrderRisk states curFd curOrder auth r);
             orderId \<leftarrow> Some (next_order_id (ort_GatewayId r) (ort_OrdersCount r));
             r \<leftarrow> Some (r \<lparr> ort_OrdersCount := ort_OrdersCount r + 1 \<rparr>);
             c \<leftarrow> Some \<lparr> conf_OrderId = orderId, conf_ClientOrderId = ord_ClientOrderId curOrder, conf_Status = status \<rparr>;
             curOrder \<leftarrow> Some (curOrder \<lparr> ord_OrderId := ucast orderId \<rparr>);
             if status = Accepted
             then do {
               (drained, buffer, off, net) \<leftarrow> DrainBuffer_Order (ort_OrderBuffer r ! a) (int curFd) (ort_OrderOffset r) (ort_Net r);
               r \<leftarrow> Some (r \<lparr> ort_OrderBuffer := (ort_OrderBuffer r)[a := buffer], ort_OrderOffset := off, ort_Net := net \<rparr>);
               if \<not> drained
               then Some (if BytesBuffer_CanAdd (of_nat sizeof_Order) buffer
                          then r \<lparr> ort_OrderBuffer := (ort_OrderBuffer r)[a := BytesBuffer_Add (encode_Order curOrder) buffer] \<rparr>
                          else r)
               else (case SendOrder curOrder curVal reload r of (sent, r) \<Rightarrow> if sent then confirm curFd c r else Some r) }
             else confirm curFd c r })"

fun route_orders :: "gw_ClientStates \<Rightarrow> nat \<Rightarrow> u8 \<Rightarrow> (nat \<Rightarrow> u64 option) \<Rightarrow> Order list \<Rightarrow> OrderRouter \<Rightarrow> OrderRouter option" where
  "route_orders states curFd auth reloads [] r = Some r"
| "route_orders states curFd auth reloads (od # ods) r = do {
     r \<leftarrow> route_order states curFd auth (reloads 0) od r;
     route_orders states curFd auth (\<lambda>i. reloads (Suc i)) ods r }"

text \<open>A failed release is only reported.\<close>

definition consumeOrder ::
  "gw_ClientStates \<Rightarrow> (nat \<Rightarrow> u64 option) \<Rightarrow> u8 ObjectBatch outbox \<Rightarrow> OrderRouter \<Rightarrow> (u8 ObjectBatch outbox \<times> OrderRouter) option" where
  "consumeOrder states reloads ob r =
     (case Consumer_TryPop (ob_Queue ob) of
        (None, q) \<Rightarrow> Some (ob \<lparr> ob_Queue := q \<rparr>, r)
      | (Some x, q) \<Rightarrow>
          (let b = sp_Storage (ob_Pool ob) x
           in do {
             r \<leftarrow> route_orders states (unat (bat_Fd b)) (bat_Auth b) reloads (map decode_Order (batch_objects sizeof_Order b)) r;
             Some (\<lparr> ob_Pool = snd (StoragePool_Release (Some x) (ob_Pool ob)), ob_Queue = q \<rparr>, r) }))"

section \<open>What routing achieves\<close>

text \<open>The orders of a batch with their numbers and the outcome of the check.\<close>

fun labelled :: "u16 \<Rightarrow> u64 \<Rightarrow> OrderConfirmationStatus list \<Rightarrow> Order list \<Rightarrow> (Order \<times> OrderConfirmationStatus) list" where
  "labelled g n (st # sts) (od # ods) = (od \<lparr> ord_OrderId := ucast (next_order_id g n) \<rparr>, st) # labelled g (n + 1) sts ods"
| "labelled g n _ _ = []"

definition confirmation_of :: "nat \<Rightarrow> Order \<times> OrderConfirmationStatus \<Rightarrow> ClientMessage" where
  "confirmation_of fd = (\<lambda>(od, st). \<lparr> msg_Fd = of_nat fd,
     msg_Confirmation = \<lparr> conf_OrderId = ucast (ord_OrderId od), conf_ClientOrderId = ord_ClientOrderId od, conf_Status = st \<rparr> \<rparr>)"

definition engine_fd :: "OrderRouter \<Rightarrow> u16 \<Rightarrow> i32" where
  "engine_fd r asset = vfd_Fd (vfd_load (ort_MatchingEngines r ! unat asset))"

definition orders_for :: "(u16 \<Rightarrow> i32) \<Rightarrow> i32 \<Rightarrow> (Order \<times> OrderConfirmationStatus) list \<Rightarrow> Order list" where
  "orders_for engine f l = map fst (filter (\<lambda>(od, st). st = Accepted \<and> engine (ord_AssetId od) = f) l)"

text \<open>A router that can handle the orders \<open>ods\<close> of connection \<open>fd\<close> without waiting: their engines are connected, no order is
  held back, sends are taken, and the confirmations fit in their queue.\<close>

definition router_ready :: "nat \<Rightarrow> Order list \<Rightarrow> OrderRouter \<Rightarrow> bool" where
  "router_ready fd ods r \<longleftrightarrow> fd < length (ort_LocalAttempt r) \<and> fd < length (ort_LocalSessionId r) \<and> fd < length (ort_ConfirmationBuffer r) \<and>
     net_Answers (ort_Net r) = [] \<and> channel_inv (ort_Confirmations r) \<and>
     length (channel_items (ort_Confirmations r)) + length ods \<le> channel_cap (ort_Confirmations r) \<and>
     (\<forall>od \<in> set ods. unat (ord_AssetId od) < length (ort_MatchingEngines r) \<and> unat (ord_AssetId od) < length (ort_OrderBuffer r) \<and>
        engine_fd r (ord_AssetId od) \<noteq> - 1 \<and> BytesBuffer_GetSize (ort_OrderBuffer r ! unat (ord_AssetId od)) = 0)"

definition routed_step :: "nat \<Rightarrow> LocalAttempts \<Rightarrow> u32 \<Rightarrow> (Order \<times> OrderConfirmationStatus) list \<Rightarrow> OrderRouter \<Rightarrow> OrderRouter \<Rightarrow> bool" where
  "routed_step fd la sid l r r' \<longleftrightarrow>
     ort_LocalAttempt r' = (ort_LocalAttempt r)[fd := la] \<and> ort_LocalSessionId r' = (ort_LocalSessionId r)[fd := sid] \<and>
     ort_GatewayId r' = ort_GatewayId r \<and> ort_MatchingEngines r' = ort_MatchingEngines r \<and>
     ort_OrdersCount r' = ort_OrdersCount r + of_nat (length l) \<and>
     channel_items (ort_Confirmations r') = channel_items (ort_Confirmations r) @ map (confirmation_of fd) l \<and>
     (\<forall>f. net_Sent (ort_Net r') f = net_Sent (ort_Net r) f @ concat (map encode_Order (orders_for (engine_fd r) f l)))"

lemma confirm_ok:
  assumes "channel_inv (ort_Confirmations r)" "length (channel_items (ort_Confirmations r)) < channel_cap (ort_Confirmations r)"
  shows "\<exists>q. confirm fd c r = Some (r \<lparr> ort_Confirmations := q \<rparr>) \<and> channel_inv q \<and> channel_cap q = channel_cap (ort_Confirmations r) \<and>
    channel_items q = channel_items (ort_Confirmations r) @ [\<lparr> msg_Fd = of_nat fd, msg_Confirmation = c \<rparr>]"
proof -
  from spsc.push_room[OF assms] obtain q where
    "Producer_TryPush \<lparr> msg_Fd = of_nat fd, msg_Confirmation = c \<rparr> (ort_Confirmations r) = (True, q)" "channel_inv q"
    "channel_items q = channel_items (ort_Confirmations r) @ [\<lparr> msg_Fd = of_nat fd, msg_Confirmation = c \<rparr>]"
    "channel_cap q = channel_cap (ort_Confirmations r)" by blast
  with Producer_Push_of_TryPush show ?thesis by (fastforce simp: confirm_def)
qed

lemma ort_check_ok:
  assumes "router_ready fd ods r" "gw_GetClientState fd states = Some s"
    "CheckOrderRisk s (ort_LocalAttempt r ! fd) (ort_LocalSessionId r ! fd) od auth = (st, la, sid)"
  shows "\<exists>cb. ort_CheckOrderRisk states fd od auth r = Some (st, r \<lparr> ort_LocalAttempt := (ort_LocalAttempt r)[fd := la],
    ort_LocalSessionId := (ort_LocalSessionId r)[fd := sid], ort_ConfirmationBuffer := cb \<rparr>) \<and> length cb = length (ort_ConfirmationBuffer r)"
proof (cases "auth = 0")
  case True
  then have "st = UserNotConnected" "la = ort_LocalAttempt r ! fd" "sid = ort_LocalSessionId r ! fd" using assms(3) by (simp_all add: CheckOrderRisk_def)
  then show ?thesis using True by (intro exI[of _ "ort_ConfirmationBuffer r"]) (simp add: ort_CheckOrderRisk_def)
next
  case False
  then show ?thesis using assms
    by (intro exI[of _ "if st = BadClientId then (ort_ConfirmationBuffer r)[fd := BytesBuffer_Clear (ort_ConfirmationBuffer r ! fd)]
      else ort_ConfirmationBuffer r"]) (simp add: ort_CheckOrderRisk_def router_ready_def)
qed

lemma route_order_ok:
  assumes ready: "router_ready fd (od # ods) r" and s: "gw_GetClientState fd states = Some s"
    and check: "CheckOrderRisk s (ort_LocalAttempt r ! fd) (ort_LocalSessionId r ! fd) od auth = (st, la, sid)"
  shows "\<exists>r'. route_order states fd auth None od r = Some r' \<and> router_ready fd ods r' \<and>
    routed_step fd la sid (labelled (ort_GatewayId r) (ort_OrdersCount r) [st] [od]) r r'"
proof -
  let ?a = "unat (ord_AssetId od)" and ?id = "next_order_id (ort_GatewayId r) (ort_OrdersCount r)"
  let ?od = "od \<lparr> ord_OrderId := ucast ?id \<rparr>"
  let ?c = "\<lparr> conf_OrderId = ?id, conf_ClientOrderId = ord_ClientOrderId od, conf_Status = st \<rparr>"
  note R = ready[unfolded router_ready_def]
  have a: "?a < length (ort_MatchingEngines r)" "?a < length (ort_OrderBuffer r)" "engine_fd r (ord_AssetId od) \<noteq> - 1"
    "BytesBuffer_GetSize (ort_OrderBuffer r ! ?a) = 0" using R by simp_all
  from ort_check_ok[OF ready s check] obtain cb where
    cb: "ort_CheckOrderRisk states fd od auth r = Some (st, r \<lparr> ort_LocalAttempt := (ort_LocalAttempt r)[fd := la],
      ort_LocalSessionId := (ort_LocalSessionId r)[fd := sid], ort_ConfirmationBuffer := cb \<rparr>)" "length cb = length (ort_ConfirmationBuffer r)" by blast
  let ?r = "r \<lparr> ort_LocalAttempt := (ort_LocalAttempt r)[fd := la], ort_LocalSessionId := (ort_LocalSessionId r)[fd := sid],
    ort_ConfirmationBuffer := cb, ort_OrdersCount := ort_OrdersCount r + 1 \<rparr>"
  define r1 where "r1 = (if st = Accepted then ?r \<lparr> ort_OrderBuffer := (ort_OrderBuffer r)[?a := BytesBuffer_Clear (ort_OrderBuffer r ! ?a)],
      ort_OrderOffset := 0, ort_Net := written (engine_fd r (ord_AssetId od)) (encode_Order ?od) (ort_Net r) \<rparr> else ?r)"
  have "channel_inv (ort_Confirmations r1)" "length (channel_items (ort_Confirmations r1)) < channel_cap (ort_Confirmations r1)"
    using R by (simp_all add: r1_def)
  from confirm_ok[OF this, of fd ?c] obtain q where
    q: "confirm fd ?c r1 = Some (r1 \<lparr> ort_Confirmations := q \<rparr>)" "channel_inv q" "channel_cap q = channel_cap (ort_Confirmations r)"
      "channel_items q = channel_items (ort_Confirmations r) @ [\<lparr> msg_Fd = of_nat fd, msg_Confirmation = ?c \<rparr>]"
    by (auto simp: r1_def)
  have snd: "SendOrder ?od (vfd_load (ort_MatchingEngines r ! ?a)) None (?r \<lparr> ort_OrderBuffer := (ort_OrderBuffer r)[?a := BytesBuffer_Clear (ort_OrderBuffer r ! ?a)],
      ort_OrderOffset := 0, ort_Net := ort_Net r \<rparr>) = (True, r1)" if "st = Accepted"
    using R that by (simp add: SendOrder_def Let_def send_all_whole r1_def engine_fd_def)
  have run: "route_order states fd auth None od r = Some (r1 \<lparr> ort_Confirmations := q \<rparr>)"
  proof (cases "st = Accepted")
    case True
    then show ?thesis using a cb(1) q(1) snd drain_empty[OF a(4)]
      by (simp add: route_order_def Let_def engine_fd_def)
  next
    case False
    then show ?thesis using a cb(1) q(1) by (simp add: route_order_def Let_def engine_fd_def r1_def)
  qed
  let ?r' = "r1 \<lparr> ort_Confirmations := q \<rparr>"
  have "routed_step fd la sid (labelled (ort_GatewayId r) (ort_OrdersCount r) [st] [od]) r ?r'"
    using q(4) by (simp add: routed_step_def r1_def confirmation_of_def orders_for_def ucast32_of_32)
  moreover have buf: "BytesBuffer_GetSize (ort_OrderBuffer ?r' ! i) = 0" if "BytesBuffer_GetSize (ort_OrderBuffer r ! i) = 0" "i < length (ort_OrderBuffer r)" for i
    using that by (cases "i = ?a") (simp_all add: r1_def BytesBuffer_Clear_def BytesBuffer_GetSize_def)
  have "router_ready fd ods ?r'"
    using R cb(2) q(2-4) buf by (auto simp: router_ready_def r1_def engine_fd_def)
  ultimately show ?thesis using run by blast
qed

lemma routed_step_trans:
  assumes "routed_step fd la sid l r r'" "routed_step fd la' sid' l' r' r''"
  shows "routed_step fd la' sid' (l @ l') r r''"
proof -
  have "engine_fd r' = engine_fd r" using assms(1) by (simp add: fun_eq_iff routed_step_def engine_fd_def)
  then show ?thesis using assms by (simp add: routed_step_def orders_for_def add.assoc)
qed

lemma route_orders_ok:
  assumes "router_ready fd ods r" "gw_GetClientState fd states = Some s"
    "check_all s (ort_LocalAttempt r ! fd) (ort_LocalSessionId r ! fd) ods auth = (sts, la, sid)"
  shows "\<exists>r'. route_orders states fd auth (\<lambda>_. None) ods r = Some r' \<and>
    routed_step fd la sid (labelled (ort_GatewayId r) (ort_OrdersCount r) sts ods) r r'"
  using assms
proof (induction ods arbitrary: r sts)
  case Nil
  then show ?case by (auto simp: routed_step_def orders_for_def)
next
  case (Cons od ods)
  obtain st la1 sid1 where c: "CheckOrderRisk s (ort_LocalAttempt r ! fd) (ort_LocalSessionId r ! fd) od auth = (st, la1, sid1)" by (metis prod_cases3)
  then obtain sts1 where c1: "check_all s la1 sid1 ods auth = (sts1, la, sid)" "sts = st # sts1" using Cons.prems(3) by (auto split: prod.splits)
  from route_order_ok[OF Cons.prems(1,2) c] obtain r1 where
    r1: "route_order states fd auth None od r = Some r1" "router_ready fd ods r1"
      "routed_step fd la1 sid1 (labelled (ort_GatewayId r) (ort_OrdersCount r) [st] [od]) r r1" by blast
  have "ort_LocalAttempt r1 ! fd = la1" "ort_LocalSessionId r1 ! fd = sid1" "ort_GatewayId r1 = ort_GatewayId r" "ort_OrdersCount r1 = ort_OrdersCount r + 1"
    using r1(3) Cons.prems(1) by (simp_all add: routed_step_def router_ready_def)
  with Cons.IH[OF r1(2) Cons.prems(2), of sts1] c1(1) obtain r' where
    r': "route_orders states fd auth (\<lambda>_. None) ods r1 = Some r'" "routed_step fd la sid (labelled (ort_GatewayId r) (ort_OrdersCount r + 1) sts1 ods) r1 r'"
    by auto
  from routed_step_trans[OF r1(3) r'(2)] show ?case using r1(1) r'(1) c1(2) by simp
qed

text \<open>The 32 bits kept of an identifier do not contain the gateway: two gateways that have counted equally far give
  two orders the same identifier.\<close>

lemma order_id_without_gateway: "next_order_id g n = ucast n"
proof (rule bit_word_eqI)
  fix k assume k: "k < LENGTH(32)"
  have m: "(push_bit 48 1 - 1 :: u64) = mask 48" by (simp add: mask_eq_exp_minus_1)
  show "bit (next_order_id g n) k \<longleftrightarrow> bit (ucast n :: u32) k"
    unfolding next_order_id_def m using k by (auto simp: bit_simps)
qed

text \<open>C16. A batch of orders is routed exactly once: with the engines of its assets connected, sends that go through
  and room for the confirmations, the router takes the first batch from its queue and gives the batch object
  back; every order, in order, receives the next number and the outcome of the risk check, and its client the
  confirmation with both; and each matching engine is sent exactly the accepted orders of its assets, in
  order, under their numbers.\<close>

theorem batch_routed_once:
  assumes ob: "outbox_inv ob" "outbox_msgs ob = b # bs" and ods: "ods = map decode_Order (batch_objects sizeof_Order b)"
    and ready: "router_ready (unat (bat_Fd b)) ods r" and s: "gw_GetClientState (unat (bat_Fd b)) states = Some s"
    and check: "check_all s (ort_LocalAttempt r ! unat (bat_Fd b)) (ort_LocalSessionId r ! unat (bat_Fd b)) ods (bat_Auth b) = (sts, la, sid)"
    and l: "l = labelled (ort_GatewayId r) (ort_OrdersCount r) sts ods"
  shows "\<exists>ob' r'. consumeOrder states (\<lambda>_. None) ob r = Some (ob', r') \<and> outbox_inv ob' \<and> outbox_msgs ob' = bs \<and>
    outbox_room ob' = Suc (outbox_room ob) \<and> ort_OrdersCount r' = ort_OrdersCount r + of_nat (length l) \<and>
    channel_items (ort_Confirmations r') = channel_items (ort_Confirmations r) @ map (confirmation_of (unat (bat_Fd b))) l \<and>
    (\<forall>f. net_Sent (ort_Net r') f = net_Sent (ort_Net r) f @ concat (map encode_Order (orders_for (engine_fd r) f l)))"
proof -
  obtain x xs where items: "channel_items (ob_Queue ob) = x # xs" and b: "sp_Storage (ob_Pool ob) x = b" "map (sp_Storage (ob_Pool ob)) xs = bs"
    using ob(2) by (auto simp: outbox_msgs_def)
  from mailbox.pop_release[OF ob(1)[unfolded outbox_inv_linked] items] obtain q p where
    q: "Consumer_TryPop (ob_Queue ob) = (Some x, q)" "StoragePool_Release (Some x) (ob_Pool ob) = (True, p)" "channel_items q = xs"
      "mailbox.linked p q" "set (sp_free p) = insert x (set (sp_free (ob_Pool ob)))" by blast
  let ?ob = "\<lparr> ob_Pool = p, ob_Queue = q \<rparr>"
  from route_orders_ok[OF ready s check] obtain r' where
    r': "route_orders states (unat (bat_Fd b)) (bat_Auth b) (\<lambda>_. None) ods r = Some r'" "routed_step (unat (bat_Fd b)) la sid l r r'"
    unfolding l by blast
  have inv: "outbox_inv ?ob" using q(4) by (simp add: outbox_inv_linked)
  have st: "sp_Storage p = sp_Storage (ob_Pool ob)" using StoragePool_Storage(2)[of "Some x" "ob_Pool ob"] by (simp add: q(2))
  have "x \<notin> set (sp_free (ob_Pool ob))" using ob(1) items by (auto simp: outbox_inv_def)
  then have "outbox_room ?ob = Suc (outbox_room ob)" using outbox_room_card[OF inv] outbox_room_card[OF ob(1)] q(5) by simp
  moreover have "outbox_msgs ?ob = bs" using q(3) st b(2) by (simp add: outbox_msgs_def)
  moreover have "consumeOrder states (\<lambda>_. None) ob r = Some (?ob, r')" using q(1,2) b(1) r'(1) ods by (simp add: consumeOrder_def Let_def)
  ultimately show ?thesis using inv r'(2) by (auto simp: routed_step_def)
qed

definition quiet_network :: "send_answer list \<Rightarrow> network" where
  "quiet_network as = \<lparr> net_Sent = (\<lambda>_. []), net_Answers = as, net_errno = OtherErrno \<rparr>"

definition sample_batch :: "u8 ObjectBatch" where
  "sample_batch = \<lparr> bat_Data = encode_Order (buy_order 70 10) @ encode_Order (buy_order 70 10) @ replicate 560 0, bat_Size = 2, bat_Fd = 5, bat_Auth = 1 \<rparr>"

definition sample_states :: gw_ClientStates where
  "sample_states = the (gw_ClientStates_of 8 (replicate 8 sample_account))"

definition no_message :: ClientMessage where
  "no_message = \<lparr> msg_Fd = 0, msg_Confirmation = \<lparr> conf_OrderId = 0, conf_ClientOrderId = 0, conf_Status = Accepted \<rparr> \<rparr>"

definition sample_router :: OrderRouter where
  "sample_router = the (etcdOnMEResponse [EnginePut 2 9]
     (OrderRouter_init 3 0 VersionedFd_init (channel_of (SpscQueue_init 8 no_message)) (quiet_network [])))"

lemma sample_states_get: "gw_GetClientState 5 sample_states = Some sample_account"
  by (simp add: sample_states_def gw_ClientStates_of_def gw_GetClientState_def tab_in_def ts_at_def Let_def)

lemma sample_batch_objects: "map decode_Order (batch_objects sizeof_Order sample_batch) = [buy_order 70 10, buy_order 70 10]"
proof -
  have w: "wire_order (buy_order 70 10)"
    by (simp add: wire_order_def buy_order_def in_i64_def OrderType_of_def OrderSide_of_def OrderAction_of_def)
  note e = decode_encode_Order[OF w, unfolded sizeof_Order_def]
  have "[0..<2] = [0, 1 :: nat]" by (simp add: upt_rec)
  then show ?thesis using e by (simp add: batch_objects_def sample_batch_def sizeof_Order_def)
qed

lemma sample_router_ready: "router_ready 5 [buy_order 70 10, buy_order 70 10] sample_router"
  "ort_LocalAttempt sample_router ! 5 = LocalAttempts_init" "ort_LocalSessionId sample_router ! 5 = 0" "ort_GatewayId sample_router = 3"
  "ort_OrdersCount sample_router = 0" "channel_items (ort_Confirmations sample_router) = []" "net_Sent (ort_Net sample_router) = (\<lambda>_. [])"
  "engine_fd sample_router 2 = 9"
proof -
  let ?q = "channel_of (SpscQueue_init 8 no_message)"
  have "pow2_size (q_Buffer (SpscQueue_init 8 no_message))" by (auto simp: pow2_size_def SpscQueue_init_def intro: exI[of _ 3])
  then have q: "channel_inv ?q" "channel_items ?q = []" by (auto intro!: channel_inv_init simp: SpscQueue_init_def)
  have cap: "channel_cap ?q = 8" by (simp add: channel_cap_def channel_of_def SpscQueue_init_def)
  have r: "sample_router = (OrderRouter_init 3 0 VersionedFd_init ?q (quiet_network []))
     \<lparr> ort_MatchingEngines := (replicate MaxAssets VersionedFd_init)[2 := SwitchFd 9 VersionedFd_init] \<rparr>"
    by (simp add: sample_router_def switch_engine_def OrderRouter_init_def MaxAssets_def Let_def VersionedFd_init_def vfd_load_def in_i32_def)
  have fd: "vfd_Fd (vfd_load (SwitchFd 9 VersionedFd_init)) = 9" by (rule SwitchFd_Fd) (simp add: in_i32_def)
  show "engine_fd sample_router 2 = 9" using fd by (simp add: engine_fd_def r MaxAssets_def)
  then show "router_ready 5 [buy_order 70 10, buy_order 70 10] sample_router"
    using q cap by (simp add: router_ready_def r OrderRouter_init_def GatewayMaxClients_def MaxAssets_def buy_order_def quiet_network_def
        BytesBuffer_init_def BytesBuffer_GetSize_def engine_fd_def)
  show "ort_LocalAttempt sample_router ! 5 = LocalAttempts_init" "ort_LocalSessionId sample_router ! 5 = 0" "ort_GatewayId sample_router = 3"
    "ort_OrdersCount sample_router = 0" "channel_items (ort_Confirmations sample_router) = []" "net_Sent (ort_Net sample_router) = (\<lambda>_. [])"
    using q(2) by (simp_all add: r OrderRouter_init_def GatewayMaxClients_def quiet_network_def)
qed

theorem batch_routed_once_witness:
  "\<exists>ob ob' r'. outbox_msgs ob = [sample_batch] \<and> consumeOrder sample_states (\<lambda>_. None) ob sample_router = Some (ob', r') \<and> outbox_msgs ob' = [] \<and>
     map (\<lambda>m. conf_Status (msg_Confirmation m)) (channel_items (ort_Confirmations r')) = [Accepted, InsufficientFunds] \<and>
     net_Sent (ort_Net r') 9 = encode_Order (buy_order 70 10)"
proof -
  let ?ods = "[buy_order 70 10, buy_order 70 10]"
  obtain ob0 where o0: "outbox_inv (ob0 :: u8 ObjectBatch outbox)" "outbox_msgs ob0 = []" "outbox_room ob0 = 2 ^ 1"
    using fresh_outbox_ok[of 1 sample_batch] by auto
  from publish[of ob0 sample_batch] o0 obtain ob where ob: "outbox_inv ob" "outbox_msgs ob = [sample_batch]" by auto
  have st: "fst (check_all sample_account LocalAttempts_init 0 ?ods 1) = [Accepted, InsufficientFunds]" by code_simp
  then obtain la sid where c: "check_all sample_account LocalAttempts_init 0 ?ods 1 = ([Accepted, InsufficientFunds], la, sid)"
    by (cases "check_all sample_account LocalAttempts_init 0 ?ods 1") auto
  have b: "unat (bat_Fd sample_batch) = 5" "bat_Auth sample_batch = 1" by (simp_all add: sample_batch_def)
  have id: "next_order_id 3 0 = 0" by (simp add: order_id_without_gateway)
  note S = sample_router_ready
  from batch_routed_once[OF ob sample_batch_objects[symmetric], of sample_router, unfolded b S(2-5), OF S(1) sample_states_get c refl] obtain ob' r' where
    R: "consumeOrder sample_states (\<lambda>_. None) ob sample_router = Some (ob', r')" "outbox_msgs ob' = []"
    "channel_items (ort_Confirmations r') = map (confirmation_of 5) (labelled 3 0 [Accepted, InsufficientFunds] ?ods)"
    "net_Sent (ort_Net r') 9 = concat (map encode_Order (orders_for (engine_fd sample_router) 9 (labelled 3 0 [Accepted, InsufficientFunds] ?ods)))"
    using S(6,7) by auto
  have "map (\<lambda>m. conf_Status (msg_Confirmation m)) (channel_items (ort_Confirmations r')) = [Accepted, InsufficientFunds]"
    using R(3) by (simp add: confirmation_of_def)
  moreover have "net_Sent (ort_Net r') 9 = encode_Order (buy_order 70 10)"
    using R(4) S(8) id by (simp add: orders_for_def buy_order_def)
  ultimately show ?thesis using R(1,2) ob(2) by auto
qed

section \<open>Resends\<close>

text \<open>Orders held back for an engine are not resent but lost: when the first send of a drain is refused, the
  counter is taken below zero and stored as the offset, so that the drain for the next order sends nothing,
  reports success and empties the buffer.\<close>

theorem refused_resend_discards_orders:
  assumes "0 < BytesBuffer_GetSize b" "unat (BytesBuffer_GetSize b) \<le> length (BytesBuffer_GetData b)"
    "net_Answers net = Refuses e # as" "e \<noteq> EINTR"
  shows "\<exists>net'. DrainBuffer_Order b fd 0 net = Some (False, b, - 1, net') \<and> net_Sent net' = net_Sent net \<and>
    (\<forall>fd' net''. DrainBuffer_Order b fd' (- 1) net'' = Some (True, BytesBuffer_Clear b, 0, net''))"
proof -
  let ?net = "net \<lparr> net_Answers := as, net_errno := e \<rparr>"
  have s: "sint (ucast (- 1 :: u64) :: u32) = - 1" using ucast32_word_of_int[of "- 1"] by (simp add: sint_n1)
  have loop: "drain_loop fd b 0 net = Some (False, - 1, ?net)"
    using assms by (subst drain_loop.simps) (simp add: send_def Let_def)
  have shift: "BytesBuffer_Shift 0 b = Some b"
    using assms(2) by (simp add: BytesBuffer_Shift_def Let_def overlay_0 BytesBuffer_GetSize_def BytesBuffer_GetData_def)
  have "DrainBuffer_Order b fd 0 net = Some (False, b, - 1, ?net)"
    using loop shift s by (simp add: DrainBuffer_Order_def div_trunc_def sizeof_Order_def)
  moreover have "\<not> (- 1 :: u64) < BytesBuffer_GetSize b" using word_n1_ge[of "BytesBuffer_GetSize b"] by (simp add: not_less)
  then have "DrainBuffer_Order b fd' (- 1) net'' = Some (True, BytesBuffer_Clear b, 0, net'')" for fd' net''
    by (simp add: DrainBuffer_Order_def drain_loop.simps)
  ultimately show ?thesis by simp
qed

theorem refused_resend_discards_orders_witness:
  "\<exists>net'. DrainBuffer_Order \<lparr> byb_Buffer = replicate 640 0, byb_Size = 40 \<rparr> 7 0 (quiet_network [Refuses EAGAIN]) =
     Some (False, \<lparr> byb_Buffer = replicate 640 0, byb_Size = 40 \<rparr>, - 1, net') \<and>
     DrainBuffer_Order \<lparr> byb_Buffer = replicate 640 0, byb_Size = 40 \<rparr> 7 (- 1) net' =
     Some (True, \<lparr> byb_Buffer = replicate 640 0, byb_Size = 0 \<rparr>, 0, net')"
  using refused_resend_discards_orders[of "\<lparr> byb_Buffer = replicate 640 0, byb_Size = 40 \<rparr>" "quiet_network [Refuses EAGAIN]" EAGAIN "[]" 7]
  by (auto simp: quiet_network_def BytesBuffer_GetSize_def BytesBuffer_GetData_def BytesBuffer_Clear_def)

end
