(* ===== verification/Gateway_Writer.thy ===== *)
theory Gateway_Writer
  imports Risk_Check Flat_Hash_Map Consumer
begin

text \<open>
  The single writer of the gateway's account table, \<open>order_gateway/include/client_states_writer.hpp\<close>:
  it applies the trade reports of the matching engines and the snapshots of the account service.
  \<open>ClientsFd\<close> is the hash map of \<open>Flat_Hash_Map\<close> with client ids widened to 64 bits and descriptors as
  indices.  The report history \<open>UpdatesBuffer\<close> has the length it is built with
  (\<open>GatewayUpdateBufferSize\<close> in the program).  The resend block behind the \<open>continue\<close> of the snapshot
  handler is unreachable and has no counterpart.
\<close>

section \<open>State\<close>

record gw_Writer =
  gww_States :: gw_ClientStates
  gww_ClientsFd :: FlatHashMap
  gww_UpdatesBuffer :: "OrderStateReport list"
  gww_LastSeq :: u64

text \<open>The constructor marks every slot of the history with a sequence number that does not belong there.\<close>

definition gw_Writer_init :: "gw_ClientStates \<Rightarrow> nat \<Rightarrow> nat \<Rightarrow> OrderStateReport \<Rightarrow> gw_Writer" where
  "gw_Writer_init states mapSize bufferSize d =
   \<lparr> gww_States = states, gww_ClientsFd = FlatHashMap_init mapSize,
     gww_UpdatesBuffer = map (\<lambda>i. d \<lparr> rep_SequenceId := of_nat (i + 1) \<rparr>) [0..<bufferSize], gww_LastSeq = 0 \<rparr>"

definition history_slot :: "u64 \<Rightarrow> gw_Writer \<Rightarrow> nat" where
  "history_slot seq w = unat (seq AND (of_nat (length (gww_UpdatesBuffer w)) - 1))"

definition ClientsFd_GetVal :: "u32 \<Rightarrow> gw_Writer \<Rightarrow> nat option" where
  "ClientsFd_GetVal clientId w = (case FlatHashMap_GetVal (ucast clientId) (gww_ClientsFd w) of Some (Some fd) \<Rightarrow> Some fd | _ \<Rightarrow> None)"

section \<open>Trade reports\<close>

definition record_report :: "OrderStateReport \<Rightarrow> gw_Writer \<Rightarrow> gw_Writer" where
  "record_report report w =
     (let w = w \<lparr> gww_LastSeq := ucast (rep_SequenceId report) \<rparr>
      in w \<lparr> gww_UpdatesBuffer := (gww_UpdatesBuffer w)[history_slot (ucast (rep_SequenceId report)) w := report] \<rparr>)"

definition apply_report :: "OrderStateReport \<Rightarrow> nat \<Rightarrow> gw_ClientStates \<Rightarrow> gw_ClientStates option" where
  "apply_report report clientFd st = do {
     st \<leftarrow> gw_SetClientAssets clientFd (rep_BoughtDelta report) 0 (rep_BoughtAssetId report) st;
     gw_SetClientAssets clientFd (rep_SoldDelta report)
       (if rep_State report = ADD then 0 else rep_SoldAttemptDelta report) (rep_SoldAssetId report) st
   }"

definition Handle_report :: "OrderStateReport \<Rightarrow> gw_Writer \<Rightarrow> gw_Writer option" where
  "Handle_report report w =
     (let w = record_report report w
      in (case ClientsFd_GetVal (rep_ClientId report) w of
            None \<Rightarrow> Some w
          | Some clientFd \<Rightarrow> do {
              st \<leftarrow> apply_report report clientFd (gww_States w);
              st \<leftarrow> gw_FlushTripleBuffer clientFd st;
              Some (w \<lparr> gww_States := st \<rparr>)
            }))"

fun apply_batch :: "OrderStateReport list \<Rightarrow> gw_Writer \<Rightarrow> gw_Writer option" where
  "apply_batch [] w = Some w"
| "apply_batch (report # reports) w =
     (let w = record_report report w
      in (case ClientsFd_GetVal (rep_ClientId report) w of
            None \<Rightarrow> apply_batch reports w
          | Some clientFd \<Rightarrow> do {
              st \<leftarrow> apply_report report clientFd (gww_States w);
              apply_batch reports (w \<lparr> gww_States := st \<rparr>)
            }))"

fun flush_batch :: "OrderStateReport list \<Rightarrow> nat list \<Rightarrow> gw_Writer \<Rightarrow> gw_Writer option" where
  "flush_batch [] Touched w = Some w"
| "flush_batch (report # reports) Touched w =
     (case ClientsFd_GetVal (rep_ClientId report) w of
        None \<Rightarrow> flush_batch reports Touched w
      | Some clientFd \<Rightarrow>
          if clientFd \<in> set Touched then flush_batch reports Touched w
          else do {
            st \<leftarrow> gw_FlushTripleBuffer clientFd (gww_States w);
            flush_batch reports (clientFd # Touched) (w \<lparr> gww_States := st \<rparr>)
          })"

definition Handle_reports :: "OrderStateReport list \<Rightarrow> gw_Writer \<Rightarrow> gw_Writer option" where
  "Handle_reports reportBatch w = do { w \<leftarrow> apply_batch reportBatch w; flush_batch reportBatch [] w }"

section \<open>Snapshots\<close>

definition replay_report :: "OrderStateReport \<Rightarrow> ClientAccountSnapshot \<Rightarrow> ClientAccountSnapshot" where
  "replay_report curReport response =
     (if rep_ClientId curReport = snap_ClientId response
      then response \<lparr>
        snap_Confirmed := pos_array (\<lambda>i.
          if snap_AssetId response ! i = rep_BoughtAssetId curReport then wrap64 (snap_Confirmed response ! i + rep_BoughtDelta curReport)
          else if snap_AssetId response ! i = rep_SoldAssetId curReport then wrap64 (snap_Confirmed response ! i + rep_SoldDelta curReport)
          else snap_Confirmed response ! i),
        snap_Attempt := pos_array (\<lambda>i.
          if snap_AssetId response ! i = rep_BoughtAssetId curReport then snap_Attempt response ! i
          else if snap_AssetId response ! i = rep_SoldAssetId curReport then wrap64 (snap_Attempt response ! i + rep_SoldDelta curReport)
          else snap_Attempt response ! i) \<rparr>
      else response)"

text \<open>The loop runs over the sequence numbers after the snapshot's, up to \<open>LastSeq\<close>.\<close>

definition missed_seqs :: "u64 \<Rightarrow> u64 \<Rightarrow> nat list" where
  "missed_seqs seq lastSeq = [unat (seq + 1)..<Suc (unat lastSeq)]"

definition replay_missed :: "gw_Writer \<Rightarrow> ClientAccountSnapshot \<Rightarrow> ClientAccountSnapshot" where
  "replay_missed w response =
     fold (\<lambda>k. replay_report (gww_UpdatesBuffer w ! history_slot (of_nat k) w))
       (missed_seqs (snap_SequenceId response) (gww_LastSeq w)) response"

definition stale_snapshot :: "gw_Writer \<Rightarrow> ClientAccountSnapshot \<Rightarrow> bool" where
  "stale_snapshot w response \<longleftrightarrow>
     ucast (rep_SequenceId (gww_UpdatesBuffer w ! history_slot (snap_SequenceId response) w)) \<noteq> snap_SequenceId response \<and>
     snap_SequenceId response \<noteq> gww_LastSeq w"

definition Handle_response :: "ClientAccountSnapshot \<Rightarrow> gw_Writer \<Rightarrow> gw_Writer option" where
  "Handle_response response w =
     (if stale_snapshot w response then Some w
      else
        let response = replay_missed w response;
            clientFd = unat (snap_ClientFd response);
            key = ucast (snap_ClientId response)
        in do {
          curClientId \<leftarrow> gw_GetClientId clientFd (gww_States w);
          m \<leftarrow> (if curClientId \<noteq> snap_ClientId response
                then do { m \<leftarrow> FlatHashMap_DeleteNode (ucast curClientId) (gww_ClientsFd w);
                          FlatHashMap_AddNode key (Some clientFd) m }
                else Some (gww_ClientsFd w));
          st \<leftarrow> gw_SetClientState response (gww_States w);
          st \<leftarrow> gw_FlushTripleBuffer clientFd st;
          m \<leftarrow> FlatHashMap_AddNode key (Some clientFd) m;
          Some (w \<lparr> gww_States := st, gww_ClientsFd := m \<rparr>)
        })"

fun Handle_responses :: "ClientAccountSnapshot list \<Rightarrow> gw_Writer \<Rightarrow> gw_Writer option" where
  "Handle_responses [] w = Some w"
| "Handle_responses (r # rs) w = do { w \<leftarrow> Handle_response r w; Handle_responses rs w }"

section \<open>Disconnects and the loop\<close>

definition TryConsumeDisconnects :: "u32 channel \<Rightarrow> gw_Writer \<Rightarrow> (u32 channel \<times> gw_Writer) option" where
  "TryConsumeDisconnects q w =
     (case Consumer_TryPop q of
        (None, q) \<Rightarrow> Some (q, w)
      | (Some fd, q) \<Rightarrow> do {
          st \<leftarrow> gw_SetAuthStatus (unat fd) 0 (gww_States w);
          st \<leftarrow> gw_FlushTripleBuffer (unat fd) st;
          Some (q, w \<lparr> gww_States := st \<rparr>)
        })"

text \<open>One round of \<open>StartLoop\<close> over the queues of reports, of snapshot batches and of disconnects.\<close>

definition gw_Writer_round ::
  "OrderStateReport outbox \<Rightarrow> ClientAccountSnapshot list outbox \<Rightarrow> u32 channel \<Rightarrow> gw_Writer \<Rightarrow>
   (OrderStateReport outbox \<times> ClientAccountSnapshot list outbox \<times> u32 channel \<times> gw_Writer) option" where
  "gw_Writer_round reports responses disconnects w = do {
     (w, reports) \<leftarrow> TryConsume TradeReportReceiveBatchSize (\<lambda>rs w. Option.bind w (Handle_reports rs)) reports (Some w);
     (w, responses) \<leftarrow> TryConsume 0 (\<lambda>bs w. Option.bind w (Handle_responses (concat bs))) responses w;
     w \<leftarrow> w;
     (disconnects, w) \<leftarrow> TryConsumeDisconnects disconnects w;
     Some (reports, responses, disconnects, w)
   }"

section \<open>A batch of reports\<close>

lemma record_report_simps [simp]:
  "gww_States (record_report r w) = gww_States w" "gww_ClientsFd (record_report r w) = gww_ClientsFd w"
  "ClientsFd_GetVal c (record_report r w) = ClientsFd_GetVal c w"
  by (simp_all add: record_report_def Let_def ClientsFd_GetVal_def)

lemma ClientsFd_GetVal_States [simp]: "ClientsFd_GetVal c (w \<lparr> gww_States := st \<rparr>) = ClientsFd_GetVal c w"
  by (simp add: ClientsFd_GetVal_def)

text \<open>The balance updates a report stands for, at the account of its client if that is known here.\<close>

definition report_updates :: "OrderStateReport \<Rightarrow> (i64 \<times> i64 \<times> u16) list" where
  "report_updates r = [(rep_BoughtDelta r, 0, rep_BoughtAssetId r),
     (rep_SoldDelta r, if rep_State r = ADD then 0 else rep_SoldAttemptDelta r, rep_SoldAssetId r)]"

definition routed_updates :: "gw_Writer \<Rightarrow> OrderStateReport list \<Rightarrow> (nat \<times> i64 \<times> i64 \<times> u16) list" where
  "routed_updates w rs = concat (map (\<lambda>r. case ClientsFd_GetVal (rep_ClientId r) w of None \<Rightarrow> []
     | Some fd \<Rightarrow> map (Pair fd) (report_updates r)) rs)"

lemma apply_report_updates: "apply_report r fd st = run_updates gw_upd (map (Pair fd) (report_updates r)) st"
  by (auto simp: apply_report_def report_updates_def split: option.splits Option.bind_splits)

lemma run_updates_append:
  "run_updates upd (us @ vs) s = (case run_updates upd us s of None \<Rightarrow> None | Some s \<Rightarrow> run_updates upd vs s)"
  by (induction us arbitrary: s) (auto split: option.splits)

lemma apply_batch_updates:
  "\<exists>w'. gww_ClientsFd w' = gww_ClientsFd w \<and>
     apply_batch rs w = map_option (\<lambda>st. w' \<lparr> gww_States := st \<rparr>) (run_updates gw_upd (routed_updates w rs) (gww_States w))"
proof (induction rs arbitrary: w)
  case Nil
  then show ?case by (intro exI[of _ w]) (simp add: routed_updates_def)
next
  case (Cons r rs)
  let ?w = "record_report r w"
  have same: "routed_updates (?w \<lparr> gww_States := st \<rparr>) rs = routed_updates w rs" "routed_updates ?w rs = routed_updates w rs" for st
    by (simp_all add: routed_updates_def)
  show ?case
  proof (cases "ClientsFd_GetVal (rep_ClientId r) w")
    case None
    then show ?thesis using Cons.IH[of ?w] by (simp add: routed_updates_def)
  next
    case (Some fd)
    have ru: "routed_updates w (r # rs) = map (Pair fd) (report_updates r) @ routed_updates w rs" using Some by (simp add: routed_updates_def)
    show ?thesis
    proof (cases "apply_report r fd (gww_States w)")
      case None
      then show ?thesis using Some by (intro exI[of _ w]) (simp add: ru run_updates_append apply_report_updates)
    next
      case st: (Some st)
      from Cons.IH[of "?w \<lparr> gww_States := st \<rparr>"] same st Some show ?thesis
        by (auto simp: ru run_updates_append apply_report_updates)
    qed
  qed
qed

lemma flush_batch_each:
  "flush_batch rs T w = map_option (\<lambda>st. w \<lparr> gww_States := st \<rparr>)
     (flush_each gw_FlushTripleBuffer (List.map_filter (\<lambda>r. ClientsFd_GetVal (rep_ClientId r) w) rs) T (gww_States w))"
proof (induction rs arbitrary: T w)
  case Nil
  then show ?case by (simp add: List.map_filter_def)
next
  case (Cons r rs)
  then show ?case
    by (auto simp: List.map_filter_simps option.map_comp comp_def split: option.splits Option.bind_splits)
qed

lemma routed_clients:
  "fst ` set (routed_updates w rs) = set (List.map_filter (\<lambda>r. ClientsFd_GetVal (rep_ClientId r) w) rs)"
proof (induction rs)
  case (Cons r rs)
  have "routed_updates w (r # rs) = (case ClientsFd_GetVal (rep_ClientId r) w of None \<Rightarrow> []
     | Some fd \<Rightarrow> map (Pair fd) (report_updates r)) @ routed_updates w rs" by (simp add: routed_updates_def)
  then show ?case using Cons
    by (cases "ClientsFd_GetVal (rep_ClientId r) w") (simp_all add: List.map_filter_simps image_Un report_updates_def)
qed (simp add: routed_updates_def List.map_filter_def)

lemma Handle_reports_ok:
  assumes "\<forall>r \<in> set rs. \<forall>fd. ClientsFd_GetVal (rep_ClientId r) w = Some fd \<longrightarrow> gw_inv (gww_States w) fd"
  shows "\<exists>w'. Handle_reports rs w = Some w' \<and> gww_ClientsFd w' = gww_ClientsFd w \<and>
    (\<forall>j. gw_inv (gww_States w) j \<longrightarrow> gw_inv (gww_States w') j \<and>
       gw_GetClientState j (gww_States w') =
         Some (if j \<in> fst ` set (routed_updates w rs)
               then fold spec_assets (updates_of j (routed_updates w rs)) (gw_staged (gww_States w) j)
               else gw_view (gww_States w) j))"
proof -
  let ?us = "routed_updates w rs" and ?fds = "List.map_filter (\<lambda>r. ClientsFd_GetVal (rep_ClientId r) w) rs"
  have "\<forall>u \<in> set ?us. gw_inv (gww_States w) (fst u)"
    using assms by (auto simp: routed_updates_def split: option.splits)
  from gw.batch_ok[OF this routed_clients[symmetric]] obtain s1 s2 where
    s: "run_updates gw_upd ?us (gww_States w) = Some s1" "flush_each gw_FlushTripleBuffer ?fds [] s1 = Some s2"
    and v: "\<And>j. gw_inv (gww_States w) j \<Longrightarrow> gw_inv s2 j \<and>
        gw_view s2 j = (if j \<in> fst ` set ?us then fold spec_assets (updates_of j ?us) (gw_staged (gww_States w) j) else gw_view (gww_States w) j)"
    by blast
  from apply_batch_updates[of w rs] s(1) obtain w1 where
    w1: "gww_ClientsFd w1 = gww_ClientsFd w" "apply_batch rs w = Some (w1 \<lparr> gww_States := s1 \<rparr>)" by auto
  have "ClientsFd_GetVal c w1 = ClientsFd_GetVal c w" for c using w1(1) by (simp add: ClientsFd_GetVal_def)
  then have "flush_batch rs [] (w1 \<lparr> gww_States := s1 \<rparr>) = Some (w1 \<lparr> gww_States := s2 \<rparr>)"
    using s(2) by (simp add: flush_batch_each)
  then show ?thesis using w1 v gw_GetClientState_view
    by (intro exI[of _ "w1 \<lparr> gww_States := s2 \<rparr>"]) (simp add: Handle_reports_def)
qed

text \<open>C32. Every known client's published account absorbs exactly the reports of a batch: after a batch is
  handled, the account a reader sees at a client's descriptor is the pending account plus the bought and
  sold deltas of all reports routed to it, in order; accounts without a report are unchanged, and reports
  of clients of other gateways change nothing.\<close>

theorem report_batch_published:
  assumes "\<forall>r \<in> set rs. \<forall>fd. ClientsFd_GetVal (rep_ClientId r) w = Some fd \<longrightarrow> gw_inv (gww_States w) fd"
  shows "\<exists>w'. Handle_reports rs w = Some w' \<and> gww_ClientsFd w' = gww_ClientsFd w \<and>
    (\<forall>j. gw_inv (gww_States w) j \<longrightarrow> gw_inv (gww_States w') j \<and>
       gw_GetClientState j (gww_States w') =
         Some (if j \<in> fst ` set (routed_updates w rs)
               then fold spec_assets (updates_of j (routed_updates w rs)) (gw_staged (gww_States w) j)
               else gw_view (gww_States w) j))"
  using Handle_reports_ok[OF assms] .

section \<open>A snapshot\<close>

lemma AddNode_keeps:
  assumes "fhm_inv m" "fhm_room m k"
  shows "\<exists>m'. FlatHashMap_AddNode k v m = Some m' \<and> fhm_inv m' \<and>
     fhm_lookup m' = (if fhm_lookup m k = None then (fhm_lookup m)(k \<mapsto> v) else fhm_lookup m)"
  using fhm.add_fresh[OF assms(1) _ assms(2), of v] fhm.add_present[OF assms(1), of k _ v] assms(1)
  by (cases "fhm_lookup m k") auto

lemma AddNode_again: "fhm_inv m \<Longrightarrow> fhm_lookup m k \<noteq> None \<Longrightarrow> FlatHashMap_AddNode k v m = Some m"
  using fhm.add_present[of m k _ v] by auto

lemma ClientsFd_lookup:
  "fhm_inv (gww_ClientsFd w) \<Longrightarrow> ClientsFd_GetVal c w = (case fhm_lookup (gww_ClientsFd w) (ucast c) of Some (Some fd) \<Rightarrow> Some fd | _ \<Rightarrow> None)"
  using fhm.get_lookup[of "gww_ClientsFd w" "ucast c"] by (simp add: ClientsFd_GetVal_def)

lemma replay_report_simps [simp]:
  "snap_ClientId (replay_report r s) = snap_ClientId s" "snap_ClientFd (replay_report r s) = snap_ClientFd s"
  "snap_AssetId (replay_report r s) = snap_AssetId s" "snapshot_ok s \<Longrightarrow> snapshot_ok (replay_report r s)"
  by (auto simp: replay_report_def snapshot_ok_def intro!: pos_ok_array)

lemma fold_replay_simps [simp]:
  "snap_ClientId (fold (\<lambda>k. replay_report (f k)) ks s) = snap_ClientId s" "snap_ClientFd (fold (\<lambda>k. replay_report (f k)) ks s) = snap_ClientFd s"
  "snap_AssetId (fold (\<lambda>k. replay_report (f k)) ks s) = snap_AssetId s" "snapshot_ok s \<Longrightarrow> snapshot_ok (fold (\<lambda>k. replay_report (f k)) ks s)"
  by (induction ks arbitrary: s) simp_all

definition routing_after :: "u32 \<Rightarrow> u32 \<Rightarrow> nat \<Rightarrow> (u64 \<rightharpoonup> ptr option) \<Rightarrow> (u64 \<rightharpoonup> ptr option)" where
  "routing_after cur new fd L =
     (let L = (if cur \<noteq> new then L(ucast cur := None) else L)
      in if L (ucast new) = None then L(ucast new \<mapsto> Some fd) else L)"

definition reroute :: "u32 \<Rightarrow> u32 \<Rightarrow> nat \<Rightarrow> FlatHashMap \<Rightarrow> FlatHashMap option" where
  "reroute cur new fd m =
     (if cur \<noteq> new then do { m \<leftarrow> FlatHashMap_DeleteNode (ucast cur) m; FlatHashMap_AddNode (ucast new) (Some fd) m } else Some m)"

lemma reroute_ok:
  assumes "fhm_inv m" "fhm_room m (ucast new)"
  shows "\<exists>m1 m2. reroute cur new fd m = Some m1 \<and> FlatHashMap_AddNode (ucast new) (Some fd) m1 = Some m2 \<and> fhm_inv m2 \<and>
     fhm_lookup m2 = routing_after cur new fd (fhm_lookup m)"
proof (cases "cur = new")
  case True
  with AddNode_keeps[OF assms, of "Some fd"] show ?thesis by (auto simp: reroute_def routing_after_def)
next
  case False
  from fhm.del_lookup[OF assms(1), of "ucast cur"] assms(2) obtain m0 where
    0: "FlatHashMap_DeleteNode (ucast cur) m = Some m0" "fhm_inv m0" "fhm_lookup m0 = (fhm_lookup m)(ucast cur := None)" "fhm_room m0 (ucast new)"
    by auto
  from AddNode_keeps[OF 0(2,4), of "Some fd"] obtain m1 where
    1: "FlatHashMap_AddNode (ucast new) (Some fd) m0 = Some m1" "fhm_inv m1"
      "fhm_lookup m1 = (if fhm_lookup m0 (ucast new) = None then (fhm_lookup m0)(ucast new \<mapsto> Some fd) else fhm_lookup m0)" by blast
  have "fhm_lookup m1 (ucast new) \<noteq> None" using 1(3) by simp
  from AddNode_again[OF 1(2) this] have "FlatHashMap_AddNode (ucast new) (Some fd) m1 = Some m1" .
  moreover have "fhm_lookup m1 = routing_after cur new fd (fhm_lookup m)" using 1(3) 0(3) False by (simp add: routing_after_def Let_def)
  ultimately show ?thesis using 0(1) 1(1,2) False by (auto simp: reroute_def)
qed

lemma Handle_response_ok:
  assumes "\<not> stale_snapshot w r" "gw_inv (gww_States w) fd" "fd = unat (snap_ClientFd r)" "snapshot_ok r"
    "fhm_inv (gww_ClientsFd w)" "fhm_room (gww_ClientsFd w) (ucast (snap_ClientId r))"
  shows "\<exists>w'. Handle_response r w = Some w' \<and> gw_inv (gww_States w') fd \<and>
    gw_view (gww_States w') fd = spec_snapshot (replay_missed w r) (gw_staged (gww_States w) fd) \<and>
    gw_staged (gww_States w') fd = gw_view (gww_States w') fd \<and> fhm_inv (gww_ClientsFd w') \<and>
    fhm_lookup (gww_ClientsFd w') = routing_after (gcl_ClientId (gw_view (gww_States w) fd)) (snap_ClientId r) fd (fhm_lookup (gww_ClientsFd w)) \<and>
    (\<forall>j. gw_inv (gww_States w) j \<longrightarrow> gw_inv (gww_States w') j)"
proof -
  let ?r = "replay_missed w r" and ?m = "gww_ClientsFd w" and ?k = "ucast (snap_ClientId r) :: u64"
  let ?cur = "gcl_ClientId (gw_view (gww_States w) fd)"
  have r: "snap_ClientId ?r = snap_ClientId r" "snap_ClientFd ?r = snap_ClientFd r" "snapshot_ok ?r"
    using assms(4) by (simp_all add: replay_missed_def)
  from gw_SetClientState_ok[OF assms(2) _ r(3)] assms(3) r(2) obtain s1 where
    1: "gw_SetClientState ?r (gww_States w) = Some s1" "gw_inv s1 fd" "gw_staged s1 fd = spec_snapshot ?r (gw_staged (gww_States w) fd)"
    and f1: "tab_frame fd (gww_States w) s1" by auto
  from gw_flush_ok[OF 1(2)] obtain s2 where
    2: "gw_FlushTripleBuffer fd s1 = Some s2" "gw_inv s2 fd" "gw_view s2 fd = gw_staged s1 fd" "gw_staged s2 fd = gw_staged s1 fd"
    and f2: "tab_frame fd s1 s2" by blast
  have keep: "gw_inv s2 j" if "gw_inv (gww_States w) j" for j
    using tab_frameD(1)[OF f1 that] tab_frameD(1)[OF f2] 2(2) by blast
  from reroute_ok[OF assms(5,6), of ?cur fd] obtain m1 m2 where
    m: "reroute ?cur (snap_ClientId r) fd ?m = Some m1" "FlatHashMap_AddNode ?k (Some fd) m1 = Some m2" "fhm_inv m2"
      "fhm_lookup m2 = routing_after ?cur (snap_ClientId r) fd (fhm_lookup ?m)" by blast
  have id: "gw_GetClientId fd (gww_States w) = Some ?cur"
    using tab_shapeD(1)[OF tab_invD(1)[OF assms(2)]] by (simp add: gw_GetClientId_def tab_view_def)
  have "Handle_response r w = Some (w \<lparr> gww_States := s2, gww_ClientsFd := m2 \<rparr>)"
    using assms(1) id m(1,2) 1(1) 2(1) unfolding Handle_response_def Let_def r assms(3)[symmetric] reroute_def by simp
  then show ?thesis using 1 2 m keep by auto
qed

section \<open>Catching up\<close>







section \<open>Reconnecting on another descriptor\<close>

text \<open>A client that logs in again on another descriptor keeps its old route: the map of client ids
  answers with the descriptor of the first login, so the reports of the client's later trades are applied to
  the old slot and the account at the new descriptor does not change.\<close>

theorem reconnect_keeps_stale_route:
  assumes "\<not> stale_snapshot w r" "gw_inv (gww_States w) fd" "fd = unat (snap_ClientFd r)" "snapshot_ok r"
    "fhm_inv (gww_ClientsFd w)" "fhm_room (gww_ClientsFd w) (ucast (snap_ClientId r))"
    "ClientsFd_GetVal (snap_ClientId r) w = Some old" "old \<noteq> fd" "gw_inv (gww_States w) old" "rep_ClientId q = snap_ClientId r"
  shows "\<exists>w1 w2. Handle_response r w = Some w1 \<and> ClientsFd_GetVal (snap_ClientId r) w1 = Some old \<and>
    Handle_reports [q] w1 = Some w2 \<and> gw_GetClientState fd (gww_States w2) = gw_GetClientState fd (gww_States w1)"
proof -
  let ?cur = "gcl_ClientId (gw_view (gww_States w) fd)"
  from Handle_response_ok[OF assms(1-6)] obtain w1 where
    w1: "Handle_response r w = Some w1" "gw_inv (gww_States w1) fd" "fhm_inv (gww_ClientsFd w1)" "gw_inv (gww_States w1) old"
      "fhm_lookup (gww_ClientsFd w1) = routing_after ?cur (snap_ClientId r) fd (fhm_lookup (gww_ClientsFd w))"
    using assms(9) by blast
  have L: "fhm_lookup (gww_ClientsFd w) (ucast (snap_ClientId r)) = Some (Some old)"
    using assms(5,7) by (auto simp: ClientsFd_lookup split: option.splits)
  have "(ucast ?cur :: u64) \<noteq> ucast (snap_ClientId r)" if "?cur \<noteq> snap_ClientId r" using that ucast32_of_32 by metis
  with L have "fhm_lookup (gww_ClientsFd w1) (ucast (snap_ClientId r)) = Some (Some old)"
    by (auto simp: w1(5) routing_after_def Let_def)
  then have route: "ClientsFd_GetVal (snap_ClientId r) w1 = Some old" using w1(3) by (simp add: ClientsFd_lookup)
  have "\<forall>x \<in> set [q]. \<forall>fd'. ClientsFd_GetVal (rep_ClientId x) w1 = Some fd' \<longrightarrow> gw_inv (gww_States w1) fd'" using route assms(10) w1(4) by simp
  from Handle_reports_ok[OF this] w1(2) obtain w2 where "Handle_reports [q] w1 = Some w2"
    "gw_GetClientState fd (gww_States w2) = Some (gw_view (gww_States w1) fd)"
    using assms(8,10) route routed_clients[of w1 "[q]"] by (auto simp: List.map_filter_simps)
  then show ?thesis using w1(1) route gw_GetClientState_view[OF w1(2)] by auto
qed

section \<open>A small gateway\<close>

definition sample_report :: "u32 \<Rightarrow> u32 \<Rightarrow> OrderStateReport" where
  "sample_report seq client = FillReport 5 (- 300) (- 300) seq client 1 0 3 0 FILL"

definition sample_writer :: gw_Writer where
  "sample_writer = gw_Writer_init (gw_ClientStates_init 4) (2 ^ 2) 8 (sample_report 0 0)"

definition trading_writer :: "gw_Writer" where
  "trading_writer = record_report (sample_report 3 7) (record_report (sample_report 2 42) (record_report (sample_report 1 42) sample_writer))"

lemma sample_writer_ok:
  assumes "i < 4" "w = sample_writer \<or> w = trading_writer"
  shows "gw_inv (gww_States w) i" "gw_staged (gww_States w) i = gw_ClientState_init" "gw_view (gww_States w) i = gw_ClientState_init"
    "fhm_inv (gww_ClientsFd w)" "fhm_room (gww_ClientsFd w) k" "fhm_lookup (gww_ClientsFd w) = Map.empty"
proof -
  have "gww_States w = gw_ClientStates_init 4" "gww_ClientsFd w = FlatHashMap_init (2 ^ 2)"
    using assms(2) by (auto simp: trading_writer_def sample_writer_def gw_Writer_init_def)
  then show "gw_inv (gww_States w) i" "gw_staged (gww_States w) i = gw_ClientState_init" "gw_view (gww_States w) i = gw_ClientState_init"
    "fhm_inv (gww_ClientsFd w)" "fhm_room (gww_ClientsFd w) k" "fhm_lookup (gww_ClientsFd w) = Map.empty"
    using gw_init_ok[OF assms(1)] FlatHashMap_init_empty[of 2] by simp_all
qed



definition connected_writer :: gw_Writer where
  "connected_writer = the (Handle_response sample_snapshot sample_writer)"

lemma connected_writer_ok:
  "Handle_response sample_snapshot sample_writer = Some connected_writer" "i < 4 \<Longrightarrow> gw_inv (gww_States connected_writer) i"
  "fhm_inv (gww_ClientsFd connected_writer)" "ClientsFd_GetVal 42 connected_writer = Some 1"
  "gw_staged (gww_States connected_writer) 1 = spec_snapshot sample_snapshot gw_ClientState_init"
proof -
  have fd: "(1 :: nat) = unat (snap_ClientFd sample_snapshot)" by (simp add: sample_snapshot_def)
  have ns: "\<not> stale_snapshot sample_writer sample_snapshot" by code_simp
  note ok = sample_writer_ok[of _ sample_writer, OF _ disjI1[OF refl]]
  have "(1 :: nat) < 4" by simp
  from Handle_response_ok[OF ns ok(1)[OF this] fd sample_snapshot_ok ok(4,5)[OF this]] obtain w' where
    w': "Handle_response sample_snapshot sample_writer = Some w'" "fhm_inv (gww_ClientsFd w')"
      "gw_view (gww_States w') 1 = spec_snapshot (replay_missed sample_writer sample_snapshot) (gw_staged (gww_States sample_writer) 1)"
      "gw_staged (gww_States w') 1 = gw_view (gww_States w') 1"
      "\<forall>j. gw_inv (gww_States sample_writer) j \<longrightarrow> gw_inv (gww_States w') j" by blast
  have c: "connected_writer = w'" using w'(1) by (simp add: connected_writer_def)
  show "Handle_response sample_snapshot sample_writer = Some connected_writer" "fhm_inv (gww_ClientsFd connected_writer)" using w'(1,2) c by simp_all
  show "i < 4 \<Longrightarrow> gw_inv (gww_States connected_writer) i" using w'(5) ok(1) c by simp
  show "ClientsFd_GetVal 42 connected_writer = Some 1" by code_simp
  have "replay_missed sample_writer sample_snapshot = sample_snapshot"
    by (simp add: replay_missed_def missed_seqs_def sample_snapshot_def sample_writer_def gw_Writer_init_def)
  then show "gw_staged (gww_States connected_writer) 1 = spec_snapshot sample_snapshot gw_ClientState_init" using w'(3,4) c ok(2)[of 1] by simp
qed

theorem report_batch_published_witness:
  "\<exists>w' s. Handle_reports [sample_report 1 42, sample_report 2 7, sample_report 3 42] connected_writer = Some w' \<and>
     gw_GetClientState 1 (gww_States w') = Some s \<and> gcl_Confirmed s = (replicate 16 1000)[0 := 400, 3 := 1010]"
proof -
  let ?rs = "[sample_report 1 42, sample_report 2 7, sample_report 3 42]"
  have k: "ClientsFd_GetVal 42 connected_writer = Some 1" "ClientsFd_GetVal 7 connected_writer = None" by code_simp+
  have "\<forall>r \<in> set ?rs. \<forall>fd. ClientsFd_GetVal (rep_ClientId r) connected_writer = Some fd \<longrightarrow> gw_inv (gww_States connected_writer) fd"
    using k connected_writer_ok(2)[of 1] by (simp add: sample_report_def FillReport_def)
  from report_batch_published[OF this] connected_writer_ok(2)[of 1] obtain w' where
    w': "Handle_reports ?rs connected_writer = Some w'"
     "gw_GetClientState 1 (gww_States w') = Some (if 1 \<in> fst ` set (routed_updates connected_writer ?rs)
        then fold spec_assets (updates_of 1 (routed_updates connected_writer ?rs)) (spec_snapshot sample_snapshot gw_ClientState_init)
        else gw_view (gww_States connected_writer) 1)" using connected_writer_ok(5) by auto
  have u: "routed_updates connected_writer ?rs = map (Pair 1) (report_updates (sample_report 1 42) @ report_updates (sample_report 3 42))"
    using k by (simp add: routed_updates_def sample_report_def FillReport_def)
  have "gcl_Confirmed (fold spec_assets (report_updates (sample_report 1 42) @ report_updates (sample_report 3 42)) (spec_snapshot sample_snapshot gw_ClientState_init))
     = (replicate 16 1000)[0 := 400, 3 := 1010]" by code_simp
  moreover have "updates_of 1 (map (Pair (1 :: nat)) us) = us" for us :: "(i64 \<times> i64 \<times> u16) list" by (induction us) simp_all
  moreover have "1 \<in> fst ` set (routed_updates connected_writer ?rs)" unfolding u by (simp add: report_updates_def)
  ultimately show ?thesis using w' unfolding u by (auto simp del: Handle_reports_def)
qed

theorem reconnect_keeps_stale_route_witness:
  "\<exists>w1 w2. Handle_response (sample_snapshot \<lparr> snap_ClientFd := 2 \<rparr>) connected_writer = Some w1 \<and> ClientsFd_GetVal 42 w1 = Some 1 \<and>
     Handle_reports [sample_report 1 42] w1 = Some w2 \<and> gw_GetClientState 2 (gww_States w2) = gw_GetClientState 2 (gww_States w1)"
proof -
  let ?r = "sample_snapshot \<lparr> snap_ClientFd := 2 \<rparr>"
  have r: "(2 :: nat) = unat (snap_ClientFd ?r)" "snapshot_ok ?r" "snap_ClientId ?r = 42" "rep_ClientId (sample_report 1 42) = snap_ClientId ?r"
    using sample_snapshot_ok by (simp add: sample_snapshot_def, simp add: snapshot_ok_def, simp_all add: sample_snapshot_def sample_report_def FillReport_def)
  have ns: "\<not> stale_snapshot connected_writer ?r" by code_simp
  have room: "fhm_room (gww_ClientsFd connected_writer) (ucast (snap_ClientId ?r))" by code_simp
  have old: "ClientsFd_GetVal (snap_ClientId ?r) connected_writer = Some 1" "(1 :: nat) \<noteq> 2" using connected_writer_ok(4) r(3) by simp_all
  from reconnect_keeps_stale_route[OF ns connected_writer_ok(2) r(1,2) connected_writer_ok(3) room old connected_writer_ok(2) r(4)] r(3)
  show ?thesis by auto
qed

end
