(* ===== verification/Gateway_Links.thy ===== *)
theory Gateway_Links
  imports Order_Router Gateway_Writer
begin

text \<open>
  The remaining threads of the gateway that speak to sockets: the sender of confirmations to clients
  (\<open>order_gateway/include/client_message_sender.hpp\<close>), the forwarder of login requests to the account service
  (\<open>account_request_sender.hpp\<close>, \<open>order_gateway/src/account_request_sender.cpp\<close>) and the receiver of account
  snapshots (\<open>account_service_response_receiver.hpp\<close>).
\<close>

section \<open>Confirmations to clients\<close>

record ClientMessageSender =
  cms_Incoming :: "ClientMessage channel"
  cms_ConfirmationBuffer :: "BytesBuffer list"

definition ClientMessageSender_init :: "ClientMessage channel \<Rightarrow> ClientMessageSender" where
  "ClientMessageSender_init q = \<lparr> cms_Incoming = q,
     cms_ConfirmationBuffer = replicate GatewayMaxClients (BytesBuffer_init (GatewayEpollReceiveBatchSize * sizeof_OrderConfirmation)) \<rparr>"

text \<open>The sender has its own copies of the two sending routines of the router, with the same code.\<close>

definition cms_DrainBuffer :: "BytesBuffer \<Rightarrow> int \<Rightarrow> network \<Rightarrow> (bool \<times> BytesBuffer \<times> network) option" where
  [simp]: "cms_DrainBuffer = DrainBuffer_Confirmation"

definition cms_SendOrderConfirmation :: "OrderConfirmation \<Rightarrow> nat \<Rightarrow> BytesBuffer list \<Rightarrow> network \<Rightarrow> (BytesBuffer list \<times> network) option" where
  [simp]: "cms_SendOrderConfirmation = SendOrderConfirmation"

text \<open>One turn of the loop.\<close>

definition cms_turn :: "ClientMessageSender \<Rightarrow> network \<Rightarrow> (ClientMessageSender \<times> network) option" where
  "cms_turn s net =
     (case Consumer_TryPop (cms_Incoming s) of
        (None, q) \<Rightarrow> Some (s \<lparr> cms_Incoming := q \<rparr>, net)
      | (Some message, q) \<Rightarrow>
          (let fd = unat (msg_Fd message); bufs = cms_ConfirmationBuffer s
           in if \<not> fd < length bufs then None
              else do {
                (drained, buffer, net) \<leftarrow> cms_DrainBuffer (bufs ! fd) (int fd) net;
                if drained
                then do {
                  (bufs, net) \<leftarrow> cms_SendOrderConfirmation (msg_Confirmation message) fd (bufs[fd := buffer]) net;
                  Some (s \<lparr> cms_Incoming := q, cms_ConfirmationBuffer := bufs \<rparr>, net) }
                else Some (s \<lparr> cms_Incoming := q, cms_ConfirmationBuffer := bufs[fd :=
                  (if BytesBuffer_CanAdd (of_nat sizeof_OrderConfirmation) buffer
                   then BytesBuffer_Add (encode_OrderConfirmation (msg_Confirmation message)) buffer else buffer)] \<rparr>, net) }))"

fun cms_turns :: "nat \<Rightarrow> ClientMessageSender \<Rightarrow> network \<Rightarrow> (ClientMessageSender \<times> network) option" where
  "cms_turns 0 s net = Some (s, net)"
| "cms_turns (Suc n) s net = do { (s, net) \<leftarrow> cms_turn s net; cms_turns n s net }"

section \<open>Login requests to the account service\<close>

text \<open>A request is sent once, whatever part of it the socket takes; the second load of the descriptor has no
  consequence.\<close>

definition SendRequest :: "VersionedFd \<Rightarrow> RoutedAuthRequest \<Rightarrow> network \<Rightarrow> network" where
  "SendRequest AccountFd curRequest net =
     (let curFd = vfd_Fd (vfd_load AccountFd)
      in if curFd = - 1 then net else snd (send curFd (encode_RoutedAuthRequest curRequest) net))"

definition GatewayRequestForwarder_Handle :: "VersionedFd \<Rightarrow> RoutedAuthRequest list \<Rightarrow> network \<Rightarrow> network" where
  "GatewayRequestForwarder_Handle AccountFd rs net = fold (SendRequest AccountFd) rs net"

text \<open>One round of \<open>StartLoop\<close>: a timed consumption from each of the two queues.\<close>

definition AccountRequestSender_round ::
  "VersionedFd \<Rightarrow> (nat \<Rightarrow> nat \<Rightarrow> nat) \<Rightarrow> (nat \<Rightarrow> nat \<Rightarrow> nat) \<Rightarrow> RoutedAuthRequest outbox \<Rightarrow> RoutedAuthRequest outbox \<Rightarrow> network \<Rightarrow>
   (RoutedAuthRequest outbox \<times> RoutedAuthRequest outbox \<times> network) option" where
  "AccountRequestSender_round AccountFd clock1 clock2 epoll writer net = do {
     (net, epoll) \<leftarrow> ConsumeTimed 0 clock1 100 (GatewayRequestForwarder_Handle AccountFd) epoll net;
     (net, writer) \<leftarrow> ConsumeTimed 0 clock2 100 (GatewayRequestForwarder_Handle AccountFd) writer net;
     Some (epoll, writer, net) }"

section \<open>Account snapshots\<close>

definition sizeof_ClientAccountSnapshot :: nat where "sizeof_ClientAccountSnapshot = 305"
definition GatewayClientRequestResponseBatchSize :: nat where "GatewayClientRequestResponseBatchSize = 16"

definition encode_ClientAccountSnapshot :: "ClientAccountSnapshot \<Rightarrow> u8 list" where
  "encode_ClientAccountSnapshot s =
     snap_Status s # le_bytes 8 (uint (snap_SequenceId s)) @ le_bytes 4 (uint (snap_ClientId s)) @ le_bytes 4 (uint (snap_ClientFd s)) @
     concat (map (\<lambda>a. le_bytes 2 (uint a)) (snap_AssetId s)) @ concat (map (le_bytes 8) (snap_Confirmed s)) @
     concat (map (le_bytes 8) (snap_Attempt s))"

definition decode_ClientAccountSnapshot :: "u8 list \<Rightarrow> ClientAccountSnapshot" where
  "decode_ClientAccountSnapshot bs =
   \<lparr> snap_Status = bs ! 0, snap_SequenceId = word_of_int (le_value (take 8 (drop 1 bs))),
     snap_ClientId = word_of_int (le_value (take 4 (drop 9 bs))), snap_ClientFd = word_of_int (le_value (take 4 (drop 13 bs))),
     snap_AssetId = map (\<lambda>f. word_of_int (le_value f)) (frames 2 (take 32 (drop 17 bs))),
     snap_Confirmed = map (\<lambda>f. wrap64 (le_value f)) (frames 8 (take 128 (drop 49 bs))),
     snap_Attempt = map (\<lambda>f. wrap64 (le_value f)) (frames 8 (take 128 (drop 177 bs))) \<rparr>"

record AccountServiceResponseReceiver =
  asr_Responses :: "u8 ObjectBatch outbox"
  asr_Buffer :: ObjectBuffer
  asr_BufferGen :: u32
  asr_errno :: errno

definition AccountServiceResponseReceiver_init :: "u8 ObjectBatch outbox \<Rightarrow> AccountServiceResponseReceiver" where
  "AccountServiceResponseReceiver_init ob =
   \<lparr> asr_Responses = ob, asr_Buffer = ObjectBuffer_init sizeof_ClientAccountSnapshot, asr_BufferGen = 0, asr_errno = OtherErrno \<rparr>"

definition ProcessResponses :: "VersionedFd \<Rightarrow> arrival list \<Rightarrow> AccountServiceResponseReceiver \<Rightarrow> (arrival list \<times> AccountServiceResponseReceiver) option" where
  "ProcessResponses AccountFd as s =
     (let curVal = vfd_load AccountFd; curFd = vfd_Fd curVal; curGen = vfd_Gen curVal
      in if curFd = - 1 then Some (as, s \<lparr> asr_Buffer := clearBuffer (asr_Buffer s) \<rparr>)
         else
           let buffer = (if asr_BufferGen s \<noteq> curGen then clearBuffer (asr_Buffer s) else asr_Buffer s);
               s = s \<lparr> asr_BufferGen := curGen, asr_Buffer := buffer \<rparr>;
               ob = asr_Responses s; sz = sizeof_ClientAccountSnapshot
           in (case StoragePool_Acquire (ob_Pool ob) of
                 (None, p) \<Rightarrow> Some (as, s \<lparr> asr_Responses := ob \<lparr> ob_Pool := p \<rparr> \<rparr>)
               | (Some x, p) \<Rightarrow>
                   (let old = sp_Storage p x; data = overlay 0 (obf_bytes buffer) (bat_Data old)
                    in (case recv (sz * GatewayClientRequestResponseBatchSize - obf_BufferSize buffer) as (asr_errno s) of (nread, bs, e, as) \<Rightarrow>
                          if nread \<le> 0
                          then Some (as, s \<lparr> asr_errno := e,
                                 asr_Responses := ob \<lparr> ob_Pool := snd (StoragePool_LocalRelease (Some x) (store_msg x (old \<lparr> bat_Data := data \<rparr>) p)) \<rparr>,
                                 asr_Buffer := (if retriable e then buffer else clearBuffer buffer) \<rparr>)
                          else
                            let got = nat nread + obf_BufferSize buffer; batchSize = got div sz; bufferSize = got mod sz;
                                data = overlay (obf_BufferSize buffer) bs data
                            in do {
                              tail \<leftarrow> leftover sz batchSize bufferSize data;
                              p \<leftarrow> Some (store_msg x (old \<lparr> bat_Data := data, bat_Size := batchSize \<rparr>) p);
                              case Producer_TryPush x (ob_Queue ob) of (ok, q) \<Rightarrow>
                                Some (as, s \<lparr> asr_errno := e, asr_Buffer := snd (addBytes tail (clearBuffer buffer)),
                                  asr_Responses := \<lparr> ob_Pool = (if ok then p else snd (StoragePool_LocalRelease (Some x) p)), ob_Queue = q \<rparr> \<rparr>) }))))"

section \<open>Snapshots on the wire\<close>

lemma length_concat_le_bytes: "length (concat (map (\<lambda>x. le_bytes n (f x)) xs)) = n * length xs"
  by (induction xs) simp_all

lemma decode_encode_ClientAccountSnapshot:
  assumes "length (snap_AssetId s) = 16" "pos_ok (snap_Confirmed s)" "pos_ok (snap_Attempt s)"
  shows "length (encode_ClientAccountSnapshot s) = sizeof_ClientAccountSnapshot"
    "decode_ClientAccountSnapshot (encode_ClientAccountSnapshot s) = s"
proof -
  have c: "length (snap_Confirmed s) = 16" "length (snap_Attempt s) = 16" using assms(2,3) by (simp_all add: pos_ok_def MaxPositions_def)
  let ?A = "concat (map (\<lambda>a. le_bytes 2 (uint a)) (snap_AssetId s))" and ?C = "concat (map (le_bytes 8) (snap_Confirmed s))"
    and ?T = "concat (map (le_bytes 8) (snap_Attempt s))"
  have l: "length ?A = 32" "length ?C = 128" "length ?T = 128"
    using assms(1) c length_concat_le_bytes[of 2 uint "snap_AssetId s"] length_concat_le_bytes[of 8 "\<lambda>x. x"] by simp_all
  show "length (encode_ClientAccountSnapshot s) = sizeof_ClientAccountSnapshot"
    using l by (simp add: encode_ClientAccountSnapshot_def sizeof_ClientAccountSnapshot_def)
  have f: "frames 2 ?A = map (\<lambda>a. le_bytes 2 (uint a)) (snap_AssetId s)" "frames 8 ?C = map (le_bytes 8) (snap_Confirmed s)"
    "frames 8 ?T = map (le_bytes 8) (snap_Attempt s)"
    using frames_concat[of 2 "snap_AssetId s" "\<lambda>a. le_bytes 2 (uint a)" "[]"] frames_concat[of 8 "snap_Confirmed s" "le_bytes 8" "[]"]
      frames_concat[of 8 "snap_Attempt s" "le_bytes 8" "[]"] by simp_all
  have w: "map (\<lambda>x. wrap64 (le_value (le_bytes 8 x))) xs = xs" if "pos_ok xs" for xs
    using that wrap64_le_value by (intro map_idI) (auto simp: pos_ok_def)
  show "decode_ClientAccountSnapshot (encode_ClientAccountSnapshot s) = s"
    using l f w[OF assms(2)] w[OF assms(3)]
    by (simp add: encode_ClientAccountSnapshot_def decode_ClientAccountSnapshot_def le_value_range comp_def)
qed

section \<open>Delivery of confirmations\<close>

lemma cms_turn_ok:
  assumes q: "channel_inv (cms_Incoming s)" "channel_items (cms_Incoming s) = m # ms" and fd: "unat (msg_Fd m) < length (cms_ConfirmationBuffer s)"
    and buf: "\<forall>b \<in> set (cms_ConfirmationBuffer s). BytesBuffer_GetSize b = 0" and net: "net_Answers net = []"
  shows "\<exists>s'. cms_turn s net = Some (s', written (int (unat (msg_Fd m))) (encode_OrderConfirmation (msg_Confirmation m)) net) \<and>
    channel_inv (cms_Incoming s') \<and> channel_items (cms_Incoming s') = ms \<and> length (cms_ConfirmationBuffer s') = length (cms_ConfirmationBuffer s) \<and>
    (\<forall>b \<in> set (cms_ConfirmationBuffer s'). BytesBuffer_GetSize b = 0)"
proof -
  let ?fd = "unat (msg_Fd m)" and ?bufs = "cms_ConfirmationBuffer s"
  from spsc.pop_some[OF q] obtain c where c: "Consumer_TryPop (cms_Incoming s) = (Some m, c)" "channel_inv c" "channel_items c = ms" by blast
  have "BytesBuffer_GetSize (?bufs ! ?fd) = 0" using buf fd by simp
  then have "DrainBuffer_Confirmation (?bufs ! ?fd) (int ?fd) net = Some (True, BytesBuffer_Clear (?bufs ! ?fd), net)"
    by (simp add: DrainBuffer_Confirmation_def drain_loop.simps)
  then have "cms_turn s net = Some (s \<lparr> cms_Incoming := c, cms_ConfirmationBuffer := ?bufs[?fd := BytesBuffer_Clear (?bufs ! ?fd)] \<rparr>,
      written (int ?fd) (encode_OrderConfirmation (msg_Confirmation m)) net)"
    using c(1) fd net by (simp add: cms_turn_def Let_def SendOrderConfirmation_def send_all_whole)
  moreover have "\<forall>b \<in> set (?bufs[?fd := BytesBuffer_Clear (?bufs ! ?fd)]). BytesBuffer_GetSize b = 0"
    using buf set_update_subset_insert[of ?bufs ?fd "BytesBuffer_Clear (?bufs ! ?fd)"] by (auto simp: BytesBuffer_GetSize_def BytesBuffer_Clear_def)
  ultimately show ?thesis using c by auto
qed

lemma cms_turns_ok:
  assumes "channel_inv (cms_Incoming s)" "channel_items (cms_Incoming s) = ms" "\<forall>m \<in> set ms. unat (msg_Fd m) < length (cms_ConfirmationBuffer s)"
    "\<forall>b \<in> set (cms_ConfirmationBuffer s). BytesBuffer_GetSize b = 0" "net_Answers net = []"
  shows "\<exists>s' net'. cms_turns (length ms) s net = Some (s', net') \<and> channel_items (cms_Incoming s') = [] \<and> net_Answers net' = [] \<and>
    (\<forall>f. net_Sent net' f = net_Sent net f @
      concat (map (\<lambda>m. encode_OrderConfirmation (msg_Confirmation m)) (filter (\<lambda>m. int (unat (msg_Fd m)) = f) ms)))"
  using assms
proof (induction ms arbitrary: s net)
  case Nil
  then show ?case by simp
next
  case (Cons m ms)
  from cms_turn_ok[OF Cons.prems(1,2) _ Cons.prems(4,5)] Cons.prems(3) obtain s1 where
    s1: "cms_turn s net = Some (s1, written (int (unat (msg_Fd m))) (encode_OrderConfirmation (msg_Confirmation m)) net)"
    "channel_inv (cms_Incoming s1)" "channel_items (cms_Incoming s1) = ms" "length (cms_ConfirmationBuffer s1) = length (cms_ConfirmationBuffer s)"
    "\<forall>b \<in> set (cms_ConfirmationBuffer s1). BytesBuffer_GetSize b = 0" by auto
  let ?net = "written (int (unat (msg_Fd m))) (encode_OrderConfirmation (msg_Confirmation m)) net"
  have "\<exists>s' net'. cms_turns (length ms) s1 ?net = Some (s', net') \<and> channel_items (cms_Incoming s') = [] \<and> net_Answers net' = [] \<and>
    (\<forall>f. net_Sent net' f = net_Sent ?net f @
      concat (map (\<lambda>m. encode_OrderConfirmation (msg_Confirmation m)) (filter (\<lambda>m. int (unat (msg_Fd m)) = f) ms)))"
    using s1 Cons.prems(3,5) by (intro Cons.IH) simp_all
  then show ?case using s1(1) by auto
qed

text \<open>A client whose socket refuses a send while a confirmation waits for it makes the sender shift its buffer by
  \<open>2 ^ 64 - 1\<close> bytes, outside its memory.\<close>

lemma refused_confirmation_leaves_buffer:
  assumes "0 < BytesBuffer_GetSize b" "unat (BytesBuffer_GetSize b) \<le> length (BytesBuffer_GetData b)" "length (BytesBuffer_GetData b) < 2 ^ 31"
    "net_Answers net = Refuses e # as" "e \<noteq> EINTR"
  shows "DrainBuffer_Confirmation b fd net = None"
proof -
  have "drain_loop fd b 0 net = Some (False, - 1, net \<lparr> net_Answers := as, net_errno := e \<rparr>)"
    using assms by (subst drain_loop.simps) (simp add: send_def Let_def)
  moreover have "unat (- 1 :: u64) = 2 ^ 64 - 1" by (simp add: unsigned_minus_1_eq_mask mask_eq_exp_minus_1)
  then have "BytesBuffer_Shift (- 1) b = None" using assms(3) by (simp add: BytesBuffer_Shift_def Let_def BytesBuffer_GetData_def)
  ultimately show ?thesis by (simp add: DrainBuffer_Confirmation_def)
qed

end
