(* ===== verification/Wire_Market.thy ===== *)
theory Wire_Market
  imports Wire_Types
begin

text \<open>
  The market data messages as bytes: the packed little-endian layouts of \<open>OrderStateReport\<close> and
  \<open>OrderBookUpdate\<close> (\<open>common/include/order_state_report.hpp\<close>, \<open>order_book_update.hpp\<close>) and of the confirmation a
  client reads back.  A generic component that carries objects with a sequence number over the network
  is a function of a \<open>wire_layout\<close>, the size, the two conversions and the \<open>SequenceId\<close> field of its type
  parameter; the locale \<open>sequenced\<close> states what such a component relies on, and both messages meet it.
\<close>

section \<open>Layouts\<close>

record 'a wire_layout =
  lay_sizeof :: nat
  lay_encode :: "'a \<Rightarrow> u8 list"
  lay_decode :: "u8 list \<Rightarrow> 'a"
  lay_SequenceId :: "'a \<Rightarrow> u32"
  lay_number :: "u32 \<Rightarrow> 'a \<Rightarrow> 'a"

fun OrderState_code :: "OrderState \<Rightarrow> u32" where
  "OrderState_code FILL = 0"
| "OrderState_code PARTIAL_FILL = 1"
| "OrderState_code CANCEL_STATE = 2"
| "OrderState_code REJECT = 3"
| "OrderState_code ADD = 4"
| "OrderState_code (OtherState w) = w"

definition OrderState_of :: "u32 \<Rightarrow> OrderState" where
  "OrderState_of w = (if w = 0 then FILL else if w = 1 then PARTIAL_FILL else if w = 2 then CANCEL_STATE
     else if w = 3 then REJECT else if w = 4 then ADD else OtherState w)"

definition sizeof_OrderStateReport :: nat where "sizeof_OrderStateReport = 48"

definition encode_OrderStateReport :: "OrderStateReport \<Rightarrow> u8 list" where
  "encode_OrderStateReport r =
     le_bytes 8 (rep_BoughtDelta r) @ le_bytes 8 (rep_SoldDelta r) @ le_bytes 8 (rep_SoldAttemptDelta r) @
     le_bytes 4 (uint (rep_SequenceId r)) @ le_bytes 4 (uint (rep_ClientId r)) @ le_bytes 4 (uint (rep_OrderId r)) @
     le_bytes 4 (uint (rep_TradeId r)) @ le_bytes 2 (uint (rep_BoughtAssetId r)) @ le_bytes 2 (uint (rep_SoldAssetId r)) @
     le_bytes 4 (uint (OrderState_code (rep_State r)))"

definition decode_OrderStateReport :: "u8 list \<Rightarrow> OrderStateReport" where
  "decode_OrderStateReport bs =
   \<lparr> rep_BoughtDelta = wrap64 (le_value (take 8 bs)), rep_SoldDelta = wrap64 (le_value (take 8 (drop 8 bs))),
     rep_SoldAttemptDelta = wrap64 (le_value (take 8 (drop 16 bs))), rep_SequenceId = word_of_int (le_value (take 4 (drop 24 bs))),
     rep_ClientId = word_of_int (le_value (take 4 (drop 28 bs))), rep_OrderId = word_of_int (le_value (take 4 (drop 32 bs))),
     rep_TradeId = word_of_int (le_value (take 4 (drop 36 bs))), rep_BoughtAssetId = word_of_int (le_value (take 2 (drop 40 bs))),
     rep_SoldAssetId = word_of_int (le_value (take 2 (drop 42 bs))),
     rep_State = OrderState_of (word_of_int (le_value (take 4 (drop 44 bs)))) \<rparr>"

definition sizeof_OrderBookUpdate :: nat where "sizeof_OrderBookUpdate = 19"

definition encode_OrderBookUpdate :: "OrderBookUpdate \<Rightarrow> u8 list" where
  "encode_OrderBookUpdate u =
     le_bytes 8 (upd_Price u) @ le_bytes 4 (uint (upd_SequenceId u)) @ le_bytes 4 (uint (upd_Depth u)) @
     le_bytes 2 (uint (upd_AssetId u)) @ [upd_Side u]"

definition decode_OrderBookUpdate :: "u8 list \<Rightarrow> OrderBookUpdate" where
  "decode_OrderBookUpdate bs =
   \<lparr> upd_Price = wrap64 (le_value (take 8 bs)), upd_SequenceId = word_of_int (le_value (take 4 (drop 8 bs))),
     upd_Depth = word_of_int (le_value (take 4 (drop 12 bs))), upd_AssetId = word_of_int (le_value (take 2 (drop 16 bs))),
     upd_Side = bs ! 18 \<rparr>"

definition report_layout :: "OrderStateReport wire_layout" where
  "report_layout = \<lparr> lay_sizeof = sizeof_OrderStateReport, lay_encode = encode_OrderStateReport, lay_decode = decode_OrderStateReport,
     lay_SequenceId = rep_SequenceId, lay_number = (\<lambda>n r. r \<lparr> rep_SequenceId := n \<rparr>) \<rparr>"

definition update_layout :: "OrderBookUpdate wire_layout" where
  "update_layout = \<lparr> lay_sizeof = sizeof_OrderBookUpdate, lay_encode = encode_OrderBookUpdate, lay_decode = decode_OrderBookUpdate,
     lay_SequenceId = upd_SequenceId, lay_number = (\<lambda>n u. u \<lparr> upd_SequenceId := n \<rparr>) \<rparr>"

section \<open>What a carrier of messages relies on\<close>

text \<open>\<open>ok\<close> are the values the conversions keep.\<close>

locale sequenced =
  fixes lay :: "'a wire_layout" and ok :: "'a \<Rightarrow> bool"
  assumes sizeof_pos: "0 < lay_sizeof lay"
    and length_encode: "ok x \<Longrightarrow> length (lay_encode lay x) = lay_sizeof lay"
    and decode_encode: "ok x \<Longrightarrow> lay_decode lay (lay_encode lay x) = x"
    and number_id: "lay_SequenceId lay (lay_number lay n x) = n"
    and number_ok: "ok x \<Longrightarrow> ok (lay_number lay n x)"
begin

definition numbered_from :: "nat \<Rightarrow> 'a list \<Rightarrow> 'a list" where
  "numbered_from n xs = map (\<lambda>(k, x). lay_number lay (of_nat k) x) (zip [n..<n + length xs] xs)"

definition stream :: "'a list \<Rightarrow> bool" where
  "stream xs \<longleftrightarrow> length xs < 2 ^ 32 \<and> (\<forall>k < length xs. ok (xs ! k) \<and> lay_SequenceId lay (xs ! k) = of_nat k)"

lemma length_numbered_from [simp]: "length (numbered_from n xs) = length xs"
  by (simp add: numbered_from_def)

lemma nth_numbered_from: "k < length xs \<Longrightarrow> numbered_from n xs ! k = lay_number lay (of_nat (n + k)) (xs ! k)"
  by (simp add: numbered_from_def)

lemma numbered_from_simps [simp]:
  "numbered_from n [] = []" "numbered_from n (x # xs) = lay_number lay (of_nat n) x # numbered_from (Suc n) xs"
  by (simp_all add: numbered_from_def upt_conv_Cons del: upt_Suc)

lemma numbered_from_append: "numbered_from n (xs @ ys) = numbered_from n xs @ numbered_from (n + length xs) ys"
  by (induction xs arbitrary: n) simp_all

lemma numbered_from_ok: "\<forall>x \<in> set xs. ok x \<Longrightarrow> \<forall>x \<in> set (numbered_from n xs). ok x"
  by (induction xs arbitrary: n) (auto simp: number_ok)

lemma stream_numbered: "\<forall>x \<in> set xs. ok x \<Longrightarrow> length xs < 2 ^ 32 \<Longrightarrow> stream (numbered_from 0 xs)"
  by (simp add: stream_def nth_numbered_from number_id number_ok)

lemma stream_appendD:
  assumes "stream (xs @ ys)"
  shows "stream xs"
proof -
  have "xs ! k = (xs @ ys) ! k" if "k < length xs" for k using that by (simp add: nth_append)
  then show ?thesis using assms by (simp add: stream_def)
qed

lemma stream_neq: "stream xs \<Longrightarrow> i < length xs \<Longrightarrow> j < length xs \<Longrightarrow> lay_SequenceId lay (xs ! i) = lay_SequenceId lay (xs ! j) \<longleftrightarrow> i = j"
  by (auto simp: stream_def word_of_nat_eq_iff take_bit_nat_eq_self)

end

section \<open>Both messages meet it\<close>

definition wire_report :: "OrderStateReport \<Rightarrow> bool" where
  "wire_report r \<longleftrightarrow> in_i64 (rep_BoughtDelta r) \<and> in_i64 (rep_SoldDelta r) \<and> in_i64 (rep_SoldAttemptDelta r) \<and>
     OrderState_of (OrderState_code (rep_State r)) = rep_State r"

definition wire_update :: "OrderBookUpdate \<Rightarrow> bool" where
  "wire_update u \<longleftrightarrow> in_i64 (upd_Price u)"

lemma report_roundtrip:
  "length (encode_OrderStateReport r) = sizeof_OrderStateReport"
  "wire_report r \<Longrightarrow> decode_OrderStateReport (encode_OrderStateReport r) = r"
  by (simp_all add: wire_report_def encode_OrderStateReport_def decode_OrderStateReport_def sizeof_OrderStateReport_def
      le_value_range wrap64_le_value)

lemma update_roundtrip:
  "length (encode_OrderBookUpdate u) = sizeof_OrderBookUpdate"
  "wire_update u \<Longrightarrow> decode_OrderBookUpdate (encode_OrderBookUpdate u) = u"
  by (simp_all add: wire_update_def encode_OrderBookUpdate_def decode_OrderBookUpdate_def sizeof_OrderBookUpdate_def
      le_value_range wrap64_le_value nth_append)

interpretation report_wire: sequenced report_layout wire_report
  by unfold_locales (simp_all add: report_layout_def report_roundtrip sizeof_OrderStateReport_def, simp add: wire_report_def)

interpretation update_wire: sequenced update_layout wire_update
  by unfold_locales (simp_all add: update_layout_def update_roundtrip sizeof_OrderBookUpdate_def, simp add: wire_update_def)

end
