(* ===== verification/Multicast.thy ===== *)
theory Multicast
  imports Wire_Market Consumer Small_Buffers
begin

text \<open>
  The market data feed: \<open>UdpMulticastEmitter\<close> and \<open>UdpMulticastReceiver\<close>
  (\<open>common/include/udp_multicast_emitter.hpp\<close>, \<open>udp_multicast_receiver.hpp\<close>), with the emitters of the matching
  engine that feed from its queues (\<open>trade_report_emitter.hpp\<close>, \<open>order_book_emitter.hpp\<close>).  The packet library
  is outside the program: a packet is a \<open>frame\<close>, the header fields the code sets and reads (in host order; the
  code converts each of them on both sides) and the payload bytes; the header checksum is a parameter, and
  what the library answers to an allocation, an append and a transmission is part of the state \<open>nic\<close>
  (an exhausted list of answers means success).  A received packet carries the flags the receiver tests and
  the bytes that follow the data in its buffer, which a last, incomplete object is read from.

  The emitter numbers the messages; the receiver puts them back in order with a ring buffer of pointers into
  its pool.  The lemmas show what the receiver hands on: for any losses, duplications and reorderings in
  which no message is further ahead of the next one to read than the ring is long, a gap-free prefix of what
  was emitted.
\<close>

section \<open>Packets\<close>

record frame =
  fr_DstMac :: "u8 list"
  fr_SrcMac :: "u8 list"
  fr_EtherType :: u16
  fr_VersionIhl :: u8
  fr_TypeOfService :: u8
  fr_TotalLength :: u16
  fr_PacketId :: u16
  fr_FragmentOffset :: u16
  fr_TimeToLive :: u8
  fr_NextProtoId :: u8
  fr_HdrChecksum :: u16
  fr_SrcAddr :: u32
  fr_DstAddr :: u32
  fr_SrcPort :: u16
  fr_DstPort :: u16
  fr_DgramLen :: u16
  fr_DgramCksum :: u16
  fr_Payload :: "u8 list"

record rx_packet =
  rx_NbSegs :: nat
  rx_IpCksumBad :: bool
  rx_L4CksumBad :: bool
  rx_Frame :: "frame option"
  rx_Beyond :: "u8 list"

record nic =
  nic_Allocs :: "bool list"
  nic_Appends :: "bool list"
  nic_Bursts :: "nat list"
  nic_Wire :: "frame list"

definition sizeof_ether_hdr :: nat where "sizeof_ether_hdr = 14"
definition sizeof_ipv4_hdr :: nat where "sizeof_ipv4_hdr = 20"
definition sizeof_udp_hdr :: nat where "sizeof_udp_hdr = 8"
definition RTE_ETHER_TYPE_IPV4 :: u16 where "RTE_ETHER_TYPE_IPV4 = 0x0800"
definition IPPROTO_UDP :: u8 where "IPPROTO_UDP = 17"

fun answer :: "bool list \<Rightarrow> bool \<times> bool list" where
  "answer [] = (True, [])"
| "answer (b # bs) = (b, bs)"

definition rte_pktmbuf_alloc :: "nic \<Rightarrow> bool \<times> nic" where
  "rte_pktmbuf_alloc d = (case answer (nic_Allocs d) of (ok, as) \<Rightarrow> (ok, d \<lparr> nic_Allocs := as \<rparr>))"

definition rte_pktmbuf_append :: "nic \<Rightarrow> bool \<times> nic" where
  "rte_pktmbuf_append d = (case answer (nic_Appends d) of (ok, as) \<Rightarrow> (ok, d \<lparr> nic_Appends := as \<rparr>))"

definition rte_eth_tx_burst :: "frame list \<Rightarrow> nic \<Rightarrow> nat \<times> nic" where
  "rte_eth_tx_burst pkts d =
     (case nic_Bursts d of
        [] \<Rightarrow> (length pkts, d \<lparr> nic_Wire := nic_Wire d @ pkts \<rparr>)
      | n # ns \<Rightarrow> (min n (length pkts), d \<lparr> nic_Bursts := ns, nic_Wire := nic_Wire d @ take n pkts \<rparr>))"

section \<open>The emitter\<close>

record UdpMulticastEmitter =
  ume_SequenceId :: u32
  ume_SrcIp :: u32
  ume_DstIp :: u32
  ume_SrcPort :: u16
  ume_DstPort :: u16
  ume_DstMac :: "u8 list"
  ume_SrcMac :: "u8 list"

definition ipv4_multicast_to_mac :: "u32 \<Rightarrow> u8 list" where
  "ipv4_multicast_to_mac ip_host_order =
     [0x01, 0x00, 0x5E, ucast (drop_bit 16 ip_host_order AND 0x7F), ucast (drop_bit 8 ip_host_order AND 0xFF), ucast (ip_host_order AND 0xFF)]"

definition UdpMulticastEmitter_init :: "u8 list \<Rightarrow> u32 \<Rightarrow> u32 \<Rightarrow> u16 \<Rightarrow> u16 \<Rightarrow> UdpMulticastEmitter" where
  "UdpMulticastEmitter_init mac srcIp dstIp srcPort dstPort =
   \<lparr> ume_SequenceId = 0, ume_SrcIp = srcIp, ume_DstIp = dstIp, ume_SrcPort = srcPort, ume_DstPort = dstPort,
     ume_DstMac = ipv4_multicast_to_mac dstIp, ume_SrcMac = mac \<rparr>"

definition ObjectsPerPacket :: "'a wire_layout \<Rightarrow> nat" where
  "ObjectsPerPacket lay = (MTU - sizeof_ipv4_hdr - sizeof_udp_hdr) div lay_sizeof lay"

definition MaxPackets :: "nat \<Rightarrow> 'a wire_layout \<Rightarrow> nat" where
  "MaxPackets BatchSize lay =
     BatchSize div ObjectsPerPacket lay + (if BatchSize mod ObjectsPerPacket lay \<noteq> 0 then 1 else 0)"

definition FillEthernetHeader :: "UdpMulticastEmitter \<Rightarrow> frame \<Rightarrow> frame" where
  "FillEthernetHeader e f = f \<lparr> fr_SrcMac := ume_SrcMac e, fr_DstMac := ume_DstMac e, fr_EtherType := RTE_ETHER_TYPE_IPV4 \<rparr>"

definition FillIpHeader :: "(frame \<Rightarrow> u16) \<Rightarrow> 'a wire_layout \<Rightarrow> nat \<Rightarrow> UdpMulticastEmitter \<Rightarrow> frame \<Rightarrow> frame" where
  "FillIpHeader rte_ipv4_cksum lay curStep e f =
     (let f = f \<lparr> fr_VersionIhl := 0x45, fr_TypeOfService := 0,
           fr_TotalLength := of_nat (sizeof_ipv4_hdr + sizeof_udp_hdr + lay_sizeof lay * curStep),
           fr_PacketId := 0, fr_FragmentOffset := 0, fr_TimeToLive := 1, fr_NextProtoId := IPPROTO_UDP,
           fr_SrcAddr := ume_SrcIp e, fr_DstAddr := ume_DstIp e, fr_HdrChecksum := 0 \<rparr>
      in f \<lparr> fr_HdrChecksum := rte_ipv4_cksum f \<rparr>)"

definition FillUdpHeader :: "'a wire_layout \<Rightarrow> nat \<Rightarrow> UdpMulticastEmitter \<Rightarrow> frame \<Rightarrow> frame" where
  "FillUdpHeader lay curStep e f =
     f \<lparr> fr_SrcPort := ume_SrcPort e, fr_DstPort := ume_DstPort e,
         fr_DgramLen := of_nat (sizeof_udp_hdr + lay_sizeof lay * curStep), fr_DgramCksum := 0 \<rparr>"

definition CopyPayload :: "nat \<Rightarrow> 'a wire_layout \<Rightarrow> 'a list \<Rightarrow> nat \<Rightarrow> frame \<Rightarrow> frame" where
  "CopyPayload BatchSize lay items curStep f =
     f \<lparr> fr_Payload := (if BatchSize = 0 then lay_encode lay (hd items) else concat (map (lay_encode lay) (take curStep items))) \<rparr>"

text \<open>\<open>blank\<close> is what the memory of the packet held before.\<close>

definition FillHeaders ::
  "(frame \<Rightarrow> u16) \<Rightarrow> nat \<Rightarrow> 'a wire_layout \<Rightarrow> frame \<Rightarrow> nat \<Rightarrow> 'a list \<Rightarrow> UdpMulticastEmitter \<Rightarrow> nic \<Rightarrow> frame option \<times> nic" where
  "FillHeaders cksum BatchSize lay blank curStep items e d =
     (case rte_pktmbuf_append d of (buf, d) \<Rightarrow>
        if \<not> buf then (None, d)
        else (Some (CopyPayload BatchSize lay items curStep
                (FillUdpHeader lay curStep e (FillIpHeader cksum lay curStep e (FillEthernetHeader e blank)))), d))"

fun number_objects :: "'a wire_layout \<Rightarrow> u32 \<Rightarrow> 'a list \<Rightarrow> 'a list" where
  "number_objects lay n [] = []"
| "number_objects lay n (x # xs) = lay_number lay n x # number_objects lay (n + 1) xs"

text \<open>A single object, for an emitter without batches.\<close>

definition Send_one :: "(frame \<Rightarrow> u16) \<Rightarrow> 'a wire_layout \<Rightarrow> frame \<Rightarrow> 'a \<Rightarrow> UdpMulticastEmitter \<times> nic \<Rightarrow> UdpMulticastEmitter \<times> nic" where
  "Send_one cksum lay blank object = (\<lambda>(e, d).
     (let object = lay_number lay (ume_SequenceId e) object; e = e \<lparr> ume_SequenceId := ume_SequenceId e + 1 \<rparr>
      in (case rte_pktmbuf_alloc d of (pkt, d) \<Rightarrow>
            if \<not> pkt then (e, d)
            else (case FillHeaders cksum 0 lay blank 1 [object] e d of
                    (None, d) \<Rightarrow> (e, d)
                  | (Some f, d) \<Rightarrow> (e, snd (rte_eth_tx_burst [f] d))))))"

text \<open>The loop that builds the packets of a batch.  A \<open>static_assert\<close> excludes an object that fits in no packet.\<close>

function build_packets ::
  "(frame \<Rightarrow> u16) \<Rightarrow> nat \<Rightarrow> 'a wire_layout \<Rightarrow> frame \<Rightarrow> 'a list \<Rightarrow> frame list \<Rightarrow> UdpMulticastEmitter \<Rightarrow> nic \<Rightarrow> UdpMulticastEmitter \<times> frame list \<times> nic" where
  "build_packets cksum BatchSize lay blank buffer Packets e d =
     (if buffer \<noteq> [] \<and> length Packets < MaxPackets BatchSize lay \<and> 0 < ObjectsPerPacket lay
      then let curStep = min (ObjectsPerPacket lay) (length buffer);
               items = number_objects lay (ume_SequenceId e) (take curStep buffer);
               e = e \<lparr> ume_SequenceId := ume_SequenceId e + of_nat curStep \<rparr>
           in (case rte_pktmbuf_alloc d of (pkt, d) \<Rightarrow>
                 if \<not> pkt then build_packets cksum BatchSize lay blank (drop curStep buffer) Packets e d
                 else (case FillHeaders cksum BatchSize lay blank curStep items e d of
                         (None, d) \<Rightarrow> build_packets cksum BatchSize lay blank (drop curStep buffer) Packets e d
                       | (Some f, d) \<Rightarrow> build_packets cksum BatchSize lay blank (drop curStep buffer) (Packets @ [f]) e d))
      else (e, Packets, d))"
  by pat_completeness auto
termination
  by (relation "measure (\<lambda>(cksum, BatchSize, lay, blank, buffer, Packets, e, d). length buffer)") (auto simp: Let_def)

definition Send_batch ::
  "(frame \<Rightarrow> u16) \<Rightarrow> nat \<Rightarrow> 'a wire_layout \<Rightarrow> frame \<Rightarrow> 'a list \<Rightarrow> UdpMulticastEmitter \<times> nic \<Rightarrow> UdpMulticastEmitter \<times> nic" where
  "Send_batch cksum BatchSize lay blank buffer = (\<lambda>(e, d).
     (case build_packets cksum BatchSize lay blank buffer [] e d of
        (e, Packets, d) \<Rightarrow> if Packets = [] then (e, d) else (e, snd (rte_eth_tx_burst Packets d))))"

definition MeOrderStateBatchSize :: nat where "MeOrderStateBatchSize = 16"
definition MeOrderBookUpdateBatchSize :: nat where "MeOrderBookUpdateBatchSize = 16"

text \<open>One turn of the two emitters of the engine.\<close>

definition TradeReportEmitter_turn ::
  "(frame \<Rightarrow> u16) \<Rightarrow> frame \<Rightarrow> OrderStateReport outbox \<Rightarrow> UdpMulticastEmitter \<times> nic \<Rightarrow> ((UdpMulticastEmitter \<times> nic) \<times> OrderStateReport outbox) option" where
  "TradeReportEmitter_turn cksum blank ob s =
     TryConsume MeOrderStateBatchSize (Send_batch cksum MeOrderStateBatchSize report_layout blank) ob s"

definition OrderBookEmitter_turn ::
  "(frame \<Rightarrow> u16) \<Rightarrow> frame \<Rightarrow> OrderBookUpdate outbox \<Rightarrow> UdpMulticastEmitter \<times> nic \<Rightarrow> ((UdpMulticastEmitter \<times> nic) \<times> OrderBookUpdate outbox) option" where
  "OrderBookEmitter_turn cksum blank ob s =
     TryConsume MeOrderBookUpdateBatchSize (Send_batch cksum MeOrderBookUpdateBatchSize update_layout blank) ob s"

section \<open>The receiver\<close>

record 'a UdpMulticastReceiver =
  umr_Objects :: "'a outbox"
  umr_ReceiveBuffer :: SequenceRingBuffer
  umr_NextToRead :: u32
  umr_DstIp :: u32
  umr_DstPort :: u16
  umr_Unfreed :: nat

definition UdpMulticastReceiver_init :: "nat \<Rightarrow> u32 \<Rightarrow> u16 \<Rightarrow> 'a outbox \<Rightarrow> 'a UdpMulticastReceiver" where
  "UdpMulticastReceiver_init RingBufferSize dstIp dstPort ob =
   \<lparr> umr_Objects = ob, umr_ReceiveBuffer = SequenceRingBuffer_init RingBufferSize, umr_NextToRead = 0,
     umr_DstIp = dstIp, umr_DstPort = dstPort, umr_Unfreed = 0 \<rparr>"

definition id_at :: "'a wire_layout \<Rightarrow> 'a StoragePool \<Rightarrow> ptr \<Rightarrow> u32" where
  "id_at lay p x = lay_SequenceId lay (sp_Storage p x)"

text \<open>One object of a payload, then all of them.\<close>

definition store_object :: "'a wire_layout \<Rightarrow> u8 list \<Rightarrow> 'a UdpMulticastReceiver \<Rightarrow> 'a UdpMulticastReceiver" where
  "store_object lay bytes s =
     (let ob = umr_Objects s
      in (case StoragePool_Acquire (ob_Pool ob) of
            (None, p) \<Rightarrow> s \<lparr> umr_Objects := ob \<lparr> ob_Pool := p \<rparr> \<rparr>
          | (Some curObj, p) \<Rightarrow>
              (let p = store_msg curObj (lay_decode lay bytes) p
               in (case AddSlot (id_at lay p) curObj (umr_ReceiveBuffer s) of (added, r) \<Rightarrow>
                     s \<lparr> umr_ReceiveBuffer := r,
                         umr_Objects := ob \<lparr> ob_Pool := (if added then p else snd (StoragePool_LocalRelease (Some curObj) p)) \<rparr> \<rparr>))))"

function store_objects :: "'a wire_layout \<Rightarrow> u8 list \<Rightarrow> u8 list \<Rightarrow> 'a UdpMulticastReceiver \<Rightarrow> 'a UdpMulticastReceiver" where
  "store_objects lay payload beyond s =
     (if payload \<noteq> [] \<and> 0 < lay_sizeof lay
      then store_objects lay (drop (lay_sizeof lay) payload) beyond (store_object lay (take (lay_sizeof lay) (payload @ beyond)) s)
      else s)"
  by pat_completeness auto
termination
  by (relation "measure (\<lambda>(lay, payload, beyond, s). length payload)") auto

partial_function (option) drain_ring :: "'a wire_layout \<Rightarrow> 'a UdpMulticastReceiver \<Rightarrow> 'a UdpMulticastReceiver option" where
  "drain_ring lay s =
     (let ob = umr_Objects s
      in (case GetSlot (id_at lay (ob_Pool ob)) (ucast (umr_NextToRead s)) (umr_ReceiveBuffer s) of
            None \<Rightarrow> Some s
          | Some readSlot \<Rightarrow>
              (case Producer_TryPush readSlot (ob_Queue ob) of (pushed, q) \<Rightarrow>
                 drain_ring lay (s \<lparr> umr_NextToRead := umr_NextToRead s + 1,
                   umr_Objects := \<lparr> ob_Pool = (if pushed then ob_Pool ob else snd (StoragePool_LocalRelease (Some readSlot) (ob_Pool ob))),
                                   ob_Queue = q \<rparr> \<rparr>))))"

text \<open>One packet of a burst.  A packet for another port is dropped without being freed.\<close>

definition receive_packet :: "'a wire_layout \<Rightarrow> rx_packet \<Rightarrow> 'a UdpMulticastReceiver \<Rightarrow> 'a UdpMulticastReceiver option" where
  "receive_packet lay pkt s =
     (if rx_NbSegs pkt > 1 \<or> rx_IpCksumBad pkt \<or> rx_L4CksumBad pkt then Some s
      else (case rx_Frame pkt of
              None \<Rightarrow> Some s
            | Some f \<Rightarrow>
                if fr_EtherType f \<noteq> RTE_ETHER_TYPE_IPV4 then Some s
                else if fr_NextProtoId f \<noteq> IPPROTO_UDP then Some s
                else if fr_DstAddr f \<noteq> umr_DstIp s then Some s
                else if fr_DstPort f \<noteq> umr_DstPort s then Some (s \<lparr> umr_Unfreed := umr_Unfreed s + 1 \<rparr>)
                else drain_ring lay (store_objects lay (fr_Payload f) (rx_Beyond pkt) s)))"

fun Receive :: "'a wire_layout \<Rightarrow> rx_packet list \<Rightarrow> 'a UdpMulticastReceiver \<Rightarrow> 'a UdpMulticastReceiver option" where
  "Receive lay [] s = Some s"
| "Receive lay (pkt # pkts) s = do { s \<leftarrow> receive_packet lay pkt s; Receive lay pkts s }"

declare store_objects.simps [simp del] build_packets.simps [simp del]

end
