(* ===== verification/Multicast_Props.thy ===== *)
theory Multicast_Props
  imports Multicast
begin

text \<open>
  What the receiver of market data hands on.  \<open>rx_step\<close> is one step of the receiving side: a packet that
  carries messages of the emitted stream, a packet the receiver does not take, or a turn of the thread that
  consumes the queue.  The invariant \<open>rx_inv\<close> ties the ring buffer, whose stale pointers stay in place after
  their objects are reused, to the pool and the queue.
\<close>

section \<open>Steps of the receiving side\<close>

text \<open>The payload of a packet that the receiver takes.\<close>

definition rx_payload :: "rx_packet \<Rightarrow> 'a UdpMulticastReceiver \<Rightarrow> u8 list option" where
  "rx_payload pkt s =
     (case rx_Frame pkt of
        None \<Rightarrow> None
      | Some f \<Rightarrow>
          if rx_NbSegs pkt \<le> 1 \<and> \<not> rx_IpCksumBad pkt \<and> \<not> rx_L4CksumBad pkt \<and> fr_EtherType f = RTE_ETHER_TYPE_IPV4 \<and>
             fr_NextProtoId f = IPPROTO_UDP \<and> fr_DstAddr f = umr_DstIp s \<and> fr_DstPort f = umr_DstPort s
          then Some (fr_Payload f) else None)"

text \<open>The packet carries the messages \<open>ks\<close> of the stream, none further ahead than the ring is long.\<close>

definition carries :: "'a wire_layout \<Rightarrow> 'a list \<Rightarrow> nat list \<Rightarrow> rx_packet \<Rightarrow> 'a UdpMulticastReceiver \<Rightarrow> bool" where
  "carries lay rs ks pkt s \<longleftrightarrow> rx_payload pkt s = Some (concat (map (\<lambda>k. lay_encode lay (rs ! k)) ks)) \<and>
     (\<forall>k \<in> set ks. k < length rs \<and> k < unat (umr_NextToRead s) + length (srb_Buffer (umr_ReceiveBuffer s)))"

inductive rx_step :: "'a wire_layout \<Rightarrow> nat \<Rightarrow> 'a list \<Rightarrow> 'a UdpMulticastReceiver \<times> 'a list \<Rightarrow> 'a UdpMulticastReceiver \<times> 'a list \<Rightarrow> bool"
  for lay BatchSize rs where
  arrives: "carries lay rs ks pkt s \<Longrightarrow> receive_packet lay pkt s = Some s' \<Longrightarrow> rx_step lay BatchSize rs (s, log) (s', log)"
| ignored: "rx_payload pkt s = None \<Longrightarrow> receive_packet lay pkt s = Some s' \<Longrightarrow> rx_step lay BatchSize rs (s, log) (s', log)"
| consumed: "TryConsume BatchSize (\<lambda>ms log. log @ ms) (umr_Objects s) log = Some (log', ob) \<Longrightarrow>
    rx_step lay BatchSize rs (s, log) (s \<lparr> umr_Objects := ob \<rparr>, log')"

lemma receive_packet_taken:
  "rx_payload pkt s = Some payload \<Longrightarrow> receive_packet lay pkt s = drain_ring lay (store_objects lay payload (rx_Beyond pkt) s)"
  by (auto simp: rx_payload_def receive_packet_def split: option.splits if_splits)

lemma receive_packet_ignored:
  "rx_payload pkt s = None \<Longrightarrow> receive_packet lay pkt s = Some s \<or> receive_packet lay pkt s = Some (s \<lparr> umr_Unfreed := umr_Unfreed s + 1 \<rparr>)"
  by (auto simp: rx_payload_def receive_packet_def split: option.splits if_splits)

section \<open>Pool, queue and ring\<close>

lemma outbox_with_pool:
  assumes "outbox_inv ob" "sp_inv p" "sp_all p = sp_all (ob_Pool ob)" "set (channel_items (ob_Queue ob)) \<inter> set (sp_free p) = {}"
  shows "outbox_inv (ob \<lparr> ob_Pool := p \<rparr>)"
  using assms by (auto simp: outbox_inv_def sp_all_def lessThan_eq_iff)

lemma outbox_msgs_cong:
  "(\<And>x. x \<in> set (channel_items (ob_Queue ob)) \<Longrightarrow> sp_Storage p x = sp_Storage (ob_Pool ob) x) \<Longrightarrow>
   outbox_msgs (ob \<lparr> ob_Pool := p \<rparr>) = outbox_msgs ob"
  by (simp add: outbox_msgs_def)

definition pending_at :: "'a wire_layout \<Rightarrow> 'a list \<Rightarrow> 'a outbox \<Rightarrow> ptr \<Rightarrow> bool" where
  "pending_at lay rs ob x \<longleftrightarrow> x \<in> sp_all (ob_Pool ob) \<and> x \<notin> set (sp_free (ob_Pool ob)) \<and> x \<notin> set (channel_items (ob_Queue ob)) \<and>
     unat (id_at lay (ob_Pool ob) x) < length rs \<and> sp_Storage (ob_Pool ob) x = rs ! unat (id_at lay (ob_Pool ob) x)"

definition rx_inv :: "'a wire_layout \<Rightarrow> nat \<Rightarrow> 'a list \<Rightarrow> 'a UdpMulticastReceiver \<Rightarrow> 'a list \<Rightarrow> bool" where
  "rx_inv lay j rs s log \<longleftrightarrow>
     (let n = unat (umr_NextToRead s); r = umr_ReceiveBuffer s; ob = umr_Objects s
      in outbox_inv ob \<and> log @ outbox_msgs ob = take n rs \<and> n \<le> length rs \<and> length (srb_Buffer r) = 2 ^ j \<and>
         unat (srb_Tail r) \<le> n + 2 ^ j \<and>
         (\<forall>x. Some x \<in> set (srb_Buffer r) \<longrightarrow> unat (id_at lay (ob_Pool ob) x) < n \<or>
            pending_at lay rs ob x \<and> unat (id_at lay (ob_Pool ob) x) < unat (srb_Tail r)))"

text \<open>The ring holds message \<open>k\<close>.\<close>

definition held :: "'a wire_layout \<Rightarrow> 'a UdpMulticastReceiver \<Rightarrow> nat \<Rightarrow> bool" where
  "held lay s k \<longleftrightarrow> (\<exists>x. srb_Buffer (umr_ReceiveBuffer s) ! (k mod length (srb_Buffer (umr_ReceiveBuffer s))) = Some x \<and>
     id_at lay (ob_Pool (umr_Objects s)) x = of_nat k)"

lemma rx_invD:
  assumes "rx_inv lay j rs s log"
  shows "outbox_inv (umr_Objects s)" "log @ outbox_msgs (umr_Objects s) = take (unat (umr_NextToRead s)) rs"
    "unat (umr_NextToRead s) \<le> length rs" "length (srb_Buffer (umr_ReceiveBuffer s)) = 2 ^ j"
    "unat (srb_Tail (umr_ReceiveBuffer s)) \<le> unat (umr_NextToRead s) + 2 ^ j"
    "\<And>x. Some x \<in> set (srb_Buffer (umr_ReceiveBuffer s)) \<Longrightarrow>
       unat (id_at lay (ob_Pool (umr_Objects s)) x) < unat (umr_NextToRead s) \<or>
       pending_at lay rs (umr_Objects s) x \<and> unat (id_at lay (ob_Pool (umr_Objects s)) x) < unat (srb_Tail (umr_ReceiveBuffer s))"
  using assms by (auto simp: rx_inv_def Let_def)

lemma ucast_of_unat: "(ucast (n :: u32) :: u64) = of_nat (unat n)"
  using ucast_small[of "unat n"] unsigned_less[where ?w = n] by simp

lemma GetSlot_mod:
  assumes "length (srb_Buffer r) = 2 ^ j" "j < 32"
  shows "GetSlot ids (ucast (n :: u32)) r =
    (case srb_Buffer r ! (unat n mod 2 ^ j) of None \<Rightarrow> None | Some x \<Rightarrow> if ids x = n then Some x else None)"
proof -
  have u: "(ucast n :: u64) = of_nat (unat n)" by (rule ucast_of_unat)
  have "unat ((ucast n :: u64) AND (of_nat (2 ^ j) - 1)) = unat n mod 2 ^ j"
    unfolding u using mask_of_nat_mod[of j "unat n"] assms(2) by simp
  moreover have "(ucast n :: u64) = ucast (ids x) \<longleftrightarrow> ids x = n" for x
    by (auto simp: ucast_u32_u64_inject)
  ultimately show ?thesis using assms(1) by (simp add: GetSlot_def Let_def split: option.splits)
qed

lemma AddSlot_mod:
  assumes "length (srb_Buffer r) = 2 ^ j" "j < 32" "ids x = of_nat k" "Suc k < 2 ^ 32"
  shows "AddSlot ids x r =
    (if 2 ^ j < unat (srb_Tail r) \<and> k < unat (srb_Tail r) - 2 ^ j then (False, r)
     else (True, r \<lparr> srb_Buffer := (srb_Buffer r)[k mod 2 ^ j := Some x], srb_Tail := of_nat (max (unat (srb_Tail r)) (Suc k)) \<rparr>))"
proof -
  have k: "unat (of_nat k :: u32) = k" using assms(4) by (simp add: unat_of_nat)
  have j: "(2 :: nat) ^ j < 2 ^ 32" using assms(2) by (intro power_strict_increasing) simp_all
  let ?T = "ucast (srb_Tail r) :: u64" and ?S = "of_nat (2 ^ j) :: u64"
  have lt: "unat (srb_Tail r) < 2 ^ 32" by (rule order_less_le_trans[OF unsigned_less]) simp
  have t: "unat ?T = unat (srb_Tail r)" using lt by (simp add: unsigned_ucast_eq take_bit_nat_eq_self)
  have S: "unat ?S = 2 ^ j" using j by (simp add: unat_of_nat del: of_nat_power)
  have K: "unat (of_nat k :: u64) = k" using assms(4) by (simp add: unat_of_nat)
  have less: "?S < ?T \<longleftrightarrow> 2 ^ j < unat (srb_Tail r)" unfolding word_less_nat_alt t S ..
  have old: "of_nat k < ?T - ?S \<longleftrightarrow> k < unat (srb_Tail r) - 2 ^ j" if "?S < ?T"
    unfolding word_less_nat_alt unat_sub[OF less_imp_le[OF that]] t S K ..
  have tail: "(if srb_Tail r \<le> of_nat k then of_nat k + 1 else srb_Tail r) = of_nat (max (unat (srb_Tail r)) (Suc k))"
  proof (cases "unat (srb_Tail r) \<le> k")
    case False
    then have "max (unat (srb_Tail r)) (Suc k) = unat (srb_Tail r)" by simp
    then show ?thesis using False by (simp add: word_le_nat_alt k)
  qed (simp add: word_le_nat_alt k max_def)
  show ?thesis
    using mask_of_nat_mod[of j k] assms less old tail
    by (auto simp: AddSlot_def Let_def ucast_small simp del: of_nat_power)
qed

section \<open>Storing the messages of a packet\<close>

text \<open>What one acquisition does: nothing, when no object is free, or a free object leaves the pool.\<close>

lemma Acquire_cases:
  assumes "sp_inv p"
  obtains p' where "StoragePool_Acquire p = (None, p')" "sp_free p = []" "sp_inv p'" "sp_free p' = []" "sp_all p' = sp_all p" "sp_Storage p' = sp_Storage p"
  | x p' where "StoragePool_Acquire p = (Some x, p')" "sp_inv p'" "x \<in> set (sp_free p)" "set (sp_free p') = set (sp_free p) - {x}"
      "sp_all p' = sp_all p" "sp_Storage p' = sp_Storage p" "x \<in> sp_all p"
  using sp_Acquire_none[OF assms] sp_Acquire_some[OF assms] StoragePool_Storage(1)[of p] sp.free_in_all[OF assms]
  by (cases "sp_free p = []") fastforce+

text \<open>What storing message \<open>k\<close> keeps and achieves; and a pool that has the message in its formerly free object \<open>x\<close>.\<close>

definition stored :: "'a wire_layout \<Rightarrow> nat \<Rightarrow> 'a list \<Rightarrow> 'a list \<Rightarrow> nat \<Rightarrow> 'a UdpMulticastReceiver \<Rightarrow> 'a UdpMulticastReceiver \<Rightarrow> bool" where
  "stored lay j rs log k s s' \<longleftrightarrow> rx_inv lay j rs s' log \<and> umr_NextToRead s' = umr_NextToRead s \<and>
     (\<forall>i. unat (umr_NextToRead s) \<le> i \<longrightarrow> i < unat (umr_NextToRead s) + 2 ^ j \<longrightarrow> i < length rs \<longrightarrow> held lay s i \<longrightarrow> held lay s' i) \<and>
     (unat (umr_NextToRead s) \<le> k \<longrightarrow> 0 < outbox_room (umr_Objects s) \<longrightarrow> held lay s' k) \<and>
     outbox_room (umr_Objects s) \<le> Suc (outbox_room (umr_Objects s'))"

definition pool_with :: "'a outbox \<Rightarrow> ptr \<Rightarrow> 'a \<Rightarrow> 'a StoragePool \<Rightarrow> bool" where
  "pool_with ob x msg q \<longleftrightarrow> sp_inv q \<and> sp_all q = sp_all (ob_Pool ob) \<and> x \<in> sp_all q \<and> x \<in> set (sp_free (ob_Pool ob)) \<and>
     sp_Storage q = (sp_Storage (ob_Pool ob))(x := msg)"

lemma outbox_room_pool:
  assumes "sp_inv (ob_Pool ob)" "sp_inv q"
  shows "set (sp_free q) = set (sp_free (ob_Pool ob)) \<Longrightarrow> outbox_room (ob \<lparr> ob_Pool := q \<rparr>) = outbox_room ob"
    "set (sp_free q) = set (sp_free (ob_Pool ob)) - {x} \<Longrightarrow> x \<in> set (sp_free (ob_Pool ob)) \<Longrightarrow>
       outbox_room ob = Suc (outbox_room (ob \<lparr> ob_Pool := q \<rparr>))"
proof -
  note d = distinct_card[OF sp.free_distinct[OF assms(1)]] distinct_card[OF sp.free_distinct[OF assms(2)]]
  show "set (sp_free q) = set (sp_free (ob_Pool ob)) \<Longrightarrow> outbox_room (ob \<lparr> ob_Pool := q \<rparr>) = outbox_room ob"
    using d by (simp add: outbox_room_def)
  show "set (sp_free q) = set (sp_free (ob_Pool ob)) - {x} \<Longrightarrow> x \<in> set (sp_free (ob_Pool ob)) \<Longrightarrow>
      outbox_room ob = Suc (outbox_room (ob \<lparr> ob_Pool := q \<rparr>))"
    using d card_Suc_Diff1[of "set (sp_free (ob_Pool ob))" x] by (simp add: outbox_room_def)
qed

context sequenced
begin

lemma stream_id: "stream rs \<Longrightarrow> k < length rs \<Longrightarrow> lay_SequenceId lay (rs ! k) = of_nat k \<and> ok (rs ! k)"
  by (simp add: stream_def)

lemma unat_small: "stream rs \<Longrightarrow> k \<le> length rs \<Longrightarrow> unat (of_nat k :: u32) = k"
  by (simp add: stream_def unat_of_nat)

text \<open>The object that receives message \<open>k\<close> is none of those the ring still needs.\<close>

lemma pool_with_facts:
  assumes inv: "rx_inv lay j rs s log" and st: "stream rs" and k: "k < length rs" and q: "pool_with (umr_Objects s) x (rs ! k) q"
  shows "\<And>y. id_at lay q y = (if y = x then of_nat k else id_at lay (ob_Pool (umr_Objects s)) y)"
    "\<And>y i. srb_Buffer (umr_ReceiveBuffer s) ! (i mod 2 ^ j) = Some y \<Longrightarrow> Some y \<in> set (srb_Buffer (umr_ReceiveBuffer s))"
    "\<And>y i. srb_Buffer (umr_ReceiveBuffer s) ! (i mod 2 ^ j) = Some y \<Longrightarrow> id_at lay (ob_Pool (umr_Objects s)) y = of_nat i \<Longrightarrow>
       unat (umr_NextToRead s) \<le> i \<Longrightarrow> i < length rs \<Longrightarrow> y \<noteq> x"
    "x \<notin> set (channel_items (ob_Queue (umr_Objects s)))"
    "outbox_msgs ((umr_Objects s) \<lparr> ob_Pool := q \<rparr>) = outbox_msgs (umr_Objects s)"
proof -
  note I = rx_invD[OF inv] and Q = q[unfolded pool_with_def]
  show "id_at lay q y = (if y = x then of_nat k else id_at lay (ob_Pool (umr_Objects s)) y)" for y
    using Q stream_id[OF st k] by (simp add: id_at_def)
  show slot: "Some y \<in> set (srb_Buffer (umr_ReceiveBuffer s))" if "srb_Buffer (umr_ReceiveBuffer s) ! (i mod 2 ^ j) = Some y" for y i
    using that I(4) by (metis mod_less_divisor nth_mem zero_less_numeral zero_less_power)
  have fresh: "unat (id_at lay (ob_Pool (umr_Objects s)) x) < unat (umr_NextToRead s)" if "Some x \<in> set (srb_Buffer (umr_ReceiveBuffer s))"
    using I(6)[OF that] Q by (auto simp: pending_at_def)
  show "y \<noteq> x" if "srb_Buffer (umr_ReceiveBuffer s) ! (i mod 2 ^ j) = Some y" "id_at lay (ob_Pool (umr_Objects s)) y = of_nat i"
      "unat (umr_NextToRead s) \<le> i" "i < length rs" for y i
    using fresh slot that unat_small[OF st, of i] by fastforce
  show x: "x \<notin> set (channel_items (ob_Queue (umr_Objects s)))" using I(1) Q by (auto simp: outbox_inv_def)
  show "outbox_msgs ((umr_Objects s) \<lparr> ob_Pool := q \<rparr>) = outbox_msgs (umr_Objects s)"
    using x Q by (intro outbox_msgs_cong) auto
qed

text \<open>A message the ring refuses was read before; its object returns to the pool.\<close>

lemma stored_refused:
  assumes inv: "rx_inv lay j rs s log" and st: "stream rs" and k: "k < unat (umr_NextToRead s)" and q: "pool_with (umr_Objects s) x (rs ! k) q"
    and free: "set (sp_free q) = set (sp_free (ob_Pool (umr_Objects s)))"
  shows "stored lay j rs log k s (s \<lparr> umr_Objects := (umr_Objects s) \<lparr> ob_Pool := q \<rparr> \<rparr>)"
proof -
  note I = rx_invD[OF inv] and Q = q[unfolded pool_with_def]
  let ?ob = "umr_Objects s"
  have k': "k < length rs" "unat (of_nat k :: u32) = k" using k I(3) unat_small[OF st, of k] by simp_all
  note F = pool_with_facts[OF inv st k'(1) q]
  have sp: "sp_inv (ob_Pool ?ob)" using I(1) by (simp add: outbox_inv_def)
  have "outbox_inv (?ob \<lparr> ob_Pool := q \<rparr>)"
    using I(1) Q free by (intro outbox_with_pool) (auto simp: outbox_inv_def)
  moreover have "unat (id_at lay q y) < unat (umr_NextToRead s) \<or>
      pending_at lay rs (?ob \<lparr> ob_Pool := q \<rparr>) y \<and> unat (id_at lay q y) < unat (srb_Tail (umr_ReceiveBuffer s))"
    if "Some y \<in> set (srb_Buffer (umr_ReceiveBuffer s))" for y
    using I(6)[OF that] k k'(2) Q free by (auto simp: F(1) pending_at_def)
  moreover have "held lay (s \<lparr> umr_Objects := ?ob \<lparr> ob_Pool := q \<rparr> \<rparr>) i" if "unat (umr_NextToRead s) \<le> i" "i < length rs" "held lay s i" for i
    using that F(3)[of i] I(4) by (fastforce simp: held_def F(1))
  ultimately show ?thesis using I F(5) k outbox_room_pool(1)[OF sp _ free] Q by (simp add: stored_def rx_inv_def)
qed

text \<open>A message the ring takes goes into the slot of its number; a message waiting in that slot is the same one.\<close>

lemma same_slot:
  assumes inv: "rx_inv lay j rs s log" and st: "stream rs" and k: "k < unat (umr_NextToRead s) + 2 ^ j"
    and new: "\<not> (2 ^ j < unat (srb_Tail (umr_ReceiveBuffer s)) \<and> k < unat (srb_Tail (umr_ReceiveBuffer s)) - 2 ^ j)"
    and i: "unat (umr_NextToRead s) \<le> i" "i < unat (umr_NextToRead s) + 2 ^ j" "i < length rs" "held lay s i"
    and slot: "k mod 2 ^ j = i mod 2 ^ j"
  shows "k = i"
proof (rule ccontr)
  assume "k \<noteq> i"
  note I = rx_invD[OF inv]
  obtain y where y: "srb_Buffer (umr_ReceiveBuffer s) ! (i mod 2 ^ j) = Some y" "id_at lay (ob_Pool (umr_Objects s)) y = of_nat i"
    using i(4) I(4) by (auto simp: held_def)
  have "Some y \<in> set (srb_Buffer (umr_ReceiveBuffer s))"
    using y(1) I(4) by (metis mod_less_divisor nth_mem zero_less_numeral zero_less_power)
  from I(6)[OF this] y(2) i(1) unat_small[OF st, of i] i(3) have it: "i < unat (srb_Tail (umr_ReceiveBuffer s))" by auto
  have ki: "k < i" using mod_window_inj[of i "2 ^ j" k] slot i k \<open>k \<noteq> i\<close> by force
  moreover have "\<not> i < k + 2 ^ j" using mod_window_inj[of k "2 ^ j" i] slot ki by blast
  ultimately show False using new it by linarith
qed

lemma stored_added:
  assumes inv: "rx_inv lay j rs s log" and st: "stream rs" and k: "k < length rs" "k < unat (umr_NextToRead s) + 2 ^ j"
    and new: "\<not> (2 ^ j < unat (srb_Tail (umr_ReceiveBuffer s)) \<and> k < unat (srb_Tail (umr_ReceiveBuffer s)) - 2 ^ j)"
    and q: "pool_with (umr_Objects s) x (rs ! k) q" and free: "set (sp_free q) = set (sp_free (ob_Pool (umr_Objects s))) - {x}"
    and s': "s' = s \<lparr> umr_ReceiveBuffer := (umr_ReceiveBuffer s) \<lparr> srb_Buffer := (srb_Buffer (umr_ReceiveBuffer s))[k mod 2 ^ j := Some x],
        srb_Tail := of_nat (max (unat (srb_Tail (umr_ReceiveBuffer s))) (Suc k)) \<rparr>, umr_Objects := (umr_Objects s) \<lparr> ob_Pool := q \<rparr> \<rparr>"
  shows "stored lay j rs log k s s'"
proof -
  note I = rx_invD[OF inv] and Q = q[unfolded pool_with_def] and F = pool_with_facts[OF inv st k(1) q]
  let ?ob = "umr_Objects s" and ?n = "unat (umr_NextToRead s)" and ?r = "umr_ReceiveBuffer s"
  let ?t = "unat (srb_Tail ?r)" and ?b = "(srb_Buffer ?r)[k mod 2 ^ j := Some x]"
  have sp: "sp_inv (ob_Pool ?ob)" using I(1) by (simp add: outbox_inv_def)
  have k32: "Suc k < 2 ^ 32" "unat (of_nat k :: u32) = k" using k(1) st by (simp_all add: stream_def unat_of_nat)
  have "?t < 2 ^ 32" by (rule order_less_le_trans[OF unsigned_less]) simp
  then have tl: "unat (of_nat (max ?t (Suc k)) :: u32) = max ?t (Suc k)" using k32(1) by (simp add: unat_of_nat max_def)
  have "outbox_inv (?ob \<lparr> ob_Pool := q \<rparr>)"
    using I(1) Q free by (intro outbox_with_pool) (auto simp: outbox_inv_def)
  moreover have "unat (id_at lay q y) < ?n \<or> pending_at lay rs (?ob \<lparr> ob_Pool := q \<rparr>) y \<and> unat (id_at lay q y) < max ?t (Suc k)"
    if y: "Some y \<in> set ?b" for y
  proof (cases "y = x")
    case True
    then show ?thesis using k32(2) k(1) Q free F(4) by (auto simp: pending_at_def F(1))
  next
    case False
    then have "Some y \<in> set (srb_Buffer ?r)" using y set_update_subset_insert[of "srb_Buffer ?r" "k mod 2 ^ j" "Some x"] by auto
    from I(6)[OF this] show ?thesis using False Q free by (auto simp: pending_at_def F(1))
  qed
  moreover have hk: "held lay s' k" unfolding s' using I(4) by (auto simp: held_def F(1))
  moreover have "held lay s' i" if i: "?n \<le> i" "i < ?n + 2 ^ j" "i < length rs" "held lay s i" for i
  proof (cases "k mod 2 ^ j = i mod 2 ^ j")
    case True
    from same_slot[OF inv st k(2) new i True] hk show ?thesis by simp
  next
    case False
    then show ?thesis using i(3,4) F(3)[of i] i(1) I(4) unfolding s' by (fastforce simp: held_def F(1))
  qed
  moreover have "outbox_room ?ob = Suc (outbox_room (?ob \<lparr> ob_Pool := q \<rparr>))" using outbox_room_pool(2)[OF sp _ free] Q by simp
  ultimately show ?thesis using I F(5) k(2) tl unfolding s' by (simp add: stored_def rx_inv_def)
qed

lemma store_object_stored:
  assumes inv: "rx_inv lay j rs s log" and st: "stream rs" "j < 32" and k: "k < length rs" "k < unat (umr_NextToRead s) + 2 ^ j"
  shows "stored lay j rs log k s (store_object lay (lay_encode lay (rs ! k)) s)" (is "stored _ _ _ _ _ _ ?s'")
proof -
  note I = rx_invD[OF inv]
  let ?ob = "umr_Objects s" and ?r = "umr_ReceiveBuffer s"
  have sp: "sp_inv (ob_Pool ?ob)" using I(1) by (simp_all add: outbox_inv_def)
  have dec: "lay_decode lay (lay_encode lay (rs ! k)) = rs ! k" and idk: "lay_SequenceId lay (rs ! k) = of_nat k"
    using decode_encode stream_id[OF st(1) k(1)] by simp_all
  have k32: "Suc k < 2 ^ 32" using k(1) st(1) by (simp add: stream_def)
  from sp show ?thesis
  proof (cases rule: Acquire_cases)
    case (1 p)
    have ob: "outbox_inv (?ob \<lparr> ob_Pool := p \<rparr>)" using 1 by (intro outbox_with_pool[OF I(1)]) simp_all
    have s': "?s' = s \<lparr> umr_Objects := ?ob \<lparr> ob_Pool := p \<rparr> \<rparr>" by (simp add: store_object_def Let_def 1(1))
    show ?thesis using ob 1 I unfolding s'
      by (auto simp: stored_def rx_inv_def outbox_msgs_def held_def id_at_def outbox_room_def pending_at_def)
  next
    case (2 x p)
    let ?P = "store_msg x (rs ! k) p" and ?t = "unat (srb_Tail ?r)"
    have P: "pool_with ?ob x (rs ! k) ?P" "set (sp_free ?P) = set (sp_free (ob_Pool ?ob)) - {x}"
      using 2 by (simp_all add: pool_with_def)
    note add = AddSlot_mod[OF I(4) st(2), of "id_at lay ?P" x k, OF _ k32]
    have run: "?s' = (case AddSlot (id_at lay ?P) x ?r of (added, r) \<Rightarrow> s \<lparr> umr_ReceiveBuffer := r,
        umr_Objects := ?ob \<lparr> ob_Pool := (if added then ?P else snd (StoragePool_LocalRelease (Some x) ?P)) \<rparr> \<rparr>)"
      by (simp add: store_object_def Let_def 2(1) dec)
    have idx: "id_at lay ?P x = of_nat k" by (simp add: id_at_def idk)
    show ?thesis
    proof (cases "2 ^ j < ?t \<and> k < ?t - 2 ^ j")
      case True
      obtain q where q: "StoragePool_LocalRelease (Some x) ?P = (True, q)" "sp_inv q" "set (sp_free q) = insert x (set (sp_free ?P))"
        "sp_all q = sp_all ?P" using sp_LocalRelease_out[of ?P x] 2 by auto
      have "sp_Storage q = sp_Storage ?P" using StoragePool_Storage(3)[of "Some x" ?P] q(1) by simp
      then have "pool_with ?ob x (rs ! k) q" "set (sp_free q) = set (sp_free (ob_Pool ?ob))"
        using P q by (auto simp: pool_with_def)
      moreover have "k < unat (umr_NextToRead s)" using True I(5) by linarith
      moreover have "?s' = s \<lparr> umr_Objects := ?ob \<lparr> ob_Pool := q \<rparr> \<rparr>" using add True idx q(1) by (simp add: run)
      ultimately show ?thesis using stored_refused[OF inv st(1)] by simp
    next
      case False
      have "AddSlot (id_at lay ?P) x ?r = (True, ?r \<lparr> srb_Buffer := (srb_Buffer ?r)[k mod 2 ^ j := Some x],
          srb_Tail := of_nat (max ?t (Suc k)) \<rparr>)" using add[OF idx] by (simp only: False if_False)
      then show ?thesis using stored_added[OF inv st(1) k False P refl] by (simp add: run)
    qed
  qed
qed

lemma store_object_inv:
  assumes inv: "rx_inv lay j rs s log" and st: "stream rs" "j < 32" and k: "k < length rs" "k < unat (umr_NextToRead s) + 2 ^ j"
  defines "s' \<equiv> store_object lay (lay_encode lay (rs ! k)) s"
  shows "rx_inv lay j rs s' log" "umr_NextToRead s' = umr_NextToRead s" 
    "\<And>i. unat (umr_NextToRead s) \<le> i \<Longrightarrow> i < unat (umr_NextToRead s) + 2 ^ j \<Longrightarrow> i < length rs \<Longrightarrow> held lay s i \<Longrightarrow> held lay s' i"
    "unat (umr_NextToRead s) \<le> k \<Longrightarrow> 0 < outbox_room (umr_Objects s) \<Longrightarrow> held lay s' k"
    "outbox_room (umr_Objects s) \<le> Suc (outbox_room (umr_Objects s'))"
  using store_object_stored[OF inv st k] by (simp_all add: s'_def stored_def)

lemma store_object_address: "umr_DstIp (store_object lay bs s) = umr_DstIp s" "umr_DstPort (store_object lay bs s) = umr_DstPort s"
  by (simp_all add: store_object_def Let_def split: prod.splits option.splits)

lemma store_objects_frames:
  assumes "stream rs" "\<forall>k \<in> set ks. k < length rs"
  shows "store_objects lay (concat (map (\<lambda>k. lay_encode lay (rs ! k)) ks)) beyond s = fold (\<lambda>k. store_object lay (lay_encode lay (rs ! k))) ks s"
  using assms(2)
proof (induction ks arbitrary: s)
  case Nil
  then show ?case by (simp add: store_objects.simps)
next
  case (Cons k ks)
  have l: "length (lay_encode lay (rs ! k)) = lay_sizeof lay" using Cons.prems stream_id[OF assms(1), of k] length_encode by simp
  then have "lay_encode lay (rs ! k) \<noteq> []" using sizeof_pos by auto
  with Cons l sizeof_pos show ?case by (simp add: store_objects.simps[of lay "lay_encode lay (rs ! k) @ _"])
qed

lemma store_objects_inv:
  assumes "rx_inv lay j rs s log" "stream rs" "j < 32" "\<forall>k \<in> set ks. k < length rs \<and> k < unat (umr_NextToRead s) + 2 ^ j"
  defines "s' \<equiv> fold (\<lambda>k. store_object lay (lay_encode lay (rs ! k))) ks s"
  shows "rx_inv lay j rs s' log \<and> umr_NextToRead s' = umr_NextToRead s \<and>
    umr_DstIp s' = umr_DstIp s \<and> umr_DstPort s' = umr_DstPort s \<and>
    outbox_room (umr_Objects s) \<le> length ks + outbox_room (umr_Objects s') \<and>
    (\<forall>i. unat (umr_NextToRead s) \<le> i \<longrightarrow> i < unat (umr_NextToRead s) + 2 ^ j \<longrightarrow> i < length rs \<longrightarrow>
      held lay s i \<or> i \<in> set ks \<and> length ks \<le> outbox_room (umr_Objects s) \<longrightarrow> held lay s' i)"
  using assms(1,4) unfolding s'_def
proof (induction ks arbitrary: s)
  case Nil
  then show ?case by simp
next
  case (Cons k ks)
  let ?s = "store_object lay (lay_encode lay (rs ! k)) s"
  have k: "k < length rs" "k < unat (umr_NextToRead s) + 2 ^ j" using Cons.prems(2) by simp_all
  note 1 = store_object_inv[OF Cons.prems(1) assms(2,3) k]
  have "held lay ?s i \<or> i \<in> set ks \<and> length ks \<le> outbox_room (umr_Objects ?s)"
    if "unat (umr_NextToRead s) \<le> i" "i < unat (umr_NextToRead s) + 2 ^ j" "i < length rs"
      "held lay s i \<or> i \<in> set (k # ks) \<and> length (k # ks) \<le> outbox_room (umr_Objects s)" for i
    using that 1(3)[of i] 1(4,5) by (cases "i = k") auto
  moreover have pre: "\<forall>i \<in> set ks. i < length rs \<and> i < unat (umr_NextToRead ?s) + 2 ^ j" using Cons.prems(2) 1(2) by simp
  note IH = Cons.IH[OF 1(1) pre, unfolded 1(2) store_object_address]
  moreover have "outbox_room (umr_Objects s) \<le> length (k # ks) + outbox_room (umr_Objects (fold (\<lambda>k. store_object lay (lay_encode lay (rs ! k))) ks ?s))"
    using IH 1(5) by simp
  ultimately show ?case unfolding fold_Cons comp_apply by blast
qed

section \<open>Handing messages on\<close>

lemma next_held:
  assumes "rx_inv lay j rs s log" "j < 32"
  shows "GetSlot (id_at lay (ob_Pool (umr_Objects s))) (ucast (umr_NextToRead s)) (umr_ReceiveBuffer s) \<noteq> None \<longleftrightarrow> held lay s (unat (umr_NextToRead s))"
  unfolding GetSlot_mod[OF rx_invD(4)[OF assms(1)] assms(2)]
  by (auto simp: held_def rx_invD(4)[OF assms(1)] split: option.splits)

lemma drain_step:
  assumes inv: "rx_inv lay j rs s log" and "stream rs" "j < 32" and x: "GetSlot (id_at lay (ob_Pool (umr_Objects s))) (ucast (umr_NextToRead s)) (umr_ReceiveBuffer s) = Some x"
  shows "\<exists>q. Producer_TryPush x (ob_Queue (umr_Objects s)) = (True, q) \<and> unat (umr_NextToRead s) < length rs \<and>
    unat (umr_NextToRead s + 1) = Suc (unat (umr_NextToRead s)) \<and>
    rx_inv lay j rs (s \<lparr> umr_NextToRead := umr_NextToRead s + 1, umr_Objects := \<lparr> ob_Pool = ob_Pool (umr_Objects s), ob_Queue = q \<rparr> \<rparr>) log"
proof -
  note I = rx_invD[OF inv]
  let ?ob = "umr_Objects s" and ?n = "unat (umr_NextToRead s)" and ?r = "umr_ReceiveBuffer s"
  have b: "srb_Buffer ?r ! (?n mod 2 ^ j) = Some x" "id_at lay (ob_Pool ?ob) x = umr_NextToRead s"
    using x unfolding GetSlot_mod[OF I(4) assms(3)] by (auto split: option.splits if_splits)
  have "Some x \<in> set (srb_Buffer ?r)" using b(1) I(4) by (metis mod_less_divisor nth_mem zero_less_numeral zero_less_power)
  from I(6)[OF this] b(2) have pen: "pending_at lay rs ?ob x" "?n < length rs" by (auto simp: pending_at_def)
  then have px: "x \<in> sp_all (ob_Pool ?ob)" "x \<notin> set (sp_free (ob_Pool ?ob))" "x \<notin> set (channel_items (ob_Queue ?ob))" "sp_Storage (ob_Pool ?ob) x = rs ! ?n"
    using b(2) by (simp_all add: pending_at_def)
  have nx: "unat (umr_NextToRead s + 1) = Suc ?n"
    using unat_small[OF assms(2), of "Suc ?n"] pen(2) by (simp add: add.commute)
  have ob: "channel_inv (ob_Queue ?ob)" "distinct (channel_items (ob_Queue ?ob))" "set (channel_items (ob_Queue ?ob)) \<subseteq> sp_all (ob_Pool ?ob)"
    "StoragePool_GetSize (ob_Pool ?ob) \<le> channel_cap (ob_Queue ?ob)" using I(1) by (simp_all add: outbox_inv_def)
  have "length (channel_items (ob_Queue ?ob)) < StoragePool_GetSize (ob_Pool ?ob)"
    using ob(2,3) px(1,3) by (intro card_lt_of_missing) (auto simp: sp_all_def)
  with spsc.push_room[OF ob(1), of x] ob(4) obtain q where
    q: "Producer_TryPush x (ob_Queue ?ob) = (True, q)" "channel_inv q" "channel_items q = channel_items (ob_Queue ?ob) @ [x]"
      "channel_cap q = channel_cap (ob_Queue ?ob)" by auto
  let ?ob' = "\<lparr> ob_Pool = ob_Pool ?ob, ob_Queue = q \<rparr>"
  have "outbox_inv ?ob'" using I(1) q px by (auto simp: outbox_inv_def)
  moreover have "log @ outbox_msgs ?ob' = take (Suc ?n) rs"
    using I(2) px(4) pen(2) by (simp add: outbox_msgs_def q(3) take_Suc_conv_app_nth)
  moreover have "unat (id_at lay (ob_Pool ?ob) y) < Suc ?n \<or> pending_at lay rs ?ob' y \<and> unat (id_at lay (ob_Pool ?ob) y) < unat (srb_Tail ?r)"
    if "Some y \<in> set (srb_Buffer ?r)" for y
    using I(6)[OF that] b(2) by (cases "y = x") (auto simp: pending_at_def q(3))
  ultimately show ?thesis using q(1) pen(2) nx I by (auto simp: rx_inv_def Let_def)
qed

lemma drain_ring_inv:
  assumes "rx_inv lay j rs s log" "stream rs" "j < 32"
  shows "\<exists>s'. drain_ring lay s = Some s' \<and> rx_inv lay j rs s' log \<and> unat (umr_NextToRead s) \<le> unat (umr_NextToRead s') \<and>
    \<not> held lay s' (unat (umr_NextToRead s')) \<and> held lay s' = held lay s \<and> umr_DstIp s' = umr_DstIp s \<and> umr_DstPort s' = umr_DstPort s \<and> ob_Pool (umr_Objects s') = ob_Pool (umr_Objects s)"
  using assms(1)
proof (induction "length rs - unat (umr_NextToRead s)" arbitrary: s rule: less_induct)
  case less
  let ?g = "GetSlot (id_at lay (ob_Pool (umr_Objects s))) (ucast (umr_NextToRead s)) (umr_ReceiveBuffer s)"
  show ?case
  proof (cases ?g)
    case None
    then show ?thesis using next_held[OF less.prems assms(3)] less.prems by (subst drain_ring.simps) simp
  next
    case (Some x)
    from drain_step[OF less.prems assms(2,3) Some] obtain q where
      q: "Producer_TryPush x (ob_Queue (umr_Objects s)) = (True, q)" "unat (umr_NextToRead s) < length rs"
        "unat (umr_NextToRead s + 1) = Suc (unat (umr_NextToRead s))"
      and inv: "rx_inv lay j rs (s \<lparr> umr_NextToRead := umr_NextToRead s + 1, umr_Objects := \<lparr> ob_Pool = ob_Pool (umr_Objects s), ob_Queue = q \<rparr> \<rparr>) log"
      (is "rx_inv lay j rs ?s log") by blast
    have "drain_ring lay s = drain_ring lay ?s" by (subst drain_ring.simps) (simp add: Some q(1))
    moreover have "held lay ?s = held lay s" by (auto simp: held_def)
    moreover have "length rs - unat (umr_NextToRead ?s) < length rs - unat (umr_NextToRead s)" using q(2,3) by simp
    ultimately show ?thesis using less.hyps[OF _ inv] q(3) by fastforce
  qed
qed

text \<open>A packet of the stream: the receiver returns, keeps the invariant, and hands on every message up to the
  first one it does not hold.\<close>

lemma receive_packet_inv:
  assumes inv: "rx_inv lay j rs s log" and st: "stream rs" "j < 32" and pkt: "carries lay rs ks pkt s"
  shows "\<exists>s'. receive_packet lay pkt s = Some s' \<and> rx_inv lay j rs s' log \<and> unat (umr_NextToRead s) \<le> unat (umr_NextToRead s') \<and>
    umr_DstIp s' = umr_DstIp s \<and> umr_DstPort s' = umr_DstPort s \<and> outbox_room (umr_Objects s) \<le> length ks + outbox_room (umr_Objects s') \<and>
    (length ks \<le> outbox_room (umr_Objects s) \<longrightarrow> ks = [unat (umr_NextToRead s)..<unat (umr_NextToRead s) + length ks] \<longrightarrow>
      unat (umr_NextToRead s) + length ks \<le> unat (umr_NextToRead s'))"
proof -
  let ?s = "fold (\<lambda>k. store_object lay (lay_encode lay (rs ! k))) ks s" and ?n = "unat (umr_NextToRead s)"
  have ks: "\<forall>k \<in> set ks. k < length rs \<and> k < ?n + 2 ^ j" using pkt rx_invD(4)[OF inv] by (simp add: carries_def)
  note S = store_objects_inv[OF inv st ks]
  from drain_ring_inv[OF conjunct1[OF S] st] S obtain s' where
    s': "drain_ring lay ?s = Some s'" "rx_inv lay j rs s' log" "?n \<le> unat (umr_NextToRead s')"
      "\<not> held lay s' (unat (umr_NextToRead s'))" "held lay s' = held lay ?s" "umr_DstIp s' = umr_DstIp s" "umr_DstPort s' = umr_DstPort s"
      "ob_Pool (umr_Objects s') = ob_Pool (umr_Objects ?s)" by auto
  have "receive_packet lay pkt s = Some s'"
    using pkt ks s'(1) st(1) by (simp add: carries_def receive_packet_taken store_objects_frames)
  moreover have "?n + length ks \<le> unat (umr_NextToRead s')"
    if "length ks \<le> outbox_room (umr_Objects s)" "ks = [?n..<?n + length ks]"
  proof (rule ccontr)
    assume "\<not> ?thesis"
    then have "unat (umr_NextToRead s') \<in> set ks" using s'(3) that(2) by (metis atLeastLessThan_iff not_le set_upt)
    then have "held lay ?s (unat (umr_NextToRead s'))" using S ks s'(3) that(1) by blast
    with s'(4,5) show False by simp
  qed
  moreover have "outbox_room (umr_Objects s) \<le> length ks + outbox_room (umr_Objects s')"
    using S s'(8) by (simp add: outbox_room_def)
  ultimately show ?thesis using s'(2,3,6,7) by blast
qed

text \<open>Every step keeps the invariant.\<close>

lemma consume_inv:
  assumes inv: "rx_inv lay j rs s log" and run: "TryConsume BatchSize (\<lambda>ms log. log @ ms) (umr_Objects s) log = Some (log', ob)"
  shows "rx_inv lay j rs (s \<lparr> umr_Objects := ob \<rparr>) log'"
proof -
  note I = rx_invD[OF inv] and F = TryConsume_frame[OF rx_invD(1)[OF inv] run]
  let ?n = "if BatchSize > 0 then BatchSize else 1" and ?ms = "outbox_msgs (umr_Objects s)"
  have r: "log' = (if ?ms = [] then log else log @ take ?n ?ms)" "outbox_inv ob" "outbox_msgs ob = drop ?n ?ms"
    using TryConsume_ok[OF I(1) refl, of BatchSize "\<lambda>ms log. log @ ms" log] run by (auto simp del: append.simps)
  have "log' @ outbox_msgs ob = log @ ?ms" using r by simp
  moreover have "pending_at lay rs ob x" if "pending_at lay rs (umr_Objects s) x" for x
    using that F by (auto simp: pending_at_def id_at_def)
  ultimately show ?thesis using I r(2) F(1) by (auto simp: rx_inv_def Let_def id_at_def)
qed

lemma rx_step_inv:
  assumes "rx_step lay BatchSize rs (s, log) (s', log')" "rx_inv lay j rs s log" "stream rs" "j < 32"
  shows "rx_inv lay j rs s' log'"
  using assms(1)
proof cases
  case (arrives ks pkt)
  with receive_packet_inv[OF assms(2-4), of ks pkt] show ?thesis by auto
next
  case (ignored pkt)
  with receive_packet_ignored[of pkt s lay] assms(2) show ?thesis by (auto simp: rx_inv_def Let_def)
next
  case (consumed ob)
  with consume_inv[OF assms(2)] show ?thesis by blast
qed

lemma rx_inv_init:
  assumes "outbox_inv ob" "outbox_msgs ob = []"
  shows "rx_inv lay j rs (UdpMulticastReceiver_init (2 ^ j) ip port ob) []"
  using assms by (auto simp: rx_inv_def UdpMulticastReceiver_init_def SequenceRingBuffer_init_def)

lemma rx_steps_inv:
  assumes "(rx_step lay BatchSize rs)\<^sup>*\<^sup>* (UdpMulticastReceiver_init (2 ^ j) ip port ob, []) (s, log)"
    "outbox_inv ob" "outbox_msgs ob = []" "stream rs" "j < 32"
  shows "rx_inv lay j rs s log"
  using assms(1)
proof (induction "(s, log)" arbitrary: s log rule: rtranclp_induct)
  case base
  then show ?case using rx_inv_init[OF assms(2,3)] by simp
next
  case (step y)
  then show ?case using rx_step_inv[OF _ _ assms(4,5)] by (cases y) blast
qed

text \<open>The invariant does not depend on what is emitted later.\<close>

lemma rx_inv_extend:
  assumes "rx_inv lay j rs s log"
  shows "rx_inv lay j (rs @ rs') s log"
proof -
  note I = rx_invD[OF assms]
  have "pending_at lay (rs @ rs') (umr_Objects s) x" if "pending_at lay rs (umr_Objects s) x" for x
    using that by (auto simp: pending_at_def nth_append)
  then show ?thesis using I by (auto simp: rx_inv_def Let_def)
qed

end

section \<open>A lost message\<close>

lemma store_object_waits:
  assumes "length (srb_Buffer (umr_ReceiveBuffer s)) = 2 ^ j" "j < 32" "lay_SequenceId lay (lay_decode lay bs) = of_nat k" "Suc k < 2 ^ 32"
    "i < 2 ^ 32" "i \<noteq> k" "\<not> held lay s i"
  defines "s' \<equiv> store_object lay bs s"
  shows "\<not> held lay s' i" "length (srb_Buffer (umr_ReceiveBuffer s')) = 2 ^ j" "umr_NextToRead s' = umr_NextToRead s"
    "ob_Queue (umr_Objects s') = ob_Queue (umr_Objects s)"
proof -
  let ?ob = "umr_Objects s" and ?r = "umr_ReceiveBuffer s"
  obtain a p where acq: "StoragePool_Acquire (ob_Pool ?ob) = (a, p)" by fastforce
  then have sp: "sp_Storage p = sp_Storage (ob_Pool ?ob)" using StoragePool_Storage(1)[of "ob_Pool ?ob"] by simp
  have "\<not> held lay s' i \<and> length (srb_Buffer (umr_ReceiveBuffer s')) = 2 ^ j \<and> umr_NextToRead s' = umr_NextToRead s \<and>
    ob_Queue (umr_Objects s') = ob_Queue ?ob"
  proof (cases a)
    case None
    then show ?thesis using acq sp assms(1,7) by (simp add: s'_def store_object_def Let_def held_def id_at_def)
  next
    case (Some x)
    let ?P = "store_msg x (lay_decode lay bs) p"
    have ids: "id_at lay ?P y = (if y = x then of_nat k else id_at lay (ob_Pool ?ob) y)" for y
      using sp assms(3) by (simp add: id_at_def)
    have idr: "id_at lay (snd (StoragePool_LocalRelease (Some x) ?P)) = id_at lay ?P"
      using StoragePool_Storage(3)[of "Some x" ?P] by (auto simp: id_at_def)
    have ne: "(of_nat k :: u32) \<noteq> of_nat i" using assms(4-6) by (auto simp: word_of_nat_eq_iff take_bit_nat_eq_self)
    have s': "s' = (case AddSlot (id_at lay ?P) x ?r of (added, r) \<Rightarrow> s \<lparr> umr_ReceiveBuffer := r,
        umr_Objects := ?ob \<lparr> ob_Pool := (if added then ?P else snd (StoragePool_LocalRelease (Some x) ?P)) \<rparr> \<rparr>)"
      using acq Some by (simp add: s'_def store_object_def Let_def)
    have "id_at lay ?P x = of_nat k" by (simp add: ids)
    from AddSlot_mod[OF assms(1,2), of "id_at lay ?P", OF this assms(4)] show ?thesis using assms(1,7) ne
      by (auto simp: s' held_def ids idr nth_list_update split: if_splits)
  qed
  then show "\<not> held lay s' i" "length (srb_Buffer (umr_ReceiveBuffer s')) = 2 ^ j" "umr_NextToRead s' = umr_NextToRead s"
    "ob_Queue (umr_Objects s') = ob_Queue (umr_Objects s)" by simp_all
qed

context sequenced
begin

text \<open>The packet carries messages of the stream other than \<open>i\<close>, or is not for the receiver.\<close>

definition without :: "nat \<Rightarrow> 'a list \<Rightarrow> 'b UdpMulticastReceiver \<Rightarrow> rx_packet \<Rightarrow> bool" where
  "without i rs s pkt \<longleftrightarrow> rx_payload pkt s = None \<or>
     (\<exists>ks. rx_payload pkt s = Some (concat (map (\<lambda>k. lay_encode lay (rs ! k)) ks)) \<and> i \<notin> set ks \<and> (\<forall>k \<in> set ks. k < length rs))"

lemma store_objects_waits:
  assumes "length (srb_Buffer (umr_ReceiveBuffer s)) = 2 ^ j" "\<forall>k \<in> set ks. k < length rs" "i \<notin> set ks" "\<not> held lay s i"
    "j < 32" "stream rs" "i < 2 ^ 32"
  defines "s' \<equiv> fold (\<lambda>k. store_object lay (lay_encode lay (rs ! k))) ks s"
  shows "\<not> held lay s' i \<and> length (srb_Buffer (umr_ReceiveBuffer s')) = 2 ^ j \<and> umr_NextToRead s' = umr_NextToRead s \<and>
    ob_Queue (umr_Objects s') = ob_Queue (umr_Objects s) \<and> umr_DstIp s' = umr_DstIp s \<and> umr_DstPort s' = umr_DstPort s"
  using assms(1-4) unfolding s'_def
proof (induction ks arbitrary: s)
  case Nil
  then show ?case by simp
next
  case (Cons k ks)
  have "lay_SequenceId lay (lay_decode lay (lay_encode lay (rs ! k))) = of_nat k" "Suc k < 2 ^ 32"
    using stream_id[OF assms(6), of k] decode_encode Cons.prems(2) assms(6) by (auto simp: stream_def)
  note 1 = store_object_waits[OF Cons.prems(1) assms(5) this assms(7) _ Cons.prems(4)]
  from Cons.IH[of "store_object lay (lay_encode lay (rs ! k)) s"] 1 Cons.prems(2,3) show ?case by (simp add: store_object_address)
qed

lemma Receive_waits:
  assumes "length (srb_Buffer (umr_ReceiveBuffer s)) = 2 ^ j" "j < 32" "stream rs" "\<not> held lay s (unat (umr_NextToRead s))"
    "\<forall>pkt \<in> set pkts. without (unat (umr_NextToRead s)) rs s pkt"
  shows "\<exists>s'. Receive lay pkts s = Some s' \<and> umr_NextToRead s' = umr_NextToRead s \<and> ob_Queue (umr_Objects s') = ob_Queue (umr_Objects s) \<and>
    \<not> held lay s' (unat (umr_NextToRead s'))"
  using assms(1,4,5)
proof (induction pkts arbitrary: s)
  case Nil
  then show ?case by simp
next
  case (Cons pkt pkts)
  let ?i = "unat (umr_NextToRead s)"
  have i: "?i < 2 ^ 32" by (rule order_less_le_trans[OF unsigned_less]) simp
  have step: "\<exists>s1. receive_packet lay pkt s = Some s1 \<and> umr_NextToRead s1 = umr_NextToRead s \<and> ob_Queue (umr_Objects s1) = ob_Queue (umr_Objects s) \<and>
    \<not> held lay s1 ?i \<and> length (srb_Buffer (umr_ReceiveBuffer s1)) = 2 ^ j \<and> umr_DstIp s1 = umr_DstIp s \<and> umr_DstPort s1 = umr_DstPort s"
  proof (cases "rx_payload pkt s")
    case None
    with receive_packet_ignored[of pkt s lay] Cons.prems show ?thesis by (auto simp: held_def)
  next
    case (Some payload)
    then obtain ks where ks: "payload = concat (map (\<lambda>k. lay_encode lay (rs ! k)) ks)" "?i \<notin> set ks" "\<forall>k \<in> set ks. k < length rs"
      using Cons.prems(3) by (auto simp: without_def)
    let ?s = "fold (\<lambda>k. store_object lay (lay_encode lay (rs ! k))) ks s"
    note S = store_objects_waits[OF Cons.prems(1) ks(3,2) Cons.prems(2) assms(2,3) i]
    have "GetSlot (id_at lay (ob_Pool (umr_Objects ?s))) (ucast (umr_NextToRead ?s)) (umr_ReceiveBuffer ?s) = None"
      using S unfolding GetSlot_mod[OF conjunct1[OF conjunct2[OF S]] assms(2)] by (auto simp: held_def split: option.splits)
    then have "drain_ring lay ?s = Some ?s" by (subst drain_ring.simps) simp
    then show ?thesis using S Some ks(1,3) by (simp add: receive_packet_taken store_objects_frames[OF assms(3)])
  qed
  then obtain s1 where s1: "receive_packet lay pkt s = Some s1" "umr_NextToRead s1 = umr_NextToRead s" "ob_Queue (umr_Objects s1) = ob_Queue (umr_Objects s)"
    "\<not> held lay s1 ?i" "length (srb_Buffer (umr_ReceiveBuffer s1)) = 2 ^ j" "umr_DstIp s1 = umr_DstIp s" "umr_DstPort s1 = umr_DstPort s" by blast
  have "rx_payload q s1 = rx_payload q s" for q using s1(6,7) by (simp add: rx_payload_def split: option.splits)
  then have "\<forall>q \<in> set pkts. without (unat (umr_NextToRead s1)) rs s1 q" using Cons.prems(3) s1(2) by (simp add: without_def)
  from Cons.IH[OF s1(5) _ this] s1 show ?case by simp
qed

end

end
