(* ===== verification/Market_Feed.thy ===== *)
theory Market_Feed
  imports Multicast_Props
begin

text \<open>
  The market data feed as a whole: the emitter's batches as packets, an ideal network between the two sides
  (\<open>feed\<close>), and the properties of the feed under loss, duplication and reordering.
\<close>

section \<open>The emitter and the receiver together\<close>

definition delivered_packet :: "frame \<Rightarrow> rx_packet" where
  "delivered_packet f = \<lparr> rx_NbSegs = 1, rx_IpCksumBad = False, rx_L4CksumBad = False, rx_Frame = Some f, rx_Beyond = [] \<rparr>"

text \<open>Batches are emitted, received and consumed one after the other.\<close>

fun feed ::
  "(frame \<Rightarrow> u16) \<Rightarrow> frame \<Rightarrow> 'a wire_layout \<Rightarrow> nat \<Rightarrow> nat \<Rightarrow> 'a list list \<Rightarrow> UdpMulticastEmitter \<Rightarrow> nic \<Rightarrow> 'a UdpMulticastReceiver \<Rightarrow> 'a list \<Rightarrow>
   (UdpMulticastEmitter \<times> nic \<times> 'a UdpMulticastReceiver \<times> 'a list) option" where
  "feed cksum blank lay EB RB [] e d s log = Some (e, d, s, log)"
| "feed cksum blank lay EB RB (batch # batches) e d s log =
     (case Send_batch cksum EB lay blank batch (e, d) of (e', d') \<Rightarrow> do {
        s \<leftarrow> Receive lay (map delivered_packet (drop (length (nic_Wire d)) (nic_Wire d'))) s;
        (log, ob) \<leftarrow> TryConsume RB (\<lambda>ms log. log @ ms) (umr_Objects s) log;
        feed cksum blank lay EB RB batches e' d' (s \<lparr> umr_Objects := ob \<rparr>) log })"

definition nic_quiet :: "nic \<Rightarrow> bool" where
  "nic_quiet d \<longleftrightarrow> nic_Allocs d = [] \<and> nic_Appends d = [] \<and> nic_Bursts d = []"

context sequenced
begin

lemma number_objects_from: "number_objects lay (of_nat n) xs = numbered_from n xs"
proof (induction xs arbitrary: n)
  case (Cons x xs)
  then show ?case using Cons.IH[of "Suc n"] by (simp add: add.commute)
qed simp

text \<open>A batch that fits in a packet leaves as one packet that names its group and carries its messages, numbered.\<close>

lemma Send_batch_one:
  assumes "buffer \<noteq> []" "length buffer \<le> ObjectsPerPacket lay" "0 < BatchSize" "nic_quiet d"
  shows "\<exists>f. Send_batch cksum BatchSize lay blank buffer (e, d) =
      (e \<lparr> ume_SequenceId := ume_SequenceId e + of_nat (length buffer) \<rparr>, d \<lparr> nic_Wire := nic_Wire d @ [f] \<rparr>) \<and>
    fr_Payload f = concat (map (lay_encode lay) (number_objects lay (ume_SequenceId e) buffer)) \<and>
    fr_EtherType f = RTE_ETHER_TYPE_IPV4 \<and> fr_NextProtoId f = IPPROTO_UDP \<and> fr_DstAddr f = ume_DstIp e \<and> fr_DstPort f = ume_DstPort e"
proof -
  have p: "0 < ObjectsPerPacket lay" using assms(1,2) by (cases buffer) auto
  have m: "0 < MaxPackets BatchSize lay"
    using assms(3) p by (cases "BatchSize < ObjectsPerPacket lay") (auto simp: MaxPackets_def div_greater_zero_iff)
  have l: "length (number_objects lay n xs) = length xs" for n xs by (induction xs arbitrary: n) simp_all
  show ?thesis using assms p m
    by (cases d) (simp add: Send_batch_def build_packets.simps[of _ _ _ _ buffer] build_packets.simps[of _ _ _ _ "[]"] nic_quiet_def
        rte_pktmbuf_alloc_def rte_pktmbuf_append_def rte_eth_tx_burst_def FillHeaders_def CopyPayload_def FillUdpHeader_def FillIpHeader_def
        FillEthernetHeader_def Let_def min_def l)
qed

lemma feed_step:
  assumes inv: "rx_inv lay j rs s rs" "length rs = unat (umr_NextToRead s)" and st: "stream (rs @ numbered_from (length rs) batch)" "j < 32"
    and b: "batch \<noteq> []" "length batch \<le> ObjectsPerPacket lay" "length batch \<le> RB" "length batch \<le> 2 ^ j" "length batch \<le> outbox_room (umr_Objects s)"
    and e: "0 < EB" "nic_quiet d" "ume_SequenceId e = umr_NextToRead s" "ume_DstIp e = umr_DstIp s" "ume_DstPort e = umr_DstPort s"
  defines "rs' \<equiv> rs @ numbered_from (length rs) batch"
  shows "\<exists>e' d' s1 s' ob. Send_batch cksum EB lay blank batch (e, d) = (e', d') \<and>
    Receive lay (map delivered_packet (drop (length (nic_Wire d)) (nic_Wire d'))) s = Some s1 \<and>
    TryConsume RB (\<lambda>ms log. log @ ms) (umr_Objects s1) rs = Some (rs', ob) \<and> s' = s1 \<lparr> umr_Objects := ob \<rparr> \<and>
    rx_inv lay j rs' s' rs' \<and> length rs' = unat (umr_NextToRead s') \<and> outbox_room (umr_Objects s) \<le> outbox_room (umr_Objects s') \<and>
    nic_quiet d' \<and> ume_SequenceId e' = umr_NextToRead s' \<and> ume_DstIp e' = umr_DstIp s' \<and> ume_DstPort e' = umr_DstPort s' \<and>
    umr_DstIp s' = umr_DstIp s \<and> umr_DstPort s' = umr_DstPort s"
proof -
  let ?n = "length rs" and ?m = "length batch"
  have n: "ume_SequenceId e = of_nat ?n" using e(3) inv(2) by simp
  from Send_batch_one[OF b(1,2) e(1,2), of cksum blank e] obtain f where
    f: "Send_batch cksum EB lay blank batch (e, d) = (e \<lparr> ume_SequenceId := ume_SequenceId e + of_nat ?m \<rparr>, d \<lparr> nic_Wire := nic_Wire d @ [f] \<rparr>)"
      "fr_Payload f = concat (map (lay_encode lay) (numbered_from ?n batch))" "fr_EtherType f = RTE_ETHER_TYPE_IPV4" "fr_NextProtoId f = IPPROTO_UDP"
      "fr_DstAddr f = umr_DstIp s" "fr_DstPort f = umr_DstPort s" using n e(4,5) by (auto simp: number_objects_from)
  have "map ((!) rs') [?n..<?n + ?m] = numbered_from ?n batch"
    by (rule nth_equalityI) (simp_all add: rs'_def nth_append)
  then have pay: "fr_Payload f = concat (map (\<lambda>k. lay_encode lay (rs' ! k)) [?n..<?n + ?m])"
    unfolding f(2) by (metis (no_types) map_map comp_def map_cong)
  have "carries lay rs' [?n..<?n + ?m] (delivered_packet f) s"
    using f(3-6) pay b(4) inv rx_invD(4)[OF inv(1)] by (auto simp: carries_def rx_payload_def delivered_packet_def rs'_def)
  from receive_packet_inv[OF rx_inv_extend[OF inv(1)] st this[unfolded rs'_def]] b(5) inv(2) obtain s1 where
    s1: "receive_packet lay (delivered_packet f) s = Some s1" "rx_inv lay j rs' s1 rs" "?n + ?m \<le> unat (umr_NextToRead s1)"
      "umr_DstIp s1 = umr_DstIp s" "umr_DstPort s1 = umr_DstPort s" "outbox_room (umr_Objects s) \<le> ?m + outbox_room (umr_Objects s1)"
    unfolding rs'_def by auto
  note I = rx_invD[OF s1(2)]
  have nx: "unat (umr_NextToRead s1) = ?n + ?m" using s1(3) I(3) by (simp add: rs'_def)
  then have ms: "outbox_msgs (umr_Objects s1) = numbered_from ?n batch" using I(2) by (simp add: rs'_def)
  have RB: "0 < RB" using b(1,3) by (cases batch) auto
  have len: "length (numbered_from ?n batch) = ?m" "numbered_from ?n batch \<noteq> []" "take RB (numbered_from ?n batch) = numbered_from ?n batch" "min RB ?m = ?m"
    using b(1,3) by (auto simp: min_def simp flip: length_greater_0_conv)
  from TryConsume_ok[OF I(1) refl, of RB "\<lambda>ms log. log @ ms" rs] obtain ob where
    ob: "TryConsume RB (\<lambda>ms log. log @ ms) (umr_Objects s1) rs = Some (rs', ob)" "outbox_inv ob" "outbox_room ob = outbox_room (umr_Objects s1) + ?m"
    unfolding ms rs'_def using RB len by auto
  have "rx_inv lay j rs' (s1 \<lparr> umr_Objects := ob \<rparr>) rs'" using consume_inv[OF s1(2) ob(1)] .
  moreover have "ume_SequenceId e + of_nat ?m = umr_NextToRead s1"
    using arg_cong[OF nx, of "of_nat :: nat \<Rightarrow> u32"] n by simp
  ultimately show ?thesis using f(1) s1 ob nx e by (simp add: nic_quiet_def rs'_def)
qed

lemma feed_ok:
  assumes "rx_inv lay j rs s rs" "length rs = unat (umr_NextToRead s)" "stream (rs @ numbered_from (length rs) (concat batches))" "j < 32"
    "\<forall>b \<in> set batches. b \<noteq> [] \<and> length b \<le> ObjectsPerPacket lay \<and> length b \<le> RB \<and> length b \<le> 2 ^ j \<and> length b \<le> outbox_room (umr_Objects s)"
    "0 < EB" "nic_quiet d" "ume_SequenceId e = umr_NextToRead s" "ume_DstIp e = umr_DstIp s" "ume_DstPort e = umr_DstPort s"
  shows "\<exists>e' d' s'. feed cksum blank lay EB RB batches e d s rs = Some (e', d', s', rs @ numbered_from (length rs) (concat batches))"
  using assms(1-3,5,7-10)
proof (induction batches arbitrary: rs s e d)
  case Nil
  then show ?case by simp
next
  case (Cons b batches)
  let ?rs = "rs @ numbered_from (length rs) b"
  have e: "rs @ numbered_from (length rs) (concat (b # batches)) = ?rs @ numbered_from (length ?rs) (concat batches)"
    by (simp add: numbered_from_append)
  have st: "stream ?rs" using Cons.prems(3) unfolding e by (rule stream_appendD)
  have b: "b \<noteq> []" "length b \<le> ObjectsPerPacket lay" "length b \<le> RB" "length b \<le> 2 ^ j" "length b \<le> outbox_room (umr_Objects s)"
    using Cons.prems(4) by simp_all
  from feed_step[OF Cons.prems(1,2) st assms(4) b assms(6) Cons.prems(5-8), of cksum blank] obtain e' d' s1 s' ob where
    1: "Send_batch cksum EB lay blank b (e, d) = (e', d')"
      "Receive lay (map delivered_packet (drop (length (nic_Wire d)) (nic_Wire d'))) s = Some s1"
      "TryConsume RB (\<lambda>ms log. log @ ms) (umr_Objects s1) rs = Some (?rs, ob)" "s' = s1 \<lparr> umr_Objects := ob \<rparr>"
    and 2: "rx_inv lay j ?rs s' ?rs" "length ?rs = unat (umr_NextToRead s')" "outbox_room (umr_Objects s) \<le> outbox_room (umr_Objects s')"
      "nic_quiet d'" "ume_SequenceId e' = umr_NextToRead s'" "ume_DstIp e' = umr_DstIp s'" "ume_DstPort e' = umr_DstPort s'" by blast
  have "\<forall>b \<in> set batches. b \<noteq> [] \<and> length b \<le> ObjectsPerPacket lay \<and> length b \<le> RB \<and> length b \<le> 2 ^ j \<and> length b \<le> outbox_room (umr_Objects s')"
    using Cons.prems(4) 2(3) by auto
  from Cons.IH[OF 2(1,2) _ this 2(4-7)] Cons.prems(3) 1 show ?case unfolding e by auto
qed

end

section \<open>The receiver always returns\<close>

text \<open>The slot of the \<open>k\<close>-th number after the next one holds that number.\<close>

definition ready :: "'a wire_layout \<Rightarrow> 'a UdpMulticastReceiver \<Rightarrow> nat \<Rightarrow> bool" where
  "ready lay s k \<longleftrightarrow> GetSlot (id_at lay (ob_Pool (umr_Objects s))) (ucast (umr_NextToRead s + of_nat k)) (umr_ReceiveBuffer s) \<noteq> None"

lemma release_storage: "sp_Storage (snd (StoragePool_LocalRelease x p)) = sp_Storage p"
  by (simp add: StoragePool_LocalRelease_def Let_def split: option.splits prod.splits)

lemma drain_ring_returns_before: "\<not> ready lay s k \<Longrightarrow> \<exists>s'. drain_ring lay s = Some s' \<and> umr_ReceiveBuffer s' = umr_ReceiveBuffer s"
proof (induction k arbitrary: s)
  case 0
  then show ?case by (subst drain_ring.simps) (simp add: ready_def)
next
  case (Suc k)
  show ?case
  proof (cases "GetSlot (id_at lay (ob_Pool (umr_Objects s))) (ucast (umr_NextToRead s)) (umr_ReceiveBuffer s)")
    case None
    then show ?thesis by (subst drain_ring.simps) simp
  next
    case (Some x)
    obtain pushed q where q: "Producer_TryPush x (ob_Queue (umr_Objects s)) = (pushed, q)" by fastforce
    let ?p = "if pushed then ob_Pool (umr_Objects s) else snd (StoragePool_LocalRelease (Some x) (ob_Pool (umr_Objects s)))"
    let ?s = "s \<lparr> umr_NextToRead := umr_NextToRead s + 1, umr_Objects := \<lparr> ob_Pool = ?p, ob_Queue = q \<rparr> \<rparr>"
    have "id_at lay ?p = id_at lay (ob_Pool (umr_Objects s))" using release_storage by (auto simp: id_at_def fun_eq_iff)
    then have "\<not> ready lay ?s k" using Suc.prems by (simp add: ready_def add.assoc)
    from Suc.IH[OF this] show ?thesis using Some q by (subst drain_ring.simps) (simp add: Let_def)
  qed
qed

lemma drain_ring_returns:
  assumes "length (srb_Buffer (umr_ReceiveBuffer s)) = 2 ^ j" "j < 32"
  shows "\<exists>s'. drain_ring lay s = Some s' \<and> umr_ReceiveBuffer s' = umr_ReceiveBuffer s"
proof -
  let ?n = "umr_NextToRead s"
  have "(2 :: nat) ^ j < 2 ^ 32" using assms(2) by (intro power_strict_increasing) simp_all
  then have "(of_nat (2 ^ j) :: u32) \<noteq> 0" by (simp only: word_of_nat_eq_0_iff) (auto dest: nat_dvd_not_less[rotated])
  then have ne: "?n + of_nat (2 ^ j) \<noteq> ?n" by simp
  have "?n + of_nat (2 ^ j) = of_nat (unat ?n + 2 ^ j)" by (simp only: of_nat_add of_nat_unat ucast_id)
  then have "unat (?n + of_nat (2 ^ j)) = (unat ?n + 2 ^ j) mod 2 ^ LENGTH(32)" by (simp only: unat_of_nat)
  moreover have "(2 :: nat) ^ j dvd 2 ^ LENGTH(32)" using assms(2) by (intro le_imp_power_dvd) simp
  ultimately have "unat (?n + of_nat (2 ^ j)) mod 2 ^ j = (unat ?n + 2 ^ j) mod 2 ^ j" by (simp only: mod_mod_cancel)
  then have "\<not> (ready lay s 0 \<and> ready lay s (2 ^ j))"
    using ne unfolding ready_def GetSlot_mod[OF assms] by (auto split: option.splits if_splits)
  then show ?thesis using drain_ring_returns_before by blast
qed

lemma store_objects_ring: "length (srb_Buffer (umr_ReceiveBuffer (store_objects lay payload beyond s))) = length (srb_Buffer (umr_ReceiveBuffer s))"
proof (induction lay payload beyond s rule: store_objects.induct)
  case (1 lay payload beyond s)
  have one: "length (srb_Buffer (umr_ReceiveBuffer (store_object lay bs s))) = length (srb_Buffer (umr_ReceiveBuffer s))" for bs
    by (simp add: store_object_def AddSlot_def Let_def split: prod.splits option.splits)
  then show ?case using 1 by (subst store_objects.simps) simp
qed

lemma Receive_returns:
  assumes "length (srb_Buffer (umr_ReceiveBuffer s)) = 2 ^ j" "j < 32"
  shows "\<exists>s'. Receive lay pkts s = Some s' \<and> length (srb_Buffer (umr_ReceiveBuffer s')) = 2 ^ j"
  using assms(1)
proof (induction pkts arbitrary: s)
  case (Cons pkt pkts)
  have "\<exists>s1. receive_packet lay pkt s = Some s1 \<and> length (srb_Buffer (umr_ReceiveBuffer s1)) = 2 ^ j"
  proof (cases "rx_Frame pkt")
    case (Some f)
    have "length (srb_Buffer (umr_ReceiveBuffer (store_objects lay (fr_Payload f) (rx_Beyond pkt) s))) = 2 ^ j"
      using Cons.prems store_objects_ring by metis
    from drain_ring_returns[OF this assms(2), of lay] this show ?thesis using Cons.prems Some by (auto simp: receive_packet_def)
  qed (use Cons.prems in \<open>auto simp: receive_packet_def\<close>)
  with Cons.IH show ?case by fastforce
qed simp

section \<open>Properties\<close>

definition sample_reports :: "OrderStateReport list" where
  "sample_reports = [FillReport 5 (- 50) 0 0 1 10 0 1 0 FILL, FillReport 50 (- 5) (- 5) 1 2 11 0 0 1 PARTIAL_FILL]"

definition sample_frame :: "u8 list \<Rightarrow> frame" where
  "sample_frame payload = \<lparr> fr_DstMac = ipv4_multicast_to_mac 7, fr_SrcMac = replicate 6 0, fr_EtherType = RTE_ETHER_TYPE_IPV4, fr_VersionIhl = 0x45,
     fr_TypeOfService = 0, fr_TotalLength = 0, fr_PacketId = 0, fr_FragmentOffset = 0, fr_TimeToLive = 1, fr_NextProtoId = IPPROTO_UDP, fr_HdrChecksum = 0,
     fr_SrcAddr = 1, fr_DstAddr = 7, fr_SrcPort = 1, fr_DstPort = 9, fr_DgramLen = 0, fr_DgramCksum = 0, fr_Payload = payload \<rparr>"

definition sample_nic :: nic where
  "sample_nic = \<lparr> nic_Allocs = [], nic_Appends = [], nic_Bursts = [], nic_Wire = [] \<rparr>"

lemma sample_stream: "report_wire.stream sample_reports"
  unfolding report_wire.stream_def
  by (auto simp: sample_reports_def FillReport_def wire_report_def in_i64_def OrderState_of_def report_layout_def less_Suc_eq nth_Cons')

lemma sample_packet: "rx_payload (delivered_packet (sample_frame bs)) (UdpMulticastReceiver_init n 7 9 ob) = Some bs"
  by (simp add: rx_payload_def delivered_packet_def sample_frame_def UdpMulticastReceiver_init_def)

lemma sample_carries:
  "carries report_layout sample_reports [1] (delivered_packet (sample_frame (encode_OrderStateReport (sample_reports ! 1)))) (UdpMulticastReceiver_init (2 ^ 2) 7 9 ob)"
  by (simp add: carries_def sample_packet report_layout_def)
    (simp add: sample_reports_def UdpMulticastReceiver_init_def SequenceRingBuffer_init_def)

text \<open>C12. The feed is safe under loss, duplication and reordering: whatever packets of the emitted stream arrive, in any
  order and any number of times, together with packets that are not for the receiver and with turns of the consuming
  thread, what was consumed followed by what is queued is exactly a prefix of the emitted reports, in order and
  without gaps or repetitions (no report may be further ahead of the next one to read than the ring is long).
  The receiver returns from every such packet, and a packet with the next reports in order is handed on whole when
  the pool has objects for it.\<close>

theorem feed_delivers_emitted_prefix:
  assumes "report_wire.stream rs" "j < 32" "outbox_inv ob" "outbox_msgs ob = []"
    and "(rx_step report_layout BatchSize rs)\<^sup>*\<^sup>* (UdpMulticastReceiver_init (2 ^ j) dstIp dstPort ob, []) (s, log)"
  shows "log @ outbox_msgs (umr_Objects s) = take (unat (umr_NextToRead s)) rs \<and>
    (\<forall>ks pkt. carries report_layout rs ks pkt s \<longrightarrow>
      (\<exists>s'. receive_packet report_layout pkt s = Some s' \<and>
        (ks = [unat (umr_NextToRead s)..<unat (umr_NextToRead s) + length ks] \<and> length ks \<le> outbox_room (umr_Objects s) \<longrightarrow>
         unat (umr_NextToRead s) + length ks \<le> unat (umr_NextToRead s'))))"
proof -
  have inv: "rx_inv report_layout j rs s log" using report_wire.rx_steps_inv[OF assms(5,3,4,1,2)] .
  have "\<exists>s'. receive_packet report_layout pkt s = Some s' \<and>
      (ks = [unat (umr_NextToRead s)..<unat (umr_NextToRead s) + length ks] \<and> length ks \<le> outbox_room (umr_Objects s) \<longrightarrow>
       unat (umr_NextToRead s) + length ks \<le> unat (umr_NextToRead s'))" if "carries report_layout rs ks pkt s" for ks pkt
    using report_wire.receive_packet_inv[OF inv assms(1,2) that] by blast
  with rx_invD(2)[OF inv] show ?thesis by blast
qed

theorem feed_delivers_emitted_prefix_witness:
  "\<exists>ob s. fresh_outbox (2 ^ 2) (sample_reports ! 0) = Some ob \<and>
     receive_packet report_layout (delivered_packet (sample_frame (encode_OrderStateReport (sample_reports ! 1))))
       (UdpMulticastReceiver_init (2 ^ 2) 7 9 ob) = Some s \<and>
     [] @ outbox_msgs (umr_Objects s) = take (unat (umr_NextToRead s)) sample_reports"
proof -
  obtain ob where ob: "fresh_outbox (2 ^ 2) (sample_reports ! 0) = Some ob" "outbox_inv ob" "outbox_msgs ob = []"
    using fresh_outbox_ok[of 2 "sample_reports ! 0"] by auto
  have j: "(2 :: nat) < 32" by simp
  from report_wire.receive_packet_inv[OF report_wire.rx_inv_init[OF ob(2,3)] sample_stream j sample_carries] obtain s where
    s: "receive_packet report_layout (delivered_packet (sample_frame (encode_OrderStateReport (sample_reports ! 1))))
       (UdpMulticastReceiver_init (2 ^ 2) 7 9 ob) = Some s" by blast
  have "rx_step report_layout 1 sample_reports (UdpMulticastReceiver_init (2 ^ 2) 7 9 ob, []) (s, [])"
    using rx_step.arrives[OF sample_carries s] .
  from feed_delivers_emitted_prefix[OF sample_stream j ob(2,3) r_into_rtranclp[of "rx_step report_layout 1 sample_reports", OF this]] ob(1) s
  show ?thesis by blast
qed

text \<open>C13. Over a network that loses nothing the feed is lossless: reports handed to the emitter in batches of at most 16
  come out of the receiver's queue complete and in order, with the sequence numbers \<open>0, 1, 2, \<dots>\<close> and otherwise
  unchanged, for any number of batches up to the range of the sequence number.\<close>

theorem feed_roundtrip:
  assumes "\<forall>b \<in> set batches. b \<noteq> [] \<and> length b \<le> MeOrderStateBatchSize \<and> (\<forall>r \<in> set b. wire_report r)" "length (concat batches) < 2 ^ 32"
    and "outbox_inv ob" "outbox_msgs ob = []" "16 \<le> outbox_room ob" "4 \<le> j" "j < 32" "nic_quiet d"
  shows "\<exists>e' d' s'. feed cksum blank report_layout MeOrderStateBatchSize TradeReportReceiveBatchSize batches
      (UdpMulticastEmitter_init mac srcIp dstIp srcPort dstPort) d (UdpMulticastReceiver_init (2 ^ j) dstIp dstPort ob) [] =
    Some (e', d', s', number_objects report_layout 0 (concat batches))"
proof -
  let ?s = "UdpMulticastReceiver_init (2 ^ j) dstIp dstPort ob" and ?e = "UdpMulticastEmitter_init mac srcIp dstIp srcPort dstPort"
  have ok: "\<forall>r \<in> set (concat batches). wire_report r" using assms(1) by auto
  have "(2 :: nat) ^ 4 \<le> 2 ^ j" using assms(6) by (intro power_increasing) simp_all
  then have b: "\<forall>b \<in> set batches. b \<noteq> [] \<and> length b \<le> ObjectsPerPacket report_layout \<and> length b \<le> TradeReportReceiveBatchSize \<and> length b \<le> 2 ^ j \<and>
      length b \<le> outbox_room (umr_Objects ?s)"
    using assms(1,5) by (auto simp: ObjectsPerPacket_def MTU_def sizeof_ipv4_hdr_def sizeof_udp_hdr_def report_layout_def sizeof_OrderStateReport_def
        TradeReportReceiveBatchSize_def MeOrderStateBatchSize_def UdpMulticastReceiver_init_def)
  have "report_wire.stream ([] @ report_wire.numbered_from (length []) (concat batches))"
    using report_wire.stream_numbered[OF ok assms(2)] by simp
  from report_wire.feed_ok[OF report_wire.rx_inv_init[OF assms(3,4)] _ this assms(7) b, of MeOrderStateBatchSize d ?e] assms(8)
  show ?thesis using report_wire.number_objects_from[of 0 "concat batches"]
    by (simp add: UdpMulticastReceiver_init_def UdpMulticastEmitter_init_def MeOrderStateBatchSize_def)
qed

theorem feed_roundtrip_witness:
  "\<exists>ob e' d' s'. fresh_outbox (2 ^ 4) (sample_reports ! 0) = Some ob \<and>
     feed (\<lambda>_. 0) (sample_frame []) report_layout MeOrderStateBatchSize TradeReportReceiveBatchSize [sample_reports, sample_reports]
       (UdpMulticastEmitter_init (replicate 6 0) 1 7 1 9) sample_nic (UdpMulticastReceiver_init (2 ^ 4) 7 9 ob) [] =
     Some (e', d', s', number_objects report_layout 0 (sample_reports @ sample_reports))"
proof -
  obtain ob where ob: "fresh_outbox (2 ^ 4) (sample_reports ! 0) = Some ob" "outbox_inv ob" "outbox_msgs ob = []" "16 \<le> outbox_room ob"
    using fresh_outbox_ok[of 4 "sample_reports ! 0"] by auto
  have b: "\<forall>b \<in> set [sample_reports, sample_reports]. b \<noteq> [] \<and> length b \<le> MeOrderStateBatchSize \<and> (\<forall>r \<in> set b. wire_report r)"
    "length (concat [sample_reports, sample_reports]) < 2 ^ 32" "nic_quiet sample_nic"
    by (simp_all add: sample_reports_def MeOrderStateBatchSize_def FillReport_def wire_report_def in_i64_def OrderState_of_def nic_quiet_def sample_nic_def)
  from feed_roundtrip[OF b(1,2) ob(2-4) _ _ b(3), of 4 "\<lambda>_. 0" "sample_frame []" "replicate 6 0" 1 7 1 9] ob(1) show ?thesis by simp
qed

text \<open>A lost report stops the feed for good: once the receiver waits for a report that no later packet carries, no
  packet makes it hand on anything any more, whatever the packets carry: it returns with the same next sequence number and
  the same queue.\<close>

theorem lost_report_stalls_feed:
  assumes "report_wire.stream rs" "j < 32" "length (srb_Buffer (umr_ReceiveBuffer s)) = 2 ^ j"
    and "GetSlot (id_at report_layout (ob_Pool (umr_Objects s))) (ucast (umr_NextToRead s)) (umr_ReceiveBuffer s) = None"
    and "\<forall>pkt \<in> set pkts. rx_payload pkt s = None \<or>
      (\<exists>ks. rx_payload pkt s = Some (concat (map (\<lambda>k. encode_OrderStateReport (rs ! k)) ks)) \<and> unat (umr_NextToRead s) \<notin> set ks \<and> (\<forall>k \<in> set ks. k < length rs))"
  shows "\<exists>s'. Receive report_layout pkts s = Some s' \<and> umr_NextToRead s' = umr_NextToRead s \<and> ob_Queue (umr_Objects s') = ob_Queue (umr_Objects s)"
proof -
  have "\<not> held report_layout s (unat (umr_NextToRead s))"
    using assms(4) unfolding GetSlot_mod[OF assms(3,2)] by (auto simp: held_def assms(3) split: option.splits if_splits)
  moreover have "\<forall>pkt \<in> set pkts. report_wire.without (unat (umr_NextToRead s)) rs s pkt"
    using assms(5) unfolding report_wire.without_def by (simp add: report_layout_def)
  ultimately show ?thesis using report_wire.Receive_waits[OF assms(3,2,1)] by blast
qed

theorem lost_report_stalls_feed_witness:
  "\<exists>ob s. fresh_outbox (2 ^ 2) (sample_reports ! 0) = Some ob \<and>
     Receive report_layout [delivered_packet (sample_frame (encode_OrderStateReport (sample_reports ! 1)))] (UdpMulticastReceiver_init (2 ^ 2) 7 9 ob) = Some s \<and>
     umr_NextToRead s = 0 \<and> ob_Queue (umr_Objects s) = ob_Queue ob"
proof -
  obtain ob where ob: "fresh_outbox (2 ^ 2) (sample_reports ! 0) = Some ob" using fresh_outbox_ok[of 2 "sample_reports ! 0"] by auto
  let ?s = "UdpMulticastReceiver_init (2 ^ 2) 7 9 ob" and ?pkt = "delivered_packet (sample_frame (encode_OrderStateReport (sample_reports ! 1)))"
  have s: "length (srb_Buffer (umr_ReceiveBuffer ?s)) = 2 ^ 2" "umr_NextToRead ?s = 0" "umr_Objects ?s = ob"
    "GetSlot (id_at report_layout (ob_Pool (umr_Objects ?s))) (ucast (umr_NextToRead ?s)) (umr_ReceiveBuffer ?s) = None"
    by (simp_all add: UdpMulticastReceiver_init_def SequenceRingBuffer_init_def GetSlot_def)
  have "\<forall>pkt \<in> set [?pkt]. rx_payload pkt ?s = None \<or> (\<exists>ks. rx_payload pkt ?s = Some (concat (map (\<lambda>k. encode_OrderStateReport (sample_reports ! k)) ks)) \<and>
      unat (umr_NextToRead ?s) \<notin> set ks \<and> (\<forall>k \<in> set ks. k < length sample_reports))"
    using s(2) by (simp add: sample_packet del: One_nat_def) (rule exI[of _ "[1]"], simp add: sample_reports_def)
  from lost_report_stalls_feed[OF sample_stream _ s(1,4) this] ob s(2,3) show ?thesis by auto
qed

text \<open>C14. The receiver returns from every call, whatever arrives: for any packets, also ones with garbage or hostile
  sequence numbers, and any state of the queue and the pool, the loop that hands on reports ends (after at most as many turns as the
  ring has slots) and leaves a ring of the same size.\<close>

theorem receiver_always_returns:
  assumes "length (srb_Buffer (umr_ReceiveBuffer s)) = 2 ^ j" "j < 32"
  shows "\<exists>s'. Receive report_layout pkts s = Some s' \<and> length (srb_Buffer (umr_ReceiveBuffer s')) = 2 ^ j"
  using Receive_returns[OF assms] .

theorem receiver_always_returns_witness:
  "\<exists>ob s. fresh_outbox (2 ^ 2) (sample_reports ! 0) = Some ob \<and>
     Receive report_layout [delivered_packet (sample_frame (replicate 48 255))] (UdpMulticastReceiver_init (2 ^ 2) 7 9 ob) = Some s"
proof -
  obtain ob where ob: "fresh_outbox (2 ^ 2) (sample_reports ! 0) = Some ob" using fresh_outbox_ok[of 2 "sample_reports ! 0"] by auto
  have "length (srb_Buffer (umr_ReceiveBuffer (UdpMulticastReceiver_init (2 ^ 2) 7 9 ob))) = 2 ^ 2"
    by (simp add: UdpMulticastReceiver_init_def SequenceRingBuffer_init_def)
  from receiver_always_returns[OF this, of "[delivered_packet (sample_frame (replicate 48 255))]"] ob show ?thesis by auto
qed

end
