(* ===== verification/Ordered_Map.thy ===== *)
theory Ordered_Map
  imports Prelude
begin

text \<open>
  \<open>std::map\<close> where its iteration order matters: the entries in iteration order, a list of pairs sorted by the
  comparator the map is declared with (\<open>std::less\<close> or \<open>std::greater\<close>).  The locale \<open>map_order\<close> states what the
  comparator must be; its lemmas give the map operations by the finite map they denote.
\<close>

section \<open>Operations\<close>

fun om_assign :: "('k \<Rightarrow> 'k \<Rightarrow> bool) \<Rightarrow> 'k \<Rightarrow> 'v \<Rightarrow> ('k \<times> 'v) list \<Rightarrow> ('k \<times> 'v) list" where
  "om_assign lt k v [] = [(k, v)]"
| "om_assign lt k v ((a, b) # m) =
     (if lt k a then (k, v) # (a, b) # m else if lt a k then (a, b) # om_assign lt k v m else (a, v) # m)"

fun om_erase :: "('k \<Rightarrow> 'k \<Rightarrow> bool) \<Rightarrow> 'k \<Rightarrow> ('k \<times> 'v) list \<Rightarrow> ('k \<times> 'v) list" where
  "om_erase lt k [] = []"
| "om_erase lt k ((a, b) # m) = (if lt k a then (a, b) # m else if lt a k then (a, b) # om_erase lt k m else m)"

fun om_find :: "('k \<Rightarrow> 'k \<Rightarrow> bool) \<Rightarrow> 'k \<Rightarrow> ('k \<times> 'v) list \<Rightarrow> 'v option" where
  "om_find lt k [] = None"
| "om_find lt k ((a, b) # m) = (if lt k a then None else if lt a k then om_find lt k m else Some b)"

section \<open>The contract\<close>

locale map_order =
  fixes lt :: "'k \<Rightarrow> 'k \<Rightarrow> bool"
  assumes irrefl: "\<not> lt a a" and trans: "lt a b \<Longrightarrow> lt b c \<Longrightarrow> lt a c" and total: "a \<noteq> b \<Longrightarrow> lt a b \<or> lt b a"
begin

definition sorted_map :: "('k \<times> 'v) list \<Rightarrow> bool" where
  "sorted_map m \<longleftrightarrow> sorted_wrt lt (map fst m)"

lemma sorted_map_simps [simp]:
  "sorted_map []" "sorted_map ((a, b) # m) \<longleftrightarrow> (\<forall>x \<in> set m. lt a (fst x)) \<and> sorted_map m"
  by (auto simp: sorted_map_def)

lemma asym: "lt a b \<Longrightarrow> \<not> lt b a"
  using irrefl[of a] trans[of a b a] by blast

text \<open>How a key compares with the first entry, and what that says of the later ones.\<close>

lemma compare_first:
  assumes "sorted_map ((a, b) # m)"
  obtains (before) "lt k a" "k \<noteq> a" "map_of m k = None" "\<forall>x \<in> set m. lt k (fst x)"
  | (after) "lt a k" "\<not> lt k a" "k \<noteq> a"
  | (same) "k = a" "\<not> lt a a" "map_of m a = None"
proof -
  have later: "lt a (fst x)" if "x \<in> set m" for x using assms that by simp
  show thesis
  proof (cases "lt k a")
    case True
    have all: "\<forall>x \<in> set m. lt k (fst x)" using True later trans by blast
    then have "map_of m k = None" using irrefl[of k] by (force simp: map_of_eq_None_iff)
    then show thesis using True all before irrefl[of k] by metis
  next
    case False
    show thesis
    proof (cases "k = a")
      case True
      have "map_of m a = None" using later irrefl[of a] by (force simp: map_of_eq_None_iff)
      then show thesis using True same irrefl[of a] by metis
    next
      case ne: False
      then show thesis using False after total[of k a] by metis
    qed
  qed
qed

lemma find_map_of: "sorted_map m \<Longrightarrow> om_find lt k m = map_of m k"
proof (induction m)
  case (Cons p m)
  obtain a b where p: "p = (a, b)" by fastforce
  show ?case using Cons.prems[unfolded p] by (cases rule: compare_first[of a b m k]) (use Cons p in auto)
qed simp

lemma keys_assign: "x \<in> set (om_assign lt k v m) \<Longrightarrow> fst x = k \<or> fst x \<in> fst ` set m"
  by (induction m) (auto split: if_splits)

lemma keys_erase: "x \<in> set (om_erase lt k m) \<Longrightarrow> x \<in> set m"
  by (induction m) (auto split: if_splits)

lemma assign_sorted: "sorted_map m \<Longrightarrow> sorted_map (om_assign lt k v m)"
proof (induction m)
  case (Cons p m)
  obtain a b where p: "p = (a, b)" by fastforce
  have ins: "\<forall>x \<in> set (om_assign lt k v m). lt a (fst x)" if "lt a k"
    using that Cons.prems keys_assign[of _ k v m] by (force simp: p)
  show ?case using Cons.prems[unfolded p] by (cases rule: compare_first[of a b m k]) (use Cons ins p in auto)
qed simp

lemma erase_sorted: "sorted_map m \<Longrightarrow> sorted_map (om_erase lt k m)"
proof (induction m)
  case (Cons p m)
  obtain a b where p: "p = (a, b)" by fastforce
  have rest: "\<forall>x \<in> set (om_erase lt k m). lt a (fst x)" using Cons.prems keys_erase[of _ k m] by (force simp: p)
  show ?case using Cons.prems[unfolded p] by (cases rule: compare_first[of a b m k]) (use Cons rest p in auto)
qed simp

lemma map_of_assign: "sorted_map m \<Longrightarrow> map_of (om_assign lt k v m) = (map_of m)(k \<mapsto> v)"
proof (induction m)
  case (Cons p m)
  obtain a b where p: "p = (a, b)" by fastforce
  show ?case using Cons.prems[unfolded p]
    by (cases rule: compare_first[of a b m k]) (use Cons p in \<open>auto simp: fun_eq_iff\<close>)
qed simp

lemma map_of_erase: "sorted_map m \<Longrightarrow> map_of (om_erase lt k m) = (map_of m)(k := None)"
proof (induction m)
  case (Cons p m)
  obtain a b where p: "p = (a, b)" by fastforce
  show ?case using Cons.prems[unfolded p]
    by (cases rule: compare_first[of a b m k]) (use Cons p in \<open>auto simp: fun_eq_iff\<close>)
qed simp

text \<open>The first entry has the first key.\<close>

lemma first_key:
  assumes "sorted_map m" "map_of m k \<noteq> None"
  shows "m \<noteq> [] \<and> map_of m (fst (hd m)) \<noteq> None \<and> (k = fst (hd m) \<or> lt (fst (hd m)) k)"
proof -
  from assms(2) obtain a b m' where m: "m = (a, b) # m'" by (cases m) auto
  have "k = a \<or> lt a k"
    using assms by (force simp: m dest: map_of_SomeD split: if_splits)
  then show ?thesis by (simp add: m)
qed

end

interpretation ascending: map_order "(<) :: int \<Rightarrow> int \<Rightarrow> bool"
  by unfold_locales auto

interpretation descending: map_order "(>) :: int \<Rightarrow> int \<Rightarrow> bool"
  by unfold_locales auto

end
