(* ===== verification/Service_Discovery.thy ===== *)
theory Service_Discovery
  imports Prelude
begin

text \<open>
  How the dashboard learns where the services are (\<open>market_client/include/etcd_watcher.hpp\<close>) and the queue its
  threads hand messages over (\<open>mpsc_queue.hpp\<close>).  The etcd client and the JSON library are not part of the
  sources: a response of the former is the data the code reads from it, and the latter is an argument (\<open>json_api\<close>)
  whose calls may throw.
\<close>

section \<open>The queue between the threads\<close>

text \<open>Both ends lock the same mutex, so a queue is a list and every operation one step on it.\<close>

type_synonym 'a MpscQueue = "'a list"

definition mpsc_push :: "'a \<Rightarrow> 'a MpscQueue \<Rightarrow> 'a MpscQueue" where
  "mpsc_push item q = q @ [item]"

fun mpsc_drain :: "'a list \<Rightarrow> 'a MpscQueue \<Rightarrow> 'a list \<times> 'a MpscQueue" where
  "mpsc_drain out [] = (out, [])"
| "mpsc_drain out (x # q) = mpsc_drain (out @ [x]) q"

definition mpsc_drain_all :: "'a MpscQueue \<Rightarrow> 'a list \<times> 'a MpscQueue" where
  "mpsc_drain_all q = mpsc_drain [] q"

definition mpsc_try_pop :: "'a MpscQueue \<Rightarrow> 'a option \<times> 'a MpscQueue" where
  "mpsc_try_pop q = (case q of [] \<Rightarrow> (None, []) | x # q \<Rightarrow> (Some x, q))"

lemma mpsc_drain_all_eq [simp]: "mpsc_drain_all q = (q, [])"
proof -
  have "mpsc_drain out q = (out @ q, [])" for out by (induction q arbitrary: out) simp_all
  then show ?thesis by (simp add: mpsc_drain_all_def)
qed

section \<open>Strings and numbers\<close>

definition is_digit :: "char \<Rightarrow> bool" where
  "is_digit c \<longleftrightarrow> of_char c \<ge> (48 :: nat) \<and> of_char c \<le> (57 :: nat)"

definition digit_value :: "char \<Rightarrow> nat" where
  "digit_value c = of_char c - 48"

definition digits_value :: "string \<Rightarrow> nat" where
  "digits_value ds = foldl (\<lambda>n c. 10 * n + digit_value c) 0 ds"

text \<open>\<open>std::from_chars\<close> into a \<open>uint32_t\<close>: the longest prefix of digits, which must not be empty nor out of range.\<close>

definition from_chars_u32 :: "string \<Rightarrow> u32 option" where
  "from_chars_u32 s = (let ds = takeWhile is_digit s in
     if ds = [] \<or> 2 ^ 32 \<le> digits_value ds then None else Some (of_nat (digits_value ds)))"

text \<open>\<open>std::to_string\<close> of a number that is not negative.\<close>

fun to_string :: "nat \<Rightarrow> string" where
  "to_string n = (if n < 10 then [char_of (48 + n)] else to_string (n div 10) @ [char_of (48 + n mod 10)])"

declare to_string.simps [simp del]

definition find_last_of :: "char \<Rightarrow> string \<Rightarrow> nat option" where
  "find_last_of c s = (if c \<in> set s then Some (length s - 1 - length (takeWhile (\<lambda>x. x \<noteq> c) (rev s))) else None)"

section \<open>Resources\<close>

datatype EtcdResourceKind = MatchingEngine | ClientDetailsProvider | SocketGateway | UnknownResource

record MatchingEngineInfo =
  mei_addr :: string
  mei_asset_id :: u16
  mei_status :: string

record AddrStatusInfo =
  asi_addr :: string
  asi_status :: string

datatype EtcdEventKind = Snapshot | Put | Delete

record EtcdEvent =
  ev_kind :: EtcdEventKind
  ev_resource_kind :: EtcdResourceKind
  ev_key :: string
  ev_id :: "u32 option"
  ev_raw_value :: string
  ev_matching_engine :: "MatchingEngineInfo option"
  ev_addr_status :: "AddrStatusInfo option"

definition matching_engines_prefix :: string where "matching_engines_prefix = ''/matching-engines/''"
definition client_details_prefix :: string where "client_details_prefix = ''/client-details-provider/''"
definition socket_gateways_prefix :: string where "socket_gateways_prefix = ''/socket-gateways/''"

definition kPrefixes :: "string list" where
  "kPrefixes = [matching_engines_prefix, client_details_prefix, socket_gateways_prefix]"

definition starts_with :: "string \<Rightarrow> string \<Rightarrow> bool" where
  "starts_with p s \<longleftrightarrow> take (length p) s = p"

definition classify :: "string \<Rightarrow> EtcdResourceKind" where
  "classify key =
     (if starts_with matching_engines_prefix key then MatchingEngine
      else if starts_with client_details_prefix key then ClientDetailsProvider
      else if starts_with socket_gateways_prefix key then SocketGateway
      else UnknownResource)"

definition parse_trailing_id :: "string \<Rightarrow> u32 option" where
  "parse_trailing_id key =
     (case find_last_of (CHR ''/'') key of
        None \<Rightarrow> None
      | Some pos \<Rightarrow> if pos + 1 \<ge> length key then None else from_chars_u32 (drop (pos + 1) key))"

section \<open>Events\<close>

text \<open>The calls the code makes of the JSON library: \<open>parse\<close> (\<open>None\<close>: a \<open>parse_error\<close>) and \<open>value(key, default)\<close>
  at a string and at an integer default (\<open>None\<close>: another exception, for a document that is not an object or a value of
  another type).\<close>

record 'j json_api =
  js_parse :: "string \<Rightarrow> 'j option"
  js_string :: "'j \<Rightarrow> string \<Rightarrow> string \<Rightarrow> string option"
  js_int :: "'j \<Rightarrow> string \<Rightarrow> int \<Rightarrow> int option"

text \<open>Only a \<open>parse_error\<close> is caught; \<open>None\<close> is an exception that leaves the callback.\<close>

definition fill_parsed_fields :: "'j json_api \<Rightarrow> EtcdEvent \<Rightarrow> EtcdEvent option" where
  "fill_parsed_fields js ev =
     (case js_parse js (ev_raw_value ev) of
        None \<Rightarrow> Some ev
      | Some j \<Rightarrow>
          (case ev_resource_kind ev of
             MatchingEngine \<Rightarrow> do {
               addr \<leftarrow> js_string js j ''addr'' [];
               asset_id \<leftarrow> js_int js j ''asset_id'' 0;
               status \<leftarrow> js_string js j ''status'' [];
               Some (ev \<lparr> ev_matching_engine := Some \<lparr> mei_addr = addr, mei_asset_id = word_of_int asset_id, mei_status = status \<rparr> \<rparr>) }
           | ClientDetailsProvider \<Rightarrow> do {
               addr \<leftarrow> js_string js j ''addr'' [];
               status \<leftarrow> js_string js j ''status'' [];
               Some (ev \<lparr> ev_addr_status := Some \<lparr> asi_addr = addr, asi_status = status \<rparr> \<rparr>) }
           | SocketGateway \<Rightarrow> do {
               addr \<leftarrow> js_string js j ''ip'' [];
               status \<leftarrow> js_string js j ''status'' [];
               Some (ev \<lparr> ev_addr_status := Some \<lparr> asi_addr = addr, asi_status = status \<rparr> \<rparr>) }
           | UnknownResource \<Rightarrow> Some ev))"

definition make_event :: "'j json_api \<Rightarrow> EtcdEventKind \<Rightarrow> string \<Rightarrow> string \<Rightarrow> EtcdEvent option" where
  "make_event js kind key value =
     fill_parsed_fields js \<lparr> ev_kind = kind, ev_resource_kind = classify key, ev_key = key, ev_id = parse_trailing_id key,
       ev_raw_value = value, ev_matching_engine = None, ev_addr_status = None \<rparr>"

datatype EventType = EventPut | EventDelete | OtherEventType

record etcd_Response =
  resp_is_ok :: bool
  resp_values :: "(string \<times> string) list"
  resp_events :: "(EventType \<times> string \<times> string) list"

fun push_values :: "'j json_api \<Rightarrow> (string \<times> string) list \<Rightarrow> EtcdEvent MpscQueue \<Rightarrow> EtcdEvent MpscQueue option" where
  "push_values js [] q = Some q"
| "push_values js ((key, value) # kvs) q = do { ev \<leftarrow> make_event js Snapshot key value; push_values js kvs (mpsc_push ev q) }"

text \<open>The answers to \<open>ls\<close> of the three prefixes, in order.\<close>

fun load_initial_snapshot :: "'j json_api \<Rightarrow> etcd_Response list \<Rightarrow> EtcdEvent MpscQueue \<Rightarrow> EtcdEvent MpscQueue option" where
  "load_initial_snapshot js [] q = Some q"
| "load_initial_snapshot js (resp # resps) q =
     (if \<not> resp_is_ok resp then load_initial_snapshot js resps q
      else do { q \<leftarrow> push_values js (resp_values resp) q; load_initial_snapshot js resps q })"

fun push_events :: "'j json_api \<Rightarrow> (EventType \<times> string \<times> string) list \<Rightarrow> EtcdEvent MpscQueue \<Rightarrow> EtcdEvent MpscQueue option" where
  "push_events js [] q = Some q"
| "push_events js ((type, key, value) # evs) q =
     (case type of
        EventPut \<Rightarrow> do { ev \<leftarrow> make_event js Put key value; push_events js evs (mpsc_push ev q) }
      | EventDelete \<Rightarrow> do { ev \<leftarrow> make_event js Delete key value; push_events js evs (mpsc_push ev q) }
      | OtherEventType \<Rightarrow> push_events js evs q)"

definition on_watch_response :: "'j json_api \<Rightarrow> etcd_Response \<Rightarrow> EtcdEvent MpscQueue \<Rightarrow> EtcdEvent MpscQueue option" where
  "on_watch_response js resp q = (if \<not> resp_is_ok resp then Some q else push_events js (resp_events resp) q)"

section \<open>Numbers survive being a key\<close>

lemma digit_char: "d < 10 \<Longrightarrow> is_digit (char_of (48 + d))" "d < 10 \<Longrightarrow> digit_value (char_of (48 + d)) = d"
  by (simp_all add: is_digit_def digit_value_def)

lemma to_string_digits: "\<forall>c \<in> set (to_string n). is_digit c" "to_string n \<noteq> []"
proof (induction n rule: to_string.induct)
  case (1 n)
  {
    case 1
    show ?case using "1.IH"(1) digit_char(1)[of n] digit_char(1)[of "n mod 10"] by (subst to_string.simps) auto
  next
    case 2
    show ?case by (subst to_string.simps) simp
  }
qed

lemma digits_value_to_string: "digits_value (to_string n) = n"
proof (induction n rule: to_string.induct)
  case (1 n)
  show ?case using 1 digit_char(2)[of n] digit_char(2)[of "n mod 10"] by (subst to_string.simps) (auto simp: digits_value_def)
qed

lemma from_chars_to_string:
  assumes "n < 2 ^ 32"
  shows "from_chars_u32 (to_string n) = Some (of_nat n)"
proof -
  have all: "takeWhile is_digit (to_string n) = to_string n" using to_string_digits(1) by (simp add: takeWhile_eq_all_conv)
  show ?thesis unfolding from_chars_u32_def Let_def all digits_value_to_string using assms to_string_digits(2) by simp
qed

lemma parse_trailing_id_append:
  assumes "CHR ''/'' \<notin> set s" "s \<noteq> []"
  shows "parse_trailing_id (p @ CHR ''/'' # s) = from_chars_u32 s"
proof -
  have "takeWhile (\<lambda>x. x \<noteq> CHR ''/'') (rev s @ CHR ''/'' # rev p) = rev s" using assms(1) by (subst takeWhile_append2) auto
  then show ?thesis using assms(2) by (simp add: parse_trailing_id_def find_last_of_def)
qed

lemma slash_not_in_number: "CHR ''/'' \<notin> set (to_string n)"
  using to_string_digits(1)[of n] by (auto simp: is_digit_def)

end
