(* ===== verification/App_State.thy ===== *)
theory App_State
  imports Wire_Types Ordered_Map Service_Discovery "HOL-Library.Signed_Division"
begin

text \<open>
  The state of the trading dashboard (\<open>market_client/include/app_state.hpp\<close>): the order books it rebuilds from the
  book updates, the trades and quotes it keeps per asset with the candles drawn from them, the balances of the
  connected clients and the services found in etcd.  All of it belongs to the render thread.

  Times, and the prices of candles, are \<open>double\<close>s.  The type \<open>'d\<close> stands for them, with \<open>double_ops\<close> for the
  conversions and the arithmetic the code uses; their order is that of a \<open>linorder\<close> (no NaN arises from clock times).
\<close>

section \<open>Order books\<close>

record app_OrderBook =
  abk_bids :: "(i64 \<times> u32) list"
  abk_asks :: "(i64 \<times> u32) list"

definition empty_OrderBook :: app_OrderBook where
  "empty_OrderBook = \<lparr> abk_bids = [], abk_asks = [] \<rparr>"

abbreviation (input) bid_first :: "i64 \<Rightarrow> i64 \<Rightarrow> bool" where "bid_first \<equiv> (>)"
abbreviation (input) ask_first :: "i64 \<Rightarrow> i64 \<Rightarrow> bool" where "ask_first \<equiv> (<)"

definition side_apply :: "(i64 \<Rightarrow> i64 \<Rightarrow> bool) \<Rightarrow> OrderBookUpdate \<Rightarrow> (i64 \<times> u32) list \<Rightarrow> i64 \<times> (i64 \<times> u32) list" where
  "side_apply lt u m =
     (let old_depth = (case om_find lt (upd_Price u) m of Some d \<Rightarrow> uint d | None \<Rightarrow> 0) in
      (uint (upd_Depth u) - old_depth,
       if upd_Depth u = 0 then om_erase lt (upd_Price u) m else om_assign lt (upd_Price u) (upd_Depth u) m))"

definition OrderBook_apply :: "OrderBookUpdate \<Rightarrow> app_OrderBook \<Rightarrow> i64 \<times> app_OrderBook" where
  "OrderBook_apply u book =
     (if upd_Side u = ORDER_BOOK_UPDATE_BUY
      then (case side_apply bid_first u (abk_bids book) of (delta, m) \<Rightarrow> (delta, book \<lparr> abk_bids := m \<rparr>))
      else (case side_apply ask_first u (abk_asks book) of (delta, m) \<Rightarrow> (delta, book \<lparr> abk_asks := m \<rparr>)))"

definition best_bid :: "app_OrderBook \<Rightarrow> i64" where
  "best_bid book = (case abk_bids book of [] \<Rightarrow> 0 | (p, _) # _ \<Rightarrow> p)"

definition best_ask :: "app_OrderBook \<Rightarrow> i64" where
  "best_ask book = (case abk_asks book of [] \<Rightarrow> 0 | (p, _) # _ \<Rightarrow> p)"

section \<open>Price history\<close>

record 'd double_ops =
  dbl_of :: "int \<Rightarrow> 'd"
  dbl_add :: "'d \<Rightarrow> 'd \<Rightarrow> 'd"
  dbl_bucket :: "'d \<Rightarrow> 'd \<Rightarrow> 'd"

record 'd Stamped_report =
  sr_recv_time :: 'd
  sr_msg :: OrderStateReport

record 'd Stamped_update =
  su_recv_time :: 'd
  su_msg :: OrderBookUpdate

record 'd TradePrint =
  tp_time :: 'd
  tp_price :: i64
  tp_qty :: u32

record 'd QuoteSample =
  qs_time :: 'd
  qs_bid :: i64
  qs_ask :: i64

record 'd Candle =
  cd_start :: 'd
  cd_open :: 'd
  cd_high :: 'd
  cd_low :: 'd
  cd_close :: 'd
  cd_volume :: 'd
  cd_trades :: u32

definition decode_trade :: "OrderStateReport \<Rightarrow> (u16 \<times> i64 \<times> u32) option" where
  "decode_trade r =
     (if rep_State r \<noteq> FILL \<and> rep_State r \<noteq> PARTIAL_FILL then None
      else if rep_BoughtAssetId r = 0 \<or> rep_SoldAssetId r \<noteq> 0 \<or> rep_BoughtDelta r \<le> 0 \<or> rep_SoldDelta r \<ge> 0 then None
      else Some (rep_BoughtAssetId r, wrap64 (- rep_SoldDelta r) sdiv rep_BoughtDelta r, word_of_int (rep_BoughtDelta r)))"

record 'd AssetMarketHistory =
  amh_trades :: "'d TradePrint list"
  amh_quotes :: "'d QuoteSample list"

definition empty_history :: "'d AssetMarketHistory" where
  "empty_history = \<lparr> amh_trades = [], amh_quotes = [] \<rparr>"

definition kMaxTrades :: nat where "kMaxTrades = 200000"
definition kMaxQuotes :: nat where "kMaxQuotes = 200000"

definition add_trade :: "'d \<Rightarrow> i64 \<Rightarrow> u32 \<Rightarrow> 'd AssetMarketHistory \<Rightarrow> 'd AssetMarketHistory" where
  "add_trade time price qty h =
     (let ts = amh_trades h @ [\<lparr> tp_time = time, tp_price = price, tp_qty = qty \<rparr>] in
      h \<lparr> amh_trades := if length ts > kMaxTrades then tl ts else ts \<rparr>)"

definition add_quote :: "'d \<Rightarrow> i64 \<Rightarrow> i64 \<Rightarrow> 'd AssetMarketHistory \<Rightarrow> 'd AssetMarketHistory" where
  "add_quote time bid ask h =
     (if amh_quotes h \<noteq> [] \<and> qs_bid (last (amh_quotes h)) = bid \<and> qs_ask (last (amh_quotes h)) = ask then h
      else let qs = amh_quotes h @ [\<lparr> qs_time = time, qs_bid = bid, qs_ask = ask \<rparr>] in
           h \<lparr> amh_quotes := if length qs > kMaxQuotes then tl qs else qs \<rparr>)"

definition candle_step ::
  "'d double_ops \<Rightarrow> 'd \<Rightarrow> 'd Candle list \<Rightarrow> ('d :: linorder) TradePrint \<Rightarrow> 'd Candle list" where
  "candle_step dbl bucket_s out t =
     (let start = dbl_bucket dbl (tp_time t) bucket_s; p = dbl_of dbl (tp_price t);
          out = (if out = [] \<or> cd_start (last out) \<noteq> start
                 then out @ [\<lparr> cd_start = start, cd_open = p, cd_high = p, cd_low = p, cd_close = p, cd_volume = dbl_of dbl 0, cd_trades = 0 \<rparr>]
                 else out);
          c = last out in
      butlast out @ [c \<lparr> cd_high := max (cd_high c) p, cd_low := min (cd_low c) p, cd_close := p,
        cd_volume := dbl_add dbl (cd_volume c) (dbl_of dbl (uint (tp_qty t))), cd_trades := cd_trades c + 1 \<rparr>])"

definition build_candles :: "'d double_ops \<Rightarrow> 'd \<Rightarrow> ('d :: linorder) AssetMarketHistory \<Rightarrow> 'd Candle list" where
  "build_candles dbl bucket_s h =
     (if bucket_s \<le> dbl_of dbl 0 then [] else foldl (candle_step dbl bucket_s) [] (amh_trades h))"

section \<open>Trade feed and balances\<close>

record TradeFeedEntry =
  tfe_sequence_id :: u32
  tfe_trade_id :: u32
  tfe_client_id :: u32
  tfe_order_id :: u32
  tfe_bought_asset :: u16
  tfe_sold_asset :: u16
  tfe_bought_delta :: i64
  tfe_sold_delta :: i64
  tfe_sold_attempt_delta :: i64
  tfe_state :: OrderState
  tfe_ingested_ts :: u64
  tfe_routed_ts :: u64
  tfe_received_ts :: u64
  tfe_update_ts :: u64

record LiveBalance =
  lb_positions :: "u16 \<rightharpoonup> i64 \<times> i64"
  lb_has_snapshot :: bool
  lb_last_error :: string

definition empty_LiveBalance :: LiveBalance where
  "empty_LiveBalance = \<lparr> lb_positions = Map.empty, lb_has_snapshot = False, lb_last_error = [] \<rparr>"

definition position :: "u16 \<Rightarrow> LiveBalance \<Rightarrow> i64 \<times> i64" where
  "position asset_id b = (case lb_positions b asset_id of Some p \<Rightarrow> p | None \<Rightarrow> (0, 0))"

definition apply_confirmed_delta :: "u16 \<Rightarrow> i64 \<Rightarrow> LiveBalance \<Rightarrow> LiveBalance" where
  "apply_confirmed_delta asset_id delta b =
     (case position asset_id b of (c, a) \<Rightarrow> b \<lparr> lb_positions := (lb_positions b)(asset_id \<mapsto> (wrap64 (c + delta), a)) \<rparr>)"

definition apply_attempt_delta :: "u16 \<Rightarrow> i64 \<Rightarrow> LiveBalance \<Rightarrow> LiveBalance" where
  "apply_attempt_delta asset_id delta b =
     (case position asset_id b of (c, a) \<Rightarrow> b \<lparr> lb_positions := (lb_positions b)(asset_id \<mapsto> (c, wrap64 (a + delta))) \<rparr>)"

section \<open>The state\<close>

record 'd AppState =
  app_order_books :: "u16 \<rightharpoonup> app_OrderBook"
  app_market_history :: "u16 \<rightharpoonup> 'd AssetMarketHistory"
  app_book_updates_received :: u64
  app_order_reports_received :: u64
  app_trades_decoded :: u64
  app_trade_feed :: "TradeFeedEntry list"
  app_etcd_entries :: "string \<rightharpoonup> string"
  app_matching_engines :: "string \<rightharpoonup> MatchingEngineInfo"
  app_cdp_endpoints :: "string \<rightharpoonup> AddrStatusInfo"
  app_socket_gateways :: "u32 \<rightharpoonup> AddrStatusInfo"
  app_balances :: "u32 \<rightharpoonup> LiveBalance"

definition kMaxTradeFeed :: nat where "kMaxTradeFeed = 200000"

definition AppState_init :: "'d AppState" where
  "AppState_init = \<lparr> app_order_books = Map.empty, app_market_history = Map.empty, app_book_updates_received = 0,
     app_order_reports_received = 0, app_trades_decoded = 0, app_trade_feed = [], app_etcd_entries = Map.empty,
     app_matching_engines = Map.empty, app_cdp_endpoints = Map.empty, app_socket_gateways = Map.empty, app_balances = Map.empty \<rparr>"

definition etcd_entries_touch :: "EtcdEvent \<Rightarrow> 'd AppState \<Rightarrow> 'd AppState" where
  "etcd_entries_touch ev st =
     st \<lparr> app_etcd_entries := (app_etcd_entries st)(ev_key ev := if ev_kind ev = Delete then None else Some (ev_raw_value ev)) \<rparr>"

definition apply_etcd_event :: "EtcdEvent \<Rightarrow> 'd AppState \<Rightarrow> 'd AppState" where
  "apply_etcd_event ev st0 =
     (let st = etcd_entries_touch ev st0 in
      case ev_resource_kind ev of
        MatchingEngine \<Rightarrow>
          if ev_kind ev = Delete then st \<lparr> app_matching_engines := (app_matching_engines st)(ev_key ev := None) \<rparr>
          else (case ev_matching_engine ev of
                  Some info \<Rightarrow> st \<lparr> app_matching_engines := (app_matching_engines st)(ev_key ev \<mapsto> info) \<rparr> | None \<Rightarrow> st)
      | ClientDetailsProvider \<Rightarrow>
          if ev_kind ev = Delete then st \<lparr> app_cdp_endpoints := (app_cdp_endpoints st)(ev_key ev := None) \<rparr>
          else (case ev_addr_status ev of
                  Some info \<Rightarrow> st \<lparr> app_cdp_endpoints := (app_cdp_endpoints st)(ev_key ev \<mapsto> info) \<rparr> | None \<Rightarrow> st)
      | SocketGateway \<Rightarrow>
          (case ev_id ev of
             None \<Rightarrow> st
           | Some gid \<Rightarrow>
               if ev_kind ev = Delete then st \<lparr> app_socket_gateways := (app_socket_gateways st)(gid := None) \<rparr>
               else (case ev_addr_status ev of
                       Some info \<Rightarrow> st \<lparr> app_socket_gateways := (app_socket_gateways st)(gid \<mapsto> info) \<rparr> | None \<Rightarrow> st))
      | UnknownResource \<Rightarrow> st)"

definition push_trade :: "TradeFeedEntry \<Rightarrow> 'd AppState \<Rightarrow> 'd AppState" where
  "push_trade e st =
     (let feed = app_trade_feed st @ [e] in
      st \<lparr> app_trade_feed := if length feed > kMaxTradeFeed then drop (length feed - kMaxTradeFeed) feed else feed \<rparr>)"

definition book_of :: "u16 \<Rightarrow> 'd AppState \<Rightarrow> app_OrderBook" where
  "book_of asset st = (case app_order_books st asset of Some b \<Rightarrow> b | None \<Rightarrow> empty_OrderBook)"

definition history_of :: "u16 \<Rightarrow> 'd AppState \<Rightarrow> 'd AssetMarketHistory" where
  "history_of asset st = (case app_market_history st asset of Some h \<Rightarrow> h | None \<Rightarrow> empty_history)"

definition record_book_update :: "OrderBookUpdate \<Rightarrow> 'd \<Rightarrow> 'd AppState \<Rightarrow> 'd AppState" where
  "record_book_update u recv_time st =
     (let asset = upd_AssetId u; book = snd (OrderBook_apply u (book_of asset st)) in
      st \<lparr> app_book_updates_received := app_book_updates_received st + 1,
           app_order_books := (app_order_books st)(asset \<mapsto> book),
           app_market_history := (app_market_history st)(asset \<mapsto> add_quote recv_time (best_bid book) (best_ask book) (history_of asset st)) \<rparr>)"

definition record_order_report :: "OrderStateReport \<Rightarrow> 'd \<Rightarrow> 'd AppState \<Rightarrow> 'd AppState" where
  "record_order_report r recv_time st =
     (let st = st \<lparr> app_order_reports_received := app_order_reports_received st + 1 \<rparr> in
      case decode_trade r of
        None \<Rightarrow> st
      | Some (asset, price, qty) \<Rightarrow>
          st \<lparr> app_trades_decoded := app_trades_decoded st + 1,
               app_market_history := (app_market_history st)(asset \<mapsto> add_trade recv_time price qty (history_of asset st)) \<rparr>)"

definition apply_trade_to_balance :: "OrderStateReport \<Rightarrow> 'd AppState \<Rightarrow> 'd AppState" where
  "apply_trade_to_balance r st =
     (case app_balances st (rep_ClientId r) of
        None \<Rightarrow> st
      | Some b \<Rightarrow>
          st \<lparr> app_balances := (app_balances st)(rep_ClientId r \<mapsto>
            apply_attempt_delta (rep_SoldAssetId r) (rep_SoldAttemptDelta r)
              (apply_confirmed_delta (rep_SoldAssetId r) (rep_SoldDelta r)
                (apply_confirmed_delta (rep_BoughtAssetId r) (rep_BoughtDelta r) b))) \<rparr>)"

end
