(* ===== verification/App_Props.thy ===== *)
theory App_Props
  imports App_State
begin

text \<open>
  What the dashboard shows.  Its order book is a map from prices to depths, best price first, and follows the updates;
  the candles are those of the runs of trades in one time bucket.
\<close>

section \<open>Order books\<close>

definition shown_bid :: "app_OrderBook \<Rightarrow> i64 \<Rightarrow> u32" where
  "shown_bid book p = (case map_of (abk_bids book) p of Some d \<Rightarrow> d | None \<Rightarrow> 0)"

definition shown_ask :: "app_OrderBook \<Rightarrow> i64 \<Rightarrow> u32" where
  "shown_ask book p = (case map_of (abk_asks book) p of Some d \<Rightarrow> d | None \<Rightarrow> 0)"

definition app_book_inv :: "app_OrderBook \<Rightarrow> bool" where
  "app_book_inv book \<longleftrightarrow> descending.sorted_map (abk_bids book) \<and> ascending.sorted_map (abk_asks book) \<and>
     (\<forall>p. map_of (abk_bids book) p \<noteq> Some 0) \<and> (\<forall>p. map_of (abk_asks book) p \<noteq> Some 0)"

lemma app_book_inv_empty: "app_book_inv empty_OrderBook" "shown_bid empty_OrderBook = (\<lambda>p. 0)" "shown_ask empty_OrderBook = (\<lambda>p. 0)"
  by (simp_all add: app_book_inv_def empty_OrderBook_def shown_bid_def shown_ask_def fun_eq_iff)

context map_order
begin

lemma side_apply_ok:
  assumes "sorted_map m" "\<forall>p. map_of m p \<noteq> Some (0 :: u32)"
  shows "om_find lt p m = map_of m p" "sorted_map (if d = 0 then om_erase lt p m else om_assign lt p d m)"
    "map_of (if d = 0 then om_erase lt p m else om_assign lt p d m) = (map_of m)(p := if d = 0 then None else Some d)"
    "map_of (if d = 0 then om_erase lt p m else om_assign lt p d m) q \<noteq> Some 0"
  using assms by (simp_all add: find_map_of erase_sorted assign_sorted map_of_erase map_of_assign)

text \<open>The price at the front of a side is its best.\<close>

lemma front_best:
  assumes "sorted_map m" "map_of m p \<noteq> None"
  shows "\<exists>q d m'. m = (q, d) # m' \<and> map_of m q = Some d \<and> (p = q \<or> lt q p)"
proof -
  obtain q d m' where m: "m = (q, d) # m'" using first_key[OF assms] by (cases m) auto
  then show ?thesis using first_key[OF assms] by simp
qed

end

lemma OrderBook_apply_ok:
  assumes "app_book_inv book"
  shows "app_book_inv (snd (OrderBook_apply u book))"
    "shown_bid (snd (OrderBook_apply u book)) =
      (if upd_Side u = ORDER_BOOK_UPDATE_BUY then (shown_bid book)(upd_Price u := upd_Depth u) else shown_bid book)"
    "shown_ask (snd (OrderBook_apply u book)) =
      (if upd_Side u \<noteq> ORDER_BOOK_UPDATE_BUY then (shown_ask book)(upd_Price u := upd_Depth u) else shown_ask book)"
    "fst (OrderBook_apply u book) = uint (upd_Depth u) -
      uint (if upd_Side u = ORDER_BOOK_UPDATE_BUY then shown_bid book (upd_Price u) else shown_ask book (upd_Price u))"
proof -
  have b: "descending.sorted_map (abk_bids book)" "\<forall>p. map_of (abk_bids book) p \<noteq> Some 0"
    and a: "ascending.sorted_map (abk_asks book)" "\<forall>p. map_of (abk_asks book) p \<noteq> Some 0"
    using assms by (simp_all add: app_book_inv_def)
  note B = descending.side_apply_ok[OF b] and A = ascending.side_apply_ok[OF a]
  show "app_book_inv (snd (OrderBook_apply u book))"
    using a b A(2-4)[where p = "upd_Price u" and d = "upd_Depth u"] B(2-4)[where p = "upd_Price u" and d = "upd_Depth u"]
    by (simp add: app_book_inv_def OrderBook_apply_def side_apply_def Let_def)
  show "shown_bid (snd (OrderBook_apply u book)) =
      (if upd_Side u = ORDER_BOOK_UPDATE_BUY then (shown_bid book)(upd_Price u := upd_Depth u) else shown_bid book)"
    using B(3)[where p = "upd_Price u" and d = "upd_Depth u"] by (auto simp: shown_bid_def OrderBook_apply_def side_apply_def Let_def)
  show "shown_ask (snd (OrderBook_apply u book)) =
      (if upd_Side u \<noteq> ORDER_BOOK_UPDATE_BUY then (shown_ask book)(upd_Price u := upd_Depth u) else shown_ask book)"
    using A(3)[where p = "upd_Price u" and d = "upd_Depth u"] by (auto simp: shown_ask_def OrderBook_apply_def side_apply_def Let_def)
  show "fst (OrderBook_apply u book) = uint (upd_Depth u) -
      uint (if upd_Side u = ORDER_BOOK_UPDATE_BUY then shown_bid book (upd_Price u) else shown_ask book (upd_Price u))"
    by (auto simp: OrderBook_apply_def side_apply_def Let_def shown_bid_def shown_ask_def A(1) B(1) split: option.splits)
qed

text \<open>The best prices: some price is shown, the best one is, and none is better; or nothing is shown.\<close>

lemma best_bid_shown:
  assumes "app_book_inv book"
  shows "(shown_bid book p \<noteq> 0 \<longrightarrow> shown_bid book (best_bid book) \<noteq> 0 \<and> p \<le> best_bid book)"
    "(\<forall>p. shown_bid book p = 0) \<longrightarrow> best_bid book = 0"
proof -
  have i: "descending.sorted_map (abk_bids book)" "\<forall>p. map_of (abk_bids book) p \<noteq> Some 0" using assms by (simp_all add: app_book_inv_def)
  show "(shown_bid book p \<noteq> 0 \<longrightarrow> shown_bid book (best_bid book) \<noteq> 0 \<and> p \<le> best_bid book)"
    using descending.front_best[OF i(1), of p] i(2) by (auto simp: shown_bid_def best_bid_def split: option.splits)
  show "(\<forall>p. shown_bid book p = 0) \<longrightarrow> best_bid book = 0"
    using i(2) by (auto simp: shown_bid_def best_bid_def split: option.splits list.splits) (metis map_of_Cons_code(2) option.distinct(1))
qed

lemma best_ask_shown:
  assumes "app_book_inv book"
  shows "(shown_ask book p \<noteq> 0 \<longrightarrow> shown_ask book (best_ask book) \<noteq> 0 \<and> best_ask book \<le> p)"
    "(\<forall>p. shown_ask book p = 0) \<longrightarrow> best_ask book = 0"
proof -
  have i: "ascending.sorted_map (abk_asks book)" "\<forall>p. map_of (abk_asks book) p \<noteq> Some 0" using assms by (simp_all add: app_book_inv_def)
  show "(shown_ask book p \<noteq> 0 \<longrightarrow> shown_ask book (best_ask book) \<noteq> 0 \<and> best_ask book \<le> p)"
    using ascending.front_best[OF i(1), of p] i(2) by (auto simp: shown_ask_def best_ask_def split: option.splits)
  show "(\<forall>p. shown_ask book p = 0) \<longrightarrow> best_ask book = 0"
    using i(2) by (auto simp: shown_ask_def best_ask_def split: option.splits list.splits) (metis map_of_Cons_code(2) option.distinct(1))
qed

section \<open>Candles\<close>

text \<open>The runs of trades in one bucket, and the candle of a run.\<close>

function runs :: "('a \<Rightarrow> 'b) \<Rightarrow> 'a list \<Rightarrow> 'a list list" where
  "runs key [] = []"
| "runs key (x # xs) = (x # takeWhile (\<lambda>y. key y = key x) xs) # runs key (dropWhile (\<lambda>y. key y = key x) xs)"
  by pat_completeness auto
termination
  by (relation "measure (\<lambda>(key, xs). length xs)") (auto simp: le_imp_less_Suc length_dropWhile_le)

definition run_candle :: "'d double_ops \<Rightarrow> 'd \<Rightarrow> ('d :: linorder) TradePrint list \<Rightarrow> 'd Candle" where
  "run_candle dbl bucket_s ts =
   \<lparr> cd_start = dbl_bucket dbl (tp_time (hd ts)) bucket_s, cd_open = dbl_of dbl (tp_price (hd ts)),
     cd_high = Max ((\<lambda>t. dbl_of dbl (tp_price t)) ` set ts), cd_low = Min ((\<lambda>t. dbl_of dbl (tp_price t)) ` set ts),
     cd_close = dbl_of dbl (tp_price (last ts)),
     cd_volume = foldl (\<lambda>v t. dbl_add dbl v (dbl_of dbl (uint (tp_qty t)))) (dbl_of dbl 0) ts, cd_trades = of_nat (length ts) \<rparr>"

abbreviation bucket_of :: "'d double_ops \<Rightarrow> 'd \<Rightarrow> 'd TradePrint \<Rightarrow> 'd" where
  "bucket_of dbl b t \<equiv> dbl_bucket dbl (tp_time t) b"

lemma candle_step_same:
  assumes "ts \<noteq> []" "bucket_of dbl b t = bucket_of dbl b (hd ts)"
  shows "candle_step dbl b (out @ [run_candle dbl b ts]) t = out @ [run_candle dbl b (ts @ [t])]"
proof -
  let ?f = "\<lambda>t. dbl_of dbl (tp_price t)"
  have "Max (insert (?f t) (?f ` set ts)) = max (Max (?f ` set ts)) (?f t)" "Min (insert (?f t) (?f ` set ts)) = min (Min (?f ` set ts)) (?f t)"
    using assms(1) by (simp_all add: max.commute min.commute)
  then show ?thesis using assms by (simp add: candle_step_def run_candle_def Let_def butlast_append)
qed

lemma candle_step_new:
  assumes "out = [] \<or> cd_start (last out) \<noteq> bucket_of dbl b t"
  shows "candle_step dbl b out t = out @ [run_candle dbl b [t]]"
  using assms by (simp add: candle_step_def run_candle_def Let_def butlast_append)

lemma candles_of_run:
  assumes "ts \<noteq> []" "k = bucket_of dbl b (hd ts)"
  shows "foldl (candle_step dbl b) (out @ [run_candle dbl b ts]) us =
    out @ run_candle dbl b (ts @ takeWhile (\<lambda>u. bucket_of dbl b u = k) us) # map (run_candle dbl b) (runs (bucket_of dbl b) (dropWhile (\<lambda>u. bucket_of dbl b u = k) us))"
  using assms
proof (induction us arbitrary: out ts k)
  case (Cons u us)
  show ?case
  proof (cases "bucket_of dbl b u = k")
    case True
    then show ?thesis using Cons.IH[of "ts @ [u]" k out] Cons.prems candle_step_same[where ts = ts and t = u and dbl = dbl and b = b and out = out] by simp
  next
    case False
    then have "candle_step dbl b (out @ [run_candle dbl b ts]) u = (out @ [run_candle dbl b ts]) @ [run_candle dbl b [u]]"
      using Cons.prems by (intro candle_step_new) (simp add: run_candle_def)
    then show ?thesis using Cons.IH[of "[u]" "bucket_of dbl b u" "out @ [run_candle dbl b ts]"] False by simp
  qed
qed simp

lemma build_candles_runs:
  assumes "\<not> bucket_s \<le> dbl_of dbl 0"
  shows "build_candles dbl bucket_s h = map (run_candle dbl bucket_s) (runs (bucket_of dbl bucket_s) (amh_trades h))"
proof (cases "amh_trades h")
  case (Cons t ts)
  then show ?thesis using assms candle_step_new[where out = "[]" and dbl = dbl and b = bucket_s and t = t] candles_of_run[where ts = "[t]" and dbl = dbl and b = bucket_s and out = "[]" and us = ts, OF _ refl]
    by (simp add: build_candles_def)
qed (use assms in \<open>simp add: build_candles_def\<close>)

lemma concat_runs: "concat (runs key xs) = xs"
  by (induction key xs rule: runs.induct) simp_all

section \<open>Properties\<close>

definition int_double :: "int double_ops" where
  "int_double = \<lparr> dbl_of = (\<lambda>x. x), dbl_add = (+), dbl_bucket = (\<lambda>t b. t div b * b) \<rparr>"

definition sample_history :: "int AssetMarketHistory" where
  "sample_history = add_trade 12 11 2 (add_trade 11 10 3 (add_trade 4 9 5 (add_trade 3 7 1 empty_history)))"

text \<open>The candles are those of the runs of trades in one time bucket: the trades of the history, cut where the bucket
  changes, give one candle each, whose open and close are the prices of the first and last trade, whose high and low are
  the largest and smallest price, and whose volume and count are those of the run; no trade is lost or counted twice.\<close>

theorem candles_are_runs_of_trades:
  assumes "\<not> bucket_s \<le> dbl_of dbl 0"
  shows "build_candles dbl bucket_s h = map (run_candle dbl bucket_s) (runs (bucket_of dbl bucket_s) (amh_trades h)) \<and>
    concat (runs (bucket_of dbl bucket_s) (amh_trades h)) = amh_trades h"
  using build_candles_runs[OF assms] concat_runs by simp

theorem candles_are_runs_of_trades_witness:
  "build_candles int_double 10 sample_history =
     [\<lparr> cd_start = 0, cd_open = 7, cd_high = 9, cd_low = 7, cd_close = 9, cd_volume = 6, cd_trades = 2 \<rparr>,
      \<lparr> cd_start = 10, cd_open = 10, cd_high = 11, cd_low = 10, cd_close = 11, cd_volume = 5, cd_trades = 2 \<rparr>]"
proof -
  have b: "\<not> (10 :: int) \<le> dbl_of int_double 0" by (simp add: int_double_def)
  show ?thesis unfolding candles_are_runs_of_trades[OF b, THEN conjunct1]
    by (simp add: int_double_def sample_history_def add_trade_def empty_history_def kMaxTrades_def run_candle_def)
qed

end
