(* ===== verification/Trading_Session.thy ===== *)
theory Trading_Session
  imports Gateway_Links Service_Discovery
begin

text \<open>
  The two connections of the dashboard (\<open>market_client/include\<close>): a trading session with a gateway
  (\<open>trading_session.hpp\<close>) and the balance query to the account service (\<open>client_details_poller.hpp\<close>).  The structs of
  \<open>wire_formats.hpp\<close> have the layout of the server's, so the conversions are shared; only the confirmation differs,
  whose status stays a byte because the client names fewer values than the gateway sends.

  The sockets block: a read with nothing left to arrive waits, which is an outcome of its own.  What the system calls
  answer (\<open>socket\<close>, \<open>inet_pton\<close>, \<open>connect\<close>, \<open>send\<close>) are arguments; the sleep of 100 ms after the login is left out.
\<close>

section \<open>Confirmations\<close>

record GatewayConfirmation =
  gcf_OrderId :: u32
  gcf_ClientOrderId :: u32
  gcf_Status :: u8

definition decode_OrderConfirmation :: "u8 list \<Rightarrow> GatewayConfirmation" where
  "decode_OrderConfirmation bs =
   \<lparr> gcf_OrderId = word_of_int (le_value (take 4 bs)), gcf_ClientOrderId = word_of_int (le_value (take 4 (drop 4 bs))),
     gcf_Status = bs ! 8 \<rparr>"

definition status_ToString :: "u8 \<Rightarrow> string" where
  "status_ToString s =
     (if s = 0 then ''Accepted'' else if s = 1 then ''Insufficient funds'' else if s = 2 then ''Max positions reached''
      else if s = 3 then ''Invalid price'' else if s = 4 then ''Invalid quantity'' else if s = 5 then ''Unknown symbol''
      else if s = 6 then ''Technical failure'' else if s = 7 then ''User not connected'' else ''Unknown status'')"

section \<open>Whole messages over a blocking socket\<close>

function ts_send_all :: "int \<Rightarrow> u8 list \<Rightarrow> nat \<Rightarrow> network \<Rightarrow> bool \<times> network" where
  "ts_send_all fd bs sent net =
     (if sent < length bs
      then (case send fd (drop sent bs) net of (n, net) \<Rightarrow>
              if n \<le> 0 then (False, net) else ts_send_all fd bs (sent + nat n) net)
      else (True, net))"
  by pat_completeness auto
termination
  by (relation "measure (\<lambda>(fd, bs, sent, net). length bs - sent)") auto

declare ts_send_all.simps [simp del]

fun arrival_bytes :: "arrival list \<Rightarrow> nat" where
  "arrival_bytes [] = 0"
| "arrival_bytes (Bytes bs # as) = length bs + arrival_bytes as"
| "arrival_bytes (_ # as) = arrival_bytes as"

lemma recv_bytes:
  assumes "recv n as e = (k, bs, e', rest)"
  shows "length bs + arrival_bytes rest = arrival_bytes as" "k \<le> 0 \<or> k = int (length bs)"
  using assms by (auto elim!: recv.elims split: if_splits)

datatype received = Got "u8 list" "arrival list" | Lost "arrival list" | Waiting "u8 list"

function ts_recv_all :: "nat \<Rightarrow> u8 list \<Rightarrow> arrival list \<Rightarrow> received" where
  "ts_recv_all len got as =
     (if length got < len
      then (case as of
              [] \<Rightarrow> Waiting got
            | a # as' \<Rightarrow> (case recv (len - length got) (a # as') OtherErrno of (n, bs, _, rest) \<Rightarrow>
                if n \<le> 0 then Lost rest else ts_recv_all len (got @ bs) rest))
      else Got got as)"
  by pat_completeness auto
termination
  by (relation "measure (\<lambda>(len, got, as). len - length got)") (auto dest!: recv_bytes(2)[OF sym] simp flip: length_greater_0_conv)

declare ts_recv_all.simps [simp del]

lemma ts_recv_all_bytes: "ts_recv_all len got as = Got bs rest \<Longrightarrow> len \<le> length bs \<and> length bs + arrival_bytes rest = length got + arrival_bytes as"
proof (induction len got as rule: ts_recv_all.induct)
  case (1 len got as)
  show ?case
  proof (cases "length got < len")
    case True
    then obtain a as' where as: "as = a # as'" using "1.prems" by (cases as) (auto simp: ts_recv_all.simps[of len got])
    obtain n ds e rest' where r: "recv (len - length got) (a # as') OtherErrno = (n, ds, e, rest')" by (metis prod_cases4)
    then have "\<not> n \<le> 0" "ts_recv_all len (got @ ds) rest' = Got bs rest"
      using "1.prems" True by (auto simp: ts_recv_all.simps[of len got] as split: if_splits)
    then show ?thesis using "1.IH"[OF True as r[symmetric] refl refl] recv_bytes[OF r] as by simp
  qed (use "1.prems" in \<open>auto simp: ts_recv_all.simps[of len got]\<close>)
qed

section \<open>Trading session\<close>

datatype SessionState = Disconnected | Connecting | Connected | SessionFailed

record TradingSession =
  tss_fd :: int
  tss_client_id :: u32
  tss_key :: "u8 list"
  tss_state :: SessionState
  tss_running :: bool
  tss_reader :: bool
  tss_last_error :: string

definition TradingSession_init :: TradingSession where
  "TradingSession_init = \<lparr> tss_fd = - 1, tss_client_id = 0, tss_key = replicate 32 0, tss_state = Disconnected, tss_running = False,
     tss_reader = False, tss_last_error = [] \<rparr>"

definition set_last_error :: "string \<Rightarrow> TradingSession \<Rightarrow> TradingSession" where
  "set_last_error msg s = s \<lparr> tss_last_error := msg \<rparr>"

definition client_request :: "u8 \<Rightarrow> TradingSession \<Rightarrow> ClientAuthRequest" where
  "client_request ty s = \<lparr> car_RequestType = ty, car_ClientId = tss_client_id s, car_Key = tss_key s \<rparr>"

text \<open>\<open>sock\<close>, \<open>pton\<close> and \<open>conn\<close> are the answers of \<open>socket\<close>, \<open>inet_pton\<close> (whether it is 1) and \<open>connect\<close> (\<open>None\<close>, or the
  text of its error).\<close>

definition session_connect ::
  "int \<Rightarrow> bool \<Rightarrow> string option \<Rightarrow> string \<Rightarrow> u32 \<Rightarrow> u8 list \<Rightarrow> TradingSession \<Rightarrow> network \<Rightarrow> TradingSession \<times> network" where
  "session_connect sock pton conn host client_id key s net =
     (let s = s \<lparr> tss_state := Connecting, tss_client_id := client_id, tss_key := key, tss_fd := sock \<rparr> in
      if sock < 0 then (set_last_error ''socket() failed'' (s \<lparr> tss_state := SessionFailed \<rparr>), net)
      else if \<not> pton then (set_last_error (''invalid host: '' @ host) (s \<lparr> tss_state := SessionFailed, tss_fd := - 1 \<rparr>), net)
      else case conn of
        Some err \<Rightarrow> (set_last_error (''connect() failed: '' @ err) (s \<lparr> tss_state := SessionFailed, tss_fd := - 1 \<rparr>), net)
      | None \<Rightarrow>
          (case ts_send_all sock (encode_ClientAuthRequest (client_request 65 s)) 0 net of (ok, net) \<Rightarrow>
             if \<not> ok then (set_last_error ''failed sending ClientRequest'' (s \<lparr> tss_state := SessionFailed, tss_fd := - 1 \<rparr>), net)
             else (s \<lparr> tss_state := Connected, tss_running := True, tss_reader := True \<rparr>, net)))"

definition clamp_asset :: "i32 \<Rightarrow> u16" where
  "clamp_asset asset = word_of_int (max 0 (min asset 65535))"

definition session_order :: "u32 \<Rightarrow> i64 \<Rightarrow> u32 \<Rightarrow> i32 \<Rightarrow> OrderType \<Rightarrow> OrderSide \<Rightarrow> OrderAction \<Rightarrow> TradingSession \<Rightarrow> Order" where
  "session_order local_order_id price amount asset type side action s =
   \<lparr> ord_Price = price, ord_OrderId = ucast local_order_id, ord_ClientOrderId = local_order_id, ord_ClientId = tss_client_id s,
     ord_Amount = amount, ord_AssetId = clamp_asset asset, ord_Type = type, ord_Side = side, ord_Action = action,
     ord_Padding = replicate 7 0 \<rparr>"

definition send_order ::
  "u32 \<Rightarrow> OrderType \<Rightarrow> OrderSide \<Rightarrow> i64 \<Rightarrow> u32 \<Rightarrow> i32 \<Rightarrow> TradingSession \<Rightarrow> network \<Rightarrow> bool \<times> network" where
  "send_order local_order_id type side price amount asset s net =
     (if tss_state s \<noteq> Connected then (False, net)
      else ts_send_all (tss_fd s) (encode_Order (session_order local_order_id price amount asset type side EXECUTE s)) 0 net)"

definition send_cancel_order :: "u32 \<Rightarrow> u32 \<Rightarrow> i32 \<Rightarrow> TradingSession \<Rightarrow> network \<Rightarrow> bool \<times> network" where
  "send_cancel_order local_order_id order_id_to_cancel asset s net =
     (if tss_state s \<noteq> Connected then (False, net)
      else ts_send_all (tss_fd s) (encode_Order (session_order local_order_id 0 order_id_to_cancel asset LIMIT BUY CANCEL s)) 0 net)"

definition close_fd :: "TradingSession \<Rightarrow> TradingSession" where
  "close_fd s = s \<lparr> tss_fd := - 1 \<rparr>"

text \<open>The reader on what has arrived so far: the session, the confirmations queued and the bytes of a confirmation it
  is still waiting for.\<close>

function read_loop ::
  "arrival list \<Rightarrow> TradingSession \<Rightarrow> GatewayConfirmation MpscQueue \<Rightarrow> TradingSession \<times> GatewayConfirmation MpscQueue \<times> u8 list" where
  "read_loop as s q =
     (if \<not> tss_running s then (close_fd s, q, [])
      else case ts_recv_all sizeof_OrderConfirmation [] as of
             Waiting bs \<Rightarrow> (s, q, bs)
           | Lost rest \<Rightarrow> (close_fd (set_last_error ''connection closed by peer'' (s \<lparr> tss_state := SessionFailed \<rparr>)), q, [])
           | Got bs rest \<Rightarrow> read_loop rest s (mpsc_push (decode_OrderConfirmation bs) q))"
  by pat_completeness auto
termination
  by (relation "measure (\<lambda>(as, s, q). arrival_bytes as)") (auto dest!: ts_recv_all_bytes simp: sizeof_OrderConfirmation_def)

declare read_loop.simps [simp del]

text \<open>\<open>got\<close> are the bytes the reader already has of the confirmation it waits for, \<open>as\<close> what it still reads after the
  shutdown; it closes the descriptor, unless it had stopped before.\<close>

definition session_disconnect ::
  "u8 list \<Rightarrow> arrival list \<Rightarrow> TradingSession \<Rightarrow> GatewayConfirmation MpscQueue \<Rightarrow> network \<Rightarrow>
   TradingSession \<times> GatewayConfirmation MpscQueue \<times> network" where
  "session_disconnect got as s q net =
     (let net = (if tss_state s = Connected \<and> tss_fd s \<ge> 0
                 then snd (ts_send_all (tss_fd s) (encode_ClientAuthRequest (client_request 68 s)) 0 net) else net);
          s = s \<lparr> tss_running := False \<rparr>;
          q = (if tss_reader s \<and> tss_fd s \<ge> 0
               then (case ts_recv_all sizeof_OrderConfirmation got as of
                       Got bs rest \<Rightarrow> mpsc_push (decode_OrderConfirmation bs) q | _ \<Rightarrow> q) else q);
          s = (if tss_reader s then close_fd (s \<lparr> tss_reader := False \<rparr>) else s) in
      (s \<lparr> tss_state := Disconnected \<rparr>, q, net))"

section \<open>Balance query\<close>

record ClientBalanceSnapshot =
  cbs_client_id :: u32
  cbs_ok :: bool
  cbs_error :: string
  cbs_positions :: "(u16 \<times> i64 \<times> i64) list"

definition CDP_MAX_POSITIONS :: nat where "CDP_MAX_POSITIONS = 16"

definition query_failed :: "u32 \<Rightarrow> string \<Rightarrow> ClientBalanceSnapshot" where
  "query_failed client_id err = \<lparr> cbs_client_id = client_id, cbs_ok = False, cbs_error = err, cbs_positions = [] \<rparr>"

definition query_result :: "u32 \<Rightarrow> ClientAccountSnapshot \<Rightarrow> ClientBalanceSnapshot" where
  "query_result client_id resp =
     (if snap_Status resp \<noteq> 65
      then query_failed client_id
        (if snap_Status resp = 67 then ''wrong credentials'' else ''refused (check GatewayId is authorized for this client)'')
      else \<lparr> cbs_client_id = client_id, cbs_ok = True, cbs_error = [],
             cbs_positions = map (\<lambda>i. (snap_AssetId resp ! i, snap_Confirmed resp ! i, snap_Attempt resp ! i)) [0..<CDP_MAX_POSITIONS] \<rparr>)"

text \<open>The counter of descriptors is threaded through; a response that never completes leaves the call waiting: \<open>None\<close>.\<close>

definition query ::
  "int \<Rightarrow> bool \<Rightarrow> string option \<Rightarrow> arrival list \<Rightarrow> string \<Rightarrow> u32 \<Rightarrow> u8 list \<Rightarrow> u16 \<Rightarrow> u32 \<Rightarrow> network \<Rightarrow>
   (ClientBalanceSnapshot \<times> u32 \<times> network) option" where
  "query sock pton conn as cdp_host client_id key gateway_id next_client_fd net =
     (let client_fd = next_client_fd; next_client_fd = next_client_fd + 1 in
      if sock < 0 then Some (query_failed client_id ''socket() failed'', next_client_fd, net)
      else if \<not> pton then Some (query_failed client_id (''invalid CDP host: '' @ cdp_host), next_client_fd, net)
      else case conn of
        Some err \<Rightarrow> Some (query_failed client_id (''connect() to CDP failed: '' @ err), next_client_fd, net)
      | None \<Rightarrow>
          (case ts_send_all sock (encode_GatewayHandshake \<lparr> ghs_GatewayId = gateway_id \<rparr>) 0 net of (ok, net) \<Rightarrow>
             if \<not> ok then Some (query_failed client_id ''failed sending GatewayConnection'', next_client_fd, net)
             else
               (case ts_send_all sock (encode_RoutedAuthRequest \<lparr> rar_RequestType = 65, rar_ClientId = client_id, rar_Key = key,
                   rar_ClientFd = client_fd, rar_GatewayId = gateway_id \<rparr>) 0 net of (ok, net) \<Rightarrow>
                  if \<not> ok then Some (query_failed client_id ''failed sending GatewayRequest'', next_client_fd, net)
                  else
                    (case ts_recv_all sizeof_ClientAccountSnapshot [] as of
                       Waiting _ \<Rightarrow> None
                     | Lost _ \<Rightarrow> Some (query_failed client_id ''no/short response from CDP (check MaxPositions)'', next_client_fd, net)
                     | Got bs _ \<Rightarrow> Some (query_result client_id (decode_ClientAccountSnapshot bs), next_client_fd, net)))))"

end
