(* ===== verification/Dashboard.thy ===== *)
theory Dashboard
  imports App_State Trading_Session Wire_Market
begin

text \<open>
  The dashboard program (\<open>market_client/src/main.cpp\<close>) without its drawing: the trading panels with their forms,
  notifications and sessions, the handlers of the two multicast feeds, the numbers the pages compute from the state,
  and the part of the frame that moves everything the network threads queued into the state.

  \<open>'d\<close> stands for \<open>double\<close> (times) and \<open>'f\<close> for \<open>float\<close> (life of a notification); the clock is an argument.
\<close>

section \<open>Addresses and texts\<close>

definition is_space :: "char \<Rightarrow> bool" where
  "is_space c \<longleftrightarrow> c = CHR '' '' \<or> (9 \<le> (of_char c :: nat) \<and> (of_char c :: nat) \<le> 13)"

text \<open>\<open>atoi\<close>; a number outside the range of an \<open>int\<close> has no defined result.\<close>

definition atoi :: "string \<Rightarrow> int option" where
  "atoi s =
     (let s = dropWhile is_space s; neg = (s \<noteq> [] \<and> hd s = CHR ''-'');
          s = (if s \<noteq> [] \<and> (hd s = CHR ''-'' \<or> hd s = CHR ''+'') then tl s else s);
          n = int (digits_value (takeWhile is_digit s)); v = (if neg then - n else n) in
      if - (2 ^ 31) \<le> v \<and> v < 2 ^ 31 then Some v else None)"

definition parse_host_port :: "string \<Rightarrow> (string \<times> u16) option" where
  "parse_host_port addr =
     (case find_last_of (CHR '':'') addr of
        None \<Rightarrow> Some (addr, 0)
      | Some pos \<Rightarrow> do {
          n \<leftarrow> atoi (drop (pos + 1) addr);
          Some (if take pos addr = ''localhost'' then ''127.0.0.1'' else take pos addr, word_of_int n) })"

text \<open>\<open>env\<close> is the value of the environment variable.\<close>

definition resolve_mcast_endpoint :: "string option \<Rightarrow> string \<Rightarrow> u16 \<Rightarrow> (string \<times> u16) option" where
  "resolve_mcast_endpoint env default_group default_port =
     (case env of
        None \<Rightarrow> Some (default_group, default_port)
      | Some e \<Rightarrow>
          if e = [] then Some (default_group, default_port)
          else do { (host, port) \<leftarrow> parse_host_port e; Some (if port \<noteq> 0 then (host, port) else (default_group, default_port)) })"

definition resolve_mcast_interface :: "string option \<Rightarrow> string" where
  "resolve_mcast_interface env = (case env of Some e \<Rightarrow> if e \<noteq> [] then e else [] | None \<Rightarrow> [])"

text \<open>\<open>s\<close> is the argument truncated to an \<open>int\<close>.\<close>

definition format_time_ago :: "int \<Rightarrow> string" where
  "format_time_ago s =
     (if s < 3 then ''just now''
      else if s < 60 then to_string (nat s) @ ''s ago''
      else let m = s div 60 in
           if m < 60 then to_string (nat m) @ ''m ago''
           else to_string (nat (m div 60)) @ ''h ago'')"

section \<open>Keys\<close>

definition is_xdigit :: "char \<Rightarrow> bool" where
  "is_xdigit c \<longleftrightarrow> is_digit c \<or> (97 \<le> (of_char c :: nat) \<and> (of_char c :: nat) \<le> 102) \<or> (65 \<le> (of_char c :: nat) \<and> (of_char c :: nat) \<le> 70)"

definition xdigit_value :: "char \<Rightarrow> int" where
  "xdigit_value c = (if is_digit c then int (of_char c) - 48 else if 97 \<le> (of_char c :: nat) then int (of_char c) - 87 else int (of_char c) - 55)"

text \<open>\<open>sscanf\<close> with \<open>%2x\<close>: white space is skipped, and a sign or a prefix \<open>0x\<close> counts among the two characters.  \<open>None\<close> is
  a result other than 1.\<close>

definition sscanf_2x :: "string \<Rightarrow> u32 option" where
  "sscanf_2x s =
     (case take 2 (dropWhile is_space s) of
        [] \<Rightarrow> None
      | [c] \<Rightarrow> if is_xdigit c then Some (word_of_int (xdigit_value c)) else None
      | c # d # _ \<Rightarrow>
          if c = CHR ''-'' \<or> c = CHR ''+''
          then if is_xdigit d then Some (word_of_int (if c = CHR ''-'' then - xdigit_value d else xdigit_value d)) else None
          else if c = CHR ''0'' \<and> (d = CHR ''x'' \<or> d = CHR ''X'') then None
          else if \<not> is_xdigit c then None
          else if is_xdigit d then Some (word_of_int (16 * xdigit_value c + xdigit_value d))
          else Some (word_of_int (xdigit_value c)))"

fun parse_bytes :: "nat \<Rightarrow> string \<Rightarrow> u8 list option" where
  "parse_bytes 0 hex = Some []"
| "parse_bytes (Suc n) hex = do { byte \<leftarrow> sscanf_2x hex; bs \<leftarrow> parse_bytes n (drop 2 hex); Some (ucast byte # bs) }"

definition parse_hex_key :: "string \<Rightarrow> u8 list option" where
  "parse_hex_key hex = (if length hex \<noteq> 64 then None else parse_bytes 32 hex)"

section \<open>Trading panels\<close>

record 'f Toast =
  toast_text :: string
  toast_is_error :: bool
  toast_ttl :: 'f

record 'd NotificationEntry =
  note_text :: string
  note_is_error :: bool
  note_created_at :: 'd

record ('d, 'f) TradingPanel =
  pnl_host :: string
  pnl_port :: i32
  pnl_client_id :: u32
  pnl_gateway_id :: i32
  pnl_key_hex :: string
  pnl_connect_error :: string
  pnl_confirmations :: "GatewayConfirmation MpscQueue"
  pnl_session :: "TradingSession option"
  pnl_next_local_order_id :: u32
  pnl_balance_results :: "ClientBalanceSnapshot MpscQueue"
  pnl_balance_query_in_flight :: bool
  pnl_asset_id :: i32
  pnl_price :: i64
  pnl_amount :: u32
  pnl_type_idx :: i32
  pnl_side_idx :: i32
  pnl_watch_asset_id :: i32
  pnl_cancel_order_id :: i32
  pnl_toasts :: "'f Toast list"
  pnl_notification_history :: "'d NotificationEntry list"

definition kMaxHistory :: nat where "kMaxHistory = 50"
definition kTradingGatewayHost :: string where "kTradingGatewayHost = ''127.0.0.1''"
definition kTradingGatewayPort :: i32 where "kTradingGatewayPort = 8000"
definition kDefaultGatewayId :: i32 where "kDefaultGatewayId = 10"

definition TradingPanel_init :: "('d, 'f) TradingPanel" where
  "TradingPanel_init =
   \<lparr> pnl_host = kTradingGatewayHost, pnl_port = kTradingGatewayPort, pnl_client_id = 0, pnl_gateway_id = kDefaultGatewayId, pnl_key_hex = [],
     pnl_connect_error = [], pnl_confirmations = [], pnl_session = None, pnl_next_local_order_id = 1, pnl_balance_results = [],
     pnl_balance_query_in_flight = False, pnl_asset_id = 1, pnl_price = 0, pnl_amount = 0, pnl_type_idx = 0, pnl_side_idx = 0,
     pnl_watch_asset_id = 1, pnl_cancel_order_id = 0, pnl_toasts = [], pnl_notification_history = [] \<rparr>"

text \<open>A click on Connect: the panel with a fresh session, and what the connecting thread is started with.\<close>

definition do_connect :: "('d, 'f) TradingPanel \<Rightarrow> ('d, 'f) TradingPanel \<times> (string \<times> u16 \<times> u32 \<times> u8 list) option" where
  "do_connect panel =
     (case parse_hex_key (pnl_key_hex panel) of
        None \<Rightarrow> (panel \<lparr> pnl_connect_error := ''key must be 64 hex chars (32 bytes)'' \<rparr>, None)
      | Some key \<Rightarrow>
          (panel \<lparr> pnl_connect_error := [], pnl_session := Some TradingSession_init \<rparr>,
           Some (pnl_host panel, word_of_int (pnl_port panel), pnl_client_id panel, key)))"

definition query_balance :: "('d, 'f) TradingPanel \<Rightarrow> ('d, 'f) TradingPanel \<times> (u32 \<times> u8 list \<times> u16) option" where
  "query_balance panel =
     (if pnl_balance_query_in_flight panel then (panel, None)
      else case parse_hex_key (pnl_key_hex panel) of
             None \<Rightarrow> (panel, None)
           | Some key \<Rightarrow> (panel \<lparr> pnl_balance_query_in_flight := True \<rparr>,
               Some (pnl_client_id panel, key, word_of_int (pnl_gateway_id panel))))"

definition push_toast :: "'d \<Rightarrow> 'f \<Rightarrow> string \<Rightarrow> bool \<Rightarrow> ('d, 'f) TradingPanel \<Rightarrow> ('d, 'f) TradingPanel" where
  "push_toast now four text is_error panel =
     (let hist = pnl_notification_history panel @ [\<lparr> note_text = text, note_is_error = is_error, note_created_at = now \<rparr>] in
      panel \<lparr> pnl_notification_history := if length hist > kMaxHistory then tl hist else hist,
              pnl_toasts := pnl_toasts panel @ [\<lparr> toast_text = text, toast_is_error = is_error, toast_ttl = four \<rparr>] \<rparr>)"

definition confirmation_text :: "GatewayConfirmation \<Rightarrow> string" where
  "confirmation_text c = ''Order '' @ to_string (unat (gcf_OrderId c)) @ '' (local #'' @ to_string (unat (gcf_ClientOrderId c)) @ ''): '' @
     status_ToString (gcf_Status c)"

definition drain_confirmations :: "'d \<Rightarrow> 'f \<Rightarrow> ('d, 'f) TradingPanel \<Rightarrow> ('d, 'f) TradingPanel" where
  "drain_confirmations now four panel =
     (case mpsc_drain_all (pnl_confirmations panel) of (cs, q) \<Rightarrow>
        fold (\<lambda>c. push_toast now four (confirmation_text c) (gcf_Status c \<noteq> 0)) cs (panel \<lparr> pnl_confirmations := q \<rparr>))"

text \<open>One snapshot of balances, also as the lookup page applies it.\<close>

definition apply_balance_snapshot :: "ClientBalanceSnapshot \<Rightarrow> 'd AppState \<Rightarrow> 'd AppState" where
  "apply_balance_snapshot snap st =
     (let bal = (case app_balances st (cbs_client_id snap) of Some b \<Rightarrow> b | None \<Rightarrow> empty_LiveBalance);
          bal = (if cbs_ok snap
                 then bal \<lparr> lb_has_snapshot := True,
                        lb_positions := fold (\<lambda>(asset_id, confirmed, attempt) m. m(asset_id \<mapsto> (confirmed, attempt))) (cbs_positions snap) Map.empty,
                        lb_last_error := [] \<rparr>
                 else bal \<lparr> lb_last_error := cbs_error snap \<rparr>) in
      st \<lparr> app_balances := (app_balances st)(cbs_client_id snap \<mapsto> bal) \<rparr>)"

definition drain_balance_results :: "('d, 'f) TradingPanel \<times> 'd AppState \<Rightarrow> ('d, 'f) TradingPanel \<times> 'd AppState" where
  "drain_balance_results s =
     (case s of (panel, st) \<Rightarrow>
        (case mpsc_drain_all (pnl_balance_results panel) of (snaps, q) \<Rightarrow>
           fold (\<lambda>snap (panel, st). (panel \<lparr> pnl_balance_query_in_flight := False \<rparr>, apply_balance_snapshot snap st)) snaps
             (panel \<lparr> pnl_balance_results := q \<rparr>, st)))"

definition tick_toasts :: "('f \<Rightarrow> 'f \<Rightarrow> 'f) \<Rightarrow> ('f :: {linorder, zero}) \<Rightarrow> ('d, 'f) TradingPanel \<Rightarrow> ('d, 'f) TradingPanel" where
  "tick_toasts sub dt panel =
     panel \<lparr> pnl_toasts := filter (\<lambda>t. \<not> toast_ttl t \<le> 0) (map (\<lambda>t. t \<lparr> toast_ttl := sub (toast_ttl t) dt \<rparr>) (pnl_toasts panel)) \<rparr>"

text \<open>The two buttons; without a session there is a null pointer.\<close>

definition submit_order :: "'d \<Rightarrow> 'f \<Rightarrow> ('d, 'f) TradingPanel \<Rightarrow> network \<Rightarrow> (('d, 'f) TradingPanel \<times> network) option" where
  "submit_order now four panel net =
     (let local_id = pnl_next_local_order_id panel; panel = panel \<lparr> pnl_next_local_order_id := local_id + 1 \<rparr> in
      case pnl_session panel of
        None \<Rightarrow> None
      | Some s \<Rightarrow>
          (case send_order local_id (if pnl_type_idx panel = 0 then LIMIT else MARKET) (if pnl_side_idx panel = 0 then BUY else SELL)
             (pnl_price panel) (pnl_amount panel) (pnl_asset_id panel) s net of (ok, net) \<Rightarrow>
             Some (if ok then panel else push_toast now four ''Failed to send order (socket error)'' True panel, net)))"

definition submit_cancel :: "'d \<Rightarrow> 'f \<Rightarrow> ('d, 'f) TradingPanel \<Rightarrow> network \<Rightarrow> (('d, 'f) TradingPanel \<times> network) option" where
  "submit_cancel now four panel net =
     (let local_id = pnl_next_local_order_id panel; panel = panel \<lparr> pnl_next_local_order_id := local_id + 1 \<rparr>;
          target_order_id = word_of_int (max 0 (pnl_cancel_order_id panel)) in
      case pnl_session panel of
        None \<Rightarrow> None
      | Some s \<Rightarrow>
          (case send_cancel_order local_id target_order_id (pnl_asset_id panel) s net of (ok, net) \<Rightarrow>
             Some (if ok then panel else push_toast now four ''Failed to send cancel (socket error)'' True panel, net)))"

section \<open>Multicast feeds\<close>

record MulticastReceiver =
  mcr_local_interface_name :: string
  mcr_fd :: int
  mcr_running :: bool
  mcr_thread :: bool

text \<open>The answers of \<open>socket\<close>, \<open>SO_BINDTODEVICE\<close>, \<open>bind\<close>, \<open>if_nametoindex\<close> and \<open>IP_ADD_MEMBERSHIP\<close>; \<open>Inl\<close> is the exception
  thrown, with the state it leaves.\<close>

definition MulticastReceiver_start ::
  "int \<Rightarrow> bool \<Rightarrow> bool \<Rightarrow> int \<Rightarrow> bool \<Rightarrow> MulticastReceiver \<Rightarrow> (string \<times> MulticastReceiver) + MulticastReceiver" where
  "MulticastReceiver_start sock device bound ifindex joined r =
     (if mcr_running r then Inr r
      else let r = r \<lparr> mcr_running := True, mcr_fd := sock \<rparr> in
        if sock < 0 then Inl (''socket() failed'', r)
        else if mcr_local_interface_name r \<noteq> [] \<and> \<not> device then Inl (''SO_BINDTODEVICE failed'', r)
        else if \<not> bound then Inl (''bind() failed'', r)
        else if mcr_local_interface_name r \<noteq> [] \<and> ifindex = 0 then Inl (''interface not found'', r)
        else if \<not> joined then Inl (''IP_ADD_MEMBERSHIP failed'', r)
        else Inr (r \<lparr> mcr_thread := True \<rparr>))"

text \<open>Stopping, and the descriptor it closes.\<close>

definition MulticastReceiver_stop :: "MulticastReceiver \<Rightarrow> int option \<times> MulticastReceiver" where
  "MulticastReceiver_stop r =
     (if \<not> mcr_running r then (None, r)
      else let r = r \<lparr> mcr_running := False \<rparr>; fd = mcr_fd r in
        (if fd \<ge> 0 then Some fd else None, r \<lparr> mcr_fd := (if fd \<ge> 0 then - 1 else fd), mcr_thread := False \<rparr>))"

datatype datagram = Datagram "u8 list" | RecvError

fun MulticastReceiver_run :: "(u8 list \<Rightarrow> 'q \<Rightarrow> 'q) \<Rightarrow> datagram list \<Rightarrow> 'q \<Rightarrow> 'q" where
  "MulticastReceiver_run handler [] q = q"
| "MulticastReceiver_run handler (RecvError # ds) q = MulticastReceiver_run handler ds q"
| "MulticastReceiver_run handler (Datagram bs # ds) q = MulticastReceiver_run handler ds (handler (take 65536 bs) q)"

definition packet_objects :: "'a wire_layout \<Rightarrow> u8 list \<Rightarrow> 'a list" where
  "packet_objects lay data =
     (if length data = 0 \<or> length data mod lay_sizeof lay \<noteq> 0 then []
      else map (\<lambda>i. lay_decode lay (take (lay_sizeof lay) (drop (i * lay_sizeof lay) data))) [0..<length data div lay_sizeof lay])"

definition order_state_handler :: "'d \<Rightarrow> u8 list \<Rightarrow> 'd Stamped_report MpscQueue \<Rightarrow> 'd Stamped_report MpscQueue" where
  "order_state_handler recv_time data q =
     fold (\<lambda>r. mpsc_push \<lparr> sr_recv_time = recv_time, sr_msg = r \<rparr>) (packet_objects report_layout data) q"

definition order_book_handler :: "'d \<Rightarrow> u8 list \<Rightarrow> 'd Stamped_update MpscQueue \<Rightarrow> 'd Stamped_update MpscQueue" where
  "order_book_handler recv_time data q =
     fold (\<lambda>u. mpsc_push \<lparr> su_recv_time = recv_time, su_msg = u \<rparr>) (packet_objects update_layout data) q"

section \<open>Pages\<close>

text \<open>The largest depth and the total depth of the first rows of a side.\<close>

definition side_totals :: "nat \<Rightarrow> (i64 \<times> u32) list \<Rightarrow> u32 \<Rightarrow> u32 \<times> u64" where
  "side_totals max_rows m max_qty = fold (\<lambda>(_, q) (mx, total). (max mx q, total + ucast q)) (take max_rows m) (max_qty, 0)"

definition table_totals :: "nat \<Rightarrow> app_OrderBook \<Rightarrow> u32 \<times> u64 \<times> u64" where
  "table_totals max_rows book =
     (case side_totals max_rows (abk_bids book) 1 of (mx, bid_total) \<Rightarrow>
        case side_totals max_rows (abk_asks book) mx of (mx, ask_total) \<Rightarrow> (mx, bid_total, ask_total))"

fun cumulate :: "u32 \<Rightarrow> (i64 \<times> u32) list \<Rightarrow> (i64 \<times> u32) list" where
  "cumulate running [] = []"
| "cumulate running ((p, q) # m) = (p, running + q) # cumulate (running + q) m"

definition depth_chart :: "nat \<Rightarrow> app_OrderBook \<Rightarrow> (i64 \<times> u32) list \<times> (i64 \<times> u32) list \<times> u32" where
  "depth_chart max_levels book =
     (let bid_cum = cumulate 0 (take max_levels (abk_bids book)); ask_cum = cumulate 0 (take max_levels (abk_asks book));
          max_cum = (if bid_cum \<noteq> [] then max 1 (snd (last bid_cum)) else 1);
          max_cum = (if ask_cum \<noteq> [] then max max_cum (snd (last ask_cum)) else max_cum) in
      (bid_cum, ask_cum, max_cum))"

text \<open>\<open>std::upper_bound\<close> on samples in the order of their times.\<close>

definition quote_at :: "('d :: linorder) QuoteSample list \<Rightarrow> 'd \<Rightarrow> 'd QuoteSample option" where
  "quote_at quotes t =
     (let before = takeWhile (\<lambda>q. \<not> t < qs_time q) quotes in if before = [] then None else Some (last before))"

record SessionStats =
  sst_last :: i64
  sst_prev :: i64
  sst_change :: i64
  sst_high :: i64
  sst_low :: i64
  sst_volume :: u64
  sst_trades :: nat

definition session_stats :: "'d TradePrint list \<Rightarrow> SessionStats option" where
  "session_stats trades =
     (if trades = [] then None
      else let last' = tp_price (last trades); first = tp_price (hd trades);
               prev = (case find (\<lambda>t. tp_price t \<noteq> last') (rev trades) of Some t \<Rightarrow> tp_price t | None \<Rightarrow> last') in
        Some \<lparr> sst_last = last', sst_prev = prev, sst_change = wrap64 (last' - first),
          sst_high = fold (\<lambda>t hi. max hi (tp_price t)) trades first, sst_low = fold (\<lambda>t lo. min lo (tp_price t)) trades first,
          sst_volume = fold (\<lambda>t v. v + ucast (tp_qty t)) trades 0, sst_trades = length trades \<rparr>)"

definition quote_strip :: "u16 \<Rightarrow> 'd AppState \<Rightarrow> i64 \<times> i64 \<times> i64 option" where
  "quote_strip asset st =
     (let (bid, ask) = (case app_order_books st asset of Some book \<Rightarrow> (best_bid book, best_ask book) | None \<Rightarrow> (0, 0)) in
      (bid, ask, if bid \<noteq> 0 \<and> ask \<noteq> 0 then Some (wrap64 (ask - bid)) else None))"

text \<open>How a fill reads in the trade feed: the asset, whether it was bought, and how much.\<close>

definition fill_line :: "TradeFeedEntry \<Rightarrow> u16 \<times> bool \<times> i64" where
  "fill_line e =
     (let asset = (if tfe_bought_asset e \<noteq> 0 then tfe_bought_asset e else tfe_sold_asset e);
          delta = (if tfe_bought_asset e \<noteq> 0 then tfe_bought_delta e else tfe_sold_delta e) in
      (asset, delta \<ge> 0, if delta < 0 then wrap64 (- delta) else delta))"

section \<open>One frame\<close>

definition feed_entry :: "OrderStateReport \<Rightarrow> TradeFeedEntry" where
  "feed_entry r =
   \<lparr> tfe_sequence_id = rep_SequenceId r, tfe_trade_id = rep_TradeId r, tfe_client_id = rep_ClientId r, tfe_order_id = rep_OrderId r,
     tfe_bought_asset = rep_BoughtAssetId r, tfe_sold_asset = rep_SoldAssetId r, tfe_bought_delta = rep_BoughtDelta r,
     tfe_sold_delta = rep_SoldDelta r, tfe_sold_attempt_delta = rep_SoldAttemptDelta r, tfe_state = rep_State r,
     tfe_ingested_ts = 0, tfe_routed_ts = 0, tfe_received_ts = 0, tfe_update_ts = 0 \<rparr>"

definition dash_apply_report :: "'d Stamped_report \<Rightarrow> 'd AppState \<Rightarrow> 'd AppState" where
  "dash_apply_report s st =
     record_order_report (sr_msg s) (sr_recv_time s) (apply_trade_to_balance (sr_msg s) (push_trade (feed_entry (sr_msg s)) st))"

definition dash_apply_update :: "'d Stamped_update \<Rightarrow> 'd AppState \<Rightarrow> 'd AppState" where
  "dash_apply_update s st = (if upd_AssetId (su_msg s) = 0 then st else record_book_update (su_msg s) (su_recv_time s) st)"

record ('d, 'f) Dashboard =
  dsh_app :: "'d AppState"
  dsh_etcd_events :: "EtcdEvent MpscQueue"
  dsh_trade_events :: "'d Stamped_report MpscQueue"
  dsh_book_events :: "'d Stamped_update MpscQueue"
  dsh_panel_a :: "('d, 'f) TradingPanel"
  dsh_panel_b :: "('d, 'f) TradingPanel"

definition Dashboard_init :: "('d, 'f) Dashboard" where
  "Dashboard_init = \<lparr> dsh_app = AppState_init, dsh_etcd_events = [], dsh_trade_events = [], dsh_book_events = [],
     dsh_panel_a = TradingPanel_init, dsh_panel_b = TradingPanel_init \<rparr>"

definition frame_drain ::
  "('f \<Rightarrow> 'f \<Rightarrow> 'f) \<Rightarrow> 'f \<Rightarrow> 'd \<Rightarrow> ('f :: {linorder, zero}) \<Rightarrow> ('d, 'f) Dashboard \<Rightarrow> ('d, 'f) Dashboard" where
  "frame_drain sub four now dt d =
     (let (evs, etcd) = mpsc_drain_all (dsh_etcd_events d); st = fold apply_etcd_event evs (dsh_app d);
          (reports, trades) = mpsc_drain_all (dsh_trade_events d); st = fold dash_apply_report reports st;
          (updates, books) = mpsc_drain_all (dsh_book_events d); st = fold dash_apply_update updates st;
          a = drain_confirmations now four (dsh_panel_a d);
          b = drain_confirmations now four (dsh_panel_b d);
          (a, st) = drain_balance_results (a, st);
          (b, st) = drain_balance_results (b, st) in
      \<lparr> dsh_app = st, dsh_etcd_events = etcd, dsh_trade_events = trades, dsh_book_events = books,
        dsh_panel_a = tick_toasts sub dt a, dsh_panel_b = tick_toasts sub dt b \<rparr>)"

end
