(* ===== verification/Dashboard_Props.thy ===== *)
theory Dashboard_Props
  imports App_Props Dashboard
begin

text \<open>
  What the dashboard does with the outside world: the session's bytes and the confirmations read back, keys typed as
  hexadecimal digits, the services mirrored from etcd, the balances taken over from the account service, and the bounds
  of everything it accumulates.
\<close>

section \<open>Whole messages\<close>

text \<open>A network that takes at least one byte per call.\<close>

definition takes_bytes :: "network \<Rightarrow> bool" where
  "takes_bytes net \<longleftrightarrow> (\<forall>a \<in> set (net_Answers net). \<exists>n > 0. a = Takes n)"

lemma ts_send_all_ok:
  assumes "takes_bytes net" "sent \<le> length bs"
  shows "\<exists>net'. ts_send_all fd bs sent net = (True, net') \<and> takes_bytes net' \<and> net_Sent net' = (net_Sent net)(fd := net_Sent net fd @ drop sent bs)"
  using assms
proof (induction fd bs sent net rule: ts_send_all.induct)
  case (1 fd bs sent net)
  show ?case
  proof (cases "sent < length bs")
    case True
    obtain n net1 where s: "send fd (drop sent bs) net = (n, net1)" by fastforce
    note e = send_effect[OF s]
    have n: "0 < n" using s True "1.prems"(1) by (auto simp: send_def takes_bytes_def split: list.splits send_answer.splits)
    have t: "takes_bytes net1" using "1.prems"(1) e(3) by (cases "net_Answers net") (auto simp: takes_bytes_def)
    have "sent + nat n \<le> length bs" using e(1) True n by simp
    moreover have "\<not> n \<le> 0" using n by simp
    ultimately obtain net' where
      "ts_send_all fd bs (sent + nat n) net1 = (True, net')" "takes_bytes net'"
      "net_Sent net' = (net_Sent net1)(fd := net_Sent net1 fd @ drop (sent + nat n) bs)"
      using "1.IH"[OF True s[symmetric] _ t] by blast
    moreover have "take (nat n) (drop sent bs) @ drop (sent + nat n) bs = drop sent bs"
      using append_take_drop_id[of "nat n" "drop sent bs"] by (simp add: add.commute)
    ultimately show ?thesis using s n True e(2) by (auto simp: ts_send_all.simps[of fd bs sent] fun_eq_iff)
  next
    case False
    then have "ts_send_all fd bs sent net = (True, net)" by (subst ts_send_all.simps) simp
    then show ?thesis using False "1.prems" by simp
  qed
qed

text \<open>A read of as many bytes as arrive takes the first of them, however they are cut.\<close>

lemma ts_recv_all_chunks:
  assumes "[] \<notin> set chunks" "length got \<le> len" "len \<le> length got + length (concat chunks)"
  shows "\<exists>chunks'. ts_recv_all len got (map Bytes chunks) = Got (got @ take (len - length got) (concat chunks)) (map Bytes chunks') \<and>
    concat chunks' = drop (len - length got) (concat chunks) \<and> [] \<notin> set chunks'"
  using assms
proof (induction chunks arbitrary: got)
  case Nil
  then show ?case by (simp add: ts_recv_all.simps)
next
  case (Cons c chunks)
  let ?n = "len - length got"
  show ?case
  proof (cases "length got < len")
    case True
    have step: "ts_recv_all len got (map Bytes (c # chunks)) =
        ts_recv_all len (got @ take ?n c) (if length c \<le> ?n then map Bytes chunks else Bytes (drop ?n c) # map Bytes chunks)"
      using True Cons.prems(1) by (subst ts_recv_all.simps) auto
    show ?thesis
    proof (cases "length c \<le> ?n")
      case le: True
      then have "\<exists>chunks'. ts_recv_all len (got @ c) (map Bytes chunks) = Got ((got @ c) @ take (len - length (got @ c)) (concat chunks)) (map Bytes chunks') \<and>
          concat chunks' = drop (len - length (got @ c)) (concat chunks) \<and> [] \<notin> set chunks'"
        using Cons.prems True by (intro Cons.IH) auto
      then show ?thesis using step le by (simp add: diff_diff_left)
    next
      case gt: False
      then have "ts_recv_all len (got @ take ?n c) (Bytes (drop ?n c) # map Bytes chunks) = Got (got @ take ?n c) (map Bytes (drop ?n c # chunks))"
        using True by (subst ts_recv_all.simps) simp
      then show ?thesis using step gt Cons.prems(1) by (intro exI[of _ "drop ?n c # chunks"]) simp
    qed
  next
    case False
    then show ?thesis using Cons.prems by (intro exI[of _ "c # chunks"]) (simp add: ts_recv_all.simps[of len got])
  qed
qed

section \<open>Confirmations\<close>

definition client_view :: "OrderConfirmation \<Rightarrow> GatewayConfirmation" where
  "client_view c = \<lparr> gcf_OrderId = conf_OrderId c, gcf_ClientOrderId = conf_ClientOrderId c,
     gcf_Status = OrderConfirmationStatus_code (conf_Status c) \<rparr>"

lemma decode_encode_OrderConfirmation: "decode_OrderConfirmation (encode_OrderConfirmation c) = client_view c"
  by (simp add: decode_OrderConfirmation_def encode_OrderConfirmation_def client_view_def le_value_range nth_append)

lemma read_loop_ok:
  assumes "concat chunks = concat (map encode_OrderConfirmation cs)" "[] \<notin> set chunks" "tss_running s"
  shows "read_loop (map Bytes chunks) s q = (s, q @ map client_view cs, [])"
  using assms(1,2)
proof (induction cs arbitrary: chunks q)
  case Nil
  then have "chunks = []" by (cases chunks) auto
  then show ?case using assms(3) by (simp add: read_loop.simps ts_recv_all.simps sizeof_OrderConfirmation_def)
next
  case (Cons c cs)
  have len: "length (encode_OrderConfirmation c) = sizeof_OrderConfirmation" by simp
  from ts_recv_all_chunks[OF Cons.prems(2), of "[]" sizeof_OrderConfirmation] Cons.prems(1) len obtain chunks' where
    r: "ts_recv_all sizeof_OrderConfirmation [] (map Bytes chunks) = Got (encode_OrderConfirmation c) (map Bytes chunks')"
      "concat chunks' = concat (map encode_OrderConfirmation cs)" "[] \<notin> set chunks'"
    by auto
  then show ?case using assms(3) Cons.IH[OF r(2,3)] decode_encode_OrderConfirmation
    by (simp add: read_loop.simps[of "map Bytes chunks"] mpsc_push_def)
qed

text \<open>A panel tells its user of every confirmation: what is left of the old notifications and one for each, and the last
  \<open>kMaxHistory\<close> entries in the history.\<close>

definition confirmation_toast :: "'f \<Rightarrow> GatewayConfirmation \<Rightarrow> 'f Toast" where
  "confirmation_toast ttl c = \<lparr> toast_text = confirmation_text c, toast_is_error = gcf_Status c \<noteq> 0, toast_ttl = ttl \<rparr>"

definition confirmation_note :: "'d \<Rightarrow> GatewayConfirmation \<Rightarrow> 'd NotificationEntry" where
  "confirmation_note now c = \<lparr> note_text = confirmation_text c, note_is_error = gcf_Status c \<noteq> 0, note_created_at = now \<rparr>"

definition newest :: "nat \<Rightarrow> 'a list \<Rightarrow> 'a list" where
  "newest n xs = drop (length xs - n) xs"

lemma newest_snoc: "newest n (newest n xs @ ys) = newest n (xs @ ys)"
  by (cases "n \<le> length xs") (auto simp: newest_def add.commute)

lemma drain_confirmations_notes:
  "pnl_confirmations (drain_confirmations now four panel) = [] \<and>
   pnl_toasts (drain_confirmations now four panel) = pnl_toasts panel @ map (confirmation_toast four) (pnl_confirmations panel)"
proof -
  have "pnl_confirmations (fold (\<lambda>c. push_toast now four (confirmation_text c) (gcf_Status c \<noteq> 0)) cs p) = pnl_confirmations p \<and>
    pnl_toasts (fold (\<lambda>c. push_toast now four (confirmation_text c) (gcf_Status c \<noteq> 0)) cs p) = pnl_toasts p @ map (confirmation_toast four) cs" for cs p
    by (induction cs arbitrary: p) (simp_all add: push_toast_def confirmation_toast_def Let_def)
  then show ?thesis by (simp add: drain_confirmations_def)
qed

lemma drain_confirmations_history:
  assumes "length (pnl_notification_history panel) \<le> kMaxHistory"
  shows "pnl_notification_history (drain_confirmations now four panel) =
    newest kMaxHistory (pnl_notification_history panel @ map (confirmation_note now) (pnl_confirmations panel))"
proof -
  have "pnl_notification_history (fold (\<lambda>c. push_toast now four (confirmation_text c) (gcf_Status c \<noteq> 0)) cs p) =
      newest kMaxHistory (pnl_notification_history p @ map (confirmation_note now) cs)" if "length (pnl_notification_history p) \<le> kMaxHistory" for cs p
    using that
  proof (induction cs arbitrary: p)
    case (Cons c cs)
    let ?p = "push_toast now four (confirmation_text c) (gcf_Status c \<noteq> 0) p"
    have h: "pnl_notification_history ?p = newest kMaxHistory (pnl_notification_history p @ [confirmation_note now c])"
    proof (cases "length (pnl_notification_history p) = kMaxHistory")
      case True
      then have "Suc (length (pnl_notification_history p)) - kMaxHistory = 1" "pnl_notification_history p \<noteq> []" by (auto simp: kMaxHistory_def)
      then show ?thesis using True by (simp add: push_toast_def confirmation_note_def newest_def Let_def drop_Suc kMaxHistory_def)
    qed (use Cons.prems in \<open>simp add: push_toast_def confirmation_note_def newest_def Let_def\<close>)
    then have "length (pnl_notification_history ?p) \<le> kMaxHistory" by (simp add: newest_def)
    from Cons.IH[OF this] show ?case by (simp add: h newest_snoc)
  qed (simp add: newest_def)
  from this[of "panel \<lparr> pnl_confirmations := [] \<rparr>" "pnl_confirmations panel"] assms show ?thesis by (simp add: drain_confirmations_def)
qed

lemma drain_balance_results_panel:
  "pnl_confirmations (fst (drain_balance_results (panel, st))) = pnl_confirmations panel"
  "pnl_toasts (fst (drain_balance_results (panel, st))) = pnl_toasts panel"
  "pnl_notification_history (fst (drain_balance_results (panel, st))) = pnl_notification_history panel"
proof -
  let ?same = "\<lambda>p p'. pnl_confirmations p' = pnl_confirmations p \<and> pnl_toasts p' = pnl_toasts p \<and> pnl_notification_history p' = pnl_notification_history p"
  have "?same p (fst (fold (\<lambda>snap (panel, st). (panel \<lparr> pnl_balance_query_in_flight := False \<rparr>, apply_balance_snapshot snap st)) snaps (p, st)))"
    for p snaps by (induction snaps arbitrary: p st) simp_all
  from this[of "pnl_balance_results panel" "panel \<lparr> pnl_balance_results := [] \<rparr>"] show
    "pnl_confirmations (fst (drain_balance_results (panel, st))) = pnl_confirmations panel"
    "pnl_toasts (fst (drain_balance_results (panel, st))) = pnl_toasts panel"
    "pnl_notification_history (fst (drain_balance_results (panel, st))) = pnl_notification_history panel"
    by (simp_all add: drain_balance_results_def)
qed

text \<open>A frame in which a panel hears of the confirmations \<open>cs\<close>: its old notifications with their time reduced, those whose
  time is up removed, then the new ones.\<close>

definition aged :: "('f \<Rightarrow> 'f \<Rightarrow> 'f) \<Rightarrow> ('f :: {linorder, zero}) \<Rightarrow> 'f Toast list \<Rightarrow> 'f Toast list" where
  "aged sub dt ts = filter (\<lambda>t. \<not> toast_ttl t \<le> 0) (map (\<lambda>t. t \<lparr> toast_ttl := sub (toast_ttl t) dt \<rparr>) ts)"

definition told :: "('f \<Rightarrow> 'f \<Rightarrow> 'f) \<Rightarrow> 'f \<Rightarrow> 'd \<Rightarrow> ('f :: {linorder, zero}) \<Rightarrow> GatewayConfirmation list \<Rightarrow> ('d, 'f) TradingPanel \<Rightarrow> ('d, 'f) TradingPanel \<Rightarrow> bool" where
  "told sub four now dt cs panel panel' \<longleftrightarrow> pnl_confirmations panel' = [] \<and>
     pnl_toasts panel' = aged sub dt (pnl_toasts panel) @ map (confirmation_toast (sub four dt)) cs \<and>
     pnl_notification_history panel' = newest kMaxHistory (pnl_notification_history panel @ map (confirmation_note now) cs)"

lemma aged_confirmations:
  "aged sub dt (ts @ map (confirmation_toast four) cs) =
     aged sub dt ts @ (if sub four dt \<le> 0 then [] else map (confirmation_toast (sub four dt)) cs)"
  by (induction cs) (simp_all add: aged_def confirmation_toast_def)

lemma frame_drain_panels:
  fixes d :: "('d, 'f :: {linorder, zero}) Dashboard"
  shows "\<exists>st1 st2. dsh_panel_a (frame_drain sub four now dt d) =
      tick_toasts sub dt (fst (drain_balance_results (drain_confirmations now four (dsh_panel_a d), st1))) \<and>
    dsh_panel_b (frame_drain sub four now dt d) =
      tick_toasts sub dt (fst (drain_balance_results (drain_confirmations now four (dsh_panel_b d), st2)))"
proof -
  define st where "st = fold dash_apply_update (dsh_book_events d) (fold dash_apply_report (dsh_trade_events d)
    (fold apply_etcd_event (dsh_etcd_events d) (dsh_app d)))"
  obtain a st1 where a: "drain_balance_results (drain_confirmations now four (dsh_panel_a d), st) = (a, st1)" by fastforce
  obtain b st2 where b: "drain_balance_results (drain_confirmations now four (dsh_panel_b d), st1) = (b, st2)" by fastforce
  show ?thesis using a b by (intro exI[of _ st] exI[of _ st1]) (simp add: frame_drain_def st_def)
qed

lemma frame_drain_toasts:
  fixes d :: "('d, 'f :: {linorder, zero}) Dashboard"
  shows "pnl_toasts (dsh_panel_a (frame_drain sub four now dt d)) =
      aged sub dt (pnl_toasts (dsh_panel_a d) @ map (confirmation_toast four) (pnl_confirmations (dsh_panel_a d)))"
    "pnl_toasts (dsh_panel_b (frame_drain sub four now dt d)) =
      aged sub dt (pnl_toasts (dsh_panel_b d) @ map (confirmation_toast four) (pnl_confirmations (dsh_panel_b d)))"
proof -
  obtain st1 st2 where "dsh_panel_a (frame_drain sub four now dt d) =
      tick_toasts sub dt (fst (drain_balance_results (drain_confirmations now four (dsh_panel_a d), st1)))"
    "dsh_panel_b (frame_drain sub four now dt d) =
      tick_toasts sub dt (fst (drain_balance_results (drain_confirmations now four (dsh_panel_b d), st2)))"
    using frame_drain_panels[of sub four now dt d] by blast
  then show "pnl_toasts (dsh_panel_a (frame_drain sub four now dt d)) =
      aged sub dt (pnl_toasts (dsh_panel_a d) @ map (confirmation_toast four) (pnl_confirmations (dsh_panel_a d)))"
    "pnl_toasts (dsh_panel_b (frame_drain sub four now dt d)) =
      aged sub dt (pnl_toasts (dsh_panel_b d) @ map (confirmation_toast four) (pnl_confirmations (dsh_panel_b d)))"
    by (simp_all add: tick_toasts_def drain_balance_results_panel drain_confirmations_notes aged_def)
qed

lemma frame_drain_told:
  fixes d :: "('d, 'f :: {linorder, zero}) Dashboard"
  assumes "\<not> sub four dt \<le> 0" "length (pnl_notification_history (dsh_panel_a d)) \<le> kMaxHistory"
    "length (pnl_notification_history (dsh_panel_b d)) \<le> kMaxHistory"
  shows "told sub four now dt (pnl_confirmations (dsh_panel_a d)) (dsh_panel_a d) (dsh_panel_a (frame_drain sub four now dt d)) \<and>
    told sub four now dt (pnl_confirmations (dsh_panel_b d)) (dsh_panel_b d) (dsh_panel_b (frame_drain sub four now dt d))"
proof -
  obtain st1 st2 where "dsh_panel_a (frame_drain sub four now dt d) =
      tick_toasts sub dt (fst (drain_balance_results (drain_confirmations now four (dsh_panel_a d), st1)))"
    "dsh_panel_b (frame_drain sub four now dt d) =
      tick_toasts sub dt (fst (drain_balance_results (drain_confirmations now four (dsh_panel_b d), st2)))"
    using frame_drain_panels[of sub four now dt d] by blast
  then show ?thesis using assms frame_drain_toasts[of sub four now dt d]
    by (simp add: told_def aged_confirmations tick_toasts_def drain_balance_results_panel drain_confirmations_notes drain_confirmations_history)
qed

section \<open>Orders\<close>

text \<open>What the session puts on the wire.\<close>

lemma session_order_wire:
  assumes "in_i64 price" "type = LIMIT \<or> type = MARKET" "side = BUY \<or> side = SELL" "action = EXECUTE \<or> action = CANCEL"
  shows "wire_order (session_order local_order_id price amount asset type side action s)"
  using assms by (auto simp: session_order_def wire_order_def OrderType_of_def OrderSide_of_def OrderAction_of_def)

definition orders_sent :: "(bool \<times> network) \<Rightarrow> int \<Rightarrow> network \<Rightarrow> u8 list \<Rightarrow> bool" where
  "orders_sent r fd net bs \<longleftrightarrow> fst r \<and> takes_bytes (snd r) \<and> net_Sent (snd r) = (net_Sent net)(fd := net_Sent net fd @ bs)"

lemma ts_send_all_sent: "takes_bytes net \<Longrightarrow> orders_sent (ts_send_all fd bs 0 net) fd net bs"
  using ts_send_all_ok[of net 0 bs fd] by (auto simp: orders_sent_def)

lemma session_send_ok:
  assumes "takes_bytes net" "tss_state s = Connected"
  shows "orders_sent (send_order i type side price amount asset s net) (tss_fd s) net
      (encode_Order (session_order i price amount asset type side EXECUTE s))"
    "orders_sent (send_cancel_order i target asset s net) (tss_fd s) net
      (encode_Order (session_order i 0 target asset LIMIT BUY CANCEL s))"
  using assms by (simp_all add: send_order_def send_cancel_order_def ts_send_all_sent)

lemma session_connect_ok:
  assumes "takes_bytes net" "0 \<le> sock"
  shows "\<exists>net'. session_connect sock True None host client_id key s net =
      (s \<lparr> tss_state := Connected, tss_client_id := client_id, tss_key := key, tss_fd := sock, tss_running := True, tss_reader := True \<rparr>, net') \<and>
    takes_bytes net' \<and>
    net_Sent net' = (net_Sent net)(sock := net_Sent net sock @ encode_ClientAuthRequest \<lparr> car_RequestType = 65, car_ClientId = client_id, car_Key = key \<rparr>)"
  using assms ts_send_all_ok[OF assms(1), of 0 "encode_ClientAuthRequest \<lparr> car_RequestType = 65, car_ClientId = client_id, car_Key = key \<rparr>" sock]
  by (auto simp: session_connect_def Let_def client_request_def)

text \<open>A session that could not be established keeps no descriptor and refuses orders without touching the network.\<close>

lemma session_connect_fails:
  assumes "session_connect sock pton conn host client_id key s net = (s', net')" "tss_state s' \<noteq> Connected"
  shows "tss_state s' = SessionFailed \<and> tss_fd s' < 0 \<and> send_order i type side price amount asset s' net' = (False, net') \<and>
    send_cancel_order i target asset s' net' = (False, net')"
  using assms by (auto simp: session_connect_def Let_def set_last_error_def send_order_def send_cancel_order_def
      split: if_splits option.splits prod.splits)

section \<open>Keys\<close>

definition hex_char :: "nat \<Rightarrow> char" where
  "hex_char n = char_of (if n < 10 then 48 + n else 87 + n)"

definition hex_of_key :: "u8 list \<Rightarrow> string" where
  "hex_of_key bs = concat (map (\<lambda>b. [hex_char (unat b div 16), hex_char (unat b mod 16)]) bs)"

lemma hex_char_props:
  assumes "n < 16"
  shows "is_xdigit (hex_char n)" "xdigit_value (hex_char n) = int n" "\<not> is_space (hex_char n)"
    "hex_char n \<noteq> CHR ''-''" "hex_char n \<noteq> CHR ''+''" "hex_char n \<noteq> CHR ''x''" "hex_char n \<noteq> CHR ''X''"
proof -
  have "\<forall>n \<in> set [0..<16]. is_xdigit (hex_char n) \<and> xdigit_value (hex_char n) = int n \<and> \<not> is_space (hex_char n) \<and>
    hex_char n \<noteq> CHR ''-'' \<and> hex_char n \<noteq> CHR ''+'' \<and> hex_char n \<noteq> CHR ''x'' \<and> hex_char n \<noteq> CHR ''X''" by code_simp
  then show "is_xdigit (hex_char n)" "xdigit_value (hex_char n) = int n" "\<not> is_space (hex_char n)"
    "hex_char n \<noteq> CHR ''-''" "hex_char n \<noteq> CHR ''+''" "hex_char n \<noteq> CHR ''x''" "hex_char n \<noteq> CHR ''X''"
    using assms by auto
qed

lemma ucast8_of_32: "(ucast (ucast (x :: u8) :: u32) :: u8) = x"
  by transfer (simp add: take_bit_take_bit)

lemma sscanf_hex: "(ucast (word_of_int (16 * int (unat b div 16) + int (unat b mod 16)) :: u32) :: u8) = b"
proof -
  have "int (16 * (unat b div 16) + unat b mod 16) = int (unat b)" by (simp only: mult_div_mod_eq)
  then have "16 * int (unat b div 16) + int (unat b mod 16) = int (unat b)" by (simp only: of_nat_add of_nat_mult of_nat_numeral)
  then have "(word_of_int (16 * int (unat b div 16) + int (unat b mod 16)) :: u32) = ucast b"
    by (simp only: ucast_eq uint_nat)
  then show ?thesis by (simp only: ucast8_of_32)
qed

lemma parse_bytes_hex: "length bs = n \<Longrightarrow> parse_bytes n (hex_of_key bs) = Some bs"
proof (induction bs arbitrary: n)
  case (Cons b bs)
  have "unat b < 2 ^ LENGTH(8)" by (rule unsigned_less)
  then have d: "unat b div 16 < 16" by simp
  have m: "unat b mod 16 < 16" by simp
  have h: "hex_of_key (b # bs) = hex_char (unat b div 16) # hex_char (unat b mod 16) # hex_of_key bs" by (simp add: hex_of_key_def)
  have "sscanf_2x (hex_of_key (b # bs)) = Some (word_of_int (16 * int (unat b div 16) + int (unat b mod 16)))"
    unfolding h sscanf_2x_def using hex_char_props[OF d] hex_char_props[OF m] by simp
  then show ?case using Cons sscanf_hex[of b] by (auto simp: h)
qed (simp add: hex_of_key_def)

lemma parse_hex_key_hex: "length key = 32 \<Longrightarrow> parse_hex_key (hex_of_key key) = Some key"
  using parse_bytes_hex[of key 32] by (simp add: parse_hex_key_def hex_of_key_def length_concat sum_list_triv comp_def)

section \<open>Discovery\<close>

text \<open>What etcd holds after a sequence of changes, and what a value says of a service.\<close>

definition etcd_store :: "(EventType \<times> string \<times> string) list \<Rightarrow> string \<rightharpoonup> string" where
  "etcd_store evs = fold (\<lambda>(type, key, value) m. case type of EventPut \<Rightarrow> m(key \<mapsto> value) | EventDelete \<Rightarrow> m(key := None) | OtherEventType \<Rightarrow> m)
     evs Map.empty"

definition engine_info :: "'j json_api \<Rightarrow> string \<Rightarrow> MatchingEngineInfo option" where
  "engine_info js value = do { j \<leftarrow> js_parse js value; addr \<leftarrow> js_string js j ''addr'' []; asset_id \<leftarrow> js_int js j ''asset_id'' 0;
     status \<leftarrow> js_string js j ''status'' []; Some \<lparr> mei_addr = addr, mei_asset_id = word_of_int asset_id, mei_status = status \<rparr> }"

definition addr_info :: "'j json_api \<Rightarrow> string \<Rightarrow> string \<Rightarrow> AddrStatusInfo option" where
  "addr_info js field value = do { j \<leftarrow> js_parse js value; addr \<leftarrow> js_string js j field []; status \<leftarrow> js_string js j ''status'' [];
     Some \<lparr> asi_addr = addr, asi_status = status \<rparr> }"

definition gateway_key :: "nat \<Rightarrow> string" where
  "gateway_key n = socket_gateways_prefix @ to_string n"

text \<open>A change the watcher can read: its value does not make the JSON library throw, a value that is put is JSON, and the key of a
  gateway ends in its number.\<close>

definition readable :: "'j json_api \<Rightarrow> EventType \<times> string \<times> string \<Rightarrow> bool" where
  "readable js e \<longleftrightarrow> (case e of (type, key, value) \<Rightarrow>
     (type \<noteq> OtherEventType \<longrightarrow> make_event js Put key value \<noteq> None) \<and> (type = EventPut \<longrightarrow> js_parse js value \<noteq> None) \<and>
     (classify key = SocketGateway \<longrightarrow> (\<exists>n < 2 ^ 32. key = gateway_key n)))"

definition mirrors :: "'j json_api \<Rightarrow> (string \<rightharpoonup> string) \<Rightarrow> 'd AppState \<Rightarrow> bool" where
  "mirrors js store st \<longleftrightarrow> app_etcd_entries st = store \<and>
     app_matching_engines st = (\<lambda>key. if classify key = MatchingEngine then store key \<bind> engine_info js else None) \<and>
     app_cdp_endpoints st = (\<lambda>key. if classify key = ClientDetailsProvider then store key \<bind> addr_info js ''addr'' else None) \<and>
     (\<forall>n < 2 ^ 32. app_socket_gateways st (of_nat n) = store (gateway_key n) \<bind> addr_info js ''ip'')"

lemma gateway_key_props:
  "classify (gateway_key n) = SocketGateway" "n < 2 ^ 32 \<Longrightarrow> parse_trailing_id (gateway_key n) = Some (of_nat n)"
proof -
  show "classify (gateway_key n) = SocketGateway"
    by (simp add: classify_def gateway_key_def starts_with_def matching_engines_prefix_def client_details_prefix_def socket_gateways_prefix_def)
  have "gateway_key n = ''/socket-gateways'' @ CHR ''/'' # to_string n" by (simp add: gateway_key_def socket_gateways_prefix_def)
  then show "n < 2 ^ 32 \<Longrightarrow> parse_trailing_id (gateway_key n) = Some (of_nat n)"
    using parse_trailing_id_append[OF slash_not_in_number to_string_digits(2)] from_chars_to_string by metis
qed

lemma gateway_key_inject:
  assumes "gateway_key m = gateway_key n"
  shows "m = n"
  using arg_cong[OF assms, of "drop (length socket_gateways_prefix)"] digits_value_to_string by (simp add: gateway_key_def) metis

text \<open>The fields of an event.\<close>

lemma make_event_fields:
  assumes "make_event js kind key value = Some ev"
  shows "ev_kind ev = kind" "ev_key ev = key" "ev_raw_value ev = value" "ev_resource_kind ev = classify key" "ev_id ev = parse_trailing_id key"
    "classify key = MatchingEngine \<Longrightarrow> ev_matching_engine ev = engine_info js value"
    "classify key = ClientDetailsProvider \<Longrightarrow> ev_addr_status ev = addr_info js ''addr'' value"
    "classify key = SocketGateway \<Longrightarrow> ev_addr_status ev = addr_info js ''ip'' value"
  using assms by (auto simp: make_event_def fill_parsed_fields_def engine_info_def addr_info_def bind_eq_Some_conv
      split: option.splits EtcdResourceKind.splits)

lemma make_event_kind: "make_event js k key value = map_option (\<lambda>ev. ev \<lparr> ev_kind := k \<rparr>) (make_event js Put key value)"
  by (auto simp: make_event_def fill_parsed_fields_def bind_eq_Some_conv split: option.splits EtcdResourceKind.splits bind_splits)

lemma info_known:
  assumes "make_event js kind key value = Some ev" "js_parse js value \<noteq> None"
  shows "classify key = MatchingEngine \<Longrightarrow> engine_info js value \<noteq> None"
    "classify key = ClientDetailsProvider \<Longrightarrow> addr_info js ''addr'' value \<noteq> None"
    "classify key = SocketGateway \<Longrightarrow> addr_info js ''ip'' value \<noteq> None"
  using assms by (auto simp: make_event_def fill_parsed_fields_def engine_info_def addr_info_def bind_eq_Some_conv)

lemma apply_etcd_event_fields:
  "app_etcd_entries (apply_etcd_event ev st) = (app_etcd_entries st)(ev_key ev := if ev_kind ev = Delete then None else Some (ev_raw_value ev))"
  "app_matching_engines (apply_etcd_event ev st) =
     (if ev_resource_kind ev = MatchingEngine \<and> (ev_kind ev = Delete \<or> ev_matching_engine ev \<noteq> None)
      then (app_matching_engines st)(ev_key ev := if ev_kind ev = Delete then None else ev_matching_engine ev) else app_matching_engines st)"
  "app_cdp_endpoints (apply_etcd_event ev st) =
     (if ev_resource_kind ev = ClientDetailsProvider \<and> (ev_kind ev = Delete \<or> ev_addr_status ev \<noteq> None)
      then (app_cdp_endpoints st)(ev_key ev := if ev_kind ev = Delete then None else ev_addr_status ev) else app_cdp_endpoints st)"
  "app_socket_gateways (apply_etcd_event ev st) =
     (case ev_id ev of
        Some n \<Rightarrow> if ev_resource_kind ev = SocketGateway \<and> (ev_kind ev = Delete \<or> ev_addr_status ev \<noteq> None)
                  then (app_socket_gateways st)(n := if ev_kind ev = Delete then None else ev_addr_status ev) else app_socket_gateways st
      | None \<Rightarrow> app_socket_gateways st)"
  by (auto simp: apply_etcd_event_def etcd_entries_touch_def Let_def split: EtcdResourceKind.splits option.splits)

lemma mirrors_event:
  assumes m: "mirrors js store st" and ev: "make_event js kind key value = Some ev"
    and put: "kind \<noteq> Delete \<Longrightarrow> js_parse js value \<noteq> None" and gw: "classify key = SocketGateway \<longrightarrow> (\<exists>n < 2 ^ 32. key = gateway_key n)"
  shows "mirrors js (store(key := if kind = Delete then None else Some value)) (apply_etcd_event ev st)"
proof -
  let ?store = "store(key := if kind = Delete then None else Some value)" and ?st = "apply_etcd_event ev st"
  note F = make_event_fields[OF ev] and K = info_known[OF ev put] and A = apply_etcd_event_fields[of ev st] and M = m[unfolded mirrors_def]
  have 1: "app_etcd_entries ?st = ?store" using M by (simp add: A F)
  have 2: "app_matching_engines ?st = (\<lambda>key. if classify key = MatchingEngine then ?store key \<bind> engine_info js else None)"
    using M K(1) by (cases "kind = Delete") (auto simp: A F fun_eq_iff)
  have 3: "app_cdp_endpoints ?st = (\<lambda>key. if classify key = ClientDetailsProvider then ?store key \<bind> addr_info js ''addr'' else None)"
    using M K(2) by (cases "kind = Delete") (auto simp: A F fun_eq_iff)
  have 4: "app_socket_gateways ?st (of_nat k) = ?store (gateway_key k) \<bind> addr_info js ''ip''" if k: "k < 2 ^ 32" for k
  proof (cases "classify key = SocketGateway")
    case True
    then obtain n where n: "n < 2 ^ 32" "key = gateway_key n" using gw by blast
    have "(of_nat k :: u32) = of_nat n \<longleftrightarrow> k = n" using k n(1) by (simp add: word_of_nat_eq_iff take_bit_nat_eq_self)
    moreover have "ev_id ev = Some (of_nat n)" using F(5) gateway_key_props(2)[OF n(1)] n(2) by simp
    ultimately show ?thesis using M k K(3)[OF _ True] gateway_key_inject[of k n] F(8)[OF True]
      by (cases "kind = Delete"; cases "k = n") (auto simp: A(4) F(1,4) True n(2) gateway_key_props(1))
  next
    case False
    then have "gateway_key k \<noteq> key" using gateway_key_props(1) by blast
    then show ?thesis using M k False by (auto simp: A F split: option.splits)
  qed
  from 1 2 3 4 show ?thesis by (simp add: mirrors_def)
qed

lemma push_events_extend: "push_events js evs q = Some q' \<Longrightarrow> \<exists>new. q' = q @ new"
proof (induction js evs q rule: push_events.induct)
  case (2 js ty key val evs q)
  then show ?case by (cases ty) (force simp: mpsc_push_def bind_eq_Some_conv)+
qed simp

lemma mirrors_events:
  assumes "\<forall>e \<in> set evs. readable js e" "mirrors js store st" "push_events js evs q = Some (q @ new)"
  shows "mirrors js (fold (\<lambda>(ty, key, val) m. case ty of EventPut \<Rightarrow> m(key \<mapsto> val) | EventDelete \<Rightarrow> m(key := None) | OtherEventType \<Rightarrow> m) evs store)
    (fold apply_etcd_event new st)"
  using assms
proof (induction evs arbitrary: store st q new)
  case (Cons e evs)
  obtain ty key val where e: "e = (ty, key, val)" by (metis prod_cases3)
  have r: "readable js (ty, key, val)" using Cons.prems(1) e by simp
  show ?case
  proof (cases "ty = OtherEventType")
    case True
    then show ?thesis using Cons.IH[of store st q new] Cons.prems by (simp add: e)
  next
    case False
    define kind where "kind = (if ty = EventPut then Put else Delete)"
    from False r obtain ev where ev: "make_event js kind key val = Some ev"
      unfolding readable_def using make_event_kind[of js kind key val] by (cases "make_event js Put key val") auto
    have push: "push_events js evs (q @ [ev]) = Some (q @ new)"
      using Cons.prems(3) False ev by (cases ty) (auto simp: e kind_def mpsc_push_def)
    then obtain new' where new: "new = ev # new'"
      using push_events_extend[of js evs "q @ [ev]"] by fastforce
    have "mirrors js (store(key := if kind = Delete then None else Some val)) (apply_etcd_event ev st)"
      using mirrors_event[OF Cons.prems(2) ev] r False by (auto simp: readable_def kind_def)
    from Cons.IH[OF _ this, of "q @ [ev]" new'] push Cons.prems(1) False show ?thesis
      by (cases ty) (auto simp: e new kind_def fun_upd_def)
  qed
qed simp

lemma push_events_total: "\<forall>e \<in> set evs. readable js e \<Longrightarrow> \<exists>new. push_events js evs q = Some (q @ new)"
proof (induction evs arbitrary: q)
  case (Cons e evs)
  obtain ty key val where e: "e = (ty, key, val)" by (metis prod_cases3)
  show ?case
  proof (cases "ty = OtherEventType")
    case False
    then obtain ev where ev: "make_event js Put key val = Some ev" using Cons.prems by (auto simp: e readable_def)
    have "\<exists>new. push_events js evs (q @ [x]) = Some (q @ new)" for x using Cons.IH[of "q @ [x]"] Cons.prems by auto
    then show ?thesis using False ev make_event_kind[of js Delete key val] by (cases ty) (auto simp: e mpsc_push_def)
  qed (use Cons e in simp)
qed simp

section \<open>Balances\<close>

lemma fold_positions_last:
  "fold (\<lambda>(a, c, p) m. m(a \<mapsto> (c, p))) (ps @ [(a, c, p)]) m a = Some (c, p)"
  by simp

section \<open>Bounds\<close>

definition bounded_history :: "'d AssetMarketHistory \<Rightarrow> bool" where
  "bounded_history h \<longleftrightarrow> length (amh_trades h) \<le> kMaxTrades \<and> length (amh_quotes h) \<le> kMaxQuotes"

definition bounded_app :: "'d AppState \<Rightarrow> bool" where
  "bounded_app st \<longleftrightarrow> length (app_trade_feed st) \<le> kMaxTradeFeed \<and> (\<forall>asset h. app_market_history st asset = Some h \<longrightarrow> bounded_history h) \<and>
     (\<forall>asset book. app_order_books st asset = Some book \<longrightarrow> app_book_inv book) \<and> app_order_books st 0 = None"

lemma bounded_history_of: "bounded_app st \<Longrightarrow> bounded_history (history_of asset st)" "bounded_app st \<Longrightarrow> app_book_inv (book_of asset st)"
  by (auto simp: bounded_app_def history_of_def bounded_history_def empty_history_def book_of_def app_book_inv_empty split: option.splits)

lemma add_bounded: "bounded_history h \<Longrightarrow> bounded_history (add_trade time price qty h)" "bounded_history h \<Longrightarrow> bounded_history (add_quote time bid ask h)"
  by (auto simp: bounded_history_def add_trade_def add_quote_def Let_def kMaxTrades_def kMaxQuotes_def)

lemma apply_etcd_event_frame [simp]:
  "app_order_books (apply_etcd_event ev st) = app_order_books st" "app_market_history (apply_etcd_event ev st) = app_market_history st"
  "app_trade_feed (apply_etcd_event ev st) = app_trade_feed st" "app_balances (apply_etcd_event ev st) = app_balances st"
  by (simp_all add: apply_etcd_event_def etcd_entries_touch_def Let_def split: EtcdResourceKind.splits option.splits)

lemma apply_balance_snapshot_frame [simp]:
  "app_order_books (apply_balance_snapshot snap st) = app_order_books st" "app_market_history (apply_balance_snapshot snap st) = app_market_history st"
  "app_trade_feed (apply_balance_snapshot snap st) = app_trade_feed st"
  by (simp_all add: apply_balance_snapshot_def Let_def)

lemma apply_trade_to_balance_frame [simp]:
  "app_order_books (apply_trade_to_balance r st) = app_order_books st" "app_market_history (apply_trade_to_balance r st) = app_market_history st"
  "app_trade_feed (apply_trade_to_balance r st) = app_trade_feed st"
  by (simp_all add: apply_trade_to_balance_def split: option.splits)

lemma bounded_steps:
  assumes "bounded_app st"
  shows "bounded_app (apply_etcd_event ev st)" "bounded_app (apply_balance_snapshot snap st)" "bounded_app (dash_apply_report sr st)" "bounded_app (dash_apply_update su st)"
proof -
  show "bounded_app (apply_etcd_event ev st)" "bounded_app (apply_balance_snapshot snap st)" using assms by (simp_all add: bounded_app_def)
  let ?s = "apply_trade_to_balance (sr_msg sr) (push_trade (feed_entry (sr_msg sr)) st)"
  have p: "bounded_app ?s" using assms by (auto simp: bounded_app_def push_trade_def Let_def)
  then have h: "bounded_history (add_trade time price qty (history_of a (?s \<lparr> app_order_reports_received := n \<rparr>)))" for time price qty a n
    using bounded_history_of(1)[OF p, of a] by (intro add_bounded) (simp add: history_of_def)
  show "bounded_app (dash_apply_report sr st)"
    using p h by (auto simp: dash_apply_report_def record_order_report_def bounded_app_def Let_def split: option.splits)
  have "app_book_inv (snd (OrderBook_apply (su_msg su) (book_of (upd_AssetId (su_msg su)) st)))" using OrderBook_apply_ok(1) bounded_history_of(2)[OF assms] by blast
  then show "bounded_app (dash_apply_update su st)"
    using assms add_bounded(2)[OF bounded_history_of(1)[OF assms]] by (auto simp: dash_apply_update_def record_book_update_def bounded_app_def Let_def)
qed

lemma bounded_fold: "(\<And>x st. bounded_app st \<Longrightarrow> bounded_app (f x st)) \<Longrightarrow> bounded_app st \<Longrightarrow> bounded_app (fold f xs st)"
  by (induction xs arbitrary: st) auto

section \<open>Properties\<close>

text \<open>C24. What the dashboard discovers is what etcd holds: after any changes it can read, arriving in one response of the watch,
  the entries it shows are the contents of the store, the matching engines and account services are the parsed values of
  the keys of their kind, and the gateways are those of the keys that end in their numbers.\<close>

theorem discovery_mirrors_etcd:
  assumes "\<forall>e \<in> set evs. readable js e"
  shows "\<exists>q. on_watch_response js \<lparr> resp_is_ok = True, resp_values = vs, resp_events = evs \<rparr> [] = Some q \<and>
    mirrors js (etcd_store evs) (fold apply_etcd_event q AppState_init)"
proof -
  have "mirrors js Map.empty AppState_init" by (simp add: mirrors_def AppState_init_def fun_eq_iff)
  moreover obtain q where "push_events js evs [] = Some ([] @ q)" using push_events_total[OF assms] by blast
  ultimately show ?thesis using mirrors_events[OF assms, of Map.empty AppState_init "[]" q] by (simp add: on_watch_response_def etcd_store_def)
qed

text \<open>A JSON library that knows one shape of document: the value is the address.\<close>

definition sample_json :: "string json_api" where
  "sample_json = \<lparr> js_parse = (\<lambda>s. if s = [] then None else Some s), js_string = (\<lambda>j k d. Some j), js_int = (\<lambda>j k d. Some 7) \<rparr>"

definition sample_changes :: "(EventType \<times> string \<times> string) list" where
  "sample_changes = [(EventPut, ''/matching-engines/a'', ''x''), (EventPut, gateway_key 3, ''y''), (EventDelete, ''/matching-engines/a'', [])]"

theorem discovery_mirrors_etcd_witness:
  "\<exists>q. on_watch_response sample_json \<lparr> resp_is_ok = True, resp_values = [], resp_events = sample_changes \<rparr> [] = Some q \<and>
    app_matching_engines (fold apply_etcd_event q (AppState_init :: int AppState)) ''/matching-engines/a'' = None \<and>
    app_socket_gateways (fold apply_etcd_event q (AppState_init :: int AppState)) 3 = Some \<lparr> asi_addr = ''y'', asi_status = ''y'' \<rparr>"
proof -
  have c: "classify ''/matching-engines/a'' = MatchingEngine" by (simp add: classify_def starts_with_def matching_engines_prefix_def)
  have n: "\<exists>n < 4294967296. gateway_key 3 = gateway_key n" by (rule exI[of _ 3]) simp
  have r: "\<forall>e \<in> set sample_changes. readable sample_json e"
    using n by (simp add: sample_changes_def readable_def make_event_def fill_parsed_fields_def sample_json_def c gateway_key_props(1))
  from discovery_mirrors_etcd[OF r, where ?'b = int] obtain q where
    q: "on_watch_response sample_json \<lparr> resp_is_ok = True, resp_values = [], resp_events = sample_changes \<rparr> [] = Some q"
      "mirrors sample_json (etcd_store sample_changes) (fold apply_etcd_event q (AppState_init :: int AppState))" by blast
  have s: "etcd_store sample_changes ''/matching-engines/a'' = None" "etcd_store sample_changes (gateway_key 3) = Some ''y''"
    using c gateway_key_props(1)[of 3] by (auto simp: etcd_store_def sample_changes_def)
  have "(of_nat 3 :: u32) = 3" by simp
  with q(2) s have "app_matching_engines (fold apply_etcd_event q (AppState_init :: int AppState)) ''/matching-engines/a'' = None"
    "app_socket_gateways (fold apply_etcd_event q (AppState_init :: int AppState)) 3 = Some \<lparr> asi_addr = ''y'', asi_status = ''y'' \<rparr>"
    unfolding mirrors_def by (auto simp: c addr_info_def sample_json_def dest!: spec[of _ 3])
  with q(1) show ?thesis by blast
qed

text \<open>C20. Every confirmation of the gateway reaches the user: however the bytes of the confirmations are cut on their way to
  the two sessions, each reader queues every one of them once and in order and stays connected, and after the next frame each
  panel shows a notification for every one it had queued, marked as an error unless the order was accepted, after what is left of
  the older ones, and has them in its history of the last \<open>kMaxHistory\<close> entries.  The frame must be shorter than the time
  a notification lives (\<open>sub four dt\<close>, four seconds less the duration of the frame, is positive): the same frame
  ages them before it draws.\<close>

theorem confirmations_reach_the_user:
  fixes d :: "('d, 'f :: {linorder, zero}) Dashboard"
  assumes "concat chunks_a = concat (map encode_OrderConfirmation cs_a)" "[] \<notin> set chunks_a" "tss_running s_a"
    and "concat chunks_b = concat (map encode_OrderConfirmation cs_b)" "[] \<notin> set chunks_b" "tss_running s_b"
    and "\<not> sub four dt \<le> 0" "length (pnl_notification_history (dsh_panel_a d)) \<le> kMaxHistory"
      "length (pnl_notification_history (dsh_panel_b d)) \<le> kMaxHistory"
  shows "\<exists>qa qb. read_loop (map Bytes chunks_a) s_a (pnl_confirmations (dsh_panel_a d)) = (s_a, qa, []) \<and>
    read_loop (map Bytes chunks_b) s_b (pnl_confirmations (dsh_panel_b d)) = (s_b, qb, []) \<and>
    (let d' = frame_drain sub four now dt (d \<lparr> dsh_panel_a := dsh_panel_a d \<lparr> pnl_confirmations := qa \<rparr>, dsh_panel_b := dsh_panel_b d \<lparr> pnl_confirmations := qb \<rparr> \<rparr>)
     in told sub four now dt (pnl_confirmations (dsh_panel_a d) @ map client_view cs_a) (dsh_panel_a d) (dsh_panel_a d') \<and>
        told sub four now dt (pnl_confirmations (dsh_panel_b d) @ map client_view cs_b) (dsh_panel_b d) (dsh_panel_b d'))"
proof -
  let ?d = "d \<lparr> dsh_panel_a := dsh_panel_a d \<lparr> pnl_confirmations := pnl_confirmations (dsh_panel_a d) @ map client_view cs_a \<rparr>,
    dsh_panel_b := dsh_panel_b d \<lparr> pnl_confirmations := pnl_confirmations (dsh_panel_b d) @ map client_view cs_b \<rparr> \<rparr>"
  have "length (pnl_notification_history (dsh_panel_a ?d)) \<le> kMaxHistory" "length (pnl_notification_history (dsh_panel_b ?d)) \<le> kMaxHistory"
    using assms(8,9) by simp_all
  from frame_drain_told[of sub four dt ?d, OF assms(7) this, of now] show ?thesis
    by (simp add: read_loop_ok[OF assms(1-3)] read_loop_ok[OF assms(4-6)] told_def)
qed

theorem confirmations_reach_the_user_witness:
  "\<exists>qa qb. read_loop (map Bytes (map (\<lambda>b. [b]) (encode_OrderConfirmation \<lparr> conf_OrderId = 7, conf_ClientOrderId = 1, conf_Status = Accepted \<rparr>)))
      (TradingSession_init \<lparr> tss_running := True \<rparr>) [] = (TradingSession_init \<lparr> tss_running := True \<rparr>, qa, []) \<and>
    pnl_toasts (dsh_panel_a (frame_drain (-) 4 0 1 ((Dashboard_init :: (int, int) Dashboard) \<lparr> dsh_panel_a := TradingPanel_init \<lparr> pnl_confirmations := qa \<rparr>,
        dsh_panel_b := TradingPanel_init \<lparr> pnl_confirmations := qb \<rparr> \<rparr>))) =
      [\<lparr> toast_text = confirmation_text \<lparr> gcf_OrderId = 7, gcf_ClientOrderId = 1, gcf_Status = 0 \<rparr>, toast_is_error = False, toast_ttl = 3 \<rparr>]"
proof -
  let ?c = "\<lparr> conf_OrderId = 7, conf_ClientOrderId = 1, conf_Status = Accepted \<rparr>" and ?s = "TradingSession_init \<lparr> tss_running := True \<rparr>"
  let ?d = "Dashboard_init :: (int, int) Dashboard"
  have c: "concat (map (\<lambda>b. [b]) (encode_OrderConfirmation ?c)) = concat (map encode_OrderConfirmation [?c])" by simp
  have ne: "[] \<notin> set (map (\<lambda>b. [b]) (encode_OrderConfirmation ?c))" by auto
  have p: "dsh_panel_a ?d = TradingPanel_init" "dsh_panel_b ?d = TradingPanel_init" "pnl_confirmations (TradingPanel_init :: (int, int) TradingPanel) = []"
    "pnl_toasts (TradingPanel_init :: (int, int) TradingPanel) = []" "pnl_notification_history (TradingPanel_init :: (int, int) TradingPanel) = []"
    by (simp_all add: Dashboard_init_def TradingPanel_init_def)
  obtain qa qb where
    "read_loop (map Bytes (map (\<lambda>b. [b]) (encode_OrderConfirmation ?c))) ?s [] = (?s, qa, [])"
    "told (-) 4 0 1 [client_view ?c] TradingPanel_init (dsh_panel_a (frame_drain (-) 4 0 1
       (?d \<lparr> dsh_panel_a := TradingPanel_init \<lparr> pnl_confirmations := qa \<rparr>, dsh_panel_b := TradingPanel_init \<lparr> pnl_confirmations := qb \<rparr> \<rparr>)))"
    using confirmations_reach_the_user[OF c ne, of ?s "[]" "[]" ?s "(-)" 4 1 ?d 0] by (auto simp: p Let_def)
  then show ?thesis by (intro exI[of _ qa] exI[of _ qb]) (simp add: told_def aged_def confirmation_toast_def client_view_def p)
qed

text \<open>After a frame of four seconds or more, as when the process was suspended, no notification is left to draw, neither of an
  older nor of a new confirmation.\<close>

lemma long_frame_drops_toasts:
  fixes d :: "('d, 'f :: {linorder, zero}) Dashboard"
  assumes "\<And>t. t \<in> set (pnl_toasts (dsh_panel_a d)) \<Longrightarrow> sub (toast_ttl t) dt \<le> 0" "sub four dt \<le> 0"
  shows "pnl_toasts (dsh_panel_a (frame_drain sub four now dt d)) = []"
  using assms by (simp add: frame_drain_toasts aged_confirmations) (simp add: aged_def)

text \<open>C21. A session puts its login and its orders on the wire as the gateway reads them: the bytes written to the connection are
  the login with the client's key, then the order, and the order decodes to the form's values with the client's number, the
  local order number and the asset (clamped to 16 bits).\<close>

theorem session_orders_on_the_wire:
  assumes "takes_bytes net" "0 \<le> sock" "in_i64 price" "type = LIMIT \<or> type = MARKET" "side = BUY \<or> side = SELL" "length key = 32"
  shows "\<exists>s net1 net2 bs1 bs2. session_connect sock True None host client_id key s0 net = (s, net1) \<and>
    send_order i type side price amount asset s net1 = (True, net2) \<and>
    net_Sent net2 sock = net_Sent net sock @ bs1 @ bs2 \<and>
    decode_ClientAuthRequest bs1 = \<lparr> car_RequestType = 65, car_ClientId = client_id, car_Key = key \<rparr> \<and> length bs1 = sizeof_ClientAuthRequest \<and>
    decode_Order bs2 = \<lparr> ord_Price = price, ord_OrderId = ucast i, ord_ClientOrderId = i, ord_ClientId = client_id, ord_Amount = amount,
      ord_AssetId = clamp_asset asset, ord_Type = type, ord_Side = side, ord_Action = EXECUTE, ord_Padding = replicate 7 0 \<rparr> \<and> length bs2 = sizeof_Order"
proof -
  let ?r = "\<lparr> car_RequestType = 65, car_ClientId = client_id, car_Key = key \<rparr>"
  from session_connect_ok[OF assms(1,2), of host client_id key s0] obtain s net1 where
    s: "session_connect sock True None host client_id key s0 net = (s, net1)" "tss_state s = Connected" "tss_fd s = sock" "tss_client_id s = client_id"
    and n1: "takes_bytes net1" "net_Sent net1 = (net_Sent net)(sock := net_Sent net sock @ encode_ClientAuthRequest ?r)" by auto
  let ?o = "session_order i price amount asset type side EXECUTE s"
  obtain net2 where n2: "send_order i type side price amount asset s net1 = (True, net2)" "net_Sent net2 = (net_Sent net1)(sock := net_Sent net1 sock @ encode_Order ?o)"
    using session_send_ok(1)[OF n1(1) s(2), of i type side price amount asset] s(3)
    by (cases "send_order i type side price amount asset s net1") (auto simp: orders_sent_def)
  have "length (car_Key ?r) = 32" using assms(6) by simp
  note c = decode_encode_ClientAuthRequest[OF this]
  note d = decode_encode_Order[OF session_order_wire[OF assms(3-5), of EXECUTE i amount asset s, OF disjI1[OF refl]]]
  have "net_Sent net2 sock = net_Sent net sock @ encode_ClientAuthRequest ?r @ encode_Order ?o" using n1(2) n2(2) by simp
  with s n2(1) c d show ?thesis by (auto simp: session_order_def)
qed

theorem session_orders_on_the_wire_witness:
  "\<exists>s net1 net2. session_connect 5 True None ''h'' 9 (replicate 32 1) TradingSession_init \<lparr> net_Sent = (\<lambda>_. []), net_Answers = [Takes 3, Takes 50], net_errno = EINTR \<rparr> = (s, net1) \<and>
     send_order 1 LIMIT SELL 100 5 70000 s net1 = (True, net2)"
  using session_orders_on_the_wire[of "\<lparr> net_Sent = (\<lambda>_. []), net_Answers = [Takes 3, Takes 50], net_errno = EINTR \<rparr>" 5 100 LIMIT SELL "replicate 32 1"
      "''h''" 9 TradingSession_init 1 5 70000]
  by (auto simp: takes_bytes_def in_i64_def)

text \<open>A client's key typed in hexadecimal is the key sent: 64 digits, two per byte, give back the 32 bytes, and with them
  Connect starts a session for the form's host, port and client.\<close>

theorem hex_key_roundtrip:
  assumes "length key = 32" "pnl_key_hex panel = hex_of_key key"
  shows "do_connect panel = (panel \<lparr> pnl_connect_error := [], pnl_session := Some TradingSession_init \<rparr>,
    Some (pnl_host panel, word_of_int (pnl_port panel), pnl_client_id panel, key))"
  using assms parse_hex_key_hex by (simp add: do_connect_def)

theorem hex_key_roundtrip_witness:
  "snd (do_connect ((TradingPanel_init :: (int, int) TradingPanel) \<lparr> pnl_key_hex := hex_of_key (replicate 32 171) \<rparr>)) =
     Some (kTradingGatewayHost, 8000, 0, replicate 32 171)"
  using hex_key_roundtrip[of "replicate 32 171" "(TradingPanel_init :: (int, int) TradingPanel) \<lparr> pnl_key_hex := hex_of_key (replicate 32 171) \<rparr>"]
  by (simp add: TradingPanel_init_def kTradingGatewayPort_def)

text \<open>A balance query that succeeds loses the client's cash whenever its last position is unused: unused positions carry asset
  0, the number of the cash position, and the last one with this number is the one the dashboard keeps.  Whatever cash the
  account service reported, the balance shown is zero.\<close>

theorem unused_position_overwrites_cash:
  assumes "snap_Status resp = 65" "snap_AssetId resp ! 15 = 0" "snap_Confirmed resp ! 15 = 0" "snap_Attempt resp ! 15 = 0"
  shows "\<exists>bal. app_balances (apply_balance_snapshot (query_result client_id resp) st) client_id = Some bal \<and>
    lb_has_snapshot bal \<and> position 0 bal = (0, 0)"
proof -
  have "[0..<CDP_MAX_POSITIONS] = [0..<15] @ [15]" by (simp add: CDP_MAX_POSITIONS_def upt_Suc_append[of 0 15, simplified, symmetric])
  then have "cbs_positions (query_result client_id resp) =
      map (\<lambda>i. (snap_AssetId resp ! i, snap_Confirmed resp ! i, snap_Attempt resp ! i)) [0..<15] @ [(0, 0, 0)]"
    using assms by (simp add: query_result_def)
  then show ?thesis using assms(1) by (simp add: apply_balance_snapshot_def query_result_def position_def Let_def fold_positions_last)
qed

theorem unused_position_overwrites_cash_witness:
  "\<exists>bal. app_balances (apply_balance_snapshot (query_result 4 \<lparr> snap_Status = 65, snap_SequenceId = 0, snap_ClientId = 4, snap_ClientFd = 1,
       snap_AssetId = replicate 16 0, snap_Confirmed = 1000 # replicate 15 0, snap_Attempt = replicate 16 0 \<rparr>) (AppState_init :: int AppState)) 4 = Some bal \<and>
     position 0 bal = (0, 0)"
  using unused_position_overwrites_cash[of "\<lparr> snap_Status = 65, snap_SequenceId = 0, snap_ClientId = 4, snap_ClientFd = 1,
       snap_AssetId = replicate 16 0, snap_Confirmed = 1000 # replicate 15 0, snap_Attempt = replicate 16 0 \<rparr>" 4 "AppState_init :: int AppState"]
  by auto

text \<open>C36. A frame keeps the dashboard's state within its bounds: it empties the queues of the network threads, and whatever they
  held, the trade feed and the histories of every asset stay within their limits, the books stay sorted with no empty level, and
  there is never a book for the settlement currency.\<close>

theorem frame_keeps_bounds:
  assumes "bounded_app (dsh_app d)"
  shows "bounded_app (dsh_app (frame_drain sub four now dt d)) \<and> dsh_etcd_events (frame_drain sub four now dt d) = [] \<and>
    dsh_trade_events (frame_drain sub four now dt d) = [] \<and> dsh_book_events (frame_drain sub four now dt d) = []"
proof -
  have drain: "bounded_app (snd (drain_balance_results (p, st)))" if "bounded_app st" for p :: "('d, 'f) TradingPanel" and st
  proof -
    have "bounded_app (snd (fold (\<lambda>snap (panel, st). (panel \<lparr> pnl_balance_query_in_flight := False \<rparr>, apply_balance_snapshot snap st)) snaps (p, st)))"
      if "bounded_app st" for snaps and p :: "('d, 'f) TradingPanel" and st
      using that by (induction snaps arbitrary: p st) (simp_all add: bounded_steps)
    with that show ?thesis by (simp add: drain_balance_results_def)
  qed
  define st where "st = fold dash_apply_update (dsh_book_events d) (fold dash_apply_report (dsh_trade_events d) (fold apply_etcd_event (dsh_etcd_events d) (dsh_app d)))"
  have st: "bounded_app st" unfolding st_def by (intro bounded_fold bounded_steps assms)
  obtain a st1 where a: "drain_balance_results (drain_confirmations now four (dsh_panel_a d), st) = (a, st1)" by fastforce
  obtain b st2 where b: "drain_balance_results (drain_confirmations now four (dsh_panel_b d), st1) = (b, st2)" by fastforce
  have "bounded_app st2" using drain[OF drain[OF st, of "drain_confirmations now four (dsh_panel_a d)"], of "drain_confirmations now four (dsh_panel_b d)"] a b by simp
  then show ?thesis using a b by (simp add: frame_drain_def st_def)
qed

theorem frame_keeps_bounds_witness:
  "bounded_app (dsh_app (frame_drain (-) 4 0 1 ((Dashboard_init :: (int, int) Dashboard) \<lparr> dsh_trade_events :=
     [\<lparr> sr_recv_time = 1, sr_msg = FillReport 5 (- 50) 0 0 1 10 0 1 0 FILL \<rparr>] \<rparr>)))"
proof -
  have "bounded_app (dsh_app ((Dashboard_init :: (int, int) Dashboard) \<lparr> dsh_trade_events :=
     [\<lparr> sr_recv_time = 1, sr_msg = FillReport 5 (- 50) 0 0 1 10 0 1 0 FILL \<rparr>] \<rparr>))"
    by (simp add: bounded_app_def Dashboard_init_def AppState_init_def)
  from frame_keeps_bounds[OF this] show ?thesis by blast
qed

end
