(* ===== verification/Market_View.thy ===== *)
theory Market_View
  imports Settlement Market_Feed Dashboard_Props
begin

text \<open>
  The dashboard as a view of the market: what the matching engine publishes for an order, carried by the multicast packets
  and applied by a frame, makes the dashboard's book show the depths of the engine's book, its trade prints the fills of the
  order, and the balances it tracks follow the reports of their clients.
\<close>

section \<open>What the engine announces\<close>

text \<open>The updates of \<open>s\<close> from number \<open>n\<close> on name the asset and one of the two sides, and all prices are representable.\<close>

definition announced :: "u16 \<Rightarrow> nat \<Rightarrow> abook \<Rightarrow> bool" where
  "announced asset n s \<longleftrightarrow> (\<forall>o' \<in> set (ab_Bids s) \<union> set (ab_Asks s). in_i64 (ord_Price o')) \<and> n \<le> length (ab_Updates s) \<and>
     (\<forall>u \<in> set (drop n (ab_Updates s)). upd_AssetId u = asset \<and> upd_Side u \<in> {ORDER_BOOK_UPDATE_BUY, ORDER_BOOK_UPDATE_SELL} \<and> in_i64 (upd_Price u))"

lemma price_less_amount [simp]: "ord_Price (less_amount t o') = ord_Price o'"
  by (simp add: less_amount_def)

lemma price_after_trade: "o' \<in> set (after_trade t offer rest) \<Longrightarrow> ord_Price o' \<in> ord_Price ` set (offer # rest)"
  by (auto simp: after_trade_def split: if_splits)

lemma announced_trade:
  assumes "announced asset k s" "ab_Asks s = offer # rest" "trade_buy asset order locked offer rest s = (order', locked', s')"
  shows "announced asset k s'"
proof -
  note T = trade_buy_simps[OF assms(3)]
  have "\<forall>o' \<in> set (ab_Bids s') \<union> set (ab_Asks s'). in_i64 (ord_Price o')"
    using assms(1,2) price_after_trade unfolding T(2,3) by (fastforce simp: announced_def)
  then show ?thesis using assms(1,2) by (simp add: announced_def T(9) FillUpdate_def)
qed

lemma announced_trade_sell:
  assumes "announced asset k s" "ab_Bids s = offer # rest" "trade_sell asset order locked offer rest s = (order', locked', s')"
  shows "announced asset k s'"
proof -
  note T = trade_sell_simps[OF assms(3)]
  have "\<forall>o' \<in> set (ab_Bids s') \<union> set (ab_Asks s'). in_i64 (ord_Price o')"
    using assms(1,2) price_after_trade unfolding T(2,3) by (fastforce simp: announced_def)
  then show ?thesis using assms(1,2) by (simp add: announced_def T(9) FillUpdate_def)
qed

lemma sweep_announced:
  assumes "announced asset k s" "in_i64 (ord_Price order)"
  shows "sweep_buy n asset order locked s = (order', locked', s') \<Longrightarrow> announced asset k s' \<and> in_i64 (ord_Price order')"
    "sweep_sell n asset order locked s = (order', locked', s') \<Longrightarrow> announced asset k s' \<and> in_i64 (ord_Price order')"
proof -
  show "announced asset k s' \<and> in_i64 (ord_Price order')" if "sweep_buy n asset order locked s = (order', locked', s')"
  proof (rule sweep_buy_inv[where P = "\<lambda>o' s. announced asset k s \<and> in_i64 (ord_Price o')", OF _ _ _ that])
    fix o1 s1 offer rest l o2 l2 s2
    assume "announced asset k s1 \<and> in_i64 (ord_Price o1)" "ab_Asks s1 = offer # rest" and t: "trade_buy asset o1 l offer rest s1 = (o2, l2, s2)"
    then show "announced asset k s2 \<and> in_i64 (ord_Price o2)" using announced_trade trade_buy_simps(1)[OF t] by auto
  qed (use assms in \<open>auto simp: announced_def\<close>)
  show "announced asset k s' \<and> in_i64 (ord_Price order')" if "sweep_sell n asset order locked s = (order', locked', s')"
  proof (rule sweep_sell_inv[where P = "\<lambda>o' s. announced asset k s \<and> in_i64 (ord_Price o')", OF _ _ _ that])
    fix o1 s1 offer rest l o2 l2 s2
    assume "announced asset k s1 \<and> in_i64 (ord_Price o1)" "ab_Bids s1 = offer # rest" and t: "trade_sell asset o1 l offer rest s1 = (o2, l2, s2)"
    then show "announced asset k s2 \<and> in_i64 (ord_Price o2)" using announced_trade_sell trade_sell_simps(1)[OF t] by auto
  qed (use assms in \<open>auto simp: announced_def\<close>)
qed

lemma spec_add_announced:
  assumes "announced asset n s" "in_i64 (ord_Price order)"
  shows "announced asset n (spec_add_buy asset order s)" "announced asset n (spec_add_sell asset order s)"
  using assms by (auto simp: announced_def spec_add_buy_def spec_add_sell_def Let_def FillUpdate_def)

lemma emit_announced: "announced asset n (emit_report r s) = announced asset n s"
  by (simp add: announced_def)

lemma spec_handle_announced:
  assumes "announced asset n s" "in_i64 (ord_Price order)"
  shows "announced asset n (spec_handle asset order s)"
proof -
  obtain o1 l1 s1 where b: "sweep_buy (Suc (length (ab_Asks s))) asset order (wrap64 (uint (ord_Amount order) * ord_Price order)) s = (o1, l1, s1)"
    by (metis prod_cases3)
  obtain o2 l2 s2 where a: "sweep_sell (Suc (length (ab_Bids s))) asset order (uint (ord_Amount order)) s = (o2, l2, s2)"
    by (metis prod_cases3)
  have fill: "announced asset n (spec_fill_buy asset order s)" "announced asset n (spec_fill_sell asset order s)"
    using sweep_announced(1)[OF assms b] sweep_announced(2)[OF assms a] spec_add_announced emit_announced
    unfolding spec_fill_buy_def spec_fill_sell_def a b by simp_all
  have cancel: "announced asset n (spec_cancel_buy asset target s)" "announced asset n (spec_cancel_sell asset target s)" "announced asset n (spec_reject order s)"
    if "in_i64 (ord_Price target)" for target
    using assms(1) that by (auto simp: announced_def spec_cancel_buy_def spec_cancel_sell_def spec_reject_def Let_def remove_id_def FillUpdate_def)
  show ?thesis
  proof (cases "find (is_target order) (ab_Bids s @ ab_Asks s)")
    case None
    then show ?thesis using fill spec_add_announced[OF assms] cancel(3)[OF assms(2)] assms(1) by (simp add: spec_handle_def spec_execute_def)
  next
    case (Some target)
    then have "target \<in> set (ab_Bids s @ ab_Asks s)" by (metis find_Some_iff nth_mem)
    then have "in_i64 (ord_Price target)" using assms(1) by (auto simp: announced_def)
    then show ?thesis using Some fill spec_add_announced[OF assms] cancel assms(1) by (simp add: spec_handle_def spec_execute_def)
  qed
qed

lemma resting_prices:
  assumes "engine_inv b LB LA"
  shows "announced (asset16 b) (length (ab_Updates (book_abs b LB LA))) (book_abs b LB LA)"
proof -
  have side: "in_i64 (ord_Price o')" if s: "side_ok c bk (levels (ba_Store b)) (nodes (ba_Store b)) L" and o: "o' \<in> set (orders_of (nodes (ba_Store b)) L)" for c bk L o'
  proof -
    from o obtain p l ns m where e: "(p, l, ns) \<in> set L" "m \<in> set ns" "o' = on_NodeOrder (nodes (ba_Store b) m)"
      by (auto simp: orders_of_def node_ptrs_def)
    then have "price_ok p" "pl_Price (levels (ba_Store b) l) = p" "level_ok (levels (ba_Store b) l) (nodes (ba_Store b)) ns"
      using s by (auto simp: side_ok_def)
    then show ?thesis using e price_ok_i64 by (auto simp: level_ok_def OrderNode_GetPrice_def)
  qed
  then show ?thesis using assms unfolding announced_def engine_inv_def ba_inv_def two_sides_def book_abs_def by auto
qed

lemma handle_order_announced:
  assumes "engine_inv b LB LA" "resources order b" "ord_Action order = CANCEL \<longrightarrow> side_matches order b" "in_i64 (ord_Price order)"
  shows "\<exists>b' LB' LA' rs us. handle_order order b = Some b' \<and> engine_inv b' LB' LA' \<and>
    published (book_abs b LB LA) (book_abs b' LB' LA') rs us \<and> book_abs b' LB' LA' = spec_handle (asset16 b) order (book_abs b LB LA) \<and>
    (\<forall>u \<in> set us. upd_AssetId u = asset16 b \<and> upd_Side u \<in> {ORDER_BOOK_UPDATE_BUY, ORDER_BOOK_UPDATE_SELL} \<and> in_i64 (upd_Price u))"
proof -
  let ?s = "book_abs b LB LA"
  from handle_order_ok[OF assms(1-3)] obtain b' LB' LA' where
    b': "handle_order order b = Some b'" "engine_inv b' LB' LA'" "book_abs b' LB' LA' = spec_handle (asset16 b) order ?s" by blast
  obtain rs us where p: "published ?s (book_abs b' LB' LA') rs us"
    using spec_handle_published assms(1) b'(3) unfolding engine_inv_def by metis
  from spec_handle_announced[OF resting_prices[OF assms(1)] assms(4)] have
    "\<forall>u \<in> set us. upd_AssetId u = asset16 b \<and> upd_Side u \<in> {ORDER_BOOK_UPDATE_BUY, ORDER_BOOK_UPDATE_SELL} \<and> in_i64 (upd_Price u)"
    using p unfolding b'(3)[symmetric] by (simp add: announced_def published_def)
  with b' p show ?thesis by blast
qed

section \<open>The book on the dashboard\<close>

definition tracks :: "u16 \<Rightarrow> abook \<Rightarrow> 'd AppState \<Rightarrow> bool" where
  "tracks asset s st \<longleftrightarrow> app_book_inv (book_of asset st) \<and> shown_bid (book_of asset st) = (\<lambda>p. depth_at p (ab_Bids s)) \<and>
     shown_ask (book_of asset st) = (\<lambda>p. depth_at p (ab_Asks s))"

lemma apply_update_book:
  assumes "upd_AssetId (su_msg u) = asset" "asset \<noteq> 0"
  shows "book_of asset (dash_apply_update u st) = snd (OrderBook_apply (su_msg u) (book_of asset st))"
  using assms by (simp add: dash_apply_update_def record_book_update_def book_of_def Let_def)

lemma updates_replayed:
  assumes "\<forall>u \<in> set (map su_msg us). upd_AssetId u = asset \<and> upd_Side u \<in> {ORDER_BOOK_UPDATE_BUY, ORDER_BOOK_UPDATE_SELL}" "asset \<noteq> 0"
    "app_book_inv (book_of asset st)"
  shows "app_book_inv (book_of asset (fold dash_apply_update us st)) \<and>
    shown_bid (book_of asset (fold dash_apply_update us st)) = replay ORDER_BOOK_UPDATE_BUY (map su_msg us) (shown_bid (book_of asset st)) \<and>
    shown_ask (book_of asset (fold dash_apply_update us st)) = replay ORDER_BOOK_UPDATE_SELL (map su_msg us) (shown_ask (book_of asset st))"
  using assms
proof (induction us arbitrary: st)
  case (Cons u us)
  note B = OrderBook_apply_ok[OF Cons.prems(3), of "su_msg u"] and A = apply_update_book[of u asset st]
  have "app_book_inv (book_of asset (dash_apply_update u st))" using A B(1) Cons.prems by simp
  from Cons.IH[OF _ _ this] Cons.prems(1,2) show ?case
    using A B(2,3) by (auto simp: replay_def ORDER_BOOK_UPDATE_BUY_def ORDER_BOOK_UPDATE_SELL_def)
qed (simp add: replay_def)

lemma replay_numbered: "replay side (number_objects update_layout n us) d = replay side us d"
  by (induction us arbitrary: n d) (simp_all add: replay_def update_layout_def)

lemma numbered_updates:
  assumes "\<forall>u \<in> set us. upd_AssetId u = asset \<and> upd_Side u \<in> S \<and> in_i64 (upd_Price u)"
  shows "\<forall>u \<in> set (number_objects update_layout n us). upd_AssetId u = asset \<and> upd_Side u \<in> S \<and> wire_update u"
  using assms by (induction us arbitrary: n) (simp_all add: update_layout_def wire_update_def)

context sequenced
begin

lemma chunk_of_concat:
  assumes "\<forall>x \<in> set xs. ok x" "i < length xs"
  shows "take (lay_sizeof lay) (drop (i * lay_sizeof lay) (concat (map (lay_encode lay) xs))) = lay_encode lay (xs ! i)"
  using assms
proof (induction xs arbitrary: i)
  case (Cons x xs)
  then show ?case using length_encode[of x] by (cases i) simp_all
qed simp

text \<open>A datagram gives back the messages it carries.\<close>

lemma packet_objects_encode:
  assumes "\<forall>x \<in> set xs. ok x"
  shows "packet_objects lay (concat (map (lay_encode lay) xs)) = xs"
proof -
  have l: "length (concat (map (lay_encode lay) xs)) = length xs * lay_sizeof lay"
    using assms length_encode by (induction xs) simp_all
  have "map (\<lambda>i. lay_decode lay (take (lay_sizeof lay) (drop (i * lay_sizeof lay) (concat (map (lay_encode lay) xs))))) [0..<length xs] = xs"
    using chunk_of_concat[OF assms] decode_encode assms by (intro nth_equalityI) simp_all
  then show ?thesis using sizeof_pos unfolding packet_objects_def l by auto
qed

end

lemma book_feed_queue:
  assumes "\<forall>b \<in> set batches. length b \<le> MeOrderBookUpdateBatchSize \<and> (\<forall>u \<in> set b. wire_update u)"
  shows "MulticastReceiver_run (order_book_handler t) (map (\<lambda>b. Datagram (concat (map encode_OrderBookUpdate b))) batches) q =
    q @ map (\<lambda>u. \<lparr> su_recv_time = t, su_msg = u \<rparr>) (concat batches)"
  using assms
proof (induction batches arbitrary: q)
  case (Cons b batches)
  have push: "fold (\<lambda>u. mpsc_push \<lparr> su_recv_time = t, su_msg = u \<rparr>) us q = q @ map (\<lambda>u. \<lparr> su_recv_time = t, su_msg = u \<rparr>) us" for us q
    by (induction us arbitrary: q) (simp_all add: mpsc_push_def)
  have "length (concat (map encode_OrderBookUpdate b)) = length b * 19"
    by (induction b) (simp_all add: update_roundtrip(1) sizeof_OrderBookUpdate_def)
  then have "take 65536 (concat (map encode_OrderBookUpdate b)) = concat (map encode_OrderBookUpdate b)"
    using Cons.prems by (simp add: MeOrderBookUpdateBatchSize_def)
  moreover have "packet_objects update_layout (concat (map encode_OrderBookUpdate b)) = b"
    using update_wire.packet_objects_encode[of b] Cons.prems by (simp add: update_layout_def)
  ultimately show ?case using Cons.IH Cons.prems by (simp add: order_book_handler_def push)
qed simp

text \<open>Of a frame, only the book updates change the books.\<close>

lemma frame_books:
  "app_order_books (dsh_app (frame_drain sub four now dt d)) = app_order_books (fold dash_apply_update (dsh_book_events d) (dsh_app d))"
proof -
  have drain: "app_order_books (snd (drain_balance_results (p, st))) = app_order_books st" for p :: "('d, 'f) TradingPanel" and st :: "'d AppState"
  proof -
    have "app_order_books (snd (fold (\<lambda>snap (panel, st). (panel \<lparr> pnl_balance_query_in_flight := False \<rparr>, apply_balance_snapshot snap st)) snaps (p, st))) =
      app_order_books st" for snaps and p :: "('d, 'f) TradingPanel" and st :: "'d AppState"
      by (induction snaps arbitrary: p st) simp_all
    then show ?thesis by (simp add: drain_balance_results_def)
  qed
  have e: "app_order_books (fold apply_etcd_event evs st) = app_order_books st" for evs and st :: "'d AppState" by (induction evs arbitrary: st) simp_all
  have r: "app_order_books (fold dash_apply_report rs st) = app_order_books st" for rs and st :: "'d AppState"
    by (induction rs arbitrary: st) (simp_all add: dash_apply_report_def record_order_report_def push_trade_def Let_def split: option.splits)
  have one: "app_order_books (dash_apply_update u st) = app_order_books (dash_apply_update u st')" if "app_order_books st = app_order_books st'"
    for u and st st' :: "'d AppState"
    using that by (simp add: dash_apply_update_def record_book_update_def book_of_def Let_def)
  have u: "app_order_books (fold dash_apply_update us st) = app_order_books (fold dash_apply_update us st')" if "app_order_books st = app_order_books st'"
    for us and st st' :: "'d AppState"
    using that
  proof (induction us arbitrary: st st')
    case (Cons u us)
    show ?case using Cons.IH[OF one[OF Cons.prems, of u]] by simp
  qed simp
  define st where "st = fold dash_apply_update (dsh_book_events d) (fold dash_apply_report (dsh_trade_events d) (fold apply_etcd_event (dsh_etcd_events d) (dsh_app d)))"
  obtain a st1 where a: "drain_balance_results (drain_confirmations now four (dsh_panel_a d), st) = (a, st1)" by fastforce
  obtain b st2 where b: "drain_balance_results (drain_confirmations now four (dsh_panel_b d), st1) = (b, st2)" by fastforce
  have "app_order_books st2 = app_order_books st" using drain[of "drain_confirmations now four (dsh_panel_a d)" st] drain[of "drain_confirmations now four (dsh_panel_b d)" st1] a b by simp
  also have "\<dots> = app_order_books (fold dash_apply_update (dsh_book_events d) (dsh_app d))" unfolding st_def by (rule u) (simp add: e r)
  finally show ?thesis using a b by (simp add: frame_drain_def st_def)
qed

lemma frame_tracks:
  assumes "tracks asset s (dsh_app d)" "published s s' rs us" "asset \<noteq> 0"
    "\<forall>u \<in> set us. upd_AssetId u = asset \<and> upd_Side u \<in> {ORDER_BOOK_UPDATE_BUY, ORDER_BOOK_UPDATE_SELL} \<and> in_i64 (upd_Price u)"
    "concat batches = number_objects update_layout n us" "\<forall>b \<in> set batches. length b \<le> MeOrderBookUpdateBatchSize"
  shows "tracks asset s' (dsh_app (frame_drain sub four now dt (d \<lparr> dsh_book_events :=
    MulticastReceiver_run (order_book_handler t) (map (\<lambda>b. Datagram (concat (map encode_OrderBookUpdate b))) batches) [] \<rparr>)))"
proof -
  note N = numbered_updates[OF assms(4), of n]
  have w: "\<forall>b \<in> set batches. length b \<le> MeOrderBookUpdateBatchSize \<and> (\<forall>u \<in> set b. wire_update u)"
    using N assms(6) unfolding assms(5)[symmetric] by auto
  let ?us = "map (\<lambda>u. \<lparr> su_recv_time = t, su_msg = u \<rparr>) (number_objects update_layout n us)"
  let ?d = "d \<lparr> dsh_book_events := MulticastReceiver_run (order_book_handler t) (map (\<lambda>b. Datagram (concat (map encode_OrderBookUpdate b))) batches) [] \<rparr>"
  have q: "dsh_book_events ?d = ?us" using book_feed_queue[OF w, of t "[]"] assms(5) by simp
  have m: "map su_msg ?us = number_objects update_layout n us" by (simp add: comp_def)
  have "book_of asset (dsh_app (frame_drain sub four now dt ?d)) = book_of asset (fold dash_apply_update ?us (dsh_app d))"
    unfolding book_of_def frame_books q by simp
  moreover have "app_book_inv (book_of asset (fold dash_apply_update ?us (dsh_app d))) \<and>
    shown_bid (book_of asset (fold dash_apply_update ?us (dsh_app d))) = replay ORDER_BOOK_UPDATE_BUY us (shown_bid (book_of asset (dsh_app d))) \<and>
    shown_ask (book_of asset (fold dash_apply_update ?us (dsh_app d))) = replay ORDER_BOOK_UPDATE_SELL us (shown_ask (book_of asset (dsh_app d)))"
    using updates_replayed[of ?us asset "dsh_app d"] N assms(1,3) unfolding m replay_numbered tracks_def by blast
  ultimately show ?thesis using assms(1,2) by (simp add: tracks_def published_def)
qed

section \<open>Trade prints\<close>

definition prints :: "OrderStateReport list \<Rightarrow> (u16 \<times> i64 \<times> u32) list" where
  "prints rs = List.map_filter decode_trade rs"

definition volume :: "(u16 \<times> i64 \<times> u32) list \<Rightarrow> nat" where
  "volume ps = (\<Sum>(_, _, q)\<leftarrow>ps. unat q)"

definition resting_amount :: "Order list \<Rightarrow> nat" where
  "resting_amount os = (\<Sum>o'\<leftarrow>os. unat (ord_Amount o'))"

text \<open>Orders whose cash leg fits, at a positive price.\<close>

definition priced :: "Order \<Rightarrow> bool" where
  "priced o' \<longleftrightarrow> 0 < ord_Price o' \<and> uint (ord_Amount o') * ord_Price o' < 2 ^ 63"

lemma prints_append [simp]: "prints (xs @ ys) = prints xs @ prints ys" "volume (ps @ qs) = volume ps + volume qs"
  by (simp_all add: prints_def map_filter_def volume_def)

lemma decode_fill:
  assumes "asset \<noteq> 0" "0 < p" "uint t * p < 2 ^ 63" "t \<noteq> 0"
  shows "decode_trade (buyer_report asset t p o' i) = Some (asset, p, t)" "decode_trade (seller_report asset t p o'' j) = None"
proof -
  have t: "0 < uint t" using assms(4) by (simp add: uint_0_iff order_less_le)
  have "0 < uint t * p" using t assms(2) by simp
  then have w: "wrap64 (- uint t * p) = - (uint t * p)" "wrap64 (uint t * p) = uint t * p"
    using assms(3) by (simp_all add: wrap64_id in_i64_def)
  have "(uint t * p) sdiv uint t = p" using t assms(2,4) by (simp add: signed_divide_int_def sgn_mult abs_mult)
  then show "decode_trade (buyer_report asset t p o' i) = Some (asset, p, t)"
    using assms(1) t \<open>0 < uint t * p\<close> w by (simp add: decode_trade_def buyer_report_def FillReport_def fill_state_def)
  show "decode_trade (seller_report asset t p o'' j) = None" by (simp add: decode_trade_def seller_report_def FillReport_def)
qed

lemma resting_after_trade:
  assumes "t \<le> ord_Amount offer"
  shows "resting_amount (after_trade t offer rest) + unat t = resting_amount (offer # rest)"
proof -
  have "unat (ord_Amount offer - t) = unat (ord_Amount offer) - unat t" "unat t \<le> unat (ord_Amount offer)"
    using assms by (simp_all add: unat_sub word_le_nat_alt)
  then show ?thesis by (auto simp: after_trade_def less_amount_def resting_amount_def unat_eq_zero)
qed

lemma priced_after_trade:
  assumes "\<forall>o' \<in> set (offer # rest). priced o'" "t \<le> ord_Amount offer"
  shows "\<forall>o' \<in> set (after_trade t offer rest). priced o'"
proof -
  have "uint (ord_Amount offer - t) \<le> uint (ord_Amount offer)" using assms(2) by (simp add: uint_sub_if_size word_le_def)
  then have "uint (ord_Amount offer - t) * ord_Price offer \<le> uint (ord_Amount offer) * ord_Price offer"
    using assms(1) by (intro mult_right_mono) (simp_all add: priced_def)
  moreover have o: "0 < ord_Price offer" "uint (ord_Amount offer) * ord_Price offer < 2 ^ 63" using assms(1) by (simp_all add: priced_def)
  ultimately have "uint (ord_Amount offer - t) * ord_Price offer < 2 ^ 63" by (meson le_less_trans)
  then have "priced (less_amount t offer)" using o(1) unfolding priced_def by (simp add: less_amount_def)
  then show ?thesis using assms(1) by (auto simp: after_trade_def split: if_splits)
qed

text \<open>A sweep prints what it takes from the other side, at the prices of the orders it takes it from.\<close>

definition printed :: "u16 \<Rightarrow> Order list \<Rightarrow> Order list \<Rightarrow> OrderStateReport list \<Rightarrow> bool" where
  "printed asset os os' rs \<longleftrightarrow> volume (prints rs) + resting_amount os' = resting_amount os \<and>
     (\<forall>(a, p, q) \<in> set (prints rs). a = asset \<and> p \<in> ord_Price ` set os \<and> q \<noteq> 0) \<and> ord_Price ` set os' \<subseteq> ord_Price ` set os"

lemma printed_trade:
  assumes "printed asset os (offer # rest) rs" "asset \<noteq> 0" "\<forall>o' \<in> set (offer # rest). priced o'" "ord_Amount order \<noteq> 0" "ord_Amount offer \<noteq> 0"
  shows "printed asset os (after_trade (traded order offer) offer rest)
      (rs @ [buyer_report asset (traded order offer) (ord_Price offer) o' i, seller_report asset (traded order offer) (ord_Price offer) o'' j])"
    "printed asset os (after_trade (traded order offer) offer rest)
      (rs @ [seller_report asset (traded order offer) (ord_Price offer) o' i, buyer_report asset (traded order offer) (ord_Price offer) o'' j])"
proof -
  let ?t = "traded order offer"
  have t: "?t \<noteq> 0" "?t \<le> ord_Amount offer" using assms(4,5) by (auto simp: traded_def min_def)
  have "uint ?t * ord_Price offer \<le> uint (ord_Amount offer) * ord_Price offer"
    using t(2) assms(3) by (intro mult_right_mono) (simp_all add: priced_def word_le_def)
  moreover have o: "0 < ord_Price offer" "uint (ord_Amount offer) * ord_Price offer < 2 ^ 63" using assms(3) by (simp_all add: priced_def)
  ultimately have "uint ?t * ord_Price offer < 2 ^ 63" by (meson le_less_trans)
  note d = decode_fill[OF assms(2) o(1) this t(1)]
  have p: "prints [buyer_report asset ?t (ord_Price offer) o1 i1, seller_report asset ?t (ord_Price offer) o2 i2] = [(asset, ord_Price offer, ?t)]"
    "prints [seller_report asset ?t (ord_Price offer) o1 i1, buyer_report asset ?t (ord_Price offer) o2 i2] = [(asset, ord_Price offer, ?t)]" for o1 o2 i1 i2
    by (simp_all add: prints_def map_filter_def d)
  have v: "volume [(asset, ord_Price offer, ?t)] = unat ?t" by (simp add: volume_def)
  have P: "volume (prints rs) + resting_amount (offer # rest) = resting_amount os"
    "\<forall>(a, p, q) \<in> set (prints rs). a = asset \<and> p \<in> ord_Price ` set os \<and> q \<noteq> 0" "ord_Price ` set (offer # rest) \<subseteq> ord_Price ` set os"
    using assms(1) unfolding printed_def by blast+
  have "ord_Price ` set (after_trade ?t offer rest) \<subseteq> ord_Price ` set (offer # rest)" using price_after_trade by blast
  with P(3) have sub: "ord_Price ` set (after_trade ?t offer rest) \<subseteq> ord_Price ` set os" by (rule order_trans[rotated])
  have mem: "ord_Price offer \<in> ord_Price ` set os" using P(3) by simp
  have new: "\<forall>(a, p, q) \<in> set (prints rs @ [(asset, ord_Price offer, ?t)]). a = asset \<and> p \<in> ord_Price ` set os \<and> q \<noteq> 0"
    using P(2) mem t(1) unfolding set_append ball_Un by simp
  have "volume (prints rs) + unat ?t + resting_amount (after_trade ?t offer rest) = resting_amount os"
    using P(1) resting_after_trade[OF t(2), of rest] by simp
  with new sub   show "printed asset os (after_trade ?t offer rest) (rs @ [buyer_report asset ?t (ord_Price offer) o' i, seller_report asset ?t (ord_Price offer) o'' j])"
    "printed asset os (after_trade ?t offer rest) (rs @ [seller_report asset ?t (ord_Price offer) o' i, buyer_report asset ?t (ord_Price offer) o'' j])"
    unfolding printed_def prints_append p v by blast+
qed

lemma sweep_buy_printed:
  assumes "sweep_buy n asset order locked s = (order', locked', s')" "asset \<noteq> 0" "\<forall>o' \<in> set (ab_Asks s). priced o' \<and> ord_Amount o' \<noteq> 0"
  shows "\<exists>rs. ab_Reports s' = ab_Reports s @ rs \<and> printed asset (ab_Asks s) (ab_Asks s') rs"
proof -
  have "(\<forall>o' \<in> set (ab_Asks s'). priced o' \<and> ord_Amount o' \<noteq> 0) \<and> (\<exists>rs. ab_Reports s' = ab_Reports s @ rs \<and> printed asset (ab_Asks s) (ab_Asks s') rs)"
  proof (rule sweep_buy_inv[where P = "\<lambda>_ s'. (\<forall>o' \<in> set (ab_Asks s'). priced o' \<and> ord_Amount o' \<noteq> 0) \<and> (\<exists>rs. ab_Reports s' = ab_Reports s @ rs \<and> printed asset (ab_Asks s) (ab_Asks s') rs)", OF _ _ _ assms(1)])
    fix o1 :: Order and s1 offer rest l o2 l2 s2
    assume P: "(\<forall>o' \<in> set (ab_Asks s1). priced o' \<and> ord_Amount o' \<noteq> 0) \<and> (\<exists>rs. ab_Reports s1 = ab_Reports s @ rs \<and> printed asset (ab_Asks s) (ab_Asks s1) rs)"
      and a: "ab_Asks s1 = offer # rest" and nz: "ord_Amount o1 \<noteq> 0" and t: "trade_buy asset o1 l offer rest s1 = (o2, l2, s2)"
    note T = trade_buy_simps[OF t]
    from P a obtain rs where rs: "ab_Reports s1 = ab_Reports s @ rs" "printed asset (ab_Asks s) (offer # rest) rs" by auto
    have pr: "\<forall>o' \<in> set (offer # rest). priced o'" and am: "ord_Amount offer \<noteq> 0" using P a by auto
    have "traded o1 offer \<le> ord_Amount offer" by (simp add: traded_def)
    from priced_after_trade[OF pr this] have "\<forall>o' \<in> set (ab_Asks s2). priced o' \<and> ord_Amount o' \<noteq> 0"
      using P a unfolding T(2) by (auto simp: after_trade_def split: if_splits)
    then show "(\<forall>o' \<in> set (ab_Asks s2). priced o' \<and> ord_Amount o' \<noteq> 0) \<and> (\<exists>rs. ab_Reports s2 = ab_Reports s @ rs \<and> printed asset (ab_Asks s) (ab_Asks s2) rs)"
      using printed_trade(1)[OF rs(2) assms(2) pr nz am] rs(1) T(2,8) by auto
  qed (use assms(3) in \<open>auto simp: printed_def prints_def map_filter_def volume_def\<close>)
  then show ?thesis by blast
qed

lemma sweep_sell_printed:
  assumes "sweep_sell n asset order locked s = (order', locked', s')" "asset \<noteq> 0" "\<forall>o' \<in> set (ab_Bids s). priced o' \<and> ord_Amount o' \<noteq> 0"
  shows "\<exists>rs. ab_Reports s' = ab_Reports s @ rs \<and> printed asset (ab_Bids s) (ab_Bids s') rs"
proof -
  have "(\<forall>o' \<in> set (ab_Bids s'). priced o' \<and> ord_Amount o' \<noteq> 0) \<and> (\<exists>rs. ab_Reports s' = ab_Reports s @ rs \<and> printed asset (ab_Bids s) (ab_Bids s') rs)"
  proof (rule sweep_sell_inv[where P = "\<lambda>_ s'. (\<forall>o' \<in> set (ab_Bids s'). priced o' \<and> ord_Amount o' \<noteq> 0) \<and> (\<exists>rs. ab_Reports s' = ab_Reports s @ rs \<and> printed asset (ab_Bids s) (ab_Bids s') rs)", OF _ _ _ assms(1)])
    fix o1 :: Order and s1 offer rest l o2 l2 s2
    assume P: "(\<forall>o' \<in> set (ab_Bids s1). priced o' \<and> ord_Amount o' \<noteq> 0) \<and> (\<exists>rs. ab_Reports s1 = ab_Reports s @ rs \<and> printed asset (ab_Bids s) (ab_Bids s1) rs)"
      and a: "ab_Bids s1 = offer # rest" and nz: "ord_Amount o1 \<noteq> 0" and t: "trade_sell asset o1 l offer rest s1 = (o2, l2, s2)"
    note T = trade_sell_simps[OF t]
    from P a obtain rs where rs: "ab_Reports s1 = ab_Reports s @ rs" "printed asset (ab_Bids s) (offer # rest) rs" by auto
    have pr: "\<forall>o' \<in> set (offer # rest). priced o'" and am: "ord_Amount offer \<noteq> 0" using P a by auto
    have "traded o1 offer \<le> ord_Amount offer" by (simp add: traded_def)
    from priced_after_trade[OF pr this] have "\<forall>o' \<in> set (ab_Bids s2). priced o' \<and> ord_Amount o' \<noteq> 0"
      using P a unfolding T(2) by (auto simp: after_trade_def split: if_splits)
    then show "(\<forall>o' \<in> set (ab_Bids s2). priced o' \<and> ord_Amount o' \<noteq> 0) \<and> (\<exists>rs. ab_Reports s2 = ab_Reports s @ rs \<and> printed asset (ab_Bids s) (ab_Bids s2) rs)"
      using printed_trade(2)[OF rs(2) assms(2) pr nz am] rs(1) T(2,8) by auto
  qed (use assms(3) in \<open>auto simp: printed_def prints_def map_filter_def volume_def\<close>)
  then show ?thesis by blast
qed

lemma prints_Nil [simp]: "prints [] = []"
  by (simp add: prints_def map_filter_def)

lemma no_print: "st \<noteq> FILL \<Longrightarrow> st \<noteq> PARTIAL_FILL \<Longrightarrow> prints [FillReport bd sd sa q c i k ba sa' st] = []"
  by (simp add: prints_def map_filter_def decode_trade_def FillReport_def)

lemma printed_silent: "printed asset os os' rs \<Longrightarrow> prints rs' = [] \<Longrightarrow> printed asset os os' (rs @ rs')"
  by (simp add: printed_def)

lemma spec_add_silent:
  "\<exists>rs. ab_Reports (spec_add_buy asset order s) = ab_Reports s @ rs \<and> prints rs = [] \<and> ab_Asks (spec_add_buy asset order s) = ab_Asks s"
  "\<exists>rs. ab_Reports (spec_add_sell asset order s) = ab_Reports s @ rs \<and> prints rs = [] \<and> ab_Bids (spec_add_sell asset order s) = ab_Bids s"
  by (simp_all add: spec_add_buy_def spec_add_sell_def Let_def no_print)

definition other_side :: "Order \<Rightarrow> abook \<Rightarrow> Order list" where
  "other_side order s = (if ord_Side order = BUY then ab_Asks s else ab_Bids s)"

lemma spec_execute_printed:
  assumes "asset \<noteq> 0" "\<forall>o' \<in> set (other_side order s). priced o' \<and> ord_Amount o' \<noteq> 0"
  shows "\<exists>rs. ab_Reports (spec_execute asset order s) = ab_Reports s @ rs \<and>
    printed asset (other_side order s) (other_side order (spec_execute asset order s)) rs"
proof (cases "spec_marketable order s")
  case False
  have "printed asset os os []" for os by (simp add: printed_def prints_def map_filter_def volume_def)
  then show ?thesis using False spec_add_silent[of asset order s] printed_silent[of asset _ _ "[]"]
    by (auto simp: spec_execute_def other_side_def)
next
  case True
  obtain o1 l1 s1 where b: "sweep_buy (Suc (length (ab_Asks s))) asset order (wrap64 (uint (ord_Amount order) * ord_Price order)) s = (o1, l1, s1)"
    by (metis prod_cases3)
  obtain o2 l2 s2 where a: "sweep_sell (Suc (length (ab_Bids s))) asset order (uint (ord_Amount order)) s = (o2, l2, s2)"
    by (metis prod_cases3)
  show ?thesis
  proof (cases "ord_Side order = BUY")
    case buy: True
    obtain rs where rs: "ab_Reports s1 = ab_Reports s @ rs" "printed asset (ab_Asks s) (ab_Asks s1) rs"
      using sweep_buy_printed[OF b assms(1)] assms(2) buy by (auto simp: other_side_def)
    have "\<exists>rs'. ab_Reports (spec_fill_buy asset order s) = ab_Reports s1 @ rs' \<and> prints rs' = [] \<and> ab_Asks (spec_fill_buy asset order s) = ab_Asks s1"
      unfolding spec_fill_buy_def b using spec_add_silent(1)[of asset o1 s1] no_print by auto
    then show ?thesis using rs printed_silent[OF rs(2)] True buy by (auto simp: spec_execute_def other_side_def)
  next
    case sell: False
    obtain rs where rs: "ab_Reports s2 = ab_Reports s @ rs" "printed asset (ab_Bids s) (ab_Bids s2) rs"
      using sweep_sell_printed[OF a assms(1)] assms(2) sell by (auto simp: other_side_def)
    have "\<exists>rs'. ab_Reports (spec_fill_sell asset order s) = ab_Reports s2 @ rs' \<and> prints rs' = [] \<and> ab_Bids (spec_fill_sell asset order s) = ab_Bids s2"
      unfolding spec_fill_sell_def a using spec_add_silent(2)[of asset o2 s2] no_print by auto
    then show ?thesis using rs printed_silent[OF rs(2)] True sell by (auto simp: spec_execute_def other_side_def)
  qed
qed

text \<open>The history of the dashboard grows by the prints.\<close>

lemma reports_recorded:
  assumes "\<forall>(a, p, q) \<in> set (prints (map sr_msg srs)). a = asset"
    "length (amh_trades (history_of asset st)) + length (prints (map sr_msg srs)) \<le> kMaxTrades"
  shows "map (\<lambda>t. (tp_price t, tp_qty t)) (amh_trades (history_of asset (fold dash_apply_report srs st))) =
    map (\<lambda>t. (tp_price t, tp_qty t)) (amh_trades (history_of asset st)) @ map snd (prints (map sr_msg srs))"
  using assms
proof (induction srs arbitrary: st)
  case (Cons r srs)
  have h: "history_of asset (push_trade e (st :: 'a AppState)) = history_of asset st" "history_of asset (apply_trade_to_balance x st) = history_of asset st"
    "history_of asset (st \<lparr> app_order_reports_received := n \<rparr>) = history_of asset st" for e x n st
    by (simp_all add: history_of_def push_trade_def Let_def)
  show ?case
  proof (cases "decode_trade (sr_msg r)")
    case None
    then have p: "prints (map sr_msg (r # srs)) = prints (map sr_msg srs)" by (simp add: prints_def map_filter_def)
    have "history_of asset (dash_apply_report r st) = history_of asset st" using None by (simp add: dash_apply_report_def record_order_report_def Let_def h)
    then show ?thesis using Cons.IH[of "dash_apply_report r st"] Cons.prems unfolding p by simp
  next
    case (Some t)
    obtain a p q where t: "t = (a, p, q)" by (metis prod_cases3)
    then have p: "prints (map sr_msg (r # srs)) = (a, p, q) # prints (map sr_msg srs)" using Some by (simp add: prints_def map_filter_def)
    then have a: "a = asset" using Cons.prems(1) by simp
    have "history_of asset (dash_apply_report r st) = add_trade (sr_recv_time r) p q (history_of asset st)"
      using Some t a h by (simp add: dash_apply_report_def record_order_report_def Let_def) (simp add: history_of_def)
    moreover have "length (amh_trades (history_of asset st)) < kMaxTrades" using Cons.prems(2) p by simp
    ultimately have "amh_trades (history_of asset (dash_apply_report r st)) =
        amh_trades (history_of asset st) @ [\<lparr> tp_time = sr_recv_time r, tp_price = p, tp_qty = q \<rparr>]" by (simp add: add_trade_def)
    then show ?thesis using Cons.IH[of "dash_apply_report r st"] Cons.prems unfolding p by simp
  qed
qed (simp add: prints_def map_filter_def)

section \<open>Balances\<close>

text \<open>The movement of the reserved amount of asset \<open>a\<close> that a report announces.\<close>

definition attempt_flow :: "u16 \<Rightarrow> OrderStateReport \<Rightarrow> int" where
  "attempt_flow a r = (if rep_SoldAssetId r = a then rep_SoldAttemptDelta r else 0)"

definition balance_ok :: "LiveBalance \<Rightarrow> bool" where
  "balance_ok b \<longleftrightarrow> (\<forall>a. in_i64 (fst (position a b)) \<and> in_i64 (snd (position a b)))"

lemma position_deltas:
  "position a (apply_confirmed_delta a' x b) = (if a = a' then (wrap64 (fst (position a b) + x), snd (position a b)) else position a b)"
  "position a (apply_attempt_delta a' x b) = (if a = a' then (fst (position a b), wrap64 (snd (position a b) + x)) else position a b)"
  by (auto simp: apply_confirmed_delta_def apply_attempt_delta_def position_def split: prod.splits)

lemma apply_trade_position:
  assumes "balance_ok b" "app_balances st c = Some b"
  shows "\<exists>b'. app_balances (apply_trade_to_balance r st) c = Some b' \<and> balance_ok b' \<and>
    (\<forall>a. position a b' = (if rep_ClientId r = c then (wrap64 (fst (position a b) + report_flow a r), wrap64 (snd (position a b) + attempt_flow a r)) else position a b))"
proof (cases "rep_ClientId r = c")
  case True
  then show ?thesis using assms
    by (auto simp: apply_trade_to_balance_def position_deltas balance_ok_def report_flow_def attempt_flow_def add.assoc)
next
  case False
  then show ?thesis using assms by (auto simp: apply_trade_to_balance_def split: option.splits)
qed

lemma balances_follow:
  assumes "balance_ok b" "app_balances st c = Some b"
  shows "\<exists>b'. app_balances (fold apply_trade_to_balance rs st) c = Some b' \<and> balance_ok b' \<and>
    (\<forall>a. position a b' = (wrap64 (fst (position a b) + flow a (filter (\<lambda>r. rep_ClientId r = c) rs)),
                           wrap64 (snd (position a b) + (\<Sum>r\<leftarrow>filter (\<lambda>r. rep_ClientId r = c) rs. attempt_flow a r))))"
  using assms
proof (induction rs arbitrary: st b)
  case Nil
  then show ?case by (auto simp: flow_def balance_ok_def)
next
  case (Cons r rs)
  from apply_trade_position[OF Cons.prems, of r] obtain b1 where
    b1: "app_balances (apply_trade_to_balance r st) c = Some b1" "balance_ok b1"
      "\<And>a. position a b1 = (if rep_ClientId r = c then (wrap64 (fst (position a b) + report_flow a r), wrap64 (snd (position a b) + attempt_flow a r)) else position a b)"
    by blast
  from Cons.IH[OF b1(2,1)] show ?case by (auto simp: b1(3) flow_def add.assoc)
qed

section \<open>Properties\<close>

text \<open>C7. The dashboard's order book follows the matching engine: when it shows the depths of the engine's book, and the engine
  handles an order, then the book updates the engine publishes, renumbered by the emitter, sent in packets of at most
  sixteen and applied by a frame, make it show the depths of the new book at every price, on both sides; and its best bid
  and ask are the best prices with depth.\<close>

theorem dashboard_shows_engine_book:
  fixes d :: "('d, 'f :: {linorder, zero}) Dashboard"
  assumes "engine_inv b LB LA" "resources order b" "ord_Action order = CANCEL \<longrightarrow> side_matches order b" "in_i64 (ord_Price order)"
    and "asset16 b \<noteq> 0" "tracks (asset16 b) (book_abs b LB LA) (dsh_app d)"
  shows "\<exists>b' LB' LA' us. handle_order order b = Some b' \<and> engine_inv b' LB' LA' \<and>
    ab_Updates (book_abs b' LB' LA') = ab_Updates (book_abs b LB LA) @ us \<and>
    (\<forall>batches n. concat batches = number_objects update_layout n us \<and> (\<forall>x \<in> set batches. length x \<le> MeOrderBookUpdateBatchSize) \<longrightarrow>
      (let st = dsh_app (frame_drain sub four now dt (d \<lparr> dsh_book_events :=
          MulticastReceiver_run (order_book_handler t) (map (\<lambda>x. Datagram (concat (map encode_OrderBookUpdate x))) batches) [] \<rparr>)) in
       tracks (asset16 b) (book_abs b' LB' LA') st \<and>
       (\<forall>p. depth_at p (ab_Bids (book_abs b' LB' LA')) \<noteq> 0 \<longrightarrow> p \<le> best_bid (book_of (asset16 b) st)) \<and>
       (\<forall>p. depth_at p (ab_Asks (book_abs b' LB' LA')) \<noteq> 0 \<longrightarrow> best_ask (book_of (asset16 b) st) \<le> p)))"
proof -
  from handle_order_announced[OF assms(1-4)] obtain b' LB' LA' rs us where
    b': "handle_order order b = Some b'" "engine_inv b' LB' LA'" "published (book_abs b LB LA) (book_abs b' LB' LA') rs us"
    and us: "\<forall>u \<in> set us. upd_AssetId u = asset16 b \<and> upd_Side u \<in> {ORDER_BOOK_UPDATE_BUY, ORDER_BOOK_UPDATE_SELL} \<and> in_i64 (upd_Price u)"
    by blast
  have best: "p \<le> best_bid (book_of a st)" if "tracks a s st" "depth_at p (ab_Bids s) \<noteq> 0" for a s p and st :: "'d AppState"
    using that best_bid_shown(1)[of "book_of a st" p] unfolding tracks_def by metis
  have ask: "best_ask (book_of a st) \<le> p" if "tracks a s st" "depth_at p (ab_Asks s) \<noteq> 0" for a s p and st :: "'d AppState"
    using that best_ask_shown(1)[of "book_of a st" p] unfolding tracks_def by metis
  have up: "ab_Updates (book_abs b' LB' LA') = ab_Updates (book_abs b LB LA) @ us" using b'(3) unfolding published_def by blast
  show ?thesis unfolding Let_def
    by (rule exI[of _ b'], rule exI[of _ LB'], rule exI[of _ LA'], rule exI[of _ us])
      (use b'(1,2) up frame_tracks[OF assms(6) b'(3) assms(5) us] best ask in blast)
qed

theorem dashboard_shows_engine_book_witness:
  "\<exists>b' LB' LA' us. handle_order demo_sell demo_empty = Some b' \<and> engine_inv b' LB' LA' \<and>
    ab_Updates (book_abs b' LB' LA') = ab_Updates (book_abs demo_empty [] []) @ us \<and>
    (\<forall>batches n. concat batches = number_objects update_layout n us \<and> (\<forall>x \<in> set batches. length x \<le> MeOrderBookUpdateBatchSize) \<longrightarrow>
       tracks 1 (book_abs b' LB' LA') (dsh_app (frame_drain (-) 4 0 1 ((Dashboard_init :: (int, int) Dashboard) \<lparr> dsh_book_events :=
          MulticastReceiver_run (order_book_handler 5) (map (\<lambda>x. Datagram (concat (map encode_OrderBookUpdate x))) batches) [] \<rparr>))))"
proof -
  have act: "ord_Action demo_sell = CANCEL \<longrightarrow> side_matches demo_sell demo_empty" "in_i64 (ord_Price demo_sell)"
    by (simp_all add: demo_sell_def demo_order_def in_i64_def)
  have a: "asset16 demo_empty = 1" by code_simp
  have "tracks 1 (book_abs demo_empty [] []) (dsh_app (Dashboard_init :: (int, int) Dashboard))"
    using app_book_inv_empty by (simp add: tracks_def demo_empty_ok(3) Dashboard_init_def AppState_init_def book_of_def)
  with dashboard_shows_engine_book[OF demo_empty_ok(2) demo_resources(1) act, of "Dashboard_init :: (int, int) Dashboard" "(-)" 4 0 1 5]
  show ?thesis unfolding a Let_def by (simp; blast)
qed

text \<open>C23. The dashboard prints every fill once: for an order the engine executes against resting orders at positive prices whose
  value fits 63 bits, the trades decoded from the published reports are all of the market's asset, carry prices of orders
  that were resting on the other side, and add up to exactly what that side lost; the history of the asset grows by
  exactly these trades, in order, while it is below its limit.\<close>

theorem trade_prints_are_fills:
  assumes "engine_inv b LB LA" "resources order b" "ord_Action order = EXECUTE" "asset16 b \<noteq> 0"
    and "\<forall>o' \<in> set (other_side order (book_abs b LB LA)). priced o' \<and> ord_Amount o' \<noteq> 0"
  shows "\<exists>b' LB' LA' rs. handle_order order b = Some b' \<and> engine_inv b' LB' LA' \<and>
    ab_Reports (book_abs b' LB' LA') = ab_Reports (book_abs b LB LA) @ rs \<and>
    volume (prints rs) + resting_amount (other_side order (book_abs b' LB' LA')) = resting_amount (other_side order (book_abs b LB LA)) \<and>
    (\<forall>(a, p, q) \<in> set (prints rs). a = asset16 b \<and> p \<in> ord_Price ` set (other_side order (book_abs b LB LA)) \<and> q \<noteq> 0) \<and>
    (\<forall>st t. length (amh_trades (history_of (asset16 b) st)) + length (prints rs) \<le> kMaxTrades \<longrightarrow>
      map (\<lambda>t. (tp_price t, tp_qty t)) (amh_trades (history_of (asset16 b) (fold dash_apply_report (map (\<lambda>r. \<lparr> sr_recv_time = t, sr_msg = r \<rparr>) rs) st))) =
      map (\<lambda>t. (tp_price t, tp_qty t)) (amh_trades (history_of (asset16 b) st)) @ map snd (prints rs))"
proof -
  let ?s = "book_abs b LB LA"
  have "ord_Action order = CANCEL \<longrightarrow> side_matches order b" using assms(3) by simp
  from handle_order_ok[OF assms(1,2) this] obtain b' LB' LA' where
    b': "handle_order order b = Some b'" "engine_inv b' LB' LA'" "book_abs b' LB' LA' = spec_execute (asset16 b) order ?s"
    using assms(3) by (auto simp: spec_handle_def)
  from spec_execute_printed[OF assms(4,5)] obtain rs where
    rs: "ab_Reports (book_abs b' LB' LA') = ab_Reports ?s @ rs" "printed (asset16 b) (other_side order ?s) (other_side order (book_abs b' LB' LA')) rs"
    unfolding b'(3) by blast
  have "\<forall>(a, p, q) \<in> set (prints rs). a = asset16 b" using rs(2) unfolding printed_def by auto
  then have "map (\<lambda>t. (tp_price t, tp_qty t)) (amh_trades (history_of (asset16 b) (fold dash_apply_report (map (\<lambda>r. \<lparr> sr_recv_time = t, sr_msg = r \<rparr>) rs) st))) =
      map (\<lambda>t. (tp_price t, tp_qty t)) (amh_trades (history_of (asset16 b) st)) @ map snd (prints rs)"
    if "length (amh_trades (history_of (asset16 b) st)) + length (prints rs) \<le> kMaxTrades" for t :: 'a and st
    using that reports_recorded[of "map (\<lambda>r. \<lparr> sr_recv_time = t, sr_msg = r \<rparr>) rs" "asset16 b" st] by (simp add: comp_def)
  with b'(1,2) rs show ?thesis unfolding printed_def by blast
qed

theorem trade_prints_are_fills_witness:
  "\<exists>LB LA b' LB' LA' rs. handle_order demo_buy demo_book = Some b' \<and>
     ab_Reports (book_abs b' LB' LA') = ab_Reports (book_abs demo_book LB LA) @ rs \<and>
     volume (prints rs) + resting_amount (ab_Asks (book_abs b' LB' LA')) = 5"
proof -
  obtain LB LA where i: "engine_inv demo_book LB LA" "ab_Asks (book_abs demo_book LB LA) = [demo_sell]" "ba_MarketAssetId demo_book = 1"
    using demo_book_ok(2) by blast
  have act: "ord_Action demo_buy = EXECUTE" "ord_Side demo_buy = BUY" by (simp_all add: demo_buy_def demo_order_def)
  have a: "asset16 demo_book \<noteq> 0" using i(3) by simp
  have "\<forall>o' \<in> set (other_side demo_buy (book_abs demo_book LB LA)). priced o' \<and> ord_Amount o' \<noteq> 0"
    by (simp add: other_side_def act i(2) priced_def demo_sell_def demo_order_def)
  from trade_prints_are_fills[OF i(1) demo_resources(2) act(1) a this, where ?'a = int] obtain b' LB' LA' rs where
    "handle_order demo_buy demo_book = Some b'" "ab_Reports (book_abs b' LB' LA') = ab_Reports (book_abs demo_book LB LA) @ rs"
    "volume (prints rs) + resting_amount (other_side demo_buy (book_abs b' LB' LA')) = resting_amount (other_side demo_buy (book_abs demo_book LB LA))" by blast
  moreover have "resting_amount (other_side demo_buy (book_abs demo_book LB LA)) = 5"
    by (simp add: other_side_def act i(2) resting_amount_def demo_sell_def demo_order_def)
  ultimately show ?thesis using act(2) unfolding other_side_def by (simp, blast)
qed

text \<open>The balances the dashboard tracks follow the reports: after any reports, each position of a tracked client is its value
  before plus the movements its own reports announce (modulo \<open>2 ^ 64\<close>), confirmed and reserved, and reports of other clients
  change nothing.\<close>

theorem live_balance_follows_reports:
  assumes "balance_ok bal" "app_balances st c = Some bal"
  shows "\<exists>bal'. app_balances (fold apply_trade_to_balance rs st) c = Some bal' \<and>
    (\<forall>a. position a bal' = (wrap64 (fst (position a bal) + flow a (filter (\<lambda>r. rep_ClientId r = c) rs)),
                             wrap64 (snd (position a bal) + (\<Sum>r\<leftarrow>filter (\<lambda>r. rep_ClientId r = c) rs. attempt_flow a r))))"
  using balances_follow[OF assms] by blast

theorem live_balance_follows_reports_witness:
  "\<exists>bal'. app_balances (fold apply_trade_to_balance sample_reports ((AppState_init :: int AppState) \<lparr> app_balances := [1 \<mapsto> empty_LiveBalance] \<rparr>)) 1 = Some bal' \<and>
     position 1 bal' = (5, 0) \<and> position 0 bal' = (- 50, 0)"
proof -
  have "balance_ok empty_LiveBalance" by (simp add: balance_ok_def position_def empty_LiveBalance_def in_i64_def)
  moreover have "app_balances ((AppState_init :: int AppState) \<lparr> app_balances := [1 \<mapsto> empty_LiveBalance] \<rparr>) 1 = Some empty_LiveBalance" by simp
  moreover have "wrap64 (- 50) = - 50" "wrap64 5 = 5" "wrap64 0 = 0" by (simp_all add: in_i64_def)
  ultimately show ?thesis using live_balance_follows_reports[of empty_LiveBalance "(AppState_init :: int AppState) \<lparr> app_balances := [1 \<mapsto> empty_LiveBalance] \<rparr>" 1 sample_reports]
    by (auto simp: sample_reports_def FillReport_def flow_def report_flow_def attempt_flow_def position_def empty_LiveBalance_def)
qed

end
