(* ===== verification/Struct_Layouts.thy ===== *)
theory Struct_Layouts
  imports Wire_Login Wire_Market
begin

text \<open>
  The packed structs of the headers as data: a struct is the list of its members with their C types, in both builds (\<open>perf\<close>
  is \<open>NAOTO_PERF\<close>), once as the server declares it (\<open>market_server/common/include\<close>, \<open>order_gateway/include\<close>), once as the
  dashboard does (\<open>market_client/include/wire_formats.hpp\<close>) and, for book updates, as the monitor
  \<open>functional_tests/receiver.c\<close> does.  Under \<open>pragma pack(1)\<close> a member lies at the sum of the sizes before it, so two
  declarations agree on the wire when their lists of types are the same.  The conversions of the other theories are shown to be
  these layouts in the default build.
\<close>

section \<open>Packed structs\<close>

datatype ctype = C_char | C_u8 | C_u16 | C_u32 | C_u64 | C_i64 | C_array nat ctype

fun ct_size :: "ctype \<Rightarrow> nat" where
  "ct_size C_char = 1"
| "ct_size C_u8 = 1"
| "ct_size C_u16 = 2"
| "ct_size C_u32 = 4"
| "ct_size C_u64 = 8"
| "ct_size C_i64 = 8"
| "ct_size (C_array n t) = n * ct_size t"

type_synonym c_struct = "(string \<times> ctype) list"

definition sizeof_struct :: "c_struct \<Rightarrow> nat" where
  "sizeof_struct fs = sum_list (map (ct_size \<circ> snd) fs)"

fun offsetof :: "string \<Rightarrow> c_struct \<Rightarrow> nat option" where
  "offsetof m [] = None"
| "offsetof m ((n, t) # fs) = (if n = m then Some 0 else map_option ((+) (ct_size t)) (offsetof m fs))"

text \<open>The value of a member is a number, or the numbers of an array.\<close>

datatype cvalue = Num int | Nums "int list"

fun encode_value :: "ctype \<Rightarrow> cvalue \<Rightarrow> u8 list" where
  "encode_value (C_array n t) (Nums xs) = concat (map (\<lambda>x. le_bytes (ct_size t) x) xs)"
| "encode_value (C_array n t) (Num x) = []"
| "encode_value t (Num x) = le_bytes (ct_size t) x"
| "encode_value t (Nums xs) = []"

fun fits :: "ctype \<Rightarrow> cvalue \<Rightarrow> bool" where
  "fits (C_array n t) (Nums xs) \<longleftrightarrow> length xs = n"
| "fits (C_array n t) (Num x) \<longleftrightarrow> False"
| "fits t (Num x) \<longleftrightarrow> True"
| "fits t (Nums xs) \<longleftrightarrow> False"

definition encode_struct :: "c_struct \<Rightarrow> cvalue list \<Rightarrow> u8 list" where
  "encode_struct fs vs = concat (map2 (\<lambda>(n, t) v. encode_value t v) fs vs)"

text \<open>The bytes of one member, read at the offset the reader computes from its own declaration.\<close>

definition member_bytes :: "c_struct \<Rightarrow> string \<Rightarrow> u8 list \<Rightarrow> u8 list option" where
  "member_bytes fs m bs =
     (case (offsetof m fs, map_of fs m) of (Some k, Some t) \<Rightarrow> Some (take (ct_size t) (drop k bs)) | _ \<Rightarrow> None)"

lemma length_encode_value: "fits t v \<Longrightarrow> length (encode_value t v) = ct_size t"
proof (cases "(t, v)" rule: fits.cases)
  case (1 n t' xs)
  assume "fits t v"
  then have "length (concat (map (le_bytes (ct_size t')) xs)) = n * ct_size t'"
    using 1 by (auto simp: length_concat comp_def sum_list_triv)
  with 1 show ?thesis by simp
qed auto

definition all_fit :: "c_struct \<Rightarrow> cvalue list \<Rightarrow> bool" where
  "all_fit fs vs \<longleftrightarrow> list_all2 fits (map snd fs) vs"

lemma all_fit_simps [simp]:
  "all_fit [] vs \<longleftrightarrow> vs = []" "all_fit (f # fs) vs \<longleftrightarrow> (\<exists>v vs'. vs = v # vs' \<and> fits (snd f) v \<and> all_fit fs vs')"
  by (auto simp: all_fit_def list_all2_Cons1)

lemma encode_struct_simps [simp]:
  "encode_struct [] vs = []" "encode_struct ((n, t) # fs) (v # vs) = encode_value t v @ encode_struct fs vs"
  by (simp_all add: encode_struct_def)

lemma sizeof_struct_simps [simp]:
  "sizeof_struct [] = 0" "sizeof_struct ((n, t) # fs) = ct_size t + sizeof_struct fs"
  by (simp_all add: sizeof_struct_def)

lemma length_encode_struct: "all_fit fs vs \<Longrightarrow> length (encode_struct fs vs) = sizeof_struct fs"
proof (induction fs arbitrary: vs)
  case (Cons f fs)
  then show ?case by (cases f) (auto simp: length_encode_value)
qed simp

text \<open>A member is found where its reader looks for it.\<close>

lemma member_bytes_encode:
  assumes "all_fit fs vs" "i < length fs" "distinct (map fst fs)"
  shows "member_bytes fs (fst (fs ! i)) (encode_struct fs vs @ rest) = Some (encode_value (snd (fs ! i)) (vs ! i))"
  using assms
proof (induction fs arbitrary: vs i)
  case (Cons f fs)
  obtain n t where f: "f = (n, t)" by (cases f)
  obtain v vs' where vs: "vs = v # vs'" "fits t v" "all_fit fs vs'" using Cons.prems(1) f by auto
  show ?case
  proof (cases i)
    case 0
    then show ?thesis using vs f length_encode_value[OF vs(2)] by (simp add: member_bytes_def)
  next
    case (Suc j)
    let ?m = "fst (fs ! j)"
    have j: "j < length fs" "distinct (map fst fs)" using Cons.prems(2,3) Suc by simp_all
    have ne: "?m \<noteq> n" using Cons.prems(3) nth_mem[OF j(1)] f by auto
    have ih: "member_bytes fs ?m (encode_struct fs vs' @ rest) = Some (encode_value (snd (fs ! j)) (vs' ! j))"
      using Cons.IH[OF vs(3) j] .
    then obtain k t' where k: "offsetof ?m fs = Some k" "map_of fs ?m = Some t'"
      by (auto simp: member_bytes_def split: option.splits)
    with ih have "take (ct_size t') (drop k (encode_struct fs vs' @ rest)) = encode_value (snd (fs ! j)) (vs' ! j)"
      by (simp add: member_bytes_def)
    then show ?thesis using vs f Suc ne k length_encode_value[OF vs(2)] by (simp add: member_bytes_def)
  qed
qed simp

section \<open>The server's structs\<close>

definition naoto_Order :: "bool \<Rightarrow> c_struct" where
  "naoto_Order perf = [(''Price'', C_i64)] @
     (if perf then [(''IngestedTimestamp'', C_u64), (''RoutedTimestamp'', C_u64), (''ReceivedTimestamp'', C_u64)] else []) @
     [(''OrderId'', C_u64), (''ClientOrderId'', C_u32), (''ClientId'', C_u32), (''Amount'', C_u32), (''AssetId'', C_u16),
      (''Type'', C_u8), (''Side'', C_u8), (''Action'', C_u8), (''Padding'', C_array 7 C_u8)]"

definition naoto_OrderStateReport :: "bool \<Rightarrow> c_struct" where
  "naoto_OrderStateReport perf = [(''BoughtDelta'', C_i64), (''SoldDelta'', C_i64), (''SoldAttemptDelta'', C_i64)] @
     (if perf then [(''IngestedTimestamp'', C_u64), (''RoutedTimestamp'', C_u64), (''ReceivedTimestamp'', C_u64),
        (''UpdateTimestamp'', C_u64)] else []) @
     [(''SequenceId'', C_u32), (''ClientId'', C_u32), (''OrderId'', C_u32), (''TradeId'', C_u32), (''BoughtAssetId'', C_u16),
      (''SoldAssetId'', C_u16), (''State'', C_u32)]"

definition naoto_OrderBookUpdate :: "bool \<Rightarrow> c_struct" where
  "naoto_OrderBookUpdate perf = (if perf then [(''UpdateTimestamp'', C_u64)] else []) @
     [(''Price'', C_i64), (''SequenceId'', C_u32), (''Depth'', C_u32), (''AssetId'', C_u16), (''Side'', C_u8)]"

definition naoto_ClientAuthRequest :: c_struct where
  "naoto_ClientAuthRequest = [(''RequestType'', C_char), (''ClientId'', C_u32), (''Key'', C_array 32 C_u8)]"

definition naoto_RoutedAuthRequest :: c_struct where
  "naoto_RoutedAuthRequest = [(''RequestType'', C_char), (''ClientId'', C_u32), (''Key'', C_array 32 C_u8),
     (''ClientFd'', C_u32), (''GatewayId'', C_u16)]"

definition naoto_GatewayHandshake :: c_struct where
  "naoto_GatewayHandshake = [(''GatewayId'', C_u16)]"

definition naoto_OrderConfirmation :: c_struct where
  "naoto_OrderConfirmation = [(''OrderId'', C_u32), (''ClientOrderId'', C_u32), (''Status'', C_u8)]"

definition naoto_ClientAccountSnapshot :: c_struct where
  "naoto_ClientAccountSnapshot = [(''Status'', C_char), (''SequenceId'', C_u64), (''ClientId'', C_u32), (''ClientFd'', C_u32),
     (''AssetId'', C_array MaxPositions C_u16), (''Confirmed'', C_array MaxPositions C_i64), (''Attempt'', C_array MaxPositions C_i64)]"

section \<open>The dashboard's structs\<close>

definition gateways_ClientRequest :: c_struct where
  "gateways_ClientRequest = [(''RequestType'', C_char), (''ClientId'', C_u32), (''Key'', C_array 32 C_u8)]"

definition gateways_GatewayConnection :: c_struct where
  "gateways_GatewayConnection = [(''GatewayId'', C_u16)]"

definition gateways_GatewayRequest :: c_struct where
  "gateways_GatewayRequest = [(''RequestType'', C_char), (''ClientId'', C_u32), (''Key'', C_array 32 C_u8),
     (''ClientFd'', C_u32), (''GatewayId'', C_u16)]"

definition gateways_Order :: "bool \<Rightarrow> c_struct" where
  "gateways_Order perf = [(''Price'', C_i64)] @
     (if perf then [(''IngestedTimestamp'', C_u64), (''RoutedTimestamp'', C_u64), (''ReceivedTimestamp'', C_u64)] else []) @
     [(''OrderId'', C_u64), (''ClientOrderId'', C_u32), (''ClientId'', C_u32), (''Amount'', C_u32), (''AssetId'', C_u16),
      (''Type'', C_u8), (''Side'', C_u8), (''Action'', C_u8), (''Padding'', C_array 7 C_u8)]"

definition gateways_OrderConfirmation :: c_struct where
  "gateways_OrderConfirmation = [(''OrderId'', C_u32), (''ClientOrderId'', C_u32), (''Status'', C_u8)]"

definition gateways_ClientRequestResponse :: "nat \<Rightarrow> c_struct" where
  "gateways_ClientRequestResponse maxPositions = [(''Status'', C_char), (''SequenceId'', C_u64), (''ClientId'', C_u32), (''ClientFd'', C_u32),
     (''AssetId'', C_array maxPositions C_u16), (''Confirmed'', C_array maxPositions C_i64), (''Attempt'', C_array maxPositions C_i64)]"

definition client_OrderStateReport :: "bool \<Rightarrow> c_struct" where
  "client_OrderStateReport perf = [(''BoughtDelta'', C_i64), (''SoldDelta'', C_i64), (''SoldAttemptDelta'', C_i64)] @
     (if perf then [(''IngestedTimestamp'', C_u64), (''RoutedTimestamp'', C_u64), (''ReceivedTimestamp'', C_u64),
        (''UpdateTimestamp'', C_u64)] else []) @
     [(''SequenceId'', C_u32), (''ClientId'', C_u32), (''OrderId'', C_u32), (''TradeId'', C_u32), (''BoughtAssetId'', C_u16),
      (''SoldAssetId'', C_u16), (''State'', C_u32)]"

definition client_OrderBookUpdate :: "bool \<Rightarrow> c_struct" where
  "client_OrderBookUpdate perf = (if perf then [(''UpdateTimestamp'', C_u64)] else []) @
     [(''Price'', C_i64), (''SequenceId'', C_u32), (''Depth'', C_u32), (''AssetId'', C_u16), (''Side'', C_u8)]"

section \<open>The monitor's struct\<close>

definition monitor_OrderBookUpdate :: c_struct where
  "monitor_OrderBookUpdate = [(''SequenceId'', C_u32), (''Depth'', C_u32), (''Price'', C_i64), (''AssetId'', C_u16), (''Side'', C_u8)]"

lemmas struct_defs = naoto_Order_def naoto_OrderStateReport_def naoto_OrderBookUpdate_def naoto_ClientAuthRequest_def
  naoto_RoutedAuthRequest_def naoto_GatewayHandshake_def naoto_OrderConfirmation_def naoto_ClientAccountSnapshot_def
  gateways_ClientRequest_def gateways_GatewayConnection_def gateways_GatewayRequest_def gateways_Order_def
  gateways_OrderConfirmation_def gateways_ClientRequestResponse_def client_OrderStateReport_def client_OrderBookUpdate_def
  monitor_OrderBookUpdate_def

section \<open>The conversions are these layouts\<close>

definition bytes_value :: "u8 list \<Rightarrow> cvalue" where "bytes_value bs = Nums (map uint bs)"

lemma encode_bytes_value [simp]: "encode_value (C_array n C_u8) (bytes_value bs) = bs"
  by (induction bs) (simp_all add: bytes_value_def)

lemma fits_bytes_value [simp]: "fits (C_array n t) (bytes_value bs) \<longleftrightarrow> length bs = n"
  by (simp add: bytes_value_def)

definition order_values :: "Order \<Rightarrow> cvalue list" where
  "order_values o' = [Num (ord_Price o'), Num (uint (ord_OrderId o')), Num (uint (ord_ClientOrderId o')), Num (uint (ord_ClientId o')),
     Num (uint (ord_Amount o')), Num (uint (ord_AssetId o')), Num (uint (OrderType_code (ord_Type o'))),
     Num (uint (OrderSide_code (ord_Side o'))), Num (uint (OrderAction_code (ord_Action o'))), bytes_value (ord_Padding o')]"

definition report_values :: "OrderStateReport \<Rightarrow> cvalue list" where
  "report_values r = [Num (rep_BoughtDelta r), Num (rep_SoldDelta r), Num (rep_SoldAttemptDelta r), Num (uint (rep_SequenceId r)),
     Num (uint (rep_ClientId r)), Num (uint (rep_OrderId r)), Num (uint (rep_TradeId r)), Num (uint (rep_BoughtAssetId r)),
     Num (uint (rep_SoldAssetId r)), Num (uint (OrderState_code (rep_State r)))]"

definition update_values :: "OrderBookUpdate \<Rightarrow> cvalue list" where
  "update_values u = [Num (upd_Price u), Num (uint (upd_SequenceId u)), Num (uint (upd_Depth u)), Num (uint (upd_AssetId u)),
     Num (uint (upd_Side u))]"

lemma encode_structs:
  "encode_Order o' = encode_struct (naoto_Order False) (order_values o')"
  "encode_OrderStateReport r = encode_struct (naoto_OrderStateReport False) (report_values r)"
  "encode_OrderBookUpdate u = encode_struct (naoto_OrderBookUpdate False) (update_values u)"
  "encode_ClientAuthRequest q = encode_struct naoto_ClientAuthRequest
     [Num (uint (car_RequestType q)), Num (uint (car_ClientId q)), bytes_value (car_Key q)]"
  "encode_RoutedAuthRequest p = encode_struct naoto_RoutedAuthRequest
     [Num (uint (rar_RequestType p)), Num (uint (rar_ClientId p)), bytes_value (rar_Key p), Num (uint (rar_ClientFd p)),
      Num (uint (rar_GatewayId p))]"
  "encode_GatewayHandshake h = encode_struct naoto_GatewayHandshake [Num (uint (ghs_GatewayId h))]"
  "encode_OrderConfirmation c = encode_struct naoto_OrderConfirmation
     [Num (uint (conf_OrderId c)), Num (uint (conf_ClientOrderId c)), Num (uint (OrderConfirmationStatus_code (conf_Status c)))]"
  by (simp_all add: encode_Order_def encode_OrderStateReport_def encode_OrderBookUpdate_def encode_ClientAuthRequest_def
      encode_RoutedAuthRequest_def encode_GatewayHandshake_def encode_OrderConfirmation_def struct_defs order_values_def
      report_values_def update_values_def)

lemma default_values_fit:
  "length (ord_Padding o') = 7 \<Longrightarrow> all_fit (naoto_Order False) (order_values o')"
  "all_fit (naoto_OrderStateReport False) (report_values r)" "all_fit (naoto_OrderBookUpdate False) (update_values u)"
  by (simp_all add: struct_defs order_values_def report_values_def update_values_def)

lemma struct_sizes:
  "sizeof_struct (naoto_Order perf) = (if perf then 64 else 40)" "sizeof_struct (naoto_OrderStateReport perf) = (if perf then 80 else 48)"
  "sizeof_struct (naoto_OrderBookUpdate perf) = (if perf then 27 else 19)" "sizeof_struct naoto_ClientAuthRequest = 37"
  "sizeof_struct naoto_RoutedAuthRequest = 43" "sizeof_struct naoto_GatewayHandshake = 2" "sizeof_struct naoto_OrderConfirmation = 9"
  "sizeof_struct naoto_ClientAccountSnapshot = 305"
  by (simp_all add: struct_defs MaxPositions_def)

end
