(* ===== verification/Feed_Monitor.thy ===== *)
theory Feed_Monitor
  imports Multicast Struct_Layouts
begin

text \<open>
  The command line monitor of the book feed (\<open>market_server/functional_tests/receiver.c\<close>): it filters the packets of the
  book port, reads one update per packet and counts the sequence numbers that are missing.  The theorems say what the count
  means on a feed in order, and which member of the engine's packets the monitor really reads.
\<close>

section \<open>State\<close>

record FeedMonitor =
  mon_haveSeen :: bool
  mon_lastSeq :: u32
  mon_totalReceived :: u64
  mon_totalGapPackets :: u64
  mon_irrelevantCount :: u64

definition FeedMonitor_init :: FeedMonitor where
  "FeedMonitor_init = \<lparr> mon_haveSeen = False, mon_lastSeq = 0, mon_totalReceived = 0, mon_totalGapPackets = 0, mon_irrelevantCount = 0 \<rparr>"

definition TARGET_UDP_PORT :: u16 where "TARGET_UDP_PORT = 30002"

definition checkSequence :: "u32 \<Rightarrow> FeedMonitor \<Rightarrow> FeedMonitor" where
  "checkSequence seq m =
     (let m = m \<lparr> mon_totalReceived := mon_totalReceived m + 1 \<rparr> in
      if \<not> mon_haveSeen m then m \<lparr> mon_haveSeen := True, mon_lastSeq := seq \<rparr>
      else let expected = mon_lastSeq m + 1 in
        if seq = expected then m \<lparr> mon_lastSeq := seq \<rparr>
        else if seq > expected
        then let missing = seq - expected
             in m \<lparr> mon_totalGapPackets := mon_totalGapPackets m + ucast missing, mon_lastSeq := seq \<rparr>
        else m)"

section \<open>Packets\<close>

definition irrelevant :: "FeedMonitor \<Rightarrow> FeedMonitor" where
  "irrelevant m = m \<lparr> mon_irrelevantCount := mon_irrelevantCount m + 1 \<rparr>"

text \<open>\<open>memcpy\<close> into the monitor's struct, and the member it passes on.\<close>

definition monitor_SequenceId :: "u8 list \<Rightarrow> u32" where
  "monitor_SequenceId payload =
     (case member_bytes monitor_OrderBookUpdate ''SequenceId'' payload of Some bs \<Rightarrow> word_of_int (le_value bs) | None \<Rightarrow> 0)"

definition monitor_packet :: "rx_packet \<Rightarrow> FeedMonitor \<Rightarrow> FeedMonitor" where
  "monitor_packet pkt m =
     (case rx_Frame pkt of
        None \<Rightarrow> irrelevant m
      | Some f \<Rightarrow>
          if length (fr_Payload f) < sizeof_struct monitor_OrderBookUpdate then irrelevant m
          else if fr_EtherType f \<noteq> RTE_ETHER_TYPE_IPV4 then irrelevant m
          else if fr_NextProtoId f \<noteq> IPPROTO_UDP then irrelevant m
          else if fr_DstPort f \<noteq> TARGET_UDP_PORT then irrelevant m
          else checkSequence (monitor_SequenceId (fr_Payload f)) (m \<lparr> mon_irrelevantCount := 0 \<rparr>))"

definition monitor_burst :: "rx_packet list \<Rightarrow> FeedMonitor \<Rightarrow> FeedMonitor" where
  "monitor_burst pkts m = fold monitor_packet pkts m"

text \<open>Bringing the port up: the answers of the packet library to its calls, in order.  \<open>None\<close> is \<open>rte_exit\<close>.\<close>

definition monitor_start :: "int \<Rightarrow> bool \<Rightarrow> int \<Rightarrow> int \<Rightarrow> int \<Rightarrow> FeedMonitor option" where
  "monitor_start eal_init pool_create dev_configure rx_queue_setup dev_start =
     (if eal_init < 0 then None else if \<not> pool_create then None else if dev_configure < 0 then None
      else if rx_queue_setup < 0 then None else if dev_start < 0 then None else Some FeedMonitor_init)"

section \<open>What the counters say\<close>

lemma checkSequence_next:
  assumes "mon_haveSeen m" "mon_lastSeq m < seq"
  shows "mon_haveSeen (checkSequence seq m)" "mon_lastSeq (checkSequence seq m) = seq"
    "mon_totalReceived (checkSequence seq m) = mon_totalReceived m + 1"
    "mon_totalGapPackets (checkSequence seq m) = mon_totalGapPackets m + of_nat (unat seq - unat (mon_lastSeq m) - 1)"
proof -
  let ?l = "mon_lastSeq m"
  have lt: "unat ?l < unat seq" using assms(2) by (simp add: word_less_nat_alt)
  have "unat seq < 2 ^ 32" by (rule order_less_le_trans[OF unsigned_less]) simp
  then have e: "unat (?l + 1) = unat ?l + 1" using lt by (simp add: unat_word_ariths)
  have "\<not> seq < ?l + 1" "seq \<noteq> ?l + 1 \<Longrightarrow> ?l + 1 < seq" using lt e by (auto simp: word_less_nat_alt word_unat_eq_iff)
  moreover have d: "unat (seq - (?l + 1)) = unat seq - unat ?l - 1"
    using lt e by (subst unat_sub) (simp_all add: word_le_nat_alt)
  have "(ucast (seq - (?l + 1)) :: u64) = of_nat (unat (seq - (?l + 1)))" by simp
  then have "(ucast (seq - (?l + 1)) :: u64) = of_nat (unat seq - unat ?l - 1)" unfolding d .
  ultimately show "mon_haveSeen (checkSequence seq m)" "mon_lastSeq (checkSequence seq m) = seq"
    "mon_totalReceived (checkSequence seq m) = mon_totalReceived m + 1"
    "mon_totalGapPackets (checkSequence seq m) = mon_totalGapPackets m + of_nat (unat seq - unat ?l - 1)"
    using assms(1) e by (auto simp: checkSequence_def Let_def)
qed

text \<open>On numbers that only increase, what was seen and what is counted as missing add up to the span of the numbers.\<close>

lemma increasing_run:
  assumes "mon_haveSeen m" "sorted_wrt (<) (mon_lastSeq m # seqs)"
  shows "mon_totalReceived (fold checkSequence seqs m) = mon_totalReceived m + of_nat (length seqs)"
    "mon_totalGapPackets (fold checkSequence seqs m) =
       mon_totalGapPackets m + of_nat (unat (last (mon_lastSeq m # seqs)) - unat (mon_lastSeq m) - length seqs)"
    "mon_lastSeq (fold checkSequence seqs m) = last (mon_lastSeq m # seqs)"
    "unat (mon_lastSeq m) + length seqs \<le> unat (last (mon_lastSeq m # seqs))"
  using assms
proof (induction seqs arbitrary: m)
  case (Cons x seqs)
  {
    fix m :: FeedMonitor
    assume m: "mon_haveSeen m" "sorted_wrt (<) (mon_lastSeq m # x # seqs)"
    then have lt: "mon_lastSeq m < x" by simp
    note C = checkSequence_next[OF m(1) lt]
    have s: "sorted_wrt (<) (mon_lastSeq (checkSequence x m) # seqs)" using m(2) C(2) by simp
    have le: "unat (mon_lastSeq m) + 1 \<le> unat x" "unat x + length seqs \<le> unat (last (x # seqs))"
      using lt Cons.IH(4)[OF C(1) s] C(2) by (simp_all add: word_less_nat_alt)
    have gap: "(of_nat (unat x - unat (mon_lastSeq m) - 1) :: u64) + of_nat (unat (last (x # seqs)) - unat x - length seqs) =
        of_nat (unat (last (x # seqs)) - unat (mon_lastSeq m) - Suc (length seqs))"
      unfolding of_nat_add[symmetric] using le by (intro arg_cong[where f = of_nat]) linarith
    note I = Cons.IH(1-3)[OF C(1) s]
    have "mon_totalReceived (fold checkSequence (x # seqs) m) = mon_totalReceived m + of_nat (length (x # seqs))"
      using I(1) C(3) by simp
    moreover have "mon_totalGapPackets (fold checkSequence (x # seqs) m) =
        mon_totalGapPackets m + of_nat (unat (last (mon_lastSeq m # x # seqs)) - unat (mon_lastSeq m) - length (x # seqs))"
      using I(2) C(2,4) gap by (simp add: add.assoc)
    moreover have "mon_lastSeq (fold checkSequence (x # seqs) m) = last (mon_lastSeq m # x # seqs)" using I(3) C(2) by simp
    moreover have "unat (mon_lastSeq m) + length (x # seqs) \<le> unat (last (mon_lastSeq m # x # seqs))" using le by simp
    ultimately have "mon_totalReceived (fold checkSequence (x # seqs) m) = mon_totalReceived m + of_nat (length (x # seqs))"
      "mon_totalGapPackets (fold checkSequence (x # seqs) m) =
        mon_totalGapPackets m + of_nat (unat (last (mon_lastSeq m # x # seqs)) - unat (mon_lastSeq m) - length (x # seqs))"
      "mon_lastSeq (fold checkSequence (x # seqs) m) = last (mon_lastSeq m # x # seqs)"
      "unat (mon_lastSeq m) + length (x # seqs) \<le> unat (last (mon_lastSeq m # x # seqs))" by blast+
  }
  note step = this
  { case 1 then show ?case by (rule step(1)) next
    case 2 then show ?case by (rule step(2)) next
    case 3 then show ?case by (rule step(3)) next
    case 4 then show ?case by (rule step(4)) }
qed simp_all

text \<open>The gap counter of the monitor: on a feed whose numbers increase, however many are lost, the packets received and the
  packets counted as missing are together the span from the first number to the last.\<close>

theorem monitor_counts_gaps:
  assumes "sorted_wrt (<) (s # seqs)"
  shows "let m = fold checkSequence (s # seqs) FeedMonitor_init in
    mon_totalReceived m = of_nat (length (s # seqs)) \<and> mon_lastSeq m = last (s # seqs) \<and>
    mon_totalReceived m + mon_totalGapPackets m = of_nat (unat (last (s # seqs)) - unat s + 1)"
proof -
  let ?m = "checkSequence s FeedMonitor_init"
  have m: "mon_haveSeen ?m" "mon_lastSeq ?m = s" "mon_totalReceived ?m = 1" "mon_totalGapPackets ?m = 0"
    by (simp_all add: checkSequence_def FeedMonitor_init_def)
  have "sorted_wrt (<) (mon_lastSeq ?m # seqs)" using assms m(2) by simp
  note R = increasing_run[OF m(1) this, unfolded m]
  have "(of_nat (length seqs) :: u64) + of_nat (unat (last (s # seqs)) - unat s - length seqs) = of_nat (unat (last (s # seqs)) - unat s)"
    unfolding of_nat_add[symmetric] using R(4) by (intro arg_cong[where f = of_nat]) linarith
  then show ?thesis using R(1-3) by (simp add: Let_def add.assoc)
qed

theorem monitor_counts_gaps_witness:
  "mon_totalGapPackets (fold checkSequence [3, 4, 9] FeedMonitor_init) = 4 \<and>
   mon_totalReceived (fold checkSequence [3, 4, 9] FeedMonitor_init) + mon_totalGapPackets (fold checkSequence [3, 4, 9] FeedMonitor_init) = 7"
  using monitor_counts_gaps[of 3 "[4, 9]"] by (simp add: Let_def checkSequence_def FeedMonitor_init_def)

text \<open>The struct of the monitor has the number first, the engine's has the price there: what the monitor checks for gaps are the
  low 32 bits of the price of the first update of a packet, and the other updates of the packet are not looked at.\<close>

theorem monitor_reads_price_as_sequence:
  assumes "rx_Frame pkt = Some f" "fr_EtherType f = RTE_ETHER_TYPE_IPV4" "fr_NextProtoId f = IPPROTO_UDP" "fr_DstPort f = TARGET_UDP_PORT"
    and "fr_Payload f = concat (map encode_OrderBookUpdate (u # us))"
  shows "monitor_packet pkt m = checkSequence (word_of_int (upd_Price u)) (m \<lparr> mon_irrelevantCount := 0 \<rparr>)"
proof -
  have "take 4 (le_bytes 8 x) = le_bytes 4 x" for x by (simp add: numeral_eq_Suc)
  then have "monitor_SequenceId (fr_Payload f) = word_of_int (upd_Price u mod 256 ^ 4)"
    using assms(5) by (simp add: monitor_SequenceId_def member_bytes_def monitor_OrderBookUpdate_def encode_OrderBookUpdate_def le_value_le_bytes)
  also have "\<dots> = (word_of_int (upd_Price u) :: u32)"
    by (simp add: word_of_int_eq_iff take_bit_eq_mod)
  finally have "monitor_SequenceId (fr_Payload f) = word_of_int (upd_Price u)" .
  moreover have "\<not> length (fr_Payload f) < sizeof_struct monitor_OrderBookUpdate"
    using assms(5) by (simp add: monitor_OrderBookUpdate_def encode_OrderBookUpdate_def)
  ultimately show ?thesis using assms(1-4) by (simp add: monitor_packet_def)
qed

end
