(* ===== verification/Shared_Memory.thy ===== *)
theory Shared_Memory
  imports Order_Router Matching_Props
begin

text \<open>
  The thread of the engine that executes orders (\<open>BidAsk::MarketExecutionLoop\<close>), in both builds: fed with batches by the
  listener, or (\<open>NAOTO_SHARED_MEMORY\<close>) one by one from a queue in shared memory that the gateway's router writes
  (\<open>order_router.hpp\<close> in that build, \<open>common/include/shared_memory_ops.hpp\<close>, \<open>GetSharedQueue\<close> of
  \<open>order_gateway_service.hpp\<close>).  Both feeds execute the same orders in the same order.
\<close>

section \<open>The execution loop\<close>

definition MarketExecutionLoop_round :: "u8 ObjectBatch outbox \<Rightarrow> BidAsk \<Rightarrow> (u8 ObjectBatch outbox \<times> BidAsk) option" where
  "MarketExecutionLoop_round ob b =
     (case Consumer_TryPop (ob_Queue ob) of
        (None, q) \<Rightarrow> Some (ob \<lparr> ob_Queue := q \<rparr>, b)
      | (Some x, q) \<Rightarrow> do {
          b \<leftarrow> handle_batch (map decode_Order (batch_objects sizeof_Order (sp_Storage (ob_Pool ob) x))) b;
          (case StoragePool_Release (Some x) (ob_Pool ob) of (released, p) \<Rightarrow>
             if released then Some (\<lparr> ob_Pool = p, ob_Queue = q \<rparr>, b) else None) })"

definition MarketExecutionLoop_shared :: "Order channel \<Rightarrow> BidAsk \<Rightarrow> (Order channel \<times> BidAsk) option" where
  "MarketExecutionLoop_shared incoming b =
     (case Consumer_TryPop incoming of
        (None, q) \<Rightarrow> Some (q, b)
      | (Some curOrder, q) \<Rightarrow> do { b \<leftarrow> handle_order curOrder b; Some (q, b) })"

text \<open>Any number of rounds of a loop.\<close>

fun rounds :: "('q \<Rightarrow> 'b \<Rightarrow> ('q \<times> 'b) option) \<Rightarrow> nat \<Rightarrow> 'q \<Rightarrow> 'b \<Rightarrow> ('q \<times> 'b) option" where
  "rounds step 0 q b = Some (q, b)"
| "rounds step (Suc n) q b = do { (q, b) \<leftarrow> step q b; rounds step n q b }"

section \<open>The queue in shared memory\<close>

text \<open>The object the path names, if any, and the queues in the objects; an object stays while it is mapped, whatever the path
  names.  The answers of \<open>shm_open\<close>, \<open>ftruncate\<close> and \<open>mmap\<close> are arguments; \<open>shm_open\<close> for reading also fails when the path names
  nothing.\<close>

record 'q shm =
  shm_Path :: "nat option"
  shm_Object :: "nat \<Rightarrow> 'q"
  shm_Next :: nat

definition CreateSharedQueue :: "bool \<Rightarrow> bool \<Rightarrow> bool \<Rightarrow> 'q \<Rightarrow> 'q shm \<Rightarrow> nat option \<times> 'q shm" where
  "CreateSharedQueue opened truncated mapped fresh s =
     (let s = s \<lparr> shm_Path := None \<rparr> in
      if \<not> opened then (None, s)
      else let i = shm_Next s; s = s \<lparr> shm_Path := Some i, shm_Next := Suc i \<rparr> in
        if \<not> truncated then (None, s \<lparr> shm_Path := None \<rparr>)
        else if \<not> mapped then (None, s \<lparr> shm_Path := None \<rparr>)
        else (Some i, s \<lparr> shm_Object := (shm_Object s)(i := fresh) \<rparr>))"

definition OpenSharedQueue :: "bool \<Rightarrow> bool \<Rightarrow> 'q shm \<Rightarrow> nat option" where
  "OpenSharedQueue opened mapped s =
     (case shm_Path s of None \<Rightarrow> None | Some i \<Rightarrow> if \<not> opened then None else if \<not> mapped then None else Some i)"

text \<open>The gateway tries again every 100 ms; \<open>env k\<close> is what its attempt number \<open>k\<close> meets.\<close>

partial_function (option) GetSharedQueue :: "(nat \<Rightarrow> bool \<times> bool \<times> 'q shm) \<Rightarrow> nat \<Rightarrow> nat option" where
  "GetSharedQueue env k =
     (case env k of (opened, mapped, s) \<Rightarrow>
        (case OpenSharedQueue opened mapped s of None \<Rightarrow> GetSharedQueue env (Suc k) | Some i \<Rightarrow> Some i))"

text \<open>The gateway attaches to the queue the engine has created, however often it came too early.\<close>

lemma GetSharedQueue_attaches:
  assumes "CreateSharedQueue True True True fresh s = (i, s')" "env (k + n) = (True, True, s')"
    and "\<And>j. j < n \<Longrightarrow> shm_Path (snd (snd (env (k + j)))) = None"
  shows "GetSharedQueue env k = i \<and> i = Some (shm_Next s) \<and> shm_Object s' (shm_Next s) = fresh"
proof -
  have c: "i = Some (shm_Next s)" "shm_Path s' = i" "shm_Object s' (shm_Next s) = fresh" using assms(1) by (auto simp: CreateSharedQueue_def Let_def)
  have "GetSharedQueue env k = i" using assms(2,3)
  proof (induction n arbitrary: k)
    case 0
    then show ?case using c by (simp add: GetSharedQueue.simps OpenSharedQueue_def)
  next
    case (Suc n)
    from Suc.prems(2)[of 0] have "OpenSharedQueue o' m' (snd (snd (env k))) = None" for o' m' by (simp add: OpenSharedQueue_def)
    then have "GetSharedQueue env k = GetSharedQueue env (Suc k)" by (subst GetSharedQueue.simps, cases "env k") simp
    also have "\<dots> = i" using Suc.IH[of "Suc k"] Suc.prems(1) Suc.prems(2)[of "Suc _"] by simp
    finally show ?case .
  qed
  with c show ?thesis by simp
qed

section \<open>Routing into the shared queue\<close>

definition route_order_shared ::
  "gw_ClientStates \<Rightarrow> nat \<Rightarrow> u8 \<Rightarrow> Order \<Rightarrow> OrderRouter \<times> Order channel \<Rightarrow> (OrderRouter \<times> Order channel) option" where
  "route_order_shared states curFd auth curOrder = (\<lambda>(r, out). do {
     (status, r) \<leftarrow> ort_CheckOrderRisk states curFd curOrder auth r;
     orderId \<leftarrow> Some (next_order_id (ort_GatewayId r) (ort_OrdersCount r));
     r \<leftarrow> Some (r \<lparr> ort_OrdersCount := ort_OrdersCount r + 1 \<rparr>);
     c \<leftarrow> Some \<lparr> conf_OrderId = orderId, conf_ClientOrderId = ord_ClientOrderId curOrder, conf_Status = status \<rparr>;
     curOrder \<leftarrow> Some (curOrder \<lparr> ord_OrderId := ucast orderId \<rparr>);
     if status = Accepted
     then (case Producer_TryPush curOrder out of (pushed, out) \<Rightarrow>
             if pushed then do { r \<leftarrow> confirm curFd c r; Some (r, out) } else Some (r, out))
     else do { r \<leftarrow> confirm curFd c r; Some (r, out) } })"

fun route_orders_shared ::
  "gw_ClientStates \<Rightarrow> nat \<Rightarrow> u8 \<Rightarrow> Order list \<Rightarrow> OrderRouter \<times> Order channel \<Rightarrow> (OrderRouter \<times> Order channel) option" where
  "route_orders_shared states curFd auth [] s = Some s"
| "route_orders_shared states curFd auth (od # ods) s = do { s \<leftarrow> route_order_shared states curFd auth od s; route_orders_shared states curFd auth ods s }"

section \<open>Both feeds execute the same orders\<close>

lemma shared_rounds:
  assumes "channel_inv q" "channel_items q = ods" "handle_batch ods b = Some b'"
  shows "\<exists>q'. rounds MarketExecutionLoop_shared (length ods) q b = Some (q', b') \<and> channel_inv q' \<and> channel_items q' = []"
  using assms
proof (induction ods arbitrary: q b)
  case (Cons od ods)
  from spsc.pop_some[OF Cons.prems(1,2)] obtain q1 where
    q1: "Consumer_TryPop q = (Some od, q1)" "channel_inv q1" "channel_items q1 = ods" by blast
  from Cons.prems(3) obtain b1 where b1: "handle_order od b = Some b1" "handle_batch ods b1 = Some b'" by (auto split: bind_splits)
  from Cons.IH[OF q1(2,3) b1(2)] q1(1) b1(1) show ?case by (simp add: MarketExecutionLoop_shared_def)
qed simp

lemma handle_batch_append:
  "handle_batch (xs @ ys) b = do { b \<leftarrow> handle_batch xs b; handle_batch ys b }"
  by (induction xs arbitrary: b) (auto split: bind_splits)

lemma batch_rounds:
  assumes "outbox_inv ob" "outbox_msgs ob = bs"
    "handle_batch (concat (map (\<lambda>x. map decode_Order (batch_objects sizeof_Order x)) bs)) b = Some b'"
  shows "\<exists>ob'. rounds MarketExecutionLoop_round (length bs) ob b = Some (ob', b') \<and> outbox_inv ob' \<and> outbox_msgs ob' = []"
  using assms
proof (induction bs arbitrary: ob b)
  case (Cons x bs)
  obtain y ys where items: "channel_items (ob_Queue ob) = y # ys" and st: "sp_Storage (ob_Pool ob) y = x" "map (sp_Storage (ob_Pool ob)) ys = bs"
    using Cons.prems(2) by (auto simp: outbox_msgs_def)
  from mailbox.pop_release[OF Cons.prems(1)[unfolded outbox_inv_linked] items] obtain q p where
    q: "Consumer_TryPop (ob_Queue ob) = (Some y, q)" "StoragePool_Release (Some y) (ob_Pool ob) = (True, p)" "channel_items q = ys"
      "mailbox.linked p q" by blast
  let ?ob = "\<lparr> ob_Pool = p, ob_Queue = q \<rparr>"
  have "sp_Storage p = sp_Storage (ob_Pool ob)" using StoragePool_Storage(2)[of "Some y" "ob_Pool ob"] by (simp add: q(2))
  then have ob: "outbox_inv ?ob" "outbox_msgs ?ob = bs" using q(3,4) st(2) by (simp_all add: outbox_inv_linked outbox_msgs_def)
  from Cons.prems(3) obtain b1 where
    b1: "handle_batch (map decode_Order (batch_objects sizeof_Order x)) b = Some b1"
      "handle_batch (concat (map (\<lambda>x. map decode_Order (batch_objects sizeof_Order x)) bs)) b1 = Some b'"
    by (auto simp: handle_batch_append split: bind_splits)
  from Cons.IH[OF ob b1(2)] b1(1) q(1,2) st(1) show ?case by (simp add: MarketExecutionLoop_round_def)
qed simp

text \<open>C18. The two builds of the execution loop are equivalent: orders that wait one by one in the shared queue and the same
  orders in batches of any sizes leave the engine in the same state once both queues are empty, and the batch objects are back in their
  pool.\<close>

theorem execution_modes_agree:
  assumes "outbox_inv ob" "channel_inv q"
    and "concat (map (\<lambda>x. map decode_Order (batch_objects sizeof_Order x)) (outbox_msgs ob)) = channel_items q"
    and "handle_batch (channel_items q) b = Some b'"
  shows "\<exists>ob' q'. rounds MarketExecutionLoop_round (length (outbox_msgs ob)) ob b = Some (ob', b') \<and> outbox_inv ob' \<and> outbox_msgs ob' = [] \<and>
    rounds MarketExecutionLoop_shared (length (channel_items q)) q b = Some (q', b') \<and> channel_items q' = []"
  using batch_rounds[OF assms(1) refl] shared_rounds[OF assms(2) refl assms(4)] assms(3,4) by auto

text \<open>A buy of 10 at 70 and the sell that meets it.\<close>

definition shared_buy :: Order where
  "shared_buy = buy_order 70 10 \<lparr> ord_AssetId := 1 \<rparr>"

definition shared_sell :: Order where
  "shared_sell = shared_buy \<lparr> ord_Side := SELL, ord_OrderId := 1 \<rparr>"

definition shared_book :: BidAsk where
  "shared_book = the (handle_order shared_buy demo_empty)"

definition shared_batch :: "u8 ObjectBatch" where
  "shared_batch = \<lparr> bat_Data = encode_Order shared_buy @ encode_Order shared_sell @ replicate 560 0, bat_Size = 2, bat_Fd = 5, bat_Auth = 1 \<rparr>"

lemma shared_batch_objects: "map decode_Order (batch_objects sizeof_Order shared_batch) = [shared_buy, shared_sell]"
proof -
  have w: "wire_order shared_buy" "wire_order shared_sell"
    by (simp_all add: wire_order_def shared_buy_def shared_sell_def buy_order_def in_i64_def OrderType_of_def OrderSide_of_def OrderAction_of_def)
  note e = decode_encode_Order[OF w(1), unfolded sizeof_Order_def] decode_encode_Order[OF w(2), unfolded sizeof_Order_def]
  have "[0..<2] = [0, 1 :: nat]" by (simp add: upt_rec)
  then show ?thesis using e by (simp add: batch_objects_def shared_batch_def sizeof_Order_def)
qed

lemma shared_orders_executed:
  "handle_order shared_buy demo_empty = Some shared_book" "\<exists>b'. handle_batch [shared_buy, shared_sell] demo_empty = Some b'"
proof -
  have r: "resources shared_buy demo_empty" "resources shared_sell shared_book" by code_simp+
  from handle_order_ok[OF demo_empty_ok(2) r(1)] obtain b1 LB LA where b1: "handle_order shared_buy demo_empty = Some b1" "engine_inv b1 LB LA"
    by (auto simp: shared_buy_def buy_order_def)
  then have eq: "b1 = shared_book" by (simp add: shared_book_def)
  then show "handle_order shared_buy demo_empty = Some shared_book" using b1(1) by simp
  from handle_order_ok[OF b1(2)[unfolded eq] r(2)] obtain b2 where "handle_order shared_sell shared_book = Some b2"
    by (auto simp: shared_sell_def shared_buy_def buy_order_def)
  then show "\<exists>b'. handle_batch [shared_buy, shared_sell] demo_empty = Some b'" using b1(1) eq by simp
qed

lemma queue_with:
  assumes "length xs \<le> 8"
  shows "\<exists>q. channel_inv q \<and> channel_items q = (xs :: Order list) \<and> channel_cap q = 8"
  using assms
proof (induction xs rule: rev_induct)
  case Nil
  have "pow2_size (q_Buffer (SpscQueue_init 8 no_order))" by (auto simp: pow2_size_def SpscQueue_init_def intro: exI[of _ 3])
  then have "channel_inv (channel_of (SpscQueue_init 8 no_order))" "channel_items (channel_of (SpscQueue_init 8 no_order)) = []"
    by (auto intro!: channel_inv_init simp: SpscQueue_init_def)
  moreover have "channel_cap (channel_of (SpscQueue_init 8 no_order)) = 8" by (simp add: channel_cap_def channel_of_def SpscQueue_init_def)
  ultimately show ?case by blast
next
  case (snoc x xs)
  then obtain q where q: "channel_inv q" "channel_items q = xs" "channel_cap q = 8" by auto
  from spsc.push_room[OF q(1), of x] q snoc.prems show ?case by auto
qed

theorem execution_modes_agree_witness:
  "\<exists>ob q ob' q' b'. outbox_msgs ob = [shared_batch] \<and> channel_items q = [shared_buy, shared_sell] \<and>
     rounds MarketExecutionLoop_round 1 ob demo_empty = Some (ob', b') \<and> rounds MarketExecutionLoop_shared 2 q demo_empty = Some (q', b')"
proof -
  obtain ob0 where o0: "outbox_inv (ob0 :: u8 ObjectBatch outbox)" "outbox_msgs ob0 = []" "outbox_room ob0 = 2 ^ 1"
    using fresh_outbox_ok[of 1 shared_batch] by auto
  from publish[of ob0 shared_batch] o0 obtain ob where ob: "outbox_inv ob" "outbox_msgs ob = [shared_batch]" by auto
  obtain q where q: "channel_inv q" "channel_items q = [shared_buy, shared_sell]" using queue_with[of "[shared_buy, shared_sell]"] by auto
  obtain b' where b': "handle_batch (channel_items q) demo_empty = Some b'" using shared_orders_executed(2) unfolding q(2) by blast
  have same: "concat (map (\<lambda>x. map decode_Order (batch_objects sizeof_Order x)) (outbox_msgs ob)) = channel_items q"
    by (simp add: ob(2) q(2) shared_batch_objects)
  have n: "length (outbox_msgs ob) = 1" "length (channel_items q) = 2" by (simp_all add: ob(2) q(2))
  from execution_modes_agree[OF ob(1) q(1) same b', unfolded n] ob(2) q(2) show ?thesis by blast
qed

section \<open>From the gateway to the engine\<close>

text \<open>Room for the orders of a client in the shared queue and for their confirmations.\<close>

definition shared_ready :: "nat \<Rightarrow> nat \<Rightarrow> OrderRouter \<Rightarrow> Order channel \<Rightarrow> bool" where
  "shared_ready fd n r out \<longleftrightarrow> fd < length (ort_LocalAttempt r) \<and> fd < length (ort_LocalSessionId r) \<and> fd < length (ort_ConfirmationBuffer r) \<and>
     channel_inv (ort_Confirmations r) \<and> length (channel_items (ort_Confirmations r)) + n \<le> channel_cap (ort_Confirmations r) \<and>
     channel_inv out \<and> length (channel_items out) + n \<le> channel_cap out"

definition accepted_orders :: "(Order \<times> OrderConfirmationStatus) list \<Rightarrow> Order list" where
  "accepted_orders l = map fst (filter (\<lambda>(od, st). st = Accepted) l)"

definition shared_step :: "nat \<Rightarrow> LocalAttempts \<Rightarrow> u32 \<Rightarrow> (Order \<times> OrderConfirmationStatus) list \<Rightarrow> OrderRouter \<times> Order channel \<Rightarrow> OrderRouter \<times> Order channel \<Rightarrow> bool" where
  "shared_step fd la sid l = (\<lambda>(r, out) (r', out'). ort_LocalAttempt r' = (ort_LocalAttempt r)[fd := la] \<and>
     ort_LocalSessionId r' = (ort_LocalSessionId r)[fd := sid] \<and> ort_GatewayId r' = ort_GatewayId r \<and>
     ort_OrdersCount r' = ort_OrdersCount r + of_nat (length l) \<and>
     channel_items (ort_Confirmations r') = channel_items (ort_Confirmations r) @ map (confirmation_of fd) l \<and>
     channel_inv out' \<and> channel_items out' = channel_items out @ accepted_orders l)"

lemma shared_check_ok:
  assumes "shared_ready fd n r out" "gw_GetClientState fd states = Some s"
    "CheckOrderRisk s (ort_LocalAttempt r ! fd) (ort_LocalSessionId r ! fd) od auth = (st, la, sid)"
  shows "\<exists>cb. ort_CheckOrderRisk states fd od auth r = Some (st, r \<lparr> ort_LocalAttempt := (ort_LocalAttempt r)[fd := la],
    ort_LocalSessionId := (ort_LocalSessionId r)[fd := sid], ort_ConfirmationBuffer := cb \<rparr>) \<and> length cb = length (ort_ConfirmationBuffer r)"
proof (cases "auth = 0")
  case True
  then have "st = UserNotConnected" "la = ort_LocalAttempt r ! fd" "sid = ort_LocalSessionId r ! fd" using assms(3) by (simp_all add: CheckOrderRisk_def)
  then show ?thesis using True by (intro exI[of _ "ort_ConfirmationBuffer r"]) (simp add: ort_CheckOrderRisk_def)
next
  case False
  then show ?thesis using assms
    by (intro exI[of _ "if st = BadClientId then (ort_ConfirmationBuffer r)[fd := BytesBuffer_Clear (ort_ConfirmationBuffer r ! fd)]
      else ort_ConfirmationBuffer r"]) (simp add: ort_CheckOrderRisk_def shared_ready_def)
qed

lemma route_order_shared_ok:
  assumes ready: "shared_ready fd (Suc n) r out" and s: "gw_GetClientState fd states = Some s"
    and check: "CheckOrderRisk s (ort_LocalAttempt r ! fd) (ort_LocalSessionId r ! fd) od auth = (st, la, sid)"
  shows "\<exists>r' out'. route_order_shared states fd auth od (r, out) = Some (r', out') \<and> shared_ready fd n r' out' \<and>
    shared_step fd la sid (labelled (ort_GatewayId r) (ort_OrdersCount r) [st] [od]) (r, out) (r', out')"
proof -
  let ?id = "next_order_id (ort_GatewayId r) (ort_OrdersCount r)"
  let ?od = "od \<lparr> ord_OrderId := ucast ?id \<rparr>"
  let ?c = "\<lparr> conf_OrderId = ?id, conf_ClientOrderId = ord_ClientOrderId od, conf_Status = st \<rparr>"
  note R = ready[unfolded shared_ready_def]
  from shared_check_ok[OF ready s check] obtain cb where
    cb: "ort_CheckOrderRisk states fd od auth r = Some (st, r \<lparr> ort_LocalAttempt := (ort_LocalAttempt r)[fd := la],
      ort_LocalSessionId := (ort_LocalSessionId r)[fd := sid], ort_ConfirmationBuffer := cb \<rparr>)" "length cb = length (ort_ConfirmationBuffer r)" by blast
  define r1 where "r1 = r \<lparr> ort_LocalAttempt := (ort_LocalAttempt r)[fd := la], ort_LocalSessionId := (ort_LocalSessionId r)[fd := sid],
    ort_ConfirmationBuffer := cb, ort_OrdersCount := ort_OrdersCount r + 1 \<rparr>"
  have "channel_inv (ort_Confirmations r1)" "length (channel_items (ort_Confirmations r1)) < channel_cap (ort_Confirmations r1)"
    using R by (simp_all add: r1_def)
  from confirm_ok[OF this, of fd ?c] obtain q where
    q: "confirm fd ?c r1 = Some (r1 \<lparr> ort_Confirmations := q \<rparr>)" "channel_inv q" "channel_cap q = channel_cap (ort_Confirmations r)"
      "channel_items q = channel_items (ort_Confirmations r) @ [\<lparr> msg_Fd = of_nat fd, msg_Confirmation = ?c \<rparr>]"
    by (auto simp: r1_def)
  have "channel_inv out" "length (channel_items out) < channel_cap out" using R by simp_all
  from spsc.push_room[OF this, of ?od] obtain o1 where
    o1: "Producer_TryPush ?od out = (True, o1)" "channel_inv o1" "channel_items o1 = channel_items out @ [?od]" "channel_cap o1 = channel_cap out"
    by blast
  define out' where "out' = (if st = Accepted then o1 else out)"
  have run: "route_order_shared states fd auth od (r, out) = Some (r1 \<lparr> ort_Confirmations := q \<rparr>, out')"
    using cb(1) q(1) o1(1) by (cases "st = Accepted") (simp_all add: route_order_shared_def out'_def r1_def)
  have "shared_step fd la sid (labelled (ort_GatewayId r) (ort_OrdersCount r) [st] [od]) (r, out) (r1 \<lparr> ort_Confirmations := q \<rparr>, out')"
    using q(4) o1 R by (simp add: shared_step_def r1_def confirmation_of_def ucast32_of_32 out'_def accepted_orders_def)
  moreover have "shared_ready fd n (r1 \<lparr> ort_Confirmations := q \<rparr>) out'"
    using R cb(2) q(2-4) o1(2-4) by (auto simp: shared_ready_def r1_def out'_def)
  ultimately show ?thesis using run by blast
qed

lemma shared_step_trans:
  assumes "shared_step fd la sid l p p'" "shared_step fd la' sid' l' p' p''"
  shows "shared_step fd la' sid' (l @ l') p p''"
  using assms by (auto simp: shared_step_def accepted_orders_def add.assoc split: prod.splits)

lemma route_orders_shared_ok:
  assumes "shared_ready fd (length ods) r out" "gw_GetClientState fd states = Some s"
    "check_all s (ort_LocalAttempt r ! fd) (ort_LocalSessionId r ! fd) ods auth = (sts, la, sid)"
  shows "\<exists>p'. route_orders_shared states fd auth ods (r, out) = Some p' \<and>
    shared_step fd la sid (labelled (ort_GatewayId r) (ort_OrdersCount r) sts ods) (r, out) p'"
  using assms
proof (induction ods arbitrary: r out sts)
  case Nil
  then show ?case by (auto simp: shared_step_def shared_ready_def accepted_orders_def)
next
  case (Cons od ods)
  obtain st la1 sid1 where c: "CheckOrderRisk s (ort_LocalAttempt r ! fd) (ort_LocalSessionId r ! fd) od auth = (st, la1, sid1)" by (metis prod_cases3)
  then obtain sts1 where c1: "check_all s la1 sid1 ods auth = (sts1, la, sid)" "sts = st # sts1" using Cons.prems(3) by (auto split: prod.splits)
  have "shared_ready fd (Suc (length ods)) r out" using Cons.prems(1) by simp
  from route_order_shared_ok[OF this Cons.prems(2) c] obtain r1 o1 where
    r1: "route_order_shared states fd auth od (r, out) = Some (r1, o1)" "shared_ready fd (length ods) r1 o1"
      "shared_step fd la1 sid1 (labelled (ort_GatewayId r) (ort_OrdersCount r) [st] [od]) (r, out) (r1, o1)" by blast
  have "ort_LocalAttempt r1 ! fd = la1" "ort_LocalSessionId r1 ! fd = sid1" "ort_GatewayId r1 = ort_GatewayId r" "ort_OrdersCount r1 = ort_OrdersCount r + 1"
    using r1(3) Cons.prems(1) by (simp_all add: shared_step_def shared_ready_def)
  with Cons.IH[OF r1(2) Cons.prems(2), of sts1] c1(1) obtain p' where
    p': "route_orders_shared states fd auth ods (r1, o1) = Some p'" "shared_step fd la sid (labelled (ort_GatewayId r) (ort_OrdersCount r + 1) sts1 ods) (r1, o1) p'"
    by auto
  from shared_step_trans[OF r1(3) p'(2)] show ?case using r1(1) p'(1) c1(2) by simp
qed

text \<open>C17. An order crosses the shared memory exactly once: orders of a client that the router of the shared-memory build checks,
  numbers, confirms and puts into an empty queue are executed by that many rounds of the engine's loop exactly as if the accepted ones,
  under their numbers and in their order, had been handed to the engine directly; rejected orders reach the client only.\<close>

theorem shared_hot_path:
  assumes ready: "shared_ready fd (length ods) r out" and empty: "channel_items out = []"
    and s: "gw_GetClientState fd states = Some s"
    and check: "check_all s (ort_LocalAttempt r ! fd) (ort_LocalSessionId r ! fd) ods auth = (sts, la, sid)"
    and l: "l = labelled (ort_GatewayId r) (ort_OrdersCount r) sts ods"
    and exec: "handle_batch (accepted_orders l) b = Some b'"
  shows "\<exists>r' out' out''. route_orders_shared states fd auth ods (r, out) = Some (r', out') \<and>
    channel_items (ort_Confirmations r') = channel_items (ort_Confirmations r) @ map (confirmation_of fd) l \<and>
    rounds MarketExecutionLoop_shared (length (accepted_orders l)) out' b = Some (out'', b') \<and> channel_items out'' = []"
proof -
  from route_orders_shared_ok[OF ready s check] obtain r' out' where
    r': "route_orders_shared states fd auth ods (r, out) = Some (r', out')" "shared_step fd la sid l (r, out) (r', out')"
    unfolding l by (metis surj_pair)
  then have o': "channel_inv out'" "channel_items out' = accepted_orders l" using empty by (simp_all add: shared_step_def)
  from shared_rounds[OF this exec] r' show ?thesis by (auto simp: shared_step_def)
qed

theorem shared_hot_path_witness:
  "\<exists>out r' out' out'' b'. channel_items out = [] \<and> route_orders_shared sample_states 5 1 [shared_buy] (sample_router, out) = Some (r', out') \<and>
     length (channel_items (ort_Confirmations r')) = 1 \<and> rounds MarketExecutionLoop_shared 1 out' demo_empty = Some (out'', b') \<and>
     handle_order shared_buy demo_empty = Some b'"
proof -
  obtain out where out: "channel_inv out" "channel_items out = ([] :: Order list)" "channel_cap out = 8" using queue_with[of "[]"] by auto
  note S = sample_router_ready
  have ready: "shared_ready 5 (length [shared_buy]) sample_router out" using S(1) out by (simp add: shared_ready_def router_ready_def)
  have "fst (check_all sample_account LocalAttempts_init 0 [shared_buy] 1) = [Accepted]" by code_simp
  then obtain la sid where c: "check_all sample_account LocalAttempts_init 0 [shared_buy] 1 = ([Accepted], la, sid)"
    by (cases "check_all sample_account LocalAttempts_init 0 [shared_buy] 1") auto
  have acc: "accepted_orders (labelled 3 0 [Accepted] [shared_buy]) = [shared_buy]"
    by (simp add: accepted_orders_def order_id_without_gateway shared_buy_def buy_order_def)
  have "handle_batch (accepted_orders (labelled 3 0 [Accepted] [shared_buy])) demo_empty = Some shared_book"
    unfolding acc using shared_orders_executed(1) by simp
  from shared_hot_path[OF ready out(2) sample_states_get, unfolded S(2-5), OF c refl this] shared_orders_executed(1) out(2) S(6) show ?thesis
    unfolding acc by auto
qed

end
