(* ===== verification/Protocol.thy ===== *)
theory Protocol
  imports Dashboard_Props Struct_Layouts
begin

text \<open>
  Who sends which struct to whom: the dashboard opens sessions and sends orders to a gateway, asks the account service like
  a gateway, and listens to the engine's two multicast groups.  Each message is declared twice, once by the sender and once by the receiver;
  the two declarations are shown to agree member by member, in the default build and under \<open>NAOTO_PERF\<close>.  When only one side is
  built with \<open>NAOTO_PERF\<close> the sizes differ, and the test on the size of a packet does not always notice.
\<close>

section \<open>Messages between the programs\<close>

text \<open>Pairs of the sender's and the receiver's struct; \<open>CDP_MAX_POSITIONS\<close> is 16 like the server's \<open>MaxPositions\<close>.\<close>

definition protocol :: "bool \<Rightarrow> (c_struct \<times> c_struct) list" where
  "protocol perf =
     [(gateways_ClientRequest, naoto_ClientAuthRequest), (gateways_Order perf, naoto_Order perf),
      (naoto_OrderConfirmation, gateways_OrderConfirmation), (gateways_GatewayConnection, naoto_GatewayHandshake),
      (gateways_GatewayRequest, naoto_RoutedAuthRequest), (naoto_ClientAccountSnapshot, gateways_ClientRequestResponse 16),
      (naoto_OrderStateReport perf, client_OrderStateReport perf), (naoto_OrderBookUpdate perf, client_OrderBookUpdate perf)]"

lemma protocol_same: "(w, r) \<in> set (protocol perf) \<Longrightarrow> r = w"
  by (auto simp: protocol_def struct_defs MaxPositions_def)

lemma protocol_distinct: "(w, r) \<in> set (protocol perf) \<Longrightarrow> distinct (map fst w)"
  by (auto simp: protocol_def struct_defs)

text \<open>C22. Every message between the dashboard and the server is read as it was written: whatever values the sender stores in its
  struct, the receiver's struct has the same size and each member that the receiver reads, at the offset its own declaration gives, holds
  the bytes the sender stored in the member of that name, in both builds and whatever follows in the stream.\<close>

theorem peers_agree_on_the_wire:
  assumes "(w, r) \<in> set (protocol perf)" "all_fit w vs" "i < length w"
  shows "sizeof_struct r = length (encode_struct w vs) \<and>
    member_bytes r (fst (w ! i)) (encode_struct w vs @ rest) = Some (encode_value (snd (w ! i)) (vs ! i))"
  using length_encode_struct[OF assms(2)] member_bytes_encode[OF assms(2,3) protocol_distinct[OF assms(1)]]
  by (simp add: protocol_same[OF assms(1)])

theorem peers_agree_on_the_wire_witness:
  "member_bytes (client_OrderBookUpdate False) ''Depth''
     (encode_struct (naoto_OrderBookUpdate False) (map Num [101, 7, 500, 2, 1])) = Some [244, 1, 0, 0]"
proof -
  let ?w = "naoto_OrderBookUpdate False" and ?vs = "map Num [101, 7, 500, 2, 1]"
  have m: "(?w, client_OrderBookUpdate False) \<in> set (protocol False)" by (simp add: protocol_def)
  have f: "all_fit ?w ?vs" and i: "2 < length ?w" by (simp_all add: naoto_OrderBookUpdate_def)
  have "fst (?w ! 2) = ''Depth''" "encode_value (snd (?w ! 2)) (?vs ! 2) = [244, 1, 0, 0]" by code_simp+
  with peers_agree_on_the_wire[OF m f i, of "[]"] show ?thesis by simp
qed

lemma encode_ClientAccountSnapshot_struct:
  "encode_ClientAccountSnapshot s = encode_struct naoto_ClientAccountSnapshot
     [Num (uint (snap_Status s)), Num (uint (snap_SequenceId s)), Num (uint (snap_ClientId s)), Num (uint (snap_ClientFd s)),
      Nums (map uint (snap_AssetId s)), Nums (snap_Confirmed s), Nums (snap_Attempt s)]"
  by (simp add: encode_ClientAccountSnapshot_def naoto_ClientAccountSnapshot_def comp_def)

section \<open>One side built with \<open>NAOTO_PERF\<close>\<close>

lemma take_le_bytes: "take m (le_bytes n x) = le_bytes (min m n) x"
proof (induction m arbitrary: n x)
  case (Suc m)
  then show ?case by (cases n) simp_all
qed simp

lemma drop_le_bytes: "drop m (le_bytes n x) = le_bytes (n - m) (x div 256 ^ m)"
proof (induction m arbitrary: n x)
  case (Suc m)
  then show ?case by (cases n) (simp_all add: zdiv_zmult2_eq)
qed simp

lemma word_of_int_le_value: "(word_of_int (le_value (le_bytes 4 x)) :: u32) = word_of_int x"
  using word_of_int_uint[of "word_of_int x :: u32"] by (simp add: le_value_le_bytes uint_word_of_int)

lemma perf_report_bytes:
  assumes "all_fit (naoto_OrderStateReport True) v" "v ! 3 = Num t"
  shows "\<exists>h rest. length h = 24 \<and> encode_struct (naoto_OrderStateReport True) v = h @ le_bytes 8 t @ rest"
proof -
  from assms obtain x y z vs where "v = x # y # z # Num t # vs" "fits C_i64 x" "fits C_i64 y" "fits C_i64 z"
    by (auto simp: naoto_OrderStateReport_def)
  then show ?thesis
    by (intro exI[of _ "encode_value C_i64 x @ encode_value C_i64 y @ encode_value C_i64 z"] exI) (auto simp: naoto_OrderStateReport_def length_encode_value)
qed

text \<open>Three reports of an engine built with \<open>NAOTO_PERF\<close> have the size of five reports of a dashboard built without: the packet
  passes the test on its size and five reports are queued, the first of which has the time the gateway ingested the order where the
  sequence number and the client should be.\<close>

theorem perf_mismatch_accepted:
  assumes fit: "list_all (all_fit (naoto_OrderStateReport True)) [v1, v2, v3]" and t: "v1 ! 3 = Num t"
    and data: "data = concat (map (encode_struct (naoto_OrderStateReport True)) [v1, v2, v3])"
  shows "length (packet_objects report_layout data) = 5 \<and> rep_SequenceId (packet_objects report_layout data ! 0) = word_of_int t \<and>
    rep_ClientId (packet_objects report_layout data ! 0) = word_of_int (t div 2 ^ 32)"
proof -
  let ?e = "encode_struct (naoto_OrderStateReport True)"
  have len: "length (?e v) = 80" if "all_fit (naoto_OrderStateReport True) v" for v using length_encode_struct[OF that] struct_sizes(2)[of True] by simp
  have n: "length data = 240" unfolding data using fit len by simp
  obtain h rest where h: "length h = 24" "data = h @ le_bytes 8 t @ rest"
    using perf_report_bytes[of v1 t] fit t unfolding data by force
  have rs: "packet_objects report_layout data = map (\<lambda>i. decode_OrderStateReport (take 48 (drop (i * 48) data))) [0..<5]"
    by (simp add: packet_objects_def n report_layout_def sizeof_OrderStateReport_def)
  have "take 4 (drop 24 (take 48 data)) = le_bytes 4 t" "take 4 (drop 28 (take 48 data)) = le_bytes 4 (t div 2 ^ 32)"
    using h by (simp_all add: drop_take take_le_bytes drop_le_bytes)
  then show ?thesis by (simp add: rs decode_OrderStateReport_def word_of_int_le_value)
qed

theorem perf_mismatch_accepted_witness:
  "\<exists>rs. packet_objects report_layout (concat (replicate 3 (encode_struct (naoto_OrderStateReport True)
      (map Num [5, - 500, 0, 81985529216486895, 2, 3, 4, 1, 9, 7, 8, 2, 0, 0])))) = rs \<and> length rs = 5 \<and>
     rep_SequenceId (rs ! 0) = 2309737967 \<and> rep_ClientId (rs ! 0) = 19088743"
proof -
  let ?v = "map Num [5, - 500, 0, 81985529216486895, 2, 3, 4, 1, 9, 7, 8, 2, 0, 0]"
  have f: "list_all (all_fit (naoto_OrderStateReport True)) [?v, ?v, ?v]" by (simp add: naoto_OrderStateReport_def)
  have c: "concat (replicate 3 xs) = concat (map (encode_struct (naoto_OrderStateReport True)) [?v, ?v, ?v])"
    if "xs = encode_struct (naoto_OrderStateReport True) ?v" for xs using that by (simp add: numeral_3_eq_3)
  have t: "?v ! 3 = Num 81985529216486895" by simp
  from perf_mismatch_accepted[OF f t refl] show ?thesis unfolding c[OF refl] by simp
qed

end
