(* ===== verification/Service_Registration.thy ===== *)
theory Service_Registration
  imports Dashboard_Props
begin

text \<open>
  How the programs find each other through etcd: the keys and documents the matching engine
  (\<open>matching_engine.hpp: EtcdClientSetUp\<close>), the account service (\<open>account_service.cpp\<close>) and the gateway
  (\<open>order_router.hpp\<close>) write, and how the gateway's router reads them: the services that exist when it starts (\<open>ls\<close>), then
  the events from the following revision on.  etcd is not part of the sources: the answers of \<open>ls\<close> and the events of the watcher are
  arguments; so are the environment, the answers of \<open>socket\<close> and \<open>connect\<close>, and the JSON library, of which the theorems
  only use that it reads back what it has written.
\<close>

section \<open>The JSON library\<close>

datatype json_atom = JString string | JInt int

text \<open>Beside \<open>parse\<close> and \<open>value(key, default)\<close>: \<open>dump\<close> of an object, and \<open>val[key]\<close> converted to a \<open>string\<close> or to a \<open>uint32_t\<close>
  (\<open>None\<close>: an exception).\<close>

record 'j json_lib =
  jl_api :: "'j json_api"
  jl_dump :: "(string \<times> json_atom) list \<Rightarrow> string"
  jl_at_string :: "'j \<Rightarrow> string \<Rightarrow> string option"
  jl_at_u32 :: "'j \<Rightarrow> string \<Rightarrow> u32 option"

text \<open>The documented round trip of the library at one document.\<close>

definition reads_back :: "'j json_lib \<Rightarrow> (string \<times> json_atom) list \<Rightarrow> bool" where
  "reads_back jl fs \<longleftrightarrow> (\<exists>j. js_parse (jl_api jl) (jl_dump jl fs) = Some j \<and>
     (\<forall>k s. (k, JString s) \<in> set fs \<longrightarrow> jl_at_string jl j k = Some s \<and> (\<forall>d. js_string (jl_api jl) j k d = Some s)) \<and>
     (\<forall>k n. (k, JInt n) \<in> set fs \<longrightarrow> jl_at_u32 jl j k = Some (word_of_int n) \<and> (\<forall>d. js_int (jl_api jl) j k d = Some n)))"

section \<open>Registration\<close>

type_synonym environment = "string \<Rightarrow> string option"

definition getenv_or :: "environment \<Rightarrow> string \<Rightarrow> string \<Rightarrow> string" where
  "getenv_or env name dflt = (case env name of None \<Rightarrow> dflt | Some v \<Rightarrow> v)"

definition engine_document :: "string \<Rightarrow> int \<Rightarrow> (string \<times> json_atom) list" where
  "engine_document listen asset_id = [(''addr'', JString listen), (''asset_id'', JInt asset_id), (''status'', JString ''active'')]"

definition account_document :: "string \<Rightarrow> (string \<times> json_atom) list" where
  "account_document listen = [(''addr'', JString listen), (''status'', JString ''active'')]"

definition gateway_document :: "string \<Rightarrow> (string \<times> json_atom) list" where
  "gateway_document listen = [(''ip'', JString listen), (''status'', JString ''active'')]"

text \<open>The pair each program sets under its lease.\<close>

definition me_EtcdClientSetUp :: "'j json_lib \<Rightarrow> environment \<Rightarrow> (string \<times> string) option" where
  "me_EtcdClientSetUp jl env =
     (let symbol = getenv_or env ''SYMBOL'' ''1''; listen = getenv_or env ''LISTEN_ADDR'' ''127.0.0.1:8080'' in
      do { asset_id \<leftarrow> atoi symbol; Some (''/matching-engines/'' @ symbol, jl_dump jl (engine_document listen asset_id)) })"

definition as_EtcdClientSetUp :: "'j json_lib \<Rightarrow> environment \<Rightarrow> string \<times> string" where
  "as_EtcdClientSetUp jl env =
     (let listen = getenv_or env ''LISTEN_ADDR'' ''127.0.0.1:8082'' in (''/account-service/0'', jl_dump jl (account_document listen)))"

definition gw_registration :: "'j json_lib \<Rightarrow> environment \<Rightarrow> string \<times> string" where
  "gw_registration jl env =
     (let machine_id = getenv_or env ''MACHINE_ID'' ''0''; listen = getenv_or env ''LISTEN_ADDR'' ''localhost:8081'' in
      (''/socket-gateways/'' @ machine_id, jl_dump jl (gateway_document listen)))"

section \<open>Connecting to a service\<close>

text \<open>\<open>std::stoi\<close>, which throws when there is no digit or the number is no \<open>int\<close>.\<close>

definition stoi :: "string \<Rightarrow> int option" where
  "stoi s =
     (let s = dropWhile is_space s; neg = (s \<noteq> [] \<and> hd s = CHR ''-'');
          s = (if s \<noteq> [] \<and> (hd s = CHR ''-'' \<or> hd s = CHR ''+'') then tl s else s);
          ds = takeWhile is_digit s; n = int (digits_value ds); v = (if neg then - n else n) in
      if ds \<noteq> [] \<and> - (2 ^ 31) \<le> v \<and> v < 2 ^ 31 then Some v else None)"

datatype connect_answer = Connected | InProgress | ConnectFails

record dial =
  dl_socket :: i32
  dl_connect :: connect_answer

text \<open>The router with the \<open>connect\<close> calls it has made: descriptor, host and port.\<close>

record links =
  lnk_Router :: OrderRouter
  lnk_Calls :: "(i32 \<times> string \<times> u16) list"

definition connectToService :: "dial \<Rightarrow> string \<Rightarrow> links \<Rightarrow> (i32 \<times> links) option" where
  "connectToService d service_addr l =
     (case find_last_of (CHR '':'') service_addr of
        None \<Rightarrow> Some (- 1, l)
      | Some colon \<Rightarrow> do {
          port \<leftarrow> stoi (drop (colon + 1) service_addr);
          (let ip = take colon service_addr; fd = dl_socket d in
           if fd < 0 then Some (- 1, l)
           else let l = l \<lparr> lnk_Calls := lnk_Calls l @ [(fd, ip, word_of_int port)] \<rparr> in
             if dl_connect d = ConnectFails then Some (- 1, l \<lparr> lnk_Router := (lnk_Router l) \<lparr> ort_Closed := ort_Closed (lnk_Router l) @ [fd] \<rparr> \<rparr>)
             else Some (fd, l)) })"

section \<open>The watcher of the engines\<close>

text \<open>Each event comes with the answers its connection would meet; \<open>None\<close> is an exception, which ends the program since the callback is
  \<open>noexcept\<close>, or a slot outside the table.\<close>

fun engine_events :: "'j json_lib \<Rightarrow> ((EventType \<times> string \<times> string) \<times> dial) list \<Rightarrow> links \<Rightarrow> links option" where
  "engine_events jl [] l = Some l"
| "engine_events jl (((type, key, value), d) # evs) l = do {
     l \<leftarrow> (case type of
        EventPut \<Rightarrow> do {
          val \<leftarrow> js_parse (jl_api jl) value;
          service_addr \<leftarrow> jl_at_string jl val ''addr'';
          symbol_id \<leftarrow> jl_at_u32 jl val ''asset_id'';
          (newFd, l) \<leftarrow> connectToService d service_addr l;
          r \<leftarrow> etcdOnMEResponse [EnginePut (unat symbol_id) newFd] (lnk_Router l);
          Some (l \<lparr> lnk_Router := r \<rparr>) }
      | EventDelete \<Rightarrow> do {
          symbol_id \<leftarrow> stoi (case find_last_of (CHR ''/'') key of None \<Rightarrow> key | Some pos \<Rightarrow> drop (pos + 1) key);
          r \<leftarrow> etcdOnMEResponse [EngineDelete (unat (word_of_int symbol_id :: u32))] (lnk_Router l);
          Some (l \<lparr> lnk_Router := r \<rparr>) }
      | OtherEventType \<Rightarrow> Some l);
     engine_events jl evs l }"

definition on_engine_response :: "'j json_lib \<Rightarrow> bool \<Rightarrow> ((EventType \<times> string \<times> string) \<times> dial) list \<Rightarrow> links \<Rightarrow> links option" where
  "on_engine_response jl error_code evs l = (if error_code then Some l else engine_events jl evs l)"

section \<open>The watcher of the account service\<close>

fun account_events :: "'j json_lib \<Rightarrow> string \<Rightarrow> ((EventType \<times> string \<times> string) \<times> dial) list \<Rightarrow> links \<Rightarrow> links option" where
  "account_events jl machine_id [] l = Some l"
| "account_events jl machine_id (((type, key, value), d) # evs) l =
     (case type of
        EventPut \<Rightarrow> do {
          val \<leftarrow> js_parse (jl_api jl) value;
          account_addr \<leftarrow> jl_at_string jl val ''addr'';
          (newFd, l) \<leftarrow> connectToService d account_addr l;
          n \<leftarrow> stoi machine_id;
          (let gatewayId = word_of_int n;
               sent = fst (send_all newFd (encode_GatewayHandshake \<lparr> ghs_GatewayId = gatewayId \<rparr>) 0 (ort_Net (lnk_Router l)));
               l = l \<lparr> lnk_Router := etcdOnAccountServiceResponse gatewayId [AccountPut newFd] (lnk_Router l) \<rparr>
           in if sent then account_events jl machine_id evs l else Some l) }
      | EventDelete \<Rightarrow> account_events jl machine_id evs (l \<lparr> lnk_Router := etcdOnAccountServiceResponse 0 [AccountDelete] (lnk_Router l) \<rparr>)
      | OtherEventType \<Rightarrow> account_events jl machine_id evs l)"

definition on_account_response ::
  "'j json_lib \<Rightarrow> environment \<Rightarrow> bool \<Rightarrow> ((EventType \<times> string \<times> string) \<times> dial) list \<Rightarrow> links \<Rightarrow> links option" where
  "on_account_response jl env error_code evs l =
     (if error_code then Some l else account_events jl (getenv_or env ''MACHINE_ID'' ''0'') evs l)"

section \<open>The start of the router\<close>

fun found_engines :: "'j json_lib \<Rightarrow> ((string \<times> string) \<times> dial) list \<Rightarrow> links \<Rightarrow> links option" where
  "found_engines jl [] l = Some l"
| "found_engines jl (((key, value), d) # kvs) l = do {
     val \<leftarrow> js_parse (jl_api jl) value;
     curAddr \<leftarrow> jl_at_string jl val ''addr'';
     symbol_id \<leftarrow> jl_at_u32 jl val ''asset_id'';
     (fd, l) \<leftarrow> connectToService d curAddr l;
     r \<leftarrow> connect_engines [(unat symbol_id, fd)] (lnk_Router l);
     found_engines jl kvs (l \<lparr> lnk_Router := r \<rparr>) }"

text \<open>The first component is false when a handshake could not be sent, which ends the set-up.\<close>

fun found_accounts :: "'j json_lib \<Rightarrow> u16 \<Rightarrow> ((string \<times> string) \<times> dial) list \<Rightarrow> links \<Rightarrow> (bool \<times> links) option" where
  "found_accounts jl machine_id [] l = Some (True, l)"
| "found_accounts jl machine_id (((key, value), d) # kvs) l = do {
     val \<leftarrow> js_parse (jl_api jl) value;
     curAddr \<leftarrow> jl_at_string jl val ''addr'';
     (fd, l) \<leftarrow> connectToService d curAddr l;
     (let sent = fst (send_all fd (encode_GatewayHandshake \<lparr> ghs_GatewayId = machine_id \<rparr>) 0 (ort_Net (lnk_Router l)));
          l = l \<lparr> lnk_Router := connect_accounts machine_id [fd] (lnk_Router l) \<rparr>
      in if sent then found_accounts jl machine_id kvs l else Some (False, l)) }"

text \<open>Whether the watchers were created, and the links.\<close>

definition gw_EtcdClientSetUp ::
  "'j json_lib \<Rightarrow> environment \<Rightarrow> ((string \<times> string) \<times> dial) list \<Rightarrow> ((string \<times> string) \<times> dial) list \<Rightarrow> links \<Rightarrow> (bool \<times> links) option" where
  "gw_EtcdClientSetUp jl env existingME existingAccountService l = do {
     l \<leftarrow> found_engines jl existingME l;
     machine_id \<leftarrow> stoi (getenv_or env ''MACHINE_ID'' ''0'');
     found_accounts jl (word_of_int machine_id) existingAccountService l }"

text \<open>The set-up and the responses that the watcher, if there is one, receives afterwards.\<close>

fun engine_responses :: "'j json_lib \<Rightarrow> (bool \<times> ((EventType \<times> string \<times> string) \<times> dial) list) list \<Rightarrow> links \<Rightarrow> links option" where
  "engine_responses jl [] l = Some l"
| "engine_responses jl ((error_code, evs) # rs) l = do { l \<leftarrow> on_engine_response jl error_code evs l; engine_responses jl rs l }"

definition router_discovery ::
  "'j json_lib \<Rightarrow> environment \<Rightarrow> ((string \<times> string) \<times> dial) list \<Rightarrow> ((string \<times> string) \<times> dial) list \<Rightarrow>
   (bool \<times> ((EventType \<times> string \<times> string) \<times> dial) list) list \<Rightarrow> links \<Rightarrow> links option" where
  "router_discovery jl env existingME existingAccountService responses l = do {
     (watching, l) \<leftarrow> gw_EtcdClientSetUp jl env existingME existingAccountService l;
     if watching then engine_responses jl responses l else Some l }"

section \<open>Numbers and addresses read back\<close>

lemma find_last_of_append: "c \<notin> set s \<Longrightarrow> find_last_of c (p @ c # s) = Some (length p)"
proof -
  assume "c \<notin> set s"
  then have "takeWhile (\<lambda>x. x \<noteq> c) (rev s @ c # rev p) = rev s" by (subst takeWhile_append2) auto
  then show ?thesis by (simp add: find_last_of_def)
qed

lemma number_chars:
  "dropWhile is_space (to_string n) = to_string n" "hd (to_string n) \<noteq> CHR ''-''" "hd (to_string n) \<noteq> CHR ''+''"
  "takeWhile is_digit (to_string n) = to_string n" "CHR '':'' \<notin> set (to_string n)"
proof -
  obtain c cs where c: "to_string n = c # cs" using to_string_digits(2)[of n] by (cases "to_string n") auto
  then have d: "is_digit c" using to_string_digits(1)[of n] by simp
  show "dropWhile is_space (to_string n) = to_string n" "hd (to_string n) \<noteq> CHR ''-''" "hd (to_string n) \<noteq> CHR ''+''"
    using d by (auto simp: c is_space_def is_digit_def)
  show "takeWhile is_digit (to_string n) = to_string n" using to_string_digits(1) by (simp add: takeWhile_eq_all_conv)
  show "CHR '':'' \<notin> set (to_string n)" using to_string_digits(1)[of n] by (auto simp: is_digit_def)
qed

lemma number_read:
  assumes "n < 2 ^ 31"
  shows "stoi (to_string n) = Some (int n)" "atoi (to_string n) = Some (int n)"
  using assms to_string_digits(2)[of n] by (simp_all add: stoi_def atoi_def number_chars digits_value_to_string Let_def)

definition address :: "string \<Rightarrow> nat \<Rightarrow> string" where
  "address ip port = ip @ CHR '':'' # to_string port"

definition good_dial :: "dial \<Rightarrow> bool" where
  "good_dial d \<longleftrightarrow> 0 \<le> dl_socket d \<and> in_i32 (dl_socket d) \<and> dl_connect d \<noteq> ConnectFails"

lemma connectToService_address:
  assumes "good_dial d" "port < 2 ^ 16"
  shows "connectToService d (address ip port) l = Some (dl_socket d, l \<lparr> lnk_Calls := lnk_Calls l @ [(dl_socket d, ip, of_nat port)] \<rparr>)"
  using assms number_read(1)[of port] find_last_of_append[OF number_chars(5), of ip port]
  by (simp add: connectToService_def address_def good_dial_def Let_def)

section \<open>The router follows the engines\<close>

text \<open>What happens to the engines: one that serves an asset registers its address, or its lease ends.\<close>

datatype registration = Registered nat string nat | Expired nat

fun reg_step :: "registration \<Rightarrow> (nat \<rightharpoonup> string \<times> nat) \<Rightarrow> (nat \<rightharpoonup> string \<times> nat)" where
  "reg_step (Registered s ip port) m = m(s \<mapsto> (ip, port))"
| "reg_step (Expired s) m = m(s := None)"

definition engine_env :: "nat \<Rightarrow> string \<Rightarrow> nat \<Rightarrow> environment" where
  "engine_env s ip port = [''SYMBOL'' \<mapsto> to_string s, ''LISTEN_ADDR'' \<mapsto> address ip port]"

text \<open>The pair that the engine of an asset writes, and the event etcd makes of it.\<close>

definition engine_pair :: "'j json_lib \<Rightarrow> nat \<Rightarrow> string \<Rightarrow> nat \<Rightarrow> string \<times> string" where
  "engine_pair jl s ip port = the (me_EtcdClientSetUp jl (engine_env s ip port))"

fun raw_event :: "'j json_lib \<Rightarrow> registration \<Rightarrow> EventType \<times> string \<times> string" where
  "raw_event jl (Registered s ip port) = (EventPut, engine_pair jl s ip port)"
| "raw_event jl (Expired s) = (EventDelete, ''/matching-engines/'' @ to_string s, [])"

fun reg_ok :: "'j json_lib \<Rightarrow> registration \<Rightarrow> bool" where
  "reg_ok jl (Registered s ip port) \<longleftrightarrow> s < MaxAssets \<and> port < 2 ^ 16 \<and> reads_back jl (engine_document (address ip port) (int s))"
| "reg_ok jl (Expired s) \<longleftrightarrow> s < MaxAssets"

definition slot_fd :: "links \<Rightarrow> nat \<Rightarrow> i32" where
  "slot_fd l s = vfd_Fd (vfd_load (ort_MatchingEngines (lnk_Router l) ! s))"

definition follows :: "(nat \<rightharpoonup> string \<times> nat) \<Rightarrow> links \<Rightarrow> bool" where
  "follows m l \<longleftrightarrow> length (ort_MatchingEngines (lnk_Router l)) = MaxAssets \<and>
     (\<forall>s < MaxAssets. case m s of None \<Rightarrow> slot_fd l s = - 1
        | Some (ip, port) \<Rightarrow> slot_fd l s \<noteq> - 1 \<and> (slot_fd l s, ip, of_nat port) \<in> set (lnk_Calls l))"

lemma engine_pair_eq:
  assumes "s < MaxAssets"
  shows "engine_pair jl s ip port = (''/matching-engines/'' @ to_string s, jl_dump jl (engine_document (address ip port) (int s)))"
  using assms number_read(2)[of s] by (simp add: engine_pair_def me_EtcdClientSetUp_def engine_env_def getenv_or_def MaxAssets_def)

lemma reads_engine:
  assumes "reads_back jl (engine_document addr (int s))"
  shows "\<exists>j. js_parse (jl_api jl) (jl_dump jl (engine_document addr (int s))) = Some j \<and> jl_at_string jl j ''addr'' = Some addr \<and>
    jl_at_u32 jl j ''asset_id'' = Some (of_nat s)"
  using assms by (auto simp: reads_back_def engine_document_def)

lemma follows_slot:
  assumes "follows m l" "s < MaxAssets" "in_i32 fd" "l' = l \<lparr> lnk_Calls := lnk_Calls l @ calls,
      lnk_Router := r \<rparr>" "ort_MatchingEngines r = (ort_MatchingEngines (lnk_Router l))[s := SwitchFd fd (ort_MatchingEngines (lnk_Router l) ! s)]"
    "case v of None \<Rightarrow> fd = - 1 | Some (ip, port) \<Rightarrow> fd \<noteq> - 1 \<and> (fd, ip, of_nat port) \<in> set calls"
  shows "follows (m(s := v)) l'"
  using assms(1,2,6) unfolding assms(4)
  by (auto simp: follows_def slot_fd_def assms(5) nth_list_update SwitchFd_Fd[OF assms(3)] split: option.splits prod.splits) 

lemma engine_event_follows:
  assumes "follows m l" "reg_ok jl e" "good_dial d"
  shows "\<exists>l'. engine_events jl [(raw_event jl e, d)] l = Some l' \<and> follows (reg_step e m) l'"
proof (cases e)
  case (Registered s ip port)
  then have s: "s < MaxAssets" "port < 2 ^ 16" "reads_back jl (engine_document (address ip port) (int s))" using assms(2) by simp_all
  then have n: "unat (of_nat s :: u32) = s" by (simp add: MaxAssets_def unat_of_nat)
  have len: "s < length (ort_MatchingEngines (lnk_Router l))" using assms(1) s(1) by (simp add: follows_def)
  have fd: "in_i32 (dl_socket d)" "dl_socket d \<noteq> - 1" using assms(3) by (auto simp: good_dial_def)
  from reads_engine[OF s(3)] len Registered n show ?thesis
    using follows_slot[OF assms(1) s(1) fd(1) refl, where v = "Some (ip, port)" and calls = "[(dl_socket d, ip, of_nat port)]"] fd(2)
    by (auto simp: engine_pair_eq[OF s(1)] connectToService_address[OF assms(3) s(2)] switch_engine_def Let_def)
next
  case (Expired s)
  then have s: "s < MaxAssets" using assms(2) by simp
  then have n: "unat (word_of_int (int s) :: u32) = s" "stoi (to_string s) = Some (int s)"
    using number_read(1)[of s] by (simp_all add: MaxAssets_def unat_of_nat)
  have key: "find_last_of (CHR ''/'') (''/matching-engines/'' @ to_string s) = Some 17"
    using find_last_of_append[OF slash_not_in_number, of "''/matching-engines''" s] by simp
  have len: "s < length (ort_MatchingEngines (lnk_Router l))" using assms(1) s by (simp add: follows_def)
  show ?thesis
    using follows_slot[OF assms(1) s _ refl, where fd = "- 1" and v = None and calls = "[]"] Expired n key len
    by (auto simp: switch_engine_def Let_def in_i32_def)
qed

lemma engine_events_Cons:
  "engine_events jl (e # evs) l = do { l \<leftarrow> engine_events jl [e] l; engine_events jl evs l }"
  by (cases e rule: prod.exhaust, cases "fst e") (auto split: EventType.splits bind_splits)

lemma engine_events_follow:
  assumes "follows m l" "\<forall>(e, d) \<in> set evs. reg_ok jl e \<and> good_dial d"
  shows "\<exists>l'. engine_events jl (map (\<lambda>(e, d). (raw_event jl e, d)) evs) l = Some l' \<and> follows (fold reg_step (map fst evs) m) l'"
  using assms
proof (induction evs arbitrary: m l)
  case (Cons ed evs)
  obtain e d where ed: "ed = (e, d)" by (cases ed)
  from engine_event_follows[OF Cons.prems(1), of jl e d] Cons.prems(2) ed obtain l1 where
    l1: "engine_events jl [(raw_event jl e, d)] l = Some l1" "follows (reg_step e m) l1" by auto
  from Cons.IH[OF l1(2)] Cons.prems(2) obtain l' where
    "engine_events jl (map (\<lambda>(e, d). (raw_event jl e, d)) evs) l1 = Some l'" "follows (fold reg_step (map fst evs) (reg_step e m)) l'" by auto
  with l1(1) show ?case by (subst list.map, subst engine_events_Cons) (simp add: ed del: engine_events.simps)
qed simp

lemma found_engines_follow:
  assumes "follows m l" "\<forall>((s, ip, port), d) \<in> set es. reg_ok jl (Registered s ip port) \<and> good_dial d"
  shows "\<exists>l'. found_engines jl (map (\<lambda>((s, ip, port), d). (engine_pair jl s ip port, d)) es) l = Some l' \<and>
    follows (fold (\<lambda>((s, ip, port), d). reg_step (Registered s ip port)) es m) l'"
  using assms
proof (induction es arbitrary: m l)
  case (Cons e es)
  obtain s ip port d where e: "e = ((s, ip, port), d)" by (metis prod.exhaust)
  have s: "s < MaxAssets" "port < 2 ^ 16" "reads_back jl (engine_document (address ip port) (int s))" and d: "good_dial d"
    using Cons.prems(2) by (simp_all add: e)
  have n: "unat (of_nat s :: u32) = s" using s(1) by (simp add: MaxAssets_def unat_of_nat)
  have len: "s < length (ort_MatchingEngines (lnk_Router l))" using Cons.prems(1) s(1) by (simp add: follows_def)
  have fd: "in_i32 (dl_socket d)" "dl_socket d \<noteq> - 1" using d by (auto simp: good_dial_def)
  let ?slots = "ort_MatchingEngines (lnk_Router l)"
  let ?l1 = "l \<lparr> lnk_Calls := lnk_Calls l @ [(dl_socket d, ip, of_nat port)],
    lnk_Router := (lnk_Router l) \<lparr> ort_MatchingEngines := ?slots[s := SwitchFd (dl_socket d) (?slots ! s)] \<rparr> \<rparr>"
  have l1: "follows (m(s \<mapsto> (ip, port))) ?l1"
    using follows_slot[OF Cons.prems(1) s(1) fd(1) refl, where v = "Some (ip, port)" and calls = "[(dl_socket d, ip, of_nat port)]"] fd(2) by simp
  from reads_engine[OF s(3)] obtain j where j: "js_parse (jl_api jl) (jl_dump jl (engine_document (address ip port) (int s))) = Some j"
    "jl_at_string jl j ''addr'' = Some (address ip port)" "jl_at_u32 jl j ''asset_id'' = Some (of_nat s)" by blast
  from Cons.IH[OF l1] Cons.prems(2) show ?case using j len n fd(2)
    by (simp add: e engine_pair_eq[OF s(1)] connectToService_address[OF d s(2)])
qed simp

lemma found_accounts_follow:
  assumes "follows m l" "net_Answers (ort_Net (lnk_Router l)) = []"
    "\<forall>((ip, port), d) \<in> set as. port < 2 ^ 16 \<and> reads_back jl (account_document (address ip port)) \<and> good_dial d"
  shows "\<exists>l'. found_accounts jl machine_id
      (map (\<lambda>((ip, port), d). (as_EtcdClientSetUp jl [''LISTEN_ADDR'' \<mapsto> address ip port], d)) as) l = Some (True, l') \<and> follows m l'"
  using assms
proof (induction as arbitrary: l)
  case (Cons a as)
  obtain ip port d where a: "a = ((ip, port), d)" by (metis prod.exhaust)
  have s: "port < 2 ^ 16" "reads_back jl (account_document (address ip port))" and d: "good_dial d" using Cons.prems(3) by (simp_all add: a)
  from s(2) obtain j where j: "js_parse (jl_api jl) (jl_dump jl (account_document (address ip port))) = Some j"
    "jl_at_string jl j ''addr'' = Some (address ip port)" by (auto simp: reads_back_def account_document_def)
  let ?l = "l \<lparr> lnk_Calls := lnk_Calls l @ [(dl_socket d, ip, of_nat port)],
    lnk_Router := connect_accounts machine_id [dl_socket d] (lnk_Router l) \<rparr>"
  have l: "follows m ?l" "net_Answers (ort_Net (lnk_Router ?l)) = []"
    using Cons.prems(1,2) by (auto simp: follows_def slot_fd_def send_all_whole split: option.splits)
  have "dl_socket d \<noteq> - 1" using d by (auto simp: good_dial_def)
  with Cons.IH[OF l] Cons.prems(2,3) j show ?case
    by (simp add: a as_EtcdClientSetUp_def getenv_or_def connectToService_address[OF d s(1)] send_all_whole Let_def)
qed simp

lemma connectToService_net: "connectToService d addr l = Some (fd, l') \<Longrightarrow> ort_Net (lnk_Router l') = ort_Net (lnk_Router l)"
  by (auto simp: connectToService_def Let_def split: option.splits bind_splits if_splits)

lemma found_engines_net: "found_engines jl kvs l = Some l' \<Longrightarrow> ort_Net (lnk_Router l') = ort_Net (lnk_Router l)"
proof (induction jl kvs l rule: found_engines.induct)
  case (2 jl key v d kvs l)
  from "2.prems" obtain val addr i fd l1 r where
    s: "js_parse (jl_api jl) v = Some val" "jl_at_string jl val ''addr'' = Some addr" "jl_at_u32 jl val ''asset_id'' = Some i"
      "connectToService d addr l = Some (fd, l1)" "connect_engines [(unat i, fd)] (lnk_Router l1) = Some r"
      "found_engines jl kvs (l1 \<lparr> lnk_Router := r \<rparr>) = Some l'"
    by (auto split: bind_splits prod.splits simp del: connect_engines.simps)
  have "ort_Net r = ort_Net (lnk_Router l1)" using s(5) by (auto split: if_splits)
  with "2.IH"[OF s(1-4) refl s(5,6)] connectToService_net[OF s(4)] show ?case by simp
qed simp

lemma engine_responses_follow:
  assumes "follows m l" "\<forall>(e, d) \<in> set (concat evss). reg_ok jl e \<and> good_dial d"
  shows "\<exists>l'. engine_responses jl (map (\<lambda>evs. (False, map (\<lambda>(e, d). (raw_event jl e, d)) evs)) evss) l = Some l' \<and>
    follows (fold reg_step (map fst (concat evss)) m) l'"
  using assms
proof (induction evss arbitrary: m l)
  case (Cons evs evss)
  from engine_events_follow[OF Cons.prems(1), of evs jl] Cons.prems(2) obtain l1 where
    "engine_events jl (map (\<lambda>(e, d). (raw_event jl e, d)) evs) l = Some l1" "follows (fold reg_step (map fst evs) m) l1" by auto
  with Cons.IH[of _ l1] Cons.prems(2) show ?case by (auto simp: on_engine_response_def)
qed simp

lemma fold_registered: "distinct (map (fst \<circ> fst) es) \<Longrightarrow>
  fold (\<lambda>((s, ip, port), d). reg_step (Registered s ip port)) es m = m ++ map_of (map fst es)"
proof (induction es arbitrary: m)
  case (Cons e es)
  obtain s ip port d where e: "e = ((s, ip, port), d)" by (metis prod.exhaust)
  have "s \<notin> dom (map_of (map fst es))" using Cons.prems by (force simp: e dom_map_of_conv_image_fst)
  then have "m(s \<mapsto> (ip, port)) ++ map_of (map fst es) = m ++ map_of (map fst (e # es))"
    by (auto simp: e fun_eq_iff map_add_def split: option.splits)
  moreover have "fold (\<lambda>((s, ip, port), d). reg_step (Registered s ip port)) (e # es) m =
      fold (\<lambda>((s, ip, port), d). reg_step (Registered s ip port)) es (m(s \<mapsto> (ip, port)))" by (simp add: e)
  moreover have "distinct (map (fst \<circ> fst) es)" using Cons.prems by (simp add: comp_def)
  ultimately show ?case using Cons.IH by metis
qed simp

lemma fresh_router_follows:
  assumes "ort_MatchingEngines (lnk_Router l) = replicate MaxAssets VersionedFd_init"
  shows "follows Map.empty l"
proof -
  have "vfd_Fd (vfd_load VersionedFd_init) = - 1" by code_simp
  with assms show ?thesis by (simp add: follows_def slot_fd_def)
qed

text \<open>C19. The gateway follows the engines without a gap: let \<open>log\<close> be everything that happens to the engines' keys in etcd, each
  registration written by the engine's own set-up code; let the router list the keys after the first \<open>n\<close> entries, in any order, and its
  watcher receive the remaining entries in any grouping.  If the connections succeed and the account services found accept the
  handshake, the slot of every asset ends up empty exactly when no engine is registered for it at the end of the log, and otherwise
  holds a descriptor that was connected to the address last registered.\<close>

theorem router_follows_engines:
  assumes fresh: "ort_MatchingEngines (lnk_Router l) = replicate MaxAssets VersionedFd_init" "net_Answers (ort_Net (lnk_Router l)) = []"
    and snap: "distinct (map (fst \<circ> fst) es)" "map_of (map fst es) = fold reg_step (take n log) Map.empty"
      "\<forall>((s, ip, port), d) \<in> set es. reg_ok jl (Registered s ip port) \<and> good_dial d"
    and accounts: "\<forall>((ip, port), d) \<in> set as. port < 2 ^ 16 \<and> reads_back jl (account_document (address ip port)) \<and> good_dial d"
    and watch: "map fst (concat evss) = drop n log" "\<forall>(e, d) \<in> set (concat evss). reg_ok jl e \<and> good_dial d"
    and env: "env ''MACHINE_ID'' = Some (to_string g)" "g < 2 ^ 16"
  shows "\<exists>l'. router_discovery jl env (map (\<lambda>((s, ip, port), d). (engine_pair jl s ip port, d)) es)
      (map (\<lambda>((ip, port), d). (as_EtcdClientSetUp jl [''LISTEN_ADDR'' \<mapsto> address ip port], d)) as)
      (map (\<lambda>evs. (False, map (\<lambda>(e, d). (raw_event jl e, d)) evs)) evss) l = Some l' \<and>
    (\<forall>s < MaxAssets. case fold reg_step log Map.empty s of None \<Rightarrow> slot_fd l' s = - 1
       | Some (ip, port) \<Rightarrow> slot_fd l' s \<noteq> - 1 \<and> (slot_fd l' s, ip, of_nat port) \<in> set (lnk_Calls l'))"
proof -
  from found_engines_follow[OF fresh_router_follows[OF fresh(1)] snap(3)] obtain l1 where
    l1: "found_engines jl (map (\<lambda>((s, ip, port), d). (engine_pair jl s ip port, d)) es) l = Some l1"
      "follows (fold reg_step (take n log) Map.empty) l1"
    unfolding fold_registered[OF snap(1)] by (auto simp: snap(2))
  have net: "net_Answers (ort_Net (lnk_Router l1)) = []" using found_engines_net[OF l1(1)] fresh(2) by simp
  have g: "stoi (getenv_or env ''MACHINE_ID'' ''0'') = Some (int g)" using env number_read(1)[of g] by (simp add: getenv_or_def)
  from found_accounts_follow[OF l1(2) net accounts] obtain l2 where
    l2: "found_accounts jl (word_of_int (int g)) (map (\<lambda>((ip, port), d). (as_EtcdClientSetUp jl [''LISTEN_ADDR'' \<mapsto> address ip port], d)) as) l1 = Some (True, l2)"
      "follows (fold reg_step (take n log) Map.empty) l2" by blast
  have whole: "fold reg_step (drop n log) (fold reg_step (take n log) Map.empty) = fold reg_step log Map.empty"
    by (metis append_take_drop_id fold_append comp_apply)
  from engine_responses_follow[OF l2(2) watch(2)] l1(1) l2(1) g show ?thesis
    unfolding watch(1) whole by (auto simp: router_discovery_def gw_EtcdClientSetUp_def follows_def)
qed

section \<open>A JSON library for three documents\<close>

text \<open>The texts are those \<open>nlohmann::json\<close> writes for an object with these members.\<close>

definition json_quote :: "string \<Rightarrow> string" where
  "json_quote s = CHR 0x22 # s @ [CHR 0x22]"

fun json_member :: "string \<times> json_atom \<Rightarrow> string" where
  "json_member (k, JString s) = json_quote k @ CHR '':'' # json_quote s"
| "json_member (k, JInt n) = json_quote k @ CHR '':'' # (if n < 0 then CHR ''-'' # to_string (nat (- n)) else to_string (nat n))"

fun json_members :: "(string \<times> json_atom) list \<Rightarrow> string" where
  "json_members [] = []"
| "json_members [f] = json_member f"
| "json_members (f # fs) = json_member f @ CHR '','' # json_members fs"

definition json_text :: "(string \<times> json_atom) list \<Rightarrow> string" where
  "json_text fs = CHR ''{'' # json_members fs @ ''}''"

definition sample_documents :: "(string \<times> json_atom) list list" where
  "sample_documents = [engine_document (address ''10.0.0.7'' 8080) (int 2), account_document (address ''10.0.0.9'' 8082),
     gateway_document ''10.0.0.8:8081'']"

definition registry_json :: "(string \<times> json_atom) list json_lib" where
  "registry_json = \<lparr> jl_api = \<lparr> js_parse = (\<lambda>s. find (\<lambda>d. json_text d = s) sample_documents),
       js_string = (\<lambda>j k d. case map_of j k of None \<Rightarrow> Some d | Some (JString s) \<Rightarrow> Some s | Some (JInt n) \<Rightarrow> None),
       js_int = (\<lambda>j k d. case map_of j k of None \<Rightarrow> Some d | Some (JString s) \<Rightarrow> None | Some (JInt n) \<Rightarrow> Some n) \<rparr>,
     jl_dump = json_text,
     jl_at_string = (\<lambda>j k. case map_of j k of Some (JString s) \<Rightarrow> Some s | _ \<Rightarrow> None),
     jl_at_u32 = (\<lambda>j k. case map_of j k of Some (JInt n) \<Rightarrow> Some (word_of_int n) | _ \<Rightarrow> None) \<rparr>"

lemma texts_differ:
  "json_text (engine_document (address ''10.0.0.7'' 8080) (int 2)) \<noteq> json_text (account_document (address ''10.0.0.9'' 8082))"
  "json_text (engine_document (address ''10.0.0.7'' 8080) (int 2)) \<noteq> json_text (gateway_document ''10.0.0.8:8081'')"
  "json_text (account_document (address ''10.0.0.9'' 8082)) \<noteq> json_text (gateway_document ''10.0.0.8:8081'')"
  by (simp_all add: json_text_def json_quote_def engine_document_def account_document_def gateway_document_def address_def)

lemma sample_parse:
  "d \<in> set sample_documents \<Longrightarrow> js_parse (jl_api registry_json) (jl_dump registry_json d) = Some d"
  using texts_differ by (auto simp: registry_json_def sample_documents_def)

lemma sample_reads_back:
  assumes "js_parse (jl_api registry_json) (jl_dump registry_json d) = Some d" "distinct (map fst d)"
  shows "reads_back registry_json d"
proof -
  have at: "(k, a) \<in> set d \<Longrightarrow> map_of d k = Some a" for k a using assms(2) by simp
  show ?thesis unfolding reads_back_def
  proof (intro exI[of _ d] conjI allI impI)
    show "js_parse (jl_api registry_json) (jl_dump registry_json d) = Some d" by (rule assms(1))
  qed (simp_all add: registry_json_def at)
qed

lemma sample_reads:
  "reads_back registry_json (engine_document (address ''10.0.0.7'' 8080) (int 2))" "reads_back registry_json (account_document (address ''10.0.0.9'' 8082))"
  "reads_back registry_json (gateway_document ''10.0.0.8:8081'')"
  by (rule sample_reads_back[OF sample_parse], simp add: sample_documents_def,
      simp add: engine_document_def account_document_def gateway_document_def)+

definition sample_links :: "send_answer list \<Rightarrow> links" where
  "sample_links as = \<lparr> lnk_Router = OrderRouter_init 3 0 VersionedFd_init (channel_of (SpscQueue_init 8 no_message)) (quiet_network as), lnk_Calls = [] \<rparr>"

definition sample_dial :: "i32 \<Rightarrow> dial" where
  "sample_dial fd = \<lparr> dl_socket = fd, dl_connect = InProgress \<rparr>"

text \<open>An engine registers, its lease ends after the gateway has listed the keys, and it registers again.\<close>

theorem router_follows_engines_witness:
  "\<exists>l'. router_discovery registry_json [''MACHINE_ID'' \<mapsto> to_string 3] [(engine_pair registry_json 2 ''10.0.0.7'' 8080, sample_dial 9)]
      [(as_EtcdClientSetUp registry_json [''LISTEN_ADDR'' \<mapsto> address ''10.0.0.9'' 8082], sample_dial 10)]
      [(False, [(raw_event registry_json (Expired 2), sample_dial 11)]), (False, [(raw_event registry_json (Registered 2 ''10.0.0.7'' 8080), sample_dial 12)])]
      (sample_links []) = Some l' \<and>
    slot_fd l' 1 = - 1 \<and> slot_fd l' 2 \<noteq> - 1 \<and> (slot_fd l' 2, ''10.0.0.7'', 8080) \<in> set (lnk_Calls l')"
proof -
  let ?log = "[Registered 2 ''10.0.0.7'' 8080, Expired 2, Registered 2 ''10.0.0.7'' 8080]"
  have l: "ort_MatchingEngines (lnk_Router (sample_links [])) = replicate MaxAssets VersionedFd_init"
    "net_Answers (ort_Net (lnk_Router (sample_links []))) = []" by (simp_all add: sample_links_def OrderRouter_init_def quiet_network_def)
  have d: "good_dial (sample_dial fd)" if "0 \<le> fd" "fd < 2 ^ 31" for fd using that by (simp add: good_dial_def sample_dial_def in_i32_def)
  have m: "(1 :: nat) < MaxAssets" "(2 :: nat) < MaxAssets" by (simp_all add: MaxAssets_def)
  from router_follows_engines[OF l, of "[((2, ''10.0.0.7'', 8080), sample_dial 9)]" 1 ?log registry_json "[((''10.0.0.9'', 8082), sample_dial 10)]"
      "[[(Expired 2, sample_dial 11)], [(Registered 2 ''10.0.0.7'' 8080, sample_dial 12)]]" "[''MACHINE_ID'' \<mapsto> to_string 3]" 3]
    sample_reads d m obtain l' where
    l': "router_discovery registry_json [''MACHINE_ID'' \<mapsto> to_string 3] [(engine_pair registry_json 2 ''10.0.0.7'' 8080, sample_dial 9)]
      [(as_EtcdClientSetUp registry_json [''LISTEN_ADDR'' \<mapsto> address ''10.0.0.9'' 8082], sample_dial 10)]
      [(False, [(raw_event registry_json (Expired 2), sample_dial 11)]), (False, [(raw_event registry_json (Registered 2 ''10.0.0.7'' 8080), sample_dial 12)])]
      (sample_links []) = Some l'"
    "\<forall>s < MaxAssets. case fold reg_step ?log Map.empty s of None \<Rightarrow> slot_fd l' s = - 1
       | Some (ip, port) \<Rightarrow> slot_fd l' s \<noteq> - 1 \<and> (slot_fd l' s, ip, of_nat port) \<in> set (lnk_Calls l')"
    by auto
  from l'(2)[rule_format, OF m(1)] l'(2)[rule_format, OF m(2)] l'(1) show ?thesis by auto
qed

section \<open>A handshake refused at the start\<close>

text \<open>C38. When an account service is found at the start and the handshake to it is refused (on a socket that is still connecting the first
  \<open>send\<close> answers \<open>EAGAIN\<close>), the set-up ends before the watchers exist: whatever happens to the engines afterwards, the router keeps the
  connections it made at the start.\<close>

theorem refused_handshake_stops_discovery:
  assumes engines: "found_engines jl existingME l = Some l1" "stoi (getenv_or env ''MACHINE_ID'' ''0'') = Some machine"
    and account: "js_parse (jl_api jl) (snd kv) = Some j" "jl_at_string jl j ''addr'' = Some addr" "connectToService d addr l1 = Some (fd, l2)"
    and refused: "net_Answers (ort_Net (lnk_Router l1)) = Refuses e # rest" "e \<noteq> EINTR"
  shows "\<exists>l'. (\<forall>responses. router_discovery jl env existingME ((kv, d) # kvs) responses l = Some l') \<and>
    ort_MatchingEngines (lnk_Router l') = ort_MatchingEngines (lnk_Router l2) \<and> ort_AccountFd (lnk_Router l') = ort_AccountFd (lnk_Router l2)"
proof -
  let ?bs = "encode_GatewayHandshake \<lparr> ghs_GatewayId = word_of_int machine \<rparr>"
  have "net_Answers (ort_Net (lnk_Router l2)) = Refuses e # rest" using refused(1) connectToService_net[OF account(3)] by simp
  moreover have "?bs \<noteq> []" by (simp add: encode_GatewayHandshake_def numeral_2_eq_2)
  ultimately have "\<exists>net. send_all fd ?bs 0 (ort_Net (lnk_Router l2)) = (False, 0, net)"
    using refused(2) by (subst send_all.simps) (auto simp: send_def)
  then obtain net where net: "send_all fd ?bs 0 (ort_Net (lnk_Router l2)) = (False, 0, net)" by blast
  obtain k v where kv: "kv = (k, v)" by (cases kv)
  let ?l' = "l2 \<lparr> lnk_Router := (lnk_Router l2) \<lparr> ort_Net := net \<rparr> \<rparr>"
  have "router_discovery jl env existingME ((kv, d) # kvs) responses l = Some ?l'" for responses
    using engines account net by (simp add: router_discovery_def gw_EtcdClientSetUp_def kv Let_def)
  then show ?thesis by (intro exI[of _ ?l']) simp
qed

theorem refused_handshake_stops_discovery_witness:
  "\<exists>l'. \<forall>responses. router_discovery registry_json [''MACHINE_ID'' \<mapsto> to_string 3] []
      [(as_EtcdClientSetUp registry_json [''LISTEN_ADDR'' \<mapsto> address ''10.0.0.9'' 8082], sample_dial 10)] responses (sample_links [Refuses EAGAIN]) = Some l'"
proof -
  let ?kv = "as_EtcdClientSetUp registry_json [''LISTEN_ADDR'' \<mapsto> address ''10.0.0.9'' 8082]" and ?l = "sample_links [Refuses EAGAIN]"
  have kv: "snd ?kv = jl_dump registry_json (account_document (address ''10.0.0.9'' 8082))" by (simp add: as_EtcdClientSetUp_def getenv_or_def)
  from sample_reads(2) obtain j where j: "js_parse (jl_api registry_json) (snd ?kv) = Some j" "jl_at_string registry_json j ''addr'' = Some (address ''10.0.0.9'' 8082)"
    unfolding kv by (auto simp: reads_back_def account_document_def)
  have d: "good_dial (sample_dial 10)" by (simp add: good_dial_def sample_dial_def in_i32_def)
  have g: "stoi (getenv_or [''MACHINE_ID'' \<mapsto> to_string 3] ''MACHINE_ID'' ''0'') = Some 3" using number_read(1)[of 3] by (simp add: getenv_or_def)
  have a: "net_Answers (ort_Net (lnk_Router ?l)) = Refuses EAGAIN # []" by (simp add: sample_links_def OrderRouter_init_def quiet_network_def)
  have f: "found_engines registry_json [] ?l = Some ?l" by simp
  from refused_handshake_stops_discovery[OF f g j connectToService_address[OF d] a] show ?thesis by auto
qed

section \<open>What the dashboard finds\<close>

text \<open>The dashboard understands what engines and gateways register: the event made of the pair they set has the right resource, number,
  address and status.  The account service registers under a prefix that the dashboard neither lists nor watches, and would not recognise.\<close>

theorem dashboard_discovers:
  assumes "s < MaxAssets" "g < 2 ^ 31" "reads_back jl (engine_document (address ip port) (int s))" "reads_back jl (gateway_document listen)"
    and "env ''MACHINE_ID'' = Some (to_string g)" "env ''LISTEN_ADDR'' = Some listen"
  shows "(\<exists>ev. case_prod (make_event (jl_api jl) kind) (engine_pair jl s ip port) = Some ev \<and> ev_resource_kind ev = MatchingEngine \<and>
      ev_id ev = Some (of_nat s) \<and> ev_matching_engine ev = Some \<lparr> mei_addr = address ip port, mei_asset_id = of_nat s, mei_status = ''active'' \<rparr>) \<and>
    (\<exists>ev. case_prod (make_event (jl_api jl) kind) (gw_registration jl env) = Some ev \<and> ev_resource_kind ev = SocketGateway \<and>
      ev_id ev = Some (of_nat g) \<and> ev_addr_status ev = Some \<lparr> asi_addr = listen, asi_status = ''active'' \<rparr>) \<and>
    classify (fst (as_EtcdClientSetUp jl env)) = UnknownResource \<and> (\<forall>p \<in> set kPrefixes. \<not> starts_with p (fst (as_EtcdClientSetUp jl env)))"
proof -
  have id: "parse_trailing_id (''/matching-engines/'' @ to_string s) = Some (of_nat s)"
    "parse_trailing_id (''/socket-gateways/'' @ to_string g) = Some (of_nat g)"
    using parse_trailing_id_append[OF slash_not_in_number to_string_digits(2), of "''/matching-engines''" s]
      parse_trailing_id_append[OF slash_not_in_number to_string_digits(2), of "''/socket-gateways''" g]
      from_chars_to_string[of s] from_chars_to_string[of g] assms(1,2) by (simp_all add: MaxAssets_def)
  have cl: "classify (''/matching-engines/'' @ x) = MatchingEngine" "classify (''/socket-gateways/'' @ x) = SocketGateway" for x
    by (simp_all add: classify_def starts_with_def matching_engines_prefix_def client_details_prefix_def socket_gateways_prefix_def)
  have as: "classify ''/account-service/0'' = UnknownResource" "\<forall>p \<in> set kPrefixes. \<not> starts_with p ''/account-service/0''" by code_simp+
  have "\<exists>ev. case_prod (make_event (jl_api jl) kind) (engine_pair jl s ip port) = Some ev \<and> ev_resource_kind ev = MatchingEngine \<and>
      ev_id ev = Some (of_nat s) \<and> ev_matching_engine ev = Some \<lparr> mei_addr = address ip port, mei_asset_id = of_nat s, mei_status = ''active'' \<rparr>"
    using assms(3) id(1) by (auto simp: engine_pair_eq[OF assms(1)] make_event_def fill_parsed_fields_def cl[simplified] reads_back_def engine_document_def)
  moreover have "\<exists>ev. case_prod (make_event (jl_api jl) kind) (gw_registration jl env) = Some ev \<and> ev_resource_kind ev = SocketGateway \<and>
      ev_id ev = Some (of_nat g) \<and> ev_addr_status ev = Some \<lparr> asi_addr = listen, asi_status = ''active'' \<rparr>"
    using assms(4-6) id(2) by (auto simp: gw_registration_def getenv_or_def make_event_def fill_parsed_fields_def cl[simplified] reads_back_def gateway_document_def)
  ultimately show ?thesis using as by (simp add: as_EtcdClientSetUp_def)
qed

theorem dashboard_discovers_witness:
  "\<exists>e1 e2. case_prod (make_event (jl_api registry_json) Put) (engine_pair registry_json 2 ''10.0.0.7'' 8080) = Some e1 \<and>
     case_prod (make_event (jl_api registry_json) Put) (gw_registration registry_json [''MACHINE_ID'' \<mapsto> to_string 3, ''LISTEN_ADDR'' \<mapsto> ''10.0.0.8:8081'']) = Some e2 \<and>
     ev_id e1 = Some 2 \<and> ev_id e2 = Some 3"
  using dashboard_discovers[of 2 3 registry_json "''10.0.0.7''" 8080 "''10.0.0.8:8081''" "[''MACHINE_ID'' \<mapsto> to_string 3, ''LISTEN_ADDR'' \<mapsto> ''10.0.0.8:8081'']" Put]
    sample_reads by (auto simp: MaxAssets_def)

end
