(* ===== verification/Latency_Page.thy ===== *)
theory Latency_Page
  imports App_State Complex_Main "HOL-Library.Multiset"
begin

text \<open>
  The trade feed and the latency statistics of the dashboard (\<open>market_client/src/main.cpp\<close>, lines 2071 to 2805): what the lines of the feed say, the
  four spans of a report, the filters of the statistics page, the summary of each span and the way a duration is written.  The drawing calls
  are left out; what they are given is the result of the definitions.

  Timestamps are 64-bit words, read as signed; the difference of two of them is an \<open>int64_t\<close> and wraps (\<open>wrap64\<close>).  Its conversion to a \<open>double\<close>
  is a parameter (\<open>dbl_of\<close> of the \<open>double_ops\<close> \<open>dbl\<close>), since it may round.  The durations themselves are numbers of an ordered field with a floor
  function: products, means and percentiles are exact, and \<open>NaN\<close> is not modelled.
\<close>

section \<open>Durations\<close>

text \<open>\<open>std::round\<close> (halves away from zero) and the rounding of \<open>printf\<close> (halves to even), both on numbers that are not negative.\<close>

definition round_half_even :: "'d :: floor_ceiling \<Rightarrow> int" where
  "round_half_even x =
     (let n = \<lfloor>x\<rfloor>; f = x - of_int n in
      if f < 1 / 2 then n else if 1 / 2 < f then n + 1 else if even n then n else n + 1)"

definition fixed0 :: "'d :: floor_ceiling \<Rightarrow> string" where
  "fixed0 x = to_string (nat (round_half_even x))"

definition fixed2 :: "'d :: floor_ceiling \<Rightarrow> string" where
  "fixed2 x = (let n = nat (round_half_even (x * 100)) in
     to_string (n div 100) @ CHR ''.'' # to_string (n mod 100 div 10) @ to_string (n mod 10))"

definition is_whole :: "'d :: floor_ceiling \<Rightarrow> bool" where
  "is_whole us \<longleftrightarrow> \<bar>us - of_int \<lfloor>us + 1 / 2\<rfloor>\<bar> < 1 / 1000000000"

definition format_duration_ns :: "'d :: floor_ceiling \<Rightarrow> string" where
  "format_duration_ns ns =
     (let abs_ns = (if ns < 0 then - ns else ns); sign = (if ns < 0 then ''-'' else ''''); us = abs_ns / 1000 in
      take 31 (if abs_ns < 1000 then sign @ fixed0 abs_ns @ ''ns''
        else if abs_ns < 1000000
        then if is_whole us then sign @ fixed0 (of_int \<lfloor>us + 1 / 2\<rfloor> :: 'd) @ ''us'' else sign @ fixed0 abs_ns @ ''ns''
        else sign @ fixed2 (abs_ns / 1000000) @ ''ms''))"

definition pick_duration_unit :: "('d :: floor_ceiling) list \<Rightarrow> 'd \<times> string" where
  "pick_duration_unit values_ns =
     (let max_abs = fold (\<lambda>v m. max m \<bar>v\<bar>) values_ns 0 in
      if max_abs < 1000 then (1, ''ns'')
      else if max_abs < 1000000
      then if list_all (\<lambda>v. is_whole (\<bar>v\<bar> / 1000)) values_ns then (1000, ''us'') else (1, ''ns'')
      else (1000000, ''ms''))"

section \<open>Spans of a report\<close>

definition no_timestamps :: "TradeFeedEntry \<Rightarrow> bool" where
  "no_timestamps e \<longleftrightarrow> tfe_ingested_ts e = 0 \<and> tfe_routed_ts e = 0 \<and> tfe_received_ts e = 0 \<and> tfe_update_ts e = 0"

definition span_ns :: "'d double_ops \<Rightarrow> u64 \<Rightarrow> u64 \<Rightarrow> 'd :: floor_ceiling \<Rightarrow> 'd" where
  "span_ns dbl from to ns_per_raw_unit = dbl_of dbl (wrap64 (sint to - sint from)) * ns_per_raw_unit"

record 'd spans =
  sp_gw_internal :: 'd
  sp_gw_to_engine :: 'd
  sp_engine_to_exec :: 'd
  sp_total :: 'd

definition latency_spans :: "'d double_ops \<Rightarrow> TradeFeedEntry \<Rightarrow> 'd :: floor_ceiling \<Rightarrow> 'd spans" where
  "latency_spans dbl e ns_per_raw_unit =
   \<lparr> sp_gw_internal = span_ns dbl (tfe_ingested_ts e) (tfe_routed_ts e) ns_per_raw_unit,
     sp_gw_to_engine = span_ns dbl (tfe_routed_ts e) (tfe_received_ts e) ns_per_raw_unit,
     sp_engine_to_exec = span_ns dbl (tfe_received_ts e) (tfe_update_ts e) ns_per_raw_unit,
     sp_total = span_ns dbl (tfe_ingested_ts e) (tfe_update_ts e) ns_per_raw_unit \<rparr>"

text \<open>The texts of the latency line, each with whether it is drawn as a warning; nothing without timestamps.\<close>

definition latency_line :: "'d double_ops \<Rightarrow> TradeFeedEntry \<Rightarrow> 'd :: floor_ceiling \<Rightarrow> (string \<times> bool) list" where
  "latency_line dbl e ns_per_raw_unit =
     (if no_timestamps e then []
      else let sp = latency_spans dbl e ns_per_raw_unit in
        map (\<lambda>ns. (format_duration_ns ns, ns < 0)) [sp_gw_internal sp, sp_gw_to_engine sp, sp_engine_to_exec sp, sp_total sp])"

section \<open>Lines of the trade feed\<close>

datatype feed_colour = Positive | Negative | Accent | Faint

record feed_line =
  fl_colour :: feed_colour
  fl_client :: u32
  fl_what :: string
  fl_amount :: "(i64 \<times> u16) option"
  fl_partial :: bool
  fl_number :: u32

text \<open>A fill is told from the leg that is not in asset 0; a report with any other number as its state draws nothing.\<close>

definition feed_entry_line :: "TradeFeedEntry \<Rightarrow> feed_line option" where
  "feed_entry_line e =
     (let fill = (let asset = (if tfe_bought_asset e \<noteq> 0 then tfe_bought_asset e else tfe_sold_asset e);
            delta = (if tfe_bought_asset e \<noteq> 0 then tfe_bought_delta e else tfe_sold_delta e);
            bought = (delta \<ge> 0); amount = (if delta < 0 then wrap64 (- delta) else delta)
          in Some \<lparr> fl_colour = (if bought then Positive else Negative), fl_client = tfe_client_id e,
               fl_what = (if bought then ''bought'' else ''sold''), fl_amount = Some (amount, asset),
               fl_partial = (tfe_state e = PARTIAL_FILL), fl_number = tfe_trade_id e \<rparr>);
          magnitude = (let d = tfe_sold_attempt_delta e in
            if d \<noteq> 0 then Some (if d < 0 then wrap64 (- d) else d, tfe_sold_asset e) else None)
      in case tfe_state e of
        FILL \<Rightarrow> fill
      | PARTIAL_FILL \<Rightarrow> fill
      | ADD \<Rightarrow> Some \<lparr> fl_colour = Accent, fl_client = tfe_client_id e, fl_what = ''placed an order'', fl_amount = magnitude,
          fl_partial = False, fl_number = tfe_order_id e \<rparr>
      | CANCEL_STATE \<Rightarrow> Some \<lparr> fl_colour = Faint, fl_client = tfe_client_id e, fl_what = ''cancelled an order'', fl_amount = magnitude,
          fl_partial = False, fl_number = tfe_order_id e \<rparr>
      | REJECT \<Rightarrow> Some \<lparr> fl_colour = Negative, fl_client = tfe_client_id e, fl_what = ''order rejected'', fl_amount = None,
          fl_partial = False, fl_number = tfe_order_id e \<rparr>
      | _ \<Rightarrow> None)"

section \<open>Summary of a span\<close>

record 'd LatencyStats =
  lts_count :: nat
  lts_min_ns :: 'd
  lts_p50_ns :: 'd
  lts_mean_ns :: 'd
  lts_p95_ns :: 'd
  lts_p99_ns :: 'd
  lts_max_ns :: 'd

definition percentile :: "('d :: floor_ceiling) list \<Rightarrow> 'd \<Rightarrow> 'd" where
  "percentile values p =
     (if length values = 1 then values ! 0
      else let idx = p * of_nat (length values - 1); lo = nat \<lfloor>idx\<rfloor>; hi = min (lo + 1) (length values - 1); frac = idx - of_nat lo in
        values ! lo * (1 - frac) + values ! hi * frac)"

text \<open>The summary and the sorted values.\<close>

definition compute_latency_stats :: "('d :: floor_ceiling) list \<Rightarrow> 'd LatencyStats \<times> 'd list" where
  "compute_latency_stats values =
     (if values = []
      then (\<lparr> lts_count = 0, lts_min_ns = 0, lts_p50_ns = 0, lts_mean_ns = 0, lts_p95_ns = 0, lts_p99_ns = 0, lts_max_ns = 0 \<rparr>, values)
      else let values = sort values in
        (\<lparr> lts_count = length values, lts_min_ns = hd values, lts_p50_ns = percentile values (50 / 100),
           lts_mean_ns = foldl (+) 0 values / of_nat (length values), lts_p95_ns = percentile values (95 / 100),
           lts_p99_ns = percentile values (99 / 100), lts_max_ns = last values \<rparr>, values))"

definition latency_stats_row :: "('d :: floor_ceiling) LatencyStats \<Rightarrow> nat \<times> string list" where
  "latency_stats_row s =
     (lts_count s, if lts_count s > 0
      then map format_duration_ns [lts_min_ns s, lts_p50_ns s, lts_mean_ns s, lts_p95_ns s, lts_p99_ns s, lts_max_ns s]
      else replicate 6 ''--'')"

section \<open>The statistics page\<close>

text \<open>Values kept for a span, and how many were ignored.\<close>

record 'd metric =
  mt_kept :: "'d list"
  mt_negative :: nat

record 'd latency_page =
  lp_no_data_count :: nat
  lp_resting_count :: nat
  lp_gw_internal :: "'d metric"
  lp_gw_to_engine :: "'d metric"
  lp_engine_to_exec :: "'d metric"
  lp_total :: "'d metric"

definition metric_add :: "bool \<Rightarrow> 'd :: floor_ceiling \<Rightarrow> 'd metric \<Rightarrow> 'd metric" where
  "metric_add ignore_negative ns m =
     (if ignore_negative \<and> ns < 0 then m \<lparr> mt_negative := mt_negative m + 1 \<rparr> else m \<lparr> mt_kept := mt_kept m @ [ns] \<rparr>)"

definition page_entry :: "'d double_ops \<Rightarrow> 'd :: floor_ceiling \<Rightarrow> 'd \<Rightarrow> bool \<Rightarrow> TradeFeedEntry \<Rightarrow> 'd latency_page \<Rightarrow> 'd latency_page" where
  "page_entry dbl ns_per_raw_unit threshold_ns ignore_negative e p =
     (if no_timestamps e then p \<lparr> lp_no_data_count := lp_no_data_count p + 1 \<rparr>
      else let sp = latency_spans dbl e ns_per_raw_unit in
        if sp_total sp > threshold_ns then p \<lparr> lp_resting_count := lp_resting_count p + 1 \<rparr>
        else p \<lparr> lp_gw_internal := metric_add ignore_negative (sp_gw_internal sp) (lp_gw_internal p),
                 lp_gw_to_engine := metric_add ignore_negative (sp_gw_to_engine sp) (lp_gw_to_engine p),
                 lp_engine_to_exec := metric_add ignore_negative (sp_engine_to_exec sp) (lp_engine_to_exec p),
                 lp_total := metric_add ignore_negative (sp_total sp) (lp_total p) \<rparr>)"

definition latency_page_init :: "('d :: floor_ceiling) latency_page" where
  "latency_page_init =
   (let m = \<lparr> mt_kept = [], mt_negative = 0 \<rparr> in
    \<lparr> lp_no_data_count = 0, lp_resting_count = 0, lp_gw_internal = m, lp_gw_to_engine = m, lp_engine_to_exec = m, lp_total = m \<rparr>)"

definition latency_page_of :: "'d double_ops \<Rightarrow> 'd :: floor_ceiling \<Rightarrow> 'd \<Rightarrow> bool \<Rightarrow> TradeFeedEntry list \<Rightarrow> 'd latency_page" where
  "latency_page_of dbl ns_per_raw_unit resting_threshold_ms ignore_negative feed =
     fold (page_entry dbl ns_per_raw_unit (resting_threshold_ms * 1000000) ignore_negative) feed latency_page_init"

text \<open>The footer subtracts two counters from a \<open>size_t\<close>.\<close>

definition evaluated :: "TradeFeedEntry list \<Rightarrow> ('d :: floor_ceiling) latency_page \<Rightarrow> u64" where
  "evaluated feed p = of_nat (length feed) - of_nat (lp_no_data_count p) - of_nat (lp_resting_count p)"

text \<open>The range of a histogram: \<open>None\<close> leaves it to the library.\<close>

definition histogram :: "('d :: floor_ceiling) list \<Rightarrow> 'd LatencyStats \<Rightarrow> ('d list \<times> 'd \<times> ('d \<times> 'd) option) option" where
  "histogram values_ns s =
     (if values_ns = [] then None
      else let d = fst (pick_duration_unit values_ns); min_scaled = lts_min_ns s / d; p99_scaled = lts_p99_ns s / d in
        Some (map (\<lambda>v. v / d) values_ns, lts_p50_ns s / d,
          if lts_count s < 10 \<or> p99_scaled \<le> min_scaled then None else Some (min_scaled, p99_scaled)))"

definition clamp_bins :: "int \<Rightarrow> int" where
  "clamp_bins n = (if n < 2 then 2 else if 500 < n then 500 else n)"

section \<open>What the page counts and summarises\<close>

text \<open>The timestamps of an entry in the order of its journey, and the duration of the stretch from one to another.\<close>

definition journey :: "TradeFeedEntry \<Rightarrow> u64 list" where
  "journey e = [tfe_ingested_ts e, tfe_routed_ts e, tfe_received_ts e, tfe_update_ts e]"

definition hop :: "'d double_ops \<Rightarrow> 'd :: floor_ceiling \<Rightarrow> nat \<Rightarrow> nat \<Rightarrow> TradeFeedEntry \<Rightarrow> 'd" where
  "hop dbl u i j e = dbl_of dbl (wrap64 (sint (journey e ! j) - sint (journey e ! i))) * u"

definition timed :: "TradeFeedEntry \<Rightarrow> bool" where
  "timed e \<longleftrightarrow> (\<exists>ts \<in> set (journey e). ts \<noteq> 0)"

definition metric_of :: "bool \<Rightarrow> ('d :: floor_ceiling) list \<Rightarrow> 'd metric" where
  "metric_of ignore_negative vs = \<lparr> mt_kept = filter (\<lambda>v. \<not> (ignore_negative \<and> v < 0)) vs,
     mt_negative = length (filter (\<lambda>v. ignore_negative \<and> v < 0) vs) \<rparr>"

lemma metric_of_snoc: "metric_of ig (vs @ [v]) = metric_add ig v (metric_of ig vs)"
  by (simp add: metric_of_def metric_add_def)

lemma spans_are_hops:
  "sp_gw_internal (latency_spans dbl e u) = hop dbl u 0 1 e" "sp_gw_to_engine (latency_spans dbl e u) = hop dbl u 1 2 e"
  "sp_engine_to_exec (latency_spans dbl e u) = hop dbl u 2 3 e" "sp_total (latency_spans dbl e u) = hop dbl u 0 3 e"
  by (simp_all add: latency_spans_def span_ns_def hop_def journey_def numeral_eq_Suc)

lemma untimed: "no_timestamps e \<longleftrightarrow> \<not> timed e"
  by (auto simp: no_timestamps_def timed_def journey_def)

lemma page_fold:
  "fold (page_entry dbl u t ig) feed latency_page_init =
    \<lparr> lp_no_data_count = length (filter (\<lambda>e. \<not> timed e) feed), lp_resting_count = length (filter (\<lambda>e. timed e \<and> hop dbl u 0 3 e > t) feed),
      lp_gw_internal = metric_of ig (map (hop dbl u 0 1) (filter (\<lambda>e. timed e \<and> \<not> hop dbl u 0 3 e > t) feed)),
      lp_gw_to_engine = metric_of ig (map (hop dbl u 1 2) (filter (\<lambda>e. timed e \<and> \<not> hop dbl u 0 3 e > t) feed)),
      lp_engine_to_exec = metric_of ig (map (hop dbl u 2 3) (filter (\<lambda>e. timed e \<and> \<not> hop dbl u 0 3 e > t) feed)),
      lp_total = metric_of ig (map (hop dbl u 0 3) (filter (\<lambda>e. timed e \<and> \<not> hop dbl u 0 3 e > t) feed)) \<rparr>"
proof (induction feed rule: rev_induct)
  case Nil
  show ?case by (simp add: latency_page_init_def metric_of_def Let_def)
next
  case (snoc e feed)
  then show ?case by (auto simp: page_entry_def untimed spans_are_hops metric_of_snoc Let_def)
qed

text \<open>C39. What the statistics page is made of.  An entry of the feed whose four timestamps are all zero is counted as without data and
  nothing else; of the others, one whose total (from the first to the last timestamp, the difference as an \<open>int64_t\<close>, times the unit) is
  above the threshold is counted as resting; the rest is the number in the footer, which for a feed of the permitted length does not wrap.  The
  values of the four spans are, in the order of the feed, the differences of the consecutive timestamps and the total of exactly these
  entries, without the negative ones when the box is ticked, which are counted per span instead.\<close>

theorem latency_page_exact:
  fixes u :: "'d :: floor_ceiling"
  assumes "length feed \<le> kMaxTradeFeed" "p = latency_page_of dbl u ms ig feed"
    and "shown = filter (\<lambda>e. timed e \<and> \<not> hop dbl u 0 3 e > ms * 1000000) feed"
  shows "lp_no_data_count p = length (filter (\<lambda>e. journey e = [0, 0, 0, 0]) feed) \<and>
    lp_resting_count p = length (filter (\<lambda>e. journey e \<noteq> [0, 0, 0, 0] \<and> hop dbl u 0 3 e > ms * 1000000) feed) \<and>
    unat (evaluated feed p) = length shown \<and>
    lp_gw_internal p = metric_of ig (map (hop dbl u 0 1) shown) \<and> lp_gw_to_engine p = metric_of ig (map (hop dbl u 1 2) shown) \<and>
    lp_engine_to_exec p = metric_of ig (map (hop dbl u 2 3) shown) \<and> lp_total p = metric_of ig (map (hop dbl u 0 3) shown)"
proof -
  have z: "\<not> timed e \<longleftrightarrow> journey e = [0, 0, 0, 0]" for e by (auto simp: timed_def journey_def)
  let ?t = "ms * 1000000"
  have p: "p = fold (page_entry dbl u ?t ig) feed latency_page_init" using assms(2) by (simp add: latency_page_of_def)
  have "length (filter (\<lambda>e. \<not> timed e) feed) + length (filter (\<lambda>e. timed e \<and> hop dbl u 0 3 e > ?t) feed) + length shown = length feed"
    unfolding assms(3) by (induction feed) auto
  then have k: "lp_no_data_count p + lp_resting_count p + length shown = length feed" by (simp add: p page_fold)
  then have "evaluated feed p = of_nat (length shown)" unfolding evaluated_def k[symmetric] by simp
  moreover have "length shown < 2 ^ 64" using assms(1) k by (simp add: kMaxTradeFeed_def)
  ultimately have "unat (evaluated feed p) = length shown" by (simp add: unat_of_nat)
  then show ?thesis by (simp add: p page_fold assms(3) z flip: z)
qed

section \<open>Percentiles\<close>

text \<open>The interpolation between the two nearest ranks, at any position.\<close>

definition interpolate :: "('d :: floor_ceiling) list \<Rightarrow> 'd \<Rightarrow> 'd" where
  "interpolate vs x = (let lo = nat \<lfloor>x\<rfloor> in vs ! lo * (1 - (x - of_nat lo)) + vs ! min (lo + 1) (length vs - 1) * (x - of_nat lo))"

lemma percentile_interpolate: "vs \<noteq> [] \<Longrightarrow> percentile vs p = interpolate vs (p * of_nat (length vs - 1))"
  by (cases "length vs = 1") (auto simp: percentile_def interpolate_def Let_def)

lemma between:
  fixes a b f :: "'d :: floor_ceiling"
  assumes "a \<le> b" "0 \<le> f" "f \<le> 1"
  shows "a \<le> a * (1 - f) + b * f" "a * (1 - f) + b * f \<le> b"
proof -
  have "a * (1 - f) + b * f = a + (b - a) * f" by (simp add: algebra_simps)
  moreover have "0 \<le> (b - a) * f" "(b - a) * f \<le> b - a" using assms mult_left_mono[of f 1 "b - a"] by simp_all
  ultimately show "a \<le> a * (1 - f) + b * f" "a * (1 - f) + b * f \<le> b" by simp_all
qed

lemma frac_part:
  fixes x :: "'d :: floor_ceiling"
  assumes "0 \<le> x"
  shows "0 \<le> x - of_nat (nat \<lfloor>x\<rfloor>)" "x - of_nat (nat \<lfloor>x\<rfloor>) \<le> 1"
proof -
  have "(of_nat (nat \<lfloor>x\<rfloor>) :: 'd) = of_int \<lfloor>x\<rfloor>" using assms by simp
  then show "0 \<le> x - of_nat (nat \<lfloor>x\<rfloor>)" "x - of_nat (nat \<lfloor>x\<rfloor>) \<le> 1"
    using floor_correct[of x] by auto
qed

lemma interpolate_bounds:
  assumes "sorted vs" "0 \<le> x" "nat \<lfloor>x\<rfloor> < length vs"
  shows "vs ! nat \<lfloor>x\<rfloor> \<le> interpolate vs x" "interpolate vs x \<le> vs ! min (nat \<lfloor>x\<rfloor> + 1) (length vs - 1)"
proof -
  have "vs ! nat \<lfloor>x\<rfloor> \<le> vs ! min (nat \<lfloor>x\<rfloor> + 1) (length vs - 1)" using assms(1,3) by (intro sorted_nth_mono) auto
  from between[OF this frac_part[OF assms(2)]] show "vs ! nat \<lfloor>x\<rfloor> \<le> interpolate vs x" "interpolate vs x \<le> vs ! min (nat \<lfloor>x\<rfloor> + 1) (length vs - 1)"
    by (simp_all add: interpolate_def Let_def)
qed

lemma interpolate_mono:
  assumes "sorted vs" "0 \<le> x" "x \<le> y" "nat \<lfloor>y\<rfloor> < length vs"
  shows "interpolate vs x \<le> interpolate vs y"
proof -
  let ?i = "nat \<lfloor>x\<rfloor>" and ?j = "nat \<lfloor>y\<rfloor>"
  have ij: "?i \<le> ?j" using floor_mono[OF assms(3)] by (rule nat_mono)
  show ?thesis
  proof (cases "?i = ?j")
    case True
    let ?a = "vs ! ?i" and ?b = "vs ! min (?i + 1) (length vs - 1)"
    have "?a \<le> ?b" using assms(1,4) True by (intro sorted_nth_mono) auto
    then have "(?b - ?a) * (x - of_nat ?i) \<le> (?b - ?a) * (y - of_nat ?i)" using assms(3) by (intro mult_left_mono) auto
    moreover have "interpolate vs x = ?a + (?b - ?a) * (x - of_nat ?i)" by (simp add: interpolate_def Let_def algebra_simps)
    moreover have "interpolate vs y = ?a + (?b - ?a) * (y - of_nat ?i)" using True by (simp add: interpolate_def Let_def algebra_simps)
    ultimately show ?thesis by simp
  next
    case False
    then have "interpolate vs x \<le> vs ! min (?i + 1) (length vs - 1)" using assms ij by (intro interpolate_bounds) auto
    also have "\<dots> \<le> vs ! ?j" using assms(1,4) ij False by (intro sorted_nth_mono) auto
    also have "\<dots> \<le> interpolate vs y" using assms by (intro interpolate_bounds) auto
    finally show ?thesis .
  qed
qed

lemma percentile_mono:
  assumes "sorted vs" "vs \<noteq> []" "0 \<le> p" "p \<le> q" "q \<le> 1"
  shows "percentile vs p \<le> percentile vs q"
proof -
  let ?n = "length vs - 1"
  have "\<lfloor>q * of_nat ?n\<rfloor> \<le> int ?n" using mult_right_mono[OF assms(5), of "of_nat ?n"] by (simp add: floor_le_iff)
  then have "nat \<lfloor>q * of_nat ?n\<rfloor> < length vs" using assms(2) by (cases vs) auto
  from interpolate_mono[OF assms(1) _ _ this, of "p * of_nat ?n"] assms(3,4) show ?thesis
    unfolding percentile_interpolate[OF assms(2)] by (simp add: mult_right_mono)
qed

lemma percentile_ends: "vs \<noteq> [] \<Longrightarrow> percentile vs 0 = hd vs" "vs \<noteq> [] \<Longrightarrow> percentile vs 1 = last vs"
  by (simp_all add: percentile_interpolate interpolate_def hd_conv_nth last_conv_nth)

lemma foldl_sum: "foldl (+) 0 vs = sum_list (vs :: ('d :: floor_ceiling) list)"
proof -
  have "foldl (+) a vs = a + sum_list vs" for a by (induction vs arbitrary: a) (simp_all add: add.assoc)
  then show ?thesis by simp
qed

lemma sum_between:
  fixes vs :: "('d :: floor_ceiling) list"
  assumes "\<forall>v \<in> set vs. a \<le> v \<and> v \<le> b"
  shows "of_nat (length vs) * a \<le> sum_list vs \<and> sum_list vs \<le> of_nat (length vs) * b"
  using assms by (induction vs) (auto simp: algebra_simps intro: add_mono)

text \<open>The summary of a span is ordered: of any values, the count is their number, the smallest and the largest are the ends of the sorted
  values, the median, the 95th and the 99th percentile follow each other between them, and the mean lies between them too.\<close>

theorem latency_stats_ordered:
  assumes "values \<noteq> []" "compute_latency_stats values = (s, sorted_values)"
  shows "sorted sorted_values \<and> mset sorted_values = mset values \<and> lts_count s = length values \<and>
    lts_min_ns s = Min (set values) \<and> lts_max_ns s = Max (set values) \<and>
    lts_min_ns s \<le> lts_p50_ns s \<and> lts_p50_ns s \<le> lts_p95_ns s \<and> lts_p95_ns s \<le> lts_p99_ns s \<and> lts_p99_ns s \<le> lts_max_ns s \<and>
    lts_min_ns s \<le> lts_mean_ns s \<and> lts_mean_ns s \<le> lts_max_ns s"
proof -
  define v where "v = sort values"
  have s: "s = \<lparr> lts_count = length v, lts_min_ns = hd v, lts_p50_ns = percentile v (50 / 100),
           lts_mean_ns = foldl (+) 0 v / of_nat (length v), lts_p95_ns = percentile v (95 / 100),
           lts_p99_ns = percentile v (99 / 100), lts_max_ns = last v \<rparr>" and sv: "sorted_values = v"
    using assms by (auto simp: compute_latency_stats_def Let_def v_def)
  have v: "sorted v" and m: "mset v = mset values" and set: "set v = set values" and len: "length v = length values" by (simp_all add: v_def)
  from len assms(1) have ne: "v \<noteq> []" by auto
  note v = v ne
  have ends: "\<forall>x \<in> set v. hd v \<le> x \<and> x \<le> last v"
    using v by (fastforce simp: in_set_conv_nth hd_conv_nth last_conv_nth intro!: sorted_nth_mono)
  then have "Min (set v) = hd v" "Max (set v) = last v" using v(2) by (auto intro: Min_eqI Max_eqI)
  moreover have "hd v \<le> percentile v (50 / 100)" "percentile v (50 / 100) \<le> percentile v (95 / 100)"
    "percentile v (95 / 100) \<le> percentile v (99 / 100)" "percentile v (99 / 100) \<le> last v"
    using percentile_mono[OF v, of 0 "50 / 100"] percentile_mono[OF v, of "50 / 100" "95 / 100"] percentile_mono[OF v, of "95 / 100" "99 / 100"]
      percentile_mono[OF v, of "99 / 100" 1] percentile_ends[OF v(2)] by simp_all
  moreover have "hd v \<le> sum_list v / of_nat (length v)" "sum_list v / of_nat (length v) \<le> last v"
    using sum_between[OF ends] v(2) by (simp_all add: pos_le_divide_eq pos_divide_le_eq mult.commute)
  moreover have "foldl (+) 0 v = sum_list v" by (rule foldl_sum)
  ultimately show ?thesis using v(1) m by (simp add: s sv set len)
qed

text \<open>The three hops of a report add up to its total, whatever the unit, when the conversion is exact and no difference wraps.\<close>

lemma spans_add_up:
  fixes u :: "'d :: floor_ceiling"
  assumes "dbl_of dbl = of_int" "\<And>i j. in_i64 (sint (journey e ! j) - sint (journey e ! i))"
  shows "sp_gw_internal (latency_spans dbl e u) + sp_gw_to_engine (latency_spans dbl e u) + sp_engine_to_exec (latency_spans dbl e u) =
    sp_total (latency_spans dbl e u)"
  using assms by (simp add: spans_are_hops hop_def algebra_simps)

text \<open>What a line says of a fill is the movement of the leg that is not cash.\<close>

lemma fill_told_by_asset_leg:
  assumes "tfe_state e = FILL \<or> tfe_state e = PARTIAL_FILL" "in_i64 (- tfe_bought_delta e)" "in_i64 (tfe_bought_delta e)" "tfe_bought_asset e \<noteq> 0"
  shows "\<exists>l amount. feed_entry_line e = Some l \<and> fl_amount l = Some (amount, tfe_bought_asset e) \<and> 0 \<le> amount \<and>
    tfe_bought_delta e = (if fl_what l = ''bought'' then amount else - amount)"
  using assms by (auto simp: feed_entry_line_def Let_def wrap64_id)

section \<open>A feed of four reports\<close>

definition feed_report :: "u64 \<Rightarrow> u64 \<Rightarrow> u64 \<Rightarrow> u64 \<Rightarrow> TradeFeedEntry" where
  "feed_report ingested routed received update =
   \<lparr> tfe_sequence_id = 1, tfe_trade_id = 1, tfe_client_id = 1, tfe_order_id = 1, tfe_bought_asset = 1, tfe_sold_asset = 0, tfe_bought_delta = 5,
     tfe_sold_delta = - 500, tfe_sold_attempt_delta = 0, tfe_state = FILL, tfe_ingested_ts = ingested, tfe_routed_ts = routed,
     tfe_received_ts = received, tfe_update_ts = update \<rparr>"

definition sample_feed :: "TradeFeedEntry list" where
  "sample_feed = [feed_report 100 400 1400 2100, feed_report 0 0 0 0, feed_report 100 400 0 2100, feed_report 100 400 1400 900000000]"

definition rat_double :: "rat double_ops" where
  "rat_double = \<lparr> dbl_of = of_int, dbl_add = (+), dbl_bucket = (\<lambda>t b. of_int \<lfloor>t / b\<rfloor> * b) \<rparr>"

theorem latency_page_exact_witness:
  "let p = latency_page_of rat_double 1 500 True sample_feed in
     lp_no_data_count p = 1 \<and> lp_resting_count p = 1 \<and> unat (evaluated sample_feed p) = 2 \<and>
     lp_engine_to_exec p = \<lparr> mt_kept = [700, 2100], mt_negative = 0 \<rparr> \<and> lp_gw_to_engine p = \<lparr> mt_kept = [1000], mt_negative = 1 \<rparr>"
proof -
  have n: "length sample_feed \<le> kMaxTradeFeed" by (simp add: sample_feed_def kMaxTradeFeed_def)
  note simps = sample_feed_def feed_report_def timed_def journey_def hop_def rat_double_def metric_of_def in_i64_def
  show ?thesis using latency_page_exact[OF n refl refl, of rat_double 1 500 True] by (simp add: simps)
qed

theorem latency_stats_ordered_witness:
  "lts_min_ns (fst (compute_latency_stats [30, 10 :: rat, 20])) = 10 \<and>
   lts_p50_ns (fst (compute_latency_stats [30, 10 :: rat, 20])) \<le> lts_p99_ns (fst (compute_latency_stats [30, 10 :: rat, 20]))"
  using latency_stats_ordered[of "[30, 10 :: rat, 20]", OF _ surjective_pairing] by auto

end
