(* ===== verification/Price_Page.thy ===== *)
theory Price_Page
  imports App_Props Dashboard Complex_Main "HOL-Library.Multiset"
begin

text \<open>
  The price history page of the dashboard (\<open>market_client/src/main.cpp: draw_price_history_panel\<close>): the tool bar, the series given to the
  chart, the window that follows the market, the tooltip and the tape.  What the drawing libraries answer (which button was
  pressed, where the mouse is, which limits a plot has) are arguments, and so is the clock.

  What the code does with prices and volumes as \<open>double\<close>s is a parameter \<open>dbl\<close> (\<open>double_ops\<close> of \<open>App_State\<close>): the conversion of an
  \<open>int64_t\<close>, which may round, the addition of volumes and the start of a time bucket.  Times and the positions on the time axis are numbers of
  an ordered field with a floor function.  \<open>NaN\<close>, used for "no value", is \<open>None\<close>.
  The containers of the layout are drawn (\<open>BeginTable\<close>, \<open>BeginSubplots\<close> and \<open>BeginPlot\<close> return true).
\<close>

section \<open>Tool bar\<close>

definition kTimeframes :: "(string \<times> 'd :: floor_ceiling) list" where
  "kTimeframes = [(''1s'', 1), (''5s'', 5), (''15s'', 15), (''1m'', 60), (''5m'', 300)]"

definition kVisibleCandles :: nat where "kVisibleCandles = 90"

record 'd PricePage =
  pp_tf_idx :: nat
  pp_show_candles :: bool
  pp_show_quotes :: bool
  pp_follow_live :: bool
  pp_selected_asset :: u16
  pp_hover_x_prev :: "'d option"
  pp_view_min :: 'd
  pp_view_max :: 'd

text \<open>The statics of the function; the two limits are initialised when the first frame with data reaches them.\<close>

definition PricePage_init :: "'d :: floor_ceiling \<Rightarrow> 'd \<Rightarrow> 'd PricePage" where
  "PricePage_init now bucket_s = \<lparr> pp_tf_idx = 1, pp_show_candles = True, pp_show_quotes = False, pp_follow_live = True, pp_selected_asset = 0,
     pp_hover_x_prev = None, pp_view_min = now - bucket_s * of_nat kVisibleCandles, pp_view_max = now \<rparr>"

record toolbar_clicks =
  clk_asset :: "u16 \<Rightarrow> bool"
  clk_timeframe :: "nat \<Rightarrow> bool"
  clk_candles :: bool
  clk_line :: bool
  clk_quotes :: bool
  clk_live :: bool

definition map_keys :: "('k :: linorder \<rightharpoonup> 'v) \<Rightarrow> 'k list" where
  "map_keys m = sorted_list_of_set (dom m)"

definition select_asset :: "'d AppState \<Rightarrow> 'd PricePage \<Rightarrow> 'd PricePage" where
  "select_asset st pg =
     (if app_market_history st (pp_selected_asset pg) = None
      then pg \<lparr> pp_selected_asset := hd (map_keys (app_market_history st)) \<rparr> else pg)"

definition toolbar :: "toolbar_clicks \<Rightarrow> 'd AppState \<Rightarrow> 'd PricePage \<Rightarrow> 'd PricePage" where
  "toolbar c st pg =
     (let pg = fold (\<lambda>asset_id pg. if clk_asset c asset_id then pg \<lparr> pp_selected_asset := asset_id \<rparr> else pg)
                 (map_keys (app_market_history st)) pg;
          pg = fold (\<lambda>i pg. if clk_timeframe c i then pg \<lparr> pp_tf_idx := i \<rparr> else pg) [0..<5] pg;
          pg = (if clk_candles c then pg \<lparr> pp_show_candles := True \<rparr> else pg);
          pg = (if clk_line c then pg \<lparr> pp_show_candles := False \<rparr> else pg);
          pg = (if clk_quotes c then pg \<lparr> pp_show_quotes := \<not> pp_show_quotes pg \<rparr> else pg) in
      if clk_live c then pg \<lparr> pp_follow_live := True \<rparr> else pg)"

section \<open>Statistics strip\<close>

datatype tick = TickUp | TickDown | TickSame

definition tick_of :: "i64 \<Rightarrow> i64 \<Rightarrow> tick" where
  "tick_of new old = (if new > old then TickUp else if new < old then TickDown else TickSame)"

definition change_percent :: "'d double_ops \<Rightarrow> 'd TradePrint list \<Rightarrow> 'd :: floor_ceiling" where
  "change_percent dbl trades =
     (let first = tp_price (hd trades); change = wrap64 (tp_price (last trades) - first) in
      if first \<noteq> 0 then 100 * dbl_of dbl change / dbl_of dbl first else 0)"

section \<open>Series\<close>

record 'd candle_series =
  csr_xs :: "'d list"
  csr_highs :: "'d list"
  csr_lows :: "'d list"
  csr_closes :: "'d list"
  csr_up :: "('d \<times> 'd) list"
  csr_down :: "('d \<times> 'd) list"
  csr_line :: "('d \<times> 'd) list"

definition candle_x :: "'d :: floor_ceiling \<Rightarrow> 'd Candle \<Rightarrow> 'd" where
  "candle_x bucket_s c = cd_start c + bucket_s / 2"

definition candle_series_of :: "'d :: floor_ceiling \<Rightarrow> 'd \<Rightarrow> 'd Candle list \<Rightarrow> 'd candle_series" where
  "candle_series_of bucket_s now candles =
     (let bar = (\<lambda>c. (candle_x bucket_s c, cd_volume c)); up = (\<lambda>c. cd_close c \<ge> cd_open c);
          xs = map (candle_x bucket_s) candles; closes = map cd_close candles in
      \<lparr> csr_xs = xs, csr_highs = map cd_high candles, csr_lows = map cd_low candles, csr_closes = closes,
        csr_up = map bar (filter up candles), csr_down = map bar (filter (\<lambda>c. \<not> up c) candles),
        csr_line = zip xs closes @ (if candles \<noteq> [] then [(max now (last xs), last closes)] else []) \<rparr>)"

text \<open>The quotes of the visible stretch, from the one in force at its left edge; \<open>std::upper_bound\<close> is taken on samples in
  the order of their times.\<close>

definition visible_quotes :: "'d \<Rightarrow> 'd \<Rightarrow> ('d :: linorder) QuoteSample list \<Rightarrow> 'd QuoteSample list" where
  "visible_quotes view_min view_max quotes =
     (let first = length (takeWhile (\<lambda>q. \<not> view_min < qs_time q) quotes) in
      takeWhile (\<lambda>q. \<not> qs_time q > view_max) (drop (if first \<noteq> 0 then first - 1 else first) quotes))"

definition quote_value :: "'d double_ops \<Rightarrow> i64 \<Rightarrow> 'd option" where
  "quote_value dbl v = (if v \<noteq> 0 then Some (dbl_of dbl v) else None)"

definition quote_point :: "'d double_ops \<Rightarrow> 'd QuoteSample \<Rightarrow> 'd \<times> 'd option \<times> 'd option" where
  "quote_point dbl q = (qs_time q, quote_value dbl (qs_bid q), quote_value dbl (qs_ask q))"

definition quote_series ::
  "'d double_ops \<Rightarrow> bool \<Rightarrow> 'd \<Rightarrow> 'd \<Rightarrow> 'd \<Rightarrow> ('d :: floor_ceiling) QuoteSample list \<Rightarrow> ('d \<times> 'd option \<times> 'd option) list" where
  "quote_series dbl draw_quotes view_min view_max now quotes =
     (if \<not> draw_quotes \<or> quotes = [] then []
      else let pts = map (quote_point dbl) (visible_quotes view_min view_max quotes) in
        if pts = [] then [] else pts @ [(max now (fst (last pts)), snd (last pts))])"

section \<open>Chart\<close>

definition live_window :: "'d :: floor_ceiling \<Rightarrow> 'd \<Rightarrow> 'd AssetMarketHistory \<Rightarrow> 'd \<times> 'd" where
  "live_window bucket_s now hist =
     (let first_time = now;
          first_time = (if amh_trades hist \<noteq> [] then min first_time (tp_time (hd (amh_trades hist))) else first_time);
          first_time = (if amh_quotes hist \<noteq> [] then min first_time (qs_time (hd (amh_quotes hist))) else first_time);
          live_max = now + bucket_s * 2 in
      (min (live_max - bucket_s * 20) (max (live_max - bucket_s * of_nat kVisibleCandles) (first_time - bucket_s * 2)), live_max))"

text \<open>What an x axis is set up with: the limits, and whether they are imposed (\<open>ImPlotCond_Always\<close>) or only proposed once.\<close>

definition setup_x :: "bool \<Rightarrow> 'd :: floor_ceiling \<Rightarrow> 'd \<Rightarrow> 'd AssetMarketHistory \<Rightarrow> 'd \<times> 'd \<times> bool" where
  "setup_x follow_live bucket_s now hist =
     (if follow_live then (case live_window bucket_s now hist of (live_min, live_max) \<Rightarrow> (live_min, live_max, True))
      else (now - bucket_s * of_nat kVisibleCandles, now, False))"

record 'd pane =
  pn_hovered :: bool
  pn_mouse_x :: 'd
  pn_dragging :: bool
  pn_wheel :: bool

definition detach_on_interaction :: "'d pane \<Rightarrow> 'd option \<times> bool \<Rightarrow> 'd option \<times> bool" where
  "detach_on_interaction p = (\<lambda>(hover_x, follow_live).
     if \<not> pn_hovered p then (hover_x, follow_live)
     else (Some (pn_mouse_x p), if pn_dragging p \<or> pn_wheel p then False else follow_live))"

text \<open>The price pane with the limits the plot then has, and the volume pane below it; the result has what the two axes are set up
  with and where the mouse is.\<close>

definition draw_panes ::
  "'d :: floor_ceiling \<Rightarrow> 'd \<Rightarrow> 'd AssetMarketHistory \<Rightarrow> 'd pane \<Rightarrow> 'd \<times> 'd \<Rightarrow> 'd pane \<Rightarrow> 'd PricePage \<Rightarrow>
   ('d \<times> 'd \<times> bool) \<times> ('d \<times> 'd \<times> bool) \<times> 'd option \<times> 'd PricePage" where
  "draw_panes bucket_s now hist price limits volume pg =
     (let price_axis = setup_x (pp_follow_live pg) bucket_s now hist;
          (hover_x, follow) = detach_on_interaction price (None, pp_follow_live pg);
          pg = pg \<lparr> pp_view_min := fst limits, pp_view_max := snd limits \<rparr>;
          volume_axis = setup_x follow bucket_s now hist;
          (hover_x, follow) = detach_on_interaction volume (hover_x, follow) in
      (price_axis, volume_axis, hover_x, pg \<lparr> pp_follow_live := follow, pp_hover_x_prev := hover_x \<rparr>))"

text \<open>The candles whose bodies and wicks are drawn.\<close>

definition drawn_candles :: "'d :: floor_ceiling \<Rightarrow> 'd \<times> 'd \<Rightarrow> 'd Candle list \<Rightarrow> 'd Candle list" where
  "drawn_candles bucket_s limits candles =
     filter (\<lambda>c. \<not> (candle_x bucket_s c < fst limits - bucket_s \<or> candle_x bucket_s c > snd limits + bucket_s)) candles"

section \<open>Tooltip and tape\<close>

definition candle_at :: "'d :: floor_ceiling \<Rightarrow> 'd Candle list \<Rightarrow> 'd \<Rightarrow> 'd Candle option" where
  "candle_at bucket_s candles hover_x =
     (let before = takeWhile (\<lambda>c. \<not> hover_x < cd_start c) candles in
      if before \<noteq> [] \<and> hover_x < cd_start (last before) + bucket_s then Some (last before) else None)"

record 'd tooltip =
  tip_time :: 'd
  tip_candle :: "'d Candle option"
  tip_quote :: "(i64 option \<times> i64 option) option"

definition tooltip_at :: "'d double_ops \<Rightarrow> 'd :: floor_ceiling \<Rightarrow> 'd Candle list \<Rightarrow> 'd QuoteSample list \<Rightarrow> 'd \<Rightarrow> 'd tooltip" where
  "tooltip_at dbl bucket_s candles quotes hover_x =
   \<lparr> tip_time = dbl_bucket dbl hover_x bucket_s, tip_candle = candle_at bucket_s candles hover_x,
     tip_quote = (case quote_at quotes hover_x of
        None \<Rightarrow> None
      | Some q \<Rightarrow> if qs_bid q \<noteq> 0 \<or> qs_ask q \<noteq> 0
          then Some (if qs_bid q \<noteq> 0 then Some (qs_bid q) else None, if qs_ask q \<noteq> 0 then Some (qs_ask q) else None) else None) \<rparr>"

definition tape_row :: "'d TradePrint list \<Rightarrow> nat \<Rightarrow> 'd TradePrint \<times> tick option" where
  "tape_row trades row =
     (let idx = length trades - 1 - row; t = trades ! idx in
      (t, if idx > 0 then Some (tick_of (tp_price t) (tp_price (trades ! (idx - 1)))) else None))"

definition tape :: "'d TradePrint list \<Rightarrow> ('d TradePrint \<times> tick option) list" where
  "tape trades = map (tape_row trades) [0..<min (length trades) 2000]"

text \<open>\<open>localtime_r\<close> depends on the time zone of the machine: hours, minutes and seconds are an argument.\<close>

definition zero_padded :: "nat \<Rightarrow> nat \<Rightarrow> string" where
  "zero_padded w n = (let s = to_string n in replicate (w - length s) (CHR ''0'') @ s)"

definition format_clock_time :: "(int \<Rightarrow> nat \<times> nat \<times> nat) \<Rightarrow> 'd :: floor_ceiling \<Rightarrow> bool \<Rightarrow> string" where
  "format_clock_time localtime_r epoch_s with_ms =
     (case localtime_r (if epoch_s \<ge> 0 then \<lfloor>epoch_s\<rfloor> else \<lceil>epoch_s\<rceil>) of (h, m, s) \<Rightarrow>
        take 31 (zero_padded 2 h @ '':'' @ zero_padded 2 m @ '':'' @ zero_padded 2 s @
          (if with_ms then ''.'' @ zero_padded 3 (nat \<lfloor>(epoch_s - of_int \<lfloor>epoch_s\<rfloor>) * 1000\<rfloor>) else [])))"

section \<open>The page\<close>

record 'd price_view =
  pv_stats :: "SessionStats option"
  pv_quote :: "i64 \<times> i64 \<times> i64 option"
  pv_candles :: "'d Candle list"
  pv_series :: "'d candle_series"
  pv_quotes :: "('d \<times> 'd option \<times> 'd option) list"
  pv_axes :: "('d \<times> 'd \<times> bool) \<times> ('d \<times> 'd \<times> bool)"
  pv_tooltip :: "'d tooltip option"
  pv_tape :: "('d TradePrint \<times> tick option) list"

text \<open>One frame of the page; without any history only the counters of the feeds are shown.\<close>

definition price_history_panel ::
  "'d double_ops \<Rightarrow> toolbar_clicks \<Rightarrow> 'd :: floor_ceiling \<Rightarrow> 'd pane \<Rightarrow> 'd \<times> 'd \<Rightarrow> 'd pane \<Rightarrow> 'd AppState \<Rightarrow> 'd PricePage \<Rightarrow>
   (u64 \<times> u64 \<times> u64) \<times> 'd price_view option \<times> 'd PricePage" where
  "price_history_panel dbl c now price limits volume st pg =
     (let counters = (app_book_updates_received st, app_order_reports_received st, app_trades_decoded st) in
      if app_market_history st = Map.empty then (counters, None, pg)
      else let pg = toolbar c st (select_asset st pg); hist = history_of (pp_selected_asset pg) st;
               bucket_s = snd (kTimeframes ! pp_tf_idx pg); candles = build_candles dbl bucket_s hist;
               quotes = quote_series dbl (pp_show_quotes pg \<or> amh_trades hist = []) (pp_view_min pg) (pp_view_max pg) now (amh_quotes hist) in
           case draw_panes bucket_s now hist price limits volume pg of (price_axis, volume_axis, hover_x, pg) \<Rightarrow>
             (counters, Some \<lparr> pv_stats = session_stats (amh_trades hist), pv_quote = quote_strip (pp_selected_asset pg) st,
                pv_candles = candles, pv_series = candle_series_of bucket_s now candles, pv_quotes = quotes,
                pv_axes = (price_axis, volume_axis), pv_tooltip = map_option (tooltip_at dbl bucket_s candles (amh_quotes hist)) hover_x,
                pv_tape = tape (amh_trades hist) \<rparr>, pg))"


section \<open>Candles and buckets\<close>

text \<open>What the candles rely on: the buckets of length \<open>b\<close> are disjoint intervals that cover the time axis, and every time in the interval of a
  bucket has the start of that bucket.\<close>

definition bucket_law :: "'d double_ops \<Rightarrow> 'd :: floor_ceiling \<Rightarrow> bool" where
  "bucket_law dbl b \<longleftrightarrow> dbl_of dbl 0 = 0 \<and> (\<forall>t. dbl_bucket dbl t b \<le> t \<and> t < dbl_bucket dbl t b + b) \<and>
     (\<forall>t x. dbl_bucket dbl t b \<le> x \<longrightarrow> x < dbl_bucket dbl t b + b \<longrightarrow> dbl_bucket dbl x b = dbl_bucket dbl t b)"

lemma bucket_lawD:
  assumes "bucket_law dbl b"
  shows "0 < b" "\<not> b \<le> dbl_of dbl 0" "dbl_bucket dbl t b \<le> t" "t < dbl_bucket dbl t b + b"
    "dbl_bucket dbl t b \<le> x \<Longrightarrow> x < dbl_bucket dbl t b + b \<Longrightarrow> dbl_bucket dbl x b = dbl_bucket dbl t b"
    "dbl_bucket dbl (dbl_bucket dbl t b) b = dbl_bucket dbl t b"
proof -
  show t: "dbl_bucket dbl t b \<le> t" "t < dbl_bucket dbl t b + b" for t using assms unfolding bucket_law_def by blast+
  show b: "0 < b" using order_le_less_trans[OF t] by (simp add: less_add_same_cancel1)
  then show "\<not> b \<le> dbl_of dbl 0" using assms unfolding bucket_law_def by (metis not_less)
  show in_b: "dbl_bucket dbl x b = dbl_bucket dbl t b" if "dbl_bucket dbl t b \<le> x" "x < dbl_bucket dbl t b + b" for t x
    using assms that unfolding bucket_law_def by blast
  show "dbl_bucket dbl (dbl_bucket dbl t b) b = dbl_bucket dbl t b" by (rule in_b) (use b in simp_all)
qed

lemma floor_bucket_law:
  fixes b :: "'d :: floor_ceiling"
  assumes "0 < b" "dbl_of dbl 0 = 0" "\<And>t. dbl_bucket dbl t b = of_int \<lfloor>t / b\<rfloor> * b"
  shows "bucket_law dbl b"
proof -
  have low: "of_int \<lfloor>t / b\<rfloor> * b \<le> t" for t using of_int_floor_le[of "t / b"] unfolding pos_le_divide_eq[OF assms(1)] .
  have high: "t < of_int \<lfloor>t / b\<rfloor> * b + b" for t
  proof -
    have "t / b < of_int \<lfloor>t / b\<rfloor> + 1" by linarith
    then have "t < (of_int \<lfloor>t / b\<rfloor> + 1) * b" using assms(1) by (simp only: pos_divide_less_eq)
    then show ?thesis by (simp add: algebra_simps)
  qed
  have "of_int \<lfloor>x / b\<rfloor> * b = of_int n * b" if "of_int n * b \<le> x" "x < of_int n * b + b" for x n
  proof -
    have "x < (of_int n + 1) * b" using that(2) by (simp add: algebra_simps)
    then have "of_int n \<le> x / b" "x / b < of_int n + 1" using that(1) assms(1) by (simp_all only: pos_le_divide_eq pos_divide_less_eq)
    then have "\<lfloor>x / b\<rfloor> = n" by (intro floor_unique)
    then show ?thesis by simp
  qed
  then show ?thesis unfolding bucket_law_def assms(2,3) using low high by simp
qed

text \<open>For keys in ascending order the runs are the elements with equal keys.\<close>

lemma takeWhile_eq_filter_sorted:
  assumes "sorted (map key xs)" "\<forall>x \<in> set xs. k \<le> key x"
  shows "takeWhile (\<lambda>x. key x = (k :: 'k :: linorder)) xs = filter (\<lambda>x. key x = k) xs"
  using assms
proof (induction xs)
  case (Cons x xs)
  show ?case
  proof (cases "key x = k")
    case False
    then have "\<forall>y \<in> set xs. k < key y" using Cons.prems by force
    then have "filter (\<lambda>x. key x = k) xs = []" by (auto simp: filter_empty_conv)
    then show ?thesis using False by simp
  qed (use Cons in auto)
qed simp

lemma dropWhile_eq_filter_sorted:
  assumes "sorted (map key xs)" "\<forall>x \<in> set xs. k \<le> key x"
  shows "dropWhile (\<lambda>x. key x = (k :: 'k :: linorder)) xs = filter (\<lambda>x. k < key x) xs"
  using assms
proof (induction xs)
  case (Cons x xs)
  show ?case
  proof (cases "key x = k")
    case False
    then have "\<forall>y \<in> set (x # xs). k < key y" using Cons.prems by force
    then have "filter (\<lambda>y. k < key y) (x # xs) = x # xs" by (simp only: filter_id_conv)
    then show ?thesis using False by simp
  qed (use Cons in auto)
qed simp

lemma last_run_before:
  fixes key :: "'a \<Rightarrow> 'k :: linorder" and k :: 'k
  assumes "sorted (map key xs)"
  defines "before \<equiv> takeWhile (\<lambda>r. key (hd r) \<le> k) (runs key xs)"
  shows "(filter (\<lambda>x. key x = k) xs \<noteq> [] \<longrightarrow> before \<noteq> [] \<and> last before = filter (\<lambda>x. key x = k) xs) \<and>
    (filter (\<lambda>x. key x = k) xs = [] \<longrightarrow> before \<noteq> [] \<longrightarrow> key (hd (last before)) < k)"
  using assms(1) unfolding before_def
proof (induction key xs rule: runs.induct)
  case (2 key x xs)
  let ?run = "x # takeWhile (\<lambda>y. key y = key x) xs" and ?rest = "dropWhile (\<lambda>y. key y = key x) xs"
  have s: "sorted (map key xs)" "\<forall>y \<in> set xs. key x \<le> key y" using 2(2) by auto
  have eq: "?run = filter (\<lambda>y. key y = key x) (x # xs)" "?rest = filter (\<lambda>y. key x < key y) xs"
    using takeWhile_eq_filter_sorted[OF s] dropWhile_eq_filter_sorted[OF s] by simp_all
  have rest: "sorted (map key ?rest)" using s(1) by (simp add: eq(2) sorted_filter)
  consider "k < key x" | "k = key x" | "key x < k" by fastforce
  then show ?case
  proof cases
    case 1
    then have "filter (\<lambda>y. key y = k) (x # xs) = []" using s(2) by (auto simp: filter_empty_conv)
    moreover have "takeWhile (\<lambda>r. key (hd r) \<le> k) (runs key (x # xs)) = []" using 1 by (simp add: not_le)
    ultimately show ?thesis by (simp only: simp_thms)
  next
    case 2
    have "takeWhile (\<lambda>r. key (hd r) \<le> k) (runs key ?rest) = []"
    proof (cases "?rest")
      case (Cons y ys)
      then have "y \<in> set ?rest" by simp
      then have "key x < key y" unfolding eq(2) by simp
      then show ?thesis using 2 Cons by (simp add: not_le)
    qed (simp only: runs.simps takeWhile.simps)
    then show ?thesis using 2 eq(1) by simp
  next
    case 3
    then have f: "filter (\<lambda>y. key y = k) (x # xs) = filter (\<lambda>y. key y = k) ?rest" by (auto simp: eq(2) intro: filter_cong)
    show ?thesis using 2(1)[OF rest] 3 unfolding f by auto
  qed
qed simp


text \<open>The candle shown for a time is that of the trades of its bucket.\<close>

lemma bucket_mono:
  assumes "bucket_law dbl b" "t \<le> u" shows "dbl_bucket dbl t b \<le> dbl_bucket dbl u b"
proof (rule ccontr)
  note law = bucket_lawD[OF assms(1)]
  assume "\<not> dbl_bucket dbl t b \<le> dbl_bucket dbl u b"
  moreover have "dbl_bucket dbl t b < dbl_bucket dbl u b + b" using law(3)[of t] law(4)[of u] assms(2) by simp
  ultimately show False using law(5)[of u "dbl_bucket dbl t b"] law(6)[of t] by simp
qed

lemma bucket_le_iff:
  assumes "bucket_law dbl b" shows "dbl_bucket dbl t b \<le> x \<longleftrightarrow> dbl_bucket dbl t b \<le> dbl_bucket dbl x b"
  using bucket_mono[OF assms, of "dbl_bucket dbl t b" x] bucket_lawD(3)[OF assms, of x] bucket_lawD(6)[OF assms, of t] by (auto intro: order_trans)

lemma bucket_before:
  assumes "bucket_law dbl b" "dbl_bucket dbl t b < dbl_bucket dbl x b" shows "\<not> x < dbl_bucket dbl t b + b"
  using bucket_lawD(5)[OF assms(1), of t x] bucket_lawD(3)[OF assms(1), of x] assms(2) by auto

lemma candle_at_bucket:
  assumes "bucket_law dbl b" "sorted (map tp_time (amh_trades h))"
  shows "candle_at b (build_candles dbl b h) x =
    (let ts = filter (\<lambda>t. dbl_bucket dbl (tp_time t) b = dbl_bucket dbl x b) (amh_trades h) in if ts = [] then None else Some (run_candle dbl b ts))"
proof -
  let ?key = "bucket_of dbl b" and ?k = "dbl_bucket dbl x b" and ?ts = "amh_trades h"
  define before where "before = takeWhile (\<lambda>r. ?key (hd r) \<le> ?k) (runs ?key ?ts)"
  have start: "cd_start (run_candle dbl b r) = ?key (hd r)" for r by (simp add: run_candle_def)
  have not_after: "\<not> x < ?key t \<longleftrightarrow> ?key t \<le> ?k" for t
    using bucket_le_iff[OF assms(1), of "tp_time t" x] by (simp add: not_less)
  have shown: "takeWhile (\<lambda>c. \<not> x < cd_start c) (build_candles dbl b h) = map (run_candle dbl b) before"
    unfolding before_def build_candles_runs[OF bucket_lawD(2)[OF assms(1)]] takeWhile_map comp_def start not_after ..
  have "sorted (map ?key ?ts)"
    using assms(2) by (auto simp: sorted_iff_nth_mono intro: bucket_mono[OF assms(1)])
  note run = last_run_before[OF this, where k = ?k, folded before_def]
  show ?thesis
  proof (cases "filter (\<lambda>t. ?key t = ?k) ?ts = []")
    case True
    then have "before \<noteq> [] \<longrightarrow> ?key (hd (last before)) < ?k" using run by blast
    then have "before \<noteq> [] \<longrightarrow> \<not> x < ?key (hd (last before)) + b"
      using bucket_before[OF assms(1), of "tp_time (hd (last before))" x] by simp
    then show ?thesis using True unfolding candle_at_def shown Let_def
      by (auto simp: last_map start)
  next
    case False
    then have l: "before \<noteq> []" "last before = filter (\<lambda>t. ?key t = ?k) ?ts" using run by blast+
    have "hd (last before) \<in> set (filter (\<lambda>t. ?key t = ?k) ?ts)" using l False by (metis hd_in_set)
    then have "?key (hd (last before)) = ?k" by simp
    then have "x < ?key (hd (last before)) + b" using bucket_lawD(4)[OF assms(1), of x] by (simp only:)
    then show ?thesis using l False unfolding candle_at_def shown Let_def
      by (simp add: last_map start)
  qed
qed


section \<open>Quotes on the chart\<close>

text \<open>The value of a step line at a time: that of the last point at or before it.\<close>

definition step_at :: "('d :: linorder \<times> 'v) list \<Rightarrow> 'd \<Rightarrow> 'v option" where
  "step_at pts t = (let before = takeWhile (\<lambda>p. fst p \<le> t) pts in if before = [] then None else Some (snd (last before)))"

lemma step_at_same_tail:
  assumes "pts \<noteq> []" "x \<ge> fst (last pts)" shows "step_at (pts @ [(x, snd (last pts))]) t = step_at pts t"
proof (cases "\<forall>p \<in> set pts. fst p \<le> t")
  case True
  then have w: "takeWhile (\<lambda>p. fst p \<le> t) pts = pts" by simp
  show ?thesis unfolding step_at_def using True assms(1) by (simp add: takeWhile_append2 w Let_def)
next
  case False
  then show ?thesis unfolding step_at_def by (auto simp: takeWhile_append1)
qed

lemma step_at_quote_points:
  "step_at (map (quote_point dbl) qs) t = map_option (\<lambda>q. snd (quote_point dbl q)) (quote_at qs t)"
proof -
  have "takeWhile (\<lambda>p. fst p \<le> t) (map (quote_point dbl) qs) = map (quote_point dbl) (takeWhile (\<lambda>q. \<not> t < qs_time q) qs)"
    by (simp add: takeWhile_map comp_def quote_point_def not_less)
  then show ?thesis by (simp add: step_at_def quote_at_def Let_def last_map)
qed

lemma takeWhile_sorted_drop:
  assumes "sorted (map f xs)" "n < length xs" "f (xs ! n) \<le> t" "takeWhile (\<lambda>x. f x \<le> (t :: 'd :: linorder)) xs \<noteq> []"
  shows "takeWhile (\<lambda>x. f x \<le> t) (drop n xs) \<noteq> [] \<and> last (takeWhile (\<lambda>x. f x \<le> t) (drop n xs)) = last (takeWhile (\<lambda>x. f x \<le> t) xs)"
proof -
  have "\<forall>x \<in> set (take n xs). f x \<le> t"
  proof
    fix x assume "x \<in> set (take n xs)"
    then obtain i where "i < n" "x = xs ! i" by (auto simp: in_set_conv_nth)
    then have "f x \<le> f (xs ! n)" using assms(1,2) sorted_nth_mono[of "map f xs" i n] by simp
    then show "f x \<le> t" using assms(3) by simp
  qed
  then have "takeWhile (\<lambda>x. f x \<le> t) (take n xs @ drop n xs) = take n xs @ takeWhile (\<lambda>x. f x \<le> t) (drop n xs)"
    by (intro takeWhile_append2) blast
  then have "takeWhile (\<lambda>x. f x \<le> t) xs = take n xs @ takeWhile (\<lambda>x. f x \<le> t) (drop n xs)" by simp
  moreover have "takeWhile (\<lambda>x. f x \<le> t) (drop n xs) \<noteq> []" using assms(2,3) by (simp add: Cons_nth_drop_Suc[symmetric])
  ultimately show ?thesis by simp
qed

lemma takeWhile_takeWhile_le:
  assumes "t \<le> (m :: 'd :: linorder)"
  shows "takeWhile (\<lambda>x. f x \<le> t) (takeWhile (\<lambda>x. f x \<le> m) xs) = takeWhile (\<lambda>x. f x \<le> t) xs"
  using assms by (induction xs) auto

lemma visible_quote_at:
  fixes view_min :: "'d :: floor_ceiling"
  assumes "sorted (map qs_time quotes)" "view_min \<le> view_max"
  shows "quote_at (visible_quotes view_min view_max quotes) t = quote_at quotes (min t view_max) \<or>
    t < view_min \<and> quote_at (visible_quotes view_min view_max quotes) t = None"
proof -
  let ?W = "\<lambda>t. takeWhile (\<lambda>q. qs_time q \<le> t)" and ?n = "length (takeWhile (\<lambda>q. qs_time q \<le> view_min) quotes)"
  let ?k = "if ?n \<noteq> 0 then ?n - 1 else ?n" and ?t = "min t view_max"
  have v: "visible_quotes view_min view_max quotes = ?W view_max (drop ?k quotes)" by (simp add: visible_quotes_def not_less Let_def)
  have w: "?W t (visible_quotes view_min view_max quotes) = ?W ?t (drop ?k quotes)"
  proof (cases "t \<le> view_max")
    case True
    then show ?thesis unfolding v using takeWhile_takeWhile_le[OF True, of qs_time "drop ?k quotes"] by simp
  next
    case False
    then have "\<forall>q \<in> set (?W view_max (drop ?k quotes)). qs_time q \<le> t" by (auto dest!: set_takeWhileD)
    then show ?thesis unfolding v using False by simp
  qed
  show ?thesis
  proof (cases "?n = 0")
    case False
    have lt: "?k < length quotes" using False length_takeWhile_le[of "\<lambda>q. qs_time q \<le> view_min" quotes]
      by (cases "?W view_min quotes") auto
    have "?W view_min quotes ! ?k = quotes ! ?k" by (rule takeWhile_nth) (use False in simp)
    moreover have "?W view_min quotes ! ?k \<in> set (?W view_min quotes)" by (rule nth_mem) (use False in simp)
    ultimately have left: "qs_time (quotes ! ?k) \<le> view_min" using set_takeWhileD by fastforce
    show ?thesis
    proof (cases "qs_time (quotes ! ?k) \<le> ?t")
      case le: True
      have "\<forall>q \<in> set quotes. qs_time (hd quotes) \<le> qs_time q" using assms(1) by (cases quotes) auto
      then have "qs_time (hd quotes) \<le> qs_time (quotes ! ?k)" using nth_mem[OF lt] by blast
      then have ne: "?W ?t quotes \<noteq> []" using le lt by (cases quotes) auto
      show ?thesis using takeWhile_sorted_drop[OF assms(1) lt le ne] ne unfolding quote_at_def not_less w by (simp add: Let_def)
    next
      case gt: False
      then have "?W ?t (drop ?k quotes) = []" using lt by (simp add: Cons_nth_drop_Suc[symmetric])
      moreover have "t < view_min" using gt left assms(2) by (auto simp: min_def split: if_splits)
      ultimately show ?thesis unfolding quote_at_def not_less w by simp
    qed
  qed (simp add: quote_at_def not_less w)
qed


section \<open>Bars, window and tape\<close>

lemma bars_of_candles:
  "mset (csr_up (candle_series_of b now cs) @ csr_down (candle_series_of b now cs)) = mset (map (\<lambda>c. (candle_x b c, cd_volume c)) cs)"
  by (induction cs) (simp_all add: candle_series_of_def Let_def)

lemma tape_newest_first: "map fst (tape trades) = take 2000 (rev trades)"
  by (rule nth_equalityI) (auto simp: tape_def tape_row_def Let_def rev_nth)

lemma live_window_bounds:
  fixes b :: "'d :: floor_ceiling"
  assumes "0 < b" "live_window b now h = (lo, hi)"
  shows "hi = now + 2 * b" "20 * b \<le> hi - lo" "hi - lo \<le> 90 * b"
  using assms by (auto simp: live_window_def kVisibleCandles_def Let_def mult.commute min_def max_def split: if_splits)


section \<open>Properties\<close>

lemma toolbar_keeps:
  "pp_view_min (toolbar c st pg) = pp_view_min pg" "pp_view_max (toolbar c st pg) = pp_view_max pg"
  "pp_tf_idx pg < 5 \<Longrightarrow> pp_tf_idx (toolbar c st pg) < 5"
proof -
  let ?a = "\<lambda>asset_id pg. if clk_asset c asset_id then pg \<lparr> pp_selected_asset := asset_id \<rparr> else pg"
  let ?t = "\<lambda>i pg. if clk_timeframe c i then pg \<lparr> pp_tf_idx := i \<rparr> else pg"
  have a: "pp_view_min (fold ?a as p) = pp_view_min p \<and> pp_view_max (fold ?a as p) = pp_view_max p \<and> pp_tf_idx (fold ?a as p) = pp_tf_idx p"
    for as and p :: "'a PricePage" by (induction as arbitrary: p) simp_all
  have t: "pp_view_min (fold ?t is p) = pp_view_min p \<and> pp_view_max (fold ?t is p) = pp_view_max p \<and>
    (pp_tf_idx p < n \<longrightarrow> list_all (\<lambda>i. i < n) is \<longrightarrow> pp_tf_idx (fold ?t is p) < n)" for "is" n and p :: "'a PricePage"
    by (induction "is" arbitrary: p) simp_all
  have five: "list_all (\<lambda>i. i < 5) [0..<5]" by (simp add: list_all_iff)
  show "pp_view_min (toolbar c st pg) = pp_view_min pg" "pp_view_max (toolbar c st pg) = pp_view_max pg"
    "pp_tf_idx pg < 5 \<Longrightarrow> pp_tf_idx (toolbar c st pg) < 5"
    using a t[of "[0..<5]"] t[of "[0..<5]" _ 5] five by (simp_all add: toolbar_def Let_def)
qed

lemma draw_panes_keeps:
  assumes "draw_panes b now h price limits volume pg = (axis, axis', hover, pg')"
  shows "pp_tf_idx pg' = pp_tf_idx pg" "pp_selected_asset pg' = pp_selected_asset pg" "pp_show_quotes pg' = pp_show_quotes pg"
    "pp_view_min pg' = fst limits" "pp_view_max pg' = snd limits" "pp_hover_x_prev pg' = hover"
  using assms by (auto simp: draw_panes_def Let_def split: prod.splits)

lemma quote_series_at:
  fixes view_min :: "'d :: floor_ceiling"
  assumes "sorted (map qs_time quotes)" "view_min \<le> view_max"
  shows "step_at (quote_series dbl True view_min view_max now quotes) t = map_option (\<lambda>q. snd (quote_point dbl q)) (quote_at quotes (min t view_max)) \<or>
    t < view_min \<and> step_at (quote_series dbl True view_min view_max now quotes) t = None"
proof -
  let ?pts = "map (quote_point dbl) (visible_quotes view_min view_max quotes)"
  have "step_at (quote_series dbl True view_min view_max now quotes) t = step_at ?pts t"
  proof (cases "?pts = []")
    case True
    then show ?thesis by (simp add: quote_series_def)
  next
    case False
    then have "quotes \<noteq> []" by (auto simp: visible_quotes_def)
    then show ?thesis using step_at_same_tail[OF False, of "max now (fst (last ?pts))" t] False
      by (simp add: quote_series_def Let_def)
  qed
  then show ?thesis unfolding step_at_quote_points using visible_quote_at[OF assms, of t] by auto
qed

text \<open>C35. The price history page shows the history it is given, when trades and quotes are in the order of their times.  The
  candle of the tooltip is that of exactly the trades in the time bucket under the mouse (none when there are none).  There is one volume bar for
  every bucket with trades, at its middle and with the volume of its trades.  The step lines, of which only the stretch
  visible in the frame before is drawn, have at every time up to the right edge of that stretch the quote that was in force then, and
  behind it that of the edge; left of the stretch they may have nothing.  So a frame that shows more than the one before it, after a pan
  or a change of the timeframe, lacks quotes or shows an old one there until the next.  The tape has the latest trades, newest first.
  The conversion of prices to \<open>double\<close> is arbitrary; the start of a bucket obeys \<open>bucket_law\<close>.\<close>

theorem price_page_shows_history:
  fixes now :: "'d :: floor_ceiling"
  assumes "price_history_panel dbl c now price limits volume st pg = (counters, Some v, pg')" "pp_view_min pg \<le> pp_view_max pg"
    and "h = history_of (pp_selected_asset pg') st" "b = snd (kTimeframes ! pp_tf_idx pg')" "bucket_law dbl b"
    and "sorted (map tp_time (amh_trades h))" "sorted (map qs_time (amh_quotes h))"
  shows "(\<forall>tip. pv_tooltip v = Some tip \<longrightarrow> (\<exists>x. pp_hover_x_prev pg' = Some x \<and>
      tip_candle tip = (let ts = filter (\<lambda>t. dbl_bucket dbl (tp_time t) b = dbl_bucket dbl x b) (amh_trades h) in
        if ts = [] then None else Some (run_candle dbl b ts)))) \<and>
    (pp_show_quotes pg' \<or> amh_trades h = [] \<longrightarrow> (\<forall>t.
      step_at (pv_quotes v) t = map_option (\<lambda>q. (quote_value dbl (qs_bid q), quote_value dbl (qs_ask q))) (quote_at (amh_quotes h) (min t (pp_view_max pg))) \<or>
      t < pp_view_min pg \<and> step_at (pv_quotes v) t = None)) \<and>
    mset (csr_up (pv_series v) @ csr_down (pv_series v)) =
      mset (map (\<lambda>ts. (dbl_bucket dbl (tp_time (hd ts)) b + b / 2, cd_volume (run_candle dbl b ts))) (runs (bucket_of dbl b) (amh_trades h))) \<and>
    map fst (pv_tape v) = take 2000 (rev (amh_trades h))"
proof -
  define pg1 where "pg1 = toolbar c st (select_asset st pg)"
  obtain axis axis' hover pg2 where
    d: "draw_panes (snd (kTimeframes ! pp_tf_idx pg1)) now (history_of (pp_selected_asset pg1) st) price limits volume pg1 = (axis, axis', hover, pg2)"
    by (metis prod_cases4)
  note keeps = draw_panes_keeps[OF d]
  have "app_market_history st \<noteq> Map.empty" using assms(1) by (auto simp: price_history_panel_def)
  then have pv: "pg' = pg2" "pv_tooltip v = map_option (tooltip_at dbl b (build_candles dbl b h) (amh_quotes h)) hover"
    "pv_quotes v = quote_series dbl (pp_show_quotes pg' \<or> amh_trades h = []) (pp_view_min pg1) (pp_view_max pg1) now (amh_quotes h)"
    "pv_series v = candle_series_of b now (build_candles dbl b h)" "pv_tape v = tape (amh_trades h)"
    using assms(1) d keeps(1-3) unfolding assms(3,4) price_history_panel_def Let_def pg1_def[symmetric] by auto
  have view: "pp_view_min pg1 = pp_view_min pg" "pp_view_max pg1 = pp_view_max pg"
    by (simp_all add: pg1_def toolbar_keeps select_asset_def)
  have "\<forall>tip. pv_tooltip v = Some tip \<longrightarrow> (\<exists>x. pp_hover_x_prev pg' = Some x \<and>
      tip_candle tip = (let ts = filter (\<lambda>t. dbl_bucket dbl (tp_time t) b = dbl_bucket dbl x b) (amh_trades h) in
        if ts = [] then None else Some (run_candle dbl b ts)))"
    unfolding pv(1,2) using keeps(6) candle_at_bucket[OF assms(5,6)] by (auto simp: tooltip_at_def)
  moreover have "step_at (pv_quotes v) t = map_option (\<lambda>q. (quote_value dbl (qs_bid q), quote_value dbl (qs_ask q))) (quote_at (amh_quotes h) (min t (pp_view_max pg))) \<or>
      t < pp_view_min pg \<and> step_at (pv_quotes v) t = None" if "pp_show_quotes pg' \<or> amh_trades h = []" for t
    using quote_series_at[OF assms(7,2), of dbl now t] that unfolding pv(3) view by (simp add: quote_point_def)
  moreover have "map (\<lambda>c. (candle_x b c, cd_volume c)) (build_candles dbl b h) =
      map (\<lambda>ts. (dbl_bucket dbl (tp_time (hd ts)) b + b / 2, cd_volume (run_candle dbl b ts))) (runs (bucket_of dbl b) (amh_trades h))"
    unfolding build_candles_runs[OF bucket_lawD(2)[OF assms(5)]] by (simp add: candle_x_def run_candle_def)
  ultimately show ?thesis using bars_of_candles[of b now "build_candles dbl b h"] tape_newest_first
    unfolding pv(4,5) by auto
qed


text \<open>A frame of the page, with the arithmetic of the real numbers.\<close>

definition sample_double :: "real double_ops" where
  "sample_double = \<lparr> dbl_of = of_int, dbl_add = (+), dbl_bucket = (\<lambda>t b. of_int \<lfloor>t / b\<rfloor> * b) \<rparr>"

lemma sample_double_law: "0 < b \<Longrightarrow> bucket_law sample_double b"
  by (rule floor_bucket_law) (simp_all add: sample_double_def)

definition page_history :: "real AssetMarketHistory" where
  "page_history = \<lparr> amh_trades = [\<lparr> tp_time = 3, tp_price = 7, tp_qty = 1 \<rparr>, \<lparr> tp_time = 4, tp_price = 9, tp_qty = 5 \<rparr>,
       \<lparr> tp_time = 11, tp_price = 10, tp_qty = 3 \<rparr>],
     amh_quotes = [\<lparr> qs_time = 2, qs_bid = 6, qs_ask = 8 \<rparr>, \<lparr> qs_time = 10, qs_bid = 9, qs_ask = 0 \<rparr>] \<rparr>"

definition page_state :: "real AppState" where
  "page_state = AppState_init \<lparr> app_market_history := [7 \<mapsto> page_history] \<rparr>"

definition quiet_toolbar :: toolbar_clicks where
  "quiet_toolbar = \<lparr> clk_asset = (\<lambda>_. False), clk_timeframe = (\<lambda>_. False), clk_candles = False, clk_line = False, clk_quotes = True, clk_live = False \<rparr>"

definition mouse_at :: "bool \<Rightarrow> real \<Rightarrow> real pane" where
  "mouse_at hovered x = \<lparr> pn_hovered = hovered, pn_mouse_x = x, pn_dragging = False, pn_wheel = False \<rparr>"

abbreviation page_frame :: "(u64 \<times> u64 \<times> u64) \<times> real price_view option \<times> real PricePage" where
  "page_frame \<equiv> price_history_panel sample_double quiet_toolbar 20 (mouse_at True 4) (0, 22) (mouse_at False 0) page_state (PricePage_init 20 5)"

lemma page_frame_result:
  "\<exists>v pg'. page_frame = ((0, 0, 0), Some v, pg') \<and> pp_selected_asset pg' = 7 \<and> pp_tf_idx pg' = 1 \<and> pp_show_quotes pg' \<and>
     pp_hover_x_prev pg' = Some 4 \<and> pv_tooltip v \<noteq> None"
proof -
  have asset: "select_asset page_state (PricePage_init 20 5) = (PricePage_init 20 5) \<lparr> pp_selected_asset := 7 \<rparr>"
    by (simp add: select_asset_def PricePage_init_def page_state_def map_keys_def AppState_init_def)
  have skip: "fold (\<lambda>_ p. p) is p = p" for "is" :: "nat list" and p :: "real PricePage" by (induction "is") simp_all
  have bar: "toolbar quiet_toolbar page_state pg = pg \<lparr> pp_show_quotes := \<not> pp_show_quotes pg \<rparr>" for pg :: "real PricePage"
    by (simp add: toolbar_def quiet_toolbar_def Let_def map_keys_def page_state_def skip)
  show ?thesis unfolding price_history_panel_def Let_def asset bar
    by (simp add: page_state_def AppState_init_def PricePage_init_def draw_panes_def detach_on_interaction_def mouse_at_def)
qed

theorem price_page_shows_history_witness:
  "\<exists>v pg' tip. page_frame = ((0, 0, 0), Some v, pg') \<and> pv_tooltip v = Some tip \<and>
     tip_candle tip = Some \<lparr> cd_start = 0, cd_open = 7, cd_high = 9, cd_low = 7, cd_close = 9, cd_volume = 6, cd_trades = 2 \<rparr> \<and>
     step_at (pv_quotes v) 12 = Some (Some 9, None)"
proof -
  obtain v pg' tip where f: "page_frame = ((0, 0, 0), Some v, pg')" "pp_selected_asset pg' = 7" "pp_tf_idx pg' = 1" "pp_show_quotes pg'"
    "pp_hover_x_prev pg' = Some 4" "pv_tooltip v = Some tip" using page_frame_result by blast
  have h: "page_history = history_of (pp_selected_asset pg') page_state" using f(2) by (simp add: page_state_def history_of_def)
  have b: "(5 :: real) = snd (kTimeframes ! pp_tf_idx pg')" using f(3) by (simp add: kTimeframes_def)
  have s: "sorted (map tp_time (amh_trades page_history))" "sorted (map qs_time (amh_quotes page_history))" by (simp_all add: page_history_def)
  have i: "pp_view_min (PricePage_init 20 5 :: real PricePage) \<le> pp_view_max (PricePage_init 20 5 :: real PricePage)"
    by (simp add: PricePage_init_def kVisibleCandles_def)
  have l: "bucket_law sample_double 5" by (simp add: sample_double_law)
  note th = price_page_shows_history[OF f(1) i h b l s]
  have "tip_candle tip = (let ts = filter (\<lambda>t. dbl_bucket sample_double (tp_time t) 5 = dbl_bucket sample_double 4 5) (amh_trades page_history) in
    if ts = [] then None else Some (run_candle sample_double 5 ts))" using th f(5,6) by auto
  also have "\<dots> = Some \<lparr> cd_start = 0, cd_open = 7, cd_high = 9, cd_low = 7, cd_close = 9, cd_volume = 6, cd_trades = 2 \<rparr>"
    by (simp add: page_history_def run_candle_def sample_double_def)
  finally have "tip_candle tip = Some \<lparr> cd_start = 0, cd_open = 7, cd_high = 9, cd_low = 7, cd_close = 9, cd_volume = 6, cd_trades = 2 \<rparr>" .
  moreover have "step_at (pv_quotes v) 12 = Some (Some 9, None)"
    using th[THEN conjunct2, THEN conjunct1, rule_format, of 12] f(4)
    by (simp add: PricePage_init_def kVisibleCandles_def page_history_def quote_at_def quote_value_def sample_double_def)
  ultimately show ?thesis using f(1,6) by blast
qed

end
