(* ===== verification/Dashboard_Pages.thy ===== *)
theory Dashboard_Pages
  imports Price_Page "HOL-Library.List_Lexorder" "HOL-Library.Char_ord"
begin

text \<open>
  The other pages of the dashboard (\<open>market_client/src/main.cpp\<close>): the order book table and the depth chart, the trading panels, the
  cards of the discovered services, the client lookup, the pop-up notifications and the page that is shown.  Buttons and fields are
  arguments or state; the drawing calls are left out, and what they are given is the result of the definitions.  A \<open>float\<close> is a number of
  an ordered field, as in the theory of the price history.
\<close>

section \<open>Order book table\<close>

text \<open>The rows: both iterators advance together, up to \<open>max_rows\<close>.\<close>

fun table_rows :: "nat \<Rightarrow> 'b list \<Rightarrow> 'a list \<Rightarrow> ('b option \<times> 'a option) list" where
  "table_rows 0 bids asks = []"
| "table_rows (Suc n) [] [] = []"
| "table_rows (Suc n) (b # bids) [] = (Some b, None) # table_rows n bids []"
| "table_rows (Suc n) [] (a # asks) = (None, Some a) # table_rows n [] asks"
| "table_rows (Suc n) (b # bids) (a # asks) = (Some b, Some a) # table_rows n bids asks"

definition depth_bar :: "u32 \<Rightarrow> u32 \<Rightarrow> 'f :: floor_ceiling" where
  "depth_bar max_qty qty = max 0 (min 1 (of_nat (unat qty) / of_nat (unat max_qty)))"

record 'f book_table =
  bt_bid_frac :: 'f
  bt_rows :: "((i64 \<times> u32 \<times> 'f) option \<times> (i64 \<times> u32 \<times> 'f) option) list"

definition order_book_table :: "nat \<Rightarrow> app_OrderBook \<Rightarrow> ('f :: floor_ceiling) book_table" where
  "order_book_table max_rows book =
     (case table_totals max_rows book of (max_qty, bid_total, ask_total) \<Rightarrow>
        let total = bid_total + ask_total; cell = map_option (\<lambda>(price, qty). (price, qty, depth_bar max_qty qty)) in
        \<lparr> bt_bid_frac = (if total > 0 then of_nat (unat bid_total) / of_nat (unat total) else 1 / 2),
          bt_rows = map (map_prod cell cell) (table_rows max_rows (abk_bids book) (abk_asks book)) \<rparr>)"

section \<open>Depth chart\<close>

text \<open>The rectangles of a side from left to right: left and right edge and upper edge, in a chart of the given half width and height
  whose upper left corner is the origin.\<close>

definition depth_rects :: "'f \<Rightarrow> 'f \<Rightarrow> 'f :: floor_ceiling \<Rightarrow> u32 \<Rightarrow> (i64 \<times> u32) list \<Rightarrow> ('f \<times> 'f \<times> 'f) list" where
  "depth_rects left half_w height max_cum cum =
     (let n = length cum in
      map (\<lambda>i. (left + of_nat i / of_nat n * half_w, left + of_nat (i + 1) / of_nat n * half_w,
                height - height * (of_nat (unat (snd (cum ! i))) / of_nat (unat max_cum)))) [0..<n])"

definition depth_outline :: "('f \<times> 'f \<times> 'f) list \<Rightarrow> ('f \<times> 'f) list" where
  "depth_outline rects = concat (map (\<lambda>(x0, x1, y). [(x0, y), (x1, y)]) rects)"

record 'f depth_view =
  dv_bids :: "('f \<times> 'f \<times> 'f) list"
  dv_asks :: "('f \<times> 'f \<times> 'f) list"
  dv_bid_outline :: "('f \<times> 'f) list"
  dv_ask_outline :: "('f \<times> 'f) list"
  dv_bid_labels :: "(i64 \<times> i64) option"
  dv_ask_labels :: "(i64 \<times> i64) option"

text \<open>Worst and best bid at the left, best and worst ask at the right; nothing for an empty book.\<close>

definition draw_depth_chart :: "'f :: floor_ceiling \<Rightarrow> 'f \<Rightarrow> nat \<Rightarrow> app_OrderBook \<Rightarrow> 'f depth_view option" where
  "draw_depth_chart width height max_levels book =
     (if abk_bids book = [] \<and> abk_asks book = [] then None
      else case depth_chart max_levels book of (bid_cum, ask_cum, max_cum) \<Rightarrow>
        let half_w = width / 2; bids = depth_rects 0 half_w height max_cum (rev bid_cum);
            asks = depth_rects half_w half_w height max_cum ask_cum in
        Some \<lparr> dv_bids = bids, dv_asks = asks,
          dv_bid_outline = (if bid_cum \<noteq> [] then (0, height) # depth_outline bids else []),
          dv_ask_outline = (if ask_cum \<noteq> [] then depth_outline asks @ [(width, height)] else []),
          dv_bid_labels = (if bid_cum \<noteq> [] then Some (fst (last bid_cum), fst (hd bid_cum)) else None),
          dv_ask_labels = (if ask_cum \<noteq> [] then Some (fst (hd ask_cum), fst (last ask_cum)) else None) \<rparr>)"

datatype book_view = TableView | DepthView

definition order_book_view_mode :: "bool \<Rightarrow> bool \<Rightarrow> book_view \<Rightarrow> book_view" where
  "order_book_view_mode table_clicked depth_clicked view_mode =
     (let view_mode = (if table_clicked then TableView else view_mode) in if depth_clicked then DepthView else view_mode)"

section \<open>Balances\<close>

definition asset_label :: "u16 \<Rightarrow> string" where
  "asset_label asset_id = (if asset_id = 0 then ''Cash'' else ''Asset '' @ to_string (unat asset_id))"

definition balance_rows :: "LiveBalance \<Rightarrow> (string \<times> i64 \<times> i64) list" where
  "balance_rows b = map (\<lambda>asset_id. (asset_label asset_id, the (lb_positions b asset_id))) (map_keys (lb_positions b))"

text \<open>The endpoint that is asked: the first one in the order of the keys.\<close>

definition first_cdp_endpoint :: "'d AppState \<Rightarrow> AddrStatusInfo option" where
  "first_cdp_endpoint st = (case map_keys (app_cdp_endpoints st) of [] \<Rightarrow> None | key # _ \<Rightarrow> app_cdp_endpoints st key)"

section \<open>Client lookup\<close>

record LookupPage =
  lk_client_id :: u32
  lk_key_hex :: string
  lk_gateway_id :: i32
  lk_error :: string
  lk_results :: "ClientBalanceSnapshot MpscQueue"

definition LookupPage_init :: LookupPage where
  "LookupPage_init = \<lparr> lk_client_id = 0, lk_key_hex = [], lk_gateway_id = kDefaultGatewayId, lk_error = [], lk_results = [] \<rparr>"

text \<open>A click on Query: the page, and what the detached thread is started with.  An address whose port is outside the range of \<open>int\<close> has
  no defined result.\<close>

definition lookup_query :: "'d AppState \<Rightarrow> LookupPage \<Rightarrow> (LookupPage \<times> (string \<times> u16 \<times> u32 \<times> u8 list \<times> u16) option) option" where
  "lookup_query st lk =
     (case first_cdp_endpoint st of
        None \<Rightarrow> Some (lk, None)
      | Some info \<Rightarrow>
          (case parse_hex_key (lk_key_hex lk) of
             None \<Rightarrow> Some (lk \<lparr> lk_error := ''key must be 64 hex chars'' \<rparr>, None)
           | Some key \<Rightarrow> do {
               (cdp_host, cdp_port) \<leftarrow> parse_host_port (asi_addr info);
               Some (lk \<lparr> lk_error := [] \<rparr>,
                 Some (cdp_host, cdp_port, lk_client_id lk, key, word_of_int (lk_gateway_id lk))) }))"

definition lookup_drain :: "LookupPage \<times> 'd AppState \<Rightarrow> LookupPage \<times> 'd AppState" where
  "lookup_drain = (\<lambda>(lk, st).
     case mpsc_drain_all (lk_results lk) of (snaps, q) \<Rightarrow> (lk \<lparr> lk_results := q \<rparr>, fold apply_balance_snapshot snaps st))"

datatype lookup_view = NoQueryYet | LookupError string | LookupRows "(string \<times> i64 \<times> i64) list" | NothingShown

definition lookup_shown :: "LookupPage \<Rightarrow> 'd AppState \<Rightarrow> lookup_view" where
  "lookup_shown lk st =
     (case app_balances st (lk_client_id lk) of
        None \<Rightarrow> NoQueryYet
      | Some b \<Rightarrow> if lb_last_error b \<noteq> [] then LookupError (lb_last_error b)
                  else if lb_has_snapshot b then LookupRows (balance_rows b) else NothingShown)"

definition client_lookup_panel ::
  "bool \<Rightarrow> LookupPage \<times> 'd AppState \<Rightarrow> ((string \<times> u16 \<times> u32 \<times> u8 list \<times> u16) option \<times> lookup_view \<times> LookupPage \<times> 'd AppState) option" where
  "client_lookup_panel query_clicked = (\<lambda>(lk, st). do {
     (lk, request) \<leftarrow> (if query_clicked then lookup_query st lk else Some (lk, None));
     case lookup_drain (lk, st) of (lk, st) \<Rightarrow> Some (request, lookup_shown lk st, lk, st) })"

section \<open>Service discovery\<close>

record DiscoveryCard =
  dc_title :: string
  dc_subkey :: string
  dc_addr :: string
  dc_status :: string

definition discovery_cards :: "'d AppState \<Rightarrow> DiscoveryCard list" where
  "discovery_cards st =
     map (\<lambda>key. let info = the (app_matching_engines st key) in
       \<lparr> dc_title = ''Matching Engine -- Asset '' @ to_string (unat (mei_asset_id info)), dc_subkey = key,
         dc_addr = mei_addr info, dc_status = mei_status info \<rparr>) (map_keys (app_matching_engines st)) @
     map (\<lambda>gw_id. let info = the (app_socket_gateways st gw_id) in
       \<lparr> dc_title = ''Socket Gateway '' @ to_string (unat gw_id), dc_subkey = ''/socket-gateways/'' @ to_string (unat gw_id),
         dc_addr = asi_addr info, dc_status = asi_status info \<rparr>) (map_keys (app_socket_gateways st)) @
     map (\<lambda>key. let info = the (app_cdp_endpoints st key) in
       \<lparr> dc_title = ''Client Details Provider'', dc_subkey = key, dc_addr = asi_addr info, dc_status = asi_status info \<rparr>)
       (map_keys (app_cdp_endpoints st))"

definition status_pill :: "DiscoveryCard \<Rightarrow> string \<times> bool" where
  "status_pill c = (if dc_status c = [] then ''unknown'' else dc_status c, dc_status c = ''active'')"

text \<open>Whether each card but the first stays on the line of the one before it.\<close>

fun card_flow :: "'f :: floor_ceiling \<Rightarrow> 'f \<Rightarrow> 'f \<Rightarrow> 'f \<Rightarrow> nat \<Rightarrow> bool list" where
  "card_flow card_width spacing avail_width used_width 0 = []"
| "card_flow card_width spacing avail_width used_width (Suc n) =
     (let same_line = used_width + card_width \<le> avail_width; used_width = (if same_line then used_width else 0) in
      same_line # card_flow card_width spacing avail_width (used_width + (card_width + spacing)) n)"

definition etcd_panel_layout :: "'f :: floor_ceiling \<Rightarrow> 'f \<Rightarrow> DiscoveryCard list \<Rightarrow> (bool \<times> DiscoveryCard) list" where
  "etcd_panel_layout avail_width spacing cards =
     (if cards = [] then [] else zip (False # card_flow 380 spacing avail_width (380 + spacing) (length cards - 1)) cards)"

definition raw_entries :: "'d AppState \<Rightarrow> (string \<times> string) list" where
  "raw_entries st = map (\<lambda>key. (key, the (app_etcd_entries st key))) (map_keys (app_etcd_entries st))"


section \<open>Trading panels\<close>

record panel_clicks =
  pc_gateway :: "u32 option"
  pc_connect :: bool
  pc_disconnect :: bool
  pc_refresh :: bool
  pc_buy :: bool
  pc_sell :: bool
  pc_submit :: bool
  pc_cancel :: bool

text \<open>What a panel asks of a detached thread.\<close>

datatype panel_request = ConnectTo "string \<times> u16 \<times> u32 \<times> u8 list" | DisconnectSession | QueryBalance "string \<times> u16" "u32 \<times> u8 list \<times> u16"

definition panel_connected :: "('d, 'f) TradingPanel \<Rightarrow> bool" where
  "panel_connected panel = (case pnl_session panel of None \<Rightarrow> False | Some s \<Rightarrow> tss_state s = Connected)"

text \<open>A discovered gateway is picked: \<open>snprintf\<close> fills a buffer of 64 bytes.\<close>

definition pick_gateway :: "AddrStatusInfo \<Rightarrow> ('d, 'f) TradingPanel \<Rightarrow> ('d, 'f) TradingPanel option" where
  "pick_gateway info panel = do {
     (host, p) \<leftarrow> parse_host_port (asi_addr info);
     Some (panel \<lparr> pnl_host := take 63 (takeWhile (\<lambda>c. c \<noteq> CHR 0x00) host), pnl_port := uint p \<rparr>) }"

definition gateway_items :: "'d AppState \<Rightarrow> string list" where
  "gateway_items st = map (\<lambda>gw_id. let info = the (app_socket_gateways st gw_id) in
     ''gateway '' @ to_string (unat gw_id) @ '' ('' @ asi_addr info @ '', '' @ asi_status info @ '')'') (map_keys (app_socket_gateways st))"

definition connection_card ::
  "panel_clicks \<Rightarrow> 'd AppState \<Rightarrow> ('d, 'f) TradingPanel \<Rightarrow> (('d, 'f) TradingPanel \<times> panel_request list) option" where
  "connection_card c st panel = do {
     panel \<leftarrow> (case pc_gateway c of
        None \<Rightarrow> Some panel
      | Some gw_id \<Rightarrow> (case app_socket_gateways st gw_id of None \<Rightarrow> Some panel | Some info \<Rightarrow> pick_gateway info panel));
     Some (if pc_connect c
           then (case do_connect panel of (panel, request) \<Rightarrow> (panel, case request of None \<Rightarrow> [] | Some r \<Rightarrow> [ConnectTo r]))
           else (panel, [])) }"

definition do_disconnect :: "('d, 'f) TradingPanel \<Rightarrow> panel_request list" where
  "do_disconnect panel = (if pnl_session panel \<noteq> None then [DisconnectSession] else [])"

definition refresh_balance ::
  "'d AppState \<Rightarrow> ('d, 'f) TradingPanel \<Rightarrow> (('d, 'f) TradingPanel \<times> panel_request list) option" where
  "refresh_balance st panel =
     (if pnl_balance_query_in_flight panel then Some (panel, [])
      else case first_cdp_endpoint st of
             None \<Rightarrow> Some (panel, [])
           | Some info \<Rightarrow> do {
               endpoint \<leftarrow> parse_host_port (asi_addr info);
               Some (case query_balance panel of (panel, request) \<Rightarrow>
                 (panel, case request of None \<Rightarrow> [] | Some r \<Rightarrow> [QueryBalance endpoint r])) })"

definition side_buttons :: "panel_clicks \<Rightarrow> ('d, 'f) TradingPanel \<Rightarrow> ('d, 'f) TradingPanel" where
  "side_buttons c panel =
     (let panel = (if pc_buy c then panel \<lparr> pnl_side_idx := 0 \<rparr> else panel) in
      if pc_sell c then panel \<lparr> pnl_side_idx := 1 \<rparr> else panel)"

text \<open>One panel in one frame; whether it is connected is read once, at the start.\<close>

definition trading_panel ::
  "'d \<Rightarrow> 'f \<Rightarrow> panel_clicks \<Rightarrow> 'd AppState \<Rightarrow> ('d, 'f) TradingPanel \<times> network \<Rightarrow>
   (('d, 'f) TradingPanel \<times> network \<times> panel_request list) option" where
  "trading_panel now four c st = (\<lambda>(panel, net).
     if \<not> panel_connected panel
     then do { (panel, requests) \<leftarrow> connection_card c st panel; Some (panel, net, requests) }
     else do {
       left \<leftarrow> Some (if pc_disconnect c then do_disconnect panel else []);
       (panel, requests) \<leftarrow> (if pc_refresh c then refresh_balance st panel else Some (panel, []));
       panel \<leftarrow> Some (side_buttons c panel);
       (panel, net) \<leftarrow> (if pc_submit c then submit_order now four panel net else Some (panel, net));
       (panel, net) \<leftarrow> (if pc_cancel c then submit_cancel now four panel net else Some (panel, net));
       Some (panel, net, left @ requests) })"

definition balances_card :: "'d AppState \<Rightarrow> ('d, 'f) TradingPanel \<Rightarrow> (string \<times> i64 \<times> i64) list option" where
  "balances_card st panel =
     (case app_balances st (pnl_client_id panel) of
        None \<Rightarrow> None | Some b \<Rightarrow> if lb_has_snapshot b then Some (balance_rows b) else None)"

definition book_preview :: "'d AppState \<Rightarrow> ('d, 'f) TradingPanel \<Rightarrow> ('g :: floor_ceiling) book_table option" where
  "book_preview st panel = map_option (order_book_table 6) (app_order_books st (word_of_int (pnl_watch_asset_id panel)))"

definition recent_activity :: "'d :: floor_ceiling \<Rightarrow> ('d, 'f) TradingPanel \<Rightarrow> (string \<times> bool \<times> string) list" where
  "recent_activity now panel =
     map (\<lambda>n. (note_text n, note_is_error n,
       format_time_ago (let ago = now - note_created_at n in if ago \<ge> 0 then \<lfloor>ago\<rfloor> else \<lceil>ago\<rceil>))) (rev (pnl_notification_history panel))"

section \<open>Notifications\<close>

definition toast_alpha :: "'f :: floor_ceiling \<Rightarrow> 'f" where
  "toast_alpha ttl = (if ttl < 1 then max ttl 0 else 1)"

definition toast_overlay :: "('d, 'f) TradingPanel \<Rightarrow> ('d, 'f) TradingPanel \<Rightarrow> (string \<times> string \<times> bool \<times> 'f :: floor_ceiling) list" where
  "toast_overlay panel_a panel_b =
     (let entry = (\<lambda>owner t. (owner, toast_text t, toast_is_error t, toast_alpha (toast_ttl t))) in
      map (entry ''Client A'') (pnl_toasts panel_a) @ map (entry ''Client B'') (pnl_toasts panel_b))"

section \<open>The pages of a frame\<close>

datatype Page = Trading | OrderBooks | PriceHistory | TradeFeed | LatencyStatistics | ServiceDiscovery | ClientLookup

definition kNavItems :: "(Page \<times> string) list" where
  "kNavItems = [(Trading, ''Trading''), (OrderBooks, ''Order Books''), (PriceHistory, ''Price History''), (TradeFeed, ''Trade Feed''),
     (LatencyStatistics, ''Latency Stats''), (ServiceDiscovery, ''Service Discovery''), (ClientLookup, ''Client Lookup'')]"

definition navigate :: "(Page \<Rightarrow> bool) \<Rightarrow> Page \<Rightarrow> Page" where
  "navigate clicked current_page = fold (\<lambda>(page, _) cur. if clicked page then page else cur) kNavItems current_page"

record ('d, 'f) Pages =
  pgs_dashboard :: "('d, 'f) Dashboard"
  pgs_current :: Page
  pgs_lookup :: LookupPage
  pgs_network :: network

record ('d, 'f) frame_input =
  fi_nav :: "Page \<Rightarrow> bool"
  fi_panel_a :: panel_clicks
  fi_panel_b :: panel_clicks
  fi_query :: bool
  fi_now :: 'd
  fi_dt :: 'f

text \<open>The page that is drawn: the trading panels and the lookup change the state, the others only show it.\<close>

definition draw_page :: "'f \<Rightarrow> ('d, 'f) frame_input \<Rightarrow> ('d, 'f) Pages \<Rightarrow> ('d, 'f) Pages option" where
  "draw_page four i p =
     (case pgs_current p of
        Trading \<Rightarrow> do {
          (a, net, _) \<leftarrow> trading_panel (fi_now i) four (fi_panel_a i) (dsh_app (pgs_dashboard p)) (dsh_panel_a (pgs_dashboard p), pgs_network p);
          (b, net, _) \<leftarrow> trading_panel (fi_now i) four (fi_panel_b i) (dsh_app (pgs_dashboard p)) (dsh_panel_b (pgs_dashboard p), net);
          Some (p \<lparr> pgs_dashboard := (pgs_dashboard p) \<lparr> dsh_panel_a := a, dsh_panel_b := b \<rparr>, pgs_network := net \<rparr>) }
      | ClientLookup \<Rightarrow> do {
          (_, _, lk, st) \<leftarrow> client_lookup_panel (fi_query i) (pgs_lookup p, dsh_app (pgs_dashboard p));
          Some (p \<lparr> pgs_dashboard := (pgs_dashboard p) \<lparr> dsh_app := st \<rparr>, pgs_lookup := lk \<rparr>) }
      | _ \<Rightarrow> Some p)"

definition render_frame ::
  "('f \<Rightarrow> 'f \<Rightarrow> 'f) \<Rightarrow> 'f \<Rightarrow> ('d, 'f :: {linorder, zero}) frame_input \<Rightarrow> ('d, 'f) Pages \<Rightarrow> ('d, 'f) Pages option" where
  "render_frame sub four i p =
     draw_page four i (p \<lparr> pgs_dashboard := frame_drain sub four (fi_now i) (fi_dt i) (pgs_dashboard p),
       pgs_current := navigate (fi_nav i) (pgs_current p) \<rparr>)"

fun render_frames ::
  "('f \<Rightarrow> 'f \<Rightarrow> 'f) \<Rightarrow> 'f \<Rightarrow> ('d, 'f :: {linorder, zero}) frame_input list \<Rightarrow> ('d, 'f) Pages \<Rightarrow> ('d, 'f) Pages option" where
  "render_frames sub four [] p = Some p"
| "render_frames sub four (i # is) p = do { p \<leftarrow> render_frame sub four i p; render_frames sub four is p }"


section \<open>The table shows the best levels\<close>

lemma table_rows_columns:
  "List.map_filter fst (table_rows n bids asks) = take n bids" "List.map_filter snd (table_rows n bids asks) = take n asks"
  by (induction n bids asks rule: table_rows.induct) (simp_all add: map_filter_simps)

lemma side_totals_max:
  "mx \<le> fst (side_totals n m mx)" "(p, q) \<in> set (take n m) \<Longrightarrow> q \<le> fst (side_totals n m mx)"
proof -
  have "mx \<le> fst (fold (\<lambda>(_, q) (mx, total). (max mx q, total + ucast q)) xs (mx, t)) \<and>
    (\<forall>(p, q) \<in> set xs. q \<le> fst (fold (\<lambda>(_, q) (mx, total). (max mx q, total + ucast q)) xs (mx, t)))"
    for xs :: "(i64 \<times> u32) list" and t :: u64
  proof (induction xs arbitrary: mx t)
    case (Cons x xs)
    obtain p q where x: "x = (p, q)" by (cases x)
    show ?case using Cons.IH[of "max mx q" "t + ucast q"] by (auto simp: x)
  qed simp
  from this[of "take n m" 0] show "mx \<le> fst (side_totals n m mx)" "(p, q) \<in> set (take n m) \<Longrightarrow> q \<le> fst (side_totals n m mx)"
    by (auto simp: side_totals_def)
qed

lemma side_totals_sum:
  assumes "n < 2 ^ 31"
  shows "unat (snd (side_totals n m mx)) = (\<Sum>(p, q)\<leftarrow>take n m. unat q)" "(\<Sum>(p, q)\<leftarrow>take n m. unat q) < 2 ^ 63"
proof -
  have sum: "snd (fold (\<lambda>(_, q) (mx, total). (max mx q, total + ucast q)) xs (mx, t)) = t + of_nat (\<Sum>(p, q)\<leftarrow>xs. unat q)"
    for xs :: "(i64 \<times> u32) list" and t :: u64
    by (induction xs arbitrary: mx t) (auto simp: ac_simps unsigned_of_nat split: prod.splits)
  have le: "(\<Sum>(p, q)\<leftarrow>xs. unat q) \<le> length xs * 2 ^ 32" for xs :: "(i64 \<times> u32) list"
  proof (induction xs)
    case (Cons x xs)
    obtain p q where x: "x = (p, q)" by (cases x)
    have "unat q < 2 ^ LENGTH(32)" by (rule unsigned_less)
    then show ?case using Cons.IH by (simp add: x)
  qed simp
  have "length (take n m) * 2 ^ 32 < 2 ^ 31 * (2 ^ 32 :: nat)" using assms by (intro mult_strict_right_mono) auto
  then show b: "(\<Sum>(p, q)\<leftarrow>take n m. unat q) < 2 ^ 63" using le[of "take n m"] by simp
  then show "unat (snd (side_totals n m mx)) = (\<Sum>(p, q)\<leftarrow>take n m. unat q)"
    unfolding side_totals_def sum by (simp add: unat_of_nat take_bit_nat_eq_self)
qed


lemma depth_bar_exact:
  assumes "q \<le> mx" "0 < mx" shows "depth_bar mx q = (of_nat (unat q) / of_nat (unat mx) :: 'f :: floor_ceiling)"
    "0 \<le> (depth_bar mx q :: 'f)" "(depth_bar mx q :: 'f) \<le> 1"
proof -
  have "unat q \<le> unat mx" using assms(1) by (simp add: word_le_nat_alt)
  moreover have "0 < unat mx" using assms(2) by (simp add: word_less_nat_alt)
  ultimately have "(of_nat (unat q) :: 'f) / of_nat (unat mx) \<le> 1" by (simp only: of_nat_le_iff of_nat_0_less_iff divide_le_eq_1_pos)
  moreover have "(0 :: 'f) \<le> of_nat (unat q) / of_nat (unat mx)" by (intro divide_nonneg_nonneg) (rule of_nat_0_le_iff)+
  ultimately show "depth_bar mx q = (of_nat (unat q) / of_nat (unat mx) :: 'f)"
    by (simp only: depth_bar_def min_absorb2 max_absorb2)
  show "0 \<le> (depth_bar mx q :: 'f)" "(depth_bar mx q :: 'f) \<le> 1" by (simp_all add: depth_bar_def)
qed

definition shown_cell :: "u32 \<Rightarrow> i64 \<times> u32 \<Rightarrow> i64 \<times> u32 \<times> 'f :: floor_ceiling" where
  "shown_cell mx = (\<lambda>(price, qty). (price, qty, of_nat (unat qty) / of_nat (unat mx)))"

lemma map_filter_map_prod:
  "List.map_filter fst (map (map_prod (map_option f) (map_option g)) rows) = map f (List.map_filter fst rows)"
  "List.map_filter snd (map (map_prod (map_option f) (map_option g)) rows) = map g (List.map_filter snd rows)"
  by (induction rows) (auto simp: map_filter_simps split: option.splits)

text \<open>The order book table shows the best levels of both sides, in order, with their depths: bid and ask columns are the
  first rows of the book, the length of a bar is the depth divided by the largest depth shown (so between 0 and 1), and the strip
  above gives the share of the bids in the depth shown.\<close>

theorem order_table_shows_best_levels:
  assumes "n < 2 ^ 31" "t = (order_book_table n book :: ('f :: floor_ceiling) book_table)"
  shows "\<exists>mx > 0. (\<forall>(p, q) \<in> set (take n (abk_bids book)) \<union> set (take n (abk_asks book)). q \<le> mx) \<and>
    List.map_filter fst (bt_rows t) = map (shown_cell mx) (take n (abk_bids book)) \<and>
    List.map_filter snd (bt_rows t) = map (shown_cell mx) (take n (abk_asks book)) \<and>
    (let b = (\<Sum>(p, q)\<leftarrow>take n (abk_bids book). unat q); a = (\<Sum>(p, q)\<leftarrow>take n (abk_asks book). unat q) in
     bt_bid_frac t = (if a + b > 0 then of_nat b / of_nat (a + b) else 1 / 2))"
proof -
  obtain m1 bk where b: "side_totals n (abk_bids book) 1 = (m1, bk)" by fastforce
  obtain mx ak where a: "side_totals n (abk_asks book) m1 = (mx, ak)" by fastforce
  have tot: "table_totals n book = (mx, bk, ak)" by (simp add: table_totals_def a b)
  have "1 \<le> m1" "m1 \<le> mx" using side_totals_max(1)[of 1 n "abk_bids book"] side_totals_max(1)[of m1 n "abk_asks book"] a b by simp_all
  then have pos: "0 < mx" by (metis order_less_le_trans word_gt_0 zero_neq_one)
  have qb: "q \<le> mx" if "(p, q) \<in> set (take n (abk_bids book))" for p q
    using side_totals_max(2)[OF that, of 1] b \<open>m1 \<le> mx\<close> by (simp add: order_trans)
  have qa: "q \<le> mx" if "(p, q) \<in> set (take n (abk_asks book))" for p q
    using side_totals_max(2)[OF that, of m1] a by simp
  let ?cell = "\<lambda>(price, qty). (price, qty, depth_bar mx qty :: 'f)"
  have cell: "?cell (p, q) = shown_cell mx (p, q)" if "q \<le> mx" for p q
    unfolding shown_cell_def prod.case depth_bar_exact(1)[OF that pos] ..
  have cells: "map ?cell xs = map (shown_cell mx) xs" if "\<And>p q. (p, q) \<in> set xs \<Longrightarrow> q \<le> mx" for xs
  proof (rule map_cong[OF refl])
    fix x assume "x \<in> set xs"
    moreover obtain p q where x: "x = (p, q)" by (cases x)
    ultimately show "?cell x = shown_cell mx x" unfolding x by (intro cell that)
  qed
  have sums: "unat bk = (\<Sum>(p, q)\<leftarrow>take n (abk_bids book). unat q)" "unat ak = (\<Sum>(p, q)\<leftarrow>take n (abk_asks book). unat q)"
    "unat bk < 2 ^ 63" "unat ak < 2 ^ 63"
    using side_totals_sum(1)[OF assms(1), of "abk_bids book" 1] side_totals_sum(1)[OF assms(1), of "abk_asks book" m1]
      side_totals_sum(2)[OF assms(1), of "abk_bids book"] side_totals_sum(2)[OF assms(1), of "abk_asks book"] a b by simp_all
  have total: "unat (bk + ak) = unat ak + unat bk" using sums(3,4) by (simp add: unat_word_ariths)
  have "bt_bid_frac t = (if unat ak + unat bk > 0 then of_nat (unat bk) / of_nat (unat ak + unat bk) else 1 / 2 :: 'f)"
    unfolding assms(2) order_book_table_def tot total[symmetric] by (simp add: Let_def word_less_nat_alt)
  moreover have "List.map_filter fst (bt_rows t) = map ?cell (take n (abk_bids book))"
    "List.map_filter snd (bt_rows t) = map ?cell (take n (abk_asks book))"
    unfolding assms(2) order_book_table_def tot by (simp_all add: Let_def map_filter_map_prod table_rows_columns)
  ultimately show ?thesis using pos qa qb cells[OF qb, of "take n (abk_bids book)" "\<lambda>p q. p"] cells[OF qa, of "take n (abk_asks book)" "\<lambda>p q. p"] unfolding sums(1,2) Let_def
    by (intro exI[of _ mx]) (auto simp only: split: prod.splits)
qed


definition small_book :: app_OrderBook where
  "small_book = \<lparr> abk_bids = [(10, 3), (9, 4)], abk_asks = [(11, 1)] \<rparr>"

theorem order_table_shows_best_levels_witness:
  "\<exists>mx > 0. List.map_filter fst (bt_rows (order_book_table 6 small_book :: real book_table)) = map (shown_cell mx) [(10, 3), (9, 4)] \<and>
    List.map_filter snd (bt_rows (order_book_table 6 small_book :: real book_table)) = map (shown_cell mx) [(11, 1)] \<and>
    bt_bid_frac (order_book_table 6 small_book) = (7 / 8 :: real)"
proof -
  have n: "(6 :: nat) < 2 ^ 31" by simp
  show ?thesis using order_table_shows_best_levels[OF n refl, of small_book, where 'f = real] by (auto simp: small_book_def)
qed

section \<open>The lookup page\<close>

lemma navigate_lookup: "clicked ClientLookup \<Longrightarrow> navigate clicked cur = ClientLookup"
  by (simp add: navigate_def kNavItems_def)

lemma navigate_elsewhere: "\<not> clicked ClientLookup \<Longrightarrow> cur \<noteq> ClientLookup \<Longrightarrow> navigate clicked cur \<noteq> ClientLookup"
  by (simp add: navigate_def kNavItems_def)

lemma draw_page_elsewhere:
  assumes "draw_page four i p = Some p'" "pgs_current p \<noteq> ClientLookup"
  shows "pgs_lookup p' = pgs_lookup p" "pgs_current p' = pgs_current p"
  using assms by (auto simp: draw_page_def split: Page.splits Option.bind_splits)

lemma frames_elsewhere:
  assumes "render_frames sub four is p = Some p'" "pgs_current p \<noteq> ClientLookup" "\<forall>i \<in> set is. \<not> fi_nav i ClientLookup"
  shows "pgs_lookup p' = pgs_lookup p"
  using assms
proof (induction "is" arbitrary: p)
  case (Cons i "is")
  from Cons.prems(1) obtain q where q: "render_frame sub four i p = Some q" "render_frames sub four is q = Some p'"
    by (auto split: Option.bind_splits)
  define p1 where "p1 = p \<lparr> pgs_dashboard := frame_drain sub four (fi_now i) (fi_dt i) (pgs_dashboard p),
    pgs_current := navigate (fi_nav i) (pgs_current p) \<rparr>"
  have d: "draw_page four i p1 = Some q" using q(1) by (simp add: render_frame_def p1_def)
  have n: "pgs_current p1 \<noteq> ClientLookup" using Cons.prems navigate_elsewhere[of "fi_nav i"] by (simp add: p1_def)
  have l: "pgs_lookup p1 = pgs_lookup p" by (simp add: p1_def)
  show ?case using Cons.IH[OF q(2)] Cons.prems(3) draw_page_elsewhere[OF d n] n l by simp
qed simp

lemma apply_snapshot_positions:
  assumes "cbs_ok snap"
  shows "\<exists>b. app_balances (apply_balance_snapshot snap st) (cbs_client_id snap) = Some b \<and> lb_has_snapshot b \<and>
    lb_positions b = fold (\<lambda>(asset_id, confirmed, attempt) m. m(asset_id \<mapsto> (confirmed, attempt))) (cbs_positions snap) Map.empty"
  using assms by (simp add: apply_balance_snapshot_def Let_def)

text \<open>C40. A lookup that is answered while another page is shown waits: the answers are taken from their queue only when the lookup
  page is drawn.  When the user returns to it the positions of the client become those of the last answer, whatever the reports of
  the feed and newer snapshots have made of them in the meantime.\<close>

theorem late_lookup_replaces_balance:
  assumes "render_frames sub four is p = Some p'" "pgs_current p \<noteq> ClientLookup" "\<forall>i \<in> set is. \<not> fi_nav i ClientLookup"
    and "lk_results (pgs_lookup p) = snaps @ [snap]" "cbs_ok snap" "fi_nav i ClientLookup" "\<not> fi_query i"
  shows "\<exists>p'' b. render_frame sub four i p' = Some p'' \<and> lk_results (pgs_lookup p'') = [] \<and>
    app_balances (dsh_app (pgs_dashboard p'')) (cbs_client_id snap) = Some b \<and>
    lb_positions b = fold (\<lambda>(asset_id, confirmed, attempt) m. m(asset_id \<mapsto> (confirmed, attempt))) (cbs_positions snap) Map.empty"
proof -
  have "pgs_lookup p' = pgs_lookup p" by (rule frames_elsewhere[OF assms(1-3)])
  with assms(4) have q: "lk_results (pgs_lookup p') = snaps @ [snap]" by simp
  let ?st = "dsh_app (frame_drain sub four (fi_now i) (fi_dt i) (pgs_dashboard p'))"
  from apply_snapshot_positions[OF assms(5), of "fold apply_balance_snapshot snaps ?st"] show ?thesis
    by (auto simp: render_frame_def draw_page_def navigate_lookup[where clicked = "fi_nav i", OF assms(6)] client_lookup_panel_def assms(7)
        lookup_drain_def q mpsc_drain_all_def)
qed


definition no_panel_clicks :: panel_clicks where
  "no_panel_clicks = \<lparr> pc_gateway = None, pc_connect = False, pc_disconnect = False, pc_refresh = False, pc_buy = False, pc_sell = False,
     pc_submit = False, pc_cancel = False \<rparr>"

definition frame_to :: "Page \<Rightarrow> (int, int) frame_input" where
  "frame_to page = \<lparr> fi_nav = (\<lambda>x. x = page), fi_panel_a = no_panel_clicks, fi_panel_b = no_panel_clicks, fi_query = False, fi_now = 0, fi_dt = 0 \<rparr>"

definition late_answer :: ClientBalanceSnapshot where
  "late_answer = \<lparr> cbs_client_id = 1, cbs_ok = True, cbs_error = [], cbs_positions = [(0, 100, 0), (2, 5, -5)] \<rparr>"

definition waiting_pages :: "network \<Rightarrow> (int, int) Pages" where
  "waiting_pages net = \<lparr> pgs_dashboard = Dashboard_init, pgs_current = Trading,
     pgs_lookup = LookupPage_init \<lparr> lk_results := [late_answer] \<rparr>, pgs_network = net \<rparr>"

theorem late_lookup_replaces_balance_witness:
  "\<forall>net. \<exists>p' p'' b. render_frames (-) 4 [frame_to OrderBooks] (waiting_pages net) = Some p' \<and>
     render_frame (-) 4 (frame_to ClientLookup) p' = Some p'' \<and> app_balances (dsh_app (pgs_dashboard p'')) 1 = Some b \<and>
     lb_positions b = [0 \<mapsto> (100, 0), 2 \<mapsto> (5, -5)]"
proof
  fix net
  have nav: "navigate (fi_nav (frame_to OrderBooks)) Trading = OrderBooks" by (simp add: navigate_def kNavItems_def frame_to_def)
  obtain p' where p': "render_frames (-) 4 [frame_to OrderBooks] (waiting_pages net) = Some p'"
    by (simp add: render_frame_def draw_page_def waiting_pages_def nav)
  have h: "pgs_current (waiting_pages net) \<noteq> ClientLookup" "\<forall>i \<in> set [frame_to OrderBooks]. \<not> fi_nav i ClientLookup"
    "lk_results (pgs_lookup (waiting_pages net)) = [] @ [late_answer]" "cbs_ok late_answer" "fi_nav (frame_to ClientLookup) ClientLookup"
    "\<not> fi_query (frame_to ClientLookup)" by (simp_all add: waiting_pages_def frame_to_def late_answer_def)
  have f: "fold (\<lambda>(asset_id, confirmed, attempt) m. m(asset_id \<mapsto> (confirmed, attempt))) (cbs_positions late_answer) Map.empty =
    [0 \<mapsto> (100, 0), 2 \<mapsto> (5, -5)]" "cbs_client_id late_answer = 1" by (simp_all add: late_answer_def)
  from late_lookup_replaces_balance[OF p' h, unfolded f] p'
  show "\<exists>p' p'' b. render_frames (-) 4 [frame_to OrderBooks] (waiting_pages net) = Some p' \<and>
     render_frame (-) 4 (frame_to ClientLookup) p' = Some p'' \<and> app_balances (dsh_app (pgs_dashboard p'')) 1 = Some b \<and>
     lb_positions b = [0 \<mapsto> (100, 0), 2 \<mapsto> (5, -5)]" by blast
qed

section \<open>Depth chart and cards\<close>

lemma cumulate_nth:
  assumes "unat r + (\<Sum>(p, q)\<leftarrow>m. unat q) < 2 ^ 32" "i < length m"
  shows "unat (snd (cumulate r m ! i)) = unat r + (\<Sum>(p, q)\<leftarrow>take (Suc i) m. unat q)"
  using assms
proof (induction r m arbitrary: i rule: cumulate.induct)
  case (2 r p q m)
  have s: "unat (r + q) = unat r + unat q" using 2(2) by (simp add: unat_word_ariths)
  show ?case using 2(1)[of "i - 1"] 2(2,3) s by (cases i) simp_all
qed simp

lemma length_cumulate [simp]: "length (cumulate r m) = length m"
  by (induction r m rule: cumulate.induct) simp_all

lemma cumulate_le_last:
  assumes "(\<Sum>(p, q)\<leftarrow>m. unat q) < 2 ^ 32" "i < length m"
  shows "snd (cumulate 0 m ! i) \<le> snd (last (cumulate 0 m))"
proof -
  have l: "last (cumulate 0 m) = cumulate 0 m ! (length m - 1)" using assms(2) by (metis last_conv_nth length_cumulate list.size(3) not_less_zero)
  have "(\<Sum>(p, q)\<leftarrow>take (Suc i) m. unat q) \<le> (\<Sum>(p, q)\<leftarrow>m. unat q)"
    by (metis append_take_drop_id le_add1 map_append sum_list_append)
  then show ?thesis using cumulate_nth[of 0 m i] cumulate_nth[of 0 m "length m - 1"] assms unfolding l word_le_nat_alt by simp
qed


lemma depth_rects_inside:
  fixes height :: "'f :: floor_ceiling"
  assumes "\<forall>(p, c) \<in> set cum. c \<le> mx" "0 < mx" "0 \<le> height" "(x0, x1, y) \<in> set (depth_rects left half_w height mx cum)"
  shows "0 \<le> y \<and> y \<le> height"
proof -
  obtain i where i: "i < length cum" "y = height - height * (of_nat (unat (snd (cum ! i))) / of_nat (unat mx))"
    using assms(4) by (auto simp: depth_rects_def Let_def)
  have "snd (cum ! i) \<le> mx" using assms(1) nth_mem[OF i(1)] by (auto simp: case_prod_unfold)
  note b = depth_bar_exact[OF this assms(2), where 'f = 'f]
  have "0 \<le> height * depth_bar mx (snd (cum ! i))" "height * depth_bar mx (snd (cum ! i)) \<le> height"
    using b(2,3) assms(3) by (simp_all add: mult_left_le)
  then show ?thesis unfolding i(2) b(1)[symmetric] by simp
qed

lemma depth_chart_max:
  assumes "(\<Sum>(p, q)\<leftarrow>take n (abk_bids book). unat q) < 2 ^ 32" "(\<Sum>(p, q)\<leftarrow>take n (abk_asks book). unat q) < 2 ^ 32"
    and "depth_chart n book = (bid_cum, ask_cum, mx)"
  shows "0 < mx" "\<forall>(p, c) \<in> set bid_cum \<union> set ask_cum. c \<le> mx"
proof -
  have c: "bid_cum = cumulate 0 (take n (abk_bids book))" "ask_cum = cumulate 0 (take n (abk_asks book))"
    and m: "mx = (let m = if bid_cum \<noteq> [] then max 1 (snd (last bid_cum)) else 1 in if ask_cum \<noteq> [] then max m (snd (last ask_cum)) else m)"
    using assms(3) by (auto simp: depth_chart_def Let_def)
  have "(1 :: u32) \<le> mx" unfolding m by (simp add: Let_def le_max_iff_disj)
  then show "0 < mx" by (metis order_less_le_trans word_gt_0 zero_neq_one)
  have last: "c \<le> snd (last cum)" if h: "(p, c) \<in> set cum" "cum = cumulate 0 xs" "(\<Sum>(p, q)\<leftarrow>xs. unat q) < 2 ^ 32"
    for p c cum and xs :: "(i64 \<times> u32) list"
  proof -
    obtain i where "i < length cum" "cum ! i = (p, c)" using h(1) by (auto simp: in_set_conv_nth)
    then show ?thesis using cumulate_le_last[OF h(3), of i] h(2) by simp
  qed
  show "\<forall>(p, c) \<in> set bid_cum \<union> set ask_cum. c \<le> mx"
    using last[OF _ c(1) assms(1)] last[OF _ c(2) assms(2)] unfolding m by (fastforce simp: Let_def le_max_iff_disj)
qed

text \<open>The depth chart stays inside its panel as long as the depth of the levels shown fits 32 bits: every rectangle has its upper edge
  between the top and the bottom.\<close>

theorem depth_chart_inside:
  fixes height :: "'f :: floor_ceiling"
  assumes "draw_depth_chart width height n book = Some v" "0 \<le> height"
    and "(\<Sum>(p, q)\<leftarrow>take n (abk_bids book). unat q) < 2 ^ 32" "(\<Sum>(p, q)\<leftarrow>take n (abk_asks book). unat q) < 2 ^ 32"
  shows "\<forall>(x0, x1, y) \<in> set (dv_bids v) \<union> set (dv_asks v). 0 \<le> y \<and> y \<le> height"
proof -
  obtain bid_cum ask_cum mx where c: "depth_chart n book = (bid_cum, ask_cum, mx)" by (metis prod_cases3)
  have v: "dv_bids v = depth_rects 0 (width / 2) height mx (rev bid_cum)" "dv_asks v = depth_rects (width / 2) (width / 2) height mx ask_cum"
    using assms(1) by (auto simp: draw_depth_chart_def c Let_def split: if_splits)
  note m = depth_chart_max[OF assms(3,4) c]
  have "\<forall>(p, c) \<in> set (rev bid_cum). c \<le> mx" "\<forall>(p, c) \<in> set ask_cum. c \<le> mx" using m(2) by auto
  then show ?thesis unfolding v using depth_rects_inside[OF _ m(1) assms(2)] by blast
qed

theorem depth_chart_inside_witness:
  "\<exists>v. draw_depth_chart 100 (220 :: real) 20 small_book = Some v \<and> (\<forall>(x0, x1, y) \<in> set (dv_bids v) \<union> set (dv_asks v). 0 \<le> y \<and> y \<le> 220)"
proof -
  obtain v where v: "draw_depth_chart 100 (220 :: real) 20 small_book = Some v"
    by (auto simp: draw_depth_chart_def small_book_def depth_chart_def Let_def)
  have s: "(\<Sum>(p, q)\<leftarrow>take 20 (abk_bids small_book). unat q) < 2 ^ 32" "(\<Sum>(p, q)\<leftarrow>take 20 (abk_asks small_book). unat q) < 2 ^ 32"
    by (simp_all add: small_book_def)
  have h: "(0 :: real) \<le> 220" by simp
  show ?thesis using depth_chart_inside[OF v h s] v by blast
qed

text \<open>Two levels whose depths add up to more than 32 bits: the bar of the best level is drawn above the chart.\<close>

theorem depth_chart_overflows:
  "\<exists>v x0 x1 y. draw_depth_chart 100 (220 :: real) 20 \<lparr> abk_bids = [(10, 3000000000), (9, 3000000000)], abk_asks = [] \<rparr> = Some v \<and>
     (x0, x1, y) \<in> set (dv_bids v) \<and> y < 0"
  by (simp add: draw_depth_chart_def depth_chart_def depth_rects_def Let_def)
    (intro exI[of _ "25 :: real"] exI[of _ "50 :: real"] exI[of _ "- (278215630 / 1665071) :: real"], simp)

lemma entries_image: "{(f k, g i) | k i. m k = Some i} = (\<lambda>k. (f k, g (the (m k)))) ` dom m"
  by (force simp: dom_def image_iff)

text \<open>One card for every discovered service, with its address.\<close>

theorem one_card_per_service:
  assumes "finite (dom (app_matching_engines st))" "finite (dom (app_socket_gateways st))" "finite (dom (app_cdp_endpoints st))"
  shows "length (discovery_cards st) =
      card (dom (app_matching_engines st)) + card (dom (app_socket_gateways st)) + card (dom (app_cdp_endpoints st)) \<and>
    (\<lambda>c. (dc_subkey c, dc_addr c, dc_status c)) ` set (discovery_cards st) =
      {(key, mei_addr info, mei_status info) | key info. app_matching_engines st key = Some info} \<union>
      {(''/socket-gateways/'' @ to_string (unat gw_id), asi_addr info, asi_status info) | gw_id info. app_socket_gateways st gw_id = Some info} \<union>
      {(key, asi_addr info, asi_status info) | key info. app_cdp_endpoints st key = Some info}"
proof -
  have e: "set (map_keys m) = dom m" "length (map_keys m) = card (dom m)" if "finite (dom m)" for m :: "'k :: linorder \<Rightarrow> 'v option"
    using that by (simp_all add: map_keys_def)
  show ?thesis unfolding entries_image[where f = "\<lambda>k. k" and g = "\<lambda>i. (mei_addr i, mei_status i)"]
      entries_image[where f = "\<lambda>k. ''/socket-gateways/'' @ to_string (unat k)" and g = "\<lambda>i. (asi_addr i, asi_status i)"]
      entries_image[where f = "\<lambda>k. k" and g = "\<lambda>i. (asi_addr i, asi_status i)"]
    by (simp add: discovery_cards_def e assms image_Un image_image Let_def Un_assoc)
qed

end
