(* ===== verification/Message_Types.thy ===== *)
theory Message_Types
  imports Matching_Props Wire_Market
begin

text \<open>
  The engine keeps its numbers in their types: whatever bytes the orders come from, every price it stores is a 64-bit number and every message
  it queues fits the struct that the emitters copy to the network, so that a receiver reads back what was queued.
\<close>

section \<open>Types in the specification\<close>

definition typed_book :: "abook \<Rightarrow> bool" where
  "typed_book s \<longleftrightarrow> (\<forall>o' \<in> set (ab_Bids s) \<union> set (ab_Asks s). in_i64 (ord_Price o')) \<and>
     (\<forall>r \<in> set (ab_Reports s). wire_report r) \<and> (\<forall>u \<in> set (ab_Updates s). wire_update u) \<and>
     in_i64 (ab_BestAsk s) \<and> in_i64 (ab_BestBid s) \<and> in_i64 (ab_MarketPrice s)"

lemma amount_in_i64 [simp]: "in_i64 (uint (t :: u32))" "in_i64 (- uint (t :: u32))"
proof -
  obtain n where "n = uint t" "0 \<le> n" "n < 2 ^ 32" using uint_lt2p[of t] by simp
  then show "in_i64 (uint t)" "in_i64 (- uint t)" by (simp_all add: in_i64_def flip: \<open>n = uint t\<close>)
qed

lemma wire_trade_reports [simp]: "wire_report (buyer_report a t p o' s)" "wire_report (seller_report a t p o' s)"
  by (simp_all add: wire_report_def buyer_report_def seller_report_def FillReport_def fill_state_def OrderState_of_def)

lemma wire_FillReport:
  assumes "in_i64 x" "st \<in> {FILL, PARTIAL_FILL, CANCEL_STATE, REJECT, ADD}"
  shows "wire_report (FillReport 0 0 x q c i t a b st)"
  using assms by (auto simp: wire_report_def FillReport_def OrderState_of_def in_i64_def)

lemma wire_FillUpdate [simp]: "wire_update (FillUpdate q d p a side) \<longleftrightarrow> in_i64 p"
  by (simp add: wire_update_def FillUpdate_def)

lemma emit_market [simp]: "ab_MarketPrice (emit_report r s) = ab_MarketPrice s" "ab_MarketPrice (emit_update u s) = ab_MarketPrice s"
  by (simp_all add: emit_report_def emit_update_def)

lemma after_trade_prices: "\<forall>o' \<in> set (offer # rest). P (ord_Price o') \<Longrightarrow> \<forall>o' \<in> set (after_trade t offer rest). P (ord_Price o')"
  by (auto simp: after_trade_def less_amount_def)

lemma trade_buy_typed:
  assumes "typed_book s" "ab_Asks s = offer # rest" "trade_buy asset order locked offer rest s = (order', locked', s')"
  shows "typed_book s' \<and> ord_Price order' = ord_Price order"
proof -
  note T = trade_buy_simps[OF assms(3)]
  have "ab_MarketPrice s' \<in> {ab_MarketPrice s, ord_Price offer}" using assms(3) by (auto simp: trade_buy_def Let_def)
  moreover have "\<forall>o' \<in> set (ab_Asks s'). in_i64 (ord_Price o')" unfolding T(2) using assms(1,2)
    by (intro after_trade_prices) (auto simp: typed_book_def)
  moreover have "ord_Price order' = ord_Price order" by (simp add: T(1) less_amount_def)
  ultimately show ?thesis using assms(1,2) by (auto simp: typed_book_def T(3-5,8,9))
qed

lemma trade_sell_typed:
  assumes "typed_book s" "ab_Bids s = offer # rest" "trade_sell asset order locked offer rest s = (order', locked', s')"
  shows "typed_book s' \<and> ord_Price order' = ord_Price order"
proof -
  note T = trade_sell_simps[OF assms(3)]
  have "ab_MarketPrice s' \<in> {ab_MarketPrice s, ord_Price offer}" using assms(3) by (auto simp: trade_sell_def Let_def)
  moreover have "\<forall>o' \<in> set (ab_Bids s'). in_i64 (ord_Price o')" unfolding T(2) using assms(1,2)
    by (intro after_trade_prices) (auto simp: typed_book_def)
  moreover have "ord_Price order' = ord_Price order" by (simp add: T(1) less_amount_def)
  ultimately show ?thesis using assms(1,2) by (auto simp: typed_book_def T(3-5,8,9))
qed

lemma spec_add_typed:
  assumes "typed_book s" "in_i64 (ord_Price order)"
  shows "typed_book (spec_add_buy asset order s)" "typed_book (spec_add_sell asset order s)"
  using assms by (auto simp: typed_book_def spec_add_buy_def spec_add_sell_def Let_def wire_FillReport max_def min_def)

lemma spec_fill_typed:
  assumes "typed_book s" "in_i64 (ord_Price order)"
  shows "typed_book (spec_fill_buy asset order s)" "typed_book (spec_fill_sell asset order s)"
proof -
  let ?P = "\<lambda>o' s. typed_book s \<and> in_i64 (ord_Price o')"
  have step: "typed_book (emit_report (\<lambda>q. FillReport 0 0 (wrap64 x) q c i 0 a b CANCEL_STATE) s)" if "typed_book s" for x c i a b s
    using that by (auto simp: typed_book_def wire_FillReport)
  obtain o1 l1 s1 where b: "sweep_buy (Suc (length (ab_Asks s))) asset order (wrap64 (uint (ord_Amount order) * ord_Price order)) s = (o1, l1, s1)"
    by (metis prod_cases3)
  have "?P o1 s1"
    by (rule sweep_buy_inv[where P = ?P, OF _ _ _ b]) (use assms in \<open>auto simp: typed_book_def dest!: trade_buy_typed[rotated 2]\<close>)
  then show "typed_book (spec_fill_buy asset order s)" unfolding spec_fill_buy_def b by (simp add: step spec_add_typed)
  obtain o2 l2 s2 where c: "sweep_sell (Suc (length (ab_Bids s))) asset order (uint (ord_Amount order)) s = (o2, l2, s2)" by (metis prod_cases3)
  have "?P o2 s2"
    by (rule sweep_sell_inv[where P = ?P, OF _ _ _ c]) (use assms in \<open>auto simp: typed_book_def dest!: trade_sell_typed[rotated 2]\<close>)
  then show "typed_book (spec_fill_sell asset order s)" unfolding spec_fill_sell_def c by (simp add: step spec_add_typed)
qed

lemma spec_cancel_typed:
  assumes "typed_book s" "in_i64 (ord_Price target)"
  shows "typed_book (spec_cancel_buy asset target s)" "typed_book (spec_cancel_sell asset target s)"
  using assms by (auto simp: typed_book_def spec_cancel_buy_def spec_cancel_sell_def Let_def remove_id_def wire_FillReport)

lemma spec_handle_typed:
  assumes "typed_book s" "in_i64 (ord_Price order)"
  shows "typed_book (spec_handle asset order s)"
proof -
  have t: "in_i64 (ord_Price t)" if "find (is_target order) (ab_Bids s @ ab_Asks s) = Some t" for t
    using that assms(1) by (auto simp: find_Some_iff typed_book_def set_append[symmetric] simp del: set_append dest!: nth_mem)
  have "typed_book (spec_reject order s)" using assms(1) by (auto simp: typed_book_def spec_reject_def wire_FillReport in_i64_def)
  then show ?thesis using assms t
    by (auto simp: spec_handle_def spec_execute_def spec_fill_typed spec_add_typed spec_cancel_typed split: option.split)
qed

section \<open>Types in the engine\<close>

text \<open>A step of the engine on an order that was received as bytes, or of an emitter.\<close>

inductive wire_step :: "BidAsk \<Rightarrow> BidAsk \<Rightarrow> bool" where
  wire_order: "order = decode_Order bs \<Longrightarrow> resources order b \<Longrightarrow> (ord_Action order = CANCEL \<longrightarrow> side_matches order b) \<Longrightarrow>
    handle_order order b = Some b' \<Longrightarrow> wire_step b b'"
| wire_reports: "TryConsume n (\<lambda>ms sent. sent @ ms) (ba_Reports b) [] = Some (sent, ob) \<Longrightarrow> wire_step b (b \<lparr> ba_Reports := ob \<rparr>)"
| wire_updates: "TryConsume n (\<lambda>ms sent. sent @ ms) (ba_Updates b) [] = Some (sent, ob) \<Longrightarrow> wire_step b (b \<lparr> ba_Updates := ob \<rparr>)"

definition typed_engine :: "BidAsk \<Rightarrow> bool" where
  "typed_engine b \<longleftrightarrow> (\<exists>LB LA. engine_inv b LB LA \<and> typed_book (book_abs b LB LA))"

lemma wire_step_typed:
  assumes "wire_step b b'" "typed_engine b"
  shows "typed_engine b'"
  using assms
proof (induction rule: wire_step.induct)
  case (wire_order order bs b b')
  then obtain LB LA where i: "engine_inv b LB LA" "typed_book (book_abs b LB LA)" by (auto simp: typed_engine_def)
  have "in_i64 (ord_Price order)" by (simp add: wire_order(1) decode_Order_def)
  from spec_handle_typed[OF i(2) this] handle_order_ok[OF i(1) wire_order(2,3)] wire_order(4) show ?case
    unfolding typed_engine_def by (metis option.inject)
next
  case (wire_reports n b sent ob)
  then obtain LB LA where i: "engine_inv b LB LA" "typed_book (book_abs b LB LA)" by (auto simp: typed_engine_def)
  then have "outbox_inv (ba_Reports b)" by (simp add: engine_inv_def ba_inv_def)
  from TryConsume_ok[OF this refl, of n "\<lambda>ms sent. sent @ ms" "[]"] wire_reports(1) have
    "outbox_inv ob" "set (outbox_msgs ob) \<subseteq> set (outbox_msgs (ba_Reports b))" by (auto dest: in_set_dropD)
  with i(2) have "typed_book (book_abs (b \<lparr> ba_Reports := ob \<rparr>) LB LA)" by (auto simp: typed_book_def book_abs_def)
  with engine_inv_outbox(1)[OF i(1)] \<open>outbox_inv ob\<close> show ?case unfolding typed_engine_def by blast
next
  case (wire_updates n b sent ob)
  then obtain LB LA where i: "engine_inv b LB LA" "typed_book (book_abs b LB LA)" by (auto simp: typed_engine_def)
  then have "outbox_inv (ba_Updates b)" by (simp add: engine_inv_def ba_inv_def)
  from TryConsume_ok[OF this refl, of n "\<lambda>ms sent. sent @ ms" "[]"] wire_updates(1) have
    "outbox_inv ob" "set (outbox_msgs ob) \<subseteq> set (outbox_msgs (ba_Updates b))" by (auto dest: in_set_dropD)
  with i(2) have "typed_book (book_abs (b \<lparr> ba_Updates := ob \<rparr>) LB LA)" by (auto simp: typed_book_def book_abs_def)
  with engine_inv_outbox(2)[OF i(1)] \<open>outbox_inv ob\<close> show ?case unfolding typed_engine_def by blast
qed

lemma new_engine_typed:
  assumes "conf_ok cf" "in_i64 initialPrice" "new_engine cf assetId initialPrice reportSeq bookSeq seedBid seedAsk = Some b"
  shows "typed_engine b"
  using new_engine_ok[OF assms(1), of assetId initialPrice reportSeq bookSeq seedBid seedAsk] assms(2,3)
  by (force simp: typed_engine_def typed_book_def in_i64_def INT64_MAX_def INT64_MIN_def)

text \<open>The types of the engine: in every state that a new engine reaches by executing orders received as any bytes and by its emitters, the
  best prices and the market price are 64-bit numbers, and every report and every book update that waits to be sent fits its struct: the
  bytes an emitter copies decode to the same message.\<close>

theorem engine_messages_well_typed:
  assumes "conf_ok cf" "in_i64 initialPrice" "new_engine cf assetId initialPrice reportSeq bookSeq seedBid seedAsk = Some b0" "wire_step\<^sup>*\<^sup>* b0 b"
  shows "in_i64 (ba_BestAskPrice b) \<and> in_i64 (ba_BestBidPrice b) \<and> in_i64 (ba_MarketPrice b) \<and>
    (\<forall>r \<in> set (outbox_msgs (ba_Reports b)). wire_report r \<and> decode_OrderStateReport (encode_OrderStateReport r) = r) \<and>
    (\<forall>u \<in> set (outbox_msgs (ba_Updates b)). wire_update u \<and> decode_OrderBookUpdate (encode_OrderBookUpdate u) = u)"
proof -
  have "typed_engine b" using assms(4)
  proof (induction rule: rtranclp_induct)
    case base
    show ?case by (rule new_engine_typed[OF assms(1-3)])
  next
    case (step y z)
    then show ?case using wire_step_typed by blast
  qed
  then show ?thesis using report_roundtrip(2) update_roundtrip(2) by (auto simp: typed_engine_def typed_book_def book_abs_def)
qed

text \<open>A buy of 8 at 103, received as bytes.\<close>

definition typed_buy :: Order where
  "typed_buy = demo_buy \<lparr> ord_Padding := replicate 7 0 \<rparr>"

theorem engine_messages_well_typed_witness:
  "\<exists>b. wire_step demo_empty b \<and> (\<forall>r \<in> set (outbox_msgs (ba_Reports b)). decode_OrderStateReport (encode_OrderStateReport r) = r)"
proof -
  have w: "wire_order typed_buy" by (simp add: wire_order_def typed_buy_def demo_buy_def demo_order_def no_order_def in_i64_def
        OrderType_of_def OrderSide_of_def OrderAction_of_def)
  have r: "resources typed_buy demo_empty" by code_simp
  have a: "ord_Action typed_buy = CANCEL \<longrightarrow> side_matches typed_buy demo_empty" by (simp add: typed_buy_def demo_buy_def demo_order_def)
  from handle_order_ok[OF demo_empty_ok(2) r a] obtain b where b: "handle_order typed_buy demo_empty = Some b" by blast
  have s: "wire_step demo_empty b" using wire_step.wire_order[OF _ r a b] decode_encode_Order[OF w] by metis
  have "in_i64 100" by (simp add: in_i64_def)
  from engine_messages_well_typed[OF demo_conf_ok this demo_empty_ok(1) r_into_rtranclp[of wire_step, OF s]] s show ?thesis by blast
qed

end
