(* ===== verification/Process_Setup.thy ===== *)
theory Process_Setup
  imports Multicast
begin

text \<open>
  Bringing a process up: the descriptor limit (\<open>common/src/file_descriptors_ops.cpp\<close>), the listening socket
  (\<open>common/include/epoll_server.ipp\<close>), the packet port of the two report receivers (\<open>trade_report_receiver.hpp\<close> of the
  gateway and of the account service) and of the engine's emitters (\<open>matching_engine/include/market_data_emitters.hpp\<close>), which are placed on the cores
  the packet library offers.  What the system and the packet library answer are arguments; a start-up that gives up is a
  value of its own.
\<close>

datatype 'a startup = Started 'a | Exited | Terminated

section \<open>The descriptor limit\<close>

text \<open>The limits of the process in the kernel, and the value the program remembers.  \<open>setrlimit\<close> refuses a soft limit above
  the hard one; \<open>getrlimit\<close> answers \<open>ok\<close>.\<close>

record rlimit =
  rl_cur :: nat
  rl_max :: nat

record FileDescriptorsOps =
  fdo_Kernel :: rlimit
  fdo_MaxFd :: "nat option"

definition getRLimit :: "bool \<Rightarrow> FileDescriptorsOps \<Rightarrow> rlimit option" where
  "getRLimit ok s = (if ok then Some (fdo_Kernel s) else None)"

definition setrlimit :: "rlimit \<Rightarrow> FileDescriptorsOps \<Rightarrow> bool \<times> FileDescriptorsOps" where
  "setrlimit rl s = (if rl_cur rl \<le> rl_max rl then (True, s \<lparr> fdo_Kernel := rl \<rparr>) else (False, s))"

definition findMaxFd :: "bool \<Rightarrow> FileDescriptorsOps \<Rightarrow> nat \<times> FileDescriptorsOps" where
  "findMaxFd ok s =
     (case getRLimit ok s of None \<Rightarrow> (0, s) | Some rl \<Rightarrow> (rl_cur rl, s \<lparr> fdo_MaxFd := Some (rl_cur rl) \<rparr>))"

definition setMaxFd :: "bool \<Rightarrow> nat \<Rightarrow> FileDescriptorsOps \<Rightarrow> FileDescriptorsOps" where
  "setMaxFd ok nb_fds s =
     (case getRLimit ok s of
        None \<Rightarrow> s
      | Some rl \<Rightarrow> (case setrlimit (rl \<lparr> rl_cur := nb_fds \<rparr>) s of (_, s) \<Rightarrow> s \<lparr> fdo_MaxFd := Some nb_fds \<rparr>))"

definition capMaxFd :: "bool \<Rightarrow> FileDescriptorsOps \<Rightarrow> FileDescriptorsOps" where
  "capMaxFd ok s = (case getRLimit ok s of None \<Rightarrow> s | Some rl \<Rightarrow> setMaxFd ok (rl_max rl) s)"

definition getMaxFd :: "bool \<Rightarrow> FileDescriptorsOps \<Rightarrow> nat \<times> FileDescriptorsOps" where
  "getMaxFd ok s = (case fdo_MaxFd s of Some n \<Rightarrow> (n, s) | None \<Rightarrow> findMaxFd ok s)"

text \<open>The remembered limit, where there is one, is the soft limit of the kernel.\<close>

definition limit_known :: "FileDescriptorsOps \<Rightarrow> bool" where
  "limit_known s \<longleftrightarrow> (\<forall>n. fdo_MaxFd s = Some n \<longrightarrow> n = rl_cur (fdo_Kernel s))"

lemma limit_known_ops:
  assumes "limit_known s"
  shows "limit_known (snd (findMaxFd ok s))" "limit_known (capMaxFd ok s)" "limit_known (snd (getMaxFd ok s))"
    "nb_fds \<le> rl_max (fdo_Kernel s) \<Longrightarrow> limit_known (setMaxFd ok nb_fds s)"
  using assms
  by (auto simp: limit_known_def findMaxFd_def getRLimit_def capMaxFd_def setMaxFd_def setrlimit_def getMaxFd_def split: option.splits)

lemma getMaxFd_limit:
  "limit_known s \<Longrightarrow> fst (getMaxFd True s) = rl_cur (fdo_Kernel s)"
  by (auto simp: limit_known_def getMaxFd_def findMaxFd_def getRLimit_def split: option.splits)

text \<open>The tables a server sizes with \<open>getMaxFd\<close> have a slot for every descriptor the kernel hands out: after a limit within the
  hard limit is set, \<open>getMaxFd\<close> answers it and it is the kernel's; above the hard limit the kernel keeps its own limit and the program
  believes the one it asked for.\<close>

theorem setMaxFd_believed:
  "fst (getMaxFd True (setMaxFd True nb_fds s)) = nb_fds \<and>
   rl_cur (fdo_Kernel (setMaxFd True nb_fds s)) = (if nb_fds \<le> rl_max (fdo_Kernel s) then nb_fds else rl_cur (fdo_Kernel s))"
  by (simp add: getMaxFd_def setMaxFd_def getRLimit_def setrlimit_def)

section \<open>The listening socket\<close>

text \<open>The answers of the system to the calls of \<open>initSocket\<close>; the result are the two descriptors.\<close>

record socket_answers =
  sa_socket :: int
  sa_getfl :: int
  sa_setfl :: int
  sa_bind :: int
  sa_listen :: int
  sa_epoll_create :: int
  sa_epoll_ctl :: int

definition setNonBlocking :: "socket_answers \<Rightarrow> bool" where
  "setNonBlocking a \<longleftrightarrow> sa_getfl a \<noteq> - 1 \<and> sa_setfl a \<noteq> - 1"

definition initSocket :: "socket_answers \<Rightarrow> (int \<times> int) startup" where
  "initSocket a =
     (if sa_socket a = - 1 then Exited
      else if \<not> setNonBlocking a then Exited
      else if sa_bind a = - 1 then Exited
      else if sa_listen a = - 1 then Exited
      else if sa_epoll_create a = - 1 then Exited
      else if sa_epoll_ctl a = - 1 then Exited
      else Started (sa_socket a, sa_epoll_create a))"

section \<open>The port of a report receiver\<close>

text \<open>Joining the group: a filter for its address, else all multicast, else everything.\<close>

record port_answers =
  pa_eal_init :: int
  pa_dev_configure :: int
  pa_queue_setup :: int
  pa_mac_addr_add :: int
  pa_allmulticast :: int
  pa_promiscuous :: int
  pa_macaddr_get :: int
  pa_dev_start :: int

definition open_receiver :: "port_answers \<Rightarrow> nat \<Rightarrow> u32 \<Rightarrow> u16 \<Rightarrow> 'a outbox \<Rightarrow> 'a UdpMulticastReceiver startup" where
  "open_receiver a RingBufferSize dstIp dstPort ob =
     (if pa_queue_setup a < 0 then Exited
      else if pa_mac_addr_add a \<noteq> 0 \<and> pa_allmulticast a \<noteq> 0 \<and> pa_promiscuous a \<noteq> 0 then Exited
      else Started (UdpMulticastReceiver_init RingBufferSize dstIp dstPort ob))"

definition TradeReportReceiver_init ::
  "port_answers \<Rightarrow> nat \<Rightarrow> u32 \<Rightarrow> u16 \<Rightarrow> OrderStateReport outbox \<Rightarrow> OrderStateReport UdpMulticastReceiver startup" where
  "TradeReportReceiver_init a RingBufferSize dstIp dstPort ob =
     (if pa_eal_init a < 0 then Terminated
      else if pa_dev_configure a < 0 then Exited
      else (case open_receiver a RingBufferSize dstIp dstPort ob of
              Started r \<Rightarrow> if pa_dev_start a < 0 then Exited else Started r
            | e \<Rightarrow> e))"

section \<open>The emitters of the engine\<close>

text \<open>An emitter with the transmit queue and the core it was constructed with.\<close>

record placed_emitter =
  ple_Emitter :: UdpMulticastEmitter
  ple_QueueId :: int
  ple_LcoreId :: nat

record MarketDataEmitters =
  mde_BookEmitter :: "placed_emitter option"
  mde_TradeEmitter :: "placed_emitter option"

text \<open>The loop over the cores: \<open>book\<close> and \<open>trade\<close> construct the emitters for a queue and a core.\<close>

fun assign_lcores ::
  "(int \<Rightarrow> nat \<Rightarrow> placed_emitter) \<Rightarrow> (int \<Rightarrow> nat \<Rightarrow> placed_emitter) \<Rightarrow> nat \<Rightarrow> nat list \<Rightarrow> int \<Rightarrow> bool \<Rightarrow> MarketDataEmitters \<Rightarrow> MarketDataEmitters" where
  "assign_lcores book trade mainLcore [] assignedQueues mainLcoreComing s = s"
| "assign_lcores book trade mainLcore (lcoreId # lcores) assignedQueues mainLcoreComing s =
     (if lcoreId = mainLcore
      then assign_lcores book trade mainLcore lcores (assignedQueues + 1) False (s \<lparr> mde_BookEmitter := Some (book assignedQueues lcoreId) \<rparr>)
      else if assignedQueues + (if mainLcoreComing then 1 else 0) = 1
      then assign_lcores book trade mainLcore lcores (assignedQueues + 1) mainLcoreComing (s \<lparr> mde_TradeEmitter := Some (trade assignedQueues lcoreId) \<rparr>)
      else assign_lcores book trade mainLcore lcores assignedQueues mainLcoreComing s)"

definition MarketDataEmitters_init ::
  "port_answers \<Rightarrow> u8 list \<Rightarrow> nat list \<Rightarrow> nat \<Rightarrow> u32 \<Rightarrow> u16 \<Rightarrow> u32 \<Rightarrow> u16 \<Rightarrow> u32 \<Rightarrow> u16 \<Rightarrow> MarketDataEmitters startup" where
  "MarketDataEmitters_init a mac lcores mainLcore srcIp srcPort dstOrderIp dstOrderPort dstBookIp dstBookPort =
     (if pa_eal_init a < 0 then Terminated
      else if pa_dev_configure a < 0 then Exited
      else
        let book = (\<lambda>q l. \<lparr> ple_Emitter = UdpMulticastEmitter_init mac srcIp dstBookIp srcPort dstBookPort, ple_QueueId = q, ple_LcoreId = l \<rparr>);
            trade = (\<lambda>q l. \<lparr> ple_Emitter = UdpMulticastEmitter_init mac srcIp dstOrderIp srcPort dstOrderPort, ple_QueueId = q, ple_LcoreId = l \<rparr>);
            s = assign_lcores book trade mainLcore lcores 0 True \<lparr> mde_BookEmitter = None, mde_TradeEmitter = None \<rparr>
        in if pa_queue_setup a < 0 \<or> pa_macaddr_get a \<noteq> 0 then Exited
           else if mde_BookEmitter s = None \<or> mde_TradeEmitter s = None then Exited
           else if pa_dev_start a < 0 then Exited
           else Started s)"

lemma assign_full: "mainLcore \<notin> set lcores \<Longrightarrow> assign_lcores book trade mainLcore lcores 2 False s = s"
  by (induction lcores) auto

lemma assign_trade_after_main:
  "mainLcore \<notin> set lcores \<Longrightarrow> assign_lcores book trade mainLcore lcores 1 False s =
     (case lcores of [] \<Rightarrow> s | l # _ \<Rightarrow> s \<lparr> mde_TradeEmitter := Some (trade 1 l) \<rparr>)"
  by (cases lcores) (auto simp: assign_full)

lemma assign_skip_to_main:
  "mainLcore \<notin> set pre \<Longrightarrow> assign_lcores book trade mainLcore (pre @ mainLcore # post) 1 True s =
     assign_lcores book trade mainLcore post 2 False (s \<lparr> mde_BookEmitter := Some (book 1 mainLcore) \<rparr>)"
  by (induction pre) auto

lemma assign_lcores_eq:
  assumes "distinct lcores" "lcores = pre @ mainLcore # post"
  shows "assign_lcores book trade mainLcore lcores 0 True \<lparr> mde_BookEmitter = None, mde_TradeEmitter = None \<rparr> =
    (case pre of
       x # _ \<Rightarrow> \<lparr> mde_BookEmitter = Some (book 1 mainLcore), mde_TradeEmitter = Some (trade 0 x) \<rparr>
     | [] \<Rightarrow> \<lparr> mde_BookEmitter = Some (book 0 mainLcore), mde_TradeEmitter = (case post of [] \<Rightarrow> None | y # _ \<Rightarrow> Some (trade 1 y)) \<rparr>)"
  using assms by (cases pre) (auto simp: assign_skip_to_main assign_full assign_trade_after_main split: list.splits)

lemma emitters_init:
  assumes "distinct lcores" "mainLcore \<in> set lcores"
    and "0 \<le> pa_eal_init a" "0 \<le> pa_dev_configure a" "0 \<le> pa_queue_setup a" "pa_macaddr_get a = 0" "0 \<le> pa_dev_start a"
  shows "if length lcores = 1
    then MarketDataEmitters_init a mac lcores mainLcore srcIp srcPort dstOrderIp dstOrderPort dstBookIp dstBookPort = Exited
    else \<exists>b t. MarketDataEmitters_init a mac lcores mainLcore srcIp srcPort dstOrderIp dstOrderPort dstBookIp dstBookPort =
        Started \<lparr> mde_BookEmitter = Some b, mde_TradeEmitter = Some t \<rparr> \<and>
      ple_LcoreId b = mainLcore \<and> ple_LcoreId t \<in> set lcores - {mainLcore} \<and> {ple_QueueId b, ple_QueueId t} = {0, 1} \<and>
      ple_Emitter b = UdpMulticastEmitter_init mac srcIp dstBookIp srcPort dstBookPort \<and>
      ple_Emitter t = UdpMulticastEmitter_init mac srcIp dstOrderIp srcPort dstOrderPort"
proof -
  from assms(2) obtain pre post where l: "lcores = pre @ mainLcore # post" by (meson split_list)
  have one: "length lcores = 1 \<longleftrightarrow> pre = [] \<and> post = []" by (auto simp: l)
  show ?thesis
    using assms unfolding one MarketDataEmitters_init_def Let_def assign_lcores_eq[OF assms(1) l]
    by (auto simp: l split: list.splits)
qed

text \<open>With at least two cores, one of them the main one, the book emitter runs on the main core and the report emitter on another, each
  with a transmit queue of its own of the two the port has, and each sends to its own group; with one core the engine exits.\<close>

theorem emitters_placed:
  assumes "distinct lcores" "mainLcore \<in> set lcores"
    and "0 \<le> pa_eal_init a" "0 \<le> pa_dev_configure a" "0 \<le> pa_queue_setup a" "pa_macaddr_get a = 0" "0 \<le> pa_dev_start a"
  shows "if length lcores = 1
    then MarketDataEmitters_init a mac lcores mainLcore srcIp srcPort dstOrderIp dstOrderPort dstBookIp dstBookPort = Exited
    else \<exists>b t. MarketDataEmitters_init a mac lcores mainLcore srcIp srcPort dstOrderIp dstOrderPort dstBookIp dstBookPort =
        Started \<lparr> mde_BookEmitter = Some b, mde_TradeEmitter = Some t \<rparr> \<and>
      ple_LcoreId b = mainLcore \<and> ple_LcoreId t \<in> set lcores - {mainLcore} \<and> {ple_QueueId b, ple_QueueId t} = {0, 1} \<and>
      (ume_DstIp (ple_Emitter b), ume_DstPort (ple_Emitter b)) = (dstBookIp, dstBookPort) \<and>
      (ume_DstIp (ple_Emitter t), ume_DstPort (ple_Emitter t)) = (dstOrderIp, dstOrderPort)"
  using emitters_init[OF assms, of mac srcIp srcPort dstOrderIp dstOrderPort dstBookIp dstBookPort]
  by (auto simp: UdpMulticastEmitter_init_def split: if_splits)

definition quiet_port :: port_answers where
  "quiet_port = \<lparr> pa_eal_init = 0, pa_dev_configure = 0, pa_queue_setup = 0, pa_mac_addr_add = 0, pa_allmulticast = 0, pa_promiscuous = 0,
     pa_macaddr_get = 0, pa_dev_start = 0 \<rparr>"

theorem emitters_placed_witness:
  "\<exists>b t. MarketDataEmitters_init quiet_port [2, 0, 0, 0, 0, 1] [1, 2, 5] 2 10 30000 20 30001 21 30002 =
      Started \<lparr> mde_BookEmitter = Some b, mde_TradeEmitter = Some t \<rparr> \<and> ple_LcoreId b = 2 \<and> {ple_QueueId b, ple_QueueId t} = {0, 1}"
  using emitters_placed[of "[1, 2, 5]" 2 quiet_port "[2, 0, 0, 0, 0, 1]" 10 30000 20 30001 21 30002]
  by (auto simp: quiet_port_def)

end
