(* ===== verification/Deployment.thy ===== *)
theory Deployment
  imports Settlement Process_Setup Dashboard Shared_Memory
begin

text \<open>
  What the three \<open>main\<close> functions of the servers start: the sizes of \<open>system_conf.hpp\<close> as the types of
  \<open>matching_engine_types.hpp\<close> use them, the arguments each program is constructed with, the constructor of the engine
  (\<open>matching_engine.hpp\<close>) and the accounts the account service begins with.  The programs agree on the addresses of the feeds, and the
  configuration meets what the theorems on the engine and on settlement assume.
\<close>

section \<open>Sizes\<close>

definition system_engine_conf :: engine_conf where
  "system_engine_conf =
   \<lparr> cfg_Nodes = MeOrderNodePoolSize, cfg_Levels = MePriceLevelPoolSize, cfg_SkipNodes = MeSkipListNodePoolSize,
     cfg_SkipMaxLevel = MeSkipListMaxLevel, cfg_OrderMapBits = 12, cfg_FastMapBits = 10, cfg_ReportBits = 15, cfg_UpdateBits = 15 \<rparr>"

section \<open>The engine\<close>

definition RTE_IPV4 :: "u32 \<Rightarrow> u32 \<Rightarrow> u32 \<Rightarrow> u32 \<Rightarrow> u32" where
  "RTE_IPV4 a b c d = push_bit 24 (a AND 255) OR push_bit 16 (b AND 255) OR push_bit 8 (c AND 255) OR (d AND 255)"

text \<open>The parameters of the constructor in the build with shared memory, in their order.\<close>

record engine_args =
  ea_assetId :: u32
  ea_initialPrice :: i64
  ea_nb_fds :: nat
  ea_portId :: u16
  ea_nbTxQueueSlots :: u16
  ea_poolSize :: nat
  ea_srcIp :: u32
  ea_srcPort :: u16
  ea_dstOrderIp :: u32
  ea_dstOrderPort :: u16
  ea_dstBookIp :: u32
  ea_dstBookPort :: u16

text \<open>The arguments \<open>main\<close> passes; the one it calls \<open>port\<close> takes the place of \<open>nb_fds\<close>.\<close>

definition engine_main :: engine_args where
  "engine_main =
   \<lparr> ea_assetId = 1, ea_initialPrice = 5, ea_nb_fds = 8080, ea_portId = 0, ea_nbTxQueueSlots = 512,
     ea_poolSize = MeOrderStateQueueSize + MeOrderBookUpdateQueueSize, ea_srcIp = RTE_IPV4 10 0 0 20, ea_srcPort = 30000,
     ea_dstOrderIp = RTE_IPV4 239 1 1 1, ea_dstOrderPort = 30001, ea_dstBookIp = RTE_IPV4 239 1 1 2, ea_dstBookPort = 30002 \<rparr>"

text \<open>The constructor: the shared queue (which may be missing, as nothing tests it), the book, the emitters (which may end the process), then
  the descriptor limit.  \<open>shm_ok\<close> are the answers to the calls for the shared memory; members that the source leaves without an initial value
  (the two sequence counters) and the seeds of the skip lists are arguments.\<close>

definition MatchingEngine_init ::
  "engine_conf \<Rightarrow> u32 \<times> u32 \<times> u64 \<times> u64 \<Rightarrow> bool \<times> bool \<times> bool \<Rightarrow> Order channel \<Rightarrow> port_answers \<Rightarrow> u8 list \<Rightarrow> nat list \<Rightarrow> nat \<Rightarrow> bool \<Rightarrow>
   engine_args \<Rightarrow> Order channel shm \<Rightarrow> FileDescriptorsOps \<Rightarrow>
   (BidAsk \<times> nat option \<times> Order channel shm \<times> MarketDataEmitters \<times> FileDescriptorsOps) startup option" where
  "MatchingEngine_init cf seeds shm_ok fresh a mac lcores mainLcore rlimit_ok ea mem fds =
     (case (seeds, shm_ok) of ((reportSeq, bookSeq, seedBid, seedAsk), (opened, truncated, mapped)) \<Rightarrow>
        case CreateSharedQueue opened truncated mapped fresh mem of (incoming, mem) \<Rightarrow> do {
          book \<leftarrow> new_engine cf (ea_assetId ea) (ea_initialPrice ea) reportSeq bookSeq seedBid seedAsk;
          Some (case MarketDataEmitters_init a mac lcores mainLcore (ea_srcIp ea) (ea_srcPort ea) (ea_dstOrderIp ea) (ea_dstOrderPort ea)
              (ea_dstBookIp ea) (ea_dstBookPort ea) of
            Started e \<Rightarrow> Started (book, incoming, mem, e, setMaxFd rlimit_ok (ea_nb_fds ea) fds)
          | Exited \<Rightarrow> Exited
          | Terminated \<Rightarrow> Terminated) })"

section \<open>The gateway and the account service\<close>

record receiver_args =
  ra_portId :: u16
  ra_nbRxQueueSlots :: u16
  ra_poolSize :: nat
  ra_dstIp :: u32
  ra_dstPort :: u16
  ra_port :: nat
  ra_maxEvents :: nat
  ra_maxPending :: nat

definition gateway_main :: receiver_args where
  "gateway_main = \<lparr> ra_portId = 0, ra_nbRxQueueSlots = 256, ra_poolSize = 16384, ra_dstIp = RTE_IPV4 239 1 1 1, ra_dstPort = 30001,
     ra_port = 8081, ra_maxEvents = 16, ra_maxPending = 16 \<rparr>"

definition account_main :: receiver_args where
  "account_main = \<lparr> ra_portId = 0, ra_nbRxQueueSlots = 256, ra_poolSize = 1024, ra_dstIp = RTE_IPV4 239 1 1 1, ra_dstPort = 30001,
     ra_port = 8082, ra_maxEvents = 16, ra_maxPending = 16 \<rparr>"

definition testKey :: "u8 list" where
  "testKey = [0x74, 0xc6, 0x89, 0xd7, 0x45, 0x4c, 0x46, 0x6c, 0x30, 0xcb, 0x39, 0x99, 0x3d, 0xeb, 0xb1, 0x82,
     0xb1, 0xc2, 0x5f, 0x58, 0x27, 0xae, 0x85, 0x86, 0xdd, 0xaa, 0x92, 0xee, 0x7d, 0x94, 0xd1, 0x38]"

definition NbClients :: nat where "NbClients = 12"

definition test_client :: "nat \<Rightarrow> as_ClientState" where
  "test_client i =
   \<lparr> asl_ClientId = of_nat i, asl_Key = testKey, asl_AssetId = map of_nat [0..<16], asl_Confirmed = replicate 16 10000000000000,
     asl_Attempt = replicate 16 0, asl_Authorized = 0, asl_Connected = - 1 \<rparr>"

definition test_clients :: "as_ClientState list" where
  "test_clients = map test_client [0..<NbClients]"

section \<open>The dashboard's defaults\<close>

definition kOrderStateMcastGroup :: string where "kOrderStateMcastGroup = ''239.1.1.1''"
definition kOrderStateMcastPort :: u16 where "kOrderStateMcastPort = 30001"
definition kOrderBookMcastGroup :: string where "kOrderBookMcastGroup = ''239.1.1.2''"
definition kOrderBookMcastPort :: u16 where "kOrderBookMcastPort = 30002"

definition order_state_endpoint :: "string option \<Rightarrow> (string \<times> u16) option" where
  "order_state_endpoint env = resolve_mcast_endpoint env kOrderStateMcastGroup kOrderStateMcastPort"

definition order_book_endpoint :: "string option \<Rightarrow> (string \<times> u16) option" where
  "order_book_endpoint env = resolve_mcast_endpoint env kOrderBookMcastGroup kOrderBookMcastPort"

section \<open>The deployment works together\<close>

definition dotted :: "u32 \<Rightarrow> string" where
  "dotted ip = to_string (unat (drop_bit 24 ip)) @ CHR ''.'' # to_string (unat (drop_bit 16 ip AND 255)) @ CHR ''.'' #
     to_string (unat (drop_bit 8 ip AND 255)) @ CHR ''.'' # to_string (unat (ip AND 255))"

lemma system_engine_conf_ok: "conf_ok system_engine_conf" "2 ^ cfg_OrderMapBits system_engine_conf = MeOrderMapSize"
  "2 ^ cfg_FastMapBits system_engine_conf = MeFastMapSize" "2 ^ cfg_ReportBits system_engine_conf = MeOrderStatePoolSize"
  "2 ^ cfg_UpdateBits system_engine_conf = MeOrderBookUpdatePoolSize"
  by (simp_all add: conf_ok_def system_engine_conf_def MeOrderNodePoolSize_def MeSkipListNodePoolSize_def MeOrderMapSize_def MeFastMapSize_def
      MeOrderStatePoolSize_def MeOrderBookUpdatePoolSize_def)

text \<open>The engine that \<open>main\<close> constructs, with the sizes of \<open>system_conf.hpp\<close>, on a packet port that answers and at least two cores: it
  starts with an empty book that satisfies the engine's invariant and a queue that a gateway can open, its two emitters send reports and book updates to exactly the groups and
  ports that the gateway, the account service and, without environment variables, the dashboard listen to, and it believes that it may
  open 8080 files.\<close>

theorem deployed_engine_starts:
  assumes lcores: "distinct lcores" "mainLcore \<in> set lcores" "2 \<le> length lcores"
    and port: "0 \<le> pa_eal_init a" "0 \<le> pa_dev_configure a" "0 \<le> pa_queue_setup a" "pa_macaddr_get a = 0" "0 \<le> pa_dev_start a"
  shows "\<exists>b q mem' e t fds'. MatchingEngine_init system_engine_conf seeds (True, True, True) fresh a mac lcores mainLcore True engine_main mem fds =
      Some (Started (b, Some q, mem', \<lparr> mde_BookEmitter = Some e, mde_TradeEmitter = Some t \<rparr>, fds')) \<and>
    OpenSharedQueue True True mem' = Some q \<and> shm_Object mem' q = fresh \<and>
    engine_inv b [] [] \<and> ba_MarketAssetId b = 1 \<and> ba_MarketPrice b = 5 \<and> fst (getMaxFd True fds') = 8080 \<and>
    (ume_DstIp (ple_Emitter t), ume_DstPort (ple_Emitter t)) = (ra_dstIp gateway_main, ra_dstPort gateway_main) \<and>
    (ume_DstIp (ple_Emitter t), ume_DstPort (ple_Emitter t)) = (ra_dstIp account_main, ra_dstPort account_main) \<and>
    order_state_endpoint None = Some (dotted (ume_DstIp (ple_Emitter t)), ume_DstPort (ple_Emitter t)) \<and>
    order_book_endpoint None = Some (dotted (ume_DstIp (ple_Emitter e)), ume_DstPort (ple_Emitter e))"
proof -
  obtain rs bs sb sa where seeds: "seeds = (rs, bs, sb, sa)" by (metis prod.exhaust)
  have "length lcores \<noteq> 1" using lcores(3) by simp
  with emitters_init[OF lcores(1,2) port, of mac "ea_srcIp engine_main" "ea_srcPort engine_main" "ea_dstOrderIp engine_main" "ea_dstOrderPort engine_main"
      "ea_dstBookIp engine_main" "ea_dstBookPort engine_main"] obtain e t where
    e: "MarketDataEmitters_init a mac lcores mainLcore (ea_srcIp engine_main) (ea_srcPort engine_main) (ea_dstOrderIp engine_main)
        (ea_dstOrderPort engine_main) (ea_dstBookIp engine_main) (ea_dstBookPort engine_main) = Started \<lparr> mde_BookEmitter = Some e, mde_TradeEmitter = Some t \<rparr>"
      "ume_DstIp (ple_Emitter e) = RTE_IPV4 239 1 1 2" "ume_DstPort (ple_Emitter e) = 30002"
      "ume_DstIp (ple_Emitter t) = RTE_IPV4 239 1 1 1" "ume_DstPort (ple_Emitter t) = 30001"
    by (auto simp: UdpMulticastEmitter_init_def engine_main_def)
  from new_engine_ok[OF system_engine_conf_ok(1), where assetId = 1 and initialPrice = 5 and reportSeq = rs and bookSeq = bs and
      seedBid = sb and seedAsk = sa and k = 0] obtain b where
    b: "new_engine system_engine_conf 1 5 rs bs sb sa = Some b" "engine_inv b [] []" "ab_MarketPrice (book_abs b [] []) = 5" "ba_MarketAssetId b = 1"
    by auto
  have fds: "fst (getMaxFd True (setMaxFd True 8080 fds)) = 8080" by (simp add: getMaxFd_def setMaxFd_def getRLimit_def setrlimit_def)
  have ips: "dotted (RTE_IPV4 239 1 1 1) = ''239.1.1.1''" "dotted (RTE_IPV4 239 1 1 2) = ''239.1.1.2''" by code_simp+
  have "ba_MarketPrice b = 5" using b(3) by (simp add: book_abs_def)
  moreover obtain q mem' where q: "CreateSharedQueue True True True fresh mem = (Some q, mem')" "OpenSharedQueue True True mem' = Some q" "shm_Object mem' q = fresh"
    by (auto simp: CreateSharedQueue_def OpenSharedQueue_def Let_def)
  moreover have "MatchingEngine_init system_engine_conf seeds (True, True, True) fresh a mac lcores mainLcore True engine_main mem fds =
      Some (Started (b, Some q, mem', \<lparr> mde_BookEmitter = Some e, mde_TradeEmitter = Some t \<rparr>, setMaxFd True 8080 fds))"
    using b(1) e(1) q(1) by (simp add: MatchingEngine_init_def seeds engine_main_def)
  ultimately show ?thesis using b(2,4) fds e(2-5) ips
    by (simp add: gateway_main_def account_main_def order_state_endpoint_def order_book_endpoint_def resolve_mcast_endpoint_def
        kOrderStateMcastGroup_def kOrderStateMcastPort_def kOrderBookMcastGroup_def kOrderBookMcastPort_def)
qed

theorem deployed_engine_starts_witness:
  "\<exists>b q mem' e t fds'. MatchingEngine_init system_engine_conf (0, 0, 1, 1) (True, True, True) (channel_of (SpscQueue_init 8 no_order)) quiet_port
      [2, 0, 0, 0, 0, 1] [1, 2, 5] 2 True engine_main
      \<lparr> shm_Path = None, shm_Object = (\<lambda>_. channel_of (SpscQueue_init 8 no_order)), shm_Next = 0 \<rparr> \<lparr> fdo_Kernel = \<lparr> rl_cur = 1024, rl_max = 4096 \<rparr>, fdo_MaxFd = None \<rparr> =
      Some (Started (b, Some q, mem', \<lparr> mde_BookEmitter = Some e, mde_TradeEmitter = Some t \<rparr>, fds')) \<and> engine_inv b [] []"
  using deployed_engine_starts[of "[1, 2, 5]" 2 quiet_port "(0, 0, 1, 1)" "channel_of (SpscQueue_init 8 no_order)" "[2, 0, 0, 0, 0, 1]"
    "\<lparr> shm_Path = None, shm_Object = (\<lambda>_. channel_of (SpscQueue_init 8 no_order)), shm_Next = 0 \<rparr>"
    "\<lparr> fdo_Kernel = \<lparr> rl_cur = 1024, rl_max = 4096 \<rparr>, fdo_MaxFd = None \<rparr>"] by (auto simp: quiet_port_def)

lemma test_client_ok: "acc_ok as_ops (test_client i)" "k < MaxPositions \<Longrightarrow> holds_once (of_nat k) (test_client i)"
proof -
  show "acc_ok as_ops (test_client i)" by (simp add: acc_ok_def test_client_def pos_ok_def in_i64_def MaxPositions_def)
  assume k: "k < MaxPositions"
  have "(of_nat i :: u16) = of_nat k \<longleftrightarrow> i = k" if "i < MaxPositions" for i
    using that k by (simp add: MaxPositions_def word_of_nat_eq_iff take_bit_nat_eq_self)
  then show "holds_once (of_nat k) (test_client i)" using k unfolding holds_once_def
    by (intro exI[of _ k]) (simp add: test_client_def MaxPositions_def)
qed

text \<open>The accounts the service starts with are in the table, each visible to its readers, with nothing staged and one position of every
  asset from 0 to 15, so that settlement conserves these assets from the start.\<close>

theorem deployed_accounts_settled:
  assumes "k < MaxPositions"
  shows "\<exists>st. as_ClientStates_of MaxClients test_clients = Some st \<and> settled (of_nat k) {..<NbClients} st \<and>
    total_holding (of_nat k) {..<NbClients} st = 120000000000000 \<and>
    (\<forall>i < NbClients. as_GetClientState i st = Some (test_client i))"
proof -
  have n: "length test_clients \<le> MaxClients" by (simp add: test_clients_def NbClients_def MaxClients_def)
  have ok: "\<forall>s \<in> set test_clients. acc_ok as_ops s" by (auto simp: test_clients_def test_client_ok)
  have one: "\<exists>st. as_ClientStates_of MaxClients test_clients = Some st \<and> as_inv st i \<and> as_view st i = test_client i \<and> as_staged st i = as_view st i"
    if "i < NbClients" for i
    using as_table_of_ok[of i MaxClients test_clients, OF _ n ok] that by (auto simp: test_clients_def NbClients_def MaxClients_def)
  from one[of 0] obtain st where st: "as_ClientStates_of MaxClients test_clients = Some st" by (auto simp: NbClients_def)
  with one have v: "as_inv st i" "as_view st i = test_client i" "as_staged st i = as_view st i" if "i < NbClients" for i using that by auto
  then have get: "as_GetClientState i st = Some (test_client i)" if "i < NbClients" for i using that as_GetClientState_view by auto
  have "holding (of_nat k) (test_client i) = 10000000000000" for i
  proof -
    from test_client_ok(2)[OF assms, of i] obtain m where m: "m < MaxPositions" "\<forall>j < MaxPositions. asl_AssetId (test_client i) ! j = of_nat k \<longleftrightarrow> j = m"
      by (auto simp: holds_once_def)
    from holding_at[OF m] m(1) show ?thesis by (simp add: test_client_def MaxPositions_def)
  qed
  then have "total_holding (of_nat k) {..<NbClients} st = 120000000000000" using get by (simp add: total_holding_def NbClients_def)
  then show ?thesis using st v get test_client_ok(2)[OF assms] by (auto simp: settled_def)
qed

theorem deployed_accounts_settled_witness:
  "\<exists>st. as_ClientStates_of MaxClients test_clients = Some st \<and> settled 3 {..<NbClients} st"
  using deployed_accounts_settled[of 3] by (auto simp: MaxPositions_def)

end
