(* ===== verification/Spec2Isabelle.thy ===== *)
theory Spec2Isabelle
  imports Settlement Gateway_Links Market_Feed Market_View Feed_Monitor Shared_Memory Protocol Service_Registration
    Latency_Page Dashboard_Pages Message_Types Deployment
begin

text \<open>
  A verified model of the Naoto exchange (\<open>src/market_server\<close>, C++) and of the core of its trading dashboard
  (\<open>src/market_client\<close>).

  \<^bold>\<open>The program.\<close>  Clients connect to an order gateway (\<open>order_gateway\<close>) over TCP and log in; the gateway asks the
  account service (\<open>account_service\<close>) for the client's account and keeps a copy of it.  An order passes the gateway's
  risk check against this copy and is routed to the matching engine (\<open>matching_engine\<close>) of its market.  The engine
  executes it against its order book and publishes two numbered streams by UDP multicast: state reports (what happened to
  an order, and by how much cash and assets it moves) and book updates (the depth of a price).  The gateway and the account
  service apply the reports to their accounts; the dashboard rebuilds books, trades and balances from both streams and
  finds the services through etcd.  Threads inside a process hand messages to each other through single-producer
  single-consumer queues of pointers into object pools.

  \<^bold>\<open>Conventions.\<close>  The model is that of the default build (no \<open>NAOTO_PERF\<close>, TCP between gateway and engine) except where
  a theory names the other one: \<open>Struct_Layouts\<close> and \<open>Protocol\<close> have the structs with and without \<open>NAOTO_PERF\<close>,
  \<open>Latency_Page\<close> the page whose timestamps only that build sends, \<open>Shared_Memory\<close> the \<open>NAOTO_SHARED_MEMORY\<close> hot path.
  Unsigned fields are words of their width; \<open>int64_t\<close> is \<open>int\<close> with \<open>wrap64\<close> at every place that stores a result.  An
  operation returns \<open>None\<close> where the code would not return normally: a null pointer dereferenced, an index out of range,
  an uncaught exception, a loop that never ends (the loops are \<open>partial_function\<close>s, so no bound or fuel is chosen
  anywhere in the model of the code; only the specification of a sweep in \<open>Book_Spec\<close> counts down the orders it may meet,
  and is called with the number of resting orders).  Objects in pools are numbered, and pointers are these numbers.  What
  the operating system, the packet library, etcd, the JSON and hash libraries and the clock answer are arguments of the
  definitions.  Floating point values of the dashboard are a type parameter with the operations the code applies to them
  (\<open>double_ops\<close>: the conversion of an integer, which may round, the addition of volumes, the start of a time bucket); times and durations
  on the pages are an ordered field with a floor function.
  Template parameters (capacities, batch sizes) are arguments or lengths of arrays, so the theorems hold for every size
  that satisfies their hypotheses, those of \<open>system_conf.hpp\<close> included.

  \<^bold>\<open>Shared ground.\<close>
  \<^item> \<open>Prelude\<close>: integer types, wrap-around, list and word facts.  \<open>Wire_Types\<close>, \<open>Wire_Login\<close>, \<open>Wire_Market\<close>: the messages
    of \<open>common/include\<close> as records and their packed little-endian bytes, with the round trips; the locale \<open>sequenced\<close>
    says what the generic emitter and receiver need of a message type, interpreted by reports and by updates.
  \<^item> \<open>Struct_Layouts\<close>: the same structs as lists of members and C types, as the server, the dashboard and the feed monitor
    declare them; sizes and offsets are computed from the lists.  \<open>Protocol\<close>: sender and receiver of every message declare
    the same bytes, and what happens when only one of them is built with \<open>NAOTO_PERF\<close>.
  \<^item> \<open>Spsc_Queue\<close> (\<open>spsc_queue.hpp\<close>): all operations, and both ends interleaved access by access as a step relation;
    locale \<open>bounded_fifo\<close>.  \<open>Storage_Pools\<close> (\<open>single_threaded_storage_pool.hpp\<close>, \<open>storage_pool.hpp\<close>): locale
    \<open>object_pool\<close>, interpreted three times.  \<open>Outbox\<close>: pool and queue together, locale \<open>pooled_queue\<close>.  \<open>Consumer\<close>
    (\<open>consumer.hpp\<close>): the consuming loops.
  \<^item> \<open>Flat_Hash_Map\<close> (\<open>flat_hash_map.hpp\<close>): probing, insertion and backward-shift deletion, lane by lane; locale
    \<open>lookup_table\<close>.  \<open>Skip_List\<close> (\<open>skip_list.hpp\<close>): towers in a heap of nodes; locale \<open>ordered_map\<close>.
  \<^item> \<open>Small_Buffers\<close> (\<open>object_batch\<close>, \<open>object_buffer\<close>, \<open>bytes_buffer\<close>, \<open>sequence_ring_buffer\<close>, \<open>versioned_fd\<close>), \<open>Sockets\<close>
    (what \<open>recv\<close> does) and \<open>Sending\<close> (the loops that write whole messages).

  \<^bold>\<open>Matching engine.\<close>
  \<^item> \<open>Price_Level\<close>, \<open>Order_Book\<close>, \<open>Bid_Ask\<close>: \<open>order_node.hpp\<close>, \<open>price_level.hpp\<close>, \<open>order_book.hpp\<close>, \<open>bid_ask.hpp\<close> as they
    are: linked lists in a heap of nodes, a hash map and a skip list per side, a shared order map, pools and two outgoing
    queues, the cancellation, the two sweeps and the dispatch.
  \<^item> \<open>Book_Spec\<close> is the market without any of these: one priority list per side.  \<open>Book_Props\<close> proves of it that the sides
    stay in price-time order and never cross, that a sweep trades the smaller of the order and the acceptable liquidity,
    that reports conserve assets, and that the updates replay to the depths.  As in the code a market order stops at its price,
    a sell too, where the protocol document says otherwise.
  \<^item> \<open>Matching\<close>, \<open>Matching_Rest\<close>, \<open>Matching_Buy\<close>, \<open>Matching_Sell\<close>: the engine refines the specification, every call
    returning.  \<open>Matching_Engine\<close>: the engine as a state machine with the emitters taking messages, reachable states and
    their invariant.  \<open>Matching_Props\<close>: the properties on the operations of \<open>Bid_Ask\<close> themselves.  \<open>Message_Types\<close>: every
    price in the book and every message queued stays in the range of its field, so the packets carry it unchanged.
  \<^item> \<open>Shared_Memory\<close>: the loop around the engine in both builds, and the router writing the queue it reads
    (\<open>shared_memory_ops.hpp\<close>); both builds execute the same orders in the same order.
  \<^item> The hypothesis \<open>resources\<close> of these theorems says that the outgoing queues have room for two reports and one update per
    resting order and one more of each, and that the pools and maps can take the order; with less the engine blocks or
    dereferences null, as the error properties show.

  \<^bold>\<open>Accounts.\<close>
  \<^item> \<open>Triple_Buffer\<close> is the rotation that the \<open>ClientStates\<close> of gateway and account service share (locale
    \<open>account_buffers\<close>), \<open>Published_Accounts\<close> what their clients rely on (locale \<open>published_accounts\<close>).
  \<^item> \<open>Gateway_Accounts\<close>, \<open>Risk_Check\<close>, \<open>Gateway_Writer\<close>: the gateway's table, the risk check with its local attempts and
    the single writer that applies reports, snapshots and disconnections: a reader's copy is stable; accepted orders never
    overcommit as long as their prices are not negative and their values fit in 64 bits, which the code does not test; a late
    snapshot is published with exactly the movements the replay adds, right for the confirmed balances and not for the attempts.
  \<^item> \<open>Account_States\<close>, \<open>Account_Requests\<close>: the account service's accounts, logins, gateway connections and answers.
    \<open>Settlement\<close> follows a trade from the engine to these accounts; this theory states the resulting conservation.

  \<^bold>\<open>Connections.\<close>
  \<^item> \<open>Epoll_Server\<close> (\<open>epoll_server.hpp\<close>, \<open>.ipp\<close>): accepting, handshakes, reassembly and removal, over the locale
    \<open>epoll_handlers\<close> for the derived class; \<open>Servers\<close> has the three derived classes, their interpretations and the
    session of a client.
  \<^item> \<open>Order_Router\<close> (\<open>order_router.hpp\<close>): routing, discovery events and resending.  \<open>Gateway_Links\<close>: the confirmation
    sender, the login forwarder and the snapshot receiver.
  \<^item> \<open>Multicast\<close>, \<open>Multicast_Props\<close>, \<open>Market_Feed\<close> (\<open>udp_multicast_emitter.hpp\<close>, \<open>udp_multicast_receiver.hpp\<close> and their
    users): packets, numbering, the sequence ring; under loss, duplication and reordering the consumer sees a gap-free
    prefix of what was emitted, every call of the receiver returns, and one lost report stops the feed.  \<open>Feed_Monitor\<close>: the
    command line monitor \<open>functional_tests/receiver.c\<close> and what its count of gaps means.

  \<^bold>\<open>Start-up.\<close>
  \<^item> \<open>Process_Setup\<close>: the descriptor limit, the listening socket, the packet ports and the placement of the emitters.
    \<open>Deployment\<close>: what the three \<open>main\<close> functions construct; the sizes of \<open>system_conf.hpp\<close> satisfy the hypotheses of the
    theorems on the engine and on settlement, and the programs agree on the addresses of the feeds.
  \<^item> \<open>Service_Registration\<close>: the keys and documents the servers write to etcd and how the router reads them, from the
    listing and from the watchers; the router ends up connected to the engine of every market that registered.

  \<^bold>\<open>Dashboard.\<close>
  \<^item> \<open>Ordered_Map\<close>: \<open>std::map\<close> where its order is seen, for any strict order (locale \<open>map_order\<close>).  \<open>Service_Discovery\<close>:
    \<open>etcd_watcher.hpp\<close>, \<open>mpsc_queue.hpp\<close>.  \<open>App_State\<close>: \<open>app_state.hpp\<close>.  \<open>Trading_Session\<close>: \<open>trading_session.hpp\<close>,
    \<open>client_details_poller.hpp\<close>.  \<open>Dashboard\<close>: \<open>main.cpp\<close> and \<open>multicast_receiver.hpp\<close> without drawing.
  \<^item> \<open>App_Props\<close>, \<open>Dashboard_Props\<close>: candles are the runs of trades of a bucket, the services are those of etcd, orders and
    confirmations travel unchanged, the histories stay within their bounds.  \<open>Market_View\<close> closes the loop: after an order
    and its packets the dashboard's book shows the depths of the engine's book.
  \<^item> \<open>Latency_Page\<close>: the trade feed and the latency statistics of \<open>main.cpp\<close>: the spans of a report (wrapping \<open>int64_t\<close>
    differences), the filters, minimum, percentiles, mean, and the units a duration is written in; which entries are counted where
    and which values each summary is made of.
  \<^item> \<open>Price_Page\<close>: the price history page: tool bar, candles and quotes of the visible stretch, the window that follows the
    market, tooltip and tape.  \<open>Dashboard_Pages\<close>: the order book table, the depth chart, the trading panels, the discovery
    cards, the client lookup and the choice of the page, one frame after the other.  The quote lines of the price page
    are cut to what the
    frame before showed, and the theorem on the page says so.

  \<^bold>\<open>Not modelled.\<close>  Drawing (ImGui, ImPlot): pixels, colours, fonts and texts of the pages; what the libraries answer
  (clicks, the mouse, the limits of a plot) is an argument.  The rounding of \<open>double\<close> where times and durations are added,
  multiplied or averaged.  Taking the timestamps of \<open>NAOTO_PERF\<close>: they are copied from message to
  message and change no decision.  Starting, pinning and joining threads, the keep-alive of leases, and the inside of the
  packet, etcd, JSON and hash libraries: what they answer is an argument.  Weak memory: acquire and release accesses are
  sequentially consistent steps.  Logging has no effect on the state and is left out everywhere.
\<close>

section \<open>From the matching engine to the account service\<close>

text \<open>C3. Settlement across the system: the reports one handled order publishes, cut into any batches and
  applied by the account service's writer, leave the total holding of every asset unchanged (modulo
  \<open>2 ^ 64\<close>, the width of a balance), over any set of accounts that contains the clients of the order and
  of the resting orders, when these accounts hold the asset in one position each and have nothing staged;
  the accounts are again like this afterwards, so orders and batches follow each other.\<close>

theorem settlement_conserves_assets:
  assumes "engine_inv b LB LA" "resources order b" "ord_Action order = CANCEL \<longrightarrow> side_matches order b"
    and "finite C" "settled asset C st"
    and "book_clients (order # ab_Bids (book_abs b LB LA) @ ab_Asks (book_abs b LB LA)) \<subseteq> C"
  shows "\<exists>b' LB' LA' rs. handle_order order b = Some b' \<and> engine_inv b' LB' LA' \<and>
    ab_Reports (book_abs b' LB' LA') = ab_Reports (book_abs b LB LA) @ rs \<and>
    (\<forall>bs. concat bs = rs \<longrightarrow>
      (\<exists>st'. as_Handle_batches bs st = Some st' \<and> settled asset C st' \<and>
        total_holding asset C st' mod 2 ^ 64 = total_holding asset C st mod 2 ^ 64))"
proof -
  from handle_order_named[OF assms(1-3)] obtain b' LB' LA' rs us where
    b': "handle_order order b = Some b'" "engine_inv b' LB' LA'" "published (book_abs b LB LA) (book_abs b' LB' LA') rs us"
    and "\<forall>r \<in> set rs. unat (rep_ClientId r) \<in> book_clients (order # ab_Bids (book_abs b LB LA) @ ab_Asks (book_abs b LB LA))" by blast
  then have "\<forall>r \<in> set rs. unat (rep_ClientId r) \<in> C" using assms(6) by blast
  with settle_published[OF assms(4,5) b'(3)] b' show ?thesis unfolding published_def by metis
qed

theorem settlement_conserves_assets_witness:
  "\<exists>LB LA b' LB' LA' st st' rs. handle_order demo_buy demo_book = Some b' \<and>
     ab_Reports (book_abs b' LB' LA') = ab_Reports (book_abs demo_book LB LA) @ rs \<and>
     as_ClientStates_of 3 (map holder [0, 1, 2]) = Some st \<and>
     as_Handle_batches [take 1 rs, drop 1 rs] st = Some st' \<and>
     total_holding 1 {..<3} st' mod 2 ^ 64 = total_holding 1 {..<3} st mod 2 ^ 64"
proof -
  obtain LB LA where i: "engine_inv demo_book LB LA" "ab_Bids (book_abs demo_book LB LA) = []"
    "ab_Asks (book_abs demo_book LB LA) = [demo_sell]" using demo_book_ok(2) by blast
  have c: "ord_Action demo_buy = CANCEL \<longrightarrow> side_matches demo_buy demo_book" by (simp add: demo_buy_def demo_order_def)
  from holders_settled[of 1] obtain st where
    st: "as_ClientStates_of 3 (map holder [0, 1, 2]) = Some st" "settled 1 {..<3} st" by (auto simp: MaxPositions_def)
  have cl: "book_clients (demo_buy # ab_Bids (book_abs demo_book LB LA) @ ab_Asks (book_abs demo_book LB LA)) \<subseteq> {..<3}"
    by (simp add: i book_clients_def demo_buy_def demo_sell_def demo_order_def)
  have two: "concat [take 1 rs, drop 1 rs] = rs" for rs :: "OrderStateReport list" by simp
  from settlement_conserves_assets[OF i(1) demo_resources(2) c finite_lessThan st(2) cl] two st(1) show ?thesis by metis
qed

end
